(* ===== verification/Prelude.thy ===== *)
theory Prelude
  imports Main "HOL-Library.Word"
begin

text \<open>
  Shared vocabulary of the development: the machine types of the Rust sources, saturating
  arithmetic on \<open>u16\<close>, the parts of Rust's \<open>char\<close> and slice API the sources use, and the
  collections of facts the component theories extend.

  Conventions.  A byte is an \<open>8 word\<close>.  A \<open>char\<close> is its scalar value, a \<open>nat\<close>; a
  \<open>String\<close> is the list of its scalar values.  Screen coordinates and CSI parameters are
  \<open>u16\<close> in the sources; here they are \<open>nat\<close>, every saturating operation is written
  out, and the component invariants keep them in range.
\<close>

unbundle bit_operations_syntax

section \<open>Machine types\<close>

type_synonym u8 = "8 word"
type_synonym u32 = "32 word"
type_synonym uchar = nat
type_synonym ustring = "nat list"

abbreviation (input) u16_max :: nat where
  "u16_max \<equiv> 65535"

text \<open>\<open>u16::saturating_add\<close>; \<open>u16::saturating_sub\<close> is the subtraction of \<open>nat\<close>.\<close>

definition sat_add16 :: "nat \<Rightarrow> nat \<Rightarrow> nat" where
  "sat_add16 a b = min u16_max (a + b)"

lemma sat_add16_le [simp]: "sat_add16 a b \<le> u16_max"
  by (simp add: sat_add16_def)

text \<open>\<open>u64::saturating_add(1)\<close>, for the monotone counters.\<close>

definition sat_inc64 :: "nat \<Rightarrow> nat" where
  "sat_inc64 n = min (2 ^ 64 - 1) (n + 1)"

lemma sat_inc64_mono: "n \<le> 2 ^ 64 - 1 \<Longrightarrow> n \<le> sat_inc64 n"
  by (simp add: sat_inc64_def)

section \<open>Collections\<close>

named_theorems wf_intros \<open>preservation of a well-formedness invariant by an operation\<close>
named_theorems frame \<open>fields an operation leaves alone\<close>
named_theorems mask_simps \<open>masks and shifts of bytes as arithmetic\<close>

section \<open>Masks and shifts of bytes\<close>

lemma unat_and_mask: "unat (b AND mask n :: 'a::len word) = unat b mod 2 ^ n"
  by (simp only: take_bit_eq_mask [symmetric] unsigned_take_bit_eq) (simp add: take_bit_eq_mod)

lemma unat_and_63 [mask_simps]: "unat ((b :: 'a::len word) AND 0x3F) = unat b mod 64"
  using unat_and_mask [of b 6] by (simp add: mask_eq_exp_minus_1)

lemma unat_and_31 [mask_simps]: "unat ((b :: 'a::len word) AND 0x1F) = unat b mod 32"
  using unat_and_mask [of b 5] by (simp add: mask_eq_exp_minus_1)

lemma unat_and_15 [mask_simps]: "unat ((b :: 'a::len word) AND 0x0F) = unat b mod 16"
  using unat_and_mask [of b 4] by (simp add: mask_eq_exp_minus_1)

lemma unat_and_7 [mask_simps]: "unat ((b :: 'a::len word) AND 0x07) = unat b mod 8"
  using unat_and_mask [of b 3] by (simp add: mask_eq_exp_minus_1)

lemma unat_u8_lt [simp]: "unat (b :: u8) < 256"
  using unsigned_less [of b] by simp

lemma unat_ucast_u8 [simp]: "unat (ucast (b :: u8) :: u32) = unat b"
  by (simp add: unsigned_ucast_eq take_bit_nat_eq_self_iff less_trans [OF unat_u8_lt])

lemma u8_eq_iff: "(a :: u8) = b \<longleftrightarrow> unat a = unat b"
  by (simp add: word_unat_eq_iff)

text \<open>The continuation-byte test \<open>b & 0xC0 == 0x80\<close>.\<close>

lemma u8_exhaust:
  assumes "\<forall>n \<in> set [0..<256]. P (of_nat n :: u8)"
  shows "P b"
proof -
  have "P (of_nat (unat b))"
    by (rule bspec [OF assms]) (simp only: atLeast_upt [symmetric] lessThan_iff unat_u8_lt)
  then show ?thesis by simp
qed

lemma and_192_eq: "(b AND 0xC0 = (0x80 :: u8)) \<longleftrightarrow> unat b div 64 = 2"
  by (rule u8_exhaust [of "\<lambda>b. (b AND 0xC0 = 0x80) \<longleftrightarrow> unat b div 64 = 2"]) code_simp

section \<open>Rust's char\<close>

text \<open>\<open>char::from_u32\<close>: a scalar value is a code point that is not a surrogate.\<close>

definition is_scalar :: "nat \<Rightarrow> bool" where
  "is_scalar c \<longleftrightarrow> c < 0xD800 \<or> (0xDFFF < c \<and> c \<le> 0x10FFFF)"

definition from_u32 :: "nat \<Rightarrow> uchar option" where
  "from_u32 c = (if is_scalar c then Some c else None)"

text \<open>\<open>char::encode_utf8\<close>: the shortest encoding of a scalar value.\<close>

definition encode_utf8 :: "uchar \<Rightarrow> u8 list" where
  "encode_utf8 c =
     (if c < 0x80 then [of_nat c]
      else if c < 0x800 then [of_nat (0xC0 + c div 64), of_nat (0x80 + c mod 64)]
      else if c < 0x10000
        then [of_nat (0xE0 + c div 4096), of_nat (0x80 + c div 64 mod 64), of_nat (0x80 + c mod 64)]
      else [of_nat (0xF0 + c div 262144), of_nat (0x80 + c div 4096 mod 64),
            of_nat (0x80 + c div 64 mod 64), of_nat (0x80 + c mod 64)])"

lemma unat_of_nat_u8 [simp]: "n < 256 \<Longrightarrow> unat (of_nat n :: u8) = n"
  by (simp add: unsigned_of_nat take_bit_nat_eq_self)

section \<open>Slices\<close>

text \<open>\<open>&xs[i..i+n]\<close>, and \<open>xs[i..i+len].copy_from_slice(ys)\<close> for a range inside the vector.\<close>

definition slice :: "'a list \<Rightarrow> nat \<Rightarrow> nat \<Rightarrow> 'a list" where
  "slice xs i n = take n (drop i xs)"

definition blit :: "'a list \<Rightarrow> nat \<Rightarrow> 'a list \<Rightarrow> 'a list" where
  "blit xs i ys = take i xs @ ys @ drop (i + length ys) xs"

lemma length_slice [simp]: "i + n \<le> length xs \<Longrightarrow> length (slice xs i n) = n"
  by (simp add: slice_def)

lemma nth_slice [simp]: "i + n \<le> length xs \<Longrightarrow> k < n \<Longrightarrow> slice xs i n ! k = xs ! (i + k)"
  by (simp add: slice_def)

lemma length_blit [simp]: "i + length ys \<le> length xs \<Longrightarrow> length (blit xs i ys) = length xs"
  by (simp add: blit_def)

lemma nth_blit:
  "i + length ys \<le> length xs \<Longrightarrow> k < length xs \<Longrightarrow>
   blit xs i ys ! k = (if i \<le> k \<and> k < i + length ys then ys ! (k - i) else xs ! k)"
  by (auto simp: blit_def nth_append)

lemma slice_blit_same:
  "i + length ys \<le> length xs \<Longrightarrow> slice (blit xs i ys) i (length ys) = ys"
  by (simp add: slice_def blit_def)

lemma slice_blit_other:
  "i + length ys \<le> length xs \<Longrightarrow> j + n \<le> length xs \<Longrightarrow> j + n \<le> i \<or> i + length ys \<le> j \<Longrightarrow>
   slice (blit xs i ys) j n = slice xs j n"
  by (rule nth_equalityI) (auto simp: nth_blit)

lemma take_Suc_update: "n < length xs \<Longrightarrow> take (Suc n) (xs[n := y]) = take n xs @ [y]"
  by (simp add: take_Suc_conv_app_nth)

end
