(* ===== verification/Parser.thy ===== *)
theory Parser
  imports Prelude
begin

text \<open>
  The byte-stream tokenizer of \<open>crates/marspot-term/src/parser.rs\<close>: Williams' DEC/ANSI state
  machine with the UTF-8 accumulator inside \<open>Ground\<close>.  The record \<open>parser\<close> has the fields
  of \<open>struct Parser\<close>, fixed arrays as lists of their length; each method is a function from
  the parser and a byte to the parser and the callbacks it made, in order.
\<close>

section \<open>State\<close>

abbreviation (input) MAX_PARAMS :: nat where "MAX_PARAMS \<equiv> 16"
abbreviation (input) MAX_INTERMEDIATES :: nat where "MAX_INTERMEDIATES \<equiv> 4"
abbreviation (input) MAX_OSC_LEN :: nat where "MAX_OSC_LEN \<equiv> 4096"
abbreviation (input) REPLACEMENT_CHAR :: uchar where "REPLACEMENT_CHAR \<equiv> 0xFFFD"

text \<open>The calls of the trait \<open>ParserCallbacks\<close>.\<close>

datatype event =
    Print uchar
  | Execute u8
  | EscDispatch "u8 list" u8
  | CsiDispatch "nat list" "bool list" "u8 list" u8
  | OscDispatch "u8 list"

datatype pstate =
    Ground | Escape | EscapeIntermediate | CsiEntry | CsiParam | CsiIntermediate
  | CsiIgnore | OscString | StringIgnore

record parser =
  p_state :: pstate
  p_intermediates :: "u8 list"
  p_intermediates_len :: nat
  p_params :: "nat list"
  p_subs :: "bool list"
  p_next_is_sub :: bool
  p_params_len :: nat
  p_current_param :: nat
  p_has_current_param :: bool
  p_osc_buffer :: "u8 list"
  p_utf8_remaining :: nat
  p_utf8_codepoint :: u32

definition parser_new :: parser where
  "parser_new =
     \<lparr>p_state = Ground,
      p_intermediates = replicate MAX_INTERMEDIATES 0, p_intermediates_len = 0,
      p_params = replicate MAX_PARAMS 0, p_subs = replicate MAX_PARAMS False,
      p_next_is_sub = False, p_params_len = 0,
      p_current_param = 0, p_has_current_param = False,
      p_osc_buffer = [], p_utf8_remaining = 0, p_utf8_codepoint = 0\<rparr>"

definition in_ground_plain :: "parser \<Rightarrow> bool" where
  "in_ground_plain p \<longleftrightarrow> p_state p = Ground \<and> p_utf8_remaining p = 0"

section \<open>Helpers\<close>

definition reset_seq :: "parser \<Rightarrow> parser" where
  "reset_seq p =
     (let p = p\<lparr>p_intermediates_len := 0, p_params_len := 0, p_current_param := 0,
                p_has_current_param := False, p_next_is_sub := False, p_osc_buffer := []\<rparr>
      in if p_utf8_remaining p > 0 then p\<lparr>p_utf8_remaining := 0, p_utf8_codepoint := 0\<rparr> else p)"

definition collect_intermediate :: "parser \<Rightarrow> u8 \<Rightarrow> parser" where
  "collect_intermediate p b =
     (if p_intermediates_len p < MAX_INTERMEDIATES
      then p\<lparr>p_intermediates := (p_intermediates p)[p_intermediates_len p := b],
             p_intermediates_len := p_intermediates_len p + 1\<rparr>
      else p)"

definition intermediates_slice :: "parser \<Rightarrow> u8 list" where
  "intermediates_slice p = take (p_intermediates_len p) (p_intermediates p)"

definition start_param_digit :: "parser \<Rightarrow> u8 \<Rightarrow> parser" where
  "start_param_digit p b =
     p\<lparr>p_current_param := unat (b - 0x30), p_has_current_param := True\<rparr>"

definition continue_param_digit :: "parser \<Rightarrow> u8 \<Rightarrow> parser" where
  "continue_param_digit p b =
     (let next = p_current_param p * 10 + unat (b - 0x30)
      in p\<lparr>p_current_param := min next u16_max, p_has_current_param := True\<rparr>)"

definition commit_param :: "parser \<Rightarrow> parser" where
  "commit_param p =
     (let p = (if p_params_len p < MAX_PARAMS
               then p\<lparr>p_params := (p_params p)[p_params_len p := p_current_param p mod 2 ^ 16],
                      p_subs := (p_subs p)[p_params_len p := p_next_is_sub p],
                      p_params_len := p_params_len p + 1\<rparr>
               else p)
      in p\<lparr>p_current_param := 0, p_has_current_param := False, p_next_is_sub := False\<rparr>)"

definition commit_param_if_pending :: "parser \<Rightarrow> parser" where
  "commit_param_if_pending p = (if p_has_current_param p then commit_param p else p)"

definition params_slice :: "parser \<Rightarrow> nat list" where
  "params_slice p = take (p_params_len p) (p_params p)"

definition subs_slice :: "parser \<Rightarrow> bool list" where
  "subs_slice p = take (p_params_len p) (p_subs p)"

definition open_sub_param :: "parser \<Rightarrow> parser" where
  "open_sub_param p = (commit_param p)\<lparr>p_next_is_sub := True\<rparr>"

section \<open>The states\<close>

text \<open>The C0 controls every state but the strings executes: \<open>0x00..=0x17 | 0x19 | 0x1C..=0x1F\<close>.\<close>

definition c0_exec :: "u8 \<Rightarrow> bool" where
  "c0_exec b \<longleftrightarrow> b \<le> 0x17 \<or> b = 0x19 \<or> (0x1C \<le> b \<and> b \<le> 0x1F)"

definition within :: "u8 \<Rightarrow> u8 \<Rightarrow> u8 \<Rightarrow> bool" where
  "within lo hi b \<longleftrightarrow> lo \<le> b \<and> b \<le> hi"

text \<open>\<open>Parser::ground\<close> from the \<open>match byte\<close> on, with no UTF-8 sequence in flight.\<close>

definition ground_plain :: "parser \<Rightarrow> u8 \<Rightarrow> parser \<times> event list" where
  "ground_plain p b =
     (if c0_exec b then (p, [Execute b])
      else if within 0x20 0x7E b then (p, [Print (unat b)])
      else if b = 0x7F then (p, [])
      else if within 0xC2 0xDF b
        then (p\<lparr>p_utf8_remaining := 1, p_utf8_codepoint := ucast (b AND 0x1F)\<rparr>, [])
      else if within 0xE0 0xEF b
        then (p\<lparr>p_utf8_remaining := 2, p_utf8_codepoint := ucast (b AND 0x0F)\<rparr>, [])
      else if within 0xF0 0xF4 b
        then (p\<lparr>p_utf8_remaining := 3, p_utf8_codepoint := ucast (b AND 0x07)\<rparr>, [])
      else if within 0x80 0xC1 b \<or> 0xF5 \<le> b then (p, [Print REPLACEMENT_CHAR])
      else (p, []))"

definition ground :: "parser \<Rightarrow> u8 \<Rightarrow> parser \<times> event list" where
  "ground p b =
     (if p_utf8_remaining p > 0 then
        if b AND 0xC0 = 0x80 then
          let cp = push_bit 6 (p_utf8_codepoint p) OR ucast (b AND 0x3F);
              n = p_utf8_remaining p - 1
          in if n = 0
             then (p\<lparr>p_utf8_remaining := 0, p_utf8_codepoint := 0\<rparr>,
                   [Print (case from_u32 (unat cp) of Some c \<Rightarrow> c | None \<Rightarrow> REPLACEMENT_CHAR)])
             else (p\<lparr>p_utf8_remaining := n, p_utf8_codepoint := cp\<rparr>, [])
        else
          let (p', evs) = ground_plain (p\<lparr>p_utf8_remaining := 0, p_utf8_codepoint := 0\<rparr>) b
          in (p', Print REPLACEMENT_CHAR # evs)
      else ground_plain p b)"

definition escape :: "parser \<Rightarrow> u8 \<Rightarrow> parser \<times> event list" where
  "escape p b =
     (if c0_exec b then (p, [Execute b])
      else if within 0x20 0x2F b then ((collect_intermediate p b)\<lparr>p_state := EscapeIntermediate\<rparr>, [])
      else if within 0x30 0x4F b \<or> within 0x51 0x57 b \<or> b = 0x59 \<or> b = 0x5A \<or> b = 0x5C
              \<or> within 0x60 0x7E b
        then (p\<lparr>p_state := Ground\<rparr>, [EscDispatch (intermediates_slice p) b])
      else if b = 0x5B then (p\<lparr>p_state := CsiEntry\<rparr>, [])
      else if b = 0x5D then (p\<lparr>p_osc_buffer := [], p_state := OscString\<rparr>, [])
      else if b = 0x50 \<or> b = 0x58 \<or> b = 0x5E \<or> b = 0x5F then (p\<lparr>p_state := StringIgnore\<rparr>, [])
      else if b = 0x7F then (p, [])
      else if b = 0x18 \<or> b = 0x1A \<or> b = 0x1B then (p, [])
      else (p\<lparr>p_state := Ground\<rparr>, []))"

definition escape_intermediate :: "parser \<Rightarrow> u8 \<Rightarrow> parser \<times> event list" where
  "escape_intermediate p b =
     (if c0_exec b then (p, [Execute b])
      else if within 0x20 0x2F b then (collect_intermediate p b, [])
      else if within 0x30 0x7E b
        then (p\<lparr>p_state := Ground\<rparr>, [EscDispatch (intermediates_slice p) b])
      else if b = 0x7F then (p, [])
      else if b = 0x18 \<or> b = 0x1A \<or> b = 0x1B then (p, [])
      else (p\<lparr>p_state := Ground\<rparr>, []))"

text \<open>\<open>cb.csi_dispatch(params, subs, intermediates, byte)\<close> and back to \<open>Ground\<close>.\<close>

definition dispatch_csi :: "parser \<Rightarrow> u8 \<Rightarrow> parser \<times> event list" where
  "dispatch_csi p b =
     (p\<lparr>p_state := Ground\<rparr>,
      [CsiDispatch (params_slice p) (subs_slice p) (intermediates_slice p) b])"

definition csi_entry :: "parser \<Rightarrow> u8 \<Rightarrow> parser \<times> event list" where
  "csi_entry p b =
     (if c0_exec b then (p, [Execute b])
      else if within 0x30 0x39 b then ((start_param_digit p b)\<lparr>p_state := CsiParam\<rparr>, [])
      else if b = 0x3B then ((commit_param p)\<lparr>p_state := CsiParam\<rparr>, [])
      else if b = 0x3A then ((open_sub_param p)\<lparr>p_state := CsiParam\<rparr>, [])
      else if within 0x3C 0x3F b then ((collect_intermediate p b)\<lparr>p_state := CsiParam\<rparr>, [])
      else if within 0x20 0x2F b
        then ((collect_intermediate p b)\<lparr>p_state := CsiIntermediate\<rparr>, [])
      else if within 0x40 0x7E b then dispatch_csi p b
      else if b = 0x7F then (p, [])
      else if b = 0x18 \<or> b = 0x1A \<or> b = 0x1B then (p, [])
      else (p\<lparr>p_state := CsiIgnore\<rparr>, []))"

definition csi_param :: "parser \<Rightarrow> u8 \<Rightarrow> parser \<times> event list" where
  "csi_param p b =
     (if c0_exec b then (p, [Execute b])
      else if within 0x30 0x39 b then (continue_param_digit p b, [])
      else if b = 0x3A then (open_sub_param p, [])
      else if b = 0x3B then (commit_param p, [])
      else if within 0x3C 0x3F b then (p\<lparr>p_state := CsiIgnore\<rparr>, [])
      else if within 0x20 0x2F b
        then ((collect_intermediate (commit_param_if_pending p) b)\<lparr>p_state := CsiIntermediate\<rparr>, [])
      else if within 0x40 0x7E b then dispatch_csi (commit_param_if_pending p) b
      else if b = 0x7F then (p, [])
      else if b = 0x18 \<or> b = 0x1A \<or> b = 0x1B then (p, [])
      else (p\<lparr>p_state := CsiIgnore\<rparr>, []))"

definition csi_intermediate :: "parser \<Rightarrow> u8 \<Rightarrow> parser \<times> event list" where
  "csi_intermediate p b =
     (if c0_exec b then (p, [Execute b])
      else if within 0x20 0x2F b then (collect_intermediate p b, [])
      else if within 0x40 0x7E b then dispatch_csi p b
      else if within 0x30 0x3F b then (p\<lparr>p_state := CsiIgnore\<rparr>, [])
      else if b = 0x7F then (p, [])
      else if b = 0x18 \<or> b = 0x1A \<or> b = 0x1B then (p, [])
      else (p\<lparr>p_state := CsiIgnore\<rparr>, []))"

definition csi_ignore :: "parser \<Rightarrow> u8 \<Rightarrow> parser" where
  "csi_ignore p b = (if within 0x40 0x7E b then p\<lparr>p_state := Ground\<rparr> else p)"

definition osc_string :: "parser \<Rightarrow> u8 \<Rightarrow> parser \<times> event list" where
  "osc_string p b =
     (if b = 0x07 then (p\<lparr>p_state := Ground\<rparr>, [OscDispatch (p_osc_buffer p)])
      else if length (p_osc_buffer p) < MAX_OSC_LEN
        then (p\<lparr>p_osc_buffer := p_osc_buffer p @ [b]\<rparr>, [])
      else (p, []))"

definition advance :: "parser \<Rightarrow> u8 \<Rightarrow> parser \<times> event list" where
  "advance p b =
     (if b = 0x18 \<or> b = 0x1A then ((reset_seq p)\<lparr>p_state := Ground\<rparr>, [Execute b])
      else if b = 0x1B then
        ((reset_seq p)\<lparr>p_state := Escape\<rparr>,
         (if p_state p = OscString then [OscDispatch (p_osc_buffer p)] else []))
      else case p_state p of
             Ground \<Rightarrow> ground p b
           | Escape \<Rightarrow> escape p b
           | EscapeIntermediate \<Rightarrow> escape_intermediate p b
           | CsiEntry \<Rightarrow> csi_entry p b
           | CsiParam \<Rightarrow> csi_param p b
           | CsiIntermediate \<Rightarrow> csi_intermediate p b
           | CsiIgnore \<Rightarrow> (csi_ignore p b, [])
           | OscString \<Rightarrow> osc_string p b
           | StringIgnore \<Rightarrow> (p, []))"

text \<open>A run of \<open>advance\<close> over a chunk, collecting the callbacks.\<close>

fun parse_bytes :: "parser \<Rightarrow> u8 list \<Rightarrow> parser \<times> event list" where
  "parse_bytes p [] = (p, [])"
| "parse_bytes p (b # bs) =
     (let (p1, e1) = advance p b; (p2, e2) = parse_bytes p1 bs in (p2, e1 @ e2))"

text \<open>Evaluation of the parser on concrete bytes, by \<open>simp add: parser_eval\<close>.\<close>

lemmas parser_eval =
  parser_new_def advance_def reset_seq_def ground_def ground_plain_def escape_def
  escape_intermediate_def csi_entry_def csi_param_def csi_intermediate_def csi_ignore_def
  osc_string_def dispatch_csi_def collect_intermediate_def start_param_digit_def
  continue_param_digit_def commit_param_def commit_param_if_pending_def open_sub_param_def
  intermediates_slice_def params_slice_def subs_slice_def c0_exec_def within_def
  from_u32_def is_scalar_def

section \<open>Bounds\<close>

definition parser_wf :: "parser \<Rightarrow> bool" where
  "parser_wf p \<longleftrightarrow>
     length (p_intermediates p) = MAX_INTERMEDIATES \<and> p_intermediates_len p \<le> MAX_INTERMEDIATES \<and>
     length (p_params p) = MAX_PARAMS \<and> length (p_subs p) = MAX_PARAMS \<and>
     p_params_len p \<le> MAX_PARAMS \<and> (\<forall>x \<in> set (p_params p). x \<le> u16_max) \<and>
     p_current_param p \<le> u16_max \<and> length (p_osc_buffer p) \<le> MAX_OSC_LEN \<and>
     p_utf8_remaining p \<le> 3"

definition event_wf :: "event \<Rightarrow> bool" where
  "event_wf e =
     (case e of
        Print c \<Rightarrow> is_scalar c
      | Execute b \<Rightarrow> True
      | EscDispatch is b \<Rightarrow> length is \<le> MAX_INTERMEDIATES
      | CsiDispatch ps ss is b \<Rightarrow>
          length ps = length ss \<and> length ps \<le> MAX_PARAMS \<and> (\<forall>x \<in> set ps. x \<le> u16_max) \<and>
          length is \<le> MAX_INTERMEDIATES
      | OscDispatch bs \<Rightarrow> length bs \<le> MAX_OSC_LEN)"

lemma parser_new_wf [wf_intros]: "parser_wf parser_new"
  by (simp add: parser_wf_def parser_new_def)

lemma reset_seq_wf [wf_intros]: "parser_wf p \<Longrightarrow> parser_wf (reset_seq p)"
  by (simp add: parser_wf_def reset_seq_def Let_def)

lemma collect_intermediate_wf [wf_intros]: "parser_wf p \<Longrightarrow> parser_wf (collect_intermediate p b)"
  by (simp add: parser_wf_def collect_intermediate_def)

lemma digit_le: "within 0x30 0x39 b \<Longrightarrow> unat (b - 0x30) \<le> 9"
  unfolding within_def by unat_arith

lemma start_param_digit_wf [wf_intros]: "parser_wf p \<Longrightarrow> parser_wf (start_param_digit p b)"
  using unat_u8_lt [of "b - 0x30"] by (simp add: parser_wf_def start_param_digit_def del: unat_u8_lt)

lemma continue_param_digit_wf [wf_intros]: "parser_wf p \<Longrightarrow> parser_wf (continue_param_digit p b)"
  by (simp add: parser_wf_def continue_param_digit_def Let_def)

lemma commit_param_wf [wf_intros]: "parser_wf p \<Longrightarrow> parser_wf (commit_param p)"
  by (auto simp: parser_wf_def commit_param_def Let_def dest: set_update_subset_insert [THEN subsetD])

lemma commit_param_if_pending_wf [wf_intros]: "parser_wf p \<Longrightarrow> parser_wf (commit_param_if_pending p)"
  by (simp add: commit_param_if_pending_def commit_param_wf)

lemma open_sub_param_wf [wf_intros]: "parser_wf p \<Longrightarrow> parser_wf (open_sub_param p)"
  using commit_param_wf [of p] by (simp add: parser_wf_def open_sub_param_def)

lemma p_state_wf [wf_intros]: "parser_wf p \<Longrightarrow> parser_wf (p\<lparr>p_state := s\<rparr>)"
  by (simp add: parser_wf_def)

lemma p_next_is_sub_wf [wf_intros]: "parser_wf p \<Longrightarrow> parser_wf (p\<lparr>p_next_is_sub := x\<rparr>)"
  by (simp add: parser_wf_def)

lemma p_utf8_wf [wf_intros]:
  "parser_wf p \<Longrightarrow> n \<le> 3 \<Longrightarrow> parser_wf (p\<lparr>p_utf8_remaining := n, p_utf8_codepoint := c\<rparr>)"
  by (simp add: parser_wf_def)

lemma p_osc_wf [wf_intros]:
  "parser_wf p \<Longrightarrow> length bs \<le> MAX_OSC_LEN \<Longrightarrow> parser_wf (p\<lparr>p_osc_buffer := bs\<rparr>)"
  by (simp add: parser_wf_def)

text \<open>A step that keeps the invariant and makes only well-formed callbacks.\<close>

definition step_ok :: "parser \<times> event list \<Rightarrow> bool" where
  "step_ok r \<longleftrightarrow> parser_wf (fst r) \<and> (\<forall>e \<in> set (snd r). event_wf e)"

lemma step_okI [intro]:
  "parser_wf p \<Longrightarrow> \<forall>e \<in> set evs. event_wf e \<Longrightarrow> step_ok (p, evs)"
  by (simp add: step_ok_def)

lemma event_wf_simps [simp]:
  "event_wf (Print c) = is_scalar c"
  "event_wf (Execute b)"
  "event_wf (EscDispatch is b) = (length is \<le> MAX_INTERMEDIATES)"
  "event_wf (OscDispatch bs) = (length bs \<le> MAX_OSC_LEN)"
  by (simp_all add: event_wf_def)

lemma byte_is_scalar [simp]: "is_scalar (unat (b :: u8))"
  using unat_u8_lt [of b] by (simp add: is_scalar_def del: unat_u8_lt)

lemma replacement_is_scalar [simp]: "is_scalar REPLACEMENT_CHAR"
  by (simp add: is_scalar_def)

lemma from_u32_scalar: "is_scalar (case from_u32 n of Some c \<Rightarrow> c | None \<Rightarrow> REPLACEMENT_CHAR)"
  by (simp add: from_u32_def)

lemma length_intermediates_slice: "parser_wf p \<Longrightarrow> length (intermediates_slice p) \<le> MAX_INTERMEDIATES"
  by (simp add: parser_wf_def intermediates_slice_def)

lemma osc_buffer_le: "parser_wf p \<Longrightarrow> length (p_osc_buffer p) \<le> MAX_OSC_LEN"
  by (simp add: parser_wf_def)

lemma dispatch_csi_ok: "parser_wf p \<Longrightarrow> step_ok (dispatch_csi p b)"
  by (auto simp: step_ok_def dispatch_csi_def event_wf_def params_slice_def subs_slice_def
      parser_wf_def intermediates_slice_def dest: in_set_takeD)

lemma ground_plain_ok: "parser_wf p \<Longrightarrow> step_ok (ground_plain p b)"
  by (simp add: ground_plain_def step_ok_def wf_intros)

lemma ground_ok:
  assumes "parser_wf p"
  shows "step_ok (ground p b)"
proof -
  let ?q = "p\<lparr>p_utf8_remaining := 0, p_utf8_codepoint := 0\<rparr>"
  have "step_ok (ground_plain ?q b)"
    using assms by (intro ground_plain_ok) (simp add: wf_intros)
  moreover have "p_utf8_remaining p - 1 \<le> 3" using assms unfolding parser_wf_def by linarith
  ultimately show ?thesis
    using assms ground_plain_ok [of p b]
    by (auto simp: ground_def step_ok_def wf_intros from_u32_scalar Let_def split: prod.splits)
qed

lemma escape_ok: "parser_wf p \<Longrightarrow> step_ok (escape p b)"
  by (simp add: escape_def step_okI wf_intros p_osc_wf [of p "[]", THEN p_state_wf, simplified]
      length_intermediates_slice)

lemma escape_intermediate_ok: "parser_wf p \<Longrightarrow> step_ok (escape_intermediate p b)"
  by (simp add: escape_intermediate_def step_okI wf_intros length_intermediates_slice)

lemma csi_entry_ok: "parser_wf p \<Longrightarrow> step_ok (csi_entry p b)"
  by (simp add: csi_entry_def step_okI wf_intros dispatch_csi_ok)

lemma csi_param_ok: "parser_wf p \<Longrightarrow> step_ok (csi_param p b)"
  by (simp add: csi_param_def step_okI wf_intros dispatch_csi_ok)

lemma csi_intermediate_ok: "parser_wf p \<Longrightarrow> step_ok (csi_intermediate p b)"
  by (simp add: csi_intermediate_def step_okI wf_intros dispatch_csi_ok)

lemma osc_string_ok: "parser_wf p \<Longrightarrow> step_ok (osc_string p b)"
  by (simp add: osc_string_def step_okI wf_intros osc_buffer_le)

lemma advance_ok: "parser_wf p \<Longrightarrow> step_ok (advance p b)"
  by (simp add: advance_def step_okI wf_intros osc_buffer_le ground_ok escape_ok
      escape_intermediate_ok csi_entry_ok csi_param_ok csi_intermediate_ok osc_string_ok
      csi_ignore_def split: pstate.split)

lemma parse_bytes_ok: "parser_wf p \<Longrightarrow> step_ok (parse_bytes p bs)"
proof (induction bs arbitrary: p)
  case Nil
  then show ?case by auto
next
  case (Cons b bs)
  have 1: "step_ok (advance p b)" using Cons.prems by (rule advance_ok)
  moreover have "step_ok (parse_bytes (fst (advance p b)) bs)"
    using 1 by (intro Cons.IH) (simp add: step_ok_def)
  ultimately show ?case
    by (auto simp: step_ok_def Let_def split: prod.splits)
qed

section \<open>Resynchronization\<close>

text \<open>
  Two parsers that differ only in the parts no later byte reads: array entries past the
  length in use, and the code point of no sequence in flight.
\<close>

definition same_view :: "parser \<Rightarrow> parser \<Rightarrow> bool" where
  "same_view p q \<longleftrightarrow>
     p_state p = p_state q \<and>
     p_intermediates_len p = p_intermediates_len q \<and>
     intermediates_slice p = intermediates_slice q \<and>
     p_params_len p = p_params_len q \<and> params_slice p = params_slice q \<and>
     subs_slice p = subs_slice q \<and>
     p_next_is_sub p = p_next_is_sub q \<and> p_current_param p = p_current_param q \<and>
     p_has_current_param p = p_has_current_param q \<and> p_osc_buffer p = p_osc_buffer q \<and>
     p_utf8_remaining p = p_utf8_remaining q \<and>
     (p_utf8_remaining p > 0 \<longrightarrow> p_utf8_codepoint p = p_utf8_codepoint q)"

lemmas slices = intermediates_slice_def params_slice_def subs_slice_def

definition twin :: "parser \<Rightarrow> parser \<Rightarrow> bool" where
  "twin p q \<longleftrightarrow> parser_wf p \<and> parser_wf q \<and> same_view p q"

lemma same_view_slices:
  assumes "twin p q"
  shows "p_params_len p = p_params_len q" "p_intermediates_len p = p_intermediates_len q"
    "take (p_params_len q) (p_params p) = take (p_params_len q) (p_params q)"
    "take (p_params_len q) (p_subs p) = take (p_params_len q) (p_subs q)"
    "take (p_intermediates_len q) (p_intermediates p) = take (p_intermediates_len q) (p_intermediates q)"
    "length (p_params p) = MAX_PARAMS" "length (p_params q) = MAX_PARAMS"
    "length (p_subs p) = MAX_PARAMS" "length (p_subs q) = MAX_PARAMS"
    "length (p_intermediates p) = MAX_INTERMEDIATES" "length (p_intermediates q) = MAX_INTERMEDIATES"
  using assms unfolding twin_def same_view_def parser_wf_def slices by metis+

lemma twinI: "parser_wf p \<Longrightarrow> parser_wf q \<Longrightarrow> same_view p q \<Longrightarrow> twin p q"
  by (simp add: twin_def)

lemma twin_wf: "twin p q \<Longrightarrow> parser_wf p" "twin p q \<Longrightarrow> parser_wf q"
  by (simp_all add: twin_def)

lemma twin_collect_intermediate:
  assumes "twin p q"
  shows "twin (collect_intermediate p b) (collect_intermediate q b)"
proof -
  have "same_view p q" using assms by (simp add: twin_def)
  then have "same_view (collect_intermediate p b) (collect_intermediate q b)"
    using same_view_slices [OF assms]
    by (simp add: same_view_def slices collect_intermediate_def take_Suc_update)
  then show ?thesis using assms by (blast intro: twinI collect_intermediate_wf twin_wf)
qed

lemma twin_commit_param:
  assumes "twin p q"
  shows "twin (commit_param p) (commit_param q)"
proof -
  have "same_view p q" using assms by (simp add: twin_def)
  then have "same_view (commit_param p) (commit_param q)"
    using same_view_slices [OF assms]
    by (simp add: same_view_def slices commit_param_def take_Suc_update Let_def)
  then show ?thesis using assms by (blast intro: twinI commit_param_wf twin_wf)
qed

lemma twin_commit_param_if_pending:
  "twin p q \<Longrightarrow> twin (commit_param_if_pending p) (commit_param_if_pending q)"
  using twin_commit_param [of p q]
  by (auto simp: commit_param_if_pending_def twin_def same_view_def)

lemma twin_next_is_sub: "twin p q \<Longrightarrow> twin (p\<lparr>p_next_is_sub := x\<rparr>) (q\<lparr>p_next_is_sub := x\<rparr>)"
  by (auto simp: twin_def wf_intros same_view_def slices)

lemma twin_open_sub_param: "twin p q \<Longrightarrow> twin (open_sub_param p) (open_sub_param q)"
  by (simp add: open_sub_param_def twin_commit_param twin_next_is_sub)

lemma twin_start_param_digit: "twin p q \<Longrightarrow> twin (start_param_digit p b) (start_param_digit q b)"
  using start_param_digit_wf [of p b] start_param_digit_wf [of q b]
  by (auto simp: twin_def same_view_def start_param_digit_def slices)

lemma twin_continue_param_digit:
  "twin p q \<Longrightarrow> twin (continue_param_digit p b) (continue_param_digit q b)"
  using continue_param_digit_wf [of p b] continue_param_digit_wf [of q b]
  by (auto simp: twin_def same_view_def continue_param_digit_def slices Let_def)

lemma twin_state: "twin p q \<Longrightarrow> twin (p\<lparr>p_state := s\<rparr>) (q\<lparr>p_state := s\<rparr>)"
  by (auto simp: twin_def wf_intros same_view_def slices)

lemma twin_utf8:
  "twin p q \<Longrightarrow> n \<le> 3 \<Longrightarrow>
   twin (p\<lparr>p_utf8_remaining := n, p_utf8_codepoint := c\<rparr>)
        (q\<lparr>p_utf8_remaining := n, p_utf8_codepoint := c\<rparr>)"
  by (auto simp: twin_def wf_intros same_view_def slices)

lemma twin_osc:
  "twin p q \<Longrightarrow> length bs \<le> MAX_OSC_LEN \<Longrightarrow> twin (p\<lparr>p_osc_buffer := bs\<rparr>) (q\<lparr>p_osc_buffer := bs\<rparr>)"
  by (auto simp: twin_def wf_intros same_view_def slices)

lemma twin_reset_seq: "twin p q \<Longrightarrow> twin (reset_seq p) (reset_seq q)"
  using reset_seq_wf [of p] reset_seq_wf [of q]
  by (auto simp: twin_def same_view_def slices reset_seq_def Let_def)

lemmas twins = twin_collect_intermediate twin_commit_param twin_commit_param_if_pending
  twin_open_sub_param twin_start_param_digit twin_continue_param_digit twin_state twin_utf8
  twin_osc twin_reset_seq

lemma twin_fields:
  assumes "twin p q"
  shows "p_state p = p_state q" "p_osc_buffer p = p_osc_buffer q"
    "p_utf8_remaining p = p_utf8_remaining q"
    "p_utf8_remaining q > 0 \<Longrightarrow> p_utf8_codepoint p = p_utf8_codepoint q"
    "params_slice p = params_slice q" "subs_slice p = subs_slice q"
    "intermediates_slice p = intermediates_slice q"
  using assms by (auto simp: twin_def same_view_def)

definition twin_steps :: "parser \<times> event list \<Rightarrow> parser \<times> event list \<Rightarrow> bool" where
  "twin_steps r r' \<longleftrightarrow> twin (fst r) (fst r') \<and> snd r = snd r'"

lemma twin_steps_pair: "twin p q \<Longrightarrow> e = e' \<Longrightarrow> twin_steps (p, e) (q, e')"
  by (simp add: twin_steps_def)

lemma twin_dispatch_csi: "twin p q \<Longrightarrow> twin_steps (dispatch_csi p b) (dispatch_csi q b)"
  by (simp add: twin_steps_def dispatch_csi_def twins twin_fields)

lemma twin_ground_plain: "twin p q \<Longrightarrow> twin_steps (ground_plain p b) (ground_plain q b)"
  by (simp add: twin_steps_def ground_plain_def twins)

lemma twin_ground:
  assumes "twin p q"
  shows "twin_steps (ground p b) (ground q b)"
proof (cases "p_utf8_remaining q > 0")
  case True
  have "twin_steps (ground_plain (p\<lparr>p_utf8_remaining := 0, p_utf8_codepoint := 0\<rparr>) b)
          (ground_plain (q\<lparr>p_utf8_remaining := 0, p_utf8_codepoint := 0\<rparr>) b)"
    using assms by (intro twin_ground_plain twin_utf8) simp_all
  moreover have "p_utf8_remaining q - 1 \<le> 3"
    using assms unfolding twin_def parser_wf_def by linarith
  ultimately show ?thesis
    using True assms twin_fields [OF assms]
    by (auto simp: ground_def twin_steps_def twins Let_def split: prod.splits)
next
  case False
  then show ?thesis
    using twin_ground_plain [OF assms] twin_fields [OF assms] by (simp add: ground_def)
qed

lemma twin_osc_string: "twin p q \<Longrightarrow> twin_steps (osc_string p b) (osc_string q b)"
  by (auto simp: twin_steps_def osc_string_def twins twin_fields)

lemma twin_csi:
  assumes "twin p q"
  shows "twin_steps (csi_entry p b) (csi_entry q b)"
    and "twin_steps (csi_param p b) (csi_param q b)"
    and "twin_steps (csi_intermediate p b) (csi_intermediate q b)"
  by (simp_all add: csi_entry_def csi_param_def csi_intermediate_def twins assms twin_steps_pair
      twin_dispatch_csi)

lemma twin_escape:
  assumes "twin p q"
  shows "twin_steps (escape p b) (escape q b)"
    and "twin_steps (escape_intermediate p b) (escape_intermediate q b)"
  using twin_fields [OF assms] twin_state [OF twin_osc [OF assms, of "[]"], of OscString]
  by (simp_all add: escape_def escape_intermediate_def twin_steps_pair twins assms)

lemma twin_advance:
  assumes "twin p q"
  shows "twin_steps (advance p b) (advance q b)"
proof -
  have "twin_steps (csi_ignore p b, []) (csi_ignore q b, [])" "twin_steps (p, []) (q, [])"
    using assms by (simp_all add: csi_ignore_def twin_steps_def twins)
  then show ?thesis
    using assms twin_fields [OF assms]
      twin_ground [OF assms] twin_osc_string [OF assms] twin_csi [OF assms] twin_escape [OF assms]
    by (auto simp: advance_def twins split: pstate.split) (auto simp: twin_steps_def twins)
qed

lemma twin_parse_bytes: "twin p q \<Longrightarrow> twin_steps (parse_bytes p bs) (parse_bytes q bs)"
proof (induction bs arbitrary: p q)
  case Nil
  then show ?case by (simp add: twin_steps_def)
next
  case (Cons b bs)
  have "twin_steps (advance p b) (advance q b)" using Cons.prems by (rule twin_advance)
  then show ?case
    using Cons.IH [of "fst (advance p b)" "fst (advance q b)"]
    by (auto simp: twin_steps_def Let_def split: prod.splits)
qed

lemma twin_reset_new: "parser_wf p \<Longrightarrow> twin ((reset_seq p)\<lparr>p_state := s\<rparr>) ((reset_seq parser_new)\<lparr>p_state := s\<rparr>)"
  by (auto simp: twin_def wf_intros) (auto simp: same_view_def slices reset_seq_def parser_new_def Let_def)

section \<open>Decimal numbers as bytes\<close>

fun dec :: "nat \<Rightarrow> u8 list" where
  "dec n = (if n < 10 then [of_nat (0x30 + n)] else dec (n div 10) @ [of_nat (0x30 + n mod 10)])"

declare dec.simps [simp del]

lemma dec_digits: "\<forall>b \<in> set (dec n). within 0x30 0x39 b"
proof (induction n rule: dec.induct)
  case (1 n)
  have d: "within 0x30 0x39 (of_nat (0x30 + m))" if "m < 10" for m
    using that by (simp add: within_def word_le_nat_alt del: of_nat_add of_nat_numeral)
  show ?case
    using 1 d [of n] d [of "n mod 10"]
    by (cases "n < 10") (simp_all add: dec.simps [of n] del: of_nat_add)
qed

lemma of_nat_digit: "m < 10 \<Longrightarrow> unat (of_nat (0x30 + m) - 0x30 :: u8) = m"
  by simp

section \<open>Sequencing\<close>

lemma parse_bytes_append:
  "parse_bytes p (xs @ ys) =
     (let (p1, e1) = parse_bytes p xs; (p2, e2) = parse_bytes p1 ys in (p2, e1 @ e2))"
  by (induction xs arbitrary: p) (auto simp: Let_def split: prod.splits)

text \<open>A byte of a sequence body: not one of the three that act in every state.\<close>

definition body_byte :: "u8 \<Rightarrow> bool" where
  "body_byte b \<longleftrightarrow> b \<noteq> 0x18 \<and> b \<noteq> 0x1A \<and> b \<noteq> 0x1B"

lemma within_digit_facts:
  assumes "within 0x30 0x39 b"
  shows "b \<noteq> 0x18" "b \<noteq> 0x1A" "b \<noteq> 0x1B" "\<not> c0_exec b"
  using assms unfolding within_def c0_exec_def by unat_arith+

lemma advance_digit:
  assumes "within 0x30 0x39 b"
  shows "p_state p = CsiEntry \<Longrightarrow> advance p b = ((start_param_digit p b)\<lparr>p_state := CsiParam\<rparr>, [])"
    and "p_state p = CsiParam \<Longrightarrow> advance p b = (continue_param_digit p b, [])"
  using assms within_digit_facts [OF assms]
  by (simp_all add: advance_def csi_entry_def csi_param_def)

text \<open>A decimal parameter, from the start of a parameter of either state.\<close>

lemma parse_dec:
  assumes "n \<le> u16_max" "p_state p = CsiEntry \<or> p_state p = CsiParam" "p_current_param p = 0"
  shows "parse_bytes p (dec n) =
           (p\<lparr>p_state := CsiParam, p_current_param := n, p_has_current_param := True\<rparr>, [])"
  using assms
proof (induction n rule: dec.induct)
  case (1 n)
  have w: "within 0x30 0x39 (of_nat (0x30 + m))" if "m < 10" for m
    using that by (simp add: within_def word_le_nat_alt del: of_nat_add of_nat_numeral)
  show ?case
  proof (cases "n < 10")
    case True
    then show ?thesis
      using "1.prems" advance_digit [OF w [OF True]] of_nat_digit [OF True]
      by (auto simp: dec.simps [of n] start_param_digit_def continue_param_digit_def Let_def
          simp del: of_nat_add)
  next
    case False
    let ?q = "p\<lparr>p_state := CsiParam, p_current_param := n div 10, p_has_current_param := True\<rparr>"
    have "n mod 10 < 10" by simp
    note m = w [OF this] of_nat_digit [OF this]
    have "parse_bytes p (dec (n div 10)) = (?q, [])"
      using False "1.prems" by (intro "1.IH") auto
    moreover have "advance ?q (of_nat (0x30 + n mod 10)) =
        (p\<lparr>p_state := CsiParam, p_current_param := n, p_has_current_param := True\<rparr>, [])"
      using advance_digit(2) [OF m(1), of ?q] m(2) "1.prems"(1)
      by (simp add: continue_param_digit_def Let_def del: of_nat_add)
    ultimately show ?thesis
      using False by (simp add: dec.simps [of n] parse_bytes_append del: of_nat_add)
  qed
qed


section \<open>Control sequences\<close>

fun csi_tail :: "(nat \<times> bool) list \<Rightarrow> u8 list" where
  "csi_tail [] = []"
| "csi_tail ((n, sub) # ps) = (if sub then 0x3A else 0x3B) # dec n @ csi_tail ps"

fun csi_params :: "(nat \<times> bool) list \<Rightarrow> u8 list" where
  "csi_params [] = []"
| "csi_params ((n, sub) # ps) = dec n @ csi_tail ps"

definition csi_bytes :: "u8 list \<Rightarrow> (nat \<times> bool) list \<Rightarrow> u8 list \<Rightarrow> u8 \<Rightarrow> u8 list" where
  "csi_bytes pre ps is f = [0x1B, 0x5B] @ pre @ csi_params ps @ is @ [f]"

lemma slices_commit_param:
  assumes "parser_wf p" "p_params_len p < MAX_PARAMS" "p_current_param p \<le> u16_max"
  shows "params_slice (commit_param p) = params_slice p @ [p_current_param p]"
    and "subs_slice (commit_param p) = subs_slice p @ [p_next_is_sub p]"
    and "intermediates_slice (commit_param p) = intermediates_slice p"
    and "p_params_len (commit_param p) = Suc (p_params_len p)"
  using assms by (simp_all add: slices commit_param_def Let_def parser_wf_def take_Suc_update)

lemma fields_commit_param [simp]:
  "p_state (commit_param p) = p_state p"
  "p_intermediates_len (commit_param p) = p_intermediates_len p"
  "p_current_param (commit_param p) = 0"
  "p_has_current_param (commit_param p) = False"
  "p_next_is_sub (commit_param p) = False"
  "p_utf8_remaining (commit_param p) = p_utf8_remaining p"
  by (simp_all add: commit_param_def Let_def)

lemma slices_update [simp]:
  "params_slice (p\<lparr>p_state := s\<rparr>) = params_slice p"
  "subs_slice (p\<lparr>p_state := s\<rparr>) = subs_slice p"
  "intermediates_slice (p\<lparr>p_state := s\<rparr>) = intermediates_slice p"
  "params_slice (p\<lparr>p_next_is_sub := x\<rparr>) = params_slice p"
  "subs_slice (p\<lparr>p_next_is_sub := x\<rparr>) = subs_slice p"
  "intermediates_slice (p\<lparr>p_next_is_sub := x\<rparr>) = intermediates_slice p"
  "params_slice (p\<lparr>p_current_param := n\<rparr>) = params_slice p"
  "subs_slice (p\<lparr>p_current_param := n\<rparr>) = subs_slice p"
  "intermediates_slice (p\<lparr>p_current_param := n\<rparr>) = intermediates_slice p"
  "params_slice (p\<lparr>p_has_current_param := x\<rparr>) = params_slice p"
  "subs_slice (p\<lparr>p_has_current_param := x\<rparr>) = subs_slice p"
  "intermediates_slice (p\<lparr>p_has_current_param := x\<rparr>) = intermediates_slice p"
  by (simp_all add: slices)

text \<open>In the middle of a parameter: what the sequence will have dispatched once it is committed.\<close>

definition pending :: "parser \<Rightarrow> nat list \<Rightarrow> bool list \<Rightarrow> u8 list \<Rightarrow> bool" where
  "pending p ps ss is \<longleftrightarrow>
     parser_wf p \<and> p_state p = CsiParam \<and> p_has_current_param p \<and>
     params_slice p @ [p_current_param p] = ps \<and> subs_slice p @ [p_next_is_sub p] = ss \<and>
     intermediates_slice p = is \<and> p_utf8_remaining p = 0"

lemma pending_length: "pending p ps ss is \<Longrightarrow> length ps = Suc (p_params_len p)"
  by (auto simp: pending_def slices parser_wf_def)

lemma pending_separator:
  assumes "pending p ps ss is" "length ps < MAX_PARAMS"
  shows "\<exists>q. advance p (if sub then 0x3A else 0x3B) = (q, []) \<and> parser_wf q \<and>
           p_state q = CsiParam \<and> p_current_param q = 0 \<and> p_next_is_sub q = sub \<and>
           params_slice q = ps \<and> subs_slice q = ss \<and> intermediates_slice q = is \<and>
           p_utf8_remaining q = 0"
proof -
  have p: "parser_wf p" "p_state p = CsiParam" "p_current_param p \<le> u16_max"
    "p_params_len p < MAX_PARAMS" "p_utf8_remaining p = 0"
    using assms pending_length [OF assms(1)] by (auto simp: pending_def parser_wf_def)
  note c = slices_commit_param [OF p(1,4,3)]
  show ?thesis
    using assms p c commit_param_wf [OF p(1)] open_sub_param_wf [OF p(1)]
    by (auto simp: advance_def csi_param_def c0_exec_def within_def pending_def open_sub_param_def)
qed

lemma pending_tail:
  assumes "pending p qs ss is" "length qs + length ps \<le> MAX_PARAMS" "\<forall>x \<in> fst ` set ps. x \<le> u16_max"
  shows "\<exists>q. parse_bytes p (csi_tail ps) = (q, []) \<and> pending q (qs @ map fst ps) (ss @ map snd ps) is"
  using assms
proof (induction ps arbitrary: p qs ss)
  case Nil
  then show ?case by simp
next
  case (Cons a ps)
  obtain n sub where a: "a = (n, sub)" by (cases a)
  have len: "length qs < MAX_PARAMS" using Cons.prems by simp
  obtain q where q: "advance p (if sub then 0x3A else 0x3B) = (q, [])" "parser_wf q"
    "p_state q = CsiParam" "p_current_param q = 0" "p_next_is_sub q = sub"
    "params_slice q = qs" "subs_slice q = ss" "intermediates_slice q = is" "p_utf8_remaining q = 0"
    using pending_separator [OF Cons.prems(1) len, of sub] by blast
  let ?q = "q\<lparr>p_state := CsiParam, p_current_param := n, p_has_current_param := True\<rparr>"
  have n: "n \<le> u16_max" using Cons.prems a by simp
  have d: "parse_bytes q (dec n) = (?q, [])"
    using parse_dec [OF n] q by simp
  have "pending ?q (qs @ [n]) (ss @ [sub]) is"
    using q n by (simp add: pending_def parser_wf_def)
  then obtain r where "parse_bytes ?q (csi_tail ps) = (r, [])"
    "pending r ((qs @ [n]) @ map fst ps) ((ss @ [sub]) @ map snd ps) is"
    using Cons.IH [of ?q "qs @ [n]" "ss @ [sub]"] Cons.prems a by auto
  then show ?case
    using a q(1) d by (cases sub) (simp_all add: parse_bytes_append)
qed

lemma within_facts:
  "within 0x20 0x2F b \<Longrightarrow> body_byte b \<and> \<not> c0_exec b \<and> \<not> within 0x30 0x39 b \<and> b \<noteq> 0x3A \<and> b \<noteq> 0x3B \<and>
     \<not> within 0x3C 0x3F b"
  "within 0x3C 0x3F b \<Longrightarrow> body_byte b \<and> \<not> c0_exec b \<and> \<not> within 0x30 0x39 b \<and> b \<noteq> 0x3A \<and> b \<noteq> 0x3B"
  "within 0x40 0x7E b \<Longrightarrow> body_byte b \<and> \<not> c0_exec b \<and> \<not> within 0x30 0x39 b \<and> b \<noteq> 0x3A \<and> b \<noteq> 0x3B \<and>
     \<not> within 0x3C 0x3F b \<and> \<not> within 0x20 0x2F b"
  unfolding within_def c0_exec_def body_byte_def by (unat_arith; fail)+

lemma collect_intermediate_slice:
  "parser_wf p \<Longrightarrow> length (intermediates_slice p) < MAX_INTERMEDIATES \<Longrightarrow>
   intermediates_slice (collect_intermediate p b) = intermediates_slice p @ [b]"
  by (simp add: slices collect_intermediate_def parser_wf_def take_Suc_update)

lemma fields_collect_intermediate [simp]:
  "p_state (collect_intermediate p b) = p_state p"
  "params_slice (collect_intermediate p b) = params_slice p"
  "subs_slice (collect_intermediate p b) = subs_slice p"
  "p_utf8_remaining (collect_intermediate p b) = p_utf8_remaining p"
  "p_has_current_param (collect_intermediate p b) = p_has_current_param p"
  "p_current_param (collect_intermediate p b) = p_current_param p"
  "p_params_len (collect_intermediate p b) = p_params_len p"
  "p_next_is_sub (collect_intermediate p b) = p_next_is_sub p"
  by (simp_all add: collect_intermediate_def slices)

text \<open>The intermediates and the final byte of a sequence whose parameters are in.\<close>

lemma csi_intermediate_finish:
  assumes "parser_wf p" "p_state p = CsiIntermediate" "p_utf8_remaining p = 0"
    "\<forall>b \<in> set is. within 0x20 0x2F b" "length (intermediates_slice p) + length is \<le> MAX_INTERMEDIATES"
    "within 0x40 0x7E f"
  shows "\<exists>q. parse_bytes p (is @ [f]) =
           (q, [CsiDispatch (params_slice p) (subs_slice p) (intermediates_slice p @ is) f]) \<and>
           in_ground_plain q"
  using assms
proof (induction "is" arbitrary: p)
  case Nil
  then show ?case
    using within_facts(3) [of f]
    by (simp add: advance_def csi_intermediate_def dispatch_csi_def in_ground_plain_def body_byte_def)
next
  case (Cons b bs)
  have b: "within 0x20 0x2F b" using Cons.prems by simp
  have adv: "advance p b = (collect_intermediate p b, [])"
    using Cons.prems(2) within_facts(1) [OF b] b
    by (simp add: advance_def csi_intermediate_def body_byte_def)
  have "intermediates_slice (collect_intermediate p b) = intermediates_slice p @ [b]"
    using Cons.prems by (intro collect_intermediate_slice) auto
  then show ?case
    using Cons.IH [of "collect_intermediate p b"] Cons.prems adv
    by (auto simp: collect_intermediate_wf)
qed

lemma csi_finish:
  assumes "parser_wf p" "p_state p = CsiParam \<or> (p_state p = CsiEntry \<and> \<not> p_has_current_param p)"
    "p_utf8_remaining p = 0"
    "\<forall>b \<in> set is. within 0x20 0x2F b" "length (intermediates_slice p) + length is \<le> MAX_INTERMEDIATES"
    "within 0x40 0x7E f"
  shows "\<exists>q. parse_bytes p (is @ [f]) =
           (q, [CsiDispatch (params_slice (commit_param_if_pending p))
                  (subs_slice (commit_param_if_pending p)) (intermediates_slice p @ is) f]) \<and>
           in_ground_plain q"
proof -
  let ?c = "commit_param_if_pending p"
  have c: "parser_wf ?c" "p_utf8_remaining ?c = 0" "intermediates_slice ?c = intermediates_slice p"
    "p_state ?c = p_state p"
    using assms(1,3) commit_param_if_pending_wf [OF assms(1)]
    by (simp_all add: commit_param_if_pending_def commit_param_def slices Let_def)
  show ?thesis
  proof (cases "is")
    case Nil
    then show ?thesis
      using assms within_facts(3) [of f] c
      by (auto simp: advance_def csi_param_def csi_entry_def dispatch_csi_def in_ground_plain_def
          body_byte_def commit_param_if_pending_def)
  next
    case (Cons b bs)
    let ?q = "(collect_intermediate ?c b)\<lparr>p_state := CsiIntermediate\<rparr>"
    have b: "within 0x20 0x2F b" using assms Cons by simp
    have adv: "advance p b = (?q, [])"
      using assms(2) within_facts(1) [OF b] b
      by (auto simp: advance_def csi_param_def csi_entry_def body_byte_def commit_param_if_pending_def)
    have i: "intermediates_slice ?q = intermediates_slice p @ [b]"
      using collect_intermediate_slice [OF c(1), of b] assms Cons c by simp
    have "\<exists>q. parse_bytes ?q (bs @ [f]) =
        (q, [CsiDispatch (params_slice ?q) (subs_slice ?q) (intermediates_slice ?q @ bs) f]) \<and>
        in_ground_plain q"
      using assms Cons c i by (intro csi_intermediate_finish) (auto simp: wf_intros)
    then show ?thesis using adv i Cons by auto
  qed
qed

lemma reset_seq_fields [simp]:
  "p_state (reset_seq p) = p_state p"
  "params_slice (reset_seq p) = []"
  "subs_slice (reset_seq p) = []"
  "intermediates_slice (reset_seq p) = []"
  "p_utf8_remaining (reset_seq p) = 0"
  "p_has_current_param (reset_seq p) = False"
  "p_current_param (reset_seq p) = 0"
  "p_next_is_sub (reset_seq p) = False"
  "p_params_len (reset_seq p) = 0"
  by (simp_all add: reset_seq_def slices Let_def)

lemma parse_bytes_seq:
  "parse_bytes p xs = (q, e1) \<Longrightarrow> parse_bytes q ys = (r, e2) \<Longrightarrow>
   parse_bytes p (xs @ ys) = (r, e1 @ e2)"
  by (simp add: parse_bytes_append)

text \<open>The parser at the start of a control sequence's parameters.\<close>

lemma csi_start:
  assumes "parser_wf p" "p_state p \<noteq> OscString" "length pre \<le> 1" "\<forall>b \<in> set pre. within 0x3C 0x3F b"
  shows "\<exists>q. parse_bytes p ([0x1B, 0x5B] @ pre) = (q, []) \<and> parser_wf q \<and>
           p_state q \<in> {CsiEntry, CsiParam} \<and> p_current_param q = 0 \<and> \<not> p_has_current_param q \<and>
           \<not> p_next_is_sub q \<and> params_slice q = [] \<and> subs_slice q = [] \<and>
           intermediates_slice q = pre \<and> p_utf8_remaining q = 0"
proof -
  let ?e = "(reset_seq p)\<lparr>p_state := CsiEntry\<rparr>"
  have e: "parse_bytes p [0x1B, 0x5B] = (?e, [])"
    using assms(2) by (simp add: advance_def escape_def c0_exec_def within_def)
  have wf: "parser_wf ?e" using assms(1) by (simp add: wf_intros)
  show ?thesis
  proof (cases pre)
    case Nil
    then show ?thesis using e wf by auto
  next
    case (Cons b bs)
    then have b: "within 0x3C 0x3F b" and pre: "pre = [b]" using assms(3,4) by auto
    let ?q = "(collect_intermediate ?e b)\<lparr>p_state := CsiParam\<rparr>"
    have "advance ?e b = (?q, [])"
      using within_facts(2) [OF b] b by (simp add: advance_def csi_entry_def body_byte_def)
    moreover have "intermediates_slice ?q = [b]"
      using collect_intermediate_slice [OF wf, of b] by simp
    ultimately show ?thesis
      using e wf pre parse_bytes_append [of p "[0x1B, 0x5B]" "[b]"] by (auto simp: wf_intros)
  qed
qed

lemma csi_parsed:
  assumes "parser_wf p" "p_state p \<noteq> OscString"
    and "length pre \<le> 1" "\<forall>b \<in> set pre. within 0x3C 0x3F b"
    and "length ps \<le> MAX_PARAMS" "\<forall>n \<in> fst ` set ps. n \<le> u16_max" "ps \<noteq> [] \<longrightarrow> \<not> snd (hd ps)"
    and "\<forall>b \<in> set is. within 0x20 0x2F b" "length pre + length is \<le> MAX_INTERMEDIATES"
    and "within 0x40 0x7E f"
  shows "snd (parse_bytes p (csi_bytes pre ps is f)) =
           [CsiDispatch (map fst ps) (map snd ps) (pre @ is) f] \<and>
         in_ground_plain (fst (parse_bytes p (csi_bytes pre ps is f)))"
proof -
  obtain q where q: "parse_bytes p ([0x1B, 0x5B] @ pre) = (q, [])" "parser_wf q"
    "p_state q \<in> {CsiEntry, CsiParam}" "p_current_param q = 0" "\<not> p_has_current_param q"
    "\<not> p_next_is_sub q" "params_slice q = []" "subs_slice q = []"
    "intermediates_slice q = pre" "p_utf8_remaining q = 0"
    using csi_start [OF assms(1-4)] by blast
  have bytes: "csi_bytes pre ps is f = ([0x1B, 0x5B] @ pre) @ csi_params ps @ (is @ [f])"
    by (simp add: csi_bytes_def)
  obtain r where r: "parse_bytes q (csi_params ps) = (r, [])" "parser_wf r"
    "p_state r = CsiParam \<or> (p_state r = CsiEntry \<and> \<not> p_has_current_param r)"
    "params_slice (commit_param_if_pending r) = map fst ps"
    "subs_slice (commit_param_if_pending r) = map snd ps"
    "intermediates_slice r = pre" "p_utf8_remaining r = 0"
  proof (cases ps)
    case Nil
    then show ?thesis using q by (intro that [of q]) (auto simp: commit_param_if_pending_def)
  next
    case (Cons a as)
    obtain n where a: "a = (n, False)" using Cons assms(7) by (cases a) auto
    let ?q = "q\<lparr>p_state := CsiParam, p_current_param := n, p_has_current_param := True\<rparr>"
    have n: "n \<le> u16_max" using assms(6) Cons a by simp
    have d: "parse_bytes q (dec n) = (?q, [])" using parse_dec [OF n] q by auto
    have "pending ?q [n] [False] pre" using q n by (simp add: pending_def parser_wf_def)
    then obtain r where r: "parse_bytes ?q (csi_tail as) = (r, [])"
      "pending r ([n] @ map fst as) ([False] @ map snd as) pre"
      using pending_tail [of ?q "[n]" "[False]" pre as] assms(5,6) Cons by auto
    have w: "parser_wf r" "p_params_len r < MAX_PARAMS" "p_current_param r \<le> u16_max"
      using r(2) pending_length [OF r(2)] assms(5) Cons by (auto simp: pending_def parser_wf_def)
    show ?thesis
      using r d slices_commit_param [OF w] Cons a
      by (intro that [of r]) (auto simp: pending_def commit_param_if_pending_def parse_bytes_append)
  qed
  obtain s where "parse_bytes r (is @ [f]) =
      (s, [CsiDispatch (map fst ps) (map snd ps) (pre @ is) f])" "in_ground_plain s"
    using csi_finish [OF r(2,3,7) assms(8) _ assms(10)] r assms(9) by auto
  moreover from this have "parse_bytes p (csi_bytes pre ps is f) =
      (s, [] @ [] @ [CsiDispatch (map fst ps) (map snd ps) (pre @ is) f])"
    unfolding bytes by (intro parse_bytes_seq [OF q(1)] parse_bytes_seq [OF r(1)])
  ultimately show ?thesis by simp
qed

text \<open>
  C33: every control sequence is tokenized to its components.  From any reachable parser that
  is not inside an OSC string, \<open>ESC [\<close>, an optional private marker, parameters written in
  decimal and separated by semicolons or colons, intermediates and a final byte produce one
  \<open>csi_dispatch\<close> with exactly those parameters, sub-parameter flags, intermediates and final
  byte, and leave the parser in plain \<open>Ground\<close>.
\<close>
theorem csi_roundtrip:
  assumes "parser_wf p" "p_state p \<noteq> OscString"
    and "length pre \<le> 1" "\<forall>b \<in> set pre. within 0x3C 0x3F b"
    and "length ps \<le> MAX_PARAMS" "\<forall>n \<in> fst ` set ps. n \<le> u16_max" "ps \<noteq> [] \<longrightarrow> \<not> snd (hd ps)"
    and "\<forall>b \<in> set is. within 0x20 0x2F b" "length pre + length is \<le> MAX_INTERMEDIATES"
    and "within 0x40 0x7E f"
  shows "snd (parse_bytes p (csi_bytes pre ps is f)) =
           [CsiDispatch (map fst ps) (map snd ps) (pre @ is) f] \<and>
         in_ground_plain (fst (parse_bytes p (csi_bytes pre ps is f)))"
  by (rule csi_parsed [OF assms])

section \<open>Strings\<close>

lemma parse_string_ignore:
  "p_state p = StringIgnore \<Longrightarrow> \<forall>b \<in> set bs. body_byte b \<Longrightarrow> parse_bytes p bs = (p, [])"
  by (induction bs) (auto simp: advance_def body_byte_def)

lemma parse_osc_body:
  "p_state p = OscString \<Longrightarrow> \<forall>b \<in> set bs. body_byte b \<and> b \<noteq> 0x07 \<Longrightarrow>
   length (p_osc_buffer p) \<le> MAX_OSC_LEN \<Longrightarrow>
   parse_bytes p bs =
     (p\<lparr>p_osc_buffer := take MAX_OSC_LEN (p_osc_buffer p @ bs)\<rparr>, [])"
proof (induction bs arbitrary: p)
  case Nil
  then show ?case by simp
next
  case (Cons b bs)
  show ?case
  proof (cases "length (p_osc_buffer p) < MAX_OSC_LEN")
    case True
    then have "advance p b = (p\<lparr>p_osc_buffer := p_osc_buffer p @ [b]\<rparr>, [])"
      using Cons.prems by (simp add: advance_def osc_string_def body_byte_def)
    then show ?thesis
      using Cons.IH [of "p\<lparr>p_osc_buffer := p_osc_buffer p @ [b]\<rparr>"] Cons.prems True by simp
  next
    case False
    then have "advance p b = (p, [])"
      using Cons.prems by (simp add: advance_def osc_string_def body_byte_def)
    then show ?thesis
      using Cons.IH [of p] Cons.prems False by simp
  qed
qed

lemma parser_start: "parser_wf parser_new" "p_state parser_new \<noteq> OscString"
  by (simp add: wf_intros, simp add: parser_new_def)

lemma csi_roundtrip_witness:
  "snd (parse_bytes parser_new (csi_bytes [0x3F] [(38, False), (5, True), (200, True)] [0x20] 0x6D)) =
     [CsiDispatch [38, 5, 200] [False, True, True] [0x3F, 0x20] 0x6D]"
proof -
  from csi_roundtrip [OF parser_start, of "[0x3F]" "[(38, False), (5, True), (200, True)]" "[0x20]" "0x6D"]
  show ?thesis by (simp add: within_def)
qed

lemma parse_osc_st:
  "p_state q = OscString \<Longrightarrow>
   parse_bytes q [0x1B, 0x5C] =
     ((reset_seq q)\<lparr>p_state := Ground\<rparr>, [OscDispatch (p_osc_buffer q), EscDispatch [] 0x5C])"
  by (simp add: advance_def escape_def c0_exec_def within_def)

text \<open>
  An OSC string reaches the terminal whole, up to the length limit.  From any reachable
  parser outside an OSC string, \<open>ESC ]\<close>, a payload and the terminator BEL or \<open>ESC \\<close> produce
  exactly one \<open>osc_dispatch\<close>, carrying the first \<open>MAX_OSC_LEN\<close> bytes of the payload; with the
  two-byte terminator it is followed by the \<open>ESC \\<close> itself, and either way the parser is back
  in \<open>Ground\<close>.
\<close>
theorem osc_delivered:
  assumes "parser_wf p" "p_state p \<noteq> OscString" "\<forall>b \<in> set bs. body_byte b \<and> b \<noteq> 0x07"
  shows "snd (parse_bytes p ([0x1B, 0x5D] @ bs @ [0x07])) = [OscDispatch (take MAX_OSC_LEN bs)] \<and>
         snd (parse_bytes p ([0x1B, 0x5D] @ bs @ [0x1B, 0x5C])) =
           [OscDispatch (take MAX_OSC_LEN bs), EscDispatch [] 0x5C] \<and>
         in_ground_plain (fst (parse_bytes p ([0x1B, 0x5D] @ bs @ [0x07]))) \<and>
         in_ground_plain (fst (parse_bytes p ([0x1B, 0x5D] @ bs @ [0x1B, 0x5C])))"
proof -
  let ?o = "(reset_seq p)\<lparr>p_osc_buffer := [], p_state := OscString\<rparr>"
  let ?q = "?o\<lparr>p_osc_buffer := take MAX_OSC_LEN bs\<rparr>"
  let ?r = "(reset_seq ?q)\<lparr>p_state := Ground\<rparr>"
  have b: "parse_bytes p [0x1B, 0x5D] = (?o, [])"
    using assms(2) by (simp add: advance_def escape_def c0_exec_def within_def)
  have q: "parse_bytes ?o bs = (?q, [])"
    using parse_osc_body [of ?o bs] assms(3) by simp
  have e1: "parse_bytes ?q [0x07] = (?q\<lparr>p_state := Ground\<rparr>, [OscDispatch (take MAX_OSC_LEN bs)])"
    by (simp add: advance_def osc_string_def)
  have e2: "parse_bytes ?q [0x1B, 0x5C] =
      (?r, [OscDispatch (take MAX_OSC_LEN bs), EscDispatch [] 0x5C])"
    using parse_osc_st [of ?q] by simp
  note s = parse_bytes_seq [OF b parse_bytes_seq [OF q e1]] parse_bytes_seq [OF b parse_bytes_seq [OF q e2]]
  show ?thesis
    unfolding s by (simp add: in_ground_plain_def)
qed

lemma osc_delivered_witness:
  "snd (parse_bytes parser_new ([0x1B, 0x5D] @ [0x30, 0x3B, 0x68, 0x69] @ [0x07])) =
     [OscDispatch [0x30, 0x3B, 0x68, 0x69]]"
proof -
  from osc_delivered [OF parser_start, of "[0x30, 0x3B, 0x68, 0x69]"]
  show ?thesis by (simp add: body_byte_def)
qed

lemma parse_string_start:
  assumes "c \<in> {0x50, 0x58, 0x5E, 0x5F}"
  shows "p_state q = Escape \<Longrightarrow> advance q c = (q\<lparr>p_state := StringIgnore\<rparr>, [])"
  using assms
  by (elim insertE emptyE) (simp_all add: advance_def escape_def c0_exec_def within_def)

text \<open>
  DCS, SOS, PM and APC strings are swallowed.  Their payload, of any length and content
  (BEL included), produces no callback at all, and only the \<open>ESC \\<close> that ends it is reported.
\<close>
theorem string_swallowed:
  assumes "parser_wf p" "p_state p \<noteq> OscString" "c \<in> {0x50, 0x58, 0x5E, 0x5F}"
    and "\<forall>b \<in> set bs. body_byte b"
  shows "snd (parse_bytes p ([0x1B, c] @ bs @ [0x1B, 0x5C])) = [EscDispatch [] 0x5C] \<and>
         in_ground_plain (fst (parse_bytes p ([0x1B, c] @ bs @ [0x1B, 0x5C])))"
proof -
  let ?q = "(reset_seq p)\<lparr>p_state := StringIgnore\<rparr>"
  have b: "parse_bytes p [0x1B, c] = (?q, [])"
    using parse_string_start [OF assms(3)] assms(2) by (simp add: advance_def [of p])
  have q: "parse_bytes ?q bs = (?q, [])" using parse_string_ignore [of ?q bs] assms(4) by simp
  have e: "parse_bytes ?q [0x1B, 0x5C] = ((reset_seq ?q)\<lparr>p_state := Ground\<rparr>, [EscDispatch [] 0x5C])"
    by (simp add: advance_def escape_def c0_exec_def within_def)
  show ?thesis
    unfolding parse_bytes_seq [OF b parse_bytes_seq [OF q e]] by (simp add: in_ground_plain_def)
qed

lemma string_swallowed_witness:
  "snd (parse_bytes parser_new ([0x1B, 0x50] @ [0x71, 0x07, 0x23] @ [0x1B, 0x5C])) = [EscDispatch [] 0x5C]"
proof -
  from string_swallowed [OF parser_start, of "0x50" "[0x71, 0x07, 0x23]"]
  show ?thesis by (simp add: body_byte_def)
qed

section \<open>The headline facts\<close>

text \<open>
  C31: from a well-formed parser, as a new one is, whatever bytes arrive, the tokenizer stays within its
  fixed arrays and every callback it makes is well-formed: characters are scalar values, at most sixteen
  parameters of sixteen bits with as many sub-parameter flags, at most four intermediates, OSC strings
  of at most 4096 bytes.
\<close>
theorem parser_bounded:
  assumes "parser_wf p"
  shows "parser_wf (fst (parse_bytes p bs)) \<and> list_all event_wf (snd (parse_bytes p bs))"
  using parse_bytes_ok [OF assms, of bs] by (simp add: step_ok_def list_all_iff split: prod.splits)

lemma parser_bounded_witness:
  "parser_wf (fst (parse_bytes parser_new [0x1B, 0x5B, 0x31])) \<and>
   list_all event_wf (snd (parse_bytes (fst (parse_bytes parser_new [0x1B, 0x5B, 0x31])) [0x6D]))"
proof -
  have p: "parser_wf (fst (parse_bytes parser_new [0x1B, 0x5B, 0x31]))"
    using parser_bounded [OF parser_new_wf] by blast
  show ?thesis using p parser_bounded [OF p, of "[0x6D]"] by blast
qed

text \<open>
  The stream resynchronizes.  From any reachable parser, in whatever state, CAN and SUB
  abort what is in flight, report themselves, and the rest of the stream is tokenized as by a
  fresh parser; ESC also makes the rest independent of the past, except that it first delivers
  an open OSC string.
\<close>
theorem parser_resync:
  assumes "parser_wf p"
  shows "snd (parse_bytes p (0x18 # bs)) = Execute 0x18 # snd (parse_bytes parser_new bs) \<and>
         snd (parse_bytes p (0x1A # bs)) = Execute 0x1A # snd (parse_bytes parser_new bs) \<and>
         snd (parse_bytes p (0x1B # bs)) =
           (if p_state p = OscString then [OscDispatch (p_osc_buffer p)] else []) @
           snd (parse_bytes parser_new (0x1B # bs))"
proof -
  have 1: "snd (parse_bytes ((reset_seq p)\<lparr>p_state := s\<rparr>) bs) =
      snd (parse_bytes ((reset_seq parser_new)\<lparr>p_state := s\<rparr>) bs)" for s
    using twin_parse_bytes [OF twin_reset_new [OF assms, of s], of bs]
    by (simp add: twin_steps_def split: prod.splits)
  have 2: "(reset_seq parser_new)\<lparr>p_state := Ground\<rparr> = parser_new"
    by (simp add: reset_seq_def parser_new_def)
  have 3: "p_state parser_new \<noteq> OscString" by (simp add: parser_new_def)
  show ?thesis
    using 1 [of Ground] 1 [of Escape] 3 unfolding 2
    by (auto simp: advance_def Let_def split: prod.splits)
qed

lemma parser_resync_witness:
  "snd (parse_bytes (fst (parse_bytes parser_new [0x1B, 0x5B, 0x33])) [0x18, 0x41]) =
     [Execute 0x18, Print 0x41]"
proof -
  have "parser_wf (fst (parse_bytes parser_new [0x1B, 0x5B, 0x33]))"
    using parse_bytes_ok [OF parser_new_wf, of "[0x1B, 0x5B, 0x33]"]
    by (simp add: step_ok_def split: prod.splits)
  from parser_resync [OF this, of "[0x41]"]
  show ?thesis by (simp add: parser_eval)
qed

section \<open>UTF-8\<close>

lemma utf8_lead_cont:
  assumes "unat cp < 2 ^ 26"
  shows "unat (push_bit 6 (cp :: u32) OR ucast (b AND 0x3F :: u8)) = unat cp * 64 + unat b mod 64"
proof -
  have c: "unat (ucast (b AND 0x3F :: u8) :: u32) = unat b mod 64" by (simp add: mask_simps)
  have p: "unat (push_bit 6 cp) = unat cp * 64"
    using assms unat_mult_lem [of cp 64] by (simp add: push_bit_eq_mult)
  have "unat (push_bit 6 cp OR ucast (b AND 0x3F :: u8)) = (unat cp * 64) OR (unat b mod 64)"
    by (simp only: unsigned_or_eq c p)
  also have "\<dots> = push_bit 6 (unat cp) OR take_bit 6 (unat b)"
    by (simp add: push_bit_eq_mult take_bit_eq_mod)
  also have "\<dots> = push_bit 6 (unat cp) + take_bit 6 (unat b)"
    by (rule disjunctive_add [symmetric]) (auto simp: bit_simps)
  finally show ?thesis by (simp add: push_bit_eq_mult take_bit_eq_mod)
qed

lemma byte_tests:
  "within lo hi b \<longleftrightarrow> unat lo \<le> unat b \<and> unat b \<le> unat hi"
  "c0_exec b \<longleftrightarrow> unat b \<le> 0x17 \<or> unat b = 0x19 \<or> (0x1C \<le> unat b \<and> unat b \<le> 0x1F)"
  "b = 0x18 \<longleftrightarrow> unat b = 0x18" "b = 0x1A \<longleftrightarrow> unat b = 0x1A" "b = 0x1B \<longleftrightarrow> unat b = 0x1B"
  "b = 0x7F \<longleftrightarrow> unat b = 0x7F"
  by (simp_all add: within_def c0_exec_def word_le_nat_alt u8_eq_iff)

lemma unat_of_nat_add_u8: "n + m < 256 \<Longrightarrow> unat (of_nat n + of_nat m :: u8) = n + m"
  using unat_of_nat_u8 [of "n + m"] by simp

lemma advance_ascii:
  assumes "in_ground_plain p" "0x20 \<le> c" "c < 0x7F"
  shows "advance p (of_nat c) = (p, [Print c])"
  using assms by (simp add: in_ground_plain_def advance_def ground_def ground_plain_def byte_tests)

lemma advance_lead:
  assumes "in_ground_plain p"
  shows "2 \<le> m \<Longrightarrow> m < 32 \<Longrightarrow> \<exists>cp. unat cp = m \<and>
           advance p (of_nat (0xC0 + m)) = (p\<lparr>p_utf8_remaining := 1, p_utf8_codepoint := cp\<rparr>, [])"
    and "m < 16 \<Longrightarrow> \<exists>cp. unat cp = m \<and>
           advance p (of_nat (0xE0 + m)) = (p\<lparr>p_utf8_remaining := 2, p_utf8_codepoint := cp\<rparr>, [])"
    and "m < 5 \<Longrightarrow> \<exists>cp. unat cp = m \<and>
           advance p (of_nat (0xF0 + m)) = (p\<lparr>p_utf8_remaining := 3, p_utf8_codepoint := cp\<rparr>, [])"
proof -
  have *: "(0xC0 + m) mod 32 = m" if "m < 32" using that by (simp flip: mod_add_left_eq)
  have **: "(0xE0 + m) mod 16 = m" if "m < 16" using that by (simp flip: mod_add_left_eq)
  have ***: "(0xF0 + m) mod 8 = m" if "m < 5" using that by (simp flip: mod_add_left_eq)
  show "\<exists>cp. unat cp = m \<and>
      advance p (of_nat (0xC0 + m)) = (p\<lparr>p_utf8_remaining := 1, p_utf8_codepoint := cp\<rparr>, [])"
    if "2 \<le> m" "m < 32"
    using that assms *
    by (intro exI [of _ "ucast (of_nat (0xC0 + m) AND 0x1F :: u8)"])
      (simp add: in_ground_plain_def advance_def ground_def ground_plain_def byte_tests mask_simps
        del: of_nat_add)
  show "\<exists>cp. unat cp = m \<and>
      advance p (of_nat (0xE0 + m)) = (p\<lparr>p_utf8_remaining := 2, p_utf8_codepoint := cp\<rparr>, [])"
    if "m < 16"
    using that assms **
    by (intro exI [of _ "ucast (of_nat (0xE0 + m) AND 0x0F :: u8)"])
      (simp add: in_ground_plain_def advance_def ground_def ground_plain_def byte_tests mask_simps
        del: of_nat_add)
  show "\<exists>cp. unat cp = m \<and>
      advance p (of_nat (0xF0 + m)) = (p\<lparr>p_utf8_remaining := 3, p_utf8_codepoint := cp\<rparr>, [])"
    if "m < 5"
    using that assms ***
    by (intro exI [of _ "ucast (of_nat (0xF0 + m) AND 0x07 :: u8)"])
      (simp add: in_ground_plain_def advance_def ground_def ground_plain_def byte_tests mask_simps
        del: of_nat_add)
qed

lemma cont_byte:
  assumes "m < 64"
  shows "(of_nat (0x80 + m) :: u8) AND 0xC0 = 0x80" "unat (of_nat (0x80 + m) :: u8) mod 64 = m"
    "(of_nat (0x80 + m) :: u8) \<noteq> 0x18" "(of_nat (0x80 + m) :: u8) \<noteq> 0x1A"
    "(of_nat (0x80 + m) :: u8) \<noteq> 0x1B"
  using assms by (simp_all add: and_192_eq byte_tests del: of_nat_add flip: mod_add_left_eq)

lemma advance_cont:
  assumes "p_state p = Ground" "m < 64" "unat (p_utf8_codepoint p) < 2 ^ 26"
  shows "p_utf8_remaining p = Suc (Suc n) \<Longrightarrow> \<exists>cp. unat cp = unat (p_utf8_codepoint p) * 64 + m \<and>
           advance p (of_nat (0x80 + m)) =
             (p\<lparr>p_utf8_remaining := Suc n, p_utf8_codepoint := cp\<rparr>, [])"
    and "p_utf8_remaining p = 1 \<Longrightarrow> is_scalar (unat (p_utf8_codepoint p) * 64 + m) \<Longrightarrow>
         advance p (of_nat (0x80 + m)) =
           (p\<lparr>p_utf8_remaining := 0, p_utf8_codepoint := 0\<rparr>,
            [Print (unat (p_utf8_codepoint p) * 64 + m)])"
  using assms utf8_lead_cont [OF assms(3), of "of_nat (0x80 + m)"] cont_byte [OF assms(2)]
  by (auto simp: advance_def ground_def Let_def from_u32_def simp del: of_nat_add)


lemma utf8_char:
  assumes "in_ground_plain p" "is_scalar c" "0x20 \<le> c" "c \<noteq> 0x7F"
  shows "\<exists>q. parse_bytes p (encode_utf8 c) = (q, [Print c]) \<and> in_ground_plain q"
proof -
  have p: "p_state p = Ground" using assms(1) by (simp add: in_ground_plain_def)
  consider "c < 0x80" | "0x80 \<le> c" "c < 0x800" | "0x800 \<le> c" "c < 0x10000" | "0x10000 \<le> c" "c < 0x110000"
    using assms(2) by (force simp: is_scalar_def)
  then show ?thesis
  proof cases
    case 1
    then show ?thesis using assms advance_ascii [of p c] by (simp add: encode_utf8_def)
  next
    case 2
    have "2 \<le> c div 64" "c div 64 < 32" using 2 by auto
    from advance_lead(1) [OF assms(1) this] obtain cp where cp: "unat cp = c div 64"
      "advance p (of_nat (0xC0 + c div 64)) = (p\<lparr>p_utf8_remaining := 1, p_utf8_codepoint := cp\<rparr>, [])"
      by auto
    let ?q = "p\<lparr>p_utf8_remaining := 1, p_utf8_codepoint := cp\<rparr>"
    have "advance ?q (of_nat (0x80 + c mod 64)) =
        (?q\<lparr>p_utf8_remaining := 0, p_utf8_codepoint := 0\<rparr>, [Print c])"
      using advance_cont(2) [of ?q "c mod 64"] cp(1) 2 assms(2) p by simp
    then show ?thesis using 2 cp p by (simp add: encode_utf8_def in_ground_plain_def del: of_nat_add)
  next
    case 3
    have "c div 4096 < 16" and small: "c div 4096 < 2 ^ 26" using 3 by auto
    from advance_lead(2) [OF assms(1) this(1)] obtain cp where cp: "unat cp = c div 4096"
      "advance p (of_nat (0xE0 + c div 4096)) = (p\<lparr>p_utf8_remaining := 2, p_utf8_codepoint := cp\<rparr>, [])"
      by auto
    let ?q = "p\<lparr>p_utf8_remaining := 2, p_utf8_codepoint := cp\<rparr>"
    have "c div 4096 * 64 + c div 64 mod 64 = c div 64"
      using div_mult_mod_eq [of "c div 64" 64] by (simp add: div_mult2_eq [symmetric])
    then obtain cq where cq: "unat cq = c div 64" "advance ?q (of_nat (0x80 + c div 64 mod 64)) =
        (?q\<lparr>p_utf8_remaining := 1, p_utf8_codepoint := cq\<rparr>, [])"
      using advance_cont(1) [of ?q "c div 64 mod 64" 0] cp(1) small p by auto
    let ?r = "p\<lparr>p_utf8_remaining := 1, p_utf8_codepoint := cq\<rparr>"
    have "advance ?r (of_nat (0x80 + c mod 64)) =
        (?r\<lparr>p_utf8_remaining := 0, p_utf8_codepoint := 0\<rparr>, [Print c])"
      using advance_cont(2) [of ?r "c mod 64"] cq(1) 3 assms(2) p by simp
    then show ?thesis using 3 cp cq p by (simp add: encode_utf8_def in_ground_plain_def del: of_nat_add)
  next
    case 4
    have "c div 262144 < 5" and small: "c div 262144 < 2 ^ 26" "c div 4096 < 2 ^ 26" using 4 by auto
    from advance_lead(3) [OF assms(1) this(1)] obtain cp where cp: "unat cp = c div 262144"
      "advance p (of_nat (0xF0 + c div 262144)) = (p\<lparr>p_utf8_remaining := 3, p_utf8_codepoint := cp\<rparr>, [])"
      by auto
    let ?q = "p\<lparr>p_utf8_remaining := 3, p_utf8_codepoint := cp\<rparr>"
    have "c div 262144 * 64 + c div 4096 mod 64 = c div 4096"
      using div_mult_mod_eq [of "c div 4096" 64] by (simp add: div_mult2_eq [symmetric])
    then obtain cq where cq: "unat cq = c div 4096" "advance ?q (of_nat (0x80 + c div 4096 mod 64)) =
        (?q\<lparr>p_utf8_remaining := 2, p_utf8_codepoint := cq\<rparr>, [])"
      using advance_cont(1) [of ?q "c div 4096 mod 64" 1] cp(1) small p by auto
    let ?r = "p\<lparr>p_utf8_remaining := 2, p_utf8_codepoint := cq\<rparr>"
    have "c div 4096 * 64 + c div 64 mod 64 = c div 64"
      using div_mult_mod_eq [of "c div 64" 64] by (simp add: div_mult2_eq [symmetric])
    then obtain cr where cr: "unat cr = c div 64" "advance ?r (of_nat (0x80 + c div 64 mod 64)) =
        (?r\<lparr>p_utf8_remaining := 1, p_utf8_codepoint := cr\<rparr>, [])"
      using advance_cont(1) [of ?r "c div 64 mod 64" 0] cq(1) small p by auto
    let ?s = "p\<lparr>p_utf8_remaining := 1, p_utf8_codepoint := cr\<rparr>"
    have "advance ?s (of_nat (0x80 + c mod 64)) =
        (?s\<lparr>p_utf8_remaining := 0, p_utf8_codepoint := 0\<rparr>, [Print c])"
      using advance_cont(2) [of ?s "c mod 64"] cr(1) 4 assms(2) p by simp
    then show ?thesis using 4 cp cq cr p by (simp add: encode_utf8_def in_ground_plain_def del: of_nat_add)
  qed
qed

text \<open>
  Text round-trips.  A string of printable characters (scalar values from U+0020 on, without
  DEL), encoded in UTF-8 as \<open>char::encode_utf8\<close> does and fed to a parser that is between
  sequences, is printed character by character, and the parser is again between sequences.
\<close>
theorem utf8_roundtrip:
  assumes "in_ground_plain p" "\<forall>c \<in> set cs. is_scalar c \<and> 0x20 \<le> c \<and> c \<noteq> 0x7F"
  shows "snd (parse_bytes p (concat (map encode_utf8 cs))) = map Print cs \<and>
         in_ground_plain (fst (parse_bytes p (concat (map encode_utf8 cs))))"
  using assms
proof (induction cs arbitrary: p)
  case Nil
  then show ?case by simp
next
  case (Cons c cs)
  then obtain q where q: "parse_bytes p (encode_utf8 c) = (q, [Print c])" "in_ground_plain q"
    using utf8_char [of p c] by auto
  moreover have "snd (parse_bytes q (concat (map encode_utf8 cs))) = map Print cs \<and>
      in_ground_plain (fst (parse_bytes q (concat (map encode_utf8 cs))))"
    using Cons q by simp
  ultimately show ?case by (auto simp: parse_bytes_append Let_def split: prod.splits)
qed

lemma utf8_roundtrip_witness:
  "snd (parse_bytes parser_new (concat (map encode_utf8 [0x41, 0xE9, 0x4E2D, 0x1F600]))) =
     [Print 0x41, Print 0xE9, Print 0x4E2D, Print 0x1F600]"
  using utf8_roundtrip [of parser_new "[0x41, 0xE9, 0x4E2D, 0x1F600]"]
  by (simp add: in_ground_plain_def parser_new_def is_scalar_def)

text \<open>
  Overlong encodings are decoded, not rejected.  The three bytes E0 80 AF, which are not
  well-formed UTF-8, print the solidus U+002F instead of U+FFFD, and likewise for every
  two-byte tail of the lead byte E0, so one ASCII character has several encodings.
\<close>
theorem utf8_overlong_accepted:
  assumes "in_ground_plain p" "m < 64" "k < 64"
  shows "snd (parse_bytes p [0xE0, of_nat (0x80 + m), of_nat (0x80 + k)]) = [Print (m * 64 + k)]"
proof -
  have p: "p_state p = Ground" using assms(1) by (simp add: in_ground_plain_def)
  obtain cp where cp: "unat cp = 0"
      "advance p 0xE0 = (p\<lparr>p_utf8_remaining := 2, p_utf8_codepoint := cp\<rparr>, [])"
    using advance_lead(2) [OF assms(1), of 0] by auto
  let ?q = "p\<lparr>p_utf8_remaining := 2, p_utf8_codepoint := cp\<rparr>"
  obtain cq where cq: "unat cq = m" "advance ?q (of_nat (0x80 + m)) =
        (?q\<lparr>p_utf8_remaining := 1, p_utf8_codepoint := cq\<rparr>, [])"
    using advance_cont(1) [of ?q m 0] assms(2) cp p by auto
  let ?r = "p\<lparr>p_utf8_remaining := 1, p_utf8_codepoint := cq\<rparr>"
  have "advance ?r (of_nat (0x80 + k)) =
      (?r\<lparr>p_utf8_remaining := 0, p_utf8_codepoint := 0\<rparr>, [Print (m * 64 + k)])"
    using advance_cont(2) [of ?r k] cq(1) assms p by (simp add: is_scalar_def)
  then show ?thesis using cp cq by (simp del: of_nat_add)
qed

lemma utf8_overlong_accepted_witness:
  "snd (parse_bytes parser_new [0xE0, 0x80, 0xAF]) = [Print 0x2F] \<and>
   encode_utf8 0x2F = [0x2F]"
  using utf8_overlong_accepted [of parser_new 0 47]
  by (simp add: in_ground_plain_def parser_new_def encode_utf8_def)

end
