(* ===== verification/Tabs.thy ===== *)
theory Tabs
  imports Prelude
begin

text \<open>
  Horizontal tab stops, \<open>crates/marspot-term/src/tabs.rs\<close>: a bitset of 64-bit words over the
  columns.  Columns are \<open>u16\<close>; the one computation that can leave the type, the counter of
  \<open>reset_defaults\<close>, has its overflow as the result \<open>None\<close>.
\<close>

section \<open>The bitset\<close>

type_synonym u64 = "64 word"

abbreviation (input) DEFAULT_INTERVAL :: nat where "DEFAULT_INTERVAL \<equiv> 8"

record tab_stops =
  ts_bits :: "u64 list"
  ts_cols :: nat

definition words :: "nat \<Rightarrow> nat" where
  "words cols = max 1 ((cols + 63) div 64)"

definition tabs_set :: "nat \<Rightarrow> tab_stops \<Rightarrow> tab_stops" where
  "tabs_set col t =
     (if col < ts_cols t
      then t\<lparr>ts_bits := (ts_bits t)[col div 64 := (ts_bits t ! (col div 64)) OR push_bit (col mod 64) 1]\<rparr>
      else t)"

definition tabs_clear :: "nat \<Rightarrow> tab_stops \<Rightarrow> tab_stops" where
  "tabs_clear col t =
     (if col div 64 < length (ts_bits t)
      then t\<lparr>ts_bits := (ts_bits t)[col div 64 :=
               (ts_bits t ! (col div 64)) AND NOT (push_bit (col mod 64) 1)]\<rparr>
      else t)"

definition tabs_clear_all :: "tab_stops \<Rightarrow> tab_stops" where
  "tabs_clear_all t = t\<lparr>ts_bits := map (\<lambda>w. 0) (ts_bits t)\<rparr>"

definition is_stop :: "tab_stops \<Rightarrow> nat \<Rightarrow> bool" where
  "is_stop t col \<longleftrightarrow>
     col div 64 < length (ts_bits t) \<and>
     (ts_bits t ! (col div 64)) AND push_bit (col mod 64) 1 \<noteq> 0"

text \<open>The loop of \<open>reset_defaults\<close>; \<open>None\<close> is the overflow of \<open>c += DEFAULT_INTERVAL\<close>.\<close>

function reset_loop :: "nat \<Rightarrow> tab_stops \<Rightarrow> tab_stops option" where
  "reset_loop c t =
     (if c < ts_cols t
      then let t = tabs_set c t
           in if c + DEFAULT_INTERVAL > u16_max then None else reset_loop (c + DEFAULT_INTERVAL) t
      else Some t)"
  by auto
termination
  by (relation "measure (\<lambda>(c, t). ts_cols t - c)") (auto simp: tabs_set_def)

declare reset_loop.simps [simp del]

definition reset_defaults :: "nat \<Rightarrow> tab_stops \<Rightarrow> tab_stops option" where
  "reset_defaults start t =
     (let c = (start + 7) div DEFAULT_INTERVAL * DEFAULT_INTERVAL
      in if c > u16_max then None
         else reset_loop (if c = 0 then DEFAULT_INTERVAL else c) t)"

definition tabs_new :: "nat \<Rightarrow> tab_stops option" where
  "tabs_new cols = reset_defaults 0 \<lparr>ts_bits = replicate (words cols) 0, ts_cols = cols\<rparr>"

text \<open>\<open>Vec::resize\<close>.\<close>

definition vec_resize :: "nat \<Rightarrow> 'a \<Rightarrow> 'a list \<Rightarrow> 'a list" where
  "vec_resize n x xs = take n xs @ replicate (n - length xs) x"

definition tabs_resize :: "nat \<Rightarrow> tab_stops \<Rightarrow> tab_stops option" where
  "tabs_resize cols t =
     (let old = ts_cols t;
          t = t\<lparr>ts_cols := cols, ts_bits := vec_resize (words cols) 0 (ts_bits t)\<rparr>
      in if cols > old then reset_defaults old t
         else Some (fold tabs_clear [cols..<old] t))"

section \<open>Moving by tabs\<close>

fun next_loop :: "tab_stops \<Rightarrow> nat \<Rightarrow> nat \<Rightarrow> nat" where
  "next_loop t 0 c = c"
| "next_loop t (Suc k) c =
     (case find (is_stop t) [c + 1..<ts_cols t] of
        Some stop \<Rightarrow> next_loop t k stop
      | None \<Rightarrow> ts_cols t - 1)"

definition tabs_next :: "tab_stops \<Rightarrow> nat \<Rightarrow> nat \<Rightarrow> nat" where
  "tabs_next t col count = next_loop t (max 1 count) col"

fun prev_loop :: "tab_stops \<Rightarrow> nat \<Rightarrow> nat \<Rightarrow> nat" where
  "prev_loop t 0 c = c"
| "prev_loop t (Suc k) c =
     (case find (is_stop t) (rev [0..<c]) of
        Some stop \<Rightarrow> prev_loop t k stop
      | None \<Rightarrow> 0)"

definition tabs_prev :: "tab_stops \<Rightarrow> nat \<Rightarrow> nat \<Rightarrow> nat" where
  "tabs_prev t col count = prev_loop t (max 1 count) col"

section \<open>The bitset as a set of columns\<close>

definition tabs_wf :: "tab_stops \<Rightarrow> bool" where
  "tabs_wf t \<longleftrightarrow> length (ts_bits t) = words (ts_cols t) \<and> (\<forall>c. is_stop t c \<longrightarrow> c < ts_cols t)"

lemma is_stop_bit:
  "is_stop t c \<longleftrightarrow> c div 64 < length (ts_bits t) \<and> bit (ts_bits t ! (c div 64)) (c mod 64)"
proof -
  have "(w AND push_bit n 1 \<noteq> 0) \<longleftrightarrow> bit w n" if "n < 64" for w :: u64 and n
    using that by (metis and_exp_eq_0_iff_not_bit push_bit_of_1)
  then show ?thesis by (simp add: is_stop_def)
qed

lemma words_div: "c < cols \<Longrightarrow> c div 64 < words cols"
  by (simp add: words_def)

lemma is_stop_set:
  assumes "length (ts_bits t) = words (ts_cols t)"
  shows "is_stop (tabs_set c t) x \<longleftrightarrow> is_stop t x \<or> (x = c \<and> c < ts_cols t)"
proof -
  have "x div 64 = c div 64 \<Longrightarrow> x mod 64 = c mod 64 \<Longrightarrow> x = c" by (metis div_mult_mod_eq)
  then show ?thesis
    using words_div [of c "ts_cols t"] assms
    by (auto simp: is_stop_bit tabs_set_def nth_list_update bit_simps)
qed

lemma is_stop_clear:
  "is_stop (tabs_clear c t) x \<longleftrightarrow> is_stop t x \<and> x \<noteq> c"
proof -
  have "x div 64 = c div 64 \<Longrightarrow> x mod 64 = c mod 64 \<Longrightarrow> x = c" by (metis div_mult_mod_eq)
  then show ?thesis
    by (auto simp: is_stop_bit tabs_clear_def nth_list_update bit_simps)
qed

lemma tabs_fields [simp]:
  "ts_cols (tabs_set c t) = ts_cols t" "length (ts_bits (tabs_set c t)) = length (ts_bits t)"
  "ts_cols (tabs_clear c t) = ts_cols t" "length (ts_bits (tabs_clear c t)) = length (ts_bits t)"
  "ts_cols (tabs_clear_all t) = ts_cols t" "length (ts_bits (tabs_clear_all t)) = length (ts_bits t)"
  by (simp_all add: tabs_set_def tabs_clear_def tabs_clear_all_def)

lemma is_stop_clear_all: "\<not> is_stop (tabs_clear_all t) x"
  by (simp add: is_stop_bit tabs_clear_all_def)

lemma tabs_set_wf [wf_intros]: "tabs_wf t \<Longrightarrow> tabs_wf (tabs_set c t)"
  by (auto simp: tabs_wf_def is_stop_set)

lemma tabs_clear_wf [wf_intros]: "tabs_wf t \<Longrightarrow> tabs_wf (tabs_clear c t)"
  by (auto simp: tabs_wf_def is_stop_clear)

lemma tabs_clear_all_wf [wf_intros]: "tabs_wf t \<Longrightarrow> tabs_wf (tabs_clear_all t)"
  by (auto simp: tabs_wf_def is_stop_clear_all)

section \<open>Default stops and resizing\<close>

text \<open>The widest screen whose default stops are reached without overflow.\<close>

abbreviation (input) TABS_MAX :: nat where "TABS_MAX \<equiv> 65528"

lemma reset_loop_stops:
  assumes "length (ts_bits t) = words (ts_cols t)" "ts_cols t \<le> TABS_MAX" "8 dvd c"
  shows "\<exists>t'. reset_loop c t = Some t' \<and> ts_cols t' = ts_cols t \<and>
           length (ts_bits t') = length (ts_bits t) \<and>
           (\<forall>x. is_stop t' x \<longleftrightarrow> is_stop t x \<or> (c \<le> x \<and> x < ts_cols t \<and> 8 dvd x))"
  using assms
proof (induction c t rule: reset_loop.induct)
  case (1 c t)
  show ?case
  proof (cases "c < ts_cols t")
    case False
    then show ?thesis by (auto simp: reset_loop.simps [of c t])
  next
    case True
    have "c + 8 \<le> TABS_MAX"
    proof -
      obtain k where "c = 8 * k" using "1.prems" by blast
      then show ?thesis using True "1.prems" by arith
    qed
    moreover from this obtain t' where t': "reset_loop (c + 8) (tabs_set c t) = Some t'"
      "ts_cols t' = ts_cols t" "length (ts_bits t') = length (ts_bits t)"
      "\<forall>x. is_stop t' x \<longleftrightarrow> is_stop (tabs_set c t) x \<or> (c + 8 \<le> x \<and> x < ts_cols t \<and> 8 dvd x)"
      using "1.IH" [OF True refl] "1.prems" by auto
    moreover have "(x = c \<or> (c + 8 \<le> x \<and> 8 dvd x)) \<longleftrightarrow> (c \<le> x \<and> 8 dvd x)" for x
      using "1.prems"(3) by presburger
    ultimately show ?thesis
      using True "1.prems" by (auto simp: reset_loop.simps [of c t] is_stop_set Let_def)
  qed
qed

lemma reset_defaults_stops:
  assumes "length (ts_bits t) = words (ts_cols t)" "ts_cols t \<le> TABS_MAX" "start \<le> TABS_MAX"
  shows "\<exists>t'. reset_defaults start t = Some t' \<and> ts_cols t' = ts_cols t \<and>
           length (ts_bits t') = length (ts_bits t) \<and>
           (\<forall>x. is_stop t' x \<longleftrightarrow>
              is_stop t x \<or> (start \<le> x \<and> 0 < x \<and> x < ts_cols t \<and> 8 dvd x))"
proof -
  define c where "c = (start + 7) div 8 * 8"
  define d where "d = (if c = 0 then 8 else c)"
  have c: "c \<le> u16_max" "8 dvd d" using assms(3) by (auto simp: c_def d_def)
  have ge: "(d \<le> x \<and> 8 dvd x) \<longleftrightarrow> (start \<le> x \<and> 0 < x \<and> 8 dvd x)" for x
  proof (cases "8 dvd x")
    case True
    then obtain j where j: "x = 8 * j" by blast
    have "(start + 7) div 8 \<le> j \<longleftrightarrow> start \<le> 8 * j"
      using div_less_iff_less_mult [of 8 "start + 7" "j + 1"] by auto
    then show ?thesis using j by (auto simp: c_def d_def)
  qed simp
  obtain t' where t': "reset_loop d t = Some t'" "ts_cols t' = ts_cols t"
    "length (ts_bits t') = length (ts_bits t)"
    "\<forall>x. is_stop t' x \<longleftrightarrow> is_stop t x \<or> (d \<le> x \<and> x < ts_cols t \<and> 8 dvd x)"
    using reset_loop_stops [OF assms(1,2) c(2)] by auto
  have "reset_defaults start t = Some t'"
    using t'(1) c(1) by (simp add: reset_defaults_def c_def [symmetric] d_def [symmetric])
  then show ?thesis using t' ge by blast
qed

lemma tabs_new_stops:
  assumes "cols \<le> TABS_MAX"
  shows "\<exists>t. tabs_new cols = Some t \<and> ts_cols t = cols \<and> tabs_wf t \<and>
           (\<forall>x. is_stop t x \<longleftrightarrow> 0 < x \<and> x < cols \<and> 8 dvd x)"
proof -
  let ?t = "\<lparr>ts_bits = replicate (words cols) 0, ts_cols = cols\<rparr>"
  have "\<not> is_stop ?t x" for x by (simp add: is_stop_bit)
  then show ?thesis
    using reset_defaults_stops [of ?t 0] assms by (auto simp: tabs_new_def tabs_wf_def)
qed

lemma is_stop_vec_resize:
  "is_stop (t\<lparr>ts_cols := cols, ts_bits := vec_resize n 0 (ts_bits t)\<rparr>) x \<longleftrightarrow>
   is_stop t x \<and> x div 64 < n"
  by (auto simp: is_stop_bit vec_resize_def nth_append)

lemma fold_tabs_clear:
  "is_stop (fold tabs_clear cs t) x \<longleftrightarrow> is_stop t x \<and> x \<notin> set cs"
  "ts_cols (fold tabs_clear cs t) = ts_cols t"
  "length (ts_bits (fold tabs_clear cs t)) = length (ts_bits t)"
  by (induction cs arbitrary: t) (auto simp: is_stop_clear)

text \<open>
  A resize keeps the stops a program set on the columns that survive, gives the columns
  that just appeared the default stops, and forgets the stops beyond the new width (a later
  grow does not bring them back), for every width up to 65528.
\<close>
theorem tabs_resize_stops:
  assumes "tabs_wf t" "ts_cols t \<le> TABS_MAX" "cols \<le> TABS_MAX"
  shows "\<exists>t'. tabs_resize cols t = Some t' \<and> ts_cols t' = cols \<and> tabs_wf t' \<and>
           (\<forall>x. is_stop t' x \<longleftrightarrow>
              x < cols \<and> (if x < ts_cols t then is_stop t x else 0 < x \<and> 8 dvd x))"
proof -
  let ?r = "t\<lparr>ts_cols := cols, ts_bits := vec_resize (words cols) 0 (ts_bits t)\<rparr>"
  have len: "length (ts_bits ?r) = words (ts_cols ?r)" by (auto simp: vec_resize_def)
  have stop: "is_stop ?r x \<longleftrightarrow> is_stop t x \<and> x div 64 < words cols" for x
    by (rule is_stop_vec_resize)
  have old: "is_stop t x \<Longrightarrow> x < ts_cols t" for x using assms(1) by (simp add: tabs_wf_def)
  show ?thesis
  proof (cases "ts_cols t < cols")
    case True
    obtain t' where "reset_defaults (ts_cols t) ?r = Some t'" "ts_cols t' = cols"
      "length (ts_bits t') = length (ts_bits ?r)"
      "\<forall>x. is_stop t' x \<longleftrightarrow> is_stop ?r x \<or> (ts_cols t \<le> x \<and> 0 < x \<and> x < cols \<and> 8 dvd x)"
      using reset_defaults_stops [OF len, of "ts_cols t"] assms by auto
    moreover have "is_stop t x \<Longrightarrow> x < cols \<and> x div 64 < words cols" for x
      using old [of x] True words_div [of x cols] by simp
    ultimately show ?thesis
      using True stop len old by (fastforce simp: tabs_resize_def Let_def tabs_wf_def)
  next
    case False
    have "x div 64 < words cols" if "x < cols" for x using that by (rule words_div)
    then show ?thesis
      using False stop len old by (fastforce simp: tabs_resize_def Let_def tabs_wf_def fold_tabs_clear)
  qed
qed

lemma tabs_resize_stops_witness:
  "\<exists>t t'. tabs_new 20 = Some t \<and> tabs_resize 40 (tabs_set 5 t) = Some t' \<and>
          is_stop t' 5 \<and> is_stop t' 16 \<and> is_stop t' 32 \<and> \<not> is_stop t' 21"
proof -
  obtain t where t: "tabs_new 20 = Some t" "ts_cols t = 20" "tabs_wf t"
    "\<forall>x. is_stop t x \<longleftrightarrow> 0 < x \<and> x < 20 \<and> 8 dvd x"
    using tabs_new_stops [of 20] by auto
  have "tabs_wf (tabs_set 5 t)" "length (ts_bits t) = words (ts_cols t)"
    using t(3) tabs_set_wf [OF t(3), of 5] by (simp_all add: tabs_wf_def)
  then show ?thesis
    using tabs_resize_stops [of "tabs_set 5 t" 40] t by (auto simp: is_stop_set)
qed

text \<open>
  Above 65528 columns the default stops are not reached: the counter of the constructor's
  loop overflows its \<open>u16\<close> (a panic with overflow checks, an endless loop without).
\<close>
theorem tabs_new_overflow:
  assumes "TABS_MAX < cols" "cols \<le> u16_max"
  shows "tabs_new cols = None"
proof -
  have "reset_loop c t = None" if "c \<le> TABS_MAX" "8 dvd c" "TABS_MAX < ts_cols t" for c t
    using that
  proof (induction c t rule: reset_loop.induct)
    case (1 c t)
    show ?case
    proof (cases "c = TABS_MAX")
      case True
      then show ?thesis using "1.prems" by (subst reset_loop.simps) (simp add: Let_def)
    next
      case False
      then have "c + 8 \<le> TABS_MAX" using "1.prems" by presburger
      then show ?thesis
        using "1.IH" "1.prems" by (auto simp: reset_loop.simps [of c t] Let_def)
    qed
  qed
  then show ?thesis using assms by (simp add: tabs_new_def reset_defaults_def)
qed

lemma tabs_new_overflow_witness: "tabs_new 65529 = None \<and> tabs_new 65528 \<noteq> None"
  using tabs_new_overflow [of 65529] tabs_new_stops [of 65528] by auto

section \<open>Moving by tabs\<close>

lemma find_filter: "find P xs = (case filter P xs of [] \<Rightarrow> None | x # _ \<Rightarrow> Some x)"
  by (induction xs) auto

lemma filter_append_Cons:
  assumes "s \<notin> set xs" "filter P xs @ filter P (s # ys) = s # zs" "P s"
  shows "filter P ys = zs"
proof (cases "filter P xs")
  case Nil
  then show ?thesis using assms by simp
next
  case (Cons a as)
  then have "s \<in> set (filter P xs)" using assms by simp
  then show ?thesis using assms(1) by simp
qed

lemma upt_split: "i \<le> j \<Longrightarrow> j \<le> k \<Longrightarrow> [i..<k] = [i..<j] @ [j..<k]"
  using upt_add_eq_append [of i j "k - j"] by simp

lemma next_loop_eq:
  "next_loop t k c =
     (let S = filter (is_stop t) [c + 1..<ts_cols t]
      in if k = 0 then c else if k \<le> length S then S ! (k - 1) else ts_cols t - 1)"
proof (induction k arbitrary: c)
  case 0
  then show ?case by simp
next
  case (Suc k)
  show ?case
  proof (cases "filter (is_stop t) [c + 1..<ts_cols t]")
    case Nil
    then show ?thesis by (simp add: find_filter)
  next
    case (Cons s ss)
    then have s: "s \<in> set (filter (is_stop t) [c + 1..<ts_cols t])" by simp
    then have r: "c + 1 \<le> s" "s < ts_cols t" by auto
    have "filter (is_stop t) [s + 1..<ts_cols t] = ss"
    proof -
      have "[c + 1..<ts_cols t] = [c + 1..<s] @ [s..<ts_cols t]"
        using r upt_split [of "c + 1" s "ts_cols t"] by simp
      moreover have "[s..<ts_cols t] = s # [s + 1..<ts_cols t]" using r by (simp add: upt_conv_Cons)
      ultimately have *: "filter (is_stop t) [c + 1..<s] @ filter (is_stop t) (s # [s + 1..<ts_cols t]) = s # ss"
        using Cons by simp
      show ?thesis by (rule filter_append_Cons [OF _ *]) (use s in auto)
    qed
    then show ?thesis using Suc.IH [of s] Cons by (auto simp: find_filter Let_def nth_Cons')
  qed
qed

lemma prev_loop_eq:
  "prev_loop t k c =
     (let S = filter (is_stop t) (rev [0..<c])
      in if k = 0 then c else if k \<le> length S then S ! (k - 1) else 0)"
proof (induction k arbitrary: c)
  case 0
  then show ?case by simp
next
  case (Suc k)
  show ?case
  proof (cases "filter (is_stop t) (rev [0..<c])")
    case Nil
    then show ?thesis by (simp add: find_filter)
  next
    case (Cons s ss)
    then have s: "s \<in> set (filter (is_stop t) (rev [0..<c]))" by simp
    then have r: "s < c" by auto
    have "filter (is_stop t) (rev [0..<s]) = ss"
    proof -
      have "[0..<c] = [0..<s] @ s # [s + 1..<c]"
        using r upt_split [of 0 s c] by (simp add: upt_conv_Cons)
      then have *: "filter (is_stop t) (rev [s + 1..<c]) @ filter (is_stop t) (s # rev [0..<s]) = s # ss"
        using Cons by simp
      show ?thesis by (rule filter_append_Cons [OF _ *]) (use s in auto)
    qed
    then show ?thesis using Suc.IH [of s] Cons by (auto simp: find_filter Let_def nth_Cons')
  qed
qed

text \<open>
  The loops of HT, CHT and CBT compute the n-th stop.  \<open>next\<close> goes to the n-th stop to the
  right of the column and, when there are fewer, to the last column; \<open>prev\<close> goes to the n-th
  stop to the left and, when there are fewer, to column zero; a count of zero counts as one.
  On a screen with at least one column both stay on it.
\<close>
theorem tabs_motion:
  assumes "col < ts_cols t"
  shows "(let R = filter (is_stop t) [col + 1..<ts_cols t]; L = filter (is_stop t) (rev [0..<col])
          in tabs_next t col n = (if max 1 n \<le> length R then R ! (max 1 n - 1) else ts_cols t - 1) \<and>
             tabs_prev t col n = (if max 1 n \<le> length L then L ! (max 1 n - 1) else 0)) \<and>
         tabs_next t col n < ts_cols t \<and> col \<le> tabs_next t col n \<and> tabs_prev t col n \<le> col"
proof -
  let ?R = "filter (is_stop t) [col + 1..<ts_cols t]" and ?L = "filter (is_stop t) (rev [0..<col])"
  have n: "tabs_next t col n = (if max 1 n \<le> length ?R then ?R ! (max 1 n - 1) else ts_cols t - 1)"
    by (simp add: tabs_next_def next_loop_eq Let_def)
  have p: "tabs_prev t col n = (if max 1 n \<le> length ?L then ?L ! (max 1 n - 1) else 0)"
    by (simp add: tabs_prev_def prev_loop_eq Let_def)
  have R: "?R ! k \<in> {col + 1..<ts_cols t}" if "k < length ?R" for k
    using nth_mem [OF that] by simp
  have L: "?L ! k \<in> {0..<col}" if "k < length ?L" for k
    using nth_mem [OF that] by simp
  have k: "max 1 n - 1 < m \<longleftrightarrow> max 1 n \<le> m" for m by auto
  show ?thesis
    unfolding n p Let_def using R [of "max 1 n - 1"] L [of "max 1 n - 1"] assms unfolding k
    by (auto simp del: max.bounded_iff)
qed

lemma tabs_motion_witness:
  "\<exists>t. tabs_new 30 = Some t \<and> tabs_next t 3 2 < 30 \<and> 3 \<le> tabs_next t 3 2 \<and> tabs_prev t 3 2 \<le> 3"
proof -
  obtain t where t: "tabs_new 30 = Some t" "ts_cols t = 30" using tabs_new_stops [of 30] by auto
  show ?thesis using tabs_motion [of 3 t 2] t by (intro exI [of _ t]) simp
qed

end
