(* ===== verification/Kitty.thy ===== *)
theory Kitty
  imports Prelude
begin

text \<open>
  The kitty keyboard stack of \<open>terminal.rs\<close> (\<open>struct KittyKeyboardStack\<close>): eight entries,
  wrapping, driven by \<open>CSI > u\<close>, \<open>CSI < u\<close> and \<open>CSI = u\<close>.
\<close>

section \<open>The stack\<close>

abbreviation (input) KITTY_LEN :: nat where "KITTY_LEN \<equiv> 8"

definition KITTY_KEYBOARD_SUPPORTED :: u8 where
  "KITTY_KEYBOARD_SUPPORTED = 0x07"

record kitty_stack =
  kk_flags :: "u8 list"
  kk_idx :: nat

definition kitty_default :: kitty_stack where
  "kitty_default = \<lparr>kk_flags = replicate KITTY_LEN 0, kk_idx = 0\<rparr>"

definition kitty_current :: "kitty_stack \<Rightarrow> u8" where
  "kitty_current k = kk_flags k ! kk_idx k"

definition kitty_set :: "nat \<Rightarrow> u8 \<Rightarrow> kitty_stack \<Rightarrow> kitty_stack" where
  "kitty_set mode v k =
     (let v = v AND KITTY_KEYBOARD_SUPPORTED;
          cur = kk_flags k ! kk_idx k
      in k\<lparr>kk_flags := (kk_flags k)[kk_idx k :=
            (if mode = 2 then cur OR v else if mode = 3 then cur AND NOT v else v)]\<rparr>)"

definition kitty_push :: "u8 \<Rightarrow> kitty_stack \<Rightarrow> kitty_stack" where
  "kitty_push v k =
     (let i = (kk_idx k + 1) mod KITTY_LEN
      in \<lparr>kk_flags = (kk_flags k)[i := v AND KITTY_KEYBOARD_SUPPORTED], kk_idx = i\<rparr>)"

definition kitty_pop1 :: "kitty_stack \<Rightarrow> kitty_stack" where
  "kitty_pop1 k =
     \<lparr>kk_flags = (kk_flags k)[kk_idx k := 0], kk_idx = (kk_idx k + KITTY_LEN - 1) mod KITTY_LEN\<rparr>"

definition kitty_pop :: "nat \<Rightarrow> kitty_stack \<Rightarrow> kitty_stack" where
  "kitty_pop n k = (if n \<ge> KITTY_LEN then kitty_default else (kitty_pop1 ^^ n) k)"

section \<open>Invariant\<close>

definition supported :: "u8 \<Rightarrow> bool" where
  "supported f \<longleftrightarrow> f AND KITTY_KEYBOARD_SUPPORTED = f"

definition kitty_wf :: "kitty_stack \<Rightarrow> bool" where
  "kitty_wf k \<longleftrightarrow> length (kk_flags k) = KITTY_LEN \<and> kk_idx k < KITTY_LEN \<and>
     (\<forall>f \<in> set (kk_flags k). supported f)"

lemma kitty_default_wf [wf_intros]: "kitty_wf kitty_default"
  by (simp add: kitty_wf_def kitty_default_def supported_def)

lemma supported_ops:
  "supported 0" "supported (a AND KITTY_KEYBOARD_SUPPORTED)"
  "supported c \<Longrightarrow> supported (c OR (a AND KITTY_KEYBOARD_SUPPORTED))"
  "supported c \<Longrightarrow> supported (c AND NOT (a AND KITTY_KEYBOARD_SUPPORTED))"
  unfolding supported_def
  by (auto simp: bit_eq_iff bit_simps)

lemma in_set_update: "x \<in> set (xs[i := y]) \<Longrightarrow> x = y \<or> x \<in> set xs"
  using set_update_subset_insert [of xs i y] by blast

lemma kitty_set_wf [wf_intros]: "kitty_wf k \<Longrightarrow> kitty_wf (kitty_set mode v k)"
  unfolding kitty_wf_def kitty_set_def Let_def
  by (auto dest!: in_set_update intro: supported_ops simp del: bit.de_Morgan_conj)

lemma kitty_push_wf [wf_intros]: "kitty_wf k \<Longrightarrow> kitty_wf (kitty_push v k)"
  unfolding kitty_wf_def kitty_push_def Let_def
  by (auto dest!: in_set_update intro: supported_ops)

lemma kitty_pop1_wf [wf_intros]: "kitty_wf k \<Longrightarrow> kitty_wf (kitty_pop1 k)"
  unfolding kitty_wf_def kitty_pop1_def
  by (auto dest!: in_set_update intro: supported_ops)

lemma kitty_pop_wf [wf_intros]: "kitty_wf k \<Longrightarrow> kitty_wf (kitty_pop n k)"
proof -
  assume "kitty_wf k"
  then have "kitty_wf ((kitty_pop1 ^^ m) k)" for m by (induction m) (auto intro: kitty_pop1_wf)
  then show ?thesis by (simp add: kitty_pop_def kitty_default_wf)
qed

section \<open>Push and pop\<close>

text \<open>The entry \<open>d\<close> below the top, counting down the ring.\<close>

definition kitty_below :: "nat \<Rightarrow> kitty_stack \<Rightarrow> u8" where
  "kitty_below d k = kk_flags k ! ((kk_idx k + KITTY_LEN - d) mod KITTY_LEN)"

lemma kitty_current_below: "kitty_wf k \<Longrightarrow> kitty_current k = kitty_below 0 k"
  by (simp add: kitty_current_def kitty_below_def kitty_wf_def)

lemma ring_table:
  "\<forall>i \<in> set [0..<8]. \<forall>d \<in> set [0..<8::nat].
     (0 < d \<longrightarrow> (i + 8 - d) mod 8 \<noteq> i) \<and>
     ((i + 1) mod 8 + 8 - Suc d) mod 8 = (i + 8 - d) mod 8 \<and>
     (d < 7 \<longrightarrow> ((i + 8 - 1) mod 8 + 8 - d) mod 8 = (i + 8 - Suc d) mod 8)"
  by code_simp

lemma ring_ne: "i < (8::nat) \<Longrightarrow> 0 < d \<Longrightarrow> d < 8 \<Longrightarrow> (i + 8 - d) mod 8 \<noteq> i"
  and ring_up: "i < (8::nat) \<Longrightarrow> d < 8 \<Longrightarrow> ((i + 1) mod 8 + 8 - Suc d) mod 8 = (i + 8 - d) mod 8"
  and ring_down: "i < (8::nat) \<Longrightarrow> d < 7 \<Longrightarrow> ((i + 8 - 1) mod 8 + 8 - d) mod 8 = (i + 8 - Suc d) mod 8"
  using ring_table by auto

lemma kitty_below_push:
  "kitty_wf k \<Longrightarrow> d < 7 \<Longrightarrow> kitty_below (Suc d) (kitty_push v k) = kitty_below d k"
  using ring_ne [of "(kk_idx k + 1) mod 8" "Suc d"] ring_up [of "kk_idx k" d]
  by (simp add: kitty_below_def kitty_push_def kitty_wf_def Let_def del: diff_Suc_Suc mod_Suc_eq)

lemma kitty_below_pop:
  "kitty_wf k \<Longrightarrow> d < 7 \<Longrightarrow> kitty_below d (kitty_pop1 k) = kitty_below (Suc d) k"
  using ring_ne [of "kk_idx k" "Suc d"] ring_down [of "kk_idx k" d]
  by (simp add: kitty_below_def kitty_pop1_def kitty_wf_def)

lemma kitty_below_pops:
  "kitty_wf k \<Longrightarrow> n + d < 8 \<Longrightarrow> kitty_below d ((kitty_pop1 ^^ n) k) = kitty_below (n + d) k"
proof (induction n arbitrary: k)
  case 0
  then show ?case by simp
next
  case (Suc n)
  have "kitty_below d ((kitty_pop1 ^^ n) (kitty_pop1 k)) = kitty_below (n + d) (kitty_pop1 k)"
    using Suc by (simp add: kitty_pop1_wf)
  also have "\<dots> = kitty_below (Suc (n + d)) k" using Suc.prems by (intro kitty_below_pop) auto
  finally show ?case by (simp add: funpow_swap1)
qed

lemma kitty_below_pushes:
  "kitty_wf k \<Longrightarrow> length vs + d < 8 \<Longrightarrow>
   kitty_wf (fold kitty_push vs k) \<and> kitty_below (length vs + d) (fold kitty_push vs k) = kitty_below d k"
proof (induction vs arbitrary: k d)
  case Nil
  then show ?case by simp
next
  case (Cons v vs)
  have "kitty_wf (fold kitty_push vs (kitty_push v k)) \<and>
      kitty_below (length vs + Suc d) (fold kitty_push vs (kitty_push v k)) =
      kitty_below (Suc d) (kitty_push v k)"
    using Cons.prems by (intro Cons.IH) (auto intro: kitty_push_wf)
  then show ?case using Cons.prems kitty_below_push [of k d v] by simp
qed

text \<open>
  The keyboard stack restores what a program pushed over.  For any reachable stack, up to
  seven pushes followed by as many pops leave the same flags in force as before, the top
  after a push is the pushed flags without the unsupported bits, and eight pops or more reset
  the whole stack.
\<close>
theorem kitty_push_pop:
  assumes "kitty_wf k" "length vs < KITTY_LEN"
  shows "kitty_current (kitty_pop (length vs) (fold kitty_push vs k)) = kitty_current k \<and>
         kitty_current (kitty_push v k) = v AND KITTY_KEYBOARD_SUPPORTED \<and>
         kitty_pop (KITTY_LEN + n) k = kitty_default"
proof -
  have w: "kitty_wf (fold kitty_push vs k)"
    "kitty_below (length vs) (fold kitty_push vs k) = kitty_below 0 k"
    using kitty_below_pushes [of k vs 0] assms by auto
  have "kitty_current (kitty_pop (length vs) (fold kitty_push vs k)) =
      kitty_below 0 ((kitty_pop1 ^^ length vs) (fold kitty_push vs k))"
    using kitty_current_below [OF kitty_pop_wf [OF w(1), of "length vs"]] assms(2)
    by (simp add: kitty_pop_def)
  then have "kitty_current (kitty_pop (length vs) (fold kitty_push vs k)) = kitty_current k"
    using kitty_below_pops [OF w(1), of "length vs" 0] w(2) assms by (simp add: kitty_current_below)
  then show ?thesis
    using assms(1) by (simp add: kitty_current_def kitty_push_def Let_def kitty_wf_def kitty_pop_def)
qed

lemma kitty_push_pop_witness:
  "kitty_current (kitty_pop (length [1, 9, 7 :: u8]) (fold kitty_push [1, 9, 7] (kitty_set 1 0xFD kitty_default))) = 5"
proof -
  have "kitty_wf (kitty_set 1 0xFD kitty_default)" by (simp add: wf_intros)
  then have "kitty_current (kitty_pop (length [1, 9, 7 :: u8])
      (fold kitty_push [1, 9, 7] (kitty_set 1 0xFD kitty_default))) =
      kitty_current (kitty_set 1 0xFD kitty_default)"
    using kitty_push_pop [of _ "[1, 9, 7 :: u8]"] by simp
  then show ?thesis by (simp add: kitty_current_def kitty_set_def kitty_default_def KITTY_KEYBOARD_SUPPORTED_def)
qed

end
