(* ===== verification/Base64.thy ===== *)
theory Base64
  imports Prelude
begin

text \<open>
  The OSC 52 payload decoder, \<open>crates/marspot-term/src/base64.rs\<close>.  The loop's locals are the
  record \<open>b64_state\<close>; an early \<open>return None\<close> is \<open>None\<close>.
\<close>

section \<open>The decoder\<close>

record b64_state =
  b_out :: "u8 list"
  b_quad :: "u8 list"
  b_n :: nat
  b_padding :: nat

definition ascii_whitespace :: "u8 \<Rightarrow> bool" where
  "ascii_whitespace b \<longleftrightarrow> b = 0x20 \<or> b = 0x09 \<or> b = 0x0A \<or> b = 0x0C \<or> b = 0x0D"

definition b64_value :: "u8 \<Rightarrow> u8 option" where
  "b64_value b =
     (if 0x41 \<le> b \<and> b \<le> 0x5A then Some (b - 0x41)
      else if 0x61 \<le> b \<and> b \<le> 0x7A then Some (b - 0x61 + 26)
      else if 0x30 \<le> b \<and> b \<le> 0x39 then Some (b - 0x30 + 52)
      else if b = 0x2B then Some 62
      else if b = 0x2F then Some 63
      else if b = 0x3D then Some 0
      else None)"

definition b64_triple :: "u8 list \<Rightarrow> u32" where
  "b64_triple q =
     push_bit 18 (ucast (q ! 0)) OR push_bit 12 (ucast (q ! 1)) OR push_bit 6 (ucast (q ! 2)) OR
     ucast (q ! 3)"

definition b64_step :: "nat \<Rightarrow> b64_state \<Rightarrow> u8 \<Rightarrow> b64_state option" where
  "b64_step cap s b =
     (if ascii_whitespace b then Some s
      else case b64_value b of
             None \<Rightarrow> None
           | Some v \<Rightarrow>
               let padding = b_padding s + (if b = 0x3D then 1 else 0)
               in if padding > 0 \<and> b \<noteq> 0x3D then None
                  else
                    let quad = (b_quad s)[b_n s := v]; n = b_n s + 1
                    in if n = 4
                       then
                         let triple = b64_triple quad;
                             take = 3 - min padding 2;
                             out = b_out s @ map (\<lambda>i. ucast (drop_bit (16 - 8 * i) triple)) [0..<take]
                         in if length out > cap then None
                            else Some \<lparr>b_out = out, b_quad = quad, b_n = 0, b_padding = padding\<rparr>
                       else Some \<lparr>b_out = b_out s, b_quad = quad, b_n = n, b_padding = padding\<rparr>)"

fun b64_run :: "nat \<Rightarrow> b64_state \<Rightarrow> u8 list \<Rightarrow> b64_state option" where
  "b64_run cap s [] = Some s"
| "b64_run cap s (b # bs) = (case b64_step cap s b of None \<Rightarrow> None | Some s' \<Rightarrow> b64_run cap s' bs)"

definition b64_decode :: "u8 list \<Rightarrow> nat \<Rightarrow> u8 list option" where
  "b64_decode input cap =
     (case b64_run cap \<lparr>b_out = [], b_quad = replicate 4 0, b_n = 0, b_padding = 0\<rparr> input of
        None \<Rightarrow> None
      | Some s \<Rightarrow> if b_n s \<noteq> 0 then None else Some (b_out s))"

section \<open>Reference encoder\<close>

text \<open>Standard base64 (RFC 4648), on the numeric values of the bytes.\<close>

definition b64_digit :: "nat \<Rightarrow> u8" where
  "b64_digit v =
     (if v < 26 then of_nat (0x41 + v)
      else if v < 52 then of_nat (0x61 + (v - 26))
      else if v < 62 then of_nat (0x30 + (v - 52))
      else if v = 62 then 0x2B else 0x2F)"

definition b64_group :: "nat \<Rightarrow> u8 list" where
  "b64_group t = [b64_digit (t div 262144), b64_digit (t div 4096 mod 64),
                  b64_digit (t div 64 mod 64), b64_digit (t mod 64)]"

fun b64_encode :: "u8 list \<Rightarrow> u8 list" where
  "b64_encode [] = []"
| "b64_encode [a] = take 2 (b64_group (unat a * 65536)) @ [0x3D, 0x3D]"
| "b64_encode [a, b] = take 3 (b64_group (unat a * 65536 + unat b * 256)) @ [0x3D]"
| "b64_encode (a # b # c # bs) =
     b64_group (unat a * 65536 + unat b * 256 + unat c) @ b64_encode bs"

section \<open>Round trip\<close>

lemma b64_digit_value:
  assumes "v < 64"
  shows "b64_value (b64_digit v) = Some (of_nat v)" "\<not> ascii_whitespace (b64_digit v)"
    "b64_digit v \<noteq> 0x3D"
proof -
  have "\<forall>v \<in> set [0..<64]. b64_value (b64_digit v) = Some (of_nat v) \<and>
      \<not> ascii_whitespace (b64_digit v) \<and> b64_digit v \<noteq> 0x3D"
    by code_simp
  then show "b64_value (b64_digit v) = Some (of_nat v)" "\<not> ascii_whitespace (b64_digit v)"
    "b64_digit v \<noteq> 0x3D"
    using assms by auto
qed


lemma unat_shift_u32:
  assumes "v < 64" "n \<le> 18"
  shows "unat (push_bit n (ucast (of_nat v :: u8)) :: u32) = v * 2 ^ n"
proof -
  have "v * 2 ^ n \<le> 63 * 2 ^ 18" using assms by (intro mult_mono power_increasing) auto
  then have "v * 2 ^ n < 2 ^ 32" by simp
  moreover have "unat (ucast (of_nat v :: u8) :: u32) = v" using assms(1) by simp
  ultimately show ?thesis
    by (simp only: unsigned_push_bit_eq)
      (simp add: push_bit_eq_mult take_bit_nat_eq_self_iff del: unat_ucast_u8)
qed

lemma or_add: "m < 2 ^ n \<Longrightarrow> (a * 2 ^ n) OR m = a * 2 ^ n + (m :: nat)"
proof -
  assume "m < 2 ^ n"
  then have "m = take_bit n m" by (simp add: take_bit_nat_eq_self)
  moreover have "push_bit n a OR take_bit n m = push_bit n a + take_bit n m"
    by (rule disjunctive_add [symmetric]) (auto simp: bit_simps)
  ultimately show ?thesis by (simp add: push_bit_eq_mult)
qed

lemma unat_triple:
  assumes "w < 64" "x < 64" "y < 64" "z < 64"
  shows "unat (b64_triple [of_nat w, of_nat x, of_nat y, of_nat z]) =
           w * 262144 + x * 4096 + y * 64 + z"
proof -
  have "unat (b64_triple [of_nat w, of_nat x, of_nat y, of_nat z]) =
      (w * 2 ^ 18) OR ((x * 2 ^ 12) OR ((y * 2 ^ 6) OR z))"
    using assms unat_shift_u32 [of w 18] unat_shift_u32 [of x 12] unat_shift_u32 [of y 6]
    by (simp add: b64_triple_def unsigned_or_eq or.assoc)
  also have "\<dots> = w * 2 ^ 18 + (x * 2 ^ 12 + (y * 2 ^ 6 + z))"
    using assms or_add [of z 6 y] or_add [of "y * 2 ^ 6 + z" 12 x]
      or_add [of "x * 2 ^ 12 + (y * 2 ^ 6 + z)" 18 w] by simp
  finally show ?thesis by simp
qed

lemma drop_byte:
  "(ucast (drop_bit n (t :: u32)) :: u8) = of_nat (unat t div 2 ^ n)"
  by (simp only: u8_eq_iff unsigned_ucast_eq unsigned_drop_bit_eq unsigned_of_nat)
    (simp add: drop_bit_eq_div take_bit_nat_eq_self unsigned_less [of t, simplified])

text \<open>The bytes a quad yields, before the padding cuts them.\<close>

lemma b64_bytes:
  assumes "t < 2 ^ 24" "unat u = t"
  shows "map (\<lambda>i. ucast (drop_bit (16 - 8 * i) (u :: u32))) [0..<3] =
           [of_nat (t div 65536), of_nat (t div 256), of_nat t :: u8]"
  using assms by (simp add: drop_byte upt_conv_Cons)

lemma b64_step_digit:
  assumes "v < 64" "b_padding s = 0" "b_n s < 3"
  shows "b64_step cap s (b64_digit v) =
           Some (s\<lparr>b_quad := (b_quad s)[b_n s := of_nat v], b_n := b_n s + 1\<rparr>)"
  using assms b64_digit_value [OF assms(1)] by (simp add: b64_step_def Let_def)

lemma b64_step_pad:
  assumes "b_n s < 3"
  shows "b64_step cap s 0x3D =
           Some (s\<lparr>b_quad := (b_quad s)[b_n s := 0], b_n := b_n s + 1, b_padding := b_padding s + 1\<rparr>)"
  using assms by (simp add: b64_step_def Let_def ascii_whitespace_def b64_value_def)


lemma b64_step_last:
  assumes "v < 64" "b_padding s = 0" "b_n s = 3"
    "b_quad s = [of_nat w, of_nat x, of_nat y, q]" "w < 64" "x < 64" "y < 64"
    "t = w * 262144 + x * 4096 + y * 64 + v" "length (b_out s) + 3 \<le> cap"
  shows "b64_step cap s (b64_digit v) =
           Some \<lparr>b_out = b_out s @ [of_nat (t div 65536), of_nat (t div 256), of_nat t],
                 b_quad = [of_nat w, of_nat x, of_nat y, of_nat v], b_n = 0, b_padding = 0\<rparr>"
proof -
  have "t < 2 ^ 24" using assms by simp
  from b64_bytes [OF this unat_triple [OF assms(5-7,1), folded assms(8)]]
  show ?thesis
    using assms b64_digit_value [OF assms(1)] by (simp add: b64_step_def Let_def numeral_3_eq_3)
qed

lemma b64_step_last_pad:
  assumes "b_padding s = p" "p < 2" "b_n s = 3"
    "b_quad s = [of_nat w, of_nat x, of_nat y, q]" "w < 64" "x < 64" "y < 64"
    "t = w * 262144 + x * 4096 + y * 64" "length (b_out s) + (2 - p) \<le> cap"
  shows "b64_step cap s 0x3D =
           Some \<lparr>b_out = b_out s @ take (2 - p) [of_nat (t div 65536), of_nat (t div 256)],
                 b_quad = [of_nat w, of_nat x, of_nat y, 0], b_n = 0, b_padding = p + 1\<rparr>"
proof -
  have t: "t < 2 ^ 24" using assms by simp
  have u: "unat (b64_triple [of_nat w, of_nat x, of_nat y, 0]) = t"
    using unat_triple [OF assms(5-7), of 0] assms(8) by simp
  let ?f = "\<lambda>i. ucast (drop_bit (16 - 8 * i) (b64_triple [of_nat w, of_nat x, of_nat y, 0])) :: u8"
  have "map ?f [0..<2 - p] = take (2 - p) (map ?f [0..<3])"
    by (simp add: take_map take_upt)
  then have "map ?f [0..<2 - p] = take (2 - p) [of_nat (t div 65536), of_nat (t div 256)]"
    unfolding b64_bytes [OF t u] using assms(2) by (simp add: take_Cons')
  moreover have "3 - min (Suc p) 2 = 2 - p" using assms(2) by simp
  ultimately show ?thesis
    using assms(1,3,4,9)
    by (simp add: b64_step_def Let_def ascii_whitespace_def b64_value_def)
qed

lemma b64_split:
  "(t :: nat) = t div 262144 * 262144 + t div 4096 mod 64 * 4096 + t div 64 mod 64 * 64 + t mod 64"
proof -
  have "t = t div 64 * 64 + t mod 64" by simp
  moreover have "t div 64 = t div 4096 * 64 + t div 64 mod 64"
    using div_mult_mod_eq [of "t div 64" 64] by (simp add: div_mult2_eq [symmetric])
  moreover have "t div 4096 = t div 262144 * 64 + t div 4096 mod 64"
    using div_mult_mod_eq [of "t div 4096" 64] by (simp add: div_mult2_eq [symmetric])
  ultimately show ?thesis by linarith
qed

lemma of_nat_high_byte: "of_nat (m * 256 + n) = (of_nat n :: u8)"
  by (simp add: u8_eq_iff unsigned_of_nat take_bit_eq_mod del: of_nat_add of_nat_mult)

text \<open>One quad at a quad boundary, whole or cut by padding.\<close>

lemma b64_run_group:
  assumes "b_n s = 0" "b_padding s = 0" "length (b_quad s) = 4" "t < 2 ^ 24"
    "length (b_out s) + 3 \<le> cap"
  shows "\<exists>s'. b64_run cap s (b64_group t @ bs) = b64_run cap s' bs \<and>
           b_out s' = b_out s @ [of_nat (t div 65536), of_nat (t div 256), of_nat t] \<and>
           b_n s' = 0 \<and> b_padding s' = 0 \<and> length (b_quad s') = 4"
proof -
  obtain a b c d where q: "b_quad s = [a, b, c, d]"
    using assms(3) by (auto simp: length_Suc_conv numeral_eq_Suc)
  have r: "t div 262144 < 64" "t div 4096 mod 64 < 64" "t div 64 mod 64 < 64" "t mod 64 < 64"
    using assms(4) by auto
  show ?thesis
    using assms q
    by (simp add: b64_group_def b64_step_digit r b64_step_last [OF r(4) _ _ _ r(1-3) b64_split])
      (rule exI, rule conjI, rule refl, simp)
qed

lemma b64_run_tail2:
  assumes "b_n s = 0" "b_padding s = 0" "length (b_quad s) = 4" "t < 2 ^ 24" "t mod 64 = 0"
    "length (b_out s) + 2 \<le> cap"
  shows "\<exists>s'. b64_run cap s (take 3 (b64_group t) @ [0x3D]) = Some s' \<and>
           b_out s' = b_out s @ [of_nat (t div 65536), of_nat (t div 256)] \<and> b_n s' = 0"
proof -
  obtain a b c d where q: "b_quad s = [a, b, c, d]"
    using assms(3) by (auto simp: length_Suc_conv numeral_eq_Suc)
  have r: "t div 262144 < 64" "t div 4096 mod 64 < 64" "t div 64 mod 64 < 64"
    using assms(4) by auto
  have t: "t = t div 262144 * 262144 + t div 4096 mod 64 * 4096 + t div 64 mod 64 * 64"
    using b64_split [of t] assms(5) by simp
  show ?thesis
    using assms q
    by (simp add: b64_group_def b64_step_digit r b64_step_last_pad [OF _ _ _ _ r t])
qed

lemma b64_run_tail1:
  assumes "b_n s = 0" "b_padding s = 0" "length (b_quad s) = 4" "t < 2 ^ 24" "t mod 4096 = 0"
    "length (b_out s) + 1 \<le> cap"
  shows "\<exists>s'. b64_run cap s (take 2 (b64_group t) @ [0x3D, 0x3D]) = Some s' \<and>
           b_out s' = b_out s @ [of_nat (t div 65536)] \<and> b_n s' = 0"
proof -
  obtain a b c d where q: "b_quad s = [a, b, c, d]"
    using assms(3) by (auto simp: length_Suc_conv numeral_eq_Suc)
  have r: "t div 262144 < 64" "t div 4096 mod 64 < 64" "0 < (64::nat)"
    using assms(4) by auto
  have t: "t = t div 262144 * 262144 + t div 4096 mod 64 * 4096 + 0 * 64"
    using div_mult_mod_eq [of t 4096] div_mult_mod_eq [of "t div 4096" 64] assms(5)
    by (simp add: div_mult2_eq [symmetric] del: div_mult_mod_eq)
  show ?thesis
    using assms q
    by (simp add: b64_group_def b64_step_digit b64_step_pad r(1,2)
        b64_step_last_pad [where p = 1, OF _ _ _ _ r t, simplified])
qed

text \<open>
  What a program sends to the clipboard is what arrives.  Decoding the standard base64
  encoding of any byte string within the cap returns that byte string.
\<close>
theorem b64_roundtrip:
  assumes "length bs \<le> cap"
  shows "b64_decode (b64_encode bs) cap = Some bs"
proof -
  have "\<exists>s'. b64_run cap s (b64_encode bs) = Some s' \<and> b_out s' = b_out s @ bs \<and> b_n s' = 0"
    if "b_n s = 0" "b_padding s = 0" "length (b_quad s) = 4" "length (b_out s) + length bs \<le> cap"
    for s
    using that
  proof (induction bs arbitrary: s rule: b64_encode.induct)
    case 1
    then show ?case by simp
  next
    case (2 a)
    have "(unat a * 65536) mod 4096 = 0" by simp
    with 2 show ?case
      using b64_run_tail1 [of s "unat a * 65536" cap] by simp
  next
    case (3 a b)
    let ?t = "unat a * 65536 + unat b * 256"
    have "?t < 2 ^ 24" "?t mod 64 = 0" "?t div 65536 = unat a" "?t div 256 = unat a * 256 + unat b"
      using unat_u8_lt [of a] unat_u8_lt [of b] by (auto simp del: unat_u8_lt)
    note t = this
    have "of_nat (unat a * 256 + unat b) = b" unfolding of_nat_high_byte by simp
    with 3 show ?case
      using b64_run_tail2 [of s ?t cap, unfolded t(3,4)] t(1,2) by (simp del: of_nat_add of_nat_mult)
  next
    case (4 a b c bs)
    let ?t = "unat a * 65536 + unat b * 256 + unat c"
    have t: "?t < 2 ^ 24" "?t div 65536 = unat a" "?t div 256 = unat a * 256 + unat b"
      using unat_u8_lt [of a] unat_u8_lt [of b] unat_u8_lt [of c] by (auto simp del: unat_u8_lt)
    obtain s' where s': "b64_run cap s (b64_group ?t @ b64_encode bs) = b64_run cap s' (b64_encode bs)"
      "b_out s' = b_out s @ [of_nat (?t div 65536), of_nat (?t div 256), of_nat ?t]"
      "b_n s' = 0" "b_padding s' = 0" "length (b_quad s') = 4"
      using b64_run_group [of s ?t cap "b64_encode bs"] "4.prems" t(1) by auto
    have "?t = (unat a * 256 + unat b) * 256 + unat c" by simp
    then have "of_nat ?t = c" "of_nat (unat a * 256 + unat b) = b"
      by (simp_all only: of_nat_high_byte) simp_all
    then have "b_out s' = b_out s @ [a, b, c]"
      using s'(2) unfolding t by (simp del: of_nat_add of_nat_mult)
    then show ?case
      using "4.IH" [of s'] s' "4.prems" by auto
  qed
  from this [of "\<lparr>b_out = [], b_quad = replicate 4 0, b_n = 0, b_padding = 0\<rparr>"] assms
  show ?thesis by (auto simp: b64_decode_def)
qed

lemma b64_roundtrip_witness:
  "b64_decode (b64_encode [0x68, 0x65, 0x6C, 0x6C, 0x6F]) 64 = Some [0x68, 0x65, 0x6C, 0x6C, 0x6F]"
  using b64_roundtrip [of "[0x68, 0x65, 0x6C, 0x6C, 0x6F]" 64] by simp

end
