(* ===== verification/Cells.thy ===== *)
theory Cells
  imports Prelude
begin

text \<open>
  The cell of the screen grid, \<open>crates/marspot-term/src/grid.rs\<close>: \<open>Color\<close>, \<open>CellAttrs\<close>,
  \<open>Cell\<close> with its layout in memory and on disk, and the \<open>PromptMark\<close> of a row.
\<close>

section \<open>Colours\<close>

record color =
  col_tag :: u8
  col_a :: u8
  col_b :: u8
  col_c :: u8

datatype color_kind = DefaultColor | Indexed u8 | Rgb u8 u8 u8

definition color_default :: color where
  "color_default = \<lparr>col_tag = 0, col_a = 0, col_b = 0, col_c = 0\<rparr>"

definition color_indexed :: "u8 \<Rightarrow> color" where
  "color_indexed i = \<lparr>col_tag = 1, col_a = i, col_b = 0, col_c = 0\<rparr>"

definition color_rgb :: "u8 \<Rightarrow> u8 \<Rightarrow> u8 \<Rightarrow> color" where
  "color_rgb r g b = \<lparr>col_tag = 2, col_a = r, col_b = g, col_c = b\<rparr>"

definition color_kind :: "color \<Rightarrow> color_kind" where
  "color_kind c =
     (if col_tag c = 1 then Indexed (col_a c)
      else if col_tag c = 2 then Rgb (col_a c) (col_b c) (col_c c)
      else DefaultColor)"

fun color_from_kind :: "color_kind \<Rightarrow> color" where
  "color_from_kind DefaultColor = color_default"
| "color_from_kind (Indexed i) = color_indexed i"
| "color_from_kind (Rgb r g b) = color_rgb r g b"

definition color_from_bytes :: "u8 \<Rightarrow> u8 \<Rightarrow> u8 \<Rightarrow> u8 \<Rightarrow> color" where
  "color_from_bytes b0 b1 b2 b3 =
     (if b0 = 1 then color_indexed b1
      else if b0 = 2 then color_rgb b1 b2 b3
      else color_default)"

section \<open>Cells\<close>

record cell_attrs =
  fg :: color
  bg :: color
  bold :: bool
  italic :: bool
  underline :: bool
  reverse_video :: bool
  dim :: bool
  pad0 :: u8
  pad1 :: u8
  pad2 :: u8

record cell =
  ch :: uchar
  attrs :: cell_attrs

definition attrs_default :: cell_attrs where
  "attrs_default =
     \<lparr>fg = color_default, bg = color_default, bold = False, italic = False, underline = False,
      reverse_video = False, dim = False, pad0 = 0, pad1 = 0, pad2 = 0\<rparr>"

definition cell_default :: cell where
  "cell_default = \<lparr>ch = 0x20, attrs = attrs_default\<rparr>"

definition cell_from_char :: "uchar \<Rightarrow> cell" where
  "cell_from_char c = \<lparr>ch = c, attrs = attrs_default\<rparr>"

definition FLAG_CLUSTER :: u8 where "FLAG_CLUSTER = 1"

abbreviation (input) CLUSTER_INDEX_BASE :: nat where "CLUSTER_INDEX_BASE \<equiv> 0xF0000"

definition is_cluster :: "cell \<Rightarrow> bool" where
  "is_cluster c \<longleftrightarrow> pad0 (attrs c) AND FLAG_CLUSTER \<noteq> 0"

definition cluster_index :: "cell \<Rightarrow> nat option" where
  "cluster_index c =
     (if is_cluster c
      then if ch c < CLUSTER_INDEX_BASE then None else Some (ch c - CLUSTER_INDEX_BASE)
      else None)"

section \<open>Cells as bytes\<close>

abbreviation (input) CELL_MEM_BYTES :: nat where "CELL_MEM_BYTES \<equiv> 20"

text \<open>The memory of a cell, as the layout assertions fix it, little-endian.\<close>

definition bool_byte :: "bool \<Rightarrow> u8" where
  "bool_byte b = (if b then 1 else 0)"

definition color_bytes :: "color \<Rightarrow> u8 list" where
  "color_bytes c = [col_tag c, col_a c, col_b c, col_c c]"

definition u32_bytes :: "nat \<Rightarrow> u8 list" where
  "u32_bytes n = [of_nat n, of_nat (n div 2 ^ 8), of_nat (n div 2 ^ 16), of_nat (n div 2 ^ 24)]"

definition cell_bytes :: "cell \<Rightarrow> u8 list" where
  "cell_bytes c =
     (let a = attrs c
      in u32_bytes (ch c) @ color_bytes (fg a) @ color_bytes (bg a) @
         [bool_byte (bold a), bool_byte (italic a), bool_byte (underline a),
          bool_byte (reverse_video a), bool_byte (dim a), pad0 a, pad1 a, pad2 a])"

definition slice_as_bytes :: "cell list \<Rightarrow> u8 list" where
  "slice_as_bytes cells = concat (map cell_bytes cells)"

definition u32_from_bytes :: "u8 \<Rightarrow> u8 \<Rightarrow> u8 \<Rightarrow> u8 \<Rightarrow> nat" where
  "u32_from_bytes b0 b1 b2 b3 =
     unat b0 + 2 ^ 8 * unat b1 + 2 ^ 16 * unat b2 + 2 ^ 24 * unat b3"

definition from_mem_bytes :: "u8 list \<Rightarrow> cell" where
  "from_mem_bytes b =
     \<lparr>ch = (case from_u32 (u32_from_bytes (b ! 0) (b ! 1) (b ! 2) (b ! 3)) of
              Some c \<Rightarrow> c | None \<Rightarrow> 0x20),
      attrs =
        \<lparr>fg = color_from_bytes (b ! 4) (b ! 5) (b ! 6) (b ! 7),
         bg = color_from_bytes (b ! 8) (b ! 9) (b ! 10) (b ! 11),
         bold = (b ! 12 \<noteq> 0), italic = (b ! 13 \<noteq> 0), underline = (b ! 14 \<noteq> 0),
         reverse_video = (b ! 15 \<noteq> 0), dim = (b ! 16 \<noteq> 0),
         pad0 = 0, pad1 = 0, pad2 = 0\<rparr>\<rparr>"

section \<open>Prompt marks\<close>

datatype prompt_mark =
  NoMark | PromptStart | InputStart | OutputStart | CommandEnd "u8 option"

fun prompt_to_bytes :: "prompt_mark \<Rightarrow> u8 \<times> u8" where
  "prompt_to_bytes NoMark = (0, 0)"
| "prompt_to_bytes PromptStart = (1, 0)"
| "prompt_to_bytes InputStart = (2, 0)"
| "prompt_to_bytes OutputStart = (3, 0)"
| "prompt_to_bytes (CommandEnd None) = (4, 0)"
| "prompt_to_bytes (CommandEnd (Some s)) = (5, s)"

definition prompt_from_bytes :: "u8 \<times> u8 \<Rightarrow> prompt_mark" where
  "prompt_from_bytes b =
     (if fst b = 1 then PromptStart
      else if fst b = 2 then InputStart
      else if fst b = 3 then OutputStart
      else if fst b = 4 then CommandEnd None
      else if fst b = 5 then CommandEnd (Some (snd b))
      else NoMark)"

section \<open>Well-formed cells\<close>

text \<open>What the constructors can build: a canonical colour, a scalar value.\<close>

definition color_wf :: "color \<Rightarrow> bool" where
  "color_wf c \<longleftrightarrow> c = color_from_kind (color_kind c)"

definition cell_wf :: "cell \<Rightarrow> bool" where
  "cell_wf c \<longleftrightarrow> is_scalar (ch c) \<and> color_wf (fg (attrs c)) \<and> color_wf (bg (attrs c)) \<and>
     pad1 (attrs c) = 0 \<and> pad2 (attrs c) = 0"

lemmas color_defs = color_default_def color_indexed_def color_rgb_def

lemma color_wf_constructors [wf_intros]:
  "color_wf color_default" "color_wf (color_indexed i)" "color_wf (color_rgb r g b)"
  "color_wf (color_from_kind k)" "color_wf (color_from_bytes b0 b1 b2 b3)"
  by (cases k; simp add: color_wf_def color_kind_def color_defs color_from_bytes_def)+

lemma color_from_bytes_self: "color_wf c \<Longrightarrow> color_from_bytes (col_tag c) (col_a c) (col_b c) (col_c c) = c"
  by (cases c) (auto simp: color_wf_def color_kind_def color_from_bytes_def color_defs split: if_splits)

lemma u32_round_trip:
  assumes "n < 2 ^ 32"
  shows "u32_from_bytes (u32_bytes n ! 0) (u32_bytes n ! 1) (u32_bytes n ! 2) (u32_bytes n ! 3) = n"
proof -
  have "n = n mod 256 + 256 * (n div 256 mod 256) + 65536 * (n div 65536 mod 256) +
      16777216 * (n div 16777216)"
  proof -
    have "n = n div 256 * 256 + n mod 256" by simp
    moreover have "n div 256 = n div 65536 * 256 + n div 256 mod 256"
      using div_mult_mod_eq [of "n div 256" 256] by (simp add: div_mult2_eq [symmetric])
    moreover have "n div 65536 = n div 16777216 * 256 + n div 65536 mod 256"
      using div_mult_mod_eq [of "n div 65536" 256] by (simp add: div_mult2_eq [symmetric])
    ultimately show ?thesis by linarith
  qed
  moreover have "n div 16777216 mod 256 = n div 16777216" using assms by simp
  ultimately show ?thesis
    by (simp add: u32_from_bytes_def u32_bytes_def unsigned_of_nat take_bit_eq_mod)
qed

lemma is_scalar_u32: "is_scalar c \<Longrightarrow> c < 2 ^ 32"
  by (auto simp: is_scalar_def)

lemma length_cell_bytes [simp]: "length (cell_bytes c) = CELL_MEM_BYTES"
  by (simp add: cell_bytes_def u32_bytes_def color_bytes_def Let_def)

lemma bool_byte_eq: "bool_byte b \<noteq> 0 \<longleftrightarrow> b"
  by (simp add: bool_byte_def)

text \<open>The bytes of one cell inside a row's bytes.\<close>

lemma slice_as_bytes_nth:
  "i < length cs \<Longrightarrow> slice (slice_as_bytes cs) (i * CELL_MEM_BYTES) CELL_MEM_BYTES = cell_bytes (cs ! i)"
proof (induction cs arbitrary: i)
  case Nil
  then show ?case by simp
next
  case (Cons c cs)
  then show ?case by (cases i) (simp_all add: slice_as_bytes_def slice_def)
qed

text \<open>
  A row of cells survives the disk.  Every cell a program can put on the screen is read
  back from the row's bytes as it was written, but for the cluster flag and the two reserved
  bytes, which come back zero.
\<close>
theorem cell_bytes_roundtrip:
  assumes "i < length cs" "cell_wf (cs ! i)"
  shows "from_mem_bytes (slice (slice_as_bytes cs) (i * CELL_MEM_BYTES) CELL_MEM_BYTES) =
           (cs ! i)\<lparr>attrs := (attrs (cs ! i))\<lparr>pad0 := 0, pad1 := 0, pad2 := 0\<rparr>\<rparr> \<and>
         length (slice_as_bytes cs) = length cs * CELL_MEM_BYTES"
proof -
  let ?c = "cs ! i"
  have wf: "is_scalar (ch ?c)" "color_wf (fg (attrs ?c))" "color_wf (bg (attrs ?c))"
    using assms(2) by (simp_all add: cell_wf_def)
  have b: "cell_bytes ?c ! 0 = u32_bytes (ch ?c) ! 0" "cell_bytes ?c ! 1 = u32_bytes (ch ?c) ! 1"
    "cell_bytes ?c ! 2 = u32_bytes (ch ?c) ! 2" "cell_bytes ?c ! 3 = u32_bytes (ch ?c) ! 3"
    by (simp_all add: cell_bytes_def u32_bytes_def Let_def)
  have "from_mem_bytes (cell_bytes ?c) = ?c\<lparr>attrs := (attrs ?c)\<lparr>pad0 := 0, pad1 := 0, pad2 := 0\<rparr>\<rparr>"
    using wf
    unfolding from_mem_bytes_def b u32_round_trip [OF is_scalar_u32 [OF wf(1)]]
    by (simp add: from_u32_def cell_bytes_def u32_bytes_def color_bytes_def Let_def bool_byte_eq
        color_from_bytes_self)
  moreover have "length (slice_as_bytes cs) = length cs * CELL_MEM_BYTES"
    by (induction cs) (simp_all add: slice_as_bytes_def)
  ultimately show ?thesis unfolding slice_as_bytes_nth [OF assms(1)] by blast
qed

lemma cell_bytes_roundtrip_witness:
  "from_mem_bytes (slice (slice_as_bytes
     [cell_default, (cell_from_char 0x4E2D)\<lparr>attrs := attrs_default\<lparr>fg := color_rgb 1 2 3, bold := True\<rparr>\<rparr>])
     (1 * CELL_MEM_BYTES) CELL_MEM_BYTES) =
   (cell_from_char 0x4E2D)\<lparr>attrs := attrs_default\<lparr>fg := color_rgb 1 2 3, bold := True\<rparr>\<rparr>"
proof -
  let ?c = "(cell_from_char 0x4E2D)\<lparr>attrs := attrs_default\<lparr>fg := color_rgb 1 2 3, bold := True\<rparr>\<rparr>"
  have "cell_wf ([cell_default, ?c] ! 1)"
    by (simp add: cell_wf_def cell_from_char_def attrs_default_def is_scalar_def wf_intros)
  from cell_bytes_roundtrip [OF _ this] show ?thesis
    by (simp add: cell_from_char_def attrs_default_def)
qed

text \<open>
  Bytes from a file are never trusted.  Whatever twenty bytes are read, the cell is one
  the program could have built: a scalar value, canonical colours (so equality of colours is
  equality of their meaning), and no cluster flag, so it never points into a pool.
\<close>
theorem from_mem_bytes_safe:
  "cell_wf (from_mem_bytes b) \<and> cluster_index (from_mem_bytes b) = None \<and>
   color_from_kind (color_kind (fg (attrs (from_mem_bytes b)))) = fg (attrs (from_mem_bytes b))"
proof -
  have "is_scalar (case from_u32 n of Some c \<Rightarrow> c | None \<Rightarrow> 0x20)" for n
    by (simp add: from_u32_def is_scalar_def)
  moreover have "color_from_kind (color_kind c) = c" if "color_wf c" for c
    using that unfolding color_wf_def by metis
  ultimately show ?thesis
    by (simp add: cell_wf_def from_mem_bytes_def color_wf_constructors cluster_index_def is_cluster_def)
qed

text \<open>
  Prompt marks survive their two-byte encoding, and every encoding a newer build may have
  written reads as some mark, unknown kinds as none: writing back what was read keeps the
  kinds 0 to 5, the exit status of kind 5 only, and turns everything else into no mark.
\<close>
theorem prompt_mark_roundtrip:
  "prompt_from_bytes (prompt_to_bytes m) = m \<and>
   prompt_to_bytes (prompt_from_bytes (k, s)) =
     (if unat k \<le> 5 then (k, if k = 5 then s else 0) else (0, 0))"
proof -
  have "prompt_from_bytes (prompt_to_bytes m) = m"
    by (cases m rule: prompt_to_bytes.cases) (simp_all add: prompt_from_bytes_def)
  moreover have "unat k \<le> 5 \<longleftrightarrow> k \<in> {0, 1, 2, 3, 4, 5}"
  proof -
    have "unat k \<le> 5 \<longleftrightarrow> unat k \<in> {0, 1, 2, 3, 4, 5}" by auto
    then show ?thesis by (simp add: u8_eq_iff)
  qed
  ultimately show ?thesis by (auto simp: prompt_from_bytes_def)
qed

end
