(* ===== verification/Scrollback.thy ===== *)
theory Scrollback
  imports Cells
begin

text \<open>
  The in-memory scrollback ring, \<open>crates/marspot-term/src/scrollback/memory.rs\<close>, behind the
  \<open>Memory\<close> half of the enum of \<open>scrollback.rs\<close>.  The file-backed half is disk I/O and is not
  modelled; the epoch (a stamp from the clock) and the byte accounting are left out.  The
  interface the grid relies on is the locale \<open>bounded_history\<close>.
\<close>

section \<open>The interface\<close>

definition last_n :: "nat \<Rightarrow> 'a list \<Rightarrow> 'a list" where
  "last_n n xs = drop (length xs - n) xs"

lemma length_last_n [simp]: "length (last_n n xs) = min n (length xs)"
  by (simp add: last_n_def)

lemma last_n_all: "length xs \<le> n \<Longrightarrow> last_n n xs = xs"
  by (simp add: last_n_def)

lemma last_n_last_n: "last_n n (last_n n xs @ ys) = last_n n (xs @ ys)"
proof (cases "length xs \<le> n")
  case False
  have "(length xs - n) + (n + length ys - n) = length xs + length ys - n" using False by simp
  then show ?thesis using False by (simp add: last_n_def add.commute)
qed (simp add: last_n_all)

lemma last_n_map: "last_n n (map f xs) = map f (last_n n xs)"
  by (simp add: last_n_def drop_map)

text \<open>
  A history of bounded capacity: what is pushed is kept, in order, up to the last \<open>cap\<close>
  entries.  \<open>norm\<close> is what the container does to an entry on the way in.
\<close>

locale bounded_history =
  fixes wf :: "'s \<Rightarrow> bool" and contents :: "'s \<Rightarrow> 'l list" and cap :: "'s \<Rightarrow> nat"
    and norm :: "'s \<Rightarrow> 'l \<Rightarrow> 'l" and push :: "'l \<Rightarrow> 's \<Rightarrow> 's" and clear :: "'s \<Rightarrow> 's"
  assumes push_wf: "wf s \<Longrightarrow> wf (push l s)"
    and clear_wf: "wf s \<Longrightarrow> wf (clear s)"
    and push_cap: "wf s \<Longrightarrow> cap (push l s) = cap s"
    and push_norm: "wf s \<Longrightarrow> norm (push l s) = norm s"
    and push_contents: "wf s \<Longrightarrow> contents (push l s) = last_n (cap s) (contents s @ [norm s l])"
    and clear_contents: "wf s \<Longrightarrow> contents (clear s) = []"
    and contents_bound: "wf s \<Longrightarrow> length (contents s) \<le> cap s"
begin

lemma pushes:
  "wf s \<Longrightarrow>
   wf (fold push ls s) \<and> cap (fold push ls s) = cap s \<and>
   contents (fold push ls s) = last_n (cap s) (contents s @ map (norm s) ls)"
proof (induction ls arbitrary: s)
  case Nil
  then show ?case by (simp add: contents_bound last_n_all)
next
  case (Cons l ls)
  then show ?case
    using last_n_last_n [of "cap s" "contents s @ [norm s l]" "map (norm s) ls"]
    by (simp add: push_wf push_cap push_norm push_contents)
qed

lemma pushes_after_clear:
  "wf s \<Longrightarrow> cap (clear s) = cap s \<Longrightarrow> norm (clear s) = norm s \<Longrightarrow>
   contents (fold push ls (clear s)) = last_n (cap s) (map (norm s) ls)"
  using pushes [of "clear s" ls] by (simp add: clear_wf clear_contents)

lemma oldest_kept:
  assumes "wf s" "length ls < cap s" "length (contents s) + length ls > cap s"
  shows "hd (contents (fold push ls s)) = contents s ! (length (contents s) + length ls - cap s)"
proof -
  let ?k = "length (contents s) + length ls - cap s"
  have "?k < length (contents s)" using assms contents_bound [of s] by linarith
  then show ?thesis
    using pushes [OF assms(1), of ls] assms(3) by (simp add: last_n_def hd_drop_conv_nth nth_append)
qed

end

section \<open>The ring\<close>

record memory_scrollback =
  ms_cells :: "cell list"
  ms_capacity :: nat
  ms_cols :: nat
  ms_head :: nat
  ms_len :: nat

definition ms_new :: "nat \<Rightarrow> nat \<Rightarrow> memory_scrollback" where
  "ms_new capacity cols =
     \<lparr>ms_cells = [], ms_capacity = capacity, ms_cols = cols, ms_head = 0, ms_len = 0\<rparr>"

text \<open>A source of the wrong width is padded or truncated to the ring's.\<close>

definition ms_normalise :: "memory_scrollback \<Rightarrow> cell list \<Rightarrow> cell list" where
  "ms_normalise m source =
     (if length source \<noteq> ms_cols m
      then take (min (length source) (ms_cols m)) source @
           replicate (ms_cols m - min (length source) (ms_cols m)) cell_default
      else source)"

definition ms_push_line :: "cell list \<Rightarrow> memory_scrollback \<Rightarrow> memory_scrollback" where
  "ms_push_line source m =
     (if ms_capacity m = 0 then m
      else
        let source = ms_normalise m source
        in if ms_len m < ms_capacity m
           then m\<lparr>ms_cells := ms_cells m @ source, ms_len := ms_len m + 1\<rparr>
           else
             let line = ms_head m; start = line * ms_cols m
             in m\<lparr>ms_head := (ms_head m + 1) mod ms_capacity m,
                  ms_cells := blit (ms_cells m) start source\<rparr>)"

definition ms_line :: "memory_scrollback \<Rightarrow> nat \<Rightarrow> cell list option" where
  "ms_line m idx =
     (if idx \<ge> ms_len m then None
      else
        let line = (ms_head m + idx) mod ms_capacity m; start = line * ms_cols m
        in Some (slice (ms_cells m) start (ms_cols m)))"

definition ms_cell_at :: "memory_scrollback \<Rightarrow> nat \<Rightarrow> nat \<Rightarrow> cell option" where
  "ms_cell_at m line_idx col =
     (case ms_line m line_idx of
        None \<Rightarrow> None
      | Some line \<Rightarrow> if col < length line then Some (line ! col) else None)"

definition ms_clear :: "memory_scrollback \<Rightarrow> memory_scrollback" where
  "ms_clear m = m\<lparr>ms_head := 0, ms_len := 0, ms_cells := []\<rparr>"

text \<open>The enum's \<open>read_lines\<close>, counted back from the newest line, and \<open>restart\<close>.\<close>

definition sb_read_lines :: "memory_scrollback \<Rightarrow> nat \<Rightarrow> nat \<Rightarrow> cell list list" where
  "sb_read_lines m line_start count =
     (let len = ms_len m
      in if line_start \<ge> len \<or> count = 0 then []
         else
           let avail = min (len - line_start) count;
               newest = len - 1 - line_start;
               oldest = newest + 1 - avail
           in List.map_filter (ms_line m) [oldest..<newest + 1])"

definition sb_restart :: "nat \<Rightarrow> memory_scrollback \<Rightarrow> memory_scrollback" where
  "sb_restart new_cols m = ms_new (ms_capacity m) new_cols"

lemma map_filter_Some: "(\<And>x. x \<in> set xs \<Longrightarrow> f x = Some (g x)) \<Longrightarrow> List.map_filter f xs = map g xs"
  by (induction xs) (simp_all add: List.map_filter_simps)

lemma map_nth_window:
  assumes "k \<le> length xs"
  shows "map ((!) xs) [k - min k n..<k] = last_n n (take k xs)"
proof (rule nth_equalityI)
  fix i assume "i < length (map ((!) xs) [k - min k n..<k])"
  then have "k - min k n + i < k" by (simp add: min_def split: if_splits)
  moreover have "k - min k n = k - n" by auto
  ultimately show "map ((!) xs) [k - min k n..<k] ! i = last_n n (take k xs) ! i"
    using assms by (simp add: last_n_def min_absorb2)
qed (use assms in \<open>auto simp: last_n_def\<close>)

section \<open>The ring as a list of lines\<close>

definition ms_wf :: "memory_scrollback \<Rightarrow> bool" where
  "ms_wf m \<longleftrightarrow>
     length (ms_cells m) = ms_len m * ms_cols m \<and> ms_len m \<le> ms_capacity m \<and>
     (ms_len m < ms_capacity m \<longrightarrow> ms_head m = 0) \<and> (ms_capacity m = 0 \<or> ms_head m < ms_capacity m)"

definition ms_slot :: "memory_scrollback \<Rightarrow> nat \<Rightarrow> cell list" where
  "ms_slot m k = slice (ms_cells m) (k * ms_cols m) (ms_cols m)"

definition ms_lines :: "memory_scrollback \<Rightarrow> cell list list" where
  "ms_lines m = map (\<lambda>i. ms_slot m ((ms_head m + i) mod ms_capacity m)) [0..<ms_len m]"

lemma length_ms_lines [simp]: "length (ms_lines m) = ms_len m"
  by (simp add: ms_lines_def)

lemma ms_line_lines: "ms_line m i = (if i < ms_len m then Some (ms_lines m ! i) else None)"
  by (simp add: ms_line_def ms_lines_def ms_slot_def Let_def)

lemma length_ms_normalise [simp]: "length (ms_normalise m l) = ms_cols m"
  by (simp add: ms_normalise_def)

lemma ms_new_wf [wf_intros]: "ms_wf (ms_new c w)"
  by (auto simp: ms_wf_def ms_new_def)

lemma ms_new_fields [simp]: "ms_capacity (ms_new c w) = c" "ms_lines (ms_new c w) = []"
  by (simp_all add: ms_new_def ms_lines_def)

lemma slot_end: "k < len \<Longrightarrow> length cells = len * w \<Longrightarrow> k * w + w \<le> length (cells :: 'a list)"
  using mult_le_mono1 [of "Suc k" len w] by simp

lemma ms_push_line_wf [wf_intros]:
  assumes "ms_wf m"
  shows "ms_wf (ms_push_line l m)"
proof -
  have "ms_len m = ms_capacity m \<Longrightarrow> ms_capacity m \<noteq> 0 \<Longrightarrow>
      ms_head m * ms_cols m + ms_cols m \<le> length (ms_cells m)"
    using assms by (intro slot_end [where len = "ms_len m"]) (auto simp: ms_wf_def)
  then show ?thesis
    using assms by (auto simp: ms_wf_def ms_push_line_def Let_def)
qed

lemma ms_clear_wf [wf_intros]: "ms_wf m \<Longrightarrow> ms_wf (ms_clear m)"
  by (auto simp: ms_wf_def ms_clear_def)

lemma ms_push_line_fields [simp]:
  "ms_capacity (ms_push_line l m) = ms_capacity m" "ms_cols (ms_push_line l m) = ms_cols m"
  "ms_normalise (ms_push_line l m) = ms_normalise m"
  by (simp_all add: ms_push_line_def ms_normalise_def Let_def fun_eq_iff)

lemma ring_shift:
  assumes "h < (c::nat)" "i < c"
  shows "((h + 1) mod c + i) mod c = (h + Suc i) mod c"
    and "i < c - 1 \<Longrightarrow> (h + Suc i) mod c \<noteq> h"
    and "i = c - 1 \<Longrightarrow> (h + Suc i) mod c = h"
proof -
  show "((h + 1) mod c + i) mod c = (h + Suc i) mod c" by (simp add: mod_add_left_eq)
  show "(h + Suc i) mod c \<noteq> h" if "i < c - 1"
  proof (cases "h + Suc i < c")
    case False
    then have "(h + Suc i) mod c = h + Suc i - c" using that assms by (simp add: mod_if)
    then show ?thesis using False that by arith
  qed simp
  show "(h + Suc i) mod c = h" if "i = c - 1" using that assms by simp
qed

lemma ms_push_line_lines:
  assumes "ms_wf m"
  shows "ms_lines (ms_push_line l m) = last_n (ms_capacity m) (ms_lines m @ [ms_normalise m l])"
proof -
  consider "ms_capacity m = 0" | "ms_len m < ms_capacity m"
    | "ms_len m = ms_capacity m" "ms_capacity m \<noteq> 0"
    using assms by (force simp: ms_wf_def)
  then show ?thesis
  proof cases
    case 1
    then show ?thesis using assms by (simp add: ms_push_line_def last_n_def ms_lines_def ms_wf_def)
  next
    case 2
    let ?m = "m\<lparr>ms_cells := ms_cells m @ ms_normalise m l, ms_len := ms_len m + 1\<rparr>"
    have m: "ms_push_line l m = ?m" "ms_head m = 0" "length (ms_cells m) = ms_len m * ms_cols m"
      using 2 assms by (auto simp: ms_push_line_def Let_def ms_wf_def)
    have old: "ms_slot ?m i = ms_slot m i" if "i < ms_len m" for i
      using slot_end [OF that m(3)] by (simp add: ms_slot_def slice_def)
    have new: "ms_slot ?m (ms_len m) = ms_normalise m l"
      using m(3) by (simp add: ms_slot_def slice_def)
    have "ms_lines ?m = ms_lines m @ [ms_normalise m l]"
      using 2 m(2) old new by (simp add: ms_lines_def)
    then show ?thesis using 2 m(1) by (simp add: last_n_all)
  next
    case 3
    let ?h = "ms_head m" and ?c = "ms_capacity m" and ?w = "ms_cols m"
    let ?m = "m\<lparr>ms_head := (?h + 1) mod ?c, ms_cells := blit (ms_cells m) (?h * ?w) (ms_normalise m l)\<rparr>"
    have m: "ms_push_line l m = ?m" "?h < ?c" "length (ms_cells m) = ?c * ?w"
      using 3 assms by (auto simp: ms_push_line_def Let_def ms_wf_def)
    have fit: "?h * ?w + length (ms_normalise m l) \<le> length (ms_cells m)"
      using slot_end [OF m(2,3)] by simp
    have new: "ms_slot ?m ?h = ms_normalise m l"
      using slice_blit_same [OF fit] by (simp add: ms_slot_def)
    have old: "ms_slot ?m k = ms_slot m k" if "k \<noteq> ?h" "k < ?c" for k
    proof -
      have "k * ?w + ?w \<le> ?h * ?w \<or> ?h * ?w + ?w \<le> k * ?w"
        using that(1) mult_le_mono1 [of "Suc k" ?h ?w] mult_le_mono1 [of "Suc ?h" k ?w]
        by (cases "k < ?h") auto
      then show ?thesis
        using slice_blit_other [OF fit, of "k * ?w" ?w] slot_end [OF that(2) m(3)]
        by (simp add: ms_slot_def)
    qed
    have "ms_lines ?m = drop 1 (ms_lines m @ [ms_normalise m l])"
    proof (rule nth_equalityI)
      show "length (ms_lines ?m) = length (drop 1 (ms_lines m @ [ms_normalise m l]))" by simp
      fix i assume "i < length (ms_lines ?m)"
      then have i: "i < ?c" using 3 by simp
      note r = ring_shift [OF m(2) i]
      have line: "ms_lines ?m ! i = ms_slot ?m ((?h + Suc i) mod ?c)"
        using i 3 r(1) by (simp add: ms_lines_def)
      show "ms_lines ?m ! i = drop 1 (ms_lines m @ [ms_normalise m l]) ! i"
      proof (cases "i < ?c - 1")
        case True
        then have "ms_slot ?m ((?h + Suc i) mod ?c) = ms_slot m ((?h + Suc i) mod ?c)"
          using old r(2) m(2) by simp
        then show ?thesis
          using True 3 line i less_diff_conv [of i ?c 1] by (simp add: ms_lines_def nth_append)
      next
        case False
        then have "i = ?c - 1" using i by simp
        then show ?thesis
          using 3 line r(3) new by (simp add: nth_append)
      qed
    qed
    then show ?thesis using 3 m(1) by (simp add: last_n_def)
  qed
qed

interpretation sb: bounded_history ms_wf ms_lines ms_capacity ms_normalise ms_push_line ms_clear
  by unfold_locales
    (auto simp: wf_intros ms_push_line_lines, auto simp: ms_clear_def ms_lines_def ms_wf_def)

text \<open>
  C35: the scrollback ring keeps the last \<open>capacity\<close> lines, in order.  After any sequence of
  pushes onto a fresh ring, reading line by line from the oldest gives the last \<open>capacity\<close> of
  the pushed lines, each padded or cut to the ring's width, and nothing past the end; paging
  back from the newest line gives the corresponding window of them, oldest first.
\<close>
theorem scrollback_keeps_last:
  "(let m = fold ms_push_line ls (ms_new c w); kept = last_n c (map (ms_normalise (ms_new c w)) ls)
    in ms_wf m \<and> ms_len m = length kept \<and>
       (\<forall>i. ms_line m i = (if i < length kept then Some (kept ! i) else None)) \<and>
       (\<forall>s n. sb_read_lines m s n = last_n n (take (length kept - s) kept)))"
proof -
  let ?m = "fold ms_push_line ls (ms_new c w)"
  let ?kept = "last_n c (map (ms_normalise (ms_new c w)) ls)"
  have "ms_wf ?m" and l: "ms_lines ?m = ?kept"
    using sb.pushes [OF ms_new_wf, of ls c w] by simp_all
  have line: "ms_line ?m i = (if i < length ?kept then Some (?kept ! i) else None)" for i
    unfolding ms_line_lines l using length_ms_lines [of ?m] unfolding l by simp
  have len: "ms_len ?m = length ?kept" using length_ms_lines [of ?m] unfolding l by simp
  have "sb_read_lines ?m s n = last_n n (take (length ?kept - s) ?kept)" for s n
  proof (cases "s \<ge> length ?kept \<or> n = 0")
    case True
    then show ?thesis using len by (auto simp: sb_read_lines_def Let_def last_n_def)
  next
    case False
    define lo where "lo = length ?kept - s - min (length ?kept - s) n"
    have "List.map_filter (ms_line ?m) [lo..<length ?kept - s] = map ((!) ?kept) [lo..<length ?kept - s]"
      by (rule map_filter_Some) (auto simp: line)
    also have "\<dots> = last_n n (take (length ?kept - s) ?kept)"
      unfolding lo_def by (rule map_nth_window) (simp only: diff_le_self)
    finally have "List.map_filter (ms_line ?m) [lo..<length ?kept - s] =
        last_n n (take (length ?kept - s) ?kept)" .
    moreover have "length ?kept - 1 - s + 1 = length ?kept - s" using False by linarith
    ultimately show ?thesis
      using False unfolding sb_read_lines_def len Let_def lo_def by (simp add: min.commute)
  qed
  then show ?thesis using \<open>ms_wf ?m\<close> line len by (simp add: Let_def)
qed

end
