(* ===== verification/UnicodeData.thy ===== *)
theory UnicodeData
  imports Prelude
begin

text \<open>
  The property tables of the grapheme segmenter, \<open>crates/marspot-term/src/unicode_data.rs\<close>:
  Grapheme_Cluster_Break, Extended_Pictographic and Indic_Conjunct_Break in one packed range
  table, and its lookup by binary search.  The rows are the source's rows, cut into chunks.
\<close>

section \<open>Properties\<close>

datatype gbp =
  GBOther | GBCR | GBLF | GBControl | GBExtend | GBZWJ | GBRegionalIndicator | GBPrepend
| GBSpacingMark | GBL | GBV | GBT | GBLV | GBLVT

datatype incb = IncbNone | IncbLinker | IncbConsonant | IncbExtend

record cluster_props =
  gbp_of :: gbp
  pict :: bool
  incb_of :: incb

definition CLUSTER_PROPS_DEFAULT :: cluster_props where
  "CLUSTER_PROPS_DEFAULT = \<lparr>gbp_of = GBOther, pict = False, incb_of = IncbNone\<rparr>"

definition unpack_gbp :: "u8 \<Rightarrow> gbp" where
  "unpack_gbp bits =
     (let v = unat (bits AND 0x0F)
      in if v = 1 then GBCR else if v = 2 then GBLF else if v = 3 then GBControl
         else if v = 4 then GBExtend else if v = 5 then GBZWJ
         else if v = 6 then GBRegionalIndicator else if v = 7 then GBPrepend
         else if v = 8 then GBSpacingMark else if v = 9 then GBL else if v = 10 then GBV
         else if v = 11 then GBT else if v = 12 then GBLV else if v = 13 then GBLVT
         else GBOther)"

definition unpack_incb :: "u8 \<Rightarrow> incb" where
  "unpack_incb bits =
     (let v = unat (drop_bit 5 bits AND 0x03)
      in if v = 1 then IncbLinker else if v = 2 then IncbConsonant
         else if v = 3 then IncbExtend else IncbNone)"

definition unpack_props :: "u8 \<Rightarrow> cluster_props" where
  "unpack_props bits =
     \<lparr>gbp_of = unpack_gbp bits, pict = (bits AND 0x10 \<noteq> 0), incb_of = unpack_incb bits\<rparr>"

section \<open>The table\<close>

definition cluster_ranges_0 :: "(nat \<times> nat \<times> u8) list" where
  "cluster_ranges_0 =
    [(0x0, 0x9, 0x03), (0xA, 0xA, 0x02), (0xB, 0xC, 0x03), (0xD, 0xD, 0x01),
     (0xE, 0x1F, 0x03), (0x7F, 0x9F, 0x03), (0xA9, 0xA9, 0x10), (0xAD, 0xAD, 0x03),
     (0xAE, 0xAE, 0x10), (0x300, 0x36F, 0x64), (0x483, 0x489, 0x64), (0x591, 0x5BD, 0x64),
     (0x5BF, 0x5BF, 0x64), (0x5C1, 0x5C2, 0x64), (0x5C4, 0x5C5, 0x64), (0x5C7, 0x5C7, 0x64),
     (0x600, 0x605, 0x07), (0x610, 0x61A, 0x64), (0x61C, 0x61C, 0x03), (0x64B, 0x65F, 0x64),
     (0x670, 0x670, 0x64), (0x6D6, 0x6DC, 0x64), (0x6DD, 0x6DD, 0x07), (0x6DF, 0x6E4, 0x64),
     (0x6E7, 0x6E8, 0x64), (0x6EA, 0x6ED, 0x64), (0x70F, 0x70F, 0x07), (0x711, 0x711, 0x64),
     (0x730, 0x74A, 0x64), (0x7A6, 0x7B0, 0x64), (0x7EB, 0x7F3, 0x64), (0x7FD, 0x7FD, 0x64),
     (0x816, 0x819, 0x64), (0x81B, 0x823, 0x64), (0x825, 0x827, 0x64), (0x829, 0x82D, 0x64),
     (0x859, 0x85B, 0x64), (0x890, 0x891, 0x07), (0x897, 0x89F, 0x64), (0x8CA, 0x8E1, 0x64),
     (0x8E2, 0x8E2, 0x07), (0x8E3, 0x902, 0x64), (0x903, 0x903, 0x08), (0x915, 0x939, 0x40),
     (0x93A, 0x93A, 0x64), (0x93B, 0x93B, 0x08), (0x93C, 0x93C, 0x64), (0x93E, 0x940, 0x08),
     (0x941, 0x948, 0x64), (0x949, 0x94C, 0x08), (0x94D, 0x94D, 0x24), (0x94E, 0x94F, 0x08),
     (0x951, 0x957, 0x64), (0x958, 0x95F, 0x40), (0x962, 0x963, 0x64), (0x978, 0x97F, 0x40),
     (0x981, 0x981, 0x64), (0x982, 0x983, 0x08), (0x995, 0x9A8, 0x40), (0x9AA, 0x9B0, 0x40),
     (0x9B2, 0x9B2, 0x40), (0x9B6, 0x9B9, 0x40), (0x9BC, 0x9BC, 0x64), (0x9BE, 0x9BE, 0x64),
     (0x9BF, 0x9C0, 0x08), (0x9C1, 0x9C4, 0x64), (0x9C7, 0x9C8, 0x08), (0x9CB, 0x9CC, 0x08),
     (0x9CD, 0x9CD, 0x24), (0x9D7, 0x9D7, 0x64), (0x9DC, 0x9DD, 0x40), (0x9DF, 0x9DF, 0x40),
     (0x9E2, 0x9E3, 0x64), (0x9F0, 0x9F1, 0x40), (0x9FE, 0x9FE, 0x64), (0xA01, 0xA02, 0x64),
     (0xA03, 0xA03, 0x08), (0xA3C, 0xA3C, 0x64), (0xA3E, 0xA40, 0x08), (0xA41, 0xA42, 0x64),
     (0xA47, 0xA48, 0x64), (0xA4B, 0xA4D, 0x64), (0xA51, 0xA51, 0x64), (0xA70, 0xA71, 0x64),
     (0xA75, 0xA75, 0x64), (0xA81, 0xA82, 0x64), (0xA83, 0xA83, 0x08), (0xA95, 0xAA8, 0x40),
     (0xAAA, 0xAB0, 0x40), (0xAB2, 0xAB3, 0x40), (0xAB5, 0xAB9, 0x40), (0xABC, 0xABC, 0x64),
     (0xABE, 0xAC0, 0x08), (0xAC1, 0xAC5, 0x64), (0xAC7, 0xAC8, 0x64), (0xAC9, 0xAC9, 0x08),
     (0xACB, 0xACC, 0x08), (0xACD, 0xACD, 0x24), (0xAE2, 0xAE3, 0x64), (0xAF9, 0xAF9, 0x40),
     (0xAFA, 0xAFF, 0x64), (0xB01, 0xB01, 0x64), (0xB02, 0xB03, 0x08), (0xB15, 0xB28, 0x40),
     (0xB2A, 0xB30, 0x40), (0xB32, 0xB33, 0x40), (0xB35, 0xB39, 0x40), (0xB3C, 0xB3C, 0x64),
     (0xB3E, 0xB3F, 0x64), (0xB40, 0xB40, 0x08), (0xB41, 0xB44, 0x64), (0xB47, 0xB48, 0x08),
     (0xB4B, 0xB4C, 0x08), (0xB4D, 0xB4D, 0x24), (0xB55, 0xB57, 0x64), (0xB5C, 0xB5D, 0x40),
     (0xB5F, 0xB5F, 0x40), (0xB62, 0xB63, 0x64), (0xB71, 0xB71, 0x40), (0xB82, 0xB82, 0x64),
     (0xBBE, 0xBBE, 0x64), (0xBBF, 0xBBF, 0x08), (0xBC0, 0xBC0, 0x64), (0xBC1, 0xBC2, 0x08),
     (0xBC6, 0xBC8, 0x08), (0xBCA, 0xBCC, 0x08), (0xBCD, 0xBCD, 0x64), (0xBD7, 0xBD7, 0x64),
     (0xC00, 0xC00, 0x64), (0xC01, 0xC03, 0x08), (0xC04, 0xC04, 0x64), (0xC15, 0xC28, 0x40),
     (0xC2A, 0xC39, 0x40), (0xC3C, 0xC3C, 0x64), (0xC3E, 0xC40, 0x64), (0xC41, 0xC44, 0x08),
     (0xC46, 0xC48, 0x64), (0xC4A, 0xC4C, 0x64), (0xC4D, 0xC4D, 0x24), (0xC55, 0xC56, 0x64),
     (0xC58, 0xC5A, 0x40), (0xC62, 0xC63, 0x64), (0xC81, 0xC81, 0x64), (0xC82, 0xC83, 0x08),
     (0xCBC, 0xCBC, 0x64), (0xCBE, 0xCBE, 0x08), (0xCBF, 0xCC0, 0x64), (0xCC1, 0xCC1, 0x08),
     (0xCC2, 0xCC2, 0x64), (0xCC3, 0xCC4, 0x08)]"

definition cluster_ranges_1 :: "(nat \<times> nat \<times> u8) list" where
  "cluster_ranges_1 =
    [(0xCC6, 0xCC8, 0x64), (0xCCA, 0xCCD, 0x64), (0xCD5, 0xCD6, 0x64), (0xCE2, 0xCE3, 0x64),
     (0xCF3, 0xCF3, 0x08), (0xD00, 0xD01, 0x64), (0xD02, 0xD03, 0x08), (0xD15, 0xD3A, 0x40),
     (0xD3B, 0xD3C, 0x64), (0xD3E, 0xD3E, 0x64), (0xD3F, 0xD40, 0x08), (0xD41, 0xD44, 0x64),
     (0xD46, 0xD48, 0x08), (0xD4A, 0xD4C, 0x08), (0xD4D, 0xD4D, 0x24), (0xD4E, 0xD4E, 0x07),
     (0xD57, 0xD57, 0x64), (0xD62, 0xD63, 0x64), (0xD81, 0xD81, 0x64), (0xD82, 0xD83, 0x08),
     (0xDCA, 0xDCA, 0x64), (0xDCF, 0xDCF, 0x64), (0xDD0, 0xDD1, 0x08), (0xDD2, 0xDD4, 0x64),
     (0xDD6, 0xDD6, 0x64), (0xDD8, 0xDDE, 0x08), (0xDDF, 0xDDF, 0x64), (0xDF2, 0xDF3, 0x08),
     (0xE31, 0xE31, 0x64), (0xE33, 0xE33, 0x08), (0xE34, 0xE3A, 0x64), (0xE47, 0xE4E, 0x64),
     (0xEB1, 0xEB1, 0x64), (0xEB3, 0xEB3, 0x08), (0xEB4, 0xEBC, 0x64), (0xEC8, 0xECE, 0x64),
     (0xF18, 0xF19, 0x64), (0xF35, 0xF35, 0x64), (0xF37, 0xF37, 0x64), (0xF39, 0xF39, 0x64),
     (0xF3E, 0xF3F, 0x08), (0xF71, 0xF7E, 0x64), (0xF7F, 0xF7F, 0x08), (0xF80, 0xF84, 0x64),
     (0xF86, 0xF87, 0x64), (0xF8D, 0xF97, 0x64), (0xF99, 0xFBC, 0x64), (0xFC6, 0xFC6, 0x64),
     (0x1000, 0x102A, 0x40), (0x102D, 0x1030, 0x64), (0x1031, 0x1031, 0x08),
     (0x1032, 0x1037, 0x64), (0x1039, 0x1039, 0x24), (0x103A, 0x103A, 0x64),
     (0x103B, 0x103C, 0x08), (0x103D, 0x103E, 0x64), (0x103F, 0x103F, 0x40),
     (0x1050, 0x1055, 0x40), (0x1056, 0x1057, 0x08), (0x1058, 0x1059, 0x64),
     (0x105A, 0x105D, 0x40), (0x105E, 0x1060, 0x64), (0x1061, 0x1061, 0x40),
     (0x1065, 0x1066, 0x40), (0x106E, 0x1070, 0x40), (0x1071, 0x1074, 0x64),
     (0x1075, 0x1081, 0x40), (0x1082, 0x1082, 0x64), (0x1084, 0x1084, 0x08),
     (0x1085, 0x1086, 0x64), (0x108D, 0x108D, 0x64), (0x108E, 0x108E, 0x40),
     (0x109D, 0x109D, 0x64), (0x1100, 0x115F, 0x09), (0x1160, 0x11A7, 0x0A),
     (0x11A8, 0x11FF, 0x0B), (0x135D, 0x135F, 0x64), (0x1712, 0x1715, 0x64),
     (0x1732, 0x1734, 0x64), (0x1752, 0x1753, 0x64), (0x1772, 0x1773, 0x64),
     (0x1780, 0x17B3, 0x40), (0x17B4, 0x17B5, 0x64), (0x17B6, 0x17B6, 0x08),
     (0x17B7, 0x17BD, 0x64), (0x17BE, 0x17C5, 0x08), (0x17C6, 0x17C6, 0x64),
     (0x17C7, 0x17C8, 0x08), (0x17C9, 0x17D1, 0x64), (0x17D2, 0x17D2, 0x24),
     (0x17D3, 0x17D3, 0x64), (0x17DD, 0x17DD, 0x64), (0x180B, 0x180D, 0x64),
     (0x180E, 0x180E, 0x03), (0x180F, 0x180F, 0x64), (0x1885, 0x1886, 0x64),
     (0x18A9, 0x18A9, 0x64), (0x1920, 0x1922, 0x64), (0x1923, 0x1926, 0x08),
     (0x1927, 0x1928, 0x64), (0x1929, 0x192B, 0x08), (0x1930, 0x1931, 0x08),
     (0x1932, 0x1932, 0x64), (0x1933, 0x1938, 0x08), (0x1939, 0x193B, 0x64),
     (0x1A17, 0x1A18, 0x64), (0x1A19, 0x1A1A, 0x08), (0x1A1B, 0x1A1B, 0x64),
     (0x1A20, 0x1A54, 0x40), (0x1A55, 0x1A55, 0x08), (0x1A56, 0x1A56, 0x64),
     (0x1A57, 0x1A57, 0x08), (0x1A58, 0x1A5E, 0x64), (0x1A60, 0x1A60, 0x24),
     (0x1A62, 0x1A62, 0x64), (0x1A65, 0x1A6C, 0x64), (0x1A6D, 0x1A72, 0x08),
     (0x1A73, 0x1A7C, 0x64), (0x1A7F, 0x1A7F, 0x64), (0x1AB0, 0x1ADD, 0x64),
     (0x1AE0, 0x1AEB, 0x64), (0x1B00, 0x1B03, 0x64), (0x1B04, 0x1B04, 0x08),
     (0x1B0B, 0x1B0C, 0x40), (0x1B13, 0x1B33, 0x40), (0x1B34, 0x1B3D, 0x64),
     (0x1B3E, 0x1B41, 0x08), (0x1B42, 0x1B43, 0x64), (0x1B44, 0x1B44, 0x24),
     (0x1B45, 0x1B4C, 0x40), (0x1B6B, 0x1B73, 0x64), (0x1B80, 0x1B81, 0x64),
     (0x1B82, 0x1B82, 0x08), (0x1B83, 0x1BA0, 0x40), (0x1BA1, 0x1BA1, 0x08),
     (0x1BA2, 0x1BA5, 0x64), (0x1BA6, 0x1BA7, 0x08), (0x1BA8, 0x1BAA, 0x64),
     (0x1BAB, 0x1BAB, 0x24), (0x1BAC, 0x1BAD, 0x64), (0x1BAE, 0x1BAF, 0x40),
     (0x1BBB, 0x1BBD, 0x40), (0x1BE6, 0x1BE6, 0x64), (0x1BE7, 0x1BE7, 0x08),
     (0x1BE8, 0x1BE9, 0x64), (0x1BEA, 0x1BEC, 0x08), (0x1BED, 0x1BED, 0x64),
     (0x1BEE, 0x1BEE, 0x08), (0x1BEF, 0x1BF3, 0x64), (0x1C24, 0x1C2B, 0x08)]"

definition cluster_ranges_2 :: "(nat \<times> nat \<times> u8) list" where
  "cluster_ranges_2 =
    [(0x1C2C, 0x1C33, 0x64), (0x1C34, 0x1C35, 0x08), (0x1C36, 0x1C37, 0x64),
     (0x1CD0, 0x1CD2, 0x64), (0x1CD4, 0x1CE0, 0x64), (0x1CE1, 0x1CE1, 0x08),
     (0x1CE2, 0x1CE8, 0x64), (0x1CED, 0x1CED, 0x64), (0x1CF4, 0x1CF4, 0x64),
     (0x1CF7, 0x1CF7, 0x08), (0x1CF8, 0x1CF9, 0x64), (0x1DC0, 0x1DFF, 0x64),
     (0x200B, 0x200B, 0x03), (0x200C, 0x200C, 0x04), (0x200D, 0x200D, 0x65),
     (0x200E, 0x200F, 0x03), (0x2028, 0x202E, 0x03), (0x203C, 0x203C, 0x10),
     (0x2049, 0x2049, 0x10), (0x2060, 0x206F, 0x03), (0x20D0, 0x20F0, 0x64),
     (0x2122, 0x2122, 0x10), (0x2139, 0x2139, 0x10), (0x2194, 0x2199, 0x10),
     (0x21A9, 0x21AA, 0x10), (0x231A, 0x231B, 0x10), (0x2328, 0x2328, 0x10),
     (0x23CF, 0x23CF, 0x10), (0x23E9, 0x23F3, 0x10), (0x23F8, 0x23FA, 0x10),
     (0x24C2, 0x24C2, 0x10), (0x25AA, 0x25AB, 0x10), (0x25B6, 0x25B6, 0x10),
     (0x25C0, 0x25C0, 0x10), (0x25FB, 0x25FE, 0x10), (0x2600, 0x2604, 0x10),
     (0x260E, 0x260E, 0x10), (0x2611, 0x2611, 0x10), (0x2614, 0x2615, 0x10),
     (0x2618, 0x2618, 0x10), (0x261D, 0x261D, 0x10), (0x2620, 0x2620, 0x10),
     (0x2622, 0x2623, 0x10), (0x2626, 0x2626, 0x10), (0x262A, 0x262A, 0x10),
     (0x262E, 0x262F, 0x10), (0x2638, 0x263A, 0x10), (0x2640, 0x2640, 0x10),
     (0x2642, 0x2642, 0x10), (0x2648, 0x2653, 0x10), (0x265F, 0x2660, 0x10),
     (0x2663, 0x2663, 0x10), (0x2665, 0x2666, 0x10), (0x2668, 0x2668, 0x10),
     (0x267B, 0x267B, 0x10), (0x267E, 0x267F, 0x10), (0x2692, 0x2697, 0x10),
     (0x2699, 0x2699, 0x10), (0x269B, 0x269C, 0x10), (0x26A0, 0x26A1, 0x10),
     (0x26A7, 0x26A7, 0x10), (0x26AA, 0x26AB, 0x10), (0x26B0, 0x26B1, 0x10),
     (0x26BD, 0x26BE, 0x10), (0x26C4, 0x26C5, 0x10), (0x26C8, 0x26C8, 0x10),
     (0x26CE, 0x26CF, 0x10), (0x26D1, 0x26D1, 0x10), (0x26D3, 0x26D4, 0x10),
     (0x26E9, 0x26EA, 0x10), (0x26F0, 0x26F5, 0x10), (0x26F7, 0x26FA, 0x10),
     (0x26FD, 0x26FD, 0x10), (0x2702, 0x2702, 0x10), (0x2705, 0x2705, 0x10),
     (0x2708, 0x270D, 0x10), (0x270F, 0x270F, 0x10), (0x2712, 0x2712, 0x10),
     (0x2714, 0x2714, 0x10), (0x2716, 0x2716, 0x10), (0x271D, 0x271D, 0x10),
     (0x2721, 0x2721, 0x10), (0x2728, 0x2728, 0x10), (0x2733, 0x2734, 0x10),
     (0x2744, 0x2744, 0x10), (0x2747, 0x2747, 0x10), (0x274C, 0x274C, 0x10),
     (0x274E, 0x274E, 0x10), (0x2753, 0x2755, 0x10), (0x2757, 0x2757, 0x10),
     (0x2763, 0x2764, 0x10), (0x2795, 0x2797, 0x10), (0x27A1, 0x27A1, 0x10),
     (0x27B0, 0x27B0, 0x10), (0x27BF, 0x27BF, 0x10), (0x2934, 0x2935, 0x10),
     (0x2B05, 0x2B07, 0x10), (0x2B1B, 0x2B1C, 0x10), (0x2B50, 0x2B50, 0x10),
     (0x2B55, 0x2B55, 0x10), (0x2CEF, 0x2CF1, 0x64), (0x2D7F, 0x2D7F, 0x64),
     (0x2DE0, 0x2DFF, 0x64), (0x302A, 0x302F, 0x64), (0x3030, 0x3030, 0x10),
     (0x303D, 0x303D, 0x10), (0x3099, 0x309A, 0x64), (0x3297, 0x3297, 0x10),
     (0x3299, 0x3299, 0x10), (0xA66F, 0xA672, 0x64), (0xA674, 0xA67D, 0x64),
     (0xA69E, 0xA69F, 0x64), (0xA6F0, 0xA6F1, 0x64), (0xA802, 0xA802, 0x64),
     (0xA806, 0xA806, 0x64), (0xA80B, 0xA80B, 0x64), (0xA823, 0xA824, 0x08),
     (0xA825, 0xA826, 0x64), (0xA827, 0xA827, 0x08), (0xA82C, 0xA82C, 0x64),
     (0xA880, 0xA881, 0x08), (0xA8B4, 0xA8C3, 0x08), (0xA8C4, 0xA8C5, 0x64),
     (0xA8E0, 0xA8F1, 0x64), (0xA8FF, 0xA8FF, 0x64), (0xA926, 0xA92D, 0x64),
     (0xA947, 0xA951, 0x64), (0xA952, 0xA952, 0x08), (0xA953, 0xA953, 0x64),
     (0xA960, 0xA97C, 0x09), (0xA980, 0xA982, 0x64), (0xA983, 0xA983, 0x08),
     (0xA989, 0xA98B, 0x40), (0xA98F, 0xA9B2, 0x40), (0xA9B3, 0xA9B3, 0x64),
     (0xA9B4, 0xA9B5, 0x08), (0xA9B6, 0xA9B9, 0x64), (0xA9BA, 0xA9BB, 0x08),
     (0xA9BC, 0xA9BD, 0x64), (0xA9BE, 0xA9BF, 0x08), (0xA9C0, 0xA9C0, 0x24),
     (0xA9E0, 0xA9E4, 0x40), (0xA9E5, 0xA9E5, 0x64), (0xA9E7, 0xA9EF, 0x40),
     (0xA9FA, 0xA9FE, 0x40), (0xAA29, 0xAA2E, 0x64), (0xAA2F, 0xAA30, 0x08),
     (0xAA31, 0xAA32, 0x64), (0xAA33, 0xAA34, 0x08), (0xAA35, 0xAA36, 0x64)]"

definition cluster_ranges_3 :: "(nat \<times> nat \<times> u8) list" where
  "cluster_ranges_3 =
    [(0xAA43, 0xAA43, 0x64), (0xAA4C, 0xAA4C, 0x64), (0xAA4D, 0xAA4D, 0x08),
     (0xAA60, 0xAA6F, 0x40), (0xAA71, 0xAA73, 0x40), (0xAA7A, 0xAA7A, 0x40),
     (0xAA7C, 0xAA7C, 0x64), (0xAA7E, 0xAA7F, 0x40), (0xAAB0, 0xAAB0, 0x64),
     (0xAAB2, 0xAAB4, 0x64), (0xAAB7, 0xAAB8, 0x64), (0xAABE, 0xAABF, 0x64),
     (0xAAC1, 0xAAC1, 0x64), (0xAAE0, 0xAAEA, 0x40), (0xAAEB, 0xAAEB, 0x08),
     (0xAAEC, 0xAAED, 0x64), (0xAAEE, 0xAAEF, 0x08), (0xAAF5, 0xAAF5, 0x08),
     (0xAAF6, 0xAAF6, 0x24), (0xABC0, 0xABDA, 0x40), (0xABE3, 0xABE4, 0x08),
     (0xABE5, 0xABE5, 0x64), (0xABE6, 0xABE7, 0x08), (0xABE8, 0xABE8, 0x64),
     (0xABE9, 0xABEA, 0x08), (0xABEC, 0xABEC, 0x08), (0xABED, 0xABED, 0x64),
     (0xAC00, 0xAC00, 0x0C), (0xAC01, 0xAC1B, 0x0D), (0xAC1C, 0xAC1C, 0x0C),
     (0xAC1D, 0xAC37, 0x0D), (0xAC38, 0xAC38, 0x0C), (0xAC39, 0xAC53, 0x0D),
     (0xAC54, 0xAC54, 0x0C), (0xAC55, 0xAC6F, 0x0D), (0xAC70, 0xAC70, 0x0C),
     (0xAC71, 0xAC8B, 0x0D), (0xAC8C, 0xAC8C, 0x0C), (0xAC8D, 0xACA7, 0x0D),
     (0xACA8, 0xACA8, 0x0C), (0xACA9, 0xACC3, 0x0D), (0xACC4, 0xACC4, 0x0C),
     (0xACC5, 0xACDF, 0x0D), (0xACE0, 0xACE0, 0x0C), (0xACE1, 0xACFB, 0x0D),
     (0xACFC, 0xACFC, 0x0C), (0xACFD, 0xAD17, 0x0D), (0xAD18, 0xAD18, 0x0C),
     (0xAD19, 0xAD33, 0x0D), (0xAD34, 0xAD34, 0x0C), (0xAD35, 0xAD4F, 0x0D),
     (0xAD50, 0xAD50, 0x0C), (0xAD51, 0xAD6B, 0x0D), (0xAD6C, 0xAD6C, 0x0C),
     (0xAD6D, 0xAD87, 0x0D), (0xAD88, 0xAD88, 0x0C), (0xAD89, 0xADA3, 0x0D),
     (0xADA4, 0xADA4, 0x0C), (0xADA5, 0xADBF, 0x0D), (0xADC0, 0xADC0, 0x0C),
     (0xADC1, 0xADDB, 0x0D), (0xADDC, 0xADDC, 0x0C), (0xADDD, 0xADF7, 0x0D),
     (0xADF8, 0xADF8, 0x0C), (0xADF9, 0xAE13, 0x0D), (0xAE14, 0xAE14, 0x0C),
     (0xAE15, 0xAE2F, 0x0D), (0xAE30, 0xAE30, 0x0C), (0xAE31, 0xAE4B, 0x0D),
     (0xAE4C, 0xAE4C, 0x0C), (0xAE4D, 0xAE67, 0x0D), (0xAE68, 0xAE68, 0x0C),
     (0xAE69, 0xAE83, 0x0D), (0xAE84, 0xAE84, 0x0C), (0xAE85, 0xAE9F, 0x0D),
     (0xAEA0, 0xAEA0, 0x0C), (0xAEA1, 0xAEBB, 0x0D), (0xAEBC, 0xAEBC, 0x0C),
     (0xAEBD, 0xAED7, 0x0D), (0xAED8, 0xAED8, 0x0C), (0xAED9, 0xAEF3, 0x0D),
     (0xAEF4, 0xAEF4, 0x0C), (0xAEF5, 0xAF0F, 0x0D), (0xAF10, 0xAF10, 0x0C),
     (0xAF11, 0xAF2B, 0x0D), (0xAF2C, 0xAF2C, 0x0C), (0xAF2D, 0xAF47, 0x0D),
     (0xAF48, 0xAF48, 0x0C), (0xAF49, 0xAF63, 0x0D), (0xAF64, 0xAF64, 0x0C),
     (0xAF65, 0xAF7F, 0x0D), (0xAF80, 0xAF80, 0x0C), (0xAF81, 0xAF9B, 0x0D),
     (0xAF9C, 0xAF9C, 0x0C), (0xAF9D, 0xAFB7, 0x0D), (0xAFB8, 0xAFB8, 0x0C),
     (0xAFB9, 0xAFD3, 0x0D), (0xAFD4, 0xAFD4, 0x0C), (0xAFD5, 0xAFEF, 0x0D),
     (0xAFF0, 0xAFF0, 0x0C), (0xAFF1, 0xB00B, 0x0D), (0xB00C, 0xB00C, 0x0C),
     (0xB00D, 0xB027, 0x0D), (0xB028, 0xB028, 0x0C), (0xB029, 0xB043, 0x0D),
     (0xB044, 0xB044, 0x0C), (0xB045, 0xB05F, 0x0D), (0xB060, 0xB060, 0x0C),
     (0xB061, 0xB07B, 0x0D), (0xB07C, 0xB07C, 0x0C), (0xB07D, 0xB097, 0x0D),
     (0xB098, 0xB098, 0x0C), (0xB099, 0xB0B3, 0x0D), (0xB0B4, 0xB0B4, 0x0C),
     (0xB0B5, 0xB0CF, 0x0D), (0xB0D0, 0xB0D0, 0x0C), (0xB0D1, 0xB0EB, 0x0D),
     (0xB0EC, 0xB0EC, 0x0C), (0xB0ED, 0xB107, 0x0D), (0xB108, 0xB108, 0x0C),
     (0xB109, 0xB123, 0x0D), (0xB124, 0xB124, 0x0C), (0xB125, 0xB13F, 0x0D),
     (0xB140, 0xB140, 0x0C), (0xB141, 0xB15B, 0x0D), (0xB15C, 0xB15C, 0x0C),
     (0xB15D, 0xB177, 0x0D), (0xB178, 0xB178, 0x0C), (0xB179, 0xB193, 0x0D),
     (0xB194, 0xB194, 0x0C), (0xB195, 0xB1AF, 0x0D), (0xB1B0, 0xB1B0, 0x0C),
     (0xB1B1, 0xB1CB, 0x0D), (0xB1CC, 0xB1CC, 0x0C), (0xB1CD, 0xB1E7, 0x0D),
     (0xB1E8, 0xB1E8, 0x0C), (0xB1E9, 0xB203, 0x0D), (0xB204, 0xB204, 0x0C),
     (0xB205, 0xB21F, 0x0D), (0xB220, 0xB220, 0x0C), (0xB221, 0xB23B, 0x0D),
     (0xB23C, 0xB23C, 0x0C), (0xB23D, 0xB257, 0x0D), (0xB258, 0xB258, 0x0C),
     (0xB259, 0xB273, 0x0D), (0xB274, 0xB274, 0x0C), (0xB275, 0xB28F, 0x0D),
     (0xB290, 0xB290, 0x0C), (0xB291, 0xB2AB, 0x0D), (0xB2AC, 0xB2AC, 0x0C)]"

definition cluster_ranges_4 :: "(nat \<times> nat \<times> u8) list" where
  "cluster_ranges_4 =
    [(0xB2AD, 0xB2C7, 0x0D), (0xB2C8, 0xB2C8, 0x0C), (0xB2C9, 0xB2E3, 0x0D),
     (0xB2E4, 0xB2E4, 0x0C), (0xB2E5, 0xB2FF, 0x0D), (0xB300, 0xB300, 0x0C),
     (0xB301, 0xB31B, 0x0D), (0xB31C, 0xB31C, 0x0C), (0xB31D, 0xB337, 0x0D),
     (0xB338, 0xB338, 0x0C), (0xB339, 0xB353, 0x0D), (0xB354, 0xB354, 0x0C),
     (0xB355, 0xB36F, 0x0D), (0xB370, 0xB370, 0x0C), (0xB371, 0xB38B, 0x0D),
     (0xB38C, 0xB38C, 0x0C), (0xB38D, 0xB3A7, 0x0D), (0xB3A8, 0xB3A8, 0x0C),
     (0xB3A9, 0xB3C3, 0x0D), (0xB3C4, 0xB3C4, 0x0C), (0xB3C5, 0xB3DF, 0x0D),
     (0xB3E0, 0xB3E0, 0x0C), (0xB3E1, 0xB3FB, 0x0D), (0xB3FC, 0xB3FC, 0x0C),
     (0xB3FD, 0xB417, 0x0D), (0xB418, 0xB418, 0x0C), (0xB419, 0xB433, 0x0D),
     (0xB434, 0xB434, 0x0C), (0xB435, 0xB44F, 0x0D), (0xB450, 0xB450, 0x0C),
     (0xB451, 0xB46B, 0x0D), (0xB46C, 0xB46C, 0x0C), (0xB46D, 0xB487, 0x0D),
     (0xB488, 0xB488, 0x0C), (0xB489, 0xB4A3, 0x0D), (0xB4A4, 0xB4A4, 0x0C),
     (0xB4A5, 0xB4BF, 0x0D), (0xB4C0, 0xB4C0, 0x0C), (0xB4C1, 0xB4DB, 0x0D),
     (0xB4DC, 0xB4DC, 0x0C), (0xB4DD, 0xB4F7, 0x0D), (0xB4F8, 0xB4F8, 0x0C),
     (0xB4F9, 0xB513, 0x0D), (0xB514, 0xB514, 0x0C), (0xB515, 0xB52F, 0x0D),
     (0xB530, 0xB530, 0x0C), (0xB531, 0xB54B, 0x0D), (0xB54C, 0xB54C, 0x0C),
     (0xB54D, 0xB567, 0x0D), (0xB568, 0xB568, 0x0C), (0xB569, 0xB583, 0x0D),
     (0xB584, 0xB584, 0x0C), (0xB585, 0xB59F, 0x0D), (0xB5A0, 0xB5A0, 0x0C),
     (0xB5A1, 0xB5BB, 0x0D), (0xB5BC, 0xB5BC, 0x0C), (0xB5BD, 0xB5D7, 0x0D),
     (0xB5D8, 0xB5D8, 0x0C), (0xB5D9, 0xB5F3, 0x0D), (0xB5F4, 0xB5F4, 0x0C),
     (0xB5F5, 0xB60F, 0x0D), (0xB610, 0xB610, 0x0C), (0xB611, 0xB62B, 0x0D),
     (0xB62C, 0xB62C, 0x0C), (0xB62D, 0xB647, 0x0D), (0xB648, 0xB648, 0x0C),
     (0xB649, 0xB663, 0x0D), (0xB664, 0xB664, 0x0C), (0xB665, 0xB67F, 0x0D),
     (0xB680, 0xB680, 0x0C), (0xB681, 0xB69B, 0x0D), (0xB69C, 0xB69C, 0x0C),
     (0xB69D, 0xB6B7, 0x0D), (0xB6B8, 0xB6B8, 0x0C), (0xB6B9, 0xB6D3, 0x0D),
     (0xB6D4, 0xB6D4, 0x0C), (0xB6D5, 0xB6EF, 0x0D), (0xB6F0, 0xB6F0, 0x0C),
     (0xB6F1, 0xB70B, 0x0D), (0xB70C, 0xB70C, 0x0C), (0xB70D, 0xB727, 0x0D),
     (0xB728, 0xB728, 0x0C), (0xB729, 0xB743, 0x0D), (0xB744, 0xB744, 0x0C),
     (0xB745, 0xB75F, 0x0D), (0xB760, 0xB760, 0x0C), (0xB761, 0xB77B, 0x0D),
     (0xB77C, 0xB77C, 0x0C), (0xB77D, 0xB797, 0x0D), (0xB798, 0xB798, 0x0C),
     (0xB799, 0xB7B3, 0x0D), (0xB7B4, 0xB7B4, 0x0C), (0xB7B5, 0xB7CF, 0x0D),
     (0xB7D0, 0xB7D0, 0x0C), (0xB7D1, 0xB7EB, 0x0D), (0xB7EC, 0xB7EC, 0x0C),
     (0xB7ED, 0xB807, 0x0D), (0xB808, 0xB808, 0x0C), (0xB809, 0xB823, 0x0D),
     (0xB824, 0xB824, 0x0C), (0xB825, 0xB83F, 0x0D), (0xB840, 0xB840, 0x0C),
     (0xB841, 0xB85B, 0x0D), (0xB85C, 0xB85C, 0x0C), (0xB85D, 0xB877, 0x0D),
     (0xB878, 0xB878, 0x0C), (0xB879, 0xB893, 0x0D), (0xB894, 0xB894, 0x0C),
     (0xB895, 0xB8AF, 0x0D), (0xB8B0, 0xB8B0, 0x0C), (0xB8B1, 0xB8CB, 0x0D),
     (0xB8CC, 0xB8CC, 0x0C), (0xB8CD, 0xB8E7, 0x0D), (0xB8E8, 0xB8E8, 0x0C),
     (0xB8E9, 0xB903, 0x0D), (0xB904, 0xB904, 0x0C), (0xB905, 0xB91F, 0x0D),
     (0xB920, 0xB920, 0x0C), (0xB921, 0xB93B, 0x0D), (0xB93C, 0xB93C, 0x0C),
     (0xB93D, 0xB957, 0x0D), (0xB958, 0xB958, 0x0C), (0xB959, 0xB973, 0x0D),
     (0xB974, 0xB974, 0x0C), (0xB975, 0xB98F, 0x0D), (0xB990, 0xB990, 0x0C),
     (0xB991, 0xB9AB, 0x0D), (0xB9AC, 0xB9AC, 0x0C), (0xB9AD, 0xB9C7, 0x0D),
     (0xB9C8, 0xB9C8, 0x0C), (0xB9C9, 0xB9E3, 0x0D), (0xB9E4, 0xB9E4, 0x0C),
     (0xB9E5, 0xB9FF, 0x0D), (0xBA00, 0xBA00, 0x0C), (0xBA01, 0xBA1B, 0x0D),
     (0xBA1C, 0xBA1C, 0x0C), (0xBA1D, 0xBA37, 0x0D), (0xBA38, 0xBA38, 0x0C),
     (0xBA39, 0xBA53, 0x0D), (0xBA54, 0xBA54, 0x0C), (0xBA55, 0xBA6F, 0x0D),
     (0xBA70, 0xBA70, 0x0C), (0xBA71, 0xBA8B, 0x0D), (0xBA8C, 0xBA8C, 0x0C),
     (0xBA8D, 0xBAA7, 0x0D), (0xBAA8, 0xBAA8, 0x0C), (0xBAA9, 0xBAC3, 0x0D),
     (0xBAC4, 0xBAC4, 0x0C), (0xBAC5, 0xBADF, 0x0D), (0xBAE0, 0xBAE0, 0x0C)]"

definition cluster_ranges_5 :: "(nat \<times> nat \<times> u8) list" where
  "cluster_ranges_5 =
    [(0xBAE1, 0xBAFB, 0x0D), (0xBAFC, 0xBAFC, 0x0C), (0xBAFD, 0xBB17, 0x0D),
     (0xBB18, 0xBB18, 0x0C), (0xBB19, 0xBB33, 0x0D), (0xBB34, 0xBB34, 0x0C),
     (0xBB35, 0xBB4F, 0x0D), (0xBB50, 0xBB50, 0x0C), (0xBB51, 0xBB6B, 0x0D),
     (0xBB6C, 0xBB6C, 0x0C), (0xBB6D, 0xBB87, 0x0D), (0xBB88, 0xBB88, 0x0C),
     (0xBB89, 0xBBA3, 0x0D), (0xBBA4, 0xBBA4, 0x0C), (0xBBA5, 0xBBBF, 0x0D),
     (0xBBC0, 0xBBC0, 0x0C), (0xBBC1, 0xBBDB, 0x0D), (0xBBDC, 0xBBDC, 0x0C),
     (0xBBDD, 0xBBF7, 0x0D), (0xBBF8, 0xBBF8, 0x0C), (0xBBF9, 0xBC13, 0x0D),
     (0xBC14, 0xBC14, 0x0C), (0xBC15, 0xBC2F, 0x0D), (0xBC30, 0xBC30, 0x0C),
     (0xBC31, 0xBC4B, 0x0D), (0xBC4C, 0xBC4C, 0x0C), (0xBC4D, 0xBC67, 0x0D),
     (0xBC68, 0xBC68, 0x0C), (0xBC69, 0xBC83, 0x0D), (0xBC84, 0xBC84, 0x0C),
     (0xBC85, 0xBC9F, 0x0D), (0xBCA0, 0xBCA0, 0x0C), (0xBCA1, 0xBCBB, 0x0D),
     (0xBCBC, 0xBCBC, 0x0C), (0xBCBD, 0xBCD7, 0x0D), (0xBCD8, 0xBCD8, 0x0C),
     (0xBCD9, 0xBCF3, 0x0D), (0xBCF4, 0xBCF4, 0x0C), (0xBCF5, 0xBD0F, 0x0D),
     (0xBD10, 0xBD10, 0x0C), (0xBD11, 0xBD2B, 0x0D), (0xBD2C, 0xBD2C, 0x0C),
     (0xBD2D, 0xBD47, 0x0D), (0xBD48, 0xBD48, 0x0C), (0xBD49, 0xBD63, 0x0D),
     (0xBD64, 0xBD64, 0x0C), (0xBD65, 0xBD7F, 0x0D), (0xBD80, 0xBD80, 0x0C),
     (0xBD81, 0xBD9B, 0x0D), (0xBD9C, 0xBD9C, 0x0C), (0xBD9D, 0xBDB7, 0x0D),
     (0xBDB8, 0xBDB8, 0x0C), (0xBDB9, 0xBDD3, 0x0D), (0xBDD4, 0xBDD4, 0x0C),
     (0xBDD5, 0xBDEF, 0x0D), (0xBDF0, 0xBDF0, 0x0C), (0xBDF1, 0xBE0B, 0x0D),
     (0xBE0C, 0xBE0C, 0x0C), (0xBE0D, 0xBE27, 0x0D), (0xBE28, 0xBE28, 0x0C),
     (0xBE29, 0xBE43, 0x0D), (0xBE44, 0xBE44, 0x0C), (0xBE45, 0xBE5F, 0x0D),
     (0xBE60, 0xBE60, 0x0C), (0xBE61, 0xBE7B, 0x0D), (0xBE7C, 0xBE7C, 0x0C),
     (0xBE7D, 0xBE97, 0x0D), (0xBE98, 0xBE98, 0x0C), (0xBE99, 0xBEB3, 0x0D),
     (0xBEB4, 0xBEB4, 0x0C), (0xBEB5, 0xBECF, 0x0D), (0xBED0, 0xBED0, 0x0C),
     (0xBED1, 0xBEEB, 0x0D), (0xBEEC, 0xBEEC, 0x0C), (0xBEED, 0xBF07, 0x0D),
     (0xBF08, 0xBF08, 0x0C), (0xBF09, 0xBF23, 0x0D), (0xBF24, 0xBF24, 0x0C),
     (0xBF25, 0xBF3F, 0x0D), (0xBF40, 0xBF40, 0x0C), (0xBF41, 0xBF5B, 0x0D),
     (0xBF5C, 0xBF5C, 0x0C), (0xBF5D, 0xBF77, 0x0D), (0xBF78, 0xBF78, 0x0C),
     (0xBF79, 0xBF93, 0x0D), (0xBF94, 0xBF94, 0x0C), (0xBF95, 0xBFAF, 0x0D),
     (0xBFB0, 0xBFB0, 0x0C), (0xBFB1, 0xBFCB, 0x0D), (0xBFCC, 0xBFCC, 0x0C),
     (0xBFCD, 0xBFE7, 0x0D), (0xBFE8, 0xBFE8, 0x0C), (0xBFE9, 0xC003, 0x0D),
     (0xC004, 0xC004, 0x0C), (0xC005, 0xC01F, 0x0D), (0xC020, 0xC020, 0x0C),
     (0xC021, 0xC03B, 0x0D), (0xC03C, 0xC03C, 0x0C), (0xC03D, 0xC057, 0x0D),
     (0xC058, 0xC058, 0x0C), (0xC059, 0xC073, 0x0D), (0xC074, 0xC074, 0x0C),
     (0xC075, 0xC08F, 0x0D), (0xC090, 0xC090, 0x0C), (0xC091, 0xC0AB, 0x0D),
     (0xC0AC, 0xC0AC, 0x0C), (0xC0AD, 0xC0C7, 0x0D), (0xC0C8, 0xC0C8, 0x0C),
     (0xC0C9, 0xC0E3, 0x0D), (0xC0E4, 0xC0E4, 0x0C), (0xC0E5, 0xC0FF, 0x0D),
     (0xC100, 0xC100, 0x0C), (0xC101, 0xC11B, 0x0D), (0xC11C, 0xC11C, 0x0C),
     (0xC11D, 0xC137, 0x0D), (0xC138, 0xC138, 0x0C), (0xC139, 0xC153, 0x0D),
     (0xC154, 0xC154, 0x0C), (0xC155, 0xC16F, 0x0D), (0xC170, 0xC170, 0x0C),
     (0xC171, 0xC18B, 0x0D), (0xC18C, 0xC18C, 0x0C), (0xC18D, 0xC1A7, 0x0D),
     (0xC1A8, 0xC1A8, 0x0C), (0xC1A9, 0xC1C3, 0x0D), (0xC1C4, 0xC1C4, 0x0C),
     (0xC1C5, 0xC1DF, 0x0D), (0xC1E0, 0xC1E0, 0x0C), (0xC1E1, 0xC1FB, 0x0D),
     (0xC1FC, 0xC1FC, 0x0C), (0xC1FD, 0xC217, 0x0D), (0xC218, 0xC218, 0x0C),
     (0xC219, 0xC233, 0x0D), (0xC234, 0xC234, 0x0C), (0xC235, 0xC24F, 0x0D),
     (0xC250, 0xC250, 0x0C), (0xC251, 0xC26B, 0x0D), (0xC26C, 0xC26C, 0x0C),
     (0xC26D, 0xC287, 0x0D), (0xC288, 0xC288, 0x0C), (0xC289, 0xC2A3, 0x0D),
     (0xC2A4, 0xC2A4, 0x0C), (0xC2A5, 0xC2BF, 0x0D), (0xC2C0, 0xC2C0, 0x0C),
     (0xC2C1, 0xC2DB, 0x0D), (0xC2DC, 0xC2DC, 0x0C), (0xC2DD, 0xC2F7, 0x0D),
     (0xC2F8, 0xC2F8, 0x0C), (0xC2F9, 0xC313, 0x0D), (0xC314, 0xC314, 0x0C)]"

definition cluster_ranges_6 :: "(nat \<times> nat \<times> u8) list" where
  "cluster_ranges_6 =
    [(0xC315, 0xC32F, 0x0D), (0xC330, 0xC330, 0x0C), (0xC331, 0xC34B, 0x0D),
     (0xC34C, 0xC34C, 0x0C), (0xC34D, 0xC367, 0x0D), (0xC368, 0xC368, 0x0C),
     (0xC369, 0xC383, 0x0D), (0xC384, 0xC384, 0x0C), (0xC385, 0xC39F, 0x0D),
     (0xC3A0, 0xC3A0, 0x0C), (0xC3A1, 0xC3BB, 0x0D), (0xC3BC, 0xC3BC, 0x0C),
     (0xC3BD, 0xC3D7, 0x0D), (0xC3D8, 0xC3D8, 0x0C), (0xC3D9, 0xC3F3, 0x0D),
     (0xC3F4, 0xC3F4, 0x0C), (0xC3F5, 0xC40F, 0x0D), (0xC410, 0xC410, 0x0C),
     (0xC411, 0xC42B, 0x0D), (0xC42C, 0xC42C, 0x0C), (0xC42D, 0xC447, 0x0D),
     (0xC448, 0xC448, 0x0C), (0xC449, 0xC463, 0x0D), (0xC464, 0xC464, 0x0C),
     (0xC465, 0xC47F, 0x0D), (0xC480, 0xC480, 0x0C), (0xC481, 0xC49B, 0x0D),
     (0xC49C, 0xC49C, 0x0C), (0xC49D, 0xC4B7, 0x0D), (0xC4B8, 0xC4B8, 0x0C),
     (0xC4B9, 0xC4D3, 0x0D), (0xC4D4, 0xC4D4, 0x0C), (0xC4D5, 0xC4EF, 0x0D),
     (0xC4F0, 0xC4F0, 0x0C), (0xC4F1, 0xC50B, 0x0D), (0xC50C, 0xC50C, 0x0C),
     (0xC50D, 0xC527, 0x0D), (0xC528, 0xC528, 0x0C), (0xC529, 0xC543, 0x0D),
     (0xC544, 0xC544, 0x0C), (0xC545, 0xC55F, 0x0D), (0xC560, 0xC560, 0x0C),
     (0xC561, 0xC57B, 0x0D), (0xC57C, 0xC57C, 0x0C), (0xC57D, 0xC597, 0x0D),
     (0xC598, 0xC598, 0x0C), (0xC599, 0xC5B3, 0x0D), (0xC5B4, 0xC5B4, 0x0C),
     (0xC5B5, 0xC5CF, 0x0D), (0xC5D0, 0xC5D0, 0x0C), (0xC5D1, 0xC5EB, 0x0D),
     (0xC5EC, 0xC5EC, 0x0C), (0xC5ED, 0xC607, 0x0D), (0xC608, 0xC608, 0x0C),
     (0xC609, 0xC623, 0x0D), (0xC624, 0xC624, 0x0C), (0xC625, 0xC63F, 0x0D),
     (0xC640, 0xC640, 0x0C), (0xC641, 0xC65B, 0x0D), (0xC65C, 0xC65C, 0x0C),
     (0xC65D, 0xC677, 0x0D), (0xC678, 0xC678, 0x0C), (0xC679, 0xC693, 0x0D),
     (0xC694, 0xC694, 0x0C), (0xC695, 0xC6AF, 0x0D), (0xC6B0, 0xC6B0, 0x0C),
     (0xC6B1, 0xC6CB, 0x0D), (0xC6CC, 0xC6CC, 0x0C), (0xC6CD, 0xC6E7, 0x0D),
     (0xC6E8, 0xC6E8, 0x0C), (0xC6E9, 0xC703, 0x0D), (0xC704, 0xC704, 0x0C),
     (0xC705, 0xC71F, 0x0D), (0xC720, 0xC720, 0x0C), (0xC721, 0xC73B, 0x0D),
     (0xC73C, 0xC73C, 0x0C), (0xC73D, 0xC757, 0x0D), (0xC758, 0xC758, 0x0C),
     (0xC759, 0xC773, 0x0D), (0xC774, 0xC774, 0x0C), (0xC775, 0xC78F, 0x0D),
     (0xC790, 0xC790, 0x0C), (0xC791, 0xC7AB, 0x0D), (0xC7AC, 0xC7AC, 0x0C),
     (0xC7AD, 0xC7C7, 0x0D), (0xC7C8, 0xC7C8, 0x0C), (0xC7C9, 0xC7E3, 0x0D),
     (0xC7E4, 0xC7E4, 0x0C), (0xC7E5, 0xC7FF, 0x0D), (0xC800, 0xC800, 0x0C),
     (0xC801, 0xC81B, 0x0D), (0xC81C, 0xC81C, 0x0C), (0xC81D, 0xC837, 0x0D),
     (0xC838, 0xC838, 0x0C), (0xC839, 0xC853, 0x0D), (0xC854, 0xC854, 0x0C),
     (0xC855, 0xC86F, 0x0D), (0xC870, 0xC870, 0x0C), (0xC871, 0xC88B, 0x0D),
     (0xC88C, 0xC88C, 0x0C), (0xC88D, 0xC8A7, 0x0D), (0xC8A8, 0xC8A8, 0x0C),
     (0xC8A9, 0xC8C3, 0x0D), (0xC8C4, 0xC8C4, 0x0C), (0xC8C5, 0xC8DF, 0x0D),
     (0xC8E0, 0xC8E0, 0x0C), (0xC8E1, 0xC8FB, 0x0D), (0xC8FC, 0xC8FC, 0x0C),
     (0xC8FD, 0xC917, 0x0D), (0xC918, 0xC918, 0x0C), (0xC919, 0xC933, 0x0D),
     (0xC934, 0xC934, 0x0C), (0xC935, 0xC94F, 0x0D), (0xC950, 0xC950, 0x0C),
     (0xC951, 0xC96B, 0x0D), (0xC96C, 0xC96C, 0x0C), (0xC96D, 0xC987, 0x0D),
     (0xC988, 0xC988, 0x0C), (0xC989, 0xC9A3, 0x0D), (0xC9A4, 0xC9A4, 0x0C),
     (0xC9A5, 0xC9BF, 0x0D), (0xC9C0, 0xC9C0, 0x0C), (0xC9C1, 0xC9DB, 0x0D),
     (0xC9DC, 0xC9DC, 0x0C), (0xC9DD, 0xC9F7, 0x0D), (0xC9F8, 0xC9F8, 0x0C),
     (0xC9F9, 0xCA13, 0x0D), (0xCA14, 0xCA14, 0x0C), (0xCA15, 0xCA2F, 0x0D),
     (0xCA30, 0xCA30, 0x0C), (0xCA31, 0xCA4B, 0x0D), (0xCA4C, 0xCA4C, 0x0C),
     (0xCA4D, 0xCA67, 0x0D), (0xCA68, 0xCA68, 0x0C), (0xCA69, 0xCA83, 0x0D),
     (0xCA84, 0xCA84, 0x0C), (0xCA85, 0xCA9F, 0x0D), (0xCAA0, 0xCAA0, 0x0C),
     (0xCAA1, 0xCABB, 0x0D), (0xCABC, 0xCABC, 0x0C), (0xCABD, 0xCAD7, 0x0D),
     (0xCAD8, 0xCAD8, 0x0C), (0xCAD9, 0xCAF3, 0x0D), (0xCAF4, 0xCAF4, 0x0C),
     (0xCAF5, 0xCB0F, 0x0D), (0xCB10, 0xCB10, 0x0C), (0xCB11, 0xCB2B, 0x0D),
     (0xCB2C, 0xCB2C, 0x0C), (0xCB2D, 0xCB47, 0x0D), (0xCB48, 0xCB48, 0x0C)]"

definition cluster_ranges_7 :: "(nat \<times> nat \<times> u8) list" where
  "cluster_ranges_7 =
    [(0xCB49, 0xCB63, 0x0D), (0xCB64, 0xCB64, 0x0C), (0xCB65, 0xCB7F, 0x0D),
     (0xCB80, 0xCB80, 0x0C), (0xCB81, 0xCB9B, 0x0D), (0xCB9C, 0xCB9C, 0x0C),
     (0xCB9D, 0xCBB7, 0x0D), (0xCBB8, 0xCBB8, 0x0C), (0xCBB9, 0xCBD3, 0x0D),
     (0xCBD4, 0xCBD4, 0x0C), (0xCBD5, 0xCBEF, 0x0D), (0xCBF0, 0xCBF0, 0x0C),
     (0xCBF1, 0xCC0B, 0x0D), (0xCC0C, 0xCC0C, 0x0C), (0xCC0D, 0xCC27, 0x0D),
     (0xCC28, 0xCC28, 0x0C), (0xCC29, 0xCC43, 0x0D), (0xCC44, 0xCC44, 0x0C),
     (0xCC45, 0xCC5F, 0x0D), (0xCC60, 0xCC60, 0x0C), (0xCC61, 0xCC7B, 0x0D),
     (0xCC7C, 0xCC7C, 0x0C), (0xCC7D, 0xCC97, 0x0D), (0xCC98, 0xCC98, 0x0C),
     (0xCC99, 0xCCB3, 0x0D), (0xCCB4, 0xCCB4, 0x0C), (0xCCB5, 0xCCCF, 0x0D),
     (0xCCD0, 0xCCD0, 0x0C), (0xCCD1, 0xCCEB, 0x0D), (0xCCEC, 0xCCEC, 0x0C),
     (0xCCED, 0xCD07, 0x0D), (0xCD08, 0xCD08, 0x0C), (0xCD09, 0xCD23, 0x0D),
     (0xCD24, 0xCD24, 0x0C), (0xCD25, 0xCD3F, 0x0D), (0xCD40, 0xCD40, 0x0C),
     (0xCD41, 0xCD5B, 0x0D), (0xCD5C, 0xCD5C, 0x0C), (0xCD5D, 0xCD77, 0x0D),
     (0xCD78, 0xCD78, 0x0C), (0xCD79, 0xCD93, 0x0D), (0xCD94, 0xCD94, 0x0C),
     (0xCD95, 0xCDAF, 0x0D), (0xCDB0, 0xCDB0, 0x0C), (0xCDB1, 0xCDCB, 0x0D),
     (0xCDCC, 0xCDCC, 0x0C), (0xCDCD, 0xCDE7, 0x0D), (0xCDE8, 0xCDE8, 0x0C),
     (0xCDE9, 0xCE03, 0x0D), (0xCE04, 0xCE04, 0x0C), (0xCE05, 0xCE1F, 0x0D),
     (0xCE20, 0xCE20, 0x0C), (0xCE21, 0xCE3B, 0x0D), (0xCE3C, 0xCE3C, 0x0C),
     (0xCE3D, 0xCE57, 0x0D), (0xCE58, 0xCE58, 0x0C), (0xCE59, 0xCE73, 0x0D),
     (0xCE74, 0xCE74, 0x0C), (0xCE75, 0xCE8F, 0x0D), (0xCE90, 0xCE90, 0x0C),
     (0xCE91, 0xCEAB, 0x0D), (0xCEAC, 0xCEAC, 0x0C), (0xCEAD, 0xCEC7, 0x0D),
     (0xCEC8, 0xCEC8, 0x0C), (0xCEC9, 0xCEE3, 0x0D), (0xCEE4, 0xCEE4, 0x0C),
     (0xCEE5, 0xCEFF, 0x0D), (0xCF00, 0xCF00, 0x0C), (0xCF01, 0xCF1B, 0x0D),
     (0xCF1C, 0xCF1C, 0x0C), (0xCF1D, 0xCF37, 0x0D), (0xCF38, 0xCF38, 0x0C),
     (0xCF39, 0xCF53, 0x0D), (0xCF54, 0xCF54, 0x0C), (0xCF55, 0xCF6F, 0x0D),
     (0xCF70, 0xCF70, 0x0C), (0xCF71, 0xCF8B, 0x0D), (0xCF8C, 0xCF8C, 0x0C),
     (0xCF8D, 0xCFA7, 0x0D), (0xCFA8, 0xCFA8, 0x0C), (0xCFA9, 0xCFC3, 0x0D),
     (0xCFC4, 0xCFC4, 0x0C), (0xCFC5, 0xCFDF, 0x0D), (0xCFE0, 0xCFE0, 0x0C),
     (0xCFE1, 0xCFFB, 0x0D), (0xCFFC, 0xCFFC, 0x0C), (0xCFFD, 0xD017, 0x0D),
     (0xD018, 0xD018, 0x0C), (0xD019, 0xD033, 0x0D), (0xD034, 0xD034, 0x0C),
     (0xD035, 0xD04F, 0x0D), (0xD050, 0xD050, 0x0C), (0xD051, 0xD06B, 0x0D),
     (0xD06C, 0xD06C, 0x0C), (0xD06D, 0xD087, 0x0D), (0xD088, 0xD088, 0x0C),
     (0xD089, 0xD0A3, 0x0D), (0xD0A4, 0xD0A4, 0x0C), (0xD0A5, 0xD0BF, 0x0D),
     (0xD0C0, 0xD0C0, 0x0C), (0xD0C1, 0xD0DB, 0x0D), (0xD0DC, 0xD0DC, 0x0C),
     (0xD0DD, 0xD0F7, 0x0D), (0xD0F8, 0xD0F8, 0x0C), (0xD0F9, 0xD113, 0x0D),
     (0xD114, 0xD114, 0x0C), (0xD115, 0xD12F, 0x0D), (0xD130, 0xD130, 0x0C),
     (0xD131, 0xD14B, 0x0D), (0xD14C, 0xD14C, 0x0C), (0xD14D, 0xD167, 0x0D),
     (0xD168, 0xD168, 0x0C), (0xD169, 0xD183, 0x0D), (0xD184, 0xD184, 0x0C),
     (0xD185, 0xD19F, 0x0D), (0xD1A0, 0xD1A0, 0x0C), (0xD1A1, 0xD1BB, 0x0D),
     (0xD1BC, 0xD1BC, 0x0C), (0xD1BD, 0xD1D7, 0x0D), (0xD1D8, 0xD1D8, 0x0C),
     (0xD1D9, 0xD1F3, 0x0D), (0xD1F4, 0xD1F4, 0x0C), (0xD1F5, 0xD20F, 0x0D),
     (0xD210, 0xD210, 0x0C), (0xD211, 0xD22B, 0x0D), (0xD22C, 0xD22C, 0x0C),
     (0xD22D, 0xD247, 0x0D), (0xD248, 0xD248, 0x0C), (0xD249, 0xD263, 0x0D),
     (0xD264, 0xD264, 0x0C), (0xD265, 0xD27F, 0x0D), (0xD280, 0xD280, 0x0C),
     (0xD281, 0xD29B, 0x0D), (0xD29C, 0xD29C, 0x0C), (0xD29D, 0xD2B7, 0x0D),
     (0xD2B8, 0xD2B8, 0x0C), (0xD2B9, 0xD2D3, 0x0D), (0xD2D4, 0xD2D4, 0x0C),
     (0xD2D5, 0xD2EF, 0x0D), (0xD2F0, 0xD2F0, 0x0C), (0xD2F1, 0xD30B, 0x0D),
     (0xD30C, 0xD30C, 0x0C), (0xD30D, 0xD327, 0x0D), (0xD328, 0xD328, 0x0C),
     (0xD329, 0xD343, 0x0D), (0xD344, 0xD344, 0x0C), (0xD345, 0xD35F, 0x0D),
     (0xD360, 0xD360, 0x0C), (0xD361, 0xD37B, 0x0D), (0xD37C, 0xD37C, 0x0C)]"

definition cluster_ranges_8 :: "(nat \<times> nat \<times> u8) list" where
  "cluster_ranges_8 =
    [(0xD37D, 0xD397, 0x0D), (0xD398, 0xD398, 0x0C), (0xD399, 0xD3B3, 0x0D),
     (0xD3B4, 0xD3B4, 0x0C), (0xD3B5, 0xD3CF, 0x0D), (0xD3D0, 0xD3D0, 0x0C),
     (0xD3D1, 0xD3EB, 0x0D), (0xD3EC, 0xD3EC, 0x0C), (0xD3ED, 0xD407, 0x0D),
     (0xD408, 0xD408, 0x0C), (0xD409, 0xD423, 0x0D), (0xD424, 0xD424, 0x0C),
     (0xD425, 0xD43F, 0x0D), (0xD440, 0xD440, 0x0C), (0xD441, 0xD45B, 0x0D),
     (0xD45C, 0xD45C, 0x0C), (0xD45D, 0xD477, 0x0D), (0xD478, 0xD478, 0x0C),
     (0xD479, 0xD493, 0x0D), (0xD494, 0xD494, 0x0C), (0xD495, 0xD4AF, 0x0D),
     (0xD4B0, 0xD4B0, 0x0C), (0xD4B1, 0xD4CB, 0x0D), (0xD4CC, 0xD4CC, 0x0C),
     (0xD4CD, 0xD4E7, 0x0D), (0xD4E8, 0xD4E8, 0x0C), (0xD4E9, 0xD503, 0x0D),
     (0xD504, 0xD504, 0x0C), (0xD505, 0xD51F, 0x0D), (0xD520, 0xD520, 0x0C),
     (0xD521, 0xD53B, 0x0D), (0xD53C, 0xD53C, 0x0C), (0xD53D, 0xD557, 0x0D),
     (0xD558, 0xD558, 0x0C), (0xD559, 0xD573, 0x0D), (0xD574, 0xD574, 0x0C),
     (0xD575, 0xD58F, 0x0D), (0xD590, 0xD590, 0x0C), (0xD591, 0xD5AB, 0x0D),
     (0xD5AC, 0xD5AC, 0x0C), (0xD5AD, 0xD5C7, 0x0D), (0xD5C8, 0xD5C8, 0x0C),
     (0xD5C9, 0xD5E3, 0x0D), (0xD5E4, 0xD5E4, 0x0C), (0xD5E5, 0xD5FF, 0x0D),
     (0xD600, 0xD600, 0x0C), (0xD601, 0xD61B, 0x0D), (0xD61C, 0xD61C, 0x0C),
     (0xD61D, 0xD637, 0x0D), (0xD638, 0xD638, 0x0C), (0xD639, 0xD653, 0x0D),
     (0xD654, 0xD654, 0x0C), (0xD655, 0xD66F, 0x0D), (0xD670, 0xD670, 0x0C),
     (0xD671, 0xD68B, 0x0D), (0xD68C, 0xD68C, 0x0C), (0xD68D, 0xD6A7, 0x0D),
     (0xD6A8, 0xD6A8, 0x0C), (0xD6A9, 0xD6C3, 0x0D), (0xD6C4, 0xD6C4, 0x0C),
     (0xD6C5, 0xD6DF, 0x0D), (0xD6E0, 0xD6E0, 0x0C), (0xD6E1, 0xD6FB, 0x0D),
     (0xD6FC, 0xD6FC, 0x0C), (0xD6FD, 0xD717, 0x0D), (0xD718, 0xD718, 0x0C),
     (0xD719, 0xD733, 0x0D), (0xD734, 0xD734, 0x0C), (0xD735, 0xD74F, 0x0D),
     (0xD750, 0xD750, 0x0C), (0xD751, 0xD76B, 0x0D), (0xD76C, 0xD76C, 0x0C),
     (0xD76D, 0xD787, 0x0D), (0xD788, 0xD788, 0x0C), (0xD789, 0xD7A3, 0x0D),
     (0xD7B0, 0xD7C6, 0x0A), (0xD7CB, 0xD7FB, 0x0B), (0xFB1E, 0xFB1E, 0x64),
     (0xFE00, 0xFE0F, 0x64), (0xFE20, 0xFE2F, 0x64), (0xFEFF, 0xFEFF, 0x03),
     (0xFF9E, 0xFF9F, 0x64), (0xFFF0, 0xFFFB, 0x03), (0x101FD, 0x101FD, 0x64),
     (0x102E0, 0x102E0, 0x64), (0x10376, 0x1037A, 0x64), (0x10A00, 0x10A00, 0x40),
     (0x10A01, 0x10A03, 0x64), (0x10A05, 0x10A06, 0x64), (0x10A0C, 0x10A0F, 0x64),
     (0x10A10, 0x10A13, 0x40), (0x10A15, 0x10A17, 0x40), (0x10A19, 0x10A35, 0x40),
     (0x10A38, 0x10A3A, 0x64), (0x10A3F, 0x10A3F, 0x24), (0x10AE5, 0x10AE6, 0x64),
     (0x10D24, 0x10D27, 0x64), (0x10D69, 0x10D6D, 0x64), (0x10EAB, 0x10EAC, 0x64),
     (0x10EFA, 0x10EFF, 0x64), (0x10F46, 0x10F50, 0x64), (0x10F82, 0x10F85, 0x64),
     (0x11000, 0x11000, 0x08), (0x11001, 0x11001, 0x64), (0x11002, 0x11002, 0x08),
     (0x11038, 0x11046, 0x64), (0x11070, 0x11070, 0x64), (0x11073, 0x11074, 0x64),
     (0x1107F, 0x11081, 0x64), (0x11082, 0x11082, 0x08), (0x110B0, 0x110B2, 0x08),
     (0x110B3, 0x110B6, 0x64), (0x110B7, 0x110B8, 0x08), (0x110B9, 0x110BA, 0x64),
     (0x110BD, 0x110BD, 0x07), (0x110C2, 0x110C2, 0x64), (0x110CD, 0x110CD, 0x07),
     (0x11100, 0x11102, 0x64), (0x11103, 0x11126, 0x40), (0x11127, 0x1112B, 0x64),
     (0x1112C, 0x1112C, 0x08), (0x1112D, 0x11132, 0x64), (0x11133, 0x11133, 0x24),
     (0x11134, 0x11134, 0x64), (0x11144, 0x11144, 0x40), (0x11145, 0x11146, 0x08),
     (0x11147, 0x11147, 0x40), (0x11173, 0x11173, 0x64), (0x11180, 0x11181, 0x64),
     (0x11182, 0x11182, 0x08), (0x111B3, 0x111B5, 0x08), (0x111B6, 0x111BE, 0x64),
     (0x111BF, 0x111BF, 0x08), (0x111C0, 0x111C0, 0x64), (0x111C2, 0x111C3, 0x07),
     (0x111C9, 0x111CC, 0x64), (0x111CE, 0x111CE, 0x08), (0x111CF, 0x111CF, 0x64),
     (0x1122C, 0x1122E, 0x08), (0x1122F, 0x11231, 0x64), (0x11232, 0x11233, 0x08),
     (0x11234, 0x11237, 0x64), (0x1123E, 0x1123E, 0x64), (0x11241, 0x11241, 0x64),
     (0x112DF, 0x112DF, 0x64), (0x112E0, 0x112E2, 0x08), (0x112E3, 0x112EA, 0x64),
     (0x11300, 0x11301, 0x64), (0x11302, 0x11303, 0x08), (0x1133B, 0x1133C, 0x64)]"

definition cluster_ranges_9 :: "(nat \<times> nat \<times> u8) list" where
  "cluster_ranges_9 =
    [(0x1133E, 0x1133E, 0x64), (0x1133F, 0x1133F, 0x08), (0x11340, 0x11340, 0x64),
     (0x11341, 0x11344, 0x08), (0x11347, 0x11348, 0x08), (0x1134B, 0x1134C, 0x08),
     (0x1134D, 0x1134D, 0x64), (0x11357, 0x11357, 0x64), (0x11362, 0x11363, 0x08),
     (0x11366, 0x1136C, 0x64), (0x11370, 0x11374, 0x64), (0x11380, 0x11389, 0x40),
     (0x1138B, 0x1138B, 0x40), (0x1138E, 0x1138E, 0x40), (0x11390, 0x113B5, 0x40),
     (0x113B8, 0x113B8, 0x64), (0x113B9, 0x113BA, 0x08), (0x113BB, 0x113C0, 0x64),
     (0x113C2, 0x113C2, 0x64), (0x113C5, 0x113C5, 0x64), (0x113C7, 0x113C9, 0x64),
     (0x113CA, 0x113CA, 0x08), (0x113CC, 0x113CD, 0x08), (0x113CE, 0x113CF, 0x64),
     (0x113D0, 0x113D0, 0x24), (0x113D1, 0x113D1, 0x07), (0x113D2, 0x113D2, 0x64),
     (0x113E1, 0x113E2, 0x64), (0x11435, 0x11437, 0x08), (0x11438, 0x1143F, 0x64),
     (0x11440, 0x11441, 0x08), (0x11442, 0x11444, 0x64), (0x11445, 0x11445, 0x08),
     (0x11446, 0x11446, 0x64), (0x1145E, 0x1145E, 0x64), (0x114B0, 0x114B0, 0x64),
     (0x114B1, 0x114B2, 0x08), (0x114B3, 0x114B8, 0x64), (0x114B9, 0x114B9, 0x08),
     (0x114BA, 0x114BA, 0x64), (0x114BB, 0x114BC, 0x08), (0x114BD, 0x114BD, 0x64),
     (0x114BE, 0x114BE, 0x08), (0x114BF, 0x114C0, 0x64), (0x114C1, 0x114C1, 0x08),
     (0x114C2, 0x114C3, 0x64), (0x115AF, 0x115AF, 0x64), (0x115B0, 0x115B1, 0x08),
     (0x115B2, 0x115B5, 0x64), (0x115B8, 0x115BB, 0x08), (0x115BC, 0x115BD, 0x64),
     (0x115BE, 0x115BE, 0x08), (0x115BF, 0x115C0, 0x64), (0x115DC, 0x115DD, 0x64),
     (0x11630, 0x11632, 0x08), (0x11633, 0x1163A, 0x64), (0x1163B, 0x1163C, 0x08),
     (0x1163D, 0x1163D, 0x64), (0x1163E, 0x1163E, 0x08), (0x1163F, 0x11640, 0x64),
     (0x116AB, 0x116AB, 0x64), (0x116AC, 0x116AC, 0x08), (0x116AD, 0x116AD, 0x64),
     (0x116AE, 0x116AF, 0x08), (0x116B0, 0x116B7, 0x64), (0x1171D, 0x1171D, 0x64),
     (0x1171E, 0x1171E, 0x08), (0x1171F, 0x1171F, 0x64), (0x11722, 0x11725, 0x64),
     (0x11726, 0x11726, 0x08), (0x11727, 0x1172B, 0x64), (0x1182C, 0x1182E, 0x08),
     (0x1182F, 0x11837, 0x64), (0x11838, 0x11838, 0x08), (0x11839, 0x1183A, 0x64),
     (0x11900, 0x11906, 0x40), (0x11909, 0x11909, 0x40), (0x1190C, 0x11913, 0x40),
     (0x11915, 0x11916, 0x40), (0x11918, 0x1192F, 0x40), (0x11930, 0x11930, 0x64),
     (0x11931, 0x11935, 0x08), (0x11937, 0x11938, 0x08), (0x1193B, 0x1193D, 0x64),
     (0x1193E, 0x1193E, 0x24), (0x1193F, 0x1193F, 0x07), (0x11940, 0x11940, 0x08),
     (0x11941, 0x11941, 0x07), (0x11942, 0x11942, 0x08), (0x11943, 0x11943, 0x64),
     (0x119D1, 0x119D3, 0x08), (0x119D4, 0x119D7, 0x64), (0x119DA, 0x119DB, 0x64),
     (0x119DC, 0x119DF, 0x08), (0x119E0, 0x119E0, 0x64), (0x119E4, 0x119E4, 0x08),
     (0x11A00, 0x11A00, 0x40), (0x11A01, 0x11A0A, 0x64), (0x11A0B, 0x11A32, 0x40),
     (0x11A33, 0x11A38, 0x64), (0x11A39, 0x11A39, 0x08), (0x11A3B, 0x11A3E, 0x64),
     (0x11A47, 0x11A47, 0x24), (0x11A50, 0x11A50, 0x40), (0x11A51, 0x11A56, 0x64),
     (0x11A57, 0x11A58, 0x08), (0x11A59, 0x11A5B, 0x64), (0x11A5C, 0x11A83, 0x40),
     (0x11A84, 0x11A89, 0x07), (0x11A8A, 0x11A96, 0x64), (0x11A97, 0x11A97, 0x08),
     (0x11A98, 0x11A98, 0x64), (0x11A99, 0x11A99, 0x24), (0x11B60, 0x11B60, 0x64),
     (0x11B61, 0x11B61, 0x08), (0x11B62, 0x11B64, 0x64), (0x11B65, 0x11B65, 0x08),
     (0x11B66, 0x11B66, 0x64), (0x11B67, 0x11B67, 0x08), (0x11C2F, 0x11C2F, 0x08),
     (0x11C30, 0x11C36, 0x64), (0x11C38, 0x11C3D, 0x64), (0x11C3E, 0x11C3E, 0x08),
     (0x11C3F, 0x11C3F, 0x64), (0x11C92, 0x11CA7, 0x64), (0x11CA9, 0x11CA9, 0x08),
     (0x11CAA, 0x11CB0, 0x64), (0x11CB1, 0x11CB1, 0x08), (0x11CB2, 0x11CB3, 0x64),
     (0x11CB4, 0x11CB4, 0x08), (0x11CB5, 0x11CB6, 0x64), (0x11D31, 0x11D36, 0x64),
     (0x11D3A, 0x11D3A, 0x64), (0x11D3C, 0x11D3D, 0x64), (0x11D3F, 0x11D45, 0x64),
     (0x11D46, 0x11D46, 0x07), (0x11D47, 0x11D47, 0x64), (0x11D8A, 0x11D8E, 0x08),
     (0x11D90, 0x11D91, 0x64), (0x11D93, 0x11D94, 0x08), (0x11D95, 0x11D95, 0x64),
     (0x11D96, 0x11D96, 0x08), (0x11D97, 0x11D97, 0x64), (0x11EF3, 0x11EF4, 0x64),
     (0x11EF5, 0x11EF6, 0x08), (0x11F00, 0x11F01, 0x64), (0x11F02, 0x11F02, 0x07),
     (0x11F03, 0x11F03, 0x08), (0x11F04, 0x11F10, 0x40), (0x11F12, 0x11F33, 0x40)]"

definition cluster_ranges_10 :: "(nat \<times> nat \<times> u8) list" where
  "cluster_ranges_10 =
    [(0x11F34, 0x11F35, 0x08), (0x11F36, 0x11F3A, 0x64), (0x11F3E, 0x11F3F, 0x08),
     (0x11F40, 0x11F41, 0x64), (0x11F42, 0x11F42, 0x24), (0x11F5A, 0x11F5A, 0x64),
     (0x13430, 0x1343F, 0x03), (0x13440, 0x13440, 0x64), (0x13447, 0x13455, 0x64),
     (0x1611E, 0x16129, 0x64), (0x1612A, 0x1612C, 0x08), (0x1612D, 0x1612F, 0x64),
     (0x16AF0, 0x16AF4, 0x64), (0x16B30, 0x16B36, 0x64), (0x16D63, 0x16D63, 0x0A),
     (0x16D67, 0x16D6A, 0x0A), (0x16F4F, 0x16F4F, 0x64), (0x16F51, 0x16F87, 0x08),
     (0x16F8F, 0x16F92, 0x64), (0x16FE4, 0x16FE4, 0x64), (0x16FF0, 0x16FF1, 0x64),
     (0x1BC9D, 0x1BC9E, 0x64), (0x1BCA0, 0x1BCA3, 0x03), (0x1CF00, 0x1CF2D, 0x64),
     (0x1CF30, 0x1CF46, 0x64), (0x1D165, 0x1D169, 0x64), (0x1D16D, 0x1D172, 0x64),
     (0x1D173, 0x1D17A, 0x03), (0x1D17B, 0x1D182, 0x64), (0x1D185, 0x1D18B, 0x64),
     (0x1D1AA, 0x1D1AD, 0x64), (0x1D242, 0x1D244, 0x64), (0x1DA00, 0x1DA36, 0x64),
     (0x1DA3B, 0x1DA6C, 0x64), (0x1DA75, 0x1DA75, 0x64), (0x1DA84, 0x1DA84, 0x64),
     (0x1DA9B, 0x1DA9F, 0x64), (0x1DAA1, 0x1DAAF, 0x64), (0x1E000, 0x1E006, 0x64),
     (0x1E008, 0x1E018, 0x64), (0x1E01B, 0x1E021, 0x64), (0x1E023, 0x1E024, 0x64),
     (0x1E026, 0x1E02A, 0x64), (0x1E08F, 0x1E08F, 0x64), (0x1E130, 0x1E136, 0x64),
     (0x1E2AE, 0x1E2AE, 0x64), (0x1E2EC, 0x1E2EF, 0x64), (0x1E4EC, 0x1E4EF, 0x64),
     (0x1E5EE, 0x1E5EF, 0x64), (0x1E6E3, 0x1E6E3, 0x64), (0x1E6E6, 0x1E6E6, 0x64),
     (0x1E6EE, 0x1E6EF, 0x64), (0x1E6F5, 0x1E6F5, 0x64), (0x1E8D0, 0x1E8D6, 0x64),
     (0x1E944, 0x1E94A, 0x64), (0x1F004, 0x1F004, 0x10), (0x1F02C, 0x1F02F, 0x10),
     (0x1F094, 0x1F09F, 0x10), (0x1F0AF, 0x1F0B0, 0x10), (0x1F0C0, 0x1F0C0, 0x10),
     (0x1F0CF, 0x1F0D0, 0x10), (0x1F0F6, 0x1F0FF, 0x10), (0x1F170, 0x1F171, 0x10),
     (0x1F17E, 0x1F17F, 0x10), (0x1F18E, 0x1F18E, 0x10), (0x1F191, 0x1F19A, 0x10),
     (0x1F1AE, 0x1F1E5, 0x10), (0x1F1E6, 0x1F1FF, 0x06), (0x1F201, 0x1F20F, 0x10),
     (0x1F21A, 0x1F21A, 0x10), (0x1F22F, 0x1F22F, 0x10), (0x1F232, 0x1F23A, 0x10),
     (0x1F23C, 0x1F23F, 0x10), (0x1F249, 0x1F25F, 0x10), (0x1F266, 0x1F321, 0x10),
     (0x1F324, 0x1F393, 0x10), (0x1F396, 0x1F397, 0x10), (0x1F399, 0x1F39B, 0x10),
     (0x1F39E, 0x1F3F0, 0x10), (0x1F3F3, 0x1F3F5, 0x10), (0x1F3F7, 0x1F3FA, 0x10),
     (0x1F3FB, 0x1F3FF, 0x64), (0x1F400, 0x1F4FD, 0x10), (0x1F4FF, 0x1F53D, 0x10),
     (0x1F549, 0x1F54E, 0x10), (0x1F550, 0x1F567, 0x10), (0x1F56F, 0x1F570, 0x10),
     (0x1F573, 0x1F57A, 0x10), (0x1F587, 0x1F587, 0x10), (0x1F58A, 0x1F58D, 0x10),
     (0x1F590, 0x1F590, 0x10), (0x1F595, 0x1F596, 0x10), (0x1F5A4, 0x1F5A5, 0x10),
     (0x1F5A8, 0x1F5A8, 0x10), (0x1F5B1, 0x1F5B2, 0x10), (0x1F5BC, 0x1F5BC, 0x10),
     (0x1F5C2, 0x1F5C4, 0x10), (0x1F5D1, 0x1F5D3, 0x10), (0x1F5DC, 0x1F5DE, 0x10),
     (0x1F5E1, 0x1F5E1, 0x10), (0x1F5E3, 0x1F5E3, 0x10), (0x1F5E8, 0x1F5E8, 0x10),
     (0x1F5EF, 0x1F5EF, 0x10), (0x1F5F3, 0x1F5F3, 0x10), (0x1F5FA, 0x1F64F, 0x10),
     (0x1F680, 0x1F6C5, 0x10), (0x1F6CB, 0x1F6D2, 0x10), (0x1F6D5, 0x1F6E5, 0x10),
     (0x1F6E9, 0x1F6E9, 0x10), (0x1F6EB, 0x1F6F0, 0x10), (0x1F6F3, 0x1F6FF, 0x10),
     (0x1F7DA, 0x1F7FF, 0x10), (0x1F80C, 0x1F80F, 0x10), (0x1F848, 0x1F84F, 0x10),
     (0x1F85A, 0x1F85F, 0x10), (0x1F888, 0x1F88F, 0x10), (0x1F8AE, 0x1F8AF, 0x10),
     (0x1F8BC, 0x1F8BF, 0x10), (0x1F8C2, 0x1F8CF, 0x10), (0x1F8D9, 0x1F8FF, 0x10),
     (0x1F90C, 0x1F93A, 0x10), (0x1F93C, 0x1F945, 0x10), (0x1F947, 0x1F9FF, 0x10),
     (0x1FA58, 0x1FA5F, 0x10), (0x1FA6E, 0x1FAFF, 0x10), (0x1FC00, 0x1FFFD, 0x10),
     (0xE0000, 0xE001F, 0x03), (0xE0020, 0xE007F, 0x64), (0xE0080, 0xE00FF, 0x03),
     (0xE0100, 0xE01EF, 0x64), (0xE01F0, 0xE0FFF, 0x03)]"

definition CLUSTER_PROPS_RANGES :: "(nat \<times> nat \<times> u8) list" where
  "CLUSTER_PROPS_RANGES =
     cluster_ranges_0 @
     cluster_ranges_1 @
     cluster_ranges_2 @
     cluster_ranges_3 @
     cluster_ranges_4 @
     cluster_ranges_5 @
     cluster_ranges_6 @
     cluster_ranges_7 @
     cluster_ranges_8 @
     cluster_ranges_9 @
     cluster_ranges_10"

section \<open>Binary search\<close>

datatype ordering = Less | Equal | Greater

text \<open>\<open>slice::binary_search_by\<close>, \<open>Ok\<close> as \<open>Some\<close>.\<close>

function bsearch_loop :: "('a \<Rightarrow> ordering) \<Rightarrow> 'a list \<Rightarrow> nat \<Rightarrow> nat \<Rightarrow> nat option" where
  "bsearch_loop f xs lo hi =
     (if lo < hi then
        let mid = lo + (hi - lo) div 2
        in case f (xs ! mid) of
             Equal \<Rightarrow> Some mid
           | Less \<Rightarrow> bsearch_loop f xs (mid + 1) hi
           | Greater \<Rightarrow> bsearch_loop f xs lo mid
      else None)"
  by auto
termination
  by (relation "measure (\<lambda>(f, xs, lo, hi). hi - lo)") auto

declare bsearch_loop.simps [simp del]

definition binary_search_by :: "('a \<Rightarrow> ordering) \<Rightarrow> 'a list \<Rightarrow> nat option" where
  "binary_search_by f xs = bsearch_loop f xs 0 (length xs)"

definition range_order :: "nat \<Rightarrow> nat \<times> nat \<times> u8 \<Rightarrow> ordering" where
  "range_order cp r =
     (case r of (start, end, _) \<Rightarrow>
        if cp < start then Greater else if cp > end then Less else Equal)"

definition cluster_props :: "nat \<Rightarrow> cluster_props" where
  "cluster_props cp =
     (case binary_search_by (range_order cp) CLUSTER_PROPS_RANGES of
        Some i \<Rightarrow> unpack_props (snd (snd (CLUSTER_PROPS_RANGES ! i)))
      | None \<Rightarrow> CLUSTER_PROPS_DEFAULT)"

section \<open>The rows ascend\<close>

fun rows_within :: "nat \<Rightarrow> (nat \<times> nat \<times> u8) list \<Rightarrow> nat \<Rightarrow> bool" where
  "rows_within lo [] hi \<longleftrightarrow> lo \<le> hi"
| "rows_within lo ((s, e, b) # rs) hi \<longleftrightarrow> lo \<le> s \<and> s \<le> e \<and> rows_within (Suc e) rs hi"

lemma rows_within_mono: "rows_within b ys c \<Longrightarrow> a \<le> b \<Longrightarrow> rows_within a ys c"
  by (cases "(b, ys, c)" rule: rows_within.cases) auto

lemma rows_within_append:
  "rows_within a xs b \<Longrightarrow> rows_within b ys c \<Longrightarrow> rows_within a (xs @ ys) c"
proof (induction a xs b rule: rows_within.induct)
  case (1 lo hi)
  then show ?case using rows_within_mono [of hi ys c lo] by simp
qed simp

lemma rows_within_bounds: "rows_within lo rs hi \<Longrightarrow> r \<in> set rs \<Longrightarrow> lo \<le> fst r \<and> fst r \<le> fst (snd r)"
proof (induction lo rs hi rule: rows_within.induct)
  case (2 lo s e b rs hi)
  then show ?case by auto
qed simp

lemma rows_within_nth:
  "rows_within lo rs hi \<Longrightarrow> i < j \<Longrightarrow> j < length rs \<Longrightarrow> fst (snd (rs ! i)) < fst (rs ! j)"
proof (induction lo rs hi arbitrary: i j rule: rows_within.induct)
  case (2 lo s e b rs hi)
  show ?case
  proof (cases i)
    case 0
    then show ?thesis
      using 2 rows_within_bounds [of "Suc e" rs hi "rs ! (j - 1)"] by (cases j) auto
  next
    case (Suc k)
    then show ?thesis using 2 by (cases j) auto
  qed
qed simp

lemma rows_0: "rows_within 0 cluster_ranges_0 3269"
  by (simp add: cluster_ranges_0_def)

lemma rows_1: "rows_within 3269 cluster_ranges_1 7212"
  by (simp add: cluster_ranges_1_def)

lemma rows_2: "rows_within 7212 cluster_ranges_2 43575"
  by (simp add: cluster_ranges_2_def)

lemma rows_3: "rows_within 43575 cluster_ranges_3 45741"
  by (simp add: cluster_ranges_3_def)

lemma rows_4: "rows_within 45741 cluster_ranges_4 47841"
  by (simp add: cluster_ranges_4_def)

lemma rows_5: "rows_within 47841 cluster_ranges_5 49941"
  by (simp add: cluster_ranges_5_def)

lemma rows_6: "rows_within 49941 cluster_ranges_6 52041"
  by (simp add: cluster_ranges_6_def)

lemma rows_7: "rows_within 52041 cluster_ranges_7 54141"
  by (simp add: cluster_ranges_7_def)

lemma rows_8: "rows_within 54141 cluster_ranges_8 70461"
  by (simp add: cluster_ranges_8_def)

lemma rows_9: "rows_within 70461 cluster_ranges_9 73524"
  by (simp add: cluster_ranges_9_def)

lemma rows_10: "rows_within 73524 cluster_ranges_10 921600"
  by (simp add: cluster_ranges_10_def)

lemma table_ascends: "rows_within 0 CLUSTER_PROPS_RANGES 921600"
  unfolding CLUSTER_PROPS_RANGES_def
  by (rule rows_within_append [OF rows_0
      rows_within_append [OF rows_1
      rows_within_append [OF rows_2
      rows_within_append [OF rows_3
      rows_within_append [OF rows_4
      rows_within_append [OF rows_5
      rows_within_append [OF rows_6
      rows_within_append [OF rows_7
      rows_within_append [OF rows_8
      rows_within_append [OF rows_9 rows_10]]]]]]]]]])

section \<open>The lookup\<close>

lemma bsearch_loop_found:
  assumes "rows_within a rs b" "k < length rs" "fst (rs ! k) \<le> cp" "cp \<le> fst (snd (rs ! k))"
    "lo \<le> k" "k < hi" "hi \<le> length rs"
  shows "bsearch_loop (range_order cp) rs lo hi = Some k"
  using assms(5-7)
proof (induction "hi - lo" arbitrary: lo hi rule: less_induct)
  case less
  let ?m = "lo + (hi - lo) div 2"
  have m: "lo \<le> ?m" "?m < hi" using less.prems by auto
  obtain s e v where r: "rs ! ?m = (s, e, v)" by (cases "rs ! ?m")
  consider "?m = k" | "?m < k" | "k < ?m" by linarith
  then show ?case
  proof cases
    case 1
    then show ?thesis
      using r assms(3,4) less.prems by (subst bsearch_loop.simps) (simp add: range_order_def Let_def)
  next
    case 2
    then have "e < cp" using rows_within_nth [OF assms(1) 2 assms(2)] r assms(3) by simp
    moreover have "s \<le> e"
      using rows_within_bounds [OF assms(1) nth_mem [of ?m rs]] r m less.prems by simp
    moreover have "bsearch_loop (range_order cp) rs (?m + 1) hi = Some k"
      using 2 less.prems m by (intro less.hyps) auto
    ultimately show ?thesis
      using r less.prems by (subst bsearch_loop.simps) (simp add: range_order_def Let_def)
  next
    case 3
    then have "cp < s"
      using rows_within_nth [OF assms(1) 3] r assms(4) m less.prems by simp
    moreover have "bsearch_loop (range_order cp) rs lo ?m = Some k"
      using 3 less.prems m by (intro less.hyps) auto
    ultimately show ?thesis
      using r less.prems by (subst bsearch_loop.simps) (simp add: range_order_def Let_def)
  qed
qed

lemma bsearch_loop_sound:
  "bsearch_loop f rs lo hi = Some k \<Longrightarrow> lo \<le> k \<and> k < hi \<and> f (rs ! k) = Equal"
proof (induction f rs lo hi rule: bsearch_loop.induct)
  case (1 f rs lo hi)
  then show ?case
    by (subst (asm) (3) bsearch_loop.simps)
      (auto simp: Let_def split: if_splits ordering.splits)
qed

lemma cluster_props_row:
  assumes "(s, e, b) \<in> set CLUSTER_PROPS_RANGES" "s \<le> cp" "cp \<le> e"
  shows "cluster_props cp = unpack_props b"
proof -
  obtain k where k: "k < length CLUSTER_PROPS_RANGES" "CLUSTER_PROPS_RANGES ! k = (s, e, b)"
    using assms(1) by (auto simp: in_set_conv_nth)
  then have "binary_search_by (range_order cp) CLUSTER_PROPS_RANGES = Some k"
    unfolding binary_search_by_def
    using assms by (intro bsearch_loop_found [OF table_ascends]) auto
  then show ?thesis using k by (simp add: cluster_props_def)
qed

lemma cluster_props_none:
  assumes "\<forall>(s, e, b) \<in> set CLUSTER_PROPS_RANGES. \<not> (s \<le> cp \<and> cp \<le> e)"
  shows "cluster_props cp = CLUSTER_PROPS_DEFAULT"
proof -
  have "binary_search_by (range_order cp) CLUSTER_PROPS_RANGES = None"
  proof (rule ccontr)
    assume "binary_search_by (range_order cp) CLUSTER_PROPS_RANGES \<noteq> None"
    then obtain k where k: "bsearch_loop (range_order cp) CLUSTER_PROPS_RANGES 0 (length CLUSTER_PROPS_RANGES) = Some k"
      by (auto simp: binary_search_by_def)
    obtain s e b where r: "CLUSTER_PROPS_RANGES ! k = (s, e, b)" by (cases "CLUSTER_PROPS_RANGES ! k")
    then have "(s, e, b) \<in> set CLUSTER_PROPS_RANGES"
      using bsearch_loop_sound [OF k] by (metis nth_mem)
    then show False
      using assms bsearch_loop_sound [OF k] r by (auto simp: range_order_def split: if_splits)
  qed
  then show ?thesis by (simp add: cluster_props_def)
qed

lemma find_in_table: "find P xs = Some x \<Longrightarrow> x \<in> set xs \<and> P x"
  by (metis find_Some_iff nth_mem)

text \<open>
  The one-search lookup of the segmenter is the table.  For every code point, \<open>cluster_props\<close>
  returns the properties of the row that contains it, when one does, and the defaults
  otherwise; at most one row contains it, because the rows ascend and do not overlap.
\<close>
theorem cluster_props_correct:
  "cluster_props cp =
     (case find (\<lambda>(s, e, b). s \<le> cp \<and> cp \<le> e) CLUSTER_PROPS_RANGES of
        Some (s, e, b) \<Rightarrow> unpack_props b
      | None \<Rightarrow> CLUSTER_PROPS_DEFAULT)"
proof (cases "find (\<lambda>(s, e, b). s \<le> cp \<and> cp \<le> e) CLUSTER_PROPS_RANGES")
  case None
  then have "\<forall>(s, e, b) \<in> set CLUSTER_PROPS_RANGES. \<not> (s \<le> cp \<and> cp \<le> e)"
    by (auto simp: find_None_iff)
  then show ?thesis using None by (simp add: cluster_props_none)
next
  case (Some r)
  obtain s e b where r: "r = (s, e, b)" by (cases r)
  have "(s, e, b) \<in> set CLUSTER_PROPS_RANGES" "s \<le> cp" "cp \<le> e"
    using find_in_table [OF Some] r by auto
  then have "cluster_props cp = unpack_props b" by (rule cluster_props_row)
  then show ?thesis using Some r by simp
qed

end
