(* ===== verification/Widths.thy ===== *)
theory Widths
  imports Prelude
begin

text \<open>
  Display widths of single characters: the \<open>Emoji_Presentation\<close> bitmaps of
  \<open>emoji_presentation.rs\<close>, and \<open>char_width\<close> of \<open>grid.rs\<close> with its East Asian tables.  A
  \<open>matches!\<close> over ranges is the list of its ranges.  The ambiguous-width mode (an environment
  variable or a setting, read outside the terminal core) is an argument.
\<close>

section \<open>Range tables\<close>

definition in_ranges :: "nat \<Rightarrow> (nat \<times> nat) list \<Rightarrow> bool" where
  "in_ranges cp rs \<longleftrightarrow> list_ex (\<lambda>(lo, hi). lo \<le> cp \<and> cp \<le> hi) rs"

section \<open>Emoji presentation\<close>

definition EMOJI_PRESENTATION_RANGES :: "(nat \<times> nat) list" where
  "EMOJI_PRESENTATION_RANGES =
    [(0x231A, 0x231B), (0x23E9, 0x23EC), (0x23F0, 0x23F0), (0x23F3, 0x23F3),
     (0x25FD, 0x25FE), (0x2614, 0x2615), (0x2648, 0x2653), (0x267F, 0x267F),
     (0x2693, 0x2693), (0x26A1, 0x26A1), (0x26AA, 0x26AB), (0x26BD, 0x26BE),
     (0x26C4, 0x26C5), (0x26CE, 0x26CE), (0x26D4, 0x26D4), (0x26EA, 0x26EA),
     (0x26F2, 0x26F3), (0x26F5, 0x26F5), (0x26FA, 0x26FA), (0x26FD, 0x26FD),
     (0x2705, 0x2705), (0x270A, 0x270B), (0x2728, 0x2728), (0x274C, 0x274C),
     (0x274E, 0x274E), (0x2753, 0x2755), (0x2757, 0x2757), (0x2795, 0x2797),
     (0x27B0, 0x27B0), (0x27BF, 0x27BF), (0x2B1B, 0x2B1C), (0x2B50, 0x2B50),
     (0x2B55, 0x2B55), (0x1F004, 0x1F004), (0x1F0CF, 0x1F0CF), (0x1F18E, 0x1F18E),
     (0x1F191, 0x1F19A), (0x1F1E6, 0x1F1FF), (0x1F201, 0x1F201), (0x1F21A, 0x1F21A),
     (0x1F22F, 0x1F22F), (0x1F232, 0x1F236), (0x1F238, 0x1F23A), (0x1F250, 0x1F251),
     (0x1F300, 0x1F320), (0x1F32D, 0x1F335), (0x1F337, 0x1F37C), (0x1F37E, 0x1F393),
     (0x1F3A0, 0x1F3CA), (0x1F3CF, 0x1F3D3), (0x1F3E0, 0x1F3F0), (0x1F3F4, 0x1F3F4),
     (0x1F3F8, 0x1F43E), (0x1F440, 0x1F440), (0x1F442, 0x1F4FC), (0x1F4FF, 0x1F53D),
     (0x1F54B, 0x1F54E), (0x1F550, 0x1F567), (0x1F57A, 0x1F57A), (0x1F595, 0x1F596),
     (0x1F5A4, 0x1F5A4), (0x1F5FB, 0x1F64F), (0x1F680, 0x1F6C5), (0x1F6CC, 0x1F6CC),
     (0x1F6D0, 0x1F6D2), (0x1F6D5, 0x1F6D8), (0x1F6DC, 0x1F6DF), (0x1F6EB, 0x1F6EC),
     (0x1F6F4, 0x1F6FC), (0x1F7E0, 0x1F7EB), (0x1F7F0, 0x1F7F0), (0x1F90C, 0x1F93A),
     (0x1F93C, 0x1F945), (0x1F947, 0x1F9FF), (0x1FA70, 0x1FA7C), (0x1FA80, 0x1FA8A),
     (0x1FA8E, 0x1FAC6), (0x1FAC8, 0x1FAC8), (0x1FACD, 0x1FADC), (0x1FADF, 0x1FAEA),
     (0x1FAEF, 0x1FAF8)]"

abbreviation (input) BMP_LO :: nat where "BMP_LO \<equiv> 0x231A"
abbreviation (input) BMP_HI :: nat where "BMP_HI \<equiv> 0x2B55"
abbreviation (input) SMP_LO :: nat where "SMP_LO \<equiv> 0x1F004"
abbreviation (input) SMP_HI :: nat where "SMP_HI \<equiv> 0x1FAF8"

text \<open>The compile-time bitmap: \<open>set_bits\<close> is the inner loop, over the code points of a range.\<close>

definition set_bit_at :: "nat \<Rightarrow> nat \<Rightarrow> u8 list \<Rightarrow> u8 list" where
  "set_bit_at lo cp out =
     (let off = cp - lo in out[off div 8 := (out ! (off div 8)) OR push_bit (off mod 8) 1])"

definition bitmap :: "nat \<Rightarrow> nat \<Rightarrow> nat \<Rightarrow> u8 list" where
  "bitmap n lo hi =
     fold (\<lambda>(start, end) out.
             let cp = (if start < lo then lo else start); last = (if end > hi then hi else end)
             in fold (set_bit_at lo) [cp..<Suc last] out)
       EMOJI_PRESENTATION_RANGES (replicate n 0)"

definition BMP_BITS :: "u8 list" where
  "BMP_BITS = bitmap ((BMP_HI - BMP_LO) div 8 + 1) BMP_LO BMP_HI"

definition SMP_BITS :: "u8 list" where
  "SMP_BITS = bitmap ((SMP_HI - SMP_LO) div 8 + 1) SMP_LO SMP_HI"

definition bitmap_bit :: "u8 list \<Rightarrow> nat \<Rightarrow> nat \<Rightarrow> bool" where
  "bitmap_bit bits lo cp =
     (let off = cp - lo in (bits ! (off div 8)) AND push_bit (off mod 8) 1 \<noteq> 0)"

definition has_emoji_presentation :: "nat \<Rightarrow> bool" where
  "has_emoji_presentation cp =
     (if cp \<ge> SMP_LO then cp \<le> SMP_HI \<and> bitmap_bit SMP_BITS SMP_LO cp
      else BMP_LO \<le> cp \<and> cp \<le> BMP_HI \<and> bitmap_bit BMP_BITS BMP_LO cp)"

section \<open>Character widths\<close>

datatype ambiguous_wide = AmbOff | AmbCircled | AmbAll

definition is_enclosed_alphanumeric :: "nat \<Rightarrow> bool" where
  "is_enclosed_alphanumeric cp \<longleftrightarrow> in_ranges cp [(0x2460, 0x24FF), (0x2776, 0x2793)]"

definition AMBIGUOUS_RANGES :: "(nat \<times> nat) list" where
  "AMBIGUOUS_RANGES =
    [(0x00A1, 0x00A1), (0x00A4, 0x00A4), (0x00A7, 0x00A8), (0x00AA, 0x00AA),
     (0x00AD, 0x00AE), (0x00B0, 0x00B4), (0x00B6, 0x00BA), (0x00BC, 0x00BF),
     (0x00C6, 0x00C6), (0x00D0, 0x00D0), (0x00D7, 0x00D8), (0x00DE, 0x00E1),
     (0x00E6, 0x00E6), (0x00E8, 0x00EA), (0x00EC, 0x00ED), (0x00F0, 0x00F0),
     (0x00F2, 0x00F3), (0x00F7, 0x00FA), (0x00FC, 0x00FC), (0x00FE, 0x00FE),
     (0x0101, 0x0101), (0x0111, 0x0111), (0x0113, 0x0113), (0x011B, 0x011B),
     (0x0126, 0x0127), (0x012B, 0x012B), (0x0131, 0x0133), (0x0138, 0x0138),
     (0x013F, 0x0142), (0x0144, 0x0144), (0x0148, 0x014B), (0x014D, 0x014D),
     (0x0152, 0x0153), (0x0166, 0x0167), (0x016B, 0x016B), (0x01CE, 0x01CE),
     (0x01D0, 0x01D0), (0x01D2, 0x01D2), (0x01D4, 0x01D4), (0x01D6, 0x01D6),
     (0x01D8, 0x01D8), (0x01DA, 0x01DA), (0x01DC, 0x01DC), (0x0251, 0x0251),
     (0x0261, 0x0261), (0x02C4, 0x02C4), (0x02C7, 0x02C7), (0x02C9, 0x02CB),
     (0x02CD, 0x02CD), (0x02D0, 0x02D0), (0x02D8, 0x02DB), (0x02DD, 0x02DD),
     (0x02DF, 0x02DF), (0x2010, 0x2010), (0x2013, 0x2016), (0x2018, 0x2019),
     (0x201C, 0x201D), (0x2020, 0x2022), (0x2024, 0x2027), (0x2030, 0x2030),
     (0x2032, 0x2033), (0x2035, 0x2035), (0x203B, 0x203B), (0x203E, 0x203E),
     (0x2074, 0x2074), (0x207F, 0x207F), (0x2081, 0x2084), (0x20AC, 0x20AC),
     (0x2103, 0x2103), (0x2105, 0x2105), (0x2109, 0x2109), (0x2113, 0x2113),
     (0x2116, 0x2116), (0x2121, 0x2122), (0x2126, 0x2126), (0x212B, 0x212B),
     (0x2153, 0x2154), (0x215B, 0x215E), (0x2160, 0x216B), (0x2170, 0x2179),
     (0x2189, 0x2189), (0x2190, 0x2199), (0x21B8, 0x21B9), (0x21D2, 0x21D2),
     (0x21D4, 0x21D4), (0x21E7, 0x21E7), (0x2200, 0x2200), (0x2202, 0x2203),
     (0x2207, 0x2208), (0x220B, 0x220B), (0x220F, 0x220F), (0x2211, 0x2211),
     (0x2215, 0x2215), (0x221A, 0x221A), (0x221D, 0x2220), (0x2223, 0x2223),
     (0x2225, 0x2225), (0x2227, 0x222C), (0x222E, 0x222E), (0x2234, 0x2237),
     (0x223C, 0x223D), (0x2248, 0x2248), (0x224C, 0x224C), (0x2252, 0x2252),
     (0x2260, 0x2261), (0x2264, 0x2267), (0x226A, 0x226B), (0x226E, 0x226F),
     (0x2282, 0x2283), (0x2286, 0x2287), (0x2295, 0x2295), (0x2299, 0x2299),
     (0x22A5, 0x22A5), (0x22BF, 0x22BF), (0x2312, 0x2312), (0x2460, 0x24E9),
     (0x24EB, 0x24FF), (0x25A0, 0x25A1), (0x25A3, 0x25A9), (0x25B2, 0x25B3),
     (0x25B6, 0x25B7), (0x25BC, 0x25BD), (0x25C0, 0x25C1), (0x25C6, 0x25C8),
     (0x25CB, 0x25CB), (0x25CE, 0x25D1), (0x25E2, 0x25E5), (0x25EF, 0x25EF),
     (0x2605, 0x2606), (0x2609, 0x2609), (0x260E, 0x260F), (0x2614, 0x2615),
     (0x261C, 0x261C), (0x261E, 0x261E), (0x2640, 0x2640), (0x2642, 0x2642),
     (0x2660, 0x2661), (0x2663, 0x2665), (0x2667, 0x266A), (0x266C, 0x266D),
     (0x266F, 0x266F), (0x269E, 0x269F), (0x26BE, 0x26BF), (0x26C4, 0x26CD),
     (0x26CF, 0x26E1), (0x26E3, 0x26E3), (0x26E8, 0x26FF), (0x273D, 0x273D),
     (0x2776, 0x277F), (0x2B56, 0x2B59), (0x3248, 0x324F), (0xE000, 0xF8FF),
     (0xFFFD, 0xFFFD), (0x1F100, 0x1F10A), (0x1F110, 0x1F12D), (0x1F130, 0x1F169),
     (0x1F170, 0x1F18D), (0x1F18F, 0x1F190), (0x1F19B, 0x1F1AC)]"

definition is_ambiguous_width :: "uchar \<Rightarrow> bool" where
  "is_ambiguous_width c \<longleftrightarrow> in_ranges c AMBIGUOUS_RANGES"

definition EAST_ASIAN_WIDE_RANGES :: "(nat \<times> nat) list" where
  "EAST_ASIAN_WIDE_RANGES =
    [(0x1100, 0x115F), (0x2E80, 0x303E), (0x3041, 0x33FF), (0x3400, 0x4DBF),
     (0x4E00, 0x9FFF), (0xA000, 0xA4CF), (0xAC00, 0xD7A3), (0xF900, 0xFAFF),
     (0xFE30, 0xFE4F), (0xFF00, 0xFF60), (0xFFE0, 0xFFE6), (0x20000, 0x2FFFD),
     (0x30000, 0x3FFFD)]"

definition char_width :: "ambiguous_wide \<Rightarrow> uchar \<Rightarrow> nat" where
  "char_width mode c =
     (if c = 0 then 0
      else
        let east_asian_wide = in_ranges c EAST_ASIAN_WIDE_RANGES;
            ambiguous_wide =
              (case mode of
                 AmbOff \<Rightarrow> False
               | AmbCircled \<Rightarrow> is_enclosed_alphanumeric c
               | AmbAll \<Rightarrow> is_ambiguous_width c \<or> is_enclosed_alphanumeric c)
        in if east_asian_wide \<or> ambiguous_wide \<or> has_emoji_presentation c then 2 else 1)"

section \<open>The bitmaps decide the ranges\<close>

definition map_bit :: "u8 list \<Rightarrow> nat \<Rightarrow> bool" where
  "map_bit bits off \<longleftrightarrow> off div 8 < length bits \<and> bit (bits ! (off div 8)) (off mod 8)"

lemma and_push_bit_1: "n < 8 \<Longrightarrow> (w AND push_bit n 1 \<noteq> 0) \<longleftrightarrow> bit (w :: u8) n"
  by (metis and_exp_eq_0_iff_not_bit push_bit_of_1)

lemma div_mod_eq_iff: "x div 8 = y div 8 \<Longrightarrow> x mod 8 = y mod 8 \<Longrightarrow> x = (y :: nat)"
  by (metis div_mult_mod_eq)

lemma map_bit_set:
  "(cp - lo) div 8 < length out \<Longrightarrow>
   map_bit (set_bit_at lo cp out) off \<longleftrightarrow> map_bit out off \<or> off = cp - lo"
  by (auto simp: map_bit_def set_bit_at_def Let_def nth_list_update bit_simps dest: div_mod_eq_iff)

lemma length_set_bit_at [simp]: "length (set_bit_at lo cp out) = length out"
  by (simp add: set_bit_at_def Let_def)

lemma fold_set_bit_at:
  "\<forall>cp \<in> set cps. (cp - lo) div 8 < length out \<Longrightarrow>
   length (fold (set_bit_at lo) cps out) = length out \<and>
   (map_bit (fold (set_bit_at lo) cps out) off \<longleftrightarrow> map_bit out off \<or> (\<exists>cp \<in> set cps. off = cp - lo))"
proof (induction cps arbitrary: out)
  case Nil
  then show ?case by simp
next
  case (Cons cp cps)
  then show ?case using Cons.IH [of "set_bit_at lo cp out"] by (auto simp: map_bit_set)
qed

lemma fold_ranges:
  assumes "lo \<le> hi" "length out = (hi - lo) div 8 + 1" "off \<le> hi - lo"
  shows "map_bit (fold (\<lambda>(start, end) out.
             let cp = (if start < lo then lo else start); last = (if end > hi then hi else end)
             in fold (set_bit_at lo) [cp..<Suc last] out) rs out) off \<longleftrightarrow>
         map_bit out off \<or> in_ranges (lo + off) rs"
    (is "map_bit (fold ?F rs out) off \<longleftrightarrow> _")
  using assms(2)
proof (induction rs arbitrary: out)
  case Nil
  then show ?case by (simp add: in_ranges_def)
next
  case (Cons r rs)
  obtain s e where r: "r = (s, e)" by (cases r)
  define a b where "a = (if s < lo then lo else s)" and "b = (if e > hi then hi else e)"
  let ?cps = "[a..<Suc b]"
  have ab: "lo \<le> a" "b \<le> hi" "a \<le> lo + off \<longleftrightarrow> s \<le> lo + off" "lo + off \<le> b \<longleftrightarrow> lo + off \<le> e"
    using assms by (auto simp: a_def b_def)
  have "\<forall>cp \<in> set ?cps. (cp - lo) div 8 < length out"
  proof
    fix cp assume "cp \<in> set ?cps"
    then have "cp - lo \<le> hi - lo" using ab by auto
    then show "(cp - lo) div 8 < length out" using Cons.prems by (simp add: div_le_mono less_Suc_eq_le)
  qed
  note f = fold_set_bit_at [OF this]
  have "(\<exists>cp \<in> set ?cps. off = cp - lo) \<longleftrightarrow> lo + off \<in> {a..b}"
  proof
    assume "\<exists>cp \<in> set ?cps. off = cp - lo"
    then obtain cp where "a \<le> cp" "cp \<le> b" "off = cp - lo" by auto
    moreover from this ab(1) have "lo + off = cp" by simp
    ultimately show "lo + off \<in> {a..b}" by simp
  next
    assume "lo + off \<in> {a..b}"
    then show "\<exists>cp \<in> set ?cps. off = cp - lo" by (intro bexI [of _ "lo + off"]) auto
  qed
  also have "\<dots> \<longleftrightarrow> s \<le> lo + off \<and> lo + off \<le> e" by (simp add: ab)
  finally
have b: "(\<exists>cp \<in> set ?cps. off = cp - lo) \<longleftrightarrow> s \<le> lo + off \<and> lo + off \<le> e" .
  have "fold ?F (r # rs) out = fold ?F rs (fold (set_bit_at lo) ?cps out)"
    by (simp add: r Let_def a_def b_def del: upt_Suc)
  moreover have "map_bit (fold ?F rs (fold (set_bit_at lo) ?cps out)) off \<longleftrightarrow>
      map_bit (fold (set_bit_at lo) ?cps out) off \<or> in_ranges (lo + off) rs"
    using f [of off] Cons.prems by (intro Cons.IH) simp
  moreover have "in_ranges (lo + off) (r # rs) \<longleftrightarrow>
      (s \<le> lo + off \<and> lo + off \<le> e) \<or> in_ranges (lo + off) rs"
    by (simp add: in_ranges_def r)
  ultimately show ?case using f [of off] b by simp
qed

lemma bitmap_bit_ranges:
  assumes "lo \<le> cp" "cp \<le> hi" "n = (hi - lo) div 8 + 1"
  shows "bitmap_bit (bitmap n lo hi) lo cp \<longleftrightarrow> in_ranges cp EMOJI_PRESENTATION_RANGES"
proof -
  have len: "length (bitmap n lo hi) = n"
  proof -
    have "length (fold (\<lambda>(start, end) out.
             let cp = (if start < lo then lo else start); last = (if end > hi then hi else end)
             in fold (set_bit_at lo) [cp..<Suc last] out) rs out) = length (out :: u8 list)" for rs out
    proof (induction rs arbitrary: out)
      case (Cons r rs)
      have "length (fold (set_bit_at lo) cps out) = length (out :: u8 list)" for cps out
        by (induction cps arbitrary: out) auto
      then show ?case using Cons by (cases r) (simp add: Let_def)
    qed simp
    then show ?thesis by (simp add: bitmap_def)
  qed
  have "(cp - lo) div 8 < n" using assms by (simp add: div_le_mono less_Suc_eq_le)
  then have "bitmap_bit (bitmap n lo hi) lo cp \<longleftrightarrow> map_bit (bitmap n lo hi) (cp - lo)"
    unfolding bitmap_bit_def map_bit_def Let_def len by (subst and_push_bit_1) simp_all
  also have "\<dots> \<longleftrightarrow> in_ranges cp EMOJI_PRESENTATION_RANGES"
    using fold_ranges [of lo hi "replicate n 0" "cp - lo" EMOJI_PRESENTATION_RANGES] assms
    by (simp add: bitmap_def map_bit_def del: upt_Suc replicate_Suc)
  finally show ?thesis .
qed

lemma emoji_ranges: "has_emoji_presentation cp \<longleftrightarrow> in_ranges cp EMOJI_PRESENTATION_RANGES"
proof -
  have spans: "list_all (\<lambda>(s, e). (BMP_LO \<le> s \<and> e \<le> BMP_HI) \<or> (SMP_LO \<le> s \<and> e \<le> SMP_HI))
      EMOJI_PRESENTATION_RANGES"
    by (simp add: EMOJI_PRESENTATION_RANGES_def)
  then have "in_ranges cp EMOJI_PRESENTATION_RANGES \<Longrightarrow>
      (BMP_LO \<le> cp \<and> cp \<le> BMP_HI) \<or> (SMP_LO \<le> cp \<and> cp \<le> SMP_HI)"
    by (force simp: in_ranges_def list_ex_iff list_all_iff)
  then show ?thesis
    by (auto simp: has_emoji_presentation_def SMP_BITS_def BMP_BITS_def bitmap_bit_ranges)
qed

text \<open>
  The bitmaps answer exactly what the table of ranges says, for every code point: no range
  of the table leaves the two spans the bitmaps cover.
\<close>
theorem emoji_bitmap_correct:
  "has_emoji_presentation cp \<longleftrightarrow> in_ranges cp EMOJI_PRESENTATION_RANGES"
  by (rule emoji_ranges)

section \<open>Monotonicity in the mode\<close>

text \<open>The modes from narrow to wide.\<close>

fun amb_rank :: "ambiguous_wide \<Rightarrow> nat" where
  "amb_rank AmbOff = 0"
| "amb_rank AmbCircled = 1"
| "amb_rank AmbAll = 2"

lemma amb_rank_inj: "amb_rank x = amb_rank y \<Longrightarrow> x = y"
  by (cases x; cases y) simp_all

instantiation ambiguous_wide :: linorder
begin

definition less_eq_ambiguous_wide :: "ambiguous_wide \<Rightarrow> ambiguous_wide \<Rightarrow> bool" where
  "less_eq_ambiguous_wide m n \<longleftrightarrow> amb_rank m \<le> amb_rank n"

definition less_ambiguous_wide :: "ambiguous_wide \<Rightarrow> ambiguous_wide \<Rightarrow> bool" where
  "less_ambiguous_wide m n \<longleftrightarrow> amb_rank m < amb_rank n"

instance
proof
  fix x y z :: ambiguous_wide
  show "(x < y) = (x \<le> y \<and> \<not> y \<le> x)" "x \<le> x" "x \<le> y \<or> y \<le> x"
    "x \<le> y \<Longrightarrow> y \<le> z \<Longrightarrow> x \<le> z" "x \<le> y \<Longrightarrow> y \<le> x \<Longrightarrow> x = y"
    unfolding less_eq_ambiguous_wide_def less_ambiguous_wide_def
    by (simp_all add: less_le_not_le linear amb_rank_inj)
qed

end

lemma no_box:
  "list_all (\<lambda>(s, e). e < 0x2500 \<or> 0x259F < s) rs \<Longrightarrow> \<not> in_ranges (0x2500 + k mod 0xA0) rs"
proof (induction rs)
  case (Cons r rs)
  have "k mod 0xA0 < 0xA0" by simp
  then show ?case using Cons by (cases r) (auto simp: in_ranges_def)
qed (simp add: in_ranges_def)

lemma box_tables:
  "list_all (\<lambda>(s, e). e < 0x2500 \<or> 0x259F < s) EAST_ASIAN_WIDE_RANGES"
  "list_all (\<lambda>(s, e). e < 0x2500 \<or> 0x259F < s) AMBIGUOUS_RANGES"
  "list_all (\<lambda>(s, e). e < 0x2500 \<or> 0x259F < s) EMOJI_PRESENTATION_RANGES"
  by (simp_all add: EAST_ASIAN_WIDE_RANGES_def AMBIGUOUS_RANGES_def EMOJI_PRESENTATION_RANGES_def)

lemma char_width_le: "char_width m c \<le> 2"
  by (simp add: char_width_def Let_def)

text \<open>
  A wider ambiguous mode never narrows a character, and changes only what it names: the
  width is 0 for NUL and 1 or 2 otherwise, it is monotone in the mode (\<open>Off\<close>, \<open>Circled\<close>,
  \<open>All\<close>), \<open>Circled\<close> differs from \<open>Off\<close> on enclosed alphanumerics only, and box drawing and
  block elements (U+2500 to U+259F) are one column in every mode.
\<close>
theorem char_width_modes:
  "mono (\<lambda>m. char_width m c) \<and> (char_width m c = 0 \<longleftrightarrow> c = 0) \<and> char_width m c \<le> 2 \<and>
   (is_enclosed_alphanumeric c \<or> char_width AmbCircled c = char_width AmbOff c) \<and>
   char_width m (0x2500 + k mod 0xA0) = 1"
proof -
  have "mono (\<lambda>m. char_width m c)"
    by (rule monoI)
      (auto simp: char_width_def Let_def less_eq_ambiguous_wide_def split: ambiguous_wide.splits)
  moreover have "char_width m (0x2500 + k mod 0xA0) = 1"
  proof -
    let ?c = "0x2500 + k mod 0xA0"
    note n = no_box [of EAST_ASIAN_WIDE_RANGES k] no_box [of AMBIGUOUS_RANGES k]
      no_box [of EMOJI_PRESENTATION_RANGES k] no_box [of "[(0x2460, 0x24FF), (0x2776, 0x2793)]" k]
    show ?thesis
      unfolding char_width_def Let_def is_ambiguous_width_def is_enclosed_alphanumeric_def emoji_ranges
      using n box_tables by (simp split: ambiguous_wide.split)
  qed
  ultimately show ?thesis
    using char_width_le [of m c] by (auto simp: char_width_def Let_def)
qed

end
