(* ===== verification/Grapheme.thy ===== *)
theory Grapheme
  imports UnicodeData Widths
begin

text \<open>
  UAX #29 extended grapheme clusters, \<open>crates/marspot-term/src/grapheme.rs\<close>: the boundary
  rules over the run state, the streaming cursor the terminal uses, the iterator over a
  string, and cluster widths.  A \<open>&str\<close> is the list of its characters, so byte offsets
  do not appear.
\<close>

section \<open>Boundary rules\<close>

record cluster_state =
  in_emoji_run :: bool
  after_emoji_zwj :: bool
  after_indic_linker :: bool
  after_indic_consonant :: bool
  ri_count :: nat

definition cluster_state_default :: cluster_state where
  "cluster_state_default =
     \<lparr>in_emoji_run = False, after_emoji_zwj = False, after_indic_linker = False,
      after_indic_consonant = False, ri_count = 0\<rparr>"

definition decide_break :: "cluster_props \<Rightarrow> cluster_props \<Rightarrow> cluster_state \<Rightarrow> bool" where
  "decide_break pp np state =
     (let p = gbp_of pp; n = gbp_of np
      in if p = GBCR \<and> n = GBLF then False
         else if p \<in> {GBControl, GBCR, GBLF} then True
         else if n \<in> {GBControl, GBCR, GBLF} then True
         else if p = GBL \<and> n \<in> {GBL, GBV, GBLV, GBLVT} then False
         else if p \<in> {GBLV, GBV} \<and> n \<in> {GBV, GBT} then False
         else if p \<in> {GBLVT, GBT} \<and> n = GBT then False
         else if n \<in> {GBExtend, GBZWJ} then False
         else if n = GBSpacingMark then False
         else if p = GBPrepend then False
         else if after_indic_linker state \<and> incb_of np = IncbConsonant then False
         else if after_emoji_zwj state \<and> pict np then False
         else if p = GBRegionalIndicator \<and> n = GBRegionalIndicator then even (ri_count state)
         else True)"

definition update_emoji :: "cluster_props \<Rightarrow> cluster_state \<Rightarrow> cluster_state" where
  "update_emoji np state =
     (if pict np then state\<lparr>in_emoji_run := True, after_emoji_zwj := False\<rparr>
      else if in_emoji_run state \<and> gbp_of np = GBExtend then state
      else if in_emoji_run state \<and> gbp_of np = GBZWJ then state\<lparr>after_emoji_zwj := True\<rparr>
      else state\<lparr>in_emoji_run := False, after_emoji_zwj := False\<rparr>)"

definition update_indic :: "cluster_props \<Rightarrow> cluster_state \<Rightarrow> cluster_state" where
  "update_indic np state =
     (case incb_of np of
        IncbConsonant \<Rightarrow> state\<lparr>after_indic_consonant := True, after_indic_linker := False\<rparr>
      | IncbLinker \<Rightarrow>
          (if after_indic_consonant state \<or> after_indic_linker state
           then state\<lparr>after_indic_linker := True\<rparr> else state)
      | IncbExtend \<Rightarrow> state
      | IncbNone \<Rightarrow> state\<lparr>after_indic_consonant := False, after_indic_linker := False\<rparr>)"

definition update_state_with :: "cluster_props \<Rightarrow> cluster_state \<Rightarrow> cluster_state" where
  "update_state_with np state =
     (let state = update_indic np (update_emoji np state)
      in state\<lparr>ri_count := (if gbp_of np = GBRegionalIndicator then ri_count state + 1 else 0)\<rparr>)"

definition is_break :: "cluster_props \<Rightarrow> cluster_props \<Rightarrow> cluster_state \<Rightarrow> bool \<times> cluster_state" where
  "is_break p n state =
     (let decision = decide_break p n state
      in (decision, update_state_with n (if decision then cluster_state_default else state)))"

section \<open>The streaming cursor\<close>

record grapheme_cursor =
  gc_prev :: "cluster_props option"
  gc_state :: cluster_state

definition cursor_new :: grapheme_cursor where
  "cursor_new = \<lparr>gc_prev = None, gc_state = cluster_state_default\<rparr>"

definition cursor_reset :: "grapheme_cursor \<Rightarrow> grapheme_cursor" where
  "cursor_reset g = \<lparr>gc_prev = None, gc_state = cluster_state_default\<rparr>"

definition cursor_step :: "uchar \<Rightarrow> grapheme_cursor \<Rightarrow> bool \<times> grapheme_cursor" where
  "cursor_step c g =
     (let cp = cluster_props c;
          (break_here, state) =
            (case gc_prev g of
               None \<Rightarrow> (True, gc_state g)
             | Some prev \<Rightarrow>
                 let decision = decide_break prev cp (gc_state g)
                 in (decision, if decision then cluster_state_default else gc_state g))
      in (break_here, \<lparr>gc_prev = Some cp, gc_state = update_state_with cp state\<rparr>))"

section \<open>The iterator\<close>

text \<open>The loop of \<open>GraphemeIter::next\<close> over the characters after the first: the rest of the
  cluster and what remains of the string.\<close>

fun cluster_loop :: "cluster_props \<Rightarrow> cluster_state \<Rightarrow> ustring \<Rightarrow> ustring \<times> ustring" where
  "cluster_loop prev state [] = ([], [])"
| "cluster_loop prev state (c # cs) =
     (let cp = cluster_props c; (decision, state) = is_break prev cp state
      in if decision then ([], c # cs)
         else let (cl, rest) = cluster_loop cp state cs in (c # cl, rest))"

lemma cluster_loop_append: "cluster_loop prev st cs = (cl, rest) \<Longrightarrow> cl @ rest = cs"
  by (induction prev st cs arbitrary: cl rest rule: cluster_loop.induct)
    (auto simp: Let_def split: prod.splits if_splits)

definition grapheme_next :: "ustring \<Rightarrow> (ustring \<times> ustring) option" where
  "grapheme_next s =
     (case s of
        [] \<Rightarrow> None
      | first # cs \<Rightarrow>
          let prev = cluster_props first;
              (cl, rest) = cluster_loop prev (update_state_with prev cluster_state_default) cs
          in Some (first # cl, rest))"

lemma grapheme_next_append: "grapheme_next s = Some (cl, rest) \<Longrightarrow> cl @ rest = s \<and> cl \<noteq> []"
  by (auto simp: grapheme_next_def Let_def split: list.splits prod.splits dest: cluster_loop_append)

function graphemes :: "ustring \<Rightarrow> ustring list" where
  "graphemes s = (case grapheme_next s of None \<Rightarrow> [] | Some (cl, rest) \<Rightarrow> cl # graphemes rest)"
  by auto
termination
  by (relation "measure length") (auto dest!: grapheme_next_append)

declare graphemes.simps [simp del]

section \<open>Widths\<close>

definition cp_visual_width :: "ambiguous_wide \<Rightarrow> uchar \<Rightarrow> nat" where
  "cp_visual_width amb c =
     (let g = gbp_of (cluster_props c)
      in if g \<in> {GBControl, GBCR, GBLF, GBExtend, GBZWJ} then 0
         else if g \<in> {GBSpacingMark, GBPrepend} then 1
         else char_width amb c)"

definition cluster_width :: "ambiguous_wide \<Rightarrow> ustring \<Rightarrow> nat" where
  "cluster_width amb cluster =
     (let max_w = fold (\<lambda>c w. if cp_visual_width amb c > w then cp_visual_width amb c else w) cluster 0;
          has_vs16 = list_ex (\<lambda>c. c = 0xFE0F) cluster;
          has_vs15 = list_ex (\<lambda>c. c = 0xFE0E) cluster
      in if has_vs16 then 2 else if has_vs15 then 1 else max_w)"

lemma cp_visual_width_le: "cp_visual_width amb c \<le> 2"
  using char_width_le [of amb c] by (simp add: cp_visual_width_def Let_def)

lemma cluster_width_le: "cluster_width amb cl \<le> 2"
proof -
  have "fold (\<lambda>c w. if cp_visual_width amb c > w then cp_visual_width amb c else w) cs w \<le> 2"
    if "w \<le> 2" for cs w
    using that by (induction cs arbitrary: w) (auto simp: cp_visual_width_le)
  then show ?thesis by (simp add: cluster_width_def Let_def)
qed

section \<open>Cursor and iterator agree\<close>
text \<open>With an accumulator: the cluster being built and the rest of the string.\<close>

fun stream_clusters :: "grapheme_cursor \<Rightarrow> ustring \<Rightarrow> ustring \<Rightarrow> ustring list" where
  "stream_clusters g buf [] = (if buf = [] then [] else [buf])"
| "stream_clusters g buf (c # cs) =
     (let (b, g') = cursor_step c g
      in if b then (if buf = [] then [] else [buf]) @ stream_clusters g' [c] cs
         else stream_clusters g' (buf @ [c]) cs)"

lemma graphemes_Nil [simp]: "graphemes [] = []"
  by (subst graphemes.simps) (simp add: grapheme_next_def)

lemma graphemes_Cons:
  "graphemes (c # cs) =
     (let (cl, rest) = cluster_loop (cluster_props c)
                         (update_state_with (cluster_props c) cluster_state_default) cs
      in (c # cl) # graphemes rest)"
  by (subst graphemes.simps) (simp add: grapheme_next_def Let_def split: prod.split)

lemma stream_clusters_loop:
  "buf \<noteq> [] \<Longrightarrow>
   stream_clusters \<lparr>gc_prev = Some prev, gc_state = st\<rparr> buf cs =
     (let (cl, rest) = cluster_loop prev st cs in (buf @ cl) # graphemes rest)"
proof (induction cs arbitrary: prev st buf)
  case Nil
  then show ?case by simp
next
  case (Cons c cs)
  show ?case
  proof (cases "decide_break prev (cluster_props c) st")
    case True
    then show ?thesis
      using Cons by (simp add: cursor_step_def is_break_def Let_def graphemes_Cons split: prod.split)
  next
    case False
    then show ?thesis
      using Cons by (simp add: cursor_step_def is_break_def Let_def split: prod.split)
  qed
qed

text \<open>
  C36: the streaming segmenter and the string iterator are the same segmentation, and it loses
  nothing.  Buffering characters until the cursor reports a boundary, as the terminal does,
  yields for every string exactly the clusters \<open>graphemes\<close> yields for the whole string; they
  concatenate to the string and none is empty.
\<close>
theorem grapheme_stream:
  "stream_clusters cursor_new [] s = graphemes s \<and> concat (graphemes s) = s \<and> [] \<notin> set (graphemes s)"
proof -
  have "stream_clusters cursor_new [] s = graphemes s"
    by (cases s)
      (simp_all add: cursor_new_def cursor_step_def stream_clusters_loop graphemes_Cons Let_def)
  moreover have "concat (graphemes s) = s \<and> [] \<notin> set (graphemes s)"
  proof (induction s rule: graphemes.induct)
    case (1 s)
    show ?case
    proof (cases "grapheme_next s")
      case None
      then have "s = []" by (auto simp: grapheme_next_def Let_def split: list.splits prod.splits)
      then show ?thesis by simp
    next
      case (Some r)
      obtain cl rest where r: "r = (cl, rest)" by (cases r)
      then have "concat (graphemes rest) = rest \<and> [] \<notin> set (graphemes rest)"
        using 1 Some by blast
      then show ?thesis
        using grapheme_next_append [of s cl rest] Some r
        by (subst (1 2) graphemes.simps) auto
    qed
  qed
  ultimately show ?thesis by blast
qed

section \<open>What the run state remembers\<close>

definition run_state :: "cluster_props list \<Rightarrow> cluster_state" where
  "run_state ps = fold update_state_with ps cluster_state_default"

lemma run_state_snoc: "run_state (ps @ [p]) = update_state_with p (run_state ps)"
  by (simp add: run_state_def)

lemma run_state_Nil: "run_state [] = cluster_state_default"
  by (simp add: run_state_def)

lemma update_fields [simp]:
  "in_emoji_run (update_state_with p st) = in_emoji_run (update_emoji p st)"
  "after_emoji_zwj (update_state_with p st) = after_emoji_zwj (update_emoji p st)"
  "after_indic_linker (update_state_with p st) = after_indic_linker (update_indic p st)"
  "after_indic_consonant (update_state_with p st) = after_indic_consonant (update_indic p st)"
  by (simp_all add: update_state_with_def update_indic_def update_emoji_def Let_def split: incb.split)

text \<open>
  The left contexts of the rules GB9c and GB11: an opening element, then elements of the middle
  only, at least one of them (when \<open>f\<close> asks for it) marked.
\<close>

definition left_context :: "('p \<Rightarrow> bool) \<Rightarrow> ('p \<Rightarrow> bool) \<Rightarrow> ('p \<Rightarrow> bool) \<Rightarrow> bool \<Rightarrow> 'p list \<Rightarrow> bool" where
  "left_context opening middle marked f ps \<longleftrightarrow>
     (\<exists>xs c ys. ps = xs @ c # ys \<and> opening c \<and> (\<forall>y \<in> set ys. middle y) \<and>
        (f \<longrightarrow> (\<exists>y \<in> set ys. marked y)))"

abbreviation indic_context :: "bool \<Rightarrow> cluster_props list \<Rightarrow> bool" where
  "indic_context \<equiv> left_context (\<lambda>c. incb_of c = IncbConsonant)
     (\<lambda>y. incb_of y \<in> {IncbLinker, IncbExtend}) (\<lambda>y. incb_of y = IncbLinker)"

abbreviation emoji_context :: "bool \<Rightarrow> cluster_props list \<Rightarrow> bool" where
  "emoji_context \<equiv> left_context pict
     (\<lambda>y. \<not> pict y \<and> gbp_of y \<in> {GBExtend, GBZWJ}) (\<lambda>y. gbp_of y = GBZWJ)"

lemma left_context_Nil: "\<not> left_context C Y Z f []"
  by (simp add: left_context_def)

lemma left_context_snoc:
  "left_context C Y Z f (ps @ [p]) \<longleftrightarrow> (C p \<and> \<not> f) \<or> (Y p \<and> left_context C Y Z (f \<and> \<not> Z p) ps)"
    (is "?l \<longleftrightarrow> ?r")
proof
  assume ?l
  then obtain xs c ys where *: "ps @ [p] = xs @ c # ys" "C c" "\<forall>y \<in> set ys. Y y"
    "f \<longrightarrow> (\<exists>y \<in> set ys. Z y)"
    unfolding left_context_def by blast
  show ?r
  proof (cases ys rule: rev_cases)
    case Nil
    then show ?thesis using * by simp
  next
    case (snoc zs z)
    then have "ps = xs @ c # zs" "z = p" using *(1) by auto
    then show ?thesis
      using * snoc unfolding left_context_def by (intro disjI2 conjI exI [of _ xs] exI [of _ c] exI [of _ zs]) auto
  qed
next
  assume ?r
  then show ?l
  proof (elim disjE conjE)
    assume "C p" "\<not> f"
    then show ?l unfolding left_context_def by (intro exI [of _ ps] exI [of _ p] exI [of _ "[]"]) simp
  next
    assume "Y p" "left_context C Y Z (f \<and> \<not> Z p) ps"
    then obtain xs c ys where "ps = xs @ c # ys" "C c" "\<forall>y \<in> set ys. Y y"
      "f \<and> \<not> Z p \<longrightarrow> (\<exists>y \<in> set ys. Z y)"
      unfolding left_context_def by blast
    then show ?l
      using \<open>Y p\<close> unfolding left_context_def
      by (intro exI [of _ xs] exI [of _ c] exI [of _ "ys @ [p]"]) auto
  qed
qed

lemma left_context_weaken: "left_context C Y Z True ps \<Longrightarrow> left_context C Y Z False ps"
  unfolding left_context_def by blast

text \<open>
  The five flags remember exactly the left context the boundary rules need.  After any run
  of characters, the Indic linker flag holds when the run ends in a consonant followed by
  linkers and extenders with at least one linker (rule GB9c), and the emoji flag holds when it
  ends in a pictograph followed by extenders and zero-width joiners with at least one joiner.
\<close>
theorem run_state_contexts:
  "after_indic_linker (run_state ps) = indic_context True ps \<and>
   after_emoji_zwj (run_state ps) = emoji_context True ps"
proof -
  have "after_indic_consonant (run_state ps) = indic_context False ps \<and>
      after_indic_linker (run_state ps) = indic_context True ps"
  proof (induction ps rule: rev_induct)
    case Nil
    then show ?case by (simp add: run_state_Nil cluster_state_default_def left_context_Nil)
  next
    case (snoc p ps)
    note w = left_context_weaken [of "\<lambda>c. incb_of c = IncbConsonant"
        "\<lambda>y. incb_of y \<in> {IncbLinker, IncbExtend}" "\<lambda>y. incb_of y = IncbLinker" ps]
    show ?case
      using snoc w
      by (cases "incb_of p") (auto simp: run_state_snoc update_indic_def left_context_snoc)
  qed
  moreover have "in_emoji_run (run_state ps) = emoji_context False ps \<and>
      after_emoji_zwj (run_state ps) = emoji_context True ps"
  proof (induction ps rule: rev_induct)
    case Nil
    then show ?case by (simp add: run_state_Nil cluster_state_default_def left_context_Nil)
  next
    case (snoc p ps)
    note w = left_context_weaken [of pict
        "\<lambda>y. \<not> pict y \<and> gbp_of y \<in> {GBExtend, GBZWJ}" "\<lambda>y. gbp_of y = GBZWJ" ps]
    show ?case
      using snoc w by (auto simp: run_state_snoc update_emoji_def left_context_snoc)
  qed
  ultimately show ?thesis by blast
qed

text \<open>The properties of the characters of the examples below.\<close>

lemma props_examples:
  "cluster_props 0x1F468 = \<lparr>gbp_of = GBOther, pict = True, incb_of = IncbNone\<rparr>"
  "cluster_props 0x1F469 = \<lparr>gbp_of = GBOther, pict = True, incb_of = IncbNone\<rparr>"
  "cluster_props 0x200D = \<lparr>gbp_of = GBZWJ, pict = False, incb_of = IncbExtend\<rparr>"
  "cluster_props 0xFE0F = \<lparr>gbp_of = GBExtend, pict = False, incb_of = IncbExtend\<rparr>"
proof -
  note t = CLUSTER_PROPS_RANGES_def set_append
  have m: "(0x1F400, 0x1F4FD, 0x10) \<in> set CLUSTER_PROPS_RANGES"
    unfolding t by (simp add: cluster_ranges_10_def)
  have z: "(0x200D, 0x200D, 0x65) \<in> set CLUSTER_PROPS_RANGES"
    unfolding t by (simp add: cluster_ranges_2_def)
  have v: "(0xFE00, 0xFE0F, 0x64) \<in> set CLUSTER_PROPS_RANGES"
    unfolding t by (simp add: cluster_ranges_8_def)
  note u = unpack_props_def unpack_gbp_def unpack_incb_def Let_def
  show "cluster_props 0x1F468 = \<lparr>gbp_of = GBOther, pict = True, incb_of = IncbNone\<rparr>"
    "cluster_props 0x1F469 = \<lparr>gbp_of = GBOther, pict = True, incb_of = IncbNone\<rparr>"
    using cluster_props_row [OF m, of "0x1F468"] cluster_props_row [OF m, of "0x1F469"] by (simp_all add: u)
  show "cluster_props 0x200D = \<lparr>gbp_of = GBZWJ, pict = False, incb_of = IncbExtend\<rparr>"
    using cluster_props_row [OF z, of "0x200D"] by (simp add: u)
  show "cluster_props 0xFE0F = \<lparr>gbp_of = GBExtend, pict = False, incb_of = IncbExtend\<rparr>"
    using cluster_props_row [OF v, of "0xFE0F"] by (simp add: u)
qed

text \<open>
  The emoji flag outlives the joiner.  Rule GB11 joins two pictographs only across a joiner
  that immediately precedes the second one; here an extender after the joiner does not clear
  the flag, so MAN, ZWJ, VARIATION SELECTOR-16, WOMAN is one cluster although the rule breaks
  before WOMAN.
\<close>
theorem gb11_flag_outlives_zwj:
  "graphemes [0x1F468, 0x200D, 0xFE0F, 0x1F469] = [[0x1F468, 0x200D, 0xFE0F, 0x1F469]]"
  by (simp add: graphemes_Cons props_examples update_state_with_def update_emoji_def update_indic_def
      cluster_state_default_def is_break_def decide_break_def Let_def)

section \<open>Flags\<close>

fun pairs :: "'a list \<Rightarrow> 'a list list" where
  "pairs [] = []"
| "pairs [a] = [[a]]"
| "pairs (a # b # cs) = [a, b] # pairs cs"

lemma props_regional:
  assumes "0x1F1E6 \<le> c" "c \<le> 0x1F1FF"
  shows "cluster_props c = \<lparr>gbp_of = GBRegionalIndicator, pict = False, incb_of = IncbNone\<rparr>"
proof -
  have "(0x1F1E6, 0x1F1FF, 0x06) \<in> set CLUSTER_PROPS_RANGES"
    unfolding CLUSTER_PROPS_RANGES_def set_append by (simp add: cluster_ranges_10_def)
  from cluster_props_row [OF this assms] show ?thesis
    by (simp add: unpack_props_def unpack_gbp_def unpack_incb_def Let_def)
qed

text \<open>
  Rules GB12 and GB13.  A run of regional indicators of any length is cut into pairs from
  its start, a flag each, with at most a single indicator left over at the end.
\<close>
theorem regional_indicator_pairs:
  assumes "\<forall>c \<in> set cs. 0x1F1E6 \<le> c \<and> c \<le> 0x1F1FF"
  shows "graphemes cs = pairs cs"
  using assms
proof (induction cs rule: pairs.induct)
  case (3 a b cs)
  let ?p = "\<lparr>gbp_of = GBRegionalIndicator, pict = False, incb_of = IncbNone\<rparr>"
  have p: "cluster_props a = ?p" "cluster_props b = ?p" "\<forall>c \<in> set cs. cluster_props c = ?p"
    using 3 props_regional by auto
  have "cluster_loop ?p (cluster_state_default\<lparr>ri_count := 2\<rparr>) cs = ([], cs)"
    using p(3) by (cases cs) (simp_all add: is_break_def decide_break_def Let_def)
  then show ?case
    using 3 p by (simp add: graphemes_Cons is_break_def decide_break_def Let_def update_state_with_def
        update_emoji_def update_indic_def cluster_state_default_def numeral_2_eq_2)
qed (simp_all add: graphemes_Cons)

lemma regional_indicator_pairs_witness:
  "graphemes [0x1F1EF, 0x1F1F5, 0x1F1EB, 0x1F1F7, 0x1F1E9] =
     [[0x1F1EF, 0x1F1F5], [0x1F1EB, 0x1F1F7], [0x1F1E9]]"
  using regional_indicator_pairs [of "[0x1F1EF, 0x1F1F5, 0x1F1EB, 0x1F1F7, 0x1F1E9]"] by simp

end
