(* ===== verification/Grid.thy ===== *)
theory Grid
  imports Scrollback Grapheme
begin

text \<open>
  The screen grid, \<open>crates/marspot-term/src/grid.rs\<close> (\<open>struct Grid\<close>): the rotated cell store,
  the pool of grapheme clusters, cursor, row flags and the views that join the screen with the
  scrollback.  Scrolling and resizing are in the next theories.

  Where the code panics (an index out of range, a failed \<open>assert!\<close> or \<open>expect\<close>), the model sets
  the ghost field \<open>g_panic\<close> and goes on; the invariant says it is never set.
\<close>

section \<open>State\<close>

record grid =
  g_cols :: nat
  g_rows :: nat
  g_cells :: "cell list"
  g_clusters :: "ustring list"
  g_cursor_col :: nat
  g_cursor_row :: nat
  g_top_row :: nat
  g_scrollback :: memory_scrollback
  g_scroll_push_count :: nat
  g_wrapped :: "bool list"
  g_sb_wrapped :: "bool list"
  g_sb_clusters :: "(nat \<times> ustring) list list"
  g_prompt :: "prompt_mark list"
  g_sb_prompt :: "prompt_mark list"
  g_filed_blank_run :: nat
  g_panic :: bool

abbreviation (input) DEFAULT_SCROLLBACK_LINES :: nat where "DEFAULT_SCROLLBACK_LINES \<equiv> 10000"

definition check :: "bool \<Rightarrow> grid \<Rightarrow> grid" where
  "check b g = (if b then g else g\<lparr>g_panic := True\<rparr>)"

definition grid_with_scrollback_kind :: "nat \<Rightarrow> nat \<Rightarrow> memory_scrollback \<Rightarrow> grid" where
  "grid_with_scrollback_kind cols rows scrollback =
     check (cols > 0 \<and> rows > 0)
       \<lparr>g_cols = cols, g_rows = rows, g_cells = replicate (cols * rows) cell_default,
        g_clusters = [], g_cursor_col = 0, g_cursor_row = 0, g_top_row = 0,
        g_scrollback = scrollback, g_scroll_push_count = 0,
        g_wrapped = replicate rows False, g_sb_wrapped = [], g_sb_clusters = [],
        g_prompt = replicate rows NoMark, g_sb_prompt = [], g_filed_blank_run = 0,
        g_panic = False\<rparr>"

definition grid_with_scrollback :: "nat \<Rightarrow> nat \<Rightarrow> nat \<Rightarrow> grid" where
  "grid_with_scrollback cols rows scrollback_lines =
     grid_with_scrollback_kind cols rows (ms_new scrollback_lines cols)"

definition grid_new :: "nat \<Rightarrow> nat \<Rightarrow> grid" where
  "grid_new cols rows = grid_with_scrollback cols rows DEFAULT_SCROLLBACK_LINES"

section \<open>Cells\<close>

definition phys_row :: "grid \<Rightarrow> nat \<Rightarrow> nat" where
  "phys_row g logical =
     (let r = g_top_row g + logical in if r \<ge> g_rows g then r - g_rows g else r)"

definition grid_cell :: "grid \<Rightarrow> nat \<Rightarrow> nat \<Rightarrow> cell" where
  "grid_cell g col row = g_cells g ! (phys_row g row * g_cols g + col)"

definition set_cursor :: "nat \<Rightarrow> nat \<Rightarrow> grid \<Rightarrow> grid" where
  "set_cursor col row g =
     g\<lparr>g_cursor_col := min col (g_cols g - 1), g_cursor_row := min row (g_rows g - 1)\<rparr>"

text \<open>\<open>row_cells_mut\<close> followed by an overwrite of the slice it returns.\<close>

definition set_cells :: "nat \<Rightarrow> nat \<Rightarrow> cell list \<Rightarrow> grid \<Rightarrow> grid" where
  "set_cells col row run g =
     (let base = phys_row g row * g_cols g + col
      in check (base + length run \<le> length (g_cells g)) (g\<lparr>g_cells := blit (g_cells g) base run\<rparr>))"

definition set_cell :: "nat \<Rightarrow> nat \<Rightarrow> cell \<Rightarrow> grid \<Rightarrow> grid" where
  "set_cell col row c g =
     (let i = phys_row g row * g_cols g + col
      in check (i < length (g_cells g)) (g\<lparr>g_cells := (g_cells g)[i := c]\<rparr>))"

definition set_row_run_ascii :: "nat \<Rightarrow> nat \<Rightarrow> cell_attrs \<Rightarrow> u8 list \<Rightarrow> grid \<Rightarrow> grid" where
  "set_row_run_ascii col row a bytes g =
     set_cells col row (map (\<lambda>b. \<lparr>ch = unat b, attrs = a\<rparr>) bytes) g"

section \<open>The cluster pool\<close>

definition set_cluster_flag :: "cell_attrs \<Rightarrow> cell_attrs" where
  "set_cluster_flag a = a\<lparr>pad0 := pad0 a OR FLAG_CLUSTER\<rparr>"

definition clear_cluster_flag :: "cell_attrs \<Rightarrow> cell_attrs" where
  "clear_cluster_flag a = a\<lparr>pad0 := pad0 a AND NOT FLAG_CLUSTER\<rparr>"

text \<open>\<open>cluster_first_codepoint(cluster)\<close>, the empty cluster left to the caller's check.\<close>

definition first_codepoint :: "ustring \<Rightarrow> uchar" where
  "first_codepoint cl = (case cl of [] \<Rightarrow> 0 | c # _ \<Rightarrow> c)"

definition pool_char :: "nat \<Rightarrow> uchar option" where
  "pool_char i = (if i + CLUSTER_INDEX_BASE < 2 ^ 32 then from_u32 (i + CLUSTER_INDEX_BASE) else None)"

definition cluster_cell_reusing ::
  "nat option \<Rightarrow> ustring \<Rightarrow> cell_attrs \<Rightarrow> grid \<Rightarrow> cell \<times> grid" where
  "cluster_cell_reusing prev cluster a g =
     (case prev of
        Some i \<Rightarrow>
          if i + 1 = length (g_clusters g)
          then (\<lparr>ch = (case pool_char i of Some c \<Rightarrow> c | None \<Rightarrow> 0), attrs = set_cluster_flag a\<rparr>,
                check (pool_char i \<noteq> None) (g\<lparr>g_clusters := (g_clusters g)[i := cluster]\<rparr>))
          else
            (case pool_char (length (g_clusters g)) of
               None \<Rightarrow> (\<lparr>ch = first_codepoint cluster, attrs = a\<rparr>, check (cluster \<noteq> []) g)
             | Some c \<Rightarrow> (\<lparr>ch = c, attrs = set_cluster_flag a\<rparr>,
                          g\<lparr>g_clusters := g_clusters g @ [cluster]\<rparr>))
      | None \<Rightarrow>
          (case pool_char (length (g_clusters g)) of
             None \<Rightarrow> (\<lparr>ch = first_codepoint cluster, attrs = a\<rparr>, check (cluster \<noteq> []) g)
           | Some c \<Rightarrow> (\<lparr>ch = c, attrs = set_cluster_flag a\<rparr>,
                        g\<lparr>g_clusters := g_clusters g @ [cluster]\<rparr>)))"

definition cluster_text :: "grid \<Rightarrow> cell \<Rightarrow> ustring option" where
  "cluster_text g c =
     (case cluster_index c of
        None \<Rightarrow> None
      | Some i \<Rightarrow> if i < length (g_clusters g) then Some (g_clusters g ! i) else None)"

text \<open>\<open>sweep_clusters\<close>: the entries some cell points at, their new indices, the repointing.\<close>

definition sweep_keep :: "grid \<Rightarrow> bool list" where
  "sweep_keep g =
     map (\<lambda>i. list_ex (\<lambda>c. cluster_index c = Some i) (g_cells g)) [0..<length (g_clusters g)]"

definition sweep_index :: "bool list \<Rightarrow> nat \<Rightarrow> nat option" where
  "sweep_index keep i =
     (if i < length keep \<and> keep ! i then Some (length (filter id (take i keep))) else None)"

definition sweep_cell :: "bool list \<Rightarrow> cell \<Rightarrow> cell" where
  "sweep_cell keep c =
     (case cluster_index c of
        None \<Rightarrow> c
      | Some i \<Rightarrow>
          (case sweep_index keep i of
             Some n \<Rightarrow> c\<lparr>ch := (case from_u32 (n + CLUSTER_INDEX_BASE) of Some x \<Rightarrow> x | None \<Rightarrow> 0x20)\<rparr>
           | None \<Rightarrow> c\<lparr>ch := 0x20, attrs := clear_cluster_flag (attrs c)\<rparr>))"

definition sweep_clusters :: "grid \<Rightarrow> grid" where
  "sweep_clusters g =
     (if g_clusters g = [] then g
      else
        let keep = sweep_keep g
        in g\<lparr>g_cells := map (sweep_cell keep) (g_cells g),
             g_clusters := map fst (filter snd (zip (g_clusters g) keep))\<rparr>)"

text \<open>One cell of \<open>degrade_clusters_in_row\<close>; the text is moved out of the pool.\<close>

definition degrade_cell :: "nat \<Rightarrow> nat \<Rightarrow> (nat \<times> ustring) list \<times> grid \<Rightarrow> (nat \<times> ustring) list \<times> grid" where
  "degrade_cell start i s =
     (let (kept, g) = s; c = g_cells g ! i
      in case cluster_index c of
           None \<Rightarrow> s
         | Some idx \<Rightarrow>
             if idx < length (g_clusters g)
             then
               let text = g_clusters g ! idx; base = first_codepoint text
               in (kept @ [((i - start) mod 2 ^ 16, text)],
                   check (text \<noteq> [])
                     (g\<lparr>g_clusters := (g_clusters g)[idx := []],
                        g_cells := (g_cells g)[i := c\<lparr>ch := base, attrs := clear_cluster_flag (attrs c)\<rparr>]\<rparr>))
             else
               (kept,
                g\<lparr>g_cells := (g_cells g)[i := c\<lparr>ch := 0x20, attrs := clear_cluster_flag (attrs c)\<rparr>]\<rparr>))"

definition degrade_clusters_in_row :: "nat \<Rightarrow> nat \<Rightarrow> grid \<Rightarrow> (nat \<times> ustring) list \<times> grid" where
  "degrade_clusters_in_row start cols g =
     (if g_clusters g = [] then ([], g)
      else fold (degrade_cell start) [start..<start + cols] ([], g))"

text \<open>For the in-memory scrollback the kept text goes to the grid's mirror.\<close>

definition keep_row_clusters :: "(nat \<times> ustring) list \<Rightarrow> grid \<Rightarrow> grid" where
  "keep_row_clusters row_clusters g = g\<lparr>g_sb_clusters := g_sb_clusters g @ [row_clusters]\<rparr>"

text \<open>\<open>grid/cluster_mirror.rs\<close>.\<close>

abbreviation (input) UNKNOWN_CLUSTER :: uchar where "UNKNOWN_CLUSTER \<equiv> 0xFFFD"

definition cluster_in_row :: "(nat \<times> ustring) list \<Rightarrow> nat \<Rightarrow> ustring option" where
  "cluster_in_row row col = map_option snd (find (\<lambda>(c, _). c = col) row)"

definition unknown_cell :: "cell \<Rightarrow> cell" where
  "unknown_cell c =
     (if is_cluster c then c\<lparr>ch := UNKNOWN_CLUSTER, attrs := clear_cluster_flag (attrs c)\<rparr> else c)"

fun mirror_loop :: "nat \<Rightarrow> (nat \<times> nat \<times> ustring) list \<Rightarrow> grid \<Rightarrow> nat \<times> grid" where
  "mirror_loop n [] g = (n, g)"
| "mirror_loop n ((col, row, text) # es) g =
     (if col \<ge> g_cols g \<or> row \<ge> g_rows g then mirror_loop n es g
      else case pool_char n of
             None \<Rightarrow> (n, g)
           | Some c \<Rightarrow>
               let g = (if n < length (g_clusters g) then g\<lparr>g_clusters := (g_clusters g)[n := text]\<rparr>
                        else g\<lparr>g_clusters := g_clusters g @ [text]\<rparr>);
                   cell = grid_cell g col row;
                   cell = cell\<lparr>ch := c, attrs := set_cluster_flag (attrs cell)\<rparr>
               in mirror_loop (n + 1) es (set_cell col row cell g))"

definition mirror_clusters :: "(nat \<times> nat \<times> ustring) list \<Rightarrow> grid \<Rightarrow> grid" where
  "mirror_clusters entries g =
     (let (n, g) = mirror_loop 0 entries (g\<lparr>g_cells := map unknown_cell (g_cells g)\<rparr>)
      in g\<lparr>g_clusters := take n (g_clusters g)\<rparr>)"

section \<open>Row flags\<close>

definition set_row_wrapped :: "nat \<Rightarrow> bool \<Rightarrow> grid \<Rightarrow> grid" where
  "set_row_wrapped row w g =
     g\<lparr>g_wrapped := (g_wrapped g)[phys_row g (min row (g_rows g - 1)) := w]\<rparr>"

definition row_wrapped :: "grid \<Rightarrow> nat \<Rightarrow> bool" where
  "row_wrapped g row = g_wrapped g ! phys_row g (min row (g_rows g - 1))"

definition set_row_prompt :: "nat \<Rightarrow> prompt_mark \<Rightarrow> grid \<Rightarrow> grid" where
  "set_row_prompt row mark g =
     g\<lparr>g_prompt := (g_prompt g)[phys_row g (min row (g_rows g - 1)) := mark]\<rparr>"

definition row_prompt :: "grid \<Rightarrow> nat \<Rightarrow> prompt_mark" where
  "row_prompt g row = g_prompt g ! phys_row g (min row (g_rows g - 1))"

definition scrollback_prompt :: "grid \<Rightarrow> nat \<Rightarrow> prompt_mark" where
  "scrollback_prompt g idx = (if idx < length (g_sb_prompt g) then g_sb_prompt g ! idx else NoMark)"

definition scrollback_wrapped :: "grid \<Rightarrow> nat \<Rightarrow> bool" where
  "scrollback_wrapped g idx = (idx < length (g_sb_wrapped g) \<and> g_sb_wrapped g ! idx)"

definition clear_all_wrapped :: "grid \<Rightarrow> grid" where
  "clear_all_wrapped g =
     g\<lparr>g_wrapped := map (\<lambda>w. False) (g_wrapped g), g_sb_wrapped := map (\<lambda>w. False) (g_sb_wrapped g)\<rparr>"

section \<open>Views\<close>

definition scrollback_len :: "grid \<Rightarrow> nat" where
  "scrollback_len g = ms_len (g_scrollback g)"

definition scrollback_line :: "grid \<Rightarrow> nat \<Rightarrow> cell list option" where
  "scrollback_line g idx = ms_line (g_scrollback g) idx"

text \<open>Viewport row \<open>viewport_row\<close> of the view scrolled back by \<open>view_offset\<close> lines.\<close>

definition cell_at_view :: "grid \<Rightarrow> nat \<Rightarrow> nat \<Rightarrow> nat \<Rightarrow> cell" where
  "cell_at_view g view_offset col viewport_row =
     (let rows = g_rows g; abs = view_offset + (rows - 1 - viewport_row)
      in if abs < rows then grid_cell g col (rows - 1 - abs)
         else
           let from_end = abs - rows; sb_len = scrollback_len g
           in if from_end < sb_len
              then (case ms_cell_at (g_scrollback g) (sb_len - 1 - from_end) col of
                      Some c \<Rightarrow> c | None \<Rightarrow> cell_default)
              else cell_default)"

definition row_clusters_at_view :: "grid \<Rightarrow> nat \<Rightarrow> nat \<Rightarrow> (nat \<times> ustring) list" where
  "row_clusters_at_view g view_offset viewport_row =
     (let rows = g_rows g; abs = view_offset + (rows - 1 - viewport_row)
      in if abs < rows then []
         else
           let from_end = abs - rows; sb_len = scrollback_len g
           in if from_end \<ge> sb_len then []
              else
                let line = sb_len - 1 - from_end
                in if line < length (g_sb_clusters g) then g_sb_clusters g ! line else [])"

definition wrapped_at_view :: "grid \<Rightarrow> nat \<Rightarrow> nat \<Rightarrow> bool" where
  "wrapped_at_view g view_offset viewport_row =
     (let rows = g_rows g; abs = view_offset + (rows - 1 - viewport_row)
      in if abs < rows then row_wrapped g (rows - 1 - abs)
         else
           let from_end = abs - rows; sb_len = scrollback_len g
           in if from_end < sb_len then scrollback_wrapped g (sb_len - 1 - from_end) else False)"

definition prompt_above :: "grid \<Rightarrow> nat \<Rightarrow> nat option" where
  "prompt_above g view_offset =
     (let sb = scrollback_len g
      in if sb + g_rows g < g_rows g + view_offset then None
         else
           let top_abs = sb + g_rows g - (g_rows g + view_offset);
               mark = (\<lambda>i. if i < sb then scrollback_prompt g i else row_prompt g ((i - sb) mod 2 ^ 16))
           in case find (\<lambda>i. mark i = PromptStart) (rev [0..<top_abs]) of
                None \<Rightarrow> None
              | Some i \<Rightarrow> Some ((sb + g_rows g - i - g_rows g) mod 2 ^ 16))"

definition scrollback_read_page :: "grid \<Rightarrow> nat \<Rightarrow> nat \<Rightarrow> (cell list \<times> bool) list" where
  "scrollback_read_page g start count =
     (let cells = sb_read_lines (g_scrollback g) start count; sb_len = scrollback_len g
      in map (\<lambda>(i, row). (row, start + i < sb_len \<and> scrollback_wrapped g (start + i)))
           (List.enumerate 0 cells))"

definition live_grid_snapshot_for_search :: "grid \<Rightarrow> (cell list \<times> bool) list" where
  "live_grid_snapshot_for_search g =
     map (\<lambda>r. (slice (g_cells g) (phys_row g r * g_cols g) (g_cols g), g_wrapped g ! phys_row g r))
       [0..<g_rows g]"

section \<open>Invariant\<close>

definition ustring_wf :: "ustring \<Rightarrow> bool" where
  "ustring_wf t \<longleftrightarrow> (\<forall>c \<in> set t. is_scalar c)"

definition grid_wf :: "grid \<Rightarrow> bool" where
  "grid_wf g \<longleftrightarrow>
     0 < g_cols g \<and> g_cols g \<le> u16_max \<and> 0 < g_rows g \<and> g_rows g \<le> u16_max \<and>
     length (g_cells g) = g_rows g * g_cols g \<and> (\<forall>c \<in> set (g_cells g). cell_wf c) \<and>
     (\<forall>t \<in> set (g_clusters g). ustring_wf t) \<and>
     g_cursor_col g < g_cols g \<and> g_cursor_row g < g_rows g \<and> g_top_row g < g_rows g \<and>
     length (g_wrapped g) = g_rows g \<and> length (g_prompt g) = g_rows g \<and>
     ms_wf (g_scrollback g) \<and> ms_cols (g_scrollback g) = g_cols g"

text \<open>The mirrors hold one entry per scrollback line; prompt marks may be missing.\<close>

definition mirrors_wf :: "grid \<Rightarrow> bool" where
  "mirrors_wf g \<longleftrightarrow>
     length (g_sb_wrapped g) = ms_len (g_scrollback g) \<and>
     length (g_sb_clusters g) = ms_len (g_scrollback g) \<and>
     length (g_sb_prompt g) \<le> ms_len (g_scrollback g)"

lemma cell_default_wf [wf_intros, simp]: "cell_wf cell_default"
  by (simp add: cell_wf_def cell_default_def attrs_default_def wf_intros is_scalar_def)

lemma check_fields [simp]:
  "g_cols (check b g) = g_cols g" "g_rows (check b g) = g_rows g" "g_cells (check b g) = g_cells g"
  "g_clusters (check b g) = g_clusters g" "g_cursor_col (check b g) = g_cursor_col g"
  "g_cursor_row (check b g) = g_cursor_row g" "g_top_row (check b g) = g_top_row g"
  "g_scrollback (check b g) = g_scrollback g" "g_wrapped (check b g) = g_wrapped g"
  "g_sb_wrapped (check b g) = g_sb_wrapped g" "g_sb_clusters (check b g) = g_sb_clusters g"
  "g_prompt (check b g) = g_prompt g" "g_sb_prompt (check b g) = g_sb_prompt g"
  "g_filed_blank_run (check b g) = g_filed_blank_run g"
  "g_scroll_push_count (check b g) = g_scroll_push_count g"
  "g_panic (check b g) \<longleftrightarrow> g_panic g \<or> \<not> b"
  "grid_wf (check b g) = grid_wf g" "mirrors_wf (check b g) = mirrors_wf g"
  by (simp_all add: check_def grid_wf_def mirrors_wf_def)

lemma check_True [simp]: "check True g = g"
  by (simp add: check_def)

lemma phys_row_lt:
  "grid_wf g \<Longrightarrow> r < g_rows g \<Longrightarrow> phys_row g r < g_rows g"
  by (auto simp: phys_row_def grid_wf_def Let_def)

lemma phys_row_inj:
  "grid_wf g \<Longrightarrow> r < g_rows g \<Longrightarrow> s < g_rows g \<Longrightarrow> phys_row g r = phys_row g s \<longleftrightarrow> r = s"
  by (auto simp: phys_row_def grid_wf_def Let_def split: if_splits)

lemma row_index:
  assumes "grid_wf g" "r < g_rows g"
  shows "phys_row g r * g_cols g + g_cols g \<le> length (g_cells g)"
  using slot_end [OF phys_row_lt [OF assms], of "g_cells g" "g_cols g"] assms(1)
  by (simp add: grid_wf_def)

lemma cell_index:
  "grid_wf g \<Longrightarrow> r < g_rows g \<Longrightarrow> c < g_cols g \<Longrightarrow> phys_row g r * g_cols g + c < length (g_cells g)"
  using row_index [of g r] by simp

text \<open>Operations that leave the geometry alone leave the row map alone.\<close>

lemma phys_row_cong:
  "g_top_row h = g_top_row g \<Longrightarrow> g_rows h = g_rows g \<Longrightarrow> phys_row h r = phys_row g r"
  by (simp add: phys_row_def Let_def)

lemma in_set_list_update: "x \<in> set (xs[i := y]) \<Longrightarrow> x = y \<or> x \<in> set xs"
  using set_update_subset_insert [of xs i y] by blast

lemma in_set_blit: "x \<in> set (blit xs i ys) \<Longrightarrow> x \<in> set ys \<or> x \<in> set xs"
  by (auto simp: blit_def dest: in_set_takeD in_set_dropD)

lemma grid_with_scrollback_wf [wf_intros]:
  "0 < cols \<Longrightarrow> cols \<le> u16_max \<Longrightarrow> 0 < rows \<Longrightarrow> rows \<le> u16_max \<Longrightarrow>
   grid_wf (grid_with_scrollback cols rows n)"
  by (auto simp: grid_wf_def grid_with_scrollback_def grid_with_scrollback_kind_def ms_new_def
      ms_wf_def mult.commute)

lemma set_cursor_wf [wf_intros]: "grid_wf g \<Longrightarrow> grid_wf (set_cursor c r g)"
  by (auto simp: grid_wf_def set_cursor_def)

lemma set_cell_wf [wf_intros]: "grid_wf g \<Longrightarrow> cell_wf c \<Longrightarrow> grid_wf (set_cell col row c g)"
  by (auto simp: grid_wf_def set_cell_def Let_def dest: in_set_list_update)

lemma set_cells_wf [wf_intros]:
  assumes "grid_wf g" "row < g_rows g" "col + length run \<le> g_cols g" "\<forall>c \<in> set run. cell_wf c"
  shows "grid_wf (set_cells col row run g)"
proof -
  have "phys_row g row * g_cols g + col + length run \<le> length (g_cells g)"
    using row_index [OF assms(1,2)] assms(3) by simp
  then show ?thesis
    using assms by (auto simp: grid_wf_def set_cells_def Let_def dest: in_set_blit)
qed

lemma set_row_flags_wf [wf_intros]:
  "grid_wf g \<Longrightarrow> grid_wf (set_row_wrapped row w g)"
  "grid_wf g \<Longrightarrow> grid_wf (set_row_prompt row m g)"
  "grid_wf g \<Longrightarrow> grid_wf (clear_all_wrapped g)"
  by (auto simp: grid_wf_def set_row_wrapped_def set_row_prompt_def clear_all_wrapped_def)

section \<open>The screen as a list of rows\<close>

definition grid_row :: "grid \<Rightarrow> nat \<Rightarrow> cell list" where
  "grid_row g r = slice (g_cells g) (phys_row g r * g_cols g) (g_cols g)"

definition screen :: "grid \<Rightarrow> cell list list" where
  "screen g = map (grid_row g) [0..<g_rows g]"

definition wrap_flags :: "grid \<Rightarrow> bool list" where
  "wrap_flags g = map (\<lambda>r. g_wrapped g ! phys_row g r) [0..<g_rows g]"

definition prompt_flags :: "grid \<Rightarrow> prompt_mark list" where
  "prompt_flags g = map (\<lambda>r. g_prompt g ! phys_row g r) [0..<g_rows g]"

lemma length_screen [simp]: "length (screen g) = g_rows g"
  by (simp add: screen_def)

lemma length_grid_row: "grid_wf g \<Longrightarrow> r < g_rows g \<Longrightarrow> length (grid_row g r) = g_cols g"
  by (simp add: grid_row_def row_index)

lemma screen_nth: "r < g_rows g \<Longrightarrow> screen g ! r = grid_row g r"
  by (simp add: screen_def)

lemma grid_cell_row:
  "grid_wf g \<Longrightarrow> r < g_rows g \<Longrightarrow> c < g_cols g \<Longrightarrow> grid_cell g c r = grid_row g r ! c"
  by (simp add: grid_cell_def grid_row_def row_index)

lemma rows_disjoint:
  assumes "p \<noteq> (q :: nat)"
  shows "p * w + w \<le> q * w \<or> q * w + w \<le> p * w"
  using assms mult_le_mono1 [of "Suc p" q w] mult_le_mono1 [of "Suc q" p w]
  by (cases "p < q") auto

lemma set_cells_row:
  assumes "grid_wf g" "row < g_rows g" "col + length run \<le> g_cols g" "r < g_rows g"
  shows "grid_row (set_cells col row run g) r =
           (if r = row then blit (grid_row g row) col run else grid_row g r)"
proof -
  let ?b = "phys_row g row * g_cols g"
  have fit: "?b + col + length run \<le> length (g_cells g)"
    using row_index [OF assms(1,2)] assms(3) by simp
  have p: "phys_row (set_cells col row run g) r = phys_row g r"
    by (simp add: set_cells_def phys_row_def Let_def)
  show ?thesis
  proof (rule nth_equalityI)
    show "length (grid_row (set_cells col row run g) r) =
        length (if r = row then blit (grid_row g row) col run else grid_row g r)"
      using assms fit row_index [OF assms(1,4)] unfolding grid_row_def p
      by (simp add: set_cells_def Let_def length_grid_row [unfolded grid_row_def])
    fix k assume "k < length (grid_row (set_cells col row run g) r)"
    then have k: "k < g_cols g"
      using assms fit row_index [OF assms(1,4)] unfolding grid_row_def p
      by (simp add: set_cells_def Let_def)
    have "phys_row g r \<noteq> phys_row g row" if "r \<noteq> row"
      using phys_row_inj [OF assms(1,4,2)] that by simp
    then have "r \<noteq> row \<Longrightarrow>
        phys_row g r * g_cols g + g_cols g \<le> ?b \<or> ?b + g_cols g \<le> phys_row g r * g_cols g"
      using rows_disjoint by blast
    then show "grid_row (set_cells col row run g) r ! k =
        (if r = row then blit (grid_row g row) col run else grid_row g r) ! k"
      using k assms fit row_index [OF assms(1,4)] row_index [OF assms(1,2)]
      unfolding grid_row_def p
      by (auto simp: set_cells_def Let_def nth_blit)
  qed
qed

lemma set_cell_set_cells: "col < g_cols g \<Longrightarrow> row < g_rows g \<Longrightarrow> grid_wf g \<Longrightarrow>
    set_cell col row c g = set_cells col row [c] g"
  using cell_index [of g row col]
  by (simp add: set_cell_def set_cells_def Let_def blit_def upd_conv_take_nth_drop Suc_le_eq)

lemma set_cells_fields [simp]:
  "g_cols (set_cells col row run g) = g_cols g" "g_rows (set_cells col row run g) = g_rows g"
  "g_top_row (set_cells col row run g) = g_top_row g"
  "g_clusters (set_cells col row run g) = g_clusters g"
  "g_cursor_col (set_cells col row run g) = g_cursor_col g"
  "g_cursor_row (set_cells col row run g) = g_cursor_row g"
  "g_scrollback (set_cells col row run g) = g_scrollback g"
  "g_wrapped (set_cells col row run g) = g_wrapped g"
  "g_prompt (set_cells col row run g) = g_prompt g"
  by (simp_all add: set_cells_def Let_def)

lemma set_cell_fields [simp]:
  "g_cols (set_cell col row c g) = g_cols g" "g_rows (set_cell col row c g) = g_rows g"
  "g_top_row (set_cell col row c g) = g_top_row g"
  "g_clusters (set_cell col row c g) = g_clusters g"
  "g_cursor_col (set_cell col row c g) = g_cursor_col g"
  "g_cursor_row (set_cell col row c g) = g_cursor_row g"
  "g_scrollback (set_cell col row c g) = g_scrollback g"
  "g_wrapped (set_cell col row c g) = g_wrapped g"
  "g_prompt (set_cell col row c g) = g_prompt g"
  by (simp_all add: set_cell_def Let_def)

lemma set_cells_no_panic:
  assumes "grid_wf g" "row < g_rows g" "col + length run \<le> g_cols g"
  shows "g_panic (set_cells col row run g) = g_panic g"
  using row_index [OF assms(1,2)] assms(3) by (auto simp: set_cells_def Let_def)

lemma set_cell_no_panic:
  "grid_wf g \<Longrightarrow> row < g_rows g \<Longrightarrow> col < g_cols g \<Longrightarrow> g_panic (set_cell col row c g) = g_panic g"
  by (simp add: set_cell_set_cells set_cells_no_panic)

end
