(* ===== verification/GridScroll.thy ===== *)
theory GridScroll
  imports Grid "HOL-Library.Multiset"
begin

text \<open>
  Scrolling, \<open>crates/marspot-term/src/grid.rs\<close>: \<open>scroll_up\<close> by rotating the cell store,
  region scrolls by moving rows, and what each of them files into the scrollback.  The last
  sections prove that the rotated store implements a plain list of rows.
\<close>

section \<open>Operations\<close>

abbreviation (input) MAX_RESERVED_HEADER_ROWS :: nat where "MAX_RESERVED_HEADER_ROWS \<equiv> 1"
abbreviation (input) MAX_FILED_BLANK_RUN :: nat where "MAX_FILED_BLANK_RUN \<equiv> 3"

text \<open>Physical row \<open>pr\<close> of the store, and overwriting it.\<close>

definition phys_cells :: "grid \<Rightarrow> nat \<Rightarrow> cell list" where
  "phys_cells g pr = slice (g_cells g) (pr * g_cols g) (g_cols g)"

definition put_phys :: "nat \<Rightarrow> cell list \<Rightarrow> grid \<Rightarrow> grid" where
  "put_phys pr row g =
     check (pr * g_cols g + g_cols g \<le> length (g_cells g))
       (g\<lparr>g_cells := blit (g_cells g) (pr * g_cols g) row\<rparr>)"

text \<open>
  Filing physical row \<open>pr\<close>: its clusters become plain characters, the line and its flags go to
  the scrollback and the mirrors, and its prompt mark is taken.
\<close>

definition file_row :: "nat \<Rightarrow> grid \<Rightarrow> grid" where
  "file_row pr g =
     (let (row_clusters, g) = degrade_clusters_in_row (pr * g_cols g) (g_cols g) g;
          mark = g_prompt g ! pr;
          g = g\<lparr>g_scrollback := ms_push_line (phys_cells g pr) (g_scrollback g),
                g_prompt := (g_prompt g)[pr := NoMark],
                g_sb_wrapped := g_sb_wrapped g @ [g_wrapped g ! pr],
                g_sb_prompt := g_sb_prompt g @ [mark]\<rparr>
      in keep_row_clusters row_clusters g)"

text \<open>The two \<open>while\<close> loops that keep the mirrors no longer than the ring.\<close>

definition trim_mirrors :: "grid \<Rightarrow> grid" where
  "trim_mirrors g =
     (let excess = length (g_sb_wrapped g) - ms_len (g_scrollback g)
      in g\<lparr>g_sb_wrapped := drop excess (g_sb_wrapped g),
           g_sb_prompt := drop excess (g_sb_prompt g),
           g_sb_clusters :=
             drop (length (g_sb_clusters g) - ms_len (g_scrollback g)) (g_sb_clusters g)\<rparr>)"

definition scroll_line :: "cell \<Rightarrow> grid \<Rightarrow> grid" where
  "scroll_line fill g =
     (let pr = g_top_row g;
          g = file_row pr (g\<lparr>g_filed_blank_run := 0\<rparr>);
          g = put_phys pr (replicate (g_cols g) fill) (g\<lparr>g_wrapped := (g_wrapped g)[pr := False]\<rparr>)
      in g\<lparr>g_top_row := (if g_top_row g + 1 \<ge> g_rows g then 0 else g_top_row g + 1),
           g_scroll_push_count := sat_inc64 (g_scroll_push_count g)\<rparr>)"

definition scroll_up :: "nat \<Rightarrow> cell \<Rightarrow> grid \<Rightarrow> grid" where
  "scroll_up lines fill g =
     (if lines = 0 then g
      else trim_mirrors ((scroll_line fill ^^ min lines (g_rows g)) g))"

text \<open>Moving the row and the continuation flag of one logical row onto another.\<close>

definition copy_row :: "nat \<Rightarrow> nat \<Rightarrow> grid \<Rightarrow> grid" where
  "copy_row src dst g = put_phys (phys_row g dst) (phys_cells g (phys_row g src)) g"

definition copy_wrapped :: "nat \<Rightarrow> nat \<Rightarrow> grid \<Rightarrow> grid" where
  "copy_wrapped src dst g =
     g\<lparr>g_wrapped := (g_wrapped g)[phys_row g dst := g_wrapped g ! phys_row g src]\<rparr>"

definition put_wrapped :: "nat \<Rightarrow> bool \<Rightarrow> grid \<Rightarrow> grid" where
  "put_wrapped r w g = g\<lparr>g_wrapped := (g_wrapped g)[phys_row g r := w]\<rparr>"

definition blank_row :: "nat \<Rightarrow> cell \<Rightarrow> grid \<Rightarrow> grid" where
  "blank_row r fill g = put_phys (phys_row g r) (replicate (g_cols g) fill) g"

definition region_file :: "nat \<Rightarrow> grid \<Rightarrow> grid" where
  "region_file tp g =
     (let pr = phys_row g tp;
          blank = list_all (\<lambda>c. ch c = 0x20 \<or> ch c = 0) (phys_cells g pr)
      in if \<not> (blank \<and> g_filed_blank_run g \<ge> MAX_FILED_BLANK_RUN)
         then
           (file_row pr
             (g\<lparr>g_filed_blank_run := (if blank then sat_add16 (g_filed_blank_run g) 1 else 0)\<rparr>))
             \<lparr>g_scroll_push_count := sat_inc64 (g_scroll_push_count g)\<rparr>
         else g)"

definition region_line :: "nat \<Rightarrow> nat \<Rightarrow> cell \<Rightarrow> grid \<Rightarrow> grid" where
  "region_line tp bt fill g =
     (let g = (if tp \<le> MAX_RESERVED_HEADER_ROWS then region_file tp g else g);
          g = fold (\<lambda>r. copy_row (r + 1) r) [tp..<bt] g;
          g = fold (\<lambda>r. copy_wrapped (r + 1) r) [tp..<bt] g;
          g = (if tp > 0 then put_wrapped tp False g else g)
      in blank_row bt fill (put_wrapped bt False g))"

definition scroll_up_region :: "nat \<Rightarrow> nat \<Rightarrow> nat \<Rightarrow> cell \<Rightarrow> grid \<Rightarrow> grid" where
  "scroll_up_region tp bt lines fill g =
     (if lines = 0 \<or> tp > bt \<or> bt \<ge> g_rows g then g
      else trim_mirrors ((region_line tp bt fill ^^ min lines (bt - tp + 1)) g))"

definition region_line_down :: "nat \<Rightarrow> nat \<Rightarrow> cell \<Rightarrow> grid \<Rightarrow> grid" where
  "region_line_down tp bt fill g =
     blank_row tp fill (fold (\<lambda>r. copy_row r (r + 1)) (rev [tp..<bt]) g)"

definition scroll_down_region :: "nat \<Rightarrow> nat \<Rightarrow> nat \<Rightarrow> cell \<Rightarrow> grid \<Rightarrow> grid" where
  "scroll_down_region tp bt lines fill g =
     (if lines = 0 \<or> tp > bt \<or> bt \<ge> g_rows g then g
      else
        let g = fold (\<lambda>r. put_wrapped r False) [tp..<bt + 1] g
        in (region_line_down tp bt fill ^^ min lines (bt - tp + 1)) g)"

definition push_historic_scrollback_line :: "cell list \<Rightarrow> bool \<Rightarrow> grid \<Rightarrow> grid" where
  "push_historic_scrollback_line line w g =
     trim_mirrors
       (keep_row_clusters []
         (g\<lparr>g_scrollback := ms_push_line line (g_scrollback g),
            g_sb_wrapped := g_sb_wrapped g @ [w]\<rparr>))"

definition clear_scrollback :: "grid \<Rightarrow> grid" where
  "clear_scrollback g =
     g\<lparr>g_scrollback := ms_clear (g_scrollback g), g_sb_wrapped := [], g_sb_clusters := [],
       g_sb_prompt := []\<rparr>"

section \<open>The cluster pool invariant\<close>

text \<open>
  Every cluster cell points at an entry of its own, and the entry is not empty.  This is what
  lets a row leave the screen by moving its texts out of the pool.
\<close>

definition cell_refs :: "cell list \<Rightarrow> nat list" where
  "cell_refs cs = List.map_filter cluster_index cs"

definition pool_wf :: "grid \<Rightarrow> bool" where
  "pool_wf g \<longleftrightarrow>
     distinct (cell_refs (g_cells g)) \<and>
     (\<forall>k \<in> set (cell_refs (g_cells g)). k < length (g_clusters g) \<and> g_clusters g ! k \<noteq> [])"

text \<open>What a cell becomes when it leaves the screen, and the texts a row takes with it.\<close>

definition plain_cell :: "grid \<Rightarrow> cell \<Rightarrow> cell" where
  "plain_cell g c =
     (case cluster_index c of
        None \<Rightarrow> c
      | Some k \<Rightarrow>
          c\<lparr>ch := (if k < length (g_clusters g) then first_codepoint (g_clusters g ! k) else 0x20),
            attrs := clear_cluster_flag (attrs c)\<rparr>)"

lemma cell_refs_simps [simp]:
  "cell_refs [] = []"
  "cell_refs (c # cs) = (case cluster_index c of None \<Rightarrow> cell_refs cs | Some k \<Rightarrow> k # cell_refs cs)"
  "cell_refs (cs @ ds) = cell_refs cs @ cell_refs ds"
  by (simp_all add: cell_refs_def List.map_filter_def split: option.split)

lemma in_cell_refs: "k \<in> set (cell_refs cs) \<longleftrightarrow> (\<exists>c \<in> set cs. cluster_index c = Some k)"
  by (induction cs) (auto split: option.split)

lemma cell_refs_None: "\<forall>c \<in> set cs. cluster_index c = None \<Longrightarrow> cell_refs cs = []"
  by (induction cs) auto

lemma cell_refs_distinct_nth:
  assumes "distinct (cell_refs cs)" "i < length cs" "j < length cs"
    "cluster_index (cs ! i) = Some k" "cluster_index (cs ! j) = Some k"
  shows "i = j"
proof -
  have False if "distinct (cell_refs cs)" "i < j" "j < length cs"
    "cluster_index (cs ! i) = Some k" "cluster_index (cs ! j) = Some k" for i j
  proof -
    have "cs = take j cs @ cs ! j # drop (Suc j) cs" using that(3) by (simp add: id_take_nth_drop)
    then have "distinct (cell_refs (take j cs @ cs ! j # drop (Suc j) cs))" using that(1) by simp
    moreover have "cs ! i \<in> set (take j cs)" using that(2,3) by (auto simp: in_set_conv_nth intro!: exI [of _ i])
    then have "k \<in> set (cell_refs (take j cs))" using that(4) by (auto simp: in_cell_refs)
    ultimately show False using that(5) by auto
  qed
  from this [of i j] this [of j i] show ?thesis using assms by (cases i j rule: linorder_cases) auto
qed

lemma plain_cell_None: "cluster_index (plain_cell g c) = None"
proof -
  have "(pad0 a AND NOT FLAG_CLUSTER) AND FLAG_CLUSTER = 0" for a
    by (simp add: and.assoc)
  then show ?thesis
    by (auto simp: plain_cell_def cluster_index_def is_cluster_def clear_cluster_flag_def
        split: option.split)
qed

lemma map_filter_cong:
  "(\<And>x. x \<in> set xs \<Longrightarrow> f x = h x) \<Longrightarrow> List.map_filter f xs = List.map_filter h xs"
  by (induction xs) (simp_all add: List.map_filter_simps split: option.split)

text \<open>Degrading a set of cells one by one.\<close>

lemma degrade_fold:
  assumes "distinct is" "\<forall>i \<in> set is. i < length (g_cells g)" "pool_wf g"
  shows "\<exists>kept' g'. fold (degrade_cell start) is (kept, g) = (kept @ kept', g') \<and>
     g' = g\<lparr>g_cells := g_cells g', g_clusters := g_clusters g'\<rparr> \<and>
     length (g_cells g') = length (g_cells g) \<and> length (g_clusters g') = length (g_clusters g) \<and>
     (\<forall>i < length (g_cells g). g_cells g' ! i =
        (if i \<in> set is then plain_cell g (g_cells g ! i) else g_cells g ! i)) \<and>
     (\<forall>k < length (g_clusters g). g_clusters g' ! k =
        (if k \<in> set (cell_refs (map ((!) (g_cells g)) is)) then [] else g_clusters g ! k)) \<and>
     kept' = List.map_filter (\<lambda>i. map_option (\<lambda>k. ((i - start) mod 2 ^ 16, g_clusters g ! k))
               (cluster_index (g_cells g ! i))) is"
  using assms
proof (induction "is" arbitrary: kept g)
  case Nil
  then show ?case by simp
next
  case (Cons i "is")
  let ?c = "g_cells g ! i"
  have i: "i < length (g_cells g)" using Cons.prems by simp
  show ?case
  proof (cases "cluster_index ?c")
    case None
    then have "plain_cell g ?c = ?c" by (simp add: plain_cell_def)
    with None show ?thesis
      using Cons.IH [of g kept] Cons.prems
      by (auto simp: degrade_cell_def Let_def List.map_filter_simps)
  next
    case (Some k)
    then have "k \<in> set (cell_refs (g_cells g))" using i by (auto simp: in_cell_refs)
    then have k: "k < length (g_clusters g)" "g_clusters g ! k \<noteq> []"
      using Cons.prems(3) by (auto simp: pool_wf_def)
    let ?g = "g\<lparr>g_clusters := (g_clusters g)[k := []], g_cells := (g_cells g)[i := plain_cell g ?c]\<rparr>"
    let ?t = "((i - start) mod 2 ^ 16, g_clusters g ! k)"
    have step: "degrade_cell start i (kept, g) = (kept @ [?t], ?g)"
      using Some k by (simp add: degrade_cell_def Let_def plain_cell_def)
    have other: "cluster_index (g_cells g ! j) \<noteq> Some k" if "j < length (g_cells g)" "j \<noteq> i" for j
      using cell_refs_distinct_nth [of "g_cells g" j i k] Cons.prems(3) i that Some
      by (auto simp: pool_wf_def)
    have refs: "mset (cell_refs (g_cells g)) = add_mset k (mset (cell_refs (g_cells ?g)))"
    proof -
      have a: "g_cells g = take i (g_cells g) @ ?c # drop (Suc i) (g_cells g)"
        using i by (simp add: id_take_nth_drop)
      have b: "g_cells ?g = take i (g_cells g) @ plain_cell g ?c # drop (Suc i) (g_cells g)"
        using i by (simp add: upd_conv_take_nth_drop)
      show ?thesis
        by (subst a) (simp add: b Some plain_cell_None del: append_take_drop_id)
    qed
    have pool: "pool_wf ?g"
      unfolding pool_wf_def
    proof (intro conjI ballI)
      have "distinct (cell_refs (g_cells g))" using Cons.prems(3) by (simp add: pool_wf_def)
      then show "distinct (cell_refs (g_cells ?g))" using refs
        by (metis distinct.simps(2) mset.simps(2) mset_eq_imp_distinct_iff)
      fix j assume j: "j \<in> set (cell_refs (g_cells ?g))"
      have "distinct (k # cell_refs (g_cells ?g))"
        using \<open>distinct (cell_refs (g_cells g))\<close> refs by (metis mset.simps(2) mset_eq_imp_distinct_iff)
      then have "j \<noteq> k" using j by auto
      moreover have "j \<in> set (cell_refs (g_cells g))"
        using j refs by (metis add_mset_add_single insert_iff set_mset_add_mset_insert set_mset_mset)
      ultimately show "j < length (g_clusters ?g)" "g_clusters ?g ! j \<noteq> []"
        using Cons.prems(3) by (auto simp: pool_wf_def)
    qed
    have rest: "\<forall>j \<in> set is. j < length (g_cells g) \<and> j \<noteq> i" using Cons.prems by auto
    have plain: "plain_cell ?g (g_cells g ! j) = plain_cell g (g_cells g ! j)"
      if "j < length (g_cells g)" "j \<noteq> i" for j
      using other [OF that] by (auto simp: plain_cell_def split: option.split)
    obtain kept' g' where ih: "fold (degrade_cell start) is (kept @ [?t], ?g) = ((kept @ [?t]) @ kept', g')"
      "g' = ?g\<lparr>g_cells := g_cells g', g_clusters := g_clusters g'\<rparr>"
      "length (g_cells g') = length (g_cells ?g)" "length (g_clusters g') = length (g_clusters ?g)"
      "\<forall>j < length (g_cells ?g). g_cells g' ! j =
        (if j \<in> set is then plain_cell ?g (g_cells ?g ! j) else g_cells ?g ! j)"
      "\<forall>m < length (g_clusters ?g). g_clusters g' ! m =
        (if m \<in> set (cell_refs (map ((!) (g_cells ?g)) is)) then [] else g_clusters ?g ! m)"
      "kept' = List.map_filter (\<lambda>j. map_option (\<lambda>m. ((j - start) mod 2 ^ 16, g_clusters ?g ! m))
               (cluster_index (g_cells ?g ! j))) is"
      using Cons.IH [of ?g "kept @ [?t]"] Cons.prems rest pool by auto
    have same: "map ((!) (g_cells ?g)) is = map ((!) (g_cells g)) is"
      using rest by (auto simp: nth_list_update)
    have "kept' = List.map_filter (\<lambda>j. map_option (\<lambda>m. ((j - start) mod 2 ^ 16, g_clusters g ! m))
               (cluster_index (g_cells g ! j))) is"
      unfolding ih(7)
    proof (rule map_filter_cong)
      fix j assume "j \<in> set is"
      then have "j \<noteq> i" "cluster_index (g_cells g ! j) \<noteq> Some k" using rest other by auto
      then show "map_option (\<lambda>m. ((j - start) mod 2 ^ 16, g_clusters ?g ! m)) (cluster_index (g_cells ?g ! j)) =
          map_option (\<lambda>m. ((j - start) mod 2 ^ 16, g_clusters g ! m)) (cluster_index (g_cells g ! j))"
        by (cases "cluster_index (g_cells g ! j)") auto
    qed
    moreover have "\<forall>j < length (g_cells g). g_cells g' ! j =
        (if j \<in> set (i # is) then plain_cell g (g_cells g ! j) else g_cells g ! j)"
      using ih(5) rest plain i by (auto simp: nth_list_update)
    moreover have "\<forall>m < length (g_clusters g). g_clusters g' ! m =
        (if m \<in> set (cell_refs (map ((!) (g_cells g)) (i # is))) then [] else g_clusters g ! m)"
      using ih(6) Some unfolding same by (auto simp: nth_list_update)
    moreover have "g' = g\<lparr>g_cells := g_cells g', g_clusters := g_clusters g'\<rparr>"
      by (subst ih(2)) simp
    ultimately show ?thesis
      using step ih(1,3,4) Some by (auto simp: List.map_filter_simps)
  qed
qed

section \<open>A line leaves the screen\<close>

definition row_texts :: "grid \<Rightarrow> cell list \<Rightarrow> (nat \<times> ustring) list" where
  "row_texts g row =
     List.map_filter (\<lambda>i. map_option (\<lambda>k. (i, g_clusters g ! k)) (cluster_index (row ! i))) [0..<length row]"

text \<open>The pool after the texts of a row have been moved out.\<close>

definition pool_without :: "cell list \<Rightarrow> ustring list \<Rightarrow> ustring list" where
  "pool_without row cl =
     map (\<lambda>k. if k \<in> set (cell_refs row) then [] else cl ! k) [0..<length cl]"

lemma pool_without_simps [simp]:
  "length (pool_without row cl) = length cl"
  "k < length cl \<Longrightarrow> pool_without row cl ! k = (if k \<in> set (cell_refs row) then [] else cl ! k)"
  by (simp_all add: pool_without_def)

lemma map_nth_slice: "s + n \<le> length xs \<Longrightarrow> map ((!) xs) [s..<s + n] = slice xs s n"
  by (rule nth_equalityI) auto

lemma map_filter_append:
  "List.map_filter f (xs @ ys) = List.map_filter f xs @ List.map_filter f ys"
  by (simp add: List.map_filter_def)

lemma map_filter_shift:
  "List.map_filter f [s..<s + n] = List.map_filter (\<lambda>i. f (s + i)) [0..<n]"
  by (induction n) (simp_all add: map_filter_append List.map_filter_simps split: option.split)

lemma blit_blit_same:
  "length xs = length ys \<Longrightarrow> i + length xs \<le> length cs \<Longrightarrow> blit (blit cs i xs) i ys = blit cs i ys"
  by (rule nth_equalityI) (auto simp: nth_blit)

lemma phys_cells_length:
  "grid_wf g \<Longrightarrow> pr < g_rows g \<Longrightarrow> length (phys_cells g pr) = g_cols g"
  "grid_wf g \<Longrightarrow> pr < g_rows g \<Longrightarrow> pr * g_cols g + g_cols g \<le> length (g_cells g)"
  using slot_end [of pr "g_rows g" "g_cells g" "g_cols g"]
  by (auto simp: phys_cells_def grid_wf_def)

lemma degrade_row:
  assumes "grid_wf g" "pool_wf g" "pr < g_rows g"
  shows "degrade_clusters_in_row (pr * g_cols g) (g_cols g) g =
     (row_texts g (phys_cells g pr),
      g\<lparr>g_cells := blit (g_cells g) (pr * g_cols g) (map (plain_cell g) (phys_cells g pr)),
        g_clusters := pool_without (phys_cells g pr) (g_clusters g)\<rparr>)"
proof (cases "g_clusters g = []")
  case True
  have "cell_refs (g_cells g) = []"
    using assms(2) True by (auto simp: pool_wf_def intro: ccontr)
  then have n: "\<forall>c \<in> set (g_cells g). cluster_index c = None"
    using in_cell_refs [of _ "g_cells g"] by (metis empty_iff list.set(1) not_None_eq)
  have sub: "set (phys_cells g pr) \<subseteq> set (g_cells g)"
    by (auto simp: phys_cells_def slice_def dest: in_set_takeD in_set_dropD)
  have r: "\<forall>c \<in> set (phys_cells g pr). cluster_index c = None" using n sub by blast
  have p: "map (plain_cell g) (phys_cells g pr) = phys_cells g pr"
    using r by (intro map_idI) (simp add: plain_cell_def)
  have "blit (g_cells g) (pr * g_cols g) (phys_cells g pr) = g_cells g"
    using phys_cells_length [OF assms(1,3)]
    by (intro nth_equalityI) (auto simp: nth_blit phys_cells_def)
  moreover have "row_texts g (phys_cells g pr) = []"
  proof -
    have "List.map_filter (\<lambda>i. map_option (\<lambda>k. (i, g_clusters g ! k)) (cluster_index (phys_cells g pr ! i)))
        [0..<length (phys_cells g pr)] = List.map_filter (\<lambda>i. None) [0..<length (phys_cells g pr)]"
      using r by (intro map_filter_cong) auto
    then show ?thesis by (simp add: row_texts_def List.map_filter_def)
  qed
  ultimately show ?thesis using True by (simp add: degrade_clusters_in_row_def p pool_without_def)
next
  case False
  let ?s = "pr * g_cols g" and ?row = "phys_cells g pr"
  let ?is = "[?s..<?s + g_cols g]"
  note len = phys_cells_length [OF assms(1,3)]
  have row: "map ((!) (g_cells g)) ?is = ?row"
    using map_nth_slice [OF len(2)] by (simp add: phys_cells_def)
  obtain kept g' where d: "fold (degrade_cell ?s) ?is ([], g) = (kept, g')"
    "g' = g\<lparr>g_cells := g_cells g', g_clusters := g_clusters g'\<rparr>"
    "length (g_cells g') = length (g_cells g)" "length (g_clusters g') = length (g_clusters g)"
    "\<forall>i < length (g_cells g). g_cells g' ! i =
        (if i \<in> set ?is then plain_cell g (g_cells g ! i) else g_cells g ! i)"
    "\<forall>k < length (g_clusters g). g_clusters g' ! k =
        (if k \<in> set (cell_refs (map ((!) (g_cells g)) ?is)) then [] else g_clusters g ! k)"
    "kept = List.map_filter (\<lambda>i. map_option (\<lambda>k. ((i - ?s) mod 2 ^ 16, g_clusters g ! k))
               (cluster_index (g_cells g ! i))) ?is"
    using degrade_fold [of ?is g ?s "[]"] assms(2) len(2) by auto
  have cells: "g_cells g' = blit (g_cells g) ?s (map (plain_cell g) ?row)"
    using d(3,5) len by (intro nth_equalityI) (auto simp: nth_blit phys_cells_def)
  have pool: "g_clusters g' = pool_without ?row (g_clusters g)"
    using d(4,6) unfolding row by (intro nth_equalityI) (auto simp: pool_without_def)
  have "kept = List.map_filter (\<lambda>i. map_option (\<lambda>k. (i mod 2 ^ 16, g_clusters g ! k))
               (cluster_index (g_cells g ! (?s + i)))) [0..<g_cols g]"
    unfolding d(7) map_filter_shift by simp
  also have "\<dots> = row_texts g ?row"
    unfolding row_texts_def len
  proof (rule map_filter_cong)
    fix i assume "i \<in> set [0..<g_cols g]"
    moreover from this have "i < 2 ^ 16" using assms(1) by (simp add: grid_wf_def)
    ultimately show "map_option (\<lambda>k. (i mod 2 ^ 16, g_clusters g ! k)) (cluster_index (g_cells g ! (?s + i))) =
        map_option (\<lambda>k. (i, g_clusters g ! k)) (cluster_index (?row ! i))"
      using len(2) by (simp add: phys_cells_def)
  qed
  finally have "kept = row_texts g ?row" .
  then show ?thesis
    using False d(1) cells pool by (subst (asm) d(2)) (simp add: degrade_clusters_in_row_def)
qed

lemma file_row_eq:
  assumes "grid_wf g" "pool_wf g" "pr < g_rows g"
  shows "file_row pr g =
     g\<lparr>g_cells := blit (g_cells g) (pr * g_cols g) (map (plain_cell g) (phys_cells g pr)),
       g_clusters := pool_without (phys_cells g pr) (g_clusters g),
       g_scrollback := ms_push_line (map (plain_cell g) (phys_cells g pr)) (g_scrollback g),
       g_prompt := (g_prompt g)[pr := NoMark],
       g_sb_wrapped := g_sb_wrapped g @ [g_wrapped g ! pr],
       g_sb_prompt := g_sb_prompt g @ [g_prompt g ! pr],
       g_sb_clusters := g_sb_clusters g @ [row_texts g (phys_cells g pr)]\<rparr>"
proof -
  have "phys_cells (g\<lparr>g_cells := blit (g_cells g) (pr * g_cols g) (map (plain_cell g) (phys_cells g pr)),
        g_clusters := pool_without (phys_cells g pr) (g_clusters g)\<rparr>) pr = map (plain_cell g) (phys_cells g pr)"
    using slice_blit_same [of "pr * g_cols g" "map (plain_cell g) (phys_cells g pr)" "g_cells g"]
      phys_cells_length [OF assms(1,3)]
    by (simp add: phys_cells_def)
  then show ?thesis
    unfolding file_row_def degrade_row [OF assms] by (simp add: Let_def keep_row_clusters_def)
qed

lemma plain_cell_cong: "g_clusters h = g_clusters g \<Longrightarrow> plain_cell h = plain_cell g"
  by (rule ext) (auto simp: plain_cell_def split: option.split)

lemma row_texts_cong: "g_clusters h = g_clusters g \<Longrightarrow> row_texts h = row_texts g"
  by (rule ext) (simp add: row_texts_def)

lemma phys_cells_inner [simp]:
  "phys_cells (g\<lparr>g_filed_blank_run := n\<rparr>) = phys_cells g" "plain_cell (g\<lparr>g_filed_blank_run := n\<rparr>) = plain_cell g"
  "row_texts (g\<lparr>g_filed_blank_run := n\<rparr>) = row_texts g" "pool_wf (g\<lparr>g_filed_blank_run := n\<rparr>) = pool_wf g"
  "grid_wf (g\<lparr>g_filed_blank_run := n\<rparr>) = grid_wf g"
  by (simp add: phys_cells_def fun_eq_iff, rule plain_cell_cong, simp, rule row_texts_cong, simp,
      simp add: pool_wf_def, simp add: grid_wf_def)

lemma scroll_line_eq:
  assumes "grid_wf g" "pool_wf g" "pr = g_top_row g"
  shows "scroll_line fill g =
     g\<lparr>g_cells := blit (g_cells g) (pr * g_cols g) (replicate (g_cols g) fill),
       g_clusters := pool_without (phys_cells g pr) (g_clusters g),
       g_top_row := (if pr + 1 \<ge> g_rows g then 0 else pr + 1),
       g_scrollback := ms_push_line (map (plain_cell g) (phys_cells g pr)) (g_scrollback g),
       g_scroll_push_count := sat_inc64 (g_scroll_push_count g),
       g_wrapped := (g_wrapped g)[pr := False],
       g_sb_wrapped := g_sb_wrapped g @ [g_wrapped g ! pr],
       g_sb_clusters := g_sb_clusters g @ [row_texts g (phys_cells g pr)],
       g_prompt := (g_prompt g)[pr := NoMark],
       g_sb_prompt := g_sb_prompt g @ [g_prompt g ! pr],
       g_filed_blank_run := 0\<rparr>"
proof -
  have pr: "pr < g_rows g" using assms by (simp add: grid_wf_def)
  note len = phys_cells_length [OF assms(1) pr]
  have wf: "grid_wf (g\<lparr>g_filed_blank_run := 0\<rparr>)" "pool_wf (g\<lparr>g_filed_blank_run := 0\<rparr>)"
    "pr < g_rows (g\<lparr>g_filed_blank_run := 0\<rparr>)"
    using assms pr by simp_all
  show ?thesis
    unfolding scroll_line_def Let_def assms(3) [symmetric] file_row_eq [OF wf]
    using len by (simp add: put_phys_def blit_blit_same assms(3) [symmetric])
qed

section \<open>Scrolling keeps the invariants\<close>

definition blank_cell :: "cell \<Rightarrow> bool" where
  "blank_cell c \<longleftrightarrow> cell_wf c \<and> cluster_index c = None"

lemma first_codepoint_scalar: "ustring_wf t \<Longrightarrow> is_scalar (first_codepoint t)"
  by (cases t) (simp_all add: first_codepoint_def ustring_wf_def is_scalar_def)

lemma plain_cell_wf:
  assumes "grid_wf g" "cell_wf c"
  shows "cell_wf (plain_cell g c)"
proof -
  have "k < length (g_clusters g) \<Longrightarrow> is_scalar (first_codepoint (g_clusters g ! k))" for k
    using assms(1) by (auto simp: grid_wf_def intro: first_codepoint_scalar)
  moreover have "is_scalar 0x20" by (simp add: is_scalar_def)
  ultimately show ?thesis
    using assms(2)
    by (cases "cluster_index c") (simp_all add: plain_cell_def cell_wf_def clear_cluster_flag_def)
qed

lemma pool_without_wf:
  assumes "grid_wf g"
  shows "\<forall>t \<in> set (pool_without row (g_clusters g)). ustring_wf t"
  using assms by (auto simp: pool_without_def grid_wf_def ustring_wf_def)

lemma scroll_line_wf:
  assumes "grid_wf g" "pool_wf g" "blank_cell fill"
  shows "grid_wf (scroll_line fill g)"
  using assms pool_without_wf [OF assms(1)] phys_cells_length [OF assms(1), of "g_top_row g"]
  unfolding scroll_line_eq [OF assms(1,2) refl] grid_wf_def
  by (auto simp: blank_cell_def wf_intros dest!: in_set_blit)

text \<open>Replacing physical rows of the store.\<close>

lemma split_at_row:
  assumes "s + n \<le> length cs"
  shows "cs = take s cs @ slice cs s n @ drop (s + n) cs"
  by (simp add: slice_def drop_drop add.commute flip: append_assoc take_add)

lemma cell_refs_blank: "\<forall>c \<in> set row. blank_cell c \<Longrightarrow> cell_refs row = []"
  by (rule cell_refs_None) (simp add: blank_cell_def)

lemma scroll_line_pool:
  assumes "grid_wf g" "pool_wf g" "blank_cell fill"
  shows "pool_wf (scroll_line fill g)"
proof -
  let ?pr = "g_top_row g"
  let ?s = "?pr * g_cols g"
  let ?row = "phys_cells g ?pr"
  have pr: "?pr < g_rows g" using assms(1) by (simp add: grid_wf_def)
  note len = phys_cells_length [OF assms(1) pr]
  let ?A = "take ?s (g_cells g)" and ?B = "drop (?s + g_cols g) (g_cells g)"
  have old: "g_cells g = ?A @ ?row @ ?B"
    using split_at_row [OF len(2)] by (simp add: phys_cells_def)
  have new: "cell_refs (g_cells (scroll_line fill g)) = cell_refs ?A @ cell_refs ?B"
    unfolding scroll_line_eq [OF assms(1,2) refl]
    using cell_refs_blank [of "replicate (g_cols g) fill"] assms(3) by (simp add: blit_def)
  have d: "distinct (cell_refs ?A @ cell_refs ?row @ cell_refs ?B)"
    "\<forall>k \<in> set (cell_refs ?A @ cell_refs ?row @ cell_refs ?B). k < length (g_clusters g) \<and> g_clusters g ! k \<noteq> []"
    using assms(2) unfolding pool_wf_def by (metis old cell_refs_simps(3))+
  have cl: "g_clusters (scroll_line fill g) = pool_without ?row (g_clusters g)"
    unfolding scroll_line_eq [OF assms(1,2) refl] by simp
  have "k \<notin> set (cell_refs ?row)" if "k \<in> set (cell_refs ?A @ cell_refs ?B)" for k
    using d(1) that by auto
  then show ?thesis
    unfolding pool_wf_def new cl using d by (auto simp: ball_Un Int_Un_distrib)
qed

lemma scroll_line_fields [simp]:
  assumes "grid_wf g" "pool_wf g"
  shows "g_rows (scroll_line fill g) = g_rows g" "g_cols (scroll_line fill g) = g_cols g"
    "g_panic (scroll_line fill g) = g_panic g"
    "g_cursor_col (scroll_line fill g) = g_cursor_col g" "g_cursor_row (scroll_line fill g) = g_cursor_row g"
  unfolding scroll_line_eq [OF assms refl] by simp_all

section \<open>Scrolling as an operation on rows\<close>

lemma phys_row_scroll_line:
  assumes "grid_wf g" "pool_wf g" "r < g_rows g"
  shows "phys_row (scroll_line fill g) r =
           (if r = g_rows g - 1 then g_top_row g else phys_row g (r + 1))"
proof -
  have "0 < g_rows g" "g_top_row g < g_rows g" using assms(1) by (simp_all add: grid_wf_def)
  then show ?thesis
    using assms(3) unfolding scroll_line_eq [OF assms(1,2) refl] by (auto simp: phys_row_def Let_def)
qed

lemma grid_row_phys: "grid_row g r = phys_cells g (phys_row g r)"
  by (simp add: grid_row_def phys_cells_def)

lemma phys_cells_blit:
  assumes "grid_wf g" "p < g_rows g" "q < g_rows g" "length row = g_cols g"
    "g_cells h = blit (g_cells g) (p * g_cols g) row" "g_cols h = g_cols g"
  shows "phys_cells h q = (if q = p then row else phys_cells g q)"
proof -
  have fit: "p * g_cols g + length row \<le> length (g_cells g)"
    using phys_cells_length(2) [OF assms(1,2)] assms(4) by simp
  show ?thesis
  proof (cases "q = p")
    case True
    then show ?thesis using slice_blit_same [OF fit] assms by (simp add: phys_cells_def)
  next
    case False
    then show ?thesis
      using slice_blit_other [OF fit phys_cells_length(2) [OF assms(1,3)]]
        rows_disjoint [OF False, of "g_cols g"] assms
      by (auto simp: phys_cells_def)
  qed
qed

lemma phys_row_top: "grid_wf g \<Longrightarrow> phys_row g 0 = g_top_row g"
  by (simp add: phys_row_def grid_wf_def)

lemma screen_scroll_line:
  assumes "grid_wf g" "pool_wf g"
  shows "screen (scroll_line fill g) = tl (screen g) @ [replicate (g_cols g) fill]"
proof (rule nth_equalityI)
  have rows: "0 < g_rows g" using assms(1) by (simp add: grid_wf_def)
  then show "length (screen (scroll_line fill g)) = length (tl (screen g) @ [replicate (g_cols g) fill])"
    using assms by simp
  fix r assume "r < length (screen (scroll_line fill g))"
  then have r: "r < g_rows g" using assms by simp
  let ?h = "scroll_line fill g"
  have top: "g_top_row g < g_rows g" using assms(1) by (simp add: grid_wf_def)
  have cells: "g_cells ?h = blit (g_cells g) (g_top_row g * g_cols g) (replicate (g_cols g) fill)"
    "g_cols ?h = g_cols g"
    unfolding scroll_line_eq [OF assms refl] by simp_all
  have p: "phys_row ?h r < g_rows g"
    using phys_row_scroll_line [OF assms r] phys_row_lt [OF assms(1), of "r + 1"] top r by simp
  have "screen ?h ! r = (if phys_row ?h r = g_top_row g then replicate (g_cols g) fill
      else phys_cells g (phys_row ?h r))"
    using phys_cells_blit [OF assms(1) top p _ cells] r assms by (simp add: screen_nth grid_row_phys)
  also have "\<dots> = (tl (screen g) @ [replicate (g_cols g) fill]) ! r"
    using phys_row_scroll_line [OF assms r, of fill] phys_row_inj [OF assms(1), of "r + 1" 0]
      phys_row_top [OF assms(1)] r rows
    by (auto simp: nth_append nth_tl screen_nth grid_row_phys)
  finally show "screen ?h ! r = (tl (screen g) @ [replicate (g_cols g) fill]) ! r" .
qed

text \<open>A rotated row of flags scrolls the same way.\<close>

lemma rotated_flags:
  assumes "grid_wf g" "pool_wf g" "length xs = g_rows g" "ys = xs[g_top_row g := z]"
  shows "map (\<lambda>r. ys ! phys_row (scroll_line fill g) r) [0..<g_rows g] =
           tl (map (\<lambda>r. xs ! phys_row g r) [0..<g_rows g]) @ [z]"
proof (rule nth_equalityI)
  have rows: "0 < g_rows g" using assms(1) by (simp add: grid_wf_def)
  then show "length (map (\<lambda>r. ys ! phys_row (scroll_line fill g) r) [0..<g_rows g]) =
      length (tl (map (\<lambda>r. xs ! phys_row g r) [0..<g_rows g]) @ [z])" by simp
  fix r assume "r < length (map (\<lambda>r. ys ! phys_row (scroll_line fill g) r) [0..<g_rows g])"
  then have r: "r < g_rows g" by simp
  have top: "g_top_row g < g_rows g" using assms(1) by (simp add: grid_wf_def)
  have "r \<noteq> g_rows g - 1 \<Longrightarrow> phys_row g (r + 1) \<noteq> g_top_row g"
    using phys_row_inj [OF assms(1), of "r + 1" 0] phys_row_top [OF assms(1)] r rows by auto
  then show "map (\<lambda>r. ys ! phys_row (scroll_line fill g) r) [0..<g_rows g] ! r =
      (tl (map (\<lambda>r. xs ! phys_row g r) [0..<g_rows g]) @ [z]) ! r"
    using phys_row_scroll_line [OF assms(1,2) r, of fill] r rows top assms(3,4)
    by (auto simp: nth_append nth_tl)
qed

lemma flags_scroll_line:
  assumes "grid_wf g" "pool_wf g"
  shows "wrap_flags (scroll_line fill g) = tl (wrap_flags g) @ [False]"
    and "prompt_flags (scroll_line fill g) = tl (prompt_flags g) @ [NoMark]"
proof -
  have l: "length (g_wrapped g) = g_rows g" "length (g_prompt g) = g_rows g"
    using assms(1) by (simp_all add: grid_wf_def)
  have f: "g_wrapped (scroll_line fill g) = (g_wrapped g)[g_top_row g := False]"
    "g_prompt (scroll_line fill g) = (g_prompt g)[g_top_row g := NoMark]"
    unfolding scroll_line_eq [OF assms refl] by simp_all
  show "wrap_flags (scroll_line fill g) = tl (wrap_flags g) @ [False]"
    using rotated_flags [OF assms l(1) f(1)] assms by (simp add: wrap_flags_def)
  show "prompt_flags (scroll_line fill g) = tl (prompt_flags g) @ [NoMark]"
    using rotated_flags [OF assms l(2) f(2)] assms by (simp add: prompt_flags_def)
qed

section \<open>Scroll up\<close>

lemma funpow_scroll_line:
  assumes "grid_wf g" "pool_wf g" "blank_cell fill"
  shows "grid_wf ((scroll_line fill ^^ n) g) \<and> pool_wf ((scroll_line fill ^^ n) g) \<and>
     g_panic ((scroll_line fill ^^ n) g) = g_panic g \<and>
     g_rows ((scroll_line fill ^^ n) g) = g_rows g \<and> g_cols ((scroll_line fill ^^ n) g) = g_cols g \<and>
     g_cursor_col ((scroll_line fill ^^ n) g) = g_cursor_col g \<and>
     g_cursor_row ((scroll_line fill ^^ n) g) = g_cursor_row g"
  using assms by (induction n) (simp_all add: scroll_line_wf scroll_line_pool)

lemma trim_mirrors_fields [simp]:
  "g_cols (trim_mirrors g) = g_cols g" "g_rows (trim_mirrors g) = g_rows g"
  "g_cells (trim_mirrors g) = g_cells g" "g_clusters (trim_mirrors g) = g_clusters g"
  "g_cursor_col (trim_mirrors g) = g_cursor_col g" "g_cursor_row (trim_mirrors g) = g_cursor_row g"
  "g_top_row (trim_mirrors g) = g_top_row g" "g_scrollback (trim_mirrors g) = g_scrollback g"
  "g_wrapped (trim_mirrors g) = g_wrapped g" "g_prompt (trim_mirrors g) = g_prompt g"
  "g_panic (trim_mirrors g) = g_panic g" "grid_wf (trim_mirrors g) = grid_wf g"
  "pool_wf (trim_mirrors g) = pool_wf g" "screen (trim_mirrors g) = screen g"
  "wrap_flags (trim_mirrors g) = wrap_flags g" "prompt_flags (trim_mirrors g) = prompt_flags g"
  by (simp_all add: trim_mirrors_def Let_def grid_wf_def pool_wf_def screen_def grid_row_def
      phys_row_def wrap_flags_def prompt_flags_def fun_eq_iff)

lemma plain_cell_trim [simp]: "plain_cell (trim_mirrors g) = plain_cell g"
  by (rule plain_cell_cong) simp

text \<open>What scrolling off does to the texts of the rows that stay: nothing.\<close>

lemma plain_row_stays:
  assumes "grid_wf g" "pool_wf g" "r < g_rows g" "r \<noteq> 0"
  shows "map (plain_cell (scroll_line fill g)) (screen g ! r) = map (plain_cell g) (screen g ! r)"
proof -
  let ?row = "phys_cells g (g_top_row g)"
  have top: "g_top_row g < g_rows g" using assms(1) by (simp add: grid_wf_def)
  have cl: "g_clusters (scroll_line fill g) = pool_without ?row (g_clusters g)"
    unfolding scroll_line_eq [OF assms(1,2) refl] by simp
  have "k \<notin> set (cell_refs ?row)" if c: "c \<in> set (screen g ! r)" "cluster_index c = Some k" for c k
  proof
    assume "k \<in> set (cell_refs ?row)"
    then obtain c' where "c' \<in> set ?row" "cluster_index c' = Some k" by (auto simp: in_cell_refs)
    then obtain j where j: "j < g_cols g" "cluster_index (g_cells g ! (g_top_row g * g_cols g + j)) = Some k"
      using phys_cells_length [OF assms(1) top] by (auto simp: in_set_conv_nth phys_cells_def)
    have p: "phys_row g r < g_rows g" "phys_row g r \<noteq> g_top_row g"
      using phys_row_lt [OF assms(1,3)] phys_row_inj [OF assms(1,3), of 0] phys_row_top [OF assms(1)]
        assms(3,4) by auto
    obtain i where i: "i < g_cols g" "cluster_index (g_cells g ! (phys_row g r * g_cols g + i)) = Some k"
      using c phys_cells_length [OF assms(1) p(1)] assms(3)
      by (auto simp: in_set_conv_nth screen_nth grid_row_phys phys_cells_def)
    have "phys_row g r * g_cols g + i = g_top_row g * g_cols g + j"
      using cell_refs_distinct_nth [OF _ _ _ i(2) j(2)] assms(2) i(1) j(1)
        phys_cells_length(2) [OF assms(1) p(1)] phys_cells_length(2) [OF assms(1) top]
      by (simp add: pool_wf_def)
    then show False
      using rows_disjoint [OF p(2), of "g_cols g"] i(1) j(1) by auto
  qed
  then show ?thesis
    by (auto simp: plain_cell_def cl split: option.split)
qed

lemma scroll_line_history:
  assumes "grid_wf g" "pool_wf g"
  shows "ms_lines (g_scrollback (scroll_line fill g)) =
           last_n (ms_capacity (g_scrollback g))
             (ms_lines (g_scrollback g) @ [map (plain_cell g) (hd (screen g))])"
    and "g_sb_wrapped (scroll_line fill g) = g_sb_wrapped g @ [hd (wrap_flags g)]"
    and "g_sb_prompt (scroll_line fill g) = g_sb_prompt g @ [hd (prompt_flags g)]"
    and "g_sb_clusters (scroll_line fill g) = g_sb_clusters g @ [row_texts g (hd (screen g))]"
    and "ms_capacity (g_scrollback (scroll_line fill g)) = ms_capacity (g_scrollback g)"
proof -
  have rows: "0 < g_rows g" "g_top_row g < g_rows g" using assms(1) by (simp_all add: grid_wf_def)
  have hd: "hd (screen g) = phys_cells g (g_top_row g)" "hd (wrap_flags g) = g_wrapped g ! g_top_row g"
    "hd (prompt_flags g) = g_prompt g ! g_top_row g"
    using rows phys_row_top [OF assms(1)]
    by (simp_all add: screen_def wrap_flags_def prompt_flags_def grid_row_phys hd_map)
  have n: "ms_normalise (g_scrollback g) (map (plain_cell g) (phys_cells g (g_top_row g))) =
      map (plain_cell g) (phys_cells g (g_top_row g))"
    using phys_cells_length [OF assms(1) rows(2)] assms(1) by (simp add: ms_normalise_def grid_wf_def)
  have wf: "ms_wf (g_scrollback g)" using assms(1) by (simp add: grid_wf_def)
  show "ms_lines (g_scrollback (scroll_line fill g)) =
      last_n (ms_capacity (g_scrollback g))
        (ms_lines (g_scrollback g) @ [map (plain_cell g) (hd (screen g))])"
    unfolding scroll_line_eq [OF assms refl] using sb.push_contents [OF wf] by (simp add: hd n)
  show "g_sb_wrapped (scroll_line fill g) = g_sb_wrapped g @ [hd (wrap_flags g)]"
    "g_sb_prompt (scroll_line fill g) = g_sb_prompt g @ [hd (prompt_flags g)]"
    "g_sb_clusters (scroll_line fill g) = g_sb_clusters g @ [row_texts g (hd (screen g))]"
    "ms_capacity (g_scrollback (scroll_line fill g)) = ms_capacity (g_scrollback g)"
    unfolding scroll_line_eq [OF assms refl] by (simp_all add: hd)
qed

lemma scroll_lines:
  assumes "grid_wf g" "pool_wf g" "blank_cell fill" "n \<le> g_rows g"
  shows "screen ((scroll_line fill ^^ n) g) = drop n (screen g) @ replicate n (replicate (g_cols g) fill) \<and>
     wrap_flags ((scroll_line fill ^^ n) g) = drop n (wrap_flags g) @ replicate n False \<and>
     prompt_flags ((scroll_line fill ^^ n) g) = drop n (prompt_flags g) @ replicate n NoMark \<and>
     ms_lines (g_scrollback ((scroll_line fill ^^ n) g)) =
       last_n (ms_capacity (g_scrollback g))
         (ms_lines (g_scrollback g) @ map (map (plain_cell g)) (take n (screen g))) \<and>
     g_sb_wrapped ((scroll_line fill ^^ n) g) = g_sb_wrapped g @ take n (wrap_flags g) \<and>
     g_sb_prompt ((scroll_line fill ^^ n) g) = g_sb_prompt g @ take n (prompt_flags g) \<and>
     length (g_sb_clusters ((scroll_line fill ^^ n) g)) = length (g_sb_clusters g) + n \<and>
     ms_capacity (g_scrollback ((scroll_line fill ^^ n) g)) = ms_capacity (g_scrollback g) \<and>
     (\<forall>r. n \<le> r \<and> r < g_rows g \<longrightarrow>
        map (plain_cell ((scroll_line fill ^^ n) g)) (screen g ! r) = map (plain_cell g) (screen g ! r))"
  using assms(4)
proof (induction n)
  case 0
  have "length (ms_lines (g_scrollback g)) \<le> ms_capacity (g_scrollback g)"
    using assms(1) by (simp add: grid_wf_def ms_wf_def)
  then show ?case by (simp add: last_n_all)
next
  case (Suc n)
  let ?h = "(scroll_line fill ^^ n) g"
  have wf: "grid_wf ?h" "pool_wf ?h" "g_rows ?h = g_rows g" "g_cols ?h = g_cols g"
    using funpow_scroll_line [OF assms(1-3), of n] by auto
  have n: "n < g_rows g" using Suc.prems by simp
  note ih = Suc.IH [OF less_imp_le [OF n]]
  have len: "length (screen g) = g_rows g" "length (wrap_flags g) = g_rows g"
    "length (prompt_flags g) = g_rows g"
    by (simp_all add: wrap_flags_def prompt_flags_def)
  have hd: "hd (screen ?h) = screen g ! n" "hd (wrap_flags ?h) = wrap_flags g ! n"
    "hd (prompt_flags ?h) = prompt_flags g ! n"
    using ih n len by (simp_all add: hd_append hd_drop_conv_nth)
  have tl: "tl (drop n xs @ ys) = drop (Suc n) xs @ ys" if "length xs = g_rows g" for xs ys :: "'z list"
    using that n by (simp add: tl_append2 drop_Suc tl_drop)
  have plain: "map (plain_cell ?h) (screen g ! n) = map (plain_cell g) (screen g ! n)"
    using ih n order_refl [of n] by blast
  have rest: "map (plain_cell (scroll_line fill ?h)) (screen g ! r) = map (plain_cell g) (screen g ! r)"
    if "Suc n \<le> r" "r < g_rows g" for r
  proof -
    have "r - n < g_rows g - n" "n + (r - n) = r" using that by auto
    then have "screen ?h ! (r - n) = screen g ! r" using ih len by (simp add: nth_append)
    then show ?thesis
      using plain_row_stays [OF wf(1,2), of "r - n" fill] wf(3) that ih by auto
  qed
  have "screen (scroll_line fill ?h) =
      drop (Suc n) (screen g) @ replicate (Suc n) (replicate (g_cols g) fill)"
    unfolding screen_scroll_line [OF wf(1,2)] using ih tl [OF len(1)] wf(4)
    by (simp add: replicate_append_same)
  moreover have "wrap_flags (scroll_line fill ?h) = drop (Suc n) (wrap_flags g) @ replicate (Suc n) False"
    unfolding flags_scroll_line(1) [OF wf(1,2)] using ih tl [OF len(2)]
    by (simp add: replicate_append_same)
  moreover have "prompt_flags (scroll_line fill ?h) = drop (Suc n) (prompt_flags g) @ replicate (Suc n) NoMark"
    unfolding flags_scroll_line(2) [OF wf(1,2)] using ih tl [OF len(3)]
    by (simp add: replicate_append_same)
  moreover have "ms_lines (g_scrollback (scroll_line fill ?h)) =
      last_n (ms_capacity (g_scrollback g))
        (ms_lines (g_scrollback g) @ map (map (plain_cell g)) (take (Suc n) (screen g)))"
    unfolding scroll_line_history(1) [OF wf(1,2)] hd plain using ih n len
    by (simp add: last_n_last_n take_Suc_conv_app_nth)
  moreover have "g_sb_wrapped (scroll_line fill ?h) = g_sb_wrapped g @ take (Suc n) (wrap_flags g)"
    "g_sb_prompt (scroll_line fill ?h) = g_sb_prompt g @ take (Suc n) (prompt_flags g)"
    unfolding scroll_line_history [OF wf(1,2)] hd using ih n len
    by (simp_all add: take_Suc_conv_app_nth)
  moreover have "\<forall>r. Suc n \<le> r \<and> r < g_rows g \<longrightarrow>
      map (plain_cell (scroll_line fill ?h)) (screen g ! r) = map (plain_cell g) (screen g ! r)"
    using rest by blast
  ultimately show ?case
    using ih scroll_line_history(4,5) [OF wf(1,2), of fill] by simp
qed

text \<open>Trimming the mirrors down to what the ring retains.\<close>

lemma trim_after_pushes:
  assumes "mirrors_wf g" "ms_wf (g_scrollback g)"
    "g_sb_wrapped h = g_sb_wrapped g @ ws" "length (g_sb_clusters h) = length (g_sb_clusters g) + length ws"
    "length (g_sb_prompt h) = length (g_sb_prompt g) + length ws"
    "ms_len (g_scrollback h) = min (ms_capacity (g_scrollback g)) (ms_len (g_scrollback g) + length ws)"
  shows "mirrors_wf (trim_mirrors h)"
    and "g_sb_wrapped (trim_mirrors h) = last_n (ms_capacity (g_scrollback g)) (g_sb_wrapped g @ ws)"
proof -
  have len: "length (g_sb_wrapped g) = ms_len (g_scrollback g)" "length (g_sb_clusters g) = ms_len (g_scrollback g)"
    "length (g_sb_prompt g) \<le> ms_len (g_scrollback g)" "ms_len (g_scrollback g) \<le> ms_capacity (g_scrollback g)"
    using assms(1,2) by (simp_all add: mirrors_wf_def ms_wf_def)
  then show "mirrors_wf (trim_mirrors h)"
    using assms(3-6) by (auto simp: mirrors_wf_def trim_mirrors_def Let_def)
  show "g_sb_wrapped (trim_mirrors h) = last_n (ms_capacity (g_scrollback g)) (g_sb_wrapped g @ ws)"
    using assms(3,6) len by (simp add: trim_mirrors_def Let_def last_n_def min_def)
qed

definition grid_ok :: "grid \<Rightarrow> bool" where
  "grid_ok g \<longleftrightarrow> grid_wf g \<and> pool_wf g \<and> mirrors_wf g \<and> \<not> g_panic g"

lemma grid_okD: "grid_ok g \<Longrightarrow> grid_wf g" "grid_ok g \<Longrightarrow> pool_wf g" "grid_ok g \<Longrightarrow> mirrors_wf g"
    "grid_ok g \<Longrightarrow> \<not> g_panic g"
  by (simp_all add: grid_ok_def)

lemma scroll_up_full:
  assumes "grid_ok g" "blank_cell fill" "n = min lines (g_rows g)"
  shows "grid_ok (scroll_up lines fill g) \<and>
     g_rows (scroll_up lines fill g) = g_rows g \<and> g_cols (scroll_up lines fill g) = g_cols g \<and>
     g_cursor_col (scroll_up lines fill g) = g_cursor_col g \<and>
     g_cursor_row (scroll_up lines fill g) = g_cursor_row g \<and>
     screen (scroll_up lines fill g) = drop n (screen g) @ replicate n (replicate (g_cols g) fill) \<and>
     wrap_flags (scroll_up lines fill g) = drop n (wrap_flags g) @ replicate n False \<and>
     prompt_flags (scroll_up lines fill g) = drop n (prompt_flags g) @ replicate n NoMark \<and>
     ms_lines (g_scrollback (scroll_up lines fill g)) =
       last_n (ms_capacity (g_scrollback g))
         (ms_lines (g_scrollback g) @ map (map (plain_cell g)) (take n (screen g))) \<and>
     g_sb_wrapped (scroll_up lines fill g) =
       last_n (ms_capacity (g_scrollback g)) (g_sb_wrapped g @ take n (wrap_flags g)) \<and>
     ms_capacity (g_scrollback (scroll_up lines fill g)) = ms_capacity (g_scrollback g)"
proof (cases "lines = 0")
  case True
  have "length (ms_lines (g_scrollback g)) \<le> ms_capacity (g_scrollback g)"
    "length (g_sb_wrapped g) \<le> ms_capacity (g_scrollback g)"
    using assms(1) by (simp_all add: grid_ok_def grid_wf_def ms_wf_def mirrors_wf_def)
  then show ?thesis using True assms by (simp add: scroll_up_def last_n_all)
next
  case False
  let ?h = "(scroll_line fill ^^ n) g"
  have n: "n \<le> g_rows g" using assms(3) by simp
  note g = grid_okD [OF assms(1)]
  note wf = funpow_scroll_line [OF g(1,2) assms(2), of n]
  note s = scroll_lines [OF g(1,2) assms(2) n]
  have eq: "scroll_up lines fill g = trim_mirrors ?h" using False assms(3) by (simp add: scroll_up_def)
  have lens: "length (take n (wrap_flags g)) = n" "length (take n (prompt_flags g)) = n"
    using n by (simp_all add: wrap_flags_def prompt_flags_def)
  have ms: "ms_wf (g_scrollback g)" using g(1) by (simp add: grid_wf_def)
  have mlen: "ms_len (g_scrollback ?h) =
      min (ms_capacity (g_scrollback g)) (ms_len (g_scrollback g) + length (take n (wrap_flags g)))"
    using s length_ms_lines [of "g_scrollback ?h"] n lens by (simp del: length_ms_lines) simp
  note t = trim_after_pushes [OF g(3) ms, of ?h "take n (wrap_flags g)"]
  have "mirrors_wf (trim_mirrors ?h)" "g_sb_wrapped (trim_mirrors ?h) =
      last_n (ms_capacity (g_scrollback g)) (g_sb_wrapped g @ take n (wrap_flags g))"
    using t mlen s lens by simp_all
  then show ?thesis using wf s g(4) unfolding eq grid_ok_def by simp
qed

section \<open>Moving rows\<close>

lemma phys_surj:
  assumes "grid_wf g" "p < g_rows g"
  shows "\<exists>r < g_rows g. phys_row g r = p"
proof -
  have t: "g_top_row g < g_rows g" using assms(1) by (simp add: grid_wf_def)
  show ?thesis
  proof (cases "g_top_row g \<le> p")
    case True
    then show ?thesis
      using assms(2) by (intro exI [of _ "p - g_top_row g"]) (simp add: phys_row_def Let_def)
  next
    case False
    then show ?thesis
      using t by (intro exI [of _ "p + g_rows g - g_top_row g"]) (simp add: phys_row_def Let_def)
  qed
qed

lemma cells_phys:
  assumes "grid_wf g"
  shows "g_cells g = concat (map (phys_cells g) [0..<g_rows g])"
proof -
  have "take (n * g_cols g) (g_cells g) = concat (map (phys_cells g) [0..<n])" if "n \<le> g_rows g" for n
    using that
  proof (induction n)
    case (Suc n)
    have "n * g_cols g + g_cols g \<le> length (g_cells g)"
      using phys_cells_length(2) [OF assms, of n] Suc.prems by simp
    then have "take (n * g_cols g + g_cols g) (g_cells g) = take (n * g_cols g) (g_cells g) @ phys_cells g n"
      by (simp add: take_add phys_cells_def slice_def)
    then show ?case using Suc by (simp add: add.commute)
  qed simp
  from this [of "g_rows g"] show ?thesis using assms by (simp add: grid_wf_def)
qed

lemma mset_screen:
  assumes "grid_wf g"
  shows "mset (cell_refs (concat (screen g))) = mset (cell_refs (g_cells g))"
proof -
  have refs: "mset (cell_refs (concat xss)) = (\<Sum>row \<in># mset xss. mset (cell_refs row))" for xss
    by (induction xss) simp_all
  have "set (map (phys_row g) [0..<g_rows g]) = {0..<g_rows g}"
  proof
    show "set (map (phys_row g) [0..<g_rows g]) \<subseteq> {0..<g_rows g}" using phys_row_lt [OF assms] by auto
    show "{0..<g_rows g} \<subseteq> set (map (phys_row g) [0..<g_rows g])"
    proof
      fix p assume "p \<in> {0..<g_rows g}"
      then obtain r where "r < g_rows g" "phys_row g r = p" using phys_surj [OF assms, of p] by auto
      then show "p \<in> set (map (phys_row g) [0..<g_rows g])" by force
    qed
  qed
  moreover have "distinct (map (phys_row g) [0..<g_rows g])"
    using phys_row_inj [OF assms] by (auto simp: distinct_map inj_on_def)
  ultimately have "mset (map (phys_row g) [0..<g_rows g]) = mset [0..<g_rows g]"
    by (metis distinct_upt set_eq_iff_mset_eq_distinct set_upt)
  then have "mset (map (phys_cells g) (map (phys_row g) [0..<g_rows g])) =
      mset (map (phys_cells g) [0..<g_rows g])"
    by (simp only: mset_map)
  moreover have "screen g = map (phys_cells g) (map (phys_row g) [0..<g_rows g])"
    by (simp add: screen_def grid_row_phys)
  ultimately show ?thesis
    by (simp only: cells_phys [OF assms] refs)
qed

lemma pool_wf_screen:
  assumes "grid_wf g"
  shows "pool_wf g \<longleftrightarrow> distinct (cell_refs (concat (screen g))) \<and>
     (\<forall>k \<in> set (cell_refs (concat (screen g))). k < length (g_clusters g) \<and> g_clusters g ! k \<noteq> [])"
  using mset_screen [OF assms] unfolding pool_wf_def
  by (metis mset_eq_imp_distinct_iff mset_eq_setD)

text \<open>An operation on the screen that only loses references keeps the pool invariant.\<close>

lemma pool_wf_sub:
  assumes "grid_wf g" "grid_wf h" "pool_wf g" "g_clusters h = g_clusters g"
    "mset (cell_refs (concat (screen h))) \<subseteq># mset (cell_refs (concat (screen g)))"
  shows "pool_wf h"
proof -
  have g: "distinct (cell_refs (concat (screen g)))"
    "\<forall>k \<in> set (cell_refs (concat (screen g))). k < length (g_clusters g) \<and> g_clusters g ! k \<noteq> []"
    using assms(3) unfolding pool_wf_screen [OF assms(1)] by blast+
  obtain ys where "mset (cell_refs (concat (screen g))) = mset (cell_refs (concat (screen h)) @ ys)"
    using assms(5) by (metis ex_mset mset_append mset_subset_eq_exists_conv)
  then have "distinct (cell_refs (concat (screen h)))"
    using g(1) mset_eq_imp_distinct_iff by fastforce
  moreover have "set (cell_refs (concat (screen h))) \<subseteq> set (cell_refs (concat (screen g)))"
    using assms(5) by (metis set_mset_mono set_mset_mset)
  ultimately show ?thesis
    using g(2) assms(4) unfolding pool_wf_screen [OF assms(2)] by auto
qed

lemma put_phys_fields [simp]:
  "g_cols (put_phys pr row g) = g_cols g" "g_rows (put_phys pr row g) = g_rows g"
  "g_top_row (put_phys pr row g) = g_top_row g" "g_clusters (put_phys pr row g) = g_clusters g"
  "g_cursor_col (put_phys pr row g) = g_cursor_col g" "g_cursor_row (put_phys pr row g) = g_cursor_row g"
  "g_scrollback (put_phys pr row g) = g_scrollback g" "g_wrapped (put_phys pr row g) = g_wrapped g"
  "g_prompt (put_phys pr row g) = g_prompt g" "g_sb_wrapped (put_phys pr row g) = g_sb_wrapped g"
  "g_sb_clusters (put_phys pr row g) = g_sb_clusters g" "g_sb_prompt (put_phys pr row g) = g_sb_prompt g"
  "g_filed_blank_run (put_phys pr row g) = g_filed_blank_run g"
  "phys_row (put_phys pr row g) r = phys_row g r" "mirrors_wf (put_phys pr row g) = mirrors_wf g"
  by (simp_all add: put_phys_def phys_row_def mirrors_wf_def Let_def)

lemma put_row:
  assumes "grid_wf g" "r < g_rows g" "length row = g_cols g" "\<forall>c \<in> set row. cell_wf c"
  shows "grid_wf (put_phys (phys_row g r) row g)"
    and "screen (put_phys (phys_row g r) row g) = (screen g)[r := row]"
    and "g_panic (put_phys (phys_row g r) row g) = g_panic g"
    and "wrap_flags (put_phys (phys_row g r) row g) = wrap_flags g"
proof -
  let ?p = "phys_row g r" and ?h = "put_phys (phys_row g r) row g"
  have p: "?p < g_rows g" using phys_row_lt [OF assms(1,2)] .
  note len = phys_cells_length [OF assms(1) p]
  show "grid_wf ?h"
    using assms len by (auto simp: grid_wf_def put_phys_def dest: in_set_blit)
  show "g_panic ?h = g_panic g" using len by (simp add: put_phys_def)
  show "wrap_flags ?h = wrap_flags g" by (simp add: wrap_flags_def)
  show "screen ?h = (screen g)[r := row]"
  proof (rule nth_equalityI)
    fix i assume "i < length (screen ?h)"
    then have i: "i < g_rows g" by simp
    have "phys_cells ?h (phys_row g i) = (if phys_row g i = ?p then row else phys_cells g (phys_row g i))"
      using phys_cells_blit [OF assms(1) p phys_row_lt [OF assms(1) i] assms(3), of ?h] len
      by (simp add: put_phys_def)
    then show "screen ?h ! i = (screen g)[r := row] ! i"
      using i phys_row_inj [OF assms(1) i assms(2)] by (auto simp: screen_nth grid_row_phys nth_list_update)
  qed simp
qed

lemma row_cells_wf: "grid_wf g \<Longrightarrow> c \<in> set (phys_cells g p) \<Longrightarrow> cell_wf c"
  by (auto simp: grid_wf_def phys_cells_def slice_def dest: in_set_takeD in_set_dropD)

lemma copy_row_facts:
  assumes "grid_wf g" "src < g_rows g" "dst < g_rows g"
  shows "grid_wf (copy_row src dst g)" "screen (copy_row src dst g) = (screen g)[dst := screen g ! src]"
    "g_panic (copy_row src dst g) = g_panic g" "wrap_flags (copy_row src dst g) = wrap_flags g"
    "g_rows (copy_row src dst g) = g_rows g"
proof -
  have "length (phys_cells g (phys_row g src)) = g_cols g" "\<forall>c \<in> set (phys_cells g (phys_row g src)). cell_wf c"
    using phys_cells_length(1) [OF assms(1) phys_row_lt [OF assms(1,2)]] row_cells_wf [OF assms(1)] by auto
  note p = put_row [OF assms(1,3) this]
  then show "grid_wf (copy_row src dst g)" "screen (copy_row src dst g) = (screen g)[dst := screen g ! src]"
    "g_panic (copy_row src dst g) = g_panic g" "wrap_flags (copy_row src dst g) = wrap_flags g"
    "g_rows (copy_row src dst g) = g_rows g"
    using assms(2) by (simp_all add: copy_row_def screen_nth grid_row_phys)
qed

text \<open>Fields only the cell store differs in.\<close>

definition same_but_cells :: "grid \<Rightarrow> grid \<Rightarrow> bool" where
  "same_but_cells g h \<longleftrightarrow> h = g\<lparr>g_cells := g_cells h, g_panic := g_panic h\<rparr>"

lemma copy_row_same: "same_but_cells g (copy_row src dst g)"
  by (simp add: same_but_cells_def copy_row_def put_phys_def check_def)

lemma same_but_cells_trans: "same_but_cells g h \<Longrightarrow> same_but_cells h k \<Longrightarrow> same_but_cells g k"
  by (cases g, cases h, cases k) (simp add: same_but_cells_def)

lemma same_but_cells_fields:
  assumes "same_but_cells g h"
  shows "g_rows h = g_rows g" "g_cols h = g_cols g" "g_top_row h = g_top_row g"
    "g_clusters h = g_clusters g" "g_cursor_col h = g_cursor_col g" "g_cursor_row h = g_cursor_row g"
    "g_scrollback h = g_scrollback g" "g_wrapped h = g_wrapped g" "g_prompt h = g_prompt g"
    "g_sb_wrapped h = g_sb_wrapped g" "g_sb_clusters h = g_sb_clusters g"
    "g_sb_prompt h = g_sb_prompt g"
  using assms by (cases g, cases h, simp add: same_but_cells_def)+

text \<open>Rows \<open>tp..bt\<close> moved up or down by \<open>n\<close>, the rows left behind replaced by \<open>x\<close>.\<close>

definition rows_up :: "nat \<Rightarrow> nat \<Rightarrow> nat \<Rightarrow> 'a \<Rightarrow> 'a list \<Rightarrow> 'a list" where
  "rows_up tp bt n x xs =
     map (\<lambda>i. if tp \<le> i \<and> i \<le> bt then (if i + n \<le> bt then xs ! (i + n) else x) else xs ! i)
       [0..<length xs]"

definition rows_down :: "nat \<Rightarrow> nat \<Rightarrow> nat \<Rightarrow> 'a \<Rightarrow> 'a list \<Rightarrow> 'a list" where
  "rows_down tp bt n x xs =
     map (\<lambda>i. if tp \<le> i \<and> i \<le> bt then (if tp + n \<le> i then xs ! (i - n) else x) else xs ! i)
       [0..<length xs]"

lemma rows_simps [simp]:
  "length (rows_up tp bt n x xs) = length xs" "length (rows_down tp bt n x xs) = length xs"
  "i < length xs \<Longrightarrow> rows_up tp bt n x xs ! i =
     (if tp \<le> i \<and> i \<le> bt then (if i + n \<le> bt then xs ! (i + n) else x) else xs ! i)"
  "i < length xs \<Longrightarrow> rows_down tp bt n x xs ! i =
     (if tp \<le> i \<and> i \<le> bt then (if tp + n \<le> i then xs ! (i - n) else x) else xs ! i)"
  by (simp_all add: rows_up_def rows_down_def)

lemma rows_up_0 [simp]: "rows_up tp bt 0 x xs = xs" "rows_down tp bt 0 x xs = xs"
  by (auto intro!: nth_equalityI)

lemma rows_up_Suc:
  "tp \<le> bt \<Longrightarrow> bt < length xs \<Longrightarrow> rows_up tp bt 1 x (rows_up tp bt n x xs) = rows_up tp bt (Suc n) x xs"
  by (rule nth_equalityI) auto

lemma rows_down_Suc:
  "tp \<le> bt \<Longrightarrow> bt < length xs \<Longrightarrow>
   rows_down tp bt 1 x (rows_down tp bt n x xs) = rows_down tp bt (Suc n) x xs"
  by (rule nth_equalityI) (auto, (rule arg_cong [of _ _ "(!) xs"], simp)?)

lemma shift_up_fold:
  fixes xs :: "'a list"
  assumes "tp \<le> bt" "bt < length xs"
  shows "fold (\<lambda>r ys. ys[r := ys ! (r + 1)]) [tp..<bt] xs = (rows_up tp bt 1 x xs)[bt := xs ! bt]"
  using assms
proof (induction bt)
  case 0
  then show ?case by simp (rule nth_equalityI, auto simp: nth_list_update)
next
  case (Suc bt)
  show ?case
  proof (cases "tp = Suc bt")
    case True
    then show ?thesis using Suc.prems by (auto intro!: nth_equalityI simp: nth_list_update)
  next
    case False
    then have f: "fold (\<lambda>r ys. ys[r := ys ! (r + 1)]) [tp..<bt] xs = (rows_up tp bt 1 x xs)[bt := xs ! bt]"
      using Suc by simp
    have "fold (\<lambda>r ys. ys[r := ys ! (r + 1)]) [tp..<Suc bt] xs =
        ((rows_up tp bt 1 x xs)[bt := xs ! bt])[bt := xs ! (bt + 1)]"
      using False Suc.prems f by simp
    also have "\<dots> = (rows_up tp (Suc bt) 1 x xs)[Suc bt := xs ! Suc bt]"
      using False Suc.prems by (auto intro!: nth_equalityI simp: nth_list_update)
    finally show ?thesis .
  qed
qed

lemma shift_down_fold:
  fixes xs :: "'a list"
  assumes "tp \<le> bt" "bt < length xs"
  shows "fold (\<lambda>r ys. ys[r + 1 := ys ! r]) (rev [tp..<bt]) xs = (rows_down tp bt 1 x xs)[tp := xs ! tp]"
  using assms
proof (induction bt arbitrary: xs)
  case 0
  then show ?case by simp (rule nth_equalityI, auto simp: nth_list_update)
next
  case (Suc bt)
  show ?case
  proof (cases "tp = Suc bt")
    case True
    then show ?thesis using Suc.prems by (auto intro!: nth_equalityI simp: nth_list_update)
  next
    case False
    let ?ys = "xs[bt + 1 := xs ! bt]"
    have "fold (\<lambda>r ys. ys[r + 1 := ys ! r]) (rev [tp..<bt]) ?ys = (rows_down tp bt 1 x ?ys)[tp := ?ys ! tp]"
      using Suc.IH [of ?ys] False Suc.prems by simp
    also have "\<dots> = (rows_down tp (Suc bt) 1 x xs)[tp := xs ! tp]"
      using False Suc.prems by (auto intro!: nth_equalityI simp: nth_list_update le_Suc_eq)
    finally show ?thesis using False Suc.prems by simp
  qed
qed

text \<open>A sequence of row copies inside the screen.\<close>

lemma copy_rows:
  assumes "grid_wf g" "\<forall>r \<in> set rs. src r < g_rows g \<and> dst r < g_rows g"
  shows "grid_wf (fold (\<lambda>r. copy_row (src r) (dst r)) rs g) \<and>
     screen (fold (\<lambda>r. copy_row (src r) (dst r)) rs g) =
       fold (\<lambda>r ys. ys[dst r := ys ! src r]) rs (screen g) \<and>
     g_panic (fold (\<lambda>r. copy_row (src r) (dst r)) rs g) = g_panic g \<and>
     same_but_cells g (fold (\<lambda>r. copy_row (src r) (dst r)) rs g)"
  using assms
proof (induction rs arbitrary: g)
  case Nil
  then show ?case by (simp add: same_but_cells_def)
next
  case (Cons r rs)
  have b: "src r < g_rows g" "dst r < g_rows g" using Cons.prems by auto
  note c = copy_row_facts [OF Cons.prems(1) b]
  show ?case
    using Cons.IH [of "copy_row (src r) (dst r) g"] c Cons.prems
      same_but_cells_trans [OF copy_row_same, of "src r" "dst r" g] by simp
qed

lemma same_but_cells_flags:
  assumes "same_but_cells g h"
  shows "wrap_flags h = wrap_flags g" "prompt_flags h = prompt_flags g" "mirrors_wf h = mirrors_wf g"
    "phys_row h = phys_row g"
  using same_but_cells_fields [OF assms]
  by (simp_all add: wrap_flags_def prompt_flags_def mirrors_wf_def phys_row_def Let_def fun_eq_iff)

lemma shift_rows_up:
  assumes "grid_wf g" "tp \<le> bt" "bt < g_rows g" "h = fold (\<lambda>r. copy_row (r + 1) r) [tp..<bt] g"
  shows "grid_wf h" "screen h = (rows_up tp bt 1 x (screen g))[bt := screen g ! bt]"
    "g_panic h = g_panic g" "same_but_cells g h"
  using copy_rows [OF assms(1), of "[tp..<bt]" "\<lambda>r. r + 1" "\<lambda>r. r"] shift_up_fold [of tp bt "screen g" x] assms
  by simp_all

lemma shift_rows_down:
  assumes "grid_wf g" "tp \<le> bt" "bt < g_rows g" "h = fold (\<lambda>r. copy_row r (r + 1)) (rev [tp..<bt]) g"
  shows "grid_wf h" "screen h = (rows_down tp bt 1 x (screen g))[tp := screen g ! tp]"
    "g_panic h = g_panic g" "same_but_cells g h"
  using copy_rows [OF assms(1), of "rev [tp..<bt]" "\<lambda>r. r" "\<lambda>r. r + 1"] shift_down_fold [of tp bt "screen g" x] assms
  by simp_all

lemma put_flag:
  assumes "grid_wf g" "r < g_rows g" "length xs = g_rows g"
  shows "map (\<lambda>i. xs[phys_row g r := z] ! phys_row g i) [0..<g_rows g] =
           (map (\<lambda>i. xs ! phys_row g i) [0..<g_rows g])[r := z]"
  using assms phys_row_inj [OF assms(1)] phys_row_lt [OF assms(1)]
  by (intro nth_equalityI) (auto simp: nth_list_update)

text \<open>Changing the continuation flags alone.\<close>

lemma phys_row_wrapped [simp]:
  "phys_row (g\<lparr>g_wrapped := ws\<rparr>) = phys_row g" "phys_cells (g\<lparr>g_wrapped := ws\<rparr>) = phys_cells g"
  "screen (g\<lparr>g_wrapped := ws\<rparr>) = screen g" "pool_wf (g\<lparr>g_wrapped := ws\<rparr>) = pool_wf g"
  "mirrors_wf (g\<lparr>g_wrapped := ws\<rparr>) = mirrors_wf g"
  "wrap_flags (g\<lparr>g_wrapped := ws\<rparr>) = map (\<lambda>r. ws ! phys_row g r) [0..<g_rows g]"
  by (simp_all add: phys_row_def phys_cells_def screen_def grid_row_def pool_wf_def mirrors_wf_def
      wrap_flags_def Let_def fun_eq_iff)

lemma grid_wf_wrapped: "grid_wf g \<Longrightarrow> length ws = g_rows g \<Longrightarrow> grid_wf (g\<lparr>g_wrapped := ws\<rparr>)"
  by (simp add: grid_wf_def)

lemma put_wrapped_eq:
  assumes "grid_wf g" "r < g_rows g"
  shows "\<exists>ws. put_wrapped r w g = g\<lparr>g_wrapped := ws\<rparr> \<and> length ws = g_rows g \<and>
           map (\<lambda>i. ws ! phys_row g i) [0..<g_rows g] = (wrap_flags g)[r := w]"
  using put_flag [OF assms, of "g_wrapped g" w] assms(1)
  by (intro exI [of _ "(g_wrapped g)[phys_row g r := w]"])
    (simp add: put_wrapped_def wrap_flags_def grid_wf_def)

lemma wrap_copies:
  assumes "grid_wf g" "\<forall>r \<in> set rs. r + 1 < g_rows g"
  shows "\<exists>ws. fold (\<lambda>r. copy_wrapped (r + 1) r) rs g = g\<lparr>g_wrapped := ws\<rparr> \<and> length ws = g_rows g \<and>
           map (\<lambda>i. ws ! phys_row g i) [0..<g_rows g] =
             fold (\<lambda>r ys. ys[r := ys ! (r + 1)]) rs (wrap_flags g)"
  using assms
proof (induction rs arbitrary: g)
  case Nil
  then show ?case by (intro exI [of _ "g_wrapped g"]) (simp add: grid_wf_def wrap_flags_def)
next
  case (Cons r rs)
  have r: "r < g_rows g" "r + 1 < g_rows g" using Cons.prems(2) by auto
  have "copy_wrapped (r + 1) r g = put_wrapped r (wrap_flags g ! (r + 1)) g"
    using r by (simp add: copy_wrapped_def put_wrapped_def wrap_flags_def)
  then obtain ws where ws: "copy_wrapped (r + 1) r g = g\<lparr>g_wrapped := ws\<rparr>" "length ws = g_rows g"
    "map (\<lambda>i. ws ! phys_row g i) [0..<g_rows g] = (wrap_flags g)[r := wrap_flags g ! (r + 1)]"
    using put_wrapped_eq [OF Cons.prems(1) r(1)] by metis
  have "grid_wf (g\<lparr>g_wrapped := ws\<rparr>)" using Cons.prems(1) ws(2) by (rule grid_wf_wrapped)
  from Cons.IH [OF this] Cons.prems(2) ws show ?case by simp
qed

lemma fold_put_wrapped:
  assumes "grid_wf g" "\<forall>r \<in> set rs. r < g_rows g"
  shows "\<exists>ws. fold (\<lambda>r. put_wrapped r w) rs g = g\<lparr>g_wrapped := ws\<rparr> \<and> length ws = g_rows g \<and>
           map (\<lambda>i. ws ! phys_row g i) [0..<g_rows g] =
             fold (\<lambda>r ys. ys[r := w]) rs (wrap_flags g)"
  using assms
proof (induction rs arbitrary: g)
  case Nil
  then show ?case by (intro exI [of _ "g_wrapped g"]) (simp add: grid_wf_def wrap_flags_def)
next
  case (Cons r rs)
  then obtain ws where ws: "put_wrapped r w g = g\<lparr>g_wrapped := ws\<rparr>" "length ws = g_rows g"
    "map (\<lambda>i. ws ! phys_row g i) [0..<g_rows g] = (wrap_flags g)[r := w]"
    using put_wrapped_eq [OF Cons.prems(1), of r w] by auto
  have "grid_wf (g\<lparr>g_wrapped := ws\<rparr>)" using Cons.prems(1) ws(2) by (rule grid_wf_wrapped)
  from Cons.IH [OF this] Cons.prems(2) ws show ?case by simp
qed

lemma fold_const_update:
  "fold (\<lambda>r ys. ys[r := w]) rs xs = map (\<lambda>i. if i \<in> set rs then w else xs ! i) [0..<length xs]"
proof (induction rs arbitrary: xs)
  case Nil
  then show ?case by (simp add: map_nth)
next
  case (Cons r rs)
  then show ?case by (auto intro!: nth_equalityI simp: nth_list_update)
qed

lemma blank_row_facts:
  assumes "grid_wf g" "r < g_rows g" "blank_cell fill"
  shows "grid_wf (blank_row r fill g)"
    "screen (blank_row r fill g) = (screen g)[r := replicate (g_cols g) fill]"
    "g_panic (blank_row r fill g) = g_panic g" "same_but_cells g (blank_row r fill g)"
  using put_row [OF assms(1,2), of "replicate (g_cols g) fill"] assms(3)
  by (auto simp: blank_row_def blank_cell_def same_but_cells_def put_phys_def check_def)

end
