(* ===== verification/GridRegion.thy ===== *)
theory GridRegion
  imports GridScroll
begin

text \<open>
  Region scrolls (\<open>scroll_up_region\<close>, \<open>scroll_down_region\<close> of \<open>grid.rs\<close>) as operations on the
  list of rows: what they do to the screen and to the continuation flags, that they keep the
  grid invariant, and what a region anchored at the top files into the scrollback.
\<close>

section \<open>One row gives way\<close>

lemma flags_length: "length (wrap_flags g) = g_rows g" "length (prompt_flags g) = g_rows g"
  by (simp_all add: wrap_flags_def prompt_flags_def)

lemma rows_up_one:
  assumes "tp \<le> bt" "bt < length xs"
  shows "rows_up tp bt 1 x xs = take tp xs @ slice xs (tp + 1) (bt - tp) @ x # drop (bt + 1) xs"
  using assms
  by (intro nth_equalityI) (auto simp: nth_append nth_Cons' slice_def)

lemma rows_down_one:
  assumes "tp \<le> bt" "bt < length xs"
  shows "rows_down tp bt 1 x xs = take tp xs @ x # slice xs tp (bt - tp) @ drop (bt + 1) xs"
  using assms
  by (intro nth_equalityI) (auto simp: nth_append nth_Cons' slice_def)

lemma split_region:
  assumes "tp \<le> bt" "bt < length xs"
  shows "xs = take tp xs @ xs ! tp # slice xs (tp + 1) (bt - tp) @ drop (bt + 1) xs"
    and "xs = take tp xs @ slice xs tp (bt - tp) @ xs ! bt # drop (bt + 1) xs"
proof -
  have eq: "i = bt" if "i \<le> bt" "\<not> i - tp < bt - tp" "\<not> i < tp" for i
    using that assms by linarith
  show "xs = take tp xs @ xs ! tp # slice xs (tp + 1) (bt - tp) @ drop (bt + 1) xs"
    "xs = take tp xs @ slice xs tp (bt - tp) @ xs ! bt # drop (bt + 1) xs"
    using assms
    by (intro nth_equalityI; auto simp: nth_append nth_Cons' slice_def dest: eq)+
qed

lemma refs_concat_append [simp]:
  "cell_refs (concat (xs @ ys)) = cell_refs (concat xs) @ cell_refs (concat ys)"
  "cell_refs (concat (x # ys)) = cell_refs x @ cell_refs (concat ys)"
  by simp_all

lemma refs_rows_up:
  assumes "tp \<le> bt" "bt < length xs" "cell_refs x = []"
  shows "mset (cell_refs (concat xs)) = mset (cell_refs (xs ! tp)) + mset (cell_refs (concat (rows_up tp bt 1 x xs)))"
  by (subst split_region(1) [OF assms(1,2)]) (simp add: rows_up_one [OF assms(1,2), unfolded One_nat_def] assms(3) del: concat_append concat.simps)

lemma refs_rows_down:
  assumes "tp \<le> bt" "bt < length xs" "cell_refs x = []"
  shows "mset (cell_refs (concat xs)) = mset (cell_refs (xs ! bt)) + mset (cell_refs (concat (rows_down tp bt 1 x xs)))"
  by (subst split_region(2) [OF assms(1,2)]) (simp add: rows_down_one [OF assms(1,2), unfolded One_nat_def] assms(3) del: concat_append concat.simps)

text \<open>The pool after the texts of row \<open>row\<close> moved out, when that row then leaves the screen.\<close>

lemma pool_wf_leave:
  assumes "grid_wf g" "grid_wf h" "pool_wf g"
    "mset (cell_refs (concat (screen g))) = mset (cell_refs row) + mset (cell_refs (concat (screen h)))"
    "g_clusters h = g_clusters g \<or> g_clusters h = pool_without row (g_clusters g)"
  shows "pool_wf h"
proof -
  let ?R = "cell_refs row" and ?S = "cell_refs (concat (screen h))"
  have m: "mset (cell_refs (concat (screen g))) = mset (?R @ ?S)" using assms(4) by simp
  have "distinct (cell_refs (concat (screen g)))"
    "\<forall>k \<in> set (cell_refs (concat (screen g))). k < length (g_clusters g) \<and> g_clusters g ! k \<noteq> []"
    using assms(3) unfolding pool_wf_screen [OF assms(1)] by blast+
  then have "distinct (?R @ ?S)" "\<forall>k \<in> set (?R @ ?S). k < length (g_clusters g) \<and> g_clusters g ! k \<noteq> []"
    using mset_eq_imp_distinct_iff [OF m] mset_eq_setD [OF m] by simp_all
  then have d: "distinct ?S" "set ?R \<inter> set ?S = {}"
    "\<forall>k \<in> set ?S. k < length (g_clusters g) \<and> g_clusters g ! k \<noteq> []" by auto
  show ?thesis
    unfolding pool_wf_screen [OF assms(2)]
  proof (intro conjI ballI)
    fix k assume k: "k \<in> set ?S"
    then have "k \<notin> set ?R" "k < length (g_clusters g)" "g_clusters g ! k \<noteq> []" using d by auto
    then show "k < length (g_clusters h)" "g_clusters h ! k \<noteq> []" using assms(5) by auto
  qed (rule d(1))
qed

section \<open>Filing the row that leaves\<close>

text \<open>\<open>h\<close> has filed \<open>n\<close> lines more than \<open>g\<close>; the mirrors are not trimmed yet.\<close>

definition filed :: "nat \<Rightarrow> grid \<Rightarrow> grid \<Rightarrow> bool" where
  "filed n g h \<longleftrightarrow>
     ms_capacity (g_scrollback h) = ms_capacity (g_scrollback g) \<and>
     (\<exists>ws. length ws = n \<and> g_sb_wrapped h = g_sb_wrapped g @ ws) \<and>
     length (g_sb_clusters h) = length (g_sb_clusters g) + n \<and>
     length (g_sb_prompt h) = length (g_sb_prompt g) + n \<and>
     ms_len (g_scrollback h) = min (ms_capacity (g_scrollback g)) (ms_len (g_scrollback g) + n)"

lemma filed_0: "grid_wf g \<Longrightarrow> g_scrollback h = g_scrollback g \<Longrightarrow> g_sb_wrapped h = g_sb_wrapped g \<Longrightarrow>
    g_sb_clusters h = g_sb_clusters g \<Longrightarrow> g_sb_prompt h = g_sb_prompt g \<Longrightarrow> filed 0 g h"
  by (simp add: filed_def grid_wf_def ms_wf_def)

lemma filed_trans: "filed m g h \<Longrightarrow> filed n h k \<Longrightarrow> filed (m + n) g k"
  unfolding filed_def by (force simp: min_def)

lemma filed_cong: "filed n g h \<Longrightarrow> g_scrollback k = g_scrollback h \<Longrightarrow> g_sb_wrapped k = g_sb_wrapped h \<Longrightarrow>
    g_sb_clusters k = g_sb_clusters h \<Longrightarrow> g_sb_prompt k = g_sb_prompt h \<Longrightarrow> filed n g k"
  by (simp add: filed_def)

lemma filed_trim:
  assumes "grid_wf g" "mirrors_wf g" "filed n g h"
  shows "mirrors_wf (trim_mirrors h)"
proof -
  obtain ws where "length ws = n" "g_sb_wrapped h = g_sb_wrapped g @ ws"
    using assms(3) by (auto simp: filed_def)
  then show ?thesis
    using trim_after_pushes(1) [OF assms(2), of h ws] assms(1,3) by (simp add: filed_def grid_wf_def)
qed

lemma ms_len_push: "ms_wf m \<Longrightarrow> ms_len (ms_push_line l m) = min (ms_capacity m) (ms_len m + 1)"
  by (auto simp: ms_push_line_def ms_wf_def Let_def)

lemma file_row_facts:
  assumes "grid_wf g" "pool_wf g" "r < g_rows g" "h = file_row (phys_row g r) g"
  shows "grid_wf h" "screen h = (screen g)[r := map (plain_cell g) (screen g ! r)]"
    "wrap_flags h = wrap_flags g" "g_panic h = g_panic g" "filed 1 g h"
    "g_clusters h = pool_without (screen g ! r) (g_clusters g)"
    "g_rows h = g_rows g" "g_cols h = g_cols g" "g_cursor_col h = g_cursor_col g"
    "g_cursor_row h = g_cursor_row g" "g_top_row h = g_top_row g"
proof -
  let ?p = "phys_row g r"
  have p: "?p < g_rows g" using phys_row_lt [OF assms(1,3)] .
  note len = phys_cells_length [OF assms(1) p]
  note eq = assms(4) [unfolded file_row_eq [OF assms(1,2) p]]
  have row: "screen g ! r = phys_cells g ?p" using assms(3) by (simp add: screen_nth grid_row_phys)
  have ms: "ms_wf (g_scrollback g)" using assms(1) by (simp add: grid_wf_def)
  note pushed = sb.push_wf [OF ms] sb.push_cap [OF ms]
  show "g_rows h = g_rows g" "g_cols h = g_cols g" "g_cursor_col h = g_cursor_col g"
    "g_cursor_row h = g_cursor_row g" "g_top_row h = g_top_row g" "g_panic h = g_panic g"
    "g_clusters h = pool_without (screen g ! r) (g_clusters g)"
    by (simp_all add: eq row)
  have phys: "phys_row h = phys_row g" by (rule ext, rule phys_row_cong) (simp_all add: eq)
  show "wrap_flags h = wrap_flags g" using phys by (simp add: wrap_flags_def eq)
  show "filed 1 g h"
    using pushed(2) ms_len_push [OF ms] by (simp add: filed_def eq)
  have cells: "\<forall>c \<in> set (map (plain_cell g) (phys_cells g ?p)). cell_wf c"
    using plain_cell_wf [OF assms(1)] row_cells_wf [OF assms(1)] by auto
  let ?row = "map (plain_cell g) (phys_cells g ?p)"
  have put: "put_phys ?p ?row g = g\<lparr>g_cells := blit (g_cells g) (?p * g_cols g) ?row\<rparr>"
    using len by (simp add: put_phys_def)
  have l: "length ?row = g_cols g" using len by simp
  note w = put_row(1,2) [OF assms(1,3) l cells, unfolded put]
  have "screen h = screen (g\<lparr>g_cells := blit (g_cells g) (?p * g_cols g) ?row\<rparr>)"
    by (simp add: eq screen_def grid_row_def phys_row_def Let_def)
  then show "screen h = (screen g)[r := map (plain_cell g) (screen g ! r)]" using w(2) by (simp add: row)
  show "grid_wf h"
    using w(1) assms(1) pool_without_wf [OF assms(1)] pushed(1) by (auto simp: grid_wf_def eq)
qed

section \<open>One line of a region scroll\<close>

lemma run_length_fields [simp]:
  "screen (g\<lparr>g_filed_blank_run := n\<rparr>) = screen g" "wrap_flags (g\<lparr>g_filed_blank_run := n\<rparr>) = wrap_flags g"
  "phys_row (g\<lparr>g_filed_blank_run := n\<rparr>) = phys_row g"
  "filed m (g\<lparr>g_filed_blank_run := n\<rparr>) h = filed m g h"
  by (simp_all add: screen_def grid_row_def wrap_flags_def phys_row_def filed_def Let_def fun_eq_iff)

lemma push_count_fields [simp]:
  "screen (g\<lparr>g_scroll_push_count := n\<rparr>) = screen g"
  "wrap_flags (g\<lparr>g_scroll_push_count := n\<rparr>) = wrap_flags g"
  "grid_wf (g\<lparr>g_scroll_push_count := n\<rparr>) = grid_wf g"
  "filed m k (g\<lparr>g_scroll_push_count := n\<rparr>) = filed m k g"
  by (simp_all add: screen_def grid_row_def wrap_flags_def phys_row_def filed_def grid_wf_def Let_def)

lemma region_file_facts:
  assumes "grid_wf g" "pool_wf g" "tp < g_rows g" "h = region_file tp g"
  shows "grid_wf h"
    "screen h = screen g \<or> screen h = (screen g)[tp := map (plain_cell g) (screen g ! tp)]"
    "g_clusters h = g_clusters g \<or> g_clusters h = pool_without (screen g ! tp) (g_clusters g)"
    "wrap_flags h = wrap_flags g" "g_panic h = g_panic g" "\<exists>n. filed n g h"
    "g_rows h = g_rows g" "g_cols h = g_cols g" "g_cursor_col h = g_cursor_col g"
    "g_cursor_row h = g_cursor_row g"
proof -
  let ?b = "list_all (\<lambda>c. ch c = 0x20 \<or> ch c = 0) (phys_cells g (phys_row g tp))"
  obtain n where n: "n = (if ?b then sat_add16 (g_filed_blank_run g) 1 else 0)" by blast
  have wf: "grid_wf (g\<lparr>g_filed_blank_run := n\<rparr>)" "pool_wf (g\<lparr>g_filed_blank_run := n\<rparr>)"
    "tp < g_rows (g\<lparr>g_filed_blank_run := n\<rparr>)" using assms by simp_all
  note f = file_row_facts [OF wf refl, simplified]
  have "h = (if \<not> (?b \<and> g_filed_blank_run g \<ge> MAX_FILED_BLANK_RUN)
      then (file_row (phys_row g tp) (g\<lparr>g_filed_blank_run := n\<rparr>))\<lparr>g_scroll_push_count := sat_inc64 (g_scroll_push_count g)\<rparr>
      else g)"
    unfolding assms(4) region_file_def Let_def n by simp
  moreover have "filed 0 g g" using assms(1) by (simp add: filed_0)
  ultimately show "grid_wf h"
    "screen h = screen g \<or> screen h = (screen g)[tp := map (plain_cell g) (screen g ! tp)]"
    "g_clusters h = g_clusters g \<or> g_clusters h = pool_without (screen g ! tp) (g_clusters g)"
    "wrap_flags h = wrap_flags g" "g_panic h = g_panic g" "\<exists>n. filed n g h"
    "g_rows h = g_rows g" "g_cols h = g_cols g" "g_cursor_col h = g_cursor_col g"
    "g_cursor_row h = g_cursor_row g"
    using f assms(1) by (auto intro: exI [of _ 1])
qed

text \<open>The two shapes of the result: the row that leaves does so with or without its texts.\<close>

lemma rows_up_overwritten:
  "tp \<le> bt \<Longrightarrow> bt < length xs \<Longrightarrow> rows_up tp bt 1 x (xs[tp := y]) = rows_up tp bt 1 x xs"
  by (rule nth_equalityI) (auto simp: nth_list_update)

lemma blank_last:
  "tp \<le> bt \<Longrightarrow> bt < length xs \<Longrightarrow> (rows_up tp bt 1 x xs)[bt := x] = rows_up tp bt 1 x xs"
  "tp \<le> bt \<Longrightarrow> bt < length xs \<Longrightarrow> (rows_down tp bt 1 x xs)[tp := x] = rows_down tp bt 1 x xs"
  by (rule nth_equalityI, auto simp: nth_list_update)+

lemma region_flags:
  assumes "tp \<le> bt" "bt < length xs"
  shows "(if 0 < tp then (rows_up tp bt 1 False xs)[bt := z, tp := False]
          else (rows_up tp bt 1 False xs)[bt := z])[bt := False] =
         (if 0 < tp \<and> tp < bt then (rows_up tp bt 1 False xs)[tp := False] else rows_up tp bt 1 False xs)"
  using assms
  by (intro nth_equalityI) (auto simp: nth_list_update simp del: One_nat_def split: if_splits)

lemma region_line_facts:
  assumes "grid_wf g" "pool_wf g" "tp \<le> bt" "bt < g_rows g" "blank_cell fill"
    "h = region_line tp bt fill g"
  shows "grid_wf h" "pool_wf h" "screen h = rows_up tp bt 1 (replicate (g_cols g) fill) (screen g)"
    "wrap_flags h = (let ws = rows_up tp bt 1 False (wrap_flags g) in
        if tp > 0 \<and> tp < bt then ws[tp := False] else ws)"
    "g_panic h = g_panic g" "\<exists>n. filed n g h"
    "g_rows h = g_rows g" "g_cols h = g_cols g" "g_cursor_col h = g_cursor_col g"
    "g_cursor_row h = g_cursor_row g"
proof -
  obtain g1 where g1: "g1 = (if tp \<le> MAX_RESERVED_HEADER_ROWS then region_file tp g else g)" by blast
  have tp: "tp < g_rows g" using assms by simp
  have f1: "grid_wf g1"
    "screen g1 = screen g \<or> screen g1 = (screen g)[tp := map (plain_cell g) (screen g ! tp)]"
    "g_clusters g1 = g_clusters g \<or> g_clusters g1 = pool_without (screen g ! tp) (g_clusters g)"
    "wrap_flags g1 = wrap_flags g" "g_panic g1 = g_panic g" "\<exists>n. filed n g g1"
    "g_rows g1 = g_rows g" "g_cols g1 = g_cols g" "g_cursor_col g1 = g_cursor_col g"
    "g_cursor_row g1 = g_cursor_row g"
    using region_file_facts [OF assms(1,2) tp refl] filed_0 [OF assms(1)] assms(1)
    unfolding g1 by (auto split: if_splits)
  obtain g2 where g2: "g2 = fold (\<lambda>r. copy_row (r + 1) r) [tp..<bt] g1" by blast
  have bt1: "bt < g_rows g1" using assms(4) f1(7) by simp
  note f2 = shift_rows_up [OF f1(1) assms(3) bt1 g2]
  note f2s = same_but_cells_fields [OF f2(4)] same_but_cells_flags [OF f2(4)]
  have "\<forall>r \<in> set [tp..<bt]. r + 1 < g_rows g2" using bt1 f2s(1) by auto
  then obtain ws where ws: "fold (\<lambda>r. copy_wrapped (r + 1) r) [tp..<bt] g2 = g2\<lparr>g_wrapped := ws\<rparr>"
    "length ws = g_rows g2"
    "map (\<lambda>i. ws ! phys_row g2 i) [0..<g_rows g2] =
       fold (\<lambda>r ys. ys[r := ys ! (r + 1)]) [tp..<bt] (wrap_flags g2)"
    using wrap_copies [OF f2(1), of "[tp..<bt]"] by blast
  have wfw: "grid_wf (g2\<lparr>g_wrapped := ws\<rparr>)" using f2(1) ws(2) by (rule grid_wf_wrapped)
  let ?W = "(rows_up tp bt 1 False (wrap_flags g))[bt := wrap_flags g ! bt]"
  have W: "wrap_flags (g2\<lparr>g_wrapped := ws\<rparr>) = ?W"
    using ws(3) shift_up_fold [of tp bt "wrap_flags g" False] assms(3,4) f1(4,7) f2s(1,13)
    by (simp add: flags_length)
  obtain g3 where g3: "g3 = (if tp > 0 then put_wrapped tp False (g2\<lparr>g_wrapped := ws\<rparr>) else g2\<lparr>g_wrapped := ws\<rparr>)"
    by blast
  obtain ws3 where ws3: "g3 = g2\<lparr>g_wrapped := ws3\<rparr>" "length ws3 = g_rows g2"
    "wrap_flags g3 = (if tp > 0 then ?W[tp := False] else ?W)"
    using put_wrapped_eq [OF wfw, of tp False] tp f1(7) f2s(1) W ws(2) unfolding g3
    by (cases "tp > 0") auto
  have wf3: "grid_wf g3" unfolding ws3(1) using f2(1) ws3(2) by (rule grid_wf_wrapped)
  have bt3: "bt < g_rows g3" using bt1 f2s(1) ws3(1) by simp
  obtain ws4 where ws4: "put_wrapped bt False g3 = g2\<lparr>g_wrapped := ws4\<rparr>" "length ws4 = g_rows g2"
    "wrap_flags (g2\<lparr>g_wrapped := ws4\<rparr>) = (wrap_flags g3)[bt := False]"
    using put_wrapped_eq [OF wf3 bt3, of False] ws3(1) by auto
  have wf4: "grid_wf (g2\<lparr>g_wrapped := ws4\<rparr>)" using f2(1) ws4(2) by (rule grid_wf_wrapped)
  have bt4: "bt < g_rows (g2\<lparr>g_wrapped := ws4\<rparr>)" using bt1 f2s(1) by simp
  note f5 = blank_row_facts [OF wf4 bt4 assms(5)]
  note f5s = same_but_cells_fields [OF f5(4)] same_but_cells_flags [OF f5(4)]
  have h: "h = blank_row bt fill (g2\<lparr>g_wrapped := ws4\<rparr>)"
    unfolding assms(6) region_line_def Let_def g1 [symmetric] g2 [symmetric] ws(1) g3 [symmetric] ws4(1) ..
  show wf: "grid_wf h" using f5(1) h by simp
  have scr: "screen h = rows_up tp bt 1 (replicate (g_cols g) fill) (screen g)"
  proof -
    have b: "bt < length (screen g)" using assms(4) by simp
    have "rows_up tp bt 1 x (screen g1) = rows_up tp bt 1 x (screen g)" for x
      using f1(2) rows_up_overwritten [OF assms(3) b] by auto
    then show ?thesis
      using f5(2) f2(2) [of "replicate (g_cols g) fill"] f1(8) f2s(2) blank_last(1) [OF assms(3) b] h by simp
  qed
  then show "screen h = rows_up tp bt 1 (replicate (g_cols g) fill) (screen g)" .
  show "wrap_flags h = (let ws = rows_up tp bt 1 False (wrap_flags g) in
        if tp > 0 \<and> tp < bt then ws[tp := False] else ws)"
    using f5s(13) ws4(3) region_flags [OF assms(3), of "wrap_flags g"] assms(4)
    unfolding h ws3(3) Let_def by (simp add: flags_length)
  show "g_panic h = g_panic g" using f5(3) f2(3) f1(5) h by simp
  show "g_rows h = g_rows g" "g_cols h = g_cols g" "g_cursor_col h = g_cursor_col g"
    "g_cursor_row h = g_cursor_row g"
    using f5s f2s f1 h by simp_all
  show "\<exists>n. filed n g h" using f5s f2s f1(6) h by (auto intro: filed_cong)
  have refs: "mset (cell_refs (concat (screen g))) =
      mset (cell_refs (screen g ! tp)) + mset (cell_refs (concat (screen h)))"
    using refs_rows_up [OF assms(3), of "screen g" "replicate (g_cols g) fill"] assms(4,5)
      cell_refs_blank [of "replicate (g_cols g) fill"] by (simp add: scr)
  show "pool_wf h"
    using pool_wf_leave [OF assms(1) wf assms(2) refs] f1(3) f5s f2s h by simp
qed

section \<open>Region scrolls\<close>

text \<open>
  The continuation flags after \<open>n > 0\<close> lines: they travel with their rows, and the row now at
  the top of a band below row 0 loses its flag.
\<close>

definition region_wraps :: "nat \<Rightarrow> nat \<Rightarrow> nat \<Rightarrow> bool list \<Rightarrow> bool list" where
  "region_wraps tp bt n ws =
     (if tp > 0 \<and> n > 0 then (rows_up tp bt n False ws)[tp := False] else rows_up tp bt n False ws)"

lemma region_wraps_step:
  assumes "tp \<le> bt" "bt < length xs"
  shows "(let ws = rows_up tp bt 1 False (region_wraps tp bt n xs) in
        if tp > 0 \<and> tp < bt then ws[tp := False] else ws) = region_wraps tp bt (Suc n) xs"
  using assms
  by (intro nth_equalityI)
    (auto simp: region_wraps_def nth_list_update Let_def rows_simps(3) [of _ _ _ _ "Suc 0"] split: if_splits)

lemma region_lines:
  assumes "grid_wf g" "pool_wf g" "tp \<le> bt" "bt < g_rows g" "blank_cell fill"
    "h = (region_line tp bt fill ^^ n) g"
  shows "grid_wf h \<and> pool_wf h \<and>
    screen h = rows_up tp bt n (replicate (g_cols g) fill) (screen g) \<and>
    wrap_flags h = region_wraps tp bt n (wrap_flags g) \<and> g_panic h = g_panic g \<and>
    (\<exists>m. filed m g h) \<and> g_rows h = g_rows g \<and> g_cols h = g_cols g \<and>
    g_cursor_col h = g_cursor_col g \<and> g_cursor_row h = g_cursor_row g"
  using assms(6)
proof (induction n arbitrary: h)
  case 0
  moreover have "filed 0 g g" using assms(1) by (simp add: filed_0)
  ultimately show ?case using assms(1,2) by (auto simp: region_wraps_def)
next
  case (Suc n)
  let ?k = "(region_line tp bt fill ^^ n) g"
  note ih = Suc.IH [OF refl]
  have k: "grid_wf ?k" "pool_wf ?k" "bt < g_rows ?k" using ih assms(4) by simp_all
  have h: "h = region_line tp bt fill ?k" using Suc.prems by simp
  note f = region_line_facts [OF k(1,2) assms(3) k(3) assms(5) h]
  have "screen h = rows_up tp bt (Suc n) (replicate (g_cols g) fill) (screen g)"
    using f(3) ih rows_up_Suc [OF assms(3), of "screen g"] assms(4) by simp
  moreover have "wrap_flags h = region_wraps tp bt (Suc n) (wrap_flags g)"
    unfolding f(4) using ih region_wraps_step [OF assms(3), of "wrap_flags g" n] assms(4)
    by (simp add: flags_length)
  moreover have "\<exists>m. filed m g h" using ih f(6) filed_trans by blast
  ultimately show ?case using ih f by simp
qed

lemma scroll_up_region_full:
  assumes "grid_ok g" "blank_cell fill" "tp \<le> bt" "bt < g_rows g" "n = min lines (bt - tp + 1)"
    "h = scroll_up_region tp bt lines fill g"
  shows "grid_ok h \<and> screen h = rows_up tp bt n (replicate (g_cols g) fill) (screen g) \<and>
    wrap_flags h = region_wraps tp bt n (wrap_flags g) \<and>
    g_rows h = g_rows g \<and> g_cols h = g_cols g \<and>
    g_cursor_col h = g_cursor_col g \<and> g_cursor_row h = g_cursor_row g"
proof (cases "lines = 0")
  case True
  then show ?thesis using assms by (simp add: scroll_up_region_def region_wraps_def)
next
  case False
  note g = grid_okD [OF assms(1)]
  have h: "h = trim_mirrors ((region_line tp bt fill ^^ n) g)"
    using False assms by (simp add: scroll_up_region_def)
  note l = region_lines [OF g(1,2) assms(3,4,2) refl, of n]
  then have "mirrors_wf h" using filed_trim [OF g(1,3)] h by blast
  then show ?thesis using l g(4) by (simp add: h grid_ok_def)
qed

text \<open>Scrolling down: nothing is filed.\<close>

lemma region_line_down_facts:
  assumes "grid_wf g" "pool_wf g" "tp \<le> bt" "bt < g_rows g" "blank_cell fill"
    "h = region_line_down tp bt fill g"
  shows "grid_wf h" "pool_wf h" "screen h = rows_down tp bt 1 (replicate (g_cols g) fill) (screen g)"
    "g_panic h = g_panic g" "same_but_cells g h"
proof -
  obtain k where k: "k = fold (\<lambda>r. copy_row r (r + 1)) (rev [tp..<bt]) g" by blast
  note f = shift_rows_down [OF assms(1,3,4) k]
  have tp: "tp < g_rows k" using assms same_but_cells_fields(1) [OF f(4)] by simp
  note b = blank_row_facts [OF f(1) tp assms(5)]
  have h: "h = blank_row tp fill k" unfolding assms(6) region_line_down_def k ..
  have len: "bt < length (screen g)" using assms(4) by simp
  show wf: "grid_wf h" using b(1) h by simp
  show same: "same_but_cells g h" using same_but_cells_trans [OF f(4) b(4)] h by simp
  show "g_panic h = g_panic g" using b(3) f(3) h by simp
  show s: "screen h = rows_down tp bt 1 (replicate (g_cols g) fill) (screen g)"
    using b(2) f(2) [of "replicate (g_cols g) fill"] blank_last(2) [OF assms(3) len]
      same_but_cells_fields(2) [OF f(4)] h by simp
  have "mset (cell_refs (concat (screen g))) =
      mset (cell_refs (screen g ! bt)) + mset (cell_refs (concat (screen h)))"
    unfolding s using refs_rows_down [OF assms(3) len] assms(5)
      cell_refs_blank [of "replicate (g_cols g) fill"] by simp
  then show "pool_wf h"
    using pool_wf_leave [OF assms(1) wf assms(2)] same_but_cells_fields(4) [OF same] by simp
qed

lemma region_lines_down:
  assumes "grid_wf g" "pool_wf g" "tp \<le> bt" "bt < g_rows g" "blank_cell fill"
    "h = (region_line_down tp bt fill ^^ n) g"
  shows "grid_wf h \<and> pool_wf h \<and>
    screen h = rows_down tp bt n (replicate (g_cols g) fill) (screen g) \<and>
    g_panic h = g_panic g \<and> same_but_cells g h"
  using assms(6)
proof (induction n arbitrary: h)
  case 0
  then show ?case using assms(1,2) by (simp add: same_but_cells_def)
next
  case (Suc n)
  let ?k = "(region_line_down tp bt fill ^^ n) g"
  note ih = Suc.IH [OF refl]
  have fields: "g_rows ?k = g_rows g" "g_cols ?k = g_cols g"
    using ih same_but_cells_fields(1,2) [of g ?k] by simp_all
  have k: "grid_wf ?k" "pool_wf ?k" "bt < g_rows ?k" using ih assms(4) fields by simp_all
  have h: "h = region_line_down tp bt fill ?k" using Suc.prems by simp
  note f = region_line_down_facts [OF k(1,2) assms(3) k(3) assms(5) h]
  have "screen h = rows_down tp bt (Suc n) (replicate (g_cols g) fill) (screen g)"
    using f(3) ih rows_down_Suc [OF assms(3), of "screen g"] assms(4) fields by simp
  then show ?case using ih f same_but_cells_trans [of g ?k h] by simp
qed

lemma scroll_down_region_full:
  assumes "grid_ok g" "blank_cell fill" "tp \<le> bt" "bt < g_rows g" "0 < lines"
    "n = min lines (bt - tp + 1)" "h = scroll_down_region tp bt lines fill g"
  shows "grid_ok h \<and> screen h = rows_down tp bt n (replicate (g_cols g) fill) (screen g) \<and>
    wrap_flags h = map (\<lambda>r. if tp \<le> r \<and> r \<le> bt then False else wrap_flags g ! r) [0..<g_rows g] \<and>
    prompt_flags h = prompt_flags g \<and> g_scrollback h = g_scrollback g \<and> g_rows h = g_rows g \<and> g_cols h = g_cols g \<and>
    g_cursor_col h = g_cursor_col g \<and> g_cursor_row h = g_cursor_row g"
proof -
  note g = grid_okD [OF assms(1)]
  have "\<forall>r \<in> set [tp..<bt + 1]. r < g_rows g" using assms(4) by auto
  then obtain ws where ws: "fold (\<lambda>r. put_wrapped r False) [tp..<bt + 1] g = g\<lparr>g_wrapped := ws\<rparr>"
    "length ws = g_rows g"
    "map (\<lambda>i. ws ! phys_row g i) [0..<g_rows g] =
       fold (\<lambda>r ys. ys[r := False]) [tp..<bt + 1] (wrap_flags g)"
    using fold_put_wrapped [OF g(1)] by blast
  let ?g = "g\<lparr>g_wrapped := ws\<rparr>"
  have wf: "grid_wf ?g" "pool_wf ?g" "bt < g_rows ?g"
    using grid_wf_wrapped [OF g(1) ws(2)] g(2) assms(4) by simp_all
  have h: "h = (region_line_down tp bt fill ^^ n) ?g"
    using assms(3-7) unfolding scroll_down_region_def ws(1) Let_def by simp
  note l = region_lines_down [OF wf(1,2) assms(3) wf(3) assms(2) h]
  have same: "same_but_cells ?g h" using l by blast
  note s = same_but_cells_fields [OF same] same_but_cells_flags [OF same]
  have "wrap_flags h = map (\<lambda>r. if tp \<le> r \<and> r \<le> bt then False else wrap_flags g ! r) [0..<g_rows g]"
    using s(13) ws(3) fold_const_update [of False "[tp..<bt + 1]" "wrap_flags g"]
    by (auto simp: flags_length simp del: upt_Suc)
  moreover have "prompt_flags h = prompt_flags g" using s(14) by (simp add: prompt_flags_def)
  ultimately show ?thesis using l s g(3,4) by (simp add: grid_ok_def)
qed

section \<open>Properties\<close>

lemma blank_cell_default [simp]: "blank_cell cell_default"
  by (simp add: blank_cell_def cluster_index_def is_cluster_def cell_default_def attrs_default_def
      cell_wf_def is_scalar_def wf_intros)

lemma grid_new_ok:
  assumes "0 < cols" "cols \<le> u16_max" "0 < rows" "rows \<le> u16_max"
  shows "grid_ok (grid_with_scrollback cols rows n)"
proof -
  have "cell_refs (g_cells (grid_with_scrollback cols rows n)) = []"
    using cell_refs_blank [of "replicate (cols * rows) cell_default"]
    by (simp add: grid_with_scrollback_def grid_with_scrollback_kind_def)
  then show ?thesis
    using grid_with_scrollback_wf [OF assms] assms
    by (simp add: grid_ok_def pool_wf_def)
      (simp add: mirrors_wf_def grid_with_scrollback_def grid_with_scrollback_kind_def ms_new_def)
qed

text \<open>
  C32: \<open>scroll_up\<close> on the rotated cell store is the list operation it stands for: the first
  \<open>n\<close> rows leave the screen for the scrollback with their continuation flags (clusters
  degraded to their first code point, the oldest lines beyond the capacity forgotten), blank
  rows come in at the bottom, prompt marks travel with their rows, the invariant is kept and
  nothing panics.
\<close>

theorem scroll_up_rows:
  assumes "grid_ok g" "blank_cell fill" "n = min lines (g_rows g)" "h = scroll_up lines fill g"
  shows "grid_ok h \<and>
    screen h = drop n (screen g) @ replicate n (replicate (g_cols g) fill) \<and>
    wrap_flags h = drop n (wrap_flags g) @ replicate n False \<and>
    prompt_flags h = drop n (prompt_flags g) @ replicate n NoMark \<and>
    ms_lines (g_scrollback h) =
       last_n (ms_capacity (g_scrollback g))
         (ms_lines (g_scrollback g) @ map (map (plain_cell g)) (take n (screen g))) \<and>
    g_sb_wrapped h = last_n (ms_capacity (g_scrollback g)) (g_sb_wrapped g @ take n (wrap_flags g))"
  using scroll_up_full [OF assms(1-3)] assms(4) by simp_all

lemma scroll_up_rows_witness:
  "screen (scroll_up 2 cell_default (grid_with_scrollback 4 3 10)) =
     drop 2 (screen (grid_with_scrollback 4 3 10)) @ replicate 2 (replicate 4 cell_default)"
proof -
  have "2 = min 2 (g_rows (grid_with_scrollback 4 3 10))" "g_cols (grid_with_scrollback 4 3 10) = 4"
    by (simp_all add: grid_with_scrollback_def grid_with_scrollback_kind_def)
  then show ?thesis using scroll_up_rows [OF grid_new_ok blank_cell_default _ refl, of 4 3 2 2 10] by simp
qed

text \<open>
  A region scroll up (\<open>CSI S\<close>, IND and DL inside margins) moves the rows of the region
  up, blanks the rows it frees, leaves every row outside alone, keeps the continuation flag of
  the top row only for a region anchored at row 0, keeps the grid invariant (cluster pool and
  scrollback mirrors included) and does not panic.
\<close>

theorem scroll_up_region_rows:
  assumes "grid_ok g" "blank_cell fill" "tp \<le> bt" "bt < g_rows g" "n = min lines (bt - tp + 1)"
    "h = scroll_up_region tp bt lines fill g"
  shows "grid_ok h \<and>
    screen h = rows_up tp bt n (replicate (g_cols g) fill) (screen g) \<and>
    wrap_flags h = region_wraps tp bt n (wrap_flags g)"
  using scroll_up_region_full [OF assms] by simp_all

lemma scroll_up_region_rows_witness:
  "grid_ok (scroll_up_region 1 2 5 cell_default (grid_with_scrollback 4 3 10))"
proof -
  have "2 < g_rows (grid_with_scrollback 4 3 10)"
    by (simp add: grid_with_scrollback_def grid_with_scrollback_kind_def)
  then show ?thesis using scroll_up_region_rows [OF grid_new_ok blank_cell_default _ _ refl refl, of 4 3 1 2 10 5] by simp
qed

text \<open>
  C34: a region scroll down (\<open>CSI T\<close>, RI and IL) moves the rows of the region down, blanks the
  rows it frees, drops every continuation flag inside the region, files nothing, keeps the
  invariant - and leaves the prompt marks where they were, not with the rows they marked.
\<close>

theorem scroll_down_region_rows:
  assumes "grid_ok g" "blank_cell fill" "tp \<le> bt" "bt < g_rows g" "0 < lines"
    "n = min lines (bt - tp + 1)" "h = scroll_down_region tp bt lines fill g"
  shows "grid_ok h \<and>
    screen h = rows_down tp bt n (replicate (g_cols g) fill) (screen g) \<and>
    wrap_flags h = map (\<lambda>r. if tp \<le> r \<and> r \<le> bt then False else wrap_flags g ! r) [0..<g_rows g] \<and>
    prompt_flags h = prompt_flags g \<and>
    g_scrollback h = g_scrollback g"
  using scroll_down_region_full [OF assms] by simp_all

lemma scroll_down_region_rows_witness:
  "grid_ok (scroll_down_region 0 2 1 cell_default (grid_with_scrollback 4 3 10))"
proof -
  have "2 < g_rows (grid_with_scrollback 4 3 10)"
    by (simp add: grid_with_scrollback_def grid_with_scrollback_kind_def)
  then show ?thesis using scroll_down_region_rows [OF grid_new_ok blank_cell_default _ _ _ refl refl, of 4 3 0 2 10 1] by simp
qed

end
