(* ===== verification/GridReflow.thy ===== *)
theory GridReflow
  imports GridRegion
begin

text \<open>
  Resizing, \<open>crates/marspot-term/src/grid.rs\<close> (\<open>resize\<close>, \<open>resize_rows_only\<close>, \<open>reflow\<close>).  A
  change of the width gathers the history and the screen into logical lines, cuts them again
  at the new width and distributes them over history and screen.
\<close>

section \<open>Height-only resize\<close>

definition row_is_blank :: "grid \<Rightarrow> nat \<Rightarrow> bool" where
  "row_is_blank g row =
     list_all (\<lambda>c. c = cell_default) (slice (g_cells g) (phys_row g row * g_cols g) (g_cols g))"

text \<open>The first \<open>n\<close> rows of the screen copied to the front of a fresh store of \<open>rows\<close> rows.\<close>

definition rebuild_rows :: "nat \<Rightarrow> nat \<Rightarrow> grid \<Rightarrow> grid" where
  "rebuild_rows n rows g =
     g\<lparr>g_cells := concat (map (\<lambda>r. slice (g_cells g) (phys_row g r * g_cols g) (g_cols g)) [0..<n]) @
         replicate ((rows - n) * g_cols g) cell_default,
       g_wrapped := map (\<lambda>r. g_wrapped g ! phys_row g r) [0..<n] @ replicate (rows - n) False,
       g_prompt := map (\<lambda>r. g_prompt g ! phys_row g r) [0..<n] @ replicate (rows - n) NoMark,
       g_rows := rows, g_top_row := 0\<rparr>"

text \<open>The \<open>while\<close> loop that drops blank rows below the cursor; the rows still to be pushed.\<close>

fun drop_blank_rows :: "grid \<Rightarrow> nat \<Rightarrow> nat \<Rightarrow> nat" where
  "drop_blank_rows g 0 last_keep = 0"
| "drop_blank_rows g (Suc need) last_keep =
     (if last_keep > g_cursor_row g \<and> row_is_blank g last_keep
      then drop_blank_rows g need (last_keep - 1) else Suc need)"

definition resize_rows_only :: "nat \<Rightarrow> grid \<Rightarrow> grid" where
  "resize_rows_only rows g =
     (if rows > g_rows g then rebuild_rows (g_rows g) rows g
      else
        let need = drop_blank_rows g (g_rows g - rows) (g_rows g - 1);
            g = (if need > 0
                 then (scroll_up need cell_default g)
                        \<lparr>g_cursor_row := g_cursor_row (scroll_up need cell_default g) - need\<rparr>
                 else g);
            g = rebuild_rows rows rows g
        in g\<lparr>g_cursor_row := min (g_cursor_row g) (rows - 1)\<rparr>)"

section \<open>Gathering logical lines\<close>

text \<open>The pad sentinels at the end of a row: trailing NULs that follow no wide character.\<close>

fun drop_pads :: "ambiguous_wide \<Rightarrow> cell list \<Rightarrow> cell list" where
  "drop_pads mode [] = []"
| "drop_pads mode (c # rest) =
     (if ch c = 0 \<and> \<not> (rest \<noteq> [] \<and> char_width mode (ch (hd rest)) = 2)
      then drop_pads mode rest else c # rest)"

definition strip_pads :: "ambiguous_wide \<Rightarrow> cell list \<Rightarrow> cell list" where
  "strip_pads mode line = rev (drop_pads mode (rev line))"

definition absorb :: "ambiguous_wide \<Rightarrow> cell list \<times> bool \<Rightarrow> cell list list \<Rightarrow> cell list list" where
  "absorb mode rw ls =
     (let (row, wrapped) = rw
      in if wrapped \<and> ls \<noteq> [] then butlast ls @ [strip_pads mode (last ls) @ row]
         else ls @ [row])"

definition history_rows :: "grid \<Rightarrow> (cell list \<times> bool) list" where
  "history_rows g =
     map (\<lambda>i. (case ms_line (g_scrollback g) i of Some l \<Rightarrow> l | None \<Rightarrow> [], scrollback_wrapped g i))
       [0..<ms_len (g_scrollback g)]"

text \<open>The live rows, noting where in the lines gathered so far the cursor's row ends up.\<close>

definition absorb_live ::
  "ambiguous_wide \<Rightarrow> grid \<Rightarrow> nat \<Rightarrow> cell list list \<times> nat \<times> nat \<Rightarrow> cell list list \<times> nat \<times> nat" where
  "absorb_live mode g r s =
     (let (ls, cl, co) = s;
          row = slice (g_cells g) (phys_row g r * g_cols g) (g_cols g);
          ls = absorb mode (row, g_wrapped g ! phys_row g r) ls
      in if r = g_cursor_row g
         then (ls, length ls - 1, length (last ls) - g_cols g + g_cursor_col g)
         else (ls, cl, co))"

definition trim_line :: "cell list \<Rightarrow> cell list" where
  "trim_line l = rev (dropWhile (\<lambda>c. c = cell_default) (rev l))"

text \<open>Trailing blank lines below the cursor's line \<open>cl\<close> are dropped.\<close>

definition drop_blank_tail :: "nat \<Rightarrow> cell list list \<Rightarrow> cell list list" where
  "drop_blank_tail cl ls =
     take (cl + 1) ls @ rev (dropWhile (\<lambda>l. l = []) (rev (drop (cl + 1) ls)))"

definition gather :: "ambiguous_wide \<Rightarrow> grid \<Rightarrow> cell list list \<times> nat \<times> nat" where
  "gather mode g =
     (let ls = fold (absorb mode) (history_rows g) [];
          (ls, cl, co) = fold (absorb_live mode g) [0..<g_rows g] (ls, 0, 0);
          ls = drop_blank_tail cl (map trim_line ls)
      in (ls, cl, min co (if cl < length ls then length (ls ! cl) else 0)))"

section \<open>Cutting lines at the new width\<close>

text \<open>The length of the next segment: a wide pair is not split, but every turn makes progress.\<close>

definition seg_take :: "nat \<Rightarrow> cell list \<Rightarrow> nat" where
  "seg_take new_cols rest =
     (let t = min (length rest) new_cols;
          t = (if t > 0 \<and> t < length rest \<and> ch (rest ! t) = 0 then t - 1 else t)
      in if t = 0 \<and> rest \<noteq> [] then 1 else t)"

lemma seg_take_pos: "rest \<noteq> [] \<Longrightarrow> 0 < seg_take w rest"
  by (auto simp: seg_take_def Let_def)

text \<open>The segments of one line with their start offsets and continuation flags.\<close>

function rewrap :: "nat \<Rightarrow> nat \<Rightarrow> bool \<Rightarrow> cell list \<Rightarrow> (nat \<times> cell list \<times> bool) list" where
  "rewrap new_cols start first rest =
     (let t = seg_take new_cols rest
      in (start, take t rest, \<not> first) #
         (if t \<ge> length rest then [] else rewrap new_cols (start + t) False (drop t rest)))"
  by auto
termination
proof (relation "measure (\<lambda>(w, s, f, rest). length rest)")
  fix w s f and rest :: "cell list" and t
  assume "t = seg_take w rest" "\<not> t \<ge> length rest"
  moreover from this have "0 < seg_take w rest" by (intro seg_take_pos) auto
  ultimately show "((w, s + t, False, drop t rest), (w, s, f, rest)) \<in> measure (\<lambda>(w, s, f, rest). length rest)"
    by simp
qed simp

declare rewrap.simps [simp del]

text \<open>The segment of the cursor's line that holds offset \<open>co\<close>, and the column in it.\<close>

definition cursor_here :: "nat \<Rightarrow> nat \<Rightarrow> nat \<Rightarrow> nat \<times> cell list \<times> bool \<Rightarrow> bool" where
  "cursor_here new_cols len co s =
     (let (start, seg, _) = s; end' = start + length seg
      in co \<ge> start \<and> (co < end' \<or> (co = end' \<and> len - start \<le> new_cols)))"

text \<open>All segments; the cursor's segment index and column (the last match wins, as in the loop).\<close>

definition rewrap_line ::
  "nat \<Rightarrow> nat \<Rightarrow> nat \<Rightarrow> nat \<times> cell list \<Rightarrow> (cell list \<times> bool) list \<times> nat \<times> nat \<Rightarrow>
   (cell list \<times> bool) list \<times> nat \<times> nat" where
  "rewrap_line new_cols cl co il s =
     (let (li, line) = il
      in fold (\<lambda>seg (segs, cs, cc).
           let (cs, cc) = (if li = cl \<and> cursor_here new_cols (length line) co seg
                           then (length segs, co - fst seg) else (cs, cc))
           in (segs @ [snd seg], cs, cc)) (rewrap new_cols 0 True line) s)"

definition rewrap_all ::
  "nat \<Rightarrow> cell list list \<Rightarrow> nat \<Rightarrow> nat \<Rightarrow> (cell list \<times> bool) list \<times> nat \<times> nat" where
  "rewrap_all new_cols ls cl co =
     (let (segs, cs, cc) = fold (rewrap_line new_cols cl co) (List.enumerate 0 ls) ([], 0, 0)
      in (if segs = [] then [([], False)] else segs, cs, cc))"

section \<open>Redistribution\<close>

definition pad_cell :: "(cell list \<times> bool) list \<Rightarrow> nat \<Rightarrow> cell" where
  "pad_cell segs i =
     (if i + 1 < length segs \<and> snd (segs ! (i + 1)) then \<lparr>ch = 0, attrs = attrs_default\<rparr>
      else cell_default)"

text \<open>\<open>Vec::resize\<close>.\<close>

definition fit_row :: "nat \<Rightarrow> cell \<Rightarrow> cell list \<Rightarrow> cell list" where
  "fit_row w pad row = take w row @ replicate (w - length row) pad"

definition history_push :: "nat \<Rightarrow> (cell list \<times> bool) list \<Rightarrow> nat \<Rightarrow> grid \<Rightarrow> grid" where
  "history_push new_cols segs i g =
     (let (cells, cont) = segs ! i
      in keep_row_clusters []
           (g\<lparr>g_scrollback := ms_push_line (fit_row new_cols (pad_cell segs i) cells) (g_scrollback g),
              g_sb_wrapped := g_sb_wrapped g @ [cont]\<rparr>))"

text \<open>
  The live rows.  A segment longer than the row would make the padding slice of the code panic;
  \<open>reflow\<close> checks that none is.
\<close>

definition live_row :: "nat \<Rightarrow> (cell list \<times> bool) list \<Rightarrow> nat \<Rightarrow> cell list" where
  "live_row new_cols segs i = fit_row new_cols (pad_cell segs i) (fst (segs ! i))"

definition reflow :: "ambiguous_wide \<Rightarrow> nat \<Rightarrow> nat \<Rightarrow> grid \<Rightarrow> grid" where
  "reflow mode cols rows g =
     (let (ls, cl, co) = gather mode g;
          (segs, cs, cc) = rewrap_all cols ls cl co;
          live_start = length segs - rows;
          g = g\<lparr>g_scrollback := sb_restart cols (g_scrollback g), g_sb_wrapped := [],
                g_sb_clusters := [], g_sb_prompt := []\<rparr>;
          g = trim_mirrors (fold (history_push cols segs) [0..<live_start] g);
          live = [live_start..<length segs];
          g = check (list_all (\<lambda>i. length (fst (segs ! i)) \<le> cols) live)
                (g\<lparr>g_cells := concat (map (live_row cols segs) live) @
                     replicate ((rows - length live) * cols) cell_default,
                   g_wrapped := map (\<lambda>i. snd (segs ! i)) live @ replicate (rows - length live) False,
                   g_prompt := replicate rows NoMark,
                   g_cols := cols, g_rows := rows, g_top_row := 0\<rparr>)
      in if cs \<ge> live_start
         then g\<lparr>g_cursor_row := min (cs - live_start) (rows - 1) mod 2 ^ 16,
                g_cursor_col := min (cc mod 2 ^ 16) (cols - 1)\<rparr>
         else g\<lparr>g_cursor_row := 0, g_cursor_col := 0\<rparr>)"

definition grid_resize :: "ambiguous_wide \<Rightarrow> nat \<Rightarrow> nat \<Rightarrow> grid \<Rightarrow> grid" where
  "grid_resize mode cols rows g =
     (if cols = g_cols g \<and> rows = g_rows g then g
      else
        let g = check (cols > 0 \<and> rows > 0) g
        in if cols = g_cols g then resize_rows_only rows g else reflow mode cols rows g)"

section \<open>A store without rotation\<close>

lemma length_concat_rows: "\<forall>row \<in> set xss. length row = w \<Longrightarrow> length (concat xss) = length xss * w"
  by (induction xss) simp_all

lemma slice_concat:
  assumes "\<forall>row \<in> set xss. length row = w" "r < length xss"
  shows "slice (concat xss) (r * w) w = xss ! r"
proof -
  have "concat xss = concat (take r xss) @ xss ! r @ concat (drop (Suc r) xss)"
    using assms(2) by (metis append_Cons concat.simps(2) concat_append id_take_nth_drop append_assoc)
  moreover have "length (concat (take r xss)) = r * w"
    using length_concat_rows [of "take r xss" w] assms by (auto dest: in_set_takeD)
  ultimately show ?thesis using assms by (simp add: slice_def)
qed

lemma screen_concat:
  assumes "g_top_row h = 0" "g_cells h = concat xss" "length xss = g_rows h"
    "\<forall>row \<in> set xss. length row = g_cols h"
  shows "screen h = xss"
  using slice_concat [OF assms(4)] assms(1-3)
  by (intro nth_equalityI) (auto simp: screen_def grid_row_def phys_row_def)

lemma flags_plain:
  assumes "g_top_row h = 0"
  shows "length (g_wrapped h) = g_rows h \<Longrightarrow> wrap_flags h = g_wrapped h"
    and "length (g_prompt h) = g_rows h \<Longrightarrow> prompt_flags h = g_prompt h"
  using assms by (auto intro!: nth_equalityI simp: wrap_flags_def prompt_flags_def phys_row_def)

lemma concat_replicate_rows: "concat (replicate n (replicate w c)) = replicate (n * w) c"
  by (induction n) (simp_all add: replicate_add)

abbreviation (input) blank_rows :: "nat \<Rightarrow> nat \<Rightarrow> cell list list" where
  "blank_rows n w \<equiv> replicate n (replicate w cell_default)"

lemma rebuild_cells: "g_cells (rebuild_rows n rows g) = concat (map (grid_row g) [0..<n] @ blank_rows (rows - n) (g_cols g))"
  by (simp add: rebuild_rows_def grid_row_def [abs_def] concat_replicate_rows)

lemma rebuild_rows_facts:
  assumes "grid_wf g" "n \<le> g_rows g" "n \<le> rows" "0 < rows" "rows \<le> u16_max" "h = rebuild_rows n rows g"
  shows "screen h = take n (screen g) @ blank_rows (rows - n) (g_cols g)"
    "wrap_flags h = take n (wrap_flags g) @ replicate (rows - n) False"
    "prompt_flags h = take n (prompt_flags g) @ replicate (rows - n) NoMark"
    "g_cursor_row g < rows \<Longrightarrow> grid_wf h"
    "g_clusters h = g_clusters g" "g_panic h = g_panic g" "g_rows h = rows" "g_cols h = g_cols g"
    "g_scrollback h = g_scrollback g" "mirrors_wf h = mirrors_wf g" "g_sb_wrapped h = g_sb_wrapped g"
    "g_cursor_row h = g_cursor_row g" "g_cursor_col h = g_cursor_col g"
proof -
  have fields: "g_rows h = rows" "g_cols h = g_cols g" "g_top_row h = 0" "g_clusters h = g_clusters g"
    "g_wrapped h = map (\<lambda>r. g_wrapped g ! phys_row g r) [0..<n] @ replicate (rows - n) False"
    "g_prompt h = map (\<lambda>r. g_prompt g ! phys_row g r) [0..<n] @ replicate (rows - n) NoMark"
    by (simp_all add: assms(6) rebuild_rows_def)
  let ?xss = "map (grid_row g) [0..<n] @ blank_rows (rows - n) (g_cols g)"
  have rows: "\<forall>row \<in> set ?xss. length row = g_cols g"
    using length_grid_row [OF assms(1)] assms(2) by auto
  have cells: "g_cells h = concat ?xss" using rebuild_cells [of n rows g] assms(6) by simp
  have take: "take n (map f [0..<g_rows g]) = map f [0..<n]" for f :: "nat \<Rightarrow> 'z"
    using assms(2) by (simp add: take_map take_upt)
  have "screen h = ?xss" using screen_concat [OF fields(3) cells] rows fields(1,2) assms(3) by simp
  then show "screen h = take n (screen g) @ blank_rows (rows - n) (g_cols g)"
    by (simp add: screen_def take)
  show "wrap_flags h = take n (wrap_flags g) @ replicate (rows - n) False"
    using flags_plain(1) [OF fields(3)] fields(1,5) assms(3) by (simp add: wrap_flags_def take)
  show "prompt_flags h = take n (prompt_flags g) @ replicate (rows - n) NoMark"
    using flags_plain(2) [OF fields(3)] fields(1,6) assms(3) by (simp add: prompt_flags_def take)
  show "grid_wf h" if "g_cursor_row g < rows"
  proof -
    have "\<forall>c \<in> set (g_cells h). cell_wf c"
      using assms(1) unfolding cells
      by (auto simp: grid_row_def slice_def grid_wf_def dest!: in_set_takeD in_set_dropD)
    moreover have "length (g_cells h) = rows * g_cols g"
      unfolding cells using length_concat_rows [OF rows] assms(3) by simp
    ultimately show ?thesis
      using assms(1,3-5) that fields unfolding grid_wf_def
      by (simp add: assms(6) rebuild_rows_def)
  qed
  show "g_clusters h = g_clusters g" "g_panic h = g_panic g" "g_rows h = rows" "g_cols h = g_cols g"
    "g_scrollback h = g_scrollback g" "mirrors_wf h = mirrors_wf g" "g_sb_wrapped h = g_sb_wrapped g"
    "g_cursor_row h = g_cursor_row g" "g_cursor_col h = g_cursor_col g"
    by (simp_all add: assms(6) rebuild_rows_def mirrors_wf_def)
qed

section \<open>Height-only resize keeps the content\<close>

lemma drop_blank_rows_spec:
  assumes "m = drop_blank_rows g n k" "n \<le> k"
  shows "m \<le> n \<and> (\<forall>r. k - (n - m) < r \<and> r \<le> k \<longrightarrow> row_is_blank g r \<and> g_cursor_row g < r)"
  using assms
proof (induction n arbitrary: k m)
  case 0
  then show ?case by auto
next
  case (Suc need)
  show ?case
  proof (cases "k > g_cursor_row g \<and> row_is_blank g k")
    case True
    have m: "m = drop_blank_rows g need (k - 1)" using True Suc.prems(1) by simp
    have ih: "m \<le> need" "\<forall>r. k - 1 - (need - m) < r \<and> r \<le> k - 1 \<longrightarrow> row_is_blank g r \<and> g_cursor_row g < r"
      using Suc.IH [OF m] Suc.prems(2) by simp_all
    have eq: "k - (Suc need - m) = k - 1 - (need - m)" using ih(1) by simp
    have "row_is_blank g r \<and> g_cursor_row g < r" if "k - 1 - (need - m) < r" "r \<le> k" for r
    proof (cases "r = k")
      case False
      then have "r \<le> k - 1" using that by simp
      then show ?thesis using ih(2) that(1) by blast
    qed (use True in simp)
    then show ?thesis unfolding eq using ih by auto
  next
    case False
    then show ?thesis using Suc.prems by auto
  qed
qed

lemma mset_concat_take:
  "mset (cell_refs (concat (take n xss))) \<subseteq># mset (cell_refs (concat xss))"
proof -
  have "mset (cell_refs (concat xss)) =
      mset (cell_refs (concat (take n xss))) + mset (cell_refs (concat (drop n xss)))"
    by (metis append_take_drop_id concat_append cell_refs_simps(3) mset_append)
  then show ?thesis by simp
qed

lemma blank_rows_refs: "cell_refs (concat (blank_rows n w)) = []"
  using cell_refs_blank [of "replicate (n * w) cell_default"] blank_cell_default
  by (simp add: concat_replicate_rows)

lemma rebuild_rows_ok:
  assumes "grid_ok g" "n \<le> g_rows g" "n \<le> rows" "0 < rows" "rows \<le> u16_max" "g_cursor_row g < rows"
  shows "grid_ok (rebuild_rows n rows g)"
proof -
  note g = grid_okD [OF assms(1)]
  note f = rebuild_rows_facts [OF g(1) assms(2-5) refl]
  have "pool_wf (rebuild_rows n rows g)"
    using mset_concat_take [of n "screen g"] f(1)
    by (intro pool_wf_sub [OF g(1) f(4) [OF assms(6)] g(2) f(5)]) (simp add: blank_rows_refs)
  then show ?thesis using f(4) [OF assms(6)] f(6,10) g by (simp add: grid_ok_def)
qed

lemma row_is_blank_screen:
  assumes "grid_wf g" "r < g_rows g"
  shows "row_is_blank g r \<longleftrightarrow> screen g ! r = replicate (g_cols g) cell_default"
proof -
  have "row_is_blank g r \<longleftrightarrow> (\<forall>c \<in> set (grid_row g r). c = cell_default)"
    by (simp add: row_is_blank_def grid_row_def list_all_iff)
  also have "\<dots> \<longleftrightarrow> grid_row g r = replicate (g_cols g) cell_default"
    using length_grid_row [OF assms] by (metis in_set_replicate replicate_length_same)
  finally show ?thesis using assms(2) by (simp add: screen_nth)
qed

text \<open>The shrinking case, split at the number of rows that are pushed.\<close>

lemma grid_ok_cursor [wf_intros]:
  "grid_ok g \<Longrightarrow> r < g_rows g \<Longrightarrow> grid_ok (g\<lparr>g_cursor_row := r\<rparr>)"
  "grid_ok g \<Longrightarrow> c < g_cols g \<Longrightarrow> grid_ok (g\<lparr>g_cursor_col := c\<rparr>)"
  by (simp_all add: grid_ok_def grid_wf_def pool_wf_def mirrors_wf_def)

lemma shrink_rows:
  assumes "grid_ok g" "0 < rows" "rows \<le> g_rows g" "need \<le> g_rows g - rows"
    "g_cursor_row g < rows + need" "h = rebuild_rows rows rows ((scroll_up need cell_default g)
        \<lparr>g_cursor_row := g_cursor_row (scroll_up need cell_default g) - need\<rparr>)"
  shows "grid_ok h \<and> screen h = take rows (drop need (screen g)) \<and>
    ms_lines (g_scrollback h) = last_n (ms_capacity (g_scrollback g))
      (ms_lines (g_scrollback g) @ map (map (plain_cell g)) (take need (screen g))) \<and>
    g_rows h = rows \<and> g_cols h = g_cols g \<and> g_cursor_row h = g_cursor_row g - need \<and>
    g_cursor_col h = g_cursor_col g"
proof -
  let ?s = "scroll_up need cell_default g"
  let ?k = "?s\<lparr>g_cursor_row := g_cursor_row ?s - need\<rparr>"
  have n: "need = min need (g_rows g)" using assms(4) by simp
  note s = scroll_up_full [OF assms(1) blank_cell_default n]
  have wf: "grid_wf g" using assms(1) by (rule grid_okD)
  have scr: "screen ?k = screen ?s" by (simp add: screen_def grid_row_def phys_row_def Let_def)
  have ok: "grid_ok ?k"
  proof (rule grid_ok_cursor)
    have "g_cursor_row g < g_rows g" using wf by (simp add: grid_wf_def)
    then show "g_cursor_row ?s - need < g_rows ?s" using s by simp
  qed (use s in simp)
  have rows: "rows \<le> g_rows ?k" "g_cursor_row ?k < rows" "rows \<le> u16_max"
    using s assms wf by (simp_all add: grid_wf_def)
  note f = rebuild_rows_facts [OF grid_okD(1) [OF ok] rows(1) order_refl assms(2) rows(3) refl]
  have "take rows (screen ?k) = take rows (drop need (screen g))"
    unfolding scr using s assms(3,4) by (simp add: take_append)
  then show ?thesis
    using rebuild_rows_ok [OF ok rows(1) order_refl assms(2) rows(3,2)] f s
    by (simp add: assms(6))
qed

lemma resize_rows_only_eq:
  assumes "grid_ok g" "rows \<le> g_rows g" "0 < rows" "need = drop_blank_rows g (g_rows g - rows) (g_rows g - 1)"
  shows "resize_rows_only rows g = rebuild_rows rows rows ((scroll_up need cell_default g)
        \<lparr>g_cursor_row := g_cursor_row (scroll_up need cell_default g) - need\<rparr>)"
    and "need \<le> g_rows g - rows" "g_cursor_row g < rows + need"
    and "drop (rows + need) (screen g) = blank_rows (g_rows g - rows - need) (g_cols g)"
proof -
  have wf: "grid_wf g" using assms(1) by (rule grid_okD)
  then have c: "g_cursor_row g < g_rows g" by (simp add: grid_wf_def)
  have le: "g_rows g - rows \<le> g_rows g - 1" using assms(3) by simp
  note d = drop_blank_rows_spec [OF assms(4) le]
  show need: "need \<le> g_rows g - rows" using d by simp
  have k: "g_rows g - 1 - (g_rows g - rows - need) = rows + need - 1"
    using need assms(2,3) c by simp
  have blank: "row_is_blank g r \<and> g_cursor_row g < r" if "rows + need \<le> r" "r < g_rows g" for r
  proof -
    have "rows + need - 1 < r" "r \<le> g_rows g - 1" using that assms(3) by linarith+
    then show ?thesis using d unfolding k by blast
  qed
  have cur: "g_cursor_row g < rows + need"
  proof (rule ccontr)
    assume n: "\<not> ?thesis"
    then show False using blank [of "g_cursor_row g"] c by simp
  qed
  then show "g_cursor_row g < rows + need" .
  show "drop (rows + need) (screen g) = blank_rows (g_rows g - rows - need) (g_cols g)"
    using blank row_is_blank_screen [OF wf] need by (intro nth_equalityI) auto
  have "g_cursor_row (scroll_up need cell_default g) = g_cursor_row g"
    using scroll_up_full [OF assms(1) blank_cell_default refl, of need] by simp
  moreover have "scroll_up 0 cell_default g = g" by (simp add: scroll_up_def)
  moreover have "g_cursor_row (rebuild_rows rows rows k) = g_cursor_row k" for k
    by (simp add: rebuild_rows_def)
  moreover have "k\<lparr>g_cursor_row := m\<rparr> = k" if "g_cursor_row k = m" for k :: grid and m
    using that by (cases k) simp
  ultimately show "resize_rows_only rows g = rebuild_rows rows rows ((scroll_up need cell_default g)
        \<lparr>g_cursor_row := g_cursor_row (scroll_up need cell_default g) - need\<rparr>)"
    using cur assms(2) unfolding resize_rows_only_def Let_def assms(4) [symmetric]
    by (cases "need = 0") (simp_all add: rebuild_rows_def)
qed



end
