(* ===== verification/GridReflowWf.thy ===== *)
theory GridReflowWf
  imports GridReflow "HOL-Library.Sublist"
begin

text \<open>
  Facts about \<open>reflow\<close>: gathering and cutting only drop cells, so the grid invariant survives
  a change of width as long as the history holds no cluster cells; and cutting a line at a new
  width and gathering the rows again gives the line back.
\<close>

section \<open>Gathering drops cells and nothing else\<close>

lemma subseq_refs: "subseq xs ys \<Longrightarrow> subseq (cell_refs xs) (cell_refs ys)"
  unfolding cell_refs_def List.map_filter_def by (intro subseq_map subseq_filter)

lemma subseq_set: "subseq xs ys \<Longrightarrow> set xs \<subseteq> set ys"
  by (induction rule: list_emb.induct) auto

lemma subseq_mset: "subseq xs ys \<Longrightarrow> mset xs \<subseteq># mset ys"
proof (induction rule: list_emb.induct)
  case (list_emb_Cons xs ys y)
  then show ?case using subset_mset.order_trans [of "mset xs" "mset ys" "add_mset y (mset ys)"] by simp
qed simp_all

lemma subseq_append_mono: "subseq xs xs' \<Longrightarrow> subseq ys ys' \<Longrightarrow> subseq (xs @ ys) (xs' @ ys')"
  by (rule list_emb_append_mono)

lemma strip_pads_prefix: "\<exists>k. strip_pads mode l = take k l"
proof -
  have "\<exists>zs. r = zs @ drop_pads mode r" for r
    by (induction mode r rule: drop_pads.induct) (auto, metis append_Cons)
  then obtain zs where "rev l = zs @ drop_pads mode (rev l)" by blast
  then have "l = strip_pads mode l @ rev zs" unfolding strip_pads_def by (metis rev_append rev_rev_ident)
  then show ?thesis by (metis append_eq_conv_conj)
qed

lemma trim_line_prefix: "\<exists>k. trim_line l = take k l"
proof -
  have "l = trim_line l @ rev (takeWhile (\<lambda>c. c = cell_default) (rev l))"
    unfolding trim_line_def by (metis rev_append rev_rev_ident takeWhile_dropWhile_id)
  then show ?thesis by (metis append_eq_conv_conj)
qed

lemma subseq_take: "subseq (take k l) l"
  by (metis append_take_drop_id subseq_rev_drop_many subseq_order.refl)

lemma absorb_subseq: "subseq (concat (absorb mode (row, w) ls)) (concat ls @ row)"
proof (cases "w \<and> ls \<noteq> []")
  case True
  obtain k where k: "strip_pads mode (last ls) = take k (last ls)" using strip_pads_prefix by blast
  have "concat ls = concat (butlast ls) @ last ls"
    using True by (metis append_butlast_last_id concat.simps concat_append append_Nil2)
  then show ?thesis
    using True k subseq_take [of k "last ls"] by (auto simp: absorb_def intro!: subseq_append_mono)
qed (auto simp: absorb_def)

lemma absorb_rows_subseq: "subseq (concat (fold (absorb mode) rws ls)) (concat ls @ concat (map fst rws))"
proof (induction rws arbitrary: ls)
  case (Cons rw rws)
  have "subseq (concat (absorb mode rw ls)) (concat ls @ fst rw)"
    using absorb_subseq [of mode "fst rw" "snd rw" ls] by simp
  from subseq_append_mono [OF this subseq_order.refl, of "concat (map fst rws)"]
  show ?case using Cons.IH [of "absorb mode rw ls"] by (simp add: subseq_order.trans)
qed simp

definition live_rows :: "grid \<Rightarrow> (cell list \<times> bool) list" where
  "live_rows g = zip (screen g) (wrap_flags g)"

lemma absorb_live_row:
  "fst (absorb_live mode g r s) = absorb mode (grid_row g r, g_wrapped g ! phys_row g r) (fst s)"
  by (cases s) (simp add: absorb_live_def Let_def grid_row_def)

lemma absorb_live_rows:
  "n \<le> g_rows g \<Longrightarrow>
   fst (fold (absorb_live mode g) [0..<n] s) = fold (absorb mode) (take n (live_rows g)) (fst s)"
proof (induction n)
  case (Suc n)
  have "live_rows g ! n = (grid_row g n, g_wrapped g ! phys_row g n)"
    using Suc.prems by (simp add: live_rows_def screen_nth wrap_flags_def)
  moreover have "n < length (live_rows g)" using Suc.prems by (simp add: live_rows_def flags_length)
  ultimately have "take (Suc n) (live_rows g) = take n (live_rows g) @ [(grid_row g n, g_wrapped g ! phys_row g n)]"
    by (simp add: take_Suc_conv_app_nth)
  then show ?case using Suc by (simp add: absorb_live_row)
qed simp

lemma drop_blank_tail_concat: "concat (drop_blank_tail cl ls) = concat ls"
proof -
  let ?t = "drop (cl + 1) ls"
  have "?t = rev (dropWhile (\<lambda>l. l = []) (rev ?t)) @ rev (takeWhile (\<lambda>l. l = []) (rev ?t))"
    by (metis rev_append rev_rev_ident takeWhile_dropWhile_id)
  moreover have "concat (rev (takeWhile (\<lambda>l. l = []) (rev ?t))) = []"
    by (auto dest: set_takeWhileD)
  ultimately have "concat ?t = concat (rev (dropWhile (\<lambda>l. l = []) (rev ?t)))"
    by (metis append_Nil2 concat_append)
  then show ?thesis
    unfolding drop_blank_tail_def by (metis append_take_drop_id concat_append)
qed

lemma trim_lines_subseq: "subseq (concat (map trim_line ls)) (concat ls)"
proof (induction ls)
  case (Cons l ls)
  obtain k where "trim_line l = take k l" using trim_line_prefix by blast
  then show ?case using Cons subseq_take [of k l] by (auto intro!: subseq_append_mono)
qed simp

lemma gather_subseq:
  assumes "gather mode g = (ls, cl, co)"
  shows "subseq (concat ls) (concat (map fst (history_rows g)) @ concat (screen g))"
proof -
  let ?h = "fold (absorb mode) (history_rows g) []"
  obtain l c k where f: "fold (absorb_live mode g) [0..<g_rows g] (?h, 0, 0) = (l, c, k)"
    by (metis prod_cases3)
  have "take (g_rows g) (live_rows g) = live_rows g" by (simp add: live_rows_def flags_length)
  then have l: "l = fold (absorb mode) (live_rows g) ?h" using absorb_live_rows [of "g_rows g" g mode "(?h, 0, 0)"] f by simp
  have "map fst (live_rows g) = screen g" by (simp add: live_rows_def flags_length)
  then have "subseq (concat l) (concat ?h @ concat (screen g))"
    using absorb_rows_subseq [of mode "live_rows g" ?h] l by simp
  moreover have "subseq (concat ?h) (concat (map fst (history_rows g)))"
    using absorb_rows_subseq [of mode "history_rows g" "[]"] by simp
  ultimately have "subseq (concat l) (concat (map fst (history_rows g)) @ concat (screen g))"
    by (meson subseq_append_mono subseq_order.trans subseq_order.refl)
  moreover have "ls = drop_blank_tail c (map trim_line l)"
    using assms f by (auto simp: gather_def Let_def)
  ultimately show ?thesis
    using trim_lines_subseq [of l] subseq_order.trans by (simp add: drop_blank_tail_concat)
qed

section \<open>Cutting keeps every cell\<close>

lemma rewrap_not_Nil [simp]: "rewrap w s f l \<noteq> []"
  by (subst rewrap.simps) (simp add: Let_def)

lemma seg_take_le: "seg_take w rest \<le> max 1 w"
  by (auto simp: seg_take_def Let_def)

lemma rewrap_concat: "concat (map (\<lambda>(s, seg, c). seg) (rewrap w s f l)) = l"
proof (induction w s f l rule: rewrap.induct)
  case (1 w s f l)
  show ?case
    using 1 [OF refl] by (subst rewrap.simps) (auto simp: Let_def split: if_splits)
qed

lemma rewrap_lengths: "x \<in> set (rewrap w s f l) \<Longrightarrow> length (fst (snd x)) \<le> max 1 w"
proof (induction w s f l rule: rewrap.induct)
  case (1 w s f l)
  then show ?case
    using 1 seg_take_le [of w l]
    by (subst (asm) rewrap.simps) (auto simp: Let_def min_def split: if_splits)
qed

lemma rewrap_line_segs:
  "fst (rewrap_line w cl co (li, line) s) = fst s @ map snd (rewrap w 0 True line)"
proof -
  have "fst (fold (\<lambda>seg (segs, cs, cc).
           let (cs, cc) = (if li = cl \<and> cursor_here w (length line) co seg
                           then (length segs, co - fst seg) else (cs, cc))
           in (segs @ [snd seg], cs, cc)) xs s) = fst s @ map snd xs" for xs
    by (induction xs arbitrary: s) (auto simp: Let_def split: prod.split)
  then show ?thesis by (simp add: rewrap_line_def)
qed

lemma rewrap_lines_segs:
  "fst (fold (rewrap_line w cl co) ils s) =
     fst s @ concat (map (\<lambda>il. map snd (rewrap w 0 True (snd il))) ils)"
proof (induction ils arbitrary: s)
  case (Cons il ils)
  then show ?case using rewrap_line_segs [of w cl co "fst il" "snd il" s] by simp
qed simp

lemma rewrap_all_segs:
  assumes "rewrap_all w ls cl co = (segs, cs, cc)"
  shows "segs = (if ls = [] then [([], False)] else concat (map (\<lambda>l. map snd (rewrap w 0 True l)) ls))"
proof -
  obtain s c k where f: "fold (rewrap_line w cl co) (List.enumerate 0 ls) ([], 0, 0) = (s, c, k)"
    by (metis prod_cases3)
  have "s = concat (map (\<lambda>il. map snd (rewrap w 0 True (snd il))) (List.enumerate 0 ls))"
    using rewrap_lines_segs [of w cl co "List.enumerate 0 ls" "([], 0, 0)"] f by simp
  also have "map (\<lambda>il. map snd (rewrap w 0 True (snd il))) (List.enumerate 0 ls) =
      map (\<lambda>l. map snd (rewrap w 0 True l)) (map snd (List.enumerate 0 ls))" by (simp only: map_map comp_def)
  finally have s: "s = concat (map (\<lambda>l. map snd (rewrap w 0 True l)) ls)" by (simp only: map_snd_enumerate)
  then have "s = [] \<longleftrightarrow> ls = []" by (cases ls) simp_all
  then show ?thesis using assms f s by (auto simp: rewrap_all_def split: if_splits)
qed

lemma segs_concat:
  assumes "rewrap_all w ls cl co = (segs, cs, cc)"
  shows "concat (map fst segs) = concat ls"
proof -
  have "concat (map fst (map snd (rewrap w 0 True l))) = l" for l
    using rewrap_concat [of w 0 True l] by (simp add: case_prod_beta' comp_def)
  then have "concat (map fst (concat (map (\<lambda>l. map snd (rewrap w 0 True l)) ls))) = concat ls"
    by (induction ls) simp_all
  then show ?thesis unfolding rewrap_all_segs [OF assms] by simp
qed

lemma segs_lengths:
  assumes "rewrap_all w ls cl co = (segs, cs, cc)" "0 < w" "x \<in> set segs"
  shows "length (fst x) \<le> w"
proof (cases "ls = []")
  case True
  then show ?thesis using assms(3) unfolding rewrap_all_segs [OF assms(1)] by simp
next
  case False
  then obtain l y where "y \<in> set (rewrap w 0 True l)" "x = snd y"
    using assms(3) unfolding rewrap_all_segs [OF assms(1)] by auto
  then show ?thesis using rewrap_lengths [of y w 0 True l] assms(2) by simp
qed

section \<open>The invariant after a change of width\<close>

text \<open>The history holds well-formed cells, none of them pointing into the cluster pool.\<close>

definition history_ok :: "grid \<Rightarrow> bool" where
  "history_ok g \<longleftrightarrow> (\<forall>l \<in> set (ms_lines (g_scrollback g)). \<forall>c \<in> set l. blank_cell c)"

lemma history_pushes:
  "fold (history_push w segs) is g =
     g\<lparr>g_scrollback := fold ms_push_line (map (\<lambda>i. fit_row w (pad_cell segs i) (fst (segs ! i))) is) (g_scrollback g),
       g_sb_wrapped := g_sb_wrapped g @ map (\<lambda>i. snd (segs ! i)) is,
       g_sb_clusters := g_sb_clusters g @ replicate (length is) []\<rparr>"
proof (induction "is" arbitrary: g)
  case (Cons i "is")
  have "history_push w segs i g =
      g\<lparr>g_scrollback := ms_push_line (fit_row w (pad_cell segs i) (fst (segs ! i))) (g_scrollback g),
        g_sb_wrapped := g_sb_wrapped g @ [snd (segs ! i)], g_sb_clusters := g_sb_clusters g @ [[]]\<rparr>"
    by (simp add: history_push_def keep_row_clusters_def split: prod.split)
  then show ?case by (simp add: Cons.IH)
qed simp

lemma pushes_cols: "ms_cols (fold ms_push_line ls m) = ms_cols m"
  by (induction ls arbitrary: m) simp_all

lemma pad_cell_blank: "blank_cell (pad_cell segs i)"
proof -
  have "blank_cell \<lparr>ch = 0, attrs = attrs_default\<rparr>"
    using blank_cell_default
    by (simp add: blank_cell_def cell_default_def cell_wf_def cluster_index_def is_cluster_def is_scalar_def)
  then show ?thesis by (simp add: pad_cell_def)
qed

lemma live_row_facts:
  assumes "length (fst (segs ! i)) \<le> w"
  shows "length (live_row w segs i) = w" "cell_refs (live_row w segs i) = cell_refs (fst (segs ! i))"
    "c \<in> set (live_row w segs i) \<Longrightarrow> c \<in> set (fst (segs ! i)) \<or> blank_cell c"
  using assms pad_cell_blank [of segs i] cell_refs_blank [of "replicate (w - length (fst (segs ! i))) (pad_cell segs i)"]
  by (auto simp: live_row_def fit_row_def)

lemma live_rows_refs:
  assumes "\<forall>i \<in> set is. length (fst (segs ! i)) \<le> w"
  shows "cell_refs (concat (map (live_row w segs) is)) = cell_refs (concat (map (\<lambda>i. fst (segs ! i)) is))"
  using assms by (induction "is") (simp_all add: live_row_facts)

text \<open>The fields of the reflowed grid.\<close>

lemma reflow_fields:
  assumes "gather mode g = (ls, cl, co)" "rewrap_all w ls cl co = (segs, cs, cc)" "0 < w" "0 < rows"
    "h = reflow mode w rows g" "k = length segs - rows" "live = [k..<length segs]"
  shows "g_cells h = concat (map (live_row w segs) live @ blank_rows (rows - length live) w)"
    "g_wrapped h = map (\<lambda>i. snd (segs ! i)) live @ replicate (rows - length live) False"
    "g_prompt h = replicate rows NoMark" "g_cols h = w" "g_rows h = rows" "g_top_row h = 0"
    "g_clusters h = g_clusters g" "g_panic h = g_panic g"
    "g_scrollback h = fold ms_push_line (map (\<lambda>i. fit_row w (pad_cell segs i) (fst (segs ! i))) [0..<k])
       (sb_restart w (g_scrollback g))"
    "mirrors_wf h" "g_cursor_row h < rows" "g_cursor_col h < w"
proof -
  let ?g = "g\<lparr>g_scrollback := sb_restart w (g_scrollback g), g_sb_wrapped := [],
                g_sb_clusters := [], g_sb_prompt := []\<rparr>"
  let ?t = "trim_mirrors (fold (history_push w segs) [0..<k] ?g)"
  have len: "list_all (\<lambda>i. length (fst (segs ! i)) \<le> w) live"
    using segs_lengths [OF assms(2,3)] assms(7) by (auto simp: list_all_iff)
  have h: "\<exists>r c. r < rows \<and> c < w \<and>
     h = ?t\<lparr>g_cells := concat (map (live_row w segs) live) @ replicate ((rows - length live) * w) cell_default,
            g_wrapped := map (\<lambda>i. snd (segs ! i)) live @ replicate (rows - length live) False,
            g_prompt := replicate rows NoMark, g_cols := w, g_rows := rows, g_top_row := 0,
            g_cursor_row := r, g_cursor_col := c\<rparr>"
  proof -
    let ?b = "?t\<lparr>g_cells := concat (map (live_row w segs) live) @ replicate ((rows - length live) * w) cell_default,
            g_wrapped := map (\<lambda>i. snd (segs ! i)) live @ replicate (rows - length live) False,
            g_prompt := replicate rows NoMark, g_cols := w, g_rows := rows, g_top_row := 0\<rparr>"
    let ?c = "check (list_all (\<lambda>i. length (fst (segs ! i)) \<le> w) live) ?b"
    have "h = (if cs \<ge> k
        then ?c\<lparr>g_cursor_row := min (cs - k) (rows - 1) mod 2 ^ 16, g_cursor_col := min (cc mod 2 ^ 16) (w - 1)\<rparr>
        else ?c\<lparr>g_cursor_row := 0, g_cursor_col := 0\<rparr>)"
      by (simp only: assms(5) reflow_def assms(1,2) Let_def prod.case assms(6,7))
    moreover have "?c = ?b" using len by (simp only: check_True)
    moreover have "min (cs - k) (rows - 1) mod 2 ^ 16 < rows" "min (cc mod 2 ^ 16) (w - 1) < w"
      using assms(3,4) by (simp_all add: le_less_trans [OF mod_less_eq_dividend] min_less_iff_disj)
    ultimately show ?thesis using assms(3,4)
      by (cases "cs \<ge> k") (simp_all only: if_True if_False, blast+)
  qed
  note hp = history_pushes [of w segs "[0..<k]" ?g]
  have cap: "ms_wf (sb_restart w (g_scrollback g))" by (simp add: sb_restart_def wf_intros)
  let ?m = "fold ms_push_line (map (\<lambda>i. fit_row w (pad_cell segs i) (fst (segs ! i))) [0..<k]) (sb_restart w (g_scrollback g))"
  have "length (ms_lines ?m) \<le> k" using sb.pushes [OF cap] by (simp add: sb_restart_def del: length_ms_lines)
  then have "ms_len ?m \<le> k" by simp
  then have t: "mirrors_wf ?t" unfolding hp by (simp add: trim_mirrors_def mirrors_wf_def Let_def)
  have fields: "g_clusters ?t = g_clusters g" "g_panic ?t = g_panic g" "g_scrollback ?t = ?m"
    unfolding hp by simp_all
  obtain r c where rc: "r < rows" "c < w" and
    eq: "h = ?t\<lparr>g_cells := concat (map (live_row w segs) live) @ replicate ((rows - length live) * w) cell_default,
            g_wrapped := map (\<lambda>i. snd (segs ! i)) live @ replicate (rows - length live) False,
            g_prompt := replicate rows NoMark, g_cols := w, g_rows := rows, g_top_row := 0,
            g_cursor_row := r, g_cursor_col := c\<rparr>"
    using h by blast
  show "mirrors_wf h" using t unfolding eq mirrors_wf_def by simp
  show "g_cells h = concat (map (live_row w segs) live @ blank_rows (rows - length live) w)"
    unfolding eq by (simp add: concat_replicate_rows)
  show "g_wrapped h = map (\<lambda>i. snd (segs ! i)) live @ replicate (rows - length live) False"
    "g_prompt h = replicate rows NoMark" "g_cols h = w" "g_rows h = rows" "g_top_row h = 0"
    "g_cursor_row h < rows" "g_cursor_col h < w"
    unfolding eq using rc by simp_all
  show "g_clusters h = g_clusters g" "g_panic h = g_panic g" "g_scrollback h = ?m"
    unfolding eq using fields by simp_all
qed

lemma history_rows_lines:
  assumes "grid_wf g"
  shows "map fst (history_rows g) = ms_lines (g_scrollback g)"
  by (intro nth_equalityI) (auto simp: history_rows_def ms_line_lines)

lemma history_refs: "history_ok g \<Longrightarrow> cell_refs (concat (ms_lines (g_scrollback g))) = []"
  by (rule cell_refs_blank) (auto simp: history_ok_def)

lemma screen_cells_wf: "grid_wf g \<Longrightarrow> c \<in> set (concat (screen g)) \<Longrightarrow> cell_wf c"
  by (auto simp: screen_def grid_row_phys row_cells_wf)

lemma reflow_screen:
  assumes "gather mode g = (ls, cl, co)" "rewrap_all w ls cl co = (segs, cs, cc)" "0 < w" "0 < rows"
    "h = reflow mode w rows g" "k = length segs - rows"
  shows "screen h = map (live_row w segs) [k..<length segs] @ blank_rows (rows - (length segs - k)) w"
    "cell_refs (concat (screen h)) = cell_refs (concat (map fst (drop k segs)))"
    "c \<in> set (concat (screen h)) \<Longrightarrow> c \<in> set (concat ls) \<or> blank_cell c"
proof -
  note f = reflow_fields [OF assms refl]
  have len: "\<forall>i \<in> set [k..<length segs]. length (fst (segs ! i)) \<le> w"
    using segs_lengths [OF assms(2,3)] by auto
  let ?xss = "map (live_row w segs) [k..<length segs] @ blank_rows (rows - (length segs - k)) w"
  have "\<forall>row \<in> set ?xss. length row = g_cols h" using len live_row_facts(1) f(4) by auto
  moreover have "length ?xss = g_rows h" using f(5) assms(6) by simp
  ultimately show scr: "screen h = ?xss" using screen_concat [OF f(6), of ?xss] f(1) by simp
  have "map (\<lambda>i. fst (segs ! i)) [k..<length segs] = map fst (drop k segs)"
    by (rule nth_equalityI) auto
  then show "cell_refs (concat (screen h)) = cell_refs (concat (map fst (drop k segs)))"
    using live_rows_refs [OF len] blank_rows_refs by (simp add: scr)
  assume "c \<in> set (concat (screen h))"
  then consider i where "i \<in> set [k..<length segs]" "c \<in> set (live_row w segs i)" | "c = cell_default"
    unfolding scr by auto
  then show "c \<in> set (concat ls) \<or> blank_cell c"
  proof cases
    case 1
    have "set (fst (segs ! i)) \<subseteq> set (concat (map fst segs))"
      using 1(1) nth_mem [of i segs] by (auto intro!: bexI [of _ "segs ! i"])
    then show ?thesis using live_row_facts(3) [OF bspec [OF len 1(1)] 1(2)] segs_concat [OF assms(2)] by auto
  qed simp
qed

text \<open>
  C38: a change of width keeps the grid well formed: every row has the new width, the cursor is
  on the screen, cluster cells still own distinct, non-empty pool entries, the mirrors match
  the ring, and no slice of the code is out of range - provided the history holds no cluster
  cell, which \<open>scroll_up\<close> guarantees and \<open>reflow\<close> itself does not: it files rows as they are.
\<close>

theorem reflow_keeps_grid_ok:
  assumes "grid_ok g" "history_ok g" "0 < w" "w \<le> u16_max" "0 < rows" "rows \<le> u16_max"
  shows "grid_ok (reflow mode w rows g) \<and> g_cols (reflow mode w rows g) = w \<and>
         g_rows (reflow mode w rows g) = rows"
proof -
  let ?h = "reflow mode w rows g"
  obtain ls cl co where g: "gather mode g = (ls, cl, co)" by (metis prod_cases3)
  obtain segs cs cc where r: "rewrap_all w ls cl co = (segs, cs, cc)" by (metis prod_cases3)
  let ?k = "length segs - rows"
  note wf = grid_okD [OF assms(1)]
  note f = reflow_fields [OF g r assms(3,5) refl refl refl]
  note s = reflow_screen [OF g r assms(3,5) refl refl]
  have sub: "subseq (concat ls) (concat (ms_lines (g_scrollback g)) @ concat (screen g))"
    using gather_subseq [OF g] history_rows_lines [OF wf(1)] by simp
  have cells: "\<forall>c \<in> set (concat (screen ?h)). cell_wf c"
  proof
    fix c assume "c \<in> set (concat (screen ?h))"
    from s(3) [OF this] show "cell_wf c"
    proof
      assume "c \<in> set (concat ls)"
      then have "c \<in> set (concat (ms_lines (g_scrollback g))) \<or> c \<in> set (concat (screen g))"
        using subseq_set [OF sub] by auto
      then show ?thesis
        using assms(2) screen_cells_wf [OF wf(1)] by (auto simp: history_ok_def blank_cell_def)
    qed (simp add: blank_cell_def)
  qed
  have flat: "g_cells ?h = concat (screen ?h)"
    using f(1) s(1) by simp
  have cap: "ms_wf (sb_restart w (g_scrollback g))" by (simp add: sb_restart_def wf_intros)
  have ms: "ms_wf (g_scrollback ?h)" "ms_cols (g_scrollback ?h) = w"
    unfolding f(9) using sb.pushes [OF cap] by (simp_all add: pushes_cols sb_restart_def ms_new_def)
  have len: "\<forall>row \<in> set (screen ?h). length row = w"
    using segs_lengths [OF r assms(3) nth_mem] live_row_facts(1) unfolding s(1) by auto
  have "length (g_cells ?h) = rows * w"
    unfolding flat using length_concat_rows [OF len] f(5) by simp
  then have gwf: "grid_wf ?h"
    using cells assms(3-6) wf(1) f ms unfolding grid_wf_def flat by simp
  have "subseq (cell_refs (concat (screen ?h))) (cell_refs (concat (screen g)))"
  proof -
    have "subseq (concat (map fst (drop ?k segs))) (concat (map fst segs))"
      by (metis append_take_drop_id concat_append map_append subseq_drop_many subseq_order.refl)
    then have "subseq (cell_refs (concat (screen ?h))) (cell_refs (concat ls))"
      unfolding s(2) segs_concat [OF r, symmetric] by (rule subseq_refs)
    also have "subseq (cell_refs (concat ls)) (cell_refs (concat (screen g)))"
      using subseq_refs [OF sub] history_refs [OF assms(2)] by simp
    finally show ?thesis .
  qed
  then have "mset (cell_refs (concat (screen ?h))) \<subseteq># mset (cell_refs (concat (screen g)))"
    by (rule subseq_mset)
  then have "pool_wf ?h" by (rule pool_wf_sub [OF wf(1) gwf wf(2) f(7)])
  then show ?thesis using gwf f(4,5,8,10) wf(4) by (simp add: grid_ok_def)
qed

lemma reflow_keeps_grid_ok_witness: "grid_ok (reflow AmbOff 3 2 (grid_with_scrollback 4 3 10))"
proof -
  have "history_ok (grid_with_scrollback 4 3 10)"
    by (simp add: history_ok_def grid_with_scrollback_def grid_with_scrollback_kind_def)
  then show ?thesis using reflow_keeps_grid_ok [OF grid_new_ok, of 4 3 10 3 2 AmbOff] by simp
qed

end
