(* ===== verification/ReflowRoundtrip.thy ===== *)
theory ReflowRoundtrip
  imports GridReflowWf
begin

text \<open>
  Cutting a logical line at a new width and gathering the rows again gives the line back, for
  every width of at least two columns and every line in which the NUL cells are exactly the
  trail halves of wide characters.  A wide character kept in the cluster pool is not wide by its
  character: cut behind it, the line comes back without its second half.
\<close>

definition paired :: "ambiguous_wide \<Rightarrow> cell list \<Rightarrow> bool" where
  "paired mode l \<longleftrightarrow>
     (\<forall>i < length l. ch (l ! i) = 0 \<longleftrightarrow> 0 < i \<and> char_width mode (ch (l ! (i - 1))) = 2) \<and>
     (l \<noteq> [] \<longrightarrow> char_width mode (ch (last l)) \<noteq> 2)"

text \<open>The rows \<open>reflow\<close> writes for one logical line, with their continuation flags.\<close>

definition rows_of :: "nat \<Rightarrow> cell list \<Rightarrow> (cell list \<times> bool) list" where
  "rows_of w l =
     (let segs = map snd (rewrap w 0 True l)
      in map (\<lambda>i. (live_row w segs i, snd (segs ! i))) [0..<length segs])"

abbreviation (input) nul_cell :: cell where "nul_cell \<equiv> \<lparr>ch = 0, attrs = attrs_default\<rparr>"

function cut_line :: "nat \<Rightarrow> bool \<Rightarrow> cell list \<Rightarrow> (cell list \<times> bool) list" where
  "cut_line w f l =
     (let t = seg_take w l
      in if t \<ge> length l then [(fit_row w cell_default l, \<not> f)]
         else (fit_row w nul_cell (take t l), \<not> f) # cut_line w False (drop t l))"
  by auto
termination
proof (relation "measure (\<lambda>(w, f, l). length l)")
  fix w f and l :: "cell list" and t
  assume "t = seg_take w l" "\<not> t \<ge> length l"
  moreover from this have "0 < seg_take w l" by (intro seg_take_pos) auto
  ultimately show "((w, False, drop t l), (w, f, l)) \<in> measure (\<lambda>(w, f, l). length l)" by simp
qed simp

declare cut_line.simps [simp del]

lemma cut_last: "length l \<le> seg_take w l \<Longrightarrow> cut_line w f l = [(fit_row w cell_default l, \<not> f)]"
  by (subst cut_line.simps) (simp add: Let_def)

lemma cut_step: "\<not> length l \<le> seg_take w l \<Longrightarrow>
   cut_line w f l = (fit_row w nul_cell (take (seg_take w l) l), \<not> f) # cut_line w False (drop (seg_take w l) l)"
  by (subst cut_line.simps) (simp add: Let_def)

lemma rewrap_flags: "x \<in> set (rewrap w s False l) \<Longrightarrow> snd (snd x)"
proof (induction w s False l rule: rewrap.induct)
  case (1 w s l)
  then show ?case by (subst (asm) (2) rewrap.simps) (auto simp: Let_def split: if_splits)
qed

lemma rows_cut:
  "segs = map snd (rewrap w s f l) \<Longrightarrow>
   map (\<lambda>i. (live_row w segs i, snd (segs ! i))) [0..<length segs] = cut_line w f l"
proof (induction w s f l arbitrary: segs rule: rewrap.induct)
  case (1 w s f l)
  let ?t = "seg_take w l"
  show ?case
  proof (cases "?t \<ge> length l")
    case True
    then have "segs = [(l, \<not> f)]" using 1(2) by (subst (asm) rewrap.simps) (simp add: Let_def)
    then show ?thesis
      using True by (simp add: cut_last live_row_def pad_cell_def)
  next
    case False
    let ?rest = "map snd (rewrap w (s + ?t) False (drop ?t l))"
    have segs: "segs = (take ?t l, \<not> f) # ?rest"
      using False 1(2) by (subst (asm) rewrap.simps) (simp add: Let_def)
    have ne: "?rest \<noteq> []" by simp
    then have "snd (?rest ! 0)"
      using rewrap_flags [of "rewrap w (s + ?t) False (drop ?t l) ! 0" w "s + ?t" "drop ?t l"] by (simp add: nth_mem)
    then have pad0: "pad_cell segs 0 = nul_cell" using ne unfolding segs by (simp add: pad_cell_def)
    have "pad_cell segs (Suc i) = pad_cell ?rest i" for i unfolding segs by (simp add: pad_cell_def)
    then have row: "live_row w segs (Suc i) = live_row w ?rest i" for i
      unfolding live_row_def by (simp add: segs)
    have "map (\<lambda>i. (live_row w segs i, snd (segs ! i))) [0..<length segs] =
        (live_row w segs 0, \<not> f) #
          map (\<lambda>i. (live_row w segs (Suc i), snd (segs ! Suc i))) [0..<length ?rest]"
      by (simp add: segs upt_conv_Cons map_Suc_upt [symmetric] comp_def del: upt_Suc)
    also have "live_row w segs 0 = fit_row w nul_cell (take ?t l)"
      unfolding live_row_def pad0 by (simp add: segs)
    also have "map (\<lambda>i. (live_row w segs (Suc i), snd (segs ! Suc i))) [0..<length ?rest] =
        map (\<lambda>i. (live_row w ?rest i, snd (?rest ! i))) [0..<length ?rest]"
      unfolding row by (simp add: segs)
    also have "\<dots> = cut_line w False (drop ?t l)" by (rule 1(1) [OF refl False refl])
    finally have "map (\<lambda>i. (live_row w segs i, snd (segs ! i))) [0..<length segs] =
        (fit_row w nul_cell (take ?t l), \<not> f) # cut_line w False (drop ?t l)" .
    then show ?thesis unfolding cut_step [OF False] .
  qed
qed

section \<open>Stripping the pads\<close>

definition kept_last :: "ambiguous_wide \<Rightarrow> cell list \<Rightarrow> bool" where
  "kept_last mode xs \<longleftrightarrow> xs \<noteq> [] \<and>
     (ch (last xs) = 0 \<longrightarrow> butlast xs \<noteq> [] \<and> char_width mode (ch (last (butlast xs))) = 2)"

lemma strip_kept: "kept_last mode xs \<Longrightarrow> strip_pads mode xs = xs"
proof -
  assume k: "kept_last mode xs"
  then obtain ys c where xs: "xs = ys @ [c]" unfolding kept_last_def by (metis append_butlast_last_id)
  have "ch c = 0 \<longrightarrow> ys \<noteq> [] \<and> char_width mode (ch (hd (rev ys))) = 2"
    using k unfolding kept_last_def xs by (simp add: hd_rev)
  then show "strip_pads mode xs = xs" unfolding xs strip_pads_def by auto
qed

lemma char_width_NUL: "char_width mode 0 = 0"
  by (simp add: char_width_def)

lemma strip_padded:
  assumes "kept_last mode xs" "char_width mode (ch (last xs)) \<noteq> 2"
  shows "strip_pads mode (xs @ replicate m nul_cell) = xs"
proof -
  have "drop_pads mode (replicate m nul_cell @ rev xs) = drop_pads mode (rev xs)"
  proof (induction m)
    case (Suc m)
    then show ?case
      using assms by (cases m) (simp_all add: char_width_NUL hd_rev kept_last_def)
  qed simp
  then show ?thesis using strip_kept [OF assms(1)] by (simp add: strip_pads_def)
qed

lemma last_take_nth:
  assumes "0 < t" "t \<le> length l"
  shows "last (take t l) = l ! (t - 1)"
proof -
  have "take t l \<noteq> []" using assms by auto
  then show ?thesis using assms by (simp add: last_conv_nth)
qed

lemma paired_prefix:
  assumes "paired mode l" "0 < t" "t < length l" "ch (l ! t) \<noteq> 0"
  shows "kept_last mode (take t l) \<and> char_width mode (ch (last (take t l))) \<noteq> 2"
proof -
  have last: "last (take t l) = l ! (t - 1)"  using assms(2,3) by (simp add: last_take_nth)
  have "char_width mode (ch (l ! (t - 1))) \<noteq> 2"
    using assms(1) [unfolded paired_def, THEN conjunct1, rule_format, OF assms(3)] assms(2,4) by simp
  moreover have "last (butlast (take t l)) = l ! (t - 2)" if "1 < t"
    using that assms(3) last_take_nth [of "t - 1" l] by (simp add: butlast_take numeral_2_eq_2)
  moreover have "ch (l ! (t - 1)) = 0 \<longrightarrow> 0 < t - 1 \<and> char_width mode (ch (l ! (t - 1 - 1))) = 2"
    using assms(1) assms(2,3) unfolding paired_def by auto
  ultimately show ?thesis
    using last assms(2,3) by (auto simp: kept_last_def butlast_take numeral_2_eq_2)
qed

lemma seg_take_next:
  assumes "\<And>i. 0 < i \<Longrightarrow> i < length r \<Longrightarrow> ch (r ! i) = 0 \<Longrightarrow> char_width mode (ch (r ! (i - 1))) = 2"
    "2 \<le> w" "seg_take w r < length r"
  shows "ch (r ! seg_take w r) \<noteq> 0"
proof -
  have len: "w < length r"
    using assms(2,3) by (auto simp: seg_take_def Let_def min_def split: if_splits)
  show ?thesis
  proof (cases "ch (r ! w) = 0")
    case True
    have "ch (r ! (w - 1)) \<noteq> 0"
    proof
      assume "ch (r ! (w - 1)) = 0"
      then show False using assms(1) [OF _ len True] assms(2) by (simp add: char_width_NUL)
    qed
    moreover have "seg_take w r = w - 1" using True len assms(2) by (auto simp: seg_take_def Let_def)
    ultimately show ?thesis by simp
  next
    case False
    then have "seg_take w r = w" using len assms(2) by (auto simp: seg_take_def Let_def)
    then show ?thesis using False by simp
  qed
qed

lemma gather_cut:
  assumes "paired mode l" "2 \<le> w" "strip_pads mode acc = take p l" "p \<le> length l"
  shows "\<exists>k. fold (absorb mode) (cut_line w False (drop p l)) [acc] = [l @ replicate k cell_default]"
  using assms(3,4)
proof (induction "length l - p" arbitrary: p acc rule: less_induct)
  case less
  let ?r = "drop p l"
  let ?t = "seg_take w ?r"
  show ?case
  proof (cases "?t \<ge> length ?r")
    case True
    have "length ?r \<le> w" using True seg_take_le [of w ?r] assms(2) by simp
    then have "fold (absorb mode) (cut_line w False ?r) [acc] =
        [take p l @ ?r @ replicate (w - length ?r) cell_default]"
      using True less.prems by (simp add: cut_last absorb_def fit_row_def)
    then show ?thesis by (metis append_assoc append_take_drop_id)
  next
    case False
    have pos: "0 < ?t" using False by (intro seg_take_pos) auto
    have tw: "?t \<le> w" using seg_take_le [of w ?r] assms(2) by simp
    have nz: "ch (?r ! ?t) \<noteq> 0"
    proof (rule seg_take_next [OF _ assms(2)])
      fix i assume i: "0 < i" "i < length ?r" "ch (?r ! i) = 0"
      then have "p + i < length l" "ch (l ! (p + i)) = 0" using less.prems(2) by simp_all
      then have "char_width mode (ch (l ! (p + i - 1))) = 2" using assms(1) by (simp add: paired_def)
      moreover have "?r ! (i - 1) = l ! (p + i - 1)" using i(1) less.prems(2) by simp
      ultimately show "char_width mode (ch (?r ! (i - 1))) = 2" by simp
    qed (use False in simp)
    let ?acc = "take p l @ fit_row w nul_cell (take ?t ?r)"
    have len: "p + ?t < length l" using False less.prems(2) by simp
    have "take p l @ take ?t ?r = take (p + ?t) l" by (simp add: take_add)
    then have acc: "?acc = take (p + ?t) l @ replicate (w - ?t) nul_cell"
    proof -
      have "fit_row w nul_cell (take ?t ?r) = take ?t ?r @ replicate (w - ?t) nul_cell"
        using tw False by (simp add: fit_row_def)
      then show ?thesis using \<open>take p l @ take ?t ?r = take (p + ?t) l\<close> by (metis append_assoc)
    qed
    have "ch (l ! (p + ?t)) \<noteq> 0" using nz less.prems(2) by simp
    then have "strip_pads mode ?acc = take (p + ?t) l"
      unfolding acc using paired_prefix [OF assms(1) _ len] pos by (intro strip_padded) auto
    moreover have "fold (absorb mode) (cut_line w False ?r) [acc] =
        fold (absorb mode) (cut_line w False (drop (p + ?t) l)) [?acc]"
      using False less.prems(1) by (simp add: cut_step absorb_def add.commute)
    ultimately show ?thesis using less.hyps [of "p + ?t" ?acc] pos len by simp
  qed
qed

lemma trim_padded: "l = [] \<or> last l \<noteq> cell_default \<Longrightarrow> trim_line (l @ replicate k cell_default) = l"
proof -
  assume l: "l = [] \<or> last l \<noteq> cell_default"
  have "dropWhile (\<lambda>c. c = cell_default) (replicate k cell_default @ rev l) = rev l"
    using l by (induction k) (auto simp: dropWhile_eq_self_iff hd_rev)
  then show ?thesis by (simp add: trim_line_def)
qed

text \<open>
  C37: re-wrapping loses nothing of a line in which the NUL cells are exactly the second halves of characters
  two columns wide, so that none of its wide characters is in the cluster pool, and which does not end in a
  default cell, as \<open>reflow\<close> has trimmed it.  Cut such a line at any width of two or more, pad the rows as \<open>reflow\<close>
  pads them, and gather them again the way the next \<open>reflow\<close> does: the line comes back cell for cell.
\<close>

theorem reflow_line_roundtrip:
  assumes "paired mode l" "2 \<le> w" "l = [] \<or> last l \<noteq> cell_default"
  shows "map trim_line (fold (absorb mode) (rows_of w l) []) = [l]"
proof -
  have rows: "rows_of w l = cut_line w True l"
    unfolding rows_of_def Let_def by (rule rows_cut [OF refl])
  let ?t = "seg_take w l"
  have "\<exists>k. fold (absorb mode) (cut_line w True l) [] = [l @ replicate k cell_default]"
  proof (cases "?t \<ge> length l")
    case True
    then have "length l \<le> w" using seg_take_le [of w l] assms(2) by simp
    then show ?thesis
      using True by (auto simp: cut_last absorb_def fit_row_def)
  next
    case False
    have pos: "0 < ?t" using False by (intro seg_take_pos) auto
    have tw: "?t \<le> w" using seg_take_le [of w l] assms(2) by simp
    have "ch (l ! ?t) \<noteq> 0"
      by (rule seg_take_next [OF _ assms(2)]) (use assms(1) False in \<open>auto simp: paired_def\<close>)
    then have "strip_pads mode (fit_row w nul_cell (take ?t l)) = take ?t l"
    proof -
      have "fit_row w nul_cell (take ?t l) = take ?t l @ replicate (w - ?t) nul_cell"
        using tw False by (simp add: fit_row_def)
      moreover have "?t < length l" using False by simp
      ultimately show ?thesis
        using strip_padded paired_prefix [OF assms(1) pos _ \<open>ch (l ! ?t) \<noteq> 0\<close>] by simp
    qed
    moreover have "fold (absorb mode) (cut_line w True l) [] =
        fold (absorb mode) (cut_line w False (drop ?t l)) [fit_row w nul_cell (take ?t l)]"
      using False by (simp add: cut_step absorb_def)
    ultimately show ?thesis using gather_cut [OF assms(1,2)] False by simp
  qed
  then show ?thesis using trim_padded [OF assms(3)] rows by auto
qed

lemma reflow_line_roundtrip_witness:
  "map trim_line (fold (absorb AmbOff)
     (rows_of 2 (map cell_from_char [0x61, 0x4E2D, 0, 0x62])) []) = [map cell_from_char [0x61, 0x4E2D, 0, 0x62]]"
proof (rule reflow_line_roundtrip)
  have w: "char_width AmbOff 0x4E2D = 2" "char_width AmbOff 0x61 = 1" "char_width AmbOff 0x62 = 1"
    by (simp_all add: char_width_def emoji_ranges EMOJI_PRESENTATION_RANGES_def EAST_ASIAN_WIDE_RANGES_def in_ranges_def)
  show "paired AmbOff (map cell_from_char [0x61, 0x4E2D, 0, 0x62])"
    using w by (auto simp: paired_def cell_from_char_def less_Suc_eq char_width_NUL)
qed (simp_all add: cell_from_char_def cell_default_def)

text \<open>
  C40: a wide character of the cluster pool loses its second half where a row ends behind it.  Take a
  line whose first row ends, full, with such a character, a cell whose own character is not two columns wide and a NUL, and
  whose rest fits the next row.  Cut and gathered again, the line lacks the NUL: everything behind it moves up by a cell.
\<close>

theorem reflow_drops_cluster_half:
  assumes "length xs + 2 = w" "ch k \<noteq> 0" "char_width mode (ch k) \<noteq> 2" "ch n = 0"
    "ys \<noteq> []" "length ys \<le> w" "ch (hd ys) \<noteq> 0" "last ys \<noteq> cell_default"
  shows "map trim_line (fold (absorb mode) (rows_of w (xs @ [k, n] @ ys)) []) = [xs @ [k] @ ys]"
proof -
  let ?l = "xs @ [k, n] @ ys"
  have "?l ! w = hd ys" using assms(1,5) by (cases ys) (simp_all add: nth_append)
  then have t: "seg_take w ?l = w" using assms(1,5,7) by (auto simp: seg_take_def Let_def)
  have cut: "take w ?l = xs @ [k, n]" "drop w ?l = ys" by (simp_all add: assms(1) [symmetric])
  have rest: "length ys \<le> seg_take w ys" using assms(6) by (simp add: seg_take_def)
  have "rows_of w ?l = cut_line w True ?l"
    unfolding rows_of_def Let_def by (rule rows_cut [OF refl])
  also have "\<dots> = [(fit_row w nul_cell (xs @ [k, n]), False), (fit_row w cell_default ys, True)]"
    using assms(5) cut_step [of ?l w True] cut_last [OF rest, of False] assms(1) unfolding t cut by (cases ys) simp_all
  finally have rows: "rows_of w ?l = [(xs @ [k, n], False), (ys @ replicate (w - length ys) cell_default, True)]"
    using assms(1,6) by (simp add: fit_row_def)
  have "strip_pads mode (xs @ [k, n]) = xs @ [k]" using assms(2-4) by (simp add: strip_pads_def)
  then have "fold (absorb mode) (rows_of w ?l) [] = [(xs @ [k] @ ys) @ replicate (w - length ys) cell_default]"
    unfolding rows by (simp add: absorb_def)
  moreover have "last (xs @ [k] @ ys) \<noteq> cell_default" using assms(5,8) by simp
  ultimately show ?thesis using trim_padded [of "xs @ [k] @ ys"] by simp
qed

text \<open>A cell that points at the pool, then its second half, at the right edge of three columns.\<close>

definition cluster_cell_example :: cell where
  "cluster_cell_example = \<lparr>ch = 0xF0000, attrs = set_cluster_flag attrs_default\<rparr>"

lemma reflow_drops_cluster_half_witness:
  "map trim_line (fold (absorb AmbOff)
     (rows_of 3 ([cell_from_char 0x61] @ [cluster_cell_example, cell_from_char 0] @ [cell_from_char 0x62])) []) =
   [[cell_from_char 0x61] @ [cluster_cell_example] @ [cell_from_char 0x62]]"
proof (rule reflow_drops_cluster_half)
  show "char_width AmbOff (ch cluster_cell_example) \<noteq> 2"
    by (simp add: cluster_cell_example_def char_width_def emoji_ranges EMOJI_PRESENTATION_RANGES_def
        EAST_ASIAN_WIDE_RANGES_def in_ranges_def)
qed (simp_all add: cluster_cell_example_def cell_from_char_def cell_default_def)

end
