(* ===== verification/Sgr.thy ===== *)
theory Sgr
  imports Cells
begin

text \<open>
  Select graphic rendition, \<open>crates/marspot-term/src/terminal.rs\<close> (\<open>apply_sgr\<close> and its helpers):
  the parameters of a \<open>CSI ... m\<close> applied to the pen, with the extended colours in their flat
  (\<open>38;5;n\<close>) and grouped (\<open>38:5:n\<close>) forms.
\<close>

section \<open>CSI parameters\<close>

definition param :: "nat list \<Rightarrow> nat \<Rightarrow> nat \<Rightarrow> nat" where
  "param params idx d =
     (if idx < length params then (if params ! idx = 0 then d else params ! idx) else d)"

definition param_raw :: "nat list \<Rightarrow> nat \<Rightarrow> nat \<Rightarrow> nat" where
  "param_raw params idx d = (if idx < length params then params ! idx else d)"

section \<open>Extended colours\<close>

text \<open>\<open>n.min(255) as u8\<close>.\<close>

definition min255 :: "nat \<Rightarrow> u8" where
  "min255 n = of_nat (min n 255)"

definition get :: "'a list \<Rightarrow> nat \<Rightarrow> 'a option" where
  "get xs i = (if i < length xs then Some (xs ! i) else None)"

definition colour_from_group :: "nat list \<Rightarrow> color option" where
  "colour_from_group rest =
     (case get rest 0 of
        None \<Rightarrow> None
      | Some k \<Rightarrow>
          if k = 5 then map_option (\<lambda>n. color_indexed (min255 n)) (get rest 1)
          else if k = 2 then
            let base = (if length rest \<ge> 5 then 2 else 1)
            in (case (get rest base, get rest (base + 1), get rest (base + 2)) of
                  (Some r, Some g, Some b) \<Rightarrow> Some (color_rgb (min255 r) (min255 g) (min255 b))
                | _ \<Rightarrow> None)
          else None)"

definition parse_extended_color :: "nat list \<Rightarrow> (color \<times> nat) option" where
  "parse_extended_color rest =
     (case get rest 0 of
        None \<Rightarrow> None
      | Some k \<Rightarrow>
          if k = 5 then map_option (\<lambda>n. (color_indexed (min255 n), 2)) (get rest 1)
          else if k = 2 then
            (case (get rest 1, get rest 2, get rest 3) of
               (Some r, Some g, Some b) \<Rightarrow> Some (color_rgb (min255 r) (min255 g) (min255 b), 4)
             | _ \<Rightarrow> None)
          else None)"

section \<open>The pen\<close>

definition apply_sgr_group :: "nat list \<Rightarrow> cell_attrs \<Rightarrow> cell_attrs" where
  "apply_sgr_group g a =
     (if g ! 0 = 4 then a\<lparr>underline := (case get g 1 of Some n \<Rightarrow> n \<noteq> 0 | None \<Rightarrow> True)\<rparr>
      else if g ! 0 = 38 then
        (case colour_from_group (drop 1 g) of Some c \<Rightarrow> a\<lparr>fg := c\<rparr> | None \<Rightarrow> a)
      else if g ! 0 = 48 then
        (case colour_from_group (drop 1 g) of Some c \<Rightarrow> a\<lparr>bg := c\<rparr> | None \<Rightarrow> a)
      else a)"

text \<open>The arms of the \<open>match\<close> that consume one parameter.\<close>

definition sgr_one :: "nat \<Rightarrow> cell_attrs \<Rightarrow> cell_attrs" where
  "sgr_one n a =
     (if n = 0 then attrs_default
      else if n = 1 then a\<lparr>bold := True\<rparr>
      else if n = 2 then a\<lparr>dim := True\<rparr>
      else if n = 3 then a\<lparr>italic := True\<rparr>
      else if n = 4 then a\<lparr>underline := True\<rparr>
      else if n = 7 then a\<lparr>reverse_video := True\<rparr>
      else if n = 22 then a\<lparr>bold := False, dim := False\<rparr>
      else if n = 23 then a\<lparr>italic := False\<rparr>
      else if n = 24 then a\<lparr>underline := False\<rparr>
      else if n = 27 then a\<lparr>reverse_video := False\<rparr>
      else if 30 \<le> n \<and> n \<le> 37 then a\<lparr>fg := color_indexed (of_nat (n - 30))\<rparr>
      else if n = 39 then a\<lparr>fg := color_default\<rparr>
      else if 40 \<le> n \<and> n \<le> 47 then a\<lparr>bg := color_indexed (of_nat (n - 40))\<rparr>
      else if n = 49 then a\<lparr>bg := color_default\<rparr>
      else if 90 \<le> n \<and> n \<le> 97 then a\<lparr>fg := color_indexed (8 + of_nat (n - 90))\<rparr>
      else if 100 \<le> n \<and> n \<le> 107 then a\<lparr>bg := color_indexed (8 + of_nat (n - 100))\<rparr>
      else a)"

text \<open>
  The arms 38 and 48, with the tail of the list after them; the number of parameters they take
  beyond themselves.
\<close>

definition sgr_flat :: "nat \<Rightarrow> nat list \<Rightarrow> cell_attrs \<Rightarrow> cell_attrs \<times> nat" where
  "sgr_flat n rest a =
     (if n = 38 then
        (case parse_extended_color rest of Some (c, used) \<Rightarrow> (a\<lparr>fg := c\<rparr>, used) | None \<Rightarrow> (a, 0))
      else if n = 48 then
        (case parse_extended_color rest of Some (c, used) \<Rightarrow> (a\<lparr>bg := c\<rparr>, used) | None \<Rightarrow> (a, 0))
      else (sgr_one n a, 0))"

text \<open>
  The loop over the parameters, each with the flag saying whether a colon came before it; the
  sub-parameters behind the head are taken with it as one group.
\<close>

function sgr_loop :: "(nat \<times> bool) list \<Rightarrow> cell_attrs \<Rightarrow> cell_attrs" where
  "sgr_loop [] a = a"
| "sgr_loop ((n, s) # ps) a =
     (let sub = takeWhile snd ps
      in if sub \<noteq> []
         then sgr_loop (drop (length sub) ps) (apply_sgr_group (n # map fst sub) a)
         else
           let (a, used) = sgr_flat n (map fst ps) a
           in sgr_loop (drop used ps) a)"
  by pat_completeness auto
termination
  by (relation "measure (\<lambda>(ps, a). length ps)") auto

definition apply_sgr :: "nat list \<Rightarrow> bool list \<Rightarrow> cell_attrs \<Rightarrow> cell_attrs" where
  "apply_sgr params subs a =
     (if params = [] then attrs_default
      else sgr_loop
        (map (\<lambda>(i, n). (n, i < length subs \<and> subs ! i)) (List.enumerate 0 params)) a)"

declare sgr_loop.simps [simp del]

section \<open>The pen stays well formed\<close>

text \<open>A pen: canonical colours, and none of the three reserved bytes in use.\<close>

definition pen_wf :: "cell_attrs \<Rightarrow> bool" where
  "pen_wf a \<longleftrightarrow> color_wf (fg a) \<and> color_wf (bg a) \<and> pad0 a = 0 \<and> pad1 a = 0 \<and> pad2 a = 0"

lemma attrs_default_pen [wf_intros, simp]: "pen_wf attrs_default"
  by (simp add: pen_wf_def attrs_default_def wf_intros)

lemma colour_from_group_wf: "colour_from_group g = Some c \<Longrightarrow> color_wf c"
  by (auto simp: colour_from_group_def Let_def wf_intros split: option.splits if_splits)

lemma parse_extended_color_wf: "parse_extended_color g = Some (c, k) \<Longrightarrow> color_wf c"
  by (auto simp: parse_extended_color_def wf_intros split: option.splits if_splits)

lemma apply_sgr_group_pen: "pen_wf a \<Longrightarrow> pen_wf (apply_sgr_group g a)"
  by (auto simp: apply_sgr_group_def pen_wf_def colour_from_group_wf split: option.splits)

lemma sgr_one_pen: "pen_wf a \<Longrightarrow> pen_wf (sgr_one n a)"
  by (simp add: sgr_one_def pen_wf_def attrs_default_def wf_intros)

lemma sgr_flat_pen: "pen_wf a \<Longrightarrow> pen_wf (fst (sgr_flat n rest a))"
  using sgr_one_pen [of a n]
  by (auto simp: sgr_flat_def pen_wf_def parse_extended_color_wf split: option.splits)

lemma sgr_loop_pen: "pen_wf a \<Longrightarrow> pen_wf (sgr_loop ps a)"
proof (induction ps a rule: sgr_loop.induct)
  case (1 a)
  then show ?case by (simp add: sgr_loop.simps)
next
  case (2 n s ps a)
  obtain a' used where f: "sgr_flat n (map fst ps) a = (a', used)" by fastforce
  have "pen_wf a'" using sgr_flat_pen [OF "2.prems", of n "map fst ps"] f by simp
  then show ?case
    using 2 f apply_sgr_group_pen [OF "2.prems"] by (simp add: sgr_loop.simps Let_def)
qed

lemma apply_sgr_pen [wf_intros]: "pen_wf a \<Longrightarrow> pen_wf (apply_sgr params subs a)"
  by (simp add: apply_sgr_def sgr_loop_pen)

section \<open>What a program writes\<close>

text \<open>
  The renditions a program asks for, the parameters that ask for each (with their colon flags),
  and what each means for the pen.  \<open>Fg\<close> and \<open>Bg\<close> are the shortest form,
  \<open>FgFlat\<close>/\<open>BgFlat\<close> the semicolon form, \<open>FgGroup\<close>/\<open>BgGroup\<close> the colon form with or without the
  empty colour-space id.  \<open>Other\<close> is a group whose head this terminal has no attribute for.
\<close>

datatype rendition =
    Reset | Bold | Dim | Italic | Underline | Inverse | NormalIntensity | NoItalic | NoUnderline
  | NoInverse | Fg color_kind | Bg color_kind | FgFlat color_kind | BgFlat color_kind
  | FgGroup bool color_kind | BgGroup bool color_kind | UnderlineStyle nat | Other nat "nat list"

definition semis :: "nat list \<Rightarrow> (nat \<times> bool) list" where
  "semis ns = map (\<lambda>n. (n, False)) ns"

definition colons :: "nat list \<Rightarrow> (nat \<times> bool) list" where
  "colons ns = map (\<lambda>(i, n). (n, i > 0)) (List.enumerate 0 ns)"

fun ext_params :: "color_kind \<Rightarrow> nat list" where
  "ext_params DefaultColor = []"
| "ext_params (Indexed i) = [5, unat i]"
| "ext_params (Rgb r g b) = [2, unat r, unat g, unat b]"

fun group_params :: "bool \<Rightarrow> color_kind \<Rightarrow> nat list" where
  "group_params space DefaultColor = []"
| "group_params space (Indexed i) = [5, unat i]"
| "group_params space (Rgb r g b) = [2] @ (if space then [0] else []) @ [unat r, unat g, unat b]"

fun short_params :: "nat \<Rightarrow> color_kind \<Rightarrow> nat list" where
  "short_params base DefaultColor = [base + 9]"
| "short_params base (Indexed i) =
     (if i < 8 then [base + unat i]
      else if i < 16 then [base + 60 + (unat i - 8)] else (base + 8) # ext_params (Indexed i))"
| "short_params base (Rgb r g b) = (base + 8) # ext_params (Rgb r g b)"

fun rendition_params :: "rendition \<Rightarrow> (nat \<times> bool) list" where
  "rendition_params Reset = semis [0]"
| "rendition_params Bold = semis [1]"
| "rendition_params Dim = semis [2]"
| "rendition_params Italic = semis [3]"
| "rendition_params Underline = semis [4]"
| "rendition_params Inverse = semis [7]"
| "rendition_params NormalIntensity = semis [22]"
| "rendition_params NoItalic = semis [23]"
| "rendition_params NoUnderline = semis [24]"
| "rendition_params NoInverse = semis [27]"
| "rendition_params (Fg k) = semis (short_params 30 k)"
| "rendition_params (Bg k) = semis (short_params 40 k)"
| "rendition_params (FgFlat k) = semis (38 # ext_params k)"
| "rendition_params (BgFlat k) = semis (48 # ext_params k)"
| "rendition_params (FgGroup sp k) = colons (38 # group_params sp k)"
| "rendition_params (BgGroup sp k) = colons (48 # group_params sp k)"
| "rendition_params (UnderlineStyle n) = colons [4, n]"
| "rendition_params (Other n ns) = colons (n # ns)"

fun rendition_meaning :: "rendition \<Rightarrow> cell_attrs \<Rightarrow> cell_attrs" where
  "rendition_meaning Reset a = attrs_default"
| "rendition_meaning Bold a = a\<lparr>bold := True\<rparr>"
| "rendition_meaning Dim a = a\<lparr>dim := True\<rparr>"
| "rendition_meaning Italic a = a\<lparr>italic := True\<rparr>"
| "rendition_meaning Underline a = a\<lparr>underline := True\<rparr>"
| "rendition_meaning Inverse a = a\<lparr>reverse_video := True\<rparr>"
| "rendition_meaning NormalIntensity a = a\<lparr>bold := False, dim := False\<rparr>"
| "rendition_meaning NoItalic a = a\<lparr>italic := False\<rparr>"
| "rendition_meaning NoUnderline a = a\<lparr>underline := False\<rparr>"
| "rendition_meaning NoInverse a = a\<lparr>reverse_video := False\<rparr>"
| "rendition_meaning (Fg k) a = a\<lparr>fg := color_from_kind k\<rparr>"
| "rendition_meaning (Bg k) a = a\<lparr>bg := color_from_kind k\<rparr>"
| "rendition_meaning (FgFlat k) a = a\<lparr>fg := color_from_kind k\<rparr>"
| "rendition_meaning (BgFlat k) a = a\<lparr>bg := color_from_kind k\<rparr>"
| "rendition_meaning (FgGroup sp k) a = a\<lparr>fg := color_from_kind k\<rparr>"
| "rendition_meaning (BgGroup sp k) a = a\<lparr>bg := color_from_kind k\<rparr>"
| "rendition_meaning (UnderlineStyle n) a = a\<lparr>underline := (n \<noteq> 0)\<rparr>"
| "rendition_meaning (Other n ns) a = a"

text \<open>The flat and grouped colour forms name a colour; the default has the short form only.\<close>

fun rendition_ok :: "rendition \<Rightarrow> bool" where
  "rendition_ok (FgFlat k) = (k \<noteq> DefaultColor)"
| "rendition_ok (BgFlat k) = (k \<noteq> DefaultColor)"
| "rendition_ok (FgGroup sp k) = (k \<noteq> DefaultColor)"
| "rendition_ok (BgGroup sp k) = (k \<noteq> DefaultColor)"
| "rendition_ok (Other n ns) = (n \<notin> {4, 38, 48} \<and> ns \<noteq> [])"
| "rendition_ok _ = True"

definition fresh_params :: "(nat \<times> bool) list \<Rightarrow> bool" where
  "fresh_params ps \<longleftrightarrow> (case ps of [] \<Rightarrow> True | p # _ \<Rightarrow> \<not> snd p)"

lemma takeWhile_fresh: "fresh_params ps \<Longrightarrow> takeWhile snd ps = []"
  by (cases ps) (simp_all add: fresh_params_def)

lemma sgr_loop_flat:
  assumes "fresh_params ps" "sgr_flat n (map fst ps) a = (b, used)"
  shows "sgr_loop ((n, s) # ps) a = sgr_loop (drop used ps) b"
  using takeWhile_fresh [OF assms(1)] assms(2) by (simp add: sgr_loop.simps)

lemma colons_Cons: "colons (n # ns) = (n, False) # map (\<lambda>n. (n, True)) ns"
proof -
  have "map (\<lambda>(i, n). (n, i > 0)) (List.enumerate (Suc k) ns) = map (\<lambda>n. (n, True)) ns" for k
    by (induction ns arbitrary: k) simp_all
  from this [of 0] show ?thesis by (simp add: colons_def)
qed

lemma map_fst_pair [simp]: "map (fst \<circ> (\<lambda>n. (n, b))) ns = ns"
  by (induction ns) simp_all

lemma sgr_loop_group:
  assumes "fresh_params rest" "ns \<noteq> []"
  shows "sgr_loop (colons (n # ns) @ rest) a = sgr_loop rest (apply_sgr_group (n # ns) a)"
proof -
  have "takeWhile snd (map (\<lambda>n. (n, True)) ns @ rest) = map (\<lambda>n. (n, True)) ns"
    using takeWhile_fresh [OF assms(1)] by (induction ns) simp_all
  then show ?thesis using assms(2) by (simp add: colons_Cons sgr_loop.simps Let_def)
qed

lemma fresh_semis [simp]: "fresh_params (semis (n # ns) @ rest)"
  by (simp add: semis_def fresh_params_def)

lemma min255_unat [simp]: "min255 (unat b) = b"
  using unat_u8_lt [of b] by (simp add: min255_def min_def del: unat_u8_lt)

lemma ext_params_parse:
  "k \<noteq> DefaultColor \<Longrightarrow>
   parse_extended_color (ext_params k @ rest) = Some (color_from_kind k, length (ext_params k))"
  by (cases k) (simp_all add: parse_extended_color_def get_def)

lemma sgr_loop_ext:
  assumes "fresh_params rest" "k \<noteq> DefaultColor"
  shows "sgr_loop (semis (38 # ext_params k) @ rest) a = sgr_loop rest (a\<lparr>fg := color_from_kind k\<rparr>)"
    "sgr_loop (semis (48 # ext_params k) @ rest) a = sgr_loop rest (a\<lparr>bg := color_from_kind k\<rparr>)"
proof -
  have fresh: "fresh_params (semis (ext_params k) @ rest)"
    using assms(2) by (cases k) (simp_all add: semis_def fresh_params_def)
  have fsts: "map fst (semis (ext_params k) @ rest) = ext_params k @ map fst rest"
    by (simp add: semis_def comp_def)
  have skip: "drop (length (ext_params k)) (semis (ext_params k) @ rest) = rest"
    by (simp add: semis_def)
  have fl: "sgr_flat 38 (map fst (semis (ext_params k) @ rest)) a =
      (a\<lparr>fg := color_from_kind k\<rparr>, length (ext_params k))"
    "sgr_flat 48 (map fst (semis (ext_params k) @ rest)) a =
      (a\<lparr>bg := color_from_kind k\<rparr>, length (ext_params k))"
    unfolding fsts by (simp_all add: sgr_flat_def ext_params_parse [OF assms(2)])
  show "sgr_loop (semis (38 # ext_params k) @ rest) a = sgr_loop rest (a\<lparr>fg := color_from_kind k\<rparr>)"
    using sgr_loop_flat [OF fresh fl(1)] skip by (simp add: semis_def)
  show "sgr_loop (semis (48 # ext_params k) @ rest) a = sgr_loop rest (a\<lparr>bg := color_from_kind k\<rparr>)"
    using sgr_loop_flat [OF fresh fl(2)] skip by (simp add: semis_def)
qed

lemma sgr_loop_one:
  "fresh_params rest \<Longrightarrow> n \<noteq> 38 \<Longrightarrow> n \<noteq> 48 \<Longrightarrow>
   sgr_loop (semis [n] @ rest) a = sgr_loop rest (sgr_one n a)"
  using sgr_loop_flat [of rest n a "sgr_one n a" 0 False] by (simp add: semis_def sgr_flat_def)

lemma sgr_loop_short:
  assumes "fresh_params rest"
  shows "sgr_loop (semis (short_params 30 k) @ rest) a = sgr_loop rest (a\<lparr>fg := color_from_kind k\<rparr>)"
    "sgr_loop (semis (short_params 40 k) @ rest) a = sgr_loop rest (a\<lparr>bg := color_from_kind k\<rparr>)"
proof -
  have lt: "unat i < 8 \<longleftrightarrow> i < 8" "unat i < 16 \<longleftrightarrow> i < 16" for i :: u8
    by (simp_all add: word_less_nat_alt)
  have bright: "8 + (of_nat (unat i - 8) :: u8) = i" if "8 \<le> unat i" for i :: u8
    using that by (simp add: of_nat_diff)
  show "sgr_loop (semis (short_params 30 k) @ rest) a = sgr_loop rest (a\<lparr>fg := color_from_kind k\<rparr>)"
  proof (cases k)
    case (Indexed i)
    consider "i < 8" | "\<not> i < 8" "i < 16" | "\<not> i < 16" "\<not> i < 8" using lt by fastforce
    then show ?thesis
      using sgr_loop_ext(1) [OF assms, of k a] sgr_loop_one [OF assms, of "30 + unat i" a]
        sgr_loop_one [OF assms, of "90 + (unat i - 8)" a] bright [of i] lt [of i]
      by cases (simp_all add: Indexed sgr_one_def)
  qed (use sgr_loop_ext(1) [OF assms, of k a] sgr_loop_one [OF assms, of 39 a] in
      \<open>simp_all add: sgr_one_def\<close>)
  show "sgr_loop (semis (short_params 40 k) @ rest) a = sgr_loop rest (a\<lparr>bg := color_from_kind k\<rparr>)"
  proof (cases k)
    case (Indexed i)
    consider "i < 8" | "\<not> i < 8" "i < 16" | "\<not> i < 16" "\<not> i < 8" using lt by fastforce
    then show ?thesis
      using sgr_loop_ext(2) [OF assms, of k a] sgr_loop_one [OF assms, of "40 + unat i" a]
        sgr_loop_one [OF assms, of "100 + (unat i - 8)" a] bright [of i] lt [of i]
      by cases (simp_all add: Indexed sgr_one_def)
  qed (use sgr_loop_ext(2) [OF assms, of k a] sgr_loop_one [OF assms, of 49 a] in
      \<open>simp_all add: sgr_one_def\<close>)
qed

lemma colour_from_group_params:
  "k \<noteq> DefaultColor \<Longrightarrow> colour_from_group (group_params sp k) = Some (color_from_kind k)"
  by (cases k) (simp_all add: colour_from_group_def get_def)

lemma group_params_Nil: "group_params sp k = [] \<longleftrightarrow> k = DefaultColor"
  by (cases k) simp_all

lemma sgr_loop_rendition:
  assumes "rendition_ok r" "fresh_params rest"
  shows "sgr_loop (rendition_params r @ rest) a = sgr_loop rest (rendition_meaning r a)"
proof (cases r)
  case (FgGroup sp k)
  then show ?thesis using assms sgr_loop_group [OF assms(2), of "group_params sp k" 38 a]
    by (simp add: group_params_Nil apply_sgr_group_def colour_from_group_params)
next
  case (BgGroup sp k)
  then show ?thesis using assms sgr_loop_group [OF assms(2), of "group_params sp k" 48 a]
    by (simp add: group_params_Nil apply_sgr_group_def colour_from_group_params)
next
  case (UnderlineStyle n)
  then show ?thesis using sgr_loop_group [OF assms(2), of "[n]" 4 a]
    by (simp add: apply_sgr_group_def get_def)
next
  case (Other n ns)
  then show ?thesis using assms sgr_loop_group [OF assms(2), of ns n a]
    by (simp add: apply_sgr_group_def)
qed (use assms in \<open>simp_all add: sgr_loop_short sgr_loop_ext sgr_loop_one sgr_one_def\<close>)

lemma rendition_params_fresh: "fresh_params (rendition_params r @ rest)"
proof -
  have "fresh_params (semis (short_params b k) @ rest)" for b k
    by (cases "short_params b k") (cases k; simp split: if_splits)+
  then show ?thesis by (cases r) (simp_all add: colons_Cons fresh_params_def [of "_ # _"])
qed

lemma renditions_fresh: "fresh_params (concat (map rendition_params rs))"
  by (cases rs) (simp_all add: rendition_params_fresh, simp add: fresh_params_def)

text \<open>
  C29: the pen after a \<open>CSI ... m\<close>.  However a program strings renditions together, in the
  semicolon and the colon forms, with groups this terminal has no attribute for in between,
  the pen is changed by each in turn and by nothing else: no number of one rendition is ever
  read as another.
\<close>
theorem sgr_sequence:
  assumes "rs \<noteq> []" "\<forall>r \<in> set rs. rendition_ok r"
  shows "apply_sgr (map fst (concat (map rendition_params rs)))
           (map snd (concat (map rendition_params rs))) a = fold rendition_meaning rs a"
proof -
  have "sgr_loop (concat (map rendition_params rs)) a = fold rendition_meaning rs a"
    using assms(2)
    by (induction rs arbitrary: a)
      (simp_all add: sgr_loop.simps(1) sgr_loop_rendition renditions_fresh)
  moreover have "rendition_params r \<noteq> []" for r
  proof -
    have "short_params b k \<noteq> []" for b k by (cases k) simp_all
    then show ?thesis by (cases r) (simp_all add: semis_def colons_Cons)
  qed
  then have "concat (map rendition_params rs) \<noteq> []"
    using assms(1) by (cases rs) simp_all
  moreover have "map (\<lambda>(i, n). (n, i < length (map snd ps) \<and> map snd ps ! i))
      (List.enumerate 0 (map fst ps)) = ps" for ps :: "(nat \<times> bool) list"
    by (auto simp: enumerate_eq_zip intro!: nth_equalityI)
  ultimately show ?thesis by (simp add: apply_sgr_def del: concat_eq_Nil_conv)
qed

lemma sgr_sequence_witness:
  "apply_sgr [1, 58, 2, 0, 255, 0, 0, 38, 5, 196] [False, False, True, True, True, True, True, False, False, False]
     attrs_default = attrs_default\<lparr>bold := True, fg := color_indexed 196\<rparr>"
  using sgr_sequence [of "[Bold, Other 58 [2, 0, 255, 0, 0], Fg (Indexed 196)]" attrs_default]
  by (simp add: semis_def colons_Cons)

end
