(* ===== verification/GridEdit.thy ===== *)
theory GridEdit
  imports GridReflowWf Sgr
begin

text \<open>
  Editing cells in place, the parts of \<open>crates/marspot-term/src/terminal.rs\<close> that write blanks
  or move cells inside a row of the grid: \<open>fill_range\<close> with its repair of wide pairs, the erases
  built on it, and the inserts and deletes of characters.
\<close>

section \<open>Blanks\<close>

definition blank_with :: "cell_attrs \<Rightarrow> cell" where
  "blank_with a = \<lparr>ch = 0x20, attrs = attrs_default\<lparr>bg := bg a\<rparr>\<rparr>"

text \<open>Cells are numbered from the top left; the two \<open>if\<close>s are the repair at either edge.\<close>

definition fill_start :: "ambiguous_wide \<Rightarrow> nat \<Rightarrow> grid \<Rightarrow> nat" where
  "fill_start mode start g =
     (if start > 0 \<and> start mod g_cols g \<noteq> 0 \<and>
         char_width mode (ch (grid_cell g ((start - 1) mod g_cols g) ((start - 1) div g_cols g))) = 2
      then start - 1 else start)"

definition fill_end :: "ambiguous_wide \<Rightarrow> nat \<Rightarrow> grid \<Rightarrow> nat" where
  "fill_end mode end_exclusive g =
     (if end_exclusive < g_cols g * g_rows g \<and> end_exclusive mod g_cols g \<noteq> 0 \<and>
         char_width mode (ch (grid_cell g ((end_exclusive - 1) mod g_cols g)
           ((end_exclusive - 1) div g_cols g))) = 2
      then end_exclusive + 1 else end_exclusive)"

definition fill_range :: "ambiguous_wide \<Rightarrow> nat \<Rightarrow> nat \<Rightarrow> cell_attrs \<Rightarrow> grid \<Rightarrow> grid" where
  "fill_range mode start end_exclusive a g =
     (if start \<ge> end_exclusive then g
      else
        let cols = g_cols g
        in fold (\<lambda>idx. set_cell (idx mod cols) (idx div cols) (blank_with a))
             [fill_start mode start g..<fill_end mode end_exclusive g] g)"

definition erase_in_display ::
  "ambiguous_wide \<Rightarrow> nat \<Rightarrow> nat \<Rightarrow> nat \<Rightarrow> nat \<Rightarrow> nat \<Rightarrow> cell_attrs \<Rightarrow> grid \<Rightarrow> grid" where
  "erase_in_display wide col row cols rows mode a g =
     (let total = cols * rows; cursor_idx = row * cols + col
      in if mode = 0 then fill_range wide cursor_idx total a g
         else if mode = 1 then fill_range wide 0 (cursor_idx + 1) a g
         else if mode = 2 then fill_range wide 0 total a g
         else g)"

definition erase_in_line ::
  "ambiguous_wide \<Rightarrow> nat \<Rightarrow> nat \<Rightarrow> nat \<Rightarrow> nat \<Rightarrow> cell_attrs \<Rightarrow> grid \<Rightarrow> grid" where
  "erase_in_line wide col row cols mode a g =
     (let row_start = row * cols; row_end = row_start + cols; cursor_idx = row_start + col
      in if mode = 0 then fill_range wide cursor_idx row_end a g
         else if mode = 1 then fill_range wide row_start (cursor_idx + 1) a g
         else if mode = 2 then fill_range wide row_start row_end a g
         else g)"

section \<open>Characters of a row\<close>

definition move_right :: "nat \<Rightarrow> nat \<Rightarrow> nat \<Rightarrow> grid \<Rightarrow> grid" where
  "move_right col row n g =
     fold (\<lambda>c g. set_cell c row (grid_cell g (c - n) row) g) (rev [col + n..<g_cols g]) g"

definition move_left :: "nat \<Rightarrow> nat \<Rightarrow> nat \<Rightarrow> grid \<Rightarrow> grid" where
  "move_left col row n g =
     fold (\<lambda>c g. set_cell c row (grid_cell g (c + n) row) g) [col..<g_cols g - n] g"

definition blank_cells :: "nat \<Rightarrow> nat \<Rightarrow> nat \<Rightarrow> cell_attrs \<Rightarrow> grid \<Rightarrow> grid" where
  "blank_cells col end_exclusive row a g =
     fold (\<lambda>c. set_cell c row (blank_with a)) [col..<end_exclusive] g"

definition shift_line_right :: "nat \<Rightarrow> nat \<Rightarrow> nat \<Rightarrow> cell_attrs \<Rightarrow> grid \<Rightarrow> grid" where
  "shift_line_right col row n a g =
     (if n = 0 \<or> col \<ge> g_cols g then g
      else blank_cells col (min (col + n) (g_cols g)) row a (move_right col row n g))"

definition insert_chars :: "nat \<Rightarrow> nat \<Rightarrow> nat \<Rightarrow> cell_attrs \<Rightarrow> grid \<Rightarrow> grid" where
  "insert_chars col row arg a g =
     (let n = min arg (g_cols g - col)
      in if n > 0 then blank_cells col (col + n) row a (move_right col row n g) else g)"

definition delete_chars :: "nat \<Rightarrow> nat \<Rightarrow> nat \<Rightarrow> cell_attrs \<Rightarrow> grid \<Rightarrow> grid" where
  "delete_chars col row arg a g =
     (let n = min arg (g_cols g - col)
      in if n > 0 then blank_cells (g_cols g - n) (g_cols g) row a (move_left col row n g) else g)"

definition erase_chars :: "nat \<Rightarrow> nat \<Rightarrow> nat \<Rightarrow> cell_attrs \<Rightarrow> grid \<Rightarrow> grid" where
  "erase_chars col row arg a g =
     (let n = min arg (g_cols g - col) in blank_cells col (col + n) row a g)"

section \<open>One row of the screen\<close>

text \<open>\<open>h\<close> is \<open>g\<close> with row \<open>r\<close> of the screen replaced by \<open>xs\<close>.\<close>

definition row_edit :: "nat \<Rightarrow> cell list \<Rightarrow> grid \<Rightarrow> grid \<Rightarrow> bool" where
  "row_edit r xs g h \<longleftrightarrow>
     same_but_cells g h \<and> grid_wf h \<and> screen h = (screen g)[r := xs] \<and> g_panic h = g_panic g"

lemma screen_eqI:
  assumes "g_rows h = g_rows g" "\<And>r. r < g_rows g \<Longrightarrow> grid_row h r = xss ! r" "length xss = g_rows g"
  shows "screen h = xss"
  using assms by (auto intro!: nth_equalityI simp: screen_nth)

lemma blit_one: "i < length xs \<Longrightarrow> blit xs i [x] = xs[i := x]"
  by (simp add: blit_def upd_conv_take_nth_drop)

lemma row_edit_set_cells:
  assumes "grid_wf g" "r < g_rows g" "c + length run \<le> g_cols g" "\<forall>x \<in> set run. cell_wf x"
  shows "row_edit r (blit (grid_row g r) c run) g (set_cells c r run g)"
proof -
  have "screen (set_cells c r run g) = (screen g)[r := blit (grid_row g r) c run]"
    using assms by (intro screen_eqI) (auto simp: set_cells_row screen_nth nth_list_update)
  then show ?thesis
    using assms set_cells_wf [OF assms] set_cells_no_panic [OF assms(1-3)]
    by (simp add: row_edit_def same_but_cells_def set_cells_def Let_def check_def)
qed

lemma row_edit_set_cell:
  assumes "grid_wf g" "r < g_rows g" "c < g_cols g" "cell_wf x"
  shows "row_edit r ((grid_row g r)[c := x]) g (set_cell c r x g)"
  using row_edit_set_cells [OF assms(1,2), of c "[x]"] assms
  by (simp add: set_cell_set_cells blit_one length_grid_row)

lemma row_edit_fields:
  assumes "row_edit r xs g h"
  shows "grid_wf h" "screen h = (screen g)[r := xs]" "g_panic h = g_panic g" "same_but_cells g h"
    "g_rows h = g_rows g" "g_cols h = g_cols g" "g_clusters h = g_clusters g"
    "g_cursor_col h = g_cursor_col g" "g_cursor_row h = g_cursor_row g"
  using assms same_but_cells_fields [of g h] by (simp_all add: row_edit_def)

lemma row_edit_row: "row_edit r xs g h \<Longrightarrow> r < g_rows g \<Longrightarrow> grid_row h r = xs"
  using screen_nth [of r h] by (simp add: row_edit_fields(2,5))

lemma row_edit_trans: "row_edit r xs g h \<Longrightarrow> row_edit r ys h k \<Longrightarrow> row_edit r ys g k"
  by (auto simp: row_edit_def intro: same_but_cells_trans)

lemma row_edit_refl: "grid_wf g \<Longrightarrow> r < g_rows g \<Longrightarrow> row_edit r (grid_row g r) g g"
  by (simp add: row_edit_def same_but_cells_def screen_nth [symmetric])

lemma row_edit_cells:
  assumes "row_edit r xs g h" "r < g_rows g"
  shows "length xs = g_cols g" "\<forall>x \<in> set xs. cell_wf x"
proof -
  have "xs = phys_cells h (phys_row h r)"
    using row_edit_row [OF assms] by (simp add: grid_row_phys)
  moreover have "r < g_rows h" using assms by (simp add: row_edit_fields(5))
  ultimately show "length xs = g_cols g" "\<forall>x \<in> set xs. cell_wf x"
    using phys_cells_length(1) [OF row_edit_fields(1) [OF assms(1)] phys_row_lt]
      row_cells_wf [OF row_edit_fields(1)] assms(1) row_edit_fields(1,6) by auto
qed

text \<open>A loop over columns, each step writing one cell that may be read off the row so far.\<close>

lemma row_edit_fold:
  assumes "r < g_rows g" "\<forall>c \<in> set cs. c < g_cols g"
    "\<And>c g' xs. c \<in> set cs \<Longrightarrow> row_edit r xs g g' \<Longrightarrow>
       put c g' = set_cell c r (val c xs) g' \<and> cell_wf (val c xs)"
    "row_edit r xs g h"
  shows "row_edit r (fold (\<lambda>c xs. xs[c := val c xs]) cs xs) g (fold put cs h)"
  using assms(2-4)
proof (induction cs arbitrary: xs h)
  case (Cons c cs)
  have p: "put c h = set_cell c r (val c xs) h" "cell_wf (val c xs)"
    using Cons.prems(2) [of c, OF _ Cons.prems(3)] by simp_all
  have "row_edit r ((grid_row h r)[c := val c xs]) h (put c h)"
    unfolding p(1) using Cons.prems assms(1) p(2)
    by (intro row_edit_set_cell) (simp_all add: row_edit_fields [OF Cons.prems(3)])
  then have "row_edit r (xs[c := val c xs]) g (put c h)"
    using row_edit_trans [OF Cons.prems(3)] row_edit_row [OF Cons.prems(3) assms(1)] by simp
  then show ?case using Cons by simp
qed simp

lemma fold_const_cells:
  "fold (\<lambda>c xs. xs[c := x]) [a..<b] xs =
     map (\<lambda>i. if a \<le> i \<and> i < b then x else xs ! i) [0..<length xs]"
  by (induction b) (auto intro!: nth_equalityI simp: nth_list_update less_Suc_eq)

lemma fold_right_cells:
  assumes "n \<le> a" "b \<le> length xs"
  shows "fold (\<lambda>c xs. xs[c := xs ! (c - n)]) (rev [a..<b]) xs =
     map (\<lambda>i. if a \<le> i \<and> i < b then xs ! (i - n) else xs ! i) [0..<length xs]"
  using assms(2)
proof (induction b arbitrary: xs)
  case (Suc b)
  show ?case
  proof (cases "a \<le> b")
    case True
    then have "fold (\<lambda>c xs. xs[c := xs ! (c - n)]) (rev [a..<Suc b]) xs =
        fold (\<lambda>c xs. xs[c := xs ! (c - n)]) (rev [a..<b]) (xs[b := xs ! (b - n)])" by simp
    also have "\<dots> = map (\<lambda>i. if a \<le> i \<and> i < Suc b then xs ! (i - n) else xs ! i) [0..<length xs]"
      using Suc.prems Suc.IH [of "xs[b := xs ! (b - n)]"] True
      by (auto intro!: nth_equalityI simp: nth_list_update less_Suc_eq)
    finally show ?thesis .
  next
    case False
    then show ?thesis by (auto intro!: nth_equalityI)
  qed
qed (auto intro!: nth_equalityI)

lemma fold_left_cells:
  assumes "b + n \<le> length xs"
  shows "fold (\<lambda>c xs. xs[c := xs ! (c + n)]) [a..<b] xs =
     map (\<lambda>i. if a \<le> i \<and> i < b then xs ! (i + n) else xs ! i) [0..<length xs]"
  using assms
proof (induction b)
  case (Suc b)
  then show ?case
    by (auto intro!: nth_equalityI simp: nth_list_update less_Suc_eq)
qed (auto intro!: nth_equalityI)

section \<open>The edits as operations on the row\<close>

lemma blank_with_wf: "pen_wf a \<Longrightarrow> blank_cell (blank_with a)"
  by (simp add: blank_cell_def blank_with_def pen_wf_def attrs_default_def cell_wf_def is_scalar_def
      cluster_index_def is_cluster_def wf_intros)

lemma blank_cell_wf: "blank_cell c \<Longrightarrow> cell_wf c"
  by (simp add: blank_cell_def)

text \<open>The row with cells \<open>a..<b\<close> replaced by blanks.\<close>

definition blanked :: "nat \<Rightarrow> nat \<Rightarrow> 'a \<Rightarrow> 'a list \<Rightarrow> 'a list" where
  "blanked a b x xs = map (\<lambda>i. if a \<le> i \<and> i < b then x else xs ! i) [0..<length xs]"

lemma blanked_simps [simp]:
  "length (blanked a b x xs) = length xs"
  "i < length xs \<Longrightarrow> blanked a b x xs ! i = (if a \<le> i \<and> i < b then x else xs ! i)"
  by (simp_all add: blanked_def)

lemma row_edit_blank:
  assumes "row_edit r xs g h" "r < g_rows g" "b \<le> g_cols g" "pen_wf a"
  shows "row_edit r (blanked c b (blank_with a) xs) g (blank_cells c b r a h)"
  using row_edit_fold [OF assms(2), where cs = "[c..<b]" and xs = xs and h = h and
      put = "\<lambda>c. set_cell c r (blank_with a)" and val = "\<lambda>c xs. blank_with a"]
    assms blank_cell_wf [OF blank_with_wf [OF assms(4)]]
  by (auto simp: blank_cells_def blanked_def fold_const_cells)

lemma grid_cell_edit:
  "row_edit r xs g h \<Longrightarrow> r < g_rows g \<Longrightarrow> c < g_cols g \<Longrightarrow> grid_cell h c r = xs ! c"
  using grid_cell_row [of h r c] row_edit_row by (simp add: row_edit_fields)

lemma row_edit_right:
  assumes "row_edit r xs g h" "r < g_rows g"
  shows "row_edit r (map (\<lambda>i. if c + n \<le> i then xs ! (i - n) else xs ! i) [0..<g_cols g])
    g (move_right c r n h)"
proof -
  let ?put = "\<lambda>c g. set_cell c r (grid_cell g (c - n) r) g" and ?cs = "rev [c + n..<g_cols g]"
  have "row_edit r (fold (\<lambda>c xs. xs[c := xs ! (c - n)]) ?cs xs) g (fold ?put ?cs h)"
  proof (rule row_edit_fold [OF assms(2) _ _ assms(1)])
    fix k g' ys assume k: "k \<in> set ?cs" and e: "row_edit r ys g g'"
    have "ys ! (k - n) \<in> set ys" using k row_edit_cells(1) [OF e assms(2)] by auto
    then show "?put k g' = set_cell k r (ys ! (k - n)) g' \<and> cell_wf (ys ! (k - n))"
      using k row_edit_cells(2) [OF e assms(2)] grid_cell_edit [OF e assms(2), of "k - n"] by auto
  qed auto
  moreover have "fold (\<lambda>c xs. xs[c := xs ! (c - n)]) ?cs xs =
      map (\<lambda>i. if c + n \<le> i then xs ! (i - n) else xs ! i) [0..<g_cols g]"
    using fold_right_cells [of n "c + n" "g_cols g" xs] row_edit_cells(1) [OF assms] by simp
  ultimately show ?thesis using assms(1) by (simp add: move_right_def row_edit_fields(6))
qed

lemma row_edit_left:
  assumes "row_edit r xs g h" "r < g_rows g" "n \<le> g_cols g"
  shows "row_edit r (map (\<lambda>i. if c \<le> i \<and> i < g_cols g - n then xs ! (i + n) else xs ! i) [0..<g_cols g])
    g (move_left c r n h)"
proof -
  let ?put = "\<lambda>c g. set_cell c r (grid_cell g (c + n) r) g" and ?cs = "[c..<g_cols g - n]"
  have "row_edit r (fold (\<lambda>c xs. xs[c := xs ! (c + n)]) ?cs xs) g (fold ?put ?cs h)"
  proof (rule row_edit_fold [OF assms(2) _ _ assms(1)])
    fix k g' ys assume k: "k \<in> set ?cs" and e: "row_edit r ys g g'"
    have "ys ! (k + n) \<in> set ys" using k row_edit_cells(1) [OF e assms(2)] by auto
    then show "?put k g' = set_cell k r (ys ! (k + n)) g' \<and> cell_wf (ys ! (k + n))"
      using k row_edit_cells(2) [OF e assms(2)] grid_cell_edit [OF e assms(2), of "k + n"] by auto
  qed auto
  moreover have "fold (\<lambda>c xs. xs[c := xs ! (c + n)]) ?cs xs =
      map (\<lambda>i. if c \<le> i \<and> i < g_cols g - n then xs ! (i + n) else xs ! i) [0..<g_cols g]"
    using fold_left_cells [of "g_cols g - n" n xs c] row_edit_cells(1) [OF assms(1,2)] assms(3) by simp
  ultimately show ?thesis using assms(1) by (simp add: move_left_def row_edit_fields(6))
qed

text \<open>Making room for \<open>n\<close> cells at \<open>c\<close>, and closing up over them.\<close>

definition opened :: "nat \<Rightarrow> nat \<Rightarrow> 'a \<Rightarrow> 'a list \<Rightarrow> 'a list" where
  "opened c n x xs = take c xs @ replicate n x @ slice xs c (length xs - c - n)"

definition closed :: "nat \<Rightarrow> nat \<Rightarrow> 'a \<Rightarrow> 'a list \<Rightarrow> 'a list" where
  "closed c n x xs = take c xs @ drop (c + n) xs @ replicate n x"

lemma row_edit_open:
  assumes "row_edit r xs g h" "r < g_rows g" "c + n \<le> g_cols g" "pen_wf a"
  shows "row_edit r (opened c n (blank_with a) xs) g (blank_cells c (c + n) r a (move_right c r n h))"
proof -
  let ?ys = "map (\<lambda>i. if c + n \<le> i then xs ! (i - n) else xs ! i) [0..<g_cols g]"
  have len: "length xs = g_cols g" using row_edit_cells(1) [OF assms(1,2)] .
  have "blanked c (c + n) (blank_with a) ?ys = opened c n (blank_with a) xs"
    using assms(3) len
    by (intro nth_equalityI) (auto simp: opened_def nth_append min_def slice_def)
  then show ?thesis
    using row_edit_blank [OF row_edit_right [OF assms(1,2)] assms(2) assms(3,4), of c c n] by simp
qed

lemma row_edit_close:
  assumes "row_edit r xs g h" "r < g_rows g" "c + n \<le> g_cols g" "pen_wf a"
  shows "row_edit r (closed c n (blank_with a) xs) g
    (blank_cells (g_cols g - n) (g_cols g) r a (move_left c r n h))"
proof -
  let ?ys = "map (\<lambda>i. if c \<le> i \<and> i < g_cols g - n then xs ! (i + n) else xs ! i) [0..<g_cols g]"
  have len: "length xs = g_cols g" using row_edit_cells(1) [OF assms(1,2)] .
  have "blanked (g_cols g - n) (g_cols g) (blank_with a) ?ys = closed c n (blank_with a) xs"
    using assms(3) len
    by (intro nth_equalityI) (auto simp: closed_def nth_append min_def add.commute)
  moreover have "n \<le> g_cols g" using assms(3) by simp
  ultimately show ?thesis
    using row_edit_blank [OF row_edit_left [OF assms(1,2)] assms(2) order_refl assms(4), of n "g_cols g - n" c]
    by simp
qed

section \<open>Edits keep the grid\<close>

lemma refs_update:
  assumes "r < length rows" "mset (cell_refs xs) \<subseteq># mset (cell_refs (rows ! r))"
  shows "mset (cell_refs (concat (rows[r := xs]))) \<subseteq># mset (cell_refs (concat rows))"
proof -
  have "rows[r := xs] = take r rows @ xs # drop (Suc r) rows"
    using assms(1) by (simp add: upd_conv_take_nth_drop)
  moreover have "rows = take r rows @ rows ! r # drop (Suc r) rows"
    using assms(1) by (simp add: id_take_nth_drop)
  ultimately have
    "mset (cell_refs (concat (rows[r := xs]))) =
       mset (cell_refs (concat (take r rows))) + mset (cell_refs xs) + mset (cell_refs (concat (drop (Suc r) rows)))"
    "mset (cell_refs (concat rows)) =
       mset (cell_refs (concat (take r rows))) + mset (cell_refs (rows ! r)) + mset (cell_refs (concat (drop (Suc r) rows)))"
    by (metis (no_types, lifting) refs_concat_append mset_append add.assoc)+
  then show ?thesis using assms(2) by simp
qed

lemma row_edit_ok:
  assumes "grid_ok g" "row_edit r xs g h" "r < g_rows g"
    "mset (cell_refs xs) \<subseteq># mset (cell_refs (grid_row g r))"
  shows "grid_ok h"
proof -
  note f = row_edit_fields [OF assms(2)]
  have "pool_wf h"
    using pool_wf_sub [OF grid_okD(1) [OF assms(1)] f(1) grid_okD(2) [OF assms(1)] f(7)]
      refs_update [of r "screen g" xs] assms(3,4) f(2) by (simp add: screen_nth)
  moreover have "mirrors_wf h"
    using grid_okD(3) [OF assms(1)] same_but_cells_fields [OF f(4)] by (simp add: mirrors_wf_def)
  ultimately show ?thesis using f(1,3) grid_okD(4) [OF assms(1)] by (simp add: grid_ok_def)
qed

lemma cell_refs_map_filter: "cell_refs (map f [0..<n]) = List.map_filter (\<lambda>i. cluster_index (f i)) [0..<n]"
  by (simp add: cell_refs_def List.map_filter_def comp_def filter_map)

lemma refs_blanked:
  assumes "cluster_index x = None"
  shows "mset (cell_refs (blanked a b x xs)) \<subseteq># mset (cell_refs xs)"
proof -
  have "blanked a b x xs = take a xs @ replicate (min b (length xs) - a) x @ drop (max a b) xs"
    by (intro nth_equalityI) (auto simp: nth_append min_def max_def)
  moreover have "cell_refs (replicate k x) = []" for k using assms by (intro cell_refs_None) simp
  moreover have "xs = take a xs @ slice xs a (max a b - a) @ drop (max a b) xs"
    by (cases "max a b \<le> length xs")
      (use split_at_row [of a "max a b - a" xs] in \<open>auto simp: slice_def\<close>)
  then have "mset (cell_refs xs) = mset (cell_refs (take a xs)) + mset (cell_refs (slice xs a (max a b - a))) +
      mset (cell_refs (drop (max a b) xs))"
    by (metis cell_refs_simps(3) mset_append add.assoc)
  ultimately show ?thesis by simp
qed

lemma refs_opened:
  assumes "cluster_index x = None" "c + n \<le> length xs"
  shows "mset (cell_refs (opened c n x xs)) \<subseteq># mset (cell_refs xs)"
proof -
  have "xs = take c xs @ slice xs c (length xs - c - n) @ drop (length xs - n) xs"
    using split_at_row [of c "length xs - c - n" xs] assms(2) by simp
  then have "mset (cell_refs xs) = mset (cell_refs (take c xs)) +
      mset (cell_refs (slice xs c (length xs - c - n))) + mset (cell_refs (drop (length xs - n) xs))"
    by (metis cell_refs_simps(3) mset_append add.assoc)
  moreover have "cell_refs (replicate n x) = []" using assms by (intro cell_refs_None) simp
  ultimately show ?thesis by (simp add: opened_def)
qed

lemma refs_closed:
  assumes "cluster_index x = None"
  shows "mset (cell_refs (closed c n x xs)) \<subseteq># mset (cell_refs xs)"
proof -
  have "xs = take c xs @ take n (drop c xs) @ drop (c + n) xs"
    by (metis append_take_drop_id drop_drop add.commute)
  then have "mset (cell_refs xs) = mset (cell_refs (take c xs)) + mset (cell_refs (take n (drop c xs))) +
      mset (cell_refs (drop (c + n) xs))"
    by (metis cell_refs_simps(3) mset_append add.assoc)
  moreover have "cell_refs (replicate n x) = []" using assms by (intro cell_refs_None) simp
  ultimately show ?thesis by (simp add: closed_def)
qed

section \<open>Erasing\<close>

text \<open>The screen as one sequence of cells, in the numbering of \<open>fill_range\<close>.\<close>

definition flat :: "grid \<Rightarrow> cell list" where
  "flat g = concat (screen g)"

lemma concat_update:
  assumes "\<forall>row \<in> set rows. length row = w" "r < length rows" "c < w"
  shows "concat (rows[r := (rows ! r)[c := x]]) = (concat rows)[r * w + c := x]"
  using assms
proof (induction rows arbitrary: r)
  case (Cons row rows)
  then show ?case by (cases r) (auto simp: list_update_append add.commute add.left_commute)
qed simp

lemma screen_rows: "grid_wf g \<Longrightarrow> row \<in> set (screen g) \<Longrightarrow> length row = g_cols g"
  by (auto simp: screen_def length_grid_row)

lemma length_flat: "grid_wf g \<Longrightarrow> length (flat g) = g_rows g * g_cols g"
  using length_concat_rows [of "screen g" "g_cols g"] by (simp add: flat_def screen_rows)

lemma concat_rows_nth:
  "\<forall>row \<in> set rows. length row = w \<Longrightarrow> r < length rows \<Longrightarrow> c < w \<Longrightarrow>
   concat rows ! (r * w + c) = rows ! r ! c"
proof (induction rows arbitrary: r)
  case (Cons row rows)
  then show ?case by (cases r) (auto simp: nth_append add.assoc)
qed simp

lemma flat_nth:
  assumes "grid_wf g" "r < g_rows g" "c < g_cols g"
  shows "flat g ! (r * g_cols g + c) = grid_row g r ! c"
  unfolding flat_def
  using concat_rows_nth [of "screen g" "g_cols g" r c] screen_rows [OF assms(1)] assms
  by (simp add: screen_nth)

lemma flat_cells: "grid_wf g \<Longrightarrow> x \<in> set (flat g) \<Longrightarrow> cell_wf x"
  by (auto simp: flat_def screen_def grid_row_phys dest: row_cells_wf)

text \<open>\<open>h\<close> is \<open>g\<close> with other cells on the screen, and nothing else changed.\<close>

definition cells_edit :: "cell list \<Rightarrow> grid \<Rightarrow> grid \<Rightarrow> bool" where
  "cells_edit xs g h \<longleftrightarrow> same_but_cells g h \<and> grid_wf h \<and> flat h = xs \<and> g_panic h = g_panic g"

lemma cells_edit_set_cell:
  assumes "grid_wf g" "i < g_rows g * g_cols g" "cell_wf x"
  shows "cells_edit ((flat g)[i := x]) g (set_cell (i mod g_cols g) (i div g_cols g) x g)"
proof -
  have cols: "0 < g_cols g" using assms(1) by (simp add: grid_wf_def)
  then have rc: "i div g_cols g < g_rows g" "i mod g_cols g < g_cols g"
    using assms(2) by (simp_all add: less_mult_imp_div_less)
  note e = row_edit_set_cell [OF assms(1) rc assms(3)]
  show ?thesis
    using row_edit_fields [OF e] concat_update [of "screen g" "g_cols g", OF _ _ rc(2)]
      screen_rows [OF assms(1)] rc
    by (auto simp: cells_edit_def flat_def screen_nth)
qed

lemma cells_edit_fill:
  assumes "grid_wf g" "b \<le> g_rows g * g_cols g" "cell_wf x"
  shows "cells_edit (blanked a b x (flat g)) g
    (fold (\<lambda>i. set_cell (i mod g_cols g) (i div g_cols g) x) [a..<b] g)"
  using assms(2)
proof (induction b)
  case 0
  have "blanked a 0 x (flat g) = flat g" by (rule nth_equalityI) simp_all
  then show ?case using assms by (simp add: cells_edit_def same_but_cells_def)
next
  case (Suc b)
  let ?h = "fold (\<lambda>i. set_cell (i mod g_cols g) (i div g_cols g) x) [a..<b] g"
  have e: "cells_edit (blanked a b x (flat g)) g ?h" using Suc by simp
  then have h: "grid_wf ?h" "g_rows ?h = g_rows g" "g_cols ?h = g_cols g" "same_but_cells g ?h"
    "flat ?h = blanked a b x (flat g)"
    using same_but_cells_fields [of g ?h] by (simp_all add: cells_edit_def)
  show ?case
  proof (cases "a \<le> b")
    case True
    have "cells_edit ((blanked a b x (flat g))[b := x]) ?h (set_cell (b mod g_cols g) (b div g_cols g) x ?h)"
      using cells_edit_set_cell [OF h(1) _ assms(3), of b] h Suc.prems by simp
    moreover have "(blanked a b x (flat g))[b := x] = blanked a (Suc b) x (flat g)"
      using True by (auto intro!: nth_equalityI simp: nth_list_update less_Suc_eq)
    ultimately show ?thesis
      using e True by (auto simp: cells_edit_def intro: same_but_cells_trans)
  next
    case False
    then have "blanked a (Suc b) x (flat g) = blanked a b x (flat g)"
      by (intro nth_equalityI) auto
    then show ?thesis using e False by simp
  qed
qed

lemma cells_edit_ok:
  assumes "grid_ok g" "cells_edit xs g h" "mset (cell_refs xs) \<subseteq># mset (cell_refs (flat g))"
  shows "grid_ok h"
proof -
  have h: "same_but_cells g h" "grid_wf h" "flat h = xs" "g_panic h = g_panic g"
    using assms(2) by (simp_all add: cells_edit_def)
  note f = same_but_cells_fields [OF h(1)]
  have "pool_wf h"
    using pool_wf_sub [OF grid_okD(1) [OF assms(1)] h(2) grid_okD(2) [OF assms(1)] f(4)] assms(3) h(3)
    by (simp add: flat_def)
  moreover have "mirrors_wf h" using grid_okD(3) [OF assms(1)] f by (simp add: mirrors_wf_def)
  ultimately show ?thesis using h grid_okD(4) [OF assms(1)] by (simp add: grid_ok_def)
qed

lemma fill_range_facts:
  assumes "grid_ok g" "pen_wf a" "e \<le> g_cols g * g_rows g" "h = fill_range mode s e a g"
  shows "grid_ok h \<and> same_but_cells g h \<and> flat h =
    (if s < e then blanked (fill_start mode s g) (fill_end mode e g) (blank_with a) (flat g) else flat g)"
proof (cases "s < e")
  case True
  have b: "fill_end mode e g \<le> g_rows g * g_cols g"
    using assms(3) by (auto simp: fill_end_def mult.commute)
  note x = blank_with_wf [OF assms(2)]
  note e = cells_edit_fill [OF grid_okD(1) [OF assms(1)] b blank_cell_wf [OF x], of "fill_start mode s g"]
  have "cluster_index (blank_with a) = None" using x by (simp add: blank_cell_def)
  then show ?thesis
    using cells_edit_ok [OF assms(1) e refs_blanked] e True assms(4)
    by (simp add: fill_range_def cells_edit_def Let_def)
qed (use assms in \<open>simp add: fill_range_def same_but_cells_def\<close>)

section \<open>Wide pairs\<close>

text \<open>
  A row whose wide glyphs are whole: every lead has its NUL trail next to it, and every NUL but
  the padding of the last column is such a trail.
\<close>

definition wide_pairs :: "ambiguous_wide \<Rightarrow> cell list \<Rightarrow> bool" where
  "wide_pairs mode xs \<longleftrightarrow>
     (\<forall>c < length xs.
        (char_width mode (ch (xs ! c)) = 2 \<longrightarrow> c + 1 < length xs \<and> ch (xs ! (c + 1)) = 0) \<and>
        (ch (xs ! c) = 0 \<and> c + 1 < length xs \<longrightarrow> 0 < c \<and> char_width mode (ch (xs ! (c - 1))) = 2))"

lemma char_width_0 [simp]: "char_width mode 0 = 0"
  by (simp add: char_width_def)

lemma blank_with_ch [simp]: "ch (blank_with a) = 0x20"
  by (simp add: blank_with_def)

lemma has_emoji_presentation_32: "\<not> has_emoji_presentation 0x20"
  by (simp add: has_emoji_presentation_def)

lemma char_width_32 [simp]: "char_width mode 0x20 = 1"
  by (cases mode) (simp_all add: char_width_def has_emoji_presentation_32 in_ranges_def
      EAST_ASIAN_WIDE_RANGES_def is_enclosed_alphanumeric_def is_ambiguous_width_def AMBIGUOUS_RANGES_def)

text \<open>The cell of the flat screen to the left of and right of one in the same row.\<close>

lemma flat_pairs:
  assumes "grid_wf g" "r < g_rows g" "c < g_cols g" "wide_pairs mode (grid_row g r)"
    "i = r * g_cols g + c"
  shows "char_width mode (ch (flat g ! i)) = 2 \<Longrightarrow> c + 1 < g_cols g \<and> ch (flat g ! (i + 1)) = 0"
    and "ch (flat g ! i) = 0 \<Longrightarrow> c + 1 < g_cols g \<Longrightarrow>
      0 < c \<and> char_width mode (ch (flat g ! (i - 1))) = 2"
proof -
  note f = flat_nth [OF assms(1,2)]
  have p: "(char_width mode (ch (grid_row g r ! c)) = 2 \<longrightarrow>
        c + 1 < g_cols g \<and> ch (grid_row g r ! (c + 1)) = 0) \<and>
      (ch (grid_row g r ! c) = 0 \<and> c + 1 < g_cols g \<longrightarrow>
        0 < c \<and> char_width mode (ch (grid_row g r ! (c - 1))) = 2)"
    using assms(3,4) length_grid_row [OF assms(1,2)] unfolding wide_pairs_def by metis
  show "char_width mode (ch (flat g ! i)) = 2 \<Longrightarrow> c + 1 < g_cols g \<and> ch (flat g ! (i + 1)) = 0"
    using p f [OF assms(3)] f [of "c + 1"] assms(5) by (auto simp: add.assoc)
  show "ch (flat g ! i) = 0 \<Longrightarrow> c + 1 < g_cols g \<Longrightarrow>
      0 < c \<and> char_width mode (ch (flat g ! (i - 1))) = 2"
    using p f [OF assms(3)] f [of "c - 1"] assms(3,5) by auto
qed

lemma fill_edges:
  assumes "grid_wf g" "\<forall>r < g_rows g. wide_pairs mode (grid_row g r)"
    "r < g_rows g" "c < g_cols g" "i = r * g_cols g + c" "0 < s" "e \<le> g_cols g * g_rows g"
  shows "c + 1 < g_cols g \<Longrightarrow> char_width mode (ch (flat g ! i)) = 2 \<Longrightarrow> fill_start mode s g \<noteq> i + 1"
    and "0 < c \<Longrightarrow> ch (flat g ! i) = 0 \<Longrightarrow> char_width mode (ch (flat g ! (i - 1))) = 2 \<Longrightarrow>
      fill_end mode e g \<noteq> i"
proof -
  have cols: "0 < g_cols g" using assms(4) by simp
  have cell: "grid_cell g ((j - 1) mod g_cols g) ((j - 1) div g_cols g) = flat g ! (j - 1)"
    if "0 < j" "j \<le> g_cols g * g_rows g" for j
    using flat_nth [OF assms(1), of "(j - 1) div g_cols g" "(j - 1) mod g_cols g"] that cols
      grid_cell_row [OF assms(1), of "(j - 1) div g_cols g" "(j - 1) mod g_cols g"]
      less_mult_imp_div_less [of "j - 1" "g_rows g" "g_cols g"] by (simp add: mult.commute)
  note p = flat_pairs [OF assms(1,3,4) assms(2) [rule_format, OF assms(3)] assms(5)]
  have lim: "i + (g_cols g - c) \<le> g_cols g * g_rows g"
    using assms(3-5) mult_le_mono1 [of "Suc r" "g_rows g" "g_cols g"] by (simp add: mult.commute)
  show "fill_start mode s g \<noteq> i + 1" if c: "c + 1 < g_cols g" "char_width mode (ch (flat g ! i)) = 2"
  proof
    assume s: "fill_start mode s g = i + 1"
    then have "s = i + 1 \<or> s = i + 2" by (auto simp: fill_start_def split: if_splits)
    then show False
    proof
      assume "s = i + 1"
      moreover have "(i + 1) mod g_cols g = c + 1"
        using c(1) assms(5) by (simp add: add.assoc mod_mult_self3)
      ultimately show False
        using s c cell [of s] lim by (auto simp: fill_start_def)
    next
      assume "s = i + 2"
      then have "char_width mode (ch (flat g ! (i + 1))) = 2"
        using s cell [of s] lim c(1) by (auto simp: fill_start_def split: if_splits)
      then show False using p(1) [OF c(2)] by simp
    qed
  qed
  show "fill_end mode e g \<noteq> i"
    if c: "0 < c" "ch (flat g ! i) = 0" "char_width mode (ch (flat g ! (i - 1))) = 2"
  proof
    assume e: "fill_end mode e g = i"
    have i: "0 < i" using c(1) assms(5) by simp
    have "e = i \<or> e + 1 = i" by (use e in \<open>auto simp: fill_end_def split: if_splits\<close>)
    then show False
    proof
      assume "e = i"
      moreover have "i mod g_cols g = c" using assms(4,5) by simp
      moreover have "i < g_cols g * g_rows g" using lim assms(4) by simp
      ultimately show False using e c cell [of i] i by (simp add: fill_end_def)
    next
      assume e1: "e + 1 = i"
      then have "e mod g_cols g \<noteq> 0" using e by (auto simp: fill_end_def split: if_splits)
      moreover from this have "0 < e" by (cases e) simp_all
      then have "char_width mode (ch (flat g ! (e - 1))) = 2"
        using e e1 cell [of e] assms(7) by (auto simp: fill_end_def split: if_splits)
      ultimately have c2: "2 \<le> c" and wd: "char_width mode (ch (flat g ! (e - 1))) = 2"
      proof -
        assume "e mod g_cols g \<noteq> 0" "char_width mode (ch (flat g ! (e - 1))) = 2"
        show "2 \<le> c"
        proof (rule ccontr)
          assume "\<not> 2 \<le> c"
          then have "e = r * g_cols g" using e1 c(1) assms(5) by simp
          then show False using \<open>e mod g_cols g \<noteq> 0\<close> by simp
        qed
      qed
      have e2: "e - 1 = r * g_cols g + (c - 2)" "r * g_cols g + (c - 2) + 1 = i - 1" "c - 2 < g_cols g"
        using c2 e1 assms(4,5) by simp_all
      have "ch (flat g ! (i - 1)) = 0"
        using flat_pairs(1) [OF assms(1,3) e2(3) assms(2) [rule_format, OF assms(3)] refl] wd
        unfolding e2(1) e2(2) by simp
      then show False using c(3) by simp
    qed
  qed
qed

lemma fill_keeps_pairs:
  assumes "grid_ok g" "pen_wf a" "s < e" "e \<le> g_cols g * g_rows g"
    "\<forall>r < g_rows g. wide_pairs mode (grid_row g r)" "h = fill_range mode s e a g"
  shows "\<forall>r < g_rows g. wide_pairs mode (grid_row h r)"
proof -
  let ?s = "fill_start mode s g" and ?e = "fill_end mode e g"
  have h: "grid_ok h" "same_but_cells g h" "flat h = blanked ?s ?e (blank_with a) (flat g)"
    using fill_range_facts [OF assms(1,2,4,6)] assms(3) by simp_all
  note wf = grid_okD(1) [OF assms(1)] and f = same_but_cells_fields [OF h(2)]
  have se: "?s \<le> s" "s \<le> ?s + 1" "e \<le> ?e" "?e \<le> e + 1" by (auto simp: fill_start_def fill_end_def)
  note len = length_flat [OF wf]
  have at: "flat h ! i = (if ?s \<le> i \<and> i < ?e then blank_with a else flat g ! i)"
    if "i < g_rows g * g_cols g" for i using that h(3) len by simp
  have "wide_pairs mode (grid_row h r)" if r: "r < g_rows g" for r
  proof -
    have row: "length (grid_row h r) = g_cols g"
      using length_grid_row [OF grid_okD(1) [OF h(1)], of r] r f by simp
    have idx: "r * g_cols g + c < g_rows g * g_cols g" if "c < g_cols g" for c
      using r that mult_le_mono1 [of "Suc r" "g_rows g" "g_cols g"] by simp
    have hr: "grid_row h r ! c = (if ?s \<le> r * g_cols g + c \<and> r * g_cols g + c < ?e then blank_with a
        else flat g ! (r * g_cols g + c))" if "c < g_cols g" for c
      using flat_nth [OF grid_okD(1) [OF h(1)], of r c] at [OF idx [OF that]] r that f by simp
    show ?thesis
      unfolding wide_pairs_def row
    proof (intro allI impI conjI)
      fix c assume c: "c < g_cols g"
      let ?i = "r * g_cols g + c"
      note p = flat_pairs [OF wf r c assms(5) [rule_format, OF r] refl]
      have s0: "0 < s" if "?s \<noteq> 0" using that by (auto simp: fill_start_def split: if_splits)
      note ed = fill_edges [OF wf assms(5) r c refl _ assms(4), of s]
      {
        assume w: "char_width mode (ch (grid_row h r ! c)) = 2"
        then have out: "\<not> (?s \<le> ?i \<and> ?i < ?e)" "char_width mode (ch (flat g ! ?i)) = 2"
          using hr [OF c] by (auto split: if_splits)
        then show "c + 1 < g_cols g" using p(1) by simp
        have "\<not> (?s \<le> ?i + 1 \<and> ?i + 1 < ?e)"
          using out(1) ed(1) [OF s0] \<open>c + 1 < g_cols g\<close> out(2) by (cases "?s = ?i + 1") auto
        then show "ch (grid_row h r ! (c + 1)) = 0"
          using hr [of "c + 1"] p(1) [OF out(2)] \<open>c + 1 < g_cols g\<close> by (simp add: add.assoc)
      }
      {
        assume z: "ch (grid_row h r ! c) = 0 \<and> c + 1 < g_cols g"
        then have out: "\<not> (?s \<le> ?i \<and> ?i < ?e)" "ch (flat g ! ?i) = 0"
          using hr [OF c] by (auto split: if_splits)
        then have q: "0 < c" "char_width mode (ch (flat g ! (?i - 1))) = 2" using p(2) z by simp_all
        then show "0 < c" by simp
        have "?e \<noteq> ?i"
        proof (cases "s = 0")
          case True
          then show ?thesis using fill_edges(2) [OF wf assms(5) r c refl zero_less_one assms(4)] q out(2) by simp
        qed (use ed(2) q out(2) in simp)
        then have "\<not> (?s \<le> ?i - 1 \<and> ?i - 1 < ?e)" using out(1) q(1) by auto
        then show "char_width mode (ch (grid_row h r ! (c - 1))) = 2"
          using hr [of "c - 1"] q c by simp
      }
    qed
  qed
  then show ?thesis by blast
qed

lemma flat_cell:
  assumes "grid_wf g" "j < g_rows g * g_cols g"
  shows "grid_cell g (j mod g_cols g) (j div g_cols g) = flat g ! j"
proof -
  have "j div g_cols g < g_rows g" using assms(2) less_mult_imp_div_less by blast
  moreover have "j mod g_cols g < g_cols g" using assms(2) by (cases "g_cols g = 0") simp_all
  ultimately show ?thesis
    using flat_nth [OF assms(1), of "j div g_cols g" "j mod g_cols g"] grid_cell_row [OF assms(1)] by simp
qed

text \<open>
  C28: what an erase does to every cell.  The cells of the range are blank in the pen's background; so is
  the cell before it where the range starts on the second half of a wide glyph, and the cell after it where
  the range ends on the first half of one, as the width of the character in front of either edge tells;
  every other cell, the cursor and the wrap flags are as they were.  On a screen where every wide glyph has both its cells and no
  second half stands alone this is so afterwards.  A wide glyph kept in the cluster pool is not one by its
  character, whose width is one, so that such a screen holds none of them.
\<close>
theorem fill_range_pairs:
  assumes "grid_ok g" "pen_wf a" "s < e" "e \<le> g_cols g * g_rows g" "h = fill_range mode s e a g"
  shows "grid_ok h \<and>
    (\<forall>i < g_rows g * g_cols g. flat h ! i =
       (if s \<le> i \<and> i < e \<or>
           Suc i = s \<and> s mod g_cols g \<noteq> 0 \<and> char_width mode (ch (flat g ! i)) = 2 \<or>
           i = e \<and> e mod g_cols g \<noteq> 0 \<and> char_width mode (ch (flat g ! (e - 1))) = 2
        then blank_with a else flat g ! i)) \<and>
    ((\<forall>r < g_rows g. wide_pairs mode (grid_row g r)) \<longrightarrow> (\<forall>r < g_rows g. wide_pairs mode (grid_row h r))) \<and>
    wrap_flags h = wrap_flags g \<and> g_cursor_col h = g_cursor_col g \<and> g_cursor_row h = g_cursor_row g"
proof -
  let ?s = "fill_start mode s g" and ?e = "fill_end mode e g"
  have h: "grid_ok h" "same_but_cells g h" "flat h = blanked ?s ?e (blank_with a) (flat g)"
    using fill_range_facts [OF assms(1,2,4,5)] assms(3) by simp_all
  note wf = grid_okD(1) [OF assms(1)] and f = same_but_cells_fields [OF h(2)]
  have s: "?s = (if 0 < s \<and> s mod g_cols g \<noteq> 0 \<and> char_width mode (ch (flat g ! (s - 1))) = 2 then s - 1 else s)"
    using flat_cell [OF wf, of "s - 1"] assms(3,4) by (simp add: fill_start_def mult.commute)
  have e: "?e = (if e < g_cols g * g_rows g \<and> e mod g_cols g \<noteq> 0 \<and> char_width mode (ch (flat g ! (e - 1))) = 2
      then e + 1 else e)"
    using flat_cell [OF wf, of "e - 1"] assms(3,4) by (simp add: fill_end_def mult.commute)
  have "flat h ! i = (if s \<le> i \<and> i < e \<or>
           Suc i = s \<and> s mod g_cols g \<noteq> 0 \<and> char_width mode (ch (flat g ! i)) = 2 \<or>
           i = e \<and> e mod g_cols g \<noteq> 0 \<and> char_width mode (ch (flat g ! (e - 1))) = 2
        then blank_with a else flat g ! i)" if i: "i < g_rows g * g_cols g" for i
  proof -
    have "flat h ! i = (if ?s \<le> i \<and> i < ?e then blank_with a else flat g ! i)"
      using i h(3) length_flat [OF wf] by simp
    moreover have "?s \<le> i \<and> i < ?e \<longleftrightarrow> s \<le> i \<and> i < e \<or>
           Suc i = s \<and> s mod g_cols g \<noteq> 0 \<and> char_width mode (ch (flat g ! i)) = 2 \<or>
           i = e \<and> e mod g_cols g \<noteq> 0 \<and> char_width mode (ch (flat g ! (e - 1))) = 2"
    proof (cases "Suc i = s")
      case True
      then show ?thesis using assms(3) unfolding s e by auto
    next
      case False
      then have "?s \<le> i \<longleftrightarrow> s \<le> i" unfolding s by auto
      moreover have "i < ?e \<longleftrightarrow> i < e \<or> i = e \<and> e mod g_cols g \<noteq> 0 \<and> char_width mode (ch (flat g ! (e - 1))) = 2"
        using i unfolding e by (auto simp: mult.commute)
      ultimately show ?thesis using False assms(3) by auto
    qed
    ultimately show ?thesis by simp
  qed
  moreover have "wrap_flags h = wrap_flags g" using f by (simp add: wrap_flags_def phys_row_def Let_def)
  ultimately show ?thesis using fill_keeps_pairs [OF assms(1-4) _ assms(5)] h(1) f by simp
qed

lemma fill_range_pairs_witness:
  "\<exists>g. let h = fill_range AmbOff 1 2 attrs_default g
    in ch (flat g ! 0) = 0x4E2D \<and> flat h ! 0 = blank_with attrs_default \<and> flat h ! 1 = blank_with attrs_default \<and>
       wide_pairs AmbOff (grid_row h 0)"
proof -
  let ?n = "grid_with_scrollback 2 1 0" and ?run = "[cell_from_char 0x4E2D, cell_from_char 0]"
  let ?g = "set_cells 0 0 ?run ?n"
  have n: "grid_ok ?n" "g_cols ?n = 2" "g_rows ?n = 1" "grid_row ?n 0 = [cell_default, cell_default]"
    using grid_new_ok [of 2 1 0]
    by (simp_all add: grid_with_scrollback_def grid_with_scrollback_kind_def grid_row_def phys_row_def
        slice_def numeral_2_eq_2)
  have "\<forall>x \<in> set ?run. cell_wf x"
    by (simp add: cell_wf_def cell_from_char_def attrs_default_def is_scalar_def wf_intros)
  then have e: "row_edit 0 ?run ?n ?g"
    using row_edit_set_cells [OF grid_okD(1) [OF n(1)], of 0 0 ?run] n by (simp add: blit_def)
  moreover have "cell_refs ?run = []"
    by (simp add: cluster_index_def is_cluster_def cell_from_char_def attrs_default_def)
  ultimately have ok: "grid_ok ?g" using row_edit_ok [OF n(1) e] n(3) by simp
  have row: "grid_row ?g 0 = ?run" using row_edit_row [OF e] n(3) by simp
  have w: "char_width AmbOff 0x4E2D = 2"
    by (simp add: char_width_def in_ranges_def EAST_ASIAN_WIDE_RANGES_def)
  then have pairs: "wide_pairs AmbOff (grid_row ?g 0)"
    unfolding row wide_pairs_def by (auto simp: cell_from_char_def less_Suc_eq)
  have dims: "g_cols ?g = 2" "g_rows ?g = 1" using n(2,3) by simp_all
  have first: "flat ?g ! 0 = cell_from_char 0x4E2D"
    using flat_nth [OF grid_okD(1) [OF ok], of 0 0] dims row by simp
  have f: "(\<forall>i < 2. flat (fill_range AmbOff 1 2 attrs_default ?g) ! i = blank_with attrs_default) \<and>
      wide_pairs AmbOff (grid_row (fill_range AmbOff 1 2 attrs_default ?g) 0)"
    using fill_range_pairs [OF ok attrs_default_pen, of 1 2, OF _ _ refl] dims first w pairs
    by (auto simp: less_2_cases_iff cell_from_char_def)
  show ?thesis by (rule exI [of _ ?g]) (use f first in \<open>simp add: Let_def cell_from_char_def\<close>)
qed

section \<open>Inserting and deleting\<close>

lemma insert_chars_edit:
  assumes "grid_wf g" "row < g_rows g" "col < g_cols g" "pen_wf a"
  shows "row_edit row (opened col (min arg (g_cols g - col)) (blank_with a) (grid_row g row)) g
    (insert_chars col row arg a g)"
proof (cases "min arg (g_cols g - col) = 0")
  case True
  have "opened col 0 (blank_with a) (grid_row g row) = grid_row g row"
    by (simp add: opened_def slice_def)
  then show ?thesis using True row_edit_refl [OF assms(1,2)] by (simp add: insert_chars_def Let_def)
next
  case False
  then show ?thesis
    using row_edit_open [OF row_edit_refl [OF assms(1,2)] assms(2) _ assms(4),
        of col "min arg (g_cols g - col)"] assms(3)
    by (simp add: insert_chars_def Let_def)
qed

lemma delete_chars_edit:
  assumes "grid_wf g" "row < g_rows g" "col < g_cols g" "pen_wf a"
  shows "row_edit row (closed col (min arg (g_cols g - col)) (blank_with a) (grid_row g row)) g
    (delete_chars col row arg a g)"
proof (cases "min arg (g_cols g - col) = 0")
  case True
  have "closed col 0 (blank_with a) (grid_row g row) = grid_row g row" by (simp add: closed_def)
  then show ?thesis using True row_edit_refl [OF assms(1,2)] by (simp add: delete_chars_def Let_def)
next
  case False
  then show ?thesis
    using row_edit_close [OF row_edit_refl [OF assms(1,2)] assms(2) _ assms(4),
        of col "min arg (g_cols g - col)"] assms(3)
    by (simp add: delete_chars_def Let_def)
qed

lemma erase_chars_edit:
  assumes "grid_wf g" "row < g_rows g" "col < g_cols g" "pen_wf a"
  shows "row_edit row (blanked col (col + min arg (g_cols g - col)) (blank_with a) (grid_row g row)) g
    (erase_chars col row arg a g)"
  using row_edit_blank [OF row_edit_refl [OF assms(1,2)] assms(2) _ assms(4)] assms(3)
  by (simp add: erase_chars_def Let_def)

lemma shift_line_right_edit:
  assumes "grid_wf g" "row < g_rows g" "col < g_cols g" "pen_wf a"
  shows "\<exists>xs. row_edit row xs g (shift_line_right col row n a g) \<and>
    mset (cell_refs xs) \<subseteq># mset (cell_refs (grid_row g row)) \<and>
    (col + n \<le> g_cols g \<longrightarrow> xs = opened col n (blank_with a) (grid_row g row))"
proof -
  have blank: "cluster_index (blank_with a) = None" using blank_with_wf [OF assms(4)] by (simp add: blank_cell_def)
  have len: "length (grid_row g row) = g_cols g" using length_grid_row [OF assms(1,2)] .
  note r = row_edit_refl [OF assms(1,2)]
  have n0: "opened col 0 (blank_with a) (grid_row g row) = grid_row g row"
    by (simp add: opened_def slice_def)
  consider "n = 0" | "0 < n" "col + n \<le> g_cols g" | "0 < n" "g_cols g < col + n" by linarith
  then show ?thesis
  proof cases
    case 1
    then show ?thesis using r n0 by (auto simp: shift_line_right_def)
  next
    case 2
    then show ?thesis
      using row_edit_open [OF r assms(2) _ assms(4)] assms(3) refs_opened [OF blank, of col n] len
      by (auto simp: shift_line_right_def)
  next
    case 3
    then have "move_right col row n g = g" by (simp add: move_right_def)
    then have "shift_line_right col row n a g = blank_cells col (g_cols g) row a g"
      using 3 assms(3) by (simp add: shift_line_right_def min_def)
    moreover have "row_edit row (blanked col (g_cols g) (blank_with a) (grid_row g row)) g
        (blank_cells col (g_cols g) row a g)"
      by (rule row_edit_blank [OF r assms(2) order_refl assms(4)])
    ultimately show ?thesis using 3 refs_blanked [OF blank] by (metis not_le)
  qed
qed

lemma char_edits_ok [wf_intros]:
  assumes "grid_ok g" "row < g_rows g" "col < g_cols g" "pen_wf a"
  shows "grid_ok (insert_chars col row arg a g)" "grid_ok (delete_chars col row arg a g)"
    "grid_ok (erase_chars col row arg a g)" "grid_ok (shift_line_right col row n a g)"
proof -
  have blank: "cluster_index (blank_with a) = None" using blank_with_wf [OF assms(4)] by (simp add: blank_cell_def)
  note wf = grid_okD(1) [OF assms(1)]
  have len: "length (grid_row g row) = g_cols g" using length_grid_row [OF wf assms(2)] .
  show "grid_ok (insert_chars col row arg a g)"
    using row_edit_ok [OF assms(1) insert_chars_edit [OF wf assms(2-4)] assms(2)]
      refs_opened [OF blank, of col "min arg (g_cols g - col)"] len assms(3) by simp
  show "grid_ok (delete_chars col row arg a g)"
    using row_edit_ok [OF assms(1) delete_chars_edit [OF wf assms(2-4)] assms(2) refs_closed [OF blank]] .
  show "grid_ok (erase_chars col row arg a g)"
    using row_edit_ok [OF assms(1) erase_chars_edit [OF wf assms(2-4)] assms(2) refs_blanked [OF blank]] .
  show "grid_ok (shift_line_right col row n a g)"
    using shift_line_right_edit [OF wf assms(2-4), of n] row_edit_ok [OF assms(1) _ assms(2)] by blast
qed

lemma closed_opened:
  assumes "c + n \<le> length xs"
  shows "closed c n x (opened c n y xs) = take (length xs - n) xs @ replicate n x"
proof -
  have "take (length xs - n) xs = take c xs @ slice xs c (length xs - c - n)"
    using take_add [of c "length xs - c - n" xs] assms by (simp add: slice_def)
  then show ?thesis using assms by (simp add: closed_def opened_def)
qed

text \<open>
  Inserting characters makes exactly that much room.  The row becomes what was left of the
  cursor, the blanks, and what was right of it less what ran off the end; deleting as many closes
  the gap again, so the row is the one it was but for the cells that ran off, now blank.  No
  other row changes, and no cluster is shown twice or lost from its cell.
\<close>
theorem insert_delete_chars:
  assumes "grid_ok g" "row < g_rows g" "col < g_cols g" "pen_wf a"
    "n = min arg (g_cols g - col)" "h = insert_chars col row arg a g" "k = delete_chars col row arg a h"
  shows "grid_ok h \<and> grid_ok k \<and>
    screen h = (screen g)[row := take col (screen g ! row) @ replicate n (blank_with a) @
      slice (screen g ! row) col (g_cols g - col - n)] \<and>
    screen k = (screen g)[row := take (g_cols g - n) (screen g ! row) @ replicate n (blank_with a)]"
proof -
  note wf = grid_okD(1) [OF assms(1)]
  note e = insert_chars_edit [OF wf assms(2-4), of arg, folded assms(5,6)]
  note f = row_edit_fields [OF e]
  have len: "length (grid_row g row) = g_cols g" using length_grid_row [OF wf assms(2)] .
  have ok: "grid_ok h" "grid_ok k"
    using char_edits_ok [OF assms(1-4)] assms(6,7) char_edits_ok(2) [of h row col a arg] assms(2-4) f by simp_all
  have "row_edit row (closed col n (blank_with a) (grid_row h row)) h k"
    using delete_chars_edit [OF f(1), of row col a arg] assms(2-5,7) f(5,6) by simp
  then have "row_edit row (take (g_cols g - n) (grid_row g row) @ replicate n (blank_with a)) g k"
    using row_edit_trans [OF e] row_edit_row [OF e assms(2)] closed_opened [of col n "grid_row g row"]
      len assms(3,5) by simp
  then show ?thesis
    using ok f(2) row_edit_fields(2) len assms(2) by (simp add: opened_def screen_nth)
qed

lemma insert_delete_chars_witness:
  "screen (insert_chars 1 0 1 attrs_default (grid_with_scrollback 2 1 0)) =
   [[cell_default, blank_with attrs_default]]"
proof -
  have n: "grid_ok (grid_with_scrollback 2 1 0)" "g_cols (grid_with_scrollback 2 1 0) = 2"
    "g_rows (grid_with_scrollback 2 1 0) = 1"
    "screen (grid_with_scrollback 2 1 0) = [[cell_default, cell_default]]"
    using grid_new_ok [of 2 1 0]
    by (simp_all add: grid_with_scrollback_def grid_with_scrollback_kind_def screen_def grid_row_def
        phys_row_def slice_def numeral_2_eq_2)
  show ?thesis
    using insert_delete_chars [OF n(1), of 0 1 attrs_default _ 1, OF _ _ _ refl refl refl] n(2-4)
    by (simp add: slice_def)
qed

end
