(* ===== verification/TermState.thy ===== *)
theory TermState
  imports GridEdit Kitty Tabs Parser
begin

text \<open>
  The terminal, \<open>crates/marspot-term/src/terminal.rs\<close>: the state \<open>struct Terminal\<close> keeps and
  \<open>Handler\<close> borrows, its constructor, and the operations everything else is made of: the scroll
  region, the deferred wrap, and one glyph written at the cursor.

  \<open>t_now\<close> is what \<open>Instant::now()\<close> reads, in nanoseconds; the environment sets it.  Log lines are
  not modelled, the window that decides about one of them is.
\<close>

section \<open>State\<close>

datatype mouse_mode = MouseOff | MouseX11 | MouseButtonEvent | MouseAnyEvent

record saved_cursor =
  sc_col :: nat
  sc_row :: nat
  sc_attrs :: cell_attrs
  sc_pending_wrap :: bool
  sc_g0_graphics :: bool
  sc_origin_mode :: bool

record saved_main =
  sm_grid :: grid
  sm_cursor :: "nat \<times> nat"
  sm_kitty :: kitty_stack

record prediction =
  pr_byte :: u8
  pr_saved_cell :: cell
  pr_saved_cursor :: "nat \<times> nat"
  pr_at :: nat

record terminal =
  t_grid :: grid
  t_saved_main :: "saved_main option"
  t_kitty :: kitty_stack
  t_parser :: parser
  t_attrs :: cell_attrs
  t_saved_cursor :: "saved_cursor option"
  t_parked_cursor :: "saved_cursor option"
  t_scroll_top :: nat
  t_scroll_bot :: nat
  t_response :: "u8 list"
  t_response_window :: "nat list"
  t_burst_since :: "nat option"
  t_burst_last_warn :: "nat option"
  t_cursor_key_app :: bool
  t_bracketed_paste :: bool
  t_u_tags :: bool
  t_render_markup :: bool
  t_u_open :: bool
  t_u_buf :: ustring
  t_alt_scroll :: bool
  t_sync_output :: bool
  t_uses_sync_output :: bool
  t_focus_reporting :: bool
  t_focus_reported :: "bool option"
  t_cursor_shape :: nat
  t_osc_title :: ustring
  t_cursor_visible :: bool
  t_mouse_mode :: mouse_mode
  t_mouse_sgr :: bool
  t_pending_wrap :: bool
  t_tabs :: tab_stops
  t_osc_clipboard :: "ustring option"
  t_g0_graphics :: bool
  t_origin_mode :: bool
  t_insert_mode :: bool
  t_predict_misses :: nat
  t_predict_declined :: nat
  t_predictions :: "prediction list"
  t_shadow :: "(u8 \<times> nat) list"
  t_echo_srtt :: nat
  t_cluster_buf :: ustring
  t_cluster_fast :: "(uchar \<times> nat) option"
  t_cluster_anchor :: "(nat \<times> nat \<times> nat) option"
  t_segmenter :: grapheme_cursor
  t_seg_synced :: bool
  t_predictions_hit :: nat
  t_predictions_miss :: nat
  t_predictions_expired :: nat
  t_generation :: nat
  t_now :: nat

abbreviation on_grid :: "(grid \<Rightarrow> grid) \<Rightarrow> terminal \<Rightarrow> terminal" where
  "on_grid f t \<equiv> t\<lparr>t_grid := f (t_grid t)\<rparr>"

abbreviation (input) t_cols :: "terminal \<Rightarrow> nat" where "t_cols t \<equiv> g_cols (t_grid t)"
abbreviation (input) t_rows :: "terminal \<Rightarrow> nat" where "t_rows t \<equiv> g_rows (t_grid t)"
abbreviation (input) cur_col :: "terminal \<Rightarrow> nat" where "cur_col t \<equiv> g_cursor_col (t_grid t)"
abbreviation (input) cur_row :: "terminal \<Rightarrow> nat" where "cur_row t \<equiv> g_cursor_row (t_grid t)"

abbreviation (input) ECHO_SRTT_SEED :: nat where "ECHO_SRTT_SEED \<equiv> 10000000"

text \<open>
  \<open>Terminal::new\<close> over the in-memory scrollback.  A tab table that cannot be built (the overflow
  of its loop) is a panic.
\<close>

definition tabs_or_panic :: "tab_stops option \<Rightarrow> tab_stops \<Rightarrow> terminal \<Rightarrow> terminal" where
  "tabs_or_panic r old t =
     (case r of
        Some tabs \<Rightarrow> t\<lparr>t_tabs := tabs\<rparr>
      | None \<Rightarrow> on_grid (check False) (t\<lparr>t_tabs := old\<rparr>))"

definition term_new :: "nat \<Rightarrow> nat \<Rightarrow> terminal" where
  "term_new cols rows =
     tabs_or_panic (tabs_new cols) \<lparr>ts_bits = [], ts_cols = cols\<rparr>
     \<lparr>t_grid = grid_new cols rows, t_saved_main = None, t_kitty = kitty_default,
      t_parser = parser_new, t_attrs = attrs_default, t_saved_cursor = None,
      t_parked_cursor = None, t_scroll_top = 0, t_scroll_bot = rows - 1, t_response = [],
      t_response_window = [], t_burst_since = None, t_burst_last_warn = None,
      t_cursor_key_app = False, t_bracketed_paste = False, t_u_tags = False,
      t_render_markup = False, t_u_open = False, t_u_buf = [], t_alt_scroll = False,
      t_sync_output = False, t_uses_sync_output = False, t_focus_reporting = False,
      t_focus_reported = None, t_cursor_shape = 0, t_osc_title = [], t_cursor_visible = True,
      t_mouse_mode = MouseOff, t_mouse_sgr = False, t_pending_wrap = False,
      t_tabs = \<lparr>ts_bits = [], ts_cols = cols\<rparr>, t_osc_clipboard = None, t_g0_graphics = False,
      t_origin_mode = False, t_insert_mode = False, t_predict_misses = 0, t_predict_declined = 0,
      t_predictions = [], t_shadow = [], t_echo_srtt = ECHO_SRTT_SEED, t_cluster_buf = [],
      t_cluster_fast = None, t_cluster_anchor = None, t_segmenter = cursor_new,
      t_seg_synced = True, t_predictions_hit = 0, t_predictions_miss = 0,
      t_predictions_expired = 0, t_generation = 0, t_now = 0\<rparr>"

definition in_alt_screen :: "terminal \<Rightarrow> bool" where
  "in_alt_screen t \<longleftrightarrow> t_saved_main t \<noteq> None"

definition alt_scroll_mode :: "terminal \<Rightarrow> bool" where
  "alt_scroll_mode t \<longleftrightarrow> t_alt_scroll t \<and> in_alt_screen t"

section \<open>The scroll region\<close>

definition region_scroll_up :: "nat \<Rightarrow> terminal \<Rightarrow> terminal" where
  "region_scroll_up lines t =
     (let top = t_scroll_top t; bot = t_scroll_bot t; blank = blank_with (t_attrs t)
      in if top = 0 \<and> bot + 1 \<ge> t_rows t then on_grid (scroll_up lines blank) t
         else on_grid (scroll_up_region top bot lines blank) t)"

definition region_scroll_down :: "nat \<Rightarrow> terminal \<Rightarrow> terminal" where
  "region_scroll_down lines t =
     on_grid (scroll_down_region (t_scroll_top t) (t_scroll_bot t) lines (blank_with (t_attrs t))) t"

definition index_down :: "terminal \<Rightarrow> terminal" where
  "index_down t =
     (let col = cur_col t; row = cur_row t
      in if row = t_scroll_bot t then region_scroll_up 1 t
         else if row + 1 < t_rows t then on_grid (set_cursor col (row + 1)) t
         else t)"

definition reverse_index :: "terminal \<Rightarrow> terminal" where
  "reverse_index t =
     (let col = cur_col t; row = cur_row t
      in if row = t_scroll_top t then region_scroll_down 1 t
         else if row > 0 then on_grid (set_cursor col (row - 1)) t
         else t)"

section \<open>Wrapping\<close>

text \<open>
  Column 0 of the row after \<open>row\<close>, scrolling at the bottom margin; the row it lands on continues
  the line above.  The tail shared by \<open>wrap_to_next_row\<close>, \<open>do_pending_wrap\<close> and \<open>write_glyph\<close>.
\<close>

definition wrap_to_next_row :: "nat \<Rightarrow> nat \<Rightarrow> terminal \<Rightarrow> terminal" where
  "wrap_to_next_row row rows t =
     (let t = (if row = t_scroll_bot t then on_grid (set_cursor 0 row) (region_scroll_up 1 t)
               else if row + 1 < rows then on_grid (set_cursor 0 (row + 1)) t
               else on_grid (set_cursor 0 (rows - 1)) t)
      in on_grid (set_row_wrapped (cur_row t) True) t)"

definition do_pending_wrap :: "terminal \<Rightarrow> terminal" where
  "do_pending_wrap t =
     (let t = t\<lparr>t_pending_wrap := False\<rparr>; row = cur_row t; rows = t_rows t;
          t = (if row = t_scroll_bot t then on_grid (set_cursor 0 row) (region_scroll_up 1 t)
               else if row + 1 < rows then on_grid (set_cursor 0 (row + 1)) t
               else on_grid (set_cursor 0 (rows - 1)) t)
      in on_grid (set_row_wrapped (cur_row t) True) t)"

definition take_pending_wrap :: "terminal \<Rightarrow> terminal" where
  "take_pending_wrap t = (if t_pending_wrap t then do_pending_wrap t else t)"

section \<open>One glyph\<close>

definition wide_pad :: "nat \<Rightarrow> terminal \<Rightarrow> terminal" where
  "wide_pad row t =
     (let last = t_cols t - 1
      in if grid_cell (t_grid t) last row = cell_default
         then on_grid (set_cell last row \<lparr>ch = 0, attrs = t_attrs t\<rparr>) t
         else t)"

text \<open>
  \<open>write_glyph\<close>: the room for the glyph (the deferred wrap, and the wrap of a wide glyph the last
  column cannot hold), then the glyph and the cursor after it.  The cell it landed in is
  returned with the state.
\<close>

definition glyph_room :: "nat \<Rightarrow> terminal \<Rightarrow> terminal" where
  "glyph_room w t =
     (let t = take_pending_wrap t
      in if w = 2 \<and> cur_col t + 1 \<ge> t_cols t
         then wrap_to_next_row (cur_row t) (t_rows t) (wide_pad (cur_row t) t) else t)"

definition put_glyph :: "uchar \<Rightarrow> nat \<Rightarrow> terminal \<Rightarrow> terminal" where
  "put_glyph c w t =
     (let cols = t_cols t; col = cur_col t; row = cur_row t;
          t = (if t_insert_mode t then on_grid (shift_line_right col row w (t_attrs t)) t else t);
          t = on_grid (set_cell col row \<lparr>ch = c, attrs = t_attrs t\<rparr>) t;
          t = (if w = 2 then on_grid (set_cell (col + 1) row \<lparr>ch = 0, attrs = t_attrs t\<rparr>) t else t)
      in if col + w < cols then on_grid (set_cursor (col + w) row) t
         else on_grid (set_cursor (cols - 1) row) (t\<lparr>t_pending_wrap := True\<rparr>))"

definition write_glyph :: "uchar \<Rightarrow> nat \<Rightarrow> terminal \<Rightarrow> terminal \<times> nat \<times> nat" where
  "write_glyph c w t = (let u = glyph_room w t in (put_glyph c w u, cur_col u, cur_row u))"

section \<open>The bulk writers\<close>

text \<open>\<open>None\<close>: the loop never returns.\<close>

partial_function (option) ascii_loop :: "u8 list \<Rightarrow> terminal \<Rightarrow> terminal option" where
  "ascii_loop bytes t =
     (if bytes = [] then Some t
      else
        let cols = t_cols t; rows = t_rows t; col = cur_col t; row = cur_row t;
            n = min (cols - col) (length bytes);
            t = on_grid (set_row_run_ascii col row (t_attrs t) (take n bytes)) t;
            rest = drop n bytes;
            next = col + n
        in if next < cols then ascii_loop rest (on_grid (set_cursor next row) t)
           else if rest \<noteq> [] then ascii_loop rest (wrap_to_next_row row rows t)
           else Some (on_grid (set_cursor (cols - 1) row) (t\<lparr>t_pending_wrap := True\<rparr>)))"

definition write_ascii_body :: "u8 list \<Rightarrow> terminal \<Rightarrow> terminal option" where
  "write_ascii_body bytes t = (if bytes = [] then Some t else ascii_loop bytes (take_pending_wrap t))"

text \<open>The wide body over the decoded characters, three bytes each.\<close>

definition wide_cells :: "cell_attrs \<Rightarrow> uchar list \<Rightarrow> cell list" where
  "wide_cells a cs = concat (map (\<lambda>c. [\<lparr>ch = c, attrs = a\<rparr>, \<lparr>ch = 0, attrs = a\<rparr>]) cs)"

partial_function (option) wide_loop :: "uchar list \<Rightarrow> terminal \<Rightarrow> terminal option" where
  "wide_loop cs t =
     (if cs = [] then Some t
      else
        let cols = t_cols t; rows = t_rows t; col = cur_col t; row = cur_row t;
            space = cols - col
        in if space < 2 then wide_loop cs (wrap_to_next_row row rows (wide_pad row t))
           else
             let fit = min (space div 2) (length cs);
                 t = on_grid (set_cells col row (wide_cells (t_attrs t) (take fit cs))) t;
                 rest = drop fit cs;
                 next = col + fit * 2
             in if next < cols then wide_loop rest (on_grid (set_cursor next row) t)
                else if rest \<noteq> [] then wide_loop rest (wrap_to_next_row row rows t)
                else Some (on_grid (set_cursor (cols - 1) row) (t\<lparr>t_pending_wrap := True\<rparr>)))"

definition write_wide_body :: "uchar list \<Rightarrow> terminal \<Rightarrow> terminal option" where
  "write_wide_body cs t = (if cs = [] then Some t else wide_loop cs (take_pending_wrap t))"

end
