(* ===== verification/TermPrint.thy ===== *)
theory TermPrint
  imports TermState
begin

text \<open>
  Printing, \<open>crates/marspot-term/src/terminal.rs\<close>: the class of characters that need no
  segmenter, the grapheme cluster being built and the cell it is anchored to, the \<open><u>\<close> tags,
  and the bulk lanes for runs of ASCII and of wide characters.  \<open>wide\<close> is the setting for
  ambiguous-width characters.
\<close>

section \<open>The fast class\<close>

definition boring_width :: "uchar \<Rightarrow> nat option" where
  "boring_width c =
     (if 0x20 \<le> c \<and> c \<le> 0x7E then Some 1
      else if in_ranges c [(0x4E00, 0x9FFF), (0x3041, 0x3096), (0x30A1, 0x30FA), (0x30FC, 0x30FE),
                (0x3001, 0x3029), (0xFF01, 0xFF60), (0x3400, 0x4DBF)] then Some 2
      else None)"

definition fast_pict_width :: "uchar \<Rightarrow> nat option" where
  "fast_pict_width c =
     (if c < 0x2190 then None
      else if (0x1F1E6 \<le> c \<and> c \<le> 0x1F1FF) \<or> (0x1F3FB \<le> c \<and> c \<le> 0x1F3FF) then None
      else if \<not> has_emoji_presentation c then None
      else Some 2)"

definition fast_width :: "uchar \<Rightarrow> nat option" where
  "fast_width c =
     (case boring_width c of
        Some w \<Rightarrow> Some w
      | None \<Rightarrow> if 0xAC00 \<le> c \<and> c \<le> 0xD7A3 then Some 2 else fast_pict_width c)"

section \<open>The cluster being built\<close>

abbreviation (input) CLUSTER_POOL_SWEEP_AT :: nat where "CLUSTER_POOL_SWEEP_AT \<equiv> 4096"

definition flush_cluster_keep_cursor :: "terminal \<Rightarrow> terminal" where
  "flush_cluster_keep_cursor t =
     t\<lparr>t_cluster_buf := [], t_cluster_fast := None, t_cluster_anchor := None\<rparr>"

definition flush_cluster_for_break :: "terminal \<Rightarrow> terminal" where
  "flush_cluster_for_break t =
     (let t = flush_cluster_keep_cursor t
      in t\<lparr>t_segmenter := cursor_reset (t_segmenter t), t_seg_synced := True\<rparr>)"

definition resync_segmenter :: "terminal \<Rightarrow> terminal" where
  "resync_segmenter t =
     (if t_seg_synced t then t
      else t\<lparr>t_segmenter := fold (\<lambda>c g. snd (cursor_step c g)) (t_cluster_buf t) (cursor_reset (t_segmenter t)),
             t_seg_synced := True\<rparr>)"

definition commit_cluster_head :: "uchar \<Rightarrow> nat \<Rightarrow> bool \<Rightarrow> terminal \<Rightarrow> terminal" where
  "commit_cluster_head c w fast t =
     (let (t, col, row) = write_glyph c w t
      in t\<lparr>t_cluster_buf := [c], t_cluster_fast := (if fast then Some (c, w) else None),
           t_cluster_anchor := Some (col, row, w), t_seg_synced := False\<rparr>)"

definition widen_anchor :: "nat \<Rightarrow> terminal \<Rightarrow> terminal" where
  "widen_anchor w t =
     (case t_cluster_anchor t of
        None \<Rightarrow> t
      | Some (col, row, cur) \<Rightarrow>
          if w \<le> cur \<or> w \<noteq> 2 then t
          else if col + 1 \<ge> t_cols t then t
          else
            let t = on_grid (set_cell (col + 1) row \<lparr>ch = 0, attrs = t_attrs t\<rparr>) t;
                t = (if cur_col t = col + 1 \<and> cur_row t = row then on_grid (set_cursor (col + 2) row) t
                     else t)
            in t\<lparr>t_cluster_anchor := Some (col, row, w)\<rparr>)"

definition store_cluster_at_anchor :: "terminal \<Rightarrow> terminal" where
  "store_cluster_at_anchor t =
     (case t_cluster_anchor t of
        None \<Rightarrow> t
      | Some (col, row, _) \<Rightarrow>
          if length (t_cluster_buf t) < 2 then t
          else
            let g = t_grid t;
                g = (if length (g_clusters g) > CLUSTER_POOL_SWEEP_AT then sweep_clusters g else g);
                g = check (phys_row g row * g_cols g + col < length (g_cells g)) g;
                prev = cluster_index (grid_cell g col row);
                (cell, g) = cluster_cell_reusing prev (t_cluster_buf t) (t_attrs t) g
            in t\<lparr>t_grid := set_cell col row cell g\<rparr>)"

definition print_glyph :: "ambiguous_wide \<Rightarrow> uchar \<Rightarrow> terminal \<Rightarrow> terminal" where
  "print_glyph wide c t =
     (if fast_width c \<noteq> None \<and> (t_cluster_buf t = [] \<or> t_cluster_fast t \<noteq> None)
      then commit_cluster_head c (the (fast_width c)) True t
      else
        let t = resync_segmenter t;
            (boundary, seg) = cursor_step c (t_segmenter t);
            t = t\<lparr>t_segmenter := seg\<rparr>
        in if boundary
           then
             let w = cluster_width wide [c]
             in if w > 0 then commit_cluster_head c w False t
                else t\<lparr>t_cluster_buf := [c], t_cluster_fast := None, t_cluster_anchor := None\<rparr>
           else
             let t = t\<lparr>t_cluster_buf := t_cluster_buf t @ [c], t_cluster_fast := None\<rparr>
             in store_cluster_at_anchor (widen_anchor (cluster_width wide (t_cluster_buf t)) t))"

section \<open>The tags\<close>

abbreviation (input) U_SPAN_CAP :: nat where "U_SPAN_CAP \<equiv> 1024"

text \<open>\<open>"<u>"\<close> and \<open>"</u>"\<close>; \<open>String::len\<close> counts bytes.\<close>

definition U_OPEN_TAG :: ustring where "U_OPEN_TAG = [0x3C, 0x75, 0x3E]"
definition U_CLOSE_TAG :: ustring where "U_CLOSE_TAG = [0x3C, 0x2F, 0x75, 0x3E]"

definition utf8_len :: "ustring \<Rightarrow> nat" where
  "utf8_len s = sum_list (map (\<lambda>c. length (encode_utf8 c)) s)"

datatype u_tag = UOpen | UMaybe | UNo

definition u_tag_verdict :: "ustring \<Rightarrow> u_tag" where
  "u_tag_verdict buf =
     (if buf = U_OPEN_TAG then UOpen else if buf = [0x3C] \<or> buf = [0x3C, 0x75] then UMaybe else UNo)"

abbreviation print_glyphs :: "ambiguous_wide \<Rightarrow> ustring \<Rightarrow> terminal \<Rightarrow> terminal" where
  "print_glyphs wide cs t \<equiv> fold (print_glyph wide) cs t"

definition set_underline :: "bool \<Rightarrow> terminal \<Rightarrow> terminal" where
  "set_underline b t = t\<lparr>t_attrs := (t_attrs t)\<lparr>underline := b\<rparr>\<rparr>"

definition u_bail :: "ambiguous_wide \<Rightarrow> terminal \<Rightarrow> terminal" where
  "u_bail wide t =
     (let held = t_u_buf t
      in print_glyphs wide held (print_glyphs wide U_OPEN_TAG (t\<lparr>t_u_open := False, t_u_buf := []\<rparr>)))"

definition u_step :: "ambiguous_wide \<Rightarrow> uchar \<Rightarrow> terminal \<Rightarrow> terminal" where
  "u_step wide c t =
     (if t_u_open t
      then
        let buf = t_u_buf t @ [c]
        in if length buf \<ge> 4 \<and> drop (length buf - 4) buf = U_CLOSE_TAG
           then
             let span = take (length buf - 4) buf;
                 t = flush_cluster_for_break (t\<lparr>t_u_buf := [], t_u_open := False\<rparr>);
                 was = underline (t_attrs t);
                 t = flush_cluster_for_break (print_glyphs wide span (set_underline True t))
             in set_underline was t
           else
             let t = t\<lparr>t_u_buf := buf\<rparr>
             in if utf8_len buf > U_SPAN_CAP then u_bail wide t else t
      else
        let buf = t_u_buf t @ [c]
        in case u_tag_verdict buf of
             UOpen \<Rightarrow> t\<lparr>t_u_buf := [], t_u_open := True\<rparr>
           | UMaybe \<Rightarrow> t\<lparr>t_u_buf := buf\<rparr>
           | UNo \<Rightarrow> print_glyphs wide buf (t\<lparr>t_u_buf := []\<rparr>))"

definition flush_u_buf :: "ambiguous_wide \<Rightarrow> terminal \<Rightarrow> terminal" where
  "flush_u_buf wide t =
     (if t_u_open t then u_bail wide t
      else if t_u_buf t = [] then t
      else print_glyphs wide (t_u_buf t) (t\<lparr>t_u_buf := []\<rparr>))"

section \<open>One character from the parser\<close>

definition DEC_GRAPHICS :: "uchar list" where
  "DEC_GRAPHICS =
     [0x20, 0x25C6, 0x2592, 0x2409, 0x240C, 0x240D, 0x240A, 0xB0, 0xB1, 0x2424, 0x240B, 0x2518,
      0x2510, 0x250C, 0x2514, 0x253C, 0x23BA, 0x23BB, 0x2500, 0x23BC, 0x23BD, 0x251C, 0x2524,
      0x2534, 0x252C, 0x2502, 0x2264, 0x2265, 0x3C0, 0x2260, 0xA3, 0xB7]"

definition dec_special_graphic :: "uchar \<Rightarrow> uchar" where
  "dec_special_graphic c = (if 0x5F \<le> c \<and> c \<le> 0x7E then DEC_GRAPHICS ! (c - 0x5F) else c)"

definition print :: "ambiguous_wide \<Rightarrow> uchar \<Rightarrow> terminal \<Rightarrow> terminal" where
  "print wide c t =
     (if t_u_tags t \<and> (t_u_open t \<or> c = 0x3C \<or> t_u_buf t \<noteq> []) then u_step wide c t
      else print_glyph wide (if t_g0_graphics t then dec_special_graphic c else c) t)"

section \<open>The lanes\<close>

text \<open>Whether a boundary before the run is certain, with the pending cluster flushed when it is.\<close>

definition batch_prologue_flush :: "bool \<Rightarrow> terminal \<Rightarrow> bool \<times> terminal" where
  "batch_prologue_flush head_is_hangul t =
     (if t_cluster_buf t = [] then (True, t)
      else if length (t_cluster_buf t) = 1 \<and> fast_width (hd (t_cluster_buf t)) \<noteq> None
      then (True, flush_cluster_keep_cursor t)
      else
        let lp = gbp_of (cluster_props (last (t_cluster_buf t)))
        in if lp = GBPrepend then (False, t)
           else if head_is_hangul \<and> lp \<in> {GBL, GBV, GBT, GBLV, GBLVT} then (False, t)
           else (True, flush_cluster_keep_cursor t))"

abbreviation print_bytes :: "ambiguous_wide \<Rightarrow> u8 list \<Rightarrow> terminal \<Rightarrow> terminal" where
  "print_bytes wide bs t \<equiv> fold (\<lambda>b. print wide (unat b)) bs t"

text \<open>A run with no \<open><\<close> the tag machinery could want.\<close>

definition ascii_run :: "ambiguous_wide \<Rightarrow> u8 list \<Rightarrow> terminal \<Rightarrow> terminal option" where
  "ascii_run wide run t =
     (case batch_prologue_flush False t of
        (False, t) \<Rightarrow> Some (print_bytes wide run t)
      | (True, t) \<Rightarrow>
          map_option (commit_cluster_head (unat (last run)) 1 True) (write_ascii_body (butlast run) t))"

text \<open>
  The recursive call is on the part before the first \<open><\<close>, with nothing held: it never splits
  again.
\<close>

definition print_ascii_run :: "ambiguous_wide \<Rightarrow> u8 list \<Rightarrow> terminal \<Rightarrow> terminal option" where
  "print_ascii_run wide run t =
     (if t_u_tags t \<and> (t_u_buf t \<noteq> [] \<or> 0x3C \<in> set run)
      then
        let split = (if t_u_buf t = [] then length (takeWhile (\<lambda>b. b \<noteq> 0x3C) run) else 0)
        in map_option (print_bytes wide (drop split run))
             (if split = 0 then Some t else ascii_run wide (take split run) t)
      else ascii_run wide run t)"

definition decode3_cp :: "u8 \<Rightarrow> u8 \<Rightarrow> u8 \<Rightarrow> nat" where
  "decode3_cp a b c = unat (a AND 0x0F) * 4096 + unat (b AND 0x3F) * 64 + unat (c AND 0x3F)"

fun decode3_run :: "u8 list \<Rightarrow> uchar list" where
  "decode3_run (a # b # c # bs) = decode3_cp a b c # decode3_run bs"
| "decode3_run _ = []"

fun wide_boring_run_len :: "u8 list \<Rightarrow> nat" where
  "wide_boring_run_len (a # b # c # bs) =
     (if 0xE0 \<le> a \<and> a \<le> 0xEF \<and> b AND 0xC0 = 0x80 \<and> c AND 0xC0 = 0x80 \<and>
         is_scalar (decode3_cp a b c) \<and> fast_width (decode3_cp a b c) = Some 2
      then 3 + wide_boring_run_len bs else 0)"
| "wide_boring_run_len _ = 0"

fun quad_run_len :: "u8 list \<Rightarrow> nat" where
  "quad_run_len (a # b # c # d # bs) =
     (if 0xF0 \<le> a \<and> a \<le> 0xF4 \<and> b AND 0xC0 = 0x80 \<and> c AND 0xC0 = 0x80 \<and> d AND 0xC0 = 0x80
      then 4 + quad_run_len bs else 0)"
| "quad_run_len _ = 0"

text \<open>The decode lane hands the characters to \<open>print\<close>, a bad scalar as the replacement character.\<close>

fun decode4_run :: "u8 list \<Rightarrow> uchar list" where
  "decode4_run (a # b # c # d # bs) =
     (let cp = unat (a AND 0x07) * 262144 + unat (b AND 0x3F) * 4096 + unat (c AND 0x3F) * 64 +
               unat (d AND 0x3F)
      in (case from_u32 cp of Some c4 \<Rightarrow> c4 | None \<Rightarrow> REPLACEMENT_CHAR) # decode4_run bs)"
| "decode4_run _ = []"

definition print_wide_run :: "ambiguous_wide \<Rightarrow> u8 list \<Rightarrow> terminal \<Rightarrow> terminal option" where
  "print_wide_run wide run t =
     (let t = (if t_u_buf t = [] then t else print_glyphs wide (t_u_buf t) (t\<lparr>t_u_buf := []\<rparr>));
          cs = decode3_run run
      in case batch_prologue_flush (0xAC00 \<le> hd cs \<and> hd cs \<le> 0xD7A3) t of
           (False, t) \<Rightarrow> Some (fold (print wide) cs t)
         | (True, t) \<Rightarrow>
             map_option (commit_cluster_head (last cs) 2 True) (write_wide_body (butlast cs) t))"

end
