(* ===== verification/TermModes.thy ===== *)
theory TermModes
  imports TermPrint
begin

text \<open>
  The modes of the terminal, \<open>crates/marspot-term/src/terminal.rs\<close>: the saved cursor, the
  alternate screen, origin mode and the margins, the resets, and the DEC private modes with the
  report a program can ask for.
\<close>

section \<open>Origin and margins\<close>

definition row_origin :: "terminal \<Rightarrow> nat \<times> nat" where
  "row_origin t = (if t_origin_mode t then (t_scroll_top t, t_scroll_bot t) else (0, t_rows t - 1))"

definition absolute_row :: "nat \<Rightarrow> terminal \<Rightarrow> nat" where
  "absolute_row requested t =
     (let (top, bot) = row_origin t in min (sat_add16 top requested) bot)"

definition reported_row :: "nat \<Rightarrow> terminal \<Rightarrow> nat" where
  "reported_row row t = (row - fst (row_origin t)) + 1"

definition up_limit :: "nat \<Rightarrow> terminal \<Rightarrow> nat" where
  "up_limit row t = (if row \<ge> t_scroll_top t then t_scroll_top t else 0)"

definition down_limit :: "nat \<Rightarrow> terminal \<Rightarrow> nat" where
  "down_limit row t = (if row \<le> t_scroll_bot t then t_scroll_bot t else t_rows t - 1)"

definition cursor_to_origin :: "terminal \<Rightarrow> terminal" where
  "cursor_to_origin t = on_grid (set_cursor 0 (fst (row_origin t))) (t\<lparr>t_pending_wrap := False\<rparr>)"

section \<open>The saved cursor\<close>

definition save_cursor :: "terminal \<Rightarrow> terminal" where
  "save_cursor t =
     t\<lparr>t_saved_cursor := Some
        \<lparr>sc_col = cur_col t, sc_row = cur_row t, sc_attrs = t_attrs t,
         sc_pending_wrap = t_pending_wrap t, sc_g0_graphics = t_g0_graphics t,
         sc_origin_mode = t_origin_mode t\<rparr>\<rparr>"

definition restore_cursor :: "terminal \<Rightarrow> terminal" where
  "restore_cursor t =
     (case t_saved_cursor t of
        None \<Rightarrow> t
      | Some s \<Rightarrow>
          on_grid (set_cursor (sc_col s) (sc_row s))
            (t\<lparr>t_attrs := sc_attrs s, t_pending_wrap := sc_pending_wrap s,
               t_g0_graphics := sc_g0_graphics s, t_origin_mode := sc_origin_mode s\<rparr>))"

section \<open>The alternate screen\<close>

definition swap_cursors :: "terminal \<Rightarrow> terminal" where
  "swap_cursors t = t\<lparr>t_saved_cursor := t_parked_cursor t, t_parked_cursor := t_saved_cursor t\<rparr>"

definition enter_alt_screen :: "terminal \<Rightarrow> terminal" where
  "enter_alt_screen t =
     (if t_saved_main t \<noteq> None then t
      else
        let main = t_grid t; cursor = (cur_col t, cur_row t);
            alt = set_cursor (fst cursor) (snd cursor)
                    (grid_with_scrollback (t_cols t) (t_rows t) DEFAULT_SCROLLBACK_LINES);
            t' = swap_cursors (t\<lparr>t_grid := alt\<rparr>)
        in t'\<lparr>t_kitty := kitty_default,
              t_saved_main := Some \<lparr>sm_grid = main, sm_cursor = cursor, sm_kitty = t_kitty t\<rparr>\<rparr>)"

definition exit_alt_screen :: "terminal \<Rightarrow> terminal" where
  "exit_alt_screen t =
     (case t_saved_main t of
        None \<Rightarrow> t
      | Some saved \<Rightarrow>
          (swap_cursors t)
            \<lparr>t_saved_main := None,
             t_grid := set_cursor (fst (sm_cursor saved)) (snd (sm_cursor saved)) (sm_grid saved),
             t_kitty := sm_kitty saved\<rparr>)"

section \<open>Resets\<close>

definition fill_screen_e :: "cell_attrs \<Rightarrow> grid \<Rightarrow> grid" where
  "fill_screen_e a g =
     fold (\<lambda>row g. fold (\<lambda>col. set_cell col row \<lparr>ch = 0x45, attrs = a\<rparr>) [0..<g_cols g] g)
       [0..<g_rows g] g"

definition screen_alignment_pattern :: "ambiguous_wide \<Rightarrow> terminal \<Rightarrow> terminal" where
  "screen_alignment_pattern wide t =
     (let g = fill_range wide 0 (t_cols t * t_rows t) attrs_default (t_grid t);
          g = set_cursor 0 0 (clear_all_wrapped (fill_screen_e attrs_default g))
      in t\<lparr>t_grid := g, t_scroll_top := 0, t_scroll_bot := t_rows t - 1, t_pending_wrap := False\<rparr>)"

definition column_mode_reset :: "ambiguous_wide \<Rightarrow> terminal \<Rightarrow> terminal" where
  "column_mode_reset wide t =
     (let g = fill_range wide 0 (t_cols t * t_rows t) attrs_default (t_grid t)
      in t\<lparr>t_grid := set_cursor 0 0 (clear_all_wrapped g), t_scroll_top := 0,
           t_scroll_bot := t_rows t - 1, t_pending_wrap := False\<rparr>)"

definition soft_reset :: "terminal \<Rightarrow> terminal" where
  "soft_reset t =
     t\<lparr>t_attrs := attrs_default, t_saved_cursor := None, t_parked_cursor := None,
       t_cursor_visible := True, t_cursor_shape := 0, t_cursor_key_app := False,
       t_bracketed_paste := False, t_sync_output := False, t_alt_scroll := False,
       t_focus_reporting := False, t_focus_reported := None, t_mouse_mode := MouseOff,
       t_mouse_sgr := False, t_pending_wrap := False, t_scroll_top := 0,
       t_scroll_bot := t_rows t - 1, t_origin_mode := False, t_insert_mode := False\<rparr>"

definition hard_reset :: "ambiguous_wide \<Rightarrow> terminal \<Rightarrow> terminal" where
  "hard_reset wide t =
     (let t = (if t_saved_main t \<noteq> None then exit_alt_screen t else t);
          t = soft_reset t;
          g = fill_range wide 0 (t_cols t * t_rows t) attrs_default (t_grid t);
          t = t\<lparr>t_grid := set_cursor 0 0 (clear_scrollback (clear_all_wrapped g))\<rparr>;
          t = tabs_or_panic (tabs_new (t_cols t)) (t_tabs t) t
      in t\<lparr>t_g0_graphics := False, t_osc_title := []\<rparr>)"

section \<open>DEC private modes\<close>

definition on_off :: "bool \<Rightarrow> nat" where "on_off b = (if b then 1 else 2)"

definition dec_mode_report :: "nat \<Rightarrow> terminal \<Rightarrow> nat" where
  "dec_mode_report mode t =
     (if mode = 1 then on_off (t_cursor_key_app t)
      else if mode = 6 then on_off (t_origin_mode t)
      else if mode = 7 then 3
      else if mode = 25 then on_off (t_cursor_visible t)
      else if mode = 47 \<or> mode = 1047 \<or> mode = 1049 then on_off (t_saved_main t \<noteq> None)
      else if mode = 1000 then on_off (t_mouse_mode t = MouseX11)
      else if mode = 1002 then on_off (t_mouse_mode t = MouseButtonEvent)
      else if mode = 1003 then on_off (t_mouse_mode t = MouseAnyEvent)
      else if mode = 1004 then on_off (t_focus_reporting t)
      else if mode = 1006 then on_off (t_mouse_sgr t)
      else if mode = 1007 then on_off (t_alt_scroll t)
      else if mode = 2004 then on_off (t_bracketed_paste t)
      else if mode = 2026 then on_off (t_sync_output t)
      else 0)"

definition dec_mode :: "ambiguous_wide \<Rightarrow> nat \<Rightarrow> bool \<Rightarrow> terminal \<Rightarrow> terminal" where
  "dec_mode wide mode on t =
     (if mode = 1 then t\<lparr>t_cursor_key_app := on\<rparr>
      else if mode = 6 then cursor_to_origin (t\<lparr>t_origin_mode := on\<rparr>)
      else if mode = 3 then column_mode_reset wide t
      else if mode = 25 then t\<lparr>t_cursor_visible := on\<rparr>
      else if mode = 1049 then
        (if on then enter_alt_screen (save_cursor t) else restore_cursor (exit_alt_screen t))
      else if mode = 1047 \<or> mode = 47 then (if on then enter_alt_screen t else exit_alt_screen t)
      else if mode = 1048 then (if on then save_cursor t else restore_cursor t)
      else if mode = 2004 then t\<lparr>t_bracketed_paste := on\<rparr>
      else if mode = 1004 then
        (let t = t\<lparr>t_focus_reporting := on\<rparr> in if on then t else t\<lparr>t_focus_reported := None\<rparr>)
      else if mode = 1000 then t\<lparr>t_mouse_mode := (if on then MouseX11 else MouseOff)\<rparr>
      else if mode = 1002 then t\<lparr>t_mouse_mode := (if on then MouseButtonEvent else MouseOff)\<rparr>
      else if mode = 1003 then t\<lparr>t_mouse_mode := (if on then MouseAnyEvent else MouseOff)\<rparr>
      else if mode = 1006 then t\<lparr>t_mouse_sgr := on\<rparr>
      else if mode = 1007 then t\<lparr>t_alt_scroll := on\<rparr>
      else if mode = 2026 then
        (let t = t\<lparr>t_sync_output := on\<rparr> in if on then t\<lparr>t_uses_sync_output := True\<rparr> else t)
      else t)"

section \<open>Modes set from outside the byte stream\<close>

definition reset_attrs :: "terminal \<Rightarrow> terminal" where
  "reset_attrs t = t\<lparr>t_attrs := attrs_default\<rparr>"

definition set_render_markup :: "bool \<Rightarrow> terminal \<Rightarrow> terminal" where
  "set_render_markup on t = t\<lparr>t_render_markup := on\<rparr>"

definition report_focus :: "bool \<Rightarrow> terminal \<Rightarrow> terminal" where
  "report_focus focused t =
     (if \<not> t_focus_reporting t \<or> t_focus_reported t = Some focused then t
      else t\<lparr>t_focus_reported := Some focused,
             t_response := t_response t @ [0x1B, 0x5B, (if focused then 0x49 else 0x4F)]\<rparr>)"

definition reset_process_owned_modes :: "terminal \<Rightarrow> terminal" where
  "reset_process_owned_modes t =
     t\<lparr>t_mouse_mode := MouseOff, t_mouse_sgr := False, t_bracketed_paste := False,
       t_sync_output := False, t_alt_scroll := False, t_cursor_key_app := False,
       t_focus_reporting := False, t_focus_reported := None, t_cursor_visible := True,
       t_attrs := attrs_default\<rparr>"

definition reset_mouse_reporting :: "terminal \<Rightarrow> terminal" where
  "reset_mouse_reporting t = t\<lparr>t_mouse_mode := MouseOff, t_mouse_sgr := False\<rparr>"

definition take_response :: "terminal \<Rightarrow> u8 list \<times> terminal" where
  "take_response t = (t_response t, t\<lparr>t_response := []\<rparr>)"

definition take_osc_clipboard :: "terminal \<Rightarrow> ustring option \<times> terminal" where
  "take_osc_clipboard t = (t_osc_clipboard t, t\<lparr>t_osc_clipboard := None\<rparr>)"

section \<open>What a report says\<close>

text \<open>The modes DECSET and DECRST act on and DECRQM answers for, each with the switch it is.\<close>

definition switch_modes :: "nat set" where
  "switch_modes = {1, 6, 25, 47, 1000, 1002, 1003, 1004, 1006, 1007, 1047, 1049, 2004, 2026}"

lemma alt_screen_set:
  "t_saved_main (enter_alt_screen t) \<noteq> None" "t_saved_main (exit_alt_screen t) = None"
  by (auto simp: enter_alt_screen_def exit_alt_screen_def swap_cursors_def Let_def split: option.split)

lemma restore_cursor_saved_main [simp]: "t_saved_main (restore_cursor t) = t_saved_main t"
  by (simp add: restore_cursor_def split: option.split)

lemma mode_frames [simp]:
  "t_cursor_key_app (restore_cursor t) = t_cursor_key_app t"
  "t_cursor_visible (restore_cursor t) = t_cursor_visible t"
  "t_mouse_mode (restore_cursor t) = t_mouse_mode t"
  "t_mouse_sgr (restore_cursor t) = t_mouse_sgr t"
  "t_focus_reporting (restore_cursor t) = t_focus_reporting t"
  "t_alt_scroll (restore_cursor t) = t_alt_scroll t"
  "t_bracketed_paste (restore_cursor t) = t_bracketed_paste t"
  "t_sync_output (restore_cursor t) = t_sync_output t"
  "t_cursor_key_app (save_cursor t) = t_cursor_key_app t"
  "t_cursor_visible (save_cursor t) = t_cursor_visible t"
  "t_mouse_mode (save_cursor t) = t_mouse_mode t"
  "t_mouse_sgr (save_cursor t) = t_mouse_sgr t"
  "t_focus_reporting (save_cursor t) = t_focus_reporting t"
  "t_alt_scroll (save_cursor t) = t_alt_scroll t"
  "t_bracketed_paste (save_cursor t) = t_bracketed_paste t"
  "t_sync_output (save_cursor t) = t_sync_output t"
  "t_cursor_key_app (enter_alt_screen t) = t_cursor_key_app t"
  "t_cursor_visible (enter_alt_screen t) = t_cursor_visible t"
  "t_mouse_mode (enter_alt_screen t) = t_mouse_mode t"
  "t_mouse_sgr (enter_alt_screen t) = t_mouse_sgr t"
  "t_focus_reporting (enter_alt_screen t) = t_focus_reporting t"
  "t_alt_scroll (enter_alt_screen t) = t_alt_scroll t"
  "t_bracketed_paste (enter_alt_screen t) = t_bracketed_paste t"
  "t_sync_output (enter_alt_screen t) = t_sync_output t"
  "t_cursor_key_app (exit_alt_screen t) = t_cursor_key_app t"
  "t_cursor_visible (exit_alt_screen t) = t_cursor_visible t"
  "t_mouse_mode (exit_alt_screen t) = t_mouse_mode t"
  "t_mouse_sgr (exit_alt_screen t) = t_mouse_sgr t"
  "t_focus_reporting (exit_alt_screen t) = t_focus_reporting t"
  "t_alt_scroll (exit_alt_screen t) = t_alt_scroll t"
  "t_bracketed_paste (exit_alt_screen t) = t_bracketed_paste t"
  "t_sync_output (exit_alt_screen t) = t_sync_output t"
  "t_cursor_key_app (column_mode_reset wide t) = t_cursor_key_app t"
  "t_cursor_visible (column_mode_reset wide t) = t_cursor_visible t"
  "t_mouse_mode (column_mode_reset wide t) = t_mouse_mode t"
  "t_mouse_sgr (column_mode_reset wide t) = t_mouse_sgr t"
  "t_focus_reporting (column_mode_reset wide t) = t_focus_reporting t"
  "t_alt_scroll (column_mode_reset wide t) = t_alt_scroll t"
  "t_bracketed_paste (column_mode_reset wide t) = t_bracketed_paste t"
  "t_sync_output (column_mode_reset wide t) = t_sync_output t"
  "t_cursor_key_app (cursor_to_origin t) = t_cursor_key_app t"
  "t_cursor_visible (cursor_to_origin t) = t_cursor_visible t"
  "t_mouse_mode (cursor_to_origin t) = t_mouse_mode t"
  "t_mouse_sgr (cursor_to_origin t) = t_mouse_sgr t"
  "t_focus_reporting (cursor_to_origin t) = t_focus_reporting t"
  "t_alt_scroll (cursor_to_origin t) = t_alt_scroll t"
  "t_bracketed_paste (cursor_to_origin t) = t_bracketed_paste t"
  "t_sync_output (cursor_to_origin t) = t_sync_output t"
  by (simp_all add: restore_cursor_def save_cursor_def enter_alt_screen_def exit_alt_screen_def
      swap_cursors_def column_mode_reset_def cursor_to_origin_def Let_def split: option.split)

lemma mode_frames_more [simp]:
  "t_saved_main (save_cursor t) = t_saved_main t" "t_saved_main (column_mode_reset wide t) = t_saved_main t"
  "t_saved_main (cursor_to_origin t) = t_saved_main t"
  "t_origin_mode (save_cursor t) = t_origin_mode t" "t_origin_mode (column_mode_reset wide t) = t_origin_mode t"
  "t_origin_mode (cursor_to_origin t) = t_origin_mode t"
  "t_origin_mode (enter_alt_screen t) = t_origin_mode t" "t_origin_mode (exit_alt_screen t) = t_origin_mode t"
  by (simp_all add: save_cursor_def enter_alt_screen_def exit_alt_screen_def
      swap_cursors_def column_mode_reset_def cursor_to_origin_def Let_def split: option.split)

text \<open>The switches one mode can move.\<close>

lemma dec_mode_frames:
  "m \<noteq> 1 \<Longrightarrow> t_cursor_key_app (dec_mode wide m on t) = t_cursor_key_app t"
  "m \<notin> {6, 1048, 1049} \<Longrightarrow> t_origin_mode (dec_mode wide m on t) = t_origin_mode t"
  "m \<noteq> 25 \<Longrightarrow> t_cursor_visible (dec_mode wide m on t) = t_cursor_visible t"
  "m \<notin> {47, 1047, 1049} \<Longrightarrow> t_saved_main (dec_mode wide m on t) = t_saved_main t"
  "m \<notin> {1000, 1002, 1003} \<Longrightarrow> t_mouse_mode (dec_mode wide m on t) = t_mouse_mode t"
  "m \<noteq> 1004 \<Longrightarrow> t_focus_reporting (dec_mode wide m on t) = t_focus_reporting t"
  "m \<noteq> 1006 \<Longrightarrow> t_mouse_sgr (dec_mode wide m on t) = t_mouse_sgr t"
  "m \<noteq> 1007 \<Longrightarrow> t_alt_scroll (dec_mode wide m on t) = t_alt_scroll t"
  "m \<noteq> 2004 \<Longrightarrow> t_bracketed_paste (dec_mode wide m on t) = t_bracketed_paste t"
  "m \<noteq> 2026 \<Longrightarrow> t_sync_output (dec_mode wide m on t) = t_sync_output t"
  by (simp_all add: dec_mode_def Let_def)

lemma mode_report_same:
  "mode \<in> switch_modes \<Longrightarrow> dec_mode_report mode (dec_mode wide mode on t) = (if on then 1 else 2)"
  using alt_screen_set [of t] alt_screen_set [of "save_cursor t"]
  by (auto simp: switch_modes_def dec_mode_report_def dec_mode_def on_off_def cursor_to_origin_def Let_def)

lemma alt_group_set:
  "m \<in> {47, 1047, 1049} \<Longrightarrow> (t_saved_main (dec_mode wide m on t) \<noteq> None) = on"
  using alt_screen_set [of t] alt_screen_set [of "save_cursor t"] by (auto simp: dec_mode_def)

lemma mouse_group_set:
  "m \<in> {1000, 1002, 1003} \<Longrightarrow> t_mouse_mode (dec_mode wide m on t) =
     (if \<not> on then MouseOff else if m = 1000 then MouseX11 else if m = 1002 then MouseButtonEvent else MouseAnyEvent)"
  by (auto simp: dec_mode_def)

lemma report_other: "mode \<notin> switch_modes \<Longrightarrow> dec_mode_report mode t = (if mode = 7 then 3 else 0)"
  by (simp add: dec_mode_report_def switch_modes_def)

lemma report_alt: "mode \<in> {47, 1047, 1049} \<Longrightarrow> dec_mode_report mode t = on_off (t_saved_main t \<noteq> None)"
  by (elim insertE emptyE) (simp_all add: dec_mode_report_def)

lemma report_mouse:
  "mode \<in> {1000, 1002, 1003} \<Longrightarrow> dec_mode_report mode t = on_off (t_mouse_mode t =
     (if mode = 1000 then MouseX11 else if mode = 1002 then MouseButtonEvent else MouseAnyEvent))"
  by (elim insertE emptyE) (simp_all add: dec_mode_report_def)

lemma report_origin: "dec_mode_report 6 t = on_off (t_origin_mode t)"
  by (simp add: dec_mode_report_def)

lemma mouse_group_other:
  "m \<in> {1000, 1002, 1003} \<Longrightarrow> mode \<in> {1000, 1002, 1003} \<Longrightarrow> m \<noteq> mode \<Longrightarrow>
     dec_mode_report mode (dec_mode wide m on t) = 2"
  unfolding report_mouse mouse_group_set by (elim insertE emptyE) (simp_all add: on_off_def)

text \<open>Resetting 1048 or 1049 brings back the origin mode with the cursor.\<close>

lemma origin_restored:
  "m \<in> {1048, 1049} \<Longrightarrow> t_origin_mode (dec_mode wide m on t) =
     (if on then t_origin_mode t
      else case if m = 1049 \<and> t_saved_main t \<noteq> None then t_parked_cursor t else t_saved_cursor t of
             None \<Rightarrow> t_origin_mode t
           | Some sc \<Rightarrow> sc_origin_mode sc)"
proof -
  have r: "t_origin_mode (restore_cursor u) = (case t_saved_cursor u of None \<Rightarrow> t_origin_mode u | Some sc \<Rightarrow> sc_origin_mode sc)"
    for u by (simp add: restore_cursor_def split: option.split)
  have x: "t_saved_cursor (exit_alt_screen t) = (if t_saved_main t \<noteq> None then t_parked_cursor t else t_saved_cursor t)"
    by (cases "t_saved_main t") (simp_all add: exit_alt_screen_def swap_cursors_def)
  assume "m \<in> {1048, 1049}"
  then consider "m = 1048" | "m = 1049" by blast
  then show ?thesis by cases (simp_all add: dec_mode_def r x split: option.split)
qed

text \<open>
  C27: what DECRQM answers for a mode after DECSET or DECRST of another or of the same, for any two modes and
  whatever the state before.  The mode set or reset answers 1 or 2 accordingly.  The three spellings of the alternate
  screen are one switch.  Setting or resetting a mouse mode leaves the other two reset.  Origin mode also moves when
  1048 or 1049 is reset, to what the cursor it restores was saved with.  Every other answer is what it was.  Outside
  the switchable modes mode 7 answers 3 and everything else 0, modes 3 and 1048 included, which DECSET acts on.
\<close>
theorem mode_report_truth:
  "dec_mode_report mode (dec_mode wide mode' on t) =
     (if mode \<notin> switch_modes then if mode = 7 then 3 else 0
      else if mode' = mode \<or> {mode, mode'} \<subseteq> {47, 1047, 1049} then if on then 1 else 2
      else if {mode, mode'} \<subseteq> {1000, 1002, 1003} then 2
      else if mode = 6 \<and> \<not> on \<and> mode' \<in> {1048, 1049}
           then (case if mode' = 1049 \<and> t_saved_main t \<noteq> None then t_parked_cursor t else t_saved_cursor t of
                   None \<Rightarrow> dec_mode_report 6 t
                 | Some sc \<Rightarrow> on_off (sc_origin_mode sc))
      else dec_mode_report mode t)"
proof -
  have "mode \<in> switch_modes \<longleftrightarrow> mode \<in> {47, 1047, 1049} \<or> mode \<in> {1000, 1002, 1003} \<or> mode = 6 \<or>
      mode \<in> {1, 25, 1004, 1006, 1007, 2004, 2026}"
    unfolding switch_modes_def by blast
  then consider "mode \<notin> switch_modes" | "mode \<in> switch_modes" "mode' = mode" |
    "mode' \<noteq> mode" "mode \<in> {47, 1047, 1049}" | "mode' \<noteq> mode" "mode \<in> {1000, 1002, 1003}" |
    "mode' \<noteq> mode" "mode = 6" "mode' \<in> {1048, 1049}" | "mode' \<noteq> mode" "mode = 6" "mode' \<notin> {1048, 1049}" |
    "mode' \<noteq> mode" "mode \<in> {1, 25, 1004, 1006, 1007, 2004, 2026}"
    by metis
  then show ?thesis
  proof cases
    case 1
    then show ?thesis by (simp add: report_other)
  next
    case 2
    then show ?thesis using mode_report_same [of mode wide on t] by simp
  next
    case 3
    then have m: "mode \<in> switch_modes" "mode \<noteq> 1000 \<and> mode \<noteq> 1002 \<and> mode \<noteq> 1003" "mode \<noteq> 6"
      by (auto simp: switch_modes_def)
    show ?thesis
    proof (cases "mode' \<in> {47, 1047, 1049}")
      case True
      then show ?thesis using 3 m alt_group_set [OF True, of wide on t] by (simp add: report_alt on_off_def)
    next
      case False
      then show ?thesis using 3 m dec_mode_frames(4) [OF False, of wide on t] by (simp add: report_alt)
    qed
  next
    case 4
    then have m: "mode \<in> switch_modes" "mode \<noteq> 47 \<and> mode \<noteq> 1047 \<and> mode \<noteq> 1049" "mode \<noteq> 6"
      by (auto simp: switch_modes_def)
    show ?thesis
    proof (cases "mode' \<in> {1000, 1002, 1003}")
      case True
      then show ?thesis using 4 m mouse_group_other [OF True 4(2,1), of wide on t] by simp
    next
      case False
      then show ?thesis using 4 m dec_mode_frames(5) [OF False, of wide on t] by (simp add: report_mouse)
    qed
  next
    case 5
    then show ?thesis using origin_restored [OF 5(3), of wide on t]
      by (simp add: report_origin switch_modes_def split: option.split)
  next
    case 6
    then show ?thesis using dec_mode_frames(2) [of mode' wide on t]
      by (simp add: report_origin switch_modes_def)
  next
    case 7
    then have m: "mode \<in> switch_modes" "mode \<noteq> 47 \<and> mode \<noteq> 1047 \<and> mode \<noteq> 1049"
        "mode \<noteq> 1000 \<and> mode \<noteq> 1002 \<and> mode \<noteq> 1003" "mode \<noteq> 6" by (auto simp: switch_modes_def)
    have "dec_mode_report mode (dec_mode wide mode' on t) = dec_mode_report mode t"
      using 7 dec_mode_frames [of mode' wide on t] by (elim insertE emptyE) (simp_all add: dec_mode_report_def)
    then show ?thesis using 7 m by simp
  qed
qed

lemma mode_report_truth_witness:
  "dec_mode_report 2026 (dec_mode AmbOff 2026 True (term_new 80 24)) = 1 \<and>
   dec_mode_report 1002 (dec_mode AmbOff 1000 True (term_new 80 24)) = 2 \<and>
   dec_mode_report 47 (dec_mode AmbOff 1049 True (term_new 80 24)) = 1 \<and>
   dec_mode_report 25 (dec_mode AmbOff 1004 True (term_new 80 24)) = dec_mode_report 25 (term_new 80 24)"
  by (simp only: mode_report_truth) (simp add: switch_modes_def)

end
