(* ===== verification/Palette.thy ===== *)
theory Palette
  imports Prelude
begin

text \<open>
  The colours a program can ask for, \<open>crates/marspot-term/src/palette.rs\<close>.  A channel is an
  exact fraction (numerator, denominator) where the source has the nearest \<open>f64\<close>; none of the
  fractions of the tables lies within a rounding error of the point where \<open>round\<close> changes.
\<close>

section \<open>The palette\<close>

type_synonym channel = "nat \<times> nat"
type_synonym rgb = "channel \<times> channel \<times> channel"

definition tenk :: "nat \<Rightarrow> nat \<Rightarrow> nat \<Rightarrow> rgb" where
  "tenk r g b = ((r, 10000), (g, 10000), (b, 10000))"

definition PALETTE_BG :: rgb where "PALETTE_BG = tenk 60 80 140"
definition PALETTE_FG :: rgb where "PALETTE_FG = tenk 8620 8620 8620"
definition PALETTE_CURSOR :: "nat \<times> nat \<times> nat" where "PALETTE_CURSOR = (220, 224, 235)"

definition ANSI_16 :: "rgb list" where
  "ANSI_16 =
     [tenk 784 980 1176, tenk 7726 2354 1568, tenk 1875 7813 3398, tenk 8125 6172 1602,
      tenk 3320 5391 9023, tenk 7344 3672 8125, tenk 1602 7188 7461, tenk 7810 7811 7810,
      tenk 4078 4078 4078, tenk 10000 3711 3398, tenk 3203 8633 4297, tenk 10000 7656 2148,
      tenk 3984 6328 10000, tenk 10000 4453 7813, tenk 3984 9219 9492, tenk 10000 10000 10000]"

definition palette_unit :: "nat \<times> nat \<times> nat \<Rightarrow> rgb" where
  "palette_unit c = (case c of (r, g, b) \<Rightarrow> ((r, 255), (g, 255), (b, 255)))"

definition RAMP :: "nat list" where "RAMP = [0, 95, 135, 175, 215, 255]"

definition palette_indexed :: "u8 \<Rightarrow> rgb" where
  "palette_indexed idx =
     (let i = unat idx
      in if i < length ANSI_16 then ANSI_16 ! i
         else if i < 232 then
           let n = i - 16
           in palette_unit (RAMP ! (n div 36), RAMP ! (n div 6 mod 6), RAMP ! (n mod 6))
         else let v = 8 + (i - 232) * 10 in palette_unit (v, v, v))"

section \<open>The answer to a colour query\<close>

definition channel16 :: "channel \<Rightarrow> nat" where
  "channel16 c = (case c of (n, d) \<Rightarrow> (2 * 65535 * min n d + d) div (2 * d))"

definition hex_digit :: "nat \<Rightarrow> u8" where
  "hex_digit n = (if n < 10 then of_nat (0x30 + n) else of_nat (0x61 + (n - 10)))"

definition hex4 :: "nat \<Rightarrow> u8 list" where
  "hex4 n = [hex_digit (n div 4096 mod 16), hex_digit (n div 256 mod 16), hex_digit (n div 16 mod 16),
             hex_digit (n mod 16)]"

definition xterm_rgb :: "rgb \<Rightarrow> u8 list" where
  "xterm_rgb c =
     (case c of (r, g, b) \<Rightarrow>
        [0x72, 0x67, 0x62, 0x3A] @ hex4 (channel16 r) @ [0x2F] @ hex4 (channel16 g) @ [0x2F] @
        hex4 (channel16 b))"

section \<open>What a program reads back\<close>

definition hex_value :: "u8 \<Rightarrow> nat" where
  "hex_value b = (if unat b < 0x3A then unat b - 0x30 else unat b - 0x61 + 10)"

definition read_hex4 :: "u8 list \<Rightarrow> nat" where
  "read_hex4 bs = fold (\<lambda>b n. n * 16 + hex_value b) bs 0"

lemma hex_value_digit: "n < 16 \<Longrightarrow> hex_value (hex_digit n) = n"
  by (auto simp: hex_value_def hex_digit_def simp del: of_nat_add)

lemma nibbles_16:
  assumes "n < (65536 :: nat)"
  shows "((n div 4096 mod 16 * 16 + n div 256 mod 16) * 16 + n div 16 mod 16) * 16 + n mod 16 = n"
proof -
  have "n div 16 = n div 256 * 16 + n div 16 mod 16" "n div 256 = n div 4096 * 16 + n div 256 mod 16"
    using div_mult_mod_eq [of "n div 16" 16] div_mult_mod_eq [of "n div 256" 16]
    by (simp_all add: div_mult2_eq [symmetric])
  moreover have "n div 4096 mod 16 = n div 4096" using assms by simp
  moreover have "n = n div 16 * 16 + n mod 16" by simp
  ultimately show ?thesis by (metis (no_types))
qed

lemma read_hex4: "n < 65536 \<Longrightarrow> read_hex4 (hex4 n) = n"
  using nibbles_16 [of n] by (simp add: read_hex4_def hex4_def hex_value_digit)

lemma channel16_lt: "0 < d \<Longrightarrow> channel16 (n, d) < 65536"
proof -
  assume d: "0 < d"
  have "(2 * 65535 * min n d + d) div (2 * d) \<le> (2 * 65535 * d + d) div (2 * d)"
    by (intro div_le_mono) simp
  also have "\<dots> = (65535 * (2 * d) + d) div (2 * d)" by (simp add: algebra_simps)
  also have "\<dots> = 65535" using d by (simp add: div_mult_self3)
  finally show ?thesis by (simp add: channel16_def)
qed

lemma channel16_255: "v \<le> 255 \<Longrightarrow> channel16 (v, 255) = 257 * v"
  by (simp add: channel16_def min_def)

text \<open>The 6 by 6 by 6 cube and the grey ramp, as xterm numbers them.\<close>

definition xterm_level :: "nat \<Rightarrow> nat" where
  "xterm_level k = (if k = 0 then 0 else 55 + 40 * k)"

lemma ramp_level: "k < 6 \<Longrightarrow> RAMP ! k = xterm_level k"
  by (auto simp: RAMP_def xterm_level_def less_Suc_eq numeral_eq_Suc)

text \<open>
  What \<open>OSC 4\<close> answers is xterm's table.  For every entry of the cube and of the grey ramp,
  reading the four hex digits of each channel back gives the channel's eight bits doubled, of
  the level xterm defines for that entry; so a program that computes the palette and one that
  asks for it agree.
\<close>
theorem palette_is_xterm:
  assumes "r < 6" "g < 6" "b < 6" "v < 24"
  shows "xterm_rgb (palette_indexed (of_nat (16 + 36 * r + 6 * g + b))) =
           [0x72, 0x67, 0x62, 0x3A] @ hex4 (257 * xterm_level r) @ [0x2F] @ hex4 (257 * xterm_level g) @
           [0x2F] @ hex4 (257 * xterm_level b) \<and>
         read_hex4 (hex4 (257 * xterm_level r)) = 257 * xterm_level r \<and>
         xterm_rgb (palette_indexed (of_nat (232 + v))) =
           [0x72, 0x67, 0x62, 0x3A] @ hex4 (257 * (8 + 10 * v)) @ [0x2F] @ hex4 (257 * (8 + 10 * v)) @
           [0x2F] @ hex4 (257 * (8 + 10 * v))"
proof -
  let ?i = "16 + 36 * r + 6 * g + b"
  have i: "?i < 232" using assms by simp
  then have i': "unat (of_nat ?i :: u8) = ?i" by (intro unat_of_nat_u8) simp
  have "36 * r + 6 * g + b = 36 * r + (6 * g + b)" "(6 * g + b) div 36 = 0"
    using assms by simp_all
  then have n: "(36 * r + 6 * g + b) div 36 = r" by (metis add.right_neutral div_mult_self4 zero_neq_numeral)
  have e: "36 * r + 6 * g + b = b + (g + r * 6) * 6" by simp
  have m: "(36 * r + 6 * g + b) div 6 mod 6 = g" "(36 * r + 6 * g + b) mod 6 = b"
    unfolding e using assms by (simp_all only: div_mult_self1 mod_mult_self1) simp_all
  have lv: "xterm_level k \<le> 255" if "k < 6" for k using that by (simp add: xterm_level_def)
  have "palette_indexed (of_nat ?i) = palette_unit (xterm_level r, xterm_level g, xterm_level b)"
    using i i' n m assms ramp_level [of r] ramp_level [of g] ramp_level [of b]
    by (simp add: palette_indexed_def Let_def ANSI_16_def add.assoc [symmetric] del: of_nat_add of_nat_mult)
  then have cube: "xterm_rgb (palette_indexed (of_nat ?i)) =
      [0x72, 0x67, 0x62, 0x3A] @ hex4 (257 * xterm_level r) @ [0x2F] @ hex4 (257 * xterm_level g) @
      [0x2F] @ hex4 (257 * xterm_level b)"
    using lv assms by (simp add: xterm_rgb_def palette_unit_def channel16_255)
  have "unat (of_nat (232 + v) :: u8) = 232 + v" using assms by (intro unat_of_nat_u8) simp
  then have "palette_indexed (of_nat (232 + v)) = palette_unit (8 + 10 * v, 8 + 10 * v, 8 + 10 * v)"
    by (simp add: palette_indexed_def Let_def ANSI_16_def mult.commute del: of_nat_add)
  then have grey: "xterm_rgb (palette_indexed (of_nat (232 + v))) =
      [0x72, 0x67, 0x62, 0x3A] @ hex4 (257 * (8 + 10 * v)) @ [0x2F] @ hex4 (257 * (8 + 10 * v)) @
      [0x2F] @ hex4 (257 * (8 + 10 * v))"
    using assms by (simp add: xterm_rgb_def palette_unit_def channel16_255)
  have "257 * xterm_level r < 65536" using lv [OF assms(1)] by simp
  then show ?thesis using cube grey read_hex4 by blast
qed

lemma palette_is_xterm_witness:
  "xterm_rgb (palette_indexed 196) =
     [0x72, 0x67, 0x62, 0x3A] @ hex4 0xFFFF @ [0x2F] @ hex4 0 @ [0x2F] @ hex4 0"
  using palette_is_xterm [of 5 0 0 0] by (simp add: xterm_level_def)

end
