(* ===== verification/TermDispatch.thy ===== *)
theory TermDispatch
  imports TermModes Palette Base64
begin

text \<open>
  The handler of the parser's callbacks, \<open>crates/marspot-term/src/terminal.rs\<close>
  (\<open>impl ParserCallbacks for Handler\<close>): control codes, escape sequences, control sequences with
  and without intermediates, and operating system commands.
\<close>

section \<open>Responses\<close>

abbreviation (input) RESPONSE_BURST_AT :: nat where "RESPONSE_BURST_AT \<equiv> 5"
abbreviation (input) RESPONSE_BURST_SUSTAINED :: nat where "RESPONSE_BURST_SUSTAINED \<equiv> 1000000000"

definition record_response :: "terminal \<Rightarrow> terminal" where
  "record_response t =
     (let now = t_now t; cutoff = now - 100000000;
          window = dropWhile (\<lambda>x. x < cutoff) (t_response_window t) @ [now];
          t = t\<lparr>t_response_window := window\<rparr>
      in if length window < RESPONSE_BURST_AT then t\<lparr>t_burst_since := None\<rparr>
         else
           let since = (case t_burst_since t of Some s \<Rightarrow> s | None \<Rightarrow> now);
               t = t\<lparr>t_burst_since := Some since\<rparr>
           in if now - since < RESPONSE_BURST_SUSTAINED then t
              else if (case t_burst_last_warn t of Some w \<Rightarrow> now - w \<ge> 1000000000 | None \<Rightarrow> True)
              then t\<lparr>t_burst_last_warn := Some now\<rparr>
              else t)"

definition respond :: "u8 list \<Rightarrow> terminal \<Rightarrow> terminal" where
  "respond bytes t = t\<lparr>t_response := t_response t @ bytes\<rparr>"

text \<open>\<open>ESC [\<close> and the fixed replies.\<close>

definition CSI :: "u8 list" where "CSI = [0x1B, 0x5B]"
definition DA1_REPLY :: "u8 list" where
  "DA1_REPLY = CSI @ [0x3F, 0x36, 0x32, 0x3B, 0x31, 0x3B, 0x36, 0x3B, 0x32, 0x32, 0x63]"
definition DA2_REPLY :: "u8 list" where
  "DA2_REPLY = CSI @ [0x3E, 0x34, 0x31, 0x3B, 0x33, 0x33, 0x30, 0x3B, 0x30, 0x63]"
definition XTVERSION_REPLY :: "u8 list" where
  "XTVERSION_REPLY =
     [0x1B, 0x50, 0x3E, 0x7C, 0x6D, 0x61, 0x72, 0x73, 0x70, 0x6F, 0x74, 0x1B, 0x5C]"

definition cpr_reply :: "u8 list \<Rightarrow> u8 list \<Rightarrow> terminal \<Rightarrow> u8 list" where
  "cpr_reply mark page t =
     CSI @ mark @ dec (reported_row (cur_row t) t) @ [0x3B] @ dec (cur_col t + 1) @ page @ [0x52]"

section \<open>Control codes\<close>

definition flush_pending :: "ambiguous_wide \<Rightarrow> terminal \<Rightarrow> terminal" where
  "flush_pending wide t = flush_cluster_for_break (flush_u_buf wide t)"

definition execute :: "ambiguous_wide \<Rightarrow> u8 \<Rightarrow> terminal \<Rightarrow> terminal" where
  "execute wide byte t =
     (let t = flush_pending wide t
      in if byte = 0x08 then
           (let t = t\<lparr>t_pending_wrap := False\<rparr>
            in if cur_col t > 0 then on_grid (set_cursor (cur_col t - 1) (cur_row t)) t else t)
         else if 0x0A \<le> byte \<and> byte \<le> 0x0C then index_down (t\<lparr>t_pending_wrap := False\<rparr>)
         else if byte = 0x0D then
           (let t = t\<lparr>t_pending_wrap := False\<rparr> in on_grid (set_cursor 0 (cur_row t)) t)
         else if byte = 0x09 then on_grid (set_cursor (tabs_next (t_tabs t) (cur_col t) 1) (cur_row t)) t
         else t)"

section \<open>Escape sequences\<close>

definition esc_dispatch :: "ambiguous_wide \<Rightarrow> u8 list \<Rightarrow> u8 \<Rightarrow> terminal \<Rightarrow> terminal" where
  "esc_dispatch wide intermediates byte t =
     (let t = flush_pending wide t
      in if byte = 0x48 \<and> intermediates = [] then t\<lparr>t_tabs := tabs_set (cur_col t) (t_tabs t)\<rparr>
         else if byte = 0x37 \<and> intermediates = [] then save_cursor t
         else if byte = 0x38 \<and> intermediates = [] then restore_cursor t
         else if byte = 0x44 then index_down (t\<lparr>t_pending_wrap := False\<rparr>)
         else if byte = 0x45 then
           (let t = t\<lparr>t_pending_wrap := False\<rparr> in index_down (on_grid (set_cursor 0 (cur_row t)) t))
         else if byte = 0x4D then reverse_index (t\<lparr>t_pending_wrap := False\<rparr>)
         else if byte = 0x5A then record_response (respond DA1_REPLY t)
         else if byte = 0x3D \<or> byte = 0x3E then t
         else if intermediates = [0x28] then t\<lparr>t_g0_graphics := (byte = 0x30)\<rparr>
         else if byte = 0x38 \<and> intermediates = [0x23] then screen_alignment_pattern wide t
         else if byte = 0x63 \<and> intermediates = [] then hard_reset wide t
         else t)"

section \<open>Control sequences\<close>

definition csi_private :: "ambiguous_wide \<Rightarrow> nat list \<Rightarrow> u8 \<Rightarrow> terminal \<Rightarrow> terminal" where
  "csi_private wide params byte t =
     (if byte = 0x68 then fold (\<lambda>p. dec_mode wide p True) params t
      else if byte = 0x6C then fold (\<lambda>p. dec_mode wide p False) params t
      else if byte = 0x75 then
        record_response (respond (CSI @ [0x3F] @ dec (unat (kitty_current (t_kitty t))) @ [0x75]) t)
      else if byte = 0x6E \<and> get params 0 = Some 6 then
        record_response (respond (cpr_reply [0x3F] [0x3B, 0x31] t) t)
      else t)"

definition csi_marked :: "nat list \<Rightarrow> u8 list \<Rightarrow> u8 \<Rightarrow> terminal \<Rightarrow> terminal" where
  "csi_marked params intermediates byte t =
     (if intermediates = [0x20] \<and> byte = 0x71 then t\<lparr>t_cursor_shape := min (param params 0 0) 6\<rparr>
      else if intermediates = [0x3E] \<and> byte = 0x71 then record_response (respond XTVERSION_REPLY t)
      else if intermediates = [0x3E] \<and> byte = 0x63 then record_response (respond DA2_REPLY t)
      else if intermediates = [0x3E] \<and> byte = 0x75 then
        t\<lparr>t_kitty := kitty_push (of_nat (param params 0 0)) (t_kitty t)\<rparr>
      else if intermediates = [0x3C] \<and> byte = 0x75 then
        t\<lparr>t_kitty := kitty_pop (param params 0 1) (t_kitty t)\<rparr>
      else if intermediates = [0x3D] \<and> byte = 0x75 then
        t\<lparr>t_kitty := kitty_set (param params 1 1) (of_nat (param params 0 0)) (t_kitty t)\<rparr>
      else if intermediates = [0x21] \<and> byte = 0x70 then soft_reset t
      else if intermediates = [0x3F, 0x24] \<and> byte = 0x70 then
        (let mode = param params 0 0
         in respond (CSI @ [0x3F] @ dec mode @ [0x3B] @ dec (dec_mode_report mode t) @ [0x24, 0x79]) t)
      else t)"

text \<open>Cursor movement and tab stops.\<close>

definition csi_move :: "nat list \<Rightarrow> u8 \<Rightarrow> terminal \<Rightarrow> terminal" where
  "csi_move params byte t =
     (let col = cur_col t; row = cur_row t; cols = t_cols t; n = param params 0 1;
          unwrapped = t\<lparr>t_pending_wrap := False\<rparr>
      in if byte = 0x41 then on_grid (set_cursor col (max (row - n) (up_limit row t))) unwrapped
         else if byte = 0x42 then on_grid (set_cursor col (min (sat_add16 row n) (down_limit row t))) unwrapped
         else if byte = 0x43 then on_grid (set_cursor (min (sat_add16 col n) (cols - 1)) row) unwrapped
         else if byte = 0x45 then on_grid (set_cursor 0 (min (sat_add16 row n) (down_limit row t))) unwrapped
         else if byte = 0x46 then on_grid (set_cursor 0 (max (row - n) (up_limit row t))) unwrapped
         else if byte = 0x44 then on_grid (set_cursor (col - n) row) unwrapped
         else if byte = 0x48 \<or> byte = 0x66 then
           on_grid (set_cursor (param params 1 1 - 1) (absolute_row (n - 1) t)) unwrapped
         else if byte = 0x47 then on_grid (set_cursor (n - 1) row) unwrapped
         else if byte = 0x49 then on_grid (set_cursor (tabs_next (t_tabs t) col (max 1 n)) row) t
         else if byte = 0x5A then on_grid (set_cursor (tabs_prev (t_tabs t) col (max 1 n)) row) unwrapped
         else if byte = 0x67 then
           (let k = param params 0 0
            in if k = 0 then t\<lparr>t_tabs := tabs_clear col (t_tabs t)\<rparr>
               else if k = 3 then t\<lparr>t_tabs := tabs_clear_all (t_tabs t)\<rparr> else t)
         else if byte = 0x64 then on_grid (set_cursor col (absolute_row (n - 1) t)) unwrapped
         else t)"

text \<open>Erasing, inserting and deleting, scrolling.\<close>

definition csi_edit :: "ambiguous_wide \<Rightarrow> nat list \<Rightarrow> u8 \<Rightarrow> terminal \<Rightarrow> terminal" where
  "csi_edit wide params byte t =
     (let col = cur_col t; row = cur_row t; cols = t_cols t; rows = t_rows t; n = param params 0 1;
          a = t_attrs t; unwrapped = t\<lparr>t_pending_wrap := False\<rparr>;
          top = t_scroll_top t; bot = t_scroll_bot t
      in if byte = 0x4A then
           (let mode = param_raw params 0 0
            in if mode = 3 then on_grid clear_scrollback unwrapped
               else
                 let t = on_grid (erase_in_display wide col row cols rows mode a) unwrapped
                 in if mode = 2 then on_grid clear_all_wrapped t else t)
         else if byte = 0x4B then
           on_grid (erase_in_line wide col row cols (param_raw params 0 0) a) unwrapped
         else if byte = 0x4C then
           (if top \<le> row \<and> row \<le> bot
            then on_grid (\<lambda>g. set_cursor 0 row (scroll_down_region row bot n (blank_with a) g)) unwrapped
            else unwrapped)
         else if byte = 0x4D then
           (if top \<le> row \<and> row \<le> bot
            then on_grid (\<lambda>g. set_cursor 0 row (scroll_up_region row bot n (blank_with a) g)) unwrapped
            else unwrapped)
         else if byte = 0x40 then on_grid (insert_chars col row n a) unwrapped
         else if byte = 0x50 then on_grid (delete_chars col row n a) t
         else if byte = 0x58 then on_grid (erase_chars col row n a) t
         else if byte = 0x53 then region_scroll_up n t
         else if byte = 0x54 then region_scroll_down n t
         else t)"

text \<open>DECSTBM.\<close>

definition set_margins :: "nat list \<Rightarrow> terminal \<Rightarrow> terminal" where
  "set_margins params t =
     (let rows = t_rows t; top = param params 0 1 - 1; bot_arg = param_raw params 1 0;
          bot = (if bot_arg = 0 then rows - 1 else min (bot_arg - 1) (rows - 1));
          t = t\<lparr>t_pending_wrap := False\<rparr>;
          t = (if top \<le> bot \<and> bot < rows then t\<lparr>t_scroll_top := top, t_scroll_bot := bot\<rparr> else t)
      in cursor_to_origin t)"

text \<open>The rest: the pen, modes, the saved cursor, reports.\<close>

definition csi_state :: "nat list \<Rightarrow> bool list \<Rightarrow> u8 \<Rightarrow> terminal \<Rightarrow> terminal" where
  "csi_state params subs byte t =
     (let first = param_raw params 0 0
      in if byte = 0x6D then t\<lparr>t_attrs := apply_sgr params subs (t_attrs t)\<rparr>
         else if byte = 0x73 then save_cursor t
         else if byte = 0x75 then restore_cursor t
         else if byte = 0x68 \<or> byte = 0x6C then
           fold (\<lambda>p t. if p = 4 then t\<lparr>t_insert_mode := (byte = 0x68)\<rparr> else t) params t
         else if byte = 0x72 then set_margins params t
         else if byte = 0x63 then record_response (respond DA1_REPLY t)
         else if byte = 0x74 then
           (if first = 18
            then record_response
              (respond (CSI @ [0x38, 0x3B] @ dec (t_rows t) @ [0x3B] @ dec (t_cols t) @ [0x74]) t)
            else t)
         else if byte = 0x6E then
           (if first = 5 then record_response (respond (CSI @ [0x30, 0x6E]) t)
            else if first = 6 then record_response (respond (cpr_reply [] [] t) t)
            else t)
         else t)"

text \<open>The finals of the three groups are disjoint; together they are the one \<open>match byte\<close>.\<close>

definition move_finals :: "u8 list" where
  "move_finals = [0x41, 0x42, 0x43, 0x44, 0x45, 0x46, 0x47, 0x48, 0x49, 0x5A, 0x64, 0x66, 0x67]"

definition edit_finals :: "u8 list" where
  "edit_finals = [0x40, 0x4A, 0x4B, 0x4C, 0x4D, 0x50, 0x53, 0x54, 0x58]"

definition csi_plain :: "ambiguous_wide \<Rightarrow> nat list \<Rightarrow> bool list \<Rightarrow> u8 \<Rightarrow> terminal \<Rightarrow> terminal" where
  "csi_plain wide params subs byte t =
     (if byte \<in> set move_finals then csi_move params byte t
      else if byte \<in> set edit_finals then csi_edit wide params byte t
      else csi_state params subs byte t)"

definition csi_dispatch ::
  "ambiguous_wide \<Rightarrow> nat list \<Rightarrow> bool list \<Rightarrow> u8 list \<Rightarrow> u8 \<Rightarrow> terminal \<Rightarrow> terminal" where
  "csi_dispatch wide params subs intermediates byte t =
     (let t = flush_pending wide t
      in if intermediates = [0x3F] then csi_private wide params byte t
         else if intermediates \<noteq> [] then csi_marked params intermediates byte t
         else csi_plain wide params subs byte t)"

section \<open>Operating system commands\<close>

text \<open>\<open>str::from_utf8\<close>: strict UTF-8, no overlong form, no surrogate.\<close>

definition cont :: "u8 \<Rightarrow> bool" where "cont b \<longleftrightarrow> b AND 0xC0 = 0x80"

fun from_utf8 :: "u8 list \<Rightarrow> ustring option" where
  "from_utf8 [] = Some []"
| "from_utf8 (a # bs) =
     (if a < 0x80 then map_option ((#) (unat a)) (from_utf8 bs)
      else case bs of
        [] \<Rightarrow> None
      | b # cs \<Rightarrow>
          if 0xC2 \<le> a \<and> a \<le> 0xDF \<and> cont b
          then map_option ((#) (unat (a AND 0x1F) * 64 + unat (b AND 0x3F))) (from_utf8 cs)
          else case cs of
            [] \<Rightarrow> None
          | c # ds \<Rightarrow>
              if 0xE0 \<le> a \<and> a \<le> 0xEF \<and> cont b \<and> cont c \<and> 0x800 \<le> decode3_cp a b c \<and>
                 is_scalar (decode3_cp a b c)
              then map_option ((#) (decode3_cp a b c)) (from_utf8 ds)
              else case ds of
                [] \<Rightarrow> None
              | d # es \<Rightarrow>
                  let cp = unat (a AND 0x07) * 262144 + unat (b AND 0x3F) * 4096 +
                           unat (c AND 0x3F) * 64 + unat (d AND 0x3F)
                  in if 0xF0 \<le> a \<and> a \<le> 0xF4 \<and> cont b \<and> cont c \<and> cont d \<and> 0x10000 \<le> cp \<and> cp \<le> 0x10FFFF
                     then map_option ((#) cp) (from_utf8 es)
                     else None)"

text \<open>\<open>str::parse\<close> for an unsigned type with the given maximum: an optional plus, then digits.\<close>

definition digit :: "uchar \<Rightarrow> bool" where "digit c \<longleftrightarrow> 0x30 \<le> c \<and> c \<le> 0x39"

definition parse_uint :: "nat \<Rightarrow> ustring \<Rightarrow> nat option" where
  "parse_uint limit s =
     (let ds = (case s of c # cs \<Rightarrow> if c = 0x2B then cs else s | [] \<Rightarrow> s)
      in if ds = [] \<or> \<not> list_all digit ds then None
         else
           let n = fold (\<lambda>c n. n * 10 + (c - 0x30)) ds 0
           in if n \<le> limit then Some n else None)"

fun split_at :: "'a \<Rightarrow> 'a list \<Rightarrow> 'a list list" where
  "split_at sep [] = [[]]"
| "split_at sep (x # xs) =
     (if x = sep then [] # split_at sep xs
      else case split_at sep xs of f # fs \<Rightarrow> (x # f) # fs | [] \<Rightarrow> [[x]])"

abbreviation (input) SEMI :: "'a :: numeral" where "SEMI \<equiv> 0x3B"

text \<open>What follows the first semicolon; empty when there is none.\<close>

definition after_semi :: "u8 list \<Rightarrow> u8 list" where
  "after_semi bs = drop 1 (dropWhile (\<lambda>b. b \<noteq> SEMI) bs)"

abbreviation (input) OSC52_MAX :: nat where "OSC52_MAX \<equiv> 65536"
abbreviation (input) u8_max :: nat where "u8_max \<equiv> 255"

definition osc_prefix :: "nat \<Rightarrow> u8 list" where
  "osc_prefix n = [0x1B, 0x5D] @ dec n @ [SEMI]"

definition osc_color_reply :: "nat \<Rightarrow> rgb \<Rightarrow> u8 list" where
  "osc_color_reply n c = osc_prefix n @ xterm_rgb c @ [0x07]"

definition osc_title :: "u8 list \<Rightarrow> terminal \<Rightarrow> terminal" where
  "osc_title rest t =
     (case from_utf8 rest of
        Some s \<Rightarrow> if t_osc_title t \<noteq> s then t\<lparr>t_osc_title := take 256 s\<rparr> else t
      | None \<Rightarrow> t)"

definition osc_mark :: "u8 list \<Rightarrow> prompt_mark option" where
  "osc_mark rest =
     (let parts = split_at SEMI (case from_utf8 rest of Some s \<Rightarrow> s | None \<Rightarrow> [])
      in if hd parts = [0x41] \<or> hd parts = [0x50] then Some PromptStart
         else if hd parts = [0x42] then Some InputStart
         else if hd parts = [0x43] then Some OutputStart
         else if hd parts = [0x44] then
           Some (CommandEnd
             (case get parts 1 of
                None \<Rightarrow> None
              | Some p \<Rightarrow> if p \<noteq> [] \<and> 0x3D \<notin> set p then map_option of_nat (parse_uint u8_max p) else None))
         else None)"

definition osc_clipboard :: "u8 list \<Rightarrow> terminal \<Rightarrow> terminal" where
  "osc_clipboard rest t =
     (let payload = after_semi rest
      in if payload = [0x3F] then t
         else case b64_decode payload OSC52_MAX of
                None \<Rightarrow> t
              | Some bytes \<Rightarrow>
                  (case from_utf8 bytes of Some s \<Rightarrow> t\<lparr>t_osc_clipboard := Some s\<rparr> | None \<Rightarrow> t))"

fun osc_palette_reply :: "u8 list list \<Rightarrow> u8 list" where
  "osc_palette_reply (idx # val # fs) =
     (if val \<noteq> [0x3F] then []
      else case Option.bind (from_utf8 idx) (parse_uint u8_max) of
             None \<Rightarrow> []
           | Some i \<Rightarrow> osc_prefix 4 @ dec i @ [SEMI] @ xterm_rgb (palette_indexed (of_nat i)) @ [0x07]) @
     osc_palette_reply fs"
| "osc_palette_reply _ = []"

definition osc_dispatch :: "ambiguous_wide \<Rightarrow> u8 list \<Rightarrow> terminal \<Rightarrow> terminal" where
  "osc_dispatch wide data t =
     (let t = flush_pending wide t;
          num = Option.bind (from_utf8 (takeWhile (\<lambda>b. b \<noteq> SEMI) data)) (parse_uint u16_max);
          rest = after_semi data; asks = (get rest 0 = Some 0x3F)
      in case num of
           None \<Rightarrow> t
         | Some n \<Rightarrow>
             if n = 0 \<or> n = 2 then osc_title rest t
             else if (n = 10 \<or> n = 11) \<and> asks then
               record_response (respond (osc_color_reply n (if n = 10 then PALETTE_FG else PALETTE_BG)) t)
             else if n = 133 then
               (case osc_mark rest of
                  Some mark \<Rightarrow> on_grid (set_row_prompt (cur_row t) mark) t
                | None \<Rightarrow> t)
             else if n = 52 then osc_clipboard rest t
             else if n = 4 then
               (let reply = osc_palette_reply (split_at SEMI rest)
                in if reply \<noteq> [] then record_response (respond reply t) else t)
             else if n = 12 \<and> asks then
               record_response (respond (osc_color_reply 12 (palette_unit PALETTE_CURSOR)) t)
             else t)"

section \<open>One callback\<close>

definition handle :: "ambiguous_wide \<Rightarrow> event \<Rightarrow> terminal \<Rightarrow> terminal" where
  "handle wide e t =
     (case e of
        Print c \<Rightarrow> print wide c t
      | Execute b \<Rightarrow> execute wide b t
      | EscDispatch is b \<Rightarrow> esc_dispatch wide is b t
      | CsiDispatch ps ss is b \<Rightarrow> csi_dispatch wide ps ss is b t
      | OscDispatch bs \<Rightarrow> osc_dispatch wide bs t)"

end
