(* ===== verification/TermFeed.thy ===== *)
theory TermFeed
  imports TermDispatch
begin

text \<open>
  Bytes into the terminal, \<open>crates/marspot-term/src/terminal.rs\<close>: \<open>Terminal::feed\<close> with its bulk
  lanes, local-echo prediction, and \<open>Terminal::resize\<close>.  One call reads one instant, \<open>t_now\<close>.
  \<open>None\<close> stands for a call that never returns.
\<close>

section \<open>Prediction\<close>

abbreviation (input) PREDICT_GIVE_UP_AFTER :: nat where "PREDICT_GIVE_UP_AFTER \<equiv> 3"
abbreviation (input) PREDICT_PROBE_EVERY :: nat where "PREDICT_PROBE_EVERY \<equiv> 128"
abbreviation (input) PREDICT_DEADLINE_MIN :: nat where "PREDICT_DEADLINE_MIN \<equiv> 50000000"
abbreviation (input) PREDICT_DEADLINE_MAX :: nat where "PREDICT_DEADLINE_MAX \<equiv> 1000000000"
abbreviation (input) SHADOW_MAX :: nat where "SHADOW_MAX \<equiv> 64"
abbreviation (input) MAX_PREDICTIONS :: nat where "MAX_PREDICTIONS \<equiv> 64"

definition sat_inc32 :: "nat \<Rightarrow> nat" where "sat_inc32 n = min (2 ^ 32 - 1) (n + 1)"

definition predict_deadline :: "terminal \<Rightarrow> nat" where
  "predict_deadline t = min (max (t_echo_srtt t * 4) PREDICT_DEADLINE_MIN) PREDICT_DEADLINE_MAX"

definition note_echo_rtt :: "nat \<Rightarrow> terminal \<Rightarrow> terminal" where
  "note_echo_rtt sample t = t\<lparr>t_echo_srtt := (t_echo_srtt t * 7 + sample) div 8\<rparr>"

definition unpaint :: "prediction \<Rightarrow> terminal \<Rightarrow> terminal" where
  "unpaint p t =
     (let (col, row) = pr_saved_cursor p
      in on_grid (\<lambda>g. set_cursor col row (set_cell col row (pr_saved_cell p) g)) t)"

definition rollback_predictions_inner :: "bool \<Rightarrow> terminal \<Rightarrow> terminal" where
  "rollback_predictions_inner count_miss t =
     (let ps = t_predictions t; t = fold unpaint (rev ps) (t\<lparr>t_predictions := []\<rparr>)
      in if count_miss then t\<lparr>t_predictions_miss := t_predictions_miss t + length ps\<rparr> else t)"

definition rollback_predictions :: "terminal \<Rightarrow> terminal" where
  "rollback_predictions t = rollback_predictions_inner True t"

text \<open>The shadow queue keeps the newest \<open>SHADOW_MAX\<close> entries.\<close>

definition push_shadow :: "prediction \<Rightarrow> (u8 \<times> nat) list \<Rightarrow> (u8 \<times> nat) list" where
  "push_shadow p sh = (if length sh \<ge> SHADOW_MAX then drop 1 sh else sh) @ [(pr_byte p, pr_at p)]"

definition expire_predictions_at :: "nat \<Rightarrow> terminal \<Rightarrow> bool \<times> terminal" where
  "expire_predictions_at now t =
     (case t_predictions t of
        [] \<Rightarrow> (False, t)
      | p # _ \<Rightarrow>
          if now - pr_at p \<ge> predict_deadline t
          then
            (True,
             rollback_predictions_inner False
               (t\<lparr>t_shadow := fold push_shadow (t_predictions t) (t_shadow t),
                  t_predictions_expired := t_predictions_expired t + length (t_predictions t)\<rparr>))
          else (False, t))"

definition can_predict :: "terminal \<Rightarrow> bool" where
  "can_predict t \<longleftrightarrow> t_saved_main t = None \<and>
     (t_predict_misses t < PREDICT_GIVE_UP_AFTER \<or> t_predict_declined t \<ge> PREDICT_PROBE_EVERY)"

definition predict_byte :: "u8 \<Rightarrow> terminal \<Rightarrow> bool \<times> terminal" where
  "predict_byte byte t =
     (if \<not> can_predict t then (False, t\<lparr>t_predict_declined := sat_inc32 (t_predict_declined t)\<rparr>)
      else
        let t = t\<lparr>t_predict_declined := 0\<rparr>; col = cur_col t; row = cur_row t
        in if \<not> (0x20 \<le> byte \<and> byte \<le> 0x7E) then (False, t)
           else if col \<ge> t_cols t then (False, t)
           else
             let saved = grid_cell (t_grid t) col row;
                 t = on_grid (set_cell col row \<lparr>ch = unat byte, attrs = t_attrs t\<rparr>) t;
                 t = (if col + 1 < t_cols t then on_grid (set_cursor (col + 1) row) t else t)
             in if length (t_predictions t) \<ge> MAX_PREDICTIONS then (False, rollback_predictions t)
                else
                  (True,
                   t\<lparr>t_predictions := t_predictions t @
                      [\<lparr>pr_byte = byte, pr_saved_cell = saved, pr_saved_cursor = (col, row),
                        pr_at = t_now t\<rparr>]\<rparr>))"

text \<open>
  What \<open>feed\<close> does with a byte before the parser sees it: first the answers owed to expired
  predictions, then the prediction at the front of the queue.  True: the byte is consumed.
\<close>

definition settle_shadow :: "u8 \<Rightarrow> terminal \<Rightarrow> bool \<times> terminal" where
  "settle_shadow byte t =
     (case t_shadow t of
        [] \<Rightarrow> (False, t)
      | (b, at) # rest \<Rightarrow>
          if byte = b
          then (True, note_echo_rtt (t_now t - at) (t\<lparr>t_shadow := rest, t_predict_misses := 0\<rparr>))
          else (False, t\<lparr>t_predict_misses := sat_inc32 (t_predict_misses t), t_shadow := []\<rparr>))"

definition settle :: "u8 \<Rightarrow> terminal \<Rightarrow> bool \<times> terminal" where
  "settle byte t =
     (if t_predictions t = [] \<and> t_shadow t = [] then (False, t)
      else
        let (owed, t) = settle_shadow byte t
        in case t_predictions t of
             [] \<Rightarrow> (False, t)
           | p # ps \<Rightarrow>
               if \<not> owed \<and> byte = pr_byte p
               then (True, (note_echo_rtt (t_now t - pr_at p)
                       (t\<lparr>t_predictions := ps, t_predictions_hit := t_predictions_hit t + 1,
                          t_predict_misses := 0\<rparr>)))
               else if \<not> owed
               then (False, rollback_predictions (t\<lparr>t_predict_misses := sat_inc32 (t_predict_misses t)\<rparr>))
               else (False, t))"

section \<open>Feeding\<close>

text \<open>The lane that applies at this byte, if any: how many bytes it takes and what they do.\<close>

definition printable :: "u8 \<Rightarrow> bool" where "printable b \<longleftrightarrow> 0x20 \<le> b \<and> b \<le> 0x7E"

definition lane :: "ambiguous_wide \<Rightarrow> u8 list \<Rightarrow> terminal \<Rightarrow> (nat \<times> terminal option) option" where
  "lane wide bytes t =
     (if bytes \<noteq> [] \<and> in_ground_plain (t_parser t) \<and> t_predictions t = []
      then
        if printable (hd bytes)
        then
          let run = takeWhile printable bytes
          in if length run \<ge> 2 \<and> \<not> t_g0_graphics t \<and> \<not> t_insert_mode t
             then Some (length run, print_ascii_run wide run t)
             else Some (length run, Some (print_bytes wide run t))
        else if 0xE0 \<le> hd bytes \<and> hd bytes \<le> 0xEF
        then
          let n = wide_boring_run_len bytes
          in if n \<ge> 6 then Some (n, print_wide_run wide (take n bytes) t) else None
        else if 0xF0 \<le> hd bytes \<and> hd bytes \<le> 0xF4
        then
          let n = quad_run_len bytes
          in if n \<ge> 4 then Some (n, Some (fold (print wide) (decode4_run (take n bytes)) t)) else None
        else None
      else None)"

definition feed_byte :: "ambiguous_wide \<Rightarrow> u8 \<Rightarrow> terminal \<Rightarrow> terminal" where
  "feed_byte wide b t =
     (let (p, es) = advance (t_parser t) b;
          t = fold (handle wide) es (t\<lparr>t_parser := p\<rparr>)
      in if t_predictions t \<noteq> [] \<and> t_saved_main t \<noteq> None
         then t\<lparr>t_predictions := [], t_shadow := [],
                t_predictions_miss := t_predictions_miss t + length (t_predictions t)\<rparr>
         else t)"

lemma lane_pos: "lane wide bytes t = Some (n, r) \<Longrightarrow> 0 < n \<and> bytes \<noteq> []"
  by (cases bytes) (auto simp: lane_def Let_def split: if_splits)

function feed_loop :: "ambiguous_wide \<Rightarrow> u8 list \<Rightarrow> terminal \<Rightarrow> terminal option" where
  "feed_loop wide [] t = Some t"
| "feed_loop wide (b # bs) t =
     (case settle b t of
        (True, t) \<Rightarrow> feed_loop wide bs t
      | (False, t) \<Rightarrow>
          (case lane wide (b # bs) t of
             Some (n, r) \<Rightarrow> Option.bind r (feed_loop wide (drop n (b # bs)))
           | None \<Rightarrow> feed_loop wide bs (feed_byte wide b t)))"
  by pat_completeness auto
termination
  by (relation "measure (\<lambda>(wide, bs, t). length bs)") (auto dest: lane_pos)

declare feed_loop.simps [simp del]

definition feed :: "ambiguous_wide \<Rightarrow> bool \<Rightarrow> u8 list \<Rightarrow> terminal \<Rightarrow> terminal option" where
  "feed wide render_u_tags bytes t =
     (if bytes = [] then Some t
      else feed_loop wide bytes
        (t\<lparr>t_u_tags := t_render_markup t \<or> render_u_tags, t_generation := sat_inc64 (t_generation t)\<rparr>))"

section \<open>Resizing\<close>

definition resize_saved :: "ambiguous_wide \<Rightarrow> nat \<Rightarrow> nat \<Rightarrow> saved_main \<Rightarrow> saved_main" where
  "resize_saved wide cols rows s =
     s\<lparr>sm_grid := grid_resize wide cols rows (sm_grid s),
       sm_cursor := (min (fst (sm_cursor s)) (cols - 1), min (snd (sm_cursor s)) (rows - 1))\<rparr>"

definition term_resize :: "ambiguous_wide \<Rightarrow> nat \<Rightarrow> nat \<Rightarrow> terminal \<Rightarrow> terminal" where
  "term_resize wide cols rows t =
     (let t = on_grid (grid_resize wide cols rows) t;
          t = tabs_or_panic (tabs_resize cols (t_tabs t)) (t_tabs t) t
      in t\<lparr>t_scroll_top := 0, t_scroll_bot := rows - 1, t_pending_wrap := False,
           t_saved_main := map_option (resize_saved wide cols rows) (t_saved_main t)\<rparr>)"

end
