(* ===== verification/GridPool.thy ===== *)
theory GridPool
  imports GridEdit
begin

text \<open>
  The pool of grapheme clusters, \<open>crates/marspot-term/src/grid.rs\<close> (\<open>sweep_clusters\<close>,
  \<open>cluster_cell_reusing\<close>): a sweep drops exactly the texts no cell shows, and a cluster stored in
  a cell is the text that cell shows.
\<close>

section \<open>Ranks\<close>

definition rank :: "bool list \<Rightarrow> nat \<Rightarrow> nat" where
  "rank keep i = length (filter id (take i keep))"

lemma rank_le: "rank keep i \<le> i"
  using length_filter_le [of id "take i keep"] by (simp add: rank_def)

lemma rank_mono: "i \<le> j \<Longrightarrow> rank keep i \<le> rank keep j"
  by (metis append_take_drop_id filter_append le_add1 length_append min.absorb1 rank_def take_take)

lemma rank_Suc: "i < length keep \<Longrightarrow> rank keep (Suc i) = (if keep ! i then Suc (rank keep i) else rank keep i)"
  by (simp add: rank_def take_Suc_conv_app_nth)

lemma rank_inj:
  assumes "i < length keep" "j < length keep" "keep ! i" "keep ! j" "rank keep i = rank keep j"
  shows "i = j"
proof -
  have False if "i < j" "i < length keep" "keep ! i" "rank keep i = rank keep j" for i j
    using that rank_Suc [of i keep] rank_mono [of "Suc i" j keep] by simp
  then show ?thesis using assms by (metis linorder_neqE_nat)
qed

lemma filter_zip_rank:
  assumes "length keep = length xs" "i < length xs" "keep ! i"
  shows "rank keep i < length (map fst (filter snd (zip xs keep))) \<and>
    map fst (filter snd (zip xs keep)) ! rank keep i = xs ! i"
  using assms
proof (induction xs keep arbitrary: i rule: list_induct2')
  case (4 x xs k keep)
  show ?case
  proof (cases i)
    case 0
    then show ?thesis using 4 by (simp add: rank_def)
  next
    case (Suc j)
    then have "rank (k # keep) i = (if k then 1 else 0) + rank keep j" by (simp add: rank_def)
    moreover have "rank keep j < length (map fst (filter snd (zip xs keep)))"
      "map fst (filter snd (zip xs keep)) ! rank keep j = xs ! j"
      using "4.IH" [of j] "4.prems" Suc by simp_all
    ultimately show ?thesis using Suc by simp
  qed
qed simp_all

section \<open>The sweep\<close>

lemma sweep_keep_nth:
  "i < length (g_clusters g) \<Longrightarrow> sweep_keep g ! i \<longleftrightarrow> i \<in> set (cell_refs (g_cells g))"
  by (auto simp: sweep_keep_def list_ex_iff in_cell_refs)

lemma sweep_index_rank:
  "sweep_index keep i = (if i < length keep \<and> keep ! i then Some (rank keep i) else None)"
  by (simp add: sweep_index_def rank_def)

lemma cluster_index_char: "cluster_index c = Some k \<Longrightarrow> ch c = k + CLUSTER_INDEX_BASE \<and> is_cluster c"
  by (auto simp: cluster_index_def split: if_splits)

lemma sweep_cell_ref:
  assumes "cell_wf c" "cluster_index c = Some k" "k < length keep" "keep ! k"
  shows "sweep_cell keep c = c\<lparr>ch := rank keep k + CLUSTER_INDEX_BASE\<rparr> \<and>
    cluster_index (sweep_cell keep c) = Some (rank keep k) \<and> cell_wf (sweep_cell keep c)"
proof -
  have c: "ch c = k + CLUSTER_INDEX_BASE" "is_cluster c" using cluster_index_char [OF assms(2)] by simp_all
  then have "is_scalar (rank keep k + CLUSTER_INDEX_BASE)"
    using assms(1) rank_le [of keep k] by (auto simp: cell_wf_def is_scalar_def)
  then show ?thesis
    using assms c by (simp add: sweep_cell_def sweep_index_rank from_u32_def cluster_index_def
        is_cluster_def cell_wf_def)
qed

lemma sweep_cell_plain: "cluster_index c = None \<Longrightarrow> sweep_cell keep c = c"
  by (simp add: sweep_cell_def)

lemma sweep_refs:
  assumes "\<forall>c \<in> set cs. cell_wf c" "\<forall>k \<in> set (cell_refs cs). k < length keep \<and> keep ! k"
  shows "cell_refs (map (sweep_cell keep) cs) = map (rank keep) (cell_refs cs) \<and>
    (\<forall>c \<in> set (map (sweep_cell keep) cs). cell_wf c)"
  using assms
proof (induction cs)
  case (Cons c cs)
  then show ?case
    using sweep_cell_ref [of c _ keep, THEN conjunct2] sweep_cell_plain [of c keep]
    by (cases "cluster_index c") (simp_all add: in_cell_refs)
qed simp

lemma sweep_fields [simp]:
  "g_cols (sweep_clusters g) = g_cols g" "g_rows (sweep_clusters g) = g_rows g"
  "g_cursor_col (sweep_clusters g) = g_cursor_col g" "g_cursor_row (sweep_clusters g) = g_cursor_row g"
  "g_top_row (sweep_clusters g) = g_top_row g" "g_panic (sweep_clusters g) = g_panic g"
  "g_scrollback (sweep_clusters g) = g_scrollback g" "g_wrapped (sweep_clusters g) = g_wrapped g"
  "g_prompt (sweep_clusters g) = g_prompt g" "g_sb_wrapped (sweep_clusters g) = g_sb_wrapped g"
  "g_sb_clusters (sweep_clusters g) = g_sb_clusters g" "g_sb_prompt (sweep_clusters g) = g_sb_prompt g"
  by (simp_all add: sweep_clusters_def Let_def)

lemma sweep_facts:
  assumes "grid_ok g" "i < length (g_cells g)"
  shows "grid_ok (sweep_clusters g) \<and> length (g_cells (sweep_clusters g)) = length (g_cells g) \<and>
    cluster_text (sweep_clusters g) (g_cells (sweep_clusters g) ! i) = cluster_text g (g_cells g ! i) \<and>
    attrs (g_cells (sweep_clusters g) ! i) = attrs (g_cells g ! i) \<and>
    (cluster_index (g_cells g ! i) = None \<longrightarrow> g_cells (sweep_clusters g) ! i = g_cells g ! i) \<and>
    length (g_clusters (sweep_clusters g)) = length (cell_refs (g_cells g))"
proof (cases "g_clusters g = []")
  case True
  have "cell_refs (g_cells g) = []"
    using assms(1) True by (cases "cell_refs (g_cells g)") (auto simp: grid_ok_def pool_wf_def)
  then show ?thesis using True assms(1) by (simp add: sweep_clusters_def)
next
  case False
  let ?k = "sweep_keep g" and ?h = "sweep_clusters g"
  note wf = grid_okD [OF assms(1)]
  have cells: "\<forall>c \<in> set (g_cells g). cell_wf c" using wf(1) by (simp add: grid_wf_def)
  have len: "length ?k = length (g_clusters g)" by (simp add: sweep_keep_def)
  have refs: "\<forall>k \<in> set (cell_refs (g_cells g)). k < length ?k \<and> ?k ! k"
    using wf(2) len by (auto simp: pool_wf_def sweep_keep_nth)
  note s = sweep_refs [OF cells refs]
  have h: "g_cells ?h = map (sweep_cell ?k) (g_cells g)"
    "g_clusters ?h = map fst (filter snd (zip (g_clusters g) ?k))"
    using False by (simp_all add: sweep_clusters_def Let_def)
  have pool: "rank ?k k < length (g_clusters ?h) \<and> g_clusters ?h ! rank ?k k = g_clusters g ! k"
    if "k \<in> set (cell_refs (g_cells g))" for k
    using filter_zip_rank [OF len, of k] refs that len h(2) by auto
  have "distinct (cell_refs (g_cells ?h))"
    using s wf(2) refs rank_inj [of _ ?k] unfolding h(1)
    by (auto simp: distinct_map pool_wf_def inj_on_def)
  moreover have "set (g_clusters ?h) \<subseteq> set (g_clusters g)"
    unfolding h(2) by (auto dest: set_zip_leftD)
  moreover have "length (g_clusters ?h) = length (cell_refs (g_cells g))"
  proof -
    have "length (g_clusters ?h) = card {i. i < length (g_clusters g) \<and> ?k ! i}"
    proof -
      have "length (filter snd (zip xs ks)) = card {i. i < length xs \<and> ks ! i}"
        if "length ks = length xs" for xs :: "ustring list" and ks
        using that length_filter_conv_card [of snd "zip xs ks"] by (simp cong: conj_cong)
      then show ?thesis using len by (simp add: h(2))
    qed
    also have "{i. i < length (g_clusters g) \<and> ?k ! i} = set (cell_refs (g_cells g))"
      using refs len sweep_keep_nth [of _ g] by auto
    also have "card \<dots> = length (cell_refs (g_cells g))"
      using wf(2) by (simp add: pool_wf_def distinct_card)
    finally show ?thesis .
  qed
  ultimately have ok: "grid_ok ?h"
    using wf s pool cells unfolding grid_ok_def grid_wf_def pool_wf_def mirrors_wf_def
    by (auto simp: h(1))
  let ?c = "g_cells g ! i"
  have c: "cell_wf ?c" "?c \<in> set (g_cells g)" using assms(2) cells by auto
  have "cluster_text ?h (sweep_cell ?k ?c) = cluster_text g ?c \<and> attrs (sweep_cell ?k ?c) = attrs ?c \<and>
      (cluster_index ?c = None \<longrightarrow> sweep_cell ?k ?c = ?c)"
  proof (cases "cluster_index ?c")
    case None
    then show ?thesis by (simp add: sweep_cell_plain cluster_text_def)
  next
    case (Some k)
    then have k: "k \<in> set (cell_refs (g_cells g))" using c(2) by (auto simp: in_cell_refs)
    then have q: "sweep_cell ?k ?c = ?c\<lparr>ch := rank ?k k + CLUSTER_INDEX_BASE\<rparr>"
      "cluster_index (sweep_cell ?k ?c) = Some (rank ?k k)"
      using sweep_cell_ref [OF c(1) Some, of ?k] refs k by blast+
    have "cluster_text ?h (sweep_cell ?k ?c) = cluster_text g ?c"
      using q(2) pool [OF k] k wf(2) Some by (simp add: cluster_text_def pool_wf_def)
    then show ?thesis using q(1) Some by simp
  qed
  then show ?thesis using ok h(1) assms(2) \<open>length (g_clusters ?h) = _\<close> by simp
qed

text \<open>
  C30: a sweep of the pool loses nothing that is shown.  Every cell of the screen keeps its place,
  its attributes and its text (plain cells do not change at all), and what is left in the pool
  is exactly one entry per cluster on the screen.
\<close>
theorem sweep_keeps_texts:
  assumes "grid_ok g" "i < length (g_cells g)"
  shows "grid_ok (sweep_clusters g) \<and> length (g_cells (sweep_clusters g)) = length (g_cells g) \<and>
    cluster_text (sweep_clusters g) (g_cells (sweep_clusters g) ! i) = cluster_text g (g_cells g ! i) \<and>
    attrs (g_cells (sweep_clusters g) ! i) = attrs (g_cells g ! i) \<and>
    (cluster_index (g_cells g ! i) = None \<longrightarrow> g_cells (sweep_clusters g) ! i = g_cells g ! i) \<and>
    length (g_clusters (sweep_clusters g)) = length (cell_refs (g_cells g))"
  by (rule sweep_facts [OF assms])


lemma sweep_keeps_texts_witness:
  "cluster_text (sweep_clusters ((grid_with_scrollback 2 1 0)\<lparr>g_clusters := [[0x65, 0x301]]\<rparr>))
     (g_cells (sweep_clusters ((grid_with_scrollback 2 1 0)\<lparr>g_clusters := [[0x65, 0x301]]\<rparr>)) ! 1) = None"
  (is "cluster_text (sweep_clusters ?g) _ = _")
proof -
  have n: "grid_ok (grid_with_scrollback 2 1 0)" using grid_new_ok [of 2 1 0] by simp
  have cells: "g_cells ?g = [cell_default, cell_default]"
    by (simp add: grid_with_scrollback_def grid_with_scrollback_kind_def numeral_2_eq_2)
  have "cell_refs (g_cells ?g) = []"
    unfolding cells by (rule cell_refs_blank) simp
  then have "grid_ok ?g"
    using n unfolding grid_ok_def grid_wf_def pool_wf_def mirrors_wf_def
    by (simp add: ustring_wf_def is_scalar_def)
  moreover have "cluster_index cell_default = None" using blank_cell_default by (simp add: blank_cell_def)
  ultimately show ?thesis
    using sweep_keeps_texts [of ?g 1] cells by (simp add: cluster_text_def)
qed

section \<open>Storing a cluster in a cell\<close>

lemma set_cluster_flag_index:
  "is_scalar c \<Longrightarrow> CLUSTER_INDEX_BASE \<le> c \<Longrightarrow>
   cluster_index \<lparr>ch = c, attrs = set_cluster_flag a\<rparr> = Some (c - CLUSTER_INDEX_BASE)"
proof -
  have "(b OR FLAG_CLUSTER) AND FLAG_CLUSTER = FLAG_CLUSTER" for b :: u8
    by (simp add: bit.conj_disj_distrib2)
  moreover have "FLAG_CLUSTER \<noteq> 0" by (simp add: FLAG_CLUSTER_def)
  moreover assume "is_scalar c" "CLUSTER_INDEX_BASE \<le> c"
  ultimately show ?thesis by (simp add: cluster_index_def is_cluster_def set_cluster_flag_def)
qed

lemma pool_char_Some: "pool_char i = Some c \<Longrightarrow> c = i + CLUSTER_INDEX_BASE \<and> is_scalar c"
  by (auto simp: pool_char_def from_u32_def split: if_splits)

lemma cluster_cell_wf:
  "pen_wf a \<Longrightarrow> is_scalar c \<Longrightarrow> cell_wf \<lparr>ch = c, attrs = set_cluster_flag a\<rparr>"
  "pen_wf a \<Longrightarrow> is_scalar c \<Longrightarrow> blank_cell \<lparr>ch = c, attrs = a\<rparr>"
  by (simp_all add: cell_wf_def pen_wf_def set_cluster_flag_def blank_cell_def cluster_index_def is_cluster_def)

lemma refs_set:
  assumes "i < length cs" "distinct (cell_refs cs)"
  shows "set (cell_refs (cs[i := x])) \<subseteq> set_option (cluster_index x) \<union> (set (cell_refs cs) - set_option (cluster_index (cs ! i)))"
    "cluster_index x = None \<or> cluster_index x = cluster_index (cs ! i) \<or>
       set_option (cluster_index x) \<inter> set (cell_refs cs) = {} \<Longrightarrow> distinct (cell_refs (cs[i := x]))"
proof -
  have e: "cs = take i cs @ cs ! i # drop (Suc i) cs" using assms(1) by (simp add: id_take_nth_drop)
  have u: "cs[i := x] = take i cs @ x # drop (Suc i) cs" using assms(1) by (simp add: upd_conv_take_nth_drop)
  have d: "distinct (cell_refs (take i cs @ cs ! i # drop (Suc i) cs))" using e assms(2) by simp
  have r: "cell_refs cs = cell_refs (take i cs @ cs ! i # drop (Suc i) cs)" using e by simp
  show "set (cell_refs (cs[i := x])) \<subseteq> set_option (cluster_index x) \<union> (set (cell_refs cs) - set_option (cluster_index (cs ! i)))"
    unfolding u r using d by (auto split: option.splits)
  show "distinct (cell_refs (cs[i := x]))"
    if "cluster_index x = None \<or> cluster_index x = cluster_index (cs ! i) \<or>
       set_option (cluster_index x) \<inter> set (cell_refs cs) = {}"
    using that d unfolding u r by (auto split: option.splits)
qed

text \<open>Writing one cell over another, the pool possibly longer by the text of the new one.\<close>

lemma pool_wf_set_cell:
  assumes "grid_wf g" "pool_wf g" "row < g_rows g" "col < g_cols g"
    "\<forall>k < length (g_clusters g). k < length cl \<and>
       (Some k = cluster_index c \<or> g_clusters g ! k = cl ! k)"
    "\<forall>k. cluster_index c = Some k \<longrightarrow> k < length cl \<and> cl ! k \<noteq> [] \<and>
       (cluster_index (grid_cell g col row) = Some k \<or> length (g_clusters g) \<le> k)"
  shows "pool_wf ((set_cell col row c g)\<lparr>g_clusters := cl\<rparr>)"
proof -
  let ?i = "phys_row g row * g_cols g + col"
  have i: "?i < length (g_cells g)" by (rule cell_index [OF assms(1,3,4)])
  have d: "distinct (cell_refs (g_cells g))"
    "\<forall>k \<in> set (cell_refs (g_cells g)). k < length (g_clusters g) \<and> g_clusters g ! k \<noteq> []"
    using assms(2) by (simp_all add: pool_wf_def)
  have new: "set_option (cluster_index c) \<inter> set (cell_refs (g_cells g)) = {}"
    if ne: "cluster_index c \<noteq> cluster_index (g_cells g ! ?i)" "cluster_index c \<noteq> None"
  proof -
    obtain k where k: "cluster_index c = Some k" using ne(2) by blast
    then have "length (g_clusters g) \<le> k" using assms(6) ne(1) by (auto simp: grid_cell_def)
    then show ?thesis using k d(2) by fastforce
  qed
  note s = refs_set [OF i d(1), of c]
  have "distinct (cell_refs ((g_cells g)[?i := c]))" using s(2) new by blast
  moreover have "k < length cl \<and> cl ! k \<noteq> []" if "k \<in> set (cell_refs ((g_cells g)[?i := c]))" for k
  proof (cases "cluster_index c = Some k")
    case False
    then have "k \<in> set (cell_refs (g_cells g))" using that s(1) by (cases "cluster_index c") auto
    then show ?thesis using d(2) assms(5) False by metis
  qed (use assms(6) in blast)
  ultimately show ?thesis by (simp add: pool_wf_def set_cell_def Let_def check_def)
qed

text \<open>A grid operation that keeps everything sound and the size of the screen.\<close>

definition keeps :: "grid \<Rightarrow> grid \<Rightarrow> bool" where
  "keeps g h \<longleftrightarrow> grid_ok h \<and> g_cols h = g_cols g \<and> g_rows h = g_rows g"

lemma set_cell_keeps [wf_intros]:
  assumes "grid_ok g" "row < g_rows g" "col < g_cols g" "blank_cell c"
  shows "keeps g (set_cell col row c g)"
proof -
  note wf = grid_okD [OF assms(1)]
  have e: "(set_cell col row c g)\<lparr>g_clusters := g_clusters g\<rparr> = set_cell col row c g"
    by (simp add: set_cell_def Let_def check_def)
  have "pool_wf ((set_cell col row c g)\<lparr>g_clusters := g_clusters g\<rparr>)"
    using assms(4) by (intro pool_wf_set_cell [OF wf(1,2) assms(2,3)]) (auto simp: blank_cell_def)
  then have "pool_wf (set_cell col row c g)" unfolding e .
  moreover have "mirrors_wf (set_cell col row c g)"
    using wf(3) by (simp add: mirrors_wf_def set_cell_def Let_def)
  ultimately show ?thesis
    using wf set_cell_wf [OF wf(1) blank_cell_wf [OF assms(4)]] set_cell_no_panic [OF wf(1) assms(2,3)]
    by (simp add: keeps_def grid_ok_def)
qed

lemma store_facts:
  assumes "grid_ok g" "row < g_rows g" "col < g_cols g" "text \<noteq> []" "ustring_wf text" "pen_wf a"
    "(c, h) = cluster_cell_reusing (cluster_index (grid_cell g col row)) text a g"
    "k = set_cell col row c h" "row' < g_rows g" "col' < g_cols g"
  shows "grid_ok k \<and> g_cols k = g_cols g \<and> g_rows k = g_rows g \<and>
    (if (col', row') = (col, row)
     then cluster_text k (grid_cell k col row) = Some text \<or>
       pool_char (length (g_clusters g)) = None \<and> grid_cell k col row = \<lparr>ch = hd text, attrs = a\<rparr>
     else grid_cell k col' row' = grid_cell g col' row' \<and>
       cluster_text k (grid_cell k col' row') = cluster_text g (grid_cell g col' row'))"
proof -
  let ?i = "phys_row g row * g_cols g + col" and ?n = "length (g_clusters g)"
  note wf = grid_okD [OF assms(1)]
  have i: "?i < length (g_cells g)" by (rule cell_index [OF wf(1) assms(2,3)])
  have old: "cluster_index (grid_cell g col row) = Some m \<Longrightarrow>
      m < ?n \<and> pool_char m = Some (m + CLUSTER_INDEX_BASE) \<and> is_scalar (m + CLUSTER_INDEX_BASE)" for m
  proof -
    assume m: "cluster_index (grid_cell g col row) = Some m"
    have "cell_wf (grid_cell g col row)" using wf(1) i by (simp add: grid_cell_def grid_wf_def)
    then have s: "is_scalar (m + CLUSTER_INDEX_BASE)"
      using cluster_index_char [OF m] by (simp add: cell_wf_def)
    moreover have "m \<in> set (cell_refs (g_cells g))"
      using m i by (auto simp: in_cell_refs grid_cell_def intro!: bexI [of _ "g_cells g ! ?i"])
    ultimately show ?thesis
      using wf(2) is_scalar_u32 [OF s] by (simp add: pool_wf_def pool_char_def from_u32_def)
  qed
  obtain cl where cl: "h = g\<lparr>g_clusters := cl\<rparr>" "cell_wf c" "\<forall>t \<in> set cl. ustring_wf t"
    and keep: "\<forall>m < ?n. m < length cl \<and> (Some m = cluster_index c \<or> g_clusters g ! m = cl ! m)"
    and new: "\<forall>m. cluster_index c = Some m \<longrightarrow> m < length cl \<and> cl ! m = text \<and>
        (cluster_index (grid_cell g col row) = Some m \<or> ?n \<le> m)"
    and plain: "cluster_index c = None \<Longrightarrow> pool_char ?n = None \<and> c = \<lparr>ch = hd text, attrs = a\<rparr>"
  proof -
    have texts: "\<forall>t \<in> set (g_clusters g). ustring_wf t" using wf(1) by (simp add: grid_wf_def)
    consider (reuse) m where "cluster_index (grid_cell g col row) = Some m" "m + 1 = ?n"
        "c = \<lparr>ch = m + CLUSTER_INDEX_BASE, attrs = set_cluster_flag a\<rparr>" "h = g\<lparr>g_clusters := (g_clusters g)[m := text]\<rparr>"
        "is_scalar (m + CLUSTER_INDEX_BASE)"
      | (push) "c = \<lparr>ch = ?n + CLUSTER_INDEX_BASE, attrs = set_cluster_flag a\<rparr>" "h = g\<lparr>g_clusters := g_clusters g @ [text]\<rparr>"
        "is_scalar (?n + CLUSTER_INDEX_BASE)"
      | (full) "c = \<lparr>ch = hd text, attrs = a\<rparr>" "h = g" "pool_char ?n = None"
      using assms(4,7) old pool_char_Some [of ?n]
      by (cases "text") (auto simp: cluster_cell_reusing_def first_codepoint_def split: option.splits if_splits)
    then show thesis
    proof cases
      case reuse
      have "cluster_index c = Some m" using set_cluster_flag_index [OF reuse(5), of a] reuse(3) by simp
      then show ?thesis
        using reuse texts assms(5) cluster_cell_wf(1) [OF assms(6) reuse(5)]
        by (intro that [of "(g_clusters g)[m := text]"]) (auto simp: nth_list_update dest: in_set_list_update)
    next
      case push
      have "cluster_index c = Some ?n" using set_cluster_flag_index [OF push(3), of a] push(1) by simp
      then show ?thesis
        using push texts assms(5) cluster_cell_wf(1) [OF assms(6) push(3)]
        by (intro that [of "g_clusters g @ [text]"]) (auto simp: nth_append)
    next
      case full
      have "is_scalar (hd text)" using assms(4,5) by (simp add: ustring_wf_def)
      then have "blank_cell c" using cluster_cell_wf(2) [OF assms(6)] full(1) by simp
      then show ?thesis
        using full texts by (intro that [of "g_clusters g"]) (auto simp: blank_cell_def)
    qed
  qed
  have k: "k = (set_cell col row c g)\<lparr>g_clusters := cl\<rparr>"
    using assms(8) cl(1) by (simp add: set_cell_def Let_def check_def phys_row_def)
  have geo: "g_cols k = g_cols g" "g_rows k = g_rows g" "g_clusters k = cl"
    "phys_row k r = phys_row g r" for r by (simp_all add: k phys_row_def Let_def)
  have pool: "pool_wf k"
    unfolding k by (rule pool_wf_set_cell [OF wf(1,2) assms(2,3) keep]) (use new assms(4) in auto)
  have wfk: "grid_wf k"
    using set_cell_wf [OF wf(1) cl(2), of col row] cl(3) by (simp add: k grid_wf_def)
  have "mirrors_wf k" using wf(3) by (simp add: k mirrors_wf_def set_cell_def Let_def)
  then have ok: "grid_ok k"
    using pool wfk set_cell_no_panic [OF wf(1) assms(2,3)] wf(4) by (simp add: grid_ok_def k)
  have cell: "grid_cell k col' row' = (if (col', row') = (col, row) then c else grid_cell g col' row')"
  proof -
    have "grid_row k r = grid_row (set_cell col row c g) r" for r by (simp add: k grid_row_def phys_row_def Let_def)
    then have "grid_row k row' = (if row' = row then (grid_row g row)[col := c] else grid_row g row')"
      using set_cells_row [OF wf(1) assms(2) _ assms(9), of col "[c]"] assms(3)
      by (simp add: set_cell_set_cells [OF assms(3,2) wf(1)] blit_one length_grid_row [OF wf(1) assms(2)])
    then show ?thesis
      using grid_cell_row [OF wfk, of row' col'] grid_cell_row [OF wf(1) assms(9,10)] assms(9,10) geo
        length_grid_row [OF wf(1) assms(2)] assms(3) by auto
  qed
  have "cluster_text k (grid_cell k col' row') = cluster_text g (grid_cell g col' row')"
    if ne: "(col', row') \<noteq> (col, row)"
  proof (cases "cluster_index (grid_cell g col' row')")
    case None
    moreover have "grid_cell k col' row' = grid_cell g col' row'" using cell ne by auto
    ultimately show ?thesis by (simp add: cluster_text_def)
  next
    case (Some m)
    moreover have "grid_cell k col' row' = grid_cell g col' row'" using cell ne by auto
    moreover
    let ?j = "phys_row g row' * g_cols g + col'"
    have j: "?j < length (g_cells g)" by (rule cell_index [OF wf(1) assms(9,10)])
    have m: "m < ?n"
      using wf(2) Some j by (auto simp: pool_wf_def in_cell_refs grid_cell_def)
    have "?i \<noteq> ?j"
      using ne rows_disjoint [of "phys_row g row" "phys_row g row'" "g_cols g"] assms(3,10)
        phys_row_inj [OF wf(1) assms(2,9)] by auto
    then have "cluster_index (grid_cell g col row) \<noteq> Some m"
      using cell_refs_distinct_nth [of "g_cells g" ?i ?j m] wf(2) i j Some by (auto simp: pool_wf_def grid_cell_def)
    then have "cluster_index c \<noteq> Some m" using new m by auto
    then have "m < length cl" "g_clusters g ! m = cl ! m" using keep m by auto
    ultimately show ?thesis using m geo(3) by (simp add: cluster_text_def)
  qed
  moreover have "cluster_text k c = Some text \<or> pool_char ?n = None \<and> c = \<lparr>ch = hd text, attrs = a\<rparr>"
    using new plain geo(3) by (cases "cluster_index c") (auto simp: cluster_text_def)
  ultimately show ?thesis using ok geo cell by auto
qed

text \<open>
  A cluster put in a cell is what the cell shows.  Whether its entry is rewritten in place or
  a new one is pushed, afterwards the cell's text is the cluster (or, with the pool's code points
  used up, the cell is the cluster's first character), every other cell still shows its own text,
  and no two cells share an entry.
\<close>
theorem store_cluster_text:
  assumes "grid_ok g" "row < g_rows g" "col < g_cols g" "text \<noteq> []" "ustring_wf text" "pen_wf a"
    "(c, h) = cluster_cell_reusing (cluster_index (grid_cell g col row)) text a g"
    "k = set_cell col row c h" "row' < g_rows g" "col' < g_cols g"
  shows "grid_ok k \<and> g_cols k = g_cols g \<and> g_rows k = g_rows g \<and>
    (if (col', row') = (col, row)
     then cluster_text k (grid_cell k col row) = Some text \<or>
       pool_char (length (g_clusters g)) = None \<and> grid_cell k col row = \<lparr>ch = hd text, attrs = a\<rparr>
     else grid_cell k col' row' = grid_cell g col' row' \<and>
       cluster_text k (grid_cell k col' row') = cluster_text g (grid_cell g col' row'))"
  by (rule store_facts [OF assms])


lemma store_cluster_text_witness:
  "let (c, h) = cluster_cell_reusing None [0x65, 0x301] attrs_default (grid_with_scrollback 2 1 0)
   in cluster_text (set_cell 0 0 c h) (grid_cell (set_cell 0 0 c h) 0 0) = Some [0x65, 0x301]"
proof -
  let ?g = "grid_with_scrollback 2 1 0"
  have n: "grid_ok ?g" "g_cols ?g = 2" "g_rows ?g = 1" "g_clusters ?g = []" "grid_cell ?g 0 0 = cell_default"
    using grid_new_ok [of 2 1 0]
    by (simp_all add: grid_with_scrollback_def grid_with_scrollback_kind_def grid_cell_def phys_row_def)
  have none: "cluster_index (grid_cell ?g 0 0) = None"
    unfolding n(5) using blank_cell_default by (simp add: blank_cell_def)
  obtain c h where e: "(c, h) = cluster_cell_reusing None [0x65, 0x301] attrs_default ?g" by (metis surj_pair)
  have "pool_char 0 \<noteq> None" by (simp add: pool_char_def from_u32_def is_scalar_def)
  moreover have "(c, h) = cluster_cell_reusing (cluster_index (grid_cell ?g 0 0)) [0x65, 0x301] attrs_default ?g"
    using e none by simp
  ultimately have "cluster_text (set_cell 0 0 c h) (grid_cell (set_cell 0 0 c h) 0 0) = Some [0x65, 0x301]"
    using store_cluster_text [OF n(1) _ _ _ _ _ _ refl, of 0 0 "[0x65, 0x301]" attrs_default c h 0 0] n(2-4)
    by (auto simp: ustring_wf_def is_scalar_def)
  then show ?thesis unfolding e [symmetric] by simp
qed

end
