(* ===== verification/TermGrid.thy ===== *)
theory TermGrid
  imports TermFeed GridPool
begin

text \<open>
  Every change the terminal makes to its grid keeps the grid sound and its size: the facts
  \<open>keeps g h\<close> for the grid operations of the earlier theories, in the forms the handler uses.
\<close>

section \<open>Grid operations\<close>

lemma keeps_refl [wf_intros]: "grid_ok g \<Longrightarrow> keeps g g"
  by (simp add: keeps_def)

lemma keeps_trans: "keeps g h \<Longrightarrow> keeps h k \<Longrightarrow> keeps g k"
  by (simp add: keeps_def)

lemma keepsD: "keeps g h \<Longrightarrow> grid_ok h" "keeps g h \<Longrightarrow> g_cols h = g_cols g" "keeps g h \<Longrightarrow> g_rows h = g_rows g"
  by (simp_all add: keeps_def)

lemma grid_ok_pos: "grid_ok g \<Longrightarrow> 0 < g_cols g \<and> 0 < g_rows g \<and> g_cursor_col g < g_cols g \<and>
    g_cursor_row g < g_rows g \<and> g_cols g \<le> u16_max \<and> g_rows g \<le> u16_max"
  by (simp add: grid_ok_def grid_wf_def)

lemma set_cursor_keeps [wf_intros]: "grid_ok g \<Longrightarrow> keeps g (set_cursor c r g)"
  using set_cursor_wf [of g c r]
  by (simp add: keeps_def grid_ok_def pool_wf_def mirrors_wf_def) (simp add: set_cursor_def)

lemma set_row_flag_keeps [wf_intros]:
  "grid_ok g \<Longrightarrow> keeps g (set_row_wrapped r w g)" "grid_ok g \<Longrightarrow> keeps g (set_row_prompt r m g)"
  "grid_ok g \<Longrightarrow> keeps g (clear_all_wrapped g)"
  using set_row_flags_wf [of g]
  by (simp_all add: keeps_def grid_ok_def pool_wf_def mirrors_wf_def)
    (simp_all add: set_row_wrapped_def set_row_prompt_def clear_all_wrapped_def)

lemma clear_scrollback_keeps [wf_intros]: "grid_ok g \<Longrightarrow> keeps g (clear_scrollback g)"
  by (auto simp: keeps_def grid_ok_def grid_wf_def pool_wf_def mirrors_wf_def clear_scrollback_def
      ms_clear_def ms_wf_def)

lemma scroll_up_keeps [wf_intros]: "grid_ok g \<Longrightarrow> blank_cell c \<Longrightarrow> keeps g (scroll_up n c g)"
  using scroll_up_full [of g c _ n, OF _ _ refl] by (simp add: keeps_def)

lemma scroll_up_region_keeps [wf_intros]:
  assumes "grid_ok g" "blank_cell c"
  shows "keeps g (scroll_up_region tp bt n c g)"
proof (cases "tp \<le> bt \<and> bt < g_rows g")
  case True
  then show ?thesis using scroll_up_region_full [OF assms, of tp bt _ n, OF _ _ refl refl] by (simp add: keeps_def)
qed (use assms in \<open>auto simp: scroll_up_region_def keeps_def\<close>)

lemma scroll_down_region_keeps [wf_intros]:
  assumes "grid_ok g" "blank_cell c"
  shows "keeps g (scroll_down_region tp bt n c g)"
proof (cases "tp \<le> bt \<and> bt < g_rows g \<and> 0 < n")
  case True
  then show ?thesis using scroll_down_region_full [OF assms, of tp bt n, OF _ _ _ refl refl] by (simp add: keeps_def)
qed (use assms in \<open>auto simp: scroll_down_region_def keeps_def\<close>)

lemma row_edit_keeps:
  assumes "grid_ok g" "row_edit r xs g h" "r < g_rows g" "mset (cell_refs xs) \<subseteq># mset (cell_refs (grid_row g r))"
  shows "keeps g h"
  using row_edit_ok [OF assms] row_edit_fields [OF assms(2)] by (simp add: keeps_def)

lemma set_cells_keeps [wf_intros]:
  assumes "grid_ok g" "r < g_rows g" "c + length run \<le> g_cols g" "\<forall>x \<in> set run. blank_cell x"
  shows "keeps g (set_cells c r run g)"
proof (rule row_edit_keeps [OF assms(1) _ assms(2)])
  show "row_edit r (blit (grid_row g r) c run) g (set_cells c r run g)"
    using assms by (intro row_edit_set_cells) (auto simp: grid_ok_def blank_cell_def)
  have "grid_row g r = take c (grid_row g r) @ slice (grid_row g r) c (length run) @ drop (c + length run) (grid_row g r)"
    using split_at_row [of c "length run" "grid_row g r"] assms(1-3) length_grid_row [of g r]
    by (simp add: grid_ok_def)
  then have "mset (cell_refs (grid_row g r)) = mset (cell_refs (take c (grid_row g r))) +
      mset (cell_refs (slice (grid_row g r) c (length run))) + mset (cell_refs (drop (c + length run) (grid_row g r)))"
    by (metis cell_refs_simps(3) mset_append add.assoc)
  then show "mset (cell_refs (blit (grid_row g r) c run)) \<subseteq># mset (cell_refs (grid_row g r))"
    using cell_refs_blank [OF assms(4)] by (simp add: blit_def)
qed

lemma char_edits_keep [wf_intros]:
  assumes "grid_ok g" "row < g_rows g" "col < g_cols g" "pen_wf a"
  shows "keeps g (insert_chars col row arg a g)" "keeps g (delete_chars col row arg a g)"
    "keeps g (erase_chars col row arg a g)" "keeps g (shift_line_right col row n a g)"
proof -
  note wf = grid_okD(1) [OF assms(1)]
  note ok = char_edits_ok [OF assms]
  show "keeps g (insert_chars col row arg a g)" "keeps g (delete_chars col row arg a g)"
    "keeps g (erase_chars col row arg a g)"
    using ok row_edit_fields [OF insert_chars_edit [OF wf assms(2-4)], of arg]
      row_edit_fields [OF delete_chars_edit [OF wf assms(2-4)], of arg]
      row_edit_fields [OF erase_chars_edit [OF wf assms(2-4)], of arg] by (simp_all add: keeps_def)
  show "keeps g (shift_line_right col row n a g)"
    using ok shift_line_right_edit [OF wf assms(2-4), of n] row_edit_fields by (auto simp: keeps_def)
qed

lemma fill_range_keeps [wf_intros]:
  assumes "grid_ok g" "pen_wf a" "e \<le> g_cols g * g_rows g"
  shows "keeps g (fill_range mode s e a g)"
  using fill_range_facts [OF assms refl] same_but_cells_fields by (auto simp: keeps_def)

lemma cell_index_in_screen:
  assumes "grid_ok g" "row < g_rows g" "col < g_cols g"
  shows "row * g_cols g + col < g_cols g * g_rows g" "row * g_cols g + g_cols g \<le> g_cols g * g_rows g"
  using assms mult_le_mono1 [of "Suc row" "g_rows g" "g_cols g"] by (simp_all add: mult.commute)

lemma erase_keeps [wf_intros]:
  assumes "grid_ok g" "pen_wf a" "row < g_rows g" "col < g_cols g"
  shows "keeps g (erase_in_display wide col row (g_cols g) (g_rows g) mode a g)"
    "keeps g (erase_in_line wide col row (g_cols g) mode a g)"
  using cell_index_in_screen [OF assms(1,3,4)] assms
  by (auto simp: erase_in_display_def erase_in_line_def Let_def intro!: fill_range_keeps keeps_refl)

lemma blank_E: "pen_wf a \<Longrightarrow> is_scalar c \<Longrightarrow> blank_cell \<lparr>ch = c, attrs = a\<rparr>"
  by (rule cluster_cell_wf(2))

lemma fill_screen_e_keeps [wf_intros]:
  assumes "grid_ok g" "pen_wf a"
  shows "keeps g (fill_screen_e a g)"
proof -
  have e: "blank_cell \<lparr>ch = 0x45, attrs = a\<rparr>" using assms(2) by (intro blank_E) (simp_all add: is_scalar_def)
  have row: "keeps h (fold (\<lambda>col. set_cell col row \<lparr>ch = 0x45, attrs = a\<rparr>) cs h)"
    if "grid_ok h" "row < g_rows h" "\<forall>c \<in> set cs. c < g_cols h" for h row cs
    using that
  proof (induction cs arbitrary: h)
    case (Cons c cs)
    have k: "keeps h (set_cell c row \<lparr>ch = 0x45, attrs = a\<rparr> h)" using Cons.prems e by (intro set_cell_keeps) auto
    then show ?case using Cons.IH [of "set_cell c row \<lparr>ch = 0x45, attrs = a\<rparr> h"] Cons.prems
      by (auto intro: keeps_trans simp: keepsD)
  qed (simp add: keeps_refl)
  have "keeps h (fold (\<lambda>row g. fold (\<lambda>col. set_cell col row \<lparr>ch = 0x45, attrs = a\<rparr>) [0..<g_cols g] g) rs h)"
    if "grid_ok h" "\<forall>r \<in> set rs. r < g_rows h" for h rs
    using that
  proof (induction rs arbitrary: h)
    case (Cons r rs)
    have "keeps h (fold (\<lambda>col. set_cell col r \<lparr>ch = 0x45, attrs = a\<rparr>) [0..<g_cols h] h)"
      using Cons.prems by (intro row) auto
    then show ?case using Cons by (auto intro: keeps_trans simp: keepsD)
  qed (simp add: keeps_refl)
  then show ?thesis using assms(1) by (simp add: fill_screen_e_def)
qed

lemma sweep_keeps [wf_intros]: "grid_ok g \<Longrightarrow> keeps g (sweep_clusters g)"
proof -
  assume g: "grid_ok g"
  then have "0 < length (g_cells g)" by (auto simp: grid_ok_def grid_wf_def)
  then show ?thesis using sweep_facts [OF g, of 0] by (simp add: keeps_def)
qed

end
