(* ===== verification/TermInv.thy ===== *)
theory TermInv
  imports TermGrid
begin

text \<open>
  The invariant of the terminal: a sound grid of at least two columns, margins inside it, a pen
  that can be put in a cell, a cluster anchored inside the screen, and a saved main screen of the
  same size; and no prediction on the screen.  Every callback of the parser keeps it; a screen with it
  never panics.
\<close>

section \<open>The invariant\<close>

definition saved_ok :: "saved_cursor \<Rightarrow> bool" where
  "saved_ok s \<longleftrightarrow> pen_wf (sc_attrs s)"

definition anchor_ok :: "grid \<Rightarrow> nat \<times> nat \<times> nat \<Rightarrow> bool" where
  "anchor_ok g a \<longleftrightarrow> (case a of (col, row, w) \<Rightarrow> col < g_cols g \<and> row < g_rows g)"

definition main_ok :: "grid \<Rightarrow> saved_main \<Rightarrow> bool" where
  "main_ok g s \<longleftrightarrow> keeps g (sm_grid s) \<and> kitty_wf (sm_kitty s)"

definition cluster_ok :: "ustring \<Rightarrow> (uchar \<times> nat) option \<Rightarrow> bool" where
  "cluster_ok buf fast \<longleftrightarrow>
     ustring_wf buf \<and> (case fast of None \<Rightarrow> True | Some (c, w) \<Rightarrow> buf = [c] \<and> fast_width c = Some w)"

definition screen_ok :: "terminal \<Rightarrow> bool" where
  "screen_ok t \<longleftrightarrow>
     grid_ok (t_grid t) \<and> 2 \<le> t_cols t \<and> t_cols t \<le> TABS_MAX \<and>
     t_scroll_top t \<le> t_scroll_bot t \<and> t_scroll_bot t < t_rows t \<and> pen_wf (t_attrs t) \<and>
     pred_option (main_ok (t_grid t)) (t_saved_main t) \<and>
     pred_option (anchor_ok (t_grid t)) (t_cluster_anchor t) \<and> ts_cols (t_tabs t) = t_cols t"

definition side_ok :: "terminal \<Rightarrow> bool" where
  "side_ok t \<longleftrightarrow>
     pred_option saved_ok (t_saved_cursor t) \<and> pred_option saved_ok (t_parked_cursor t) \<and>
     kitty_wf (t_kitty t) \<and> tabs_wf (t_tabs t) \<and> ustring_wf (t_u_buf t) \<and>
     cluster_ok (t_cluster_buf t) (t_cluster_fast t) \<and> t_cursor_shape t \<le> 6 \<and>
     t_predictions t = [] \<and> parser_wf (t_parser t)"

definition term_wf :: "terminal \<Rightarrow> bool" where
  "term_wf t \<longleftrightarrow> screen_ok t \<and> side_ok t"

lemma term_wfD:
  assumes "term_wf t"
  shows "grid_ok (t_grid t)" "2 \<le> t_cols t" "t_scroll_top t \<le> t_scroll_bot t" "t_scroll_bot t < t_rows t"
    "pen_wf (t_attrs t)" "cur_col t < t_cols t" "cur_row t < t_rows t" "0 < t_cols t" "0 < t_rows t"
    "t_cols t \<le> u16_max" "t_rows t \<le> u16_max" "t_cols t \<le> TABS_MAX"
  using assms grid_ok_pos [of "t_grid t"] by (simp_all add: term_wf_def screen_ok_def)

lemma anchor_ok_keeps: "keeps g h \<Longrightarrow> anchor_ok h = anchor_ok g"
  by (auto simp: anchor_ok_def keeps_def fun_eq_iff)

lemma main_ok_keeps: "keeps g h \<Longrightarrow> main_ok h = main_ok g"
  by (auto simp: main_ok_def keeps_def fun_eq_iff)

lemma term_wf_grid:
  "term_wf t \<Longrightarrow> keeps (t_grid t) g \<Longrightarrow> term_wf (t\<lparr>t_grid := g\<rparr>)"
  using anchor_ok_keeps [of "t_grid t" g] main_ok_keeps [of "t_grid t" g] keepsD [of "t_grid t" g]
  by (simp add: term_wf_def screen_ok_def side_ok_def)

text \<open>Fields the invariant says nothing of.\<close>

lemma term_wf_free [simp]:
  "term_wf (t\<lparr>t_response := a2\<rparr>) = term_wf t"
  "term_wf (t\<lparr>t_response_window := a3\<rparr>) = term_wf t"
  "term_wf (t\<lparr>t_burst_since := a4\<rparr>) = term_wf t"
  "term_wf (t\<lparr>t_burst_last_warn := a4\<rparr>) = term_wf t"
  "term_wf (t\<lparr>t_cursor_key_app := b\<rparr>) = term_wf t"
  "term_wf (t\<lparr>t_bracketed_paste := b\<rparr>) = term_wf t"
  "term_wf (t\<lparr>t_u_tags := b\<rparr>) = term_wf t"
  "term_wf (t\<lparr>t_render_markup := b\<rparr>) = term_wf t"
  "term_wf (t\<lparr>t_u_open := b\<rparr>) = term_wf t"
  "term_wf (t\<lparr>t_alt_scroll := b\<rparr>) = term_wf t"
  "term_wf (t\<lparr>t_sync_output := b\<rparr>) = term_wf t"
  "term_wf (t\<lparr>t_uses_sync_output := b\<rparr>) = term_wf t"
  "term_wf (t\<lparr>t_focus_reporting := b\<rparr>) = term_wf t"
  "term_wf (t\<lparr>t_focus_reported := ob\<rparr>) = term_wf t"
  "term_wf (t\<lparr>t_osc_title := s\<rparr>) = term_wf t"
  "term_wf (t\<lparr>t_cursor_visible := b\<rparr>) = term_wf t"
  "term_wf (t\<lparr>t_mouse_mode := m\<rparr>) = term_wf t"
  "term_wf (t\<lparr>t_mouse_sgr := b\<rparr>) = term_wf t"
  "term_wf (t\<lparr>t_pending_wrap := b\<rparr>) = term_wf t"
  "term_wf (t\<lparr>t_osc_clipboard := os\<rparr>) = term_wf t"
  "term_wf (t\<lparr>t_g0_graphics := b\<rparr>) = term_wf t"
  "term_wf (t\<lparr>t_origin_mode := b\<rparr>) = term_wf t"
  "term_wf (t\<lparr>t_insert_mode := b\<rparr>) = term_wf t"
  "term_wf (t\<lparr>t_predict_misses := n\<rparr>) = term_wf t"
  "term_wf (t\<lparr>t_predict_declined := n\<rparr>) = term_wf t"
  "term_wf (t\<lparr>t_shadow := sh\<rparr>) = term_wf t"
  "term_wf (t\<lparr>t_echo_srtt := n\<rparr>) = term_wf t"
  "term_wf (t\<lparr>t_segmenter := gc\<rparr>) = term_wf t"
  "term_wf (t\<lparr>t_seg_synced := b\<rparr>) = term_wf t"
  "term_wf (t\<lparr>t_predictions_hit := n\<rparr>) = term_wf t"
  "term_wf (t\<lparr>t_predictions_miss := n\<rparr>) = term_wf t"
  "term_wf (t\<lparr>t_predictions_expired := n\<rparr>) = term_wf t"
  "term_wf (t\<lparr>t_generation := n\<rparr>) = term_wf t"
  "term_wf (t\<lparr>t_now := n\<rparr>) = term_wf t"
  by (simp_all add: term_wf_def screen_ok_def side_ok_def)

text \<open>Fields it constrains alone.\<close>

lemma term_wf_fields [wf_intros]:
  "term_wf t \<Longrightarrow> pen_wf a \<Longrightarrow> term_wf (t\<lparr>t_attrs := a\<rparr>)"
  "term_wf t \<Longrightarrow> pred_option saved_ok sc \<Longrightarrow> term_wf (t\<lparr>t_saved_cursor := sc\<rparr>)"
  "term_wf t \<Longrightarrow> pred_option saved_ok sc \<Longrightarrow> term_wf (t\<lparr>t_parked_cursor := sc\<rparr>)"
  "term_wf t \<Longrightarrow> kitty_wf k \<Longrightarrow> term_wf (t\<lparr>t_kitty := k\<rparr>)"
  "term_wf t \<Longrightarrow> tabs_wf tb \<Longrightarrow> ts_cols tb = t_cols t \<Longrightarrow> term_wf (t\<lparr>t_tabs := tb\<rparr>)"
  "term_wf t \<Longrightarrow> ustring_wf u \<Longrightarrow> term_wf (t\<lparr>t_u_buf := u\<rparr>)"
  "term_wf t \<Longrightarrow> n \<le> 6 \<Longrightarrow> term_wf (t\<lparr>t_cursor_shape := n\<rparr>)"
  "term_wf t \<Longrightarrow> tp \<le> bt \<Longrightarrow> bt < t_rows t \<Longrightarrow> term_wf (t\<lparr>t_scroll_top := tp, t_scroll_bot := bt\<rparr>)"
  "term_wf t \<Longrightarrow> cluster_ok buf fast \<Longrightarrow> pred_option (anchor_ok (t_grid t)) anchor \<Longrightarrow>
     term_wf (t\<lparr>t_cluster_buf := buf, t_cluster_fast := fast, t_cluster_anchor := anchor\<rparr>)"
  "term_wf t \<Longrightarrow> parser_wf p \<Longrightarrow> term_wf (t\<lparr>t_parser := p\<rparr>)"
  by (simp_all add: term_wf_def screen_ok_def side_ok_def)

section \<open>Drawing\<close>

text \<open>What drawing changes: the grid, soundly, and the deferred wrap.\<close>

definition draws :: "terminal \<Rightarrow> terminal \<Rightarrow> bool" where
  "draws t t' \<longleftrightarrow> (\<exists>g p. t' = t\<lparr>t_grid := g, t_pending_wrap := p\<rparr> \<and> keeps (t_grid t) g)"

lemma drawsI: "keeps (t_grid t) g \<Longrightarrow> draws t (t\<lparr>t_grid := g, t_pending_wrap := p\<rparr>)"
  by (auto simp: draws_def)

lemma draws_grid: "keeps (t_grid t) g \<Longrightarrow> draws t (t\<lparr>t_grid := g\<rparr>)"
  by (auto simp: draws_def intro!: exI [of _ g] exI [of _ "t_pending_wrap t"])

lemma draws_refl: "grid_ok (t_grid t) \<Longrightarrow> draws t t"
  using draws_grid [of t "t_grid t"] by (simp add: keeps_refl)

lemma draws_trans: "draws t u \<Longrightarrow> draws u v \<Longrightarrow> draws t v"
  unfolding draws_def using keeps_trans by (elim exE conjE) force

lemma draws_wf: "draws t u \<Longrightarrow> term_wf t \<Longrightarrow> term_wf u"
  using term_wf_grid by (auto simp: draws_def)

lemma draws_fields:
  assumes "draws t u"
  shows "grid_ok (t_grid u)" "t_cols u = t_cols t" "t_rows u = t_rows t" "t_attrs u = t_attrs t"
    "t_scroll_top u = t_scroll_top t" "t_scroll_bot u = t_scroll_bot t" "t_insert_mode u = t_insert_mode t"
    "t_cluster_buf u = t_cluster_buf t" "t_cluster_anchor u = t_cluster_anchor t"
    "t_u_tags u = t_u_tags t" "t_u_open u = t_u_open t" "t_u_buf u = t_u_buf t"
    "t_g0_graphics u = t_g0_graphics t" "keeps (t_grid t) (t_grid u)"
  using assms by (auto simp: draws_def keeps_def)

lemma wf_blank: "term_wf t \<Longrightarrow> blank_cell (blank_with (t_attrs t))"
  by (intro blank_with_wf term_wfD)

lemma region_scroll_draws:
  assumes "term_wf t"
  shows "draws t (region_scroll_up n t)" "draws t (region_scroll_down n t)"
  using term_wfD(1) [OF assms] wf_blank [OF assms]
  by (auto simp: region_scroll_up_def region_scroll_down_def Let_def
      intro!: draws_grid scroll_up_keeps scroll_up_region_keeps scroll_down_region_keeps)

lemma draws_cursor: "term_wf t \<Longrightarrow> draws t (on_grid (set_cursor c r) t)"
  by (intro draws_grid set_cursor_keeps term_wfD)

lemma draws_unwrap: "term_wf t \<Longrightarrow> draws t (t\<lparr>t_pending_wrap := p\<rparr>)"
  using drawsI [of t "t_grid t" p] by (simp add: keeps_refl term_wfD)

lemma index_draws:
  assumes "term_wf t"
  shows "draws t (index_down t)" "draws t (reverse_index t)"
  using region_scroll_draws [OF assms] draws_cursor [OF assms] draws_refl [of t] term_wfD(1) [OF assms]
  by (simp_all add: index_down_def reverse_index_def Let_def)

text \<open>A wrap lands in column 0.\<close>

definition wrap_move :: "nat \<Rightarrow> terminal \<Rightarrow> terminal" where
  "wrap_move row t =
     (if row = t_scroll_bot t then on_grid (set_cursor 0 row) (region_scroll_up 1 t)
      else if row + 1 < t_rows t then on_grid (set_cursor 0 (row + 1)) t
      else on_grid (set_cursor 0 (t_rows t - 1)) t)"

lemma wrap_eqs:
  "wrap_to_next_row row (t_rows t) t =
     (let u = wrap_move row t in on_grid (set_row_wrapped (cur_row u) True) u)"
  "do_pending_wrap t = wrap_to_next_row (cur_row t) (t_rows t) (t\<lparr>t_pending_wrap := False\<rparr>)"
  by (simp_all add: wrap_to_next_row_def wrap_move_def do_pending_wrap_def Let_def)

lemma wrap_move_draws:
  assumes "term_wf t"
  shows "draws t (wrap_move row t) \<and> cur_col (wrap_move row t) = 0"
proof -
  have s: "draws t (region_scroll_up 1 t)" by (rule region_scroll_draws [OF assms])
  show ?thesis
    using draws_trans [OF s draws_cursor [OF draws_wf [OF s assms]]] draws_cursor [OF assms]
    by (simp add: wrap_move_def) (simp add: set_cursor_def)
qed

lemma set_row_wrapped_cursor [simp]:
  "g_cursor_col (set_row_wrapped r w g) = g_cursor_col g" "g_cursor_row (set_row_wrapped r w g) = g_cursor_row g"
  by (simp_all add: set_row_wrapped_def)

lemma wrap_draws:
  assumes "term_wf t"
  shows "draws t (wrap_to_next_row row (t_rows t) t) \<and> cur_col (wrap_to_next_row row (t_rows t) t) = 0"
proof -
  note m = wrap_move_draws [OF assms, of row]
  have "draws (wrap_move row t) (wrap_to_next_row row (t_rows t) t)"
    unfolding wrap_eqs Let_def using m draws_wf [OF _ assms]
    by (intro draws_grid set_row_flag_keeps) (auto dest: term_wfD(1))
  then show ?thesis using m by (auto intro: draws_trans simp: wrap_eqs(1) Let_def)
qed

lemma pending_draws: "term_wf t \<Longrightarrow> draws t (take_pending_wrap t)"
  using wrap_draws [of "t\<lparr>t_pending_wrap := False\<rparr>"] draws_unwrap [of t False] draws_refl [of t] term_wfD(1) [of t]
  by (auto simp: take_pending_wrap_def wrap_eqs(2) intro: draws_trans)

lemma pen_blank: "term_wf t \<Longrightarrow> is_scalar c \<Longrightarrow> blank_cell \<lparr>ch = c, attrs = t_attrs t\<rparr>"
  by (intro blank_E term_wfD)

lemma is_scalar_0 [simp]: "is_scalar 0"
  by (simp add: is_scalar_def)

lemma wide_pad_draws: "term_wf t \<Longrightarrow> row < t_rows t \<Longrightarrow> draws t (wide_pad row t)"
  using term_wfD [of t] pen_blank [of t 0]
  by (auto simp: wide_pad_def Let_def intro!: draws_grid draws_refl set_cell_keeps)

lemma glyph_room_draws:
  assumes "term_wf t"
  shows "draws t (glyph_room w t)" "w = 2 \<Longrightarrow> cur_col (glyph_room w t) + 1 < t_cols t"
proof -
  let ?t = "take_pending_wrap t"
  have p: "draws t ?t" "term_wf ?t" using pending_draws [OF assms] draws_wf assms by auto
  have q: "draws ?t (wide_pad (cur_row ?t) ?t)" using wide_pad_draws p(2) term_wfD by blast
  note r = wrap_draws [OF draws_wf [OF q p(2)], of "cur_row ?t"]
  have rows: "t_rows (wide_pad (cur_row ?t) ?t) = t_rows ?t" using draws_fields [OF q] by simp
  show "draws t (glyph_room w t)"
    using p(1) q r draws_trans [OF p(1) draws_trans [OF q]] rows by (auto simp: glyph_room_def Let_def)
  show "cur_col (glyph_room w t) + 1 < t_cols t" if "w = 2"
    using that r rows draws_fields [OF p(1)] term_wfD(2) [OF assms] by (auto simp: glyph_room_def Let_def)
qed

lemma draws_cursor_unwrap: "term_wf t \<Longrightarrow> draws t (on_grid (set_cursor c r) (t\<lparr>t_pending_wrap := p\<rparr>))"
  using draws_trans [OF draws_unwrap [of t p] draws_cursor [of "t\<lparr>t_pending_wrap := p\<rparr>" c r]] by simp

lemma put_glyph_draws:
  assumes "term_wf t" "is_scalar c" "w = 2 \<Longrightarrow> cur_col t + 1 < t_cols t"
  shows "draws t (put_glyph c w t)"
proof -
  define t1 where "t1 = (if t_insert_mode t then on_grid (shift_line_right (cur_col t) (cur_row t) w (t_attrs t)) t else t)"
  define t2 where "t2 = on_grid (set_cell (cur_col t) (cur_row t) \<lparr>ch = c, attrs = t_attrs t1\<rparr>) t1"
  define t3 where "t3 = (if w = 2 then on_grid (set_cell (cur_col t + 1) (cur_row t) \<lparr>ch = 0, attrs = t_attrs t2\<rparr>) t2 else t2)"
  note t = term_wfD [OF assms(1)]
  have 1: "draws t t1"
    using t char_edits_keep(4) [OF t(1,7,6,5)] unfolding t1_def by (auto intro: draws_grid draws_refl)
  note w1 = draws_wf [OF 1 assms(1)] and f1 = draws_fields [OF 1]
  have 2: "draws t1 t2"
    unfolding t2_def using f1 t pen_blank [OF w1 assms(2)] by (intro draws_grid set_cell_keeps) auto
  note w2 = draws_wf [OF 2 w1] and f2 = draws_fields [OF 2]
  have 3: "draws t2 t3"
    unfolding t3_def using f1 f2 t assms(3) pen_blank [OF w2, of 0]
    by (auto intro!: draws_grid set_cell_keeps intro: draws_refl)
  note w3 = draws_wf [OF 3 w2]
  have "put_glyph c w t =
      (if cur_col t + w < t_cols t then on_grid (set_cursor (cur_col t + w) (cur_row t)) t3
       else on_grid (set_cursor (t_cols t - 1) (cur_row t)) (t3\<lparr>t_pending_wrap := True\<rparr>))"
    unfolding put_glyph_def t1_def t2_def t3_def Let_def by simp
  then show ?thesis
    using draws_trans [OF draws_trans [OF 1 2] 3] draws_cursor [OF w3] draws_cursor_unwrap [OF w3] draws_trans
    by simp
qed

lemma write_glyph_draws:
  assumes "term_wf t" "is_scalar c" "write_glyph c w t = (u, col, row)"
  shows "draws t u" "col < t_cols t" "row < t_rows t"
proof -
  note r = glyph_room_draws [OF assms(1), of w]
  note f = draws_fields [OF r(1)]
  have "draws (glyph_room w t) (put_glyph c w (glyph_room w t))"
    using put_glyph_draws [OF draws_wf [OF r(1) assms(1)] assms(2)] r(2) f(2) by simp
  then show "draws t u" "col < t_cols t" "row < t_rows t"
    using assms(3) draws_trans [OF r(1)] term_wfD(6,7) [OF draws_wf [OF r(1) assms(1)]] f
    by (auto simp: write_glyph_def Let_def)
qed

section \<open>Printing\<close>

lemma flush_cluster_wf [wf_intros]:
  "term_wf t \<Longrightarrow> term_wf (flush_cluster_keep_cursor t)" "term_wf t \<Longrightarrow> term_wf (flush_cluster_for_break t)"
  by (simp_all add: flush_cluster_keep_cursor_def flush_cluster_for_break_def Let_def term_wf_fields(9)
      cluster_ok_def ustring_wf_def)

lemma resync_wf [wf_intros]: "term_wf t \<Longrightarrow> term_wf (resync_segmenter t)"
  by (simp add: resync_segmenter_def)

lemma commit_wf [wf_intros]:
  assumes "term_wf t" "is_scalar c" "fast \<Longrightarrow> fast_width c = Some w"
  shows "term_wf (commit_cluster_head c w fast t)"
proof -
  obtain u col row where u: "write_glyph c w t = (u, col, row)" by (metis prod_cases3)
  note d = write_glyph_draws [OF assms(1,2) u]
  have "term_wf (u\<lparr>t_cluster_buf := [c], t_cluster_fast := (if fast then Some (c, w) else None),
      t_cluster_anchor := Some (col, row, w)\<rparr>)"
    using d assms draws_fields [OF d(1)]
    by (intro term_wf_fields(9) draws_wf [OF d(1)]) (auto simp: cluster_ok_def ustring_wf_def anchor_ok_def)
  then show ?thesis by (simp add: commit_cluster_head_def u)
qed

lemma widen_wf [wf_intros]:
  assumes "term_wf t"
  shows "term_wf (widen_anchor w t)"
proof (cases "t_cluster_anchor t")
  case None
  then show ?thesis using assms by (simp add: widen_anchor_def)
next
  case (Some a)
  obtain col row cur where a: "a = (col, row, cur)" by (metis prod_cases3)
  have in_screen: "col < t_cols t" "row < t_rows t"
    using assms Some a by (auto simp: term_wf_def screen_ok_def anchor_ok_def)
  let ?u = "on_grid (set_cell (col + 1) row \<lparr>ch = 0, attrs = t_attrs t\<rparr>) t"
  let ?v = "if cur_col ?u = col + 1 \<and> cur_row ?u = row then on_grid (set_cursor (col + 2) row) ?u else ?u"
  show ?thesis
  proof (cases "w \<le> cur \<or> w \<noteq> 2 \<or> col + 1 \<ge> t_cols t")
    case True
    then show ?thesis using assms Some a by (auto simp: widen_anchor_def)
  next
    case False
    have u: "draws t ?u"
      using False in_screen term_wfD(1) [OF assms] pen_blank [OF assms, of 0] by (intro draws_grid set_cell_keeps) auto
    have "draws ?u ?v" using draws_cursor [OF draws_wf [OF u assms]] draws_refl draws_fields(1) [OF u] by simp
    then have v: "term_wf ?v" "draws t ?v" using draws_wf [OF u assms] draws_wf draws_trans [OF u] by blast+
    have "term_wf (?v\<lparr>t_cluster_anchor := Some (col, row, w)\<rparr>)"
      using v(1) in_screen draws_fields [OF v(2)]
      unfolding term_wf_def screen_ok_def side_ok_def by (simp add: anchor_ok_def split del: if_split)
    moreover have "widen_anchor w t = ?v\<lparr>t_cluster_anchor := Some (col, row, w)\<rparr>"
      using False Some a by (simp add: widen_anchor_def Let_def)
    ultimately show ?thesis by simp
  qed
qed

lemma store_wf [wf_intros]:
  assumes "term_wf t"
  shows "term_wf (store_cluster_at_anchor t)"
proof (cases "t_cluster_anchor t = None \<or> length (t_cluster_buf t) < 2")
  case True
  then show ?thesis using assms by (cases "t_cluster_anchor t") (auto simp: store_cluster_at_anchor_def)
next
  case False
  then obtain col row w where a: "t_cluster_anchor t = Some (col, row, w)" by (metis prod_cases3 not_None_eq)
  then have in_screen: "col < t_cols t" "row < t_rows t"
    using assms by (auto simp: term_wf_def screen_ok_def anchor_ok_def)
  let ?g = "if length (g_clusters (t_grid t)) > CLUSTER_POOL_SWEEP_AT then sweep_clusters (t_grid t) else t_grid t"
  have k: "keeps (t_grid t) ?g" using term_wfD(1) [OF assms] by (simp add: sweep_keeps keeps_refl)
  note g = keepsD [OF k]
  have i: "phys_row ?g row * g_cols ?g + col < length (g_cells ?g)"
    using g in_screen by (intro cell_index) (simp_all add: grid_ok_def)
  obtain c h where ch: "(c, h) = cluster_cell_reusing (cluster_index (grid_cell ?g col row)) (t_cluster_buf t) (t_attrs t) ?g"
    by (metis surj_pair)
  have "ustring_wf (t_cluster_buf t)" using assms by (simp add: term_wf_def side_ok_def cluster_ok_def)
  moreover have "t_cluster_buf t \<noteq> []" using False by auto
  ultimately have "keeps ?g (set_cell col row c h)"
    using store_facts [OF g(1) _ _ _ _ _ ch refl, of row col] in_screen g False term_wfD(5) [OF assms]
    by (auto simp: keeps_def)
  then have "keeps (t_grid t) (set_cell col row c h)" using keeps_trans [OF k] by simp
  moreover have "store_cluster_at_anchor t = t\<lparr>t_grid := set_cell col row c h\<rparr>"
    using False a i ch [symmetric] by (simp add: store_cluster_at_anchor_def Let_def split del: if_split)
  ultimately show ?thesis using term_wf_grid [OF assms] by simp
qed

lemma print_glyph_slow:
  assumes "\<not> (fast_width c \<noteq> None \<and> (t_cluster_buf t = [] \<or> t_cluster_fast t \<noteq> None))"
    "cursor_step c (t_segmenter (resync_segmenter t)) = (b, seg)"
    "u = (resync_segmenter t)\<lparr>t_segmenter := seg\<rparr>"
  shows "print_glyph wide c t =
     (if b
      then if cluster_width wide [c] > 0 then commit_cluster_head c (cluster_width wide [c]) False u
           else u\<lparr>t_cluster_buf := [c], t_cluster_fast := None, t_cluster_anchor := None\<rparr>
      else
        let v = u\<lparr>t_cluster_buf := t_cluster_buf u @ [c], t_cluster_fast := None\<rparr>
        in store_cluster_at_anchor (widen_anchor (cluster_width wide (t_cluster_buf v)) v))"
  by (simp only: print_glyph_def if_not_P [OF assms(1)] Let_def assms(2,3) prod.case)

lemma print_glyph_wf [wf_intros]:
  assumes "term_wf t" "is_scalar c"
  shows "term_wf (print_glyph wide c t)"
proof (cases "fast_width c \<noteq> None \<and> (t_cluster_buf t = [] \<or> t_cluster_fast t \<noteq> None)")
  case True
  then show ?thesis using commit_wf [OF assms] by (auto simp: print_glyph_def)
next
  case False
  let ?r = "resync_segmenter t"
  obtain b seg where s: "cursor_step c (t_segmenter ?r) = (b, seg)" by fastforce
  have r: "term_wf (?r\<lparr>t_segmenter := seg\<rparr>)" using resync_wf [OF assms(1)] by simp
  have "term_wf (?r\<lparr>t_segmenter := seg, t_cluster_buf := [c], t_cluster_fast := None, t_cluster_anchor := None\<rparr>)"
    using r assms(2) by (intro term_wf_fields(9)) (auto simp: cluster_ok_def ustring_wf_def)
  moreover have "term_wf (?r\<lparr>t_segmenter := seg, t_cluster_buf := t_cluster_buf ?r @ [c], t_cluster_fast := None\<rparr>)"
    using r assms(2) unfolding term_wf_def screen_ok_def side_ok_def
    by (simp add: cluster_ok_def ustring_wf_def)
  ultimately show ?thesis
    using commit_wf [OF r assms(2), of False] unfolding print_glyph_slow [OF False s refl]
    by (simp add: Let_def store_wf widen_wf)
qed

lemma print_glyphs_wf [wf_intros]:
  "term_wf t \<Longrightarrow> ustring_wf cs \<Longrightarrow> term_wf (print_glyphs wide cs t)"
  by (induction cs arbitrary: t) (simp_all add: ustring_wf_def print_glyph_wf)

lemma U_OPEN_TAG_wf: "ustring_wf U_OPEN_TAG" "ustring_wf []"
  by (simp_all add: ustring_wf_def U_OPEN_TAG_def is_scalar_def)

lemma term_wf_buf: "term_wf t \<Longrightarrow> ustring_wf (t_u_buf t)"
  by (simp add: term_wf_def side_ok_def)

lemma u_bail_wf [wf_intros]: "term_wf t \<Longrightarrow> term_wf (u_bail wide t)"
  by (simp add: u_bail_def Let_def print_glyphs_wf U_OPEN_TAG_wf term_wf_buf term_wf_fields(6))

lemma set_underline_wf [wf_intros]: "term_wf t \<Longrightarrow> term_wf (set_underline b t)"
  using term_wfD(5) [of t] by (simp add: set_underline_def term_wf_fields(1) pen_wf_def)

lemma u_step_wf [wf_intros]:
  assumes "term_wf t" "is_scalar c"
  shows "term_wf (u_step wide c t)"
proof -
  have buf: "ustring_wf (t_u_buf t @ [c])" "ustring_wf (take n (t_u_buf t))" for n
    using term_wf_buf [OF assms(1)] assms(2) by (auto simp: ustring_wf_def dest: in_set_takeD)
  have "term_wf (print_glyph wide c (print_glyphs wide (t_u_buf t) (t\<lparr>t_u_buf := []\<rparr>)))"
    using term_wf_fields(6) [OF assms(1) U_OPEN_TAG_wf(2)] term_wf_buf [OF assms(1)] assms(2)
    by (intro print_glyph_wf print_glyphs_wf)
  note b = this term_wf_fields(6) [OF assms(1) buf(1)] term_wf_fields(6) [OF assms(1) U_OPEN_TAG_wf(2)]
  show ?thesis
    using b buf by (simp add: u_step_def Let_def wf_intros split: u_tag.split)
qed

lemma flush_u_buf_wf [wf_intros]: "term_wf t \<Longrightarrow> term_wf (flush_u_buf wide t)"
  by (simp add: flush_u_buf_def u_bail_wf print_glyphs_wf term_wf_buf term_wf_fields(6) U_OPEN_TAG_wf)

lemma dec_special_graphic_scalar: "is_scalar c \<Longrightarrow> is_scalar (dec_special_graphic c)"
proof -
  have "list_all is_scalar DEC_GRAPHICS" by (simp add: DEC_GRAPHICS_def is_scalar_def)
  then have "k < 32 \<Longrightarrow> is_scalar (DEC_GRAPHICS ! k)" for k
    by (simp add: list_all_length DEC_GRAPHICS_def)
  from this [of "c - 0x5F"] show "is_scalar c \<Longrightarrow> is_scalar (dec_special_graphic c)"
    by (auto simp: dec_special_graphic_def)
qed

lemma print_wf [wf_intros]: "term_wf t \<Longrightarrow> is_scalar c \<Longrightarrow> term_wf (print wide c t)"
  by (simp add: print_def u_step_wf print_glyph_wf dec_special_graphic_scalar)

section \<open>Modes\<close>

lemma saved_ok_save: "term_wf t \<Longrightarrow> term_wf (save_cursor t)"
  using term_wfD(5) [of t] by (simp add: save_cursor_def term_wf_fields(2) saved_ok_def)

lemma term_wf_cursor: "term_wf t \<Longrightarrow> term_wf (on_grid (set_cursor c r) t)"
  by (rule draws_wf [OF draws_cursor])

lemma restore_cursor_wf [wf_intros]:
  assumes "term_wf t"
  shows "term_wf (restore_cursor t)"
proof (cases "t_saved_cursor t")
  case (Some s)
  then have "pen_wf (sc_attrs s)" using assms by (simp add: term_wf_def side_ok_def saved_ok_def)
  then have "term_wf (t\<lparr>t_attrs := sc_attrs s\<rparr>)" using assms by (rule term_wf_fields(1) [rotated])
  then have "term_wf (t\<lparr>t_attrs := sc_attrs s, t_pending_wrap := sc_pending_wrap s,
      t_g0_graphics := sc_g0_graphics s, t_origin_mode := sc_origin_mode s\<rparr>)" by simp
  from term_wf_cursor [OF this] show ?thesis using Some by (simp add: restore_cursor_def)
qed (use assms in \<open>simp add: restore_cursor_def\<close>)

lemma cursor_to_origin_wf [wf_intros]: "term_wf t \<Longrightarrow> term_wf (cursor_to_origin t)"
  using term_wf_cursor [of "t\<lparr>t_pending_wrap := False\<rparr>"] by (simp add: cursor_to_origin_def)

lemma keeps_sym: "grid_ok g \<Longrightarrow> keeps g h \<Longrightarrow> keeps h g"
  by (simp add: keeps_def)

lemma enter_alt_screen_wf [wf_intros]:
  assumes "term_wf t"
  shows "term_wf (enter_alt_screen t)"
proof (cases "t_saved_main t = None")
  case True
  let ?alt = "set_cursor (cur_col t) (cur_row t) (grid_with_scrollback (t_cols t) (t_rows t) DEFAULT_SCROLLBACK_LINES)"
  note t = term_wfD [OF assms]
  have "keeps (t_grid t) (grid_with_scrollback (t_cols t) (t_rows t) DEFAULT_SCROLLBACK_LINES)"
    using grid_new_ok [of "t_cols t" "t_rows t"] t
    by (simp add: keeps_def) (simp add: grid_with_scrollback_def grid_with_scrollback_kind_def)
  then have alt: "keeps (t_grid t) ?alt" using keeps_trans set_cursor_keeps keepsD(1) by blast
  have "main_ok ?alt \<lparr>sm_grid = t_grid t, sm_cursor = (cur_col t, cur_row t), sm_kitty = t_kitty t\<rparr>"
    using keeps_sym [OF t(1) alt] assms by (simp add: main_ok_def term_wf_def side_ok_def)
  then show ?thesis
    using term_wf_grid [OF assms alt] True kitty_default_wf
    by (simp add: enter_alt_screen_def Let_def swap_cursors_def term_wf_def screen_ok_def side_ok_def)
qed (use assms in \<open>simp add: enter_alt_screen_def\<close>)

lemma exit_alt_screen_wf [wf_intros]:
  assumes "term_wf t"
  shows "term_wf (exit_alt_screen t)"
proof (cases "t_saved_main t")
  case (Some s)
  let ?g = "set_cursor (fst (sm_cursor s)) (snd (sm_cursor s)) (sm_grid s)"
  have m: "keeps (t_grid t) (sm_grid s)" "kitty_wf (sm_kitty s)"
    using assms Some by (simp_all add: term_wf_def screen_ok_def main_ok_def)
  then have "keeps (t_grid t) ?g" using keeps_trans set_cursor_keeps keepsD(1) by blast
  from term_wf_grid [OF assms this] show ?thesis
    using Some m by (simp add: exit_alt_screen_def swap_cursors_def term_wf_def screen_ok_def side_ok_def)
qed (use assms in \<open>simp add: exit_alt_screen_def\<close>)

lemma exit_alt_screen_saved: "t_saved_main (exit_alt_screen t) = None"
  by (rule alt_screen_set(2))

lemma clear_screen_keeps:
  assumes "term_wf t"
  shows "keeps (t_grid t) (fill_range wide 0 (t_cols t * t_rows t) attrs_default (t_grid t))"
    "keeps (t_grid t) (clear_all_wrapped (fill_range wide 0 (t_cols t * t_rows t) attrs_default (t_grid t)))"
proof -
  show 1: "keeps (t_grid t) (fill_range wide 0 (t_cols t * t_rows t) attrs_default (t_grid t))"
    using term_wfD(1) [OF assms] by (intro fill_range_keeps) simp_all
  show "keeps (t_grid t) (clear_all_wrapped (fill_range wide 0 (t_cols t * t_rows t) attrs_default (t_grid t)))"
    using keeps_trans [OF 1 set_row_flag_keeps(3)] keepsD(1) [OF 1] by simp
qed

lemma term_wf_reset_margins:
  "term_wf t \<Longrightarrow> keeps (t_grid t) g \<Longrightarrow>
   term_wf (t\<lparr>t_grid := g, t_scroll_top := 0, t_scroll_bot := t_rows t - 1, t_pending_wrap := p\<rparr>)"
  using term_wf_fields(8) [OF term_wf_grid, of t g 0 "t_rows t - 1"] term_wfD(9) [of t] keepsD(3) by simp

lemma column_mode_reset_wf [wf_intros]: "term_wf t \<Longrightarrow> term_wf (column_mode_reset wide t)"
  unfolding column_mode_reset_def Let_def
  using clear_screen_keeps(2) keeps_trans set_cursor_keeps keepsD(1) by (blast intro: term_wf_reset_margins)

lemma screen_alignment_wf [wf_intros]:
  assumes "term_wf t"
  shows "term_wf (screen_alignment_pattern wide t)"
proof -
  note k = clear_screen_keeps(1) [OF assms, of wide]
  have "keeps (t_grid t) (fill_screen_e attrs_default (fill_range wide 0 (t_cols t * t_rows t) attrs_default (t_grid t)))"
    using keeps_trans [OF k fill_screen_e_keeps] keepsD(1) [OF k] by simp
  then show ?thesis
    unfolding screen_alignment_pattern_def Let_def
    using keeps_trans set_cursor_keeps set_row_flag_keeps(3) keepsD(1)
    by (blast intro: term_wf_reset_margins [OF assms])
qed

lemma soft_reset_wf [wf_intros]: "term_wf t \<Longrightarrow> term_wf (soft_reset t)"
  using term_wfD(9) [of t] by (simp add: soft_reset_def term_wf_def screen_ok_def side_ok_def)

lemma tabs_new_ok:
  assumes "cols \<le> TABS_MAX"
  shows "\<exists>tb. tabs_new cols = Some tb \<and> tabs_wf tb \<and> ts_cols tb = cols"
  using tabs_new_stops [OF assms] by blast

lemma hard_reset_wf [wf_intros]:
  assumes "term_wf t"
  shows "term_wf (hard_reset wide t)"
proof -
  define u where "u = soft_reset (if t_saved_main t \<noteq> None then exit_alt_screen t else t)"
  define g where "g = set_cursor 0 0 (clear_scrollback (clear_all_wrapped
    (fill_range wide 0 (t_cols u * t_rows u) attrs_default (t_grid u))))"
  have u: "term_wf u" using assms by (simp add: u_def soft_reset_wf exit_alt_screen_wf)
  note k1 = clear_screen_keeps(2) [OF u, of wide]
  note k2 = keeps_trans [OF k1 clear_scrollback_keeps [OF keepsD(1) [OF k1]]]
  have g: "keeps (t_grid u) g"
    unfolding g_def by (rule keeps_trans [OF k2 set_cursor_keeps [OF keepsD(1) [OF k2]]])
  note v = term_wf_grid [OF u g]
  obtain tb where tb: "tabs_new (g_cols g) = Some tb" "tabs_wf tb" "ts_cols tb = g_cols g"
    using tabs_new_ok [OF term_wfD(12) [OF v]] by auto
  have "hard_reset wide t = u\<lparr>t_grid := g, t_tabs := tb, t_g0_graphics := False, t_osc_title := []\<rparr>"
    unfolding hard_reset_def Let_def u_def [symmetric] g_def [symmetric]
    using tb(1) by (simp add: tabs_or_panic_def)
  then show ?thesis using term_wf_fields(5) [OF v, of tb] tb(2,3) by simp
qed

lemma dec_mode_wf [wf_intros]: "term_wf t \<Longrightarrow> term_wf (dec_mode wide m on t)"
  by (simp add: dec_mode_def Let_def cursor_to_origin_wf column_mode_reset_wf saved_ok_save
      restore_cursor_wf enter_alt_screen_wf exit_alt_screen_wf)

end
