(* ===== verification/TermSafe.thy ===== *)
theory TermSafe
  imports TermInv
begin

text \<open>
  Safety of the terminal: every callback of the parser, every byte and every chunk keeps the
  invariant, \<open>feed\<close> always returns, and no index ever leaves the grid.
\<close>

section \<open>The dispatchers\<close>

lemma respond_wf [wf_intros]: "term_wf t \<Longrightarrow> term_wf (respond bs t)"
  by (simp add: respond_def)

lemma record_response_wf [wf_intros]: "term_wf t \<Longrightarrow> term_wf (record_response t)"
  by (simp add: record_response_def Let_def)

lemma flush_pending_wf [wf_intros]: "term_wf t \<Longrightarrow> term_wf (flush_pending wide t)"
  by (simp add: flush_pending_def flush_cluster_wf flush_u_buf_wf)

lemma index_wf [wf_intros]:
  "term_wf t \<Longrightarrow> term_wf (index_down t)" "term_wf t \<Longrightarrow> term_wf (reverse_index t)"
  "term_wf t \<Longrightarrow> term_wf (region_scroll_up n t)" "term_wf t \<Longrightarrow> term_wf (region_scroll_down n t)"
  using draws_wf index_draws region_scroll_draws by blast+

lemma cursor_wf [wf_intros]:
  "term_wf t \<Longrightarrow> term_wf (on_grid (set_cursor c r) t)"
  "term_wf t \<Longrightarrow> term_wf (t\<lparr>t_pending_wrap := p, t_grid := set_cursor c r (t_grid t)\<rparr>)"
  using draws_wf [OF draws_cursor] draws_wf [OF draws_cursor_unwrap, of t c r p] by simp_all

lemma execute_wf [wf_intros]:
  assumes "term_wf t"
  shows "term_wf (execute wide b t)"
proof -
  define u where "u = flush_pending wide t"
  have u: "term_wf u" using assms by (simp add: u_def flush_pending_wf)
  have p: "term_wf (u\<lparr>t_pending_wrap := False\<rparr>)" using u by simp
  show ?thesis
    unfolding execute_def Let_def u_def [symmetric]
    using u p cursor_wf(1) [OF u] cursor_wf(2) [OF u] index_wf(1) [OF p] by simp
qed

lemma tabs_set_term_wf:
  "term_wf t \<Longrightarrow> term_wf (t\<lparr>t_tabs := tabs_set c (t_tabs t)\<rparr>)"
  "term_wf t \<Longrightarrow> term_wf (t\<lparr>t_tabs := tabs_clear c (t_tabs t)\<rparr>)"
  "term_wf t \<Longrightarrow> term_wf (t\<lparr>t_tabs := tabs_clear_all (t_tabs t)\<rparr>)"
proof -
  assume t: "term_wf t"
  then have b: "tabs_wf (t_tabs t)" "ts_cols (t_tabs t) = t_cols t"
    by (simp_all add: term_wf_def screen_ok_def side_ok_def)
  show "term_wf (t\<lparr>t_tabs := tabs_set c (t_tabs t)\<rparr>)" "term_wf (t\<lparr>t_tabs := tabs_clear c (t_tabs t)\<rparr>)"
    "term_wf (t\<lparr>t_tabs := tabs_clear_all (t_tabs t)\<rparr>)"
    using b t by (simp_all add: term_wf_fields(5) wf_intros)
qed

lemma esc_dispatch_wf [wf_intros]:
  assumes "term_wf t"
  shows "term_wf (esc_dispatch wide is b t)"
proof -
  define u where "u = flush_pending wide t"
  have u: "term_wf u" using assms by (simp add: u_def flush_pending_wf)
  have p: "term_wf (u\<lparr>t_pending_wrap := False\<rparr>)" using u by simp
  show ?thesis
    unfolding esc_dispatch_def Let_def u_def [symmetric]
    using u p tabs_set_term_wf(1) [OF u] saved_ok_save [OF u] restore_cursor_wf [OF u] index_wf(1,2) [OF p]
      index_wf(1) [OF cursor_wf(1) [OF p]] record_response_wf [OF respond_wf [OF u]]
      screen_alignment_wf [OF u] hard_reset_wf [OF u]
    by simp
qed

lemma fold_wf: "(\<And>x u. term_wf u \<Longrightarrow> x \<in> set xs \<Longrightarrow> term_wf (f x u)) \<Longrightarrow> term_wf t \<Longrightarrow> term_wf (fold f xs t)"
  by (induction xs arbitrary: t) simp_all

lemma csi_private_wf [wf_intros]: "term_wf t \<Longrightarrow> term_wf (csi_private wide ps b t)"
  by (simp add: csi_private_def fold_wf dec_mode_wf record_response_wf respond_wf)

lemma term_kitty: "term_wf t \<Longrightarrow> kitty_wf (t_kitty t)"
  by (simp add: term_wf_def side_ok_def)

lemma csi_marked_wf [wf_intros]: "term_wf t \<Longrightarrow> term_wf (csi_marked ps is b t)"
  by (simp add: csi_marked_def Let_def record_response_wf respond_wf soft_reset_wf term_wf_fields(4,7)
      kitty_push_wf kitty_pop_wf kitty_set_wf term_kitty)

lemma csi_move_wf [wf_intros]: "term_wf t \<Longrightarrow> term_wf (csi_move ps b t)"
  unfolding csi_move_def Let_def by (simp add: cursor_wf tabs_set_term_wf)

lemma csi_edit_wf [wf_intros]:
  assumes "term_wf t"
  shows "term_wf (csi_edit wide ps b t)"
proof -
  let ?u = "t\<lparr>t_pending_wrap := False\<rparr>"
  note t = term_wfD [OF assms] and g = term_wf_grid [OF assms]
  have u: "term_wf ?u" using assms by simp
  note gu = term_wf_grid [OF u]
  note k = clear_scrollback_keeps [OF t(1)] erase_keeps [OF t(1,5,7,6)] char_edits_keep [OF t(1,7,6,5)]
    scroll_down_region_keeps [OF t(1) wf_blank [OF assms]] scroll_up_region_keeps [OF t(1) wf_blank [OF assms]]
  have e: "term_wf (?u\<lparr>t_grid := clear_all_wrapped (erase_in_display wide (cur_col t) (cur_row t) (t_cols t) (t_rows t) m (t_attrs t) (t_grid t))\<rparr>)" for m
    using gu [of "clear_all_wrapped _"] keeps_trans [OF k(2) set_row_flag_keeps(3) [OF keepsD(1) [OF k(2)]]] by simp
  have c: "term_wf (?u\<lparr>t_grid := set_cursor x y h\<rparr>)" if "keeps (t_grid t) h" for x y h
    using gu [of "set_cursor x y h"] keeps_trans [OF that set_cursor_keeps [OF keepsD(1) [OF that]]] by simp
  show ?thesis
    unfolding csi_edit_def Let_def
    using assms u g [OF k(5)] g [OF k(6)] gu k index_wf(3,4) [OF assms] e c [OF k(8)] c [OF k(9)]
    by (simp split del: if_split cong: if_cong split: if_splits)
qed

lemma set_margins_wf [wf_intros]:
  assumes "term_wf t"
  shows "term_wf (set_margins ps t)"
proof -
  have "term_wf (t\<lparr>t_pending_wrap := False, t_scroll_top := tp, t_scroll_bot := bt\<rparr>)"
    if "tp \<le> bt" "bt < t_rows t" for tp bt
    using term_wf_fields(8) [of "t\<lparr>t_pending_wrap := False\<rparr>" tp bt] that assms by simp
  then show ?thesis
    using assms unfolding set_margins_def Let_def by (simp add: cursor_to_origin_wf)
qed

lemma csi_state_wf [wf_intros]:
  assumes "term_wf t"
  shows "term_wf (csi_state ps ss b t)"
proof -
  have "term_wf (fold (\<lambda>p t. if p = 4 then t\<lparr>t_insert_mode := x\<rparr> else t) ps t)" for x
    using assms by (intro fold_wf) simp_all
  then show ?thesis
    using assms term_wf_fields(1) [OF assms apply_sgr_pen [OF term_wfD(5) [OF assms]]]
    by (simp add: csi_state_def Let_def saved_ok_save restore_cursor_wf set_margins_wf record_response_wf respond_wf)
qed

lemma csi_dispatch_wf [wf_intros]: "term_wf t \<Longrightarrow> term_wf (csi_dispatch wide ps ss is b t)"
  by (simp add: csi_dispatch_def csi_plain_def Let_def flush_pending_wf csi_private_wf csi_marked_wf
      csi_move_wf csi_edit_wf csi_state_wf)

lemma osc_dispatch_wf [wf_intros]:
  assumes "term_wf t"
  shows "term_wf (osc_dispatch wide bs t)"
proof -
  define u where "u = flush_pending wide t"
  have u: "term_wf u" using assms by (simp add: u_def flush_pending_wf)
  have "term_wf (on_grid (set_row_prompt r m) u)" for r m
    using term_wf_grid [OF u set_row_flag_keeps(2) [OF term_wfD(1) [OF u]]] by simp
  then show ?thesis
    unfolding osc_dispatch_def Let_def u_def [symmetric]
    using u by (simp add: osc_title_def osc_clipboard_def Let_def record_response_wf respond_wf split: option.split)
qed

lemma handle_wf [wf_intros]: "term_wf t \<Longrightarrow> event_wf e \<Longrightarrow> term_wf (handle wide e t)"
  by (cases e) (simp_all add: handle_def print_wf execute_wf esc_dispatch_wf csi_dispatch_wf osc_dispatch_wf event_wf_def)

lemma handles_wf: "term_wf t \<Longrightarrow> \<forall>e \<in> set es. event_wf e \<Longrightarrow> term_wf (fold (handle wide) es t)"
  by (intro fold_wf) (simp_all add: handle_wf)

section \<open>The lanes\<close>

lemma is_scalar_byte [simp]: "is_scalar (unat (b :: u8))"
  using unat_u8_lt [of b] by (simp add: is_scalar_def del: unat_u8_lt)

lemma ascii_run_draws:
  assumes "term_wf t" "cur_col t + length bs \<le> t_cols t"
  shows "draws t (on_grid (set_row_run_ascii (cur_col t) (cur_row t) (t_attrs t) bs) t)"
  unfolding set_row_run_ascii_def
  using assms term_wfD [OF assms(1)] pen_blank [OF assms(1)]
  by (intro draws_grid set_cells_keeps) auto

lemma loop_draws:
  assumes "draws t x" "draws t y" "draws t z" "\<exists>u. a = Some u \<and> draws x u" "\<exists>u. b = Some u \<and> draws y u"
  shows "\<exists>u. (if P then a else if Q then b else Some z) = Some u \<and> draws t u"
  using draws_trans [OF assms(1)] draws_trans [OF assms(2)] assms(3-5) by (cases P; cases Q) fastforce+

lemma ascii_loop_step:
  assumes "bs \<noteq> []" "n = min (t_cols t - cur_col t) (length bs)"
    "u = on_grid (set_row_run_ascii (cur_col t) (cur_row t) (t_attrs t) (take n bs)) t"
  shows "ascii_loop bs t =
    (if cur_col t + n < t_cols t then ascii_loop (drop n bs) (on_grid (set_cursor (cur_col t + n) (cur_row t)) u)
     else if drop n bs \<noteq> [] then ascii_loop (drop n bs) (wrap_to_next_row (cur_row t) (t_rows t) u)
     else Some (on_grid (set_cursor (t_cols t - 1) (cur_row t)) (u\<lparr>t_pending_wrap := True\<rparr>)))"
  unfolding assms(2,3) using assms(1) by (subst ascii_loop.simps) (simp only: Let_def if_False)

lemma ascii_loop_draws:
  "term_wf t \<Longrightarrow> \<exists>u. ascii_loop bs t = Some u \<and> draws t u"
proof (induction "length bs" arbitrary: bs t rule: less_induct)
  case less
  note t = term_wfD [OF less.prems]
  show ?case
  proof (cases "bs = []")
    case True
    then show ?thesis using draws_refl [OF t(1)] by (simp add: ascii_loop.simps)
  next
    case False
    define n where "n = min (t_cols t - cur_col t) (length bs)"
    define u where "u = on_grid (set_row_run_ascii (cur_col t) (cur_row t) (t_attrs t) (take n bs)) t"
    have n: "0 < n" "n \<le> length bs" "cur_col t + n \<le> t_cols t" using t False by (simp_all add: n_def)
    have u: "draws t u" unfolding u_def using n by (intro ascii_run_draws less.prems) simp
    note wf = draws_wf [OF u less.prems]
    have len: "length (drop n bs) < length bs" using n False by simp
    have r: "t_rows u = t_rows t" using draws_fields [OF u] by simp
    have 1: "draws t (on_grid (set_cursor x y) u)" for x y
      using draws_trans [OF u draws_cursor [OF wf]] .
    have 2: "draws t (wrap_to_next_row (cur_row t) (t_rows t) u)"
      using draws_trans [OF u] wrap_draws [OF wf, of "cur_row t"] r by simp
    have 3: "draws t (on_grid (set_cursor x y) (u\<lparr>t_pending_wrap := True\<rparr>))" for x y
      using draws_trans [OF u draws_cursor_unwrap [OF wf]] .
    show ?thesis
      unfolding ascii_loop_step [OF False n_def u_def]
      by (rule loop_draws [OF 1 2 3 less.hyps [OF len draws_wf [OF 1 less.prems]]
            less.hyps [OF len draws_wf [OF 2 less.prems]]])
  qed
qed

lemma wide_cells_blank:
  assumes "term_wf t" "\<forall>c \<in> set cs. is_scalar c"
  shows "\<forall>x \<in> set (wide_cells (t_attrs t) cs). blank_cell x" "length (wide_cells (t_attrs t) cs) = 2 * length cs"
  using assms pen_blank [OF assms(1)] by (induction cs) (auto simp: wide_cells_def)

lemma wide_run_draws:
  assumes "term_wf t" "\<forall>c \<in> set cs. is_scalar c" "cur_col t + 2 * length cs \<le> t_cols t"
  shows "draws t (on_grid (set_cells (cur_col t) (cur_row t) (wide_cells (t_attrs t) cs)) t)"
  using assms term_wfD [OF assms(1)] wide_cells_blank [OF assms(1,2)]
  by (intro draws_grid set_cells_keeps) auto

lemma wide_loop_step:
  assumes "cs \<noteq> []" "2 \<le> t_cols t - cur_col t"
    "fit = min ((t_cols t - cur_col t) div 2) (length cs)"
    "u = on_grid (set_cells (cur_col t) (cur_row t) (wide_cells (t_attrs t) (take fit cs))) t"
  shows "wide_loop cs t =
    (if cur_col t + fit * 2 < t_cols t
     then wide_loop (drop fit cs) (on_grid (set_cursor (cur_col t + fit * 2) (cur_row t)) u)
     else if drop fit cs \<noteq> [] then wide_loop (drop fit cs) (wrap_to_next_row (cur_row t) (t_rows t) u)
     else Some (on_grid (set_cursor (t_cols t - 1) (cur_row t)) (u\<lparr>t_pending_wrap := True\<rparr>)))"
  using assms(1,2) by (subst wide_loop.simps) (simp add: Let_def assms(3,4))

lemma wide_loop_pad:
  "cs \<noteq> [] \<Longrightarrow> t_cols t - cur_col t < 2 \<Longrightarrow>
   wide_loop cs t = wide_loop cs (wrap_to_next_row (cur_row t) (t_rows t) (wide_pad (cur_row t) t))"
  by (subst wide_loop.simps) (simp add: Let_def)

lemma wide_loop_draws:
  "term_wf t \<Longrightarrow> \<forall>c \<in> set cs. is_scalar c \<Longrightarrow> \<exists>u. wide_loop cs t = Some u \<and> draws t u"
proof (induction "length cs" arbitrary: cs t rule: less_induct)
  case less
  have room: "\<exists>u. wide_loop cs t = Some u \<and> draws t u"
    if cs: "cs \<noteq> []" and wf: "term_wf t" and space: "2 \<le> t_cols t - cur_col t" for t
  proof -
    define fit where "fit = min ((t_cols t - cur_col t) div 2) (length cs)"
    define u where "u = on_grid (set_cells (cur_col t) (cur_row t) (wide_cells (t_attrs t) (take fit cs))) t"
    have fit: "0 < fit" "cur_col t + 2 * fit \<le> t_cols t" using space cs by (auto simp: fit_def min_def)
    have sc: "\<forall>c \<in> set (take fit cs). is_scalar c" "\<forall>c \<in> set (drop fit cs). is_scalar c"
      using less.prems(2) by (auto dest: in_set_takeD in_set_dropD)
    have u: "draws t u" unfolding u_def using fit sc by (intro wide_run_draws wf) (auto simp: min_def)
    note wfu = draws_wf [OF u wf]
    have len: "length (drop fit cs) < length cs" using fit cs by simp
    have r: "t_rows u = t_rows t" using draws_fields [OF u] by simp
    have 1: "draws t (on_grid (set_cursor x y) u)" for x y using draws_trans [OF u draws_cursor [OF wfu]] .
    have 2: "draws t (wrap_to_next_row (cur_row t) (t_rows t) u)"
      using draws_trans [OF u] wrap_draws [OF wfu, of "cur_row t"] r by simp
    have 3: "draws t (on_grid (set_cursor x y) (u\<lparr>t_pending_wrap := True\<rparr>))" for x y
      using draws_trans [OF u draws_cursor_unwrap [OF wfu]] .
    show ?thesis
      unfolding wide_loop_step [OF cs space fit_def u_def]
      by (rule loop_draws [OF 1 2 3 less.hyps [OF len draws_wf [OF 1 wf] sc(2)]
            less.hyps [OF len draws_wf [OF 2 wf] sc(2)]])
  qed
  show ?case
  proof (cases "cs = [] \<or> 2 \<le> t_cols t - cur_col t")
    case True
    then show ?thesis using room less.prems draws_refl [OF term_wfD(1)] by (auto simp: wide_loop.simps)
  next
    case False
    let ?p = "wide_pad (cur_row t) t"
    have p: "draws t ?p" using less.prems term_wfD by (intro wide_pad_draws) blast+
    note w = wrap_draws [OF draws_wf [OF p less.prems(1)], of "cur_row t"]
    have d: "draws t (wrap_to_next_row (cur_row t) (t_rows t) ?p)" "cur_col (wrap_to_next_row (cur_row t) (t_rows t) ?p) = 0"
      using w draws_trans [OF p] draws_fields(3) [OF p] by simp_all
    have "2 \<le> t_cols (wrap_to_next_row (cur_row t) (t_rows t) ?p)"
      using draws_fields [OF d(1)] term_wfD(2) [OF less.prems(1)] by simp
    then show ?thesis
      using False room [OF _ draws_wf [OF d(1) less.prems(1)]] d draws_trans [OF d(1)] wide_loop_pad [of cs t] by fastforce
  qed
qed

lemma body_wf:
  assumes "term_wf t"
  shows "\<exists>u. write_ascii_body bs t = Some u \<and> term_wf u"
    "\<forall>c \<in> set cs. is_scalar c \<Longrightarrow> \<exists>u. write_wide_body cs t = Some u \<and> term_wf u"
proof -
  have p: "term_wf (take_pending_wrap t)" by (rule draws_wf [OF pending_draws [OF assms] assms])
  show "\<exists>u. write_ascii_body bs t = Some u \<and> term_wf u"
    using ascii_loop_draws [OF p, of bs] draws_wf [OF _ p] assms by (auto simp: write_ascii_body_def)
  show "\<exists>u. write_wide_body cs t = Some u \<and> term_wf u" if "\<forall>c \<in> set cs. is_scalar c"
    using wide_loop_draws [OF p that] draws_wf [OF _ p] assms by (auto simp: write_wide_body_def)
qed

lemma prologue_wf:
  assumes "term_wf t" "batch_prologue_flush h t = (ok, u)"
  shows "term_wf u"
  using assms flush_cluster_wf(1) [OF assms(1)]
  by (auto simp: batch_prologue_flush_def Let_def split: if_splits)

lemma print_bytes_wf: "term_wf t \<Longrightarrow> term_wf (print_bytes wide bs t)"
  by (rule fold_wf) (simp_all add: print_wf)

lemma fast_width_printable: "printable b \<Longrightarrow> fast_width (unat b) = Some 1"
  by (simp add: printable_def fast_width_def boring_width_def word_le_nat_alt)

lemma ascii_run_wf:
  assumes "term_wf t" "run \<noteq> []" "\<forall>b \<in> set run. printable b"
  shows "\<exists>u. ascii_run wide run t = Some u \<and> term_wf u"
proof -
  obtain ok u where p: "batch_prologue_flush False t = (ok, u)" by fastforce
  note u = prologue_wf [OF assms(1) p]
  obtain v where v: "write_ascii_body (butlast run) u = Some v" "term_wf v" using body_wf(1) [OF u] by blast
  have "fast_width (unat (last run)) = Some 1" using assms(2,3) by (simp add: fast_width_printable)
  then show ?thesis
    using p u v commit_wf [OF v(2) is_scalar_byte, of True "last run" 1] print_bytes_wf [OF u]
    by (cases ok) (simp_all add: ascii_run_def)
qed

lemma print_ascii_run_wf:
  assumes "term_wf t" "run \<noteq> []" "\<forall>b \<in> set run. printable b"
  shows "\<exists>u. print_ascii_run wide run t = Some u \<and> term_wf u"
proof (cases "t_u_tags t \<and> (t_u_buf t \<noteq> [] \<or> 0x3C \<in> set run)")
  case False
  then show ?thesis using ascii_run_wf [OF assms] by (simp only: print_ascii_run_def if_False)
next
  case True
  define split where "split = (if t_u_buf t = [] then length (takeWhile (\<lambda>b. b \<noteq> 0x3C) run) else 0)"
  have "\<exists>v. (if split = 0 then Some t else ascii_run wide (take split run) t) = Some v \<and> term_wf v"
    using ascii_run_wf [OF assms(1), of "take split run"] assms by (auto dest: in_set_takeD)
  then show ?thesis
    using True print_bytes_wf by (auto simp: print_ascii_run_def Let_def split_def [symmetric] simp del: prod.case)
qed

lemma take_three: "take (3 + n) (a # b # c # bs) = a # b # c # take n bs"
  by (simp add: numeral_3_eq_3)

lemma wide_run_chars:
  "\<forall>c \<in> set (decode3_run (take (wide_boring_run_len bs) bs)). is_scalar c \<and> fast_width c = Some 2"
  "length (decode3_run (take (wide_boring_run_len bs) bs)) = wide_boring_run_len bs div 3"
proof (induction bs rule: wide_boring_run_len.induct)
  case (1 a b c bs)
  let ?c = "decode3_cp a b c" and ?n = "wide_boring_run_len bs"
  define P where "P \<longleftrightarrow> 0xE0 \<le> a \<and> a \<le> 0xEF \<and> b AND 0xC0 = 0x80 \<and> c AND 0xC0 = 0x80 \<and>
    is_scalar ?c \<and> fast_width ?c = Some 2"
  have step: "wide_boring_run_len (a # b # c # bs) = (if P then 3 + ?n else 0)"
    by (simp only: wide_boring_run_len.simps P_def)
  have P: "is_scalar ?c \<and> fast_width ?c = Some 2" if P using that unfolding P_def by blast
  have take: "take (wide_boring_run_len (a # b # c # bs)) (a # b # c # bs) =
      (if P then a # b # c # take ?n bs else [])"
    unfolding step using take_three [of ?n a b c bs] by (cases P) simp_all
  note IH = "1.IH" [unfolded P_def [symmetric]]
  { case 1
    show ?case unfolding take using IH(1) P by (cases P) (simp_all del: wide_boring_run_len.simps)
  next
    case 2
    show ?case unfolding take unfolding step using IH(2) by (cases P) (simp_all del: wide_boring_run_len.simps) }
qed simp_all

lemma print_wide_run_wf:
  assumes "term_wf t" "cs = decode3_run run" "cs \<noteq> []" "\<forall>c \<in> set cs. is_scalar c \<and> fast_width c = Some 2"
  shows "\<exists>u. print_wide_run wide run t = Some u \<and> term_wf u"
proof -
  define t1 where "t1 = (if t_u_buf t = [] then t else print_glyphs wide (t_u_buf t) (t\<lparr>t_u_buf := []\<rparr>))"
  have t1: "term_wf t1"
    using assms(1) term_wf_buf [OF assms(1)] term_wf_fields(6) [OF assms(1) U_OPEN_TAG_wf(2)]
    by (simp add: t1_def print_glyphs_wf)
  obtain ok u where p: "batch_prologue_flush (0xAC00 \<le> hd cs \<and> hd cs \<le> 0xD7A3) t1 = (ok, u)" by fastforce
  note u = prologue_wf [OF t1 p]
  have "\<forall>c \<in> set (butlast cs). is_scalar c" using assms(4) by (auto dest: in_set_butlastD)
  then obtain v where v: "write_wide_body (butlast cs) u = Some v" "term_wf v" using body_wf(2) [OF u] by blast
  have l: "is_scalar (last cs)" "fast_width (last cs) = Some 2" using assms(3,4) by simp_all
  have "term_wf (fold (print wide) cs u)" using u assms(4) by (intro fold_wf) (simp_all add: print_wf)
  then show ?thesis
    using p v commit_wf [OF v(2) l(1), of True 2] l(2)
    unfolding print_wide_run_def Let_def t1_def [symmetric] assms(2) [symmetric] by (cases ok) simp_all
qed

lemma decode4_scalar: "\<forall>c \<in> set (decode4_run bs). is_scalar c"
  by (induction bs rule: decode4_run.induct)
    (auto simp: Let_def from_u32_def is_scalar_def split: option.splits if_splits)

lemma lane_cases:
  assumes "lane wide bs t = Some (n, r)"
  shows "printable (hd bs) \<and> r = print_ascii_run wide (takeWhile printable bs) t \<or>
    r = Some (print_bytes wide (takeWhile printable bs) t) \<or>
    6 \<le> wide_boring_run_len bs \<and> r = print_wide_run wide (take (wide_boring_run_len bs) bs) t \<or>
    r = Some (fold (print wide) (decode4_run (take (quad_run_len bs) bs)) t)"
  using assms unfolding lane_def Let_def by (simp only: option.inject prod.inject option.distinct split: if_split_asm) blast+

lemma lane_wf:
  assumes "term_wf t" "lane wide bs t = Some (n, r)"
  shows "\<exists>u. r = Some u \<and> term_wf u"
proof -
  have bs: "bs \<noteq> []" using lane_pos [OF assms(2)] by simp
  let ?run = "takeWhile printable bs" and ?w = "wide_boring_run_len bs"
  consider (ascii) "printable (hd bs)" "r = print_ascii_run wide ?run t"
    | (lone) "r = Some (print_bytes wide ?run t)"
    | (wide) "6 \<le> ?w" "r = print_wide_run wide (take ?w bs) t"
    | (quad) "r = Some (fold (print wide) (decode4_run (take (quad_run_len bs) bs)) t)"
    using lane_cases [OF assms(2)] by blast
  then show ?thesis
  proof cases
    case ascii
    have "?run \<noteq> []" using ascii(1) bs by (cases bs) simp_all
    moreover have "\<forall>b \<in> set ?run. printable b" by (blast dest: set_takeWhileD)
    ultimately show ?thesis unfolding ascii(2) by (rule print_ascii_run_wf [OF assms(1)])
  next
    case lone
    then show ?thesis using print_bytes_wf [OF assms(1)] by simp
  next
    case wide
    have "length (decode3_run (take ?w bs)) \<noteq> 0" using wide_run_chars(2) [of bs] wide(1) by simp
    then have "decode3_run (take ?w bs) \<noteq> []" unfolding length_0_conv .
    then show ?thesis unfolding wide(2) by (intro print_wide_run_wf [OF assms(1) refl _ wide_run_chars(1)])
  next
    case quad
    have "term_wf (fold (print wide) (decode4_run (take (quad_run_len bs) bs)) t)"
      using decode4_scalar by (intro fold_wf assms(1)) (simp add: print_wf)
    then show ?thesis unfolding quad by blast
  qed
qed

section \<open>Bytes\<close>

lemma settle_wf:
  assumes "term_wf t"
  shows "fst (settle b t) = False" "term_wf (snd (settle b t))"
proof -
  have p: "t_predictions t = []" using assms by (simp add: term_wf_def side_ok_def)
  show "fst (settle b t) = False" "term_wf (snd (settle b t))"
    using p assms by (auto simp: settle_def settle_shadow_def note_echo_rtt_def Let_def split: list.split)
qed

lemma feed_byte_wf:
  assumes "term_wf t"
  shows "term_wf (feed_byte wide b t)"
proof -
  obtain p es where a: "advance (t_parser t) b = (p, es)" by fastforce
  have "parser_wf (t_parser t)" using assms by (simp add: term_wf_def side_ok_def)
  then have "parser_wf p" "\<forall>e \<in> set es. event_wf e"
    using advance_ok [of "t_parser t" b] a by (simp_all add: step_ok_def list_all_iff)
  then have "term_wf (fold (handle wide) es (t\<lparr>t_parser := p\<rparr>))"
    using handles_wf [OF term_wf_fields(10) [OF assms]] by simp
  then show ?thesis by (simp add: feed_byte_def a Let_def term_wf_def side_ok_def)
qed

lemma feed_loop_wf: "term_wf t \<Longrightarrow> \<exists>u. feed_loop wide bs t = Some u \<and> term_wf u"
proof (induction "length bs" arbitrary: bs t rule: less_induct)
  case less
  show ?case
  proof (cases bs)
    case Nil
    then show ?thesis using less.prems by (simp add: feed_loop.simps)
  next
    case (Cons b bs')
    obtain u where s: "settle b t = (False, u)" using settle_wf(1) [OF less.prems, of b] by (cases "settle b t") simp
    have u: "term_wf u" using settle_wf(2) [OF less.prems, of b] s by simp
    show ?thesis
    proof (cases "lane wide (b # bs') u")
      case None
      then show ?thesis
        using less.hyps [of bs', OF _ feed_byte_wf [OF u]] Cons s by (simp add: feed_loop.simps)
    next
      case (Some l)
      obtain n r where l: "l = (n, r)" by fastforce
      obtain v where v: "r = Some v" "term_wf v" using lane_wf [OF u] Some l by blast
      have "0 < n" using lane_pos Some l by blast
      then show ?thesis
        using less.hyps [of "drop n bs", OF _ v(2)] Cons s Some l v(1) by (simp add: feed_loop.simps)
    qed
  qed
qed

end
