(* ===== verification/TermLanes.thy ===== *)
theory TermLanes
  imports TermSafe
begin

text \<open>
  The bulk lanes of \<open>Terminal::feed\<close> against the path they replace.  Printing a run in one go, whole
  slices of a row at a time, leaves the terminal exactly as printing its characters one by one.
\<close>

section \<open>Scrolling does not look at the cursor\<close>

definition moved :: "nat \<Rightarrow> nat \<Rightarrow> grid \<Rightarrow> grid" where
  "moved c r g = g\<lparr>g_cursor_col := c, g_cursor_row := r\<rparr>"

lemma moved_fields [simp]:
  "g_cols (moved c r g) = g_cols g" "g_rows (moved c r g) = g_rows g" "g_cells (moved c r g) = g_cells g"
  "g_top_row (moved c r g) = g_top_row g" "g_clusters (moved c r g) = g_clusters g"
  "g_wrapped (moved c r g) = g_wrapped g" "g_prompt (moved c r g) = g_prompt g"
  "g_scrollback (moved c r g) = g_scrollback g" "g_sb_wrapped (moved c r g) = g_sb_wrapped g"
  "g_sb_prompt (moved c r g) = g_sb_prompt g" "g_sb_clusters (moved c r g) = g_sb_clusters g"
  "g_filed_blank_run (moved c r g) = g_filed_blank_run g"
  "g_scroll_push_count (moved c r g) = g_scroll_push_count g"
  "g_cursor_col (moved c r g) = c" "g_cursor_row (moved c r g) = r"
  by (simp_all add: moved_def)

lemma moved_updates [simp]:
  "moved c r g\<lparr>g_cells := x1\<rparr> = moved c r (g\<lparr>g_cells := x1\<rparr>)"
  "moved c r g\<lparr>g_clusters := x2\<rparr> = moved c r (g\<lparr>g_clusters := x2\<rparr>)"
  "moved c r g\<lparr>g_wrapped := x3\<rparr> = moved c r (g\<lparr>g_wrapped := x3\<rparr>)"
  "moved c r g\<lparr>g_prompt := x4\<rparr> = moved c r (g\<lparr>g_prompt := x4\<rparr>)"
  "moved c r g\<lparr>g_scrollback := x5\<rparr> = moved c r (g\<lparr>g_scrollback := x5\<rparr>)"
  "moved c r g\<lparr>g_sb_wrapped := x6\<rparr> = moved c r (g\<lparr>g_sb_wrapped := x6\<rparr>)"
  "moved c r g\<lparr>g_sb_prompt := x7\<rparr> = moved c r (g\<lparr>g_sb_prompt := x7\<rparr>)"
  "moved c r g\<lparr>g_sb_clusters := x8\<rparr> = moved c r (g\<lparr>g_sb_clusters := x8\<rparr>)"
  "moved c r g\<lparr>g_filed_blank_run := x9\<rparr> = moved c r (g\<lparr>g_filed_blank_run := x9\<rparr>)"
  "moved c r g\<lparr>g_scroll_push_count := x10\<rparr> = moved c r (g\<lparr>g_scroll_push_count := x10\<rparr>)"
  "moved c r g\<lparr>g_top_row := x11\<rparr> = moved c r (g\<lparr>g_top_row := x11\<rparr>)"
  "moved c r g\<lparr>g_panic := x12\<rparr> = moved c r (g\<lparr>g_panic := x12\<rparr>)"
  by (simp_all add: moved_def)

lemma moved_basic [simp]:
  "check ok (moved c r g) = moved c r (check ok g)"
  "phys_row (moved c r g) k = phys_row g k" "phys_cells (moved c r g) k = phys_cells g k"
  "put_phys k xs (moved c r g) = moved c r (put_phys k xs g)"
  "keep_row_clusters ks (moved c r g) = moved c r (keep_row_clusters ks g)"
  "trim_mirrors (moved c r g) = moved c r (trim_mirrors g)"
  "copy_row a b (moved c r g) = moved c r (copy_row a b g)"
  "copy_wrapped a b (moved c r g) = moved c r (copy_wrapped a b g)"
  "put_wrapped a w (moved c r g) = moved c r (put_wrapped a w g)"
  "blank_row a fill (moved c r g) = moved c r (blank_row a fill g)"
  by (simp_all add: check_def phys_row_def phys_cells_def put_phys_def keep_row_clusters_def trim_mirrors_def
      copy_row_def copy_wrapped_def put_wrapped_def blank_row_def Let_def)

lemma fold_moved:
  assumes "\<And>x g. f x (moved c r g) = moved c r (f x g)"
  shows "fold f xs (moved c r g) = moved c r (fold f xs g)"
  by (induction xs arbitrary: g) (simp_all add: assms)

lemma funpow_moved:
  assumes "\<And>g. f (moved c r g) = moved c r (f g)"
  shows "(f ^^ n) (moved c r g) = moved c r ((f ^^ n) g)"
  by (induction n) (simp_all add: assms)

lemma degrade_cell_moved:
  "degrade_cell s i (ks, moved c r g) = (fst (degrade_cell s i (ks, g)), moved c r (snd (degrade_cell s i (ks, g))))"
  by (simp add: degrade_cell_def Let_def split: option.split)

lemma degrade_moved [simp]:
  "degrade_clusters_in_row s n (moved c r g) =
     (fst (degrade_clusters_in_row s n g), moved c r (snd (degrade_clusters_in_row s n g)))"
proof -
  have "fold (degrade_cell s) xs (ks, moved c r g) =
      (fst (fold (degrade_cell s) xs (ks, g)), moved c r (snd (fold (degrade_cell s) xs (ks, g))))" for xs ks
    by (induction xs arbitrary: ks g) (simp_all add: degrade_cell_moved)
  then show ?thesis by (simp add: degrade_clusters_in_row_def)
qed

lemma file_row_moved [simp]: "file_row k (moved c r g) = moved c r (file_row k g)"
  by (simp add: file_row_def Let_def split_beta)

lemma scroll_line_moved [simp]: "scroll_line fill (moved c r g) = moved c r (scroll_line fill g)"
  by (simp add: scroll_line_def Let_def)

lemma region_line_moved [simp]: "region_line tp bt fill (moved c r g) = moved c r (region_line tp bt fill g)"
  by (simp add: region_line_def region_file_def Let_def fold_moved)

lemma scroll_up_moved [simp]:
  "scroll_up n fill (moved c r g) = moved c r (scroll_up n fill g)"
  "scroll_up_region tp bt n fill (moved c r g) = moved c r (scroll_up_region tp bt n fill g)"
  by (simp_all add: scroll_up_def scroll_up_region_def funpow_moved)

lemma moved_moved [simp]: "moved c r (moved c' r' g) = moved c r g"
  by (simp add: moved_def)

lemma set_cursor_moved: "set_cursor c r g = moved (min c (g_cols g - 1)) (min r (g_rows g - 1)) g"
  by (simp add: set_cursor_def moved_def)

lemma set_cursor_of_moved [simp]: "set_cursor c r (moved c' r' g) = set_cursor c r g"
  by (simp add: set_cursor_moved)

section \<open>Wrapping does not look at the cursor\<close>

lemma region_scroll_up_moved:
  "region_scroll_up n (on_grid (moved c r) t) = on_grid (moved c r) (region_scroll_up n t)"
  by (simp add: region_scroll_up_def Let_def)

lemma wrap_moved: "wrap_to_next_row row rows (on_grid (moved c r) t) = wrap_to_next_row row rows t"
  by (simp add: wrap_to_next_row_def region_scroll_up_moved Let_def)

lemma do_pending_wrap_eq:
  "do_pending_wrap t = wrap_to_next_row (cur_row t) (t_rows t) (t\<lparr>t_pending_wrap := False\<rparr>)"
  by (simp add: do_pending_wrap_def wrap_to_next_row_def Let_def)

section \<open>Runs of one row\<close>

abbreviation glyph :: "nat \<Rightarrow> uchar \<Rightarrow> terminal \<Rightarrow> terminal" where
  "glyph w c t \<equiv> fst (write_glyph c w t)"

definition glyph_cells :: "nat \<Rightarrow> cell_attrs \<Rightarrow> uchar \<Rightarrow> cell list" where
  "glyph_cells w a c = (if w = 2 then [\<lparr>ch = c, attrs = a\<rparr>, \<lparr>ch = 0, attrs = a\<rparr>] else [\<lparr>ch = c, attrs = a\<rparr>])"

definition run_cells :: "nat \<Rightarrow> cell_attrs \<Rightarrow> uchar list \<Rightarrow> cell list" where
  "run_cells w a cs = concat (map (glyph_cells w a) cs)"

text \<open>The terminal after the cursor has moved past column \<open>next - 1\<close> of its row.\<close>

definition past :: "nat \<Rightarrow> terminal \<Rightarrow> terminal" where
  "past next t =
     (if next < t_cols t then on_grid (set_cursor next (cur_row t)) t
      else on_grid (set_cursor (t_cols t - 1) (cur_row t)) (t\<lparr>t_pending_wrap := True\<rparr>))"

definition plain :: "terminal \<Rightarrow> bool" where
  "plain t \<longleftrightarrow> term_wf t \<and> \<not> t_insert_mode t \<and> \<not> t_pending_wrap t"

lemma set_cells_moved [simp]: "set_cells col row run (moved c r g) = moved c r (set_cells col row run g)"
  by (simp add: set_cells_def Let_def)

lemma set_cells_append:
  assumes "grid_wf g" "row < g_rows g" "col + length xs + length ys \<le> g_cols g"
  shows "set_cells (col + length xs) row ys (set_cells col row xs g) = set_cells col row (xs @ ys) g"
proof -
  let ?b = "phys_row g row * g_cols g + col"
  have fit: "?b + length xs + length ys \<le> length (g_cells g)" using row_index [OF assms(1,2)] assms(3) by simp
  have p: "phys_row (g\<lparr>g_cells := cs\<rparr>) row = phys_row g row" for cs by (simp add: phys_row_def Let_def)
  have "blit (blit (g_cells g) ?b xs) (?b + length xs) ys = blit (g_cells g) ?b (xs @ ys)"
    using fit by (simp add: blit_def ac_simps)
  then show ?thesis using fit by (simp add: set_cells_def Let_def p check_def add.assoc)
qed

lemma set_cell_pair:
  assumes "grid_wf g" "row < g_rows g" "Suc col < g_cols g"
  shows "set_cell (Suc col) row y (set_cells col row [x] g) = set_cells col row [x, y] g"
proof -
  let ?h = "set_cells col row [x] g"
  have p: "phys_row ?h row = phys_row g row" by (simp add: phys_row_def Let_def)
  have "length (g_cells ?h) = length (g_cells g)"
    using row_index [OF assms(1,2)] assms(3) by (simp add: set_cells_def Let_def check_def)
  then have "set_cell (Suc col) row y ?h = set_cells (Suc col) row [y] ?h"
    using row_index [OF assms(1,2)] assms(3)
    by (simp add: set_cell_def set_cells_def [of "Suc col"] Let_def p blit_def upd_conv_take_nth_drop Suc_le_eq)
  then show ?thesis using set_cells_append [OF assms(1,2), of col "[x]" "[y]"] assms(3) by simp
qed

lemma length_glyph_cells [simp]: "w = 1 \<or> w = 2 \<Longrightarrow> length (glyph_cells w a c) = w"
  by (auto simp: glyph_cells_def)

lemma length_run_cells [simp]: "w = 1 \<or> w = 2 \<Longrightarrow> length (run_cells w a cs) = w * length cs"
  by (induction cs) (auto simp: run_cells_def)

lemma run_cells_simps [simp]: "run_cells w a [] = []" "run_cells w a (c # cs) = glyph_cells w a c @ run_cells w a cs"
  by (simp_all add: run_cells_def)

lemma run_cells_1: "run_cells 1 a cs = map (\<lambda>c. \<lparr>ch = c, attrs = a\<rparr>) cs"
  by (induction cs) (simp_all add: glyph_cells_def)

lemma run_cells_2: "run_cells 2 a cs = wide_cells a cs"
  by (induction cs) (simp_all add: glyph_cells_def wide_cells_def)

lemma glyph_cells_blank: "term_wf t \<Longrightarrow> is_scalar c \<Longrightarrow> \<forall>x \<in> set (glyph_cells w (t_attrs t) c). blank_cell x"
  using pen_blank by (auto simp: glyph_cells_def)

lemma glyph_once:
  assumes "plain t" "w = 1 \<or> w = 2" "cur_col t + w \<le> t_cols t"
  shows "glyph w c t =
    past (cur_col t + w) (on_grid (set_cells (cur_col t) (cur_row t) (glyph_cells w (t_attrs t) c)) t)"
proof -
  have wf: "term_wf t" and st: "\<not> t_insert_mode t" "\<not> t_pending_wrap t" using assms(1) by (simp_all add: plain_def)
  note t = term_wfD [OF wf]
  have g: "grid_wf (t_grid t)" using t(1) by (simp add: grid_ok_def)
  have room: "glyph_room w t = t" using st assms(2,3) by (auto simp: glyph_room_def take_pending_wrap_def Let_def)
  have one: "set_cell (cur_col t) (cur_row t) x (t_grid t) = set_cells (cur_col t) (cur_row t) [x] (t_grid t)" for x
    using t g by (simp add: set_cell_set_cells)
  have two: "set_cell (Suc (cur_col t)) (cur_row t) y (set_cells (cur_col t) (cur_row t) [x] (t_grid t)) =
      set_cells (cur_col t) (cur_row t) [x, y] (t_grid t)" if "w = 2" for x y :: cell
    using set_cell_pair [OF g t(7), of "cur_col t" y x] that assms(3) by simp
  show ?thesis
    using st assms(2) by (auto simp: write_glyph_def room put_glyph_def past_def glyph_cells_def Let_def one two)
qed

lemma run_cells_blank:
  "term_wf t \<Longrightarrow> \<forall>c \<in> set cs. is_scalar c \<Longrightarrow> \<forall>x \<in> set (run_cells w (t_attrs t) cs). blank_cell x"
  using glyph_cells_blank by (auto simp: run_cells_def)

lemma plain_run:
  assumes "plain t" "w = 1 \<or> w = 2" "\<forall>c \<in> set cs. is_scalar c" "cur_col t + w * length cs \<le> t_cols t"
  shows "draws t (on_grid (set_cells (cur_col t) (cur_row t) (run_cells w (t_attrs t) cs)) t)"
proof -
  have wf: "term_wf t" using assms(1) by (simp add: plain_def)
  then show ?thesis
    using assms term_wfD [OF wf] run_cells_blank [OF wf assms(3)] by (intro draws_grid set_cells_keeps) auto
qed

lemma plain_draws: "draws t u \<Longrightarrow> plain t \<Longrightarrow> \<not> t_pending_wrap u \<Longrightarrow> plain u"
  using draws_wf by (auto simp: plain_def draws_def)

lemma glyph_run:
  assumes "w = 1 \<or> w = 2" "plain t" "cs \<noteq> []" "\<forall>c \<in> set cs. is_scalar c" "cur_col t + w * length cs \<le> t_cols t"
  shows "fold (glyph w) cs t =
    past (cur_col t + w * length cs) (on_grid (set_cells (cur_col t) (cur_row t) (run_cells w (t_attrs t) cs)) t)"
  using assms(2-)
proof (induction cs arbitrary: t)
  case (Cons c cs)
  let ?u = "on_grid (set_cells (cur_col t) (cur_row t) (glyph_cells w (t_attrs t) c)) t"
  have len: "cur_col t + w + w * length cs \<le> t_cols t" using Cons.prems(4) by simp
  have once: "glyph w c t = past (cur_col t + w) ?u" using len by (intro glyph_once Cons.prems(1) assms(1)) simp
  show ?case
  proof (cases "cs = []")
    case True
    then show ?thesis using once by simp
  next
    case False
    have "0 < w * length cs" using False assms(1) by auto
    then have room: "cur_col t + w < t_cols t" using len by linarith
    define v where "v = on_grid (set_cursor (cur_col t + w) (cur_row t)) ?u"
    have wf: "term_wf t" using Cons.prems(1) by (simp add: plain_def)
    note t = term_wfD [OF wf]
    have u: "draws t ?u"
      using plain_run [OF Cons.prems(1) assms(1), of "[c]"] Cons.prems(3) len by simp
    have v: "draws t v" unfolding v_def by (rule draws_trans [OF u draws_cursor [OF draws_wf [OF u wf]]])
    have pv: "plain v" using plain_draws [OF v Cons.prems(1)] Cons.prems(1) by (simp add: v_def plain_def)
    have cur: "cur_col v = cur_col t + w" "cur_row v = cur_row t" "t_cols v = t_cols t" "t_attrs v = t_attrs t"
      using t room by (simp_all add: v_def set_cursor_def)
    have "fold (glyph w) cs v =
        past (cur_col t + w + w * length cs)
          (on_grid (set_cells (cur_col t + w) (cur_row t) (run_cells w (t_attrs t) cs)) v)"
      using Cons.IH [OF pv False] Cons.prems(3) len by (simp add: cur)
    moreover have "set_cells (cur_col t + w) (cur_row t) (run_cells w (t_attrs t) cs) (t_grid v) =
        moved (cur_col t + w) (cur_row t) (set_cells (cur_col t) (cur_row t) (run_cells w (t_attrs t) (c # cs)) (t_grid t))"
      using set_cells_append [of "t_grid t" "cur_row t" "cur_col t" "glyph_cells w (t_attrs t) c"
          "run_cells w (t_attrs t) cs"] t assms(1) len room
      by (simp add: v_def set_cursor_moved grid_ok_def)
    moreover have "past n (t\<lparr>t_grid := moved x (cur_row t) h\<rparr>) = past n (t\<lparr>t_grid := h\<rparr>)"
      if "g_cursor_row h = cur_row t" for n x h
      using that by (simp add: past_def)
    moreover have "glyph w c t = v" using once room by (simp add: past_def v_def)
    ultimately show ?thesis by (simp add: v_def add.assoc)
  qed
qed simp

section \<open>The bulk writers\<close>

lemma glyph_pending:
  assumes "t_pending_wrap t"
  shows "glyph w c t = glyph w c (do_pending_wrap t)"
proof -
  have "\<not> t_pending_wrap (do_pending_wrap t)"
    by (simp add: do_pending_wrap_eq wrap_to_next_row_def region_scroll_up_def Let_def)
  then show ?thesis using assms by (simp add: write_glyph_def glyph_room_def take_pending_wrap_def)
qed

lemma no_wrap: "t\<lparr>t_grid := g, t_pending_wrap := False\<rparr> = t\<lparr>t_grid := g\<rparr>" if "\<not> t_pending_wrap t"
  using that by (cases t) simp

lemma past_edge:
  assumes "t_cols t \<le> next" "plain t"
  shows "do_pending_wrap (past next t) = wrap_to_next_row (cur_row t) (t_rows t) t"
proof -
  have r: "cur_row t < t_rows t" and p: "\<not> t_pending_wrap t" using term_wfD assms(2) by (auto simp: plain_def)
  have "past next t = on_grid (moved (t_cols t - 1) (cur_row t)) (t\<lparr>t_pending_wrap := True\<rparr>)"
    using assms(1) r by (simp add: past_def set_cursor_moved)
  then have "do_pending_wrap (past next t) =
      wrap_to_next_row (cur_row t) (t_rows t) (on_grid (moved (t_cols t - 1) (cur_row t)) t)"
    by (simp add: do_pending_wrap_eq no_wrap [OF p])
  then show ?thesis by (simp only: wrap_moved)
qed

lemma past_room: "next < t_cols t \<Longrightarrow> past next t = on_grid (set_cursor next (cur_row t)) t"
  by (simp add: past_def)

lemma past_full:
  "t_cols t \<le> next \<Longrightarrow> past next t = on_grid (set_cursor (t_cols t - 1) (cur_row t)) (t\<lparr>t_pending_wrap := True\<rparr>)"
  by (simp add: past_def)

text \<open>
  One round of either loop: \<open>u\<close> has the run in its row, and the rest goes on after it, on the same
  row or, with something left and no room, on the next.
\<close>

lemma round_step:
  assumes "plain u" "cs = xs @ ys" "fold (glyph w) xs t = past next u"
    "next < t_cols u \<Longrightarrow> loop ys (on_grid (set_cursor next (cur_row u)) u) =
       Some (fold (glyph w) ys (on_grid (set_cursor next (cur_row u)) u))"
    "t_cols u \<le> next \<Longrightarrow> ys \<noteq> [] \<Longrightarrow> loop ys (wrap_to_next_row (cur_row u) (t_rows u) u) =
       Some (fold (glyph w) ys (wrap_to_next_row (cur_row u) (t_rows u) u))"
    "c = t_cols u \<and> row = cur_row u \<and> rows = t_rows u \<and> (rest \<longleftrightarrow> ys \<noteq> [])"
  shows "(if next < c then loop ys (on_grid (set_cursor next row) u)
     else if rest then loop ys (wrap_to_next_row row rows u)
     else Some (on_grid (set_cursor (c - 1) row) (u\<lparr>t_pending_wrap := True\<rparr>))) =
     Some (fold (glyph w) cs t)"
proof -
  have all: "fold (glyph w) cs t = fold (glyph w) ys (past next u)" using assms(2,3) by simp
  consider "next < t_cols u" | "t_cols u \<le> next" "ys = []" | "t_cols u \<le> next" "ys \<noteq> []" by linarith
  then show ?thesis
  proof cases
    case 1
    then show ?thesis using assms(4,6) all past_room by simp
  next
    case 2
    then show ?thesis using assms(6) all past_full by simp
  next
    case 3
    obtain y zs where ys: "ys = y # zs" using 3(2) by (cases ys) simp
    have "t_pending_wrap (past next u)" using 3(1) by (simp add: past_def)
    from glyph_pending [OF this, of y w]
    have "glyph w y (past next u) = glyph w y (wrap_to_next_row (cur_row u) (t_rows u) u)"
      unfolding past_edge [OF 3(1) assms(1)] .
    then have "fold (glyph w) ys (past next u) = fold (glyph w) ys (wrap_to_next_row (cur_row u) (t_rows u) u)"
      by (simp add: ys)
    then show ?thesis using assms(5,6) 3 all by simp
  qed
qed

lemma wrap_pending [simp]: "t_pending_wrap (wrap_to_next_row row rows t) = t_pending_wrap t"
  by (simp add: wrap_to_next_row_def region_scroll_up_def Let_def)

lemma plain_wrap: "plain t \<Longrightarrow> plain (wrap_to_next_row (cur_row t) (t_rows t) t)"
  using plain_draws [OF conjunct1 [OF wrap_draws]] by (simp add: plain_def)

lemma plain_cursor: "plain t \<Longrightarrow> plain (on_grid (set_cursor c r) t)"
  using plain_draws [OF draws_cursor] by (simp add: plain_def)

lemma ascii_loop_glyphs: "plain t \<Longrightarrow> ascii_loop bs t = Some (fold (glyph 1) (map unat bs) t)"
proof (induction "length bs" arbitrary: bs t rule: less_induct)
  case less
  show ?case
  proof (cases "bs = []")
    case False
    have wf: "term_wf t" using less.prems by (simp add: plain_def)
    note t = term_wfD [OF wf]
    define n where "n = min (t_cols t - cur_col t) (length bs)"
    define u where "u = on_grid (set_row_run_ascii (cur_col t) (cur_row t) (t_attrs t) (take n bs)) t"
    have n: "0 < n" "n \<le> length bs" "cur_col t + n \<le> t_cols t" using t False by (simp_all add: n_def)
    have run: "set_row_run_ascii (cur_col t) (cur_row t) (t_attrs t) (take n bs) =
        set_cells (cur_col t) (cur_row t) (run_cells 1 (t_attrs t) (map unat (take n bs)))"
      by (simp add: set_row_run_ascii_def run_cells_1 comp_def fun_eq_iff del: One_nat_def)
    have u: "u = on_grid (set_cells (cur_col t) (cur_row t) (run_cells 1 (t_attrs t) (map unat (take n bs)))) t"
      by (simp only: u_def run)
    have d: "draws t u" unfolding u using n by (intro plain_run less.prems) auto
    have pu: "plain u" using plain_draws [OF d less.prems] less.prems by (simp add: u plain_def)
    have c: "t_cols u = t_cols t" "t_rows u = t_rows t" "cur_row u = cur_row t" by (simp_all add: u)
    have g: "fold (glyph 1) (map unat (take n bs)) t = past (cur_col t + n) u"
      unfolding u using glyph_run [of 1 t "map unat (take n bs)"] less.prems n False by simp
    have len: "length (drop n bs) < length bs" using n False by simp
    have split: "map unat bs = map unat (take n bs) @ map unat (drop n bs)"
      by (simp add: map_append [symmetric] del: map_append)
    show ?thesis
      unfolding ascii_loop_step [OF False n_def u_def]
      using less.hyps [OF len plain_cursor [OF pu]] less.hyps [OF len plain_wrap [OF pu]] c
      by (intro round_step [OF pu split g, of "\<lambda>_. ascii_loop (drop n bs)"]) simp_all
  qed (simp add: ascii_loop.simps)
qed

lemma wide_loop_edge:
  assumes "plain t" "cs \<noteq> []" "t_cols t \<le> Suc (cur_col t)"
    "plain (wrap_to_next_row (cur_row t) (t_rows t) (wide_pad (cur_row t) t))"
    "2 \<le> t_cols (wrap_to_next_row (cur_row t) (t_rows t) (wide_pad (cur_row t) t)) -
      cur_col (wrap_to_next_row (cur_row t) (t_rows t) (wide_pad (cur_row t) t))"
  shows "fold (glyph 2) cs t = fold (glyph 2) cs (wrap_to_next_row (cur_row t) (t_rows t) (wide_pad (cur_row t) t))"
proof -
  let ?v = "wrap_to_next_row (cur_row t) (t_rows t) (wide_pad (cur_row t) t)"
  have p: "\<not> t_pending_wrap t" "\<not> t_pending_wrap ?v" using assms(1,4) by (simp_all add: plain_def)
  have "glyph_room 2 t = ?v" using p(1) assms(3) by (simp add: glyph_room_def take_pending_wrap_def)
  moreover have "glyph_room 2 ?v = ?v"
    using p(2) assms(5) by (simp add: glyph_room_def take_pending_wrap_def Let_def)
  ultimately have "glyph 2 c t = glyph 2 c ?v" for c by (simp add: write_glyph_def)
  then show ?thesis using assms(2) by (cases cs) simp_all
qed

lemma wide_loop_glyphs:
  "plain t \<Longrightarrow> \<forall>c \<in> set cs. is_scalar c \<Longrightarrow> wide_loop cs t = Some (fold (glyph 2) cs t)"
proof (induction "length cs" arbitrary: cs t rule: less_induct)
  case less
  have room: "wide_loop cs t = Some (fold (glyph 2) cs t)"
    if cs: "cs \<noteq> []" and pl: "plain t" and space: "2 \<le> t_cols t - cur_col t" for t
  proof -
    have wf: "term_wf t" using pl by (simp add: plain_def)
    define fit where "fit = min ((t_cols t - cur_col t) div 2) (length cs)"
    define u where "u = on_grid (set_cells (cur_col t) (cur_row t) (wide_cells (t_attrs t) (take fit cs))) t"
    have fit: "0 < fit" "fit \<le> length cs" "cur_col t + 2 * fit \<le> t_cols t"
      using space cs by (auto simp: fit_def min_def)
    have sc: "\<forall>c \<in> set (take fit cs). is_scalar c" "\<forall>c \<in> set (drop fit cs). is_scalar c"
      using less.prems(2) by (auto dest: in_set_takeD in_set_dropD)
    have u: "u = on_grid (set_cells (cur_col t) (cur_row t) (run_cells 2 (t_attrs t) (take fit cs))) t"
      by (simp only: u_def run_cells_2)
    have d: "draws t u" unfolding u using fit sc by (intro plain_run pl) auto
    have pu: "plain u" using plain_draws [OF d pl] pl by (simp add: u plain_def)
    have c: "t_cols u = t_cols t" "t_rows u = t_rows t" "cur_row u = cur_row t" by (simp_all add: u)
    have g: "fold (glyph 2) (take fit cs) t = past (cur_col t + fit * 2) u"
      unfolding u using glyph_run [of 2 t "take fit cs"] pl fit sc cs by (simp add: mult.commute)
    have len: "length (drop fit cs) < length cs" using fit cs by simp
    show ?thesis
      unfolding wide_loop_step [OF cs space fit_def u_def]
      using less.hyps [OF len plain_cursor [OF pu] sc(2)] less.hyps [OF len plain_wrap [OF pu] sc(2)] c
      by (intro round_step [OF pu append_take_drop_id [symmetric] g, of wide_loop]) simp_all
  qed
  show ?case
  proof (cases "cs = [] \<or> 2 \<le> t_cols t - cur_col t")
    case True
    then show ?thesis using room less.prems by (auto simp: wide_loop.simps)
  next
    case False
    let ?p = "wide_pad (cur_row t) t"
    let ?v = "wrap_to_next_row (cur_row t) (t_rows t) ?p"
    have wf: "term_wf t" using less.prems(1) by (simp add: plain_def)
    note t = term_wfD [OF wf]
    have p: "draws t ?p" using wide_pad_draws [OF wf t(7)] .
    note w = wrap_draws [OF draws_wf [OF p wf], of "cur_row t"]
    have d: "draws t ?v" "cur_col ?v = 0"
      using w draws_trans [OF p] draws_fields(3) [OF p] by simp_all
    have "\<not> t_pending_wrap ?p" using less.prems(1) by (simp add: wide_pad_def plain_def Let_def)
    then have v: "plain ?v" using plain_draws [OF d(1) less.prems(1)] by simp
    have c: "2 \<le> t_cols ?v" using draws_fields [OF d(1)] t(2) by simp
    then have s: "2 \<le> t_cols ?v - cur_col ?v" using d(2) by simp
    have e: "t_cols t \<le> Suc (cur_col t)" "cs \<noteq> []" "t_cols t - cur_col t < 2" using False by auto
    show ?thesis
      unfolding wide_loop_pad [OF e(2,3)] wide_loop_edge [OF less.prems(1) e(2,1) v s]
      by (rule room [OF e(2) v s])
  qed
qed

lemma fold_pending:
  "fold (glyph w) cs (take_pending_wrap t) = fold (glyph w) cs t" if "cs \<noteq> []"
  using that glyph_pending [of t _ w] by (cases cs) (auto simp: take_pending_wrap_def)

lemma plain_pending: "term_wf t \<Longrightarrow> \<not> t_insert_mode t \<Longrightarrow> plain (take_pending_wrap t)"
  using draws_wf [OF pending_draws]
  by (simp add: plain_def) (simp add: take_pending_wrap_def do_pending_wrap_eq wrap_to_next_row_def region_scroll_up_def Let_def)

text \<open>The two bulk writers are the per-glyph writer iterated.\<close>

lemma body_glyphs:
  assumes "term_wf t" "\<not> t_insert_mode t"
  shows "write_ascii_body bs t = Some (fold (glyph 1) (map unat bs) t)"
    "\<forall>c \<in> set cs. is_scalar c \<Longrightarrow> write_wide_body cs t = Some (fold (glyph 2) cs t)"
  using ascii_loop_glyphs [OF plain_pending [OF assms], of bs] wide_loop_glyphs [OF plain_pending [OF assms], of cs]
  by (auto simp: write_ascii_body_def write_wide_body_def fold_pending)

section \<open>The cluster being built is not read by the writer\<close>

definition clustered :: "ustring \<Rightarrow> (uchar \<times> nat) option \<Rightarrow> (nat \<times> nat \<times> nat) option \<Rightarrow> bool \<Rightarrow> terminal \<Rightarrow> terminal" where
  "clustered b f a s t =
     t\<lparr>t_cluster_buf := b, t_cluster_fast := f, t_cluster_anchor := a, t_seg_synced := s\<rparr>"

lemma clustered_fields [simp]:
  "t_grid (clustered b f a s t) = t_grid t" "t_pending_wrap (clustered b f a s t) = t_pending_wrap t"
  "t_attrs (clustered b f a s t) = t_attrs t" "t_insert_mode (clustered b f a s t) = t_insert_mode t"
  "t_scroll_top (clustered b f a s t) = t_scroll_top t" "t_scroll_bot (clustered b f a s t) = t_scroll_bot t"
  "t_u_tags (clustered b f a s t) = t_u_tags t" "t_u_open (clustered b f a s t) = t_u_open t"
  "t_u_buf (clustered b f a s t) = t_u_buf t" "t_g0_graphics (clustered b f a s t) = t_g0_graphics t"
  "t_cluster_buf (clustered b f a s t) = b" "t_cluster_fast (clustered b f a s t) = f"
  "clustered b f a s (clustered b' f' a' s' t) = clustered b f a s t"
  by (simp_all add: clustered_def)

lemma clustered_updates [simp]:
  "clustered b f a s t\<lparr>t_grid := g\<rparr> = clustered b f a s (t\<lparr>t_grid := g\<rparr>)"
  "clustered b f a s t\<lparr>t_pending_wrap := p\<rparr> = clustered b f a s (t\<lparr>t_pending_wrap := p\<rparr>)"
  by (simp_all add: clustered_def)

lemma writer_clustered:
  "region_scroll_up n (clustered b f a s t) = clustered b f a s (region_scroll_up n t)"
  "wrap_to_next_row r rs (clustered b f a s t) = clustered b f a s (wrap_to_next_row r rs t)"
  "do_pending_wrap (clustered b f a s t) = clustered b f a s (do_pending_wrap t)"
  "take_pending_wrap (clustered b f a s t) = clustered b f a s (take_pending_wrap t)"
  "wide_pad r (clustered b f a s t) = clustered b f a s (wide_pad r t)"
proof -
  show r: "region_scroll_up n (clustered b f a s t) = clustered b f a s (region_scroll_up n t)" for n t
    by (simp add: region_scroll_up_def Let_def)
  show w: "wrap_to_next_row r rs (clustered b f a s t) = clustered b f a s (wrap_to_next_row r rs t)" for t r rs
    by (simp add: wrap_to_next_row_def Let_def r)
  show d: "do_pending_wrap (clustered b f a s t) = clustered b f a s (do_pending_wrap t)"
    by (simp add: do_pending_wrap_eq w)
  show "take_pending_wrap (clustered b f a s t) = clustered b f a s (take_pending_wrap t)"
    by (simp add: take_pending_wrap_def d)
  show "wide_pad r (clustered b f a s t) = clustered b f a s (wide_pad r t)"
    by (simp add: wide_pad_def Let_def)
qed

lemma write_glyph_clustered:
  "write_glyph c w (clustered b f a s t) = (clustered b f a s (glyph w c t), snd (write_glyph c w t))"
proof -
  have "glyph_room w (clustered b f a s t) = clustered b f a s (glyph_room w t)"
    by (simp add: glyph_room_def Let_def writer_clustered)
  moreover have "put_glyph c w (clustered b f a s u) = clustered b f a s (put_glyph c w u)" for u
    by (simp add: put_glyph_def Let_def)
  ultimately show ?thesis by (simp add: write_glyph_def Let_def)
qed

lemma commit_clustered:
  "commit_cluster_head c w fast t =
     clustered [c] (if fast then Some (c, w) else None)
       (Some (fst (snd (write_glyph c w t)), snd (snd (write_glyph c w t)), w)) False (glyph w c t)"
  "commit_cluster_head c w fast (clustered b f a s t) = commit_cluster_head c w fast t"
proof -
  show 1: "commit_cluster_head c w fast t =
     clustered [c] (if fast then Some (c, w) else None)
       (Some (fst (snd (write_glyph c w t)), snd (snd (write_glyph c w t)), w)) False (glyph w c t)" for t
    by (simp add: commit_cluster_head_def clustered_def split_beta)
  show "commit_cluster_head c w fast (clustered b f a s t) = commit_cluster_head c w fast t"
    by (simp add: 1 write_glyph_clustered)
qed

section \<open>Printing one by one\<close>

text \<open>
  A state in which every character with a fast width is printed by the fast path: no cluster but a
  single fast character, no line drawing, no tag in progress.
\<close>

definition fast_ready :: "terminal \<Rightarrow> bool" where
  "fast_ready t \<longleftrightarrow> (t_cluster_buf t = [] \<or> t_cluster_fast t \<noteq> None) \<and> \<not> t_g0_graphics t \<and>
     \<not> (t_u_tags t \<and> t_u_open t) \<and> t_u_buf t = []"

definition untagged :: "terminal \<Rightarrow> uchar list \<Rightarrow> bool" where
  "untagged t cs \<longleftrightarrow> (t_u_tags t \<longrightarrow> 0x3C \<notin> set cs)"

definition modes :: "terminal \<Rightarrow> bool \<times> bool \<times> bool \<times> ustring" where
  "modes t = (t_g0_graphics t, t_u_tags t, t_u_open t, t_u_buf t)"

lemma modes_updates [simp]:
  "modes (t\<lparr>t_grid := g\<rparr>) = modes t" "modes (t\<lparr>t_pending_wrap := p\<rparr>) = modes t"
  by (simp_all add: modes_def)

lemma writer_modes:
  "modes (region_scroll_up n t) = modes t" "modes (wrap_to_next_row r rs t) = modes t"
  "modes (do_pending_wrap t) = modes t" "modes (take_pending_wrap t) = modes t" "modes (wide_pad r t) = modes t"
proof -
  show r: "modes (region_scroll_up n t) = modes t" for n t by (simp add: region_scroll_up_def Let_def)
  show w: "modes (wrap_to_next_row r rs t) = modes t" for r rs t by (simp add: wrap_to_next_row_def Let_def r)
  show d: "modes (do_pending_wrap t) = modes t" by (simp add: do_pending_wrap_eq w)
  show "modes (take_pending_wrap t) = modes t" by (simp add: take_pending_wrap_def d)
  show "modes (wide_pad r t) = modes t" by (simp add: wide_pad_def Let_def)
qed

lemma modes_glyph: "modes (glyph w c t) = modes t"
proof -
  have "modes (glyph_room w t) = modes t" by (simp add: glyph_room_def Let_def writer_modes)
  moreover have "modes (put_glyph c w u) = modes u" for u by (simp add: put_glyph_def Let_def)
  ultimately show ?thesis by (simp add: write_glyph_def Let_def)
qed

lemma glyph_modes:
  "t_g0_graphics (glyph w c t) = t_g0_graphics t" "t_u_tags (glyph w c t) = t_u_tags t"
  "t_u_open (glyph w c t) = t_u_open t" "t_u_buf (glyph w c t) = t_u_buf t"
  using modes_glyph unfolding modes_def by (simp_all only: prod.inject)

lemma print_fast:
  assumes "fast_ready t" "untagged t [c]" "fast_width c = Some w"
  shows "print wide c t = commit_cluster_head c w True t" "fast_ready (print wide c t)"
    "t_u_tags (print wide c t) = t_u_tags t"
proof -
  show p: "print wide c t = commit_cluster_head c w True t"
    using assms by (auto simp: print_def print_glyph_def fast_ready_def untagged_def)
  show "fast_ready (print wide c t)" "t_u_tags (print wide c t) = t_u_tags t"
    unfolding p commit_clustered(1) using assms(1) by (simp_all add: fast_ready_def glyph_modes)
qed

lemma prints_fast:
  assumes "fast_ready t" "untagged t (cs @ [c])" "\<forall>x \<in> set (cs @ [c]). fast_width x = Some w"
  shows "fold (print wide) (cs @ [c]) t = commit_cluster_head c w True (fold (glyph w) cs t)"
  using assms
proof (induction cs arbitrary: t)
  case Nil
  then show ?case using print_fast(1) [of t c w] by simp
next
  case (Cons x xs)
  have x: "untagged t [x]" "fast_width x = Some w" using Cons.prems by (auto simp: untagged_def)
  note p = print_fast [OF Cons.prems(1) x, of wide]
  have "fold (print wide) (xs @ [c]) (print wide x t) =
      commit_cluster_head c w True (fold (glyph w) xs (print wide x t))"
    using Cons.prems by (intro Cons.IH p(2)) (auto simp: untagged_def p(3))
  moreover have "fold (glyph w) xs (clustered b f a s u) = clustered b f a s (fold (glyph w) xs u)" for b f a s u
    by (induction xs arbitrary: u) (simp_all add: write_glyph_clustered)
  ultimately show ?case by (simp add: p(1) commit_clustered write_glyph_clustered)
qed

lemma clustered_flush: "flush_cluster_keep_cursor t = clustered [] None None (t_seg_synced t) t"
  by (simp add: flush_cluster_keep_cursor_def clustered_def)

lemma glyphs_clustered: "fold (glyph w) cs (clustered b f a s u) = clustered b f a s (fold (glyph w) cs u)"
  by (induction cs arbitrary: u) (simp_all add: write_glyph_clustered)

lemma prologue_fast:
  assumes "term_wf t" "fast_ready t"
  shows "\<exists>b f a s. batch_prologue_flush h t = (True, clustered b f a s t)"
proof (cases "t_cluster_buf t = []")
  case True
  then have "batch_prologue_flush h t =
      (True, clustered (t_cluster_buf t) (t_cluster_fast t) (t_cluster_anchor t) (t_seg_synced t) t)"
    by (simp add: batch_prologue_flush_def clustered_def)
  then show ?thesis by blast
next
  case False
  then obtain c w where "t_cluster_fast t = Some (c, w)" using assms(2) by (auto simp: fast_ready_def)
  moreover have "cluster_ok (t_cluster_buf t) (t_cluster_fast t)"
    using assms(1) by (simp add: term_wf_def side_ok_def)
  ultimately have "t_cluster_buf t = [c]" "fast_width c = Some w" by (simp_all add: cluster_ok_def)
  then have "batch_prologue_flush h t = (True, clustered [] None None (t_seg_synced t) t)"
    by (simp add: batch_prologue_flush_def clustered_flush)
  then show ?thesis by blast
qed

lemma ascii_run_prints:
  assumes "term_wf t" "fast_ready t" "\<not> t_insert_mode t" "run \<noteq> []" "\<forall>b \<in> set run. printable b"
    "untagged t (map unat run)"
  shows "ascii_run wide run t = Some (print_bytes wide run t)"
proof -
  obtain b f a s where p: "batch_prologue_flush False t = (True, clustered b f a s t)"
    using prologue_fast [OF assms(1,2)] by blast
  have u: "term_wf (clustered b f a s t)" using prologue_wf [OF assms(1) p] .
  have run: "map unat run = map unat (butlast run) @ [unat (last run)]"
    using assms(4) by (metis append_butlast_last_id list.simps(8,9) map_append)
  have fast: "\<forall>x \<in> set (map unat run). fast_width x = Some 1" using assms(5) by (auto simp: fast_width_printable)
  have "print_bytes wide run t = fold (print wide) (map unat run) t" by (simp add: fold_map comp_def)
  also have "\<dots> = commit_cluster_head (unat (last run)) 1 True (fold (glyph 1) (map unat (butlast run)) t)"
    using prints_fast [OF assms(2), of "map unat (butlast run)" "unat (last run)" 1 wide] assms(6) fast
    unfolding run by blast
  also have "\<dots> = commit_cluster_head (unat (last run)) 1 True
      (fold (glyph 1) (map unat (butlast run)) (clustered b f a s t))"
    by (simp only: glyphs_clustered commit_clustered(2))
  finally show ?thesis using body_glyphs(1) [OF u] assms(3) p by (simp add: ascii_run_def)
qed

lemma less_than_sign: "unat (b :: u8) = 0x3C \<longleftrightarrow> b = 0x3C" "0x3C = unat (b :: u8) \<longleftrightarrow> b = 0x3C"
  by (auto simp: word_unat_eq_iff)

lemma lanes_print_facts:
  assumes "term_wf t" "fast_ready t" "\<not> t_insert_mode t"
  shows "run \<noteq> [] \<Longrightarrow> \<forall>b \<in> set run. printable b \<Longrightarrow>
      print_ascii_run wide run t = Some (print_bytes wide run t)"
    "decode3_run bs \<noteq> [] \<Longrightarrow> \<forall>c \<in> set (decode3_run bs). is_scalar c \<and> fast_width c = Some 2 \<Longrightarrow>
      print_wide_run wide bs t = Some (fold (print wide) (decode3_run bs) t)"
proof -
  assume run: "run \<noteq> []" "\<forall>b \<in> set run. printable b"
  show "print_ascii_run wide run t = Some (print_bytes wide run t)"
  proof (cases "t_u_tags t \<and> 0x3C \<in> set run")
    case False
    have "0x3C \<notin> set (map unat run)" if "0x3C \<notin> set run" using that by (auto simp: less_than_sign)
    then have "untagged t (map unat run)" using False by (auto simp: untagged_def)
    moreover have "print_ascii_run wide run t = ascii_run wide run t"
      using False assms(2) by (auto simp: print_ascii_run_def fast_ready_def)
    ultimately show ?thesis using ascii_run_prints [OF assms run] by simp
  next
    case True
    define n where "n = length (takeWhile (\<lambda>b. b \<noteq> 0x3C) run)"
    have lane: "print_ascii_run wide run t =
        map_option (print_bytes wide (drop n run)) (if n = 0 then Some t else ascii_run wide (take n run) t)"
      using True assms(2) by (simp add: print_ascii_run_def fast_ready_def n_def Let_def)
    have "ascii_run wide (take n run) t = Some (print_bytes wide (take n run) t)" if "n \<noteq> 0"
    proof -
      have "0x3C \<notin> set (take n run)"
        unfolding n_def takeWhile_eq_take [symmetric] by (auto dest: set_takeWhileD)
      then have "untagged t (map unat (take n run))" by (auto simp: untagged_def less_than_sign)
      then show ?thesis
        using ascii_run_prints [OF assms, of "take n run"] run that by (auto dest: in_set_takeD)
    qed
    moreover have "print_bytes wide run t = print_bytes wide (drop n run) (print_bytes wide (take n run) t)"
      by (metis append_take_drop_id fold_append comp_apply)
    ultimately show ?thesis using lane by (cases "n = 0") simp_all
  qed
next
  assume cs: "decode3_run bs \<noteq> []" "\<forall>c \<in> set (decode3_run bs). is_scalar c \<and> fast_width c = Some 2"
  define cs where "cs = decode3_run bs"
  obtain b f a s where p: "batch_prologue_flush (0xAC00 \<le> hd cs \<and> hd cs \<le> 0xD7A3) t = (True, clustered b f a s t)"
    using prologue_fast [OF assms(1,2)] by blast
  have u: "term_wf (clustered b f a s t)" using prologue_wf [OF assms(1) p] .
  have sp: "cs = butlast cs @ [last cs]" using cs(1) by (simp add: cs_def)
  have sc: "\<forall>c \<in> set (butlast cs). is_scalar c" using cs(2) by (auto simp: cs_def dest: in_set_butlastD)
  have "fast_width 0x3C = Some 1" by (simp add: fast_width_def boring_width_def)
  then have "untagged t cs" using cs(2) by (auto simp: untagged_def cs_def)
  then have "fold (print wide) cs t = commit_cluster_head (last cs) 2 True (fold (glyph 2) (butlast cs) t)"
    using prints_fast [OF assms(2), of "butlast cs" "last cs" 2 wide, unfolded sp [symmetric]] cs(2)
    by (simp add: cs_def [symmetric])
  also have "\<dots> = commit_cluster_head (last cs) 2 True (fold (glyph 2) (butlast cs) (clustered b f a s t))"
    by (simp only: glyphs_clustered commit_clustered(2))
  finally show "print_wide_run wide bs t = Some (fold (print wide) (decode3_run bs) t)"
    using body_glyphs(2) [OF u _ sc] assms(2,3) p
    by (simp add: print_wide_run_def fast_ready_def Let_def cs_def)
qed

end
