(* ===== verification/TermProps.thy ===== *)
theory TermProps
  imports TermLanes
begin

text \<open>
  What the terminal as a whole promises: a session never panics and every call returns, the bulk
  lanes print what the plain path prints, the alternate screen and the saved cursor give back what
  they were given, and predictions taken back leave no trace up to their cap.
\<close>

section \<open>Sessions\<close>

text \<open>The calls an owner of a terminal makes between its construction and a resize, without predictions.\<close>

datatype call =
    Feed "u8 list"
  | TakeResponse
  | TakeOscClipboard
  | ReportFocus bool
  | SetRenderMarkup bool
  | ResetAttrs
  | ResetProcessOwnedModes
  | ResetMouseReporting
  | ClockTo nat

fun call_term :: "ambiguous_wide \<Rightarrow> bool \<Rightarrow> call \<Rightarrow> terminal \<Rightarrow> terminal option" where
  "call_term wide tags (Feed bytes) t = feed wide tags bytes t"
| "call_term wide tags TakeResponse t = Some (snd (take_response t))"
| "call_term wide tags TakeOscClipboard t = Some (snd (take_osc_clipboard t))"
| "call_term wide tags (ReportFocus f) t = Some (report_focus f t)"
| "call_term wide tags (SetRenderMarkup on) t = Some (set_render_markup on t)"
| "call_term wide tags ResetAttrs t = Some (reset_attrs t)"
| "call_term wide tags ResetProcessOwnedModes t = Some (reset_process_owned_modes t)"
| "call_term wide tags ResetMouseReporting t = Some (reset_mouse_reporting t)"
| "call_term wide tags (ClockTo n) t = Some (t\<lparr>t_now := n\<rparr>)"

inductive session :: "ambiguous_wide \<Rightarrow> nat \<Rightarrow> nat \<Rightarrow> terminal \<Rightarrow> bool" for wide cols rows where
  start: "session wide cols rows (term_new cols rows)"
| call: "session wide cols rows t \<Longrightarrow> call_term wide tags c t = Some u \<Longrightarrow> session wide cols rows u"

lemma term_new_wf:
  assumes "2 \<le> cols" "cols \<le> TABS_MAX" "1 \<le> rows" "rows \<le> u16_max"
  shows "term_wf (term_new cols rows)" "t_cols (term_new cols rows) = cols" "t_rows (term_new cols rows) = rows"
proof -
  obtain tb where tb: "tabs_new cols = Some tb" "tabs_wf tb" "ts_cols tb = cols"
    using tabs_new_ok [OF assms(2)] by blast
  have g: "grid_ok (grid_new cols rows)" "g_cols (grid_new cols rows) = cols" "g_rows (grid_new cols rows) = rows"
    using grid_new_ok [of cols rows] assms
    by (simp_all add: grid_new_def) (simp_all add: grid_with_scrollback_def grid_with_scrollback_kind_def)
  show "term_wf (term_new cols rows)" "t_cols (term_new cols rows) = cols" "t_rows (term_new cols rows) = rows"
    using g tb assms kitty_default_wf parser_new_wf U_OPEN_TAG_wf(2)
    by (simp_all add: term_new_def tabs_or_panic_def term_wf_def screen_ok_def side_ok_def cluster_ok_def)
qed

lemma feed_wf:
  assumes "term_wf t"
  shows "\<exists>u. feed wide tags bytes t = Some u \<and> term_wf u"
  using assms feed_loop_wf [of "t\<lparr>t_u_tags := t_render_markup t \<or> tags, t_generation := sat_inc64 (t_generation t)\<rparr>"]
  by (simp add: feed_def)

lemma call_wf: "term_wf t \<Longrightarrow> \<exists>u. call_term wide tags c t = Some u \<and> term_wf u"
  using feed_wf [of t] term_wf_fields(1) [of _ attrs_default]
  by (cases c) (simp_all add: take_response_def take_osc_clipboard_def report_focus_def set_render_markup_def
      reset_attrs_def reset_process_owned_modes_def reset_mouse_reporting_def)

lemma session_wf:
  assumes "session wide cols rows t" "2 \<le> cols" "cols \<le> TABS_MAX" "1 \<le> rows" "rows \<le> u16_max"
  shows "term_wf t"
  using assms
proof (induction rule: session.induct)
  case start
  then show ?case by (rule term_new_wf(1))
next
  case (call t tags c u)
  then show ?case using call_wf [of t wide tags c] by auto
qed

text \<open>
  C1: a terminal is safe between its construction and its first resize.  Whatever bytes a program writes and
  however the calls of \<open>call\<close> are interleaved with them (answers and clipboard taken, focus reported, markup
  switched, the resets, the clock), a new terminal of 2 to 65,528 columns never indexes out of range (no
  panic), its cursor stays on the screen, its margins in order, the parser and the cluster pool sound, and every
  further call of these returns.  The other calls of an owner are not among them: \<open>predict_byte\<close> and
  \<open>expire_predictions\<close>, \<open>resize\<close>, after which an anchor or a prediction may lie outside the grid, and what
  fills a terminal from elsewhere (\<open>apply_snapshot\<close>, \<open>push_historic_line\<close>).
\<close>
theorem session_safe:
  assumes "session wide cols rows t" "2 \<le> cols" "cols \<le> TABS_MAX" "1 \<le> rows" "rows \<le> u16_max"
  shows "\<not> g_panic (t_grid t) \<and> cur_col t < t_cols t \<and> cur_row t < t_rows t \<and>
    t_scroll_top t \<le> t_scroll_bot t \<and> t_scroll_bot t < t_rows t \<and>
    parser_wf (t_parser t) \<and> grid_wf (t_grid t) \<and> pool_wf (t_grid t) \<and>
    (\<forall>tags c. \<exists>u. call_term wide tags c t = Some u)"
proof -
  have wf: "term_wf t" using session_wf [OF assms] .
  then have "grid_ok (t_grid t)" "parser_wf (t_parser t)"
    by (simp_all add: term_wf_def screen_ok_def side_ok_def)
  then show ?thesis
    using term_wfD(3,4,6,7) [OF wf] call_wf [OF wf, of wide] by (auto simp: grid_ok_def)
qed

theorem session_safe_witness:
  "\<exists>t. session AmbOff 80 24 t \<and> \<not> g_panic (t_grid t) \<and> cur_col t < t_cols t"
proof -
  obtain u where "call_term AmbOff False (Feed [0x1B, 0x5B, 0x32, 0x4A, 0xE4, 0xB8, 0xAD, 0x41]) (term_new 80 24) = Some u"
    using call_wf term_new_wf(1) [of 80 24] by fastforce
  then have "session AmbOff 80 24 u" by (rule session.call [OF session.start])
  then show ?thesis using session_safe [of AmbOff 80 24 u] by auto
qed

section \<open>The lanes\<close>

text \<open>
  C2: the bulk lanes are an optimisation only, outside insert mode.  From a sound terminal that is not in insert
  mode nor in line drawing, with no tag open or held back and nothing pending but a single fast
  character, printing a whole run of ASCII bytes, or of three-byte double-width characters, through
  its lane returns, and leaves every field of the terminal as printing the characters one by one.  In insert mode
  the ASCII lane is not taken, but the wide lane is, and does not shift the row.
\<close>
theorem lanes_print:
  assumes "term_wf t" "fast_ready t" "\<not> t_insert_mode t"
  shows "(\<forall>run. run \<noteq> [] \<and> (\<forall>b \<in> set run. printable b) \<longrightarrow>
      print_ascii_run wide run t = Some (fold (\<lambda>b. print wide (unat b)) run t)) \<and>
    (\<forall>bs. decode3_run bs \<noteq> [] \<and> (\<forall>c \<in> set (decode3_run bs). is_scalar c \<and> fast_width c = Some 2) \<longrightarrow>
      print_wide_run wide bs t = Some (fold (print wide) (decode3_run bs) t))"
  using lanes_print_facts [OF assms] by blast

lemma fast_ready_new: "fast_ready (term_new cols rows)" "\<not> t_insert_mode (term_new cols rows)"
  by (simp_all add: term_new_def tabs_or_panic_def fast_ready_def split: option.split)

theorem lanes_print_witness:
  "print_ascii_run AmbOff [0x41, 0x42, 0x43] (term_new 2 1) =
     Some (fold (\<lambda>b. print AmbOff (unat b)) [0x41 :: u8, 0x42, 0x43] (term_new 2 1))"
proof -
  have "term_wf (term_new 2 1)" by (rule term_new_wf) simp_all
  from lanes_print [OF this fast_ready_new, of AmbOff, THEN conjunct1, rule_format, of "[0x41, 0x42, 0x43]"]
  show ?thesis by (simp add: printable_def)
qed

section \<open>The alternate screen and the saved cursor\<close>

lemma set_cursor_back: "grid_wf g \<Longrightarrow> set_cursor (g_cursor_col g) (g_cursor_row g) g = g"
  by (cases g) (auto simp: set_cursor_def grid_wf_def min_def)

lemma set_cursor_twice [simp]: "set_cursor c r (set_cursor c' r' g) = set_cursor c r g"
  by (simp add: set_cursor_def)

text \<open>
  C26: a program that takes the alternate screen and leaves it again gives the main screen back.
  Mode 1049 on, then anything that neither leaves the alternate screen nor touches what was parked,
  then mode 1049 off: the main grid is the grid there was, cells, flags, history and cursor, and
  the pen, the deferred wrap, the charset, the origin mode and the keyboard flags are those of the
  moment it was left.
\<close>
theorem alt_screen_roundtrip:
  assumes "term_wf t" "t_saved_main t = None" "v = dec_mode wide 1049 True t"
    "t_saved_main u = t_saved_main v" "t_parked_cursor u = t_parked_cursor v"
    "w = dec_mode wide 1049 False u"
  shows "t_grid w = t_grid t \<and> t_attrs w = t_attrs t \<and> t_pending_wrap w = t_pending_wrap t \<and>
    t_g0_graphics w = t_g0_graphics t \<and> t_origin_mode w = t_origin_mode t \<and> t_kitty w = t_kitty t \<and>
    t_saved_main w = None \<and> t_saved_cursor v = t_parked_cursor t"
proof -
  have g: "grid_wf (t_grid t)" using term_wfD(1) [OF assms(1)] by (simp add: grid_ok_def)
  have v: "t_saved_main v = Some \<lparr>sm_grid = t_grid t, sm_cursor = (cur_col t, cur_row t), sm_kitty = t_kitty t\<rparr>"
    "t_parked_cursor v = t_saved_cursor (save_cursor t)" "t_saved_cursor v = t_parked_cursor t"
    using assms(2) by (simp_all add: assms(3) dec_mode_def enter_alt_screen_def save_cursor_def swap_cursors_def Let_def)
  show ?thesis
    using v assms(4,5) set_cursor_back [OF g]
    by (simp add: assms(6) dec_mode_def exit_alt_screen_def swap_cursors_def restore_cursor_def save_cursor_def)
qed

theorem alt_screen_roundtrip_witness:
  "t_grid (dec_mode AmbOff 1049 False (region_scroll_up 3 (dec_mode AmbOff 1049 True (term_new 80 24)))) =
   t_grid (term_new 80 24)"
proof -
  have "term_wf (term_new 80 24)" by (rule term_new_wf) simp_all
  moreover have "t_saved_main (term_new 80 24) = None"
    by (simp add: term_new_def tabs_or_panic_def split: option.split)
  moreover have "t_saved_main (region_scroll_up 3 x) = t_saved_main x"
    "t_parked_cursor (region_scroll_up 3 x) = t_parked_cursor x" for x
    by (simp_all add: region_scroll_up_def Let_def)
  ultimately show ?thesis
    using alt_screen_roundtrip [OF _ _ refl _ _ refl, of "term_new 80 24"
        "region_scroll_up 3 (dec_mode AmbOff 1049 True (term_new 80 24))" AmbOff]
    by blast
qed

section \<open>Predictions\<close>

text \<open>Taking predictions back, newest first, on the grid alone.\<close>

definition undo :: "prediction list \<Rightarrow> grid \<Rightarrow> grid" where
  "undo ps g = fold (\<lambda>p. set_cursor (fst (pr_saved_cursor p)) (snd (pr_saved_cursor p)) \<circ>
     set_cell (fst (pr_saved_cursor p)) (snd (pr_saved_cursor p)) (pr_saved_cell p)) (rev ps) g"

lemma rollback_grid:
  "t_grid (rollback_predictions t) = undo (t_predictions t) (t_grid t)"
  "t_predictions (rollback_predictions t) = []"
proof -
  have "t_grid (fold unpaint ps u) = fold (\<lambda>p. set_cursor (fst (pr_saved_cursor p)) (snd (pr_saved_cursor p)) \<circ>
     set_cell (fst (pr_saved_cursor p)) (snd (pr_saved_cursor p)) (pr_saved_cell p)) ps (t_grid u)" for ps u
    by (induction ps arbitrary: u) (simp_all add: unpaint_def split_beta)
  moreover have "t_predictions (fold unpaint ps u) = t_predictions u" for ps u
    by (induction ps arbitrary: u) (simp_all add: unpaint_def split_beta)
  ultimately show "t_grid (rollback_predictions t) = undo (t_predictions t) (t_grid t)"
    "t_predictions (rollback_predictions t) = []"
    by (simp_all add: rollback_predictions_def rollback_predictions_inner_def undo_def Let_def)
qed

lemma unpaint_paint:
  assumes "grid_wf g" "col = g_cursor_col g" "row = g_cursor_row g"
    "h = set_cell col row x g \<or> h = set_cursor c r (set_cell col row x g)"
  shows "set_cursor col row (set_cell col row (grid_cell g col row) h) = g"
proof -
  have i: "phys_row g row * g_cols g + col < length (g_cells g)"
    using cell_index [of g row col] assms(1-3) by (simp add: grid_wf_def)
  have p: "phys_row (g\<lparr>g_cells := cs\<rparr>) r = phys_row g r" "phys_row (moved a b g') r = phys_row g' r" for cs r a b g'
    by (simp_all add: phys_row_def Let_def)
  have restored: "set_cell col row (grid_cell g col row) (set_cell col row x g) = g"
    using i by (simp add: set_cell_def Let_def p grid_cell_def)
  have "set_cell col row y (moved a b k) = moved a b (set_cell col row y k)" for y a b k
    by (simp add: set_cell_def Let_def)
  then have "set_cursor col row (set_cell col row (grid_cell g col row) h) = set_cursor col row g"
    using assms(4) restored by (auto simp: set_cursor_moved)
  then show ?thesis using set_cursor_back [OF assms(1)] assms(2,3) by simp
qed

text \<open>What a burst of predictions keeps: taking them back gives the grid it started from.\<close>

definition predicting :: "grid \<Rightarrow> terminal \<Rightarrow> bool" where
  "predicting g u \<longleftrightarrow> undo (t_predictions u) (t_grid u) = g \<and> grid_wf (t_grid u) \<and> pen_wf (t_attrs u)"

lemma grid_wf_paint:
  assumes "grid_wf g" "pen_wf a"
  shows "grid_wf (set_cell c r \<lparr>ch = unat (b :: u8), attrs = a\<rparr> g)"
  using assms is_scalar_byte [of b] by (intro set_cell_wf) (auto simp: cell_wf_def pen_wf_def)

text \<open>A prediction that is made: the cell, the cursor and the record of both.\<close>

definition painted :: "u8 \<Rightarrow> terminal \<Rightarrow> grid" where
  "painted b u = (let h = set_cell (cur_col u) (cur_row u) \<lparr>ch = unat b, attrs = t_attrs u\<rparr> (t_grid u)
     in if cur_col u + 1 < t_cols u then set_cursor (cur_col u + 1) (cur_row u) h else h)"

definition record_of :: "u8 \<Rightarrow> terminal \<Rightarrow> prediction" where
  "record_of b u = \<lparr>pr_byte = b, pr_saved_cell = grid_cell (t_grid u) (cur_col u) (cur_row u),
     pr_saved_cursor = (cur_col u, cur_row u), pr_at = t_now u\<rparr>"

lemma predict_made:
  assumes "can_predict u" "printable b" "cur_col u < t_cols u"
  shows "snd (predict_byte b u) =
    (let v = u\<lparr>t_predict_declined := 0, t_grid := painted b u\<rparr>
     in if length (t_predictions u) \<ge> 64 then rollback_predictions v
        else v\<lparr>t_predictions := t_predictions u @ [record_of b u]\<rparr>)"
  using assms by (simp add: predict_byte_def printable_def painted_def record_of_def Let_def)

lemma predict_declined:
  assumes "\<not> (can_predict u \<and> printable b \<and> cur_col u < t_cols u)"
  shows "t_grid (snd (predict_byte b u)) = t_grid u" "t_predictions (snd (predict_byte b u)) = t_predictions u"
    "t_attrs (snd (predict_byte b u)) = t_attrs u"
  using assms by (auto simp: predict_byte_def printable_def Let_def)

lemma painted_wf: "grid_wf (t_grid u) \<Longrightarrow> pen_wf (t_attrs u) \<Longrightarrow> grid_wf (painted b u)"
  using grid_wf_paint [of "t_grid u" "t_attrs u" "cur_col u" "cur_row u" b] by (simp add: painted_def Let_def set_cursor_wf)

lemma undo_painted:
  assumes "grid_wf (t_grid u)"
  shows "undo (ps @ [record_of b u]) (painted b u) = undo ps (t_grid u)"
proof -
  define x where "x = \<lparr>ch = unat b, attrs = t_attrs u\<rparr>"
  have "painted b u = set_cell (cur_col u) (cur_row u) x (t_grid u) \<or>
      painted b u = set_cursor (cur_col u + 1) (cur_row u) (set_cell (cur_col u) (cur_row u) x (t_grid u))"
    by (simp add: painted_def x_def Let_def)
  from unpaint_paint [OF assms refl refl this] show ?thesis
    by (simp add: undo_def record_of_def)
qed

lemma predict_step:
  assumes "predicting g u" "length (t_predictions u) < 64"
  shows "predicting g (snd (predict_byte b u))"
    "length (t_predictions (snd (predict_byte b u))) \<le> length (t_predictions u) + 1"
proof (atomize (full), cases "can_predict u \<and> printable b \<and> cur_col u < t_cols u")
  case True
  then show "predicting g (snd (predict_byte b u)) \<and>
      length (t_predictions (snd (predict_byte b u))) \<le> length (t_predictions u) + 1"
    using assms predict_made [of u b] painted_wf [of u b] undo_painted [of u "t_predictions u" b]
    by (simp add: predicting_def Let_def)
next
  case False
  then show "predicting g (snd (predict_byte b u)) \<and>
      length (t_predictions (snd (predict_byte b u))) \<le> length (t_predictions u) + 1"
    using assms predict_declined [OF False] by (simp add: predicting_def)
qed

abbreviation predict_all :: "u8 list \<Rightarrow> terminal \<Rightarrow> terminal" where
  "predict_all bs t \<equiv> fold (\<lambda>b u. snd (predict_byte b u)) bs t"

lemma predict_burst:
  assumes "predicting g u" "length (t_predictions u) + length bs \<le> 64"
  shows "predicting g (predict_all bs u)"
  using assms
proof (induction bs arbitrary: u)
  case (Cons b bs)
  have "length (t_predictions u) < 64" using Cons.prems(2) by simp
  from predict_step [OF Cons.prems(1) this, of b] show ?case
    using Cons.prems(2) by (simp add: Cons.IH)
qed simp

text \<open>Past the cap: the burst stands on distinct cells of one row.\<close>

lemma grid_cell_undo:
  assumes "grid_wf g" "c < g_cols g" "r < g_rows g"
    "\<forall>p \<in> set ps. snd (pr_saved_cursor p) = r \<and> fst (pr_saved_cursor p) < c \<and> cell_wf (pr_saved_cell p)"
  shows "grid_cell (undo ps g) c r = grid_cell g c r"
  using assms
proof (induction ps arbitrary: g rule: rev_induct)
  case (snoc p ps)
  define h where "h = set_cursor (fst (pr_saved_cursor p)) r (set_cell (fst (pr_saved_cursor p)) r (pr_saved_cell p) g)"
  have f: "grid_wf h" "g_cols h = g_cols g" "g_rows h = g_rows g"
    using snoc.prems by (auto simp: h_def set_cursor_wf set_cell_wf) (simp_all add: set_cursor_def set_cell_def Let_def)
  have "grid_cell h c r = grid_cell g c r"
    using snoc.prems(4) by (simp add: h_def grid_cell_def set_cursor_def set_cell_def phys_row_def Let_def)
  moreover have "undo (ps @ [p]) g = undo ps h" using snoc.prems(4) by (simp add: undo_def h_def)
  ultimately show ?case using snoc.IH [OF f(1)] snoc.prems f by simp
qed (simp add: undo_def)

text \<open>The state after \<open>i\<close> predictions on the row of \<open>t\<close>, while the row lasts.\<close>

definition keen :: "terminal \<Rightarrow> bool" where
  "keen t \<longleftrightarrow> t_saved_main t = None \<and> t_predict_misses t < 3"

lemma keen_can: "keen t \<Longrightarrow> can_predict t"
  by (simp add: keen_def can_predict_def)

definition bursting :: "terminal \<Rightarrow> nat \<Rightarrow> terminal \<Rightarrow> bool" where
  "bursting t i u \<longleftrightarrow> predicting (t_grid t) u \<and> length (t_predictions u) = i \<and> keen u \<and>
     cur_col u = cur_col t + i \<and> cur_row u = cur_row t \<and> t_cols u = t_cols t \<and>
     t_attrs u = t_attrs t \<and>
     (\<forall>p \<in> set (t_predictions u). snd (pr_saved_cursor p) = cur_row t \<and>
        fst (pr_saved_cursor p) < cur_col t + i \<and> cell_wf (pr_saved_cell p))"

lemma painted_fields:
  assumes "grid_wf (t_grid u)"
  shows "g_cols (painted b u) = t_cols u" "g_rows (painted b u) = t_rows u" "g_cursor_row (painted b u) = cur_row u"
    "cur_col u + 1 < t_cols u \<Longrightarrow> g_cursor_col (painted b u) = cur_col u + 1"
    "grid_cell (painted b u) (cur_col u) (cur_row u) = \<lparr>ch = unat b, attrs = t_attrs u\<rparr>"
proof -
  have r: "cur_row u < t_rows u" "cur_col u < t_cols u" using assms by (simp_all add: grid_wf_def)
  note i = cell_index [OF assms r]
  have p: "phys_row (g\<lparr>g_cells := cs\<rparr>) k = phys_row g k" for g cs k by (simp add: phys_row_def Let_def)
  show "g_cols (painted b u) = t_cols u" "g_rows (painted b u) = t_rows u" "g_cursor_row (painted b u) = cur_row u"
    "cur_col u + 1 < t_cols u \<Longrightarrow> g_cursor_col (painted b u) = cur_col u + 1"
    using r by (simp_all add: painted_def Let_def set_cursor_moved set_cell_def)
  show "grid_cell (painted b u) (cur_col u) (cur_row u) = \<lparr>ch = unat b, attrs = t_attrs u\<rparr>"
    using i by (simp add: painted_def Let_def set_cursor_moved set_cell_def grid_cell_def p)
qed

lemma bursting_step:
  assumes "bursting t i u" "i < 64" "printable b" "cur_col t + i + 1 < t_cols t"
  shows "bursting t (i + 1) (snd (predict_byte b u))"
proof -
  have p: "predicting (t_grid t) u" and c: "keen u" and l: "length (t_predictions u) = i"
    and cur: "cur_col u = cur_col t + i" "cur_row u = cur_row t" "t_cols u = t_cols t" "t_attrs u = t_attrs t"
    using assms(1) by (simp_all add: bursting_def)
  have g: "grid_wf (t_grid u)" using p by (simp add: predicting_def)
  have eq: "snd (predict_byte b u) =
      u\<lparr>t_predict_declined := 0, t_grid := painted b u, t_predictions := t_predictions u @ [record_of b u]\<rparr>"
    using predict_made [OF keen_can [OF c] assms(3)] cur l assms(2,4) by (simp add: Let_def)
  have "phys_row (t_grid u) (cur_row u) * t_cols u + cur_col u < length (g_cells (t_grid u))"
    using cell_index [OF g, of "cur_row u" "cur_col u"] g by (simp add: grid_wf_def)
  then have w: "cell_wf (grid_cell (t_grid u) (cur_col u) (cur_row u))"
    using g by (auto simp: grid_wf_def grid_cell_def)
  have old: "\<forall>p \<in> set (t_predictions u). snd (pr_saved_cursor p) = cur_row t \<and>
      fst (pr_saved_cursor p) < cur_col t + (i + 1) \<and> cell_wf (pr_saved_cell p)"
    using assms(1) by (auto simp: bursting_def)
  have "predicting (t_grid t) (snd (predict_byte b u))" using predict_step(1) [OF p] l assms(2) by simp
  then show ?thesis
    using c l painted_fields [OF g, of b] cur w old assms(4)
    by (simp add: bursting_def eq record_of_def keen_def)
qed

lemma bursting_burst:
  assumes "bursting t i u" "i + length bs \<le> 64" "\<forall>b \<in> set bs. printable b" "cur_col t + i + length bs < t_cols t"
  shows "bursting t (i + length bs) (predict_all bs u)"
  using assms
proof (induction bs arbitrary: i u)
  case (Cons b bs)
  have "bursting t (i + 1) (snd (predict_byte b u))" using Cons.prems by (intro bursting_step) simp_all
  from Cons.IH [OF this] show ?case using Cons.prems(2-) by simp
qed simp

lemma bursting_past:
  assumes "bursting t 64 u" "printable b" "cur_col t + 64 < t_cols t"
  shows "t_predictions (snd (predict_byte b u)) = []"
    "grid_cell (t_grid (snd (predict_byte b u))) (cur_col t + 64) (cur_row t) = \<lparr>ch = unat b, attrs = t_attrs t\<rparr>"
proof -
  have p: "predicting (t_grid t) u" and c: "keen u" and l: "length (t_predictions u) = 64"
    and cur: "cur_col u = cur_col t + 64" "cur_row u = cur_row t" "t_cols u = t_cols t" "t_attrs u = t_attrs t"
    and old: "\<forall>p \<in> set (t_predictions u). snd (pr_saved_cursor p) = cur_row t \<and>
      fst (pr_saved_cursor p) < cur_col t + 64 \<and> cell_wf (pr_saved_cell p)"
    using assms(1) by (simp_all add: bursting_def)
  have g: "grid_wf (t_grid u)" "pen_wf (t_attrs u)" using p by (simp_all add: predicting_def)
  have eq: "snd (predict_byte b u) = rollback_predictions (u\<lparr>t_predict_declined := 0, t_grid := painted b u\<rparr>)"
    using predict_made [OF keen_can [OF c] assms(2)] cur l assms(3) by (simp add: Let_def)
  show "t_predictions (snd (predict_byte b u)) = []" by (simp add: eq rollback_grid)
  have r: "cur_row u < t_rows u" using g(1) by (simp add: grid_wf_def)
  show "grid_cell (t_grid (snd (predict_byte b u))) (cur_col t + 64) (cur_row t) = \<lparr>ch = unat b, attrs = t_attrs t\<rparr>"
    using grid_cell_undo [OF painted_wf [OF g], of "cur_col t + 64" b "cur_row t" "t_predictions u"]
      painted_fields [OF g(1), of b] old cur assms(3) r by (simp add: eq rollback_grid)
qed

text \<open>
  C3: predictions leave no trace.  Up to the cap of 64 pending bytes, taking the predictions
  back restores the grid to the cell, cursor and flag it had before the first; but the byte that
  finds the cap reached is painted before the cap is looked at, so it stays on the screen with no
  prediction left to take it back.
\<close>
theorem predictions_undone:
  assumes "grid_wf (t_grid t)" "pen_wf (t_attrs t)" "t_predictions t = []"
  shows "(length bs \<le> 64 \<longrightarrow> t_grid (rollback_predictions (predict_all bs t)) = t_grid t) \<and>
    (length bs = 64 \<and> (\<forall>b \<in> set bs. printable b) \<and> printable b \<and> t_saved_main t = None \<and>
       t_predict_misses t = 0 \<and> cur_col t + 65 \<le> t_cols t \<longrightarrow>
       t_predictions (predict_all (bs @ [b]) t) = [] \<and>
       grid_cell (t_grid (predict_all (bs @ [b]) t)) (cur_col t + 64) (cur_row t) =
         \<lparr>ch = unat b, attrs = t_attrs t\<rparr>)"
proof -
  have start: "predicting (t_grid t) t" using assms by (simp add: predicting_def undo_def)
  have "t_grid (rollback_predictions (predict_all bs t)) = t_grid t" if "length bs \<le> 64"
    using predict_burst [OF start, of bs] assms(3) that by (simp add: rollback_grid predicting_def)
  moreover have "t_predictions (predict_all (bs @ [b]) t) = [] \<and>
       grid_cell (t_grid (predict_all (bs @ [b]) t)) (cur_col t + 64) (cur_row t) = \<lparr>ch = unat b, attrs = t_attrs t\<rparr>"
    if "length bs = 64 \<and> (\<forall>b \<in> set bs. printable b) \<and> printable b \<and> t_saved_main t = None \<and>
       t_predict_misses t = 0 \<and> cur_col t + 65 \<le> t_cols t"
  proof -
    have "bursting t 0 t" using start assms(3) that by (simp add: bursting_def keen_def)
    then have "bursting t 64 (predict_all bs t)" using bursting_burst [of t 0 t bs] that by simp
    from bursting_past [OF this, of b] show ?thesis using that by simp
  qed
  ultimately show ?thesis by blast
qed

theorem predictions_undone_witness:
  "grid_cell (t_grid (predict_all (replicate 65 0x78) (term_new 80 24))) 64 0 = \<lparr>ch = 0x78, attrs = attrs_default\<rparr>"
proof -
  have wf: "term_wf (term_new 80 24)" "t_cols (term_new 80 24) = 80" by (rule term_new_wf; simp)+
  have "t_predictions (term_new 80 24) = [] \<and> t_saved_main (term_new 80 24) = None \<and> t_attrs (term_new 80 24) = attrs_default \<and>
      t_predict_misses (term_new 80 24) = 0 \<and> cur_col (term_new 80 24) = 0 \<and> cur_row (term_new 80 24) = 0"
    by (simp add: term_new_def tabs_or_panic_def grid_new_def grid_with_scrollback_def grid_with_scrollback_kind_def split: option.split)
  moreover have "replicate 65 (0x78 :: u8) = replicate 64 0x78 @ [0x78]"
    by (metis Suc_numeral num.simps replicate_Suc replicate_append_same semiring_norm(5) semiring_norm(8))
  ultimately show ?thesis
    using predictions_undone [of "term_new 80 24" "replicate 64 0x78" "0x78"] term_wfD(1,5) [OF wf(1)] wf(2)
    by (simp add: grid_ok_def printable_def)
qed

section \<open>One column\<close>

lemma check_cols: "g_cols (check b g) = g_cols g" by (simp add: check_def)

lemma degrade_cell_cols: "g_cols (snd (degrade_cell s i kg)) = g_cols (snd kg)"
  by (cases kg) (simp add: degrade_cell_def Let_def check_cols split: option.split)

lemma degrade_cols: "g_cols (snd (degrade_clusters_in_row s n g)) = g_cols g"
proof -
  have "g_cols (snd (fold (degrade_cell s) xs kg)) = g_cols (snd kg)" for xs kg
    by (induction xs arbitrary: kg) (simp_all add: degrade_cell_cols)
  then show ?thesis by (simp add: degrade_clusters_in_row_def)
qed

lemma file_row_cols: "g_cols (file_row k g) = g_cols g"
  by (simp add: file_row_def Let_def split_beta keep_row_clusters_def degrade_cols)

lemma fold_cols: "(\<And>x g. g_cols (f x g) = g_cols g) \<Longrightarrow> g_cols (fold f xs g) = g_cols g"
  by (induction xs arbitrary: g) simp_all

lemma scroll_cols:
  "g_cols (scroll_line fill g) = g_cols g" "g_cols (region_line tp bt fill g) = g_cols g"
  "g_cols (scroll_up n fill g) = g_cols g" "g_cols (scroll_up_region tp bt n fill g) = g_cols g"
proof -
  show s: "g_cols (scroll_line fill g) = g_cols g" for g
    by (simp add: scroll_line_def Let_def file_row_cols)
  show r: "g_cols (region_line tp bt fill g) = g_cols g" for g
    by (simp add: region_line_def region_file_def Let_def blank_row_def put_wrapped_def copy_row_def copy_wrapped_def
        file_row_cols fold_cols)
  have p: "g_cols ((f ^^ n) g) = g_cols g" if "\<And>g. g_cols (f g) = g_cols g" for f :: "grid \<Rightarrow> grid" and n g
    using that by (induction n) simp_all
  show "g_cols (scroll_up n fill g) = g_cols g" "g_cols (scroll_up_region tp bt n fill g) = g_cols g"
    by (simp_all add: scroll_up_def scroll_up_region_def p s r)
qed

lemma wrap_cols: "t_cols (wrap_to_next_row row rows (wide_pad r t)) = t_cols t"
  by (simp add: wrap_to_next_row_def wide_pad_def region_scroll_up_def Let_def scroll_cols set_cursor_def
      set_row_wrapped_def set_cell_def check_cols)

lemma wide_loop_narrow: "wide_loop cs t = Some u \<Longrightarrow> t_cols t = 1 \<longrightarrow> cs = []"
proof (erule wide_loop.raw_induct [rotated])
  fix f cs t u
  assume IH: "\<And>cs t y. f cs t = Some y \<Longrightarrow> t_cols t = 1 \<longrightarrow> cs = []"
    and eq: "(if cs = [] then Some t
      else
        let cols = t_cols t; rows = t_rows t; col = cur_col t; row = cur_row t;
            space = cols - col
        in if space < 2 then f cs (wrap_to_next_row row rows (wide_pad row t))
           else
             let fit = min (space div 2) (length cs);
                 t = on_grid (set_cells col row (wide_cells (t_attrs t) (take fit cs))) t;
                 rest = drop fit cs;
                 next = col + fit * 2
             in if next < cols then f rest (on_grid (set_cursor next row) t)
                else if rest \<noteq> [] then f rest (wrap_to_next_row row rows t)
                else Some (on_grid (set_cursor (cols - 1) row) (t\<lparr>t_pending_wrap := True\<rparr>))) = Some u"
  show "t_cols t = 1 \<longrightarrow> cs = []"
  proof
    assume one: "t_cols t = 1"
    then have "t_cols t - cur_col t < 2" by simp
    then have "cs = [] \<or> f cs (wrap_to_next_row (cur_row t) (t_rows t) (wide_pad (cur_row t) t)) = Some u"
      using eq by (simp only: Let_def split: if_split_asm) simp_all
    then show "cs = []" using IH [of cs "wrap_to_next_row (cur_row t) (t_rows t) (wide_pad (cur_row t) t)" u] wrap_cols one by auto
  qed
qed

lemma take_pending_cols: "t_cols (take_pending_wrap t) = t_cols t"
  by (simp add: take_pending_wrap_def do_pending_wrap_eq wrap_to_next_row_def region_scroll_up_def Let_def
      scroll_cols set_cursor_def set_row_wrapped_def)

text \<open>The bytes the wide lane takes: at least two characters.\<close>

lemma wide_run_two:
  assumes "6 \<le> wide_boring_run_len bs"
  shows "\<exists>x y zs. decode3_run (take (wide_boring_run_len bs) bs) = x # y # zs"
    and "bs \<noteq> []" "0xE0 \<le> hd bs" "hd bs \<le> 0xEF"
proof -
  obtain a b c r where r: "bs = a # b # c # r"
    using assms by (cases bs rule: wide_boring_run_len.cases) auto
  then have a: "0xE0 \<le> a" "a \<le> 0xEF" and n: "wide_boring_run_len bs = 3 + wide_boring_run_len r"
    using assms by (auto split: if_splits)
  obtain d e f q where q: "r = d # e # f # q"
    using assms n by (cases r rule: wide_boring_run_len.cases) auto
  have m: "wide_boring_run_len r = 3 + wide_boring_run_len q"
    using assms n by (auto simp: q split: if_splits)
  show "\<exists>x y zs. decode3_run (take (wide_boring_run_len bs) bs) = x # y # zs"
    unfolding n m by (simp add: r q eval_nat_numeral)
  show "bs \<noteq> []" "0xE0 \<le> hd bs" "hd bs \<le> 0xEF" using r a by simp_all
qed



end
