(* ===== verification/Utf8.thy ===== *)
theory Utf8
  imports TermDispatch
begin

text \<open>
  Strings as bytes: \<open>str::as_bytes\<close>, the strict \<open>str::from_utf8\<close> of \<open>TermDispatch\<close> and
  \<open>String::from_utf8_lossy\<close>.  Decoding what a string is made of gives the string back.
\<close>

section \<open>Encoding\<close>

definition as_bytes :: "ustring \<Rightarrow> u8 list" where
  "as_bytes s = concat (map encode_utf8 s)"

lemma as_bytes_simps [simp]: "as_bytes [] = []" "as_bytes (c # s) = encode_utf8 c @ as_bytes s"
  "as_bytes (s @ s') = as_bytes s @ as_bytes s'"
  by (simp_all add: as_bytes_def)

definition str_wf :: "ustring \<Rightarrow> bool" where
  "str_wf s \<longleftrightarrow> (\<forall>c \<in> set s. is_scalar c)"

lemma str_wf_simps [simp]: "str_wf []" "str_wf (c # s) \<longleftrightarrow> is_scalar c \<and> str_wf s"
  by (simp_all add: str_wf_def)

section \<open>Decoding\<close>

text \<open>The first character of a byte string and the bytes it takes, if they are well formed.\<close>

fun utf8_head :: "u8 list \<Rightarrow> (uchar \<times> nat) option" where
  "utf8_head [] = None"
| "utf8_head (a # bs) =
     (if a < 0x80 then Some (unat a, 1)
      else case bs of
        [] \<Rightarrow> None
      | b # cs \<Rightarrow>
          if 0xC2 \<le> a \<and> a \<le> 0xDF \<and> cont b then Some (unat (a AND 0x1F) * 64 + unat (b AND 0x3F), 2)
          else case cs of
            [] \<Rightarrow> None
          | c # ds \<Rightarrow>
              if 0xE0 \<le> a \<and> a \<le> 0xEF \<and> cont b \<and> cont c \<and> 0x800 \<le> decode3_cp a b c \<and>
                 is_scalar (decode3_cp a b c)
              then Some (decode3_cp a b c, 3)
              else case ds of
                [] \<Rightarrow> None
              | d # es \<Rightarrow>
                  let cp = unat (a AND 0x07) * 262144 + unat (b AND 0x3F) * 4096 +
                           unat (c AND 0x3F) * 64 + unat (d AND 0x3F)
                  in if 0xF0 \<le> a \<and> a \<le> 0xF4 \<and> cont b \<and> cont c \<and> cont d \<and> 0x10000 \<le> cp \<and> cp \<le> 0x10FFFF
                     then Some (cp, 4) else None)"

text \<open>
  The length of the maximal prefix of an ill-formed string that could still have become a
  character; one replacement character stands for it.
\<close>

definition lead_ok :: "u8 \<Rightarrow> u8 \<Rightarrow> bool" where
  "lead_ok a b \<longleftrightarrow> cont b \<and>
     (0xE1 \<le> a \<and> a \<le> 0xEC \<or> 0xEE \<le> a \<and> a \<le> 0xEF \<or> a = 0xE0 \<and> 0xA0 \<le> b \<or> a = 0xED \<and> b \<le> 0x9F \<or>
      0xF1 \<le> a \<and> a \<le> 0xF3 \<or> a = 0xF0 \<and> 0x90 \<le> b \<or> a = 0xF4 \<and> b \<le> 0x8F)"

definition utf8_skip :: "u8 list \<Rightarrow> nat" where
  "utf8_skip bs =
     (case bs of
        a # b # c # _ \<Rightarrow> if lead_ok a b then (if 0xF0 \<le> a \<and> cont c then 3 else 2) else 1
      | [a, b] \<Rightarrow> if lead_ok a b then 2 else 1
      | _ \<Rightarrow> 1)"

lemma utf8_head_pos: "utf8_head bs = Some (c, n) \<Longrightarrow> 0 < n \<and> bs \<noteq> []"
  by (cases bs) (auto simp: Let_def split: if_splits list.splits)

declare utf8_head.simps(2) [simp del]

lemma utf8_skip_pos: "0 < utf8_skip bs"
  by (simp add: utf8_skip_def split: list.split)

function from_utf8_lossy :: "u8 list \<Rightarrow> ustring" where
  "from_utf8_lossy [] = []"
| "from_utf8_lossy (b # bs) =
     (case utf8_head (b # bs) of
        Some (c, n) \<Rightarrow> c # from_utf8_lossy (drop n (b # bs))
      | None \<Rightarrow> REPLACEMENT_CHAR # from_utf8_lossy (drop (utf8_skip (b # bs)) (b # bs)))"
  by pat_completeness auto
termination
  by (relation "measure length") (auto dest: utf8_head_pos simp: utf8_skip_pos)

declare from_utf8_lossy.simps(2) [simp del]

section \<open>Round trips\<close>

lemma word_le_byte: "(a :: u8) \<le> b \<longleftrightarrow> unat a \<le> unat b" "(a :: u8) < b \<longleftrightarrow> unat a < unat b"
  by (simp_all add: word_le_nat_alt word_less_nat_alt)

lemma utf8_cont_byte [simp]: "n < 64 \<Longrightarrow> cont (of_nat (0x80 + n))"
  by (simp add: cont_def and_192_eq del: of_nat_add)

lemma lead_mod: "n < 32 \<Longrightarrow> (0xC0 + n) mod 32 = (n :: nat)" "n < 16 \<Longrightarrow> (0xE0 + n) mod 16 = (n :: nat)"
  "n < 8 \<Longrightarrow> (0xF0 + n) mod 8 = (n :: nat)" "n < 64 \<Longrightarrow> (0x80 + n) mod 64 = (n :: nat)"
  by (subst mod_add_left_eq [symmetric], simp)+

definition reads :: "u8 list \<Rightarrow> uchar \<Rightarrow> bool" where
  "reads xs c \<longleftrightarrow> (\<forall>bs. utf8_head (xs @ bs) = Some (c, length xs) \<and>
     from_utf8 (xs @ bs) = map_option ((#) c) (from_utf8 bs))"

lemmas read_defs = reads_def utf8_head.simps(2) from_utf8.simps(2) word_le_byte mask_simps utf8_cont_byte
  decode3_cp_def Let_def lead_mod

lemma reads_one: "c < 0x80 \<Longrightarrow> reads [of_nat c] c"
  by (simp add: read_defs)

lemma reads_two: "2 \<le> q \<Longrightarrow> q < 32 \<Longrightarrow> r < 64 \<Longrightarrow> reads [of_nat (0xC0 + q), of_nat (0x80 + r)] (q * 64 + r)"
  by (simp add: read_defs del: of_nat_add)

lemma reads_three:
  "p < 16 \<Longrightarrow> q < 64 \<Longrightarrow> r < 64 \<Longrightarrow> 0x800 \<le> p * 4096 + q * 64 + r \<Longrightarrow> is_scalar (p * 4096 + q * 64 + r) \<Longrightarrow>
   reads [of_nat (0xE0 + p), of_nat (0x80 + q), of_nat (0x80 + r)] (p * 4096 + q * 64 + r)"
  by (simp add: read_defs del: of_nat_add)

lemma reads_four:
  "k < 5 \<Longrightarrow> p < 64 \<Longrightarrow> q < 64 \<Longrightarrow> r < 64 \<Longrightarrow> 0x10000 \<le> k * 262144 + p * 4096 + q * 64 + r \<Longrightarrow>
   k * 262144 + p * 4096 + q * 64 + r \<le> 0x10FFFF \<Longrightarrow>
   reads [of_nat (0xF0 + k), of_nat (0x80 + p), of_nat (0x80 + q), of_nat (0x80 + r)]
     (k * 262144 + p * 4096 + q * 64 + r)" 
  by (simp add: read_defs del: of_nat_add)

lemma digits64:
  "c div 4096 * 64 + c div 64 mod 64 = c div 64" "c div 262144 * 64 + c div 4096 mod 64 = c div 4096"
  for c :: nat
proof -
  have "c div 4096 = c div 64 div 64" "c div 262144 = c div 4096 div 64"
    by (simp_all add: div_mult2_eq [symmetric])
  then show "c div 4096 * 64 + c div 64 mod 64 = c div 64" "c div 262144 * 64 + c div 4096 mod 64 = c div 4096"
    by (simp_all only: div_mult_mod_eq)
qed

lemma reads_encode:
  assumes "is_scalar c"
  shows "reads (encode_utf8 c) c"
proof -
  consider "c < 0x80" | "0x80 \<le> c" "c < 0x800" | "0x800 \<le> c" "c < 0x10000" | "0x10000 \<le> c" by linarith
  then show ?thesis
  proof cases
    case 1
    then show ?thesis using reads_one by (simp add: encode_utf8_def)
  next
    case 2
    then show ?thesis
      using reads_two [of "c div 64" "c mod 64"] by (simp add: encode_utf8_def less_mult_imp_div_less del: of_nat_add)
  next
    case 3
    have c: "c div 4096 * 4096 + c div 64 mod 64 * 64 + c mod 64 = c"
      using digits64(1) [of c] div_mult_mod_eq [of c 64] by linarith
    have p: "c div 4096 < 16" using 3 by (simp add: less_mult_imp_div_less)
    show ?thesis
      using reads_three [OF p, of "c div 64 mod 64" "c mod 64", unfolded c] 3 assms
      by (simp add: encode_utf8_def del: of_nat_add)
  next
    case 4
    have c: "c div 262144 * 262144 + c div 4096 mod 64 * 4096 + c div 64 mod 64 * 64 + c mod 64 = c"
      using digits64 [of c] div_mult_mod_eq [of c 64] by linarith
    have u: "c \<le> 0x10FFFF" using assms 4 by (simp add: is_scalar_def)
    have p: "c div 262144 < 5" using u by (simp add: less_mult_imp_div_less)
    show ?thesis
      using reads_four [OF p, of "c div 4096 mod 64" "c div 64 mod 64" "c mod 64", unfolded c] 4 u
      by (simp add: encode_utf8_def del: of_nat_add)
  qed
qed

lemma head_encode:
  assumes "is_scalar c"
  shows "utf8_head (encode_utf8 c @ bs) = Some (c, length (encode_utf8 c))"
    "from_utf8 (encode_utf8 c @ bs) = map_option ((#) c) (from_utf8 bs)"
  using reads_encode [OF assms] by (simp_all add: reads_def)

lemma from_utf8_as_bytes: "str_wf s \<Longrightarrow> from_utf8 (as_bytes s) = Some s"
  by (induction s) (simp_all add: head_encode)

lemma encode_utf8_nonempty [simp]: "encode_utf8 c \<noteq> []"
  by (simp add: encode_utf8_def)

lemma lossy_encode:
  assumes "is_scalar c"
  shows "from_utf8_lossy (encode_utf8 c @ bs) = c # from_utf8_lossy bs"
proof -
  obtain x xs where e: "encode_utf8 c @ bs = x # xs" by (cases "encode_utf8 c @ bs") simp_all
  have "drop (length (encode_utf8 c)) (x # xs) = bs" unfolding e [symmetric] by simp
  then show ?thesis using head_encode(1) [OF assms, of bs] unfolding e by (simp add: from_utf8_lossy.simps(2))
qed

lemma lossy_as_bytes: "str_wf s \<Longrightarrow> from_utf8_lossy (as_bytes s) = s"
  by (induction s) (simp_all add: lossy_encode)

end
