(* ===== verification/Wire.thy ===== *)
theory Wire
  imports Utf8 "HOL-Library.Monad_Syntax"
begin

text \<open>
  The frames between shell, core and session processes, \<open>crates/marspot-term/src/shell_proto.rs\<close>:
  integers in little-endian order, the message types and the reading and writing of frames.  A
  stream is the bytes still to come; a short \<open>read\<close> or an interrupted one is absorbed by the loops
  of the code.  An \<open>io::Error\<close> is its kind.  An \<open>f64\<close> is its bit pattern.
\<close>

section \<open>Integers\<close>

type_synonym u16 = "16 word"
type_synonym u64 = "64 word"
type_synonym f64 = "64 word"

text \<open>\<open>to_le_bytes\<close> and \<open>from_le_bytes\<close>.\<close>

primrec to_le :: "nat \<Rightarrow> 'a::len word \<Rightarrow> u8 list" where
  "to_le 0 w = []"
| "to_le (Suc n) w = ucast w # to_le n (drop_bit 8 w)"

primrec from_le :: "u8 list \<Rightarrow> 'a::len word" where
  "from_le [] = 0"
| "from_le (b # bs) = ucast b OR push_bit 8 (from_le bs)"

abbreviation le16 :: "u16 \<Rightarrow> u8 list" where "le16 \<equiv> to_le 2"
abbreviation le32 :: "u32 \<Rightarrow> u8 list" where "le32 \<equiv> to_le 4"
abbreviation le64 :: "u64 \<Rightarrow> u8 list" where "le64 \<equiv> to_le 8"

definition rd16 :: "u8 list \<Rightarrow> nat \<Rightarrow> u16" where "rd16 p i = from_le (slice p i 2)"
definition rd32 :: "u8 list \<Rightarrow> nat \<Rightarrow> u32" where "rd32 p i = from_le (slice p i 4)"
definition rd64 :: "u8 list \<Rightarrow> nat \<Rightarrow> u64" where "rd64 p i = from_le (slice p i 8)"

lemma length_to_le [simp]: "length (to_le n w) = n"
  by (induction n arbitrary: w) simp_all

lemma to_le_nonempty [simp]: "to_le n w = [] \<longleftrightarrow> n = 0"
  by (cases n) simp_all

lemma from_to_le: "from_le (to_le n w) = take_bit (8 * n) w"
proof (induction n arbitrary: w)
  case (Suc n)
  show ?case
    by (rule bit_word_eqI) (auto simp: Suc bit_simps less_diff_conv2)
qed simp

lemma from_to_le_full [simp]: "8 * n = LENGTH('a) \<Longrightarrow> from_le (to_le n w) = (w :: 'a::len word)"
  by (simp add: from_to_le)

lemma slice_front: "length xs = n \<Longrightarrow> slice (xs @ ys) 0 n = xs"
  by (simp add: slice_def)

lemma slice_past: "length xs \<le> i \<Longrightarrow> slice (xs @ ys) i n = slice ys (i - length xs) n"
  by (simp add: slice_def)

lemma rd_front [simp]: "rd16 (le16 a @ ys) 0 = a" "rd32 (le32 b @ ys) 0 = b" "rd64 (le64 c @ ys) 0 = c"
  by (simp_all add: rd16_def rd32_def rd64_def slice_front)

lemma rd_all [simp]: "rd16 (le16 a) 0 = a" "rd32 (le32 b) 0 = b" "rd64 (le64 c) 0 = c"
  using rd_front(1) [of a "[]"] rd_front(2) [of b "[]"] rd_front(3) [of c "[]"] by simp_all

lemma rd_past [simp]:
  "length xs \<le> i \<Longrightarrow> rd16 (xs @ ys) i = rd16 ys (i - length xs)"
  "length xs \<le> i \<Longrightarrow> rd32 (xs @ ys) i = rd32 ys (i - length xs)"
  "length xs \<le> i \<Longrightarrow> rd64 (xs @ ys) i = rd64 ys (i - length xs)"
  by (simp_all add: rd16_def rd32_def rd64_def slice_past)

lemma rd_past_byte [simp]:
  "0 < i \<Longrightarrow> rd16 (b # ys) i = rd16 ys (i - 1)" "0 < i \<Longrightarrow> rd32 (b # ys) i = rd32 ys (i - 1)"
  "0 < i \<Longrightarrow> rd64 (b # ys) i = rd64 ys (i - 1)"
  using rd_past [of "[b]" i ys] by simp_all

section \<open>Message types\<close>

datatype (plugins only: size) msg_type =
    Hello | HelloAck | Ping | Pong | KeyEvent | MouseDown | MouseDrag | MouseUp | Scroll |
    Preedit | Paste | MouseMove | MouseRightDown | Focus | Resize | SurfaceReady | CaretRect |
    GridReady | GridResize | GridScroll | GetSelectionText | SelectionText | FrameRendered |
    SurfaceAttach | PaneBadge | PaneBadgeClicked | PaneSessionBegin | PaneSessionEnd |
    PaneSessionKey | PaneSessionUserEscape | PaneSessionOverlay | InjectInput |
    SearchScrollback | SearchResults | SearchMore | SearchCancel | DevPanelToggle | PaneTitle |
    FileDrop | PaneBadgeMenuRequest | PaneBadgeMenu | PaneBadgeMenuAction |
    SurfaceAttachWindow | WindowClosed | WindowFocus | WindowOpenRequest | WindowCloseRequest |
    PaneFocused | PaneRecede | PaneHoldGrid | PaneInjectPaste | CliSendText | CliResult |
    CliListPanes | CliPaneList | CliReadPane | CliText | CliAutorun | WindowChrome |
    PaneResetMouseReporting | PaneWheelKeys | PaneRenderMarkup | PaneAgentTui |
    PaneClipboardWrite | PaneTerminalFocus | PaneResetAttrs | SessionUpdate | Error

primrec msg_to_u32 :: "msg_type \<Rightarrow> u32" where
  "msg_to_u32 Hello = 1"
| "msg_to_u32 HelloAck = 2"
| "msg_to_u32 Ping = 3"
| "msg_to_u32 Pong = 4"
| "msg_to_u32 KeyEvent = 10"
| "msg_to_u32 MouseDown = 11"
| "msg_to_u32 MouseDrag = 12"
| "msg_to_u32 MouseUp = 13"
| "msg_to_u32 Scroll = 14"
| "msg_to_u32 Preedit = 15"
| "msg_to_u32 Paste = 16"
| "msg_to_u32 MouseMove = 17"
| "msg_to_u32 MouseRightDown = 18"
| "msg_to_u32 Focus = 30"
| "msg_to_u32 Resize = 31"
| "msg_to_u32 SurfaceReady = 32"
| "msg_to_u32 CaretRect = 33"
| "msg_to_u32 GridReady = 34"
| "msg_to_u32 GridResize = 35"
| "msg_to_u32 GridScroll = 36"
| "msg_to_u32 GetSelectionText = 37"
| "msg_to_u32 SelectionText = 38"
| "msg_to_u32 FrameRendered = 39"
| "msg_to_u32 SurfaceAttach = 40"
| "msg_to_u32 PaneBadge = 41"
| "msg_to_u32 PaneBadgeClicked = 42"
| "msg_to_u32 PaneSessionBegin = 43"
| "msg_to_u32 PaneSessionEnd = 44"
| "msg_to_u32 PaneSessionKey = 45"
| "msg_to_u32 PaneSessionUserEscape = 46"
| "msg_to_u32 PaneSessionOverlay = 47"
| "msg_to_u32 InjectInput = 48"
| "msg_to_u32 SearchScrollback = 50"
| "msg_to_u32 SearchResults = 51"
| "msg_to_u32 SearchMore = 52"
| "msg_to_u32 SearchCancel = 53"
| "msg_to_u32 DevPanelToggle = 55"
| "msg_to_u32 PaneTitle = 56"
| "msg_to_u32 FileDrop = 57"
| "msg_to_u32 PaneBadgeMenuRequest = 58"
| "msg_to_u32 PaneBadgeMenu = 59"
| "msg_to_u32 PaneBadgeMenuAction = 60"
| "msg_to_u32 SurfaceAttachWindow = 61"
| "msg_to_u32 WindowClosed = 62"
| "msg_to_u32 WindowFocus = 63"
| "msg_to_u32 WindowOpenRequest = 64"
| "msg_to_u32 WindowCloseRequest = 65"
| "msg_to_u32 PaneFocused = 66"
| "msg_to_u32 PaneRecede = 67"
| "msg_to_u32 PaneHoldGrid = 68"
| "msg_to_u32 PaneInjectPaste = 69"
| "msg_to_u32 CliSendText = 70"
| "msg_to_u32 CliResult = 71"
| "msg_to_u32 CliListPanes = 72"
| "msg_to_u32 CliPaneList = 73"
| "msg_to_u32 CliReadPane = 74"
| "msg_to_u32 CliText = 75"
| "msg_to_u32 CliAutorun = 76"
| "msg_to_u32 WindowChrome = 77"
| "msg_to_u32 PaneResetMouseReporting = 78"
| "msg_to_u32 PaneWheelKeys = 79"
| "msg_to_u32 PaneRenderMarkup = 80"
| "msg_to_u32 PaneAgentTui = 82"
| "msg_to_u32 PaneClipboardWrite = 83"
| "msg_to_u32 PaneTerminalFocus = 84"
| "msg_to_u32 PaneResetAttrs = 81"
| "msg_to_u32 SessionUpdate = 85"
| "msg_to_u32 Error = 200"

text \<open>\<open>MsgType::from_u32\<close>, the table of its \<open>match\<close>.\<close>

definition msg_types :: "(u32 \<times> msg_type) list" where
  "msg_types =
    [(1, Hello), (2, HelloAck), (3, Ping), (4, Pong), (10, KeyEvent), (11, MouseDown),
     (12, MouseDrag), (13, MouseUp), (14, Scroll), (15, Preedit), (16, Paste), (17, MouseMove),
     (18, MouseRightDown), (30, Focus), (31, Resize), (32, SurfaceReady), (33, CaretRect),
     (34, GridReady), (35, GridResize), (36, GridScroll), (37, GetSelectionText),
     (38, SelectionText), (39, FrameRendered), (40, SurfaceAttach), (41, PaneBadge),
     (42, PaneBadgeClicked), (43, PaneSessionBegin), (44, PaneSessionEnd),
     (45, PaneSessionKey), (46, PaneSessionUserEscape), (47, PaneSessionOverlay),
     (48, InjectInput), (50, SearchScrollback), (51, SearchResults), (52, SearchMore),
     (53, SearchCancel), (55, DevPanelToggle), (56, PaneTitle), (57, FileDrop),
     (58, PaneBadgeMenuRequest), (59, PaneBadgeMenu), (60, PaneBadgeMenuAction),
     (61, SurfaceAttachWindow), (62, WindowClosed), (63, WindowFocus), (64, WindowOpenRequest),
     (65, WindowCloseRequest), (66, PaneFocused), (67, PaneRecede), (68, PaneHoldGrid),
     (69, PaneInjectPaste), (70, CliSendText), (71, CliResult), (72, CliListPanes),
     (73, CliPaneList), (74, CliReadPane), (75, CliText), (76, CliAutorun), (77, WindowChrome),
     (78, PaneResetMouseReporting), (79, PaneWheelKeys), (80, PaneRenderMarkup),
     (81, PaneResetAttrs), (82, PaneAgentTui), (83, PaneClipboardWrite),
     (84, PaneTerminalFocus), (85, SessionUpdate), (200, Error)]"

definition msg_from_u32 :: "u32 \<Rightarrow> msg_type option" where
  "msg_from_u32 v = map_of msg_types v"

lemma msg_type_roundtrip: "msg_from_u32 (msg_to_u32 m) = Some m"
  by (cases m) (simp_all add: msg_from_u32_def msg_types_def)

lemma msg_from_u32_sound: "msg_from_u32 v = Some m \<Longrightarrow> msg_to_u32 m = v"
proof -
  assume "msg_from_u32 v = Some m"
  then have "(v, m) \<in> set msg_types" unfolding msg_from_u32_def by (rule map_of_SomeD)
  moreover have "list_all (\<lambda>(v, m). msg_to_u32 m = v) msg_types" by (simp add: msg_types_def)
  ultimately show ?thesis by (auto simp: list_all_iff)
qed

section \<open>Frames\<close>

record frame =
  fr_type :: msg_type
  fr_payload :: "u8 list"

datatype io_error = InvalidData | UnexpectedEof

definition MAGIC :: u32 where "MAGIC = from_le [0x4D, 0x53, 0x50, 0x43]"

abbreviation (input) HEADER_LEN :: nat where "HEADER_LEN \<equiv> 12"
abbreviation (input) MAX_PAYLOAD_LEN :: nat where "MAX_PAYLOAD_LEN \<equiv> 65536"

definition wire_len :: "frame \<Rightarrow> nat" where
  "wire_len f = HEADER_LEN + length (fr_payload f)"

text \<open>What \<open>Frame::write_to\<close> puts on the stream.\<close>

definition write_to :: "frame \<Rightarrow> u8 list" where
  "write_to f =
     le32 MAGIC @ le32 (msg_to_u32 (fr_type f)) @ le32 (of_nat (length (fr_payload f))) @ fr_payload f"

text \<open>
  \<open>Frame::read_from\<close>: the frame, the clean end of the stream or the error, and the stream left.
  A frame of a type this build does not know is read past.
\<close>

function read_from :: "u8 list \<Rightarrow> (io_error + frame option) \<times> u8 list" where
  "read_from r =
     (if r = [] then (Inr None, [])
      else if length r < HEADER_LEN then (Inl UnexpectedEof, [])
      else
        let magic = rd32 r 0; type_raw = rd32 r 4; len = unat (rd32 r 8); rest = drop HEADER_LEN r
        in if magic \<noteq> MAGIC then (Inl InvalidData, rest)
           else if len > MAX_PAYLOAD_LEN then (Inl InvalidData, rest)
           else if length rest < len then (Inl UnexpectedEof, [])
           else
             case msg_from_u32 type_raw of
               Some t \<Rightarrow> (Inr (Some \<lparr>fr_type = t, fr_payload = take len rest\<rparr>), drop len rest)
             | None \<Rightarrow> read_from (drop len rest))"
  by pat_completeness auto
termination
  by (relation "measure length") (auto simp: Let_def)

declare read_from.simps [simp del]

text \<open>A reader's loop: frames until the stream ends or fails.\<close>

lemma read_from_shorter: "read_from r = (Inr (Some f), rest) \<Longrightarrow> length rest < length r"
proof (induction r rule: read_from.induct)
  case (1 r)
  from 1(2) show ?case
    by (subst (asm) read_from.simps)
      (auto simp: Let_def split: if_split_asm option.split_asm dest!: 1(1) [OF _ _ refl refl refl refl])
qed

function read_all :: "u8 list \<Rightarrow> frame list \<times> io_error option" where
  "read_all r =
     (case read_from r of
        (Inl e, _) \<Rightarrow> ([], Some e)
      | (Inr None, _) \<Rightarrow> ([], None)
      | (Inr (Some f), rest) \<Rightarrow> (let (fs, e) = read_all rest in (f # fs, e)))"
  by pat_completeness auto
termination
  by (relation "measure length") (auto dest: read_from_shorter [OF sym])

declare read_all.simps [simp del]

text \<open>A frame of any type, as a newer peer may write it.\<close>

definition raw_frame :: "u32 \<Rightarrow> u8 list \<Rightarrow> u8 list" where
  "raw_frame t payload = le32 MAGIC @ le32 t @ le32 (of_nat (length payload)) @ payload"

lemma write_to_raw: "write_to f = raw_frame (msg_to_u32 (fr_type f)) (fr_payload f)"
  by (simp add: write_to_def raw_frame_def)

lemma length_write_to: "length (write_to f) = wire_len f"
  by (simp add: write_to_def wire_len_def)

lemma read_raw:
  assumes "length p \<le> MAX_PAYLOAD_LEN"
  shows "read_from (raw_frame t p @ r) =
    (case msg_from_u32 t of Some m \<Rightarrow> (Inr (Some \<lparr>fr_type = m, fr_payload = p\<rparr>), r) | None \<Rightarrow> read_from r)"
proof -
  have "unat (of_nat (length p) :: u32) = length p"
    using assms by (simp add: unsigned_of_nat take_bit_nat_eq_self)
  then show ?thesis
    using assms by (subst read_from.simps) (cases "msg_from_u32 t"; simp add: raw_frame_def Let_def)
qed

lemma read_all_raw:
  assumes "length p \<le> MAX_PAYLOAD_LEN"
  shows "read_all (raw_frame t p @ r) =
    (case msg_from_u32 t of
       Some m \<Rightarrow> (\<lparr>fr_type = m, fr_payload = p\<rparr> # fst (read_all r), snd (read_all r))
     | None \<Rightarrow> read_all r)"
  using read_raw [OF assms, of t r]
  by (subst read_all.simps) (cases "msg_from_u32 t"; simp add: Let_def split_beta read_all.simps [of r])

lemma read_all_end: "read_all [] = ([], None)"
  by (simp add: read_all.simps read_from.simps)

lemma read_too_long:
  assumes "MAX_PAYLOAD_LEN < length p" "length p < 2 ^ 32"
  shows "fst (read_from (raw_frame t p @ r)) = Inl InvalidData"
proof -
  have "unat (of_nat (length p) :: u32) = length p"
    using assms by (simp add: unsigned_of_nat take_bit_nat_eq_self)
  then show ?thesis using assms by (subst read_from.simps) (simp add: raw_frame_def Let_def)
qed

text \<open>
  C23: frames survive the stream.  A stream of frames, each within the payload cap, is read back
  frame by frame to its clean end, and the frames of types this build does not know, which a newer
  peer may send between them, are read past without losing the place.
\<close>
theorem frames_roundtrip:
  assumes "\<forall>(t, p) \<in> set items. length p \<le> MAX_PAYLOAD_LEN"
  shows "read_all (concat (map (\<lambda>(t, p). raw_frame t p) items)) =
    (List.map_filter (\<lambda>(t, p). map_option (\<lambda>m. \<lparr>fr_type = m, fr_payload = p\<rparr>) (msg_from_u32 t)) items, None) \<and>
    (\<forall>f. write_to f = raw_frame (msg_to_u32 (fr_type f)) (fr_payload f) \<and>
         msg_from_u32 (msg_to_u32 (fr_type f)) = Some (fr_type f))"
proof -
  have "read_all (concat (map (\<lambda>(t, p). raw_frame t p) items)) =
    (List.map_filter (\<lambda>(t, p). map_option (\<lambda>m. \<lparr>fr_type = m, fr_payload = p\<rparr>) (msg_from_u32 t)) items, None)"
    using assms
  proof (induction items)
    case (Cons i items)
    obtain t p where i: "i = (t, p)" by fastforce
    show ?case using Cons read_all_raw [of p t]
      by (cases "msg_from_u32 t") (simp_all add: i map_filter_simps)
  qed (simp add: read_all_end map_filter_simps)
  then show ?thesis by (simp add: write_to_raw msg_type_roundtrip)
qed

theorem frames_roundtrip_witness:
  "read_all (raw_frame 3 [1, 2, 3, 4] @ raw_frame 9 [7] @ raw_frame 85 []) =
     ([\<lparr>fr_type = Ping, fr_payload = [1, 2, 3, 4]\<rparr>, \<lparr>fr_type = SessionUpdate, fr_payload = []\<rparr>], None)"
  using frames_roundtrip [of "[(3, [1, 2, 3, 4]), (9, [7]), (85, [])]"]
  by (simp add: msg_from_u32_def msg_types_def map_filter_simps)

end
