(* ===== verification/InputCore.thy ===== *)
theory InputCore
  imports Utf8
begin

text \<open>
  Keys to bytes, \<open>crates/marspot-term/src/input_core.rs\<close>: what a key press sends to the program,
  in the legacy encoding and under the kitty keyboard protocol, and the quoting of a dropped path.
  The clipboard is an argument.
\<close>

section \<open>Events\<close>

datatype key_state = Pressed | Released

datatype (plugins only: size) named_key =
    Enter | Backspace | Tab | Escape | ArrowUp | ArrowDown | ArrowLeft | ArrowRight | PageUp | PageDown
  | Home | End | Insert | Delete | F1 | F2 | F3 | F4 | F5 | F6 | F7 | F8 | F9 | F10 | F11 | F12

datatype logical_key = Char uchar | Named named_key | Other

record key_event =
  ke_state :: key_state
  ke_logical :: logical_key
  ke_text :: "ustring option"
  ke_base_layout :: "uchar option"
  ke_repeat :: bool

record modifiers =
  shift :: bool
  control :: bool
  alt :: bool
  super :: bool

abbreviation (input) KITTY_REPORT_EVENTS :: u8 where "KITTY_REPORT_EVENTS \<equiv> 2"
abbreviation (input) KITTY_REPORT_ALTERNATES :: u8 where "KITTY_REPORT_ALTERNATES \<equiv> 4"

record term_modes =
  tm_cursor_key_app :: bool
  tm_bracketed_paste :: bool
  tm_kitty_keyboard :: u8

section \<open>Sequences\<close>

definition encode_mods :: "modifiers \<Rightarrow> nat" where
  "encode_mods m = 1 + (of_bool (shift m) + 2 * of_bool (alt m) + 4 * of_bool (control m) + 8 * of_bool (super m))"

definition cursor_seq :: "u8 \<Rightarrow> modifiers \<Rightarrow> bool \<Rightarrow> u8 list" where
  "cursor_seq letter mods decckm =
     (let m = encode_mods mods
      in if m = 1 then (if decckm then [0x1B, 0x4F, letter] else [0x1B, 0x5B, letter])
         else [0x1B, 0x5B, 0x31, 0x3B] @ dec m @ [letter])"

definition vt220_seq :: "nat \<Rightarrow> modifiers \<Rightarrow> u8 list" where
  "vt220_seq num mods =
     (let m = encode_mods mods
      in if m = 1 then [0x1B, 0x5B] @ dec num @ [0x7E]
         else [0x1B, 0x5B] @ dec num @ [0x3B] @ dec m @ [0x7E])"

definition fkey14_seq :: "u8 \<Rightarrow> modifiers \<Rightarrow> u8 list" where
  "fkey14_seq letter mods =
     (let m = encode_mods mods
      in if m = 1 then [0x1B, 0x4F, letter] else [0x1B, 0x5B, 0x31, 0x3B] @ dec m @ [letter])"

definition home_end_seq :: "u8 \<Rightarrow> u8 \<Rightarrow> modifiers \<Rightarrow> u8 list" where
  "home_end_seq bare letter mods =
     (let m = encode_mods mods
      in if m = 1 then [bare] else [0x1B, 0x5B, 0x31, 0x3B] @ dec m @ [letter])"

primrec encode_named_key :: "named_key \<Rightarrow> modifiers \<Rightarrow> bool \<Rightarrow> u8 list" where
  "encode_named_key Enter mods app = (if shift mods then [0x0A] else [0x0D])"
| "encode_named_key Backspace mods app = [0x7F]"
| "encode_named_key Tab mods app = (if shift mods then [0x1B, 0x5B, 0x5A] else [0x09])"
| "encode_named_key Escape mods app = [0x1B]"
| "encode_named_key ArrowUp mods app = cursor_seq 0x41 mods app"
| "encode_named_key ArrowDown mods app = cursor_seq 0x42 mods app"
| "encode_named_key ArrowRight mods app = cursor_seq 0x43 mods app"
| "encode_named_key ArrowLeft mods app = cursor_seq 0x44 mods app"
| "encode_named_key Home mods app = home_end_seq 0x01 0x48 mods"
| "encode_named_key End mods app = home_end_seq 0x05 0x46 mods"
| "encode_named_key Insert mods app = vt220_seq 2 mods"
| "encode_named_key Delete mods app = vt220_seq 3 mods"
| "encode_named_key PageUp mods app = vt220_seq 5 mods"
| "encode_named_key PageDown mods app = vt220_seq 6 mods"
| "encode_named_key F1 mods app = fkey14_seq 0x50 mods"
| "encode_named_key F2 mods app = fkey14_seq 0x51 mods"
| "encode_named_key F3 mods app = fkey14_seq 0x52 mods"
| "encode_named_key F4 mods app = fkey14_seq 0x53 mods"
| "encode_named_key F5 mods app = vt220_seq 15 mods"
| "encode_named_key F6 mods app = vt220_seq 17 mods"
| "encode_named_key F7 mods app = vt220_seq 18 mods"
| "encode_named_key F8 mods app = vt220_seq 19 mods"
| "encode_named_key F9 mods app = vt220_seq 20 mods"
| "encode_named_key F10 mods app = vt220_seq 21 mods"
| "encode_named_key F11 mods app = vt220_seq 23 mods"
| "encode_named_key F12 mods app = vt220_seq 24 mods"

section \<open>The kitty protocol\<close>

primrec kitty_entry :: "named_key \<Rightarrow> nat \<times> u8" where
  "kitty_entry Escape = (27, 0x75)"
| "kitty_entry Enter = (13, 0x75)"
| "kitty_entry Tab = (9, 0x75)"
| "kitty_entry Backspace = (127, 0x75)"
| "kitty_entry Insert = (2, 0x7E)"
| "kitty_entry Delete = (3, 0x7E)"
| "kitty_entry ArrowUp = (1, 0x41)"
| "kitty_entry ArrowDown = (1, 0x42)"
| "kitty_entry ArrowRight = (1, 0x43)"
| "kitty_entry ArrowLeft = (1, 0x44)"
| "kitty_entry PageUp = (5, 0x7E)"
| "kitty_entry PageDown = (6, 0x7E)"
| "kitty_entry Home = (1, 0x48)"
| "kitty_entry End = (1, 0x46)"
| "kitty_entry F1 = (1, 0x50)"
| "kitty_entry F2 = (1, 0x51)"
| "kitty_entry F3 = (13, 0x7E)"
| "kitty_entry F4 = (1, 0x53)"
| "kitty_entry F5 = (15, 0x7E)"
| "kitty_entry F6 = (17, 0x7E)"
| "kitty_entry F7 = (18, 0x7E)"
| "kitty_entry F8 = (19, 0x7E)"
| "kitty_entry F9 = (20, 0x7E)"
| "kitty_entry F10 = (21, 0x7E)"
| "kitty_entry F11 = (23, 0x7E)"
| "kitty_entry F12 = (24, 0x7E)"

text \<open>\<open>char::is_control\<close>.\<close>

definition is_control :: "uchar \<Rightarrow> bool" where
  "is_control c \<longleftrightarrow> c < 0x20 \<or> (0x7F \<le> c \<and> c < 0xA0)"

definition is_typed_text :: "ustring option \<Rightarrow> bool" where
  "is_typed_text s = (case s of None \<Rightarrow> False | Some t \<Rightarrow> t \<noteq> [] \<and> \<not> list_ex is_control t)"

definition alternate_shifted :: "key_event \<Rightarrow> modifiers \<Rightarrow> nat \<Rightarrow> nat option" where
  "alternate_shifted event effective code =
     (if \<not> shift effective then None
      else case ke_text event of
        Some (cp # _) \<Rightarrow> if cp \<noteq> code \<and> \<not> is_control cp then Some cp else None
      | _ \<Rightarrow> None)"

definition alternate_base :: "key_event \<Rightarrow> nat \<Rightarrow> nat option" where
  "alternate_base event code =
     (case ke_base_layout event of Some b \<Rightarrow> if b \<noteq> code then Some b else None | None \<Rightarrow> None)"

definition alternates :: "nat option \<Rightarrow> nat option \<Rightarrow> u8 list" where
  "alternates sh b =
     (case (sh, b) of
        (Some sh, Some b) \<Rightarrow> [0x3A] @ dec sh @ [0x3A] @ dec b
      | (Some sh, None) \<Rightarrow> [0x3A] @ dec sh
      | (None, Some b) \<Rightarrow> [0x3A, 0x3A] @ dec b
      | (None, None) \<Rightarrow> [])"

text \<open>The escape sequence at the end of \<open>kitty_key_bytes\<close>.\<close>

definition kitty_sequence ::
  "nat \<Rightarrow> u8 \<Rightarrow> nat \<Rightarrow> nat option \<Rightarrow> u8 list \<Rightarrow> u8 list" where
  "kitty_sequence code final m event_type alternate_codes =
     [0x1B, 0x5B] @
     (if final = 0x75 \<or> final = 0x7E then dec code @ alternate_codes
      else if m > 1 \<or> event_type \<noteq> None then [0x31] else []) @
     (case event_type of
        Some e \<Rightarrow> [0x3B] @ dec m @ [0x3A] @ dec e
      | None \<Rightarrow> if m > 1 then [0x3B] @ dec m else []) @
     [final]"

definition effective_mods :: "key_event \<Rightarrow> modifiers \<Rightarrow> modifiers" where
  "effective_mods event mods =
     (let typed = (is_typed_text (ke_text event) \<and> ke_state event = Pressed);
          text_is_the_point = (\<not> control mods \<and> \<not> alt mods \<and> \<not> super mods)
      in mods\<lparr>shift := shift mods \<and> \<not> (typed \<and> text_is_the_point)\<rparr>)"

definition kitty_key_bytes :: "key_event \<Rightarrow> modifiers \<Rightarrow> u8 \<Rightarrow> u8 list option" where
  "kitty_key_bytes event mods flags =
     (let released = (ke_state event \<noteq> Pressed)
      in if released \<and> ke_logical event \<in> {Named Enter, Named Tab, Named Backspace, Other} then None
         else
           let typed = (is_typed_text (ke_text event) \<and> \<not> released);
               effective = effective_mods event mods;
               bare = (\<not> shift effective \<and> \<not> control effective \<and> \<not> alt effective \<and> \<not> super effective);
               sequence = (\<lambda>code final.
                 if bare \<and> typed then Some (as_bytes (the (ke_text event)))
                 else
                   Some (kitty_sequence code final (encode_mods effective)
                     (if flags AND KITTY_REPORT_EVENTS \<noteq> 0
                      then Some (if released then 3 else if ke_repeat event then 2 else 1) else None)
                     (if flags AND KITTY_REPORT_ALTERNATES \<noteq> 0
                      then alternates (alternate_shifted event effective code) (alternate_base event code)
                      else [])))
           in case ke_logical event of
                Named n \<Rightarrow>
                  if bare \<and> n = Enter then Some [0x0D]
                  else if bare \<and> n = Tab then Some [0x09]
                  else if bare \<and> n = Backspace then Some [0x7F]
                  else (let (code, final) = kitty_entry n in sequence code final)
              | Char c \<Rightarrow> sequence c 0x75
              | Other \<Rightarrow>
                  (case ke_text event of Some t \<Rightarrow> if t \<noteq> [] then Some (as_bytes t) else None | None \<Rightarrow> None))"

section \<open>One key\<close>

definition lower :: "uchar \<Rightarrow> uchar" where
  "lower c = (if 0x41 \<le> c \<and> c \<le> 0x5A then c + 0x20 else c)"

definition control_code :: "uchar \<Rightarrow> u8 option" where
  "control_code lc =
     (if 0x61 \<le> lc \<and> lc \<le> 0x7A then Some (of_nat (lc - 0x61 + 1))
      else if lc = 0x5B then Some 0x1B
      else if lc = 0x5C then Some 0x1C
      else if lc = 0x5D then Some 0x1D
      else if lc = 0x5E then Some 0x1E
      else if lc = 0x5F then Some 0x1F
      else if lc = 0x20 then Some 0x00
      else None)"

definition PASTE_START :: "u8 list" where "PASTE_START = [0x1B, 0x5B, 0x32, 0x30, 0x30, 0x7E]"
definition PASTE_END :: "u8 list" where "PASTE_END = [0x1B, 0x5B, 0x32, 0x30, 0x31, 0x7E]"

definition super_bytes :: "key_event \<Rightarrow> bool \<Rightarrow> ustring option \<Rightarrow> u8 list option" where
  "super_bytes event bracketed clipboard =
     (case (ke_logical event, clipboard) of
        (Char c, Some text) \<Rightarrow>
          if lower c = 0x76
          then Some (if bracketed then PASTE_START @ as_bytes text @ PASTE_END else as_bytes text)
          else None
      | _ \<Rightarrow> None)"

definition legacy_bytes :: "key_event \<Rightarrow> modifiers \<Rightarrow> bool \<Rightarrow> u8 list option" where
  "legacy_bytes event mods app =
     (case (if control mods then (case ke_logical event of Char c \<Rightarrow> control_code (lower c) | _ \<Rightarrow> None) else None) of
        Some code \<Rightarrow> Some [code]
      | None \<Rightarrow>
          (case ke_logical event of
             Named n \<Rightarrow> Some (encode_named_key n mods app)
           | _ \<Rightarrow>
               (case ke_text event of
                  Some text \<Rightarrow>
                    if alt mods \<and> text \<noteq> [] then Some (0x1B # as_bytes text) else Some (as_bytes text)
                | None \<Rightarrow> None)))"

definition key_event_to_bytes ::
  "key_event \<Rightarrow> modifiers \<Rightarrow> term_modes \<Rightarrow> ustring option \<Rightarrow> u8 list option" where
  "key_event_to_bytes event mods modes clipboard =
     (if ke_state event \<noteq> Pressed \<and> tm_kitty_keyboard modes AND KITTY_REPORT_EVENTS = 0 then None
      else if super mods then super_bytes event (tm_bracketed_paste modes) clipboard
      else if tm_kitty_keyboard modes \<noteq> 0 then kitty_key_bytes event mods (tm_kitty_keyboard modes)
      else if ke_state event \<noteq> Pressed then None
      else legacy_bytes event mods (tm_cursor_key_app modes))"

section \<open>Quoting a path\<close>

definition is_ascii :: "uchar \<Rightarrow> bool" where "is_ascii c \<longleftrightarrow> c < 0x80"

definition safe_char :: "uchar \<Rightarrow> bool" where
  "safe_char c \<longleftrightarrow> \<not> is_ascii c \<or> (0x30 \<le> c \<and> c \<le> 0x39) \<or> (0x41 \<le> c \<and> c \<le> 0x5A) \<or> (0x61 \<le> c \<and> c \<le> 0x7A) \<or>
     c \<in> {0x5F, 0x2D, 0x2E, 0x2F, 0x2B, 0x3D, 0x3A, 0x2C, 0x40, 0x25}"

definition quote_char :: "uchar \<Rightarrow> ustring" where
  "quote_char c = (if c = 0x27 then [0x27, 0x5C, 0x27, 0x27] else [c])"

definition shell_quote_path :: "ustring \<Rightarrow> ustring" where
  "shell_quote_path path =
     (if path \<noteq> [] \<and> list_all safe_char path then path
      else [0x27] @ concat (map quote_char path) @ [0x27])"

end
