(* ===== verification/WireMessages.thy ===== *)
theory WireMessages
  imports Wire InputCore
begin

text \<open>
  The payloads of \<open>crates/marspot-term/src/shell_proto.rs\<close>, an encoder and a decoder for each
  message.  A decoder gives \<open>None\<close> for \<open>Err(InvalidData)\<close>; every slice of the code follows the length
  test of its decoder.  An \<open>f64\<close> is its bit pattern.  Strings are checked with \<open>str::from_utf8\<close> or
  read with \<open>from_utf8_lossy\<close>, as the code does it.
\<close>

abbreviation (input) FIRST_WINDOW_ID :: u32 where "FIRST_WINDOW_ID \<equiv> 1"

definition trailing_window_id :: "u8 list \<Rightarrow> nat \<Rightarrow> u32" where
  "trailing_window_id payload at = (if at + 4 \<le> length payload then rd32 payload at else FIRST_WINDOW_ID)"

abbreviation len16 :: "u8 list \<Rightarrow> u8 list" where "len16 bs \<equiv> le16 (of_nat (length bs))"
abbreviation len32 :: "u8 list \<Rightarrow> u8 list" where "len32 bs \<equiv> le32 (of_nat (length bs))"
abbreviation flag :: "bool \<Rightarrow> u8" where "flag b \<equiv> of_bool b"

section \<open>Life cycle and search\<close>

definition encode_hello :: "u32 \<Rightarrow> u8 list" where "encode_hello version = le32 version"
definition decode_hello :: "u8 list \<Rightarrow> u32 option" where
  "decode_hello p = (if length p \<noteq> 4 then None else Some (rd32 p 0))"

definition encode_hello_ack :: "u32 \<Rightarrow> u8 list" where "encode_hello_ack version = le32 version"
definition decode_hello_ack :: "u8 list \<Rightarrow> u32 option" where "decode_hello_ack p = decode_hello p"

definition encode_ping :: "u32 \<Rightarrow> u8 list" where "encode_ping nonce = le32 nonce"
definition decode_ping :: "u8 list \<Rightarrow> u32 option" where
  "decode_ping p = (if length p \<noteq> 4 then None else Some (rd32 p 0))"

definition encode_pong :: "u32 \<Rightarrow> u8 list" where "encode_pong nonce = le32 nonce"
definition decode_pong :: "u8 list \<Rightarrow> u32 option" where "decode_pong p = decode_ping p"

definition encode_inject_input :: "u64 \<Rightarrow> u8 list \<Rightarrow> u8 list" where
  "encode_inject_input sid bytes = le64 sid @ len32 bytes @ bytes"

definition decode_inject_input :: "u8 list \<Rightarrow> (u64 \<times> u8 list) option" where
  "decode_inject_input p =
     (if length p < 12 then None
      else let len = unat (rd32 p 8)
           in if length p \<noteq> 12 + len then None else Some (rd64 p 0, drop 12 p))"

definition encode_search_scrollback :: "u32 \<Rightarrow> bool \<Rightarrow> u32 \<Rightarrow> ustring \<Rightarrow> u8 list" where
  "encode_search_scrollback query_id case_sensitive max_total query =
     (let q = as_bytes query
      in le32 query_id @ [flag case_sensitive] @ le32 max_total @ len32 q @ q)"

definition decode_search_scrollback :: "u8 list \<Rightarrow> (u32 \<times> bool \<times> u32 \<times> ustring) option" where
  "decode_search_scrollback p =
     (if length p < 13 then None
      else let q_len = unat (rd32 p 9)
           in if length p \<noteq> 13 + q_len then None
              else map_option (\<lambda>q. (rd32 p 0, p ! 4 \<noteq> 0, rd32 p 5, q)) (from_utf8 (drop 13 p)))"

record wire_physical_span =
  phys_row_idx :: u64
  col_start :: u16
  col_end_inclusive :: u16

record wire_search_hit =
  logical_line_idx :: u64
  char_offset :: u32
  char_len :: u32
  snippet_match_start :: u16
  snippet_match_end :: u16
  snippet :: ustring
  spans :: "wire_physical_span list"

definition encode_span :: "wire_physical_span \<Rightarrow> u8 list" where
  "encode_span s = le64 (phys_row_idx s) @ le16 (col_start s) @ le16 (col_end_inclusive s)"

definition encode_hit :: "wire_search_hit \<Rightarrow> u8 list" where
  "encode_hit h =
     (let snip = as_bytes (snippet h)
      in le64 (logical_line_idx h) @ le32 (char_offset h) @ le32 (char_len h) @
         le16 (snippet_match_start h) @ le16 (snippet_match_end h) @ len32 snip @ snip @
         le16 (of_nat (length (spans h))) @ concat (map encode_span (spans h)))"

definition encode_search_results :: "u32 \<Rightarrow> bool \<Rightarrow> u32 \<Rightarrow> wire_search_hit list \<Rightarrow> u8 list" where
  "encode_search_results query_id has_more total_seen hits =
     le32 query_id @ [flag has_more] @ le32 total_seen @ le32 (of_nat (length hits)) @
     concat (map encode_hit hits)"

definition need :: "u8 list \<Rightarrow> nat \<Rightarrow> nat \<Rightarrow> u8 list option" where
  "need payload p n = (if p + n > length payload then None else Some (slice payload p n))"

text \<open>The two loops of \<open>decode_search_results\<close>: what is read and the offset behind it.\<close>

primrec read_spans :: "u8 list \<Rightarrow> nat \<Rightarrow> nat \<Rightarrow> (wire_physical_span list \<times> nat) option" where
  "read_spans payload 0 p = Some ([], p)"
| "read_spans payload (Suc n) p =
     do {
       a \<leftarrow> need payload p 8;
       b \<leftarrow> need payload (p + 8) 2;
       c \<leftarrow> need payload (p + 10) 2;
       (ss, q) \<leftarrow> read_spans payload n (p + 12);
       Some (\<lparr>phys_row_idx = from_le a, col_start = from_le b, col_end_inclusive = from_le c\<rparr> # ss, q)
     }"

definition read_hit :: "u8 list \<Rightarrow> nat \<Rightarrow> (wire_search_hit \<times> nat) option" where
  "read_hit payload p =
     do {
       a \<leftarrow> need payload p 8;
       b \<leftarrow> need payload (p + 8) 4;
       c \<leftarrow> need payload (p + 12) 4;
       d \<leftarrow> need payload (p + 16) 2;
       e \<leftarrow> need payload (p + 18) 2;
       l \<leftarrow> need payload (p + 20) 4;
       let len = unat (from_le l :: u32);
       sn \<leftarrow> need payload (p + 24) len;
       text \<leftarrow> from_utf8 sn;
       k \<leftarrow> need payload (p + 24 + len) 2;
       (ss, q) \<leftarrow> read_spans payload (unat (from_le k :: u16)) (p + 24 + len + 2);
       Some (\<lparr>logical_line_idx = from_le a, char_offset = from_le b, char_len = from_le c,
              snippet_match_start = from_le d, snippet_match_end = from_le e, snippet = text, spans = ss\<rparr>, q)
     }"

primrec read_hits :: "u8 list \<Rightarrow> nat \<Rightarrow> nat \<Rightarrow> (wire_search_hit list \<times> nat) option" where
  "read_hits payload 0 p = Some ([], p)"
| "read_hits payload (Suc n) p =
     do {
       (h, q) \<leftarrow> read_hit payload p;
       (hs, r) \<leftarrow> read_hits payload n q;
       Some (h # hs, r)
     }"

definition decode_search_results :: "u8 list \<Rightarrow> (u32 \<times> bool \<times> u32 \<times> wire_search_hit list) option" where
  "decode_search_results payload =
     do {
       a \<leftarrow> need payload 0 4;
       b \<leftarrow> need payload 4 1;
       c \<leftarrow> need payload 5 4;
       d \<leftarrow> need payload 9 4;
       (hits, p) \<leftarrow> read_hits payload (unat (from_le d :: u32)) 13;
       (if p \<noteq> length payload then None else Some (from_le a, b ! 0 \<noteq> 0, from_le c, hits))
     }"

definition encode_search_more :: "u32 \<Rightarrow> u32 \<Rightarrow> u8 \<Rightarrow> u8 list" where
  "encode_search_more query_id cnt direction = le32 query_id @ le32 cnt @ [direction]"

definition decode_search_more :: "u8 list \<Rightarrow> (u32 \<times> u32 \<times> u8) option" where
  "decode_search_more p = (if length p \<noteq> 9 then None else Some (rd32 p 0, rd32 p 4, p ! 8))"

definition encode_search_cancel :: "u32 \<Rightarrow> u8 list" where "encode_search_cancel query_id = le32 query_id"
definition decode_search_cancel :: "u8 list \<Rightarrow> u32 option" where
  "decode_search_cancel p = (if length p \<noteq> 4 then None else Some (rd32 p 0))"

section \<open>Keys\<close>

datatype wire_key_state = WPressed | WReleased

datatype wire_logical_kind = KChar | KNamed | KOther

datatype (plugins only: size) wire_named_key =
  WEnter | WBackspace | WTab | WEscape | WArrowUp | WArrowDown | WArrowLeft | WArrowRight |
  WPageUp | WPageDown | WHome | WEnd | WInsert | WDelete | WF1 | WF2 | WF3 | WF4 | WF5 | WF6 |
  WF7 | WF8 | WF9 | WF10 | WF11 | WF12

definition wire_named_keys :: "wire_named_key list" where
  "wire_named_keys =
    [WEnter, WBackspace, WTab, WEscape, WArrowUp, WArrowDown, WArrowLeft, WArrowRight, WPageUp,
     WPageDown, WHome, WEnd, WInsert, WDelete, WF1, WF2, WF3, WF4, WF5, WF6, WF7, WF8, WF9, WF10,
     WF11, WF12]"

definition wire_named_from_u8 :: "u8 \<Rightarrow> wire_named_key option" where
  "wire_named_from_u8 v = (if v \<le> 25 then Some (wire_named_keys ! unat v) else None)"

record wire_key_event =
  wk_state :: wire_key_state
  wk_mods :: u8
  wk_kind :: wire_logical_kind
  wk_key_data :: u32
  wk_text :: ustring
  wk_repeat :: bool
  wk_base_layout :: u32

definition mods_to_byte :: "bool \<Rightarrow> bool \<Rightarrow> bool \<Rightarrow> bool \<Rightarrow> u8" where
  "mods_to_byte sh ctrl al sp =
     of_bool sh OR push_bit 1 (of_bool ctrl) OR push_bit 2 (of_bool al) OR push_bit 3 (of_bool sp)"

definition mods_from_byte :: "u8 \<Rightarrow> bool \<times> bool \<times> bool \<times> bool" where
  "mods_from_byte b = (b AND 1 \<noteq> 0, b AND 2 \<noteq> 0, b AND 4 \<noteq> 0, b AND 8 \<noteq> 0)"

abbreviation (input) KEY_FLAG_REPEAT :: u8 where "KEY_FLAG_REPEAT \<equiv> 1"

primrec state_byte :: "wire_key_state \<Rightarrow> u8" where
  "state_byte WPressed = 0"
| "state_byte WReleased = 1"

primrec kind_byte :: "wire_logical_kind \<Rightarrow> u8" where
  "kind_byte KChar = 0"
| "kind_byte KNamed = 1"
| "kind_byte KOther = 2"

definition encode_key_event :: "wire_key_event \<Rightarrow> u32 \<Rightarrow> u8 list" where
  "encode_key_event ev window_id =
     (let text = as_bytes (wk_text ev)
      in [state_byte (wk_state ev), wk_mods ev, kind_byte (wk_kind ev),
          if wk_repeat ev then KEY_FLAG_REPEAT else 0] @
         le32 (wk_key_data ev) @ len16 text @ text @ le32 window_id @ le32 (wk_base_layout ev))"

definition decode_key_event :: "u8 list \<Rightarrow> (wire_key_event \<times> u32) option" where
  "decode_key_event p =
     (if length p < 10 then None
      else do {
        state \<leftarrow> (if p ! 0 = 0 then Some WPressed else if p ! 0 = 1 then Some WReleased else None);
        kind \<leftarrow> (if p ! 2 = 0 then Some KChar else if p ! 2 = 1 then Some KNamed
                else if p ! 2 = 2 then Some KOther else None);
        let text_len = unat (rd16 p 8);
        (if length p < 10 + text_len then None
         else do {
           text \<leftarrow> from_utf8 (slice p 10 text_len);
           let at = 10 + text_len + 4;
           Some (\<lparr>wk_state = state, wk_mods = p ! 1, wk_kind = kind, wk_key_data = rd32 p 4, wk_text = text,
                  wk_repeat = (p ! 3 AND KEY_FLAG_REPEAT \<noteq> 0),
                  wk_base_layout = (if at + 4 \<le> length p then rd32 p at else 0)\<rparr>,
                 trailing_window_id p (10 + text_len))
         })
      })"

definition mods_to_struct :: "u8 \<Rightarrow> modifiers" where
  "mods_to_struct b =
     (let (sh, ctrl, al, sp) = mods_from_byte b
      in \<lparr>shift = sh, control = ctrl, alt = al, super = sp\<rparr>)"

definition struct_to_mods_byte :: "modifiers \<Rightarrow> u8" where
  "struct_to_mods_byte m = mods_to_byte (shift m) (control m) (alt m) (super m)"

primrec named_to_u8 :: "named_key \<Rightarrow> u8" where
  "named_to_u8 Enter = 0"
| "named_to_u8 Backspace = 1"
| "named_to_u8 Tab = 2"
| "named_to_u8 Escape = 3"
| "named_to_u8 ArrowUp = 4"
| "named_to_u8 ArrowDown = 5"
| "named_to_u8 ArrowLeft = 6"
| "named_to_u8 ArrowRight = 7"
| "named_to_u8 PageUp = 8"
| "named_to_u8 PageDown = 9"
| "named_to_u8 Home = 10"
| "named_to_u8 End = 11"
| "named_to_u8 Insert = 12"
| "named_to_u8 Delete = 13"
| "named_to_u8 F1 = 14"
| "named_to_u8 F2 = 15"
| "named_to_u8 F3 = 16"
| "named_to_u8 F4 = 17"
| "named_to_u8 F5 = 18"
| "named_to_u8 F6 = 19"
| "named_to_u8 F7 = 20"
| "named_to_u8 F8 = 21"
| "named_to_u8 F9 = 22"
| "named_to_u8 F10 = 23"
| "named_to_u8 F11 = 24"
| "named_to_u8 F12 = 25"

primrec u8_to_named :: "wire_named_key \<Rightarrow> named_key" where
  "u8_to_named WEnter = Enter"
| "u8_to_named WBackspace = Backspace"
| "u8_to_named WTab = Tab"
| "u8_to_named WEscape = Escape"
| "u8_to_named WArrowUp = ArrowUp"
| "u8_to_named WArrowDown = ArrowDown"
| "u8_to_named WArrowLeft = ArrowLeft"
| "u8_to_named WArrowRight = ArrowRight"
| "u8_to_named WPageUp = PageUp"
| "u8_to_named WPageDown = PageDown"
| "u8_to_named WHome = Home"
| "u8_to_named WEnd = End"
| "u8_to_named WInsert = Insert"
| "u8_to_named WDelete = Delete"
| "u8_to_named WF1 = F1"
| "u8_to_named WF2 = F2"
| "u8_to_named WF3 = F3"
| "u8_to_named WF4 = F4"
| "u8_to_named WF5 = F5"
| "u8_to_named WF6 = F6"
| "u8_to_named WF7 = F7"
| "u8_to_named WF8 = F8"
| "u8_to_named WF9 = F9"
| "u8_to_named WF10 = F10"
| "u8_to_named WF11 = F11"
| "u8_to_named WF12 = F12"

definition event_to_wire :: "key_event \<Rightarrow> modifiers \<Rightarrow> wire_key_event" where
  "event_to_wire ev mods =
     (let (kind, key_data) =
            (case ke_logical ev of
               Char c \<Rightarrow> (KChar, of_nat c)
             | Named n \<Rightarrow> (KNamed, ucast (named_to_u8 n))
             | Other \<Rightarrow> (KOther, 0))
      in \<lparr>wk_state = (case ke_state ev of Pressed \<Rightarrow> WPressed | Released \<Rightarrow> WReleased),
          wk_mods = struct_to_mods_byte mods, wk_kind = kind, wk_key_data = key_data,
          wk_text = (case ke_text ev of Some t \<Rightarrow> t | None \<Rightarrow> []),
          wk_repeat = ke_repeat ev,
          wk_base_layout = (case ke_base_layout ev of Some c \<Rightarrow> of_nat c | None \<Rightarrow> 0)\<rparr>)"

text \<open>\<open>char::from_u32\<close>.\<close>

definition char_from_u32 :: "u32 \<Rightarrow> uchar option" where
  "char_from_u32 w = (if is_scalar (unat w) then Some (unat w) else None)"

definition wire_to_event :: "wire_key_event \<Rightarrow> key_event \<times> modifiers" where
  "wire_to_event w =
     (\<lparr>ke_state = (case wk_state w of WPressed \<Rightarrow> Pressed | WReleased \<Rightarrow> Released),
       ke_logical =
         (case wk_kind w of
            KChar \<Rightarrow> (case char_from_u32 (wk_key_data w) of Some c \<Rightarrow> Char c | None \<Rightarrow> Other)
          | KNamed \<Rightarrow>
              (case wire_named_from_u8 (ucast (wk_key_data w)) of Some n \<Rightarrow> Named (u8_to_named n) | None \<Rightarrow> Other)
          | KOther \<Rightarrow> Other),
       ke_text = (if wk_text w = [] then None else Some (wk_text w)),
       ke_base_layout =
         (case char_from_u32 (wk_base_layout w) of Some c \<Rightarrow> if c \<noteq> 0 then Some c else None | None \<Rightarrow> None),
       ke_repeat = wk_repeat w\<rparr>,
      mods_to_struct (wk_mods w))"

section \<open>The pointer\<close>

definition encode_mouse :: "f64 \<Rightarrow> f64 \<Rightarrow> u8 \<Rightarrow> u32 \<Rightarrow> u8 list" where
  "encode_mouse x y mods window_id = le64 x @ le64 y @ [mods] @ le32 window_id"

definition decode_mouse :: "u8 list \<Rightarrow> (f64 \<times> f64 \<times> u8 \<times> u32) option" where
  "decode_mouse p =
     (if length p < 17 then None else Some (rd64 p 0, rd64 p 8, p ! 16, trailing_window_id p 17))"

definition encode_mouse_drag ::
  "f64 \<Rightarrow> f64 \<Rightarrow> u8 \<Rightarrow> u32 \<Rightarrow> u32 \<Rightarrow> f64 \<Rightarrow> f64 \<Rightarrow> u8 list" where
  "encode_mouse_drag x y mods window_id hover_window_id hover_x hover_y =
     encode_mouse x y mods window_id @ le32 hover_window_id @ le64 hover_x @ le64 hover_y"

definition decode_mouse_drag ::
  "u8 list \<Rightarrow> (f64 \<times> f64 \<times> u8 \<times> u32 \<times> u32 \<times> f64 \<times> f64) option" where
  "decode_mouse_drag p =
     do {
       (x, y, mods, win) \<leftarrow> decode_mouse p;
       (if length p \<ge> 41 then Some (x, y, mods, win, rd32 p 21, rd64 p 25, rd64 p 33)
        else Some (x, y, mods, win, 0, 0, 0))
     }"

definition encode_mouse_up ::
  "f64 \<Rightarrow> f64 \<Rightarrow> u8 \<Rightarrow> u32 \<Rightarrow> u32 \<Rightarrow> f64 \<Rightarrow> f64 \<Rightarrow> u8 list" where
  "encode_mouse_up x y mods window_id drop_window_id drop_x drop_y =
     encode_mouse x y mods window_id @ le32 drop_window_id @ le64 drop_x @ le64 drop_y"

definition decode_mouse_up ::
  "u8 list \<Rightarrow> (f64 \<times> f64 \<times> u8 \<times> u32 \<times> u32 \<times> f64 \<times> f64) option" where
  "decode_mouse_up p =
     do {
       (x, y, mods, win) \<leftarrow> decode_mouse p;
       let dw = (if length p \<ge> 25 then rd32 p 21 else 0);
       let (dx, dy) = (if length p \<ge> 41 then (rd64 p 25, rd64 p 33) else (0, 0));
       Some (x, y, mods, win, dw, dx, dy)
     }"

definition encode_scroll :: "f64 \<Rightarrow> f64 \<Rightarrow> bool \<Rightarrow> u32 \<Rightarrow> u8 list" where
  "encode_scroll dx dy precise window_id = le64 dx @ le64 dy @ [flag precise] @ le32 window_id"

definition decode_scroll :: "u8 list \<Rightarrow> (f64 \<times> f64 \<times> bool \<times> u32) option" where
  "decode_scroll p =
     (if length p < 17 then None else Some (rd64 p 0, rd64 p 8, p ! 16 \<noteq> 0, trailing_window_id p 17))"

end
