(* ===== verification/WirePanes.thy ===== *)
theory WirePanes
  imports WireMessages
begin

text \<open>
  The messages about windows, surfaces, panes, selections and the command line, the second half of
  \<open>shell_proto.rs\<close>.  The conventions are those of \<open>WireMessages\<close>.
\<close>

section \<open>Windows\<close>

definition encode_focus :: "bool \<Rightarrow> u8 list" where "encode_focus focused = [flag focused]"
definition decode_focus :: "u8 list \<Rightarrow> bool option" where
  "decode_focus p = (if p = [] then None else Some (p ! 0 \<noteq> 0))"

definition encode_surface_attach :: "u32 \<Rightarrow> u32 \<Rightarrow> f64 \<Rightarrow> f64 \<Rightarrow> f64 \<Rightarrow> u8 list" where
  "encode_surface_attach front_id back_id w_phys h_phys sc =
     le32 front_id @ le32 back_id @ le64 w_phys @ le64 h_phys @ le64 sc"

definition decode_surface_attach :: "u8 list \<Rightarrow> (u32 \<times> u32 \<times> f64 \<times> f64 \<times> f64) option" where
  "decode_surface_attach p =
     (if length p \<noteq> 32 then None else Some (rd32 p 0, rd32 p 4, rd64 p 8, rd64 p 16, rd64 p 24))"

definition encode_surface_attach_window ::
  "u32 \<Rightarrow> u32 \<Rightarrow> f64 \<Rightarrow> f64 \<Rightarrow> f64 \<Rightarrow> u32 \<Rightarrow> u32 \<Rightarrow> f64 \<Rightarrow> u8 list" where
  "encode_surface_attach_window front_id back_id w_phys h_phys sc window_id frame_index lights =
     encode_surface_attach front_id back_id w_phys h_phys sc @ le32 window_id @ le32 frame_index @ le64 lights"

definition decode_surface_attach_window ::
  "u8 list \<Rightarrow> (u32 \<times> u32 \<times> f64 \<times> f64 \<times> f64 \<times> u32 \<times> u32 option \<times> f64 option) option" where
  "decode_surface_attach_window p =
     (if length p < 36 then None
      else do {
        (front, bck, w, h, sc) \<leftarrow> decode_surface_attach (take 32 p);
        let frame_index = (if length p \<ge> 40 then Some (rd32 p 36) else None);
        let lights_right = (if length p \<ge> 48 then Some (rd64 p 40) else None);
        Some (front, bck, w, h, sc, trailing_window_id p 32, frame_index, lights_right)
      })"

definition encode_window_chrome :: "u32 \<Rightarrow> f64 \<Rightarrow> u8 list" where
  "encode_window_chrome window_id lights = le32 window_id @ le64 lights"
definition decode_window_chrome :: "u8 list \<Rightarrow> (u32 \<times> f64) option" where
  "decode_window_chrome p = (if length p < 12 then None else Some (rd32 p 0, rd64 p 4))"

definition encode_window_closed :: "u32 \<Rightarrow> u8 list" where "encode_window_closed window_id = le32 window_id"
definition decode_window_closed :: "u8 list \<Rightarrow> u32 option" where
  "decode_window_closed p = (if length p < 4 then None else Some (rd32 p 0))"

definition encode_window_focus :: "u32 \<Rightarrow> u8 list" where "encode_window_focus window_id = le32 window_id"
definition decode_window_focus :: "u8 list \<Rightarrow> u32 option" where
  "decode_window_focus p = (if length p < 4 then None else Some (rd32 p 0))"

definition encode_window_close_request :: "u32 \<Rightarrow> u8 list" where
  "encode_window_close_request window_id = le32 window_id"
definition decode_window_close_request :: "u8 list \<Rightarrow> u32 option" where
  "decode_window_close_request p = (if length p < 4 then None else Some (rd32 p 0))"

definition encode_window_open_request :: "u32 \<Rightarrow> u8 list" where
  "encode_window_open_request frame_index = le32 frame_index"
definition encode_window_open_request_at :: "u32 \<Rightarrow> f64 \<Rightarrow> f64 \<Rightarrow> u8 list" where
  "encode_window_open_request_at frame_index x y = le32 frame_index @ le64 x @ le64 y"
definition decode_window_open_request :: "u8 list \<Rightarrow> u32 option" where
  "decode_window_open_request p = (if length p < 4 then None else Some (rd32 p 0))"

text \<open>\<open>x != 0.0\<close>: the two zeros differ in the sign bit only.\<close>

definition f64_nonzero :: "f64 \<Rightarrow> bool" where
  "f64_nonzero x \<longleftrightarrow> take_bit 63 x \<noteq> 0"

definition decode_window_open_request_at :: "u8 list \<Rightarrow> (u32 \<times> (f64 \<times> f64) option) option" where
  "decode_window_open_request_at p =
     do {
       idx \<leftarrow> decode_window_open_request p;
       (if length p \<ge> 20 \<and> (f64_nonzero (rd64 p 4) \<or> f64_nonzero (rd64 p 12))
        then Some (idx, Some (rd64 p 4, rd64 p 12)) else Some (idx, None))
     }"

definition encode_resize :: "u32 \<Rightarrow> f64 \<Rightarrow> f64 \<Rightarrow> f64 \<Rightarrow> u8 list" where
  "encode_resize new_surface_id w_phys h_phys sc = le32 new_surface_id @ le64 w_phys @ le64 h_phys @ le64 sc"
definition decode_resize :: "u8 list \<Rightarrow> (u32 \<times> f64 \<times> f64 \<times> f64) option" where
  "decode_resize p = (if length p < 28 then None else Some (rd32 p 0, rd64 p 4, rd64 p 12, rd64 p 20))"

definition encode_surface_ready :: "u32 \<Rightarrow> u8 list" where "encode_surface_ready surface_id = le32 surface_id"
definition decode_surface_ready :: "u8 list \<Rightarrow> u32 option" where
  "decode_surface_ready p = (if length p < 4 then None else Some (rd32 p 0))"

definition encode_caret_rect :: "(f64 \<times> f64 \<times> f64 \<times> f64) option \<Rightarrow> u32 \<Rightarrow> u8 list" where
  "encode_caret_rect rect window_id =
     (case rect of
        None \<Rightarrow> [0]
      | Some (x, y, w, h) \<Rightarrow> [1] @ le64 x @ le64 y @ le64 w @ le64 h) @ le32 window_id"

definition decode_caret_rect :: "u8 list \<Rightarrow> ((f64 \<times> f64 \<times> f64 \<times> f64) option \<times> u32) option" where
  "decode_caret_rect p =
     (if p = [] then None
      else if p ! 0 = 0 then Some (None, trailing_window_id p 1)
      else if length p < 33 then None
      else Some (Some (rd64 p 1, rd64 p 9, rd64 p 17, rd64 p 25), trailing_window_id p 33))"

section \<open>Panes\<close>

abbreviation (input) PANE_BADGE_MAX_LEN :: nat where "PANE_BADGE_MAX_LEN \<equiv> 64"
abbreviation (input) PANE_TITLE_MAX_LEN :: nat where "PANE_TITLE_MAX_LEN \<equiv> 128"

definition encode_pane_badge :: "u64 \<Rightarrow> ustring \<Rightarrow> u8 list" where
  "encode_pane_badge session_id badge =
     (let bytes = as_bytes badge; n = min (length bytes) PANE_BADGE_MAX_LEN
      in le64 session_id @ le16 (of_nat n) @ take n bytes)"

definition decode_pane_badge :: "u8 list \<Rightarrow> (u64 \<times> ustring) option" where
  "decode_pane_badge p =
     (if length p < 10 then None
      else let n = unat (rd16 p 8)
           in if n > PANE_BADGE_MAX_LEN then None
              else if length p < 10 + n then None
              else Some (rd64 p 0, from_utf8_lossy (slice p 10 n)))"

definition encode_pane_title :: "u64 \<Rightarrow> ustring \<Rightarrow> u8 list" where
  "encode_pane_title session_id title =
     (let bytes = as_bytes title; n = min (length bytes) PANE_TITLE_MAX_LEN
      in le64 session_id @ le16 (of_nat n) @ take n bytes)"

definition decode_pane_title :: "u8 list \<Rightarrow> (u64 \<times> ustring) option" where
  "decode_pane_title p =
     (if length p < 10 then None
      else let n = unat (rd16 p 8)
           in if n > PANE_TITLE_MAX_LEN then None
              else if length p < 10 + n then None
              else Some (rd64 p 0, from_utf8_lossy (slice p 10 n)))"

definition encode_part :: "u8 list \<Rightarrow> u8 list" where
  "encode_part part = (let n = min (length part) u16_max in le16 (of_nat n) @ take n part)"

definition encode_pane_wheel_keys :: "u64 \<Rightarrow> u8 list \<Rightarrow> u8 list \<Rightarrow> u8 list \<Rightarrow> u8 list \<Rightarrow> u8 list" where
  "encode_pane_wheel_keys session_id enter up down marker =
     le64 session_id @ concat (map encode_part [enter, up, down, marker])"

primrec read_parts :: "u8 list \<Rightarrow> nat \<Rightarrow> nat \<Rightarrow> u8 list list option" where
  "read_parts p 0 at = Some []"
| "read_parts p (Suc k) at =
     (if at + 2 > length p then None
      else let n = unat (rd16 p at)
           in if at + 2 + n > length p then None
              else map_option ((#) (slice p (at + 2) n)) (read_parts p k (at + 2 + n)))"

definition decode_pane_wheel_keys ::
  "u8 list \<Rightarrow> (u64 \<times> u8 list \<times> u8 list \<times> u8 list \<times> u8 list) option" where
  "decode_pane_wheel_keys p =
     (if length p < 8 then None
      else map_option (\<lambda>parts. (rd64 p 0, parts ! 0, parts ! 1, parts ! 2, parts ! 3)) (read_parts p 4 8))"

definition encode_pane_recede :: "u64 \<Rightarrow> u32 \<Rightarrow> u8 list" where
  "encode_pane_recede session_id level = le64 session_id @ le32 level"
definition decode_pane_recede :: "u8 list \<Rightarrow> (u64 \<times> u32) option" where
  "decode_pane_recede p = (if length p < 12 then None else Some (rd64 p 0, rd32 p 8))"

definition encode_pane_reset_mouse_reporting :: "u64 \<Rightarrow> u8 list" where
  "encode_pane_reset_mouse_reporting session_id = le64 session_id"
definition decode_pane_reset_mouse_reporting :: "u8 list \<Rightarrow> u64 option" where
  "decode_pane_reset_mouse_reporting p = (if length p \<noteq> 8 then None else Some (rd64 p 0))"

definition encode_pane_terminal_focus :: "u64 \<Rightarrow> bool \<Rightarrow> u8 list" where
  "encode_pane_terminal_focus session_id focused = le64 session_id @ [flag focused]"
definition decode_pane_terminal_focus :: "u8 list \<Rightarrow> (u64 \<times> bool) option" where
  "decode_pane_terminal_focus p = (if length p \<noteq> 9 then None else Some (rd64 p 0, p ! 8 \<noteq> 0))"

definition encode_pane_hold_grid :: "u64 \<Rightarrow> bool \<Rightarrow> u8 list" where
  "encode_pane_hold_grid session_id on = le64 session_id @ [flag on]"
definition decode_pane_hold_grid :: "u8 list \<Rightarrow> (u64 \<times> bool) option" where
  "decode_pane_hold_grid p = (if length p < 9 then None else Some (rd64 p 0, p ! 8 \<noteq> 0))"

definition encode_pane_reset_attrs :: "u64 \<Rightarrow> u8 list" where
  "encode_pane_reset_attrs session_id = le64 session_id"
definition decode_pane_reset_attrs :: "u8 list \<Rightarrow> u64 option" where
  "decode_pane_reset_attrs p = (if length p \<noteq> 8 then None else Some (rd64 p 0))"

definition encode_pane_render_markup :: "u64 \<Rightarrow> bool \<Rightarrow> u8 list" where
  "encode_pane_render_markup session_id on = le64 session_id @ [flag on]"
definition decode_pane_render_markup :: "u8 list \<Rightarrow> (u64 \<times> bool) option" where
  "decode_pane_render_markup p = (if length p < 9 then None else Some (rd64 p 0, p ! 8 \<noteq> 0))"

definition encode_pane_agent_tui :: "u64 \<Rightarrow> bool \<Rightarrow> u8 list" where
  "encode_pane_agent_tui session_id on = encode_pane_render_markup session_id on"
definition decode_pane_agent_tui :: "u8 list \<Rightarrow> (u64 \<times> bool) option" where
  "decode_pane_agent_tui p = decode_pane_render_markup p"

definition encode_pane_inject_paste :: "u64 \<Rightarrow> ustring \<Rightarrow> u8 list" where
  "encode_pane_inject_paste session_id text = le64 session_id @ len32 (as_bytes text) @ as_bytes text"
definition decode_pane_inject_paste :: "u8 list \<Rightarrow> (u64 \<times> ustring) option" where
  "decode_pane_inject_paste p =
     (if length p < 12 then None
      else let n = unat (rd32 p 8)
           in if length p < 12 + n then None else Some (rd64 p 0, from_utf8_lossy (slice p 12 n)))"

definition encode_pane_badge_clicked :: "u64 \<Rightarrow> u8 list" where
  "encode_pane_badge_clicked session_id = le64 session_id"
definition decode_pane_badge_clicked :: "u8 list \<Rightarrow> u64 option" where
  "decode_pane_badge_clicked p = (if length p \<noteq> 8 then None else Some (rd64 p 0))"

definition encode_pane_focused :: "u64 \<Rightarrow> u8 list" where "encode_pane_focused session_id = le64 session_id"
definition decode_pane_focused :: "u8 list \<Rightarrow> u64 option" where
  "decode_pane_focused p = decode_pane_badge_clicked p"

section \<open>The badge menu\<close>

record pane_badge_menu_item =
  mi_tag :: u32
  mi_label :: ustring

abbreviation (input) PANE_BADGE_MENU_MAX_ITEMS :: nat where "PANE_BADGE_MENU_MAX_ITEMS \<equiv> 16"
abbreviation (input) PANE_BADGE_MENU_LABEL_MAX_LEN :: nat where "PANE_BADGE_MENU_LABEL_MAX_LEN \<equiv> 64"

definition encode_pane_badge_menu_request :: "u64 \<Rightarrow> f64 \<Rightarrow> f64 \<Rightarrow> u8 list" where
  "encode_pane_badge_menu_request session_id x y = le64 session_id @ le64 x @ le64 y"
definition decode_pane_badge_menu_request :: "u8 list \<Rightarrow> (u64 \<times> f64 \<times> f64) option" where
  "decode_pane_badge_menu_request p = (if length p \<noteq> 24 then None else Some (rd64 p 0, rd64 p 8, rd64 p 16))"

definition encode_menu_item :: "pane_badge_menu_item \<Rightarrow> u8 list" where
  "encode_menu_item item =
     (let bytes = as_bytes (mi_label item); len = min (length bytes) PANE_BADGE_MENU_LABEL_MAX_LEN
      in le32 (mi_tag item) @ le16 (of_nat len) @ take len bytes)"

definition encode_pane_badge_menu :: "u64 \<Rightarrow> f64 \<Rightarrow> f64 \<Rightarrow> pane_badge_menu_item list \<Rightarrow> u8 list" where
  "encode_pane_badge_menu session_id x y items =
     (let n = min (length items) PANE_BADGE_MENU_MAX_ITEMS
      in le64 session_id @ le64 x @ le64 y @ [of_nat n] @ concat (map encode_menu_item (take n items)))"

primrec read_menu_items :: "u8 list \<Rightarrow> nat \<Rightarrow> nat \<Rightarrow> pane_badge_menu_item list option" where
  "read_menu_items p 0 off = Some []"
| "read_menu_items p (Suc k) off =
     (if length p < off + 6 then None
      else let len = unat (rd16 p (off + 4))
           in if len > PANE_BADGE_MENU_LABEL_MAX_LEN then None
              else if length p < off + 6 + len then None
              else map_option
                     ((#) \<lparr>mi_tag = rd32 p off, mi_label = from_utf8_lossy (slice p (off + 6) len)\<rparr>)
                     (read_menu_items p k (off + 6 + len)))"

definition decode_pane_badge_menu :: "u8 list \<Rightarrow> (u64 \<times> f64 \<times> f64 \<times> pane_badge_menu_item list) option" where
  "decode_pane_badge_menu p =
     (if length p < 25 then None
      else let count = unat (p ! 24)
           in if count > PANE_BADGE_MENU_MAX_ITEMS then None
              else map_option (\<lambda>items. (rd64 p 0, rd64 p 8, rd64 p 16, items)) (read_menu_items p count 25))"

definition encode_pane_badge_menu_action :: "u64 \<Rightarrow> u32 \<Rightarrow> u8 list" where
  "encode_pane_badge_menu_action session_id tag = le64 session_id @ le32 tag"
definition decode_pane_badge_menu_action :: "u8 list \<Rightarrow> (u64 \<times> u32) option" where
  "decode_pane_badge_menu_action p = (if length p \<noteq> 12 then None else Some (rd64 p 0, rd32 p 8))"

section \<open>Pane sessions\<close>

definition encode_pane_session_begin :: "u64 \<Rightarrow> u32 \<Rightarrow> u8 list" where
  "encode_pane_session_begin session_id caps = le64 session_id @ le32 caps"
definition decode_pane_session_begin :: "u8 list \<Rightarrow> (u64 \<times> u32) option" where
  "decode_pane_session_begin p = (if length p \<noteq> 12 then None else Some (rd64 p 0, rd32 p 8))"

definition encode_pane_session_end :: "u64 \<Rightarrow> u8 list" where
  "encode_pane_session_end session_id = le64 session_id"
definition decode_pane_session_end :: "u8 list \<Rightarrow> u64 option" where
  "decode_pane_session_end p = (if length p \<noteq> 8 then None else Some (rd64 p 0))"

definition encode_pane_session_key :: "u64 \<Rightarrow> wire_key_event \<Rightarrow> u8 list" where
  "encode_pane_session_key session_id ev = le64 session_id @ encode_key_event ev FIRST_WINDOW_ID"
definition decode_pane_session_key :: "u8 list \<Rightarrow> (u64 \<times> wire_key_event) option" where
  "decode_pane_session_key p =
     (if length p < 8 then None
      else map_option (\<lambda>(ev, _). (rd64 p 0, ev)) (decode_key_event (drop 8 p)))"

definition encode_pane_session_user_escape :: "u64 \<Rightarrow> u8 list" where
  "encode_pane_session_user_escape session_id = le64 session_id"
definition decode_pane_session_user_escape :: "u8 list \<Rightarrow> u64 option" where
  "decode_pane_session_user_escape p = (if length p \<noteq> 8 then None else Some (rd64 p 0))"

section \<open>The grid and the selection\<close>

definition encode_grid_resize :: "u16 \<Rightarrow> u16 \<Rightarrow> u8 list" where
  "encode_grid_resize cols rows = le16 cols @ le16 rows"
definition decode_grid_resize :: "u8 list \<Rightarrow> (u16 \<times> u16) option" where
  "decode_grid_resize p = (if length p < 4 then None else Some (rd16 p 0, rd16 p 2))"

definition encode_grid_scroll :: "u16 \<Rightarrow> u8 list" where "encode_grid_scroll view_offset = le16 view_offset"
definition decode_grid_scroll :: "u8 list \<Rightarrow> u16 option" where
  "decode_grid_scroll p = (if length p < 2 then None else Some (rd16 p 0))"

definition encode_get_selection_text :: "u32 \<Rightarrow> u16 \<times> u32 \<Rightarrow> u16 \<times> u32 \<Rightarrow> bool \<Rightarrow> u8 list" where
  "encode_get_selection_text seq anchor focus blockwise =
     le32 seq @ le16 (fst anchor) @ le32 (snd anchor) @ le16 (fst focus) @ le32 (snd focus) @ [flag blockwise]"
definition decode_get_selection_text ::
  "u8 list \<Rightarrow> (u32 \<times> (u16 \<times> u32) \<times> (u16 \<times> u32) \<times> bool) option" where
  "decode_get_selection_text p =
     (if length p < 17 then None
      else Some (rd32 p 0, (rd16 p 4, rd32 p 6), (rd16 p 10, rd32 p 12), p ! 16 \<noteq> 0))"

definition encode_selection_text :: "u32 \<Rightarrow> ustring \<Rightarrow> u8 list" where
  "encode_selection_text seq text = le32 seq @ len32 (as_bytes text) @ as_bytes text"
definition decode_selection_text :: "u8 list \<Rightarrow> (u32 \<times> ustring) option" where
  "decode_selection_text p =
     (if length p < 8 then None
      else let len = unat (rd32 p 4)
           in if length p < 8 + len then None
              else map_option (Pair (rd32 p 0)) (from_utf8 (slice p 8 len)))"

section \<open>Text\<close>

definition encode_preedit :: "ustring \<Rightarrow> u32 \<Rightarrow> u8 list" where
  "encode_preedit text window_id = len16 (as_bytes text) @ as_bytes text @ le32 window_id"
definition decode_preedit :: "u8 list \<Rightarrow> (ustring \<times> u32) option" where
  "decode_preedit p =
     (if length p < 2 then None
      else let len = unat (rd16 p 0)
           in if length p < 2 + len then None
              else map_option (\<lambda>t. (t, trailing_window_id p (2 + len))) (from_utf8 (slice p 2 len)))"

definition encode_paste :: "ustring \<Rightarrow> u8 list" where
  "encode_paste text = len16 (as_bytes text) @ as_bytes text"
definition decode_paste :: "u8 list \<Rightarrow> ustring option" where
  "decode_paste p =
     (if length p < 2 then None
      else let len = unat (rd16 p 0)
           in if length p < 2 + len then None else from_utf8 (slice p 2 len))"

definition encode_path :: "ustring \<Rightarrow> u8 list" where
  "encode_path s = len16 (as_bytes s) @ as_bytes s"

definition encode_file_drop :: "f64 \<Rightarrow> f64 \<Rightarrow> ustring list \<Rightarrow> u32 \<Rightarrow> u8 list" where
  "encode_file_drop x y paths window_id =
     le64 x @ le64 y @ le16 (of_nat (length paths)) @ concat (map encode_path paths) @ le32 window_id"

primrec read_paths :: "u8 list \<Rightarrow> nat \<Rightarrow> nat \<Rightarrow> (ustring list \<times> nat) option" where
  "read_paths p 0 off = Some ([], off)"
| "read_paths p (Suc k) off =
     (if length p < off + 2 then None
      else let len = unat (rd16 p off)
           in if length p < off + 2 + len then None
              else do {
                s \<leftarrow> from_utf8 (slice p (off + 2) len);
                (ss, q) \<leftarrow> read_paths p k (off + 2 + len);
                Some (s # ss, q)
              })"

definition decode_file_drop :: "u8 list \<Rightarrow> (f64 \<times> f64 \<times> ustring list \<times> u32) option" where
  "decode_file_drop p =
     (if length p < 18 then None
      else map_option (\<lambda>(paths, off). (rd64 p 0, rd64 p 8, paths, trailing_window_id p off))
             (read_paths p (unat (rd16 p 16)) 18))"

section \<open>The command line\<close>

definition encode_cli_send_text :: "ustring \<Rightarrow> ustring \<Rightarrow> u8 list" where
  "encode_cli_send_text target text =
     len32 (as_bytes target) @ as_bytes target @ len32 (as_bytes text) @ as_bytes text"
definition decode_cli_send_text :: "u8 list \<Rightarrow> (ustring \<times> ustring) option" where
  "decode_cli_send_text p =
     (if length p < 4 then None
      else let t = unat (rd32 p 0)
           in if length p < 8 + t then None
              else let n = unat (rd32 p (4 + t))
                   in if length p < 8 + t + n then None
                      else Some (from_utf8_lossy (slice p 4 t), from_utf8_lossy (slice p (8 + t) n)))"

definition encode_cli_result :: "bool \<Rightarrow> ustring \<Rightarrow> u8 list" where
  "encode_cli_result ok message = [flag ok] @ len32 (as_bytes message) @ as_bytes message"
definition decode_cli_result :: "u8 list \<Rightarrow> (bool \<times> ustring) option" where
  "decode_cli_result p =
     (if length p < 5 then None
      else let n = unat (rd32 p 1)
           in if length p < 5 + n then None else Some (p ! 0 \<noteq> 0, from_utf8_lossy (slice p 5 n)))"

definition encode_pane_row :: "u64 \<times> ustring \<times> ustring \<Rightarrow> u8 list" where
  "encode_pane_row = (\<lambda>(sid, cwd, title).
     le64 sid @ len32 (as_bytes cwd) @ as_bytes cwd @ len32 (as_bytes title) @ as_bytes title)"

definition encode_cli_pane_list :: "(u64 \<times> ustring \<times> ustring) list \<Rightarrow> u8 list" where
  "encode_cli_pane_list panes = le32 (of_nat (length panes)) @ concat (map encode_pane_row panes)"

definition take_str :: "u8 list \<Rightarrow> nat \<Rightarrow> (ustring \<times> nat) option" where
  "take_str p at =
     (if length p < at + 4 then None
      else let len = unat (rd32 p at)
           in if length p < at + 4 + len then None
              else Some (from_utf8_lossy (slice p (at + 4) len), at + 4 + len))"

primrec read_pane_rows :: "u8 list \<Rightarrow> nat \<Rightarrow> nat \<Rightarrow> (u64 \<times> ustring \<times> ustring) list option" where
  "read_pane_rows p 0 at = Some []"
| "read_pane_rows p (Suc k) at =
     (if length p < at + 8 then None
      else do {
        (cwd, at') \<leftarrow> take_str p (at + 8);
        (title, at'') \<leftarrow> take_str p at';
        rows \<leftarrow> read_pane_rows p k at'';
        Some ((rd64 p at, cwd, title) # rows)
      })"

definition decode_cli_pane_list :: "u8 list \<Rightarrow> (u64 \<times> ustring \<times> ustring) list option" where
  "decode_cli_pane_list p = (if length p < 4 then None else read_pane_rows p (unat (rd32 p 0)) 4)"

definition encode_cli_read_pane :: "ustring \<Rightarrow> u32 \<Rightarrow> u8 list" where
  "encode_cli_read_pane target extra_lines = len32 (as_bytes target) @ as_bytes target @ le32 extra_lines"
definition decode_cli_read_pane :: "u8 list \<Rightarrow> (ustring \<times> u32) option" where
  "decode_cli_read_pane p =
     (if length p < 4 then None
      else let n = unat (rd32 p 0)
           in if length p < 8 + n then None else Some (from_utf8_lossy (slice p 4 n), rd32 p (4 + n)))"

definition encode_cli_autorun :: "ustring \<Rightarrow> bool option \<Rightarrow> u8 list" where
  "encode_cli_autorun target on =
     len32 (as_bytes target) @ as_bytes target @
     [case on of None \<Rightarrow> 0 | Some True \<Rightarrow> 1 | Some False \<Rightarrow> 2]"
definition decode_cli_autorun :: "u8 list \<Rightarrow> (ustring \<times> bool option) option" where
  "decode_cli_autorun p =
     (if length p < 4 then None
      else let n = unat (rd32 p 0)
           in if length p < 5 + n then None
              else Some (from_utf8_lossy (slice p 4 n),
                         if p ! (4 + n) = 1 then Some True else if p ! (4 + n) = 2 then Some False else None))"

definition encode_cli_text :: "ustring \<Rightarrow> u8 list" where
  "encode_cli_text text = len32 (as_bytes text) @ as_bytes text"
definition decode_cli_text :: "u8 list \<Rightarrow> ustring option" where
  "decode_cli_text p =
     (if length p < 4 then None
      else let n = unat (rd32 p 0)
           in if length p < 4 + n then None else Some (from_utf8_lossy (slice p 4 n)))"

end
