(* ===== verification/WireProps.thy ===== *)
theory WireProps
  imports WirePanes
begin

text \<open>
  What the messages promise: every payload decodes to what was encoded, a peer that writes fewer
  trailing fields is still understood, a key press arrives as the key it was, and how long a paste
  may be.
\<close>

section \<open>Reading what was written\<close>

lemma slice_at [simp]:
  "length xs \<le> i \<Longrightarrow> slice (xs @ ys) i n = slice ys (i - length xs) n"
  "length xs = n \<Longrightarrow> slice (xs @ ys) 0 n = xs"
  "length xs = n \<Longrightarrow> slice xs 0 n = xs"
  by (simp_all add: slice_past slice_front, simp add: slice_def)

lemma slice_past_byte [simp]: "0 < i \<Longrightarrow> slice (b # ys) i n = slice ys (i - 1) n"
  by (cases i) (simp_all add: slice_def)

lemma need_at [simp]:
  "length xs \<le> i \<Longrightarrow> need (xs @ ys) i n = need ys (i - length xs) n"
  "length xs = n \<Longrightarrow> need (xs @ ys) 0 n = Some xs"
  "length xs = n \<Longrightarrow> need xs 0 n = Some xs"
  "0 < i \<Longrightarrow> need (b # ys) i n = need ys (i - 1) n"
  "need (b # ys) 0 1 = Some [b]" "need (b # ys) 0 (Suc 0) = Some [b]"
  by (auto simp: need_def, simp_all add: slice_def)

lemma trailing_at [simp]:
  "length xs \<le> i \<Longrightarrow> trailing_window_id (xs @ ys) i = trailing_window_id ys (i - length xs)"
  "0 < i \<Longrightarrow> trailing_window_id (b # ys) i = trailing_window_id ys (i - 1)"
  "trailing_window_id (le32 w @ ys) 0 = w" "trailing_window_id (le32 w) 0 = w"
  "trailing_window_id [] i = FIRST_WINDOW_ID"
  by (auto simp: trailing_window_id_def)

lemma unat_of_len:
  "n < 2 ^ 16 \<Longrightarrow> unat (of_nat n :: u16) = n" "n < 2 ^ 32 \<Longrightarrow> unat (of_nat n :: u32) = n"
  by (simp_all add: unsigned_of_nat take_bit_nat_eq_self)

lemmas fixed_defs =
  encode_hello_def decode_hello_def encode_hello_ack_def decode_hello_ack_def encode_ping_def
  decode_ping_def encode_pong_def decode_pong_def encode_search_more_def decode_search_more_def
  encode_search_cancel_def decode_search_cancel_def encode_mouse_def decode_mouse_def
  encode_mouse_drag_def decode_mouse_drag_def encode_mouse_up_def decode_mouse_up_def
  encode_scroll_def decode_scroll_def encode_focus_def decode_focus_def encode_surface_attach_def
  decode_surface_attach_def encode_surface_attach_window_def decode_surface_attach_window_def
  encode_window_chrome_def decode_window_chrome_def encode_window_closed_def
  decode_window_closed_def encode_window_focus_def decode_window_focus_def
  encode_window_close_request_def decode_window_close_request_def encode_window_open_request_def
  encode_window_open_request_at_def decode_window_open_request_def
  decode_window_open_request_at_def encode_resize_def decode_resize_def encode_surface_ready_def
  decode_surface_ready_def encode_caret_rect_def decode_caret_rect_def encode_pane_recede_def
  decode_pane_recede_def encode_pane_reset_mouse_reporting_def decode_pane_reset_mouse_reporting_def
  encode_pane_terminal_focus_def decode_pane_terminal_focus_def encode_pane_hold_grid_def
  decode_pane_hold_grid_def encode_pane_reset_attrs_def decode_pane_reset_attrs_def
  encode_pane_render_markup_def decode_pane_render_markup_def encode_pane_agent_tui_def
  decode_pane_agent_tui_def encode_pane_badge_clicked_def decode_pane_badge_clicked_def
  encode_pane_focused_def decode_pane_focused_def encode_pane_badge_menu_request_def
  decode_pane_badge_menu_request_def encode_pane_badge_menu_action_def
  decode_pane_badge_menu_action_def encode_pane_session_begin_def decode_pane_session_begin_def
  encode_pane_session_end_def decode_pane_session_end_def encode_pane_session_user_escape_def
  decode_pane_session_user_escape_def encode_grid_resize_def decode_grid_resize_def
  encode_grid_scroll_def decode_grid_scroll_def encode_get_selection_text_def
  decode_get_selection_text_def

lemma control_roundtrips:
  "decode_hello (encode_hello v) = Some v" "decode_hello_ack (encode_hello_ack v) = Some v"
  "decode_ping (encode_ping v) = Some v" "decode_pong (encode_pong v) = Some v"
  "decode_search_more (encode_search_more v k d) = Some (v, k, d)"
  "decode_search_cancel (encode_search_cancel v) = Some v"
  "decode_focus (encode_focus b) = Some b"
  "decode_mouse (encode_mouse x y d w) = Some (x, y, d, w)"
  "decode_mouse_drag (encode_mouse_drag x y d w v x' y') = Some (x, y, d, w, v, x', y')"
  "decode_mouse_up (encode_mouse_up x y d w v x' y') = Some (x, y, d, w, v, x', y')"
  "decode_scroll (encode_scroll x y b w) = Some (x, y, b, w)"
  by (simp_all add: fixed_defs nth_append)

lemma window_roundtrips:
  "decode_surface_attach (encode_surface_attach v k x y z) = Some (v, k, x, y, z)"
  "decode_surface_attach_window (encode_surface_attach_window v k x y z w i l) =
     Some (v, k, x, y, z, w, Some i, Some l)"
  "decode_window_chrome (encode_window_chrome w l) = Some (w, l)"
  "decode_window_closed (encode_window_closed w) = Some w"
  "decode_window_focus (encode_window_focus w) = Some w"
  "decode_window_close_request (encode_window_close_request w) = Some w"
  "decode_window_open_request (encode_window_open_request w) = Some w"
  "decode_window_open_request_at (encode_window_open_request_at w x y) =
     Some (w, if f64_nonzero x \<or> f64_nonzero y then Some (x, y) else None)"
  "decode_resize (encode_resize v x y z) = Some (v, x, y, z)"
  "decode_surface_ready (encode_surface_ready v) = Some v"
  "decode_caret_rect (encode_caret_rect r w) = Some (r, w)"
  by (simp_all add: fixed_defs nth_append split: option.split)

lemma pane_roundtrips:
  "decode_pane_recede (encode_pane_recede s v) = Some (s, v)"
  "decode_pane_reset_mouse_reporting (encode_pane_reset_mouse_reporting s) = Some s"
  "decode_pane_terminal_focus (encode_pane_terminal_focus s b) = Some (s, b)"
  "decode_pane_hold_grid (encode_pane_hold_grid s b) = Some (s, b)"
  "decode_pane_reset_attrs (encode_pane_reset_attrs s) = Some s"
  "decode_pane_render_markup (encode_pane_render_markup s b) = Some (s, b)"
  "decode_pane_agent_tui (encode_pane_agent_tui s b) = Some (s, b)"
  "decode_pane_badge_clicked (encode_pane_badge_clicked s) = Some s"
  "decode_pane_focused (encode_pane_focused s) = Some s"
  "decode_pane_badge_menu_request (encode_pane_badge_menu_request s x y) = Some (s, x, y)"
  "decode_pane_badge_menu_action (encode_pane_badge_menu_action s v) = Some (s, v)"
  "decode_pane_session_begin (encode_pane_session_begin s v) = Some (s, v)"
  "decode_pane_session_end (encode_pane_session_end s) = Some s"
  "decode_pane_session_user_escape (encode_pane_session_user_escape s) = Some s"
  "decode_grid_resize (encode_grid_resize c r) = Some (c, r)"
  "decode_grid_scroll (encode_grid_scroll r) = Some r"
  "decode_get_selection_text (encode_get_selection_text v (c, a) (c', a') b) = Some (v, (c, a), (c', a'), b)"
  by (simp_all add: fixed_defs nth_append)

section \<open>Messages with text\<close>

definition fits16 :: "ustring \<Rightarrow> bool" where
  "fits16 s \<longleftrightarrow> str_wf s \<and> length (as_bytes s) < 2 ^ 16"
definition fits32 :: "ustring \<Rightarrow> bool" where
  "fits32 s \<longleftrightarrow> str_wf s \<and> length (as_bytes s) < 2 ^ 32"

lemmas text_defs = fits16_def fits32_def Let_def unat_of_len from_utf8_as_bytes lossy_as_bytes
  encode_inject_input_def decode_inject_input_def encode_search_scrollback_def
  decode_search_scrollback_def encode_selection_text_def decode_selection_text_def
  encode_preedit_def decode_preedit_def encode_paste_def decode_paste_def
  encode_pane_inject_paste_def decode_pane_inject_paste_def encode_cli_send_text_def
  decode_cli_send_text_def encode_cli_result_def decode_cli_result_def encode_cli_read_pane_def
  decode_cli_read_pane_def encode_cli_autorun_def decode_cli_autorun_def encode_cli_text_def
  decode_cli_text_def

lemma text_roundtrips:
  "length bs < 2 ^ 32 \<Longrightarrow> decode_inject_input (encode_inject_input s bs) = Some (s, bs)"
  "fits32 t \<Longrightarrow> decode_search_scrollback (encode_search_scrollback v b k t) = Some (v, b, k, t)"
  "fits32 t \<Longrightarrow> decode_selection_text (encode_selection_text v t) = Some (v, t)"
  "fits16 t \<Longrightarrow> decode_preedit (encode_preedit t w) = Some (t, w)"
  "fits16 t \<Longrightarrow> decode_paste (encode_paste t) = Some t"
  "fits32 t \<Longrightarrow> decode_pane_inject_paste (encode_pane_inject_paste s t) = Some (s, t)"
  "fits32 t \<Longrightarrow> fits32 u \<Longrightarrow> decode_cli_send_text (encode_cli_send_text t u) = Some (t, u)"
  "fits32 t \<Longrightarrow> decode_cli_result (encode_cli_result b t) = Some (b, t)"
  "fits32 t \<Longrightarrow> decode_cli_read_pane (encode_cli_read_pane t v) = Some (t, v)"
  "fits32 t \<Longrightarrow> decode_cli_text (encode_cli_text t) = Some t"
  by (simp_all add: text_defs nth_append)

lemma autorun_roundtrip:
  "fits32 t \<Longrightarrow> decode_cli_autorun (encode_cli_autorun t on) = Some (t, on)"
  by (simp add: text_defs nth_append split: option.split bool.split)

section \<open>Messages with lists\<close>

lemma read_spans_at:
  "length pre = p \<Longrightarrow> read_spans (pre @ concat (map encode_span ss) @ post) (length ss) p =
     Some (ss, p + length (concat (map encode_span ss)))"
proof (induction ss arbitrary: pre p)
  case (Cons s ss)
  show ?case
    using Cons.IH [of "pre @ encode_span s" "p + 12"] Cons.prems
    by (simp add: encode_span_def add.assoc)
qed simp

definition hit_ok :: "wire_search_hit \<Rightarrow> bool" where
  "hit_ok h \<longleftrightarrow> fits32 (snippet h) \<and> length (spans h) < 2 ^ 16"

lemma read_hit_at:
  assumes "hit_ok h" "length pre = p"
  shows "read_hit (pre @ encode_hit h @ post) p = Some (h, p + length (encode_hit h))"
proof -
  let ?snip = "as_bytes (snippet h)"
  let ?head = "pre @ le64 (logical_line_idx h) @ le32 (char_offset h) @ le32 (char_len h) @
    le16 (snippet_match_start h) @ le16 (snippet_match_end h) @ len32 ?snip @ ?snip @
    le16 (of_nat (length (spans h)))"
  have "read_spans (?head @ concat (map encode_span (spans h)) @ post) (length (spans h))
      (p + 26 + length ?snip) =
    Some (spans h, p + 26 + length ?snip + length (concat (map encode_span (spans h))))"
    by (rule read_spans_at) (simp add: assms)
  then show ?thesis
    using assms by (simp add: read_hit_def encode_hit_def hit_ok_def text_defs ac_simps)
qed

lemma read_hits_at:
  "\<forall>h \<in> set hs. hit_ok h \<Longrightarrow> length pre = p \<Longrightarrow>
   read_hits (pre @ concat (map encode_hit hs) @ post) (length hs) p =
     Some (hs, p + length (concat (map encode_hit hs)))"
proof (induction hs arbitrary: pre p)
  case (Cons h hs)
  show ?case
    using Cons.IH [of "pre @ encode_hit h" "p + length (encode_hit h)"] Cons.prems
      read_hit_at [of h pre p "concat (map encode_hit hs) @ post"]
    by (simp add: add.assoc)
qed simp

lemma search_results_roundtrip:
  assumes "\<forall>h \<in> set hits. hit_ok h" "length hits < 2 ^ 32"
  shows "decode_search_results (encode_search_results q b t hits) = Some (q, b, t, hits)"
proof -
  let ?pre = "le32 q @ [flag b] @ le32 t @ le32 (of_nat (length hits))"
  have "read_hits (?pre @ concat (map encode_hit hits) @ []) (length hits) 13 =
      Some (hits, 13 + length (concat (map encode_hit hits)))"
    by (rule read_hits_at [OF assms(1)]) simp
  then show ?thesis
    using assms(2) by (simp add: decode_search_results_def encode_search_results_def unat_of_len)
qed

lemma read_menu_items_at:
  "\<forall>i \<in> set items. str_wf (mi_label i) \<and> length (as_bytes (mi_label i)) \<le> PANE_BADGE_MENU_LABEL_MAX_LEN \<Longrightarrow>
   length pre = p \<Longrightarrow>
   read_menu_items (pre @ concat (map encode_menu_item items) @ post) (length items) p = Some items"
proof (induction items arbitrary: pre p)
  case (Cons i items)
  show ?case
    using Cons.IH [of "pre @ encode_menu_item i" "p + 6 + length (as_bytes (mi_label i))"] Cons.prems
    by (simp add: encode_menu_item_def text_defs add.assoc)
qed simp

lemma read_paths_at:
  "\<forall>s \<in> set ss. fits16 s \<Longrightarrow> length pre = p \<Longrightarrow>
   read_paths (pre @ concat (map encode_path ss) @ post) (length ss) p =
     Some (ss, p + length (concat (map encode_path ss)))"
proof (induction ss arbitrary: pre p)
  case (Cons s ss)
  show ?case
    using Cons.IH [of "pre @ encode_path s" "p + length (encode_path s)"] Cons.prems
    by (simp add: encode_path_def text_defs add.assoc)
qed simp

lemma take_str_at:
  "fits32 s \<Longrightarrow> length pre = p \<Longrightarrow>
   take_str (pre @ len32 (as_bytes s) @ as_bytes s @ post) p = Some (s, p + 4 + length (as_bytes s))"
  by (simp add: take_str_def text_defs)

lemma read_pane_rows_at:
  "\<forall>(sid, cwd, title) \<in> set rows. fits32 cwd \<and> fits32 title \<Longrightarrow> length pre = p \<Longrightarrow>
   read_pane_rows (pre @ concat (map encode_pane_row rows) @ post) (length rows) p = Some rows"
proof (induction rows arbitrary: pre p)
  case (Cons r rows)
  obtain sid cwd title where r: "r = (sid, cwd, title)" by (cases r)
  let ?rest = "concat (map encode_pane_row rows) @ post"
  show ?case
    using Cons.IH [of "pre @ encode_pane_row r" "p + length (encode_pane_row r)"] Cons.prems
      take_str_at [of cwd "pre @ le64 sid" "p + 8" "len32 (as_bytes title) @ as_bytes title @ ?rest"]
      take_str_at [of title "pre @ le64 sid @ len32 (as_bytes cwd) @ as_bytes cwd"
        "p + 8 + 4 + length (as_bytes cwd)" ?rest]
    by (simp add: encode_pane_row_def r add.assoc)
qed simp

definition menu_item_ok :: "pane_badge_menu_item \<Rightarrow> bool" where
  "menu_item_ok i \<longleftrightarrow> str_wf (mi_label i) \<and> length (as_bytes (mi_label i)) \<le> PANE_BADGE_MENU_LABEL_MAX_LEN"

lemma badge_menu_roundtrip:
  assumes "\<forall>i \<in> set items. menu_item_ok i" "length items \<le> PANE_BADGE_MENU_MAX_ITEMS"
  shows "decode_pane_badge_menu (encode_pane_badge_menu s x y items) = Some (s, x, y, items)"
proof -
  have "unat (of_nat (length items) :: u8) = length items"
    using assms(2) by (simp add: unsigned_of_nat take_bit_nat_eq_self)
  moreover have "read_menu_items ((le64 s @ le64 x @ le64 y @ [of_nat (length items)]) @
      concat (map encode_menu_item items) @ []) (length items) 25 = Some items"
    by (rule read_menu_items_at) (use assms(1) in \<open>auto simp: menu_item_ok_def\<close>)
  ultimately show ?thesis
    using assms(2) by (simp add: encode_pane_badge_menu_def decode_pane_badge_menu_def nth_append min_absorb1)
qed

lemma file_drop_roundtrip:
  assumes "\<forall>s \<in> set paths. fits16 s" "length paths < 2 ^ 16"
  shows "decode_file_drop (encode_file_drop x y paths w) = Some (x, y, paths, w)"
proof -
  have "read_paths ((le64 x @ le64 y @ le16 (of_nat (length paths))) @
      concat (map encode_path paths) @ le32 w) (length paths) 18 =
      Some (paths, 18 + length (concat (map encode_path paths)))"
    by (rule read_paths_at [OF assms(1)]) simp
  then show ?thesis
    using assms(2) by (simp add: encode_file_drop_def decode_file_drop_def unat_of_len)
qed

lemma pane_list_roundtrip:
  assumes "\<forall>(sid, cwd, title) \<in> set panes. fits32 cwd \<and> fits32 title" "length panes < 2 ^ 32"
  shows "decode_cli_pane_list (encode_cli_pane_list panes) = Some panes"
  using read_pane_rows_at [OF assms(1), of "le32 (of_nat (length panes))" 4 "[]"] assms(2)
  by (simp add: encode_cli_pane_list_def decode_cli_pane_list_def unat_of_len)

lemma read_parts_at:
  "\<forall>k \<in> set ks. length k \<le> u16_max \<Longrightarrow> length pre = p \<Longrightarrow>
   read_parts (pre @ concat (map encode_part ks)) (length ks) p = Some ks"
proof (induction ks arbitrary: pre p)
  case (Cons k ks)
  have "unat (of_nat (length k) :: u16) = length k" using Cons.prems(1) by (simp add: unat_of_len)
  then show ?case
    using Cons.IH [of "pre @ encode_part k" "p + 2 + length k"] Cons.prems
    by (simp add: encode_part_def Let_def min_absorb1 add.assoc)
qed simp

lemma wheel_keys_roundtrip:
  assumes "\<forall>k \<in> {a, b, c, d}. length k \<le> u16_max"
  shows "decode_pane_wheel_keys (encode_pane_wheel_keys s a b c d) = Some (s, a, b, c, d)"
proof -
  have four: "length [a, b, c, d] = 4" by simp
  have "\<forall>k \<in> set [a, b, c, d]. length k \<le> u16_max" using assms by simp
  from read_parts_at [OF this, of "le64 s" 8]
  have "read_parts (le64 s @ concat (map encode_part [a, b, c, d])) 4 8 = Some [a, b, c, d]"
    by (simp only: four length_to_le)
  then show ?thesis
    by (simp add: encode_pane_wheel_keys_def decode_pane_wheel_keys_def del: read_parts.simps)
qed

text \<open>A badge or a title that fits arrives whole; a longer one arrives cut at the byte cap.\<close>

lemma badge_title_roundtrip:
  "str_wf t \<Longrightarrow> length (as_bytes t) \<le> PANE_BADGE_MAX_LEN \<Longrightarrow>
   decode_pane_badge (encode_pane_badge s t) = Some (s, t)"
  "str_wf t \<Longrightarrow> length (as_bytes t) \<le> PANE_TITLE_MAX_LEN \<Longrightarrow>
   decode_pane_title (encode_pane_title s t) = Some (s, t)"
  by (simp_all add: encode_pane_badge_def decode_pane_badge_def encode_pane_title_def
      decode_pane_title_def text_defs min_absorb1)

lemma badge_cut:
  "decode_pane_badge (encode_pane_badge s t) =
     Some (s, from_utf8_lossy (take PANE_BADGE_MAX_LEN (as_bytes t)))"
  by (cases "length (as_bytes t) \<le> 64")
    (simp_all add: encode_pane_badge_def decode_pane_badge_def text_defs min_def)

section \<open>Keys\<close>

lemma state_bytes:
  "state_byte x = 0 \<longleftrightarrow> x = WPressed" "state_byte x = 1 \<longleftrightarrow> x = WReleased"
  "kind_byte k = 0 \<longleftrightarrow> k = KChar" "kind_byte k = 1 \<longleftrightarrow> k = KNamed" "kind_byte k = 2 \<longleftrightarrow> k = KOther"
  by (cases x; simp)+ (cases k; simp)+

lemma decode_key_tail:
  assumes "fits16 (wk_text ev)"
  shows "decode_key_event ([state_byte (wk_state ev), wk_mods ev, kind_byte (wk_kind ev),
        if wk_repeat ev then KEY_FLAG_REPEAT else 0] @ le32 (wk_key_data ev) @
        len16 (as_bytes (wk_text ev)) @ as_bytes (wk_text ev) @ tail) =
    Some (ev\<lparr>wk_base_layout := if 8 \<le> length tail then rd32 tail 4 else 0\<rparr>, trailing_window_id tail 0)"
  using assms
  by (cases "wk_state ev"; cases "wk_kind ev") (simp_all add: decode_key_event_def text_defs)

lemma wire_key_roundtrip:
  "fits16 (wk_text ev) \<Longrightarrow> decode_key_event (encode_key_event ev w) = Some (ev, w)"
  using decode_key_tail [of ev "le32 w @ le32 (wk_base_layout ev)"]
  by (simp add: encode_key_event_def Let_def)

lemma session_key_roundtrip:
  "fits16 (wk_text ev) \<Longrightarrow> decode_pane_session_key (encode_pane_session_key s ev) = Some (s, ev)"
  by (simp add: encode_pane_session_key_def decode_pane_session_key_def wire_key_roundtrip)

lemma mods_roundtrip: "mods_to_struct (struct_to_mods_byte m) = m"
  by (cases "shift m"; cases "control m"; cases "alt m"; cases "super m")
    (simp_all add: mods_to_struct_def struct_to_mods_byte_def mods_from_byte_def mods_to_byte_def)

lemma named_roundtrip: "\<exists>w. wire_named_from_u8 (named_to_u8 n) = Some w \<and> u8_to_named w = n"
  by (cases n) (simp_all add: wire_named_from_u8_def wire_named_keys_def)

definition key_ok :: "key_event \<Rightarrow> bool" where
  "key_ok ev \<longleftrightarrow>
     (case ke_logical ev of Char c \<Rightarrow> is_scalar c | _ \<Rightarrow> True) \<and>
     (case ke_text ev of Some t \<Rightarrow> t \<noteq> [] \<and> str_wf t | None \<Rightarrow> True) \<and>
     (case ke_base_layout ev of Some c \<Rightarrow> is_scalar c \<and> c \<noteq> 0 | None \<Rightarrow> True)"

lemma char_from_scalar: "is_scalar c \<Longrightarrow> char_from_u32 (of_nat c) = Some c"
proof -
  assume c: "is_scalar c"
  then have "c < 2 ^ 32" by (auto simp: is_scalar_def)
  then have "unat (of_nat c :: u32) = c" by (simp add: unat_of_len)
  then show ?thesis using c by (simp add: char_from_u32_def)
qed

lemma byte_in_word: "ucast (ucast (b :: u8) :: u32) = b"
  by (rule bit_word_eqI) (simp add: bit_simps)

lemma event_roundtrip:
  assumes "key_ok ev"
  shows "wire_to_event (event_to_wire ev mods) = (ev, mods)"
proof -
  have l: "(case wk_kind (event_to_wire ev mods) of
      KChar \<Rightarrow> (case char_from_u32 (wk_key_data (event_to_wire ev mods)) of Some c \<Rightarrow> Char c | None \<Rightarrow> Other)
    | KNamed \<Rightarrow> (case wire_named_from_u8 (ucast (wk_key_data (event_to_wire ev mods))) of
        Some n \<Rightarrow> Named (u8_to_named n) | None \<Rightarrow> Other)
    | KOther \<Rightarrow> Other) = ke_logical ev"
    using assms named_roundtrip [of "case ke_logical ev of Named n \<Rightarrow> n"]
    by (cases "ke_logical ev")
      (auto simp: event_to_wire_def key_ok_def char_from_scalar byte_in_word split: option.split)
  show ?thesis
    unfolding wire_to_event_def l using assms
    by (cases ev; cases "ke_state ev"; cases "ke_text ev"; cases "ke_base_layout ev")
      (simp_all add: event_to_wire_def key_ok_def mods_roundtrip char_from_scalar split_beta
        char_from_u32_def [of 0])
qed

section \<open>Properties\<close>

lemma read_written:
  "length (fr_payload f) \<le> MAX_PAYLOAD_LEN \<Longrightarrow> read_from (write_to f @ r) = (Inr (Some f), r)"
  by (simp only: write_to_raw read_raw msg_type_roundtrip option.case) simp


text \<open>
  C20: a key arrives as the key that was pressed.  The frame the window process writes for a key
  event is read by the session process whatever follows it on the stream, its payload decodes to
  the event that was encoded and the window it came from, and turning that back gives the event
  with its modifiers: so the bytes sent to the program are those of the original key.  The text may
  have 65518 bytes, which is what the payload cap leaves.
\<close>
theorem key_travels:
  assumes "key_ok ev"
    and "case ke_text ev of Some t \<Rightarrow> length (as_bytes t) \<le> 65518 | None \<Rightarrow> True"
  shows "let f = \<lparr>fr_type = KeyEvent, fr_payload = encode_key_event (event_to_wire ev mods) win\<rparr>
         in read_from (write_to f @ rest) = (Inr (Some f), rest) \<and>
            map_option (\<lambda>(w, win). (wire_to_event w, win)) (decode_key_event (fr_payload f)) =
              Some ((ev, mods), win)"
proof -
  let ?w = "event_to_wire ev mods"
  have wt: "wk_text ?w = (case ke_text ev of Some t \<Rightarrow> t | None \<Rightarrow> [])"
    by (simp add: event_to_wire_def split_beta)
  have fits: "fits16 (wk_text ?w)" "length (as_bytes (wk_text ?w)) \<le> 65518"
    using assms by (auto simp: wt key_ok_def fits16_def split: option.splits)
  have "length (encode_key_event ?w win) \<le> MAX_PAYLOAD_LEN"
    using fits(2) by (simp add: encode_key_event_def Let_def)
  then show ?thesis
    by (simp add: Let_def read_written wire_key_roundtrip [OF fits(1)] event_roundtrip [OF assms(1)])
qed

theorem key_travels_witness:
  "decode_key_event (encode_key_event (event_to_wire
     \<lparr>ke_state = Pressed, ke_logical = Char 0x61, ke_text = Some [0xE9], ke_base_layout = Some 0x71, ke_repeat = True\<rparr>
     \<lparr>shift = False, control = False, alt = True, super = False\<rparr>) 7) \<noteq> None"
  using key_travels [of "\<lparr>ke_state = Pressed, ke_logical = Char 0x61, ke_text = Some [0xE9],
    ke_base_layout = Some 0x71, ke_repeat = True\<rparr>" "\<lparr>shift = False, control = False, alt = True, super = False\<rparr>" 7 "[]"]
  by (auto simp: key_ok_def is_scalar_def encode_utf8_def Let_def)

text \<open>
  Every message of fixed size decodes to what was encoded, whatever its fields are.  The
  position of a window request with two zero coordinates is taken as no position.
\<close>
theorem fixed_messages_roundtrip:
  "decode_hello (encode_hello v) = Some v \<and> decode_hello_ack (encode_hello_ack v) = Some v \<and>
   decode_ping (encode_ping v) = Some v \<and> decode_pong (encode_pong v) = Some v \<and>
   decode_search_more (encode_search_more v k d) = Some (v, k, d) \<and>
   decode_search_cancel (encode_search_cancel v) = Some v \<and>
   decode_focus (encode_focus b) = Some b \<and>
   decode_mouse (encode_mouse x y d w) = Some (x, y, d, w) \<and>
   decode_mouse_drag (encode_mouse_drag x y d w v x' y') = Some (x, y, d, w, v, x', y') \<and>
   decode_mouse_up (encode_mouse_up x y d w v x' y') = Some (x, y, d, w, v, x', y') \<and>
   decode_scroll (encode_scroll x y b w) = Some (x, y, b, w) \<and>
   decode_surface_attach (encode_surface_attach v k x y z) = Some (v, k, x, y, z) \<and>
   decode_surface_attach_window (encode_surface_attach_window v k x y z w i x') =
     Some (v, k, x, y, z, w, Some i, Some x') \<and>
   decode_window_chrome (encode_window_chrome w x) = Some (w, x) \<and>
   decode_window_closed (encode_window_closed w) = Some w \<and>
   decode_window_focus (encode_window_focus w) = Some w \<and>
   decode_window_close_request (encode_window_close_request w) = Some w \<and>
   decode_window_open_request (encode_window_open_request w) = Some w \<and>
   decode_window_open_request_at (encode_window_open_request_at w x y) =
     Some (w, if f64_nonzero x \<or> f64_nonzero y then Some (x, y) else None) \<and>
   decode_resize (encode_resize v x y z) = Some (v, x, y, z) \<and>
   decode_surface_ready (encode_surface_ready v) = Some v \<and>
   decode_caret_rect (encode_caret_rect r w) = Some (r, w) \<and>
   decode_pane_recede (encode_pane_recede s v) = Some (s, v) \<and>
   decode_pane_reset_mouse_reporting (encode_pane_reset_mouse_reporting s) = Some s \<and>
   decode_pane_terminal_focus (encode_pane_terminal_focus s b) = Some (s, b) \<and>
   decode_pane_hold_grid (encode_pane_hold_grid s b) = Some (s, b) \<and>
   decode_pane_reset_attrs (encode_pane_reset_attrs s) = Some s \<and>
   decode_pane_render_markup (encode_pane_render_markup s b) = Some (s, b) \<and>
   decode_pane_agent_tui (encode_pane_agent_tui s b) = Some (s, b) \<and>
   decode_pane_badge_clicked (encode_pane_badge_clicked s) = Some s \<and>
   decode_pane_focused (encode_pane_focused s) = Some s \<and>
   decode_pane_badge_menu_request (encode_pane_badge_menu_request s x y) = Some (s, x, y) \<and>
   decode_pane_badge_menu_action (encode_pane_badge_menu_action s v) = Some (s, v) \<and>
   decode_pane_session_begin (encode_pane_session_begin s v) = Some (s, v) \<and>
   decode_pane_session_end (encode_pane_session_end s) = Some s \<and>
   decode_pane_session_user_escape (encode_pane_session_user_escape s) = Some s \<and>
   decode_grid_resize (encode_grid_resize c c') = Some (c, c') \<and>
   decode_grid_scroll (encode_grid_scroll c) = Some c \<and>
   decode_get_selection_text (encode_get_selection_text v (c, w) (c', k) b) = Some (v, (c, w), (c', k), b)"
  by (simp only: control_roundtrips window_roundtrips pane_roundtrips simp_thms)

text \<open>
  Every message with text decodes to what was encoded, for strings whose byte length fits
  the length field, and for badges and titles within their byte caps.
\<close>
theorem text_messages_roundtrip:
  assumes "fits32 t" "fits32 u" "fits16 k" "length bs < 2 ^ 32"
    and "str_wf bd" "length (as_bytes bd) \<le> PANE_BADGE_MAX_LEN"
    and "str_wf ti" "length (as_bytes ti) \<le> PANE_TITLE_MAX_LEN"
    and "fits16 (wk_text ev)"
  shows "decode_inject_input (encode_inject_input s bs) = Some (s, bs) \<and>
    decode_search_scrollback (encode_search_scrollback v b w t) = Some (v, b, w, t) \<and>
    decode_selection_text (encode_selection_text v t) = Some (v, t) \<and>
    decode_preedit (encode_preedit k w) = Some (k, w) \<and>
    decode_paste (encode_paste k) = Some k \<and>
    decode_pane_inject_paste (encode_pane_inject_paste s t) = Some (s, t) \<and>
    decode_cli_send_text (encode_cli_send_text t u) = Some (t, u) \<and>
    decode_cli_result (encode_cli_result b t) = Some (b, t) \<and>
    decode_cli_read_pane (encode_cli_read_pane t v) = Some (t, v) \<and>
    decode_cli_autorun (encode_cli_autorun t on) = Some (t, on) \<and>
    decode_cli_text (encode_cli_text t) = Some t \<and>
    decode_pane_badge (encode_pane_badge s bd) = Some (s, bd) \<and>
    decode_pane_title (encode_pane_title s ti) = Some (s, ti) \<and>
    decode_pane_session_key (encode_pane_session_key s ev) = Some (s, ev)"
  using assms
  by (simp only: text_roundtrips autorun_roundtrip badge_title_roundtrip session_key_roundtrip simp_thms)

theorem text_messages_roundtrip_witness:
  "decode_cli_send_text (encode_cli_send_text [0x70, 0x31] [0x6C, 0xE9, 0x20AC, 0x1F600]) =
     Some ([0x70, 0x31], [0x6C, 0xE9, 0x20AC, 0x1F600])"
proof -
  have f: "fits32 [0x70, 0x31]" "fits32 [0x6C, 0xE9, 0x20AC, 0x1F600]" "fits16 [0x61]"
    "length [1 :: u8] < 2 ^ 32" "str_wf [0x62]" "length (as_bytes [0x62]) \<le> 64" "str_wf [0x63]"
    "length (as_bytes [0x63]) \<le> 128"
    by (simp_all add: fits32_def fits16_def encode_utf8_def is_scalar_def)
  have e: "fits16 (wk_text (event_to_wire
    \<lparr>ke_state = Pressed, ke_logical = Other, ke_text = None, ke_base_layout = None, ke_repeat = False\<rparr> m))" for m
    by (simp add: event_to_wire_def fits16_def)
  show ?thesis
    using text_messages_roundtrip [OF f e, of 0 0 False 0 None] by blast
qed

text \<open>
  Every message that holds a list decodes to what was encoded: search hits with their spans,
  the entries of a badge menu, dropped paths, the rows of the pane list and the wheel-key strings.
\<close>
theorem list_messages_roundtrip:
  assumes "\<forall>h \<in> set hits. hit_ok h" "length hits < 2 ^ 32"
    and "\<forall>i \<in> set items. menu_item_ok i" "length items \<le> PANE_BADGE_MENU_MAX_ITEMS"
    and "\<forall>t \<in> set paths. fits16 t" "length paths < 2 ^ 16"
    and "\<forall>(sid, cwd, title) \<in> set panes. fits32 cwd \<and> fits32 title" "length panes < 2 ^ 32"
    and "\<forall>k \<in> {a, b, c, d}. length k \<le> u16_max"
  shows "decode_search_results (encode_search_results q m n hits) = Some (q, m, n, hits) \<and>
    decode_pane_badge_menu (encode_pane_badge_menu s x y items) = Some (s, x, y, items) \<and>
    decode_file_drop (encode_file_drop x y paths w) = Some (x, y, paths, w) \<and>
    decode_cli_pane_list (encode_cli_pane_list panes) = Some panes \<and>
    decode_pane_wheel_keys (encode_pane_wheel_keys s a b c d) = Some (s, a, b, c, d)"
  by (intro conjI search_results_roundtrip [OF assms(1,2)] badge_menu_roundtrip [OF assms(3,4)]
      file_drop_roundtrip [OF assms(5,6)] pane_list_roundtrip [OF assms(7,8)] wheel_keys_roundtrip [OF assms(9)])

theorem list_messages_roundtrip_witness:
  "decode_file_drop (encode_file_drop 5 6 [[0x2F, 0x61], [], [0x6C7A]] 9) =
     Some (5, 6, [[0x2F, 0x61], [], [0x6C7A]], 9) \<and>
   decode_search_results (encode_search_results 1 True 3
     [\<lparr>logical_line_idx = 4, char_offset = 5, char_len = 6, snippet_match_start = 7, snippet_match_end = 8,
        snippet = [0x61], spans = [\<lparr>phys_row_idx = 9, col_start = 1, col_end_inclusive = 2\<rparr>]\<rparr>]) =
     Some (1, True, 3, [\<lparr>logical_line_idx = 4, char_offset = 5, char_len = 6, snippet_match_start = 7,
        snippet_match_end = 8, snippet = [0x61],
        spans = [\<lparr>phys_row_idx = 9, col_start = 1, col_end_inclusive = 2\<rparr>]\<rparr>])"
proof -
  let ?hits = "[\<lparr>logical_line_idx = 4, char_offset = 5, char_len = 6, snippet_match_start = 7, snippet_match_end = 8,
        snippet = [0x61], spans = [\<lparr>phys_row_idx = 9, col_start = 1, col_end_inclusive = 2\<rparr>]\<rparr>]"
  let ?paths = "[[0x2F, 0x61], [], [0x6C7A]] :: ustring list"
  have p: "\<forall>h \<in> set ?hits. hit_ok h" "length ?hits < 2 ^ 32"
    "\<forall>i \<in> set [\<lparr>mi_tag = 3, mi_label = [0x61]\<rparr>]. menu_item_ok i" "length [\<lparr>mi_tag = 3, mi_label = [0x61]\<rparr>] \<le> 16"
    "\<forall>t \<in> set ?paths. fits16 t" "length ?paths < 2 ^ 16"
    "\<forall>(sid, cwd, title) \<in> set [(1 :: u64, [0x61], [])]. fits32 cwd \<and> fits32 title"
    "length [(1 :: u64, [0x61 :: uchar], [] :: ustring)] < 2 ^ 32"
    "\<forall>k \<in> {[1], [2], [], [3 :: u8]}. length k \<le> u16_max"
    by (simp_all add: hit_ok_def menu_item_ok_def fits32_def fits16_def encode_utf8_def is_scalar_def)
  show ?thesis using list_messages_roundtrip [OF p, of 1 True 3 0 5 6 9] by blast
qed

text \<open>
  C24: a pasted text of up to 65534 bytes is delivered, a longer one is not: its frame is above the
  payload cap, so the reader gets \<open>InvalidData\<close>, upon which it gives up the connection.  The sender
  does not look at the length.
\<close>
theorem paste_limit:
  assumes "str_wf text" "length (as_bytes text) < 2 ^ 32 - 2"
  shows "let r = read_from (write_to \<lparr>fr_type = Paste, fr_payload = encode_paste text\<rparr> @ rest)
         in if length (as_bytes text) \<le> 65534
            then r = (Inr (Some \<lparr>fr_type = Paste, fr_payload = encode_paste text\<rparr>), rest) \<and>
                 decode_paste (encode_paste text) = Some text
            else fst r = Inl InvalidData"
proof (cases "length (as_bytes text) \<le> 65534")
  case True
  then have "fits16 text" "length (encode_paste text) \<le> MAX_PAYLOAD_LEN"
    using assms(1) by (simp_all add: fits16_def encode_paste_def)
  then show ?thesis using True by (simp add: Let_def read_written text_roundtrips)
next
  case False
  then have "MAX_PAYLOAD_LEN < length (encode_paste text)" "length (encode_paste text) < 2 ^ 32"
    using assms(2) by (simp_all add: encode_paste_def)
  then show ?thesis using False read_too_long by (simp add: Let_def write_to_raw)
qed

lemma length_ascii: "length (as_bytes (replicate n 0x61)) = n" "str_wf (replicate n 0x61)"
  by (induction n) (simp_all add: encode_utf8_def is_scalar_def)

theorem paste_limit_witness:
  "fst (read_from (write_to \<lparr>fr_type = Paste, fr_payload = encode_paste (replicate 65535 0x61)\<rparr>)) =
     Inl InvalidData"
  using paste_limit [of "replicate 65535 0x61" "[]"] by (simp add: length_ascii Let_def)

lemma trailing_short [simp]: "length p < at + 4 \<Longrightarrow> trailing_window_id p at = FIRST_WINDOW_ID"
  by (simp add: trailing_window_id_def)

lemma shorter_pointer:
  "decode_mouse (take 17 (encode_mouse x y d w)) = Some (x, y, d, FIRST_WINDOW_ID)"
  "decode_scroll (take 17 (encode_scroll x y b w)) = Some (x, y, b, FIRST_WINDOW_ID)"
  "decode_mouse_drag (take 21 (encode_mouse_drag x y d w v x' y')) = Some (x, y, d, w, 0, 0, 0)"
  "decode_mouse_up (take 21 (encode_mouse_up x y d w v x' y')) = Some (x, y, d, w, 0, 0, 0)"
  "decode_mouse_up (take 25 (encode_mouse_up x y d w v x' y')) = Some (x, y, d, w, v, 0, 0)"
  by (simp_all add: fixed_defs nth_append)

lemma shorter_window:
  "decode_caret_rect (take 33 (encode_caret_rect (Some (x, y, x', y')) w)) =
     Some (Some (x, y, x', y'), FIRST_WINDOW_ID)"
  "decode_surface_attach_window (take 36 (encode_surface_attach_window v k x y x' w i y')) =
     Some (v, k, x, y, x', w, None, None)"
  by (simp_all add: fixed_defs nth_append)

lemma shorter_preedit:
  "fits16 t \<Longrightarrow> decode_preedit (take (2 + length (as_bytes t)) (encode_preedit t w)) = Some (t, FIRST_WINDOW_ID)"
  by (simp add: text_defs)

lemma shorter_key:
  "fits16 (wk_text ev) \<Longrightarrow>
   decode_key_event (take (10 + length (as_bytes (wk_text ev))) (encode_key_event ev w)) =
     Some (ev\<lparr>wk_base_layout := 0\<rparr>, FIRST_WINDOW_ID)"
  "fits16 (wk_text ev) \<Longrightarrow>
   decode_key_event (take (14 + length (as_bytes (wk_text ev))) (encode_key_event ev w)) =
     Some (ev\<lparr>wk_base_layout := 0\<rparr>, w)"
  using decode_key_tail [of ev "[]"] decode_key_tail [of ev "le32 w"]
  by (simp_all add: encode_key_event_def Let_def take_Cons')

text \<open>
  A peer built before a trailing field existed is understood.  A mouse, scroll, caret, preedit
  or key payload that stops before its window id is read as coming from the first window, a key
  that stops behind it has no base layout, a drag or release that stops behind the window id
  has no window under the pointer, and a surface that stops behind its window has no frame index.
\<close>
theorem older_peer_understood:
  assumes "fits16 t" "fits16 (wk_text ev)"
  shows "decode_mouse (take 17 (encode_mouse x y d w)) = Some (x, y, d, FIRST_WINDOW_ID) \<and>
    decode_scroll (take 17 (encode_scroll x y b w)) = Some (x, y, b, FIRST_WINDOW_ID) \<and>
    decode_caret_rect (take 33 (encode_caret_rect (Some (x, y, x', y')) w)) =
      Some (Some (x, y, x', y'), FIRST_WINDOW_ID) \<and>
    decode_preedit (take (2 + length (as_bytes t)) (encode_preedit t w)) = Some (t, FIRST_WINDOW_ID) \<and>
    decode_key_event (take (10 + length (as_bytes (wk_text ev))) (encode_key_event ev w)) =
      Some (ev\<lparr>wk_base_layout := 0\<rparr>, FIRST_WINDOW_ID) \<and>
    decode_key_event (take (14 + length (as_bytes (wk_text ev))) (encode_key_event ev w)) =
      Some (ev\<lparr>wk_base_layout := 0\<rparr>, w) \<and>
    decode_mouse_drag (take 21 (encode_mouse_drag x y d w v x' y')) = Some (x, y, d, w, 0, 0, 0) \<and>
    decode_mouse_up (take 21 (encode_mouse_up x y d w v x' y')) = Some (x, y, d, w, 0, 0, 0) \<and>
    decode_mouse_up (take 25 (encode_mouse_up x y d w v x' y')) = Some (x, y, d, w, v, 0, 0) \<and>
    decode_surface_attach_window (take 36 (encode_surface_attach_window v k x y x' w i y')) =
      Some (v, k, x, y, x', w, None, None)"
  by (intro conjI shorter_key [OF assms(2)] shorter_preedit [OF assms(1)] shorter_pointer shorter_window)

theorem older_peer_understood_witness:
  "decode_preedit [1, 0, 0x61] = Some ([0x61], 1)"
proof -
  let ?ev = "event_to_wire \<lparr>ke_state = Pressed, ke_logical = Other, ke_text = None, ke_base_layout = None,
    ke_repeat = False\<rparr> \<lparr>shift = False, control = False, alt = False, super = False\<rparr>"
  have f: "fits16 [0x61]" "fits16 (wk_text ?ev)"
    by (simp_all add: fits16_def event_to_wire_def encode_utf8_def is_scalar_def)
  have "decode_preedit (take (2 + length (as_bytes [0x61])) (encode_preedit [0x61] 7)) = Some ([0x61], 1)"
    using older_peer_understood [OF f, of 0 0 0 7 False 0 0 0 0 0] by blast
  then show ?thesis by (simp add: encode_preedit_def encode_utf8_def eval_nat_numeral)
qed

end
