(* ===== verification/InputProps.thy ===== *)
theory InputProps
  imports InputCore
begin

text \<open>
  What the key encoder and the path quoting promise: a shell reads a quoted path as that path, and
  the terminal's own parser reads a key of the kitty protocol back.
\<close>

section \<open>A shell reads a word\<close>

text \<open>
  How a POSIX shell reads one word: a backslash takes the next character, single quotes take
  everything up to the next one, and a metacharacter outside of quotes is not part of a plain word.
  The answer is the word if the whole string is one word that stands for itself.
\<close>

definition sh_meta :: "uchar \<Rightarrow> bool" where
  "sh_meta c \<longleftrightarrow> c \<in> {0x7C, 0x26, 0x3B, 0x3C, 0x3E, 0x28, 0x29, 0x24, 0x60, 0x22, 0x20, 0x09, 0x0A,
     0x2A, 0x3F, 0x5B, 0x23, 0x7E, 0x7B, 0x7D, 0x21, 0x5E}"

fun sh_plain :: "ustring \<Rightarrow> ustring option" and sh_quoted :: "ustring \<Rightarrow> ustring option" where
  "sh_plain [] = Some []"
| "sh_plain (c # cs) =
     (if c = 0x27 then sh_quoted cs
      else if c = 0x5C then (case cs of [] \<Rightarrow> None | d # ds \<Rightarrow> if d = 0x0A then sh_plain ds
                                                       else map_option ((#) d) (sh_plain ds))
      else if sh_meta c then None
      else map_option ((#) c) (sh_plain cs))"
| "sh_quoted [] = None"
| "sh_quoted (c # cs) = (if c = 0x27 then sh_plain cs else map_option ((#) c) (sh_quoted cs))"

definition sh_word :: "ustring \<Rightarrow> ustring option" where
  "sh_word s = (if s = [] then None else sh_plain s)"

lemma safe_plain: "list_all safe_char s \<Longrightarrow> sh_plain s = Some s"
  by (induction s) (auto simp: safe_char_def is_ascii_def sh_meta_def)

lemma quoted_back: "sh_quoted (concat (map quote_char s) @ 0x27 # r) = map_option ((@) s) (sh_plain r)"
  by (induction s) (simp_all add: quote_char_def option.map_comp comp_def option.map_ident)

text \<open>
  C22: a path dropped on the terminal is typed so that a POSIX shell reads exactly that path as one
  word, whatever characters it has, and the empty path as an empty word.
\<close>
theorem quoted_path_is_read: "sh_word (shell_quote_path path) = Some path"
  using quoted_back [of path "[]"]
  by (simp add: sh_word_def shell_quote_path_def safe_plain)

section \<open>The kitty protocol read back\<close>

text \<open>
  What a program reads from a dispatched key: the code with its alternates, the final byte, modifiers and event
  type.  A parameter and the sub-parameters behind it are one field.
\<close>

definition kitty_mods :: "nat \<Rightarrow> modifiers" where
  "kitty_mods m = \<lparr>shift = bit (m - 1) 0, control = bit (m - 1) 2, alt = bit (m - 1) 1, super = bit (m - 1) 3\<rparr>"

function fields_of :: "(nat \<times> bool) list \<Rightarrow> nat list list" where
  "fields_of [] = []"
| "fields_of ((n, s) # ps) = (n # map fst (takeWhile snd ps)) # fields_of (dropWhile snd ps)"
  by pat_completeness auto
termination
  by (relation "measure length") (auto simp: length_dropWhile_le less_Suc_eq_le)

definition kitty_read :: "nat list \<Rightarrow> bool list \<Rightarrow> u8 \<Rightarrow> nat \<times> nat list \<times> u8 \<times> modifiers \<times> nat" where
  "kitty_read ps subs final =
     (let fs = fields_of (zip ps subs);
          key = (case fs of [] \<Rightarrow> [1] | f # _ \<Rightarrow> f);
          ms = (case fs of _ # f # _ \<Rightarrow> f | _ \<Rightarrow> [1])
      in (hd key, tl key, final, kitty_mods (hd ms), if length ms > 1 then ms ! 1 else 1))"

lemma kitty_mods_encode: "kitty_mods (encode_mods m) = m"
  by (cases m; cases "shift m"; cases "control m"; cases "alt m"; cases "super m")
    (simp_all add: kitty_mods_def encode_mods_def bit_iff_odd)

lemma encode_mods_bounds: "1 \<le> encode_mods m" "encode_mods m \<le> 16"
  by (simp_all add: encode_mods_def of_bool_def)

text \<open>The alternates as numbers, an empty one as the 0 it is read as.\<close>

definition alternate_list :: "nat option \<Rightarrow> nat option \<Rightarrow> nat list" where
  "alternate_list sh b =
     (case (sh, b) of (Some sh, Some b) \<Rightarrow> [sh, b] | (Some sh, None) \<Rightarrow> [sh] | (None, Some b) \<Rightarrow> [0, b] | (None, None) \<Rightarrow> [])"

definition kitty_ps :: "nat \<Rightarrow> nat list \<Rightarrow> u8 \<Rightarrow> nat \<Rightarrow> nat option \<Rightarrow> (nat \<times> bool) list" where
  "kitty_ps code alts final m event_type =
     (let key = (code, False) # map (\<lambda>a. (a, True)) (if final = 0x75 \<or> final = 0x7E then alts else [])
      in case event_type of
           Some e \<Rightarrow> key @ [(m, False), (e, True)]
         | None \<Rightarrow> if m > 1 then key @ [(m, False)]
                   else if final = 0x75 \<or> final = 0x7E then key else [])"

text \<open>What is written behind the key, and an empty alternate, which the parser reads as it reads a 0.\<close>

definition kitty_tail :: "nat \<Rightarrow> nat option \<Rightarrow> u8 \<Rightarrow> u8 list" where
  "kitty_tail m event_type final =
     (case event_type of
        Some e \<Rightarrow> [0x3B] @ dec m @ [0x3A] @ dec e
      | None \<Rightarrow> if m > 1 then [0x3B] @ dec m else []) @ [final]"

lemma csi_tail_append: "csi_tail (ps @ qs) = csi_tail ps @ csi_tail qs"
  by (induction ps rule: csi_tail.induct) simp_all

lemma kitty_ps_bytes:
  assumes "final = 0x75 \<or> final = 0x7E \<or> code = 1"
  shows "csi_bytes [] (kitty_ps code alts final m e) [] final =
    [0x1B, 0x5B] @
      (if final = 0x75 \<or> final = 0x7E then dec code @ csi_tail (map (\<lambda>a. (a, True)) alts)
       else if m > 1 \<or> e \<noteq> None then [0x31] else []) @ kitty_tail m e final"
  using assms
  by (auto simp: kitty_ps_def csi_bytes_def kitty_tail_def csi_tail_append dec.simps [of "Suc 0"] split: option.split)

lemma kitty_sequence_tail:
  "kitty_sequence code final m e codes =
    [0x1B, 0x5B] @
      (if final = 0x75 \<or> final = 0x7E then dec code @ codes
       else if m > 1 \<or> e \<noteq> None then [0x31] else []) @ kitty_tail m e final"
  by (simp add: kitty_sequence_def kitty_tail_def)

lemma alternates_tail:
  "sh \<noteq> None \<or> b = None \<Longrightarrow> alternates sh b = csi_tail (map (\<lambda>a. (a, True)) (alternate_list sh b))"
  by (auto simp: alternates_def alternate_list_def split: option.split)

lemma parse_empty_sub:
  assumes "p_state r = CsiParam" "p_current_param r = 0"
  shows "parse_bytes r (0x3A # xs) = parse_bytes r (0x30 # 0x3A # xs)"
proof -
  have "open_sub_param (continue_param_digit r 0x30) = open_sub_param r"
    using assms(2) by (simp add: open_sub_param_def commit_param_def continue_param_digit_def Let_def)
  then show ?thesis
    using assms(1) by (simp add: advance_def csi_param_def c0_exec_def within_def continue_param_digit_def Let_def)
qed

lemma parse_kitty_sequence:
  assumes "final = 0x75 \<or> final = 0x7E \<or> code = 1" "parser_wf p" "p_state p \<noteq> OscString" "code \<le> u16_max"
  shows "parse_bytes p (kitty_sequence code final m e (alternates sh b)) =
    parse_bytes p (csi_bytes [] (kitty_ps code (alternate_list sh b) final m e) [] final)"
proof (cases "(sh \<noteq> None \<or> b = None) \<or> \<not> (final = 0x75 \<or> final = 0x7E)")
  case True
  then show ?thesis unfolding kitty_ps_bytes [OF assms(1)] kitty_sequence_tail using alternates_tail by auto
next
  case False
  then obtain b' where b: "sh = None" "b = Some b'" "final = 0x75 \<or> final = 0x7E" by auto
  let ?t = "dec b' @ kitty_tail m e final"
  obtain q where q: "parse_bytes p [0x1B, 0x5B] = (q, [])" "p_state q \<in> {CsiEntry, CsiParam}" "p_current_param q = 0"
    using csi_start [OF assms(2,3), of "[]"] by auto
  define q1 where "q1 = q\<lparr>p_state := CsiParam, p_current_param := code, p_has_current_param := True\<rparr>"
  have d: "parse_bytes q (dec code) = (q1, [])" unfolding q1_def by (rule parse_dec [OF assms(4)]) (use q in auto)
  have r: "advance q1 0x3A = (open_sub_param q1, [])" "p_state (open_sub_param q1) = CsiParam"
      "p_current_param (open_sub_param q1) = 0"
    by (simp_all add: q1_def advance_def csi_param_def c0_exec_def within_def open_sub_param_def)
  have key: "parse_bytes p (([0x1B, 0x5B] @ dec code) @ 0x3A # xs) = parse_bytes (open_sub_param q1) xs" for xs
  proof -
    have "parse_bytes p ([0x1B, 0x5B] @ dec code) = (q1, [])"
      unfolding parse_bytes_append [of p "[0x1B, 0x5B]" "dec code"] q(1) by (simp add: d)
    then show ?thesis
      unfolding parse_bytes_append [of p "[0x1B, 0x5B] @ dec code"] by (simp add: r(1) split: prod.split)
  qed
  have z: "dec 0 = [0x30]" by (simp add: dec.simps [of 0])
  have "kitty_sequence code final m e (alternates sh b) = ([0x1B, 0x5B] @ dec code) @ 0x3A # 0x3A # ?t"
    using b by (simp add: kitty_sequence_tail alternates_def)
  moreover have "csi_bytes [] (kitty_ps code (alternate_list sh b) final m e) [] final =
      ([0x1B, 0x5B] @ dec code) @ 0x3A # 0x30 # 0x3A # ?t"
    unfolding kitty_ps_bytes [OF assms(1)] using b z by (simp add: alternate_list_def)
  ultimately show ?thesis by (simp only: key parse_empty_sub [OF r(2,3)])
qed

text \<open>The keys the kitty protocol still sends as plain text.\<close>

definition kitty_bare :: "key_event \<Rightarrow> modifiers \<Rightarrow> bool" where
  "kitty_bare ev mods \<longleftrightarrow> effective_mods ev mods = \<lparr>shift = False, control = False, alt = False, super = False\<rparr>"

definition kitty_plain :: "key_event \<Rightarrow> modifiers \<Rightarrow> bool" where
  "kitty_plain ev mods \<longleftrightarrow> kitty_bare ev mods \<and>
     (ke_logical ev \<in> {Named Enter, Named Tab, Named Backspace} \<or>
      is_typed_text (ke_text ev) \<and> ke_state ev = Pressed)"

definition kitty_code :: "key_event \<Rightarrow> nat \<times> u8" where
  "kitty_code ev = (case ke_logical ev of Char c \<Rightarrow> (c, 0x75) | Named n \<Rightarrow> kitty_entry n | Other \<Rightarrow> (0, 0x75))"

definition kitty_event :: "key_event \<Rightarrow> u8 \<Rightarrow> nat option" where
  "kitty_event ev flags =
     (if flags AND KITTY_REPORT_EVENTS \<noteq> 0
      then Some (if ke_state ev \<noteq> Pressed then 3 else if ke_repeat ev then 2 else 1) else None)"

lemma kitty_entry_form:
  "(snd (kitty_entry n) = 0x75 \<or> snd (kitty_entry n) = 0x7E \<or> fst (kitty_entry n) = 1) \<and>
   fst (kitty_entry n) \<le> 127 \<and> within 0x40 0x7E (snd (kitty_entry n))"
  by (cases n) (simp_all add: within_def)

text \<open>The alternates of an event, when the program asked for them: the shifted key and the one of the base layout.\<close>

definition kitty_alternates :: "key_event \<Rightarrow> modifiers \<Rightarrow> u8 \<Rightarrow> nat option \<times> nat option" where
  "kitty_alternates ev mods flags =
     (if flags AND KITTY_REPORT_ALTERNATES = 0 then (None, None)
      else (alternate_shifted ev (effective_mods ev mods) (fst (kitty_code ev)), alternate_base ev (fst (kitty_code ev))))"

lemma kitty_bytes_form:
  assumes "ke_logical ev \<noteq> Other" "\<not> kitty_plain ev mods"
    and "ke_state ev = Pressed \<or> ke_logical ev \<notin> {Named Enter, Named Tab, Named Backspace}"
    and "kitty_alternates ev mods flags = (sh, b)"
  shows "kitty_key_bytes ev mods flags =
    Some (kitty_sequence (fst (kitty_code ev)) (snd (kitty_code ev)) (encode_mods (effective_mods ev mods))
      (kitty_event ev flags) (alternates sh b))"
proof -
  have bare: "kitty_bare ev mods \<longleftrightarrow> \<not> shift (effective_mods ev mods) \<and> \<not> control (effective_mods ev mods) \<and>
      \<not> alt (effective_mods ev mods) \<and> \<not> super (effective_mods ev mods)"
    by (simp add: kitty_bare_def modifiers.equality) (cases "effective_mods ev mods"; simp)
  have none: "alternates None None = []" by (simp add: alternates_def)
  show ?thesis
  proof (cases "flags AND KITTY_REPORT_ALTERNATES = 0")
    case True
    then have "sh = None" "b = None" using assms(4) by (simp_all add: kitty_alternates_def)
    then show ?thesis
      using True assms(1-3) none
      by (cases "ke_logical ev"; cases "kitty_bare ev mods")
        (auto simp: kitty_key_bytes_def kitty_plain_def kitty_code_def kitty_event_def Let_def split_beta bare)
  next
    case False
    then have "sh = alternate_shifted ev (effective_mods ev mods) (fst (kitty_code ev))"
        "b = alternate_base ev (fst (kitty_code ev))" using assms(4) by (simp_all add: kitty_alternates_def)
    then show ?thesis
      using False assms(1-3)
      by (cases "ke_logical ev"; cases "kitty_bare ev mods")
        (auto simp: kitty_key_bytes_def kitty_plain_def kitty_code_def kitty_event_def Let_def split_beta bare)
  qed
qed

lemma fields_read:
  assumes "final = 0x75 \<or> final = 0x7E \<or> code = 1 \<and> alts = []" "1 \<le> m"
  shows "kitty_read (map fst (kitty_ps code alts final m e)) (map snd (kitty_ps code alts final m e)) final =
    (code, alts, final, kitty_mods m, case e of Some e \<Rightarrow> e | None \<Rightarrow> 1)"
proof -
  have z: "zip (map fst xs) (map snd xs) = xs" for xs :: "(nat \<times> bool) list" by (simp add: zip_map_fst_snd)
  have t: "takeWhile snd (map (\<lambda>a. (a, True)) as @ (n, False) # xs) = map (\<lambda>a. (a, True)) as"
      "dropWhile snd (map (\<lambda>a. (a, True)) as @ (n, False) # xs) = (n, False) # xs"
      "takeWhile snd (map (\<lambda>a. (a, True)) as) = map (\<lambda>a. (a, True)) as"
      "dropWhile snd (map (\<lambda>a. (a, True)) as) = []" for as n and xs :: "(nat \<times> bool) list"
    by (induction as) simp_all
  have w: "map fst (map (\<lambda>a. (a, True)) as) = as" for as :: "nat list" by (simp add: comp_def)
  show ?thesis
    using assms by (auto simp: kitty_read_def z kitty_ps_def Let_def t w simp del: map_map split: option.split)
qed

lemma kitty_ps_bounds:
  assumes "length alts \<le> 2" "\<forall>n \<in> set alts. n \<le> u16_max" "m \<le> u16_max" "code \<le> u16_max"
    "\<And>x. e = Some x \<Longrightarrow> x \<le> 3" "ps = kitty_ps code alts final m e"
  shows "length ps \<le> 5 \<and> (\<forall>n \<in> fst ` set ps. n \<le> u16_max) \<and> (ps \<noteq> [] \<longrightarrow> \<not> snd (hd ps))"
proof -
  define as where "as = (if final = 0x75 \<or> final = 0x7E then alts else [])"
  have as: "length as \<le> 2" "\<forall>n \<in> set as. n \<le> u16_max" using assms(1,2) by (simp_all add: as_def)
  have x: "\<forall>x. e = Some x \<longrightarrow> x \<le> u16_max" using assms(5) by fastforce
  show ?thesis
    unfolding assms(6) kitty_ps_def Let_def as_def [symmetric]
    using as assms(3,4) x by (cases e) auto
qed

text \<open>
  C21: a key of the kitty protocol reads back.  Take any event but a key without a logical key, what is sent as plain
  text, and the release of Enter, Tab or Backspace, which is not sent at all, whose code and
  alternates fit sixteen bits, the size of a parameter of this terminal's parser.  It is one control
  sequence, which the parser, in any state outside of an OSC string, delivers as a single
  dispatch; from it a program reads the key code, the alternates it asked for, the final byte, the modifiers in effect and
  the event type (press, repeat, release; press when the program did not ask for event types), and the
  parser is in plain ground state again.
\<close>
theorem kitty_keys_read_back:
  assumes "ke_logical ev \<noteq> Other" "\<not> kitty_plain ev mods" "kitty_alternates ev mods flags = (sh, b)"
    and "ke_state ev = Pressed \<or> ke_logical ev \<notin> {Named Enter, Named Tab, Named Backspace}"
    and "\<forall>n \<in> {fst (kitty_code ev)} \<union> set_option sh \<union> set_option b. n \<le> u16_max"
    and "parser_wf p" "p_state p \<noteq> OscString"
  shows "\<exists>bs ps subs. kitty_key_bytes ev mods flags = Some bs \<and>
    snd (parse_bytes p bs) = [CsiDispatch ps subs [] (snd (kitty_code ev))] \<and>
    in_ground_plain (fst (parse_bytes p bs)) \<and>
    kitty_read ps subs (snd (kitty_code ev)) =
      (fst (kitty_code ev),
       if snd (kitty_code ev) = 0x75 \<or> snd (kitty_code ev) = 0x7E then alternate_list sh b else [],
       snd (kitty_code ev), effective_mods ev mods,
       case kitty_event ev flags of Some e \<Rightarrow> e | None \<Rightarrow> 1)"
proof -
  let ?c = "fst (kitty_code ev)" and ?f = "snd (kitty_code ev)" and ?e = "kitty_event ev flags"
  let ?m = "encode_mods (effective_mods ev mods)" and ?a = "alternate_list sh b"
  let ?as = "if ?f = 0x75 \<or> ?f = 0x7E then ?a else []"
  let ?ps = "kitty_ps ?c ?a ?f ?m ?e"
  have f: "?f = 0x75 \<or> ?f = 0x7E \<or> ?c = 1" "within 0x40 0x7E ?f"
    using kitty_entry_form by (auto simp: kitty_code_def within_def split: logical_key.split)
  have e: "?e = Some x \<Longrightarrow> x \<le> 3" for x by (auto simp: kitty_event_def split: if_splits)
  have a: "length ?a \<le> 2" "\<forall>n \<in> set ?a. n \<le> u16_max"
    using assms(5) by (auto simp: alternate_list_def split: option.split)
  have m: "?m \<le> u16_max" "1 \<le> ?m" using encode_mods_bounds [of "effective_mods ev mods"] by simp_all
  have c: "?c \<le> u16_max" using assms(5) by simp
  have ps: "length ?ps \<le> 5 \<and> (\<forall>n \<in> fst ` set ?ps. n \<le> u16_max) \<and> (?ps \<noteq> [] \<longrightarrow> \<not> snd (hd ?ps))"
    by (rule kitty_ps_bounds [OF a m(1) c e refl])
  have "snd (parse_bytes p (csi_bytes [] ?ps [] ?f)) = [CsiDispatch (map fst ?ps) (map snd ?ps) [] ?f] \<and>
      in_ground_plain (fst (parse_bytes p (csi_bytes [] ?ps [] ?f)))"
    using csi_parsed [OF assms(6,7), of "[]" ?ps "[]" ?f] ps f(2) by simp
  moreover have same: "parse_bytes p (kitty_sequence ?c ?f ?m ?e (alternates sh b)) = parse_bytes p (csi_bytes [] ?ps [] ?f)"
    by (rule parse_kitty_sequence [OF f(1) assms(6,7) c])
  moreover have read: "kitty_read (map fst ?ps) (map snd ?ps) ?f =
      (?c, ?as, ?f, effective_mods ev mods, case ?e of Some e \<Rightarrow> e | None \<Rightarrow> 1)"
  proof -
    have ps: "?ps = kitty_ps ?c ?as ?f ?m ?e" by (simp add: kitty_ps_def)
    have g: "?f = 0x75 \<or> ?f = 0x7E \<or> ?c = 1 \<and> ?as = []" using f(1) by auto
    show ?thesis unfolding ps fields_read [OF g m(2)] kitty_mods_encode ..
  qed
  moreover note kitty_bytes_form [OF assms(1,2,4,3)]
  ultimately show ?thesis by metis
qed

text \<open>Ctrl and Shift with a key of a layout that is not the base one, with every report asked for.\<close>

theorem kitty_keys_read_back_witness:
  "\<exists>bs ps subs. kitty_key_bytes
     \<lparr>ke_state = Released, ke_logical = Char 0x444, ke_text = Some [0x424], ke_base_layout = Some 0x61, ke_repeat = False\<rparr>
     \<lparr>shift = True, control = True, alt = False, super = False\<rparr> 7 = Some bs \<and>
   snd (parse_bytes parser_new bs) = [CsiDispatch ps subs [] 0x75] \<and>
   kitty_read ps subs 0x75 = (0x444, [0x424, 0x61], 0x75, \<lparr>shift = True, control = True, alt = False, super = False\<rparr>, 3)"
proof -
  let ?ev = "\<lparr>ke_state = Released, ke_logical = Char 0x444, ke_text = Some [0x424], ke_base_layout = Some 0x61,
    ke_repeat = False\<rparr>"
  let ?m = "\<lparr>shift = True, control = True, alt = False, super = False\<rparr>"
  have m: "effective_mods ?ev ?m = ?m" by (simp add: effective_mods_def)
  have "ke_logical ?ev \<noteq> Other" "\<not> kitty_plain ?ev ?m" "kitty_alternates ?ev ?m 7 = (Some 0x424, Some 0x61)"
    "ke_state ?ev = Pressed \<or> ke_logical ?ev \<notin> {Named Enter, Named Tab, Named Backspace}"
    by (simp_all add: kitty_plain_def kitty_bare_def kitty_alternates_def kitty_code_def m alternate_shifted_def
        alternate_base_def is_control_def)
  then show ?thesis
    using kitty_keys_read_back [of ?ev ?m 7 "Some 0x424" "Some 0x61" parser_new] parser_start m
    by (auto simp: kitty_code_def kitty_event_def alternate_list_def)
qed

end
