(* ===== verification/Snapshot.thy ===== *)
theory Snapshot
  imports TermInv Wire
begin

text \<open>
  The snapshot of a terminal and the pages of its scrollback, the wire format of
  \<open>crates/marspot-term/src/terminal.rs\<close>: what a session process writes before it replaces its own
  image and what the next image builds the terminal from.  Reading takes bytes off the front of the
  string; \<open>None\<close> is an \<open>Err\<close>, and the terminal is then left as it was.
\<close>

section \<open>Attributes and cells\<close>

abbreviation (input) CELL_BYTES :: nat where "CELL_BYTES \<equiv> 13"

definition encode_color :: "color \<Rightarrow> u8 \<times> u8 list" where
  "encode_color c =
     (case color_kind c of
        DefaultColor \<Rightarrow> (0, [0, 0, 0])
      | Indexed i \<Rightarrow> (1, [i, 0, 0])
      | Rgb r g b \<Rightarrow> (2, [r, g, b]))"

definition decode_color :: "u8 \<Rightarrow> u8 \<Rightarrow> u8 \<Rightarrow> u8 \<Rightarrow> color option" where
  "decode_color kind a b c =
     (if kind = 0 then Some color_default
      else if kind = 1 then Some (color_indexed a)
      else if kind = 2 then Some (color_rgb a b c)
      else None)"

definition attr_flags :: "cell_attrs \<Rightarrow> u8" where
  "attr_flags a =
     of_bool (bold a) OR push_bit 1 (of_bool (italic a)) OR push_bit 2 (of_bool (underline a)) OR
     push_bit 3 (of_bool (reverse_video a)) OR push_bit 4 (of_bool (dim a))"

definition serialize_attrs :: "cell_attrs \<Rightarrow> u8 list" where
  "serialize_attrs a =
     (let (fg_kind, fg_payload) = encode_color (fg a);
          (bg_kind, bg_payload) = encode_color (bg a)
      in [attr_flags a, fg_kind] @ fg_payload @ [bg_kind] @ bg_payload)"

definition attrs_of :: "u8 \<Rightarrow> color \<Rightarrow> color \<Rightarrow> cell_attrs" where
  "attrs_of flags f b =
     \<lparr>fg = f, bg = b, bold = bit flags 0, italic = bit flags 1, underline = bit flags 2,
      reverse_video = bit flags 3, dim = bit flags 4, pad0 = 0, pad1 = 0, pad2 = 0\<rparr>"

definition deserialize_attrs_pub :: "u8 list \<Rightarrow> cell_attrs" where
  "deserialize_attrs_pub buf =
     (let colour = (\<lambda>i. case decode_color (buf ! i) (buf ! (i + 1)) (buf ! (i + 2)) (buf ! (i + 3)) of
            Some c \<Rightarrow> c | None \<Rightarrow> color_default)
      in attrs_of (buf ! 0) (colour 1) (colour 5))"

definition encode_cell :: "cell \<Rightarrow> u8 list" where
  "encode_cell c = le32 (of_nat (ch c)) @ serialize_attrs (attrs c)"

definition encode_cells :: "cell list \<Rightarrow> u8 list" where
  "encode_cells cs = concat (map encode_cell cs)"

definition encode_line :: "bool \<Rightarrow> cell list \<Rightarrow> u8 list" where
  "encode_line w line = [of_bool w] @ le32 (of_nat (length line)) @ encode_cells line"

section \<open>Reading\<close>

definition ensure :: "bool \<Rightarrow> unit option" where
  "ensure b = (if b then Some () else None)"

definition read_exact :: "nat \<Rightarrow> u8 list \<Rightarrow> (u8 list \<times> u8 list) option" where
  "read_exact n bs = (if n \<le> length bs then Some (take n bs, drop n bs) else None)"

definition read_u8 :: "u8 list \<Rightarrow> (u8 \<times> u8 list) option" where
  "read_u8 bs = map_option (apfst (\<lambda>b. b ! 0)) (read_exact 1 bs)"
definition read_u16 :: "u8 list \<Rightarrow> (nat \<times> u8 list) option" where
  "read_u16 bs = map_option (apfst (\<lambda>b. unat (from_le b :: u16))) (read_exact 2 bs)"
definition read_u32 :: "u8 list \<Rightarrow> (u32 \<times> u8 list) option" where
  "read_u32 bs = map_option (apfst from_le) (read_exact 4 bs)"
definition read_u64 :: "u8 list \<Rightarrow> (u64 \<times> u8 list) option" where
  "read_u64 bs = map_option (apfst from_le) (read_exact 8 bs)"

definition read_attrs :: "u8 list \<Rightarrow> (cell_attrs \<times> u8 list) option" where
  "read_attrs bs =
     do {
       (buf, bs) \<leftarrow> read_exact 9 bs;
       f \<leftarrow> decode_color (buf ! 1) (buf ! 2) (buf ! 3) (buf ! 4);
       b \<leftarrow> decode_color (buf ! 5) (buf ! 6) (buf ! 7) (buf ! 8);
       Some (attrs_of (buf ! 0) f b, bs)
     }"

definition read_cell :: "u8 list \<Rightarrow> (cell \<times> u8 list) option" where
  "read_cell bs =
     do {
       (ch_u, bs) \<leftarrow> read_u32 bs;
       (a, bs) \<leftarrow> read_attrs bs;
       Some (\<lparr>ch = (case from_u32 (unat ch_u) of Some c \<Rightarrow> c | None \<Rightarrow> 0x20), attrs = a\<rparr>, bs)
     }"

primrec read_cells :: "nat \<Rightarrow> u8 list \<Rightarrow> (cell list \<times> u8 list) option" where
  "read_cells 0 bs = Some ([], bs)"
| "read_cells (Suc n) bs =
     do {
       (c, bs) \<leftarrow> read_cell bs;
       (cs, bs) \<leftarrow> read_cells n bs;
       Some (c # cs, bs)
     }"

abbreviation (input) MAX_SCROLLBACK_LINES_DESER :: nat where "MAX_SCROLLBACK_LINES_DESER \<equiv> 1000000"
abbreviation (input) MAX_LINE_COLS_DESER :: nat where "MAX_LINE_COLS_DESER \<equiv> 4096"

definition read_line :: "u8 list \<Rightarrow> ((cell list \<times> bool) \<times> u8 list) option" where
  "read_line bs =
     do {
       (w, bs) \<leftarrow> read_u8 bs;
       (n, bs) \<leftarrow> read_u32 bs;
       ensure (unat n \<le> MAX_LINE_COLS_DESER);
       (line, bs) \<leftarrow> read_cells (unat n) bs;
       Some ((line, w \<noteq> 0), bs)
     }"

primrec read_lines :: "nat \<Rightarrow> u8 list \<Rightarrow> ((cell list \<times> bool) list \<times> u8 list) option" where
  "read_lines 0 bs = Some ([], bs)"
| "read_lines (Suc n) bs =
     do {
       (l, bs) \<leftarrow> read_line bs;
       (ls, bs) \<leftarrow> read_lines n bs;
       Some (l # ls, bs)
     }"

section \<open>Writing a snapshot\<close>

abbreviation (input) SNAPSHOT_MAGIC :: u32 where "SNAPSHOT_MAGIC \<equiv> 0xA5575301"
abbreviation (input) SNAPSHOT_VERSION :: u32 where "SNAPSHOT_VERSION \<equiv> 5"
abbreviation (input) SNAPSHOT_SCROLLBACK_LINE_CAP :: nat where "SNAPSHOT_SCROLLBACK_LINE_CAP \<equiv> 20000"

abbreviation le16n :: "nat \<Rightarrow> u8 list" where "le16n n \<equiv> le16 (of_nat n)"
abbreviation le32n :: "nat \<Rightarrow> u8 list" where "le32n n \<equiv> le32 (of_nat n)"

primrec mouse_bits :: "mouse_mode \<Rightarrow> u32" where
  "mouse_bits MouseOff = 0"
| "mouse_bits MouseX11 = 1"
| "mouse_bits MouseButtonEvent = 2"
| "mouse_bits MouseAnyEvent = 3"

definition mouse_of_bits :: "u32 \<Rightarrow> mouse_mode" where
  "mouse_of_bits b =
     (if b = 1 then MouseX11 else if b = 2 then MouseButtonEvent else if b = 3 then MouseAnyEvent else MouseOff)"

definition snapshot_modes :: "terminal \<Rightarrow> u32" where
  "snapshot_modes t =
     of_bool (t_cursor_key_app t) OR push_bit 1 (of_bool (t_bracketed_paste t)) OR
     push_bit 2 (of_bool (t_cursor_visible t)) OR push_bit 3 (of_bool (t_pending_wrap t)) OR
     push_bit 4 (of_bool (t_saved_main t \<noteq> None)) OR push_bit 5 (mouse_bits (t_mouse_mode t)) OR
     push_bit 7 (of_bool (t_mouse_sgr t)) OR push_bit 8 (of_bool (t_alt_scroll t)) OR
     push_bit 9 (of_bool (t_focus_reporting t)) OR push_bit 10 (of_bool (t_g0_graphics t)) OR
     push_bit 11 (of_bool (pred_option sc_g0_graphics (t_saved_cursor t) \<and> t_saved_cursor t \<noteq> None)) OR
     push_bit 12 (of_bool (t_origin_mode t)) OR push_bit 14 (of_bool (t_insert_mode t)) OR
     push_bit 13 (of_bool (pred_option sc_origin_mode (t_saved_cursor t) \<and> t_saved_cursor t \<noteq> None))"

definition encode_saved_cursor :: "saved_cursor option \<Rightarrow> u8 list" where
  "encode_saved_cursor s =
     (case s of
        Some sc \<Rightarrow> [1] @ le16n (sc_col sc) @ le16n (sc_row sc) @ serialize_attrs (sc_attrs sc)
      | None \<Rightarrow> [0])"

definition encode_screen :: "grid \<Rightarrow> u8 list" where
  "encode_screen g =
     concat (map (\<lambda>r. concat (map (\<lambda>c. encode_cell (grid_cell g c r)) [0..<g_cols g])) [0..<g_rows g])"

text \<open>The newest \<open>n\<close> lines of the scrollback, oldest first, each shortened by \<open>shorten\<close>.\<close>

definition encode_history :: "(cell list \<Rightarrow> cell list) \<Rightarrow> nat \<Rightarrow> grid \<Rightarrow> u8 list" where
  "encode_history shorten n g =
     concat (map (\<lambda>i. case scrollback_line g i of
                        Some line \<Rightarrow> encode_line (scrollback_wrapped g i) (shorten line)
                      | None \<Rightarrow> [0] @ le32 0)
               [scrollback_len g - n..<scrollback_len g])"

definition encode_alt_live :: "terminal \<Rightarrow> u8 list" where
  "encode_alt_live t =
     (let alt = t_grid t; ring_take = min (scrollback_len alt) SNAPSHOT_SCROLLBACK_LINE_CAP
      in [2] @ le16n (g_cols alt) @ le16n (g_rows alt) @ le16n (g_cursor_col alt) @ le16n (g_cursor_row alt) @
         le16n (t_scroll_top t) @ le16n (t_scroll_bot t) @ le32n ring_take @
         encode_history trim_line ring_take alt @ encode_screen alt)"

definition alt_vis_rows :: "grid \<Rightarrow> nat" where
  "alt_vis_rows alt =
     fold (\<lambda>r n. if list_ex (\<lambda>c. grid_cell alt c r \<noteq> cell_default) [0..<g_cols alt] then r + 1 else n)
       [0..<g_rows alt] 0"

definition encode_alt_fold :: "grid \<Rightarrow> u8 list" where
  "encode_alt_fold alt =
     (let ring_len = min (scrollback_len alt) SNAPSHOT_SCROLLBACK_LINE_CAP; vis = alt_vis_rows alt
      in [1] @ le32n (ring_len + vis) @ encode_history trim_line ring_len alt @
         concat (map (\<lambda>r. encode_line False (trim_line (map (\<lambda>c. grid_cell alt c r) [0..<g_cols alt]))) [0..<vis]))"

definition serialize_snapshot_impl :: "nat \<Rightarrow> bool \<Rightarrow> terminal \<Rightarrow> u8 list" where
  "serialize_snapshot_impl tail_cap live t =
     (let (main_grid, (cc, cr), alt_grid) =
            (case t_saved_main t of
               Some sm \<Rightarrow> (sm_grid sm, sm_cursor sm, Some (t_grid t))
             | None \<Rightarrow> (t_grid t, (g_cursor_col (t_grid t), g_cursor_row (t_grid t)), None));
          (st, sb) = (if alt_grid \<noteq> None then (0, g_rows main_grid - 1) else (t_scroll_top t, t_scroll_bot t));
          sb_len = scrollback_len main_grid; take_n = min sb_len tail_cap
      in le32 SNAPSHOT_MAGIC @ le32 SNAPSHOT_VERSION @ le16n (g_cols main_grid) @ le16n (g_rows main_grid) @
         le16n cc @ le16n cr @ le16n st @ le16n sb @ le32 (snapshot_modes t) @
         le64 (of_nat (t_generation t)) @ serialize_attrs (t_attrs t) @ encode_saved_cursor (t_saved_cursor t) @
         encode_screen main_grid @ le64 (of_nat (sb_len - take_n)) @ le32n take_n @
         encode_history id take_n main_grid @
         (case alt_grid of
            None \<Rightarrow> [0]
          | Some alt \<Rightarrow> if live then encode_alt_live t else encode_alt_fold alt))"

definition serialize_snapshot :: "terminal \<Rightarrow> u8 list" where
  "serialize_snapshot = serialize_snapshot_impl SNAPSHOT_SCROLLBACK_LINE_CAP False"
definition serialize_snapshot_live :: "terminal \<Rightarrow> u8 list" where
  "serialize_snapshot_live = serialize_snapshot_impl SNAPSHOT_SCROLLBACK_LINE_CAP True"
definition serialize_snapshot_capped :: "nat \<Rightarrow> terminal \<Rightarrow> u8 list" where
  "serialize_snapshot_capped tail_cap = serialize_snapshot_impl tail_cap False"

section \<open>Applying a snapshot\<close>

record alt_live =
  al_cols :: nat
  al_rows :: nat
  al_cursor :: "nat \<times> nat"
  al_scroll_top :: nat
  al_scroll_bot :: nat
  al_ring :: "(cell list \<times> bool) list"
  al_cells :: "cell list"

text \<open>What the first half of \<open>apply_snapshot\<close> reads before it touches the terminal.\<close>

record snapshot_body =
  sn_version :: u32
  sn_cols :: nat
  sn_rows :: nat
  sn_cursor :: "nat \<times> nat"
  sn_scroll :: "nat \<times> nat"
  sn_modes :: u32
  sn_generation :: nat
  sn_attrs :: cell_attrs
  sn_saved :: "saved_cursor option"
  sn_cells :: "cell list"
  sn_start :: nat
  sn_lines :: "(cell list \<times> bool) list"
  sn_fold :: "(cell list \<times> bool) list"
  sn_live :: "alt_live option"

definition read_saved_cursor :: "u32 \<Rightarrow> u8 list \<Rightarrow> (saved_cursor option \<times> u8 list) option" where
  "read_saved_cursor modes bs =
     do {
       (present, bs) \<leftarrow> read_u8 bs;
       (if present = 1 then do {
          (col, bs) \<leftarrow> read_u16 bs;
          (row, bs) \<leftarrow> read_u16 bs;
          (a, bs) \<leftarrow> read_attrs bs;
          Some (Some \<lparr>sc_col = col, sc_row = row, sc_attrs = a, sc_pending_wrap = False,
                      sc_g0_graphics = bit modes 11, sc_origin_mode = bit modes 13\<rparr>, bs)
        }
        else Some (None, bs))
     }"

definition read_history ::
  "u32 \<Rightarrow> u8 list \<Rightarrow> ((nat \<times> (cell list \<times> bool) list) \<times> u8 list) option" where
  "read_history version bs =
     (if version \<ge> 2 then do {
        (start, bs) \<leftarrow> (if version \<ge> 3 then map_option (apfst unat) (read_u64 bs) else Some (0, bs));
        (n, bs) \<leftarrow> read_u32 bs;
        ensure (unat n \<le> MAX_SCROLLBACK_LINES_DESER);
        (lines, bs) \<leftarrow> read_lines (unat n) bs;
        Some ((start, lines), bs)
      }
      else Some ((0, []), bs))"

definition read_alt_live :: "u8 list \<Rightarrow> alt_live option" where
  "read_alt_live bs =
     do {
       (cols, bs) \<leftarrow> read_u16 bs;
       (rows, bs) \<leftarrow> read_u16 bs;
       (cc, bs) \<leftarrow> read_u16 bs;
       (cr, bs) \<leftarrow> read_u16 bs;
       (st, bs) \<leftarrow> read_u16 bs;
       (sb, bs) \<leftarrow> read_u16 bs;
       (n, bs) \<leftarrow> read_u32 bs;
       ensure (unat n \<le> MAX_SCROLLBACK_LINES_DESER \<and> cols \<le> MAX_LINE_COLS_DESER);
       (ring, bs) \<leftarrow> read_lines (unat n) bs;
       (cells, bs) \<leftarrow> read_cells (cols * rows) bs;
       Some \<lparr>al_cols = cols, al_rows = rows, al_cursor = (cc, cr), al_scroll_top = st, al_scroll_bot = sb,
             al_ring = ring, al_cells = cells\<rparr>
     }"

definition read_alt :: "u32 \<Rightarrow> u8 list \<Rightarrow> ((cell list \<times> bool) list \<times> alt_live option) option" where
  "read_alt version bs =
     (if version \<ge> 4 then do {
        (present, bs) \<leftarrow> read_u8 bs;
        (if present = 2 then map_option (\<lambda>l. ([], Some l)) (read_alt_live bs)
         else if present = 1 then do {
           (n, bs) \<leftarrow> read_u32 bs;
           ensure (unat n \<le> MAX_SCROLLBACK_LINES_DESER);
           (lines, bs) \<leftarrow> read_lines (unat n) bs;
           Some (lines, None)
         }
         else Some ([], None))
      }
      else Some ([], None))"

definition read_snapshot :: "u8 list \<Rightarrow> snapshot_body option" where
  "read_snapshot bs =
     do {
       (magic, bs) \<leftarrow> read_u32 bs;
       ensure (magic = SNAPSHOT_MAGIC);
       (version, bs) \<leftarrow> read_u32 bs;
       ensure (1 \<le> version \<and> version \<le> SNAPSHOT_VERSION);
       (cols, bs) \<leftarrow> read_u16 bs;
       (rows, bs) \<leftarrow> read_u16 bs;
       (cc, bs) \<leftarrow> read_u16 bs;
       (cr, bs) \<leftarrow> read_u16 bs;
       (st, bs) \<leftarrow> read_u16 bs;
       (sb, bs) \<leftarrow> read_u16 bs;
       (modes, bs) \<leftarrow> read_u32 bs;
       (generation, bs) \<leftarrow> read_u64 bs;
       (a, bs) \<leftarrow> read_attrs bs;
       (saved, bs) \<leftarrow> read_saved_cursor modes bs;
       (cells, bs) \<leftarrow> read_cells (cols * rows) bs;
       ((start, lines), bs) \<leftarrow> read_history version bs;
       (fold_lines, live) \<leftarrow> read_alt version bs;
       Some \<lparr>sn_version = version, sn_cols = cols, sn_rows = rows, sn_cursor = (cc, cr), sn_scroll = (st, sb),
             sn_modes = modes, sn_generation = unat generation, sn_attrs = a, sn_saved = saved, sn_cells = cells,
             sn_start = start, sn_lines = lines, sn_fold = fold_lines, sn_live = live\<rparr>
     }"

definition paint_cells :: "nat \<Rightarrow> nat \<Rightarrow> cell list \<Rightarrow> grid \<Rightarrow> grid" where
  "paint_cells cols rows cells =
     fold (\<lambda>r. fold (\<lambda>c. set_cell c r (cells ! (r * cols + c))) [0..<cols]) [0..<rows]"

definition replay_lines :: "(cell list \<times> bool) list \<Rightarrow> grid \<Rightarrow> grid" where
  "replay_lines = fold (\<lambda>(line, w). push_historic_scrollback_line line w)"

definition alt_of_live :: "alt_live \<Rightarrow> grid" where
  "alt_of_live l =
     set_cursor (fst (al_cursor l)) (snd (al_cursor l))
       (paint_cells (al_cols l) (al_rows l) (al_cells l)
         (replay_lines (al_ring l) (grid_with_scrollback (al_cols l) (al_rows l) DEFAULT_SCROLLBACK_LINES)))"

definition snapshot_grid :: "ambiguous_wide \<Rightarrow> snapshot_body \<Rightarrow> grid \<Rightarrow> grid" where
  "snapshot_grid wide s g =
     (let g = grid_resize wide (sn_cols s) (sn_rows s) g;
          g = paint_cells (sn_cols s) (sn_rows s) (sn_cells s) g;
          g = set_cursor (fst (sn_cursor s)) (snd (sn_cursor s)) g;
          on_disk = scrollback_len g;
          lines = (if sn_version s \<ge> 3 then drop (on_disk - sn_start s) (sn_lines s)
                   else if on_disk = 0 then sn_lines s else [])
      in replay_lines (sn_fold s) (replay_lines lines g))"

definition commit_snapshot :: "ambiguous_wide \<Rightarrow> snapshot_body \<Rightarrow> terminal \<Rightarrow> terminal" where
  "commit_snapshot wide s t =
     (let modes = sn_modes s;
          t = t\<lparr>t_grid := snapshot_grid wide s (t_grid t),
                t_scroll_top := fst (sn_scroll s), t_scroll_bot := snd (sn_scroll s),
                t_cursor_key_app := bit modes 0, t_bracketed_paste := bit modes 1,
                t_cursor_visible := bit modes 2, t_pending_wrap := bit modes 3,
                t_mouse_mode := mouse_of_bits (drop_bit 5 modes AND 3), t_mouse_sgr := bit modes 7,
                t_alt_scroll := bit modes 8, t_focus_reporting := bit modes 9, t_g0_graphics := bit modes 10,
                t_origin_mode := bit modes 12, t_insert_mode := bit modes 14,
                t_attrs := sn_attrs s, t_saved_cursor := sn_saved s, t_generation := sn_generation s,
                t_predictions := [], t_shadow := [], t_cluster_buf := [], t_cluster_fast := None,
                t_segmenter := cursor_new, t_seg_synced := True, t_response := []\<rparr>
      in case sn_live s of
           None \<Rightarrow> t
         | Some l \<Rightarrow>
             t\<lparr>t_grid := alt_of_live l,
               t_saved_main := Some \<lparr>sm_grid = t_grid t, sm_cursor = sn_cursor s, sm_kitty = kitty_default\<rparr>,
               t_scroll_top := al_scroll_top l, t_scroll_bot := al_scroll_bot l\<rparr>)"

definition apply_snapshot :: "ambiguous_wide \<Rightarrow> u8 list \<Rightarrow> terminal \<Rightarrow> terminal option" where
  "apply_snapshot wide body t = map_option (\<lambda>s. commit_snapshot wide s t) (read_snapshot body)"

section \<open>Scrollback pages\<close>

definition encode_page_line :: "cell list \<times> bool \<Rightarrow> u8 list" where
  "encode_page_line = (\<lambda>(line, w). le32n (length line) @ [of_bool w] @ encode_cells line)"

definition serialize_scrollback_page :: "terminal \<Rightarrow> nat \<Rightarrow> nat \<Rightarrow> nat \<times> u8 list" where
  "serialize_scrollback_page t line_start cnt =
     (let lines = scrollback_read_page (t_grid t) line_start cnt
      in (length lines, concat (map encode_page_line lines)))"

definition push_historic_line :: "cell list \<Rightarrow> bool \<Rightarrow> terminal \<Rightarrow> terminal" where
  "push_historic_line line w = on_grid (push_historic_scrollback_line line w)"

definition plausible_cols :: "nat \<Rightarrow> u8 list \<Rightarrow> unit option" where
  "plausible_cols cols rest = ensure (cols \<le> length rest div CELL_BYTES)"

primrec read_page_wrapped :: "nat \<Rightarrow> u8 list \<Rightarrow> ((cell list \<times> bool) list \<times> u8 list) option" where
  "read_page_wrapped 0 bs = Some ([], bs)"
| "read_page_wrapped (Suc n) bs =
     do {
       (cols, bs) \<leftarrow> read_u32 bs;
       (w, bs) \<leftarrow> read_u8 bs;
       plausible_cols (unat cols) bs;
       (line, bs) \<leftarrow> read_cells (unat cols) bs;
       (ls, bs) \<leftarrow> read_page_wrapped n bs;
       Some ((line, w \<noteq> 0) # ls, bs)
     }"

text \<open>The lines and the number of bytes consumed.\<close>

definition decode_with_wrapped :: "nat \<Rightarrow> u8 list \<Rightarrow> ((cell list \<times> bool) list \<times> nat) option" where
  "decode_with_wrapped n body =
     map_option (\<lambda>(ls, rest). (ls, length body - length rest)) (read_page_wrapped n body)"

primrec read_page_legacy :: "nat \<Rightarrow> u8 list \<Rightarrow> (cell list \<times> bool) list option" where
  "read_page_legacy 0 bs = Some []"
| "read_page_legacy (Suc n) bs =
     do {
       (cols, bs) \<leftarrow> read_u32 bs;
       plausible_cols (unat cols) bs;
       (line, bs) \<leftarrow> read_cells (unat cols) bs;
       ls \<leftarrow> read_page_legacy n bs;
       Some ((line, False) # ls)
     }"

definition decode_legacy_no_wrapped :: "nat \<Rightarrow> u8 list \<Rightarrow> (cell list \<times> bool) list option" where
  "decode_legacy_no_wrapped n body = read_page_legacy n body"

definition decode_scrollback_page_body :: "nat \<Rightarrow> u8 list \<Rightarrow> (cell list \<times> bool) list option" where
  "decode_scrollback_page_body n body =
     (case decode_with_wrapped n body of
        Some (out, consumed) \<Rightarrow> if consumed = length body then Some out else decode_legacy_no_wrapped n body
      | None \<Rightarrow> decode_legacy_no_wrapped n body)"

end
