(* ===== verification/SnapshotRead.thy ===== *)
theory SnapshotRead
  imports Snapshot
begin

text \<open>Reading a snapshot gives back what the writer put into it.\<close>

section \<open>Scalars, attributes, cells\<close>

lemma read_exact_front [simp]: "length xs = n \<Longrightarrow> read_exact n (xs @ r) = Some (xs, r)"
  by (simp add: read_exact_def)

lemma read_scalars [simp]:
  "read_u8 (b # r) = Some (b, r)" "read_u16 (le16 h @ r) = Some (unat h, r)"
  "read_u32 (le32 w @ r) = Some (w, r)" "read_u64 (le64 d @ r) = Some (d, r)"
  by (simp_all add: read_u8_def read_u16_def read_u32_def read_u64_def)
    (simp add: read_exact_def)

lemma ensure_simps [simp]: "b \<Longrightarrow> ensure b = Some ()"
  by (simp add: ensure_def)

lemma unat_small:
  "n < 2 ^ 16 \<Longrightarrow> unat (of_nat n :: u16) = n" "n < 2 ^ 32 \<Longrightarrow> unat (of_nat n :: u32) = n"
  "n < 2 ^ 64 \<Longrightarrow> unat (of_nat n :: u64) = n"
  by (simp_all add: unsigned_of_nat take_bit_nat_eq_self)

definition plain_attrs :: "cell_attrs \<Rightarrow> cell_attrs" where
  "plain_attrs a = a\<lparr>pad0 := 0, pad1 := 0, pad2 := 0\<rparr>"

text \<open>A cell as it comes back: the mark of a cluster is not part of the format.\<close>

definition unflag :: "cell \<Rightarrow> cell" where
  "unflag c = \<lparr>ch = ch c, attrs = plain_attrs (attrs c)\<rparr>"

definition attrs_colored :: "cell_attrs \<Rightarrow> bool" where
  "attrs_colored a \<longleftrightarrow> color_wf (fg a) \<and> color_wf (bg a)"

lemma encode_color_length: "length (snd (encode_color c)) = 3"
  by (simp add: encode_color_def split: color_kind.split)

lemma decode_encode_color:
  assumes "color_wf c"
  shows "decode_color (fst (encode_color c)) (snd (encode_color c) ! 0) (snd (encode_color c) ! 1)
    (snd (encode_color c) ! 2) = Some c"
  using assms unfolding color_wf_def
  by (cases "color_kind c") (simp_all add: encode_color_def decode_color_def)

lemma length_serialize_attrs [simp]: "length (serialize_attrs a) = 9"
  by (simp add: serialize_attrs_def encode_color_length split_beta Let_def)

lemma attr_flags_bits:
  "bit (attr_flags a) 0 = bold a" "bit (attr_flags a) 1 = italic a" "bit (attr_flags a) 2 = underline a"
  "bit (attr_flags a) 3 = reverse_video a" "bit (attr_flags a) 4 = dim a"
  by (cases "bold a"; cases "italic a"; cases "underline a"; cases "reverse_video a"; cases "dim a";
      simp add: attr_flags_def)+

lemma read_attrs_serialize [simp]:
  assumes "attrs_colored a"
  shows "read_attrs (serialize_attrs a @ r) = Some (plain_attrs a, r)"
proof -
  obtain k p where f: "encode_color (fg a) = (k, p)" by fastforce
  obtain k' p' where b: "encode_color (bg a) = (k', p')" by fastforce
  obtain x y z where p: "p = [x, y, z]"
    using encode_color_length [of "fg a"] f by (auto simp: numeral_eq_Suc length_Suc_conv)
  obtain x' y' z' where p': "p' = [x', y', z']"
    using encode_color_length [of "bg a"] b by (auto simp: numeral_eq_Suc length_Suc_conv)
  have "decode_color k x y z = Some (fg a)" "decode_color k' x' y' z' = Some (bg a)"
    using assms decode_encode_color [of "fg a"] decode_encode_color [of "bg a"]
    by (simp_all add: attrs_colored_def f b p p')
  moreover have s: "serialize_attrs a = [attr_flags a, k, x, y, z, k', x', y', z']"
    by (simp add: serialize_attrs_def f b p p')
  moreover have "read_exact 9 (serialize_attrs a @ r) = Some (serialize_attrs a, r)" by simp
  moreover have "attrs_of (attr_flags a) (fg a) (bg a) = plain_attrs a"
    by (simp add: attrs_of_def plain_attrs_def attr_flags_bits [simplified])
  ultimately show ?thesis by (simp add: read_attrs_def)
qed

lemma cell_colored: "cell_wf c \<Longrightarrow> attrs_colored (attrs c)"
  by (simp add: cell_wf_def attrs_colored_def)

lemma read_cell_encode [simp]: "cell_wf c \<Longrightarrow> read_cell (encode_cell c @ r) = Some (unflag c, r)"
proof -
  assume c: "cell_wf c"
  then have "ch c < 2 ^ 32" "from_u32 (ch c) = Some (ch c)"
    using is_scalar_u32 [of "ch c"] by (simp_all add: cell_wf_def from_u32_def)
  then show ?thesis
    using cell_colored [OF c] by (simp add: read_cell_def encode_cell_def unflag_def unat_small)
qed

lemma encode_cells_simps [simp]:
  "encode_cells [] = []" "encode_cells (c # cs) = encode_cell c @ encode_cells cs"
  "encode_cells (cs @ ds) = encode_cells cs @ encode_cells ds"
  by (simp_all add: encode_cells_def)

lemma read_cells_encode [simp]:
  "\<forall>c \<in> set cs. cell_wf c \<Longrightarrow> n = length cs \<Longrightarrow> read_cells n (encode_cells cs @ r) = Some (map unflag cs, r)"
  by (induction cs arbitrary: n) simp_all

section \<open>Lines\<close>

definition line_ok :: "cell list \<Rightarrow> bool" where
  "line_ok l \<longleftrightarrow> length l \<le> MAX_LINE_COLS_DESER \<and> (\<forall>c \<in> set l. cell_wf c)"

lemma read_line_encode [simp]:
  "line_ok l \<Longrightarrow> read_line (encode_line w l @ r) = Some ((map unflag l, w), r)"
  by (simp add: read_line_def encode_line_def line_ok_def unat_small)

definition encode_lines :: "(cell list \<times> bool) list \<Rightarrow> u8 list" where
  "encode_lines ls = concat (map (\<lambda>(l, w). encode_line w l) ls)"

abbreviation unflag_line :: "cell list \<times> bool \<Rightarrow> cell list \<times> bool" where
  "unflag_line \<equiv> apfst (map unflag)"

lemma read_lines_encode [simp]:
  "\<forall>(l, w) \<in> set ls. line_ok l \<Longrightarrow> n = length ls \<Longrightarrow>
   read_lines n (encode_lines ls @ r) = Some (map unflag_line ls, r)"
  by (induction ls arbitrary: n) (auto simp: encode_lines_def)

text \<open>The lines of a history with their continuation flags, oldest first.\<close>

definition history :: "grid \<Rightarrow> (cell list \<times> bool) list" where
  "history g = zip (ms_lines (g_scrollback g)) (g_sb_wrapped g)"

lemma length_history: "mirrors_wf g \<Longrightarrow> length (history g) = scrollback_len g"
  by (simp add: history_def mirrors_wf_def scrollback_len_def)

lemma history_nth:
  "mirrors_wf g \<Longrightarrow> i < scrollback_len g \<Longrightarrow>
   history g ! i = (ms_lines (g_scrollback g) ! i, g_sb_wrapped g ! i) \<and>
   scrollback_line g i = Some (ms_lines (g_scrollback g) ! i) \<and> scrollback_wrapped g i = g_sb_wrapped g ! i"
  by (simp add: history_def mirrors_wf_def scrollback_len_def scrollback_line_def ms_line_lines scrollback_wrapped_def)

lemma encode_history_lines:
  assumes "mirrors_wf g" "n \<le> scrollback_len g"
  shows "encode_history shorten n g = encode_lines (map (apfst shorten) (last_n n (history g)))"
proof -
  let ?k = "scrollback_len g - n"
  have "map (\<lambda>i. case scrollback_line g i of
        Some line \<Rightarrow> encode_line (scrollback_wrapped g i) (shorten line) | None \<Rightarrow> [0] @ le32 0)
      [?k..<scrollback_len g] =
    map (\<lambda>(l, w). encode_line w l) (map (apfst shorten) (last_n n (history g)))"
  proof (rule nth_equalityI)
    fix i assume "i < length (map (\<lambda>i. case scrollback_line g i of
        Some line \<Rightarrow> encode_line (scrollback_wrapped g i) (shorten line) | None \<Rightarrow> [0] @ le32 0)
      [?k..<scrollback_len g])"
    then show "map (\<lambda>i. case scrollback_line g i of
        Some line \<Rightarrow> encode_line (scrollback_wrapped g i) (shorten line) | None \<Rightarrow> [0] @ le32 0)
      [?k..<scrollback_len g] ! i =
      map (\<lambda>(l, w). encode_line w l) (map (apfst shorten) (last_n n (history g))) ! i"
      using assms(2) history_nth [OF assms(1), of "?k + i"] length_history [OF assms(1)]
      by (simp add: last_n_def)
  qed (use assms(2) length_history [OF assms(1)] in simp)
  then show ?thesis by (simp only: encode_history_def encode_lines_def)
qed

lemma encode_screen_cells:
  assumes "grid_wf g"
  shows "encode_screen g = encode_cells (concat (screen g))"
proof -
  have "concat (map (\<lambda>c. encode_cell (grid_cell g c r)) [0..<g_cols g]) = encode_cells (grid_row g r)"
    if "r < g_rows g" for r
  proof -
    have row: "map (\<lambda>c. grid_cell g c r) [0..<g_cols g] = grid_row g r"
      using length_grid_row [OF assms that] row_index [OF assms that]
      by (intro nth_equalityI) (simp_all add: grid_row_def grid_cell_def slice_def)
    show ?thesis unfolding encode_cells_def row [symmetric] by (simp add: comp_def)
  qed
  then have "map (\<lambda>r. concat (map (\<lambda>c. encode_cell (grid_cell g c r)) [0..<g_cols g])) [0..<g_rows g] =
      map (\<lambda>r. encode_cells (grid_row g r)) [0..<g_rows g]"
    by simp
  moreover have "concat (map (\<lambda>r. encode_cells (grid_row g r)) rs) = encode_cells (concat (map (grid_row g) rs))" for rs
    by (induction rs) simp_all
  ultimately show ?thesis by (simp only: encode_screen_def screen_def)
qed

lemma screen_facts:
  assumes "grid_wf g"
  shows "length (concat (screen g)) = g_rows g * g_cols g" "\<forall>c \<in> set (concat (screen g)). cell_wf c"
proof -
  have l: "\<forall>row \<in> set (screen g). length row = g_cols g"
    using length_grid_row [OF assms] by (auto simp: screen_def)
  show "length (concat (screen g)) = g_rows g * g_cols g"
    using length_concat_rows [OF l] by simp
  have "set row \<subseteq> set (g_cells g)" if "row \<in> set (screen g)" for row
    using that by (auto simp: screen_def grid_row_def slice_def dest: in_set_takeD in_set_dropD)
  then show "\<forall>c \<in> set (concat (screen g)). cell_wf c" using assms by (auto simp: grid_wf_def)
qed

end
