(* ===== verification/SnapshotProps.thy ===== *)
theory SnapshotProps
  imports SnapshotRead TermProps
begin

text \<open>
  What survives a snapshot: the layers of the screen with their histories and the settings the
  format carries; and the pages of the scrollback.
\<close>

section \<open>The settings\<close>

lemma mouse_bits_facts:
  "bit (mouse_bits m) n \<Longrightarrow> n < 2" "mouse_of_bits (mouse_bits m) = m" "take_bit 2 (mouse_bits m) = mouse_bits m"
proof -
  show t: "take_bit 2 (mouse_bits m) = mouse_bits m" by (cases m) simp_all
  show "bit (mouse_bits m) n \<Longrightarrow> n < 2" using arg_cong [OF t, of "\<lambda>x. bit x n"] by (simp add: bit_take_bit_iff)
  show "mouse_of_bits (mouse_bits m) = m" by (cases m) (simp_all add: mouse_of_bits_def)
qed

lemma snapshot_modes_bits:
  "bit (snapshot_modes t) 0 = t_cursor_key_app t" "bit (snapshot_modes t) 1 = t_bracketed_paste t"
  "bit (snapshot_modes t) 2 = t_cursor_visible t" "bit (snapshot_modes t) 3 = t_pending_wrap t"
  "bit (snapshot_modes t) 7 = t_mouse_sgr t" "bit (snapshot_modes t) 8 = t_alt_scroll t"
  "bit (snapshot_modes t) 9 = t_focus_reporting t" "bit (snapshot_modes t) 10 = t_g0_graphics t"
  "bit (snapshot_modes t) 12 = t_origin_mode t" "bit (snapshot_modes t) 14 = t_insert_mode t"
  "bit (snapshot_modes t) 11 = (pred_option sc_g0_graphics (t_saved_cursor t) \<and> t_saved_cursor t \<noteq> None)"
  "bit (snapshot_modes t) 13 = (pred_option sc_origin_mode (t_saved_cursor t) \<and> t_saved_cursor t \<noteq> None)"
  "bit (snapshot_modes t) 5 = bit (mouse_bits (t_mouse_mode t)) 0"
  "bit (snapshot_modes t) 6 = bit (mouse_bits (t_mouse_mode t)) 1"
  by (auto simp: snapshot_modes_def bit_simps dest: mouse_bits_facts(1))

lemma snapshot_modes_mouse: "drop_bit 5 (snapshot_modes t) AND 3 = mouse_bits (t_mouse_mode t)"
proof -
  have "(3 :: u32) = mask 2" by (simp add: mask_eq_exp_minus_1)
  then have "drop_bit 5 (snapshot_modes t) AND 3 = take_bit 2 (drop_bit 5 (snapshot_modes t))"
    by (simp only: take_bit_eq_mask)
  also have "\<dots> = mouse_bits (t_mouse_mode t)"
  proof (rule bit_word_eqI)
    fix n :: nat
    consider "n = 0" | "n = 1" | "2 \<le> n" by linarith
    then show "bit (take_bit 2 (drop_bit 5 (snapshot_modes t))) n = bit (mouse_bits (t_mouse_mode t)) n"
      using snapshot_modes_bits(13,14) [of t] mouse_bits_facts(1) [of "t_mouse_mode t" n]
      by cases (auto simp: bit_take_bit_iff bit_drop_bit_eq)
  qed
  finally show ?thesis .
qed

lemma read_saved_encode [simp]:
  assumes "pred_option (\<lambda>s. attrs_colored (sc_attrs s) \<and> sc_col s < 2 ^ 16 \<and> sc_row s < 2 ^ 16) (t_saved_cursor t)"
  shows "read_saved_cursor (snapshot_modes t) (encode_saved_cursor (t_saved_cursor t) @ r) =
    Some (map_option (\<lambda>s. s\<lparr>sc_attrs := plain_attrs (sc_attrs s), sc_pending_wrap := False\<rparr>) (t_saved_cursor t), r)"
  using assms snapshot_modes_bits(11,12) [of t]
  by (cases "t_saved_cursor t")
    (simp_all add: read_saved_cursor_def encode_saved_cursor_def unat_small)

section \<open>Painting and replaying\<close>

lemma set_cell_next:
  assumes "g_top_row g = 0" "r < g_rows g" "c < g_cols g" "length (g_cells g) = g_rows g * g_cols g"
    "length cells = length (g_cells g)" "m = r * g_cols g + c" "cols = g_cols g"
  shows "set_cell c r (cells ! m) (g\<lparr>g_cells := take m cells @ drop m (g_cells g)\<rparr>) =
    g\<lparr>g_cells := take (Suc m) cells @ drop (Suc m) (g_cells g)\<rparr>"
proof -
  have "m < g_rows g * g_cols g"
    using assms(2,3,6) mult_le_mono1 [of "Suc r" "g_rows g" "g_cols g"] by simp
  then have "(take m cells @ drop m (g_cells g))[m := cells ! m] = take (Suc m) cells @ drop (Suc m) (g_cells g)"
    using assms(4,5) by (simp add: list_update_append take_Suc_conv_app_nth Cons_nth_drop_Suc [symmetric])
  then show ?thesis
    using \<open>m < g_rows g * g_cols g\<close> assms by (simp add: set_cell_def phys_row_def check_def Let_def)
qed

lemma paint_row:
  assumes "g_top_row g = 0" "r < g_rows g" "length (g_cells g) = g_rows g * g_cols g"
    "length cells = length (g_cells g)" "k \<le> g_cols g"
  shows "fold (\<lambda>c. set_cell c r (cells ! (r * g_cols g + c))) [0..<k]
      (g\<lparr>g_cells := take (r * g_cols g) cells @ drop (r * g_cols g) (g_cells g)\<rparr>) =
    g\<lparr>g_cells := take (r * g_cols g + k) cells @ drop (r * g_cols g + k) (g_cells g)\<rparr>"
  using assms(5)
proof (induction k)
  case (Suc k)
  then show ?case using set_cell_next [OF assms(1,2) _ assms(3,4) refl refl, of k] by simp
qed simp

lemma paint_rows:
  assumes "g_top_row g = 0" "length (g_cells g) = g_rows g * g_cols g" "length cells = length (g_cells g)"
    "k \<le> g_rows g"
  shows "fold (\<lambda>r. fold (\<lambda>c. set_cell c r (cells ! (r * g_cols g + c))) [0..<g_cols g]) [0..<k] g =
    g\<lparr>g_cells := take (k * g_cols g) cells @ drop (k * g_cols g) (g_cells g)\<rparr>"
  using assms(4)
proof (induction k)
  case (Suc k)
  then show ?case using paint_row [OF assms(1) _ assms(2,3) order_refl, of k] by (simp add: add.commute)
qed simp

lemma paint_all:
  assumes "g_top_row g = 0" "length (g_cells g) = g_rows g * g_cols g" "length cells = length (g_cells g)"
  shows "paint_cells (g_cols g) (g_rows g) cells g = g\<lparr>g_cells := cells\<rparr>"
  using paint_rows [OF assms order_refl] assms(2,3) by (simp add: paint_cells_def)

lemma push_historic_facts:
  assumes "ms_wf (g_scrollback g)" "mirrors_wf g" "g_sb_prompt g = []"
  shows "let h = push_historic_scrollback_line l w g in
    ms_wf (g_scrollback h) \<and> mirrors_wf h \<and> g_sb_prompt h = [] \<and>
    ms_capacity (g_scrollback h) = ms_capacity (g_scrollback g) \<and>
    ms_normalise (g_scrollback h) = ms_normalise (g_scrollback g) \<and>
    ms_cols (g_scrollback h) = ms_cols (g_scrollback g) \<and>
    history h = last_n (ms_capacity (g_scrollback g)) (history g @ [(ms_normalise (g_scrollback g) l, w)]) \<and>
    h = g\<lparr>g_scrollback := g_scrollback h, g_sb_wrapped := g_sb_wrapped h, g_sb_clusters := g_sb_clusters h\<rparr>"
proof -
  let ?m = "g_scrollback g" and ?h = "push_historic_scrollback_line l w g"
  have m: "ms_lines (ms_push_line l ?m) = last_n (ms_capacity ?m) (ms_lines ?m @ [ms_normalise ?m l])"
    using ms_push_line_lines [OF assms(1)] .
  have len: "ms_len (ms_push_line l ?m) = min (ms_capacity ?m) (Suc (ms_len ?m))"
    using arg_cong [OF m, of length] by simp
  have b: "length (g_sb_wrapped g) = ms_len ?m" "length (g_sb_clusters g) = ms_len ?m" "ms_len ?m \<le> ms_capacity ?m"
    using assms by (simp_all add: mirrors_wf_def ms_wf_def)
  have f: "g_scrollback ?h = ms_push_line l ?m"
    "g_sb_wrapped ?h = last_n (ms_capacity ?m) (g_sb_wrapped g @ [w])"
    "length (g_sb_clusters ?h) = ms_len (g_scrollback ?h)" "g_sb_prompt ?h = []"
    using b len assms(3)
    by (simp_all add: push_historic_scrollback_line_def trim_mirrors_def keep_row_clusters_def Let_def last_n_def min_def)
  have "history ?h = last_n (ms_capacity ?m) (history g @ [(ms_normalise ?m l, w)])"
    using m b by (simp add: history_def f last_n_def drop_zip [symmetric] flip: drop_zip)
  moreover have "mirrors_wf ?h" using f b len by (simp add: mirrors_wf_def)
  moreover have "?h = g\<lparr>g_scrollback := g_scrollback ?h, g_sb_wrapped := g_sb_wrapped ?h, g_sb_clusters := g_sb_clusters ?h\<rparr>"
    using assms(3) by (simp add: push_historic_scrollback_line_def trim_mirrors_def keep_row_clusters_def Let_def)
  ultimately show ?thesis using f ms_push_line_wf [OF assms(1)] by (simp add: Let_def)
qed

lemma replay_facts:
  "ms_wf (g_scrollback g) \<Longrightarrow> mirrors_wf g \<Longrightarrow> g_sb_prompt g = [] \<Longrightarrow>
   let h = replay_lines ls g in
    ms_wf (g_scrollback h) \<and> mirrors_wf h \<and> g_sb_prompt h = [] \<and>
    ms_capacity (g_scrollback h) = ms_capacity (g_scrollback g) \<and>
    ms_normalise (g_scrollback h) = ms_normalise (g_scrollback g) \<and>
    ms_cols (g_scrollback h) = ms_cols (g_scrollback g) \<and>
    history h = last_n (ms_capacity (g_scrollback g)) (history g @ map (apfst (ms_normalise (g_scrollback g))) ls) \<and>
    h = g\<lparr>g_scrollback := g_scrollback h, g_sb_wrapped := g_sb_wrapped h, g_sb_clusters := g_sb_clusters h\<rparr>"
proof (induction ls arbitrary: g)
  case Nil
  then show ?case
    by (simp add: replay_lines_def Let_def last_n_all history_def mirrors_wf_def ms_wf_def)
next
  case (Cons l ls)
  obtain c w where l: "l = (c, w)" by (cases l)
  let ?h = "push_historic_scrollback_line c w g"
  note p = push_historic_facts [OF Cons.prems, of c w, unfolded Let_def]
  have h: "ms_wf (g_scrollback ?h)" "mirrors_wf ?h" "g_sb_prompt ?h = []" using p by blast+
  note ih = Cons.IH [OF h, unfolded Let_def]
  let ?k = "replay_lines ls ?h"
  have e: "replay_lines (l # ls) g = ?k" by (simp add: replay_lines_def l)
  have "history ?k = last_n (ms_capacity (g_scrollback g))
      (history g @ map (apfst (ms_normalise (g_scrollback g))) (l # ls))"
    using ih p by (simp add: last_n_last_n l)
  moreover have "?k = g\<lparr>g_scrollback := g_scrollback ?k, g_sb_wrapped := g_sb_wrapped ?k,
      g_sb_clusters := g_sb_clusters ?k\<rparr>"
  proof -
    have "?k = ?h\<lparr>g_scrollback := g_scrollback ?k, g_sb_wrapped := g_sb_wrapped ?k,
        g_sb_clusters := g_sb_clusters ?k\<rparr>" using ih by blast
    also have "\<dots> = (g\<lparr>g_scrollback := g_scrollback ?h, g_sb_wrapped := g_sb_wrapped ?h,
        g_sb_clusters := g_sb_clusters ?h\<rparr>)\<lparr>g_scrollback := g_scrollback ?k, g_sb_wrapped := g_sb_wrapped ?k,
        g_sb_clusters := g_sb_clusters ?k\<rparr>" using p by simp
    finally show ?thesis by simp
  qed
  ultimately show ?case unfolding Let_def e using ih p by simp
qed

section \<open>What the reader gets\<close>

lemma plain_simps [simp]:
  "plain_attrs (plain_attrs a) = plain_attrs a" "unflag (unflag c) = unflag c" "unflag cell_default = cell_default"
  by (simp_all add: plain_attrs_def unflag_def cell_default_def attrs_default_def)

text \<open>The conditions on the values a snapshot holds: Rust's types and the format's widths.\<close>

definition ring_ok :: "grid \<Rightarrow> bool" where
  "ring_ok g \<longleftrightarrow> (\<forall>l \<in> set (ms_lines (g_scrollback g)). \<forall>c \<in> set l. cell_wf c)"

lemma ring_lines:
  assumes "grid_wf g" "ring_ok g" "g_cols g \<le> MAX_LINE_COLS_DESER" "(l, w) \<in> set (history g)"
  shows "length l = g_cols g" "line_ok l" "line_ok (trim_line l)"
proof -
  have l: "l \<in> set (ms_lines (g_scrollback g))" using assms(4) by (auto simp: history_def dest: set_zip_leftD)
  show len: "length l = g_cols g"
  proof -
    obtain i where i: "i < ms_len (g_scrollback g)"
        "l = ms_slot (g_scrollback g) ((ms_head (g_scrollback g) + i) mod ms_capacity (g_scrollback g))"
      using l by (auto simp: ms_lines_def)
    have "(ms_head (g_scrollback g) + i) mod ms_capacity (g_scrollback g) < ms_len (g_scrollback g)"
      using assms(1) i(1) by (cases "ms_len (g_scrollback g) < ms_capacity (g_scrollback g)")
        (auto simp: grid_wf_def ms_wf_def)
    then show ?thesis
      using assms(1) i(2) slot_end [of _ "ms_len (g_scrollback g)" "ms_cells (g_scrollback g)" "ms_cols (g_scrollback g)"]
      by (simp add: ms_slot_def grid_wf_def ms_wf_def)
  qed
  show ok: "line_ok l" using assms(2,3) l len by (auto simp: line_ok_def ring_ok_def)
  have "length (trim_line l) \<le> length l" "set (trim_line l) \<subseteq> set l"
    using length_dropWhile_le [of "\<lambda>c. c = cell_default" "rev l"] set_dropWhileD [of _ "\<lambda>c. c = cell_default" "rev l"]
    by (auto simp: trim_line_def)
  then show "line_ok (trim_line l)" using ok by (auto simp: line_ok_def)
qed

definition saved_main_ok :: "saved_main \<Rightarrow> bool" where
  "saved_main_ok sm \<longleftrightarrow> ring_ok (sm_grid sm) \<and> fst (sm_cursor sm) \<le> u16_max \<and> snd (sm_cursor sm) \<le> u16_max"

definition saved_cursor_ok :: "saved_cursor \<Rightarrow> bool" where
  "saved_cursor_ok s \<longleftrightarrow> sc_col s \<le> u16_max \<and> sc_row s \<le> u16_max"

definition snapshot_ok :: "terminal \<Rightarrow> bool" where
  "snapshot_ok t \<longleftrightarrow> term_wf t \<and> ring_ok (t_grid t) \<and> t_cols t \<le> MAX_LINE_COLS_DESER \<and> t_generation t < 2 ^ 64 \<and>
     pred_option saved_main_ok (t_saved_main t) \<and> pred_option saved_cursor_ok (t_saved_cursor t)"

definition main_grid :: "terminal \<Rightarrow> grid" where
  "main_grid t = (case t_saved_main t of Some sm \<Rightarrow> sm_grid sm | None \<Rightarrow> t_grid t)"

definition main_cursor :: "terminal \<Rightarrow> nat \<times> nat" where
  "main_cursor t = (case t_saved_main t of Some sm \<Rightarrow> sm_cursor sm | None \<Rightarrow> (cur_col t, cur_row t))"

definition main_scroll :: "terminal \<Rightarrow> nat \<times> nat" where
  "main_scroll t = (if in_alt_screen t then (0, g_rows (main_grid t) - 1) else (t_scroll_top t, t_scroll_bot t))"

definition fold_lines :: "grid \<Rightarrow> (cell list \<times> bool) list" where
  "fold_lines g =
     map (apfst trim_line) (last_n SNAPSHOT_SCROLLBACK_LINE_CAP (history g)) @
     map (\<lambda>r. (trim_line (screen g ! r), False)) [0..<alt_vis_rows g]"

definition live_of :: "terminal \<Rightarrow> alt_live" where
  "live_of t =
     \<lparr>al_cols = t_cols t, al_rows = t_rows t, al_cursor = (cur_col t, cur_row t),
      al_scroll_top = t_scroll_top t, al_scroll_bot = t_scroll_bot t,
      al_ring = map (unflag_line \<circ> apfst trim_line) (last_n SNAPSHOT_SCROLLBACK_LINE_CAP (history (t_grid t))),
      al_cells = map unflag (concat (screen (t_grid t)))\<rparr>"

definition body_of :: "nat \<Rightarrow> bool \<Rightarrow> terminal \<Rightarrow> snapshot_body" where
  "body_of cap live t =
     \<lparr>sn_version = SNAPSHOT_VERSION, sn_cols = g_cols (main_grid t), sn_rows = g_rows (main_grid t),
      sn_cursor = main_cursor t, sn_scroll = main_scroll t, sn_modes = snapshot_modes t,
      sn_generation = t_generation t, sn_attrs = plain_attrs (t_attrs t),
      sn_saved = map_option (\<lambda>s. s\<lparr>sc_attrs := plain_attrs (sc_attrs s), sc_pending_wrap := False\<rparr>) (t_saved_cursor t),
      sn_cells = map unflag (concat (screen (main_grid t))),
      sn_start = unat (of_nat (scrollback_len (main_grid t) - min (scrollback_len (main_grid t)) cap) :: u64),
      sn_lines = map unflag_line (last_n cap (history (main_grid t))),
      sn_fold = (if in_alt_screen t \<and> \<not> live then map unflag_line (fold_lines (t_grid t)) else []),
      sn_live = (if in_alt_screen t \<and> live then Some (live_of t) else None)\<rparr>"

lemma snapshot_okD:
  assumes "snapshot_ok t"
  shows "grid_ok (main_grid t)" "ring_ok (main_grid t)" "g_cols (main_grid t) = t_cols t"
    "g_rows (main_grid t) = t_rows t" "fst (main_cursor t) \<le> u16_max" "snd (main_cursor t) \<le> u16_max"
    "grid_ok (t_grid t)" "ring_ok (t_grid t)" "t_cols t \<le> MAX_LINE_COLS_DESER" "t_rows t \<le> u16_max"
    "attrs_colored (t_attrs t)"
    "pred_option (\<lambda>s. attrs_colored (sc_attrs s) \<and> sc_col s < 2 ^ 16 \<and> sc_row s < 2 ^ 16) (t_saved_cursor t)"
    "t_generation t < 2 ^ 64" "t_scroll_bot t < t_rows t" "t_scroll_top t \<le> t_scroll_bot t"
    "cur_col t < t_cols t" "cur_row t < t_rows t" "0 < t_rows t"
proof -
  have w: "term_wf t" using assms by (simp add: snapshot_ok_def)
  note wf = term_wfD [OF w]
  have m: "pred_option (main_ok (t_grid t)) (t_saved_main t)" "pred_option saved_main_ok (t_saved_main t)"
      "pred_option saved_ok (t_saved_cursor t)" "pred_option saved_cursor_ok (t_saved_cursor t)"
    using assms by (simp_all add: snapshot_ok_def term_wf_def screen_ok_def side_ok_def)
  show "grid_ok (main_grid t)" "g_cols (main_grid t) = t_cols t" "g_rows (main_grid t) = t_rows t"
    using m(1) wf(1) keepsD by (auto simp: main_grid_def main_ok_def split: option.split)
  show "ring_ok (main_grid t)" "fst (main_cursor t) \<le> u16_max" "snd (main_cursor t) \<le> u16_max"
    using m(2) assms wf by (auto simp: main_grid_def main_cursor_def saved_main_ok_def snapshot_ok_def split: option.split)
  show "attrs_colored (t_attrs t)" using wf(5) by (simp add: pen_wf_def attrs_colored_def)
  show "pred_option (\<lambda>s. attrs_colored (sc_attrs s) \<and> sc_col s < 2 ^ 16 \<and> sc_row s < 2 ^ 16) (t_saved_cursor t)"
    using m(3,4) by (cases "t_saved_cursor t") (auto simp: saved_ok_def saved_cursor_ok_def pen_wf_def attrs_colored_def)
qed (use assms term_wfD [of t] in \<open>auto simp: snapshot_ok_def\<close>)

lemma encode_lines_append: "encode_lines (ls @ ks) = encode_lines ls @ encode_lines ks"
  by (simp add: encode_lines_def)

lemma last_n_min: "last_n (min (length xs) n) xs = last_n n xs"
  by (simp add: last_n_def min_def)

lemma set_last_n: "set (last_n n xs) \<subseteq> set xs"
  by (simp add: last_n_def set_drop_subset)

text \<open>The lines of a layer as they are written.\<close>

lemma history_written:
  assumes "grid_ok g" "ring_ok g" "g_cols g \<le> MAX_LINE_COLS_DESER"
  shows "encode_history id (min (scrollback_len g) n) g = encode_lines (last_n n (history g))"
    "encode_history trim_line (min (scrollback_len g) n) g = encode_lines (map (apfst trim_line) (last_n n (history g)))"
    "length (last_n n (history g)) = min (scrollback_len g) n"
    "\<forall>(l, w) \<in> set (last_n n (history g)). line_ok l"
    "\<forall>(l, w) \<in> set (map (apfst trim_line) (last_n n (history g))). line_ok l"
proof -
  have m: "mirrors_wf g" "grid_wf g" using assms(1) by (simp_all add: grid_ok_def)
  have len: "length (history g) = scrollback_len g" by (rule length_history [OF m(1)])
  show "encode_history id (min (scrollback_len g) n) g = encode_lines (last_n n (history g))"
    "encode_history trim_line (min (scrollback_len g) n) g = encode_lines (map (apfst trim_line) (last_n n (history g)))"
    using encode_history_lines [OF m(1), of "min (scrollback_len g) n"] last_n_min [of "history g" n] len
    by (simp_all add: apfst_id)
  show "length (last_n n (history g)) = min (scrollback_len g) n" using len by simp
  have "(l, w) \<in> set (last_n n (history g)) \<Longrightarrow> line_ok l \<and> line_ok (trim_line l)" for l w
    using ring_lines [OF m(2) assms(2,3), of l w] set_last_n [of n "history g"] by blast
  then show "\<forall>(l, w) \<in> set (last_n n (history g)). line_ok l"
    "\<forall>(l, w) \<in> set (map (apfst trim_line) (last_n n (history g))). line_ok l"
    by auto
qed

lemma alt_vis_le: "alt_vis_rows g \<le> g_rows g"
proof -
  have k: "fold (\<lambda>r n. if P r then Suc r else n) [0..<k] 0 \<le> k" for P and k :: nat
    by (induction k) (auto intro: le_SucI)
  show ?thesis unfolding alt_vis_rows_def Suc_eq_plus1 [symmetric] by (rule k)
qed

lemma screen_row_map: "grid_wf g \<Longrightarrow> r < g_rows g \<Longrightarrow> map (\<lambda>c. grid_cell g c r) [0..<g_cols g] = screen g ! r"
  using row_index [of g r]
  by (intro nth_equalityI) (simp_all add: screen_nth length_grid_row grid_row_def grid_cell_def slice_def)

lemma trim_line_ok: "line_ok l \<Longrightarrow> line_ok (trim_line l)"
  using length_dropWhile_le [of "\<lambda>c. c = cell_default" "rev l"] set_dropWhileD [of _ "\<lambda>c. c = cell_default" "rev l"]
  by (auto simp: trim_line_def line_ok_def)

lemma fold_written:
  assumes "grid_ok g" "ring_ok g" "g_cols g \<le> MAX_LINE_COLS_DESER"
  shows "encode_alt_fold g = [1] @ le32n (length (fold_lines g)) @ encode_lines (fold_lines g)"
    "\<forall>(l, w) \<in> set (fold_lines g). line_ok l" "length (fold_lines g) \<le> 20000 + g_rows g"
proof -
  have wf: "grid_wf g" using assms(1) by (simp add: grid_ok_def)
  note h = history_written [OF assms, of SNAPSHOT_SCROLLBACK_LINE_CAP]
  have r: "encode_lines (map (\<lambda>r. (trim_line (screen g ! r), False)) [0..<alt_vis_rows g]) =
      concat (map (\<lambda>r. encode_line False (trim_line (map (\<lambda>c. grid_cell g c r) [0..<g_cols g]))) [0..<alt_vis_rows g])"
    using alt_vis_le [of g] screen_row_map [OF wf]
    by (auto simp: encode_lines_def comp_def intro!: arg_cong [where f = concat])
  show "encode_alt_fold g = [1] @ le32n (length (fold_lines g)) @ encode_lines (fold_lines g)"
    by (simp only: encode_alt_fold_def Let_def h(2) fold_lines_def encode_lines_append r length_append
        length_map h(3) length_upt diff_zero append_assoc)
  have "line_ok (screen g ! r)" if "r < g_rows g" for r
    using length_grid_row [OF wf that] assms(3) screen_facts(2) [OF wf] that
    by (auto simp: line_ok_def screen_nth) (auto simp: screen_def)
  then show "\<forall>(l, w) \<in> set (fold_lines g). line_ok l"
    using h(5) alt_vis_le [of g] by (auto simp: fold_lines_def trim_line_ok)
  show "length (fold_lines g) \<le> 20000 + g_rows g"
    using h(3) alt_vis_le [of g] by (simp add: fold_lines_def)
qed

lemma read_screen [simp]:
  "grid_ok g \<Longrightarrow> read_cells (g_cols g * g_rows g) (encode_screen g @ r) =
     Some (map unflag (concat (screen g)), r)"
  using screen_facts [of g] by (simp add: grid_ok_def encode_screen_cells mult.commute)

lemma read_live:
  assumes "snapshot_ok t"
  shows "read_u8 (encode_alt_live t) = Some (2, tl (encode_alt_live t))"
    "read_alt_live (tl (encode_alt_live t)) = Some (live_of t)"
proof -
  note s = snapshot_okD [OF assms]
  note h = history_written [OF s(7,8,9), of SNAPSHOT_SCROLLBACK_LINE_CAP]
  have n: "t_cols t < 2 ^ 16" "t_rows t < 2 ^ 16" "cur_col t < 2 ^ 16" "cur_row t < 2 ^ 16"
      "t_scroll_top t < 2 ^ 16" "t_scroll_bot t < 2 ^ 16"
    using s by auto
  show "read_u8 (encode_alt_live t) = Some (2, tl (encode_alt_live t))"
    by (simp add: encode_alt_live_def Let_def)
  show "read_alt_live (tl (encode_alt_live t)) = Some (live_of t)"
    using n s(7,9) h read_screen [OF s(7), of "[]"]
    by (simp add: encode_alt_live_def read_alt_live_def Let_def unat_small live_of_def comp_def)
qed

lemma read_alt_encode:
  assumes "snapshot_ok t"
  shows "read_alt SNAPSHOT_VERSION (case t_saved_main t of
      None \<Rightarrow> [0] | Some _ \<Rightarrow> if live then encode_alt_live t else encode_alt_fold (t_grid t)) =
    Some (sn_fold (body_of cap live t), sn_live (body_of cap live t))"
proof -
  note s = snapshot_okD [OF assms]
  note f = fold_written [OF s(7,8,9)]
  have "length (fold_lines (t_grid t)) \<le> 1000000" using f(3) s(10) by simp
  then show ?thesis
    using f read_live [OF assms] read_lines_encode [OF f(2) refl, of "[]"] read_scalars(1) [of 0 "[]"]
    by (cases "t_saved_main t"; cases live) (auto simp: read_alt_def body_of_def in_alt_screen_def unat_small)
qed

lemma read_serialize:
  assumes "snapshot_ok t" "cap \<le> MAX_SCROLLBACK_LINES_DESER"
  shows "read_snapshot (serialize_snapshot_impl cap live t) = Some (body_of cap live t)"
proof -
  note s = snapshot_okD [OF assms(1)]
  have cols: "g_cols (main_grid t) \<le> MAX_LINE_COLS_DESER" using s by simp
  note h = history_written [OF s(1,2) cols, of cap]
  have n: "g_cols (main_grid t) < 2 ^ 16" "g_rows (main_grid t) < 2 ^ 16" "fst (main_cursor t) < 2 ^ 16"
      "snd (main_cursor t) < 2 ^ 16" "fst (main_scroll t) < 2 ^ 16" "snd (main_scroll t) < 2 ^ 16"
    using s by (auto simp: main_scroll_def)
  let ?len = "scrollback_len (main_grid t)"
  have take: "min ?len cap \<le> 1000000" "min ?len cap < 2 ^ 32" using assms(2) by auto
  have shape: "serialize_snapshot_impl cap live t =
      le32 SNAPSHOT_MAGIC @ le32 SNAPSHOT_VERSION @ le16n (g_cols (main_grid t)) @ le16n (g_rows (main_grid t)) @
      le16n (fst (main_cursor t)) @ le16n (snd (main_cursor t)) @ le16n (fst (main_scroll t)) @
      le16n (snd (main_scroll t)) @ le32 (snapshot_modes t) @ le64 (of_nat (t_generation t)) @
      serialize_attrs (t_attrs t) @ encode_saved_cursor (t_saved_cursor t) @ encode_screen (main_grid t) @
      le64 (of_nat (?len - min ?len cap)) @ le32n (min ?len cap) @ encode_lines (last_n cap (history (main_grid t))) @
      (case t_saved_main t of None \<Rightarrow> [0] | Some _ \<Rightarrow> if live then encode_alt_live t else encode_alt_fold (t_grid t))"
    unfolding h(1) [symmetric]
    by (cases "t_saved_main t")
      (simp_all add: serialize_snapshot_impl_def main_grid_def main_cursor_def main_scroll_def
        in_alt_screen_def Let_def split_beta)
  have "read_history SNAPSHOT_VERSION (le64 (of_nat (?len - min ?len cap)) @ le32n (min ?len cap) @
      encode_lines (last_n cap (history (main_grid t))) @ r) =
    Some ((sn_start (body_of cap live t), map unflag_line (last_n cap (history (main_grid t)))), r)" for r
    using h(3,4) take by (simp add: read_history_def unat_small body_of_def)
  then show ?thesis
    unfolding shape read_snapshot_def
    using n s(1,11,12,13) read_alt_encode [OF assms(1), of live cap]
    by (simp add: unat_small body_of_def del: of_nat_diff)
qed

end
