(* ===== verification/SnapshotKeeps.thy ===== *)
theory SnapshotKeeps
  imports SnapshotProps
begin

text \<open>
  The terminal a snapshot builds, compared with the one that wrote it: for the handoff to a new
  image, which carries both layers, and for the death of a session, which files the alternate
  screen into history.  And the pages of the scrollback.
\<close>

section \<open>A restored grid\<close>

lemma unflag_plain: "cluster_index (unflag c) = None" "cell_wf c \<Longrightarrow> cell_wf (unflag c)"
  by (simp_all add: cluster_index_def is_cluster_def unflag_def plain_attrs_def cell_wf_def)

lemma no_refs: "\<forall>c \<in> set cs. cluster_index c = None \<Longrightarrow> cell_refs cs = []"
  by (induction cs) simp_all

definition restored :: "grid \<Rightarrow> cell list list \<Rightarrow> nat \<times> nat \<Rightarrow> grid \<Rightarrow> bool" where
  "restored g0 rows cur g \<longleftrightarrow>
     (\<exists>S W C. g = g0\<lparr>g_cells := concat rows, g_cursor_col := min (fst cur) (g_cols g0 - 1),
                    g_cursor_row := min (snd cur) (g_rows g0 - 1),
                    g_scrollback := S, g_sb_wrapped := W, g_sb_clusters := C\<rparr> \<and>
       ms_wf S \<and> ms_cols S = g_cols g0 \<and> ms_capacity S = DEFAULT_SCROLLBACK_LINES) \<and> mirrors_wf g"

lemma fresh_grid:
  assumes "g0 = grid_new c r" "0 < c" "0 < r"
  shows "g_cols g0 = c" "g_rows g0 = r" "g_top_row g0 = 0" "g_clusters g0 = []" "\<not> g_panic g0"
    "g_wrapped g0 = replicate r False" "g_prompt g0 = replicate r NoMark" "g_sb_prompt g0 = []"
    "length (g_cells g0) = r * c" "g_scrollback g0 = ms_new DEFAULT_SCROLLBACK_LINES c" "history g0 = []"
    "mirrors_wf g0" "ms_wf (g_scrollback g0)" "scrollback_len g0 = 0"
proof -
  have g0: "g_scrollback g0 = ms_new DEFAULT_SCROLLBACK_LINES c"
    using assms by (simp add: grid_new_def grid_with_scrollback_def grid_with_scrollback_kind_def)
  then show "ms_wf (g_scrollback g0)" "history g0 = []" "g_scrollback g0 = ms_new DEFAULT_SCROLLBACK_LINES c"
    by (simp_all add: wf_intros history_def)
qed (use assms in \<open>simp_all add: grid_new_def grid_with_scrollback_def grid_with_scrollback_kind_def check_def
      mirrors_wf_def scrollback_len_def ms_new_def\<close>)

lemma restored_grid:
  assumes "grid_ok old" "g0 = grid_new (g_cols old) (g_rows old)"
    "restored g0 (map (map unflag) (screen old)) cur g"
  shows "grid_ok g" "screen g = map (map unflag) (screen old)" "g_cols g = g_cols old" "g_rows g = g_rows old"
    "wrap_flags g = replicate (g_rows old) False" "prompt_flags g = replicate (g_rows old) NoMark"
    "g_cursor_col g = min (fst cur) (g_cols old - 1)" "g_cursor_row g = min (snd cur) (g_rows old - 1)"
proof -
  have wf: "grid_wf old" using assms(1) by (simp add: grid_ok_def)
  have pos: "0 < g_cols old" "0 < g_rows old" "g_cols old \<le> u16_max" "g_rows old \<le> u16_max"
    using wf by (simp_all add: grid_wf_def)
  note f = fresh_grid [OF assms(2) pos(1,2)]
  let ?rows = "map (map unflag) (screen old)"
  obtain S W C where g: "g = g0\<lparr>g_cells := concat ?rows, g_cursor_col := min (fst cur) (g_cols g0 - 1),
      g_cursor_row := min (snd cur) (g_rows g0 - 1), g_scrollback := S, g_sb_wrapped := W, g_sb_clusters := C\<rparr>"
    "ms_wf S" "ms_cols S = g_cols g0" "mirrors_wf g"
    using assms(3) by (auto simp: restored_def)
  have len: "\<forall>row \<in> set ?rows. length row = g_cols old"
    using length_grid_row [OF wf] by (auto simp: screen_def)
  have cells: "\<forall>c \<in> set (concat ?rows). cell_wf c \<and> cluster_index c = None"
    using screen_facts(2) [OF wf] unflag_plain by auto
  show "screen g = ?rows"
    by (rule screen_concat) (use g f len in simp_all)
  have "grid_wf g"
    using g f pos cells length_concat_rows [OF len] by (auto simp: grid_wf_def)
  moreover have "pool_wf g" using cells no_refs [of "concat ?rows"] g f by (simp add: pool_wf_def)
  ultimately show "grid_ok g" using g f by (simp add: grid_ok_def)
  show "g_cols g = g_cols old" "g_rows g = g_rows old"
    "g_cursor_col g = min (fst cur) (g_cols old - 1)" "g_cursor_row g = min (snd cur) (g_rows old - 1)"
    using g f by simp_all
  show "wrap_flags g = replicate (g_rows old) False" "prompt_flags g = replicate (g_rows old) NoMark"
    using g f by (simp_all add: flags_plain)
qed

text \<open>The two orders in which the code fills a fresh grid.\<close>

lemma replay_restored:
  assumes "restored g0 rows cur g" "g_sb_prompt g0 = []"
  shows "restored g0 rows cur (replay_lines ls g)"
    "history (replay_lines ls g) = last_n DEFAULT_SCROLLBACK_LINES
       (history g @ map (apfst (ms_normalise (g_scrollback g))) ls)"
    "ms_normalise (g_scrollback (replay_lines ls g)) = ms_normalise (g_scrollback g)"
proof -
  obtain S W C where g: "g = g0\<lparr>g_cells := concat rows, g_cursor_col := min (fst cur) (g_cols g0 - 1),
      g_cursor_row := min (snd cur) (g_rows g0 - 1), g_scrollback := S, g_sb_wrapped := W, g_sb_clusters := C\<rparr>"
    "ms_wf S" "ms_cols S = g_cols g0" "ms_capacity S = DEFAULT_SCROLLBACK_LINES" "mirrors_wf g"
    using assms(1) by (auto simp: restored_def)
  have p: "ms_wf (g_scrollback g)" "g_sb_prompt g = []" using g assms(2) by simp_all
  let ?h = "replay_lines ls g"
  note r = replay_facts [OF p(1) g(5) p(2), of ls, unfolded Let_def]
  have "?h = g\<lparr>g_scrollback := g_scrollback ?h, g_sb_wrapped := g_sb_wrapped ?h, g_sb_clusters := g_sb_clusters ?h\<rparr>"
    using r by blast
  also have "\<dots> = g0\<lparr>g_cells := concat rows, g_cursor_col := min (fst cur) (g_cols g0 - 1),
      g_cursor_row := min (snd cur) (g_rows g0 - 1), g_scrollback := g_scrollback ?h,
      g_sb_wrapped := g_sb_wrapped ?h, g_sb_clusters := g_sb_clusters ?h\<rparr>"
    by (subst (1) g(1)) simp
  finally have "?h = \<dots>" .
  moreover have "ms_wf (g_scrollback ?h)" "ms_cols (g_scrollback ?h) = g_cols g0"
      "ms_capacity (g_scrollback ?h) = DEFAULT_SCROLLBACK_LINES" "mirrors_wf ?h"
    using r g by simp_all
  ultimately show "restored g0 rows cur ?h" unfolding restored_def by blast
  show "history ?h = last_n DEFAULT_SCROLLBACK_LINES (history g @ map (apfst (ms_normalise (g_scrollback g))) ls)"
    "ms_normalise (g_scrollback ?h) = ms_normalise (g_scrollback g)"
    using r g by simp_all
qed

lemma paint_restored:
  assumes "g0 = grid_new c r" "0 < c" "0 < r" "length (concat rows) = r * c"
  shows "restored g0 rows cur (set_cursor (fst cur) (snd cur) (paint_cells c r (concat rows) g0))"
    "history (set_cursor (fst cur) (snd cur) (paint_cells c r (concat rows) g0)) = []"
    "ms_normalise (g_scrollback (set_cursor (fst cur) (snd cur) (paint_cells c r (concat rows) g0))) =
       ms_normalise (ms_new DEFAULT_SCROLLBACK_LINES c)"
proof -
  note f = fresh_grid [OF assms(1-3)]
  have p: "paint_cells c r (concat rows) g0 = g0\<lparr>g_cells := concat rows\<rparr>"
    using paint_all [of g0 "concat rows"] f assms(4) by simp
  let ?g = "set_cursor (fst cur) (snd cur) (g0\<lparr>g_cells := concat rows\<rparr>)"
  have "?g = g0\<lparr>g_cells := concat rows, g_cursor_col := min (fst cur) (g_cols g0 - 1),
      g_cursor_row := min (snd cur) (g_rows g0 - 1), g_scrollback := g_scrollback g0,
      g_sb_wrapped := g_sb_wrapped g0, g_sb_clusters := g_sb_clusters g0\<rparr>"
    by (simp add: set_cursor_def)
  moreover have "mirrors_wf ?g" using f(12) by (simp add: mirrors_wf_def set_cursor_def)
  moreover have "ms_cols (g_scrollback g0) = g_cols g0" "ms_capacity (g_scrollback g0) = DEFAULT_SCROLLBACK_LINES"
    using f by (simp_all add: ms_new_def)
  ultimately show "restored g0 rows cur (set_cursor (fst cur) (snd cur) (paint_cells c r (concat rows) g0))"
    unfolding p restored_def using f(13) by blast
  show "history (set_cursor (fst cur) (snd cur) (paint_cells c r (concat rows) g0)) = []"
    "ms_normalise (g_scrollback (set_cursor (fst cur) (snd cur) (paint_cells c r (concat rows) g0))) =
       ms_normalise (ms_new DEFAULT_SCROLLBACK_LINES c)"
    unfolding p using f by (simp_all add: set_cursor_def history_def)
qed

lemma replay_paint_restored:
  assumes "g0 = grid_new c r" "0 < c" "0 < r" "length (concat rows) = r * c"
    "g = set_cursor (fst cur) (snd cur) (paint_cells c r (concat rows) (replay_lines ls g0))"
  shows "restored g0 rows cur g"
    "history g = last_n DEFAULT_SCROLLBACK_LINES (map (apfst (ms_normalise (ms_new DEFAULT_SCROLLBACK_LINES c))) ls)"
proof -
  note f = fresh_grid [OF assms(1-3)]
  let ?h = "replay_lines ls g0"
  note r = replay_facts [OF f(13,12,8), of ls, unfolded Let_def]
  have h: "?h = g0\<lparr>g_scrollback := g_scrollback ?h, g_sb_wrapped := g_sb_wrapped ?h, g_sb_clusters := g_sb_clusters ?h\<rparr>"
    using r by blast
  have eqs: "g_cols ?h = c" "g_rows ?h = r" "g_top_row ?h = 0" "length (g_cells ?h) = r * c"
    by (subst h, simp add: f)+
  have "paint_cells c r (concat rows) ?h = ?h\<lparr>g_cells := concat rows\<rparr>"
    using paint_all [of ?h "concat rows"] eqs assms(4) by simp
  then have g: "g = ?h\<lparr>g_cells := concat rows, g_cursor_col := min (fst cur) (g_cols g0 - 1),
      g_cursor_row := min (snd cur) (g_rows g0 - 1)\<rparr>"
    using eqs f by (simp add: assms(5) set_cursor_def)
  then have "g = g0\<lparr>g_cells := concat rows, g_cursor_col := min (fst cur) (g_cols g0 - 1),
      g_cursor_row := min (snd cur) (g_rows g0 - 1), g_scrollback := g_scrollback ?h,
      g_sb_wrapped := g_sb_wrapped ?h, g_sb_clusters := g_sb_clusters ?h\<rparr>"
    by (subst (asm) h) simp
  moreover have "mirrors_wf g" using g r by (simp add: mirrors_wf_def)
  moreover have "ms_wf (g_scrollback ?h)" "ms_cols (g_scrollback ?h) = g_cols g0"
      "ms_capacity (g_scrollback ?h) = DEFAULT_SCROLLBACK_LINES"
    using r f by (simp_all add: ms_new_def)
  ultimately show "restored g0 rows cur g" unfolding restored_def by blast
  show "history g = last_n DEFAULT_SCROLLBACK_LINES (map (apfst (ms_normalise (ms_new DEFAULT_SCROLLBACK_LINES c))) ls)"
    using g r f by (simp add: history_def [of g]) (simp add: history_def)
qed

section \<open>What survives\<close>

lemma normalise_full: "length l = c \<Longrightarrow> ms_normalise (ms_new k c) l = l"
  by (simp add: ms_normalise_def ms_new_def)

lemma trim_rest: "l = trim_line l @ replicate (length l - length (trim_line l)) cell_default"
proof -
  let ?t = "takeWhile (\<lambda>c. c = cell_default) (rev l)"
  have "rev l = ?t @ rev (trim_line l)" by (simp add: trim_line_def)
  then have "rev (rev l) = rev (?t @ rev (trim_line l))" by (simp only:)
  then have l: "l = trim_line l @ rev ?t" by simp
  have "rev ?t = replicate (length ?t) cell_default"
    by (intro replicate_eqI) (auto dest: set_takeWhileD)
  moreover have "length ?t = length l - length (trim_line l)" using arg_cong [OF l, of length] by simp
  ultimately show ?thesis using l by simp
qed

lemma normalise_trimmed:
  assumes "length l = c"
  shows "ms_normalise (ms_new k c) (map unflag (trim_line l)) = map unflag l"
proof -
  have "map unflag l = map unflag (trim_line l) @ replicate (length l - length (trim_line l)) cell_default"
    by (subst (1) trim_rest [of l]) simp
  moreover have "length (trim_line l) \<le> length l" using arg_cong [OF trim_rest [of l], of length] by simp
  ultimately show ?thesis using assms by (simp add: ms_normalise_def ms_new_def)
qed

lemma last_n_smaller: "n \<le> m \<Longrightarrow> last_n n (last_n m xs) = last_n n xs"
  by (simp add: last_n_def) (rule arg_cong [where f = "\<lambda>k. drop k xs"], arith)

lemma history_restored:
  assumes "grid_ok g" "ring_ok g" "g_cols g \<le> MAX_LINE_COLS_DESER"
  shows "map (apfst (ms_normalise (ms_new k (g_cols g)))) (map unflag_line (last_n n (history g))) =
      last_n n (map unflag_line (history g))"
    "map (apfst (ms_normalise (ms_new k (g_cols g))))
       (map (unflag_line \<circ> apfst trim_line) (last_n n (history g))) = last_n n (map unflag_line (history g))"
proof -
  have len: "length l = g_cols g" if "(l, w) \<in> set (last_n n (history g))" for l w
    using ring_lines(1) [OF _ assms(2,3), of l w] assms(1) that set_last_n [of n "history g"] by (auto simp: grid_ok_def)
  then have "map (apfst (ms_normalise (ms_new k (g_cols g))) \<circ> unflag_line) (last_n n (history g)) =
      map unflag_line (last_n n (history g))"
    by (auto simp: normalise_full)
  then show "map (apfst (ms_normalise (ms_new k (g_cols g)))) (map unflag_line (last_n n (history g))) =
      last_n n (map unflag_line (history g))"
    by (simp add: last_n_map)
  have "map (apfst (ms_normalise (ms_new k (g_cols g))) \<circ> (unflag_line \<circ> apfst trim_line)) (last_n n (history g)) =
      map unflag_line (last_n n (history g))"
    using len by (auto simp: normalise_trimmed)
  then show "map (apfst (ms_normalise (ms_new k (g_cols g))))
       (map (unflag_line \<circ> apfst trim_line) (last_n n (history g))) = last_n n (map unflag_line (history g))"
    by (simp add: last_n_map)
qed

section \<open>The main layer\<close>

lemma term_new_grid: "cols \<le> TABS_MAX \<Longrightarrow> t_grid (term_new cols rows) = grid_new cols rows"
  using tabs_new_ok [of cols] by (auto simp: term_new_def tabs_or_panic_def)

lemma main_restored:
  assumes "snapshot_ok t" "SNAPSHOT_SCROLLBACK_LINE_CAP \<le> cap"
    "g = snapshot_grid wide (body_of cap live t) (grid_new (t_cols t) (t_rows t))"
  shows "restored (grid_new (t_cols t) (t_rows t)) (map (map unflag) (screen (main_grid t))) (main_cursor t) g"
    "history g = last_n DEFAULT_SCROLLBACK_LINES (last_n DEFAULT_SCROLLBACK_LINES (map unflag_line (history (main_grid t))) @
       map (apfst (ms_normalise (ms_new DEFAULT_SCROLLBACK_LINES (t_cols t)))) (sn_fold (body_of cap live t)))"
proof -
  note s = snapshot_okD [OF assms(1)]
  have pos: "0 < t_cols t" "0 < t_rows t" using s by auto
  let ?g0 = "grid_new (t_cols t) (t_rows t)" and ?rows = "map (map unflag) (screen (main_grid t))"
  have f: "g_cols ?g0 = t_cols t" "g_rows ?g0 = t_rows t" "g_sb_prompt ?g0 = []" "scrollback_len ?g0 = 0"
    using fresh_grid [OF refl pos] by simp_all
  have len: "length (concat ?rows) = t_rows t * t_cols t"
    using screen_facts(1) [of "main_grid t"] s(1,3,4) by (simp add: grid_ok_def map_concat [symmetric])
  note p = paint_restored [OF refl pos len, of "main_cursor t"]
  let ?p = "set_cursor (fst (main_cursor t)) (snd (main_cursor t)) (paint_cells (t_cols t) (t_rows t) (concat ?rows) ?g0)"
  let ?lines = "map unflag_line (last_n cap (history (main_grid t)))"
  have disk: "scrollback_len ?p = 0"
    using p(2) length_history [of ?p] p(1) by (simp add: restored_def)
  have g: "g = replay_lines (sn_fold (body_of cap live t)) (replay_lines ?lines ?p)"
    unfolding assms(3) snapshot_grid_def
    using disk f s(3,4) by (simp add: body_of_def grid_resize_def Let_def map_concat)
  note r = replay_restored [OF p(1) f(3), of ?lines]
  note r' = replay_restored [OF r(1) f(3), of "sn_fold (body_of cap live t)"]
  show "restored ?g0 ?rows (main_cursor t) g" unfolding g by (rule r'(1))
  have cols: "g_cols (main_grid t) \<le> MAX_LINE_COLS_DESER" using s by simp
  have "history (replay_lines ?lines ?p) = last_n DEFAULT_SCROLLBACK_LINES (map unflag_line (history (main_grid t)))"
    using r(2) p(2,3) history_restored(1) [OF s(1,2) cols, of DEFAULT_SCROLLBACK_LINES cap] s(3) assms(2)
    by (simp add: last_n_smaller del: map_map)
  then show "history g = last_n DEFAULT_SCROLLBACK_LINES
      (last_n DEFAULT_SCROLLBACK_LINES (map unflag_line (history (main_grid t))) @
       map (apfst (ms_normalise (ms_new DEFAULT_SCROLLBACK_LINES (t_cols t)))) (sn_fold (body_of cap live t)))"
    unfolding g using r'(2) r(3) p(3) by simp
qed

section \<open>The handoff\<close>

lemma term_new_fields:
  "t_cluster_anchor (term_new c r) = None" "t_parked_cursor (term_new c r) = None" "t_saved_main (term_new c r) = None"
  "t_u_buf (term_new c r) = []" "t_kitty (term_new c r) = kitty_default" "t_cursor_shape (term_new c r) = 0"
  "t_parser (term_new c r) = parser_new"
  by (simp_all add: term_new_def tabs_or_panic_def split: option.split)

lemma restored_commit_wf:
  assumes "term_wf v" "t_cluster_anchor v = None" "t_parked_cursor v = None" "t_saved_main v = None" "snapshot_ok t"
    "u = commit_snapshot wide (body_of cap live t) v" "t_cols v = t_cols t" "t_rows v = t_rows t"
    "keeps (t_grid v) (snapshot_grid wide (body_of cap live t) (t_grid v))"
    "in_alt_screen t \<Longrightarrow> keeps (t_grid v) (alt_of_live (live_of t))"
  shows "term_wf u"
proof -
  note s = snapshot_okD [OF assms(5)]
  have t: "pen_wf (t_attrs t)" "pred_option saved_ok (t_saved_cursor t)" "t_rows t \<le> u16_max" "2 \<le> t_cols t"
    using assms(5) s by (simp_all add: snapshot_ok_def term_wf_def screen_ok_def side_ok_def)
  have p: "pen_wf (plain_attrs (t_attrs t))"
      "pred_option saved_ok (map_option (\<lambda>s. s\<lparr>sc_attrs := plain_attrs (sc_attrs s), sc_pending_wrap := False\<rparr>) (t_saved_cursor t))"
    using t by (cases "t_saved_cursor t"; simp add: pen_wf_def plain_attrs_def saved_ok_def)+
  have b: "sn_attrs (body_of cap live t) = plain_attrs (t_attrs t)"
      "sn_saved (body_of cap live t) =
         map_option (\<lambda>s. s\<lparr>sc_attrs := plain_attrs (sc_attrs s), sc_pending_wrap := False\<rparr>) (t_saved_cursor t)"
      "sn_scroll (body_of cap live t) = main_scroll t"
      "sn_live (body_of cap live t) = (if in_alt_screen t \<and> live then Some (live_of t) else None)"
    by (simp_all add: body_of_def)
  have sc: "fst (main_scroll t) \<le> snd (main_scroll t)" "snd (main_scroll t) < t_rows t"
    using s by (auto simp: main_scroll_def)
  note k = keepsD [OF assms(9)]
  show ?thesis
  proof (cases "in_alt_screen t \<and> live")
    case False
    then have "(if in_alt_screen t \<and> live then Some (live_of t) else None) = None" by simp
    then show ?thesis
      using assms(1-5,7,8) k p sc
      unfolding assms(6) commit_snapshot_def Let_def b
      by (simp add: term_wf_def screen_ok_def side_ok_def cluster_ok_def ustring_wf_def)
  next
    case True
    note a = keepsD [OF assms(10)]
    have "keeps (alt_of_live (live_of t)) (snapshot_grid wide (body_of cap live t) (t_grid v))"
      using True a k by (simp add: keeps_def)
    then show ?thesis
      using True assms(1-5,7,8) k a p sc s
      unfolding assms(6) commit_snapshot_def Let_def b
      by (simp add: term_wf_def screen_ok_def side_ok_def cluster_ok_def main_ok_def kitty_default_wf live_of_def
        ustring_wf_def)
  qed
qed

lemma alt_restored:
  assumes "snapshot_ok t"
  shows "restored (grid_new (t_cols t) (t_rows t)) (map (map unflag) (screen (t_grid t))) (cur_col t, cur_row t)
      (alt_of_live (live_of t))"
    "history (alt_of_live (live_of t)) = last_n DEFAULT_SCROLLBACK_LINES (map unflag_line (history (t_grid t)))"
proof -
  note s = snapshot_okD [OF assms]
  have pos: "0 < t_cols t" "0 < t_rows t" using s by auto
  have len: "length (concat (map (map unflag) (screen (t_grid t)))) = t_rows t * t_cols t"
    using screen_facts(1) [of "t_grid t"] s(7) by (simp add: grid_ok_def map_concat [symmetric])
  have a: "alt_of_live (live_of t) = set_cursor (fst (cur_col t, cur_row t)) (snd (cur_col t, cur_row t))
      (paint_cells (t_cols t) (t_rows t) (concat (map (map unflag) (screen (t_grid t))))
        (replay_lines (al_ring (live_of t)) (grid_new (t_cols t) (t_rows t))))"
    by (simp add: alt_of_live_def live_of_def grid_new_def map_concat)
  note r = replay_paint_restored [OF refl pos len a]
  show "restored (grid_new (t_cols t) (t_rows t)) (map (map unflag) (screen (t_grid t))) (cur_col t, cur_row t)
      (alt_of_live (live_of t))" by (rule r(1))
  show "history (alt_of_live (live_of t)) = last_n DEFAULT_SCROLLBACK_LINES (map unflag_line (history (t_grid t)))"
    using r(2) history_restored(2) [OF s(7,8,9), of DEFAULT_SCROLLBACK_LINES SNAPSHOT_SCROLLBACK_LINE_CAP]
    by (simp add: live_of_def last_n_smaller del: map_map)
qed

section \<open>Properties\<close>

lemma apply_serialize:
  assumes "snapshot_ok t" "cap \<le> MAX_SCROLLBACK_LINES_DESER"
  shows "apply_snapshot wide (serialize_snapshot_impl cap live t) v = Some (commit_snapshot wide (body_of cap live t) v)"
  by (simp add: apply_snapshot_def read_serialize [OF assms])

lemma fresh_for:
  assumes "snapshot_ok t"
  shows "term_wf (term_new (t_cols t) (t_rows t))" "t_grid (term_new (t_cols t) (t_rows t)) = grid_new (t_cols t) (t_rows t)"
    "t_cols (term_new (t_cols t) (t_rows t)) = t_cols t" "t_rows (term_new (t_cols t) (t_rows t)) = t_rows t"
    "0 < t_cols t" "0 < t_rows t"
proof -
  have "term_wf t" using assms by (simp add: snapshot_ok_def)
  note w = term_wfD [OF this]
  show "term_wf (term_new (t_cols t) (t_rows t))" "t_cols (term_new (t_cols t) (t_rows t)) = t_cols t"
    "t_rows (term_new (t_cols t) (t_rows t)) = t_rows t"
    using term_new_wf [of "t_cols t" "t_rows t"] w by simp_all
  show "t_grid (term_new (t_cols t) (t_rows t)) = grid_new (t_cols t) (t_rows t)" "0 < t_cols t" "0 < t_rows t"
    using w term_new_grid by simp_all
qed

text \<open>
  What a layer is after the handoff: rows and history with the mark of a cluster taken off their
  cells, the history with its continuation flags and the screen without any, no prompt marks, an empty cluster pool.
\<close>

definition carried :: "grid \<Rightarrow> nat \<times> nat \<Rightarrow> grid \<Rightarrow> bool" where
  "carried old cur g \<longleftrightarrow>
     g_cols g = g_cols old \<and> g_rows g = g_rows old \<and>
     g_cursor_col g = min (fst cur) (g_cols old - 1) \<and> g_cursor_row g = min (snd cur) (g_rows old - 1) \<and>
     screen g = map (map unflag) (screen old) \<and>
     history g = last_n DEFAULT_SCROLLBACK_LINES (map unflag_line (history old)) \<and>
     wrap_flags g = replicate (g_rows old) False \<and> prompt_flags g = replicate (g_rows old) NoMark \<and> g_clusters g = []"

lemma restored_carried:
  assumes "grid_ok old" "g0 = grid_new (g_cols old) (g_rows old)" "restored g0 (map (map unflag) (screen old)) cur g"
    "history g = last_n DEFAULT_SCROLLBACK_LINES (map unflag_line (history old))"
  shows "carried old cur g"
proof -
  have "0 < g_cols old" "0 < g_rows old" using assms(1) by (simp_all add: grid_ok_def grid_wf_def)
  then have "g_clusters g = []" using assms(2,3) fresh_grid(4) [OF refl] by (auto simp: restored_def)
  then show ?thesis using restored_grid [OF assms(1-3)] assms(4) by (simp add: carried_def)
qed

lemma commit_fields:
  assumes "snapshot_ok t" "v = term_new (t_cols t) (t_rows t)" "b = body_of cap True t"
    "g = snapshot_grid wide b (t_grid v)" "u = commit_snapshot wide b v"
  shows "t_grid u = (if in_alt_screen t then alt_of_live (live_of t) else g)" "main_grid u = g"
    "u = v\<lparr>t_grid := t_grid u,
       t_saved_main := (if in_alt_screen t
         then Some \<lparr>sm_grid = main_grid u, sm_cursor = main_cursor t, sm_kitty = kitty_default\<rparr> else None),
       t_scroll_top := t_scroll_top t, t_scroll_bot := t_scroll_bot t,
       t_cursor_key_app := t_cursor_key_app t, t_bracketed_paste := t_bracketed_paste t,
       t_cursor_visible := t_cursor_visible t, t_pending_wrap := t_pending_wrap t,
       t_mouse_mode := t_mouse_mode t, t_mouse_sgr := t_mouse_sgr t, t_alt_scroll := t_alt_scroll t,
       t_focus_reporting := t_focus_reporting t, t_g0_graphics := t_g0_graphics t,
       t_origin_mode := t_origin_mode t, t_insert_mode := t_insert_mode t, t_attrs := t_attrs t,
       t_saved_cursor := map_option (\<lambda>s. s\<lparr>sc_pending_wrap := False\<rparr>) (t_saved_cursor t),
       t_generation := t_generation t\<rparr>"
proof -
  have "pen_wf (t_attrs t)" "pred_option saved_ok (t_saved_cursor t)"
    using assms(1) by (simp_all add: snapshot_ok_def term_wf_def screen_ok_def side_ok_def)
  then have a: "sn_attrs b = t_attrs t"
      "sn_saved b = map_option (\<lambda>s. s\<lparr>sc_pending_wrap := False\<rparr>) (t_saved_cursor t)"
    by (auto simp: assms(3) body_of_def pen_wf_def plain_attrs_def saved_ok_def map_option_case split: option.split)
  have b: "sn_live b = (if in_alt_screen t then Some (live_of t) else None)" "sn_scroll b = main_scroll t"
      "sn_cursor b = main_cursor t" "sn_modes b = snapshot_modes t" "sn_generation b = t_generation t"
    by (simp_all add: assms(3) body_of_def)
  have n: "t_predictions v = []" "t_shadow v = []" "t_cluster_buf v = []" "t_cluster_fast v = None"
      "t_segmenter v = cursor_new" "t_seg_synced v" "t_response v = []" "t_saved_main v = None"
    by (simp_all add: assms(2) term_new_def tabs_or_panic_def split: option.split)
  have modes: "bit (sn_modes b) 0 = t_cursor_key_app t" "bit (sn_modes b) 1 = t_bracketed_paste t"
      "bit (sn_modes b) 2 = t_cursor_visible t" "bit (sn_modes b) 3 = t_pending_wrap t"
      "bit (sn_modes b) 7 = t_mouse_sgr t" "bit (sn_modes b) 8 = t_alt_scroll t"
      "bit (sn_modes b) 9 = t_focus_reporting t" "bit (sn_modes b) 10 = t_g0_graphics t"
      "bit (sn_modes b) 12 = t_origin_mode t" "bit (sn_modes b) 14 = t_insert_mode t"
      "mouse_of_bits (drop_bit 5 (sn_modes b) AND 3) = t_mouse_mode t"
    using snapshot_modes_bits [of t] snapshot_modes_mouse [of t] mouse_bits_facts(2) by (simp_all add: b)
  show "t_grid u = (if in_alt_screen t then alt_of_live (live_of t) else g)" "main_grid u = g"
    using n by (simp_all add: assms(4,5) commit_snapshot_def Let_def b main_grid_def split: option.split)
  show "u = v\<lparr>t_grid := t_grid u,
       t_saved_main := (if in_alt_screen t
         then Some \<lparr>sm_grid = main_grid u, sm_cursor = main_cursor t, sm_kitty = kitty_default\<rparr> else None),
       t_scroll_top := t_scroll_top t, t_scroll_bot := t_scroll_bot t,
       t_cursor_key_app := t_cursor_key_app t, t_bracketed_paste := t_bracketed_paste t,
       t_cursor_visible := t_cursor_visible t, t_pending_wrap := t_pending_wrap t,
       t_mouse_mode := t_mouse_mode t, t_mouse_sgr := t_mouse_sgr t, t_alt_scroll := t_alt_scroll t,
       t_focus_reporting := t_focus_reporting t, t_g0_graphics := t_g0_graphics t,
       t_origin_mode := t_origin_mode t, t_insert_mode := t_insert_mode t, t_attrs := t_attrs t,
       t_saved_cursor := map_option (\<lambda>s. s\<lparr>sc_pending_wrap := False\<rparr>) (t_saved_cursor t),
       t_generation := t_generation t\<rparr>"
  proof (cases "in_alt_screen t")
    case True
    then show ?thesis unfolding \<open>main_grid u = g\<close>
      by (intro terminal.equality)
        (simp_all add: n assms(4,5) commit_snapshot_def Let_def b(1-3,5) a modes [simplified] live_of_def main_scroll_def)
  next
    case False
    then show ?thesis unfolding \<open>main_grid u = g\<close>
      by (intro terminal.equality)
        (simp_all add: n assms(4,5) commit_snapshot_def Let_def b(1-3,5) a modes [simplified] main_scroll_def)
  qed
qed

text \<open>
  C5: exactly what the handoff carries.  What a session process of at most 4,096 columns writes before it replaces
  its own image is accepted by a fresh terminal of the same size.  Both layers come back as \<open>carried\<close>
  says: cells, cursor and history, the cells without the mark of a cluster and the rows of the screen without their wrap
  flags.  So do the scroll region, the modes of the format, the pen, and the saved cursor without its deferred
  wrap.  Every other field is that of a new terminal: keyboard flags of both screens, the parked
  cursor, tab stops, cursor shape, title, markup, synchronised output, the parser and the text it had not finished, answers not taken.  The
  terminal is sound, so everything that holds of a session goes on to hold.
\<close>
theorem snapshot_live_roundtrip:
  assumes "snapshot_ok t"
  shows "\<exists>u. apply_snapshot wide (serialize_snapshot_live t) (term_new (t_cols t) (t_rows t)) = Some u \<and>
    carried (main_grid t) (main_cursor t) (main_grid u) \<and>
    (in_alt_screen t \<longrightarrow> carried (t_grid t) (cur_col t, cur_row t) (t_grid u)) \<and>
    u = (term_new (t_cols t) (t_rows t))
      \<lparr>t_grid := t_grid u,
       t_saved_main := (if in_alt_screen t
         then Some \<lparr>sm_grid = main_grid u, sm_cursor = main_cursor t, sm_kitty = kitty_default\<rparr> else None),
       t_scroll_top := t_scroll_top t, t_scroll_bot := t_scroll_bot t,
       t_cursor_key_app := t_cursor_key_app t, t_bracketed_paste := t_bracketed_paste t,
       t_cursor_visible := t_cursor_visible t, t_pending_wrap := t_pending_wrap t,
       t_mouse_mode := t_mouse_mode t, t_mouse_sgr := t_mouse_sgr t, t_alt_scroll := t_alt_scroll t,
       t_focus_reporting := t_focus_reporting t, t_g0_graphics := t_g0_graphics t,
       t_origin_mode := t_origin_mode t, t_insert_mode := t_insert_mode t, t_attrs := t_attrs t,
       t_saved_cursor := map_option (\<lambda>s. s\<lparr>sc_pending_wrap := False\<rparr>) (t_saved_cursor t),
       t_generation := t_generation t\<rparr> \<and> term_wf u"
proof -
  let ?v = "term_new (t_cols t) (t_rows t)" and ?b = "body_of SNAPSHOT_SCROLLBACK_LINE_CAP True t"
  let ?g = "snapshot_grid wide ?b (grid_new (t_cols t) (t_rows t))"
  define u where "u = commit_snapshot wide ?b ?v"
  note s = snapshot_okD [OF assms] and f = fresh_for [OF assms]
  note m = main_restored [OF assms order_refl refl, of wide True]
  have old: "grid_new (t_cols t) (t_rows t) = grid_new (g_cols (main_grid t)) (g_rows (main_grid t))"
    using s(3,4) by simp
  have "sn_fold ?b = []" by (simp add: body_of_def)
  then have h: "history ?g = last_n DEFAULT_SCROLLBACK_LINES (map unflag_line (history (main_grid t)))"
    using m(2) by (simp add: last_n_smaller)
  have main: "carried (main_grid t) (main_cursor t) ?g"
    by (rule restored_carried [OF s(1) old m(1) h])
  have alt: "carried (t_grid t) (cur_col t, cur_row t) (alt_of_live (live_of t))"
    by (rule restored_carried [OF s(7) refl alt_restored [OF assms]])
  have "keeps (t_grid ?v) ?g" using restored_grid [OF s(1) old m(1)] s(3,4) f(3,4) by (simp add: keeps_def)
  moreover have "keeps (t_grid ?v) (alt_of_live (live_of t))"
    using restored_grid [OF s(7) refl alt_restored(1) [OF assms]] f(3,4) by (simp add: keeps_def)
  ultimately have wf: "term_wf u"
    by (intro restored_commit_wf [OF f(1) term_new_fields(1-3) assms u_def f(3,4)]) (simp_all add: f(2))
  note c = commit_fields [OF assms refl refl refl u_def]
  have "t_grid ?v = grid_new (t_cols t) (t_rows t)" by (rule f(2))
  then have "carried (main_grid t) (main_cursor t) (main_grid u)"
    "in_alt_screen t \<Longrightarrow> carried (t_grid t) (cur_col t, cur_row t) (t_grid u)"
    using main alt c(1,2) by simp_all
  moreover have "apply_snapshot wide (serialize_snapshot_live t) ?v = Some u"
    using apply_serialize [OF assms, of SNAPSHOT_SCROLLBACK_LINE_CAP wide True ?v]
    by (simp add: serialize_snapshot_live_def u_def)
  ultimately show ?thesis using c(3) wf by blast
qed

text \<open>A terminal whose program has moved the cursor and asked for bracketed paste.\<close>

definition snapshot_example :: terminal where
  "snapshot_example = (on_grid (set_cursor 2 1) (term_new 3 2))\<lparr>t_bracketed_paste := True\<rparr>"

lemma snapshot_example_ok: "snapshot_ok snapshot_example" "cur_col snapshot_example = 2" "t_cols snapshot_example = 3"
  "t_rows snapshot_example = 2"
proof -
  note n = term_new_wf [of 3 2]
  have "keeps (t_grid (term_new 3 2)) (set_cursor 2 1 (t_grid (term_new 3 2)))"
    using n(1) by (intro set_cursor_keeps) (simp add: term_wf_def screen_ok_def)
  then have "term_wf (on_grid (set_cursor 2 1) (term_new 3 2))" using n by (intro term_wf_grid) simp_all
  then have "term_wf snapshot_example"
    by (simp add: snapshot_example_def term_wf_def screen_ok_def side_ok_def)
  moreover have "t_grid snapshot_example = set_cursor 2 1 (grid_new 3 2)"
    by (simp add: snapshot_example_def term_new_grid)
  moreover have "t_saved_main snapshot_example = None" "t_saved_cursor snapshot_example = None"
    "t_generation snapshot_example = 0"
    by (simp_all add: snapshot_example_def term_new_def tabs_or_panic_def split: option.split)
  ultimately show "snapshot_ok snapshot_example" "cur_col snapshot_example = 2" "t_cols snapshot_example = 3"
    "t_rows snapshot_example = 2"
    by (simp_all add: snapshot_ok_def ring_ok_def grid_new_def grid_with_scrollback_def
        grid_with_scrollback_kind_def set_cursor_def check_def)
qed

theorem snapshot_live_roundtrip_witness:
  "\<exists>u. apply_snapshot AmbOff (serialize_snapshot_live snapshot_example) (term_new 3 2) = Some u \<and>
    carried (main_grid snapshot_example) (main_cursor snapshot_example) (main_grid u) \<and> term_wf u"
  using snapshot_live_roundtrip [OF snapshot_example_ok(1), of AmbOff] unfolding snapshot_example_ok(3,4) by blast

section \<open>The death of a session\<close>

lemma alt_vis_last:
  assumes "grid_wf g" "alt_vis_rows g \<le> r" "r < g_rows g"
  shows "screen g ! r = replicate (g_cols g) cell_default"
proof -
  let ?P = "\<lambda>r. list_ex (\<lambda>c. grid_cell g c r \<noteq> cell_default) [0..<g_cols g]"
  have f: "P i \<Longrightarrow> i < k \<Longrightarrow> Suc i \<le> fold (\<lambda>r n. if P r then Suc r else n) [0..<k] 0" for P and i k :: nat
    by (induction k) (auto simp: less_Suc_eq)
  have "\<not> ?P r"
  proof
    assume "?P r"
    then have "Suc r \<le> alt_vis_rows g"
      unfolding alt_vis_rows_def Suc_eq_plus1 [symmetric] using assms(3) by (rule f)
    then show False using assms(2) by simp
  qed
  then show ?thesis
    unfolding screen_row_map [OF assms(1,3), symmetric]
    by (auto simp: list_ex_iff intro!: nth_equalityI)
qed

text \<open>
  C6: a session that dies in the alternate screen leaves its text in the history.  The snapshot of
  a closing session, applied to a fresh terminal, gives the main screen with its cursor, in the main
  buffer with full margins, and a history that holds the main history, then the history of the
  alternate screen, then its rows down to the last one that is not blank; of all of these the
  newest lines a terminal holds.
\<close>
theorem snapshot_folds_alt_screen:
  assumes "snapshot_ok t" "in_alt_screen t"
  shows "\<exists>u. apply_snapshot wide (serialize_snapshot t) (term_new (t_cols t) (t_rows t)) = Some u \<and>
    \<not> in_alt_screen u \<and> screen (t_grid u) = map (map unflag) (screen (main_grid t)) \<and>
    (cur_col u, cur_row u) = (min (fst (main_cursor t)) (t_cols t - 1), min (snd (main_cursor t)) (t_rows t - 1)) \<and>
    (t_scroll_top u, t_scroll_bot u) = (0, t_rows t - 1) \<and>
    history (t_grid u) = last_n DEFAULT_SCROLLBACK_LINES (map unflag_line (
      history (main_grid t) @ last_n SNAPSHOT_SCROLLBACK_LINE_CAP (history (t_grid t)) @
      map (\<lambda>row. (row, False)) (take (alt_vis_rows (t_grid t)) (screen (t_grid t))))) \<and>
    (\<forall>row \<in> set (drop (alt_vis_rows (t_grid t)) (screen (t_grid t))). row = replicate (t_cols t) cell_default) \<and>
    term_wf u"
proof -
  let ?v = "term_new (t_cols t) (t_rows t)" and ?b = "body_of SNAPSHOT_SCROLLBACK_LINE_CAP False t"
  let ?g = "snapshot_grid wide ?b (grid_new (t_cols t) (t_rows t))"
  let ?vis = "alt_vis_rows (t_grid t)" and ?norm = "ms_normalise (ms_new DEFAULT_SCROLLBACK_LINES (t_cols t))"
  define u where "u = commit_snapshot wide ?b ?v"
  note s = snapshot_okD [OF assms(1)] and f = fresh_for [OF assms(1)]
  note m = main_restored [OF assms(1) order_refl refl, of wide False]
  have old: "grid_new (t_cols t) (t_rows t) = grid_new (g_cols (main_grid t)) (g_rows (main_grid t))"
    using s(3,4) by simp
  note mg = restored_grid [OF s(1) old m(1)]
  have gwf: "grid_wf (t_grid t)" using s(7) by (simp add: grid_ok_def)
  have b: "sn_fold ?b = map unflag_line (fold_lines (t_grid t))" "sn_live ?b = None" "sn_scroll ?b = (0, t_rows t - 1)"
    using assms(2) s(4) by (simp_all add: body_of_def main_scroll_def)
  have "map (apfst ?norm) (map (unflag_line \<circ> apfst trim_line) (last_n SNAPSHOT_SCROLLBACK_LINE_CAP (history (t_grid t)))) =
      map unflag_line (last_n SNAPSHOT_SCROLLBACK_LINE_CAP (history (t_grid t)))"
    unfolding history_restored(2) [OF s(7,8,9)] by (simp add: last_n_map)
  moreover have "?norm (map unflag (trim_line (screen (t_grid t) ! r))) = map unflag (screen (t_grid t) ! r)"
    if "r < t_rows t" for r
    using normalise_trimmed length_grid_row [OF gwf that] that by (simp add: screen_nth)
  then have "map (apfst ?norm) (map unflag_line (map (\<lambda>r. (trim_line (screen (t_grid t) ! r), False)) [0..<?vis])) =
      map unflag_line (map (\<lambda>r. (screen (t_grid t) ! r, False)) [0..<?vis])"
    using alt_vis_le [of "t_grid t"] by simp
  moreover have "map (\<lambda>r. (screen (t_grid t) ! r, False)) [0..<?vis] = map (\<lambda>row. (row, False)) (take ?vis (screen (t_grid t)))"
    using alt_vis_le [of "t_grid t"] by (intro nth_equalityI) simp_all
  ultimately have "map (apfst ?norm) (sn_fold ?b) = map unflag_line (
      last_n SNAPSHOT_SCROLLBACK_LINE_CAP (history (t_grid t)) @ map (\<lambda>row. (row, False)) (take ?vis (screen (t_grid t))))"
    by (simp only: b fold_lines_def map_append map_map)
  then have h: "history ?g = last_n DEFAULT_SCROLLBACK_LINES (map unflag_line (
      history (main_grid t) @ last_n SNAPSHOT_SCROLLBACK_LINE_CAP (history (t_grid t)) @
      map (\<lambda>row. (row, False)) (take ?vis (screen (t_grid t)))))"
    using m(2) by (simp only: last_n_last_n map_append append_assoc)
  have k: "keeps (t_grid ?v) ?g" using mg s(3,4) f(3,4) by (simp add: keeps_def)
  have ka: "keeps (t_grid ?v) (alt_of_live (live_of t))"
    using restored_grid [OF s(7) refl alt_restored(1) [OF assms(1)]] f(3,4) by (simp add: keeps_def)
  have wf: "term_wf u"
    using k ka by (intro restored_commit_wf [OF f(1) term_new_fields(1-3) assms(1) u_def f(3,4)]) (simp_all add: f(2))
  have g: "t_grid u = ?g" "\<not> in_alt_screen u" "t_scroll_top u = 0" "t_scroll_bot u = t_rows t - 1"
    by (simp_all add: u_def commit_snapshot_def Let_def b in_alt_screen_def f(2) term_new_fields)
  have "\<forall>row \<in> set (drop ?vis (screen (t_grid t))). row = replicate (t_cols t) cell_default"
    using alt_vis_last [OF gwf] by (auto simp: in_set_conv_nth)
  then show ?thesis
    using apply_serialize [OF assms(1), of SNAPSHOT_SCROLLBACK_LINE_CAP wide False ?v] wf h g mg s(3,4)
    by (auto simp: serialize_snapshot_def u_def)
qed

definition alt_example :: terminal where
  "alt_example = snapshot_example\<lparr>t_saved_main := Some \<lparr>sm_grid = grid_new 3 2, sm_cursor = (1, 0), sm_kitty = kitty_default\<rparr>\<rparr>"

lemma alt_example_ok: "snapshot_ok alt_example" "in_alt_screen alt_example" "t_cols alt_example = 3" "t_rows alt_example = 2"
proof -
  note e = snapshot_example_ok
  have "keeps (t_grid snapshot_example) (grid_new 3 2)"
    using e term_new_wf [of 3 2] by (simp add: keeps_def term_wf_def screen_ok_def term_new_grid)
  then have "main_ok (t_grid snapshot_example) \<lparr>sm_grid = grid_new 3 2, sm_cursor = (1, 0), sm_kitty = kitty_default\<rparr>"
    by (simp add: main_ok_def kitty_default_wf)
  moreover have "ring_ok (grid_new 3 2)"
    using fresh_grid(10) [of "grid_new 3 2" 3 2] by (simp add: ring_ok_def)
  ultimately show "snapshot_ok alt_example" "in_alt_screen alt_example" "t_cols alt_example = 3" "t_rows alt_example = 2"
    using e by (simp_all add: alt_example_def snapshot_ok_def term_wf_def screen_ok_def side_ok_def
        saved_main_ok_def in_alt_screen_def)
qed

theorem snapshot_folds_alt_screen_witness:
  "\<exists>u. apply_snapshot AmbOff (serialize_snapshot alt_example) (term_new 3 2) = Some u \<and> \<not> in_alt_screen u \<and> term_wf u"
  using snapshot_folds_alt_screen [OF alt_example_ok(1,2), of AmbOff] alt_example_ok by auto

section \<open>Pages\<close>

lemma plausible_encoded:
  assumes "\<forall>c \<in> set cs. cell_wf c" "n = length cs"
  shows "plausible_cols n (encode_cells cs @ r) = Some ()"
proof -
  have "length (encode_cells cs) = 13 * length cs"
    by (induction cs) (simp_all add: encode_cell_def)
  then show ?thesis by (simp add: plausible_cols_def assms(2))
qed

lemma read_page_encoded:
  "\<forall>(l, w) \<in> set ls. line_ok l \<Longrightarrow> n = length ls \<Longrightarrow>
   read_page_wrapped n (concat (map encode_page_line ls) @ r) = Some (map unflag_line ls, r)"
proof (induction ls arbitrary: n)
  case (Cons a ls)
  obtain l w where a: "a = (l, w)" by (cases a)
  have l: "length l < 2 ^ 32" "\<forall>c \<in> set l. cell_wf c" using Cons.prems a by (auto simp: line_ok_def)
  show ?case
    using Cons l plausible_encoded [OF l(2) refl]
    by (simp add: a encode_page_line_def unat_small)
qed simp

lemma page_decoded:
  assumes "\<forall>(l, w) \<in> set ls. line_ok l"
  shows "decode_scrollback_page_body (length ls) (concat (map encode_page_line ls)) = Some (map unflag_line ls)"
  using read_page_encoded [OF assms refl, of "[]"]
  by (simp add: decode_scrollback_page_body_def decode_with_wrapped_def)

lemma map_upt_shift: "map f [a..<m + a] = map (\<lambda>i. f (a + i)) [0..<m]"
  by (induction m) (simp_all add: add.commute)

lemma page_window:
  assumes "grid_ok g" "start < scrollback_len g" "avail = min (scrollback_len g - start) cnt"
  shows "scrollback_read_page g start cnt =
    map (\<lambda>i. (fst (history g ! (scrollback_len g - start - avail + i)), snd (history g ! (start + i)))) [0..<avail]"
proof -
  have m: "mirrors_wf g" using assms(1) by (simp add: grid_ok_def)
  let ?len = "scrollback_len g" and ?old = "scrollback_len g - start - avail"
  have len: "ms_len (g_scrollback g) = ?len" by (simp add: scrollback_len_def)
  have window: "sb_read_lines (g_scrollback g) start cnt = map (\<lambda>i. ms_lines (g_scrollback g) ! (?old + i)) [0..<avail]"
  proof (cases "cnt = 0")
    case False
    have "List.map_filter (ms_line (g_scrollback g)) [?old..<?len - start] =
        map ((!) (ms_lines (g_scrollback g))) [?old..<?len - start]"
      by (rule map_filter_Some) (auto simp: ms_line_lines len)
    moreover have "map ((!) (ms_lines (g_scrollback g))) [?old..<?len - start] =
        map (\<lambda>i. ms_lines (g_scrollback g) ! (?old + i)) [0..<avail]"
      using map_upt_shift [of _ ?old avail] assms(2,3) by simp
    moreover have "?len - 1 - start + 1 - min (?len - start) cnt = ?old" "?len - 1 - start + 1 = ?len - start"
      using assms(2,3) by simp_all
    ultimately show ?thesis
      using False assms(2) unfolding sb_read_lines_def len Let_def by simp
  qed (use assms(3) in \<open>simp add: sb_read_lines_def\<close>)
  show ?thesis
  proof (rule nth_equalityI)
    fix i assume "i < length (scrollback_read_page g start cnt)"
    then have i: "i < avail" by (simp add: scrollback_read_page_def window)
    then have "start + i < ?len" "?old + i < ?len" using assms(2,3) by linarith+
    then show "scrollback_read_page g start cnt ! i =
        map (\<lambda>i. (fst (history g ! (?old + i)), snd (history g ! (start + i)))) [0..<avail] ! i"
      using i history_nth [OF m, of "?old + i"] history_nth [OF m, of "start + i"]
      by (simp add: scrollback_read_page_def window nth_enumerate_eq)
  qed (simp add: scrollback_read_page_def window)
qed

text \<open>
  C25: what a page of the scrollback holds.  A page written by one process and decoded by another is
  the window of lines asked for, counted back from the newest line, oldest first; but the
  continuation flag that comes with the \<open>i\<close>-th line is that of line \<open>start + i\<close> counted from the oldest
  line of the history, which is another line unless the page reaches as far from one end of the
  history as from the other.
\<close>
theorem scrollback_page_window:
  assumes "grid_ok (t_grid t)" "ring_ok (t_grid t)" "t_cols t \<le> MAX_LINE_COLS_DESER"
    and "start < scrollback_len (t_grid t)" "avail = min (scrollback_len (t_grid t) - start) cnt"
    and "page = serialize_scrollback_page t start cnt"
  shows "decode_scrollback_page_body (fst page) (snd page) =
    Some (map (\<lambda>i. (map unflag (fst (history (t_grid t) ! (scrollback_len (t_grid t) - start - avail + i))),
                    snd (history (t_grid t) ! (start + i)))) [0..<avail])"
proof -
  let ?g = "t_grid t"
  have m: "mirrors_wf ?g" "grid_wf ?g" using assms(1) by (simp_all add: grid_ok_def)
  let ?ls = "map (\<lambda>i. (fst (history ?g ! (scrollback_len ?g - start - avail + i)), snd (history ?g ! (start + i)))) [0..<avail]"
  have "line_ok (fst (history ?g ! k))" if "k < scrollback_len ?g" for k
    using ring_lines(2) [OF m(2) assms(2,3), of "fst (history ?g ! k)" "snd (history ?g ! k)"] that
      length_history [OF m(1)] by simp
  then have "\<forall>(l, w) \<in> set ?ls. line_ok l" using assms(4,5) by auto
  from page_decoded [OF this]
  show ?thesis
    unfolding assms(6) serialize_scrollback_page_def Let_def page_window [OF assms(1,4,5)]
    by (simp add: comp_def)
qed

definition page_example :: terminal where
  "page_example = on_grid (replay_lines [([cell_from_char 0x61], False), ([cell_from_char 0x62], True)]) (term_new 2 1)"

lemma page_example_ok:
  "grid_ok (t_grid page_example)" "ring_ok (t_grid page_example)" "t_cols page_example = 2"
  "scrollback_len (t_grid page_example) = 2"
  "history (t_grid page_example) =
     [([cell_from_char 0x61, cell_default], False), ([cell_from_char 0x62, cell_default], True)]"
proof -
  let ?ls = "[([cell_from_char 0x61], False), ([cell_from_char 0x62], True)]" and ?g0 = "grid_new 2 1"
  have g: "t_grid page_example = replay_lines ?ls ?g0" by (simp add: page_example_def term_new_grid)
  note f = fresh_grid [of ?g0 2 1, OF refl zero_less_numeral zero_less_one]
  note r = replay_facts [of ?g0 ?ls, OF f(13,12,8), unfolded Let_def]
  let ?h = "replay_lines ?ls ?g0"
  have h: "?h = ?g0\<lparr>g_scrollback := g_scrollback ?h, g_sb_wrapped := g_sb_wrapped ?h, g_sb_clusters := g_sb_clusters ?h\<rparr>"
    using r by blast
  have rr: "ms_wf (g_scrollback ?h)" "mirrors_wf ?h" "ms_cols (g_scrollback ?h) = ms_cols (g_scrollback ?g0)"
    "history ?h = last_n (ms_capacity (g_scrollback ?g0))
      (history ?g0 @ map (apfst (ms_normalise (g_scrollback ?g0))) ?ls)"
    using r by blast+
  have c: "ms_cols (g_scrollback ?g0) = 2" by (simp only: f(10)) (simp add: ms_new_def)
  have z: "grid_ok ?g0" using term_new_wf [of 2 1] term_new_grid [of 2 1] by (simp add: term_wf_def screen_ok_def)
  have "grid_wf ?h" "pool_wf ?h" "\<not> g_panic ?h" "g_cols ?h = 2"
    by (subst h, use z f(1) rr(1,3) c in \<open>simp add: grid_ok_def grid_wf_def pool_wf_def\<close>)+
  then show "grid_ok (t_grid page_example)" "t_cols page_example = 2" using rr(2) by (simp_all add: g grid_ok_def)
  show hist: "history (t_grid page_example) =
     [([cell_from_char 0x61, cell_default], False), ([cell_from_char 0x62, cell_default], True)]"
    unfolding g rr(4) f(10,11) by (simp add: last_n_def ms_normalise_def ms_new_def)
  have "length (history (t_grid page_example)) = scrollback_len (t_grid page_example)"
    unfolding g by (rule length_history [OF rr(2)])
  then show "scrollback_len (t_grid page_example) = 2" unfolding hist by simp
  have "ms_lines (g_scrollback (t_grid page_example)) = map fst (history (t_grid page_example))"
    using rr(2) by (simp add: history_def mirrors_wf_def g)
  then show "ring_ok (t_grid page_example)"
    unfolding hist by (simp add: ring_ok_def) (simp add: cell_wf_def cell_from_char_def attrs_default_def is_scalar_def wf_intros)
qed

theorem scrollback_page_window_witness:
  "decode_scrollback_page_body (fst (serialize_scrollback_page page_example 0 1))
     (snd (serialize_scrollback_page page_example 0 1)) =
   Some [([cell_from_char 0x62, cell_default], False)]"
  using scrollback_page_window [OF page_example_ok(1,2), of 0 1 1] page_example_ok
  by (simp add: unflag_def plain_attrs_def cell_from_char_def attrs_default_def cell_default_def)

end
