(* ===== verification/Float64.thy ===== *)
theory Float64
  imports Wire Parser
begin

text \<open>
  The standard library's \<open>f64\<close>, as far as \<open>crates/marspot-peer/src/json.rs\<close> uses it: \<open>is_finite\<close>,
  \<open>fract() == 0.0\<close>, the casts from and to \<open>i64\<close>, \<open>Display\<close> (the shortest decimal that reads back) and
  \<open>str::parse\<close> (the nearest \<open>f64\<close>, ties to even).  An \<open>f64\<close> is its bit pattern.  Everything is exact
  arithmetic on naturals: without its sign bit a pattern is a rank, and ranks are ordered as the
  magnitudes they stand for.
\<close>

section \<open>Patterns, ranks, magnitudes\<close>

definition f_neg :: "f64 \<Rightarrow> bool" where
  "f_neg b \<longleftrightarrow> 2 ^ 63 \<le> unat b"

definition f_rank :: "f64 \<Rightarrow> nat" where
  "f_rank b = unat b mod 2 ^ 63"

definition f_make :: "bool \<Rightarrow> nat \<Rightarrow> f64" where
  "f_make neg n = of_nat (n + (if neg then 2 ^ 63 else 0))"

text \<open>The rank of infinity; those above it are the NaNs.\<close>

definition F_INF :: nat where
  "F_INF = 2047 * 2 ^ 52"

definition is_finite :: "f64 \<Rightarrow> bool" where
  "is_finite b \<longleftrightarrow> f_rank b < F_INF"

text \<open>The magnitude of a rank, in units of \<open>2\<^sup>-\<^sup>1\<^sup>0\<^sup>7\<^sup>4\<close>, the smallest positive number.\<close>

definition f_mag :: "nat \<Rightarrow> nat" where
  "f_mag n = (if n < 2 ^ 52 then n else (2 ^ 52 + n mod 2 ^ 52) * 2 ^ (n div 2 ^ 52 - 1))"

definition F_ONE :: nat where
  "F_ONE = 2 ^ 1074"

definition fract_zero :: "f64 \<Rightarrow> bool" where
  "fract_zero b \<longleftrightarrow> is_finite b \<and> F_ONE dvd f_mag (f_rank b)"

text \<open>\<open>as i64\<close>, which saturates.\<close>

definition as_i64 :: "f64 \<Rightarrow> int" where
  "as_i64 b =
     (let m = int (f_mag (f_rank b) div F_ONE)
      in if f_neg b then max (- (2 ^ 63)) (- m) else min (2 ^ 63 - 1) m)"

section \<open>The nearest number\<close>

text \<open>The greatest rank whose magnitude is at most \<open>num / den\<close>, bit by bit.\<close>

fun f_floor :: "nat \<Rightarrow> nat \<Rightarrow> nat \<Rightarrow> nat \<Rightarrow> nat" where
  "f_floor num den 0 n = n"
| "f_floor num den (Suc k) n =
     f_floor num den k (if f_mag (n + 2 ^ k) * den \<le> num then n + 2 ^ k else n)"

definition f_nearest :: "nat \<Rightarrow> nat \<Rightarrow> nat" where
  "f_nearest num den =
     (let n = f_floor num den 63 0;
          below = num - f_mag n * den;
          above = f_mag (Suc n) * den - num
      in if F_INF \<le> n then F_INF
         else if below < above then n
         else if above < below then Suc n
         else if even n then n else Suc n)"

definition f64_from_i64 :: "int \<Rightarrow> f64" where
  "f64_from_i64 i = f_make (i < 0) (f_nearest (nat \<bar>i\<bar> * F_ONE) 1)"

section \<open>Parsing\<close>

definition is_digit :: "u8 \<Rightarrow> bool" where
  "is_digit b \<longleftrightarrow> within 0x30 0x39 b"

definition dec_value :: "u8 list \<Rightarrow> nat" where
  "dec_value bs = foldl (\<lambda>n b. n * 10 + (unat b - 0x30)) 0 bs"

definition parse_sign :: "u8 list \<Rightarrow> bool \<times> u8 list" where
  "parse_sign s =
     (case s of
        [] \<Rightarrow> (False, s)
      | b # s' \<Rightarrow> if b = 0x2D then (True, s') else if b = 0x2B then (False, s') else (False, s))"

text \<open>An exponent: \<open>e\<close> or \<open>E\<close>, a sign, at least one digit.\<close>

definition parse_exponent :: "u8 list \<Rightarrow> int option" where
  "parse_exponent s =
     (case s of
        [] \<Rightarrow> Some 0
      | b # s' \<Rightarrow>
          if b = 0x65 \<or> b = 0x45
          then let (neg, ds) = parse_sign s'
               in if ds \<noteq> [] \<and> list_all is_digit ds
                  then Some (if neg then - int (dec_value ds) else int (dec_value ds)) else None
          else None)"

text \<open>
  \<open>str::parse::<f64>\<close> on text without letters other than \<open>e\<close>: digits, at most one point, at least
  one digit, an exponent.  (\<open>inf\<close> and \<open>nan\<close> also parse in Rust; the caller's text cannot hold them.)
\<close>

definition parse_f64 :: "u8 list \<Rightarrow> f64 option" where
  "parse_f64 s =
     (let (neg, s1) = parse_sign s;
          whole = takeWhile is_digit s1;
          s2 = dropWhile is_digit s1;
          (part, s3) = (case s2 of
              [] \<Rightarrow> ([], [])
            | b # s' \<Rightarrow> if b = 0x2E then (takeWhile is_digit s', dropWhile is_digit s') else ([], s2))
      in if whole = [] \<and> part = [] then None
         else case parse_exponent s3 of
             None \<Rightarrow> None
           | Some e \<Rightarrow>
               let e' = e - int (length part)
               in Some (f_make neg (f_nearest (dec_value (whole @ part) * 10 ^ nat e' * F_ONE) (10 ^ nat (- e')))))"

section \<open>Printing\<close>

text \<open>
  The shortest decimal inside the rounding interval: with the magnitude \<open>v / u\<close> in units of the
  power of ten \<open>p\<close>, one of the two neighbouring integers must lie within \<open>lo\<close> below or \<open>hi\<close> above it;
  an end counts when the mantissa is even.  Below a power of two the interval is half as wide.
\<close>

definition f_gap :: "nat \<Rightarrow> nat" where
  "f_gap n = f_mag (Suc n) - f_mag n"

definition shortest_at :: "nat \<Rightarrow> int \<Rightarrow> nat option" where
  "shortest_at n p =
     (let scale = 10 ^ nat (- p);
          v = 4 * f_mag n * scale;
          u = 4 * F_ONE * 10 ^ nat p;
          lo = (if 2 ^ 52 \<le> n \<and> n mod 2 ^ 52 = 0 then f_gap n else 2 * f_gap n) * scale;
          hi = 2 * f_gap n * scale;
          f = v div u;
          r = v mod u;
          down = (if even n then r \<le> lo else r < lo);
          up = (if even n then u - r \<le> hi else u - r < hi)
      in if up \<and> (\<not> down \<or> u \<le> 2 * r) then Some (f + 1)
         else if down then Some f else None)"

text \<open>The powers from \<open>10\<^sup>3\<^sup>0\<^sup>9\<close> down to \<open>10\<^sup>-\<^sup>1\<^sup>0\<^sup>7\<^sup>5\<close>; at the last one the magnitude is exact.\<close>

definition shortest :: "nat \<Rightarrow> (nat \<times> int) option" where
  "shortest n =
     map_option (\<lambda>i. (the (shortest_at n (309 - int i)), 309 - int i))
       (List.find (\<lambda>i. shortest_at n (309 - int i) \<noteq> None) [0..<1385])"

text \<open>\<open>m * 10\<^sup>p\<close> without an exponent.\<close>

definition positional :: "nat \<Rightarrow> int \<Rightarrow> u8 list" where
  "positional m p =
     (let ds = dec m; k = nat (- p)
      in if 0 \<le> p then ds @ replicate (nat p) 0x30
         else if length ds \<le> k then [0x30, 0x2E] @ replicate (k - length ds) 0x30 @ ds
         else take (length ds - k) ds @ [0x2E] @ drop (length ds - k) ds)"

definition display_f64 :: "f64 \<Rightarrow> u8 list" where
  "display_f64 b =
     (if f_neg b then [0x2D] else []) @
     (case shortest (f_rank b) of None \<Rightarrow> [] | Some (m, p) \<Rightarrow> positional m p)"

definition display_i64 :: "int \<Rightarrow> u8 list" where
  "display_i64 i = (if i < 0 then [0x2D] else []) @ dec (nat \<bar>i\<bar>)"

section \<open>Ranks are ordered as magnitudes\<close>

lemma f_mag_low: "n \<le> 2 ^ 52 \<Longrightarrow> f_mag n = n"
  by (cases "n = 2 ^ 52") (simp_all add: f_mag_def)

lemma f_mag_parts:
  assumes "m < 2 ^ 52"
  shows "f_mag ((e + 1) * 2 ^ 52 + m) = (2 ^ 52 + m) * 2 ^ e"
proof -
  have "((e + 1) * 2 ^ 52 + m) mod 2 ^ 52 = m" "((e + 1) * 2 ^ 52 + m) div 2 ^ 52 = e + 1"
    using assms by (simp_all only: mod_mult_self3 div_mult_self3) simp_all
  moreover have "\<not> (e + 1) * 2 ^ 52 + m < 2 ^ 52"
    by simp
  ultimately show ?thesis
    unfolding f_mag_def by (simp only: if_False add_diff_cancel_right')
qed

text \<open>The distance to the next magnitude.\<close>

lemma f_mag_Suc: "f_mag (Suc n) = f_mag n + 2 ^ (n div 2 ^ 52 - 1)"
proof (cases "n < 2 ^ 52")
  case True
  then show ?thesis
    using f_mag_low [of "Suc n"] by (simp add: f_mag_def)
next
  case False
  define e m where "e = n div 2 ^ 52 - 1" and "m = n mod 2 ^ 52"
  have m: "m < 2 ^ 52"
    by (simp add: m_def)
  have n: "n = (e + 1) * 2 ^ 52 + m"
    using False div_mult_mod_eq [of n "2 ^ 52"] by (simp add: e_def m_def div_greater_zero_iff)
  have d: "n div 2 ^ 52 - 1 = e"
    by (simp add: e_def)
  show ?thesis
  proof (cases "Suc m < 2 ^ 52")
    case True
    have "f_mag ((e + 1) * 2 ^ 52 + Suc m) = (2 ^ 52 + Suc m) * 2 ^ e"
      using True by (rule f_mag_parts)
    then show ?thesis
      using f_mag_parts [OF m, of e] unfolding d by (simp add: n [symmetric] n algebra_simps)
  next
    case False
    then have s: "Suc m = 2 ^ 52"
      using m by simp
    then have "Suc n = (Suc e + 1) * 2 ^ 52 + 0"
      using n by (simp add: algebra_simps)
    then have "f_mag (Suc n) = 2 ^ 52 * 2 ^ Suc e"
      using f_mag_parts [of 0 "Suc e"] by simp
    moreover have "f_mag n = (2 ^ 52 + m) * 2 ^ e"
      using f_mag_parts [OF m, of e] n by simp
    moreover have "(2 ^ 52 + m) * 2 ^ e + 2 ^ e = (2 ^ 52 + Suc m) * 2 ^ e"
      by (simp add: algebra_simps)
    ultimately show ?thesis
      unfolding d s by simp
  qed
qed

lemma f_gap_eq: "f_gap n = 2 ^ (n div 2 ^ 52 - 1)"
  by (simp add: f_gap_def f_mag_Suc)

lemma f_mag_mono: "m < n \<Longrightarrow> f_mag m < f_mag n"
  by (rule lift_Suc_mono_less [of f_mag]) (simp_all add: f_mag_Suc)

lemma f_mag_less_iff: "f_mag m < f_mag n \<longleftrightarrow> m < n"
  by (metis f_mag_mono linorder_neqE_nat order_less_asym order_less_irrefl)

lemma f_mag_le_iff: "f_mag m \<le> f_mag n \<longleftrightarrow> m \<le> n"
  using f_mag_less_iff [of n m] by linarith

text \<open>Half the distance below is at least what the printer allows there.\<close>

lemma f_gap_below:
  assumes "0 < n"
  shows "(if 2 ^ 52 \<le> n \<and> n mod 2 ^ 52 = 0 then f_gap n else 2 * f_gap n) \<le> 2 * (f_mag n - f_mag (n - 1))"
proof -
  have g: "f_mag n - f_mag (n - 1) = 2 ^ ((n - 1) div 2 ^ 52 - 1)"
    using f_mag_Suc [of "n - 1"] assms by simp
  show ?thesis
  proof (cases "n mod 2 ^ 52 = 0")
    case True
    then obtain k where k: "n = k * 2 ^ 52"
      by (metis dvd_div_mult_self dvd_eq_mod_eq_0)
    with assms obtain e where e: "k = Suc e"
      by (cases k) auto
    have "n - 1 = (2 ^ 52 - 1) + e * 2 ^ 52"
      using k e by simp
    then have "(n - 1) div 2 ^ 52 = e"
      by simp
    moreover have "n div 2 ^ 52 = Suc e"
      using k e by simp
    moreover have "(2 :: nat) ^ e \<le> 2 * 2 ^ (e - 1)"
      by (cases e) simp_all
    ultimately show ?thesis
      using True k e unfolding g f_gap_eq by simp
  next
    case False
    define d where "d = n div 2 ^ 52"
    have "n - 1 = (n mod 2 ^ 52 - 1) + d * 2 ^ 52"
      using False div_mult_mod_eq [of n "2 ^ 52"] by (simp add: d_def)
    moreover have "n mod 2 ^ 52 - 1 < 2 ^ 52"
      by (rule le_less_trans [OF diff_le_self]) simp
    ultimately have "(n - 1) div 2 ^ 52 = d"
      by (simp only: div_mult_self2) simp
    then show ?thesis
      using False unfolding g f_gap_eq d_def by simp
  qed
qed

section \<open>The nearest number\<close>

lemma f_floor_eq:
  assumes "n0 \<le> n" "n < n0 + 2 ^ k" "f_mag n * den \<le> num" "num < f_mag (Suc n) * den"
  shows "f_floor num den k n0 = n"
  using assms
proof (induction k arbitrary: n0)
  case 0
  then show ?case by simp
next
  case (Suc k)
  show ?case
  proof (cases "n0 + 2 ^ k \<le> n")
    case True
    then have "f_mag (n0 + 2 ^ k) * den \<le> f_mag n * den"
      by (simp add: f_mag_le_iff)
    then have "f_mag (n0 + 2 ^ k) * den \<le> num"
      using Suc.prems(3) by linarith
    then show ?thesis
      using True Suc.prems Suc.IH [of "n0 + 2 ^ k"] by simp
  next
    case False
    then have "f_mag (Suc n) * den \<le> f_mag (n0 + 2 ^ k) * den"
      by (intro mult_le_mono1) (simp add: f_mag_le_iff)
    then have "\<not> f_mag (n0 + 2 ^ k) * den \<le> num"
      using Suc.prems(4) by linarith
    then show ?thesis
      using False Suc.prems Suc.IH [of n0] by simp
  qed
qed

lemma f_nearest_floor:
  assumes "n < F_INF" "f_mag n * den \<le> num" "num < f_mag (Suc n) * den"
  shows "f_nearest num den =
    (let below = num - f_mag n * den; above = f_mag (Suc n) * den - num
     in if below < above then n else if above < below then Suc n else if even n then n else Suc n)"
proof -
  have "n < 2 ^ 63"
    using assms(1) by (simp add: F_INF_def)
  then have "f_floor num den 63 0 = n"
    using assms(2,3) by (intro f_floor_eq) simp_all
  then show ?thesis
    using assms(1) unfolding f_nearest_def Let_def by simp
qed

lemma f_nearest_exact:
  assumes "n < F_INF" "0 < den"
  shows "f_nearest (f_mag n * den) den = n"
proof -
  have "f_mag n * den < f_mag (Suc n) * den"
    using assms(2) by (simp add: f_mag_Suc)
  then show ?thesis
    using assms(1) by (simp add: f_nearest_floor [of n])
qed

lemma f_nearest_within:
  assumes n: "n < F_INF" and den: "0 < den"
    and above: "f_mag n * den \<le> num \<Longrightarrow> 2 * (num - f_mag n * den) \<le> f_gap n * den \<and> (odd n \<longrightarrow> 2 * (num - f_mag n * den) < f_gap n * den)"
    and below: "num < f_mag n * den \<Longrightarrow> 0 < n \<and> 2 * (f_mag n * den - num) \<le> (f_mag n - f_mag (n - 1)) * den \<and>
      (odd n \<longrightarrow> 2 * (f_mag n * den - num) < (f_mag n - f_mag (n - 1)) * den)"
  shows "f_nearest num den = n"
proof (cases "f_mag n * den \<le> num")
  case True
  define d where "d = f_gap n * den"
  have d: "f_mag (Suc n) * den = f_mag n * den + d" "0 < d"
    using den by (simp_all add: d_def f_gap_eq f_mag_Suc algebra_simps)
  have a: "2 * (num - f_mag n * den) \<le> d" "odd n \<longrightarrow> 2 * (num - f_mag n * den) < d"
    using above [OF True] by (simp_all add: d_def)
  then have "num < f_mag (Suc n) * den"
    using d True by linarith
  then show ?thesis
    unfolding f_nearest_floor [OF n True \<open>num < f_mag (Suc n) * den\<close>] Let_def d(1)
    using a True d(2) by (auto split: if_splits)
next
  case False
  then have b: "0 < n" "2 * (f_mag n * den - num) \<le> (f_mag n - f_mag (n - 1)) * den"
      "odd n \<longrightarrow> 2 * (f_mag n * den - num) < (f_mag n - f_mag (n - 1)) * den"
    using below by simp_all
  obtain m where m: "n = Suc m"
    using b(1) by (cases n) auto
  define d where "d = f_gap m * den"
  have d: "f_mag n * den = f_mag m * den + d" "0 < d" "(f_mag n - f_mag (n - 1)) * den = d"
    using den by (simp_all add: d_def f_gap_eq f_mag_Suc m algebra_simps)
  have lo: "f_mag m * den \<le> num"
    using b(2) d by linarith
  have hi: "num < f_mag (Suc m) * den"
    using False m by simp
  have "m < F_INF"
    using n m by simp
  have ab: "f_mag (Suc m) * den - num \<le> num - f_mag m * den"
      "odd n \<longrightarrow> f_mag (Suc m) * den - num < num - f_mag m * den"
    using b d lo hi unfolding m by linarith+
  then show ?thesis
    unfolding f_nearest_floor [OF \<open>m < F_INF\<close> lo hi] Let_def
    using ab by (auto simp: m)
qed

section \<open>The shortest decimal reads back\<close>

lemma shortest_at_near:
  assumes n: "0 < n" "n < F_INF" and m: "shortest_at n p = Some m"
  shows "f_nearest (m * 10 ^ nat p * F_ONE) (10 ^ nat (- p)) = n"
proof -
  define s where "s = (10 :: nat) ^ nat (- p)"
  define t where "t = F_ONE * 10 ^ nat p"
  define v where "v = f_mag n * s"
  define L where "L = (if 2 ^ 52 \<le> n \<and> n mod 2 ^ 52 = 0 then f_gap n else 2 * f_gap n) * s"
  define H where "H = f_gap n * s"
  define f where "f = v div t"
  have s: "0 < s" and t: "0 < t"
    by (simp_all add: s_def t_def F_ONE_def)
  have "4 * f_mag n * s = 4 * v"
    by (simp add: v_def)
  then have fv: "4 * f_mag n * s div (4 * t) = f" "4 * f_mag n * s mod (4 * t) = 4 * (v mod t)"
    by (simp_all add: f_def)
  have u: "4 * F_ONE * 10 ^ nat p = 4 * t"
    by (simp add: t_def)
  have h: "2 * f_gap n * s = 2 * H"
    by (simp add: H_def)
  define down where "down \<longleftrightarrow> (if even n then 4 * (v mod t) \<le> L else 4 * (v mod t) < L)"
  define up where "up \<longleftrightarrow> (if even n then 4 * t - 4 * (v mod t) \<le> 2 * H else 4 * t - 4 * (v mod t) < 2 * H)"
  have "(if up \<and> (\<not> down \<or> 4 * t \<le> 2 * (4 * (v mod t))) then Some (f + 1) else if down then Some f else None) = Some m"
    using m unfolding shortest_at_def Let_def s_def [symmetric] u fv L_def [symmetric] h down_def [symmetric] up_def [symmetric] .
  then consider "m = f + 1" up | "m = f" down
    by (auto split: if_splits)
  note mcases = this
  have vf: "v = f * t + v mod t" "v mod t < t"
    using t by (simp_all add: f_def)
  have low: "L \<le> 2 * ((f_mag n - f_mag (n - 1)) * s)"
    unfolding L_def using mult_le_mono1 [OF f_gap_below [OF n(1)], of s] by (simp add: mult.assoc)
  have num: "m * 10 ^ nat p * F_ONE = m * t"
    by (simp add: t_def)
  show ?thesis
    unfolding num s_def [symmetric]
  proof (rule f_nearest_within [OF n(2) s], unfold v_def [symmetric] H_def [symmetric])
    assume le: "v \<le> m * t"
    show "2 * (m * t - v) \<le> H \<and> (odd n \<longrightarrow> 2 * (m * t - v) < H)"
      using mcases
    proof cases
      case 1
      have "m * t - v = t - v mod t"
        using vf 1(1) by (simp add: algebra_simps)
      then show ?thesis
        using 1(2) vf(2) by (auto simp: up_def split: if_splits)
    next
      case 2
      then have "m * t - v = 0"
        using vf by simp
      moreover have "0 < H"
        using s by (simp add: H_def f_gap_eq)
      ultimately show ?thesis by simp
    qed
  next
    assume less: "m * t < v"
    have "m = f \<and> down"
      using mcases
    proof cases
      case 1
      then have "v < m * t"
        using vf by (simp add: algebra_simps)
      then show ?thesis using less by simp
    qed simp
    then have "m = f" down by simp_all
    then have "v - m * t = v mod t"
      using vf by simp
    then show "0 < n \<and> 2 * (v - m * t) \<le> (f_mag n - f_mag (n - 1)) * s \<and>
        (odd n \<longrightarrow> 2 * (v - m * t) < (f_mag n - f_mag (n - 1)) * s)"
      using \<open>down\<close> low n(1) by (auto simp: down_def split: if_splits)
  qed
qed

lemma shortest_exact:
  assumes "1074 \<le> k"
  shows "shortest_at n (- int k) \<noteq> None"
proof -
  have "F_ONE dvd 2 ^ k"
    unfolding F_ONE_def using assms by (rule le_imp_power_dvd)
  moreover have "(10 :: nat) ^ k = 2 ^ k * 5 ^ k"
    by (simp add: power_mult_distrib [symmetric])
  ultimately have "F_ONE dvd f_mag n * 10 ^ k"
    by simp
  then have "4 * f_mag n * 10 ^ k mod (4 * F_ONE) = 0"
    by (simp add: mult.assoc)
  moreover have "0 < f_gap n"
    by (simp add: f_gap_eq)
  ultimately show ?thesis
    unfolding shortest_at_def Let_def by simp
qed

lemma shortest_Some:
  assumes "0 < n"
  obtains m p where "shortest n = Some (m, p)" "shortest_at n p = Some m"
proof -
  have "\<exists>i. List.find (\<lambda>i. shortest_at n (309 - int i) \<noteq> None) [0..<1385] = Some i"
  proof (rule ccontr)
    assume "\<not> ?thesis"
    then have "List.find (\<lambda>i. shortest_at n (309 - int i) \<noteq> None) [0..<1385] = None" by simp
    then have "shortest_at n (309 - int 1384) = None"
      unfolding find_None_iff by (metis atLeastLessThan_iff atLeastLessThan_upt lessI less_imp_le_nat eval_nat_numeral(3) zero_le)
    then show False
      using shortest_exact [of 1075 n] by simp
  qed
  then obtain i where i: "List.find (\<lambda>i. shortest_at n (309 - int i) \<noteq> None) [0..<1385] = Some i" ..
  then have "shortest_at n (309 - int i) \<noteq> None"
    by (auto simp: find_Some_iff)
  then show thesis
    using i by (intro that [of "the (shortest_at n (309 - int i))" "309 - int i"]) (auto simp: shortest_def)
qed

section \<open>Decimal text\<close>

lemma dec_value_simps [simp]: "dec_value [] = 0" "dec_value (bs @ [b]) = dec_value bs * 10 + (unat b - 0x30)"
  by (simp_all add: dec_value_def)

lemma dec_value_dec [simp]: "dec_value (dec n) = n"
proof (induction n rule: dec.induct)
  case (1 n)
  have u: "unat (of_nat (48 + m) :: u8) = 48 + m" if "m < 10" for m
    using that by (intro unat_of_nat_u8) simp
  show ?case
  proof (cases "n < 10")
    case True
    then show ?thesis using u [of n] dec_value_simps(2) [of "[]"] by (simp add: dec.simps [of n] del: of_nat_add)
  next
    case False
    then show ?thesis using 1 u [of "n mod 10"] by (simp add: dec.simps [of n] del: of_nat_add)
  qed
qed

lemma dec_value_zeros [simp]: "dec_value (bs @ replicate k 0x30) = dec_value bs * 10 ^ k"
proof (induction k)
  case (Suc k)
  have "bs @ replicate (Suc k) 0x30 = (bs @ replicate k 0x30) @ [0x30 :: u8]"
    by (simp add: replicate_append_same)
  then show ?case
    unfolding dec_value_simps using Suc by (simp only: dec_value_simps) simp
qed simp

lemma dec_value_leading [simp]: "dec_value (replicate k 0x30 @ bs) = dec_value bs" "dec_value (0x30 # bs) = dec_value bs"
proof -
  have z: "dec_value (replicate k 0x30) = 0" for k
    using dec_value_zeros [of "[]" k] by simp
  have a: "dec_value (cs @ bs) = dec_value bs" if "dec_value cs = 0" for cs
    using that by (induction bs rule: rev_induct) (simp_all add: append_assoc [symmetric] del: append_assoc)
  show "dec_value (replicate k 0x30 @ bs) = dec_value bs" "dec_value (0x30 # bs) = dec_value bs"
    using a [OF z [of k]] a [of "[0x30]"] z [of 1] by simp_all
qed

lemma dec_is_digit: "b \<in> set (dec n) \<Longrightarrow> is_digit b"
  using dec_digits by (auto simp: is_digit_def)

lemma dec_not_Nil [simp]: "dec n \<noteq> []"
  by (subst dec.simps) simp

lemma is_digit_zero [simp]: "is_digit 0x30" "\<not> is_digit 0x2E" "\<not> is_digit 0x2D" "\<not> is_digit 0x2B"
  by (simp_all add: is_digit_def within_def)

text \<open>Text of digits, with or without a point, as a fraction.\<close>

lemma parse_sign_digit: "s \<noteq> [] \<Longrightarrow> is_digit (hd s) \<Longrightarrow> parse_sign s = (False, s)"
  by (cases s) (auto simp: parse_sign_def)

lemma parse_f64_point:
  assumes "ds \<noteq> []" "\<forall>b \<in> set (ds @ es). is_digit b" and sg: "sg = [] \<or> sg = [0x2D]"
  shows "parse_f64 (sg @ ds @ (if es = [] then [] else 0x2E # es)) =
      Some (f_make (sg = [0x2D]) (f_nearest (dec_value (ds @ es) * F_ONE) (10 ^ length es)))"
proof -
  have d: "is_digit (hd ds)" "\<forall>b \<in> set ds. is_digit b" "\<forall>b \<in> set es. is_digit b"
    using assms by auto
  have p: "parse_sign (sg @ ds @ xs) = (sg = [0x2D], ds @ xs)" for xs
  proof (cases "sg = []")
    case True
    then show ?thesis using parse_sign_digit [of "ds @ xs"] d(1) assms(1) by simp
  next
    case False
    then show ?thesis using sg by (simp add: parse_sign_def)
  qed
  have t: "takeWhile is_digit (ds @ xs) = ds" "dropWhile is_digit (ds @ xs) = xs" if "xs = [] \<or> \<not> is_digit (hd xs)" for xs
    using that d(2) by (cases xs; simp add: takeWhile_append2 dropWhile_append2 takeWhile_eq_all_conv dropWhile_eq_Nil_conv)+
  have td: "takeWhile is_digit ds = ds" "dropWhile is_digit ds = []"
    using d(2) by (simp_all add: takeWhile_eq_all_conv dropWhile_eq_Nil_conv)
  have e: "takeWhile is_digit es = es" "dropWhile is_digit es = []"
    using d(3) by (simp_all add: takeWhile_eq_all_conv dropWhile_eq_Nil_conv)
  show ?thesis
    using assms(1) td t [of "0x2E # es"]
    by (simp add: parse_f64_def p e td parse_exponent_def Let_def)
qed

lemma parse_positional:
  assumes "sg = [] \<or> sg = [0x2D]"
  shows "parse_f64 (sg @ positional m p) =
    Some (f_make (sg = [0x2D]) (f_nearest (m * 10 ^ nat p * F_ONE) (10 ^ nat (- p))))"
proof (cases "0 \<le> p")
  case True
  have "\<forall>b \<in> set ((dec m @ replicate (nat p) 0x30) @ []). is_digit b"
    by (auto simp: dec_is_digit)
  from parse_f64_point [OF _ this assms] show ?thesis
    using True by (simp add: positional_def)
next
  case False
  define k where "k = nat (- p)"
  have k: "0 < k" "nat p = 0"
    using False by (simp_all add: k_def)
  show ?thesis
  proof (cases "length (dec m) \<le> k")
    case True
    have "\<forall>b \<in> set ([0x30] @ (replicate (k - length (dec m)) 0x30 @ dec m)). is_digit b"
      by (auto simp: dec_is_digit)
    from parse_f64_point [OF _ this assms] show ?thesis
      using False True k by (simp add: positional_def k_def [symmetric] Let_def)
  next
    case neg: False
    define i where "i = length (dec m) - k"
    have "take i (dec m) \<noteq> []" "drop i (dec m) \<noteq> []" "length (drop i (dec m)) = k"
      using neg k by (simp_all add: i_def)
    moreover have "\<forall>b \<in> set (take i (dec m) @ drop i (dec m)). is_digit b"
      by (simp add: dec_is_digit)
    ultimately show ?thesis
      using False neg k parse_f64_point [OF _ _ assms, of "take i (dec m)" "drop i (dec m)"]
      by (simp add: positional_def k_def [symmetric] Let_def i_def [symmetric])
  qed
qed

section \<open>Round trips\<close>

lemma unat_lt_f64: "unat (b :: f64) < 2 ^ 64"
  using unsigned_less [of b] by simp

lemma f_make_parts [simp]: "f_make (f_neg b) (f_rank b) = b"
proof -
  have "f_rank b + (if f_neg b then 2 ^ 63 else 0) = unat b"
    using unat_lt_f64 [of b] div_mult_mod_eq [of "unat b" "2 ^ 63"] mod_less [of "unat b" "2 ^ 63"]
      le_mod_geq [of "2 ^ 63" "unat b"] mod_less [of "unat b - 2 ^ 63" "2 ^ 63"]
    by (auto simp: f_rank_def f_neg_def not_le)
  then show ?thesis
    by (simp add: f_make_def)
qed

theorem display_parse:
  assumes "is_finite b" "f_rank b \<noteq> 0"
  shows "parse_f64 (display_f64 b) = Some b"
proof -
  obtain m p where s: "shortest (f_rank b) = Some (m, p)" "shortest_at (f_rank b) p = Some m"
    using assms(2) by (metis shortest_Some neq0_conv)
  have "f_nearest (m * 10 ^ nat p * F_ONE) (10 ^ nat (- p)) = f_rank b"
    using assms s(2) by (intro shortest_at_near) (simp_all add: is_finite_def)
  then show ?thesis
    using parse_positional [of "if f_neg b then [0x2D] else []" m p] f_make_parts [of b]
    by (cases "f_neg b") (simp_all add: display_f64_def s(1) del: f_make_parts)
qed

theorem display_i64_parse:
  assumes "fract_zero b" "f_rank b \<noteq> 0" "f_mag (f_rank b) div F_ONE < 2 ^ 63"
  shows "parse_f64 (display_i64 (as_i64 b)) = Some b"
proof -
  define m where "m = f_mag (f_rank b) div F_ONE"
  have m: "f_mag (f_rank b) = m * F_ONE"
    using assms(1) by (simp add: m_def fract_zero_def)
  have "f_mag (f_rank b) \<noteq> 0"
    using f_mag_mono [of 0 "f_rank b"] assms(2) by simp
  then have pos: "0 < m"
    using m by (cases m) auto
  have i: "as_i64 b = (if f_neg b then - int m else int m)"
    using assms(3) by (simp add: as_i64_def Let_def m_def [symmetric])
  have near: "f_nearest (m * F_ONE) 1 = f_rank b"
    using f_nearest_exact [of "f_rank b" 1] assms(1) m by (simp add: fract_zero_def is_finite_def)
  have "display_i64 (as_i64 b) = (if f_neg b then [0x2D] else []) @ positional m 0"
    using pos by (simp add: display_i64_def i positional_def)
  then show ?thesis
    using parse_positional [of "if f_neg b then [0x2D] else []" m 0] near f_make_parts [of b]
    by (cases "f_neg b") (simp_all del: f_make_parts)
qed

text \<open>Whole numbers up to \<open>2\<^sup>5\<^sup>3\<close> have a pattern of their own.\<close>

lemma whole_rank:
  assumes "0 < i" "i < 2 ^ 53"
  obtains n where "f_mag n = i * F_ONE" "n < F_INF" "0 < n"
proof -
  obtain e where e: "2 ^ e \<le> i" "i < 2 ^ Suc e"
    using ex_power_ivl1 [of 2 i] assms(1) by auto
  have "e < 53"
    using e(1) assms(2) power_strict_increasing_iff [of "2 :: nat" e 53] by linarith
  define m where "m = i * 2 ^ (52 - e) - 2 ^ 52"
  have p: "(2 :: nat) ^ e * 2 ^ (52 - e) = 2 ^ 52" "(2 :: nat) ^ Suc e * 2 ^ (52 - e) = 2 ^ 53"
    using \<open>e < 53\<close> unfolding power_add [symmetric] by simp_all
  have ge: "2 ^ 52 \<le> i * 2 ^ (52 - e)"
    using mult_le_mono1 [OF e(1), of "2 ^ (52 - e)"] unfolding p .
  have lt: "i * 2 ^ (52 - e) < 2 ^ 53"
    using mult_less_mono1 [OF e(2), of "2 ^ (52 - e)"] unfolding p by simp
  have m: "m < 2 ^ 52" "2 ^ 52 + m = i * 2 ^ (52 - e)"
    using ge lt by (simp_all add: m_def)
  have "f_mag ((1022 + e + 1) * 2 ^ 52 + m) = (2 ^ 52 + m) * 2 ^ (1022 + e)"
    by (rule f_mag_parts [OF m(1)])
  also have "\<dots> = i * (2 ^ (52 - e) * 2 ^ (1022 + e))"
    unfolding m(2) by (rule mult.assoc)
  also have "(2 :: nat) ^ (52 - e) * 2 ^ (1022 + e) = F_ONE"
    using \<open>e < 53\<close> unfolding power_add [symmetric] F_ONE_def by simp
  finally have mag: "f_mag ((1022 + e + 1) * 2 ^ 52 + m) = i * F_ONE" .
  have "(1022 + e + 1) * 2 ^ 52 + m < F_INF"
    using m(1) \<open>e < 53\<close> by (simp add: F_INF_def)
  then show thesis
    by (rule that [OF mag]) simp
qed

lemma unat_f_make: "n < 2 ^ 63 \<Longrightarrow> unat (f_make neg n) = n + (if neg then 2 ^ 63 else 0)"
  unfolding f_make_def by (cases neg) (simp_all add: unsigned_of_nat take_bit_nat_eq_self del: of_nat_add)

lemma f_make_fields [simp]:
  assumes "n < F_INF"
  shows "f_rank (f_make neg n) = n" "f_neg (f_make neg n) = neg" "is_finite (f_make neg n)"
proof -
  have n: "n < 2 ^ 63"
    using assms by (simp add: F_INF_def)
  then show r: "f_rank (f_make neg n) = n"
    unfolding f_rank_def unat_f_make [OF n] by (cases neg) simp_all
  show "f_neg (f_make neg n) = neg"
    using n unfolding f_neg_def unat_f_make [OF n] by (cases neg) simp_all
  show "is_finite (f_make neg n)"
    unfolding is_finite_def r by (rule assms)
qed

lemma from_i64_fields:
  assumes "\<bar>i\<bar> < 2 ^ 53"
  shows "is_finite (f64_from_i64 i)" "fract_zero (f64_from_i64 i)" "as_i64 (f64_from_i64 i) = i"
    "f_mag (f_rank (f64_from_i64 i)) = nat \<bar>i\<bar> * F_ONE" "f_rank (f64_from_i64 i) = 0 \<Longrightarrow> f64_from_i64 i = 0"
proof -
  have "\<exists>n. f_mag n = nat \<bar>i\<bar> * F_ONE \<and> n < F_INF \<and> (i = 0 \<longleftrightarrow> n = 0)"
  proof (cases "i = 0")
    case True
    then show ?thesis by (intro exI [of _ 0]) (simp add: f_mag_def F_INF_def)
  next
    case False
    then show ?thesis using whole_rank [of "nat \<bar>i\<bar>"] assms by (metis nat_less_iff abs_ge_zero neq0_conv zero_less_abs_iff zero_less_nat_eq nat_int of_nat_power of_nat_numeral)
  qed
  then obtain n where n: "f_mag n = nat \<bar>i\<bar> * F_ONE" "n < F_INF" "i = 0 \<longleftrightarrow> n = 0"
    by blast
  have eq: "f64_from_i64 i = f_make (i < 0) n"
    using f_nearest_exact [of n 1] n by (simp add: f64_from_i64_def)
  have pos: "0 < F_ONE"
    by (simp add: F_ONE_def)
  show "is_finite (f64_from_i64 i)" "f_mag (f_rank (f64_from_i64 i)) = nat \<bar>i\<bar> * F_ONE" "fract_zero (f64_from_i64 i)"
    using n by (simp_all add: eq fract_zero_def)
  show "as_i64 (f64_from_i64 i) = i"
    using n assms pos by (simp add: eq as_i64_def Let_def max_def min_def) linarith
  show "f_rank (f64_from_i64 i) = 0 \<Longrightarrow> f64_from_i64 i = 0"
  proof -
    assume "f_rank (f64_from_i64 i) = 0"
    then have "n = 0" using n(2) by (simp add: eq)
    then show ?thesis using n(3) unfolding eq by (simp add: f_make_def)
  qed
qed

end
