(* ===== verification/Json.thy ===== *)
theory Json
  imports Float64 Utf8
begin

text \<open>
  The JSON reader and writer of \<open>crates/marspot-peer/src/json.rs\<close>.  Text is a string, the parser runs
  on its bytes with a position, and an error is its message and the position it names.  The
  recursion of \<open>Parser::value\<close> is on the nesting that is left; the loops of \<open>object\<close> and \<open>array\<close> take
  the parser of a nested value as an argument.
\<close>

section \<open>Values\<close>

datatype json =
    JNull
  | JBool bool
  | JNum f64
  | JStr ustring
  | JArr "json list"
  | JObj "(ustring \<times> json) list"

definition lit :: "string \<Rightarrow> ustring" where
  "lit s = map of_char s"

definition json_get :: "json \<Rightarrow> ustring \<Rightarrow> json option" where
  "json_get v key =
     (case v of JObj kv \<Rightarrow> map_option snd (List.find (\<lambda>(k, _). k = key) kv) | _ \<Rightarrow> None)"

fun json_at :: "json \<Rightarrow> ustring list \<Rightarrow> json option" where
  "json_at v [] = Some v"
| "json_at v (k # path) = (case json_get v k of None \<Rightarrow> None | Some v' \<Rightarrow> json_at v' path)"

definition json_str :: "json \<Rightarrow> ustring option" where
  "json_str v = (case v of JStr s \<Rightarrow> Some s | _ \<Rightarrow> None)"

definition json_arr :: "json \<Rightarrow> json list" where
  "json_arr v = (case v of JArr a \<Rightarrow> a | _ \<Rightarrow> [])"

definition json_bool :: "json \<Rightarrow> bool option" where
  "json_bool v = (case v of JBool b \<Rightarrow> Some b | _ \<Rightarrow> None)"

definition json_i64 :: "json \<Rightarrow> int option" where
  "json_i64 v = (case v of JNum n \<Rightarrow> if fract_zero n then Some (as_i64 n) else None | _ \<Rightarrow> None)"

definition json_str_at :: "json \<Rightarrow> ustring \<Rightarrow> ustring option" where
  "json_str_at v key = Option.bind (json_get v key) json_str"

fun kv_set :: "ustring \<Rightarrow> json \<Rightarrow> (ustring \<times> json) list \<Rightarrow> (ustring \<times> json) list" where
  "kv_set key v [] = [(key, v)]"
| "kv_set key v ((k, old) # kv) = (if k = key then (k, v) # kv else (k, old) # kv_set key v kv)"

definition json_set :: "json \<Rightarrow> ustring \<Rightarrow> json \<Rightarrow> json" where
  "json_set v key x = (case v of JObj kv \<Rightarrow> JObj (kv_set key x kv) | _ \<Rightarrow> v)"

definition json_obj :: "(string \<times> json) list \<Rightarrow> json" where
  "json_obj kv = JObj (map (\<lambda>(k, v). (lit k, v)) kv)"

definition json_int :: "int \<Rightarrow> json" where
  "json_int n = JNum (f64_from_i64 n)"

section \<open>Writing\<close>

definition ascii_text :: "u8 list \<Rightarrow> ustring" where
  "ascii_text bs = map unat bs"

definition write_num :: "f64 \<Rightarrow> ustring" where
  "write_num n =
     (if \<not> is_finite n then lit ''null''
      else if fract_zero n \<and> f_mag (f_rank n) < 9007199254740992 * F_ONE
      then ascii_text (display_i64 (as_i64 n))
      else ascii_text (display_f64 n))"

text \<open>\<open>{:04x}\<close> of a number below 32.\<close>

definition hex_digit :: "nat \<Rightarrow> nat" where
  "hex_digit n = (if n < 10 then 0x30 + n else 0x57 + n)"

definition write_char :: "uchar \<Rightarrow> ustring" where
  "write_char c =
     (if c = 0x22 then [0x5C, 0x22]
      else if c = 0x5C then [0x5C, 0x5C]
      else if c = 0x0A then [0x5C, 0x6E]
      else if c = 0x0D then [0x5C, 0x72]
      else if c = 0x09 then [0x5C, 0x74]
      else if c < 0x20 then [0x5C, 0x75, 0x30, 0x30, hex_digit (c div 16), hex_digit (c mod 16)]
      else [c])"

definition write_str :: "ustring \<Rightarrow> ustring" where
  "write_str s = [0x22] @ concat (map write_char s) @ [0x22]"

fun comma_sep :: "ustring list \<Rightarrow> ustring" where
  "comma_sep [] = []"
| "comma_sep [x] = x"
| "comma_sep (x # y # zs) = x @ [0x2C] @ comma_sep (y # zs)"

fun to_json :: "json \<Rightarrow> ustring" where
  "to_json JNull = lit ''null''"
| "to_json (JBool b) = (if b then lit ''true'' else lit ''false'')"
| "to_json (JNum n) = write_num n"
| "to_json (JStr s) = write_str s"
| "to_json (JArr a) = [0x5B] @ comma_sep (map to_json a) @ [0x5D]"
| "to_json (JObj kv) = [0x7B] @ comma_sep (map (\<lambda>(k, v). write_str k @ [0x3A] @ to_json v) kv) @ [0x7D]"

section \<open>Parsing\<close>

text \<open>An error is its message and the byte it names; the messages are constructors here.\<close>

datatype json_message =
    TooDeep | UnexpectedEnd | UnexpectedByte | ExpectedKey | ExpectedColon | ExpectedObjectSep
  | ExpectedArraySep | BadNumber | ShortEscape | BadUnicode | UnterminatedString
  | UnterminatedEscape | BadEscape | InvalidUtf8 | TrailingBytes

type_synonym json_error = "json_message \<times> nat"

definition byte_at :: "u8 list \<Rightarrow> nat \<Rightarrow> u8 option" where
  "byte_at b at = (if at < length b then Some (b ! at) else None)"

definition is_ws :: "u8 \<Rightarrow> bool" where
  "is_ws c \<longleftrightarrow> c = 0x20 \<or> c = 0x09 \<or> c = 0x0A \<or> c = 0x0D"

definition ws :: "u8 list \<Rightarrow> nat \<Rightarrow> nat" where
  "ws b at = at + length (takeWhile is_ws (drop at b))"

definition eat :: "u8 list \<Rightarrow> u8 list \<Rightarrow> nat \<Rightarrow> nat option" where
  "eat b l at = (if take (length l) (drop at b) = l then Some (at + length l) else None)"

definition number_byte :: "u8 \<Rightarrow> bool" where
  "number_byte c \<longleftrightarrow> c = 0x2D \<or> c = 0x2B \<or> c = 0x2E \<or> c = 0x65 \<or> c = 0x45 \<or> is_digit c"

definition json_number :: "u8 list \<Rightarrow> nat \<Rightarrow> json_error + (json \<times> nat)" where
  "json_number b at =
     (let s = takeWhile number_byte (drop at b); at1 = at + length s
      in case parse_f64 s of
           None \<Rightarrow> Inl (BadNumber, at1)
         | Some n \<Rightarrow> Inr (JNum n, at1))"

definition hex_value :: "u8 \<Rightarrow> nat option" where
  "hex_value c =
     (if is_digit c then Some (unat c - 0x30)
      else if within 0x61 0x66 c then Some (unat c - 0x57)
      else if within 0x41 0x46 c then Some (unat c - 0x37)
      else None)"

text \<open>\<open>u32::from_str_radix(_, 16)\<close> on at most four bytes: a leading plus is allowed.\<close>

fun hex_digits :: "nat \<Rightarrow> u8 list \<Rightarrow> nat option" where
  "hex_digits n [] = Some n"
| "hex_digits n (c # cs) = (case hex_value c of None \<Rightarrow> None | Some d \<Rightarrow> hex_digits (n * 16 + d) cs)"

definition from_str_radix16 :: "u8 list \<Rightarrow> nat option" where
  "from_str_radix16 s =
     (let ds = (case s of c # cs \<Rightarrow> if c = 0x2B then cs else s | [] \<Rightarrow> s)
      in if ds = [] then None else hex_digits 0 ds)"

definition hex4 :: "u8 list \<Rightarrow> nat \<Rightarrow> json_error + (nat \<times> nat)" where
  "hex4 b at =
     (if length b < at + 4 then Inl (ShortEscape, at)
      else case from_str_radix16 (take 4 (drop at b)) of
             None \<Rightarrow> Inl (BadUnicode, at)
           | Some n \<Rightarrow> Inr (n, at + 4))"

text \<open>\<open>char::from_u32(cp).unwrap_or('\u{FFFD}')\<close>\<close>

definition char_or_replacement :: "nat \<Rightarrow> uchar" where
  "char_or_replacement cp = (if is_scalar cp then cp else REPLACEMENT_CHAR)"

definition unicode_escape :: "u8 list \<Rightarrow> nat \<Rightarrow> json_error + (uchar \<times> nat)" where
  "unicode_escape b at =
     (case hex4 b at of
        Inl e \<Rightarrow> Inl e
      | Inr (hi, at1) \<Rightarrow>
          if 0xD800 \<le> hi \<and> hi < 0xDC00
          then case eat b [0x5C, 0x75] at1 of
                 None \<Rightarrow> Inr (char_or_replacement hi, at1)
               | Some at2 \<Rightarrow>
                   (case hex4 b at2 of
                      Inl e \<Rightarrow> Inl e
                    | Inr (lo, at3) \<Rightarrow>
                        Inr (char_or_replacement
                               (if 0xDC00 \<le> lo \<and> lo < 0xE000
                                then 0x10000 + (hi - 0xD800) * 1024 + (lo - 0xDC00) else 0xFFFD), at3))
          else Inr (char_or_replacement hi, at1))"

text \<open>What follows a backslash.\<close>

definition simple_escape :: "u8 \<Rightarrow> uchar option" where
  "simple_escape c =
     (if c = 0x22 \<or> c = 0x5C \<or> c = 0x2F then Some (unat c)
      else if c = 0x62 then Some 0x08
      else if c = 0x66 then Some 0x0C
      else if c = 0x6E then Some 0x0A
      else if c = 0x72 then Some 0x0D
      else if c = 0x74 then Some 0x09
      else None)"

definition json_escape :: "u8 list \<Rightarrow> nat \<Rightarrow> json_error + (uchar \<times> nat)" where
  "json_escape b at =
     (case byte_at b at of
        None \<Rightarrow> Inl (UnterminatedEscape, at)
      | Some c \<Rightarrow>
          (case simple_escape c of
             Some c' \<Rightarrow> Inr (c', at + 1)
           | None \<Rightarrow> if c = 0x75 then unicode_escape b (at + 1) else Inl (BadEscape, at + 1)))"

definition plain_byte :: "u8 \<Rightarrow> bool" where
  "plain_byte c \<longleftrightarrow> c \<noteq> 0x22 \<and> c \<noteq> 0x5C"

lemma hex4_at: "hex4 b at = Inr (n, at') \<Longrightarrow> at' = at + 4 \<and> at' \<le> length b"
  by (auto simp: hex4_def split: if_splits option.splits)

lemma eat_at:
  assumes "eat b l at = Some at'" "l \<noteq> []"
  shows "at' = at + length l \<and> at' \<le> length b"
proof -
  have t: "take (length l) (drop at b) = l" "at' = at + length l"
    using assms(1) by (auto simp: eat_def split: if_splits)
  have "min (length b - at) (length l) = length l"
    using arg_cong [OF t(1), of length] by simp
  moreover have "0 < length l"
    using assms(2) by simp
  ultimately show ?thesis
    using t(2) by linarith
qed

lemma unicode_escape_at:
  assumes "unicode_escape b at = Inr (c, at')"
  shows "at < at' \<and> at' \<le> length b"
proof (cases "hex4 b at")
  case (Inl e)
  then show ?thesis using assms by (simp add: unicode_escape_def)
next
  case (Inr x)
  then obtain hi where h: "hex4 b at = Inr (hi, at + 4)" "at + 4 \<le> length b"
    using hex4_at by (cases x) blast
  show ?thesis
  proof (cases "eat b [0x5C, 0x75] (at + 4)")
    case None
    then show ?thesis using assms h by (simp add: unicode_escape_def split: if_splits)
  next
    case (Some at2)
    then have e: "at2 = at + 6"
      using eat_at [OF Some] by simp
    show ?thesis
    proof (cases "hex4 b at2")
      case (Inl e)
      then show ?thesis using assms h Some by (simp add: unicode_escape_def split: if_splits)
    next
      case (Inr y)
      then obtain lo where "hex4 b at2 = Inr (lo, at2 + 4)" "at2 + 4 \<le> length b"
        using hex4_at by (cases y) blast
      then show ?thesis using assms h Some e by (simp add: unicode_escape_def split: if_splits)
    qed
  qed
qed

lemma json_escape_at: "json_escape b at = Inr (c, at') \<Longrightarrow> at < at' \<and> at' \<le> length b"
  by (auto simp: json_escape_def byte_at_def dest!: unicode_escape_at split: if_splits option.splits)

function string_loop :: "u8 list \<Rightarrow> nat \<Rightarrow> u8 list \<Rightarrow> json_error + (u8 list \<times> nat)" where
  "string_loop b at out =
     (let run = takeWhile plain_byte (drop at b); at1 = at + length run
      in case byte_at b at1 of
           None \<Rightarrow> Inl (UnterminatedString, at)
         | Some c \<Rightarrow>
             if c = 0x22 then Inr (out @ run, at1 + 1)
             else (case json_escape b (at1 + 1) of
                     Inl e \<Rightarrow> Inl e
                   | Inr (c', at2) \<Rightarrow> string_loop b at2 (out @ run @ encode_utf8 c')))"
  by pat_completeness auto
termination
  by (relation "measure (\<lambda>(b, at, out). length b - at)") (auto dest!: json_escape_at simp: byte_at_def split: if_splits)

declare string_loop.simps [simp del]

definition json_string :: "u8 list \<Rightarrow> nat \<Rightarrow> json_error + (ustring \<times> nat)" where
  "json_string b at =
     (case string_loop b (at + 1) [] of
        Inl e \<Rightarrow> Inl e
      | Inr (out, at1) \<Rightarrow>
          (case from_utf8 out of None \<Rightarrow> Inl (InvalidUtf8, at1) | Some s \<Rightarrow> Inr (s, at1)))"

type_synonym value_parser = "u8 list \<Rightarrow> nat \<Rightarrow> (json_error + (json \<times> nat)) option"

partial_function (option) array_loop ::
  "value_parser \<Rightarrow> u8 list \<Rightarrow> nat \<Rightarrow> json list \<Rightarrow> (json_error + (json \<times> nat)) option" where
  "array_loop val b at out =
     (case val b at of
        None \<Rightarrow> None
      | Some (Inl e) \<Rightarrow> Some (Inl e)
      | Some (Inr (v, at1)) \<Rightarrow>
          let at2 = ws b at1
          in case eat b [0x2C] at2 of
               Some at3 \<Rightarrow> array_loop val b at3 (out @ [v])
             | None \<Rightarrow>
                 (case eat b [0x5D] at2 of
                    Some at3 \<Rightarrow> Some (Inr (JArr (out @ [v]), at3))
                  | None \<Rightarrow> Some (Inl (ExpectedArraySep, at2))))"

definition json_array :: "value_parser \<Rightarrow> u8 list \<Rightarrow> nat \<Rightarrow> (json_error + (json \<times> nat)) option" where
  "json_array val b at =
     (let at1 = ws b (at + 1)
      in case eat b [0x5D] at1 of
           Some at2 \<Rightarrow> Some (Inr (JArr [], at2))
         | None \<Rightarrow> array_loop val b at1 [])"

partial_function (option) object_loop ::
  "value_parser \<Rightarrow> u8 list \<Rightarrow> nat \<Rightarrow> (ustring \<times> json) list \<Rightarrow> (json_error + (json \<times> nat)) option" where
  "object_loop val b at kv =
     (let at1 = ws b at
      in if byte_at b at1 \<noteq> Some 0x22 then Some (Inl (ExpectedKey, at1))
         else case json_string b at1 of
                Inl e \<Rightarrow> Some (Inl e)
              | Inr (k, at2) \<Rightarrow>
                  let at3 = ws b at2
                  in case eat b [0x3A] at3 of
                       None \<Rightarrow> Some (Inl (ExpectedColon, at3))
                     | Some at4 \<Rightarrow>
                         (case val b at4 of
                            None \<Rightarrow> None
                          | Some (Inl e) \<Rightarrow> Some (Inl e)
                          | Some (Inr (v, at5)) \<Rightarrow>
                              let at6 = ws b at5
                              in case eat b [0x2C] at6 of
                                   Some at7 \<Rightarrow> object_loop val b at7 (kv @ [(k, v)])
                                 | None \<Rightarrow>
                                     (case eat b [0x7D] at6 of
                                        Some at7 \<Rightarrow> Some (Inr (JObj (kv @ [(k, v)]), at7))
                                      | None \<Rightarrow> Some (Inl (ExpectedObjectSep, at6)))))"

definition json_object :: "value_parser \<Rightarrow> u8 list \<Rightarrow> nat \<Rightarrow> (json_error + (json \<times> nat)) option" where
  "json_object val b at =
     (let at1 = ws b (at + 1)
      in case eat b [0x7D] at1 of
           Some at2 \<Rightarrow> Some (Inr (JObj [], at2))
         | None \<Rightarrow> object_loop val b at1 [])"

definition MAX_DEPTH :: nat where
  "MAX_DEPTH = 128"

text \<open>\<open>json_value left\<close> is \<open>Parser::value(depth)\<close> with \<open>left = MAX_DEPTH + 1 - depth\<close>.\<close>

primrec json_value :: "nat \<Rightarrow> value_parser" where
  "json_value 0 = (\<lambda>b at. Some (Inl (TooDeep, at)))"
| "json_value (Suc left) = (\<lambda>b at.
     let at1 = ws b at
     in case byte_at b at1 of
          None \<Rightarrow> Some (Inl (UnexpectedEnd, at1))
        | Some c \<Rightarrow>
            if c = 0x7B then json_object (json_value left) b at1
            else if c = 0x5B then json_array (json_value left) b at1
            else if c = 0x22 then
              Some (case json_string b at1 of Inl e \<Rightarrow> Inl e | Inr (s, at2) \<Rightarrow> Inr (JStr s, at2))
            else if c = 0x74 \<and> eat b [0x74, 0x72, 0x75, 0x65] at1 \<noteq> None then Some (Inr (JBool True, at1 + 4))
            else if c = 0x66 \<and> eat b [0x66, 0x61, 0x6C, 0x73, 0x65] at1 \<noteq> None then Some (Inr (JBool False, at1 + 5))
            else if c = 0x6E \<and> eat b [0x6E, 0x75, 0x6C, 0x6C] at1 \<noteq> None then Some (Inr (JNull, at1 + 4))
            else if c = 0x2D \<or> is_digit c then Some (json_number b at1)
            else Some (Inl (UnexpectedByte, at1)))"

definition json_parse :: "ustring \<Rightarrow> (json_error + json) option" where
  "json_parse text =
     (let b = as_bytes text
      in case json_value (MAX_DEPTH + 1) b 0 of
           None \<Rightarrow> None
         | Some (Inl e) \<Rightarrow> Some (Inl e)
         | Some (Inr (v, at)) \<Rightarrow>
             let at1 = ws b at
             in if at1 \<noteq> length b then Some (Inl (TrailingBytes, at1)) else Some (Inr v))"

end
