(* ===== verification/JsonProps.thy ===== *)
theory JsonProps
  imports Json
begin

text \<open>
  What \<open>Json\<close> guarantees: the parser always returns, what it returns is well formed and no deeper than
  its limit, and what is written reads back.
\<close>

section \<open>Positions\<close>

lemma byte_at_drop: "byte_at b at = (case drop at b of [] \<Rightarrow> None | c # _ \<Rightarrow> Some c)"
  by (cases "at < length b") (simp_all add: byte_at_def Cons_nth_drop_Suc [symmetric])

lemma drop_step: "drop at b = xs @ ys \<Longrightarrow> drop (at + length xs) b = ys"
  by (metis add.commute append_eq_conv_conj drop_drop)

lemma ws_at: "ws b at = at + length (takeWhile is_ws (drop at b))"
  by (rule ws_def)

lemma ws_stay: "drop at b = [] \<or> \<not> is_ws (hd (drop at b)) \<Longrightarrow> ws b at = at"
  by (cases "drop at b") (auto simp: ws_def)

lemma ws_le: "at \<le> length b \<Longrightarrow> at \<le> ws b at \<and> ws b at \<le> length b"
  using length_takeWhile_le [of is_ws "drop at b"] by (simp add: ws_def)

lemma eat_drop: "drop at b = l @ ys \<Longrightarrow> eat b l at = Some (at + length l)"
  by (simp add: eat_def)

lemma eat_other: "drop at b = ys \<Longrightarrow> take (length l) ys \<noteq> l \<Longrightarrow> eat b l at = None"
  by (simp add: eat_def)

section \<open>Strings\<close>

lemma encode_utf8_high:
  assumes "is_scalar c" "0x80 \<le> c" "x \<in> set (encode_utf8 c)"
  shows "0x80 \<le> unat x"
proof -
  have c: "c \<le> 0x10FFFF"
    using assms(1) by (auto simp: is_scalar_def)
  have u: "unat (of_nat (k + n) :: u8) = k + n" if "k + n < 256" for k n
    using that by (intro unat_of_nat_u8)
  have "c div 64 < 32" if "c < 0x800" using that by (simp add: less_mult_imp_div_less)
  moreover have "c div 4096 < 16" if "c < 0x10000" using that by (simp add: less_mult_imp_div_less)
  moreover have "c div 262144 < 5" using c by (simp add: less_mult_imp_div_less)
  ultimately show ?thesis
    using assms(2,3) u [of "0x80"] u [of "0xC0"] u [of "0xE0"] u [of "0xF0"]
    by (auto simp: encode_utf8_def simp del: of_nat_add split: if_splits)
qed

lemma plain_encode:
  assumes "is_scalar c" "c \<noteq> 0x22" "c \<noteq> 0x5C" "x \<in> set (encode_utf8 c)"
  shows "plain_byte x"
proof (cases "c < 0x80")
  case True
  then have "unat x = c"
    using assms(4) by (simp add: encode_utf8_def)
  then show ?thesis
    using assms(2,3) by (auto simp: plain_byte_def)
next
  case False
  then have "0x80 \<le> unat x"
    using encode_utf8_high [OF assms(1) _ assms(4)] by simp
  then show ?thesis
    by (auto simp: plain_byte_def)
qed

lemma string_loop_plain:
  assumes "drop at b = xs @ ys" "\<forall>x \<in> set xs. plain_byte x" "string_loop b (at + length xs) (out @ xs) = Inr r"
  shows "string_loop b at out = Inr r"
proof -
  have d: "drop (at + length xs) b = ys"
    using assms(1) by (rule drop_step)
  have t: "takeWhile plain_byte (drop at b) = xs @ takeWhile plain_byte ys"
    using assms(1,2) by (simp add: takeWhile_append2)
  show ?thesis
    using assms(3) unfolding string_loop.simps [of b at] string_loop.simps [of b "at + length xs"] t d Let_def
    by (auto simp: add.assoc split: option.splits sum.splits)
qed

lemma string_loop_escape:
  assumes "drop at b = 0x5C # es @ ys" "json_escape b (at + 1) = Inr (c, at + 1 + length es)"
    "string_loop b (at + 1 + length es) (out @ encode_utf8 c) = Inr r"
  shows "string_loop b at out = Inr r"
proof -
  have "byte_at b at = Some 0x5C" "takeWhile plain_byte (drop at b) = []"
    using assms(1) by (simp_all add: byte_at_drop plain_byte_def)
  then show ?thesis
    using assms(2,3) by (subst string_loop.simps) simp
qed

lemma string_loop_end:
  assumes "drop at b = 0x22 # ys"
  shows "string_loop b at out = Inr (out, at + 1)"
proof -
  have "byte_at b at = Some 0x22" "takeWhile plain_byte (drop at b) = []"
    using assms(1) by (simp_all add: byte_at_drop plain_byte_def)
  then show ?thesis
    by (subst string_loop.simps) simp
qed

lemma small_16: "n < 16 \<Longrightarrow> n \<in> set [0..<16]"
  by simp

lemma hex_digit_facts:
  assumes "n < 16"
  shows "hex_digit n < 0x80" "hex_value (of_nat (hex_digit n)) = Some n"
proof -
  have "\<forall>n \<in> set [0..<16]. hex_digit n < 0x80 \<and> hex_value (of_nat (hex_digit n)) = Some n"
    by code_simp
  then show "hex_digit n < 0x80" "hex_value (of_nat (hex_digit n)) = Some n"
    using assms by auto
qed

lemma encode_ascii: "c < 0x80 \<Longrightarrow> encode_utf8 c = [of_nat c]"
  by (simp add: encode_utf8_def)

lemma as_bytes_ascii: "\<forall>c \<in> set s. c < 0x80 \<Longrightarrow> as_bytes s = map of_nat s"
  by (induction s) (simp_all add: encode_ascii)

text \<open>A written character is either plain or an escape for itself.\<close>

lemma json_escape_simple:
  "drop at b = x # ys \<Longrightarrow> simple_escape x = Some c \<Longrightarrow> json_escape b at = Inr (c, at + 1)"
  by (simp add: json_escape_def byte_at_drop)

lemma hex4_control:
  assumes "drop at b = [0x30, 0x30, of_nat (hex_digit h), of_nat (hex_digit l)] @ ys" "h < 16" "l < 16"
  shows "hex4 b at = Inr (h * 16 + l, at + 4)"
proof -
  have "4 \<le> length (drop at b)"
    unfolding assms(1) by simp
  then have len: "\<not> length b < at + 4"
    by simp
  have z: "hex_value 0x30 = Some 0"
    by (simp add: hex_value_def is_digit_def within_def)
  have "from_str_radix16 (take 4 (drop at b)) = Some (h * 16 + l)"
    using hex_digit_facts [OF assms(2)] hex_digit_facts [OF assms(3)] z
    by (simp add: assms(1) from_str_radix16_def)
  then show ?thesis
    using len by (simp add: hex4_def)
qed

lemma json_escape_control:
  assumes "drop at b = [0x75, 0x30, 0x30, of_nat (hex_digit (c div 16)), of_nat (hex_digit (c mod 16))] @ ys" "c < 0x20"
  shows "json_escape b at = Inr (c, at + 5)"
proof -
  have "drop (at + 1) b = [0x30, 0x30, of_nat (hex_digit (c div 16)), of_nat (hex_digit (c mod 16))] @ ys"
    using drop_step [of at b "[0x75]"] assms(1) by simp
  then have "hex4 b (at + 1) = Inr (c div 16 * 16 + c mod 16, at + 1 + 4)"
    using assms(2) by (intro hex4_control) simp_all
  then have "unicode_escape b (at + 1) = Inr (c, at + 5)"
    using assms(2) unfolding div_mult_mod_eq
    by (simp add: unicode_escape_def char_or_replacement_def is_scalar_def)
  then show ?thesis
    using assms(1) by (simp add: json_escape_def byte_at_drop simple_escape_def)
qed

lemma string_loop_char:
  assumes c: "is_scalar c" and d: "drop at b = as_bytes (write_char c) @ ys"
    and r: "string_loop b (at + length (as_bytes (write_char c))) (out @ encode_utf8 c) = Inr r"
  shows "string_loop b at out = Inr r"
proof -
  have simple: ?thesis if w: "write_char c = [0x5C, x]" "x < 0x80" "simple_escape (of_nat x) = Some c" for x
  proof (rule string_loop_escape [of at b "[of_nat x]"])
    show "drop at b = 0x5C # [of_nat x] @ ys"
      using d w by (simp add: encode_ascii)
    then have "drop (at + 1) b = of_nat x # ys"
      using drop_step [of at b "[0x5C]"] by simp
    then show "json_escape b (at + 1) = Inr (c, at + 1 + length [of_nat x :: u8])"
      using w(3) by (simp add: json_escape_simple)
    show "string_loop b (at + 1 + length [of_nat x :: u8]) (out @ encode_utf8 c) = Inr r"
      using r w by (simp add: encode_ascii)
  qed
  consider "c = 0x22" | "c = 0x5C" | "c = 0x0A" | "c = 0x0D" | "c = 0x09"
    | "c < 0x20" "c \<noteq> 0x0A" "c \<noteq> 0x0D" "c \<noteq> 0x09" | "0x20 \<le> c" "c \<noteq> 0x22" "c \<noteq> 0x5C"
    by linarith
  then show ?thesis
  proof cases
    case 1
    then show ?thesis by (intro simple [of "0x22"]) (simp_all add: write_char_def simple_escape_def)
  next
    case 2
    then show ?thesis by (intro simple [of "0x5C"]) (simp_all add: write_char_def simple_escape_def)
  next
    case 3
    then show ?thesis by (intro simple [of "0x6E"]) (simp_all add: write_char_def simple_escape_def)
  next
    case 4
    then show ?thesis by (intro simple [of "0x72"]) (simp_all add: write_char_def simple_escape_def)
  next
    case 5
    then show ?thesis by (intro simple [of "0x74"]) (simp_all add: write_char_def simple_escape_def)
  next
    case 6
    have h: "c div 16 < 16" "c mod 16 < 16"
      using 6(1) by simp_all
    have w: "as_bytes (write_char c) =
        [0x5C, 0x75, 0x30, 0x30, of_nat (hex_digit (c div 16)), of_nat (hex_digit (c mod 16))]"
      using 6 hex_digit_facts(1) [OF h(1)] hex_digit_facts(1) [OF h(2)]
      by (simp add: write_char_def encode_ascii)
    show ?thesis
    proof (rule string_loop_escape [of at b "[0x75, 0x30, 0x30, of_nat (hex_digit (c div 16)), of_nat (hex_digit (c mod 16))]"])
      show dd: "drop at b = 0x5C # [0x75, 0x30, 0x30, of_nat (hex_digit (c div 16)), of_nat (hex_digit (c mod 16))] @ ys"
        using d w by simp
      have "drop (at + 1) b = [0x75, 0x30, 0x30, of_nat (hex_digit (c div 16)), of_nat (hex_digit (c mod 16))] @ ys"
        using drop_step [of at b "[0x5C]"] dd by simp
      from json_escape_control [OF this 6(1)]
      show "json_escape b (at + 1) = Inr (c, at + 1 + length [0x75, 0x30, 0x30, of_nat (hex_digit (c div 16)), of_nat (hex_digit (c mod 16)) :: u8])"
        by simp
    qed (use r w in simp)
  next
    case 7
    then have w: "write_char c = [c]"
      by (simp add: write_char_def)
    show ?thesis
    proof (rule string_loop_plain [of at b "encode_utf8 c" ys])
      show "\<forall>x \<in> set (encode_utf8 c). plain_byte x"
        using plain_encode [OF c 7(2,3)] by blast
    qed (use d r w in simp_all)
  qed
qed

lemma string_loop_text:
  assumes "str_wf s" "drop at b = as_bytes (concat (map write_char s)) @ 0x22 # ys"
  shows "string_loop b at out = Inr (out @ as_bytes s, at + length (as_bytes (concat (map write_char s))) + 1)"
  using assms
proof (induction s arbitrary: at out)
  case Nil
  then show ?case by (simp add: string_loop_end)
next
  case (Cons c s)
  have d: "drop at b = as_bytes (write_char c) @ as_bytes (concat (map write_char s)) @ 0x22 # ys"
    using Cons.prems(2) by simp
  show ?case
    using Cons.prems(1) Cons.IH [OF _ drop_step [OF d], of "out @ encode_utf8 c"]
    by (intro string_loop_char [OF _ d]) (simp_all add: add.assoc)
qed

lemma length_write_str: "length (as_bytes (write_str s)) = length (as_bytes (concat (map write_char s))) + 2"
  by (simp add: write_str_def encode_ascii)

lemma json_string_written:
  assumes "str_wf s" "drop at b = as_bytes (write_str s) @ ys"
  shows "json_string b at = Inr (s, at + length (as_bytes (write_str s)))"
proof -
  have "drop at b = [0x22] @ as_bytes (concat (map write_char s)) @ 0x22 # ys"
    using assms(2) by (simp add: write_str_def encode_ascii)
  from string_loop_text [OF assms(1), of "at + 1"] drop_step [OF this]
  show ?thesis
    using assms(1) by (simp add: json_string_def length_write_str from_utf8_as_bytes)
qed

section \<open>Numbers\<close>

lemma positional_bytes:
  "b \<in> set (positional m p) \<Longrightarrow> is_digit b \<or> b = 0x2E"
  "positional m p \<noteq> []" "is_digit (hd (positional m p))"
proof -
  have h: "is_digit (hd (dec m @ xs))" for xs
    using dec_is_digit [of "hd (dec m)" m] by simp
  have t: "is_digit (hd (take k (dec m) @ xs))" "take k (dec m) \<noteq> []" if "0 < k" for k xs
    using that h [of "[]"] by (simp_all add: hd_append)
  show "b \<in> set (positional m p) \<Longrightarrow> is_digit b \<or> b = 0x2E"
    by (auto simp: positional_def Let_def dest: dec_is_digit in_set_takeD in_set_dropD split: if_splits)
  show "positional m p \<noteq> []"
    by (simp add: positional_def Let_def)
  show "is_digit (hd (positional m p))"
    using h [of "replicate (nat p) 0x30"] t [of "length (dec m) - nat (- p)"]
    by (auto simp: positional_def Let_def)
qed

definition number_text :: "u8 list \<Rightarrow> bool" where
  "number_text t \<longleftrightarrow> t \<noteq> [] \<and> (hd t = 0x2D \<or> is_digit (hd t)) \<and> list_all number_byte t"

lemma number_text_signed:
  assumes "t \<noteq> []" "is_digit (hd t)" "\<forall>b \<in> set t. is_digit b \<or> b = 0x2E" "sg = [] \<or> sg = [0x2D]"
  shows "number_text (sg @ t)"
  using assms by (auto simp: number_text_def number_byte_def list_all_iff)

lemma number_text_display:
  assumes "f_rank b \<noteq> 0"
  shows "number_text (display_f64 b)"
proof -
  obtain m p where "shortest (f_rank b) = Some (m, p)"
    using assms by (metis shortest_Some neq0_conv)
  then show ?thesis
    using positional_bytes(1) [of _ m p] positional_bytes(2,3) [of m p]
    by (simp add: display_f64_def number_text_signed)
qed

lemma number_text_i64: "number_text (display_i64 i)"
  unfolding display_i64_def
  by (rule number_text_signed) (simp_all add: dec_is_digit dec_is_digit [OF hd_in_set [OF dec_not_Nil]])

lemma number_byte_ascii: "number_byte c \<Longrightarrow> unat c < 0x80"
  by (auto simp: number_byte_def is_digit_def within_def word_le_nat_alt)

lemma as_bytes_number:
  assumes "number_text t"
  shows "as_bytes (ascii_text t) = t"
proof -
  have a: "\<forall>c \<in> set (ascii_text t). c < 0x80"
    using assms number_byte_ascii by (auto simp: ascii_text_def number_text_def list_all_iff)
  show ?thesis
    unfolding as_bytes_ascii [OF a] by (simp add: ascii_text_def comp_def)
qed

definition canon_num :: "f64 \<Rightarrow> f64" where
  "canon_num n = (if f_rank n = 0 then 0 else n)"

lemma zero_rank:
  assumes "f_rank n = 0"
  shows "fract_zero n" "as_i64 n = 0" "f_mag (f_rank n) = 0" "is_finite n"
  using assms by (simp_all add: fract_zero_def is_finite_def as_i64_def F_INF_def f_mag_def F_ONE_def)

lemma parse_zero: "parse_f64 [0x30] = Some 0"
proof -
  have "dec 0 = [0x30]"
    by (subst dec.simps) simp
  then have "parse_f64 [0x30] = Some (f_make False (f_nearest (0 * F_ONE) 1))"
    using parse_positional [of "[]" 0 0] by (simp add: positional_def)
  also have "f_nearest (0 * F_ONE) 1 = 0"
    using f_nearest_exact [of 0 1] by (simp add: f_mag_def F_INF_def)
  finally show ?thesis by (simp add: f_make_def)
qed

text \<open>Whole numbers below \<open>2\<^sup>5\<^sup>3\<close> are far inside \<open>i64\<close>.\<close>

lemma small_whole: "f_mag n < 9007199254740992 * F_ONE \<Longrightarrow> f_mag n div F_ONE < 2 ^ 63"
proof -
  assume "f_mag n < 9007199254740992 * F_ONE"
  then have "f_mag n div F_ONE < 9007199254740992"
    by (rule less_mult_imp_div_less)
  then show ?thesis by simp
qed

lemma write_num_text:
  assumes "is_finite n"
  obtains t where "write_num n = ascii_text t" "number_text t" "parse_f64 t = Some (canon_num n)"
proof (cases "f_rank n = 0")
  case True
  note z = zero_rank [OF True]
  have "display_i64 (as_i64 n) = [0x30]"
    using dec.simps [of 0] by (simp add: z display_i64_def)
  moreover have "write_num n = ascii_text (display_i64 (as_i64 n))"
    using z by (simp add: write_num_def F_ONE_def)
  ultimately show thesis
    using that [of "[0x30]"] number_text_i64 [of "as_i64 n"] parse_zero True by (simp add: canon_num_def)
next
  case False
  then have c: "canon_num n = n"
    by (simp add: canon_num_def)
  show thesis
  proof (cases "fract_zero n \<and> f_mag (f_rank n) < 9007199254740992 * F_ONE")
    case True
    then show thesis
      using that [of "display_i64 (as_i64 n)"] number_text_i64 [of "as_i64 n"]
        display_i64_parse [OF _ False small_whole] assms c
      by (simp add: write_num_def)
  next
    case neg: False
    then have w: "write_num n = ascii_text (display_f64 n)"
      using assms unfolding write_num_def by (simp only: if_True if_False not_False_eq_True) simp
    show thesis
      by (rule that [OF w number_text_display [OF False]]) (simp add: c display_parse [OF assms False])
  qed
qed

section \<open>Values\<close>

fun json_wf :: "json \<Rightarrow> bool" where
  "json_wf (JStr s) = str_wf s"
| "json_wf (JArr a) = list_all json_wf a"
| "json_wf (JObj kv) = list_all (\<lambda>(k, v). str_wf k \<and> json_wf v) kv"
| "json_wf _ = True"

fun nest :: "json \<Rightarrow> nat" where
  "nest (JArr a) = foldr max (map (\<lambda>v. Suc (nest v)) a) 0"
| "nest (JObj kv) = foldr max (map (\<lambda>(k, v). Suc (nest v)) kv) 0"
| "nest _ = 0"

text \<open>What reading makes of a value: \<open>NaN\<close> and infinities are null, minus zero is zero.\<close>

fun canon :: "json \<Rightarrow> json" where
  "canon (JNum n) = (if is_finite n then JNum (canon_num n) else JNull)"
| "canon (JArr a) = JArr (map canon a)"
| "canon (JObj kv) = JObj (map (\<lambda>(k, v). (k, canon v)) kv)"
| "canon v = v"

lemma foldr_max_less: "foldr max xs 0 < Suc d \<longleftrightarrow> (\<forall>x \<in> set xs. x \<le> d)" for d :: nat
  by (induction xs) auto

lemma nest_less:
  "nest (JArr a) < Suc d \<longleftrightarrow> (\<forall>v \<in> set a. nest v < d)"
  "nest (JObj kv) < Suc d \<longleftrightarrow> (\<forall>(k, v) \<in> set kv. nest v < d)"
  by (auto simp: foldr_max_less simp del: foldr_map)

declare nest.simps(1,2) [simp del]

lemma as_bytes_lit:
  "as_bytes (lit ''null'') = [0x6E, 0x75, 0x6C, 0x6C]"
  "as_bytes (lit ''true'') = [0x74, 0x72, 0x75, 0x65]"
  "as_bytes (lit ''false'') = [0x66, 0x61, 0x6C, 0x73, 0x65]"
  by code_simp+

text \<open>The first byte of a written value decides the branch of \<open>value\<close>.\<close>

lemma json_head:
  obtains c cs where "as_bytes (to_json v) = c # cs" "\<not> is_ws c" "c \<noteq> 0x5D" "c \<noteq> 0x7D"
proof (cases v)
  case (JNum n)
  show thesis
  proof (cases "is_finite n")
    case True
    then obtain t where t: "write_num n = ascii_text t" "number_text t"
      using write_num_text by blast
    then have "as_bytes (to_json v) = hd t # tl t"
      using as_bytes_number [OF t(2)] JNum by (simp add: number_text_def)
    moreover have "\<not> is_ws (hd t)" "hd t \<noteq> 0x5D" "hd t \<noteq> 0x7D"
      using t(2) by (auto simp: number_text_def is_ws_def is_digit_def within_def)
    ultimately show thesis by (rule that)
  next
    case False
    then show thesis
      using that [of "0x6E"] JNum by (simp add: write_num_def as_bytes_lit is_ws_def)
  qed
next
  case (JBool t)
  then show thesis
    using that by (cases t) (simp_all add: as_bytes_lit is_ws_def)
qed (use that in \<open>auto simp: as_bytes_lit encode_ascii write_str_def is_ws_def\<close>)

definition ok_rest :: "u8 list \<Rightarrow> bool" where
  "ok_rest ys \<longleftrightarrow> ys = [] \<or> \<not> number_byte (hd ys)"

lemma ok_rest_simps: "ok_rest []" "ok_rest (0x2C # ys)" "ok_rest (0x5D # ys)" "ok_rest (0x7D # ys)"
  by (simp_all add: ok_rest_def number_byte_def is_digit_def within_def)

definition reads_value :: "value_parser \<Rightarrow> json \<Rightarrow> bool" where
  "reads_value val v \<longleftrightarrow> (\<forall>b at ys. drop at b = as_bytes (to_json v) @ ys \<longrightarrow> ok_rest ys \<longrightarrow>
     val b at = Some (Inr (canon v, at + length (as_bytes (to_json v)))))"

lemma readsD:
  "reads_value val v \<Longrightarrow> drop at b = as_bytes (to_json v) @ ys \<Longrightarrow> ok_rest ys \<Longrightarrow>
   val b at = Some (Inr (canon v, at + length (as_bytes (to_json v))))"
  by (simp add: reads_value_def)

text \<open>The separators after an element or a member.\<close>

lemma ws_mark: "drop at b = c # ys \<Longrightarrow> \<not> is_ws c \<Longrightarrow> ws b at = at"
  by (rule ws_stay) simp

lemma marks: "\<not> is_ws 0x2C" "\<not> is_ws 0x5D" "\<not> is_ws 0x7D" "\<not> is_ws 0x3A" "\<not> is_ws 0x22" "\<not> is_ws 0x5B" "\<not> is_ws 0x7B"
  by (simp_all add: is_ws_def)

lemma comma_sep_Cons: "comma_sep (x # xs) = x @ (if xs = [] then [] else [0x2C] @ comma_sep xs)"
  by (cases xs) simp_all

lemma array_loop_written:
  assumes "vs \<noteq> []" "\<forall>v \<in> set vs. reads_value val v"
    "drop at b = as_bytes (comma_sep (map to_json vs)) @ 0x5D # ys"
  shows "array_loop val b at out =
    Some (Inr (JArr (out @ map canon vs), at + length (as_bytes (comma_sep (map to_json vs))) + 1))"
  using assms
proof (induction vs arbitrary: at out)
  case Nil
  then show ?case by simp
next
  case (Cons v vs)
  define n where "n = length (as_bytes (to_json v))"
  show ?case
  proof (cases vs)
    case Nil
    have d: "drop at b = as_bytes (to_json v) @ 0x5D # ys"
      using Cons.prems(3) Nil by simp
    have d2: "drop (at + n) b = 0x5D # ys"
      unfolding n_def by (rule drop_step [OF d])
    have "val b at = Some (Inr (canon v, at + n))"
      using readsD [OF _ d ok_rest_simps(3)] Cons.prems(2) by (simp add: n_def)
    then show ?thesis
      using eat_drop [of "at + n" b "[0x5D]" ys] eat_other [OF d2, of "[0x2C]"] d2 ws_mark [OF d2 marks(2)] Nil
      by (subst array_loop.simps) (simp add: n_def)
  next
    case (Cons w ws')
    have d: "drop at b = as_bytes (to_json v) @ 0x2C # as_bytes (comma_sep (map to_json vs)) @ 0x5D # ys"
      using Cons.prems(3) Cons by (simp add: encode_ascii)
    have d2: "drop (at + n) b = 0x2C # as_bytes (comma_sep (map to_json vs)) @ 0x5D # ys"
      unfolding n_def by (rule drop_step [OF d])
    have d3: "drop (at + n + 1) b = as_bytes (comma_sep (map to_json vs)) @ 0x5D # ys"
      using drop_step [of "at + n" b "[0x2C]"] d2 by simp
    have "val b at = Some (Inr (canon v, at + n))"
      using readsD [OF _ d ok_rest_simps(2)] Cons.prems(2) by (simp add: n_def)
    then show ?thesis
      using eat_drop [of "at + n" b "[0x2C]"] d2 ws_mark [OF d2 marks(1)] Cons.IH [OF _ _ d3, of "out @ [canon v]"] Cons.prems(2) Cons
      by (subst array_loop.simps) (simp add: n_def encode_ascii add.assoc)
  qed
qed

definition member :: "ustring \<times> json \<Rightarrow> ustring" where
  "member kv = write_str (fst kv) @ [0x3A] @ to_json (snd kv)"

lemma object_loop_written:
  assumes "kvs \<noteq> []" "\<forall>(k, v) \<in> set kvs. str_wf k \<and> reads_value val v"
    "drop at b = as_bytes (comma_sep (map member kvs)) @ 0x7D # ys"
  shows "object_loop val b at out =
    Some (Inr (JObj (out @ map (\<lambda>(k, v). (k, canon v)) kvs), at + length (as_bytes (comma_sep (map member kvs))) + 1))"
  using assms
proof (induction kvs arbitrary: at out)
  case Nil
  then show ?case by simp
next
  case (Cons m kvs)
  obtain k v where m: "m = (k, v)"
    by (cases m)
  have kv: "str_wf k" "reads_value val v"
    using Cons.prems(2) m by auto
  obtain r where r: "drop at b = as_bytes (member m) @ r" "ok_rest r"
      "kvs = [] \<Longrightarrow> r = 0x7D # ys" "kvs \<noteq> [] \<Longrightarrow> r = 0x2C # as_bytes (comma_sep (map member kvs)) @ 0x7D # ys"
    using Cons.prems(3) that ok_rest_simps by (cases kvs) (auto simp: encode_ascii)
  define j where "j = at + length (as_bytes (write_str k))"
  define n where "n = j + 1 + length (as_bytes (to_json v))"
  have d: "drop at b = as_bytes (write_str k) @ 0x3A # as_bytes (to_json v) @ r"
    using r(1) by (simp add: m member_def encode_ascii)
  have d1: "drop j b = 0x3A # as_bytes (to_json v) @ r"
    unfolding j_def by (rule drop_step [OF d])
  have d2: "drop (j + 1) b = as_bytes (to_json v) @ r"
    using drop_step [of j b "[0x3A]"] d1 by simp
  have d3: "drop n b = r"
    unfolding n_def by (rule drop_step [OF d2])
  obtain q where q: "drop at b = 0x22 # q"
    using d by (simp add: write_str_def encode_ascii)
  have head: "ws b at = at" "byte_at b at = Some 0x22"
    using ws_mark [OF q marks(5)] q by (simp_all add: byte_at_drop)
  have key: "json_string b at = Inr (k, j)"
    using json_string_written [OF kv(1) d] by (simp add: j_def)
  have colon: "ws b j = j" "eat b [0x3A] j = Some (j + 1)"
    using ws_mark [OF d1 marks(4)] eat_drop [of j b "[0x3A]"] d1 by simp_all
  have val: "val b (j + 1) = Some (Inr (canon v, n))"
    using readsD [OF kv(2) d2 r(2)] by (simp add: n_def)
  have len: "length (as_bytes (member m)) = n - at"
    by (simp add: m member_def encode_ascii n_def j_def)
  have le: "at \<le> n"
    by (simp add: n_def j_def)
  show ?case
  proof (cases "kvs = []")
    case True
    have e: "ws b n = n" "eat b [0x2C] n = None" "eat b [0x7D] n = Some (n + 1)"
      using d3 r(3) [OF True] ws_mark [OF _ marks(3)] eat_drop [of n b "[0x7D]"] eat_other [of n b _ "[0x2C]"] by simp_all
    show ?thesis
      using head key colon val e True len le by (subst object_loop.simps) (simp add: m)
  next
    case False
    then have r: "drop n b = 0x2C # as_bytes (comma_sep (map member kvs)) @ 0x7D # ys"
      using d3 r(4) by simp
    have d4: "drop (n + 1) b = as_bytes (comma_sep (map member kvs)) @ 0x7D # ys"
      using drop_step [of n b "[0x2C]"] r by simp
    have e: "ws b n = n" "eat b [0x2C] n = Some (n + 1)"
      using ws_mark [OF r marks(1)] eat_drop [of n b "[0x2C]"] r by simp_all
    have c: "comma_sep (map member (m # kvs)) = member m @ [0x2C] @ comma_sep (map member kvs)"
      using False by (cases kvs) simp_all
    have "object_loop val b at out = object_loop val b (n + 1) (out @ [(k, canon v)])"
      using head key colon val e by (subst object_loop.simps) simp
    also have "\<dots> = Some (Inr (JObj ((out @ [(k, canon v)]) @ map (\<lambda>(k, v). (k, canon v)) kvs),
        n + 1 + length (as_bytes (comma_sep (map member kvs))) + 1))"
      by (rule Cons.IH [OF False _ d4]) (use Cons.prems(2) in simp)
    finally show ?thesis
      unfolding c using len le by (simp add: m encode_ascii)
  qed
qed

lemma to_json_obj: "to_json (JObj kv) = [0x7B] @ comma_sep (map member kv) @ [0x7D]"
proof -
  have "(\<lambda>(k, v). write_str k @ [0x3A] @ to_json v) = member"
    by (simp add: fun_eq_iff member_def)
  then show ?thesis by (simp only: to_json.simps)
qed

lemma json_value_written:
  assumes "json_wf v" "nest v < d"
  shows "reads_value (json_value d) v"
  using assms
proof (induction d arbitrary: v)
  case 0
  then show ?case by simp
next
  case (Suc d)
  show ?case
    unfolding reads_value_def
  proof (intro allI impI)
    fix b at ys
    assume d: "drop at b = as_bytes (to_json v) @ ys" and ok: "ok_rest ys"
    obtain c cs where c: "as_bytes (to_json v) = c # cs" "\<not> is_ws c"
      by (rule json_head)
    then have q: "drop at b = c # cs @ ys"
      using d by simp
    have s: "ws b at = at" "byte_at b at = Some c"
      using ws_mark [OF q c(2)] q by (simp_all add: byte_at_drop)
    have literal: "json_value (Suc d) b at = Some (Inr (canon v, at + length (as_bytes (to_json v))))"
      if l: "as_bytes (to_json v) = l" and w: "(l, canon v) \<in> {([0x6E, 0x75, 0x6C, 0x6C], JNull),
        ([0x74, 0x72, 0x75, 0x65], JBool True), ([0x66, 0x61, 0x6C, 0x73, 0x65], JBool False)}" for l
    proof -
      have "eat b l at = Some (at + length l)" "c = hd l"
        using d eat_drop c(1) by (simp_all add: l)
      then show ?thesis
        using s w l by (elim insertE) (simp_all add: is_digit_def within_def)
    qed
    show "json_value (Suc d) b at = Some (Inr (canon v, at + length (as_bytes (to_json v))))"
    proof (cases v)
      case JNull
      then have l: "as_bytes (to_json v) = [0x6E, 0x75, 0x6C, 0x6C]" "canon v = JNull"
        by (simp_all add: as_bytes_lit)
      show ?thesis
        by (rule literal [OF l(1)]) (simp_all add: l)
    next
      case (JBool t)
      then have l: "as_bytes (to_json v) = (if t then [0x74, 0x72, 0x75, 0x65] else [0x66, 0x61, 0x6C, 0x73, 0x65])" "canon v = JBool t"
        by (simp_all add: as_bytes_lit)
      show ?thesis
      proof (cases t)
        case True
        then show ?thesis
          using l by (intro literal [of "[0x74, 0x72, 0x75, 0x65]"]) simp_all
      next
        case False
        then show ?thesis
          using l by (intro literal [of "[0x66, 0x61, 0x6C, 0x73, 0x65]"]) simp_all
      qed
    next
      case (JStr t)
      then show ?thesis
        using s c json_string_written [of t at b ys] d Suc.prems(1) by (simp add: write_str_def encode_ascii)
    next
      case (JNum n)
      show ?thesis
      proof (cases "is_finite n")
        case True
        obtain t where t: "write_num n = ascii_text t" "number_text t" "parse_f64 t = Some (canon_num n)"
          using write_num_text [OF True] .
        have b: "as_bytes (to_json v) = t"
          using t as_bytes_number JNum by simp
        have tw: "takeWhile number_byte (drop at b) = t"
          using d ok t(2) unfolding b by (cases ys) (auto simp: ok_rest_def number_text_def list_all_iff takeWhile_append2 takeWhile_eq_all_conv)
        have "c = hd t"
          using c(1) b by simp
        then have "c = 0x2D \<or> is_digit c"
          using t(2) by (simp add: number_text_def)
        moreover from this have "c \<noteq> 0x7B" "c \<noteq> 0x5B" "c \<noteq> 0x22" "c \<noteq> 0x74" "c \<noteq> 0x66" "c \<noteq> 0x6E"
          by (auto simp: is_digit_def within_def)
        ultimately show ?thesis
          using s t(3) JNum True b by (simp add: json_number_def tw)
      next
        case False
        then have l: "as_bytes (to_json v) = [0x6E, 0x75, 0x6C, 0x6C]" "canon v = JNull"
          using JNum by (simp_all add: write_num_def as_bytes_lit)
        show ?thesis
          by (rule literal [OF l(1)]) (simp_all add: l)
      qed
    next
      case (JArr a)
      have reads: "\<forall>v \<in> set a. reads_value (json_value d) v"
        using Suc JArr by (auto simp: nest_less list_all_iff)
      have d1: "drop (at + 1) b = as_bytes (comma_sep (map to_json a)) @ 0x5D # ys"
        using drop_step [of at b "[0x5B]"] d JArr by (simp add: encode_ascii)
      have len: "length (as_bytes (to_json v)) = length (as_bytes (comma_sep (map to_json a))) + 2"
        using JArr by (simp add: encode_ascii)
      have "json_array (json_value d) b at = Some (Inr (JArr (map canon a), at + length (as_bytes (to_json v))))"
      proof (cases "a = []")
        case True
        then have "drop (at + 1) b = 0x5D # ys"
          using d1 by simp
        then show ?thesis
          using ws_mark [OF _ marks(2)] eat_drop [of "at + 1" b "[0x5D]" ys] True len by (simp add: json_array_def)
      next
        case False
        obtain w a' where a: "a = w # a'"
          using False by (cases a) simp_all
        obtain e es where w: "as_bytes (to_json w) = e # es" and e: "\<not> is_ws e" "e \<noteq> 0x5D"
          by (rule json_head)
        obtain fs where d2: "drop (at + 1) b = e # fs"
          using d1 w by (simp add: a comma_sep_Cons)
        show ?thesis
          using ws_mark [OF d2 e(1)] eat_other [OF d2, of "[0x5D]"] e(2) array_loop_written [OF False reads d1, of "[]"] len
          by (simp add: json_array_def)
      qed
      moreover have "c = 0x5B"
        using c(1) JArr by (simp add: encode_ascii)
      ultimately show ?thesis
        using s JArr by (simp add: len)
    next
      case (JObj kv)
      have reads: "\<forall>(k, v) \<in> set kv. str_wf k \<and> reads_value (json_value d) v"
        using Suc JObj by (fastforce simp: nest_less list_all_iff)
      have d1: "drop (at + 1) b = as_bytes (comma_sep (map member kv)) @ 0x7D # ys"
        using drop_step [of at b "[0x7B]"] d JObj by (simp add: to_json_obj encode_ascii del: to_json.simps)
      have len: "length (as_bytes (to_json v)) = length (as_bytes (comma_sep (map member kv))) + 2"
        using JObj by (simp add: to_json_obj encode_ascii del: to_json.simps)
      have "json_object (json_value d) b at =
          Some (Inr (JObj (map (\<lambda>(k, v). (k, canon v)) kv), at + length (as_bytes (to_json v))))"
      proof (cases "kv = []")
        case True
        then have "drop (at + 1) b = 0x7D # ys"
          using d1 by simp
        then show ?thesis
          using ws_mark [OF _ marks(3)] eat_drop [of "at + 1" b "[0x7D]" ys] True len by (simp add: json_object_def)
      next
        case False
        obtain es where e: "drop (at + 1) b = 0x22 # es"
          using d1 False by (cases kv) (simp_all add: comma_sep_Cons member_def write_str_def encode_ascii)
        show ?thesis
          using ws_mark [OF e marks(5)] eat_other [OF e, of "[0x7D]"] object_loop_written [OF False reads d1, of "[]"] len
          by (simp add: json_object_def)
      qed
      moreover have "c = 0x7B"
        using c(1) JObj by (simp add: encode_ascii)
      ultimately show ?thesis
        using s JObj by (simp add: len)
    qed
  qed
qed

text \<open>
  C7: what is written reads back.  The text of any value nested no deeper than the limit parses, all of
  it, to that value: objects keep the order of their members and duplicates, strings every character,
  finite numbers every bit.  Only what JSON cannot say changes: a number that is not finite becomes
  null, and minus zero zero.
\<close>
theorem json_written_reads:
  assumes "json_wf v" "nest v \<le> MAX_DEPTH"
  shows "json_parse (to_json v) = Some (Inr (canon v))"
proof -
  have "json_value (MAX_DEPTH + 1) (as_bytes (to_json v)) 0 = Some (Inr (canon v, length (as_bytes (to_json v))))"
    using readsD [OF json_value_written [OF assms(1), of "MAX_DEPTH + 1"], of 0 "as_bytes (to_json v)" "[]"] assms(2)
    by (simp add: ok_rest_simps)
  then show ?thesis
    by (simp add: json_parse_def ws_stay)
qed

text \<open>The witness: an object in an array, with an escape, a character of two bytes and a line end.\<close>

lemma json_written_reads_witness:
  "json_parse (to_json (JArr [JObj [([0x6B], JStr [0x22, 0xE9, 10]), ([0x6B], JArr [])], JBool True, JNull])) =
   Some (Inr (JArr [JObj [([0x6B], JStr [0x22, 0xE9, 10]), ([0x6B], JArr [])], JBool True, JNull]))"
  using json_written_reads [of "JArr [JObj [([0x6B], JStr [0x22, 0xE9, 10]), ([0x6B], JArr [])], JBool True, JNull]"]
  by (simp add: is_scalar_def MAX_DEPTH_def nest.simps del: to_json.simps)

section \<open>The parser always returns\<close>

lemma if_Some: "(if P then r else r') = Some y \<longleftrightarrow> P \<and> r = Some y \<or> \<not> P \<and> r' = Some y"
  by auto

lemma case_list_Some:
  "(case xs of [] \<Rightarrow> None | y # ys \<Rightarrow> f y ys) = Some z \<longleftrightarrow> (\<exists>y ys. xs = y # ys \<and> f y ys = Some z)"
  by (cases xs) auto

lemma from_utf8_wf: "from_utf8 bs = Some s \<Longrightarrow> str_wf s"
proof (induction bs arbitrary: s rule: length_induct)
  case (1 bs)
  show ?case
  proof (cases bs)
    case Nil
    then show ?thesis using 1 by simp
  next
    case (Cons a bs')
    have one: "is_scalar (unat a)" if "a < 0x80"
      using that by (simp add: is_scalar_def word_less_nat_alt)
    have two: "is_scalar (unat (a AND 0x1F) * 64 + unat (b AND 0x3F))" for b :: u8
    proof -
      have "unat (a AND 0x1F) < 32" "unat (b AND 0x3F) < 64"
        by (simp_all add: mask_simps)
      then show ?thesis unfolding is_scalar_def by linarith
    qed
    have four: "is_scalar cp" if "0x10000 \<le> cp" "cp \<le> 0x10FFFF" for cp
      using that by (simp add: is_scalar_def)
    have "\<exists>c t z. s = c # z \<and> is_scalar c \<and> from_utf8 t = Some z \<and> length t < length bs"
      using 1(2) unfolding Cons from_utf8.simps Let_def if_Some case_list_Some map_option_eq_Some
    proof (elim disjE exE conjE, goal_cases)
      case (1 z)
      then show ?case using one by auto
    next
      case (2 b cs z)
      then show ?case using two [of b] by (intro exI [of _ "unat (a AND 0x1F) * 64 + unat (b AND 0x3F)"] exI [of _ cs] exI [of _ z]) simp
    next
      case (3 b cs c ds z)
      then show ?case by (intro exI [of _ "decode3_cp a b c"] exI [of _ ds] exI [of _ z]) simp
    next
      case (4 b cs c ds d es z)
      then show ?case using four
        by (intro exI [of _ "unat (a AND 0x07) * 262144 + unat (b AND 0x3F) * 4096 +
                           unat (c AND 0x3F) * 64 + unat (d AND 0x3F)"] exI [of _ es] exI [of _ z]) simp
    qed simp_all
    then show ?thesis
      using 1(1) by force
  qed
qed

text \<open>
  A result at a position: an error names a place inside the text, a value ends past where it began.
\<close>

definition sound :: "('a \<Rightarrow> bool) \<Rightarrow> u8 list \<Rightarrow> nat \<Rightarrow> json_error + ('a \<times> nat) \<Rightarrow> bool" where
  "sound P b at r =
     (case r of Inl (_, p) \<Rightarrow> p \<le> length b | Inr (v, p) \<Rightarrow> at < p \<and> p \<le> length b \<and> P v)"

lemma sound_simps [simp]:
  "sound P b at (Inl (m, p)) \<longleftrightarrow> p \<le> length b"
  "sound P b at (Inr (v, p)) \<longleftrightarrow> at < p \<and> p \<le> length b \<and> P v"
  by (simp_all add: sound_def)

lemma sound_later: "sound P b at' r \<Longrightarrow> at \<le> at' \<Longrightarrow> sound P b at r"
  by (auto simp: sound_def split: sum.splits prod.splits)

lemma byte_at_lt: "byte_at b at = Some c \<Longrightarrow> at < length b"
  by (auto simp: byte_at_def split: if_splits)

lemma hex4_sound: "at \<le> length b \<Longrightarrow> sound (\<lambda>_. True) b at (hex4 b at)"
  by (auto simp: hex4_def split: option.split)

lemma char_or_replacement_scalar: "is_scalar (char_or_replacement n)"
  by (simp add: char_or_replacement_def)

lemma unicode_escape_sound:
  assumes "at \<le> length b"
  shows "sound is_scalar b at (unicode_escape b at)"
proof (cases "hex4 b at")
  case (Inl e)
  then show ?thesis using hex4_sound [OF assms] by (cases e) (simp add: unicode_escape_def)
next
  case (Inr x)
  then obtain hi where h: "hex4 b at = Inr (hi, at + 4)" "at + 4 \<le> length b"
    using hex4_at by (cases x) blast
  show ?thesis
  proof (cases "eat b [0x5C, 0x75] (at + 4)")
    case None
    then show ?thesis using h by (simp add: unicode_escape_def char_or_replacement_scalar)
  next
    case (Some at2)
    then have e: "at2 = at + 6" "at2 \<le> length b"
      using eat_at [OF Some] by simp_all
    show ?thesis
    proof (cases "hex4 b at2")
      case (Inl e')
      then show ?thesis
        using h Some hex4_sound [OF e(2)] by (cases e') (simp add: unicode_escape_def char_or_replacement_scalar)
    next
      case (Inr y)
      then obtain lo where "hex4 b at2 = Inr (lo, at2 + 4)" "at2 + 4 \<le> length b"
        using hex4_at by (cases y) blast
      then show ?thesis using h Some e by (simp add: unicode_escape_def char_or_replacement_scalar)
    qed
  qed
qed

lemma json_escape_sound:
  assumes "at \<le> length b"
  shows "sound (\<lambda>_. True) b at (json_escape b at)"
proof (cases "byte_at b at")
  case None
  then show ?thesis using assms by (simp add: json_escape_def)
next
  case (Some c)
  then have lt: "at < length b" by (rule byte_at_lt)
  have "sound (\<lambda>_. True) b at (unicode_escape b (at + 1))"
    using unicode_escape_sound [of "at + 1" b] lt by (auto simp: sound_def split: sum.splits prod.splits)
  then show ?thesis
    using Some lt by (simp add: json_escape_def split: option.split)
qed

lemma string_loop_sound:
  "at \<le> length b \<Longrightarrow> sound (\<lambda>_. True) b at (string_loop b at out)"
proof (induction b at out rule: string_loop.induct)
  case (1 b at out)
  define run where "run = takeWhile plain_byte (drop at b)"
  define at1 where "at1 = at + length run"
  show ?case
  proof (cases "byte_at b at1")
    case None
    then show ?thesis
      using 1(2) by (subst string_loop.simps) (simp add: run_def [symmetric] at1_def [symmetric])
  next
    case (Some c)
    then have lt: "at1 < length b" by (rule byte_at_lt)
    show ?thesis
    proof (cases "c = 0x22")
      case True
      then show ?thesis
        using Some lt by (subst string_loop.simps) (simp add: run_def [symmetric] at1_def [symmetric], simp add: at1_def)
    next
      case False
      have es: "sound (\<lambda>_. True) b (at1 + 1) (json_escape b (at1 + 1))"
        using lt by (intro json_escape_sound) simp
      show ?thesis
      proof (cases "json_escape b (at1 + 1)")
        case (Inl e)
        then show ?thesis
          using Some False es by (subst string_loop.simps) (cases e, simp add: run_def [symmetric] at1_def [symmetric])
      next
        case (Inr x)
        obtain c' at2 where x: "x = (c', at2)" by (cases x)
        have at2: "at1 + 1 < at2" "at2 \<le> length b"
          using es Inr x by simp_all
        have "sound (\<lambda>_. True) b at2 (string_loop b at2 (out @ run @ encode_utf8 c'))"
          using 1(1) [OF run_def at1_def Some False Inr x [symmetric] at2(2)] .
        then have "sound (\<lambda>_. True) b at (string_loop b at2 (out @ run @ encode_utf8 c'))"
          by (rule sound_later) (use at2 in \<open>simp add: at1_def\<close>)
        then show ?thesis
          using Some False Inr x by (subst string_loop.simps) (simp add: run_def [symmetric] at1_def [symmetric])
      qed
    qed
  qed
qed

lemma json_string_sound:
  assumes "at < length b"
  shows "sound str_wf b at (json_string b at)"
proof -
  have s: "sound (\<lambda>_. True) b (at + 1) (string_loop b (at + 1) [])"
    using assms by (intro string_loop_sound) simp
  then show ?thesis
    unfolding json_string_def by (auto simp: from_utf8_wf split: sum.split option.split)
qed

lemma json_number_sound:
  assumes "at < length b" "number_byte (b ! at)"
  shows "sound (\<lambda>v. json_wf v \<and> nest v = 0) b at (json_number b at)"
proof -
  have d: "drop at b = b ! at # drop (Suc at) b"
    using assms(1) by (rule Cons_nth_drop_Suc [symmetric])
  define t where "t = takeWhile number_byte (drop at b)"
  have "0 < length t"
    using assms(2) unfolding t_def d by simp
  moreover have "length t \<le> length b - at"
    using length_takeWhile_le [of number_byte "drop at b"] by (simp add: t_def)
  moreover from this have "at + length t \<le> length b"
    using assms(1) by linarith
  ultimately show ?thesis
    by (simp add: json_number_def t_def [symmetric] Let_def split: option.split)
qed

text \<open>The loops end because every element ends past where it began.\<close>

definition parses :: "value_parser \<Rightarrow> (json \<Rightarrow> bool) \<Rightarrow> u8 list \<Rightarrow> bool" where
  "parses val P b \<longleftrightarrow> (\<forall>at \<le> length b. \<exists>r. val b at = Some r \<and> sound P b at r)"

lemma parsesE:
  assumes "parses val P b" "at \<le> length b"
  obtains m p where "val b at = Some (Inl (m, p))" "p \<le> length b"
    | v p where "val b at = Some (Inr (v, p))" "at < p" "p \<le> length b" "P v"
proof -
  obtain r where "val b at = Some r" "sound P b at r"
    using assms by (auto simp: parses_def)
  then show thesis
    using that by (cases r) (auto simp: sound_def split: prod.splits)
qed

lemma array_loop_sound:
  assumes "parses val P b" "at \<le> length b" "list_all P out"
  shows "\<exists>r. array_loop val b at out = Some r \<and> sound (\<lambda>v. \<exists>a. v = JArr a \<and> list_all P a) b at r"
  using assms(2,3)
proof (induction "length b - at" arbitrary: at out rule: less_induct)
  case less
  from assms(1) less.prems(1) show ?case
  proof (cases rule: parsesE)
    case (1 m p)
    then show ?thesis by (subst array_loop.simps) simp
  next
    case (2 v p)
    define q where "q = ws b p"
    have q: "p \<le> q" "q \<le> length b"
      using ws_le [OF 2(3)] by (simp_all add: q_def)
    show ?thesis
    proof (cases "eat b [0x2C] q")
      case (Some at3)
      then have at3: "at3 = q + 1" "at3 \<le> length b"
        using eat_at [OF Some] by simp_all
      moreover from this have "length b - at3 < length b - at"
        using 2(2) q by linarith
      ultimately obtain r where "array_loop val b at3 (out @ [v]) = Some r"
          "sound (\<lambda>v. \<exists>a. v = JArr a \<and> list_all P a) b at3 r"
        using less.hyps [of at3 "out @ [v]"] less.prems 2 q by auto
      then show ?thesis
        using 2 Some q at3 by (subst array_loop.simps) (auto simp: q_def [symmetric] intro: sound_later)
    next
      case None
      show ?thesis
      proof (cases "eat b [0x5D] q")
        case None
        then show ?thesis
          using 2 \<open>eat b [0x2C] q = None\<close> q by (subst array_loop.simps) (simp add: q_def [symmetric])
      next
        case (Some at3)
        then have "at3 = q + 1" "at3 \<le> length b"
          using eat_at [OF Some] by simp_all
        then show ?thesis
          using 2 None Some q less.prems by (subst array_loop.simps) (simp add: q_def [symmetric])
      qed
    qed
  qed
qed

lemma object_loop_sound:
  assumes "parses val P b" "at \<le> length b" "list_all (\<lambda>(k, v). str_wf k \<and> P v) kv"
  shows "\<exists>r. object_loop val b at kv = Some r \<and>
    sound (\<lambda>v. \<exists>a. v = JObj a \<and> list_all (\<lambda>(k, v). str_wf k \<and> P v) a) b at r"
  using assms(2,3)
proof (induction "length b - at" arbitrary: at kv rule: less_induct)
  case less
  define Q where "Q = (\<lambda>v. \<exists>a. v = JObj a \<and> list_all (\<lambda>(k, v). str_wf k \<and> P v) a)"
  define at1 where "at1 = ws b at"
  have at1: "at \<le> at1" "at1 \<le> length b"
    using ws_le [OF less.prems(1)] by (simp_all add: at1_def)
  have key: "?case" if "byte_at b at1 \<noteq> Some 0x22 \<or> (\<exists>e. json_string b at1 = Inl e \<and> snd e \<le> length b)"
    using that at1 by (subst object_loop.simps) (auto simp: at1_def [symmetric])
  show ?case
  proof (cases "byte_at b at1 = Some 0x22")
    case False
    then show ?thesis by (intro key) simp
  next
    case True
    then have s: "sound str_wf b at1 (json_string b at1)"
      by (intro json_string_sound byte_at_lt)
    show ?thesis
    proof (cases "json_string b at1")
      case (Inl e)
      then show ?thesis
        using s by (intro key) (cases e, simp)
    next
      case (Inr x)
      then obtain k at2 where x: "json_string b at1 = Inr (k, at2)"
        by (cases x) simp
      have at2: "at1 < at2" "at2 \<le> length b" "str_wf k"
        using s x by simp_all
      define at3 where "at3 = ws b at2"
      have at3: "at2 \<le> at3" "at3 \<le> length b"
        using ws_le [OF at2(2)] by (simp_all add: at3_def)
      note step = object_loop.simps [of val b at kv, unfolded Let_def, folded at1_def]
      show ?thesis
      proof (cases "eat b [0x3A] at3")
        case None
        then show ?thesis
          using True x at3 unfolding step by (simp add: at3_def [symmetric])
      next
        case (Some at4)
        then have at4: "at4 = at3 + 1" "at4 \<le> length b"
          using eat_at [OF Some] by simp_all
        from assms(1) at4(2) show ?thesis
        proof (cases rule: parsesE)
          case (1 m p)
          then show ?thesis
            using True x Some unfolding step by (simp add: at3_def [symmetric])
        next
          case (2 v p)
          define q where "q = ws b p"
          have q: "p \<le> q" "q \<le> length b"
            using ws_le [OF 2(3)] by (simp_all add: q_def)
          show ?thesis
          proof (cases "eat b [0x2C] q")
            case (Some at7)
            then have at7: "at7 = q + 1" "at7 \<le> length b"
              using eat_at [OF Some] by simp_all
            moreover from this have "length b - at7 < length b - at"
              using 2(2) q at1 at2 at3 at4 by linarith
            ultimately obtain r where r: "object_loop val b at7 (kv @ [(k, v)]) = Some r"
                "sound (\<lambda>v. \<exists>a. v = JObj a \<and> list_all (\<lambda>(k, v). str_wf k \<and> P v) a) b at7 r"
              using less.hyps [of at7 "kv @ [(k, v)]"] less.prems 2 q at1 at2 at3 at4 by auto
            have "object_loop val b at kv = Some r"
              using True x \<open>eat b [0x3A] at3 = Some at4\<close> 2 Some r(1) unfolding step
              by (simp add: at3_def [symmetric] q_def [symmetric])
            moreover have "at \<le> at7"
              using at1 at2 at3 at4 2 q at7 by simp
            ultimately show ?thesis
              using sound_later [OF r(2)] by blast
          next
            case None
            show ?thesis
            proof (cases "eat b [0x7D] q")
              case None
              then show ?thesis
                using True x \<open>eat b [0x3A] at3 = Some at4\<close> \<open>eat b [0x2C] q = None\<close> 2 q unfolding step
                by (simp add: at3_def [symmetric] q_def [symmetric])
            next
              case (Some at7)
              then have "at7 = q + 1" "at7 \<le> length b"
                using eat_at [OF Some] by simp_all
              then show ?thesis
                using True x \<open>eat b [0x3A] at3 = Some at4\<close> None Some 2 q at1 at2 at3 at4 less.prems unfolding step
                by (simp add: at3_def [symmetric] q_def [symmetric])
            qed
          qed
        qed
      qed
    qed
  qed
qed

lemma sound_mono: "sound P b at r \<Longrightarrow> (\<And>v. P v \<Longrightarrow> Q v) \<Longrightarrow> sound Q b at r"
  by (auto simp: sound_def split: sum.splits prod.splits)

text \<open>One more level: whatever the branch, the result is sound and at most as deep as allowed.\<close>

lemma json_value_parses: "parses (json_value d) (\<lambda>v. json_wf v \<and> nest v < d) b"
proof (induction d)
  case 0
  then show ?case by (simp add: parses_def)
next
  case (Suc d)
  define P where "P = (\<lambda>v. json_wf v \<and> nest v < d)"
  define Q where "Q = (\<lambda>v. json_wf v \<and> nest v < Suc d)"
  have arr: "\<exists>a. v = JArr a \<and> list_all P a \<Longrightarrow> Q v" for v
    by (auto simp: P_def Q_def nest_less list_all_iff)
  have obj: "\<exists>a. v = JObj a \<and> list_all (\<lambda>(k, v). str_wf k \<and> P v) a \<Longrightarrow> Q v" for v
    by (auto simp: P_def Q_def nest_less list_all_iff)
  show ?case
    unfolding parses_def Q_def [symmetric]
  proof (intro allI impI)
    fix at assume at: "at \<le> length b"
    define at1 where "at1 = ws b at"
    have at1: "at \<le> at1" "at1 \<le> length b"
      using ws_le [OF at] by (simp_all add: at1_def)
    note step = json_value.simps(2) [of d, THEN fun_cong, THEN fun_cong, of b at, unfolded Let_def, folded at1_def]
    show "\<exists>r. json_value (Suc d) b at = Some r \<and> sound Q b at r"
    proof (cases "byte_at b at1")
      case None
      then show ?thesis using at1 unfolding step by simp
    next
      case (Some c)
      have lt: "at1 < length b"
        using Some by (rule byte_at_lt)
      have at2: "at1 + 1 \<le> ws b (at1 + 1)" "ws b (at1 + 1) \<le> length b"
        using ws_le [of "at1 + 1" b] lt by simp_all
      have array: "\<exists>r. json_array (json_value d) b at1 = Some r \<and> sound Q b at r"
      proof (cases "eat b [0x5D] (ws b (at1 + 1))")
        case (Some p)
        then have "p = ws b (at1 + 1) + 1" "p \<le> length b"
          using eat_at [OF Some] by simp_all
        then show ?thesis
          using Some at1 at2 arr [of "JArr []"] by (simp add: json_array_def)
      next
        case None
        obtain r where r: "array_loop (json_value d) b (ws b (at1 + 1)) [] = Some r"
            "sound (\<lambda>v. \<exists>a. v = JArr a \<and> list_all P a) b (ws b (at1 + 1)) r"
          using array_loop_sound [OF Suc.IH [folded P_def] at2(2), of "[]"] by auto
        have "sound Q b at r"
          by (rule sound_later [OF sound_mono [OF r(2) arr]]) (use at1 at2 in simp_all)
        then show ?thesis
          using None r(1) by (simp add: json_array_def)
      qed
      have object: "\<exists>r. json_object (json_value d) b at1 = Some r \<and> sound Q b at r"
      proof (cases "eat b [0x7D] (ws b (at1 + 1))")
        case (Some p)
        then have "p = ws b (at1 + 1) + 1" "p \<le> length b"
          using eat_at [OF Some] by simp_all
        then show ?thesis
          using Some at1 at2 obj [of "JObj []"] by (simp add: json_object_def)
      next
        case None
        obtain r where r: "object_loop (json_value d) b (ws b (at1 + 1)) [] = Some r"
            "sound (\<lambda>v. \<exists>a. v = JObj a \<and> list_all (\<lambda>(k, v). str_wf k \<and> P v) a) b (ws b (at1 + 1)) r"
          using object_loop_sound [OF Suc.IH [folded P_def] at2(2), of "[]"] by auto
        have "sound Q b at r"
          by (rule sound_later [OF sound_mono [OF r(2) obj]]) (use at1 at2 in simp_all)
        then show ?thesis
          using None r(1) by (simp add: json_object_def)
      qed
      have str: "sound Q b at (case json_string b at1 of Inl e \<Rightarrow> Inl e | Inr (s, p) \<Rightarrow> Inr (JStr s, p))"
        using json_string_sound [OF lt] at1
        by (cases "json_string b at1") (auto simp: Q_def sound_def split: prod.splits)
      have word: "sound Q b at (Inr (v, at1 + n))"
        if "eat b l at1 \<noteq> None" "0 < n" "length l = n" "json_wf v" "nest v = 0" for l v n
        using that eat_at [of b l at1] at1 by (cases l) (auto simp: Q_def)
      have number: "sound Q b at (json_number b at1)" if "c = 0x2D \<or> is_digit c"
      proof -
        have "number_byte (b ! at1)"
          using that Some lt by (auto simp: byte_at_def number_byte_def)
        from json_number_sound [OF lt this] show ?thesis
          by (rule sound_later [OF sound_mono]) (use at1 in \<open>simp_all add: Q_def\<close>)
      qed
      show ?thesis
        unfolding step Some option.case
        using array object str number at1
          word [of "[0x74, 0x72, 0x75, 0x65]" 4 "JBool True"] word [of "[0x66, 0x61, 0x6C, 0x73, 0x65]" 5 "JBool False"]
          word [of "[0x6E, 0x75, 0x6C, 0x6C]" 4 JNull]
        by (auto simp del: sound_simps(2) split: if_splits)
    qed
  qed
qed

text \<open>
  C8: any text is answered.  The parser returns for every text, however it is malformed: an error
  names a position inside the text, and a value is well formed and nested no deeper than the limit.
\<close>
theorem json_parse_sound:
  "case json_parse s of None \<Rightarrow> False
   | Some (Inl (_, p)) \<Rightarrow> p \<le> length (as_bytes s)
   | Some (Inr v) \<Rightarrow> json_wf v \<and> nest v \<le> MAX_DEPTH"
proof -
  have "parses (json_value (MAX_DEPTH + 1)) (\<lambda>v. json_wf v \<and> nest v < MAX_DEPTH + 1) (as_bytes s)"
    by (rule json_value_parses)
  from this le0 show ?thesis
  proof (cases rule: parsesE)
    case (2 v p)
    then show ?thesis
      using ws_le [OF 2(3)] by (simp add: json_parse_def Let_def del: json_value.simps)
  qed (simp_all add: json_parse_def Let_def del: json_value.simps)
qed

end
