(* ===== verification/Strings.thy ===== *)
theory Strings
  imports Prelude
begin

text \<open>
  The functions of \<open>str\<close> and \<open>char\<close> that several components call.  Text is a list of characters.
\<close>

definition strip_prefix :: "ustring \<Rightarrow> ustring \<Rightarrow> ustring option" where
  "strip_prefix p s = (if take (length p) s = p then Some (drop (length p) s) else None)"

definition strip_suffix :: "ustring \<Rightarrow> ustring \<Rightarrow> ustring option" where
  "strip_suffix p s = map_option rev (strip_prefix (rev p) (rev s))"

text \<open>\<open>char::is_control\<close> (Cc) and \<open>char::is_whitespace\<close> (White_Space).\<close>

definition is_control :: "uchar \<Rightarrow> bool" where
  "is_control c \<longleftrightarrow> c < 0x20 \<or> 0x7F \<le> c \<and> c < 0xA0"

definition is_whitespace :: "uchar \<Rightarrow> bool" where
  "is_whitespace c \<longleftrightarrow> 0x09 \<le> c \<and> c \<le> 0x0D \<or> c = 0x20 \<or> c = 0x85 \<or> c = 0xA0 \<or> c = 0x1680 \<or>
     0x2000 \<le> c \<and> c \<le> 0x200A \<or> c = 0x2028 \<or> c = 0x2029 \<or> c = 0x202F \<or> c = 0x205F \<or> c = 0x3000"

definition trim :: "ustring \<Rightarrow> ustring" where
  "trim s = rev (dropWhile is_whitespace (rev (dropWhile is_whitespace s)))"

definition ascii_alnum :: "uchar \<Rightarrow> bool" where
  "ascii_alnum c \<longleftrightarrow> 0x30 \<le> c \<and> c \<le> 0x39 \<or> 0x41 \<le> c \<and> c \<le> 0x5A \<or> 0x61 \<le> c \<and> c \<le> 0x7A"

definition ascii_lower :: "uchar \<Rightarrow> uchar" where
  "ascii_lower c = (if 0x41 \<le> c \<and> c \<le> 0x5A then c + 32 else c)"

text \<open>\<open>s.split(sep)\<close>: one piece more than there are separators.\<close>

fun split_on :: "uchar \<Rightarrow> ustring \<Rightarrow> ustring list" where
  "split_on d [] = [[]]"
| "split_on d (c # s) =
     (if c = d then [] # split_on d s
      else case split_on d s of [] \<Rightarrow> [[c]] | p # ps \<Rightarrow> (c # p) # ps)"

text \<open>\<open>haystack.find(needle)\<close>, counted in characters.\<close>

fun find_text :: "ustring \<Rightarrow> ustring \<Rightarrow> nat option" where
  "find_text needle [] = (if needle = [] then Some 0 else None)"
| "find_text needle (c # s) =
     (if take (length needle) (c # s) = needle then Some 0 else map_option Suc (find_text needle s))"

lemma find_text_Some:
  "find_text needle s = Some i \<longleftrightarrow>
   i \<le> length s \<and> take (length needle) (drop i s) = needle \<and> (\<forall>j < i. take (length needle) (drop j s) \<noteq> needle)"
proof (induction s arbitrary: i)
  case Nil
  then show ?case by auto
next
  case (Cons c s)
  then show ?case
    by (cases i) (auto simp: All_less_Suc2)
qed

lemma find_text_None:
  "find_text needle s = None \<longleftrightarrow> (\<forall>j \<le> length s. take (length needle) (drop j s) \<noteq> needle)"
proof (induction s)
  case Nil
  then show ?case by auto
next
  case (Cons c s)
  then show ?case
    by (auto simp: less_Suc_eq_le [symmetric] All_less_Suc2)
qed

end
