(* ===== verification/Envelope.thy ===== *)
theory Envelope
  imports JsonProps Strings
begin

text \<open>
  The message envelope between agent sessions, \<open>crates/marspot-peer/src/envelope.rs\<close>: a header of
  attributes in a fixed order, a body in which anything that reads as the closing tag is escaped, and
  the reader.  Text is a list of characters; \<open>\<open>&after[..end]\<close>\<close> cuts at character borders, since what is
  searched for is ASCII.
\<close>

section \<open>The header\<close>

definition TAG :: ustring where
  "TAG = lit ''cross-session-message''"

datatype mode = Bypass | Prompting

definition mode_as_str :: "mode \<Rightarrow> ustring" where
  "mode_as_str m = (case m of Bypass \<Rightarrow> lit ''bypass'' | Prompting \<Rightarrow> lit ''prompting'')"

definition mode_parse :: "ustring \<Rightarrow> mode option" where
  "mode_parse s =
     (if s = lit ''bypass'' then Some Bypass else if s = lit ''prompting'' then Some Prompting else None)"

record header =
  h_from :: ustring
  h_from_name :: "ustring option"
  h_from_mode :: "mode option"

record parsed =
  p_from :: "ustring option"
  p_from_session :: "ustring option"
  p_hop_chain :: "ustring list option"
  p_from_name :: "ustring option"
  p_from_mode :: "mode option"
  p_from_plugin :: "ustring option"
  p_body :: ustring

definition MAX_NAME :: nat where
  "MAX_NAME = 80"

definition address_byte :: "uchar \<Rightarrow> bool" where
  "address_byte c \<longleftrightarrow> ascii_alnum c \<or> c \<in> set (lit ''%:_/.'' @ [0x5C, 0x2D])"

definition is_address :: "ustring \<Rightarrow> bool" where
  "is_address s \<longleftrightarrow> s \<noteq> [] \<and> length (as_bytes s) \<le> 300 \<and> list_all (\<lambda>b. address_byte (unat b)) (as_bytes s)"

definition clean_name :: "ustring \<Rightarrow> ustring" where
  "clean_name s =
     trim (take MAX_NAME (filter (\<lambda>c. c \<noteq> 0x22 \<and> c \<noteq> 0x3C \<and> c \<noteq> 0x3E \<and> \<not> is_control c) s))"

section \<open>Escaping the body\<close>

definition is_open :: "uchar \<Rightarrow> bool" where
  "is_open c \<longleftrightarrow> c \<in> {0x3C, 0xFF1C, 0xFE64, 0x2329, 0x27E8, 0x3008, 0x2039, 0x02C2, 0x1438, 0x276C,
     0x276E, 0x2770, 0x29FC, 0x226E, 0x227A, 0x22D6}"

definition is_close :: "uchar \<Rightarrow> bool" where
  "is_close c \<longleftrightarrow> c \<in> {0x3E, 0xFF1E, 0xFE65, 0x232A, 0x27E9, 0x3009, 0x203A, 0x02C3, 0x1433, 0x276D,
     0x276F, 0x2771, 0x29FD, 0x226F, 0x227B, 0x22D7}"

definition is_slash :: "uchar \<Rightarrow> bool" where
  "is_slash c \<longleftrightarrow> c \<in> {0x2F, 0xFF0F, 0x2215, 0x2044}"

definition word_char :: "uchar \<Rightarrow> bool" where
  "word_char c \<longleftrightarrow> ascii_alnum c \<or> c = 0x5F \<or> c = 0x2D"

definition is_filler :: "uchar \<Rightarrow> bool" where
  "is_filler c \<longleftrightarrow> \<not> (word_char c \<or> is_open c \<or> is_close c \<or> is_slash c)"

definition is_dash :: "uchar \<Rightarrow> bool" where
  "is_dash c \<longleftrightarrow> c \<in> {0x2D, 0x5F, 0x2017, 0x2212, 0x207B, 0x208B, 0x02CD, 0x02D7, 0x0640, 0x07FA, 0x2043,
     0x2796, 0x30FC, 0xFE58, 0xFE63, 0xFF0D, 0xFF3F, 0xFF70} \<or> 0x2010 \<le> c \<and> c \<le> 0x2015"

definition is_invisible :: "uchar \<Rightarrow> bool" where
  "is_invisible c \<longleftrightarrow> c = 0x00AD \<or> c = 0x180E \<or> 0x200B \<le> c \<and> c \<le> 0x200F \<or> 0x202A \<le> c \<and> c \<le> 0x202E \<or>
     0x2060 \<le> c \<and> c \<le> 0x206F \<or> 0xFE00 \<le> c \<and> c \<le> 0xFE0F \<or> c = 0xFEFF \<or>
     is_control c \<and> c \<noteq> 0x0A \<and> c \<noteq> 0x09 \<and> c \<noteq> 0x0D"

text \<open>One letter of the tag, then the rest with invisible characters in between.\<close>

definition tag_char :: "uchar \<Rightarrow> uchar \<Rightarrow> bool" where
  "tag_char want got \<longleftrightarrow> (if want = 0x2D then is_dash got else ascii_lower got = ascii_lower want)"

fun match_tag :: "bool \<Rightarrow> ustring \<Rightarrow> ustring \<Rightarrow> ustring option" where
  "match_tag first [] s = Some s"
| "match_tag first (want # wants) s =
     (case (if first then s else dropWhile is_invisible s) of
        [] \<Rightarrow> None
      | got # r \<Rightarrow> if tag_char want got then match_tag False wants r else None)"

definition closes_tag :: "ustring \<Rightarrow> bool" where
  "closes_tag s =
     (case dropWhile is_filler s of
        [] \<Rightarrow> False
      | c # r \<Rightarrow> is_slash c \<and>
          (case match_tag True TAG (dropWhile is_filler r) of
             None \<Rightarrow> False
           | Some [] \<Rightarrow> True
           | Some (e # _) \<Rightarrow> \<not> word_char e))"

definition needs_escape :: "uchar \<Rightarrow> ustring \<Rightarrow> bool" where
  "needs_escape c s \<longleftrightarrow> is_open c \<and> take 1 s \<noteq> [0x5C] \<and> closes_tag s"

fun escape_body :: "ustring \<Rightarrow> ustring" where
  "escape_body [] = []"
| "escape_body (c # s) = (if needs_escape c s then [c, 0x5C] else [c]) @ escape_body s"

section \<open>Writing\<close>

definition attr_text :: "ustring \<Rightarrow> ustring \<Rightarrow> ustring" where
  "attr_text k v = [0x20] @ k @ [0x3D, 0x22] @ v @ [0x22]"

definition closing :: ustring where
  "closing = [0x0A, 0x3C, 0x2F] @ TAG @ [0x3E]"

definition envelope_encode :: "header \<Rightarrow> ustring \<Rightarrow> ustring" where
  "envelope_encode h body =
     [0x3C] @ TAG @
     (if is_address (h_from h) then attr_text (lit ''from'') (h_from h) else []) @
     (case map_option clean_name (h_from_name h) of
        Some n \<Rightarrow> if n \<noteq> [] then attr_text (lit ''from-name'') n else []
      | None \<Rightarrow> []) @
     (case h_from_mode h of Some m \<Rightarrow> attr_text (lit ''from-mode'') (mode_as_str m) | None \<Rightarrow> []) @
     [0x3E, 0x0A] @ escape_body body @ closing"

section \<open>Reading\<close>

text \<open>
  The closure \<open>attr\<close>: the rest of the text goes in and out.  No such attribute is \<open>Some (None, rest)\<close>, a
  malformed one fails the whole parse.
\<close>

definition attr :: "string \<Rightarrow> (ustring \<Rightarrow> bool) \<Rightarrow> ustring \<Rightarrow> (ustring option \<times> ustring) option" where
  "attr name ok rest =
     (case Option.bind (Option.bind (strip_prefix [0x20] rest) (strip_prefix (lit name))) (strip_prefix [0x3D, 0x22]) of
        None \<Rightarrow> Some (None, rest)
      | Some after \<Rightarrow>
          let value = takeWhile (\<lambda>c. c \<noteq> 0x22) after
          in if length value = length after then None
             else if \<not> ok value then None
             else Some (Some value, drop (length value + 1) after))"

definition attr_is_text :: "ustring \<Rightarrow> bool" where
  "attr_is_text v \<longleftrightarrow> v \<noteq> [] \<and> list_all (\<lambda>c. c \<noteq> 0x3C \<and> c \<noteq> 0x3E \<and> c \<noteq> 0x0A \<and> c \<noteq> 0x0D) v"

definition session_ok :: "ustring \<Rightarrow> bool" where
  "session_ok v \<longleftrightarrow> (let b = as_bytes v in 1 \<le> length b \<and> length b \<le> 80 \<and> list_all (\<lambda>x. word_char (unat x)) b)"

definition hop_ok :: "ustring \<Rightarrow> bool" where
  "hop_ok v \<longleftrightarrow> list_all (\<lambda>h. length (as_bytes h) = 24 \<and>
     list_all (\<lambda>b. within 0x30 0x39 b \<or> within 0x61 0x66 b) (as_bytes h)) (split_on 0x2C v)"

definition envelope_parse :: "ustring \<Rightarrow> parsed option" where
  "envelope_parse content =
     Option.bind (Option.bind (strip_prefix [0x3C] content) (strip_prefix TAG)) (\<lambda>rest.
     Option.bind (attr ''from'' is_address rest) (\<lambda>(from, rest).
     Option.bind (attr ''from-session'' session_ok rest) (\<lambda>(session, rest).
     Option.bind (attr ''hop-chain'' hop_ok rest) (\<lambda>(hops, rest).
     Option.bind (attr ''from-name'' attr_is_text rest) (\<lambda>(name, rest).
     Option.bind (attr ''from-mode'' (\<lambda>v. mode_parse v \<noteq> None) rest) (\<lambda>(mode, rest).
     Option.bind (attr ''from-plugin'' attr_is_text rest) (\<lambda>(plugin, rest).
     Option.bind (Option.bind (strip_prefix [0x3E, 0x0A] rest) (strip_suffix closing)) (\<lambda>body.
       Some \<lparr>p_from = from, p_from_session = session, p_hop_chain = map_option (split_on 0x2C) hops,
             p_from_name = name, p_from_mode = Option.bind mode mode_parse, p_from_plugin = plugin,
             p_body = body\<rparr>))))))))"

section \<open>The body cannot end its envelope\<close>

definition tail_ok :: "ustring \<Rightarrow> bool" where
  "tail_ok t \<longleftrightarrow> t = [] \<or> take 2 t = [0x0A, 0x3C]"

lemma tail_cases:
  assumes "tail_ok t"
  obtains "t = []" | u where "t = 0x0A # 0x3C # u"
  using assms by (cases t; cases "tl t") (auto simp: tail_ok_def)

lemma tail_closing: "tail_ok closing" "tail_ok []"
  by (simp_all add: tail_ok_def closing_def)

lemma not_open_filler: "is_filler c \<Longrightarrow> \<not> is_open c"
  by (simp add: is_filler_def)

lemma not_open_slash: "is_slash c \<Longrightarrow> \<not> is_open c"
  by (auto simp: is_slash_def is_open_def)

lemma not_open_invisible: "is_invisible c \<Longrightarrow> \<not> is_open c"
  by (auto simp: is_invisible_def is_open_def is_control_def)

lemma escape_not_open: "\<not> is_open c \<Longrightarrow> escape_body (c # s) = c # escape_body s"
  by (simp add: needs_escape_def)

lemma escape_head: "\<exists>r. escape_body (c # s) @ t = c # r"
  by simp

lemma TAG_eq: "TAG = [0x63, 0x72, 0x6F, 0x73, 0x73, 0x2D, 0x73, 0x65, 0x73, 0x73, 0x69, 0x6F, 0x6E, 0x2D, 0x6D, 0x65, 0x73, 0x73, 0x61, 0x67, 0x65]"
  by code_simp

lemma TAG_letters: "\<forall>w \<in> set TAG. \<not> is_open w \<and> ascii_lower w = w"
  by (simp add: TAG_eq is_open_def ascii_lower_def)

lemma open_chars: "is_open c \<Longrightarrow> \<not> is_dash c \<and> ascii_lower c = c"
  unfolding is_open_def by (elim insertE) (simp_all add: is_dash_def ascii_lower_def)

lemma tag_char_not_open: "w \<in> set TAG \<Longrightarrow> tag_char w c \<Longrightarrow> \<not> is_open c"
  using TAG_letters open_chars [of c] by (auto simp: tag_char_def split: if_splits)

lemma tag_char_newline: "w \<in> set TAG \<Longrightarrow> \<not> tag_char w 0x0A"
  using TAG_letters by (auto simp: tag_char_def is_dash_def ascii_lower_def [of "0x0A"] TAG_eq)

text \<open>Skipping characters that do not open a tag commutes with escaping.\<close>

lemma dropWhile_escape:
  assumes "\<And>c. P c \<Longrightarrow> \<not> is_open c"
  shows "dropWhile P (escape_body s @ t) = (if dropWhile P s = [] then dropWhile P t else escape_body (dropWhile P s) @ t)"
proof (induction s)
  case (Cons c s)
  then show ?case
    using assms escape_not_open [of c s] escape_head [of c s t] by (cases "P c") (auto simp del: escape_body.simps(2))
qed simp

lemma match_tag_escape:
  assumes "set wants \<subseteq> set TAG" "tail_ok t"
  shows "match_tag first wants (escape_body s @ t) = map_option (\<lambda>r. escape_body r @ t) (match_tag first wants s)"
  using assms(1)
proof (induction wants arbitrary: first s)
  case (Cons w wants)
  define d where "d = (if first then s else dropWhile is_invisible s)"
  have t: "dropWhile is_invisible t = t"
    by (rule tail_cases [OF assms(2)]) (simp_all add: is_invisible_def is_control_def)
  have e: "(if first then escape_body s @ t else dropWhile is_invisible (escape_body s @ t)) = escape_body d @ t"
    using dropWhile_escape [of is_invisible s t] not_open_invisible t
    by (cases "dropWhile is_invisible s = []") (simp_all add: d_def del: dropWhile_eq_Nil_conv)
  show ?case
  proof (cases d)
    case Nil
    have "\<not> tag_char w 0x0A"
      using Cons.prems by (intro tag_char_newline) simp
    then show ?thesis
      unfolding match_tag.simps e d_def [symmetric] Nil by (rule_tac tail_cases [OF assms(2)]) simp_all
  next
    case (Cons c r)
    have wants: "set wants \<subseteq> set TAG" "w \<in> set TAG"
      using Cons.prems by simp_all
    show ?thesis
      unfolding match_tag.simps e d_def [symmetric] Cons
      using Cons.IH [OF wants(1)] escape_not_open [OF tag_char_not_open [OF wants(2)], of c r] by simp
  qed
qed simp

lemma closes_tag_escape:
  assumes "tail_ok t"
  shows "closes_tag (escape_body s @ t) = closes_tag s"
proof -
  note skip = dropWhile_escape [OF not_open_filler]
  have t: "dropWhile is_filler t = [] \<or> (\<exists>u. dropWhile is_filler t = 0x3C # u)"
    by (rule tail_cases [OF assms]) (simp_all add: is_filler_def word_char_def ascii_alnum_def is_open_def is_close_def is_slash_def)
  have bar: "\<not> is_slash 0x3C" "\<not> tag_char (hd TAG) 0x3C"
    by (simp_all add: is_slash_def tag_char_def TAG_eq ascii_lower_def)
  show ?thesis
  proof (cases "dropWhile is_filler s")
    case Nil
    then show ?thesis
      using t bar by (elim disjE exE) (simp_all add: closes_tag_def skip del: dropWhile_eq_Nil_conv)
  next
    case (Cons c r)
    show ?thesis
    proof (cases "is_slash c")
      case False
      then show ?thesis
        using Cons by (simp add: closes_tag_def skip del: dropWhile_eq_Nil_conv)
    next
      case True
      define q where "q = dropWhile is_filler r"
      have c: "escape_body (c # r) = c # escape_body r"
        using True by (intro escape_not_open not_open_slash)
      have m: "match_tag True TAG (dropWhile is_filler (escape_body r @ t)) =
          map_option (\<lambda>r. escape_body r @ t) (match_tag True TAG q)"
      proof (cases "q = []")
        case True
        have "match_tag True TAG u = None" if "u = [] \<or> (\<exists>v. u = 0x3C # v)" for u
          using that bar(2) by (cases TAG) (auto simp: TAG_eq)
        then show ?thesis
          using True t by (simp add: skip q_def [symmetric] del: dropWhile_eq_Nil_conv)
      next
        case False
        then show ?thesis
          using match_tag_escape [OF subset_refl assms] by (simp add: skip q_def [symmetric] del: dropWhile_eq_Nil_conv)
      qed
      have last: "(case escape_body u @ t of [] \<Rightarrow> True | e # _ \<Rightarrow> \<not> word_char e) = (case u of [] \<Rightarrow> True | e # _ \<Rightarrow> \<not> word_char e)" for u
      proof (cases u)
        case Nil
        then show ?thesis
          by (rule_tac tail_cases [OF assms]) (simp_all add: word_char_def ascii_alnum_def)
      qed simp
      show ?thesis
        using Cons True c m by (simp add: closes_tag_def skip q_def [symmetric] last split: option.split del: dropWhile_eq_Nil_conv)
    qed
  qed
qed

lemma needs_escape_escape:
  assumes "tail_ok t"
  shows "needs_escape c (escape_body s @ t) = needs_escape c s"
proof -
  have "take 1 (escape_body s @ t) = [0x5C] \<longleftrightarrow> take 1 s = [0x5C]"
  proof (cases s)
    case Nil
    then show ?thesis by (rule_tac tail_cases [OF assms]) simp_all
  qed simp
  then show ?thesis
    using closes_tag_escape [OF assms] by (simp add: needs_escape_def)
qed

lemma escaped_sealed:
  assumes "tail_ok t" "i < length (escape_body s)"
  shows "\<not> needs_escape ((escape_body s @ t) ! i) (drop (Suc i) (escape_body s @ t))"
  using assms(2)
proof (induction s arbitrary: i)
  case (Cons c s)
  have slash: "\<not> needs_escape 0x5C u" for u
    by (simp add: needs_escape_def is_open_def)
  show ?case
  proof (cases "needs_escape c s")
    case True
    have first: "\<not> needs_escape c (0x5C # u)" for u
      by (simp add: needs_escape_def)
    show ?thesis
      using True Cons first slash by (cases i; cases "i - 1") (auto simp: nth_Cons')
  next
    case False
    then show ?thesis
      using Cons needs_escape_escape [OF assms(1)] by (cases i) simp_all
  qed
qed simp

lemma escape_idempotent: "escape_body (escape_body s) = escape_body s"
proof -
  have "escape_body u = u" if "\<And>i. i < length u \<Longrightarrow> \<not> needs_escape (u ! i) (drop (Suc i) u)" for u
    using that
  proof (induction u)
    case (Cons c u)
    have "\<not> needs_escape c u"
      using Cons.prems [of 0] by simp
    moreover have "escape_body u = u"
      using Cons.prems [of "Suc _"] by (intro Cons.IH) simp
    ultimately show ?case by simp
  qed simp
  then show ?thesis
    using escaped_sealed [OF tail_closing(2), of _ s] by simp
qed

lemma closing_rest: "closing = 0x0A # 0x3C # 0x2F # TAG @ [0x3E]"
  by (simp add: closing_def)

lemma TAG_not_open: "\<forall>c \<in> set (0x2F # TAG @ [0x3E]). \<not> is_open c"
  by (simp add: is_open_def TAG_eq)

lemma TAG_closes: "closes_tag (0x2F # TAG @ [0x3E])"
  by (simp add: closes_tag_def TAG_eq is_open_def is_filler_def word_char_def ascii_alnum_def is_close_def is_slash_def
      tag_char_def ascii_lower_def is_dash_def is_invisible_def is_control_def)

lemma closing_opens:
  assumes "j < length closing"
  shows "needs_escape (closing ! j) (drop (Suc j) closing) \<longleftrightarrow> j = 1"
proof -
  consider "j = 0" | "j = 1" | k where "j = Suc (Suc k)"
    by (metis One_nat_def not0_implies_Suc)
  then show ?thesis
  proof cases
    case 1
    then show ?thesis by (simp add: closing_rest needs_escape_def is_open_def)
  next
    case 2
    then show ?thesis using TAG_closes by (simp add: closing_rest needs_escape_def is_open_def)
  next
    case 3
    define rest where "rest = 0x2F # TAG @ [0x3E]"
    have c: "closing = 0x0A # 0x3C # rest"
      by (simp add: closing_rest rest_def)
    have "closing ! j \<in> set rest"
      using assms 3 by (simp add: c)
    then show ?thesis
      using TAG_not_open 3 unfolding rest_def [symmetric] needs_escape_def by auto
  qed
qed

text \<open>
  C9: a body cannot end its envelope early.  Whatever the body, in the text that follows the header
  exactly one place reads as the closing tag by the receiver's rule, and it is the envelope's own.
\<close>
theorem envelope_sealed:
  "{i. i < length (escape_body body @ closing) \<and>
       needs_escape ((escape_body body @ closing) ! i) (drop (Suc i) (escape_body body @ closing))} =
   {length (escape_body body) + 1}"
proof -
  define n where "n = length (escape_body body)"
  have "i < n + length closing \<and> needs_escape ((escape_body body @ closing) ! i) (drop (Suc i) (escape_body body @ closing)) \<longleftrightarrow> i = n + 1" for i
  proof (cases "i < n")
    case True
    then show ?thesis
      using escaped_sealed [OF tail_closing(1)] by (simp add: n_def)
  next
    case False
    define j where "j = i - n"
    have "i = n + j" "(escape_body body @ closing) ! i = closing ! j" "drop (Suc i) (escape_body body @ closing) = drop (Suc j) closing"
      using False by (simp_all add: j_def n_def nth_append Suc_diff_le)
    then show ?thesis
      using closing_opens [of j] by (auto simp: closing_def)
  qed
  then show ?thesis
    by (auto simp: n_def)
qed

section \<open>What is written is read\<close>

lemma strip_prefix_append [simp]: "strip_prefix p (p @ s) = Some s"
  by (simp add: strip_prefix_def)

lemma strip_suffix_append [simp]: "strip_suffix p (s @ p) = Some s"
  by (simp add: strip_suffix_def)

lemma attr_present:
  assumes "ok v" "0x22 \<notin> set v"
  shows "attr name ok (attr_text (lit name) v @ rest) = Some (Some v, rest)"
proof -
  have "attr_text (lit name) v @ rest = [0x20] @ lit name @ [0x3D, 0x22] @ v @ 0x22 # rest"
    by (simp add: attr_text_def)
  moreover have "takeWhile (\<lambda>c. c \<noteq> 0x22) (v @ 0x22 # rest) = v"
    using assms(2) by (subst takeWhile_append2) auto
  ultimately show ?thesis
    using assms(1) by (simp only: attr_def strip_prefix_append bind.bind_lunit option.case Let_def) simp
qed

lemma attr_absent: "attr name ok (0x3E # rest) = Some (None, 0x3E # rest)"
  by (simp add: attr_def strip_prefix_def)

lemma lit_names:
  "lit ''from'' = [0x66, 0x72, 0x6F, 0x6D]"
  "lit ''from-session'' = [0x66, 0x72, 0x6F, 0x6D, 0x2D, 0x73, 0x65, 0x73, 0x73, 0x69, 0x6F, 0x6E]"
  "lit ''hop-chain'' = [0x68, 0x6F, 0x70, 0x2D, 0x63, 0x68, 0x61, 0x69, 0x6E]"
  "lit ''from-name'' = [0x66, 0x72, 0x6F, 0x6D, 0x2D, 0x6E, 0x61, 0x6D, 0x65]"
  "lit ''from-mode'' = [0x66, 0x72, 0x6F, 0x6D, 0x2D, 0x6D, 0x6F, 0x64, 0x65]"
  "lit ''from-plugin'' = [0x66, 0x72, 0x6F, 0x6D, 0x2D, 0x70, 0x6C, 0x75, 0x67, 0x69, 0x6E]"
  by code_simp+

lemma attr_other:
  "attr ''from'' ok (attr_text (lit ''from-name'') v @ rest) = Some (None, attr_text (lit ''from-name'') v @ rest)"
  "attr ''from'' ok (attr_text (lit ''from-mode'') v @ rest) = Some (None, attr_text (lit ''from-mode'') v @ rest)"
  "attr ''from-session'' ok (attr_text (lit ''from-name'') v @ rest) = Some (None, attr_text (lit ''from-name'') v @ rest)"
  "attr ''from-session'' ok (attr_text (lit ''from-mode'') v @ rest) = Some (None, attr_text (lit ''from-mode'') v @ rest)"
  "attr ''hop-chain'' ok (attr_text (lit ''from-name'') v @ rest) = Some (None, attr_text (lit ''from-name'') v @ rest)"
  "attr ''hop-chain'' ok (attr_text (lit ''from-mode'') v @ rest) = Some (None, attr_text (lit ''from-mode'') v @ rest)"
  "attr ''from-name'' ok (attr_text (lit ''from-mode'') v @ rest) = Some (None, attr_text (lit ''from-mode'') v @ rest)"
  by (simp_all add: attr_def attr_text_def strip_prefix_def lit_names)

lemma address_quote: "is_address s \<Longrightarrow> 0x22 \<notin> set s"
proof
  assume a: "is_address s" "0x22 \<in> set s"
  have "0x22 \<in> set u \<Longrightarrow> 0x22 \<in> set (as_bytes u)" for u
    by (induction u) (auto simp: encode_ascii)
  with a(2) have "0x22 \<in> set (as_bytes s)" by blast
  then have "address_byte 0x22"
    using a(1) by (auto simp: is_address_def list_all_iff)
  moreover have "\<not> address_byte 0x22"
    by code_simp
  ultimately show False by simp
qed

lemma set_trim: "set (trim s) \<subseteq> set s"
  by (auto simp: trim_def dest!: set_dropWhileD)

lemma clean_name_chars:
  assumes "c \<in> set (clean_name s)"
  shows "c \<in> set s" "c \<noteq> 0x22" "c \<noteq> 0x3C" "c \<noteq> 0x3E" "\<not> is_control c"
  using assms set_trim by (fastforce simp: clean_name_def dest: in_set_takeD)+

lemma clean_name_text: "clean_name s \<noteq> [] \<Longrightarrow> attr_is_text (clean_name s)"
  using clean_name_chars(3,4) [of _ s] clean_name_chars(5) [of "0x0A" s] clean_name_chars(5) [of "0x0D" s]
  by (auto simp: attr_is_text_def list_all_iff is_control_def)

lemma mode_names: "lit ''bypass'' = [0x62, 0x79, 0x70, 0x61, 0x73, 0x73]"
  "lit ''prompting'' = [0x70, 0x72, 0x6F, 0x6D, 0x70, 0x74, 0x69, 0x6E, 0x67]"
  by code_simp+

lemma mode_roundtrip [simp]: "mode_parse (mode_as_str m) = Some m" "0x22 \<notin> set (mode_as_str m)"
  by (cases m; simp add: mode_parse_def mode_as_str_def mode_names)+

text \<open>
  A message read is the message sent.  Reading what \<open>encode\<close> writes gives back the reply
  address if it is one, the display name cleaned, the permission class, and the body as escaped.
\<close>
lemma envelope_written_reads:
  "envelope_parse (envelope_encode h body) =
   Some \<lparr>p_from = (if is_address (h_from h) then Some (h_from h) else None), p_from_session = None,
         p_hop_chain = None,
         p_from_name = (case h_from_name h of None \<Rightarrow> None | Some n \<Rightarrow> if clean_name n = [] then None else Some (clean_name n)),
         p_from_mode = h_from_mode h, p_from_plugin = None, p_body = escape_body body\<rparr>"
proof -
  define fin where "fin = 0x3E # 0x0A # escape_body body @ closing"
  define m where "m = (case h_from_mode h of Some m \<Rightarrow> attr_text (lit ''from-mode'') (mode_as_str m) | None \<Rightarrow> []) @ fin"
  define name where "name = (case h_from_name h of None \<Rightarrow> None | Some n \<Rightarrow> if clean_name n = [] then None else Some (clean_name n))"
  define n where "n = (case name of Some n \<Rightarrow> attr_text (lit ''from-name'') n | None \<Rightarrow> []) @ m"
  have msg: "envelope_encode h body = [0x3C] @ TAG @
      (if is_address (h_from h) then attr_text (lit ''from'') (h_from h) else []) @ n"
    by (simp add: envelope_encode_def n_def m_def fin_def name_def split: option.split)
  have none: "attr k ok fin = Some (None, fin)" for k ok
    by (simp add: fin_def attr_absent)
  have m_other: "attr ''from'' ok m = Some (None, m)" "attr ''from-session'' ok m = Some (None, m)"
      "attr ''hop-chain'' ok m = Some (None, m)" "attr ''from-name'' ok m = Some (None, m)" for ok
    by (cases "h_from_mode h"; simp add: m_def none attr_other)+
  have n_other: "attr ''from'' ok n = Some (None, n)" "attr ''from-session'' ok n = Some (None, n)"
      "attr ''hop-chain'' ok n = Some (None, n)" for ok
    by (cases name; simp add: n_def m_other attr_other)+
  have addr: "attr ''from'' is_address ((if is_address (h_from h) then attr_text (lit ''from'') (h_from h) else []) @ n) =
      Some (if is_address (h_from h) then Some (h_from h) else None, n)"
    using n_other(1) attr_present [of is_address "h_from h" "''from''" n] address_quote by simp
  have n_name: "attr ''from-name'' attr_is_text n = Some (name, m)"
  proof (cases name)
    case None
    then show ?thesis by (simp add: n_def m_other)
  next
    case (Some v)
    then obtain u where "v = clean_name u" "v \<noteq> []"
      by (auto simp: name_def split: option.splits if_splits)
    then show ?thesis
      using attr_present [of attr_is_text v "''from-name''" m] clean_name_text [of u] clean_name_chars(2) [of _ u] Some
      by (auto simp: n_def)
  qed
  have m_mode: "attr ''from-mode'' (\<lambda>v. mode_parse v \<noteq> None) m = Some (map_option mode_as_str (h_from_mode h), fin)"
    using none attr_present [of "\<lambda>v. mode_parse v \<noteq> None" _ "''from-mode''" fin] by (cases "h_from_mode h") (simp_all add: m_def)
  have body: "Option.bind (strip_prefix [0x3E, 0x0A] fin) (strip_suffix closing) = Some (escape_body body)"
    using strip_prefix_append [of "[0x3E, 0x0A]" "escape_body body @ closing"] by (simp add: fin_def)
  have mode: "Option.bind (map_option mode_as_str (h_from_mode h)) mode_parse = h_from_mode h"
    by (cases "h_from_mode h") simp_all
  show ?thesis
    unfolding envelope_parse_def msg strip_prefix_append bind.bind_lunit addr prod.case n_other n_name m_mode none body
    by (simp add: mode name_def)
qed

end
