(* ===== verification/Frame.thy ===== *)
theory Frame
  imports Envelope
begin

text \<open>
  Frames on an inbox socket, \<open>crates/marspot-peer/src/frame.rs\<close>: one JSON object per line.  The lines
  the code writes, the reader, and that a frame written is read, envelope included.
\<close>

section \<open>Lines\<close>

definition json_line :: "json \<Rightarrow> ustring" where
  "json_line v = to_json v @ [0x0A]"

datatype priority = Now | Next | Later

definition priority_as_str :: "priority \<Rightarrow> ustring" where
  "priority_as_str p = (case p of Now \<Rightarrow> lit ''now'' | Next \<Rightarrow> lit ''next'' | Later \<Rightarrow> lit ''later'')"

definition priority_parse :: "ustring \<Rightarrow> priority option" where
  "priority_parse s =
     (if s = lit ''now'' then Some Now else if s = lit ''next'' then Some Next
      else if s = lit ''later'' then Some Later else None)"

record user_frame =
  u_content :: ustring
  u_from :: "ustring option"
  u_priority :: priority
  u_msg_id :: "ustring option"

datatype inbound = Auth | User user_frame | Control ustring json | Other

datatype frame_error = BadJson json_error | NoTextContent

definition parse_line :: "ustring \<Rightarrow> (frame_error + inbound) option" where
  "parse_line line =
     (case json_parse line of
        None \<Rightarrow> None
      | Some (Inl e) \<Rightarrow> Some (Inl (BadJson e))
      | Some (Inr v) \<Rightarrow> Some (
          let type = json_str_at v (lit ''type'')
          in if type = Some (lit ''auth'') then Inr Auth
             else if type = Some (lit ''user'') then
               (case Option.bind (json_at v [lit ''message'', lit ''content'']) json_str of
                  Some content \<Rightarrow>
                    if content = [] then Inl NoTextContent
                    else Inr (User \<lparr>u_content = content, u_from = json_str_at v (lit ''from''),
                      u_priority = (case Option.bind (json_str_at v (lit ''priority'')) priority_parse of
                                      Some p \<Rightarrow> p | None \<Rightarrow> Next),
                      u_msg_id = json_str_at v (lit ''msg_id'')\<rparr>)
                | None \<Rightarrow> Inl NoTextContent)
             else if type = Some (lit ''control'') then
               Inr (Control (case json_str_at v (lit ''action'') of Some a \<Rightarrow> a | None \<Rightarrow> []) v)
             else Inr Other))"

definition user_line :: "ustring \<Rightarrow> ustring \<Rightarrow> priority \<Rightarrow> ustring \<Rightarrow> ustring" where
  "user_line content from priority msg_id = json_line (json_obj
     [(''msgV'', json_int 1), (''msg_id'', JStr msg_id), (''type'', JStr (lit ''user'')),
      (''message'', json_obj [(''role'', JStr (lit ''user'')), (''content'', JStr content)]),
      (''priority'', JStr (priority_as_str priority)), (''from'', JStr from)])"

definition notify_when_idle_line :: "ustring \<Rightarrow> ustring \<Rightarrow> ustring \<Rightarrow> ustring" where
  "notify_when_idle_line from from_mode msg_id = json_line (json_obj
     [(''type'', JStr (lit ''control'')), (''action'', JStr (lit ''notify_when_idle'')), (''from'', JStr from),
      (''from_mode'', JStr from_mode), (''msgV'', json_int 1), (''msg_id'', JStr msg_id)])"

datatype idle_state = Idle | Exited

definition idle_as_str :: "idle_state \<Rightarrow> ustring" where
  "idle_as_str s = (case s of Idle \<Rightarrow> lit ''idle'' | Exited \<Rightarrow> lit ''exited'')"

definition idle_notice_line :: "ustring \<Rightarrow> idle_state \<Rightarrow> int \<Rightarrow> ustring \<Rightarrow> ustring \<Rightarrow> ustring \<Rightarrow> ustring" where
  "idle_notice_line orig_msg_id state finished_at_ms from from_mode msg_id = json_line (json_obj
     [(''type'', JStr (lit ''control'')), (''action'', JStr (lit ''peer_idle_notice'')),
      (''orig_msg_id'', JStr orig_msg_id), (''state'', JStr (idle_as_str state)),
      (''finished_at'', json_int finished_at_ms), (''from'', JStr from), (''from_mode'', JStr from_mode),
      (''msgV'', json_int 1), (''msg_id'', JStr msg_id)])"

datatype drop_reason = RateLimited | HopRunaway | QueueFull

datatype receipt = Refused | Dropped drop_reason

definition drop_as_str :: "drop_reason \<Rightarrow> ustring" where
  "drop_as_str r = (case r of RateLimited \<Rightarrow> lit ''rate-limited'' | HopRunaway \<Rightarrow> lit ''hop-runaway''
     | QueueFull \<Rightarrow> lit ''queue-full'')"

definition receipt_line :: "receipt \<Rightarrow> ustring \<Rightarrow> ustring option \<Rightarrow> ustring \<Rightarrow> ustring" where
  "receipt_line r from orig_msg_id reason = json_line (json_obj (
     [(''type'', JStr (lit ''control'')), (''action'', JStr (lit ''peer_message_status''))] @
     (case r of
        Refused \<Rightarrow> [(''status'', JStr (lit ''expired'')), (''status_detail'', JStr (lit ''refused''))]
      | Dropped why \<Rightarrow> [(''status'', JStr (lit ''dropped'')), (''drop_reason'', JStr (drop_as_str why)),
          (''dropped_msg_ids'', JArr (case orig_msg_id of Some i \<Rightarrow> [JStr i] | None \<Rightarrow> []))]) @
     [(''reason'', JStr reason), (''from'', JStr from)] @
     (case orig_msg_id of Some i \<Rightarrow> [(''orig_msg_id'', JStr i)] | None \<Rightarrow> [])))"

section \<open>One frame is one line\<close>

lemma write_char_line: "0x0A \<notin> set (write_char c)"
  by (auto simp: write_char_def hex_digit_def)

lemma write_str_line: "0x0A \<notin> set (write_str s)"
  using write_char_line by (auto simp: write_str_def)

lemma lit_words_line: "0x0A \<notin> set (lit ''null'')" "0x0A \<notin> set (lit ''true'')" "0x0A \<notin> set (lit ''false'')"
  by code_simp+

lemma number_line:
  assumes "number_text t"
  shows "0x0A \<notin> set (ascii_text t)"
proof
  assume "0x0A \<in> set (ascii_text t)"
  then obtain b where "b \<in> set t" "unat b = 0x0A"
    by (auto simp: ascii_text_def)
  then have "number_byte b" "b = 0x0A"
    using assms by (auto simp: number_text_def list_all_iff word_unat_eq_iff)
  then show False
    by (simp add: number_byte_def is_digit_def within_def)
qed

lemma comma_sep_line: "\<forall>x \<in> set xs. 0x0A \<notin> set x \<Longrightarrow> 0x0A \<notin> set (comma_sep xs)"
  by (induction xs rule: comma_sep.induct) auto

lemma to_json_line: "0x0A \<notin> set (to_json v)"
proof (induction v)
  case (JNum n)
  show ?case
  proof (cases "is_finite n")
    case True
    then show ?thesis
      using write_num_text number_line by (metis to_json.simps(3))
  next
    case False
    then show ?thesis by (simp add: write_num_def lit_words_line)
  qed
next
  case (JArr a)
  then have "0x0A \<notin> set (comma_sep (map to_json a))"
    by (intro comma_sep_line) auto
  then show ?case by simp
next
  case (JObj kv)
  then have "0x0A \<notin> set (comma_sep (map member kv))"
    using write_str_line by (intro comma_sep_line) (auto simp: member_def)
  then show ?case by (simp add: to_json_obj del: to_json.simps)
qed (simp_all add: write_str_line lit_words_line)

lemma json_line_reads:
  assumes "json_wf v" "nest v \<le> MAX_DEPTH"
  shows "json_parse (json_line v) = Some (Inr (canon v))"
proof -
  have "json_value (MAX_DEPTH + 1) (as_bytes (json_line v)) 0 = Some (Inr (canon v, length (as_bytes (to_json v))))"
    using readsD [OF json_value_written [OF assms(1), of "MAX_DEPTH + 1"], of 0 "as_bytes (json_line v)" "[0x0A]"] assms(2)
    by (simp add: json_line_def encode_ascii ok_rest_def number_byte_def is_digit_def within_def)
  moreover have "ws (as_bytes (json_line v)) (length (as_bytes (to_json v))) = length (as_bytes (json_line v))"
    by (simp add: ws_def json_line_def encode_ascii is_ws_def)
  ultimately show ?thesis
    by (simp add: json_parse_def del: json_value.simps)
qed

section \<open>Frames read back\<close>

lemma one_canon: "canon (json_int 1) = json_int 1"
  using from_i64_fields [of 1] by (simp add: json_int_def canon_num_def F_ONE_def)

lemma int_canon:
  assumes "\<bar>i\<bar> < 2 ^ 53"
  shows "canon (json_int i) = json_int i"
  using from_i64_fields [OF assms] by (auto simp: json_int_def canon_num_def)

lemma json_int_wf [simp]: "json_wf (json_int i)" "nest (json_int i) = 0" "\<And>k. json_get (json_int i) k = None" "json_str (json_int i) = None"
  by (simp_all add: json_int_def json_get_def json_str_def)

lemma json_int_i64:
  assumes "\<bar>i\<bar> < 2 ^ 53"
  shows "json_i64 (json_int i) = Some i"
  using from_i64_fields [OF assms] by (simp add: json_i64_def json_int_def)

lemma lit_wf [simp]: "str_wf (lit s)"
  by (auto simp: str_wf_def lit_def is_scalar_def intro: less_trans [OF nat_of_char_less_256])

lemma json_obj_wf:
  "json_wf (json_obj kv) \<longleftrightarrow> (\<forall>(k, v) \<in> set kv. json_wf v)"
  "nest (json_obj kv) \<le> n \<longleftrightarrow> (\<forall>(k, v) \<in> set kv. nest v < n)"
  "nest (json_obj kv) < n \<longleftrightarrow> 0 < n \<and> (\<forall>(k, v) \<in> set kv. nest v + 1 < n)"
  "canon (json_obj kv) = json_obj (map (\<lambda>(k, v). (k, canon v)) kv)"
proof -
  show le: "nest (json_obj kv) \<le> n \<longleftrightarrow> (\<forall>(k, v) \<in> set kv. nest v < n)" for n
    by (auto simp: json_obj_def nest_less less_Suc_eq_le [symmetric])
  show "nest (json_obj kv) < n \<longleftrightarrow> 0 < n \<and> (\<forall>(k, v) \<in> set kv. nest v + 1 < n)"
    using le [of "n - 1"] by (cases n) (auto simp: less_Suc_eq_le)
qed (auto simp: json_obj_def list_all_iff)

lemma lit_eq [simp]: "lit s = lit t \<longleftrightarrow> s = t"
  by (auto simp: lit_def inj_map_eq_map [OF inj_on_subset [OF inj_of_char subset_UNIV]])

lemma json_obj_get [simp]:
  "json_get (json_obj []) (lit k) = None"
  "json_get (json_obj ((k', v) # kv)) (lit k) = (if k' = k then Some v else json_get (json_obj kv) (lit k))"
  by (simp_all add: json_obj_def json_get_def)

lemma priority_roundtrip: "priority_parse (priority_as_str p) = Some p"
  by (cases p) (simp_all add: priority_parse_def priority_as_str_def)

lemma priority_wf: "str_wf (priority_as_str p)"
  by (cases p) (simp_all add: priority_as_str_def)

lemmas frame_defs = json_obj_wf json_str_at_def json_str_def one_canon Let_def

lemma user_line_reads:
  assumes "str_wf content" "str_wf from" "str_wf i" "content \<noteq> []"
  shows "parse_line (user_line content from p i) =
    Some (Inr (User \<lparr>u_content = content, u_from = Some from, u_priority = p, u_msg_id = Some i\<rparr>))"
proof -
  define v where "v = json_obj
     [(''msgV'', json_int 1), (''msg_id'', JStr i), (''type'', JStr (lit ''user'')),
      (''message'', json_obj [(''role'', JStr (lit ''user'')), (''content'', JStr content)]),
      (''priority'', JStr (priority_as_str p)), (''from'', JStr from)]"
  have "json_wf v" "nest v \<le> MAX_DEPTH"
    using assms priority_wf by (simp_all add: v_def frame_defs MAX_DEPTH_def less_Suc_eq_le)
  moreover have "canon v = v"
    by (simp add: v_def frame_defs)
  ultimately have "json_parse (user_line content from p i) = Some (Inr v)"
    using json_line_reads [of v] by (simp add: user_line_def v_def)
  then show ?thesis
    using assms(4) by (simp add: parse_line_def v_def frame_defs priority_roundtrip)
qed

text \<open>The control frames: action, correlation id, sender.\<close>

lemma control_lines_read:
  assumes "str_wf from" "str_wf mode" "str_wf i" "str_wf orig" "str_wf reason" "\<bar>at\<bar> < 2 ^ 53"
  shows
    "\<exists>v. parse_line (notify_when_idle_line from mode i) = Some (Inr (Control (lit ''notify_when_idle'') v)) \<and>
       json_str_at v (lit ''msg_id'') = Some i \<and> json_str_at v (lit ''from'') = Some from"
    "\<exists>v. parse_line (idle_notice_line orig state at from mode i) = Some (Inr (Control (lit ''peer_idle_notice'') v)) \<and>
       json_str_at v (lit ''orig_msg_id'') = Some orig \<and> json_str_at v (lit ''state'') = Some (idle_as_str state) \<and>
       Option.bind (json_get v (lit ''finished_at'')) json_i64 = Some at"
    "\<exists>v. parse_line (receipt_line r from (Some orig) reason) = Some (Inr (Control (lit ''peer_message_status'') v)) \<and>
       json_str_at v (lit ''orig_msg_id'') = Some orig \<and> json_str_at v (lit ''reason'') = Some reason \<and>
       json_str_at v (lit ''status'') = Some (if r = Refused then lit ''expired'' else lit ''dropped'')"
proof -
  have read: "parse_line (json_line v) = Some (Inr (Control a v))"
    if "json_wf v" "nest v \<le> MAX_DEPTH" "canon v = v" "json_str_at v (lit ''type'') = Some (lit ''control'')"
      "json_str_at v (lit ''action'') = Some a" for v a
    using json_line_reads [OF that(1,2)] that(3-) by (simp add: parse_line_def)
  define v where "v = json_obj
     [(''type'', JStr (lit ''control'')), (''action'', JStr (lit ''notify_when_idle'')), (''from'', JStr from),
      (''from_mode'', JStr mode), (''msgV'', json_int 1), (''msg_id'', JStr i)]"
  have "parse_line (json_line v) = Some (Inr (Control (lit ''notify_when_idle'') v))"
    using assms by (intro read) (simp_all add: v_def frame_defs MAX_DEPTH_def)
  then show "\<exists>v. parse_line (notify_when_idle_line from mode i) = Some (Inr (Control (lit ''notify_when_idle'') v)) \<and>
       json_str_at v (lit ''msg_id'') = Some i \<and> json_str_at v (lit ''from'') = Some from"
    by (intro exI [of _ v]) (simp add: notify_when_idle_line_def v_def frame_defs)
  define w where "w = json_obj
     [(''type'', JStr (lit ''control'')), (''action'', JStr (lit ''peer_idle_notice'')),
      (''orig_msg_id'', JStr orig), (''state'', JStr (idle_as_str state)),
      (''finished_at'', json_int at), (''from'', JStr from), (''from_mode'', JStr mode),
      (''msgV'', json_int 1), (''msg_id'', JStr i)]"
  have "parse_line (json_line w) = Some (Inr (Control (lit ''peer_idle_notice'') w))"
    using assms int_canon [OF assms(6)] by (intro read; cases state) (simp_all add: w_def frame_defs MAX_DEPTH_def idle_as_str_def)
  then show "\<exists>v. parse_line (idle_notice_line orig state at from mode i) = Some (Inr (Control (lit ''peer_idle_notice'') v)) \<and>
       json_str_at v (lit ''orig_msg_id'') = Some orig \<and> json_str_at v (lit ''state'') = Some (idle_as_str state) \<and>
       Option.bind (json_get v (lit ''finished_at'')) json_i64 = Some at"
    using json_int_i64 [OF assms(6)]
    by (intro exI [of _ w]) (simp add: idle_notice_line_def w_def frame_defs)
  define u where "u = json_obj (
     [(''type'', JStr (lit ''control'')), (''action'', JStr (lit ''peer_message_status''))] @
     (case r of
        Refused \<Rightarrow> [(''status'', JStr (lit ''expired'')), (''status_detail'', JStr (lit ''refused''))]
      | Dropped why \<Rightarrow> [(''status'', JStr (lit ''dropped'')), (''drop_reason'', JStr (drop_as_str why)),
          (''dropped_msg_ids'', JArr [JStr orig])]) @
     [(''reason'', JStr reason), (''from'', JStr from)] @ [(''orig_msg_id'', JStr orig)])"
  have arr: "nest (JArr [JStr orig]) = 1"
    by (simp add: nest.simps)
  have "parse_line (json_line u) = Some (Inr (Control (lit ''peer_message_status'') u))"
  proof (cases r)
    case Refused
    then show ?thesis
      using assms by (intro read) (simp_all add: u_def frame_defs MAX_DEPTH_def)
  next
    case (Dropped why)
    have "str_wf (drop_as_str why)"
      by (cases why) (simp_all add: drop_as_str_def)
    then show ?thesis
      using Dropped assms arr by (intro read) (simp_all add: u_def frame_defs MAX_DEPTH_def)
  qed
  then show "\<exists>v. parse_line (receipt_line r from (Some orig) reason) = Some (Inr (Control (lit ''peer_message_status'') v)) \<and>
       json_str_at v (lit ''orig_msg_id'') = Some orig \<and> json_str_at v (lit ''reason'') = Some reason \<and>
       json_str_at v (lit ''status'') = Some (if r = Refused then lit ''expired'' else lit ''dropped'')"
    by (intro exI [of _ u]; cases r) (simp_all add: receipt_line_def u_def frame_defs)
qed

section \<open>A message arrives\<close>

lemma str_wf_append [simp]: "str_wf (s @ t) \<longleftrightarrow> str_wf s \<and> str_wf t"
  by (auto simp: str_wf_def)

lemma escape_body_wf: "str_wf s \<Longrightarrow> str_wf (escape_body s)"
  by (induction s) (auto simp: is_scalar_def)

lemma envelope_wf:
  assumes "str_wf (h_from h)" "\<And>n. h_from_name h = Some n \<Longrightarrow> str_wf n" "str_wf body"
  shows "str_wf (envelope_encode h body)"
proof -
  have name: "str_wf (clean_name n)" if "h_from_name h = Some n" for n
    using assms(2) [OF that] clean_name_chars(1) [of _ n] by (auto simp: str_wf_def)
  have "str_wf TAG" "str_wf closing" "str_wf [0x3C]" "str_wf [0x3E, 0x0A]"
    by (simp_all add: TAG_def closing_def is_scalar_def)
  moreover have "str_wf (attr_text (lit k) v)" if "str_wf v" for k v
    using that by (simp add: attr_text_def is_scalar_def)
  moreover have "str_wf (mode_as_str m)" for m
    by (cases m) (simp_all add: mode_as_str_def)
  ultimately show ?thesis
    using assms name escape_body_wf [OF assms(3)]
    by (auto simp: envelope_encode_def is_scalar_def split: option.split)
qed

text \<open>
  C10: what one session sends another receives, when the sender's reply address is one, as the reader
  asks.  A frame written with an envelope around any body reads back as a user frame with that envelope for its
  content, and the envelope parses to the reply address, the class and the escaped body.  The name of the sender
  arrives cleaned, and is absent where nothing of it is left.
\<close>
theorem peer_message_arrives:
  assumes "str_wf (h_from h)" "\<And>n. h_from_name h = Some n \<Longrightarrow> str_wf n" "str_wf body" "str_wf i"
    "is_address (h_from h)"
  shows "\<exists>f p. parse_line (user_line (envelope_encode h body) (h_from h) prio i) = Some (Inr (User f)) \<and>
    u_content f = envelope_encode h body \<and>
    u_priority f = prio \<and> u_msg_id f = Some i \<and> u_from f = Some (h_from h) \<and>
    envelope_parse (u_content f) = Some p \<and> p_from p = Some (h_from h) \<and>
    p_from_name p = (case h_from_name h of None \<Rightarrow> None | Some n \<Rightarrow> if clean_name n = [] then None else Some (clean_name n)) \<and>
    p_from_mode p = h_from_mode h \<and> p_body p = escape_body body"
proof -
  have "envelope_encode h body \<noteq> []"
    by (simp add: envelope_encode_def)
  then have "parse_line (user_line (envelope_encode h body) (h_from h) prio i) = Some (Inr (User
      \<lparr>u_content = envelope_encode h body, u_from = Some (h_from h), u_priority = prio, u_msg_id = Some i\<rparr>))"
    using assms envelope_wf [of h body] by (intro user_line_reads) simp_all
  then show ?thesis
    using assms(5) by (simp add: envelope_written_reads)
qed

text \<open>The witness: a session asks another to look at something.\<close>

definition header_example :: header where
  "header_example = \<lparr>h_from = [0x75, 0x64, 0x73, 0x3A, 0x2F, 0x61], h_from_name = Some [0x73, 0x70, 0x67], h_from_mode = Some Bypass\<rparr>"

lemma peer_message_arrives_witness:
  "\<exists>f p. parse_line (user_line (envelope_encode header_example [0x68, 0x69]) (h_from header_example) Now [0x31]) = Some (Inr (User f)) \<and>
    u_content f = envelope_encode header_example [0x68, 0x69] \<and>
    u_priority f = Now \<and> u_msg_id f = Some [0x31] \<and> u_from f = Some (h_from header_example) \<and>
    envelope_parse (u_content f) = Some p \<and> p_from p = Some (h_from header_example) \<and>
    p_from_name p = (case h_from_name header_example of None \<Rightarrow> None | Some n \<Rightarrow> if clean_name n = [] then None else Some (clean_name n)) \<and>
    p_from_mode p = h_from_mode header_example \<and> p_body p = escape_body [0x68, 0x69]"
proof -
  have "address_byte 0x75 \<and> address_byte 0x64 \<and> address_byte 0x73 \<and> address_byte 0x3A \<and> address_byte 0x2F \<and> address_byte 0x61"
    by code_simp
  then have "is_address (h_from header_example)"
    by (simp add: is_address_def header_example_def encode_ascii)
  then show ?thesis
    by (intro peer_message_arrives) (auto simp: header_example_def is_scalar_def)
qed

end
