(* ===== verification/Sha1.thy ===== *)
theory Sha1
  imports Wire Base64
begin

text \<open>
  SHA-1 and the base64 encoder of \<open>crates/marspot-peer/src/sha1.rs\<close>, used by the websocket handshake.
\<close>

section \<open>SHA-1\<close>

definition to_be :: "nat \<Rightarrow> 'a::len word \<Rightarrow> u8 list" where
  "to_be n w = rev (to_le n w)"

definition from_be :: "u8 list \<Rightarrow> 'a::len word" where
  "from_be bs = from_le (rev bs)"

text \<open>\<open>chunks_exact(n)\<close> drops what is left over; \<open>chunks(n)\<close> keeps it.\<close>

function chunks_exact :: "nat \<Rightarrow> 'a list \<Rightarrow> 'a list list" where
  "chunks_exact n xs = (if n = 0 \<or> length xs < n then [] else take n xs # chunks_exact n (drop n xs))"
  by pat_completeness auto
termination
  by (relation "measure (length \<circ> snd)") auto

declare chunks_exact.simps [simp del]

definition sha_pad :: "u8 list \<Rightarrow> u8 list" where
  "sha_pad data =
     (let msg = data @ [0x80]
      in msg @ replicate ((120 - length msg mod 64) mod 64) 0 @
         to_be 8 (of_nat (length data * 8) :: u64))"

primrec sha_extend :: "nat \<Rightarrow> u32 list \<Rightarrow> u32 list" where
  "sha_extend 0 w = w"
| "sha_extend (Suc n) w =
     (let i = length w
      in sha_extend n (w @ [word_rotl 1 (w ! (i - 3) XOR w ! (i - 8) XOR w ! (i - 14) XOR w ! (i - 16))]))"

definition sha_schedule :: "u8 list \<Rightarrow> u32 list" where
  "sha_schedule block = sha_extend 64 (map from_be (chunks_exact 4 block))"

type_synonym sha_state = "u32 \<times> u32 \<times> u32 \<times> u32 \<times> u32"

definition sha_f :: "nat \<Rightarrow> u32 \<Rightarrow> u32 \<Rightarrow> u32 \<Rightarrow> u32 \<times> u32" where
  "sha_f i b c d =
     (if i \<le> 19 then ((b AND c) OR (NOT b AND d), 0x5A827999)
      else if i \<le> 39 then (b XOR c XOR d, 0x6ED9EBA1)
      else if i \<le> 59 then ((b AND c) OR (b AND d) OR (c AND d), 0x8F1BBCDC)
      else (b XOR c XOR d, 0xCA62C1D6))"

definition sha_round :: "nat \<times> u32 \<Rightarrow> sha_state \<Rightarrow> sha_state" where
  "sha_round iw s =
     (case (iw, s) of ((i, wi), (a, b, c, d, e)) \<Rightarrow>
        (case sha_f i b c d of (f, k) \<Rightarrow>
           (word_rotl 5 a + f + e + k + wi, a, word_rotl 30 b, c, d)))"

definition sha_block :: "u8 list \<Rightarrow> sha_state \<Rightarrow> sha_state" where
  "sha_block block h =
     (case (h, fold sha_round (zip [0..<80] (sha_schedule block)) h) of
        ((h0, h1, h2, h3, h4), (a, b, c, d, e)) \<Rightarrow> (h0 + a, h1 + b, h2 + c, h3 + d, h4 + e))"

definition sha1 :: "u8 list \<Rightarrow> u8 list" where
  "sha1 data =
     (case fold sha_block (chunks_exact 64 (sha_pad data))
             (0x67452301, 0xEFCDAB89, 0x98BADCFE, 0x10325476, 0xC3D2E1F0) of
        (a, b, c, d, e) \<Rightarrow> to_be 4 a @ to_be 4 b @ to_be 4 c @ to_be 4 d @ to_be 4 e)"

section \<open>Base64\<close>

definition b64_alphabet :: "nat \<Rightarrow> u8" where
  "b64_alphabet i =
     (map of_char ''ABCDEFGHIJKLMNOPQRSTUVWXYZabcdefghijklmnopqrstuvwxyz0123456789+/'') ! i"

definition b64_chunk :: "u8 list \<Rightarrow> u8 list" where
  "b64_chunk c =
     (let at = (\<lambda>i. if i < length c then ucast (c ! i) else 0 :: u32);
          n = push_bit 16 (at 0) OR push_bit 8 (at 1) OR at 2;
          digit = (\<lambda>k. b64_alphabet (unat (drop_bit k n AND 63)))
      in [digit 18, digit 12, if length c > 1 then digit 6 else 0x3D, if length c > 2 then digit 0 else 0x3D])"

fun base64 :: "u8 list \<Rightarrow> u8 list" where
  "base64 (a # b # c # bs) = b64_chunk [a, b, c] @ base64 bs"
| "base64 [] = []"
| "base64 bs = b64_chunk bs"

lemma alphabet_digit: "i < 64 \<Longrightarrow> b64_alphabet i = b64_digit i"
proof -
  have "\<forall>i \<in> set [0..<64]. b64_alphabet i = b64_digit i"
    by code_simp
  then show "i < 64 \<Longrightarrow> b64_alphabet i = b64_digit i" by simp
qed

lemma unat_byte_shift: "n \<le> 16 \<Longrightarrow> unat (push_bit n (ucast (b :: u8)) :: u32) = unat b * 2 ^ n"
proof -
  assume n: "n \<le> 16"
  have "unat b * 2 ^ n \<le> 255 * 2 ^ 16"
    using n unat_u8_lt [of b] by (intro mult_mono power_increasing) (simp_all add: less_Suc_eq_le [symmetric] del: unat_u8_lt)
  then have "unat b * 2 ^ n < 2 ^ 32" by simp
  then show ?thesis
    by (simp only: unsigned_push_bit_eq) (simp add: push_bit_eq_mult take_bit_nat_eq_self_iff)
qed

lemma unat_three_bytes:
  "unat (push_bit 16 (ucast (a :: u8)) OR push_bit 8 (ucast (b :: u8)) OR ucast (c :: u8) :: u32) =
   unat a * 65536 + unat b * 256 + unat c"
proof -
  have "unat (push_bit 16 (ucast a) OR push_bit 8 (ucast b) OR ucast c :: u32) =
      (unat a * 2 ^ 16) OR ((unat b * 2 ^ 8) OR unat c)"
    by (simp add: unsigned_or_eq or.assoc unat_byte_shift)
  also have "\<dots> = unat a * 2 ^ 16 + (unat b * 2 ^ 8 + unat c)"
    using or_add [of "unat c" 8 "unat b"] or_add [of "unat b * 2 ^ 8 + unat c" 16 "unat a"] unat_u8_lt [of b] unat_u8_lt [of c]
    by simp
  finally show ?thesis by simp
qed

lemma b64_digits:
  assumes "unat n = t" "t < 2 ^ 24"
  shows "b64_alphabet (unat (drop_bit 18 n AND 63 :: u32)) = b64_digit (t div 262144)"
    "b64_alphabet (unat (drop_bit 12 n AND 63)) = b64_digit (t div 4096 mod 64)"
    "b64_alphabet (unat (drop_bit 6 n AND 63)) = b64_digit (t div 64 mod 64)"
    "b64_alphabet (unat (drop_bit 0 n AND 63)) = b64_digit (t mod 64)"
proof -
  have d: "unat (drop_bit k n AND 63) = t div 2 ^ k mod 64" for k
    using unat_and_63 [of "drop_bit k n"] assms(1) unat_drop_bit_eq [of k n] by (simp add: drop_bit_eq_div)
  have "t div 262144 < 64"
    using assms(2) by (simp add: less_mult_imp_div_less)
  then show "b64_alphabet (unat (drop_bit 18 n AND 63 :: u32)) = b64_digit (t div 262144)"
    "b64_alphabet (unat (drop_bit 12 n AND 63)) = b64_digit (t div 4096 mod 64)"
    "b64_alphabet (unat (drop_bit 6 n AND 63)) = b64_digit (t div 64 mod 64)"
    "b64_alphabet (unat (drop_bit 0 n AND 63)) = b64_digit (t mod 64)"
    unfolding d by (simp_all add: alphabet_digit)
qed

lemma b64_chunk_eq:
  "b64_chunk [a, b, c] = b64_group (unat a * 65536 + unat b * 256 + unat c)"
  "b64_chunk [a, b] = take 3 (b64_group (unat a * 65536 + unat b * 256)) @ [0x3D]"
  "b64_chunk [a] = take 2 (b64_group (unat a * 65536)) @ [0x3D, 0x3D]"
proof -
  have lt: "unat a * 65536 + unat b * 256 + unat c < 2 ^ 24" for a b c :: u8
    using unat_u8_lt [of a] unat_u8_lt [of b] unat_u8_lt [of c] by (simp del: unat_u8_lt)
  note t = b64_digits [OF unat_three_bytes lt]
  show "b64_chunk [a, b, c] = b64_group (unat a * 65536 + unat b * 256 + unat c)"
    using t [of a b c] by (simp add: b64_chunk_def b64_group_def Let_def)
  show "b64_chunk [a, b] = take 3 (b64_group (unat a * 65536 + unat b * 256)) @ [0x3D]"
    using t [of a b 0] by (simp add: b64_chunk_def b64_group_def Let_def)
  show "b64_chunk [a] = take 2 (b64_group (unat a * 65536)) @ [0x3D, 0x3D]"
    using t [of a 0 0] by (simp add: b64_chunk_def b64_group_def Let_def)
qed

text \<open>The encoder is the standard one, so what it writes the clipboard decoder reads.\<close>

lemma base64_standard: "base64 bs = b64_encode bs"
  by (induction bs rule: base64.induct) (simp_all add: b64_chunk_eq)

end
