(* ===== verification/Ws.thy ===== *)
theory Ws
  imports Sha1 Envelope
begin

text \<open>
  The websocket client of \<open>crates/marspot-peer/src/ws.rs\<close>.  The socket is what each read will return, a
  list of chunks or errors; a read past its end times out.  What goes out is the list of frames
  written.  The kernel's random bytes and the outcome of writes are arguments.
\<close>

section \<open>Frames\<close>

definition MAX_MESSAGE :: nat where
  "MAX_MESSAGE = 33554432"

definition MAX_HANDSHAKE :: nat where
  "MAX_HANDSHAKE = 16384"

datatype ws_fault =
    HandshakeRefused | AcceptMismatch | HandshakeTooLong | FrameTooLarge | MessageTooLarge
  | NotUtf8 | UnexpectedOpcode

datatype ws_error = Proto ws_fault | WouldBlock | UnexpectedEof | WsIo nat

definition xor_mask :: "u8 list \<Rightarrow> u8 list \<Rightarrow> u8 list" where
  "xor_mask m xs = map (\<lambda>i. xs ! i XOR m ! (i mod 4)) [0..<length xs]"

text \<open>A client frame: final, masked, the length in one, two or eight bytes.\<close>

definition frame_length :: "u8 \<Rightarrow> nat \<Rightarrow> u8 list" where
  "frame_length flag n =
     (if n < 126 then [flag OR of_nat n]
      else if n \<le> 0xFFFF then (flag OR 126) # to_be 2 (of_nat n :: u16)
      else (flag OR 127) # to_be 8 (of_nat n :: u64))"

definition client_frame :: "u8 list \<Rightarrow> u8 \<Rightarrow> u8 list \<Rightarrow> u8 list" where
  "client_frame m opcode payload =
     [0x80 OR opcode] @ frame_length 0x80 (length payload) @ m @ xor_mask m payload"

text \<open>The length and where it ends, if its bytes are there.\<close>

definition frame_len :: "u8 list \<Rightarrow> (nat \<times> nat) option" where
  "frame_len b =
     (let n = b ! 1 AND 0x7F
      in if n = 126 \<and> 4 \<le> length b then Some (unat (from_be (slice b 2 2) :: u16), 4)
         else if n = 127 \<and> 10 \<le> length b then Some (unat (from_be (slice b 2 8) :: u64), 10)
         else if n = 126 \<or> n = 127 then None
         else Some (unat n, 2))"

definition take_frame :: "u8 list \<Rightarrow> ws_error + ((bool \<times> u8 \<times> u8 list) option \<times> u8 list)" where
  "take_frame b =
     (if length b < 2 then Inr (None, b)
      else case frame_len b of
        None \<Rightarrow> Inr (None, b)
      | Some (len, off) \<Rightarrow>
          let masked = b ! 1 AND 0x80 \<noteq> 0; off' = (if masked then off + 4 else off)
          in if len > MAX_MESSAGE then Inl (Proto FrameTooLarge)
             else if masked \<and> length b < off + 4 then Inr (None, b)
             else if length b < off' + len then Inr (None, b)
             else let raw = slice b off' len
                  in Inr (Some (b ! 0 AND 0x80 \<noteq> 0, b ! 0 AND 0x0F,
                            if masked then xor_mask (slice b off 4) raw else raw),
                          drop (off' + len) b))"

section \<open>The connection\<close>

record ws =
  w_buf :: "u8 list"
  w_partial :: "u8 list option"
  w_out :: "u8 list list"

text \<open>\<open>crate::rand::fill\<close> for the n-th frame, and what the n-th write returns.\<close>

record ws_env =
  e_mask :: "nat \<Rightarrow> u8 list"
  e_write :: "nat \<Rightarrow> ws_error option"

definition write_raw :: "ws_env \<Rightarrow> u8 list \<Rightarrow> ws \<Rightarrow> ws_error option \<times> ws" where
  "write_raw env bytes s =
     (case e_write env (length (w_out s)) of
        Some e \<Rightarrow> (Some e, s)
      | None \<Rightarrow> (None, s\<lparr>w_out := w_out s @ [bytes]\<rparr>))"

definition send_frame :: "ws_env \<Rightarrow> u8 \<Rightarrow> u8 list \<Rightarrow> ws \<Rightarrow> ws_error option \<times> ws" where
  "send_frame env opcode payload s =
     write_raw env (client_frame (e_mask env (length (w_out s))) opcode payload) s"

definition send_text :: "ws_env \<Rightarrow> ustring \<Rightarrow> ws \<Rightarrow> ws_error option \<times> ws" where
  "send_text env msg s = send_frame env 0x1 (as_bytes msg) s"

type_synonym reads = "(ws_error + u8 list) list"

text \<open>\<open>fill\<close>: one read into the buffer; a read of nothing is the end of the stream.\<close>

definition fill :: "ws \<Rightarrow> reads \<Rightarrow> ws_error option \<times> ws \<times> reads" where
  "fill s rs =
     (case rs of
        [] \<Rightarrow> (Some WouldBlock, s, [])
      | Inl e # rs' \<Rightarrow> (Some e, s, rs')
      | Inr chunk # rs' \<Rightarrow>
          if chunk = [] then (Some UnexpectedEof, s, rs')
          else (None, s\<lparr>w_buf := w_buf s @ chunk\<rparr>, rs'))"

datatype ws_msg = Text ustring | Closed

text \<open>
  What one frame does: the message or error it ends the call with, or nothing yet.
\<close>

definition on_frame :: "ws_env \<Rightarrow> bool \<times> u8 \<times> u8 list \<Rightarrow> ws \<Rightarrow> (ws_error + ws_msg) option \<times> ws" where
  "on_frame env f s =
     (case f of (fin, opcode, payload) \<Rightarrow>
        if opcode = 0x9 then
          (case send_frame env 0xA payload s of
             (Some e, s') \<Rightarrow> (Some (Inl e), s')
           | (None, s') \<Rightarrow> (None, s'))
        else if opcode = 0xA then (None, s)
        else if opcode = 0x8 then (Some (Inr Closed), snd (send_frame env 0x8 payload s))
        else if opcode = 0x1 \<or> opcode = 0x0 then
          let acc = (case w_partial s of None \<Rightarrow> [] | Some p \<Rightarrow> p) @ payload
          in if length acc > MAX_MESSAGE then (Some (Inl (Proto MessageTooLarge)), s\<lparr>w_partial := Some acc\<rparr>)
             else if fin then
               (Some (case from_utf8 acc of Some t \<Rightarrow> Inr (Text t) | None \<Rightarrow> Inl (Proto NotUtf8)),
                s\<lparr>w_partial := None\<rparr>)
             else (None, s\<lparr>w_partial := Some acc\<rparr>)
        else (Some (Inl (Proto UnexpectedOpcode)), s))"

lemma on_frame_buf: "w_buf (snd (on_frame env f s)) = w_buf s"
  by (auto simp: on_frame_def send_frame_def write_raw_def Let_def split: prod.split option.split)

lemma on_frame_keeps_buf: "(x, s') = on_frame env f s \<Longrightarrow> w_buf s' = w_buf s"
  using on_frame_buf [of env f s] by (metis snd_conv)

lemma take_frame_shorter: "take_frame b = Inr (Some f, r) \<Longrightarrow> length r < length b"
  by (auto simp: take_frame_def frame_len_def Let_def split: if_splits option.splits)

function recv :: "ws_env \<Rightarrow> ws \<Rightarrow> reads \<Rightarrow> (ws_error + ws_msg) \<times> ws \<times> reads" where
  "recv env s rs =
     (case take_frame (w_buf s) of
        Inl e \<Rightarrow> (Inl e, s, rs)
      | Inr (Some f, r) \<Rightarrow>
          (case on_frame env f (s\<lparr>w_buf := r\<rparr>) of
             (Some res, s') \<Rightarrow> (res, s', rs)
           | (None, s') \<Rightarrow> recv env s' rs)
      | Inr (None, _) \<Rightarrow>
          (case fill s rs of
             (Some e, s', rs') \<Rightarrow> (Inl e, s', rs')
           | (None, s', rs') \<Rightarrow> recv env s' rs'))"
  by pat_completeness auto
termination
  by (relation "measures [\<lambda>(env, s, rs). length rs, \<lambda>(env, s, rs). length (w_buf s)]")
    (auto simp: fill_def dest!: take_frame_shorter on_frame_keeps_buf split: list.splits sum.splits if_splits)

declare recv.simps [simp del]

section \<open>The handshake\<close>

definition GUID :: ustring where
  "GUID = lit ''258EAFA5-E914-47DA-95CA-C5AB0DC85B11''"

definition accept_key :: "ustring \<Rightarrow> ustring" where
  "accept_key key = map unat (base64 (sha1 (as_bytes (key @ GUID))))"

definition eq_ignore_ascii_case :: "ustring \<Rightarrow> ustring \<Rightarrow> bool" where
  "eq_ignore_ascii_case s t \<longleftrightarrow> map ascii_lower s = map ascii_lower t"

text \<open>\<open>s.split("\r\n")\<close> and \<open>split_once(':')\<close>.\<close>

fun split_crlf :: "ustring \<Rightarrow> ustring list" where
  "split_crlf [] = [[]]"
| "split_crlf [c] = [[c]]"
| "split_crlf (c # d # s) =
     (if c = 0x0D \<and> d = 0x0A then [] # split_crlf s
      else case split_crlf (d # s) of [] \<Rightarrow> [[c]] | p # ps \<Rightarrow> (c # p) # ps)"

definition split_once :: "uchar \<Rightarrow> ustring \<Rightarrow> (ustring \<times> ustring) option" where
  "split_once d s =
     (let k = takeWhile (\<lambda>c. c \<noteq> d) s
      in if length k = length s then None else Some (k, drop (length k + 1) s))"

definition handshake_request :: "ustring \<Rightarrow> ustring" where
  "handshake_request key =
     lit ''GET / HTTP/1.1'' @ [0x0D, 0x0A] @ lit ''Host: localhost'' @ [0x0D, 0x0A] @
     lit ''Upgrade: websocket'' @ [0x0D, 0x0A] @ lit ''Connection: Upgrade'' @ [0x0D, 0x0A] @
     lit ''Sec-WebSocket-Key: '' @ key @ [0x0D, 0x0A] @ lit ''Sec-WebSocket-Version: 13'' @
     [0x0D, 0x0A, 0x0D, 0x0A]"

text \<open>\<open>read_head\<close>: everything before the first empty line, at most \<open>MAX_HANDSHAKE\<close> bytes behind.\<close>

fun find_blank :: "u8 list \<Rightarrow> nat option" where
  "find_blank bs =
     (if take 4 bs = [0x0D, 0x0A, 0x0D, 0x0A] then Some 0
      else case bs of [] \<Rightarrow> None | _ # bs' \<Rightarrow> map_option Suc (find_blank bs'))"

declare find_blank.simps [simp del]

function read_head :: "ws \<Rightarrow> reads \<Rightarrow> (ws_error + ustring) \<times> ws \<times> reads" where
  "read_head s rs =
     (case find_blank (w_buf s) of
        Some n \<Rightarrow> (Inr (from_utf8_lossy (take n (w_buf s))), s\<lparr>w_buf := drop (n + 4) (w_buf s)\<rparr>, rs)
      | None \<Rightarrow>
          if length (w_buf s) > MAX_HANDSHAKE then (Inl (Proto HandshakeTooLong), s, rs)
          else (case fill s rs of
             (Some e, s', rs') \<Rightarrow> (Inl e, s', rs')
           | (None, s', rs') \<Rightarrow> read_head s' rs'))"
  by pat_completeness auto
termination
  by (relation "measure (length \<circ> snd)") (auto simp: fill_def split: list.splits sum.splits if_splits)

declare read_head.simps [simp del]

definition check_head :: "ustring \<Rightarrow> ustring \<Rightarrow> ws_fault option" where
  "check_head key head =
     (let ls = split_crlf head
      in if strip_prefix (lit ''HTTP/1.1 101'') (hd ls) = None then Some HandshakeRefused
         else if \<not> (\<exists>l \<in> set (tl ls). case split_once 0x3A l of
                       None \<Rightarrow> False
                     | Some (k, v) \<Rightarrow> eq_ignore_ascii_case (trim k) (lit ''sec-websocket-accept'') \<and>
                         trim v = accept_key key)
         then Some AcceptMismatch else None)"

text \<open>\<open>Ws::connect\<close> on a connected socket: the request out, the answer in.\<close>

definition ws_connect :: "ws_env \<Rightarrow> u8 list \<Rightarrow> reads \<Rightarrow> (ws_error + ws) \<times> reads" where
  "ws_connect env nonce rs =
     (let key = map unat (base64 nonce); s = \<lparr>w_buf = [], w_partial = None, w_out = []\<rparr>
      in case write_raw env (as_bytes (handshake_request key)) s of
           (Some e, _) \<Rightarrow> (Inl e, rs)
         | (None, s1) \<Rightarrow>
             (case read_head s1 rs of
                (Inl e, _, rs') \<Rightarrow> (Inl e, rs')
              | (Inr head, s2, rs') \<Rightarrow>
                  (case check_head key head of
                     Some f \<Rightarrow> (Inl (Proto f), rs')
                   | None \<Rightarrow> (Inr s2, rs'))))"

end
