(* ===== verification/WsProps.thy ===== *)
theory WsProps
  imports Ws
begin

text \<open>
  What \<open>Ws\<close> guarantees: frames read as they were written, however the stream is cut into reads; a
  message survives fragmentation, pings in between and timeouts.
\<close>

section \<open>Frames by RFC 6455\<close>

definition rfc_frame :: "bool \<Rightarrow> u8 \<Rightarrow> u8 list option \<Rightarrow> u8 list \<Rightarrow> u8 list" where
  "rfc_frame fin op m payload =
     [(if fin then 0x80 else 0) OR op] @ frame_length (if m = None then 0 else 0x80) (length payload) @
     (case m of None \<Rightarrow> payload | Some k \<Rightarrow> k @ xor_mask k payload)"

lemma client_frame_rfc: "client_frame k op payload = rfc_frame True op (Some k) payload"
  by (simp add: client_frame_def rfc_frame_def)

lemma length_xor_mask [simp]: "length (xor_mask k xs) = length xs"
  by (simp add: xor_mask_def)

lemma xor_mask_twice: "xor_mask k (xor_mask k xs) = xs"
  by (rule nth_equalityI) (simp_all add: xor_mask_def xor.assoc)

lemma from_be_to_be: "8 * n = LENGTH('a) \<Longrightarrow> from_be (to_be n w) = (w :: 'a::len word)"
  by (simp add: from_be_def to_be_def)

lemma length_to_be [simp]: "length (to_be n w) = n"
  by (simp add: to_be_def)

lemma low_bits:
  fixes w :: u8
  assumes "unat w < 2 ^ k" "k \<le> 7"
  shows "w AND mask k = w" "(0x80 OR w) AND mask k = w" "w AND 0x80 = 0" "(0x80 OR w) AND 0x80 \<noteq> 0"
proof -
  have w: "w AND mask k = w"
    using assms(1) by (simp add: word_unat_eq_iff unat_and_mask)
  then show "w AND mask k = w" .
  have e: "(0x80 :: u8) AND mask k = 0"
    using le_imp_power_dvd [OF assms(2), of "2 :: nat"] by (simp add: word_unat_eq_iff unat_and_mask)
  show "(0x80 OR w) AND mask k = w"
    by (simp add: bit.conj_disj_distrib2 w e)
  show z: "w AND 0x80 = 0"
  proof -
    have "w AND 0x80 = (w AND mask k) AND 0x80"
      by (simp only: w)
    also have "\<dots> = w AND (0x80 AND mask k)"
      by (simp only: and.assoc and.commute [of "0x80"])
    finally show ?thesis
      unfolding e by simp
  qed
  show "(0x80 OR w) AND 0x80 \<noteq> 0"
    using z by (simp add: bit.conj_disj_distrib2)
qed

lemma flag_bytes:
  "(w :: u8) < 126 \<Longrightarrow> (0x80 OR w) AND 0x7F = w" "w < 126 \<Longrightarrow> w AND 0x7F = w"
  "w < 126 \<Longrightarrow> (0x80 OR w) AND 0x80 \<noteq> 0" "w < 126 \<Longrightarrow> w AND 0x80 = 0"
  "(w :: u8) < 16 \<Longrightarrow> (0x80 OR w) AND 0x0F = w" "w < 16 \<Longrightarrow> w AND 0x0F = w"
  "w < 16 \<Longrightarrow> (0x80 OR w) AND 0x80 \<noteq> 0" "w < 16 \<Longrightarrow> w AND 0x80 = 0"
  using low_bits [of w 7] low_bits [of w 4]
  by (simp_all add: word_less_nat_alt mask_eq_exp_minus_1)

lemma small_byte: "n < 126 \<Longrightarrow> (of_nat n :: u8) < 126"
  by (simp add: word_less_nat_alt)

text \<open>The second byte of a frame and the length it announces.\<close>

lemma frame_head:
  assumes "fl = 0 \<or> fl = 0x80" "n \<le> MAX_MESSAGE" "b = h # frame_length fl n @ xs"
  shows "frame_len b = Some (n, 1 + length (frame_length fl n))" "(b ! 1 AND 0x80 \<noteq> 0) = (fl = 0x80)" "2 \<le> length b"
proof -
  have wide: "(fl OR 126) AND 0x7F = 126" "(fl OR 127) AND 0x7F = (127 :: u8)"
      "((fl OR 126) AND 0x80 \<noteq> 0) = (fl = 0x80)" "((fl OR 127) AND 0x80 \<noteq> 0) = (fl = 0x80)"
    using assms(1) by auto
  consider (one) "n < 126" | (two) "126 \<le> n" "n \<le> 0xFFFF" | (eight) "0xFFFF < n"
    by linarith
  then have "frame_len b = Some (n, 1 + length (frame_length fl n)) \<and> (b ! 1 AND 0x80 \<noteq> 0) = (fl = 0x80) \<and> 2 \<le> length b"
  proof cases
    case one
    have s: "(of_nat n :: u8) \<noteq> 126" "(of_nat n :: u8) \<noteq> 127"
      using small_byte [OF one] by auto
    show ?thesis
      using one assms(1) flag_bytes(1-4) [OF small_byte [OF one]] s
      by (auto simp: assms(3) frame_length_def frame_len_def Let_def)
  next
    case two
    then have "unat (of_nat n :: u16) = n"
      by (simp add: unsigned_of_nat take_bit_nat_eq_self)
    moreover have "slice b 2 2 = to_be 2 (of_nat n :: u16)"
      using two by (simp add: assms(3) frame_length_def slice_def)
    ultimately show ?thesis
      using two wide by (simp add: assms(3) frame_length_def frame_len_def from_be_to_be)
  next
    case eight
    then have "unat (of_nat n :: u64) = n"
      using assms(2) by (simp add: MAX_MESSAGE_def unsigned_of_nat take_bit_nat_eq_self)
    moreover have "slice b 2 8 = to_be 8 (of_nat n :: u64)"
      using eight by (simp add: assms(3) frame_length_def slice_def)
    ultimately show ?thesis
      using eight wide by (simp add: assms(3) frame_length_def frame_len_def from_be_to_be)
  qed
  then show "frame_len b = Some (n, 1 + length (frame_length fl n))" "(b ! 1 AND 0x80 \<noteq> 0) = (fl = 0x80)" "2 \<le> length b"
    by simp_all
qed

definition frame_fits :: "u8 \<Rightarrow> u8 list option \<Rightarrow> u8 list \<Rightarrow> bool" where
  "frame_fits op m payload \<longleftrightarrow> op < 16 \<and> length payload \<le> MAX_MESSAGE \<and> (\<forall>k. m = Some k \<longrightarrow> length k = 4)"

lemma slice_at_append: "length xs = i \<Longrightarrow> length ys = n \<Longrightarrow> slice (xs @ ys @ zs) i n = ys"
  by (simp add: slice_def)

lemma take_rfc_frame:
  assumes "frame_fits op m payload"
  shows "take_frame (rfc_frame fin op m payload @ rest) = Inr (Some (fin, op, payload), rest)"
proof -
  define fl where "fl = (if m = None then 0 else 0x80 :: u8)"
  define h where "h = (if fin then 0x80 else 0) OR op"
  define L where "L = frame_length fl (length payload)"
  define body where "body = (case m of None \<Rightarrow> payload | Some k \<Rightarrow> k @ xor_mask k payload)"
  define b where "b = rfc_frame fin op m payload @ rest"
  have op: "op < 16" and n: "length payload \<le> MAX_MESSAGE" and k: "\<And>k. m = Some k \<Longrightarrow> length k = 4"
    using assms by (simp_all add: frame_fits_def)
  have b: "b = h # L @ body @ rest"
    by (simp add: b_def rfc_frame_def h_def L_def fl_def body_def)
  have fl: "fl = 0 \<or> fl = 0x80"
    by (simp add: fl_def)
  note head = frame_head [OF fl n, folded L_def, OF b]
  have h0: "b ! 0 AND 0x80 \<noteq> 0 \<longleftrightarrow> fin" "b ! 0 AND 0x0F = op"
    using flag_bytes(5-8) [OF op] by (simp_all add: b h_def)
  show ?thesis
    unfolding b_def [symmetric]
  proof (cases m)
    case None
    have bb: "b = (h # L) @ payload @ rest"
      using b None by (simp add: body_def)
    have "slice b (1 + length L) (length payload) = payload"
      unfolding bb by (rule slice_at_append) simp_all
    moreover have "drop (1 + length L + length payload) b = rest"
      unfolding bb by simp
    moreover have "\<not> length b < 1 + length L + length payload"
      unfolding bb by simp
    ultimately show "take_frame b = Inr (Some (fin, op, payload), rest)"
      using head h0 n None by (simp add: take_frame_def fl_def Let_def)
  next
    case (Some key)
    have key: "length key = 4"
      using k Some by simp
    have b1: "b = (h # L) @ key @ (xor_mask key payload @ rest)"
      using b Some by (simp add: body_def)
    have b2: "b = (h # L @ key) @ xor_mask key payload @ rest"
      using b1 by simp
    have "slice b (1 + length L) 4 = key"
      unfolding b1 by (rule slice_at_append) (simp_all add: key)
    moreover have "slice b (1 + length L + 4) (length payload) = xor_mask key payload"
      unfolding b2 by (rule slice_at_append) (simp_all add: key)
    moreover have "drop (1 + length L + 4 + length payload) b = rest"
    proof -
      have "drop (length (h # L @ key) + length (xor_mask key payload)) b = rest"
        unfolding b2 drop_drop [symmetric] add.commute [of "length (h # L @ key)"]
        by (simp only: append_eq_conv_conj [THEN iffD1, OF refl, THEN conjunct2, symmetric])
      then show ?thesis
        using key by (simp add: add.commute add.left_commute)
    qed
    moreover have "\<not> length b < 1 + length L + 4 + length payload" "\<not> length b < 1 + length L + 4"
      unfolding b2 using key by simp_all
    ultimately show "take_frame b = Inr (Some (fin, op, payload), rest)"
      using head h0 n Some by (simp add: take_frame_def fl_def Let_def xor_mask_twice)
  qed
qed

section \<open>The cut of the stream does not matter\<close>

lemma frame_len_more: "frame_len b = Some x \<Longrightarrow> 2 \<le> length b \<Longrightarrow> frame_len (b @ y) = Some x"
  by (auto simp: frame_len_def Let_def nth_append slice_def split: if_splits)

lemma frame_len_off: "frame_len b = Some (len, off) \<Longrightarrow> 2 \<le> length b \<Longrightarrow> off \<le> length b \<and> 2 \<le> off"
  by (auto simp: frame_len_def Let_def split: if_splits)

lemma slice_more: "i + n \<le> length b \<Longrightarrow> slice (b @ y) i n = slice b i n"
  by (simp add: slice_def)

lemma take_frame_more:
  "take_frame b = Inl e \<Longrightarrow> take_frame (b @ y) = Inl e"
  "take_frame b = Inr (Some f, r) \<Longrightarrow> take_frame (b @ y) = Inr (Some f, r @ y)"
proof -
  have "(take_frame b = Inl e \<longrightarrow> take_frame (b @ y) = Inl e) \<and>
      (take_frame b = Inr (Some f, r) \<longrightarrow> take_frame (b @ y) = Inr (Some f, r @ y))"
  proof (cases "2 \<le> length b")
    case False
    then show ?thesis by (simp add: take_frame_def)
  next
    case two: True
    show ?thesis
    proof (cases "frame_len b")
      case None
      then show ?thesis by (simp add: take_frame_def)
    next
      case (Some x)
      obtain len off where x: "frame_len b = Some (len, off)"
        using Some by (cases x) simp
      note longer = frame_len_more [OF x two, of y] frame_len_off [OF x two]
      have h: "(b @ y) ! 0 = b ! 0" "(b @ y) ! 1 = b ! 1"
        using two by (cases b; cases "tl b"; simp)+
      define m where "m \<longleftrightarrow> b ! 1 AND 0x80 \<noteq> 0"
      define off' where "off' = (if m then off + 4 else off)"
      have t: "take_frame (b @ z) =
          (if len > MAX_MESSAGE then Inl (Proto FrameTooLarge)
           else if m \<and> length b + length z < off + 4 then Inr (None, b @ z)
           else if length b + length z < off' + len then Inr (None, b @ z)
           else let raw = slice (b @ z) off' len
                in Inr (Some (b ! 0 AND 0x80 \<noteq> 0, b ! 0 AND 0x0F,
                          if m then xor_mask (slice (b @ z) off 4) raw else raw),
                        drop (off' + len) (b @ z)))" for z
        using two frame_len_more [OF x two, of z] nth_append_left [of 1 b z] nth_append_left [of 0 b z, OF less_le_trans [OF _ two]]
        by (simp add: take_frame_def m_def off'_def Let_def)
      show ?thesis
      proof (cases "len \<le> MAX_MESSAGE \<and> off' + len \<le> length b")
        case True
        then have "\<not> (m \<and> length b < off + 4)" "slice (b @ y) off' len = slice b off' len"
            "m \<Longrightarrow> slice (b @ y) off 4 = slice b off 4" "drop (off' + len) (b @ y) = drop (off' + len) b @ y"
          by (auto simp: off'_def slice_more split: if_splits)
        then show ?thesis
          using True t [of "[]"] t [of y] by (auto simp: Let_def)
      next
        case False
        then show ?thesis
          using t [of "[]"] t [of y] by (auto simp: Let_def)
      qed
    qed
  qed
  then show "take_frame b = Inl e \<Longrightarrow> take_frame (b @ y) = Inl e"
    "take_frame b = Inr (Some f, r) \<Longrightarrow> take_frame (b @ y) = Inr (Some f, r @ y)"
    by blast+
qed

lemma send_frame_any_buf:
  "send_frame env op p (s\<lparr>w_buf := y\<rparr>) =
   (fst (send_frame env op p s), (snd (send_frame env op p s))\<lparr>w_buf := y\<rparr>)"
  by (cases "e_write env (length (w_out s))") (simp_all add: send_frame_def write_raw_def)

lemma on_frame_any_buf:
  assumes "on_frame env f s = (x, s')"
  shows "on_frame env f (s\<lparr>w_buf := y\<rparr>) = (x, s'\<lparr>w_buf := y\<rparr>)"
proof -
  obtain fin op p where f: "f = (fin, op, p)"
    by (cases f)
  obtain o1 s1 where ping: "send_frame env 0xA p s = (o1, s1)"
    by (cases "send_frame env 0xA p s")
  consider "op = 9" | "op = 10" | "op = 8" | "op = 1 \<or> op = 0" "op \<noteq> 9" "op \<noteq> 10" "op \<noteq> 8"
    | "op \<noteq> 9" "op \<noteq> 10" "op \<noteq> 8" "op \<noteq> 1" "op \<noteq> 0"
    by blast
  then show ?thesis
  proof cases
    case 1
    then show ?thesis
      using assms ping by (cases o1) (auto simp: on_frame_def f send_frame_any_buf)
  next
    case 4
    then show ?thesis
      using assms by (simp add: on_frame_def f Let_def split: if_splits) auto
  qed (use assms in \<open>auto simp: on_frame_def f send_frame_any_buf\<close>)
qed

lemma take_frame_none: "take_frame b = Inr (None, r) \<Longrightarrow> r = b"
  by (auto simp: take_frame_def Let_def split: if_splits option.splits)

lemma recv_err: "take_frame (w_buf s) = Inl e \<Longrightarrow> recv env s rs = (Inl e, s, rs)"
  by (subst recv.simps) simp

lemma recv_done:
  "take_frame (w_buf s) = Inr (Some f, r) \<Longrightarrow> on_frame env f (s\<lparr>w_buf := r\<rparr>) = (Some res, s') \<Longrightarrow>
   recv env s rs = (res, s', rs)"
  by (subst recv.simps) simp

lemma recv_next:
  "take_frame (w_buf s) = Inr (Some f, r) \<Longrightarrow> on_frame env f (s\<lparr>w_buf := r\<rparr>) = (None, s') \<Longrightarrow>
   recv env s rs = recv env s' rs"
  by (subst recv.simps) simp

lemma recv_fill:
  "take_frame (w_buf s) = Inr (None, r) \<Longrightarrow> fill s rs = (None, s', rs') \<Longrightarrow> recv env s rs = recv env s' rs'"
  "take_frame (w_buf s) = Inr (None, r) \<Longrightarrow> fill s rs = (Some e, s', rs') \<Longrightarrow> recv env s rs = (Inl e, s', rs')"
  by (subst recv.simps, simp)+

text \<open>Reading in chunks is reading everything at once, up to what is still unread.\<close>

lemma recv_chunks:
  assumes "\<forall>c \<in> set cs. c \<noteq> []"
  shows "\<exists>r s' cs'. recv env s (map Inr cs) = (r, s', map Inr cs') \<and>
    recv env (s\<lparr>w_buf := w_buf s @ concat cs\<rparr>) [] = (r, s'\<lparr>w_buf := w_buf s' @ concat cs'\<rparr>, [])"
  using assms
proof (induction env s "map Inr cs :: reads" arbitrary: cs rule: recv.induct)
  case (1 env s cs)
  define y where "y = concat cs"
  define s2 where "s2 = s\<lparr>w_buf := w_buf s @ y\<rparr>"
  have buf: "w_buf s2 = w_buf s @ y"
    by (simp add: s2_def)
  show ?case
    unfolding y_def [symmetric] s2_def [symmetric]
  proof (cases "take_frame (w_buf s)")
    case (Inl e)
    then have "take_frame (w_buf s2) = Inl e"
      using take_frame_more(1) by (simp add: buf)
    then show "\<exists>r s' cs'. recv env s (map Inr cs) = (r, s', map Inr cs') \<and> recv env s2 [] = (r, s'\<lparr>w_buf := w_buf s' @ concat cs'\<rparr>, [])"
      using Inl by (intro exI [of _ "Inl e"] exI [of _ s] exI [of _ cs]) (simp add: recv_err s2_def y_def)
  next
    case (Inr x)
    show "\<exists>r s' cs'. recv env s (map Inr cs) = (r, s', map Inr cs') \<and> recv env s2 [] = (r, s'\<lparr>w_buf := w_buf s' @ concat cs'\<rparr>, [])"
    proof (cases "fst x")
      case (Some f)
      then obtain r where r: "take_frame (w_buf s) = Inr (Some f, r)"
        using Inr by (cases x) simp
      have r2: "take_frame (w_buf s2) = Inr (Some f, r @ y)"
        using take_frame_more(2) [OF r] by (simp add: buf)
      obtain o1 s1 where f1: "on_frame env f (s\<lparr>w_buf := r\<rparr>) = (o1, s1)"
        by (cases "on_frame env f (s\<lparr>w_buf := r\<rparr>)")
      have f2: "on_frame env f (s2\<lparr>w_buf := r @ y\<rparr>) = (o1, s1\<lparr>w_buf := r @ y\<rparr>)"
        using on_frame_any_buf [OF f1, of "r @ y"] by (simp add: s2_def)
      have b1: "w_buf s1 = r"
        using on_frame_keeps_buf [OF f1 [symmetric]] by simp
      show ?thesis
      proof (cases o1)
        case (Some res)
        then show ?thesis
          using recv_done [OF r] recv_done [OF r2] f1 f2 b1
          by (intro exI [of _ res] exI [of _ s1] exI [of _ cs]) (simp add: y_def)
      next
        case None
        have "\<exists>ra s' cs'. recv env s1 (map Inr cs) = (ra, s', map Inr cs') \<and>
            recv env (s1\<lparr>w_buf := w_buf s1 @ concat cs\<rparr>) [] = (ra, s'\<lparr>w_buf := w_buf s' @ concat cs'\<rparr>, [])"
          using 1(2) [OF r refl refl f1 [symmetric] None refl] 1(3) by auto
        then show ?thesis
          using recv_next [OF r] recv_next [OF r2] f1 f2 None b1 by (simp add: y_def)
      qed
    next
      case None
      then have r: "take_frame (w_buf s) = Inr (None, w_buf s)"
        using Inr take_frame_none by (cases x) auto
      show ?thesis
      proof (cases cs)
        case Nil
        then have "s2 = s"
          by (simp add: s2_def y_def)
        then show ?thesis
          using r Nil by (intro exI [of _ "Inl WouldBlock"] exI [of _ s] exI [of _ "[]"]) (simp add: recv_fill(2) [OF r] fill_def)
      next
        case (Cons c cs')
        define s1 where "s1 = s\<lparr>w_buf := w_buf s @ c\<rparr>"
        have fl: "fill s (map Inr cs) = (None, s1, map Inr cs')"
          using Cons 1(3) by (simp add: fill_def s1_def)
        have s2: "s2 = s1\<lparr>w_buf := w_buf s1 @ concat cs'\<rparr>"
          by (simp add: s1_def s2_def y_def Cons)
        have "\<exists>ra s' cs''. recv env s1 (map Inr cs') = (ra, s', map Inr cs'') \<and>
            recv env (s1\<lparr>w_buf := w_buf s1 @ concat cs'\<rparr>) [] = (ra, s'\<lparr>w_buf := w_buf s' @ concat cs''\<rparr>, [])"
          using 1(1) [OF r refl refl fl [symmetric] refl refl] 1(3) Cons by auto
        then show ?thesis
          unfolding s2 recv_fill(1) [OF r fl] .
      qed
    qed
  qed
qed

section \<open>Messages\<close>

text \<open>
  A message as a server may send it: pieces of the text, cut anywhere, with pings and pongs in
  between, then the last piece.
\<close>

datatype item = Piece "u8 list" | PingItem "u8 list" | PongItem "u8 list"

fun message_frames :: "bool \<Rightarrow> item list \<Rightarrow> u8 list \<Rightarrow> u8 list" where
  "message_frames first [] lst = rfc_frame True (if first then 1 else 0) None lst"
| "message_frames first (Piece p # is) lst =
     rfc_frame False (if first then 1 else 0) None p @ message_frames False is lst"
| "message_frames first (PingItem p # is) lst = rfc_frame True 9 None p @ message_frames first is lst"
| "message_frames first (PongItem p # is) lst = rfc_frame True 10 None p @ message_frames first is lst"

fun item_data :: "item list \<Rightarrow> u8 list" where
  "item_data [] = []"
| "item_data (Piece p # is) = p @ item_data is"
| "item_data (_ # is) = item_data is"

text \<open>The pongs that answer the pings, each under the mask of its turn.\<close>

fun pongs :: "ws_env \<Rightarrow> nat \<Rightarrow> item list \<Rightarrow> u8 list list" where
  "pongs env n [] = []"
| "pongs env n (PingItem p # is) = client_frame (e_mask env n) 0xA p # pongs env (Suc n) is"
| "pongs env n (_ # is) = pongs env n is"

fun item_fits :: "item \<Rightarrow> bool" where
  "item_fits (Piece p) = True"
| "item_fits (PingItem p) = (length p \<le> MAX_MESSAGE)"
| "item_fits (PongItem p) = (length p \<le> MAX_MESSAGE)"

definition acc_of :: "ws \<Rightarrow> u8 list" where
  "acc_of s = (case w_partial s of None \<Rightarrow> [] | Some p \<Rightarrow> p)"

lemma recv_message:
  assumes "\<forall>n. e_write env n = None" "\<forall>i \<in> set is. item_fits i"
    "length (acc_of s @ item_data is @ lst) \<le> MAX_MESSAGE"
    "from_utf8 (acc_of s @ item_data is @ lst) = Some t"
    "w_buf s = message_frames first is lst @ unread"
  shows "recv env s [] = (Inr (Text t),
    s\<lparr>w_buf := unread, w_partial := None, w_out := w_out s @ pongs env (length (w_out s)) is\<rparr>, [])"
  using assms(2-)
proof (induction "is" arbitrary: s first)
  case Nil
  have "frame_fits (if first then 1 else 0) None lst"
    using Nil by (simp add: frame_fits_def)
  then have "take_frame (w_buf s) = Inr (Some (True, if first then 1 else 0, lst), unread)"
    using take_rfc_frame [of _ None lst True unread] Nil(4) by (simp del: One_nat_def)
  from recv_done [OF this] show ?case
    using Nil by (simp add: on_frame_def acc_of_def [symmetric] Let_def)
next
  case (Cons i "is")
  show ?case
  proof (cases i)
    case (Piece p)
    define op where "op = (if first then 1 else 0 :: u8)"
    define s1 where "s1 = s\<lparr>w_buf := message_frames False is lst @ unread, w_partial := Some (acc_of s @ p)\<rparr>"
    have "frame_fits op None p"
      using Cons.prems Piece by (simp add: frame_fits_def op_def)
    then have t: "take_frame (w_buf s) = Inr (Some (False, op, p), message_frames False is lst @ unread)"
      using take_rfc_frame [of op None p False "message_frames False is lst @ unread"] Cons.prems(4) Piece
      by (simp add: op_def)
    have "on_frame env (False, op, p) (s\<lparr>w_buf := message_frames False is lst @ unread\<rparr>) = (None, s1)"
      using Cons.prems(2) Piece by (auto simp: on_frame_def acc_of_def s1_def op_def Let_def split: option.splits)
    from recv_next [OF t this] have "recv env s [] = recv env s1 []" .
    also have "\<dots> = (Inr (Text t), s1\<lparr>w_buf := unread, w_partial := None, w_out := w_out s1 @ pongs env (length (w_out s1)) is\<rparr>, [])"
      using Cons.prems Piece by (intro Cons.IH [of _ False]) (simp_all add: s1_def acc_of_def)
    finally show ?thesis
      by (simp add: s1_def Piece)
  next
    case (PingItem p)
    define s1 where "s1 = s\<lparr>w_buf := message_frames first is lst @ unread,
      w_out := w_out s @ [client_frame (e_mask env (length (w_out s))) 0xA p]\<rparr>"
    have "frame_fits 9 None p"
      using Cons.prems PingItem by (simp add: frame_fits_def)
    then have t: "take_frame (w_buf s) = Inr (Some (True, 9, p), message_frames first is lst @ unread)"
      using take_rfc_frame [of 9 None p True "message_frames first is lst @ unread"] Cons.prems(4) PingItem
      by simp
    have "on_frame env (True, 9, p) (s\<lparr>w_buf := message_frames first is lst @ unread\<rparr>) = (None, s1)"
      using assms(1) by (simp add: on_frame_def send_frame_def write_raw_def s1_def)
    from recv_next [OF t this] have "recv env s [] = recv env s1 []" .
    also have "\<dots> = (Inr (Text t), s1\<lparr>w_buf := unread, w_partial := None, w_out := w_out s1 @ pongs env (length (w_out s1)) is\<rparr>, [])"
      using Cons.prems PingItem by (intro Cons.IH [of _ first]) (simp_all add: s1_def acc_of_def)
    finally show ?thesis
      by (simp add: s1_def PingItem)
  next
    case (PongItem p)
    define s1 where "s1 = s\<lparr>w_buf := message_frames first is lst @ unread\<rparr>"
    have "frame_fits 10 None p"
      using Cons.prems PongItem by (simp add: frame_fits_def)
    then have t: "take_frame (w_buf s) = Inr (Some (True, 10, p), message_frames first is lst @ unread)"
      using take_rfc_frame [of 10 None p True "message_frames first is lst @ unread"] Cons.prems(4) PongItem
      by simp
    have "on_frame env (True, 10, p) (s\<lparr>w_buf := message_frames first is lst @ unread\<rparr>) = (None, s1)"
      by (simp add: on_frame_def s1_def)
    from recv_next [OF t this] have "recv env s [] = recv env s1 []" .
    also have "\<dots> = (Inr (Text t), s1\<lparr>w_buf := unread, w_partial := None, w_out := w_out s1 @ pongs env (length (w_out s1)) is\<rparr>, [])"
      using Cons.prems PongItem by (intro Cons.IH [of _ first]) (simp_all add: s1_def acc_of_def)
    finally show ?thesis
      by (simp add: s1_def PongItem)
  qed
qed

text \<open>
  C11: a message arrives whole however it travels.  A text cut into pieces anywhere, inside a
  character too, with pings and pongs in between, and the stream cut into reads anywhere, is
  received as that text; every ping is answered in order, and what follows the message stays unread.
\<close>
theorem ws_reassembles:
  assumes "\<forall>n. e_write env n = None" "\<forall>i \<in> set is. item_fits i" "str_wf t"
    "as_bytes t = item_data is @ lst" "length (as_bytes t) \<le> MAX_MESSAGE" "w_partial s = None" "w_buf s = []"
    "\<forall>c \<in> set cs. c \<noteq> []" "concat cs = message_frames True is lst @ unread"
  shows "\<exists>s' cs'. recv env s (map Inr cs) = (Inr (Text t), s', map Inr cs') \<and>
    w_buf s' @ concat cs' = unread \<and> w_partial s' = None \<and>
    w_out s' = w_out s @ pongs env (length (w_out s)) is"
proof -
  define s2 where "s2 = s\<lparr>w_buf := w_buf s @ concat cs\<rparr>"
  have "recv env s2 [] = (Inr (Text t),
      s2\<lparr>w_buf := unread, w_partial := None, w_out := w_out s2 @ pongs env (length (w_out s2)) is\<rparr>, [])"
    using assms from_utf8_as_bytes [OF assms(3)]
    by (intro recv_message [OF assms(1,2), of s2 lst t True]) (simp_all add: s2_def acc_of_def)
  moreover obtain r s' cs' where "recv env s (map Inr cs) = (r, s', map Inr cs')"
      "recv env s2 [] = (r, s'\<lparr>w_buf := w_buf s' @ concat cs'\<rparr>, [])"
    using recv_chunks [OF assms(8), of env s] by (auto simp: s2_def)
  ultimately have eq: "recv env s (map Inr cs) = (Inr (Text t), s', map Inr cs')"
      "s'\<lparr>w_buf := w_buf s' @ concat cs'\<rparr> =
       s2\<lparr>w_buf := unread, w_partial := None, w_out := w_out s2 @ pongs env (length (w_out s2)) is\<rparr>"
    by simp_all
  from arg_cong [OF eq(2), of w_buf] arg_cong [OF eq(2), of w_partial] arg_cong [OF eq(2), of w_out]
  show ?thesis
    using eq(1) by (intro exI [of _ s'] exI [of _ cs']) (simp add: s2_def)
qed

text \<open>The witness: the two bytes of one character in two pieces with a ping in between.\<close>

definition ws_env_example :: ws_env where
  "ws_env_example = \<lparr>e_mask = (\<lambda>_. [1, 2, 3, 4]), e_write = (\<lambda>_. None)\<rparr>"

definition ws_example :: ws where
  "ws_example = \<lparr>w_buf = [], w_partial = None, w_out = []\<rparr>"

lemma message_frames_example:
  "message_frames True [Piece [0xC3], PingItem [0x70]] [0xA9] =
   [0x01, 1, 0xC3, 0x89, 1, 0x70, 0x80, 1, 0xA9]"
  by (simp add: rfc_frame_def frame_length_def)

lemma ws_reassembles_witness:
  "\<exists>s' cs'. recv ws_env_example ws_example (map Inr [[0x01, 1, 0xC3, 0x89], [1, 0x70, 0x80, 1, 0xA9, 0x81]]) =
      (Inr (Text [0xE9]), s', map Inr cs') \<and>
    w_buf s' @ concat cs' = [0x81] \<and> w_partial s' = None \<and>
    w_out s' = w_out ws_example @ pongs ws_env_example (length (w_out ws_example)) [Piece [0xC3], PingItem [0x70]]"
  by (rule ws_reassembles [of _ "[Piece [0xC3], PingItem [0x70]]" _ "[0xA9]"])
    (simp_all add: ws_env_example_def ws_example_def message_frames_example MAX_MESSAGE_def is_scalar_def
      encode_utf8_def del: message_frames.simps)

lemma take_frame_err: "take_frame b = Inl e \<Longrightarrow> e = Proto FrameTooLarge"
  by (auto simp: take_frame_def Let_def split: if_splits option.splits)

lemma on_frame_no_timeout:
  assumes "\<forall>n. e_write env n \<noteq> Some WouldBlock"
  shows "fst (on_frame env f s) \<noteq> Some (Inl WouldBlock)"
proof -
  obtain fin op p where f: "f = (fin, op, p)"
    by (cases f)
  have "fst (send_frame env k p s) \<noteq> Some WouldBlock" for k
    using assms by (auto simp: send_frame_def write_raw_def split: option.split)
  from this [of "0xA"] show ?thesis
    by (auto simp: on_frame_def f Let_def split: prod.splits option.splits)
qed

text \<open>
  C12: a read that times out loses nothing.  When a call ends with a timeout, calling again with what
  arrives later gives what one call would have given with all of it.
\<close>
theorem ws_timeout_keeps:
  assumes "\<forall>n. e_write env n \<noteq> Some WouldBlock" "recv env s (map Inr cs) = (Inl WouldBlock, s', rs')"
  shows "rs' = [] \<and> recv env s (map Inr cs @ later) = recv env s' later"
  using assms
proof (induction env s "map Inr cs :: reads" arbitrary: cs rule: recv.induct)
  case (1 env s cs)
  show ?case
  proof (cases "take_frame (w_buf s)")
    case (Inl e)
    then show ?thesis
      using 1(4) recv_err [OF Inl, of env "map Inr cs"] take_frame_err [OF Inl] by simp
  next
    case (Inr x)
    show ?thesis
    proof (cases "fst x")
      case (Some f)
      then obtain r where r: "take_frame (w_buf s) = Inr (Some f, r)"
        using Inr by (cases x) simp
      obtain o1 s1 where f1: "on_frame env f (s\<lparr>w_buf := r\<rparr>) = (o1, s1)"
        by (cases "on_frame env f (s\<lparr>w_buf := r\<rparr>)")
      show ?thesis
      proof (cases o1)
        case (Some res)
        then have "res = Inl WouldBlock"
          using 1(4) recv_done [OF r, of env res s1] f1 by simp
        then have "fst (on_frame env f (s\<lparr>w_buf := r\<rparr>)) = Some (Inl WouldBlock)"
          using f1 Some by simp
        with on_frame_no_timeout [OF 1(3), of f "s\<lparr>w_buf := r\<rparr>"] show ?thesis
          by blast
      next
        case None
        then have n: "recv env s rs = recv env s1 rs" for rs
          using recv_next [OF r] f1 by blast
        show ?thesis
          unfolding n using 1(2) [OF r refl refl f1 [symmetric] None refl 1(3)] 1(4) unfolding n by simp
      qed
    next
      case None
      then have r: "take_frame (w_buf s) = Inr (None, w_buf s)"
        using Inr take_frame_none by (cases x) auto
      show ?thesis
      proof (cases cs)
        case Nil
        then show ?thesis
          using 1(4) recv_fill(2) [OF r, of "[]" WouldBlock s "[]"] by (simp add: fill_def)
      next
        case (Cons c cs')
        define s1 where "s1 = s\<lparr>w_buf := w_buf s @ c\<rparr>"
        show ?thesis
        proof (cases "c = []")
          case True
          then show ?thesis
            using 1(4) Cons recv_fill(2) [OF r, of "map Inr cs" UnexpectedEof s "map Inr cs'"] by (simp add: fill_def)
        next
          case False
          then have fl: "fill s (Inr c # rs) = (None, s1, rs)" for rs
            by (simp add: fill_def s1_def)
          note n = recv_fill(1) [OF r fl]
          show ?thesis
            using 1(1) [OF r refl] 1(3,4) fl unfolding Cons list.map append_Cons n by auto
        qed
      qed
    qed
  qed
qed

text \<open>The witness: half a frame, a timeout, the other half.\<close>

lemma ws_timeout_keeps_witness:
  "[] = ([] :: reads) \<and>
   recv ws_env_example ws_example (map Inr [[0x81]] @ [Inr [1, 0x61]]) =
   recv ws_env_example (ws_example\<lparr>w_buf := [0x81]\<rparr>) [Inr [1, 0x61]]"
proof (rule ws_timeout_keeps [where cs = "[[0x81]]"])
  have t: "take_frame [] = Inr (None, [])" "take_frame [0x81] = Inr (None, [0x81])"
    by (simp_all add: take_frame_def)
  have "recv ws_env_example ws_example [Inr [0x81]] = recv ws_env_example (ws_example\<lparr>w_buf := [0x81]\<rparr>) []"
    using recv_fill(1) [of ws_example "[]"] t by (simp add: ws_example_def fill_def)
  also have "\<dots> = (Inl WouldBlock, ws_example\<lparr>w_buf := [0x81]\<rparr>, [])"
    using t by (intro recv_fill(2)) (simp_all add: fill_def)
  finally show "recv ws_env_example ws_example (map Inr [[0x81]]) = (Inl WouldBlock, ws_example\<lparr>w_buf := [0x81]\<rparr>, [])"
    by simp
qed (simp add: ws_env_example_def)

end
