(* ===== verification/Search.thy ===== *)
theory Search
  imports WireMessages Scrollback Strings
begin

text \<open>
  Search through history, \<open>crates/marspot-term/src/scrollback_search.rs\<close>: rows are grouped into logical
  lines, newest first, each line is normalised, and every occurrence of the query in it becomes a hit
  with the cells to highlight.

  The Unicode tables of the standard library are the argument \<open>unicode\<close>: whether a character is
  alphanumeric, and what \<open>str::to_lowercase\<close> makes of a character between what is before and after it,
  which is at least one character.  Text is a list of characters; offsets that the code counts in bytes
  are counted in characters.
\<close>

record unicode =
  alphanumeric :: "uchar \<Rightarrow> bool"
  lowercase :: "ustring \<Rightarrow> uchar \<Rightarrow> ustring \<Rightarrow> uchar \<times> ustring"

definition to_lowercase :: "unicode \<Rightarrow> ustring \<Rightarrow> ustring" where
  "to_lowercase u s =
     concat (map (\<lambda>i. case lowercase u (take i s) (s ! i) (drop (Suc i) s) of (c, cs) \<Rightarrow> c # cs) [0..<length s])"

section \<open>Sources\<close>

text \<open>The trait \<open>SearchSource\<close>: rows by index from the oldest, and whether a row continues the one above.\<close>

record search_source =
  line_count :: nat
  line_at :: "nat \<Rightarrow> cell list option"
  wrapped_at :: "nat \<Rightarrow> bool"

definition rows_source :: "(cell list \<times> bool) list \<Rightarrow> search_source" where
  "rows_source rows =
     \<lparr>line_count = length rows,
      line_at = (\<lambda>i. if i < length rows then Some (fst (rows ! i)) else None),
      wrapped_at = (\<lambda>i. i < length rows \<and> snd (rows ! i))\<rparr>"

definition memory_source :: "memory_scrollback \<Rightarrow> search_source" where
  "memory_source m = \<lparr>line_count = ms_len m, line_at = ms_line m, wrapped_at = (\<lambda>_. False)\<rparr>"

definition merged_source :: "search_source \<Rightarrow> (cell list \<times> bool) list \<Rightarrow> search_source" where
  "merged_source file live =
     (let total = line_count file in
      \<lparr>line_count = total + length live,
       line_at = (\<lambda>i. if i < total then line_at file i
          else let local = i - total in if local < length live then Some (fst (live ! local)) else None),
       wrapped_at = (\<lambda>i. if i < total then wrapped_at file i
          else let local = i - total in local < length live \<and> snd (live ! local))\<rparr>)"

section \<open>Logical lines\<close>

definition is_url_path_class :: "unicode \<Rightarrow> uchar \<Rightarrow> bool" where
  "is_url_path_class u c \<longleftrightarrow> alphanumeric u c \<or>
     c \<in> {0x2F, 0x2E, 0x2D, 0x5F, 0x7E, 0x3F, 0x26, 0x3D, 0x23, 0x25, 0x3A, 0x2B, 0x40, 0x2C}"

definition is_blank :: "cell \<Rightarrow> bool" where
  "is_blank c \<longleftrightarrow> ch c = 0x20 \<or> ch c = 0"

definition count_leading_ws_cells :: "cell list \<Rightarrow> nat" where
  "count_leading_ws_cells cells = length (takeWhile is_blank cells)"

text \<open>The last cell of a row that is not blank, with its column.\<close>

definition last_non_blank :: "cell list \<Rightarrow> (nat \<times> uchar) option" where
  "last_non_blank cells =
     map_option (\<lambda>(i, c). (i, ch c)) (List.find (\<lambda>(i, c). \<not> is_blank c) (rev (List.enumerate 0 cells)))"

definition is_cc_hard_wrap :: "unicode \<Rightarrow> search_source \<Rightarrow> nat \<Rightarrow> nat \<Rightarrow> bool" where
  "is_cc_hard_wrap u src upper_idx lower_idx =
     (case (line_at src upper_idx, line_at src lower_idx) of
        (Some upper_row, Some lower_row) \<Rightarrow>
          upper_row \<noteq> [] \<and> lower_row \<noteq> [] \<and>
          (case last_non_blank upper_row of
             None \<Rightarrow> False
           | Some (last_nb_col, last_nb_ch) \<Rightarrow>
               last_nb_col \<ge> length upper_row - 2 \<and> is_url_path_class u last_nb_ch \<and>
               (let lead = count_leading_ws_cells lower_row
                in 1 \<le> lead \<and> lead \<le> 4 \<and> lead < length lower_row \<and> is_url_path_class u (ch (lower_row ! lead))))
      | _ \<Rightarrow> False)"

fun logical_first :: "unicode \<Rightarrow> search_source \<Rightarrow> nat \<Rightarrow> nat" where
  "logical_first u src 0 = 0"
| "logical_first u src (Suc n) =
     (if \<not> wrapped_at src (Suc n) \<and> \<not> is_cc_hard_wrap u src n (Suc n) then Suc n
      else logical_first u src n)"

text \<open>What row \<open>r\<close> adds to the line that starts at \<open>fst\<close>: characters with the row and column they are of.\<close>

definition row_entries :: "unicode \<Rightarrow> search_source \<Rightarrow> nat \<Rightarrow> nat \<Rightarrow> (uchar \<times> nat \<times> nat) list" where
  "row_entries u src fst_row r =
     (case line_at src r of
        None \<Rightarrow> []
      | Some cells \<Rightarrow>
          let leading_skip =
                (if r > fst_row \<and> \<not> wrapped_at src r \<and> is_cc_hard_wrap u src (r - 1) r
                 then min (count_leading_ws_cells cells) 4 else 0)
          in map (\<lambda>(col, c). (if ch c = 0 then 0x20 else ch c, r, col mod 65536))
               (drop leading_skip (List.enumerate 0 cells)))"

record logical_line =
  norm_text :: ustring
  norm_to_phys :: "(nat \<times> nat) list"
  logical_idx :: nat

definition trim_end_len :: "ustring \<Rightarrow> nat" where
  "trim_end_len s = length (dropWhile is_whitespace (rev s))"

definition build_line :: "unicode \<Rightarrow> search_source \<Rightarrow> nat \<Rightarrow> nat \<Rightarrow> nat \<Rightarrow> logical_line" where
  "build_line u src fst_row lst_row idx =
     (let entries = concat (map (row_entries u src fst_row) [fst_row..<Suc lst_row]);
          keep = trim_end_len (map fst entries)
      in \<lparr>norm_text = take keep (map fst entries), norm_to_phys = take keep (map snd entries), logical_idx = idx\<rparr>)"

section \<open>Hits\<close>

record physical_span =
  span_row :: nat
  span_start :: nat
  span_end :: nat

record search_hit =
  hit_line :: nat
  hit_offset :: nat
  hit_len :: nat
  hit_snippet :: ustring
  hit_snippet_start :: nat
  hit_snippet_end :: nat
  hit_rows :: "physical_span list"

text \<open>Consecutive entries of one row become a span.\<close>

function group_spans :: "(nat \<times> nat) list \<Rightarrow> physical_span list" where
  "group_spans [] = []"
| "group_spans ((r, c) # es) =
     (let same = takeWhile (\<lambda>e. fst e = r) es
      in \<lparr>span_row = r, span_start = c, span_end = (if same = [] then c else snd (last same))\<rparr> #
         group_spans (dropWhile (\<lambda>e. fst e = r) es))"
  by pat_completeness auto
termination
  by (relation "measure length") (auto simp: le_imp_less_Suc length_dropWhile_le)

definition build_phys_spans :: "logical_line \<Rightarrow> nat \<Rightarrow> nat \<Rightarrow> physical_span list" where
  "build_phys_spans l offset len =
     (if len = 0 \<or> norm_to_phys l = [] then []
      else group_spans (drop offset (take (min (offset + len) (length (norm_to_phys l))) (norm_to_phys l))))"

text \<open>\<open>None\<close> is a panic: a slice that starts past its end.\<close>

definition build_snippet :: "ustring \<Rightarrow> nat \<Rightarrow> nat \<Rightarrow> (ustring \<times> nat \<times> nat) option" where
  "build_snippet text offset len =
     (let total = length text;
          match_end = min (offset + len) total;
          want_before = (80 - len) div 2;
          want_after = (80 - len) - want_before;
          before_avail = min offset want_before;
          after_avail = min (total - match_end) want_after;
          start = offset - before_avail;
          finish = match_end + after_avail
      in if start > finish then None
         else Some (drop start (take finish text), before_avail mod 65536, (before_avail + len) mod 65536))"

text \<open>
  The loop of \<open>scan_logical\<close> from \<open>start\<close>, for the query \<open>q\<close> as it is looked for and its length \<open>k\<close> as
  typed.  \<open>None\<close> is a panic.
\<close>

definition make_hit :: "logical_line \<Rightarrow> nat \<Rightarrow> nat \<Rightarrow> search_hit option" where
  "make_hit l offset k =
     map_option (\<lambda>(snip, a, b).
       \<lparr>hit_line = logical_idx l, hit_offset = offset mod 4294967296, hit_len = k mod 4294967296,
        hit_snippet = snip, hit_snippet_start = a, hit_snippet_end = b,
        hit_rows = build_phys_spans l offset k\<rparr>) (build_snippet (norm_text l) offset k)"

function scan_from :: "logical_line \<Rightarrow> ustring \<Rightarrow> uchar \<Rightarrow> ustring \<Rightarrow> nat \<Rightarrow> nat \<Rightarrow> search_hit list option" where
  "scan_from l haystack c cs k start =
     (case find_text (c # cs) (drop start haystack) of
        None \<Rightarrow> Some []
      | Some off \<Rightarrow>
          (case make_hit l (start + off) k of
             None \<Rightarrow> None
           | Some h \<Rightarrow>
               let next = start + off + Suc (length cs)
               in if next > length haystack then Some [h]
                  else map_option ((#) h) (scan_from l haystack c cs k next)))"
  by pat_completeness auto
termination
  by (relation "measure (\<lambda>(l, haystack, c, cs, k, start). length haystack - start)")
    (auto simp: find_text_Some)

declare scan_from.simps [simp del]

section \<open>The iterator\<close>

record search_opts =
  case_sensitive :: bool
  max_total :: nat

definition SEARCH_DEFAULT :: search_opts where
  "SEARCH_DEFAULT = \<lparr>case_sensitive = False, max_total = 64\<rparr>"

record search_iter =
  query_lower :: ustring
  query_chars :: ustring
  opts :: search_opts
  next_phys_back :: int
  pending :: "search_hit list"
  yielded :: nat
  next_logical_idx :: nat

definition search_scrollback :: "unicode \<Rightarrow> search_source \<Rightarrow> ustring \<Rightarrow> search_opts \<Rightarrow> search_iter" where
  "search_scrollback u src query os =
     \<lparr>query_lower = (if case_sensitive os then query else to_lowercase u query), query_chars = query,
      opts = os, next_phys_back = int (line_count src) - 1, pending = [], yielded = 0,
      next_logical_idx = (if line_count src > 0 then line_count src - 1 else 0)\<rparr>"

definition next_logical :: "unicode \<Rightarrow> search_source \<Rightarrow> search_iter \<Rightarrow> (logical_line \<times> search_iter) option" where
  "next_logical u src it =
     (if next_phys_back it < 0 then None
      else let lst = nat (next_phys_back it);
               fst_row = logical_first u src lst;
               idx = next_logical_idx it
           in Some (build_line u src fst_row lst idx,
                    it\<lparr>next_logical_idx := (if idx > 0 then idx - 1 else idx),
                       next_phys_back := int fst_row - 1\<rparr>))"

text \<open>
  An empty needle is found again and again at the same place, so the loop would not end; the query is
  not empty there, and \<open>to_lowercase\<close> keeps it so.
\<close>

definition scan_logical :: "unicode \<Rightarrow> search_iter \<Rightarrow> logical_line \<Rightarrow> search_hit list option" where
  "scan_logical u it l =
     (if query_chars it = [] then Some []
      else let haystack = (if case_sensitive (opts it) then norm_text l else to_lowercase u (norm_text l))
           in case query_lower it of
                [] \<Rightarrow> None
              | c # cs \<Rightarrow> scan_from l haystack c cs (length (query_chars it)) 0)"

lemma logical_first_le: "logical_first u src n \<le> n"
  by (induction n) auto

text \<open>\<open>Iterator::next\<close>.  The outer \<open>None\<close> is a panic.\<close>

function iter_next :: "unicode \<Rightarrow> search_source \<Rightarrow> search_iter \<Rightarrow> (search_hit option \<times> search_iter) option" where
  "iter_next u src it =
     (if query_chars it = [] then Some (None, it)
      else if yielded it \<ge> max_total (opts it) then Some (None, it)
      else case pending it of
             h # hs \<Rightarrow> Some (Some h, it\<lparr>pending := hs, yielded := yielded it + 1\<rparr>)
           | [] \<Rightarrow>
               (case next_logical u src it of
                  None \<Rightarrow> Some (None, it)
                | Some (l, it1) \<Rightarrow>
                    (case scan_logical u it1 l of
                       None \<Rightarrow> None
                     | Some hs \<Rightarrow> iter_next u src (it1\<lparr>pending := hs\<rparr>))))"
  by pat_completeness auto
termination
proof (relation "measure (\<lambda>(u, src, it). nat (next_phys_back it + 1))", goal_cases)
  case (2 u src it x l it1 hs)
  then show ?case
    using logical_first_le [of u src "nat (next_phys_back it)"]
    by (auto simp: next_logical_def Let_def split: if_splits)
qed simp

declare iter_next.simps [simp del]

section \<open>The worker\<close>

text \<open>
  \<open>cancel k\<close> is what the \<open>k\<close>-th look at the flag sees.  A worker ends with nothing, because it was
  cancelled or its thread panicked, or with one batch.
\<close>

datatype worker_end = Cancelled | Panicked | Batch "search_hit list" bool nat

lemma next_logical_frame:
  "next_logical u src it = Some (l, it1) \<Longrightarrow>
   opts it1 = opts it \<and> yielded it1 = yielded it \<and> query_chars it1 = query_chars it \<and>
   query_lower it1 = query_lower it \<and> search_iter.pending it1 = search_iter.pending it"
  by (auto simp: next_logical_def Let_def split: if_splits)

lemma iter_next_yields:
  "iter_next u src it = Some (Some h, it') \<Longrightarrow>
   opts it' = opts it \<and> yielded it' = Suc (yielded it) \<and> yielded it < max_total (opts it)"
proof (induction u src it rule: iter_next.induct)
  case (1 u src it)
  show ?case
  proof (cases "query_chars it = [] \<or> max_total (opts it) \<le> yielded it \<or> search_iter.pending it \<noteq> []")
    case True
    then show ?thesis
      using 1(2) by (auto simp: iter_next.simps [of u src it] neq_Nil_conv split: if_splits)
  next
    case False
    then obtain l it1 hs where l: "next_logical u src it = Some (l, it1)" "scan_logical u it1 l = Some hs"
        "iter_next u src (it1\<lparr>pending := hs\<rparr>) = Some (Some h, it')"
      using 1(2) by (auto simp: iter_next.simps [of u src it] split: option.splits)
    show ?thesis
      using 1(1) [OF _ _ _ l(1) refl l(2,3)] False next_logical_frame [OF l(1)] by simp
  qed
qed

function worker_loop ::
  "unicode \<Rightarrow> search_source \<Rightarrow> (nat \<Rightarrow> bool) \<Rightarrow> nat \<Rightarrow> search_hit list \<Rightarrow> nat \<Rightarrow> search_iter \<Rightarrow> worker_end" where
  "worker_loop u src cancel k hits seen it =
     (if cancel k then Cancelled
      else case iter_next u src it of
             None \<Rightarrow> Panicked
           | Some (Some h, it') \<Rightarrow>
               worker_loop u src cancel (Suc k) (hits @ [h]) (min (seen + 1) 4294967295) it'
           | Some (None, _) \<Rightarrow>
               if cancel (Suc k) then Cancelled
               else Batch hits (length hits mod 4294967296 = max_total (opts it)) seen)"
  by pat_completeness auto
termination
  by (relation "measure (\<lambda>(u, src, cancel, k, hits, seen, it). max_total (opts it) - yielded it)")
    (auto dest!: iter_next_yields)

declare worker_loop.simps [simp del]

definition run_search :: "unicode \<Rightarrow> search_source \<Rightarrow> ustring \<Rightarrow> search_opts \<Rightarrow> (nat \<Rightarrow> bool) \<Rightarrow> worker_end" where
  "run_search u src query os cancel = worker_loop u src cancel 0 [] 0 (search_scrollback u src query os)"

section \<open>The wire\<close>

definition span_to_wire :: "nat \<Rightarrow> physical_span \<Rightarrow> wire_physical_span" where
  "span_to_wire row s =
     \<lparr>phys_row_idx = of_nat row, col_start = of_nat (span_start s), col_end_inclusive = of_nat (span_end s)\<rparr>"

definition to_wire_hit :: "search_hit \<Rightarrow> wire_search_hit" where
  "to_wire_hit h =
     \<lparr>logical_line_idx = of_nat (hit_line h), char_offset = of_nat (hit_offset h), char_len = of_nat (hit_len h),
      snippet_match_start = of_nat (hit_snippet_start h), snippet_match_end = of_nat (hit_snippet_end h),
      snippet = hit_snippet h, spans = map (\<lambda>s. span_to_wire (span_row s) s) (hit_rows h)\<rparr>"

definition remap_to_wire :: "nat \<Rightarrow> search_hit \<Rightarrow> wire_search_hit" where
  "remap_to_wire file_total h =
     (let max_phys = fold max (map span_row (hit_rows h)) 0
      in (to_wire_hit h)
           \<lparr>logical_line_idx :=
              (if max_phys \<ge> file_total then 0xFFFFFFFFFFFFFFFF - of_nat (max_phys - file_total)
               else of_nat (hit_line h)),
            spans := map (\<lambda>s. span_to_wire
              (if span_row s \<ge> file_total then span_row s - file_total else span_row s) s) (hit_rows h)\<rparr>)"

text \<open>What \<open>on_batch\<close> is called with, if it is called.\<close>

fun delivered :: "(search_hit \<Rightarrow> wire_search_hit) \<Rightarrow> worker_end \<Rightarrow> (wire_search_hit list \<times> bool \<times> nat) option" where
  "delivered f (Batch hits has_more seen) = Some (map f hits, has_more, seen)"
| "delivered f _ = None"

definition spawn_search ::
  "unicode \<Rightarrow> search_source \<Rightarrow> ustring \<Rightarrow> search_opts \<Rightarrow> (nat \<Rightarrow> bool) \<Rightarrow> (wire_search_hit list \<times> bool \<times> nat) option" where
  "spawn_search u src query os cancel = delivered to_wire_hit (run_search u src query os cancel)"

definition spawn_search_merged ::
  "unicode \<Rightarrow> search_source \<Rightarrow> (cell list \<times> bool) list \<Rightarrow> ustring \<Rightarrow> search_opts \<Rightarrow> (nat \<Rightarrow> bool) \<Rightarrow>
   (wire_search_hit list \<times> bool \<times> nat) option" where
  "spawn_search_merged u file live query os cancel =
     delivered (remap_to_wire (line_count file)) (run_search u (merged_source file live) query os cancel)"

end
