(* ===== verification/SearchProps.thy ===== *)
theory SearchProps
  imports Search GridEdit
begin

text \<open>
  What the search of \<open>Search\<close> delivers: every occurrence in every logical line, newest first, with
  exactly the cells that spell the query; and where it misses or dies.
\<close>

section \<open>Occurrences\<close>

definition occurs_at :: "ustring \<Rightarrow> ustring \<Rightarrow> nat \<Rightarrow> bool" where
  "occurs_at q text i \<longleftrightarrow> take (length q) (drop i text) = q"

text \<open>
  The occurrences a search from the left finds: they do not overlap, and every occurrence meets one
  that starts no later.
\<close>

definition leftmost :: "ustring \<Rightarrow> ustring \<Rightarrow> nat \<Rightarrow> nat list \<Rightarrow> bool" where
  "leftmost q text start ps \<longleftrightarrow>
     sorted_wrt (\<lambda>a b. a + length q \<le> b) ps \<and> (\<forall>p \<in> set ps. start \<le> p \<and> occurs_at q text p) \<and>
     (\<forall>i. start \<le> i \<and> occurs_at q text i \<longrightarrow> (\<exists>p \<in> set ps. p \<le> i \<and> i < p + length q))"

lemma occurs_at_bound: "occurs_at q text i \<Longrightarrow> q \<noteq> [] \<Longrightarrow> i + length q \<le> length text"
  unfolding occurs_at_def by (drule arg_cong [where f = length]) (cases q; simp)

lemma find_from:
  assumes "q \<noteq> []" "start \<le> length text"
  shows "find_text q (drop start text) = Some off \<Longrightarrow>
      occurs_at q text (start + off) \<and> (\<forall>i. start \<le> i \<and> i < start + off \<longrightarrow> \<not> occurs_at q text i)"
    and "find_text q (drop start text) = None \<Longrightarrow> start \<le> i \<Longrightarrow> \<not> occurs_at q text i"
proof -
  assume f: "find_text q (drop start text) = Some off"
  have "\<not> occurs_at q text i" if "start \<le> i" "i < start + off" for i
    using f that unfolding find_text_Some occurs_at_def
    by (metis add.commute drop_drop le_add_diff_inverse less_diff_conv2)
  then show "occurs_at q text (start + off) \<and> (\<forall>i. start \<le> i \<and> i < start + off \<longrightarrow> \<not> occurs_at q text i)"
    using f by (auto simp: find_text_Some occurs_at_def add.commute)
next
  assume f: "find_text q (drop start text) = None" "start \<le> i"
  show "\<not> occurs_at q text i"
  proof
    assume o: "occurs_at q text i"
    then have "i \<le> length text"
      using occurs_at_bound [OF o assms(1)] by simp
    then have "i - start \<le> length (drop start text)"
      using f(2) assms(2) by simp
    then show False
      using f o by (auto simp: find_text_None occurs_at_def)
  qed
qed

text \<open>Where the needle is what was typed and the haystack the line itself, no slice is out of range.\<close>

lemma build_snippet_inside:
  assumes "offset + len \<le> length text" "len < 65536"
  shows "\<exists>snip a. build_snippet text offset len = Some (snip, a, a + len) \<and>
    take len (drop a snip) = take len (drop offset text)"
proof -
  define before where "before = min offset ((80 - len) div 2)"
  define finish where "finish = offset + len + min (length text - (offset + len)) (80 - len - (80 - len) div 2)"
  have e: "min (offset + len) (length text) = offset + len"
    using assms by simp
  have b: "before + len < 65536"
    using assms(2) by (cases "len \<le> 80") (auto simp: before_def)
  have "\<not> offset - before > finish"
    by (simp add: finish_def)
  then have s: "build_snippet text offset len = Some (drop (offset - before) (take finish text), before, before + len)"
    using b unfolding build_snippet_def Let_def e before_def [symmetric] finish_def [symmetric] by simp
  have "drop before (drop (offset - before) (take finish text)) = drop offset (take finish text)"
    by (simp add: before_def)
  moreover have "take len (drop offset (take finish text)) = take len (drop offset text)"
    by (simp add: drop_take finish_def)
  ultimately show ?thesis
    using s by metis
qed

definition hit_at :: "logical_line \<Rightarrow> nat \<Rightarrow> nat \<Rightarrow> search_hit" where
  "hit_at l k p = the (make_hit l p k)"

lemma make_hit_inside:
  "p + k \<le> length (norm_text l) \<Longrightarrow> k < 65536 \<Longrightarrow> make_hit l p k = Some (hit_at l k p)"
  using build_snippet_inside [of p k "norm_text l"] by (auto simp: hit_at_def make_hit_def)

lemma scan_leftmost:
  assumes "k = Suc (length cs)" "k < 65536" "length haystack = length (norm_text l)" "start \<le> length haystack"
  shows "\<exists>ps. scan_from l haystack c cs k start = Some (map (hit_at l k) ps) \<and> leftmost (c # cs) haystack start ps"
  using assms(4)
proof (induction "length haystack - start" arbitrary: start rule: less_induct)
  case less
  let ?t = haystack and ?q = "c # cs"
  show ?case
  proof (cases "find_text ?q (drop start ?t)")
    case None
    then have "leftmost ?q ?t start []"
      using find_from(2) [OF _ less(2) None] by (auto simp: leftmost_def)
    then show ?thesis
      using None by (intro exI [of _ "[]"]) (simp add: scan_from.simps)
  next
    case (Some off)
    define p where "p = start + off"
    have p: "occurs_at ?q ?t p" "\<And>i. start \<le> i \<Longrightarrow> i < p \<Longrightarrow> \<not> occurs_at ?q ?t i"
      using find_from(1) [OF _ less(2) Some] by (auto simp: p_def)
    have b: "p + k \<le> length ?t"
      using occurs_at_bound [OF p(1)] by (simp add: assms(1))
    obtain ps where ps: "scan_from l ?t c cs k (p + k) = Some (map (hit_at l k) ps)" "leftmost ?q ?t (p + k) ps"
    proof -
      have "length ?t - (p + k) < length ?t - start"
        using b assms(1) by (simp add: p_def)
      from less(1) [OF this b] show thesis
        using that by blast
    qed
    have "scan_from l ?t c cs k start = Some (map (hit_at l k) (p # ps))"
      using ps(1) b make_hit_inside [OF b [unfolded assms(3)] assms(2)] Some
      by (subst scan_from.simps) (simp add: p_def Let_def assms(1) add.assoc)
    moreover have "leftmost ?q ?t start (p # ps)"
      unfolding leftmost_def
    proof (intro conjI)
      show "sorted_wrt (\<lambda>a b. a + length ?q \<le> b) (p # ps)"
        using ps(2) by (auto simp: leftmost_def assms(1))
      show "\<forall>x \<in> set (p # ps). start \<le> x \<and> occurs_at ?q ?t x"
        using ps(2) p(1) by (auto simp: leftmost_def p_def)
      show "\<forall>i. start \<le> i \<and> occurs_at ?q ?t i \<longrightarrow> (\<exists>x \<in> set (p # ps). x \<le> i \<and> i < x + length ?q)"
      proof (intro allI impI)
        fix i assume i: "start \<le> i \<and> occurs_at ?q ?t i"
        consider "i < p" | "p \<le> i" "i < p + k" | "p + k \<le> i"
          by linarith
        then show "\<exists>x \<in> set (p # ps). x \<le> i \<and> i < x + length ?q"
          by cases (use i p(2) ps(2) assms(1) in \<open>auto simp: leftmost_def\<close>)
      qed
    qed
    ultimately show ?thesis
      by blast
  qed
qed

section \<open>Cells and text\<close>

definition shown :: "cell \<Rightarrow> uchar" where
  "shown c = (if ch c = 0 then 0x20 else ch c)"

text \<open>What the cells of a span read.\<close>

definition span_text :: "search_source \<Rightarrow> physical_span \<Rightarrow> ustring" where
  "span_text src s =
     (case line_at src (span_row s) of
        None \<Rightarrow> []
      | Some cells \<Rightarrow> map shown (take (span_end s + 1 - span_start s) (drop (span_start s) cells)))"

definition entry_ok :: "search_source \<Rightarrow> uchar \<times> nat \<times> nat \<Rightarrow> bool" where
  "entry_ok src e \<longleftrightarrow>
     (case e of (c, r, col) \<Rightarrow> \<exists>cells. line_at src r = Some cells \<and> col < length cells \<and> c = shown (cells ! col))"

definition next_to :: "nat \<times> nat \<Rightarrow> nat \<times> nat \<Rightarrow> bool" where
  "next_to a b \<longleftrightarrow> (fst b = fst a \<longrightarrow> snd b = Suc (snd a))"

lemma run_columns:
  "successively next_to ((r, c) # xs) \<Longrightarrow> \<forall>x \<in> set xs. fst x = r \<Longrightarrow>
   xs = map (\<lambda>i. (r, c + Suc i)) [0..<length xs]"
proof (induction xs arbitrary: c)
  case (Cons x xs)
  then have x: "x = (r, Suc c)"
    by (cases x) (auto simp: next_to_def)
  have "xs = map (\<lambda>i. (r, Suc c + Suc i)) [0..<length xs]"
    using Cons x by (intro Cons.IH) auto
  then show ?case
    unfolding x by (simp add: upt_conv_Cons map_Suc_upt [symmetric] o_def del: upt_Suc)
qed simp

lemma entries_row:
  assumes "\<forall>e \<in> set es. entry_ok src e" "map snd es = map (\<lambda>i. (r, c + i)) [0..<length es]" "line_at src r = Some cells"
  shows "map fst es = map shown (take (length es) (drop c cells)) \<and> (es \<noteq> [] \<longrightarrow> c + length es \<le> length cells)"
proof -
  have e: "fst (es ! i) = shown (cells ! (c + i)) \<and> c + i < length cells" if "i < length es" for i
  proof -
    have "snd (es ! i) = (r, c + i)"
      using arg_cong [OF assms(2), of "\<lambda>xs. xs ! i"] that by simp
    moreover have "entry_ok src (es ! i)"
      using assms(1) that by simp
    ultimately show ?thesis
      using assms(3) by (cases "es ! i") (auto simp: entry_ok_def)
  qed
  have "c + length es \<le> length cells" if "es \<noteq> []"
    using e [of "length es - 1"] that by (cases es) auto
  moreover from this have "map fst es = map shown (take (length es) (drop c cells))"
    using e by (cases "es = []") (auto intro!: nth_equalityI)
  ultimately show ?thesis
    by blast
qed

lemma group_text:
  assumes "\<forall>e \<in> set es. entry_ok src e" "successively next_to (map snd es)"
  shows "concat (map (span_text src) (group_spans (map snd es))) = map fst es"
  using assms
proof (induction "length es" arbitrary: es rule: less_induct)
  case less
  show ?case
  proof (cases es)
    case Nil
    then show ?thesis by simp
  next
    case (Cons e es')
    obtain c0 r c where e: "e = (c0, r, c)"
      by (cases e)
    define same where "same = takeWhile (\<lambda>e. fst (snd e) = r) es'"
    define rest where "rest = dropWhile (\<lambda>e. fst (snd e) = r) es'"
    have es: "es = (e # same) @ rest"
      by (simp add: Cons same_def rest_def)
    have w: "takeWhile (\<lambda>e. fst e = r) (map snd es') = map snd same"
        "dropWhile (\<lambda>e. fst e = r) (map snd es') = map snd rest"
      by (simp_all add: same_def rest_def takeWhile_map dropWhile_map o_def)
    have ch: "successively next_to (map snd (e # same))" "successively next_to (map snd rest)"
      using less(3) unfolding es map_append successively_append_iff by blast+
    have all: "\<forall>x \<in> set (map snd same). fst x = r"
      by (auto simp: same_def dest: set_takeWhileD)
    have run: "map snd same = map (\<lambda>i. (r, c + Suc i)) [0..<length same]"
      using run_columns [of r c "map snd same"] ch(1) all by (simp add: e)
    then have cols: "map snd (e # same) = map (\<lambda>i. (r, c + i)) [0..<length (e # same)]"
      by (simp add: e upt_conv_Cons map_Suc_upt [symmetric] o_def del: upt_Suc)
    have ok: "\<forall>x \<in> set (e # same). entry_ok src x" "\<forall>x \<in> set rest. entry_ok src x"
      using less(2) unfolding es by auto
    obtain cells where cells: "line_at src r = Some cells"
      using ok(1) by (auto simp: e entry_ok_def)
    have "span_end \<lparr>span_row = r, span_start = c, span_end = (if map snd same = [] then c else snd (last (map snd same)))\<rparr> =
        c + length same"
      using run by (cases same rule: rev_cases) (auto simp: last_map)
    then have t: "span_text src \<lparr>span_row = r, span_start = c, span_end = (if map snd same = [] then c else snd (last (map snd same)))\<rparr> =
        map fst (e # same)"
      using entries_row [OF ok(1) cols cells] by (simp add: span_text_def cells)
    have t2: "concat (map (span_text src) (group_spans (map snd rest))) = map fst rest"
      using less(1) [of rest] es ok(2) ch(2) by simp
    show ?thesis
    proof -
      have "group_spans (map snd es) =
          \<lparr>span_row = r, span_start = c, span_end = (if map snd same = [] then c else snd (last (map snd same)))\<rparr> #
          group_spans (map snd rest)"
        by (simp add: Cons e w Let_def)
      moreover have "map fst es = map fst (e # same) @ map fst rest"
        unfolding es by simp
      ultimately show ?thesis
        using t t2 by simp
    qed
  qed
qed

text \<open>The entries of a row and of a line.\<close>

lemma row_entries_cells:
  assumes "line_at src r = Some cells" "length cells \<le> 65536"
  shows "\<exists>skip. row_entries u src f r = map (\<lambda>i. (shown (cells ! i), r, i)) [skip..<length cells]"
proof -
  have e: "map (\<lambda>(col, c). (if ch c = 0 then 0x20 else ch c, r, col mod 65536)) (drop skip (List.enumerate 0 cells)) =
      map (\<lambda>i. (shown (cells ! i), r, i)) [skip..<length cells]" for skip
    using assms(2) by (auto intro!: nth_equalityI simp: nth_enumerate_eq shown_def)
  show ?thesis
    by (simp only: row_entries_def assms option.case Let_def e) blast
qed

definition short_rows :: "search_source \<Rightarrow> bool" where
  "short_rows src \<longleftrightarrow> (\<forall>r cells. line_at src r = Some cells \<longrightarrow> length cells \<le> 65536)"

definition line_entries :: "unicode \<Rightarrow> search_source \<Rightarrow> nat \<Rightarrow> nat \<Rightarrow> (uchar \<times> nat \<times> nat) list" where
  "line_entries u src f l = concat (map (row_entries u src f) [f..<Suc l])"

lemma row_entries_ok:
  assumes "short_rows src"
  shows "\<forall>e \<in> set (row_entries u src f r). entry_ok src e \<and> fst (snd e) = r"
    and "successively next_to (map snd (row_entries u src f r))"
proof -
  have "(\<forall>e \<in> set (row_entries u src f r). entry_ok src e \<and> fst (snd e) = r) \<and>
      successively next_to (map snd (row_entries u src f r))"
  proof (cases "line_at src r")
    case None
    then show ?thesis by (simp add: row_entries_def)
  next
    case (Some cells)
    then obtain skip where e: "row_entries u src f r = map (\<lambda>i. (shown (cells ! i), r, i)) [skip..<length cells]"
      using row_entries_cells [OF Some] assms [unfolded short_rows_def] Some by blast
    have "successively next_to (map (\<lambda>i. (r, i)) [skip..<n])" for n
    proof (induction n)
      case (Suc n)
      then show ?case
        by (cases "skip < n") (auto simp: successively_append_iff next_to_def last_map)
    qed simp
    then show ?thesis
      using Some by (auto simp: e entry_ok_def o_def)
  qed
  then show "\<forall>e \<in> set (row_entries u src f r). entry_ok src e \<and> fst (snd e) = r"
    "successively next_to (map snd (row_entries u src f r))"
    by blast+
qed

lemma line_entries_ok:
  assumes "short_rows src"
  shows "\<forall>e \<in> set (line_entries u src f l). entry_ok src e" "successively next_to (map snd (line_entries u src f l))"
proof -
  show "\<forall>e \<in> set (line_entries u src f l). entry_ok src e"
    using row_entries_ok(1) [OF assms] by (auto simp: line_entries_def)
  have "successively next_to (map snd (concat (map (row_entries u src f) [f..<n]))) \<and>
      (\<forall>e \<in> set (concat (map (row_entries u src f) [f..<n])). fst (snd e) < n)" for n
  proof (induction n)
    case (Suc n)
    define xs where "xs = concat (map (row_entries u src f) [f..<n])"
    define ys where "ys = row_entries u src f n"
    have ys: "\<forall>e \<in> set ys. fst (snd e) = n" "successively next_to (map snd ys)"
      using row_entries_ok [OF assms, of u f n] by (auto simp: ys_def)
    have xs: "\<forall>e \<in> set xs. fst (snd e) < n" "successively next_to (map snd xs)"
      using Suc by (auto simp: xs_def)
    have "next_to (last (map snd xs)) (hd (map snd ys))" if "xs \<noteq> []" "ys \<noteq> []"
    proof -
      have "fst (snd (last xs)) < n" "fst (snd (hd ys)) = n"
        using xs(1) ys(1) that by simp_all
      then show ?thesis
        using that by (simp add: next_to_def last_map hd_map)
    qed
    then have "successively next_to (map snd (xs @ ys))"
      using xs(2) ys(2) by (auto simp: successively_append_iff)
    moreover have "\<forall>e \<in> set (xs @ ys). fst (snd e) < Suc n"
      using xs(1) ys(1) by auto
    moreover have "concat (map (row_entries u src f) [f..<Suc n]) = (if f \<le> n then xs @ ys else [])"
      by (simp add: xs_def ys_def)
    ultimately show ?case
      by (metis (no_types, lifting) empty_iff list.simps(8) list.set(1) successively.simps(1))
  qed simp
  then show "successively next_to (map snd (line_entries u src f l))"
    by (simp only: line_entries_def)
qed

lemma build_line_entries:
  "\<exists>keep. norm_text (build_line u src f l idx) = map fst (take keep (line_entries u src f l)) \<and>
     norm_to_phys (build_line u src f l idx) = map snd (take keep (line_entries u src f l)) \<and>
     logical_idx (build_line u src f l idx) = idx"
  by (auto simp: build_line_def Let_def line_entries_def take_map)

text \<open>The cells of a hit read the piece of the line it was found in.\<close>

lemma hit_at_reads:
  assumes "short_rows src" "0 < k" "k < 65536" "p + k \<le> length (norm_text (build_line u src f l idx))"
  shows "concat (map (span_text src) (hit_rows (hit_at (build_line u src f l idx) k p))) =
    take k (drop p (norm_text (build_line u src f l idx)))"
proof -
  let ?L = "build_line u src f l idx" and ?k = k
  obtain keep where keep: "norm_text ?L = map fst (take keep (line_entries u src f l))"
      "norm_to_phys ?L = map snd (take keep (line_entries u src f l))"
    using build_line_entries [of u src f l idx] by blast
  define es where "es = take ?k (drop p (take keep (line_entries u src f l)))"
  have b: "p + ?k \<le> length (norm_text ?L)"
    using assms(4) .
  have m: "make_hit ?L p ?k = Some (hit_at ?L ?k p)"
    using make_hit_inside [OF b assms(3)] .
  have "hit_rows (hit_at ?L ?k p) = build_phys_spans ?L p ?k"
    using m by (cases "build_snippet (norm_text ?L) p ?k") (auto simp: make_hit_def dest: arg_cong [where f = hit_rows])
  also have "\<dots> = group_spans (map snd es)"
  proof -
    have p: "p + ?k \<le> length (norm_to_phys ?L)"
      using b by (simp add: keep)
    moreover have "norm_to_phys ?L \<noteq> []"
      using p assms(2) by auto
    ultimately have "build_phys_spans ?L p ?k = group_spans (take ?k (drop p (norm_to_phys ?L)))"
      using assms(2) by (simp add: build_phys_spans_def min_absorb1 take_drop add.commute)
    then show ?thesis
      by (simp only: keep es_def take_map drop_map)
  qed
  finally have h: "hit_rows (hit_at ?L ?k p) = group_spans (map snd es)" .
  have sub: "\<exists>as bs. line_entries u src f l = as @ es @ bs"
    by (metis append_take_drop_id es_def append_assoc)
  then have "\<forall>e \<in> set es. entry_ok src e" "successively next_to (map snd es)"
    using line_entries_ok [OF assms(1), of u f l] by (auto simp: successively_append_iff)
  from group_text [OF this] have "concat (map (span_text src) (hit_rows (hit_at ?L ?k p))) = map fst es"
    by (simp only: h)
  also have "\<dots> = take k (drop p (norm_text ?L))"
    by (simp add: keep es_def take_map drop_map)
  finally show ?thesis .
qed

section \<open>The lines\<close>

function search_ranges :: "unicode \<Rightarrow> search_source \<Rightarrow> nat \<Rightarrow> (nat \<times> nat) list" where
  "search_ranges u src n =
     (if n = 0 then []
      else let f = logical_first u src (n - 1) in (f, n - 1) # search_ranges u src f)"
  by pat_completeness auto
termination
  by (relation "measure (\<lambda>(u, src, n). n)") (auto intro: le_less_trans [OF logical_first_le])

declare search_ranges.simps [simp del]

text \<open>The rows, cut into logical lines: every row is in one line, and the newest line comes first.\<close>

lemma search_ranges_rows: "concat (rev (map (\<lambda>(f, l). [f..<Suc l]) (search_ranges u src n))) = [0..<n]"
proof (induction u src n rule: search_ranges.induct)
  case (1 u src n)
  show ?case
  proof (cases "n = 0")
    case True
    then show ?thesis by (simp add: search_ranges.simps)
  next
    case False
    let ?f = "logical_first u src (n - 1)"
    have "?f \<le> n"
      using logical_first_le [of u src "n - 1"] by simp
    then have "[0..<n] = [0..<?f] @ [?f..<n]"
      by (metis le_add_diff_inverse upt_add_eq_append zero_le)
    then show ?thesis
      using 1 [OF False refl] False by (subst search_ranges.simps) (simp add: Let_def del: upt_Suc)
  qed
qed

lemma length_search_ranges: "length (search_ranges u src n) \<le> n"
proof (induction u src n rule: search_ranges.induct)
  case (1 u src n)
  show ?case
  proof (cases "n = 0")
    case False
    then show ?thesis
      using 1 [OF False refl] logical_first_le [of u src "n - 1"] by (subst search_ranges.simps) (simp add: Let_def)
  qed (simp add: search_ranges.simps)
qed

definition lines_from :: "unicode \<Rightarrow> search_source \<Rightarrow> nat \<Rightarrow> nat \<Rightarrow> logical_line list" where
  "lines_from u src n idx =
     map (\<lambda>(k, f, l). build_line u src f l (idx - k)) (List.enumerate 0 (search_ranges u src n))"

definition search_lines :: "unicode \<Rightarrow> search_source \<Rightarrow> logical_line list" where
  "search_lines u src = lines_from u src (line_count src) (line_count src - 1)"

lemma lines_from_step:
  "n > 0 \<Longrightarrow> lines_from u src n idx =
     (let f = logical_first u src (n - 1) in build_line u src f (n - 1) idx # lines_from u src f (idx - 1))"
  by (subst lines_from_def, subst search_ranges.simps)
    (auto simp: Let_def lines_from_def enumerate_Suc_eq o_def split_def intro!: map_cong)

section \<open>The worker\<close>

definition stream :: "unicode \<Rightarrow> search_source \<Rightarrow> (logical_line \<Rightarrow> search_hit list) \<Rightarrow> search_iter \<Rightarrow> search_hit list" where
  "stream u src hits it =
     search_iter.pending it @ concat (map hits (lines_from u src (nat (next_phys_back it + 1)) (next_logical_idx it)))"

definition asks :: "search_opts \<Rightarrow> ustring \<Rightarrow> ustring \<Rightarrow> search_iter \<Rightarrow> bool" where
  "asks os q ql it \<longleftrightarrow> opts it = os \<and> query_chars it = q \<and> query_lower it = ql"

lemma next_logical_stream:
  "next_phys_back it \<ge> -1 \<Longrightarrow>
   case next_logical u src it of
     None \<Rightarrow> lines_from u src (nat (next_phys_back it + 1)) (next_logical_idx it) = []
   | Some (l, it1) \<Rightarrow> next_phys_back it1 \<ge> -1 \<and> next_phys_back it1 < next_phys_back it \<and>
       lines_from u src (nat (next_phys_back it + 1)) (next_logical_idx it) =
       l # lines_from u src (nat (next_phys_back it1 + 1)) (next_logical_idx it1)"
proof (cases "next_phys_back it < 0")
  case True
  then show ?thesis
    by (simp add: next_logical_def lines_from_def search_ranges.simps)
next
  case False
  define n where "n = nat (next_phys_back it + 1)"
  have n: "n > 0" "nat (next_phys_back it) = n - 1" "next_phys_back it = int n - 1"
    using False by (auto simp: n_def)
  show ?thesis
    using False lines_from_step [OF n(1), of u src "next_logical_idx it"] logical_first_le [of u src "n - 1"] n
    unfolding n_def [symmetric] by (auto simp: next_logical_def Let_def n(2,3))
qed

text \<open>The lines an iterator has before it.\<close>

definition ahead :: "unicode \<Rightarrow> search_source \<Rightarrow> search_iter \<Rightarrow> logical_line set" where
  "ahead u src it = set (lines_from u src (nat (next_phys_back it + 1)) (next_logical_idx it))"

lemma iter_next_stream:
  assumes "q \<noteq> []" "\<And>it l. asks os q ql it \<Longrightarrow> l \<in> L \<Longrightarrow> scan_logical u it l = Some (hits l)"
    "asks os q ql it" "next_phys_back it \<ge> -1" "ahead u src it \<subseteq> L"
  shows "\<exists>it'. asks os q ql it' \<and> next_phys_back it' \<ge> -1 \<and> ahead u src it' \<subseteq> L \<and>
     (if yielded it < max_total os \<and> stream u src hits it \<noteq> []
      then iter_next u src it = Some (Some (hd (stream u src hits it)), it') \<and>
        stream u src hits it' = tl (stream u src hits it) \<and> yielded it' = Suc (yielded it)
      else iter_next u src it = Some (None, it'))"
  using assms(3-5)
proof (induction "nat (next_phys_back it + 1)" arbitrary: it rule: less_induct)
  case (less it)
  have q: "query_chars it = q" "opts it = os"
    using less(2) by (simp_all add: asks_def)
  consider "yielded it \<ge> max_total os" | h hs where "yielded it < max_total os" "search_iter.pending it = h # hs"
    | "yielded it < max_total os" "search_iter.pending it = []"
    by (cases "search_iter.pending it") (auto simp: not_le [symmetric])
  then show ?case
  proof cases
    case 1
    then show ?thesis
      using \<open>asks os q ql it\<close> \<open>- 1 \<le> next_phys_back it\<close> q less(4) by (intro exI [of _ it]) (simp add: iter_next.simps [of u src it])
  next
    case (2 h hs)
    then show ?thesis
      using \<open>asks os q ql it\<close> \<open>- 1 \<le> next_phys_back it\<close> q assms(1)
      by (intro exI [of _ "it\<lparr>pending := hs, yielded := yielded it + 1\<rparr>"])
        (use less(4) in \<open>simp add: iter_next.simps [of u src it] stream_def asks_def ahead_def\<close>)
  next
    case 3
    show ?thesis
    proof (cases "next_logical u src it")
      case None
      then show ?thesis
        using 3 \<open>asks os q ql it\<close> \<open>- 1 \<le> next_phys_back it\<close> q assms(1) next_logical_stream [of it u src]
          less(4)
        by (intro exI [of _ it]) (simp add: iter_next.simps [of u src it] stream_def)
    next
      case (Some x)
      then obtain l it1 where x: "next_logical u src it = Some (l, it1)"
        by (cases x) auto
      define it2 where "it2 = it1\<lparr>pending := hits l\<rparr>"
      have it1: "asks os q ql it1" "yielded it1 = yielded it" "next_phys_back it1 \<ge> -1"
          "next_phys_back it1 < next_phys_back it"
        using next_logical_frame [OF x] \<open>asks os q ql it\<close> next_logical_stream [OF \<open>- 1 \<le> next_phys_back it\<close>, of u src] x
        by (auto simp: asks_def)
      have lines: "lines_from u src (nat (next_phys_back it + 1)) (next_logical_idx it) =
          l # lines_from u src (nat (next_phys_back it1 + 1)) (next_logical_idx it1)"
        using next_logical_stream [OF \<open>- 1 \<le> next_phys_back it\<close>, of u src] x by simp
      then have L: "l \<in> L" "ahead u src it2 \<subseteq> L" using less(4) by (auto simp: ahead_def it2_def)
      have sc: "scan_logical u it1 l = Some (hits l)"
        using assms(2) it1(1) L(1) by blast
      have s: "stream u src hits it2 = stream u src hits it"
        using 3(2) next_logical_stream [OF \<open>- 1 \<le> next_phys_back it\<close>, of u src] x
        by (simp add: stream_def it2_def)
      have n: "iter_next u src it = iter_next u src it2"
        using 3 q assms(1) x sc by (simp add: iter_next.simps [of u src it] it2_def)
      have "asks os q ql it2" "yielded it2 = yielded it" "next_phys_back it2 \<ge> -1"
          "nat (next_phys_back it2 + 1) < nat (next_phys_back it + 1)"
        using it1 by (auto simp: it2_def asks_def)
      then show ?thesis
        using less(1) [of it2] L(2) 3 q assms(1) it1(4) \<open>- 1 \<le> next_phys_back it\<close> unfolding n s [symmetric] it2_def [symmetric]
        by (auto split: if_splits)
    qed
  qed
qed

lemma worker_stream:
  assumes "q \<noteq> []" "\<And>it l. asks os q ql it \<Longrightarrow> l \<in> L \<Longrightarrow> scan_logical u it l = Some (hits l)"
    "max_total os < 4294967296"
    "asks os q ql it" "next_phys_back it \<ge> -1" "ahead u src it \<subseteq> L" "length hs = yielded it" "yielded it \<le> max_total os"
  shows "worker_loop u src (\<lambda>_. False) k hs (length hs) it =
     (let found = hs @ take (max_total os - yielded it) (stream u src hits it)
      in Batch found (length found = max_total os) (length found))"
  using assms(4-)
proof (induction "max_total os - yielded it" arbitrary: it hs k rule: less_induct)
  case less
  obtain it' where it': "asks os q ql it'" "next_phys_back it' \<ge> -1" "ahead u src it' \<subseteq> L"
      "if yielded it < max_total os \<and> stream u src hits it \<noteq> []
       then iter_next u src it = Some (Some (hd (stream u src hits it)), it') \<and>
         stream u src hits it' = tl (stream u src hits it) \<and> yielded it' = Suc (yielded it)
       else iter_next u src it = Some (None, it')"
    using iter_next_stream [OF assms(1,2) less(2-4)] by blast
  show ?case
  proof (cases "yielded it < max_total os \<and> stream u src hits it \<noteq> []")
    case True
    then obtain h st where st: "stream u src hits it = h # st"
      by (cases "stream u src hits it") auto
    have n: "iter_next u src it = Some (Some h, it')" "stream u src hits it' = st" "yielded it' = Suc (yielded it)"
      using it'(4) True st by auto
    have "worker_loop u src (\<lambda>_. False) (Suc k) (hs @ [h]) (length (hs @ [h])) it' =
        (let found = (hs @ [h]) @ take (max_total os - yielded it') (stream u src hits it')
         in Batch found (length found = max_total os) (length found))"
    proof -
      have "max_total os - yielded it' < max_total os - yielded it"
        using conjunct1 [OF True] n(3) by arith
      from less(1) [OF this it'(1-3), of "hs @ [h]" "Suc k"] show ?thesis
        using n(3) True less(5) by simp
    qed
    moreover have "max_total os - yielded it = Suc (max_total os - yielded it')"
      using conjunct1 [OF True] n(3) by arith
    ultimately show ?thesis
      using n True less(5) assms(3) st by (subst worker_loop.simps) (simp add: min_def)
  next
    case False
    then have n: "iter_next u src it = Some (None, it')" "take (max_total os - yielded it) (stream u src hits it) = []"
      using it'(4) by auto
    have "worker_loop u src (\<lambda>_. False) k hs (length hs) it =
        Batch hs (length hs mod 4294967296 = max_total os) (length hs)"
      using n(1) less(2) by (subst worker_loop.simps) (simp add: asks_def)
    then show ?thesis
      using less(5,6) assms(3) unfolding n(2) by simp
  qed
qed

definition line_hits :: "ustring \<Rightarrow> logical_line \<Rightarrow> search_hit list" where
  "line_hits q l = the (scan_logical \<lparr>alphanumeric = \<lambda>_. False, lowercase = \<lambda>_ c _. (c, [])\<rparr>
     \<lparr>query_lower = q, query_chars = q, opts = \<lparr>case_sensitive = True, max_total = 0\<rparr>, next_phys_back = 0,
      pending = [], yielded = 0, next_logical_idx = 0\<rparr> l)"

text \<open>
  What is looked for and where: the query and the line as they are when case matters, and in lower case
  when it does not.  As long as lower case goes character by character, by some \<open>lo\<close>, offsets are those of the line.
\<close>

definition search_text :: "unicode \<Rightarrow> search_opts \<Rightarrow> ustring \<Rightarrow> ustring" where
  "search_text u os s = (if case_sensitive os then s else to_lowercase u s)"

definition folded_by :: "unicode \<Rightarrow> search_opts \<Rightarrow> (uchar \<Rightarrow> uchar) \<Rightarrow> search_source \<Rightarrow> ustring \<Rightarrow> bool" where
  "folded_by u os lo src q \<longleftrightarrow>
     (\<forall>s \<in> insert q (norm_text ` set (search_lines u src)). search_text u os s = map lo s)"

definition folded_hits :: "(uchar \<Rightarrow> uchar) \<Rightarrow> ustring \<Rightarrow> logical_line \<Rightarrow> search_hit list" where
  "folded_hits lo q l =
     the (scan_from l (map lo (norm_text l)) (hd (map lo q)) (tl (map lo q)) (length q) 0)"

lemma scan_folded:
  assumes "asks os q (map lo q) it" "q \<noteq> []" "length q < 65536" "search_text u os (norm_text l) = map lo (norm_text l)"
  shows "scan_logical u it l = Some (folded_hits lo q l)"
    and "\<exists>ps. folded_hits lo q l = map (hit_at l (length q)) ps \<and> leftmost (map lo q) (map lo (norm_text l)) 0 ps"
proof -
  obtain c cs where q: "q = c # cs"
    using assms(2) by (cases q) auto
  obtain ps where "scan_from l (map lo (norm_text l)) (lo c) (map lo cs) (length q) 0 = Some (map (hit_at l (length q)) ps)"
      "leftmost (map lo q) (map lo (norm_text l)) 0 ps"
    using scan_leftmost [of "length q" "map lo cs" "map lo (norm_text l)" l 0 "lo c"] assms(3) by (auto simp: q)
  then show "scan_logical u it l = Some (folded_hits lo q l)"
    "\<exists>ps. folded_hits lo q l = map (hit_at l (length q)) ps \<and> leftmost (map lo q) (map lo (norm_text l)) 0 ps"
    using assms(1,4) by (auto simp: scan_logical_def folded_hits_def asks_def q search_text_def)
qed

lemma search_folded:
  assumes "q \<noteq> []" "length q < 65536" "max_total os < 4294967296" "folded_by u os lo src q"
  shows "run_search u src q os (\<lambda>_. False) =
     (let found = take (max_total os) (concat (map (folded_hits lo q) (search_lines u src)))
      in Batch found (length found = max_total os) (length found))"
proof -
  let ?it = "search_scrollback u src q os" and ?L = "set (search_lines u src)"
  have "search_text u os q = map lo q" using assms(4) by (simp add: folded_by_def)
  then have it: "asks os q (map lo q) ?it" "next_phys_back ?it \<ge> -1" "ahead u src ?it \<subseteq> ?L"
    by (simp_all add: asks_def search_scrollback_def search_text_def ahead_def search_lines_def)
  have "scan_logical u it l = Some (folded_hits lo q l)" if "asks os q (map lo q) it" "l \<in> ?L" for it l
    using scan_folded(1) [OF that(1) assms(1,2)] that(2) assms(4) by (simp add: folded_by_def)
  from worker_stream [OF assms(1) this assms(3) it, where hs = "[]" and k = 0]
  show ?thesis
    by (simp add: run_search_def search_scrollback_def stream_def search_lines_def Let_def cong: if_cong)
qed

lemma folded_hit:
  assumes "q \<noteq> []" "length q < 65536" "h \<in> set (folded_hits lo q l)"
  shows "\<exists>p. h = hit_at l (length q) p \<and> occurs_at (map lo q) (map lo (norm_text l)) p"
proof -
  define u where "u = \<lparr>alphanumeric = \<lambda>_. False, lowercase = \<lambda>_ c _. (lo c, [])\<rparr>"
  define os where "os = \<lparr>case_sensitive = False, max_total = 0\<rparr>"
  have "to_lowercase u s = map lo s" for s
  proof -
    have "to_lowercase u s = map (\<lambda>i. lo (s ! i)) [0..<length s]"
      by (simp add: to_lowercase_def u_def concat_map_singleton)
    also have "\<dots> = map lo (map ((!) s) [0..<length s])" by simp
    finally show ?thesis by (simp only: map_nth)
  qed
  then have t: "search_text u os s = map lo s" for s by (simp add: search_text_def os_def)
  have "asks os q (map lo q) (search_scrollback u (rows_source []) q os)"
    using t [of q] by (simp add: asks_def search_scrollback_def search_text_def)
  from scan_folded(2) [OF this assms(1,2) t] show ?thesis
    using assms(3) unfolding leftmost_def by (metis imageE list.set_map)
qed

text \<open>Where case matters, \<open>lo\<close> changes nothing.\<close>

lemma line_hits_folded: "q \<noteq> [] \<Longrightarrow> line_hits q = folded_hits (\<lambda>c. c) q"
  by (cases q) (auto simp: fun_eq_iff line_hits_def folded_hits_def scan_logical_def)

lemma folded_sensitive: "folded_by u \<lparr>case_sensitive = True, max_total = m\<rparr> (\<lambda>c. c) src q"
  by (simp add: folded_by_def search_text_def)

lemma search_sensitive:
  assumes "q \<noteq> []" "length q < 65536" "m < 4294967296"
  shows "run_search u src q \<lparr>case_sensitive = True, max_total = m\<rparr> (\<lambda>_. False) =
     (let found = take m (concat (map (line_hits q) (search_lines u src)))
      in Batch found (length found = m) (length found))"
  using search_folded [OF assms(1,2) _ folded_sensitive] assms(3) by (simp add: line_hits_folded [OF assms(1)])

lemma line_hits_leftmost:
  assumes "q \<noteq> []" "length q < 65536"
  shows "\<exists>ps. line_hits q l = map (hit_at l (length q)) ps \<and> leftmost q (norm_text l) 0 ps"
proof -
  let ?os = "\<lparr>case_sensitive = True, max_total = 0\<rparr>"
  have "asks ?os q (map (\<lambda>c. c) q) (search_scrollback u (rows_source []) q ?os)" for u
    by (simp add: asks_def search_scrollback_def)
  from scan_folded(2) [OF this assms, of _ l] show ?thesis
    by (simp add: search_text_def line_hits_folded [OF assms(1)])
qed

lemma search_lines_built: "l \<in> set (search_lines u src) \<Longrightarrow> \<exists>f r idx. l = build_line u src f r idx"
  by (auto simp: search_lines_def lines_from_def)

lemma search_lines_order: "sorted_wrt (\<lambda>a b. logical_idx b < logical_idx a) (search_lines u src)"
proof -
  have "length (search_ranges u src (line_count src)) \<le> line_count src"
    by (rule length_search_ranges)
  then show ?thesis
    by (auto simp: search_lines_def lines_from_def sorted_wrt_iff_nth_less nth_enumerate_eq build_line_def Let_def
        split: prod.split)
qed

lemma sorted_concat:
  "(\<forall>xs \<in> set xss. sorted_wrt R xs) \<Longrightarrow> sorted_wrt (\<lambda>xs ys. \<forall>x \<in> set xs. \<forall>y \<in> set ys. R x y) xss \<Longrightarrow>
   sorted_wrt R (concat xss)"
  by (induction xss) (auto simp: sorted_wrt_append)

lemma line_hits_hit:
  assumes "q \<noteq> []" "length q < 65536" "h \<in> set (line_hits q l)"
  shows "\<exists>p. h = hit_at l (length q) p \<and> occurs_at q (norm_text l) p"
  using folded_hit [OF assms(1,2), of h "\<lambda>c. c"] assms(3) by (simp add: line_hits_folded [OF assms(1)])

lemma hit_at_fields:
  assumes "k < 65536" "p + k \<le> length (norm_text l)" "0 < k" "length (norm_text l) < 4294967296"
  shows "hit_line (hit_at l k p) = logical_idx l" "hit_offset (hit_at l k p) = p"
    "take k (drop (hit_snippet_start (hit_at l k p)) (hit_snippet (hit_at l k p))) = take k (drop p (norm_text l))"
proof -
  obtain snip a where s: "build_snippet (norm_text l) p k = Some (snip, a, a + k)"
      "take k (drop a snip) = take k (drop p (norm_text l))"
    using build_snippet_inside [OF assms(2,1)] by blast
  have h: "hit_at l k p =
      \<lparr>hit_line = logical_idx l, hit_offset = p mod 4294967296, hit_len = k mod 4294967296,
       hit_snippet = snip, hit_snippet_start = a, hit_snippet_end = a + k,
       hit_rows = build_phys_spans l p k\<rparr>"
    by (simp add: hit_at_def make_hit_def s(1))
  show "hit_line (hit_at l k p) = logical_idx l" "hit_offset (hit_at l k p) = p"
    "take k (drop (hit_snippet_start (hit_at l k p)) (hit_snippet (hit_at l k p))) = take k (drop p (norm_text l))"
    using assms(2-4) s(2) by (simp_all add: h)
qed

text \<open>
  C13: a search that matches case finds what is there.  A worker that is not cancelled delivers the hits
  of every logical line, newest line first, up to the cap, and says whether it was cut; the hits of a
  line are its occurrences from the left, so an occurrence that is not a hit overlaps one; and the
  lines are the rows, each in exactly one line.
\<close>
theorem search_complete:
  assumes "q \<noteq> []" "length q < 65536" "m < 4294967296"
  shows "run_search u src q \<lparr>case_sensitive = True, max_total = m\<rparr> (\<lambda>_. False) =
      (let found = take m (concat (map (line_hits q) (search_lines u src)))
       in Batch found (length found = m) (length found)) \<and>
    (\<forall>l \<in> set (search_lines u src). \<exists>ps. line_hits q l = map (hit_at l (length q)) ps \<and> leftmost q (norm_text l) 0 ps) \<and>
    concat (rev (map (\<lambda>(f, l). [f..<Suc l]) (search_ranges u src (line_count src)))) = [0..<line_count src]"
proof (intro conjI ballI)
  fix l
  show "\<exists>ps. line_hits q l = map (hit_at l (length q)) ps \<and> leftmost q (norm_text l) 0 ps"
    by (rule line_hits_leftmost [OF assms(1,2)])
qed (rule search_sensitive [OF assms], rule search_ranges_rows)


text \<open>The witnesses: two rows, the second wrapped, and a query that runs over the edge.\<close>

definition search_rows_example :: "(cell list \<times> bool) list" where
  "search_rows_example = [(map cell_from_char [0x61, 0x62], False), (map cell_from_char [0x63, 0x61], True)]"

definition unicode_example :: unicode where
  "unicode_example = \<lparr>alphanumeric = (\<lambda>c. 0x61 \<le> c \<and> c \<le> 0x7A), lowercase = (\<lambda>_ c _. (c, []))\<rparr>"

definition line_example :: logical_line where
  "line_example =
     \<lparr>norm_text = [0x61, 0x62, 0x63, 0x61], norm_to_phys = [(0, 0), (0, 1), (1, 0), (1, 1)], logical_idx = 1\<rparr>"

definition hit_example :: search_hit where
  "hit_example =
     \<lparr>hit_line = 1, hit_offset = 1, hit_len = 2, hit_snippet = [0x61, 0x62, 0x63, 0x61], hit_snippet_start = 1,
      hit_snippet_end = 3, hit_rows = [\<lparr>span_row = 0, span_start = 1, span_end = 1\<rparr>, \<lparr>span_row = 1, span_start = 0, span_end = 0\<rparr>]\<rparr>"

lemma search_rows_example_line:
  "search_lines u (rows_source search_rows_example) = [line_example]"
proof -
  let ?s = "rows_source search_rows_example"
  have rows: "line_at ?s 0 = Some (map cell_from_char [0x61, 0x62])" "line_at ?s 1 = Some (map cell_from_char [0x63, 0x61])"
      "wrapped_at ?s 1" "line_count ?s = 2"
    by (simp_all add: rows_source_def search_rows_example_def)
  have f: "logical_first u ?s 1 = 0"
    using rows(3) by simp
  have "search_ranges u ?s 2 = [(0, 1)]"
    by (subst search_ranges.simps, subst search_ranges.simps) (simp add: f [simplified] Let_def)
  moreover have "row_entries u ?s 0 0 = [(0x61, 0, 0), (0x62, 0, 1)]"
      "row_entries u ?s 0 1 = [(0x63, 1, 0), (0x61, 1, 1)]"
    using rows by (simp_all add: row_entries_def cell_from_char_def)
  then have "build_line u ?s 0 1 1 = line_example"
    by (simp add: build_line_def Let_def trim_end_len_def is_whitespace_def line_example_def)
  ultimately show ?thesis
    by (simp add: search_lines_def lines_from_def rows(4) [simplified])
qed

lemma make_hit_example: "make_hit line_example 1 2 = Some hit_example"
  by (simp add: make_hit_def build_snippet_def build_phys_spans_def Let_def line_example_def hit_example_def
      min_def)

lemma line_hits_example: "line_hits [0x62, 0x63] line_example = [hit_example]"
proof -
  have f: "find_text [0x62, 0x63] (norm_text line_example) = Some 1"
      "find_text [0x62, 0x63] (drop 3 (norm_text line_example)) = None" "length (norm_text line_example) = 4"
    by (simp_all add: line_example_def)
  have "scan_from line_example (norm_text line_example) 0x62 [0x63] 2 3 = Some []"
    by (subst scan_from.simps) (simp add: f)
  then have "scan_from line_example (norm_text line_example) 0x62 [0x63] 2 0 = Some [hit_example]"
    using f make_hit_example by (subst scan_from.simps) (simp add: Let_def numeral_3_eq_3)
  then show ?thesis
    by (simp add: line_hits_def scan_logical_def numeral_2_eq_2)
qed

lemma search_complete_witness:
  "run_search unicode_example (rows_source search_rows_example) [0x62, 0x63] \<lparr>case_sensitive = True, max_total = 64\<rparr> (\<lambda>_. False) =
   Batch [hit_example] False 1"
  using conjunct1 [OF search_complete [of "[0x62, 0x63]" 64 unicode_example "rows_source search_rows_example"]]
  by (simp add: search_rows_example_line line_hits_example)

lemma short_rows_example: "short_rows (rows_source search_rows_example)"
  by (auto simp: short_rows_def rows_source_def search_rows_example_def nth_Cons' split: if_splits)

text \<open>Lower case of ASCII, and a query typed in capitals.\<close>

definition lower_letter :: "uchar \<Rightarrow> uchar" where
  "lower_letter c = (if 0x41 \<le> c \<and> c \<le> 0x5A then c + 0x20 else c)"

definition unicode_letters :: unicode where
  "unicode_letters = \<lparr>alphanumeric = (\<lambda>c. 0x61 \<le> c \<and> c \<le> 0x7A), lowercase = (\<lambda>_ c _. (lower_letter c, []))\<rparr>"

lemma lower_letters: "to_lowercase unicode_letters s = map lower_letter s"
proof -
  have "to_lowercase unicode_letters s = map (\<lambda>i. lower_letter (s ! i)) [0..<length s]"
    by (simp add: to_lowercase_def unicode_letters_def concat_map_singleton)
  also have "\<dots> = map lower_letter (map ((!) s) [0..<length s])" by simp
  finally show ?thesis by (simp only: map_nth)
qed


section \<open>The contract of a source\<close>

text \<open>
  Rows exist below \<open>line_count\<close> and only there.  Rows in memory and the ring keep that, a source over
  live rows keeps it when the source under it does, and then every span of a hit is a row that exists.
\<close>

lemma group_spans_rows: "s \<in> set (group_spans ps) \<Longrightarrow> span_row s \<in> fst ` set ps"
  by (induction ps rule: group_spans.induct) (auto simp: Let_def dest: set_dropWhileD)

locale source =
  fixes src :: search_source
  assumes rows_exist: "line_at src i \<noteq> None \<longleftrightarrow> i < line_count src"
begin

lemma entry_rows: "e \<in> set (line_entries u src f l) \<Longrightarrow> fst (snd e) < line_count src"
proof -
  assume "e \<in> set (line_entries u src f l)"
  then obtain r where r: "e \<in> set (row_entries u src f r)"
    by (auto simp: line_entries_def simp del: upt_Suc)
  then have "line_at src r \<noteq> None" "fst (snd e) = r"
    by (cases "line_at src r"; auto simp: row_entries_def Let_def)+
  then show ?thesis
    using rows_exist by simp
qed

lemma hit_rows_exist:
  assumes "l \<in> set (search_lines u src)" "h \<in> set (line_hits q l)" "q \<noteq> []" "length q < 65536" "s \<in> set (hit_rows h)"
  shows "span_row s < line_count src"
proof -
  obtain p where p: "h = hit_at l (length q) p" "occurs_at q (norm_text l) p"
    using line_hits_hit [OF assms(3,4,2)] by blast
  obtain f r idx where l: "l = build_line u src f r idx"
    using search_lines_built [OF assms(1)] by blast
  have "make_hit l p (length q) = Some h"
    using make_hit_inside [OF occurs_at_bound [OF p(2) assms(3)] assms(4)] p(1) by simp
  then have "hit_rows h = build_phys_spans l p (length q)"
    by (auto simp: make_hit_def)
  then have "span_row s \<in> fst ` set (norm_to_phys l)"
    using assms(5) group_spans_rows [of s] by (force simp: build_phys_spans_def split: if_splits dest!: in_set_dropD in_set_takeD)
  moreover have "set (norm_to_phys l) \<subseteq> set (map snd (line_entries u src f r))"
    using build_line_entries [of u src f r idx] set_take_subset unfolding l by fastforce
  ultimately show ?thesis
    using entry_rows by fastforce
qed

lemma merged: "source (merged_source src live)"
  by unfold_locales (use rows_exist in \<open>auto simp: merged_source_def Let_def\<close>)

end

interpretation rows: source "rows_source rows" for rows
  by unfold_locales (simp add: rows_source_def)

interpretation ring: source "memory_source m" for m
  by unfold_locales (simp add: memory_source_def ms_line_lines)

interpretation live: source "merged_source (memory_source m) live" for m live
  by (rule ring.merged)

section \<open>Wide characters\<close>

text \<open>
  The grid stores a wide character in two cells, the second empty.  In the searched text the empty one
  is a blank, so no query in which something follows a wide character is found.
\<close>

definition wide_filled :: "ambiguous_wide \<Rightarrow> search_source \<Rightarrow> bool" where
  "wide_filled wide src \<longleftrightarrow>
     (\<forall>r cells i. line_at src r = Some cells \<and> i < length cells \<and> char_width wide (ch (cells ! i)) = 2 \<longrightarrow>
        Suc i < length cells \<and> ch (cells ! Suc i) = 0)"

definition spaced :: "ambiguous_wide \<Rightarrow> ustring \<Rightarrow> bool" where
  "spaced wide s \<longleftrightarrow> (\<forall>i. i < length s \<and> char_width wide (s ! i) = 2 \<longrightarrow> Suc i < length s \<and> s ! Suc i = 0x20)"

lemma spaced_append: "spaced wide a \<Longrightarrow> spaced wide b \<Longrightarrow> spaced wide (a @ b)"
  unfolding spaced_def
proof (intro allI impI)
  fix i
  assume a: "\<forall>i. i < length a \<and> char_width wide (a ! i) = 2 \<longrightarrow> Suc i < length a \<and> a ! Suc i = 0x20"
    and b: "\<forall>i. i < length b \<and> char_width wide (b ! i) = 2 \<longrightarrow> Suc i < length b \<and> b ! Suc i = 0x20"
    and i: "i < length (a @ b) \<and> char_width wide ((a @ b) ! i) = 2"
  show "Suc i < length (a @ b) \<and> (a @ b) ! Suc i = 0x20"
  proof (cases "i < length a")
    case True
    then show ?thesis
      using a i by (auto simp: nth_append)
  next
    case False
    then obtain j where j: "i = length a + j"
      using le_Suc_ex by fastforce
    then show ?thesis
      using b i by (simp add: nth_append)
  qed
qed

lemma spaced_concat: "(\<And>x. x \<in> set xss \<Longrightarrow> spaced wide x) \<Longrightarrow> spaced wide (concat xss)"
  by (induction xss) (simp_all add: spaced_append, simp add: spaced_def)

lemma row_entries_spaced:
  assumes "wide_filled wide src"
  shows "spaced wide (map fst (row_entries u src f r))"
proof (cases "line_at src r")
  case None
  then show ?thesis by (simp add: row_entries_def spaced_def)
next
  case (Some cells)
  have m: "map fst (map (\<lambda>(col, c). (if ch c = 0 then 0x20 else ch c, r, col mod 65536)) (drop skip (List.enumerate 0 cells))) =
      map shown (drop skip cells)" for skip
    by (auto intro!: nth_equalityI simp: nth_enumerate_eq shown_def)
  have w: "char_width wide (shown c) = 2 \<Longrightarrow> char_width wide (ch c) = 2" for c
    by (simp add: shown_def split: if_splits)
  have "spaced wide (map shown (drop skip cells))" for skip
    unfolding spaced_def
  proof (intro allI impI)
    fix i assume i: "i < length (map shown (drop skip cells)) \<and> char_width wide (map shown (drop skip cells) ! i) = 2"
    then have "char_width wide (ch (cells ! (skip + i))) = 2" "skip + i < length cells"
      using w by auto
    then show "Suc i < length (map shown (drop skip cells)) \<and> map shown (drop skip cells) ! Suc i = 0x20"
      using assms Some unfolding wide_filled_def by (fastforce simp: shown_def)
  qed
  then show ?thesis
    by (simp only: row_entries_def Some option.case Let_def m)
qed

lemma norm_text_spaced:
  assumes "wide_filled wide src" "Suc i < length (norm_text (build_line u src f l idx))"
    "char_width wide (norm_text (build_line u src f l idx) ! i) = 2"
  shows "norm_text (build_line u src f l idx) ! Suc i = 0x20"
proof -
  obtain keep where k: "norm_text (build_line u src f l idx) = take keep (map fst (line_entries u src f l))"
    using build_line_entries [of u src f l idx] by (auto simp: take_map)
  define es where "es = map fst (line_entries u src f l)"
  have "spaced wide es"
    unfolding es_def line_entries_def map_concat
    by (rule spaced_concat) (use row_entries_spaced [OF assms(1)] in \<open>auto simp del: upt_Suc\<close>)
  then show ?thesis
    using assms(2,3) unfolding k es_def [symmetric] by (auto simp: spaced_def)
qed

text \<open>
  C15: a query with a wide character before anything but a blank is never found, whatever the history
  shows: the text searched has a blank after every wide character, where the grid keeps its second cell.  So it
  is where case matters, and where it does not, as long as lower case goes character by character, what
  becomes of the wide character in it comes from wide characters only, and what follows does not become what a blank does.
\<close>
theorem search_misses_wide:
  assumes "wide_filled wide src" "Suc j < length q" "\<forall>c. lo c = lo (q ! j) \<longrightarrow> char_width wide c = 2"
    "lo (q ! Suc j) \<noteq> lo 0x20" "length q < 65536" "0 < max_total os" "max_total os < 4294967296" "folded_by u os lo src q"
  shows "run_search u src q os (\<lambda>_. False) = Batch [] False 0"
proof -
  have q: "q \<noteq> []"
    using assms(2) by auto
  have "\<not> occurs_at (map lo q) (map lo (norm_text l)) p" if l: "l \<in> set (search_lines u src)" for l p
  proof
    assume o: "occurs_at (map lo q) (map lo (norm_text l)) p"
    have b: "p + length q \<le> length (norm_text l)" using occurs_at_bound [OF o] q by simp
    have n: "lo (norm_text l ! (p + i)) = lo (q ! i)" if "i < length q" for i
    proof -
      have "map lo q ! i = take (length q) (drop p (map lo (norm_text l))) ! i"
        using o by (simp add: occurs_at_def)
      then show ?thesis
        using that b by simp
    qed
    have "char_width wide (norm_text l ! (p + j)) = 2" using n [of j] assms(2,3) by simp
    then have "norm_text l ! Suc (p + j) = 0x20"
      using search_lines_built [OF l] norm_text_spaced [OF assms(1)] assms(2) b by auto
    then show False
      using n [of "Suc j"] assms(2,4) by simp
  qed
  then have "folded_hits lo q l = []" if "l \<in> set (search_lines u src)" for l
    using folded_hit [OF q assms(5)] that by (metis list.set_intros(1) neq_Nil_conv)
  then have "concat (map (folded_hits lo q) (search_lines u src)) = []"
    by simp
  then show ?thesis
    using search_folded [OF q assms(5,7,8)] assms(6) by (simp only: take_Nil Let_def list.size) simp
qed

text \<open>The witness: a row of two wide characters as the terminal stores them, searched for both.\<close>

lemma search_misses_wide_witness:
  "run_search unicode_letters (rows_source [(wide_cells attrs_default [0x4E2D, 0x6587], False)]) [0x4E2D, 0x6587]
     SEARCH_DEFAULT (\<lambda>_. False) = Batch [] False 0"
proof (rule search_misses_wide [where wide = AmbOff and j = 0 and lo = lower_letter])
  have w: "char_width AmbOff 0 \<noteq> 2"
    by (simp add: char_width_def)
  show "wide_filled AmbOff (rows_source [(wide_cells attrs_default [0x4E2D, 0x6587], False)])"
    using w by (auto simp: wide_filled_def rows_source_def wide_cells_def less_Suc_eq split: if_splits)
  have zh: "char_width AmbOff 0x4E2D = 2"
    by (simp add: char_width_def in_ranges_def EAST_ASIAN_WIDE_RANGES_def)
  have "c = 0x4E2D" if "lower_letter c = 0x4E2D" for c
    using that by (simp add: lower_letter_def split: if_splits)
  moreover have "lower_letter ([0x4E2D, 0x6587] ! 0) = 0x4E2D" by (simp add: lower_letter_def)
  ultimately show "\<forall>c. lower_letter c = lower_letter ([0x4E2D, 0x6587] ! 0) \<longrightarrow> char_width AmbOff c = 2"
    using zh by metis
  show "folded_by unicode_letters SEARCH_DEFAULT lower_letter
      (rows_source [(wide_cells attrs_default [0x4E2D, 0x6587], False)]) [0x4E2D, 0x6587]"
    by (simp add: folded_by_def search_text_def SEARCH_DEFAULT_def lower_letters)
qed (simp_all add: lower_letter_def SEARCH_DEFAULT_def)

section \<open>Lower case\<close>

text \<open>
  The offset of a hit is counted in the lower-case text and used in the line.  \<open>U+0130\<close> becomes two
  characters, so after enough of them the snippet starts past its end.
\<close>

definition dotted :: unicode where
  "dotted = \<lparr>alphanumeric = (\<lambda>_. True), lowercase = (\<lambda>_ c _. if c = 0x130 then (0x69, [0x307]) else (c, []))\<rparr>"

lemma dotted_lower: "to_lowercase dotted s = concat (map (\<lambda>c. if c = 0x130 then [0x69, 0x307] else [c]) s)"
proof -
  have "to_lowercase dotted s = concat (map (\<lambda>i. if s ! i = 0x130 then [0x69, 0x307] else [s ! i]) [0..<length s])"
    by (simp add: to_lowercase_def dotted_def if_distrib [of "case_prod _"] cong: if_cong)
  also have "\<dots> = concat (map (\<lambda>c. if c = 0x130 then [0x69, 0x307] else [c]) (map ((!) s) [0..<length s]))"
    by (simp only: map_map o_def)
  finally show ?thesis
    by (simp only: map_nth)
qed

text \<open>
  A row of forty-one or more capital dotted i before what is looked for kills the search.  The
  worker panics, and the window waits for a batch that never comes.
\<close>
lemma search_lowercase_panics:
  assumes "41 \<le> n"
  shows "run_search dotted (rows_source [(map cell_from_char (replicate n 0x130 @ [0x78]), False)]) [0x78]
     SEARCH_DEFAULT (\<lambda>_. False) = Panicked"
proof -
  define tx where "tx = replicate n (0x130 :: nat) @ [0x78]"
  define src where "src = rows_source [(map cell_from_char tx, False)]"
  define it where "it = search_scrollback dotted src [0x78] SEARCH_DEFAULT"
  have l: "next_logical dotted src it = Some (build_line dotted src 0 0 0, it\<lparr>next_logical_idx := 0, next_phys_back := -1\<rparr>)"
    by (simp add: next_logical_def it_def search_scrollback_def src_def rows_source_def)
  have "map fst (row_entries dotted src 0 0) = tx"
    by (auto intro!: nth_equalityI simp: row_entries_def src_def rows_source_def nth_enumerate_eq cell_from_char_def tx_def
        nth_append)
  moreover have "trim_end_len tx = length tx"
    by (simp add: trim_end_len_def tx_def is_whitespace_def)
  ultimately have t: "norm_text (build_line dotted src 0 0 0) = tx"
    by (simp add: build_line_def Let_def)
  define low where "low = concat (replicate n [0x69, 0x307 :: nat]) @ [0x78]"
  have low: "to_lowercase dotted tx = low" "to_lowercase dotted [0x78] = [0x78]"
    by (simp_all add: dotted_lower tx_def low_def map_replicate_const)
  have find: "find_text [0x78] (concat (replicate k [0x69, 0x307 :: nat]) @ [0x78]) = Some (2 * k)" for k
    by (induction k) simp_all
  have "make_hit (build_line dotted src 0 0 0) (2 * n) 1 = None"
    using assms by (simp add: make_hit_def t build_snippet_def Let_def tx_def)
  then have "scan_logical dotted (it\<lparr>next_logical_idx := 0, next_phys_back := -1\<rparr>) (build_line dotted src 0 0 0) = None"
    using low find [of n] by (simp add: scan_logical_def it_def search_scrollback_def SEARCH_DEFAULT_def t
        scan_from.simps low_def)
  moreover have "query_chars it \<noteq> []" "yielded it < max_total (opts it)" "search_iter.pending it = []"
    by (simp_all add: it_def search_scrollback_def SEARCH_DEFAULT_def)
  ultimately have "iter_next dotted src it = None"
    using l by (simp add: iter_next.simps [of dotted src it])
  then show ?thesis
    unfolding run_search_def src_def [symmetric] tx_def [symmetric] it_def [symmetric]
    by (simp add: worker_loop.simps)
qed

lemma search_lowercase_panics_witness:
  "run_search dotted (rows_source [(map cell_from_char (replicate 60 0x130 @ [0x78]), False)]) [0x78]
     SEARCH_DEFAULT (\<lambda>_. False) = Panicked"
  by (rule search_lowercase_panics) simp

end
