(* ===== verification/Linkify.thy ===== *)
theory Linkify
  imports Strings
begin

text \<open>
  Links in one logical line of text, \<open>crates/marspot-linkify\<close>: \<open>url.rs\<close>, \<open>email.rs\<close>, \<open>addr.rs\<close>,
  \<open>path.rs\<close>, \<open>seam.rs\<close>, \<open>line.rs\<close> and the sink of \<open>sink.rs\<close>, which is a list here: which buffer a
  text is kept in is not modelled.  Text is a list of characters indexed as the code indexes it.

  The oracle that says whether a path exists, and the Unicode classes \<open>is_alphanumeric\<close> and
  \<open>is_alphabetic\<close>, are the argument \<open>link_env\<close>.
\<close>

datatype path_verdict = Exists | Missing | Unknown

record link_env =
  is_alnum :: "uchar \<Rightarrow> bool"
  is_alpha :: "uchar \<Rightarrow> bool"
  probe :: "ustring \<Rightarrow> path_verdict"

datatype link_kind = Url | File | Email | Ip | Uuid

record link_range =
  l_row :: nat
  l_start :: nat
  l_end :: nat
  l_kind :: link_kind
  l_text :: ustring
  l_target :: "ustring option"

section \<open>Walking a line\<close>

text \<open>
  \<open>chars[lo..hi]\<close>; \<open>chars.get(i) == Some(&c)\<close>; \<open>while i < n && p(chars[i])\<close> with an upper limit on the
  steps or none; \<open>while i > lo && p(chars[i - 1])\<close>.
\<close>

definition span_of :: "ustring \<Rightarrow> nat \<Rightarrow> nat \<Rightarrow> ustring" where
  "span_of cs lo hi = drop lo (take hi cs)"

definition at_is :: "ustring \<Rightarrow> nat \<Rightarrow> uchar \<Rightarrow> bool" where
  "at_is cs i c \<longleftrightarrow> i < length cs \<and> cs ! i = c"

definition run_end :: "(uchar \<Rightarrow> bool) \<Rightarrow> ustring \<Rightarrow> nat \<Rightarrow> nat" where
  "run_end p cs i = i + length (takeWhile p (drop i cs))"

definition run_upto :: "nat \<Rightarrow> (uchar \<Rightarrow> bool) \<Rightarrow> ustring \<Rightarrow> nat \<Rightarrow> nat" where
  "run_upto n p cs i = i + length (takeWhile p (take n (drop i cs)))"

definition run_back :: "(uchar \<Rightarrow> bool) \<Rightarrow> ustring \<Rightarrow> nat \<Rightarrow> nat \<Rightarrow> nat" where
  "run_back p cs lo i = i - length (takeWhile p (rev (span_of cs lo i)))"

definition ascii_digit :: "uchar \<Rightarrow> bool" where
  "ascii_digit c \<longleftrightarrow> 0x30 \<le> c \<and> c \<le> 0x39"

definition ascii_alpha :: "uchar \<Rightarrow> bool" where
  "ascii_alpha c \<longleftrightarrow> 0x41 \<le> c \<and> c \<le> 0x5A \<or> 0x61 \<le> c \<and> c \<le> 0x7A"

definition ascii_hex :: "uchar \<Rightarrow> bool" where
  "ascii_hex c \<longleftrightarrow> ascii_digit c \<or> 0x41 \<le> c \<and> c \<le> 0x46 \<or> 0x61 \<le> c \<and> c \<le> 0x66"

definition dec_of :: "ustring \<Rightarrow> nat" where
  "dec_of ds = foldl (\<lambda>a d. a * 10 + (d - 0x30)) 0 ds"

section \<open>URLs\<close>

definition HTTP :: ustring where
  "HTTP = [0x68, 0x74, 0x74, 0x70, 0x3A, 0x2F, 0x2F]"

definition HTTPS :: ustring where
  "HTTPS = [0x68, 0x74, 0x74, 0x70, 0x73, 0x3A, 0x2F, 0x2F]"

definition FILE_SCHEME :: ustring where
  "FILE_SCHEME = [0x66, 0x69, 0x6C, 0x65, 0x3A, 0x2F, 0x2F]"

definition matches_prefix :: "ustring \<Rightarrow> nat \<Rightarrow> ustring \<Rightarrow> bool" where
  "matches_prefix cs start prefix \<longleftrightarrow>
     start + length prefix \<le> length cs \<and> take (length prefix) (drop start cs) = prefix"

definition is_left_boundary_alnum :: "link_env \<Rightarrow> ustring \<Rightarrow> nat \<Rightarrow> bool" where
  "is_left_boundary_alnum env cs pos \<longleftrightarrow> pos \<noteq> 0 \<and> is_alnum env (cs ! (pos - 1))"

definition is_url_char :: "uchar \<Rightarrow> bool" where
  "is_url_char c \<longleftrightarrow> ascii_alnum c \<or>
     c \<in> {0x2D, 0x2E, 0x5F, 0x7E, 0x3A, 0x2F, 0x3F, 0x23, 0x5B, 0x5D, 0x40, 0x21, 0x24, 0x26, 0x28, 0x29,
          0x2A, 0x2B, 0x2C, 0x3B, 0x3D, 0x25}"

definition count_parens :: "ustring \<Rightarrow> nat \<times> nat" where
  "count_parens s = (length (filter ((=) 0x28) s), length (filter ((=) 0x29) s))"

text \<open>The loop that takes prose off the end of a URL; nothing before \<open>floor\<close> is taken.\<close>

fun url_trim :: "ustring \<Rightarrow> nat \<Rightarrow> nat \<Rightarrow> nat \<Rightarrow> nat" where
  "url_trim cs start floor_at 0 = 0"
| "url_trim cs start floor_at (Suc i) =
     (if Suc i \<le> floor_at then Suc i
      else let lst = cs ! i; parens = count_parens (span_of cs start (Suc i))
           in if lst = 0x29 then (if snd parens > fst parens then url_trim cs start floor_at i else Suc i)
              else if lst = 0x28 then (if fst parens > snd parens then url_trim cs start floor_at i else Suc i)
              else if lst \<in> {0x2C, 0x2E, 0x3B, 0x3A, 0x5D, 0x7D, 0x21, 0x3F} then url_trim cs start floor_at i
              else Suc i)"

definition scan_until_link_terminator :: "ustring \<Rightarrow> nat \<Rightarrow> nat" where
  "scan_until_link_terminator cs start = url_trim cs start start (run_end is_url_char cs start)"

definition looks_like_url :: "ustring \<Rightarrow> bool" where
  "looks_like_url s \<longleftrightarrow>
     (matches_prefix s 0 HTTPS \<or> matches_prefix s 0 HTTP) \<and>
     (let after_scheme = (if matches_prefix s 0 HTTPS then 8 else 7);
          host = takeWhile (\<lambda>c. c \<notin> {0x2F, 0x3F, 0x23}) (drop after_scheme s);
          name = takeWhile (\<lambda>c. c \<noteq> 0x3A) host;
          port = (if 0x3A \<in> set host then Some (drop (Suc (length name)) host) else None);
          port_ok = (case port of
              Some p \<Rightarrow> p \<noteq> [] \<and> length p \<le> 5 \<and> list_all ascii_digit p
            | None \<Rightarrow> False)
      in after_scheme < length s \<and> 3 \<le> length host \<and>
         hd host \<notin> {0x2E, 0x2D} \<and> last host \<notin> {0x2E, 0x2D} \<and>
         list_all (\<lambda>c. ascii_alnum c \<or> c \<in> {0x2E, 0x2D, 0x3A}) host \<and> name \<noteq> [] \<and> (0x2E \<in> set name \<or> port_ok))"

section \<open>Mail addresses\<close>

definition is_email_local_char :: "uchar \<Rightarrow> bool" where
  "is_email_local_char c \<longleftrightarrow> ascii_alnum c \<or> c \<in> {0x2E, 0x5F, 0x2B, 0x2D, 0x25}"

definition scan_back_local :: "ustring \<Rightarrow> nat \<Rightarrow> nat" where
  "scan_back_local cs at_pos = run_back is_email_local_char cs 0 at_pos"

definition scan_forward_host :: "ustring \<Rightarrow> nat \<Rightarrow> nat" where
  "scan_forward_host cs start =
     (let i = run_end (\<lambda>c. ascii_alnum c \<or> c = 0x2D \<or> c = 0x2E) cs start
      in if i > start \<and> cs ! (i - 1) = 0x2E then i - 1 else i)"

definition is_email_host :: "ustring \<Rightarrow> bool" where
  "is_email_host cs \<longleftrightarrow> cs \<noteq> [] \<and>
     (let labels = split_on 0x2E cs
      in list_all (\<lambda>l. l \<noteq> [] \<and> hd l \<noteq> 0x2D \<and> last l \<noteq> 0x2D \<and> list_all (\<lambda>c. ascii_alnum c \<or> c = 0x2D) l) labels \<and>
         2 \<le> length labels \<and> list_all ascii_alpha (last labels) \<and> 2 \<le> length (last labels))"

section \<open>Addresses\<close>

definition bad_left :: "ustring \<Rightarrow> nat \<Rightarrow> bool" where
  "bad_left cs start \<longleftrightarrow> start > 0 \<and>
     (ascii_alnum (cs ! (start - 1)) \<or> cs ! (start - 1) \<in> {0x2E, 0x2D, 0x5F, 0x40, 0x2F, 0x3A})"

definition ipv4_octet :: "ustring \<Rightarrow> nat \<Rightarrow> nat option" where
  "ipv4_octet cs i =
     (let e = run_upto 3 ascii_digit cs i; digits = span_of cs i e
      in if digits = [] \<or> length digits > 1 \<and> hd digits = 0x30 \<or> dec_of digits > 255 then None else Some e)"

definition dot_octet :: "ustring \<Rightarrow> nat \<Rightarrow> nat option" where
  "dot_octet cs i = (if at_is cs i 0x2E then ipv4_octet cs (i + 1) else None)"

definition port_end :: "ustring \<Rightarrow> nat \<Rightarrow> nat" where
  "port_end cs i =
     (if at_is cs i 0x3A
      then let pe = run_upto 5 ascii_digit cs (i + 1)
           in if pe > i + 1 \<and> dec_of (span_of cs (i + 1) pe) \<le> 65535 then pe else i
      else i)"

definition bad_right :: "ustring \<Rightarrow> nat \<Rightarrow> bool" where
  "bad_right cs i \<longleftrightarrow> i < length cs \<and> (ascii_alnum (cs ! i) \<or> cs ! i \<in> {0x2E, 0x2D, 0x5F})"

definition try_scan_ipv4_url :: "ustring \<Rightarrow> nat \<Rightarrow> nat option" where
  "try_scan_ipv4_url cs start =
     (if bad_left cs start then None
      else case Option.bind (Option.bind (Option.bind (ipv4_octet cs start) (dot_octet cs)) (dot_octet cs)) (dot_octet cs) of
             None \<Rightarrow> None
           | Some ip_end \<Rightarrow>
               if bad_right cs ip_end then None
               else let i = port_end cs ip_end;
                        i = (if at_is cs i 0x2F then run_end is_url_char cs i else i)
                    in Some (url_trim cs start ip_end i))"

text \<open>
  \<open>str::parse::<Ipv6Addr>\<close>: up to eight groups of one to four hex digits, of which an IPv4 address may
  stand for the last two, with \<open>::\<close> for at least one group left out.  Each reader gives what is left.
\<close>

definition read_octet :: "ustring \<Rightarrow> ustring option" where
  "read_octet s =
     (let ds = takeWhile ascii_digit s
      in if ds = [] \<or> length ds > 3 \<or> length ds > 1 \<and> hd ds = 0x30 \<or> dec_of ds > 255 then None
         else Some (drop (length ds) s))"

definition read_group :: "ustring \<Rightarrow> ustring option" where
  "read_group s =
     (let ds = takeWhile ascii_hex s
      in if ds = [] \<or> length ds > 4 then None else Some (drop (length ds) s))"

definition read_separator :: "uchar \<Rightarrow> nat \<Rightarrow> (ustring \<Rightarrow> ustring option) \<Rightarrow> ustring \<Rightarrow> ustring option" where
  "read_separator c i f s =
     (if i = 0 then f s else case s of [] \<Rightarrow> None | c' # s' \<Rightarrow> if c' = c then f s' else None)"

definition read_ipv4_addr :: "ustring \<Rightarrow> ustring option" where
  "read_ipv4_addr s =
     Option.bind (Option.bind (Option.bind (read_octet s) (read_separator 0x2E 1 read_octet))
       (read_separator 0x2E 2 read_octet)) (read_separator 0x2E 3 read_octet)"

function read_groups :: "nat \<Rightarrow> nat \<Rightarrow> ustring \<Rightarrow> nat \<times> bool \<times> ustring" where
  "read_groups limit i s =
     (if i \<ge> limit then (limit, False, s)
      else case (if i < limit - 1 then read_separator 0x3A i read_ipv4_addr s else None) of
             Some r \<Rightarrow> (i + 2, True, r)
           | None \<Rightarrow>
               (case read_separator 0x3A i read_group s of
                  Some r \<Rightarrow> read_groups limit (i + 1) r
                | None \<Rightarrow> (i, False, s)))"
  by pat_completeness auto
termination
  by (relation "measure (\<lambda>(limit, i, s). limit - i)") auto

declare read_groups.simps [simp del]

definition parses_ipv6 :: "ustring \<Rightarrow> bool" where
  "parses_ipv6 s =
     (case read_groups 8 0 s of (n, v4, r) \<Rightarrow>
        if n = 8 then r = []
        else if v4 then False
        else take 2 r = [0x3A, 0x3A] \<and>
          (case read_groups (8 - (n + 1)) 0 (drop 2 r) of (_, _, r') \<Rightarrow> r' = []))"

definition ipv6_char :: "uchar \<Rightarrow> bool" where
  "ipv6_char c \<longleftrightarrow> ascii_hex c \<or> c = 0x3A \<or> c = 0x2E"

text \<open>\<open>::\<close> anywhere in a text.\<close>

fun double_colon :: "ustring \<Rightarrow> bool" where
  "double_colon (c # d # s) = (c = 0x3A \<and> d = 0x3A \<or> double_colon (d # s))"
| "double_colon _ = False"

definition try_scan_ipv6 :: "ustring \<Rightarrow> nat \<Rightarrow> nat option" where
  "try_scan_ipv6 cs start =
     (if bad_left cs start then None
      else if at_is cs start 0x5B then
        (let body_end = run_end (\<lambda>c. c \<noteq> 0x5D) cs (start + 1); body = span_of cs (start + 1) body_end
         in if \<not> list_all ipv6_char body \<or> \<not> at_is cs body_end 0x5D \<or> \<not> parses_ipv6 body then None
            else let i = port_end cs (body_end + 1)
                 in Some (if at_is cs i 0x2F
                    then run_back (\<lambda>c. c \<in> {0x2C, 0x2E, 0x3B, 0x3A, 0x29, 0x7D, 0x21, 0x3F}) cs (body_end + 1)
                           (run_end is_url_char cs i)
                    else i))
      else let i = run_end ipv6_char cs start; body = span_of cs start i
           in if i = start \<or> bad_right cs i \<or> \<not> double_colon body \<and> length (filter ((=) 0x3A) body) \<noteq> 7 \<or>
                 \<not> parses_ipv6 body then None
              else Some i)"

definition uuid_part :: "ustring \<Rightarrow> nat \<Rightarrow> nat \<Rightarrow> nat option" where
  "uuid_part cs want i = (let e = run_upto want ascii_hex cs i in if e - i \<noteq> want then None else Some e)"

definition dash_part :: "ustring \<Rightarrow> nat \<Rightarrow> nat \<Rightarrow> nat option" where
  "dash_part cs want i = (if at_is cs i 0x2D then uuid_part cs want (i + 1) else None)"

definition try_scan_uuid :: "ustring \<Rightarrow> nat \<Rightarrow> nat option" where
  "try_scan_uuid cs start =
     (if bad_left cs start then None
      else case Option.bind (Option.bind (Option.bind (Option.bind (uuid_part cs 8 start) (dash_part cs 4)) (dash_part cs 4))
             (dash_part cs 4)) (dash_part cs 12) of
             None \<Rightarrow> None
           | Some i \<Rightarrow> if bad_right cs i \<or> at_is cs i 0x2F then None else Some i)"

section \<open>Segments\<close>

record line_segment =
  phys_row :: nat
  char_offset :: nat
  cc_zero_indent :: bool
  cc_seam :: bool

definition is_url_path_class :: "link_env \<Rightarrow> uchar \<Rightarrow> bool" where
  "is_url_path_class env c \<longleftrightarrow> is_alnum env c \<or>
     c \<in> {0x2F, 0x2E, 0x2D, 0x5F, 0x7E, 0x3F, 0x26, 0x3D, 0x23, 0x25, 0x3A, 0x2B, 0x40, 0x2C}"

definition first_zero_indent_boundary :: "line_segment list \<Rightarrow> nat \<Rightarrow> nat \<Rightarrow> nat option" where
  "first_zero_indent_boundary segs lo hi =
     List.find (\<lambda>b. b > lo \<and> b < hi) (map char_offset (filter cc_zero_indent segs))"

definition wrap_was_forced :: "ustring \<Rightarrow> nat list \<Rightarrow> nat \<Rightarrow> nat \<Rightarrow> bool" where
  "wrap_was_forced cs col_map cols_per_row b \<longleftrightarrow>
     \<not> (b = 0 \<or> b \<ge> length cs \<or> b > length col_map) \<and>
     (let last_col = col_map ! (b - 1); word = length (takeWhile (\<lambda>c. c \<noteq> 0x20) (drop b cs))
      in last_col + 1 < cols_per_row \<and> last_col + 1 + word > cols_per_row)"

definition url_stop_boundary ::
  "ustring \<Rightarrow> nat list \<Rightarrow> line_segment list \<Rightarrow> nat \<Rightarrow> nat \<Rightarrow> nat \<Rightarrow> nat option" where
  "url_stop_boundary cs col_map segs cols_per_row lo hi =
     List.find (\<lambda>b. \<not> wrap_was_forced cs col_map cols_per_row b)
       (filter (\<lambda>b. b > lo \<and> b < hi) (map char_offset (filter cc_zero_indent segs)))"

definition seam_cuts_a_name :: "link_env \<Rightarrow> ustring \<Rightarrow> nat \<Rightarrow> bool" where
  "seam_cuts_a_name env cs pos \<longleftrightarrow>
     pos > 0 \<and> pos < length cs \<and> cs ! (pos - 1) = 0x2F \<and> cs ! pos \<noteq> 0x2F \<and> is_url_path_class env (cs ! pos)"

section \<open>Paths\<close>

definition looks_like_relative_path :: "link_env \<Rightarrow> ustring \<Rightarrow> bool" where
  "looks_like_relative_path env s \<longleftrightarrow>
     (if s = [] \<or> hd s = 0x2F \<or> hd s = 0x7E then False
      else if matches_prefix s 0 [0x2E, 0x2F] \<or> matches_prefix s 0 [0x2E, 0x2E, 0x2F] then True
      else if 0x2F \<in> set s then
        (let p = length (takeWhile (\<lambda>c. c \<noteq> 0x2F) s) in p > 0 \<and> p + 1 < length s)
      else if 0x2E \<notin> set s then False
      else let ext = rev (takeWhile (\<lambda>c. c \<noteq> 0x2E) (rev s)); dot = length s - length ext - 1;
               stem = take dot s
           in dot \<noteq> 0 \<and> dot + 1 < length s \<and> list_ex (is_alpha env) stem \<and> length ext \<le> 8 \<and>
              ascii_alpha (hd ext) \<and> list_all ascii_alnum ext)"

definition join_cwd :: "ustring \<Rightarrow> ustring \<Rightarrow> ustring" where
  "join_cwd cwd rel =
     rev (dropWhile ((=) 0x2F) (rev cwd)) @ [0x2F] @
     (case strip_prefix [0x2E, 0x2F] rel of Some r \<Rightarrow> r | None \<Rightarrow> rel)"

definition is_left_boundary_pathish :: "link_env \<Rightarrow> ustring \<Rightarrow> nat \<Rightarrow> bool" where
  "is_left_boundary_pathish env cs i \<longleftrightarrow>
     i > 0 \<and> (is_alnum env (cs ! (i - 1)) \<or> cs ! (i - 1) \<in> {0x2F, 0x2E, 0x2D, 0x5F, 0x7E, 0x40})"

definition strip_digits_group :: "ustring \<Rightarrow> nat \<Rightarrow> nat \<Rightarrow> nat" where
  "strip_digits_group cs start e =
     (let j = run_back ascii_digit cs start e in if j < e \<and> j > start \<and> cs ! (j - 1) = 0x3A then j - 1 else e)"

text \<open>The second round of the loop is the first again when that found nothing.\<close>

definition strip_line_col_suffix :: "ustring \<Rightarrow> nat \<Rightarrow> nat \<Rightarrow> nat" where
  "strip_line_col_suffix cs start e = strip_digits_group cs start (strip_digits_group cs start e)"

definition closing_quote :: "ustring \<Rightarrow> nat \<Rightarrow> nat option" where
  "closing_quote cs open_at =
     List.find (\<lambda>j. cs ! j = cs ! open_at) [open_at + 1..<min (open_at + 1 + 96) (length cs)]"

lemma find_SomeD: "List.find P xs = Some x \<Longrightarrow> x \<in> set xs \<and> P x"
  by (induction xs) (auto split: if_splits)

lemma closing_quote_after: "closing_quote cs i = Some j \<Longrightarrow> i < j \<and> j < length cs"
  by (auto simp: closing_quote_def dest!: find_SomeD)

definition stops_path :: "uchar \<Rightarrow> bool" where
  "stops_path c \<longleftrightarrow> is_whitespace c \<or> c = 0 \<or> is_control c \<and> c \<noteq> 9 \<or> c \<in> {0x3C, 0x3E, 0x22, 0x27, 0x60, 0x7C}"

function path_end_from :: "ustring \<Rightarrow> nat \<Rightarrow> nat \<Rightarrow> nat" where
  "path_end_from cs start i =
     (if i \<ge> length cs then i
      else let c = cs ! i
           in if (c = 0x22 \<or> c = 0x27) \<and> i > start then
                (case closing_quote cs i of
                   Some close \<Rightarrow> path_end_from cs start (close + 1)
                 | None \<Rightarrow> i)
              else if c = 0x5C \<and> at_is cs (i + 1) 0x20 then path_end_from cs start (i + 2)
              else if stops_path c then i
              else path_end_from cs start (i + 1))"
  by pat_completeness auto
termination
  by (relation "measure (\<lambda>(cs, start, i). length cs - i)") (auto dest: closing_quote_after)

declare path_end_from.simps [simp del]

definition scan_path_candidate :: "ustring \<Rightarrow> nat \<Rightarrow> nat" where
  "scan_path_candidate cs start = path_end_from cs start start"

fun unquote_from :: "uchar option \<Rightarrow> ustring \<Rightarrow> ustring" where
  "unquote_from q [] = []"
| "unquote_from q [c] =
     (if c = 0x5C \<and> q \<noteq> Some 0x27 then []
      else if (c = 0x22 \<or> c = 0x27) \<and> q = None then []
      else if Some c = q then []
      else [c])"
| "unquote_from q (c # d # s) =
     (if c = 0x5C \<and> q \<noteq> Some 0x27 then d # unquote_from q s
      else if (c = 0x22 \<or> c = 0x27) \<and> q = None then unquote_from (Some c) (d # s)
      else if Some c = q then unquote_from None (d # s)
      else c # unquote_from q (d # s))"

definition unquote_path :: "ustring \<Rightarrow> ustring" where
  "unquote_path = unquote_from None"

definition is_prose_cut_point :: "uchar \<Rightarrow> bool" where
  "is_prose_cut_point c \<longleftrightarrow>
     c \<in> {0x2C, 0x3B, 0x21, 0x3F, 0x28, 0x29, 0x5B, 0x5D, 0x7B, 0x7D, 0x22, 0x27} \<or>
     0x3001 \<le> c \<and> c \<le> 0x3003 \<or> 0x3008 \<le> c \<and> c \<le> 0x301F \<or>
     c \<in> {0xFF01, 0xFF08, 0xFF09, 0xFF0C, 0xFF1A, 0xFF1B, 0xFF1F, 0x2018, 0x2019, 0x201C, 0x201D, 0x2026, 0x30FB,
          0x2013, 0x2014, 0x2015, 0x2212, 0xFF0D, 0xB7, 0x2022, 0xFF0E, 0xFF5E}"

abbreviation (input) MAX_PATH_CANDIDATES :: nat where "MAX_PATH_CANDIDATES \<equiv> 24"

definition sentence_mark :: "uchar \<Rightarrow> bool" where
  "sentence_mark c \<longleftrightarrow> c \<in> {0x2C, 0x2E, 0x3B, 0x3A, 0x29, 0x5D, 0x7D, 0x21, 0x3F}"

definition trim_sentence_tail :: "ustring \<Rightarrow> nat \<Rightarrow> nat \<Rightarrow> nat" where
  "trim_sentence_tail cs lo e = run_back sentence_mark cs lo e"

definition looks_like_path :: "link_env \<Rightarrow> ustring \<Rightarrow> bool" where
  "looks_like_path env cs \<longleftrightarrow>
     2 \<le> length cs \<and> \<not> list_ex (\<lambda>(a, b). a = 0x2F \<and> b = 0x2F) (zip cs (tl cs)) \<and>
     (let body_start = (if hd cs = 0x7E then 2 else 1); body = drop body_start cs
      in body_start < length cs \<and> list_ex (is_alnum env) body \<and>
         list_ex (\<lambda>part. part \<noteq> [] \<and> \<not> list_all ((=) 0x2E) part) (split_on 0x2F body))"

definition is_real_path :: "link_env \<Rightarrow> ustring \<Rightarrow> bool" where
  "is_real_path env p \<longleftrightarrow> probe env p = Exists"

text \<open>The closure \<open>consider\<close>, with how many ends it has tried and the last of them.\<close>

definition names_path :: "link_env \<Rightarrow> ustring option \<Rightarrow> ustring \<Rightarrow> bool" where
  "names_path env base s =
     (case base of
        None \<Rightarrow> looks_like_path env s \<and> is_real_path env (unquote_path s)
      | Some cwd \<Rightarrow> looks_like_relative_path env s \<and> is_real_path env (join_cwd cwd (unquote_path s)))"

definition consider_end ::
  "link_env \<Rightarrow> ustring \<Rightarrow> ustring option \<Rightarrow> nat \<Rightarrow> nat \<Rightarrow> nat \<times> nat option \<Rightarrow> bool \<times> nat \<times> nat option" where
  "consider_end env cs base lo e st =
     (case st of (tried, lst) \<Rightarrow>
        if e \<le> lo \<or> lst = Some e \<or> tried \<ge> MAX_PATH_CANDIDATES then (False, tried, lst)
        else (names_path env base (span_of cs lo e), tried + 1, Some e))"

fun try_cuts ::
  "link_env \<Rightarrow> ustring \<Rightarrow> line_segment list \<Rightarrow> ustring option \<Rightarrow> nat \<Rightarrow> nat list \<Rightarrow> nat \<times> nat option \<Rightarrow> nat option" where
  "try_cuts env cs segs base lo [] st = None"
| "try_cuts env cs segs base lo (pos # cuts) st =
     (if fst st \<ge> MAX_PATH_CANDIDATES then None
      else let is_seam = list_ex (\<lambda>seg. cc_seam seg \<and> char_offset seg = pos) segs;
               (ok, st1) = (if is_seam \<and> \<not> seam_cuts_a_name env cs pos then consider_end env cs base lo pos st else (False, st))
           in if ok then Some pos
              else if \<not> is_prose_cut_point (cs ! pos) then try_cuts env cs segs base lo cuts st1
              else let e = trim_sentence_tail cs lo pos; (ok2, st2) = consider_end env cs base lo e st1
                   in if ok2 then Some e else try_cuts env cs segs base lo cuts st2)"

definition resolve_path_end_from ::
  "link_env \<Rightarrow> ustring \<Rightarrow> nat \<Rightarrow> nat \<Rightarrow> line_segment list \<Rightarrow> ustring option \<Rightarrow> nat option" where
  "resolve_path_end_from env cs lo hi segs base =
     (let (ok, st) = consider_end env cs base lo hi (0, None)
      in if ok then Some hi
         else let trimmed = trim_sentence_tail cs lo hi;
                  (ok1, st1) = (if trimmed < hi then consider_end env cs base lo trimmed st else (False, st))
              in if ok1 then Some trimmed
                 else let stripped = strip_line_col_suffix cs lo hi;
                          (ok2, st2) = (if stripped < hi then consider_end env cs base lo stripped st1 else (False, st1))
                      in if ok2 then Some stripped
                         else try_cuts env cs segs base lo (rev [lo + 1..<hi]) st2)"

definition retry_file_at_segment_boundaries ::
  "link_env \<Rightarrow> ustring \<Rightarrow> line_segment list \<Rightarrow> nat \<Rightarrow> nat \<Rightarrow> nat option" where
  "retry_file_at_segment_boundaries env cs segs lo hi =
     List.find (\<lambda>b. lo < b \<and> b < hi \<and> \<not> seam_cuts_a_name env cs b \<and> looks_like_path env (span_of cs lo b) \<and>
         is_real_path env (span_of cs lo b))
       (map char_offset (rev segs))"

section \<open>Ranges\<close>

text \<open>One range for each row a match touches, over the cells it covers.\<close>

fun emit_segments ::
  "line_segment list \<Rightarrow> nat list \<Rightarrow> nat \<Rightarrow> nat \<Rightarrow> nat \<Rightarrow> link_kind \<Rightarrow> ustring \<Rightarrow> ustring option \<Rightarrow> link_range list" where
  "emit_segments [] col_map cols lo hi kind tx tgt = []"
| "emit_segments (seg # segs) col_map cols lo hi kind tx tgt =
     (let seg_hi = (case segs of [] \<Rightarrow> length col_map | s # _ \<Rightarrow> char_offset s);
          l = max (char_offset seg) lo; h = min seg_hi hi
      in (if l < h \<and> l < length col_map \<and> h - 1 < length col_map \<and>
             col_map ! l < cols \<and> col_map ! l \<le> col_map ! (h - 1)
          then [\<lparr>l_row = phys_row seg, l_start = col_map ! l, l_end = min (col_map ! (h - 1)) (cols - 1),
                 l_kind = kind, l_text = tx, l_target = tgt\<rparr>]
          else [])) @ emit_segments segs col_map cols lo hi kind tx tgt"

definition emit_match_to ::
  "line_segment list \<Rightarrow> nat list \<Rightarrow> nat \<Rightarrow> nat \<Rightarrow> nat \<Rightarrow> link_kind \<Rightarrow> ustring \<Rightarrow> ustring option \<Rightarrow> link_range list" where
  "emit_match_to segs col_map cols lo hi kind tx tgt =
     (if lo \<ge> hi then [] else emit_segments segs col_map cols lo hi kind tx tgt)"

section \<open>The line scan\<close>

text \<open>
  What is looked for at a position, in the order of the loop body; each gives where the loop goes on and
  the ranges it emits.  \<open>line\<close> is what the scan of a line is given.
\<close>

record line_ctx =
  lc_chars :: ustring
  lc_map :: "nat list"
  lc_segs :: "line_segment list"
  lc_cols :: nat
  lc_cwd :: "ustring option"

type_synonym found = "(nat \<times> link_range list) option"

definition emit_at :: "line_ctx \<Rightarrow> nat \<Rightarrow> nat \<Rightarrow> link_kind \<Rightarrow> ustring \<Rightarrow> ustring option \<Rightarrow> link_range list" where
  "emit_at l lo hi kind tx tgt = emit_match_to (lc_segs l) (lc_map l) (lc_cols l) lo hi kind tx tgt"

definition span_at :: "line_ctx \<Rightarrow> nat \<Rightarrow> nat \<Rightarrow> ustring" where
  "span_at l lo hi = span_of (lc_chars l) lo hi"

definition try_url :: "line_ctx \<Rightarrow> nat \<Rightarrow> found" where
  "try_url l i =
     (let cs = lc_chars l
      in if matches_prefix cs i HTTP \<or> matches_prefix cs i HTTPS
         then let e = scan_until_link_terminator cs i;
                  e = (case url_stop_boundary cs (lc_map l) (lc_segs l) (lc_cols l) i e of
                         None \<Rightarrow> e
                       | Some b \<Rightarrow> trim_sentence_tail cs i b)
              in if looks_like_url (span_at l i e) then Some (e, emit_at l i e Url (span_at l i e) None) else None
         else None)"

definition at_seg_start :: "line_ctx \<Rightarrow> nat \<Rightarrow> bool" where
  "at_seg_start l i \<longleftrightarrow> list_ex (\<lambda>s. char_offset s = i) (lc_segs l)"

definition try_file_url :: "link_env \<Rightarrow> line_ctx \<Rightarrow> nat \<Rightarrow> found" where
  "try_file_url env l i =
     (let cs = lc_chars l
      in if matches_prefix cs i FILE_SCHEME
         then let e = scan_path_candidate cs i;
                  path_start = i + 7;
                  stat_end = (case List.find (\<lambda>j. cs ! j = 0x23 \<or> cs ! j = 0x3F) [path_start..<e] of Some f \<Rightarrow> f | None \<Rightarrow> e)
              in if path_start < stat_end
                 then (case resolve_path_end_from env cs path_start stat_end (lc_segs l) None of
                         None \<Rightarrow> None
                       | Some b \<Rightarrow>
                           let span_end = (if b = stat_end then e else b)
                           in Some (max span_end (i + 1), emit_at l i span_end File (span_at l i span_end) None))
                 else None
         else None)"

text \<open>The two branches for a path from the root and one from the home directory share their middle.\<close>

definition emit_path :: "line_ctx \<Rightarrow> nat \<Rightarrow> nat \<Rightarrow> link_range list" where
  "emit_path l i b = emit_at l i b File (unquote_path (span_at l i b)) None"

definition try_abs :: "link_env \<Rightarrow> line_ctx \<Rightarrow> nat \<Rightarrow> found" where
  "try_abs env l i =
     (let cs = lc_chars l
      in if cs ! i = 0x2F \<and> i + 1 < length cs \<and> (at_seg_start l i \<or> \<not> is_left_boundary_alnum env cs i)
         then let e = scan_path_candidate cs i
              in case resolve_path_end_from env cs i e (lc_segs l) None of
                   Some b \<Rightarrow> Some (max b (i + 1), emit_path l i b)
                 | None \<Rightarrow>
                     (case retry_file_at_segment_boundaries env cs (lc_segs l) i e of
                        Some b \<Rightarrow> Some (b, emit_path l i b)
                      | None \<Rightarrow> None)
         else None)"

definition try_home :: "link_env \<Rightarrow> line_ctx \<Rightarrow> nat \<Rightarrow> found" where
  "try_home env l i =
     (let cs = lc_chars l
      in if cs ! i = 0x7E \<and> at_is cs (i + 1) 0x2F \<and> (at_seg_start l i \<or> \<not> is_left_boundary_alnum env cs i)
         then let e = scan_path_candidate cs i
              in if e - i \<ge> 3
                 then (case resolve_path_end_from env cs i e (lc_segs l) None of
                         Some b \<Rightarrow> Some (max b (i + 1), emit_path l i b)
                       | None \<Rightarrow>
                           if looks_like_path env (span_at l i e)
                           then (case retry_file_at_segment_boundaries env cs (lc_segs l) i e of
                                   Some b \<Rightarrow> Some (b, emit_path l i b)
                                 | None \<Rightarrow> None)
                           else None)
                 else None
         else None)"

definition emit_token :: "line_ctx \<Rightarrow> nat \<Rightarrow> link_kind \<Rightarrow> nat option \<Rightarrow> found" where
  "emit_token l i kind e = map_option (\<lambda>e. (e, emit_at l i e kind (span_at l i e) None)) e"

definition try_addr :: "line_ctx \<Rightarrow> nat \<Rightarrow> found" where
  "try_addr l i =
     (let cs = lc_chars l; c = cs ! i
      in case (if ascii_digit c then emit_token l i Ip (try_scan_ipv4_url cs i) else None) of
           Some r \<Rightarrow> Some r
         | None \<Rightarrow>
             (case (if c = 0x5B \<or> ascii_hex c \<or> c = 0x3A then emit_token l i Ip (try_scan_ipv6 cs i) else None) of
                Some r \<Rightarrow> Some r
              | None \<Rightarrow> if ascii_hex c then emit_token l i Uuid (try_scan_uuid cs i) else None))"

definition try_email :: "line_ctx \<Rightarrow> nat \<Rightarrow> found" where
  "try_email l i =
     (let cs = lc_chars l
      in if cs ! i = 0x40 \<and> i > 0 \<and> i + 1 < length cs
         then let local_start = scan_back_local cs i; host_end = scan_forward_host cs (i + 1)
              in if local_start < i \<and> host_end > i + 1 \<and> is_email_host (span_at l (i + 1) host_end) \<and>
                    first_zero_indent_boundary (lc_segs l) local_start host_end = None
                 then Some (host_end, emit_at l local_start host_end Email (span_at l local_start host_end) None)
                 else None
         else None)"

definition try_relative :: "link_env \<Rightarrow> line_ctx \<Rightarrow> nat \<Rightarrow> found" where
  "try_relative env l i =
     (let cs = lc_chars l; c = cs ! i
      in case lc_cwd l of
           None \<Rightarrow> None
         | Some cwd \<Rightarrow>
             if (is_alnum env c \<or> c = 0x2E \<or> c = 0x5F) \<and> (at_seg_start l i \<or> \<not> is_left_boundary_pathish env cs i)
             then let e = scan_path_candidate cs i
                  in if e > i \<and> looks_like_relative_path env (span_at l i e)
                     then (case resolve_path_end_from env cs i e (lc_segs l) (Some cwd) of
                             None \<Rightarrow> None
                           | Some b \<Rightarrow>
                               let path = unquote_path (span_at l i b)
                               in Some (max b (i + 1), emit_at l i b File path (Some (join_cwd cwd path))))
                     else None
             else None)"

definition or_else :: "found \<Rightarrow> found \<Rightarrow> found" where
  "or_else a b = (case a of None \<Rightarrow> b | Some r \<Rightarrow> Some r)"

definition scan_at :: "link_env \<Rightarrow> line_ctx \<Rightarrow> nat \<Rightarrow> nat \<times> link_range list" where
  "scan_at env l i =
     (case foldr or_else [try_url l i, try_file_url env l i, try_abs env l i, try_home env l i, try_addr l i,
             try_email l i, try_relative env l i] None of
        None \<Rightarrow> (i + 1, [])
      | Some r \<Rightarrow> r)"

end
