(* ===== verification/LinkLine.thy ===== *)
theory LinkLine
  imports Linkify
begin

text \<open>
  The loop of \<open>scan_line_into_matches\<close> (\<open>crates/marspot-linkify/src/line.rs\<close>) and what its ranges are:
  \<open>scan_at_ok\<close> says that every attempt moves the loop on and that each range it emits lies over cells of
  the text it carries and names what its kind promises.  The loop is total by the first half.
\<close>

section \<open>Walking a line\<close>

lemma run_end_ge: "i \<le> run_end p cs i"
  by (simp add: run_end_def)

lemma run_upto_ge: "i \<le> run_upto n p cs i"
  by (simp add: run_upto_def)

lemma run_back_le: "run_back p cs lo i \<le> i"
  by (simp add: run_back_def)

lemma run_back_ge: "lo \<le> i \<Longrightarrow> lo \<le> run_back p cs lo i"
proof -
  assume "lo \<le> i"
  have "length (takeWhile p (rev (span_of cs lo i))) \<le> length (span_of cs lo i)"
    by (metis length_rev length_takeWhile_le)
  also have "\<dots> \<le> i - lo" by (simp add: span_of_def)
  finally show ?thesis using \<open>lo \<le> i\<close> by (simp add: run_back_def)
qed

lemma url_trim_ge: "f \<le> i \<Longrightarrow> f \<le> url_trim cs start f i"
  by (induction cs start f i rule: url_trim.induct) (auto simp: Let_def)

lemma run_end_pos: "i < length cs \<Longrightarrow> p (cs ! i) \<Longrightarrow> i < run_end p cs i"
  by (simp add: run_end_def Cons_nth_drop_Suc [symmetric])

lemma path_end_from_ge: "i \<le> path_end_from cs start i"
proof (induction cs start i rule: path_end_from.induct)
  case (1 cs start i)
  have q: "j < length cs \<and> i \<le> path_end_from cs start (Suc j)"
    if "i < length cs" "(cs ! i = 0x22 \<or> cs ! i = 0x27) \<and> start < i" "closing_quote cs i = Some j" for j
    using 1(1) [of "cs ! i" j] that closing_quote_after [OF that(3)] by simp
  have s: "i \<le> path_end_from cs start (Suc (Suc i))"
    if "i < length cs" "\<not> ((cs ! i = 0x22 \<or> cs ! i = 0x27) \<and> start < i)" "cs ! i = 0x5C \<and> at_is cs (i + 1) 0x20"
    using 1(2) [of "cs ! i"] that by simp
  have t: "i \<le> path_end_from cs start (Suc i)"
    if "i < length cs" "\<not> ((cs ! i = 0x22 \<or> cs ! i = 0x27) \<and> start < i)"
      "\<not> (cs ! i = 0x5C \<and> at_is cs (i + 1) 0x20)" "\<not> stops_path (cs ! i)"
    using 1(3) [of "cs ! i"] that by simp
  show ?case
    unfolding path_end_from.simps [of cs start i] Let_def Suc_eq_plus1 [symmetric]
    using q s t by (simp split: option.split)
qed

lemma scan_path_candidate_ge: "i \<le> scan_path_candidate cs i"
  by (simp add: scan_path_candidate_def path_end_from_ge)

section \<open>Addresses move on\<close>

lemma ipv4_octet_after: "ipv4_octet cs i = Some e \<Longrightarrow> i < e"
  by (auto simp: ipv4_octet_def span_of_def Let_def run_upto_def split: if_splits)

lemma dot_octet_after: "dot_octet cs i = Some e \<Longrightarrow> i < e"
  using ipv4_octet_after by (fastforce simp: dot_octet_def split: if_splits)

lemma port_end_ge: "i \<le> port_end cs i"
  by (auto simp: port_end_def Let_def)

lemma ipv4_after:
  assumes "try_scan_ipv4_url cs i = Some e"
  shows "i < e"
proof -
  obtain p a b c where p: "ipv4_octet cs i = Some a" "dot_octet cs a = Some b" "dot_octet cs b = Some c"
      "dot_octet cs c = Some p"
    and e: "e = url_trim cs i p (let j = port_end cs p in if at_is cs j 0x2F then run_end is_url_char cs j else j)"
    using assms by (auto simp: try_scan_ipv4_url_def Let_def bind_eq_Some_conv split: if_splits option.splits)
  have "i < p" using p ipv4_octet_after dot_octet_after by (meson less_trans)
  moreover have "p \<le> e"
    unfolding e Let_def by (rule url_trim_ge) (use port_end_ge [of p cs] run_end_ge in \<open>auto intro: le_trans\<close>)
  ultimately show ?thesis by simp
qed

lemma ipv6_after: "try_scan_ipv6 cs i = Some e \<Longrightarrow> i < e"
proof -
  assume a: "try_scan_ipv6 cs i = Some e"
  show ?thesis
  proof (cases "at_is cs i 0x5B")
    case True
    define be where "be = run_end (\<lambda>c. c \<noteq> 0x5D) cs (i + 1)"
    have be: "i + 1 \<le> be" unfolding be_def by (rule run_end_ge)
    have pe: "be + 1 \<le> port_end cs (be + 1)" by (rule port_end_ge)
    have "be + 1 \<le> run_back p cs (be + 1) (run_end is_url_char cs (port_end cs (be + 1)))" for p
      by (rule run_back_ge) (use pe run_end_ge le_trans in blast)
    then have "be + 1 \<le> e" using a True pe
      unfolding try_scan_ipv6_def Let_def be_def [symmetric] by (auto split: if_splits)
    with be show ?thesis by simp
  next
    case False
    with a have "e = run_end ipv6_char cs i" "e \<noteq> i"
      by (auto simp: try_scan_ipv6_def Let_def split: if_splits)
    with run_end_ge [of i ipv6_char cs] show ?thesis by simp
  qed
qed

lemma uuid_part_after: "uuid_part cs n i = Some e \<Longrightarrow> e = i + n"
  using run_upto_ge [of i n ascii_hex cs] by (auto simp: uuid_part_def Let_def split: if_splits)

lemma dash_part_after: "dash_part cs n i = Some e \<Longrightarrow> e = i + n + 1"
  by (auto simp: dash_part_def dest: uuid_part_after split: if_splits)

lemma uuid_after: "try_scan_uuid cs i = Some e \<Longrightarrow> e = i + 36"
  by (auto simp: try_scan_uuid_def bind_eq_Some_conv split: if_splits option.splits
      dest!: uuid_part_after dash_part_after)

section \<open>What the oracle confirmed\<close>

lemma consider_end_ok:
  "consider_end env cs base lo e st = (True, st') \<Longrightarrow> lo < e \<and> names_path env base (span_of cs lo e)"
  by (auto simp: consider_end_def split: prod.splits if_splits)

lemma try_cuts_ok:
  "try_cuts env cs segs base lo cuts st = Some b \<Longrightarrow> lo < b \<and> names_path env base (span_of cs lo b)"
proof (induction cuts arbitrary: st)
  case (Cons pos cuts)
  then show ?case
    by (auto simp: Let_def split: if_splits prod.splits dest!: consider_end_ok)
qed simp

lemma resolve_ok:
  "resolve_path_end_from env cs lo hi segs base = Some b \<Longrightarrow> lo < b \<and> names_path env base (span_of cs lo b)"
  by (auto simp: resolve_path_end_from_def Let_def split: if_splits prod.splits
      dest!: consider_end_ok try_cuts_ok)

lemma try_cuts_le: "try_cuts env cs segs base lo cuts st = Some b \<Longrightarrow> (\<forall>c \<in> set cuts. c \<le> hi) \<Longrightarrow> b \<le> hi"
proof (induction cuts arbitrary: st)
  case (Cons pos cuts)
  have "trim_sentence_tail cs lo pos \<le> hi"
    using run_back_le [of sentence_mark cs lo pos] Cons.prems(2) by (simp add: trim_sentence_tail_def)
  with Cons show ?case by (auto simp: Let_def split: if_splits prod.splits)
qed simp

lemma resolve_le:
  assumes "resolve_path_end_from env cs lo hi segs base = Some b"
  shows "b \<le> hi"
  using assms
  by (auto simp: resolve_path_end_from_def Let_def split: if_splits prod.splits elim!: try_cuts_le)

lemma retry_ok:
  "retry_file_at_segment_boundaries env cs segs lo hi = Some b \<Longrightarrow>
     lo < b \<and> b \<in> char_offset ` set segs \<and> is_real_path env (span_of cs lo b)"
  by (auto simp: retry_file_at_segment_boundaries_def dest!: find_SomeD)

section \<open>What a range is\<close>

text \<open>
  The characters of segment \<open>k\<close> run from its offset to that of the next segment, or to the end of the line.
  The part of a match from \<open>lo\<close> to \<open>hi\<close> that lies in the segment is drawn on the row of the segment, from the
  column of its first character to that of its last.
\<close>

definition seg_end :: "line_ctx \<Rightarrow> nat \<Rightarrow> nat" where
  "seg_end l k = (if Suc k < length (lc_segs l) then char_offset (lc_segs l ! Suc k) else length (lc_map l))"

definition part_first :: "line_ctx \<Rightarrow> nat \<Rightarrow> nat \<Rightarrow> nat" where
  "part_first l k lo = max (char_offset (lc_segs l ! k)) lo"

definition part_last :: "line_ctx \<Rightarrow> nat \<Rightarrow> nat \<Rightarrow> nat" where
  "part_last l k hi = min (seg_end l k) hi - 1"

definition part_seen :: "line_ctx \<Rightarrow> nat \<Rightarrow> nat \<Rightarrow> nat \<Rightarrow> bool" where
  "part_seen l k lo hi \<longleftrightarrow>
     part_first l k lo < min (seg_end l k) hi \<and> part_last l k hi < length (lc_map l) \<and>
     lc_map l ! part_first l k lo < lc_cols l \<and> lc_map l ! part_first l k lo \<le> lc_map l ! part_last l k hi"

definition part_at :: "line_ctx \<Rightarrow> nat \<Rightarrow> nat \<Rightarrow> nat \<Rightarrow> link_range \<Rightarrow> bool" where
  "part_at l k lo hi x \<longleftrightarrow>
     l_row x = phys_row (lc_segs l ! k) \<and> l_start x = lc_map l ! part_first l k lo \<and>
     l_end x = min (lc_map l ! part_last l k hi) (lc_cols l - 1)"

definition covers :: "line_ctx \<Rightarrow> nat \<Rightarrow> nat \<Rightarrow> link_range \<Rightarrow> bool" where
  "covers l lo hi x \<longleftrightarrow> (\<exists>k < length (lc_segs l). part_seen l k lo hi \<and> part_at l k lo hi x)"

text \<open>Every segment the match reaches has a range of the same link.\<close>

definition whole :: "line_ctx \<Rightarrow> nat \<Rightarrow> nat \<Rightarrow> link_range set \<Rightarrow> link_range \<Rightarrow> bool" where
  "whole l lo hi X x \<longleftrightarrow>
     (\<forall>k < length (lc_segs l). part_seen l k lo hi \<longrightarrow>
        (\<exists>y \<in> X. part_at l k lo hi y \<and> l_kind y = l_kind x \<and> l_text y = l_text x \<and> l_target y = l_target x))"

text \<open>
  A file is real when the oracle said so of the path the link names: its target; what follows \<open>file://\<close> up
  to a fragment or a query; its text.  The exception is a path that ends at a seam, of which the oracle may have
  been asked for the characters as drawn.
\<close>

definition url_path :: "ustring \<Rightarrow> ustring" where
  "url_path t = unquote_path (takeWhile (\<lambda>c. c \<noteq> 0x23 \<and> c \<noteq> 0x3F) (drop 7 t))"

definition ends_at_seam :: "line_ctx \<Rightarrow> nat \<Rightarrow> bool" where
  "ends_at_seam l hi \<longleftrightarrow> hi \<in> char_offset ` set (lc_segs l)"

definition file_real :: "link_env \<Rightarrow> line_ctx \<Rightarrow> nat \<Rightarrow> nat \<Rightarrow> link_range \<Rightarrow> bool" where
  "file_real env l lo hi x =
     (case l_target x of
        Some p \<Rightarrow> l_text x = unquote_path (span_at l lo hi) \<and> probe env p = Exists \<and>
                  (\<exists>cwd. lc_cwd l = Some cwd \<and> p = join_cwd cwd (l_text x))
      | None \<Rightarrow>
          if matches_prefix (lc_chars l) lo FILE_SCHEME
          then l_text x = span_at l lo hi \<and> probe env (url_path (l_text x)) = Exists
          else l_text x = unquote_path (span_at l lo hi) \<and>
            (probe env (l_text x) = Exists \<or> ends_at_seam l hi \<and> probe env (span_at l lo hi) = Exists))"

definition reads :: "link_env \<Rightarrow> line_ctx \<Rightarrow> nat \<Rightarrow> nat \<Rightarrow> link_range \<Rightarrow> bool" where
  "reads env l lo hi x =
     (if l_kind x = File then file_real env l lo hi x
      else l_text x = span_at l lo hi \<and> l_target x = None \<and>
        (case l_kind x of
           Url \<Rightarrow> looks_like_url (l_text x)
         | Ip \<Rightarrow> try_scan_ipv4_url (lc_chars l) lo = Some hi \<or> try_scan_ipv6 (lc_chars l) lo = Some hi
         | Uuid \<Rightarrow> try_scan_uuid (lc_chars l) lo = Some hi
         | Email \<Rightarrow> (\<exists>m. lo < m \<and> m < hi \<and> lc_chars l ! m = 0x40 \<and> is_email_host (span_at l (m + 1) hi))
         | File \<Rightarrow> False))"

definition link_in :: "link_env \<Rightarrow> line_ctx \<Rightarrow> link_range set \<Rightarrow> link_range \<Rightarrow> bool" where
  "link_in env l X x \<longleftrightarrow> (\<exists>lo hi. covers l lo hi x \<and> reads env l lo hi x \<and> whole l lo hi X x)"

definition found_ok :: "link_env \<Rightarrow> line_ctx \<Rightarrow> nat \<Rightarrow> found \<Rightarrow> bool" where
  "found_ok env l i r \<longleftrightarrow> (\<forall>j xs. r = Some (j, xs) \<longrightarrow> i < j \<and> (\<forall>x \<in> set xs. link_in env l (set xs) x))"

lemma found_okI:
  assumes "\<And>j xs. r = Some (j, xs) \<Longrightarrow> i < j \<and> (\<forall>x \<in> set xs. link_in env l (set xs) x)"
  shows "found_ok env l i r"
  using assms by (simp add: found_ok_def)

lemma found_ok_None: "found_ok env l i None"
  by (simp add: found_ok_def)

lemma found_ok_or_else: "found_ok env l i a \<Longrightarrow> found_ok env l i b \<Longrightarrow> found_ok env l i (or_else a b)"
  by (auto simp: found_ok_def or_else_def split: option.splits)

lemma link_in_mono: "link_in env l X x \<Longrightarrow> X \<subseteq> Y \<Longrightarrow> link_in env l Y x"
proof -
  assume "link_in env l X x" "X \<subseteq> Y"
  moreover have "whole l lo hi Y x" if "whole l lo hi X x" "X \<subseteq> Y" for lo hi
    using that unfolding whole_def by blast
  ultimately show ?thesis unfolding link_in_def by blast
qed

text \<open>The ranges of a match, one segment after another.\<close>

abbreviation (input) part_range :: "line_ctx \<Rightarrow> nat \<Rightarrow> nat \<Rightarrow> link_kind \<Rightarrow> ustring \<Rightarrow> ustring option \<Rightarrow> nat \<Rightarrow> link_range" where
  "part_range l lo hi kind tx tgt k \<equiv>
     \<lparr>l_row = phys_row (lc_segs l ! k), l_start = lc_map l ! part_first l k lo,
      l_end = min (lc_map l ! part_last l k hi) (lc_cols l - 1), l_kind = kind, l_text = tx, l_target = tgt\<rparr>"

lemma emit_segments_from:
  "n \<le> length (lc_segs l) \<Longrightarrow>
     emit_segments (drop n (lc_segs l)) (lc_map l) (lc_cols l) lo hi kind tx tgt =
     map (part_range l lo hi kind tx tgt) (filter (\<lambda>k. part_seen l k lo hi) [n..<length (lc_segs l)])"
proof (induction n rule: inc_induct)
  case (step n)
  have seg: "drop n (lc_segs l) = lc_segs l ! n # drop (Suc n) (lc_segs l)"
    using step(2) by (simp add: Cons_nth_drop_Suc)
  have end_n: "(case drop (Suc n) (lc_segs l) of [] \<Rightarrow> length (lc_map l) | s # _ \<Rightarrow> char_offset s) = seg_end l n"
    using step(2) by (auto simp: seg_end_def Cons_nth_drop_Suc [symmetric])
  have up: "[n..<length (lc_segs l)] = n # [Suc n..<length (lc_segs l)]"
    using step(2) by (simp add: upt_conv_Cons)
  have "part_first l n lo < length (lc_map l)"
    if "part_first l n lo < min (seg_end l n) hi" "min (seg_end l n) hi - 1 < length (lc_map l)"
    using that by linarith
  then have seen: "part_seen l n lo hi \<longleftrightarrow>
      (part_first l n lo < min (seg_end l n) hi \<and> part_first l n lo < length (lc_map l) \<and>
       min (seg_end l n) hi - 1 < length (lc_map l) \<and> lc_map l ! part_first l n lo < lc_cols l \<and>
       lc_map l ! part_first l n lo \<le> lc_map l ! (min (seg_end l n) hi - 1))"
    by (auto simp: part_seen_def part_last_def)
  show ?case
    unfolding seg emit_segments.simps end_n Let_def step(3) up
    by (simp add: seen part_last_def flip: part_first_def)
qed simp

lemma emit_at_parts:
  "emit_at l lo hi kind tx tgt =
     map (part_range l lo hi kind tx tgt) (filter (\<lambda>k. part_seen l k lo hi) [0..<length (lc_segs l)])"
proof (cases "lo < hi")
  case True
  then show ?thesis using emit_segments_from [of 0 l] by (simp add: emit_at_def emit_match_to_def)
next
  case False
  then have "\<not> part_seen l k lo hi" for k by (auto simp: part_seen_def part_first_def)
  with False show ?thesis by (simp add: emit_at_def emit_match_to_def)
qed

lemma emit_link_ok:
  assumes "x \<in> set (emit_at l lo hi kind tx tgt)"
    and "\<And>y. l_kind y = kind \<Longrightarrow> l_text y = tx \<Longrightarrow> l_target y = tgt \<Longrightarrow> reads env l lo hi y"
  shows "link_in env l (set (emit_at l lo hi kind tx tgt)) x"
proof -
  from assms(1) have x: "l_kind x = kind" "l_text x = tx" "l_target x = tgt" and c: "covers l lo hi x"
    by (auto simp: emit_at_parts covers_def part_at_def)
  moreover have "whole l lo hi (set (emit_at l lo hi kind tx tgt)) x"
    unfolding whole_def
  proof (intro allI impI)
    fix k
    assume "k < length (lc_segs l)" "part_seen l k lo hi"
    then have "part_range l lo hi kind tx tgt k \<in> set (emit_at l lo hi kind tx tgt)"
      by (auto simp: emit_at_parts)
    then show "\<exists>y \<in> set (emit_at l lo hi kind tx tgt). part_at l k lo hi y \<and> l_kind y = l_kind x \<and>
        l_text y = l_text x \<and> l_target y = l_target x"
      by (rule bexI [rotated]) (simp add: x part_at_def)
  qed
  ultimately show ?thesis using assms(2) by (auto simp: link_in_def)
qed

section \<open>Each attempt\<close>

lemma looks_like_url_long: "looks_like_url (span_of cs i e) \<Longrightarrow> i < e"
  by (auto simp: looks_like_url_def Let_def span_of_def)

lemma try_url_ok: "found_ok env l i (try_url l i)"
proof (rule found_okI)
  fix j xs
  assume "try_url l i = Some (j, xs)"
  then have "looks_like_url (span_at l i j)" "xs = emit_at l i j Url (span_at l i j) None"
    by (auto simp: try_url_def Let_def split: if_splits)
  then show "i < j \<and> (\<forall>x \<in> set xs. link_in env l (set xs) x)"
    by (auto simp: span_at_def reads_def intro!: emit_link_ok dest: looks_like_url_long)
qed

lemma path_end_le: "i \<le> length cs \<Longrightarrow> path_end_from cs start i \<le> length cs"
proof (induction cs start i rule: path_end_from.induct)
  case (1 cs start i)
  have q: "path_end_from cs start (Suc j) \<le> length cs"
    if "i < length cs" "(cs ! i = 0x22 \<or> cs ! i = 0x27) \<and> start < i" "closing_quote cs i = Some j" for j
    using 1(1) [of "cs ! i" j] that closing_quote_after [OF that(3)] by simp
  have s: "path_end_from cs start (Suc (Suc i)) \<le> length cs"
    if "i < length cs" "\<not> ((cs ! i = 0x22 \<or> cs ! i = 0x27) \<and> start < i)" "cs ! i = 0x5C \<and> at_is cs (i + 1) 0x20"
    using 1(2) [of "cs ! i"] that by (simp add: at_is_def)
  have t: "path_end_from cs start (Suc i) \<le> length cs"
    if "i < length cs" "\<not> ((cs ! i = 0x22 \<or> cs ! i = 0x27) \<and> start < i)"
      "\<not> (cs ! i = 0x5C \<and> at_is cs (i + 1) 0x20)" "\<not> stops_path (cs ! i)"
    using 1(3) [of "cs ! i"] that by simp
  show ?case
    unfolding path_end_from.simps [of cs start i] Let_def Suc_eq_plus1 [symmetric]
    using q s t 1(4) by (simp split: option.split)
qed

lemma find_upt:
  "List.find P [a..<n] = Some f \<Longrightarrow> a \<le> f \<and> f < n \<and> P f \<and> (\<forall>j. a \<le> j \<and> j < f \<longrightarrow> \<not> P j)"
proof -
  assume "List.find P [a..<n] = Some f"
  then obtain d where d: "d < n - a" "P (a + d)" "f = a + d" "\<forall>j<d. \<not> P (a + j)"
    by (auto simp: find_Some_iff)
  moreover have "\<not> P j" if "a \<le> j" "j < f" for j
    using d(4) [rule_format, of "j - a"] that d(3) by simp
  ultimately show ?thesis by auto
qed

lemma span_split:
  assumes "a \<le> b" "b < n" "n \<le> length cs"
  shows "span_of cs a n = span_of cs a b @ cs ! b # drop (Suc b) (take n cs)"
proof -
  have "take n cs = take b cs @ drop b (take n cs)"
    using assms append_take_drop_id [of b "take n cs"] by (simp add: min_absorb1)
  moreover have "drop b (take n cs) = cs ! b # drop (Suc b) (take n cs)"
    using assms by (simp flip: Cons_nth_drop_Suc)
  ultimately have "take n cs = take b cs @ cs ! b # drop (Suc b) (take n cs)" by simp
  then have "drop a (take n cs) = drop a (take b cs @ cs ! b # drop (Suc b) (take n cs))" by (rule arg_cong)
  then show ?thesis using assms by (simp add: span_of_def)
qed

text \<open>Up to the first fragment or query of a \<open>file://\<close> link stands the path that was looked at.\<close>

lemma url_path_span:
  assumes e: "e = (case List.find (\<lambda>j. cs ! j = 0x23 \<or> cs ! j = 0x3F) [i + 7..<e0] of Some f \<Rightarrow> f | None \<Rightarrow> e0)"
    and b: "i + 7 < b" "b \<le> e" "e0 \<le> length cs" and se: "se = (if b = e then e0 else b)"
  shows "takeWhile (\<lambda>c. c \<noteq> 0x23 \<and> c \<noteq> 0x3F) (drop 7 (span_of cs i se)) = span_of cs (i + 7) b"
proof -
  let ?P = "\<lambda>c. c \<noteq> (0x23 :: uchar) \<and> c \<noteq> 0x3F"
  let ?f = "List.find (\<lambda>j. cs ! j = 0x23 \<or> cs ! j = 0x3F) [i + 7..<e0]"
  have "(\<forall>j. i + 7 \<le> j \<and> j < e \<longrightarrow> ?P (cs ! j)) \<and> e \<le> e0 \<and> (e < e0 \<longrightarrow> \<not> ?P (cs ! e))"
  proof (cases ?f)
    case None
    then have "e = e0" by (simp add: e)
    with None show ?thesis by (auto simp: find_None_iff)
  next
    case (Some f)
    from find_upt [OF this] show ?thesis unfolding e Some by simp
  qed
  then have before: "\<And>j. i + 7 \<le> j \<Longrightarrow> j < e \<Longrightarrow> ?P (cs ! j)"
    and le: "e \<le> e0" and stop: "e < e0 \<Longrightarrow> \<not> ?P (cs ! e)" by auto
  have all: "\<forall>c \<in> set (span_of cs (i + 7) b). ?P c"
  proof
    fix c assume "c \<in> set (span_of cs (i + 7) b)"
    then obtain j where "j < b - (i + 7)" "c = cs ! (i + 7 + j)"
      using b le by (auto simp: span_of_def in_set_conv_nth)
    then show "?P c" using before [of "i + 7 + j"] b by simp
  qed
  have d: "drop 7 (span_of cs i se) = span_of cs (i + 7) se" by (simp add: span_of_def add.commute)
  show ?thesis
  proof (cases "b = e \<and> e < e0")
    case True
    have "span_of cs (i + 7) e0 = span_of cs (i + 7) b @ cs ! b # drop (Suc b) (take e0 cs)"
      by (rule span_split) (use True b in auto)
    moreover have "\<not> ?P (cs ! b)" using stop True by simp
    moreover have "se = e0" using True se by simp
    ultimately show ?thesis using all unfolding d by (simp add: takeWhile_append2)
  next
    case False
    then have "se = b" using se le by auto
    then show ?thesis using all unfolding d by simp
  qed
qed

lemma file_url_ok: "found_ok env l i (try_file_url env l i)"
proof (rule found_okI)
  fix j xs
  assume found: "try_file_url env l i = Some (j, xs)"
  define e0 where "e0 = scan_path_candidate (lc_chars l) i"
  define e where "e = (case List.find (\<lambda>j. lc_chars l ! j = 0x23 \<or> lc_chars l ! j = 0x3F) [i + 7..<e0] of
      Some f \<Rightarrow> f | None \<Rightarrow> e0)"
  have eq: "try_file_url env l i =
      (if matches_prefix (lc_chars l) i FILE_SCHEME
       then if i + 7 < e
            then (case resolve_path_end_from env (lc_chars l) (i + 7) e (lc_segs l) None of
                    None \<Rightarrow> None
                  | Some b \<Rightarrow> (let se = (if b = e then e0 else b)
                               in Some (max se (i + 1), emit_at l i se File (span_at l i se) None)))
            else None
       else None)"
    unfolding try_file_url_def Let_def e_def e0_def by (rule refl)
  from found [unfolded eq] obtain b where p: "matches_prefix (lc_chars l) i FILE_SCHEME"
      and b: "resolve_path_end_from env (lc_chars l) (i + 7) e (lc_segs l) None = Some b"
      and r: "(j, xs) = (let se = (if b = e then e0 else b) in (max se (i + 1), emit_at l i se File (span_at l i se) None))"
    by (simp add: Let_def split: if_split_asm option.split_asm)
  have "e \<le> e0" by (auto simp: e_def split: option.split dest!: find_SomeD)
  define se where "se = (if b = e then e0 else b)"
  have se: "se = b \<or> b = e \<and> e \<le> se" using \<open>e \<le> e0\<close> by (simp add: se_def)
  from r have j: "j = max se (i + 1)" and xs: "xs = emit_at l i se File (span_at l i se) None"
    by (simp_all add: se_def Let_def)
  have inside: "i \<le> length (lc_chars l)" using p by (auto simp: matches_prefix_def FILE_SCHEME_def)
  from resolve_ok [OF b] have b7: "i + 7 < b" and real: "probe env (unquote_path (span_of (lc_chars l) (i + 7) b)) = Exists"
    by (simp_all add: names_path_def is_real_path_def)
  have "takeWhile (\<lambda>c. c \<noteq> 0x23 \<and> c \<noteq> 0x3F) (drop 7 (span_at l i se)) = span_of (lc_chars l) (i + 7) b"
    unfolding span_at_def
    by (rule url_path_span [OF e_def b7 resolve_le [OF b] _ se_def])
      (use path_end_le [of i "lc_chars l" i] inside in \<open>simp add: e0_def scan_path_candidate_def\<close>)
  then have "probe env (url_path (span_at l i se)) = Exists" using real by (simp add: url_path_def)
  then show "i < j \<and> (\<forall>x \<in> set xs. link_in env l (set xs) x)"
    using p by (auto simp: j xs reads_def file_real_def intro!: emit_link_ok)
qed

lemma emit_path_ok:
  assumes "x \<in> set (emit_path l i b)" "lc_chars l ! i = 0x2F \<or> lc_chars l ! i = 0x7E"
    and "names_path env None (span_of (lc_chars l) i b) \<or>
      b \<in> char_offset ` set (lc_segs l) \<and> is_real_path env (span_of (lc_chars l) i b)"
  shows "link_in env l (set (emit_path l i b)) x"
proof -
  have "\<not> matches_prefix (lc_chars l) i FILE_SCHEME"
    using assms(2) by (auto simp: matches_prefix_def FILE_SCHEME_def take_Suc_conv_app_nth hd_drop_conv_nth Cons_eq_append_conv
       dest: arg_cong [where f = hd])
  then show ?thesis
    using assms(1,3) unfolding emit_path_def
    by (elim emit_link_ok) (auto simp: reads_def file_real_def names_path_def is_real_path_def span_at_def ends_at_seam_def)
qed

lemma abs_ok: "found_ok env l i (try_abs env l i)"
proof (rule found_okI)
  fix j xs
  assume a: "try_abs env l i = Some (j, xs)"
  then obtain b where "xs = emit_path l i b" "i < j" "lc_chars l ! i = 0x2F \<or> lc_chars l ! i = 0x7E"
      "names_path env None (span_of (lc_chars l) i b) \<or>
       b \<in> char_offset ` set (lc_segs l) \<and> is_real_path env (span_of (lc_chars l) i b)"
    by (auto simp: try_abs_def Let_def split: if_splits option.splits dest!: resolve_ok retry_ok)
  then show "i < j \<and> (\<forall>x \<in> set xs. link_in env l (set xs) x)" using emit_path_ok by blast
qed

lemma home_ok: "found_ok env l i (try_home env l i)"
proof (rule found_okI)
  fix j xs
  assume a: "try_home env l i = Some (j, xs)"
  then obtain b where "xs = emit_path l i b" "i < j" "lc_chars l ! i = 0x2F \<or> lc_chars l ! i = 0x7E"
      "names_path env None (span_of (lc_chars l) i b) \<or>
       b \<in> char_offset ` set (lc_segs l) \<and> is_real_path env (span_of (lc_chars l) i b)"
    by (auto simp: try_home_def Let_def split: if_splits option.splits dest!: resolve_ok retry_ok)
  then show "i < j \<and> (\<forall>x \<in> set xs. link_in env l (set xs) x)" using emit_path_ok by blast
qed

lemma emit_token_ok:
  assumes "\<And>e. r = Some e \<Longrightarrow> i < e"
    and "\<And>e y. r = Some e \<Longrightarrow> l_kind y = kind \<Longrightarrow> l_text y = span_at l i e \<Longrightarrow> l_target y = None \<Longrightarrow> reads env l i e y"
  shows "found_ok env l i (emit_token l i kind r)"
  using assms by (auto simp: emit_token_def intro!: found_okI elim!: emit_link_ok)

lemma addr_ok: "found_ok env l i (try_addr l i)"
proof -
  have a: "found_ok env l i (emit_token l i Ip (try_scan_ipv4_url (lc_chars l) i))"
    by (rule emit_token_ok) (auto simp: reads_def dest: ipv4_after)
  have b: "found_ok env l i (emit_token l i Ip (try_scan_ipv6 (lc_chars l) i))"
    by (rule emit_token_ok) (auto simp: reads_def dest: ipv6_after)
  have c: "found_ok env l i (emit_token l i Uuid (try_scan_uuid (lc_chars l) i))"
    by (rule emit_token_ok) (auto simp: reads_def dest: uuid_after)
  show ?thesis using a b c found_ok_None
    by (auto simp: try_addr_def Let_def split: option.split)
qed

lemma email_ok: "found_ok env l i (try_email l i)"
proof (rule found_okI)
  fix j xs
  assume "try_email l i = Some (j, xs)"
  then obtain s where "xs = emit_at l s j Email (span_at l s j) None" "s < i" "i + 1 < j"
      "is_email_host (span_at l (i + 1) j)" "lc_chars l ! i = 0x40"
    by (auto simp: try_email_def Let_def split: if_splits)
  then show "i < j \<and> (\<forall>x \<in> set xs. link_in env l (set xs) x)"
    by (auto simp: reads_def intro!: emit_link_ok exI [of _ i])
qed

lemma relative_ok: "found_ok env l i (try_relative env l i)"
proof (rule found_okI)
  fix j xs
  assume "try_relative env l i = Some (j, xs)"
  then obtain cwd e b where c: "lc_cwd l = Some cwd"
      and b: "resolve_path_end_from env (lc_chars l) i e (lc_segs l) (Some cwd) = Some b"
      and j: "j = max b (i + 1)"
      and xs: "xs = emit_at l i b File (unquote_path (span_at l i b)) (Some (join_cwd cwd (unquote_path (span_at l i b))))"
    by (auto simp: try_relative_def Let_def split: if_splits option.splits)
  from resolve_ok [OF b] have "probe env (join_cwd cwd (unquote_path (span_at l i b))) = Exists"
    by (simp add: names_path_def is_real_path_def span_at_def)
  with c show "i < j \<and> (\<forall>x \<in> set xs. link_in env l (set xs) x)"
    by (auto simp: j xs reads_def file_real_def intro!: emit_link_ok)
qed

lemma scan_at_ok:
  "i < fst (scan_at env l i) \<and> (\<forall>x \<in> set (snd (scan_at env l i)). link_in env l (set (snd (scan_at env l i))) x)"
proof -
  have "found_ok env l i (foldr or_else [try_url l i, try_file_url env l i, try_abs env l i, try_home env l i,
      try_addr l i, try_email l i, try_relative env l i] None)"
    by (simp add: found_ok_or_else found_ok_None try_url_ok file_url_ok abs_ok home_ok addr_ok email_ok relative_ok)
  then show ?thesis unfolding found_ok_def scan_at_def by (auto split: option.split)
qed

section \<open>The loop\<close>

function scan_from :: "link_env \<Rightarrow> line_ctx \<Rightarrow> nat \<Rightarrow> link_range list" where
  "scan_from env l i =
     (if i \<ge> length (lc_chars l) then []
      else let r = scan_at env l i in snd r @ scan_from env l (fst r))"
  by pat_completeness auto
termination
  by (relation "measure (\<lambda>(env, l, i). length (lc_chars l) - i)")
    (use scan_at_ok in \<open>auto simp: Let_def intro: diff_less_mono2\<close>)

declare scan_from.simps [simp del]

definition scan_line_into_matches :: "link_env \<Rightarrow> line_ctx \<Rightarrow> link_range list" where
  "scan_line_into_matches env l = (if lc_segs l = [] then [] else scan_from env l 0)"

definition scan_logical_line :: "link_env \<Rightarrow> line_ctx \<Rightarrow> link_range list" where
  "scan_logical_line env l = (if lc_segs l = [] then [] else scan_line_into_matches env l)"

lemma scan_from_ok: "x \<in> set (scan_from env l i) \<Longrightarrow> link_in env l (set (scan_from env l i)) x"
proof (induction env l i rule: scan_from.induct)
  case (1 env l i)
  show ?case
  proof (cases "i \<ge> length (lc_chars l)")
    case True
    then show ?thesis using 1(2) by (simp add: scan_from.simps)
  next
    case False
    then have eq: "scan_from env l i = snd (scan_at env l i) @ scan_from env l (fst (scan_at env l i))"
      by (subst scan_from.simps) (simp add: Let_def)
    from 1(2) have "x \<in> set (snd (scan_at env l i)) \<or> x \<in> set (scan_from env l (fst (scan_at env l i)))"
      by (simp add: eq)
    then show ?thesis
      using scan_at_ok [of i env l] 1(1) [OF False refl] unfolding eq set_append
      by (meson link_in_mono Un_upper1 Un_upper2)
  qed
qed

lemma logical_line_ok: "x \<in> set (scan_logical_line env l) \<Longrightarrow> link_in env l (set (scan_logical_line env l)) x"
  using scan_from_ok by (simp add: scan_logical_line_def scan_line_into_matches_def split: if_splits)

text \<open>\<open>scan_text_line\<close>: one row, its columns counted in sixteen bits.\<close>

definition scan_text_line :: "link_env \<Rightarrow> ustring \<Rightarrow> nat \<Rightarrow> link_range list" where
  "scan_text_line env cs row =
     scan_line_into_matches env
       \<lparr>lc_chars = cs, lc_map = [0..<length cs mod 2 ^ 16],
        lc_segs = [\<lparr>phys_row = row, char_offset = 0, cc_zero_indent = False, cc_seam = False\<rparr>],
        lc_cols = max (length cs) 1, lc_cwd = None\<rparr>"

end
