(* ===== verification/LinkSurface.thy ===== *)
theory LinkSurface
  imports LinkLine
begin

text \<open>
  Links on a screen, \<open>crates/marspot-linkify\<close>: \<open>wrap.rs\<close>, \<open>input_box.rs\<close>, \<open>table.rs\<close> and
  \<open>scan_into\<close> of \<open>lib.rs\<close>.  The trait \<open>CellSource\<close> is a record of its functions.  Rows and columns are
  sixteen bits in the code and numbers here: the sums the code takes of them stay under \<open>2 ^ 16\<close> on
  a screen of fewer than 65,500 rows and columns.  The buffers a scan keeps for the next are not modelled.
\<close>

record surface =
  s_cols :: nat
  s_rows :: nat
  s_char :: "nat \<Rightarrow> nat \<Rightarrow> uchar"
  s_cont :: "nat \<Rightarrow> bool"
  s_cursor :: "nat \<times> nat"
  s_wide :: "uchar \<Rightarrow> bool"

record scan_opts =
  so_cwd :: "ustring option"
  so_tui :: bool

definition blank :: "uchar \<Rightarrow> bool" where
  "blank c \<longleftrightarrow> c = 0x20 \<or> c = 0"

text \<open>The cells of a row from one column up to another.\<close>

definition cells_of :: "surface \<Rightarrow> nat \<Rightarrow> nat \<Rightarrow> nat \<Rightarrow> ustring" where
  "cells_of s row left right = map (\<lambda>c. s_char s c row) [left..<right]"

section \<open>Wraps a program made\<close>

definition last_content :: "surface \<Rightarrow> nat \<Rightarrow> nat \<Rightarrow> nat \<Rightarrow> nat option" where
  "last_content s row left right = List.find (\<lambda>c. \<not> blank (s_char s c row)) (rev [left..<right])"

definition trailing_is_path :: "link_env \<Rightarrow> surface \<Rightarrow> nat \<Rightarrow> nat \<Rightarrow> nat \<Rightarrow> bool" where
  "trailing_is_path env s row left lst \<longleftrightarrow>
     0x2F \<in> set (takeWhile (is_url_path_class env) (rev (cells_of s row left (lst + 1))))"

definition starts_list_marker :: "link_env \<Rightarrow> surface \<Rightarrow> nat \<Rightarrow> nat \<Rightarrow> nat \<Rightarrow> bool" where
  "starts_list_marker env s row start right =
     (let tok = take 6 (takeWhile (\<lambda>c. \<not> blank c) (cells_of s row start right)); n = length tok
      in if n = 0 \<or> n = 6 then False
         else if n = 1 then \<not> is_alnum env (hd tok)
         else list_all ascii_digit (butlast tok) \<and> last tok \<in> {0x2E, 0x29})"

definition is_hard_wrap_continuation_in :: "link_env \<Rightarrow> surface \<Rightarrow> nat \<Rightarrow> nat \<Rightarrow> nat \<Rightarrow> nat \<Rightarrow> bool" where
  "is_hard_wrap_continuation_in env s prev_row curr_row left right =
     (if right < left + 2 then False
      else case last_content s prev_row left right of
             None \<Rightarrow> False
           | Some last_nb \<Rightarrow>
               let last_ch = s_char s last_nb prev_row;
                   in_path = trailing_is_path env s prev_row left last_nb;
                   slack = (if last_ch = 0x2F \<or> in_path then right div 3 else 2);
                   lead = left + length (takeWhile blank (cells_of s curr_row left right));
                   max_indent = (if in_path then 8 else 4)
               in if last_nb < right - slack then False
                  else if \<not> is_url_path_class env last_ch then False
                  else if lead - left > max_indent then False
                  else if lead = left \<and> last_nb \<noteq> right - 1 \<and> \<not> in_path then False
                  else if lead \<ge> right then False
                  else if starts_list_marker env s curr_row lead right then False
                  else is_url_path_class env (s_char s lead curr_row))"

definition is_hard_wrap_continuation :: "link_env \<Rightarrow> surface \<Rightarrow> nat \<Rightarrow> nat \<Rightarrow> nat \<Rightarrow> bool" where
  "is_hard_wrap_continuation env s prev_row curr_row cols =
     is_hard_wrap_continuation_in env s prev_row curr_row 0 cols"

definition count_leading_ws :: "surface \<Rightarrow> nat \<Rightarrow> nat \<Rightarrow> nat" where
  "count_leading_ws s row cols = length (takeWhile blank (cells_of s row 0 cols))"

section \<open>The composer\<close>

abbreviation (input) MAX_COMPOSER_ROWS :: nat where "MAX_COMPOSER_ROWS \<equiv> 12"

definition looks_like_prompt_row :: "surface \<Rightarrow> nat \<Rightarrow> nat \<Rightarrow> bool" where
  "looks_like_prompt_row s row cols =
     (case dropWhile blank (cells_of s row 0 cols) of
        [] \<Rightarrow> False
      | c # _ \<Rightarrow> c \<in> {0x276F, 0x3E, 0x203A, 0x27E9, 0xBB, 0x24, 0x25})"

definition rule_glyph :: "uchar \<Rightarrow> bool" where
  "rule_glyph c \<longleftrightarrow> c \<in> {0x2500, 0x2501, 0x2550, 0x256D, 0x256E, 0x2570, 0x256F, 0x250C, 0x2510, 0x2514, 0x2518,
     0x2502, 0x251C, 0x2524, 0x252C, 0x2534, 0x253C}"

definition is_separator_row :: "surface \<Rightarrow> nat \<Rightarrow> nat \<Rightarrow> bool" where
  "is_separator_row s row cols =
     (let cells = filter (\<lambda>c. \<not> blank c) (cells_of s row 0 cols)
      in filter (\<lambda>c. \<not> rule_glyph c) cells = [] \<and> cols div 2 \<le> length (filter rule_glyph cells))"

definition row_contains_any :: "surface \<Rightarrow> nat \<Rightarrow> nat \<Rightarrow> uchar set \<Rightarrow> bool" where
  "row_contains_any s row cols targets = list_ex (\<lambda>c. c \<in> targets) (cells_of s row 0 cols)"

definition find_rounded_box_rows :: "surface \<Rightarrow> nat \<Rightarrow> nat \<Rightarrow> (nat \<times> nat) option" where
  "find_rounded_box_rows s rows cols =
     (case List.find (\<lambda>r. row_contains_any s r cols {0x2570, 0x256F}) (rev [0..<rows]) of
        None \<Rightarrow> None
      | Some bottom_row \<Rightarrow>
          if bottom_row = 0 then None
          else case List.find (\<lambda>r. row_contains_any s r cols {0x256D, 0x256E}) (rev [0..<bottom_row]) of
                 None \<Rightarrow> None
               | Some top_row \<Rightarrow>
                   let cursor_row = snd (s_cursor s);
                       has_cursor = (top_row \<le> cursor_row \<and> cursor_row \<le> bottom_row);
                       hugs_bottom = (rows \<le> bottom_row + 4)
                   in if \<not> has_cursor \<and> \<not> hugs_bottom then None else Some (top_row, bottom_row))"

definition find_input_box_rows :: "surface \<Rightarrow> nat \<Rightarrow> nat \<Rightarrow> (nat \<times> nat) option" where
  "find_input_box_rows s rows cols =
     (let caret_row = snd (s_cursor s); reach = min MAX_COMPOSER_ROWS (rows div 2)
      in if caret_row < rows \<and> rows \<le> caret_row + reach
         then case List.find (\<lambda>r. is_separator_row s r cols) (rev [caret_row - MAX_COMPOSER_ROWS..<caret_row]) of
                Some r \<Rightarrow> Some (r, rows - 1)
              | None \<Rightarrow>
                  if \<not> s_cont s caret_row \<and> looks_like_prompt_row s caret_row cols then Some (caret_row, rows - 1)
                  else find_rounded_box_rows s rows cols
         else find_rounded_box_rows s rows cols)"

section \<open>Building a line\<close>

text \<open>
  The buffers \<open>chars\<close>, \<open>col_map\<close> and \<open>segments\<close>; the blanks at the end of \<open>chars\<close> popped with their columns; the
  cells of a row pushed, less the second half of a wide character.
\<close>

record line_buf =
  lb_chars :: ustring
  lb_map :: "nat list"
  lb_segs :: "line_segment list"

definition empty_buf :: line_buf where
  "empty_buf = \<lparr>lb_chars = [], lb_map = [], lb_segs = []\<rparr>"

definition pop_blanks :: "line_buf \<Rightarrow> line_buf" where
  "pop_blanks b =
     (let n = length (takeWhile ((=) 0x20) (rev (lb_chars b)))
      in b\<lparr>lb_chars := take (length (lb_chars b) - n) (lb_chars b), lb_map := take (length (lb_map b) - n) (lb_map b)\<rparr>)"

fun row_cells :: "surface \<Rightarrow> nat \<Rightarrow> bool \<Rightarrow> nat list \<Rightarrow> (uchar \<times> nat) list" where
  "row_cells s r prev_was_wide [] = []"
| "row_cells s r prev_was_wide (c # cs) =
     (let x = s_char s c r
      in if prev_was_wide \<and> x = 0 then row_cells s r False cs
         else (if blank x then 0x20 else x, c) # row_cells s r (x \<noteq> 0 \<and> s_wide s x) cs)"

definition push_row :: "line_buf \<Rightarrow> line_segment \<Rightarrow> (uchar \<times> nat) list \<Rightarrow> line_buf" where
  "push_row b seg cells =
     \<lparr>lb_chars = lb_chars b @ map fst cells, lb_map = lb_map b @ map snd cells, lb_segs = lb_segs b @ [seg]\<rparr>"

definition line_of :: "line_buf \<Rightarrow> nat \<Rightarrow> ustring option \<Rightarrow> line_ctx" where
  "line_of b cols cwd = \<lparr>lc_chars = lb_chars b, lc_map = lb_map b, lc_segs = lb_segs b, lc_cols = cols, lc_cwd = cwd\<rparr>"

section \<open>Tables\<close>

definition is_vertical_rule :: "uchar \<Rightarrow> bool" where
  "is_vertical_rule c \<longleftrightarrow> c \<in> {0x2502, 0x2503, 0x2506, 0x2507, 0x250A, 0x250B, 0x2551, 0x7C}"

definition is_horizontal_rule :: "uchar \<Rightarrow> bool" where
  "is_horizontal_rule c \<longleftrightarrow>
     c \<in> {0x2500, 0x2501, 0x2550, 0x253C, 0x254B, 0x252C, 0x2534, 0x251C, 0x2524, 0x256A, 0x256C, 0x2566, 0x2569,
          0x2560, 0x2563, 0x250C, 0x2510, 0x2514, 0x2518, 0x256D, 0x256E, 0x256F, 0x2570, 0x2D, 0x3D} \<or>
     is_vertical_rule c"

definition is_rule_row :: "surface \<Rightarrow> nat \<Rightarrow> nat \<Rightarrow> nat \<Rightarrow> bool" where
  "is_rule_row s row left right =
     (let cells = filter (\<lambda>c. \<not> blank c) (cells_of s row left right) in cells \<noteq> [] \<and> list_all is_horizontal_rule cells)"

definition starts_new_scheme :: "surface \<Rightarrow> nat \<Rightarrow> nat \<Rightarrow> nat \<Rightarrow> bool" where
  "starts_new_scheme s row start right =
     (let head = take 10 (filter (\<lambda>c. c \<noteq> 0) (dropWhile blank (cells_of s row start right)))
      in case find_text [0x3A, 0x2F, 0x2F] head of
           None \<Rightarrow> False
         | Some pos \<Rightarrow> pos > 0 \<and> list_all (\<lambda>c. ascii_alnum c \<or> c \<in> {0x2B, 0x2E, 0x2D}) (take pos head))"

text \<open>Ranges whose text no other range of the line has are taken out, one at a time.\<close>

function keep_shared :: "nat \<Rightarrow> link_range list \<Rightarrow> link_range list" where
  "keep_shared i xs =
     (if i \<ge> length xs then xs
      else if length (filter (\<lambda>y. l_text y = l_text (xs ! i)) xs) < 2
           then keep_shared i (take i xs @ drop (Suc i) xs)
           else keep_shared (Suc i) xs)"
  by pat_completeness auto
termination
  by (relation "measure (\<lambda>(i, xs). length xs - i)") auto

declare keep_shared.simps [simp del]

definition flush_table_line :: "link_env \<Rightarrow> line_buf \<Rightarrow> nat \<Rightarrow> ustring option \<Rightarrow> link_range list" where
  "flush_table_line env b cols cwd =
     (if length (lb_segs b) < 2 then [] else keep_shared 0 (scan_logical_line env (line_of b cols cwd)))"

text \<open>One row of a band: the line so far, the row above it in the line, what has been emitted.\<close>

type_synonym band_state = "line_buf \<times> nat option \<times> link_range list"

definition band_row ::
  "link_env \<Rightarrow> surface \<Rightarrow> nat \<Rightarrow> ustring option \<Rightarrow> nat \<Rightarrow> nat \<Rightarrow> nat \<Rightarrow> band_state \<Rightarrow> band_state" where
  "band_row env s cols cwd left right r st =
     (case st of (b, prev_row, out) \<Rightarrow>
        if is_rule_row s r left right then (empty_buf, None, out @ flush_table_line env b cols cwd)
        else
          let joins = (case prev_row of
                         None \<Rightarrow> False
                       | Some p \<Rightarrow> is_hard_wrap_continuation_in env s p r left right \<and> \<not> starts_new_scheme s r left right);
              out = (if joins then out else out @ flush_table_line env b cols cwd);
              b = (if joins then pop_blanks b else empty_buf);
              skip = (if joins then left + length (takeWhile blank (cells_of s r left right)) else left);
              seg = \<lparr>phys_row = r, char_offset = length (lb_chars b), cc_zero_indent = False, cc_seam = False\<rparr>
          in (push_row b seg (row_cells s r False [skip..<right]), Some r, out))"

definition scan_band ::
  "link_env \<Rightarrow> surface \<Rightarrow> nat \<Rightarrow> ustring option \<Rightarrow> nat list \<Rightarrow> nat \<times> nat \<Rightarrow> link_range list" where
  "scan_band env s cols cwd block_rows rules =
     (let left = fst rules + 1; right = snd rules
      in if right \<le> left + 1 then []
         else case fold (band_row env s cols cwd left right) block_rows (empty_buf, None, []) of
                (b, _, out) \<Rightarrow> out @ flush_table_line env b cols cwd)"

definition scan_table_block ::
  "link_env \<Rightarrow> surface \<Rightarrow> nat \<Rightarrow> ustring option \<Rightarrow> nat list \<Rightarrow> nat list \<Rightarrow> link_range list" where
  "scan_table_block env s cols cwd block_rows rules =
     concat (map (scan_band env s cols cwd block_rows) (zip rules (tl rules)))"

text \<open>The rules found, grouped by row; then the blocks of rows that share at least two columns.\<close>

function rows_of_rules :: "(nat \<times> nat) list \<Rightarrow> (nat \<times> nat list) list" where
  "rows_of_rules [] = []"
| "rows_of_rules ((row, col) # rest) =
     (row, col # map snd (takeWhile (\<lambda>x. fst x = row) rest)) # rows_of_rules (dropWhile (\<lambda>x. fst x = row) rest)"
  by pat_completeness auto
termination
  by (relation "measure length") (auto simp: length_dropWhile_le less_Suc_eq_le)

definition close_block ::
  "link_env \<Rightarrow> surface \<Rightarrow> nat \<Rightarrow> ustring option \<Rightarrow> nat list \<Rightarrow> nat list \<Rightarrow> link_range list" where
  "close_block env s cols cwd block_rows shared =
     (if 2 \<le> length block_rows \<and> 2 \<le> length shared then scan_table_block env s cols cwd block_rows shared else [])"

definition block_step ::
  "link_env \<Rightarrow> surface \<Rightarrow> nat \<Rightarrow> ustring option \<Rightarrow> nat \<times> nat list \<Rightarrow>
     nat list \<times> nat list \<times> link_range list \<Rightarrow> nat list \<times> nat list \<times> link_range list" where
  "block_step env s cols cwd this_row st =
     (case st of (block_rows, shared, out) \<Rightarrow>
        let next_shared = filter (\<lambda>c. c \<in> set (snd this_row)) shared
        in if block_rows \<noteq> [] \<and> last block_rows + 1 = fst this_row \<and> 2 \<le> length next_shared
           then (block_rows @ [fst this_row], next_shared, out)
           else ([fst this_row], snd this_row, out @ close_block env s cols cwd block_rows shared))"

definition scan_table_cells ::
  "link_env \<Rightarrow> surface \<Rightarrow> nat \<Rightarrow> ustring option \<Rightarrow> (nat \<times> nat) list \<Rightarrow> link_range list" where
  "scan_table_cells env s cols cwd rule_cols =
     (if length rule_cols < 4 then []
      else case fold (block_step env s cols cwd) (rows_of_rules rule_cols) ([], [], []) of
             (block_rows, shared, out) \<Rightarrow> out @ close_block env s cols cwd block_rows shared)"

text \<open>
  \<open>drop_shadowed_ranges\<close>: an insertion sort by row, first column and length of the text in bytes, longest
  first; then one pass that keeps what starts after the furthest column kept on its row.
\<close>

definition text_bytes :: "ustring \<Rightarrow> nat" where
  "text_bytes t = length (concat (map encode_utf8 t))"

definition key_le :: "link_range \<Rightarrow> link_range \<Rightarrow> bool" where
  "key_le x y \<longleftrightarrow> l_row x < l_row y \<or> l_row x = l_row y \<and>
     (l_start x < l_start y \<or> l_start x = l_start y \<and> text_bytes (l_text y) \<le> text_bytes (l_text x))"

definition insert_range :: "link_range \<Rightarrow> link_range list \<Rightarrow> link_range list" where
  "insert_range x xs = takeWhile (\<lambda>y. key_le y x) xs @ x # dropWhile (\<lambda>y. key_le y x) xs"

fun keep_reaching :: "nat \<Rightarrow> nat \<Rightarrow> link_range list \<Rightarrow> link_range list" where
  "keep_reaching row reach [] = []"
| "keep_reaching row reach (x # xs) =
     (if l_row x \<noteq> row then x # keep_reaching (l_row x) (l_end x) xs
      else if l_start x \<le> reach then keep_reaching row reach xs
      else x # keep_reaching row (max reach (l_end x)) xs)"

definition drop_shadowed_ranges :: "link_range list \<Rightarrow> link_range list" where
  "drop_shadowed_ranges xs = keep_reaching 0xFFFF 0 (fold insert_range xs [])"

section \<open>The scan\<close>

record scan_state =
  sc_buf :: line_buf
  sc_offset :: nat
  sc_rules :: "(nat \<times> nat) list"
  sc_out :: "link_range list"

definition exempt :: "(nat \<times> nat) option \<Rightarrow> nat \<Rightarrow> bool" where
  "exempt box r = (case box of None \<Rightarrow> False | Some (lo, hi) \<Rightarrow> lo \<le> r \<and> r \<le> hi)"

definition flush :: "link_env \<Rightarrow> surface \<Rightarrow> scan_opts \<Rightarrow> scan_state \<Rightarrow> scan_state" where
  "flush env s opts st =
     (if lb_segs (sc_buf st) = [] then st
      else st\<lparr>sc_buf := empty_buf, sc_offset := 0,
              sc_out := sc_out st @ scan_logical_line env (line_of (sc_buf st) (s_cols s) (so_cwd opts))\<rparr>)"

definition scan_row :: "link_env \<Rightarrow> surface \<Rightarrow> scan_opts \<Rightarrow> (nat \<times> nat) option \<Rightarrow> nat \<Rightarrow> scan_state \<Rightarrow> scan_state" where
  "scan_row env s opts box r st =
     (if exempt box r then flush env s opts st
      else
        let decawm_cont = (r > 0 \<and> s_cont s r);
            cc_cont = (\<not> decawm_cont \<and> r > 0 \<and> so_tui opts \<and> is_hard_wrap_continuation env s (r - 1) r (s_cols s));
            st = (if decawm_cont \<or> cc_cont then st else flush env s opts st);
            buf = (if cc_cont then pop_blanks (sc_buf st) else sc_buf st);
            offset = (if cc_cont then length (lb_chars buf) else sc_offset st);
            skip = (if cc_cont then count_leading_ws s r (s_cols s) else 0);
            seg = \<lparr>phys_row = r, char_offset = offset, cc_zero_indent = cc_cont \<and> skip = 0, cc_seam = cc_cont\<rparr>;
            cells = row_cells s r False [skip..<s_cols s];
            buf = push_row buf seg cells
        in st\<lparr>sc_buf := buf, sc_offset := length (lb_chars buf),
              sc_rules := sc_rules st @
                (if so_tui opts then map (\<lambda>x. (r, snd x)) (filter (\<lambda>x. is_vertical_rule (fst x)) cells) else [])\<rparr>)"

definition scan_into :: "link_env \<Rightarrow> surface \<Rightarrow> scan_opts \<Rightarrow> link_range list" where
  "scan_into env s opts =
     (let rows = s_rows s; cols = s_cols s
      in if rows = 0 \<or> cols = 0 then []
         else
           let box = (if so_tui opts then find_input_box_rows s rows cols else None);
               st = fold (scan_row env s opts box) [0..<rows]
                      \<lparr>sc_buf = empty_buf, sc_offset = 0, sc_rules = [], sc_out = []\<rparr>;
               st = (if lb_segs (sc_buf st) = [] then st
                     else st\<lparr>sc_out := sc_out st @ scan_logical_line env (line_of (sc_buf st) cols (so_cwd opts))\<rparr>);
               tables = (if so_tui opts \<and> 4 \<le> length (sc_rules st)
                         then scan_table_cells env s cols (so_cwd opts) (sc_rules st) else [])
           in if tables \<noteq> [] then drop_shadowed_ranges (sc_out st @ tables) else sc_out st)"

end
