(* ===== verification/LinkProps.thy ===== *)
theory LinkProps
  imports LinkSurface
begin

text \<open>
  What the links of a screen are: on the screen and outside the composer, over the text they carry, and
  files only where the oracle said so; what the table pass keeps; what \<open>drop_shadowed_ranges\<close> leaves.
\<close>

section \<open>Lines of a screen\<close>

text \<open>
  The characters of a line stand on the screen, those of a segment on its row: the buffers hold a column for
  each character, the offsets are in order, and each character is that of its cell, a blank for an empty one.
  The last segment holds something unless it is all there is of its row.
\<close>

definition cell_shown :: "surface \<Rightarrow> nat \<Rightarrow> nat \<Rightarrow> uchar" where
  "cell_shown s c r = (if blank (s_char s c r) then 0x20 else s_char s c r)"

definition drawn :: "surface \<Rightarrow> line_ctx \<Rightarrow> bool" where
  "drawn s l \<longleftrightarrow> length (lc_chars l) = length (lc_map l) \<and>
     (\<forall>k < length (lc_segs l). char_offset (lc_segs l ! k) \<le> seg_end l k \<and> seg_end l k \<le> length (lc_map l) \<and>
        (\<forall>j. char_offset (lc_segs l ! k) \<le> j \<and> j < seg_end l k \<longrightarrow>
           lc_chars l ! j = cell_shown s (lc_map l ! j) (phys_row (lc_segs l ! k)))) \<and>
     (lc_segs l \<noteq> [] \<longrightarrow> char_offset (hd (lc_segs l)) = 0)"

text \<open>Cells that stand on a row.\<close>

definition on_row :: "surface \<Rightarrow> nat \<Rightarrow> (uchar \<times> nat) list \<Rightarrow> bool" where
  "on_row s r cells \<longleftrightarrow> (\<forall>x \<in> set cells. fst x = cell_shown s (snd x) r)"

lemma row_cells_on_row: "on_row s r (row_cells s r w cs)"
proof (induction cs arbitrary: w)
  case (Cons c cs)
  have "on_row s r (row_cells s r v cs)" for v by (rule Cons.IH)
  then show ?case by (auto simp: on_row_def Let_def cell_shown_def)
qed (simp add: on_row_def)

abbreviation (input) buf_line :: "line_buf \<Rightarrow> line_ctx" where
  "buf_line b \<equiv> line_of b 0 None"

lemma drawn_ctx: "drawn s (line_of b cols cwd) \<longleftrightarrow> drawn s (line_of b 0 None)"
  by (simp add: drawn_def line_of_def seg_end_def)

lemma drawn_empty: "drawn s (buf_line empty_buf)"
  by (simp add: drawn_def line_of_def empty_buf_def)

lemma drawn_push:
  assumes "drawn s (buf_line b)" "on_row s (phys_row seg) cells" "char_offset seg = length (lb_chars b)"
    and "lb_segs b = [] \<Longrightarrow> lb_chars b = []"
  shows "drawn s (buf_line (push_row b seg cells))"
proof -
  let ?l = "buf_line b" and ?m = "buf_line (push_row b seg cells)"
  let ?n = "length (lb_segs b)"
  have len: "length (lb_chars b) = length (lb_map b)" using assms(1) by (simp add: drawn_def line_of_def)
  have se: "seg_end ?m k = (if k < ?n then seg_end ?l k else length (lb_map b) + length cells)" if "k \<le> ?n" for k
    using that assms(3) len by (auto simp: seg_end_def line_of_def push_row_def nth_append)
  have old: "char_offset (lb_segs b ! k) \<le> seg_end ?l k \<and> seg_end ?l k \<le> length (lb_map b) \<and>
      (\<forall>j. char_offset (lb_segs b ! k) \<le> j \<and> j < seg_end ?l k \<longrightarrow>
         lb_chars b ! j = cell_shown s (lb_map b ! j) (phys_row (lb_segs b ! k)))" if "k < ?n" for k
    using assms(1) that by (simp add: drawn_def line_of_def)
  have "char_offset (lc_segs ?m ! k) \<le> seg_end ?m k \<and> seg_end ?m k \<le> length (lc_map ?m) \<and>
      (\<forall>j. char_offset (lc_segs ?m ! k) \<le> j \<and> j < seg_end ?m k \<longrightarrow>
         lc_chars ?m ! j = cell_shown s (lc_map ?m ! j) (phys_row (lc_segs ?m ! k)))" if k: "k \<le> ?n" for k
  proof (cases "k < ?n")
    case True
    then show ?thesis using old [OF True] len unfolding se [OF k]
      by (auto simp: line_of_def push_row_def nth_append)
  next
    case False
    then have kn: "k = ?n" using k by simp
    have "map fst cells ! i = cell_shown s (map snd cells ! i) (phys_row seg)" if "i < length cells" for i
      using assms(2) that by (simp add: on_row_def)
    moreover have "seg_end ?m ?n = length (lb_map b) + length cells" using se [of ?n] by simp
    ultimately show ?thesis unfolding kn using assms(3) len
      by (auto simp: line_of_def push_row_def nth_append)
  qed
  moreover have "char_offset (hd (lb_segs b @ [seg])) = 0"
    using assms(1,3,4) by (cases "lb_segs b") (auto simp: drawn_def line_of_def)
  ultimately show ?thesis using len by (simp add: drawn_def line_of_def push_row_def less_Suc_eq_le)
qed

lemma pop_blanks_segs [simp]: "lb_segs (pop_blanks b) = lb_segs b"
  by (simp add: pop_blanks_def Let_def)

text \<open>Blanks popped off the end leave the last segment with what it holds before them.\<close>

definition kept_by_pop :: "line_buf \<Rightarrow> bool" where
  "kept_by_pop b \<longleftrightarrow> lb_segs b \<noteq> [] \<longrightarrow>
     (\<exists>j. char_offset (last (lb_segs b)) \<le> j \<and> j < length (lb_chars b) \<and> lb_chars b ! j \<noteq> 0x20)"

lemma pop_blanks_take:
  "\<exists>n. lb_chars (pop_blanks b) = take n (lb_chars b) \<and>
     lb_map (pop_blanks b) = take (length (lb_map b) - (length (lb_chars b) - n)) (lb_map b) \<and> n \<le> length (lb_chars b) \<and>
     (\<forall>j. j < length (lb_chars b) \<and> lb_chars b ! j \<noteq> 0x20 \<longrightarrow> j < n)"
proof -
  let ?w = "takeWhile ((=) 0x20) (rev (lb_chars b))"
  let ?n = "length (lb_chars b) - length ?w"
  have w: "length ?w \<le> length (lb_chars b)" by (metis length_rev length_takeWhile_le)
  have "j < ?n" if j: "j < length (lb_chars b)" "lb_chars b ! j \<noteq> 0x20" for j
  proof (rule ccontr)
    assume "\<not> j < ?n"
    then have i: "length (lb_chars b) - Suc j < length ?w" using j by linarith
    moreover have "\<forall>x \<in> set ?w. x = 0x20" by (auto dest: set_takeWhileD)
    ultimately have "?w ! (length (lb_chars b) - Suc j) = 0x20" using nth_mem by blast
    moreover have "?w ! (length (lb_chars b) - Suc j) = lb_chars b ! j"
      using i j by (simp add: takeWhile_nth rev_nth)
    ultimately show False using j by simp
  qed
  then have "\<forall>j. j < length (lb_chars b) \<and> lb_chars b ! j \<noteq> 0x20 \<longrightarrow> j < ?n" by blast
  moreover have "lb_chars (pop_blanks b) = take ?n (lb_chars b)"
      "lb_map (pop_blanks b) = take (length (lb_map b) - length ?w) (lb_map b)"
    by (simp_all add: pop_blanks_def Let_def)
  moreover have "length (lb_chars b) - ?n = length ?w" using w by linarith
  ultimately show ?thesis by (intro exI [of _ ?n]) (metis diff_le_self)
qed

lemma drawn_pop:
  assumes "drawn s (buf_line b)" "kept_by_pop b"
  shows "drawn s (buf_line (pop_blanks b))"
proof -
  obtain n where n: "lb_chars (pop_blanks b) = take n (lb_chars b)" "n \<le> length (lb_chars b)"
      "lb_map (pop_blanks b) = take (length (lb_map b) - (length (lb_chars b) - n)) (lb_map b)"
      "\<forall>j. j < length (lb_chars b) \<and> lb_chars b ! j \<noteq> 0x20 \<longrightarrow> j < n"
    using pop_blanks_take by blast
  have len: "length (lb_chars b) = length (lb_map b)" using assms(1) by (simp add: drawn_def line_of_def)
  then have m: "lb_map (pop_blanks b) = take n (lb_map b)" using n by simp
  let ?l = "buf_line b" and ?m = "buf_line (pop_blanks b)"
  have old: "char_offset (lb_segs b ! k) \<le> seg_end ?l k \<and> seg_end ?l k \<le> length (lb_map b) \<and>
      (\<forall>j. char_offset (lb_segs b ! k) \<le> j \<and> j < seg_end ?l k \<longrightarrow>
         lb_chars b ! j = cell_shown s (lb_map b ! j) (phys_row (lb_segs b ! k)))" if "k < length (lb_segs b)" for k
    using assms(1) that by (simp add: drawn_def line_of_def)
  have mono: "char_offset (lb_segs b ! k) \<le> char_offset (last (lb_segs b))" if "k < length (lb_segs b)" for k
    using that
  proof (induction "length (lb_segs b) - Suc k" arbitrary: k)
    case 0
    then show ?case by (metis Suc_leI Suc_diff_le diff_is_0_eq last_conv_nth le_antisym less_or_eq_imp_le
        list.size(3) not_less_zero diff_Suc_1 Suc_diff_1 nat_less_le)
  next
    case (Suc d)
    then have k: "Suc k < length (lb_segs b)" by linarith
    have "char_offset (lb_segs b ! k) \<le> char_offset (lb_segs b ! Suc k)"
      using old [OF Suc.prems] k by (simp add: seg_end_def line_of_def)
    also have "\<dots> \<le> char_offset (last (lb_segs b))" by (rule Suc.hyps(1)) (use Suc.hyps(2) k in auto)
    finally show ?case .
  qed
  have last_lt: "char_offset (last (lb_segs b)) < n" if "lb_segs b \<noteq> []"
    using assms(2) n(4) that by (fastforce simp: kept_by_pop_def)
  have "char_offset (lb_segs b ! k) \<le> seg_end ?m k \<and> seg_end ?m k \<le> length (lc_map ?m) \<and>
      (\<forall>j. char_offset (lb_segs b ! k) \<le> j \<and> j < seg_end ?m k \<longrightarrow>
         lc_chars ?m ! j = cell_shown s (lc_map ?m ! j) (phys_row (lb_segs b ! k)))" if k: "k < length (lb_segs b)" for k
  proof -
    have lt: "char_offset (lb_segs b ! k) < n" using mono [OF k] last_lt k by fastforce
    have "seg_end ?m k = min n (seg_end ?l k)"
    proof (cases "Suc k < length (lb_segs b)")
      case True
      then have "char_offset (lb_segs b ! Suc k) < n" using mono [OF True] last_lt by fastforce
      with True show ?thesis by (simp add: seg_end_def line_of_def)
    next
      case False
      then show ?thesis using n(2) len by (simp add: seg_end_def line_of_def m)
    qed
    then show ?thesis using old [OF k] lt n(1,2) len m by (auto simp: line_of_def)
  qed
  moreover have "lb_segs b \<noteq> [] \<longrightarrow> char_offset (hd (lb_segs b)) = 0"
    using assms(1) by (simp add: drawn_def line_of_def)
  ultimately show ?thesis using n(1) m len by (simp add: drawn_def line_of_def)
qed

section \<open>Ranges of a line\<close>

text \<open>
  Rows of which \<open>P\<close> holds, columns of the screen, and a line behind it that stands on the screen and is read
  with that working directory.
\<close>

definition range_ok :: "link_env \<Rightarrow> surface \<Rightarrow> nat \<Rightarrow> ustring option \<Rightarrow> (nat \<Rightarrow> bool) \<Rightarrow> link_range \<Rightarrow> bool" where
  "range_ok env s cols cwd P x \<longleftrightarrow>
     P (l_row x) \<and> l_start x \<le> l_end x \<and> l_end x < cols \<and>
     (\<exists>l lo hi. drawn s l \<and> lc_cwd l = cwd \<and> covers l lo hi x \<and> reads env l lo hi x)"

abbreviation (input) rows_ok :: "(nat \<Rightarrow> bool) \<Rightarrow> line_buf \<Rightarrow> bool" where
  "rows_ok P b \<equiv> \<forall>seg \<in> set (lb_segs b). P (phys_row seg)"

definition buf_ok :: "surface \<Rightarrow> (nat \<Rightarrow> bool) \<Rightarrow> line_buf \<Rightarrow> bool" where
  "buf_ok s P b \<longleftrightarrow> rows_ok P b \<and> drawn s (buf_line b) \<and> (lb_segs b = [] \<longrightarrow> lb_chars b = [])"

lemma covers_bounds: "covers l lo hi x \<Longrightarrow> l_start x \<le> l_end x \<and> l_end x < lc_cols l"
  by (auto simp: covers_def part_seen_def part_at_def)

lemma line_range_ok:
  assumes "x \<in> set (scan_logical_line env (line_of b cols cwd))" "buf_ok s P b"
  shows "range_ok env s cols cwd P x"
proof -
  from logical_line_ok [OF assms(1)] obtain lo hi where c: "covers (line_of b cols cwd) lo hi x"
    and l: "reads env (line_of b cols cwd) lo hi x" by (auto simp: link_in_def)
  from c obtain k where "k < length (lb_segs b)" "l_row x = phys_row (lb_segs b ! k)"
    by (auto simp: covers_def part_at_def line_of_def)
  then obtain seg where "seg \<in> set (lb_segs b)" "phys_row seg = l_row x" using nth_mem by metis
  moreover have "drawn s (line_of b cols cwd)" using assms(2) by (subst drawn_ctx) (simp add: buf_ok_def)
  moreover have "lc_cwd (line_of b cols cwd) = cwd" "lc_cols (line_of b cols cwd) = cols" by (simp_all add: line_of_def)
  ultimately show ?thesis using c l covers_bounds [OF c] assms(2) by (auto simp: range_ok_def buf_ok_def)
qed

section \<open>The table pass\<close>

lemma keep_shared_subset: "x \<in> set (keep_shared i xs) \<Longrightarrow> x \<in> set xs"
proof (induction i xs rule: keep_shared.induct)
  case (1 i xs)
  then show ?case
    by (subst (asm) (3) keep_shared.simps) (auto split: if_splits dest: in_set_takeD in_set_dropD)
qed

lemma table_line_ok:
  assumes "x \<in> set (flush_table_line env b cols cwd)" "buf_ok s P b"
  shows "range_ok env s cols cwd P x"
proof -
  have "x \<in> set (scan_logical_line env (line_of b cols cwd))"
    using assms(1) keep_shared_subset by (fastforce simp: flush_table_line_def split: if_splits)
  then show ?thesis by (rule line_range_ok [OF _ assms(2)])
qed

lemma empty_buf_segs [simp]: "lb_segs empty_buf = []"
  by (simp add: empty_buf_def)

lemma push_row_segs [simp]: "lb_segs (push_row b seg cells) = lb_segs b @ [seg]"
  by (simp add: push_row_def)

lemma buf_ok_empty [simp]: "buf_ok s P empty_buf"
  using drawn_empty by (simp add: buf_ok_def) (simp add: empty_buf_def)

lemma buf_ok_pop: "buf_ok s P b \<Longrightarrow> kept_by_pop b \<Longrightarrow> buf_ok s P (pop_blanks b)"
  using drawn_pop by (auto simp: buf_ok_def pop_blanks_def Let_def)

lemma buf_ok_push:
  assumes "buf_ok s P b" "char_offset seg = length (lb_chars b)" "P (phys_row seg)"
  shows "buf_ok s P (push_row b seg (row_cells s (phys_row seg) w cs))"
  using assms drawn_push [OF _ row_cells_on_row] by (auto simp: buf_ok_def)

text \<open>A row with something on it is kept by the pop that joins the next row to it.\<close>

lemma row_cells_mem:
  "c \<in> set cs \<Longrightarrow> \<not> blank (s_char s c r) \<Longrightarrow> (s_char s c r, c) \<in> set (row_cells s r w cs)"
proof (induction cs arbitrary: w)
  case (Cons d cs)
  show ?case
  proof (cases "c = d")
    case True
    then show ?thesis using Cons.prems(2) by (auto simp: Let_def blank_def)
  next
    case False
    then have "(s_char s c r, c) \<in> set (row_cells s r v cs)" for v using Cons by simp
    then show ?thesis by (simp add: Let_def)
  qed
qed simp

lemma kept_empty [simp]: "kept_by_pop empty_buf"
  by (simp add: kept_by_pop_def)

lemma kept_push:
  assumes "char_offset seg = length (lb_chars b)" "last_content s r left right \<noteq> None"
    and "skip = left \<or> skip = left + length (takeWhile blank (cells_of s r left right))"
  shows "kept_by_pop (push_row b seg (row_cells s r w [skip..<right]))"
proof -
  from assms(2) obtain c where c: "left \<le> c" "c < right" "\<not> blank (s_char s c r)"
    by (auto simp: last_content_def dest!: find_SomeD)
  have "skip \<le> c"
  proof (rule ccontr)
    assume n: "\<not> skip \<le> c"
    then have k: "c - left < length (takeWhile blank (cells_of s r left right))" using assms(3) c(1) by auto
    then have "blank (takeWhile blank (cells_of s r left right) ! (c - left))" by (meson nth_mem set_takeWhileD)
    moreover have at: "[left..<right] ! (c - left) = c" using c by (subst nth_upt) auto
    moreover have "takeWhile blank (cells_of s r left right) ! (c - left) = s_char s c r"
      using k c by (simp only: takeWhile_nth) (simp only: cells_of_def nth_map length_upt diff_less_mono at)
    ultimately show False using c(3) by simp
  qed
  then have "(s_char s c r, c) \<in> set (row_cells s r w [skip..<right])"
    using row_cells_mem [of c "[skip..<right]" s r w] c by simp
  then obtain i where "i < length (row_cells s r w [skip..<right])" "fst (row_cells s r w [skip..<right] ! i) = s_char s c r"
    by (metis fst_conv in_set_conv_nth)
  then show ?thesis using assms(1) c(3) unfolding kept_by_pop_def
    by (intro impI exI [of _ "length (lb_chars b) + i"]) (auto simp: push_row_def nth_append blank_def)
qed

lemma continuation_content:
  "is_hard_wrap_continuation_in env s p r left right \<Longrightarrow> last_content s p left right \<noteq> None"
  by (auto simp: is_hard_wrap_continuation_in_def split: if_splits option.splits)

definition band_ok :: "link_env \<Rightarrow> surface \<Rightarrow> nat \<Rightarrow> ustring option \<Rightarrow> nat \<Rightarrow> nat \<Rightarrow> (nat \<Rightarrow> bool) \<Rightarrow> band_state \<Rightarrow> bool" where
  "band_ok env s cols cwd left right P st \<longleftrightarrow> buf_ok s P (fst st) \<and>
     (\<forall>p. fst (snd st) = Some p \<and> last_content s p left right \<noteq> None \<longrightarrow> kept_by_pop (fst st)) \<and>
     (\<forall>x \<in> set (snd (snd st)). range_ok env s cols cwd P x)"

lemma band_row_ok:
  assumes "band_ok env s cols cwd left right P st" "P r"
  shows "band_ok env s cols cwd left right P (band_row env s cols cwd left right r st)"
proof -
  obtain b p out where st: "st = (b, p, out)" by (cases st) auto
  from assms(1) have b: "buf_ok s P b" and out: "\<forall>x \<in> set out. range_ok env s cols cwd P x"
    and kept: "\<And>q. p = Some q \<Longrightarrow> last_content s q left right \<noteq> None \<Longrightarrow> kept_by_pop b"
    by (auto simp: band_ok_def st)
  have f: "\<forall>x \<in> set (flush_table_line env b cols cwd). range_ok env s cols cwd P x"
    using table_line_ok b by blast
  show ?thesis
  proof (cases "is_rule_row s r left right")
    case True
    then show ?thesis using f out by (auto simp: band_ok_def st band_row_def)
  next
    case False
    define joins where "joins = (case p of None \<Rightarrow> False
        | Some p \<Rightarrow> is_hard_wrap_continuation_in env s p r left right \<and> \<not> starts_new_scheme s r left right)"
    define b1 where "b1 = (if joins then pop_blanks b else empty_buf)"
    define out1 where "out1 = (if joins then out else out @ flush_table_line env b cols cwd)"
    define skip where "skip = (if joins then left + length (takeWhile blank (cells_of s r left right)) else left)"
    let ?seg = "\<lparr>phys_row = r, char_offset = length (lb_chars b1), cc_zero_indent = False, cc_seam = False\<rparr>"
    have "kept_by_pop b" if joins
      using that kept continuation_content by (auto simp: joins_def split: option.splits)
    then have b1: "buf_ok s P b1" using b buf_ok_pop by (simp add: b1_def)
    have "buf_ok s P (push_row b1 ?seg (row_cells s r False [skip..<right]))"
      using buf_ok_push [OF b1, of ?seg] assms(2) by simp
    moreover have "kept_by_pop (push_row b1 ?seg (row_cells s r False [skip..<right]))"
      if "last_content s r left right \<noteq> None"
      by (rule kept_push [OF _ that]) (auto simp: skip_def)
    moreover have "\<forall>x \<in> set out1. range_ok env s cols cwd P x" using out f by (auto simp: out1_def)
    moreover have "band_row env s cols cwd left right r st =
        (push_row b1 ?seg (row_cells s r False [skip..<right]), Some r, out1)"
      unfolding st band_row_def prod.case joins_def [symmetric] out1_def [symmetric] b1_def [symmetric]
        skip_def [symmetric] Let_def by (simp add: False)
    ultimately show ?thesis by (simp add: band_ok_def)
  qed
qed

lemma band_fold_ok:
  "band_ok env s cols cwd left right P st \<Longrightarrow> list_all P rs \<Longrightarrow>
     band_ok env s cols cwd left right P (fold (band_row env s cols cwd left right) rs st)"
  by (rule fold_invariant [where Q = P]) (auto simp: list_all_iff intro: band_row_ok)

lemma scan_band_ok:
  assumes "x \<in> set (scan_band env s cols cwd rs w)" "list_all P rs"
  shows "range_ok env s cols cwd P x"
proof -
  have "band_ok env s cols cwd (fst w + 1) (snd w) P (empty_buf, None, [])" by (simp add: band_ok_def)
  note inv = band_fold_ok [OF this assms(2)]
  obtain b p out where f: "fold (band_row env s cols cwd (fst w + 1) (snd w)) rs (empty_buf, None, []) = (b, p, out)"
    using prod_cases3 by blast
  have "band_ok env s cols cwd (fst w + 1) (snd w) P (b, p, out)" using inv by (simp only: f)
  then have "buf_ok s P b" "\<forall>x \<in> set out. range_ok env s cols cwd P x" by (simp_all add: band_ok_def)
  moreover from assms(1) have "x \<in> set out \<or> x \<in> set (flush_table_line env b cols cwd)"
    using f by (auto simp: scan_band_def Let_def split: if_splits)
  ultimately show ?thesis using table_line_ok by blast
qed

lemma close_block_ok:
  "x \<in> set (close_block env s cols cwd rs shared) \<Longrightarrow> list_all P rs \<Longrightarrow> range_ok env s cols cwd P x"
  by (auto simp: close_block_def scan_table_block_def split: if_splits intro: scan_band_ok)

definition blocks_ok ::
  "link_env \<Rightarrow> surface \<Rightarrow> nat \<Rightarrow> ustring option \<Rightarrow> (nat \<Rightarrow> bool) \<Rightarrow> nat list \<times> nat list \<times> link_range list \<Rightarrow> bool" where
  "blocks_ok env s cols cwd P st \<longleftrightarrow> list_all P (fst st) \<and> (\<forall>x \<in> set (snd (snd st)). range_ok env s cols cwd P x)"

lemma block_step_ok:
  "blocks_ok env s cols cwd P st \<Longrightarrow> P (fst g) \<Longrightarrow> blocks_ok env s cols cwd P (block_step env s cols cwd g st)"
  by (cases st) (auto simp: blocks_ok_def block_step_def Let_def dest: close_block_ok)

lemma block_fold_ok:
  "blocks_ok env s cols cwd P st \<Longrightarrow> list_all P (map fst gs) \<Longrightarrow>
     blocks_ok env s cols cwd P (fold (block_step env s cols cwd) gs st)"
  by (rule fold_invariant [where Q = "\<lambda>g. P (fst g)"]) (auto simp: list_all_iff intro: block_step_ok)

lemma rows_of_rules_rows: "fst ` set (rows_of_rules rs) \<subseteq> fst ` set rs"
proof (induction rs rule: rows_of_rules.induct)
  case (2 row col rest)
  have "fst ` set (dropWhile (\<lambda>x. fst x = row) rest) \<subseteq> fst ` set rest"
    by (auto dest: set_dropWhileD)
  with 2 show ?case by auto
qed simp

lemma table_cells_ok:
  assumes "x \<in> set (scan_table_cells env s cols cwd rs)" "\<forall>g \<in> set rs. P (fst g)"
  shows "range_ok env s cols cwd P x"
proof -
  have "list_all P (map fst (rows_of_rules rs))"
    using rows_of_rules_rows [of rs] assms(2) by (force simp: list_all_iff)
  moreover have "blocks_ok env s cols cwd P ([], [], [])" by (simp add: blocks_ok_def)
  ultimately have "blocks_ok env s cols cwd P (fold (block_step env s cols cwd) (rows_of_rules rs) ([], [], []))"
    by (rule block_fold_ok [rotated])
  moreover obtain b sh out where f: "fold (block_step env s cols cwd) (rows_of_rules rs) ([], [], []) = (b, sh, out)"
    using prod_cases3 by blast
  ultimately have "list_all P b" "\<forall>x \<in> set out. range_ok env s cols cwd P x" by (simp_all add: blocks_ok_def)
  moreover from assms(1) have "x \<in> set out \<or> x \<in> set (close_block env s cols cwd b sh)"
    using f by (auto simp: scan_table_cells_def split: if_splits)
  ultimately show ?thesis using close_block_ok by blast
qed

section \<open>The screen\<close>

definition scan_ok :: "link_env \<Rightarrow> surface \<Rightarrow> scan_opts \<Rightarrow> (nat \<Rightarrow> bool) \<Rightarrow> scan_state \<Rightarrow> bool" where
  "scan_ok env s opts P st \<longleftrightarrow> buf_ok s P (sc_buf st) \<and> sc_offset st = length (lb_chars (sc_buf st)) \<and>
     (\<forall>g \<in> set (sc_rules st). P (fst g)) \<and>
     (\<forall>x \<in> set (sc_out st). range_ok env s (s_cols s) (so_cwd opts) P x)"

text \<open>Before row \<open>n\<close>: what is drawn on the row above is kept by a pop.\<close>

definition above_kept :: "surface \<Rightarrow> nat \<Rightarrow> scan_state \<Rightarrow> bool" where
  "above_kept s n st \<longleftrightarrow> n > 0 \<and> last_content s (n - 1) 0 (s_cols s) \<noteq> None \<longrightarrow> kept_by_pop (sc_buf st)"

lemma flush_buf: "sc_buf (flush env s opts st) = (if lb_segs (sc_buf st) = [] then sc_buf st else empty_buf)"
  by (simp add: flush_def)

lemma kept_flush: "kept_by_pop (sc_buf (flush env s opts st))"
  by (simp add: flush_buf kept_by_pop_def)

lemma flush_ok: "scan_ok env s opts P st \<Longrightarrow> scan_ok env s opts P (flush env s opts st)"
  using buf_ok_empty [of s P]
  by (auto simp: scan_ok_def flush_def intro: line_range_ok) (simp add: empty_buf_def)

lemma scan_row_ok:
  assumes "scan_ok env s opts P st" "\<not> exempt box r \<Longrightarrow> P r" "above_kept s r st"
  shows "scan_ok env s opts P (scan_row env s opts box r st) \<and> above_kept s (Suc r) (scan_row env s opts box r st)"
proof (cases "exempt box r")
  case True
  then show ?thesis using assms(1) kept_flush by (simp add: scan_row_def flush_ok above_kept_def)
next
  case False
  define cont where "cont = (r > 0 \<and> s_cont s r)"
  define cc where "cc = (\<not> cont \<and> r > 0 \<and> so_tui opts \<and> is_hard_wrap_continuation env s (r - 1) r (s_cols s))"
  define st1 where "st1 = (if cont \<or> cc then st else flush env s opts st)"
  define buf where "buf = (if cc then pop_blanks (sc_buf st1) else sc_buf st1)"
  define skip where "skip = (if cc then count_leading_ws s r (s_cols s) else 0)"
  let ?seg = "\<lparr>phys_row = r, char_offset = length (lb_chars buf), cc_zero_indent = cc \<and> skip = 0, cc_seam = cc\<rparr>"
  let ?cells = "row_cells s r False [skip..<s_cols s]"
  have st1: "scan_ok env s opts P st1" using assms(1) by (simp add: st1_def flush_ok)
  have "kept_by_pop (sc_buf st1)" if cc
    using that assms(3) continuation_content
    by (auto simp: cc_def st1_def above_kept_def is_hard_wrap_continuation_def)
  then have buf: "buf_ok s P buf" using st1 buf_ok_pop by (simp add: scan_ok_def buf_def)
  have off: "(if cc then length (lb_chars buf) else sc_offset st1) = length (lb_chars buf)"
    using st1 by (simp add: scan_ok_def buf_def)
  have new: "buf_ok s P (push_row buf ?seg ?cells)"
    using buf_ok_push [OF buf, of ?seg] assms(2) [OF False] by simp
  have kept: "kept_by_pop (push_row buf ?seg ?cells)" if "last_content s r 0 (s_cols s) \<noteq> None"
    by (rule kept_push [OF _ that]) (auto simp: skip_def count_leading_ws_def)
  have eq: "scan_row env s opts box r st =
      st1\<lparr>sc_buf := push_row buf ?seg ?cells, sc_offset := length (lb_chars (push_row buf ?seg ?cells)),
          sc_rules := sc_rules st1 @
            (if so_tui opts then map (\<lambda>x. (r, snd x)) (filter (\<lambda>x. is_vertical_rule (fst x)) ?cells) else [])\<rparr>"
    using False off
    unfolding scan_row_def Let_def cont_def [symmetric] cc_def [symmetric] st1_def [symmetric]
      buf_def [symmetric] skip_def [symmetric] by simp
  show ?thesis unfolding eq using st1 new kept assms(2) [OF False]
    by (auto simp: scan_ok_def above_kept_def)
qed

lemma scan_fold_ok:
  assumes "scan_ok env s opts P st" "\<forall>r < n. \<not> exempt box r \<longrightarrow> P r"
  shows "scan_ok env s opts P (fold (scan_row env s opts box) [0..<n] st) \<and>
    above_kept s n (fold (scan_row env s opts box) [0..<n] st)"
  using assms(2)
proof (induction n)
  case (Suc n)
  then have "scan_ok env s opts P (fold (scan_row env s opts box) [0..<n] st)"
      "above_kept s n (fold (scan_row env s opts box) [0..<n] st)" by simp_all
  from scan_row_ok [OF this(1) _ this(2)] Suc.prems show ?case by simp
qed (simp add: assms(1) above_kept_def)

lemma insert_range_set [simp]: "set (insert_range x xs) = insert x (set xs)"
proof -
  have "set xs = set (takeWhile (\<lambda>y. key_le y x) xs @ dropWhile (\<lambda>y. key_le y x) xs)" by simp
  then show ?thesis by (auto simp: insert_range_def simp del: takeWhile_dropWhile_id)
qed

lemma fold_insert_set [simp]: "set (fold insert_range xs ys) = set xs \<union> set ys"
  by (induction xs arbitrary: ys) auto

lemma keep_reaching_subset: "x \<in> set (keep_reaching row reach xs) \<Longrightarrow> x \<in> set xs"
  by (induction row reach xs rule: keep_reaching.induct) (auto split: if_splits)

definition composer :: "surface \<Rightarrow> scan_opts \<Rightarrow> (nat \<times> nat) option" where
  "composer s opts = (if so_tui opts then find_input_box_rows s (s_rows s) (s_cols s) else None)"

lemma scan_into_ok:
  assumes "x \<in> set (scan_into env s opts)"
  shows "range_ok env s (s_cols s) (so_cwd opts) (\<lambda>r. r < s_rows s \<and> \<not> exempt (composer s opts) r) x"
proof -
  let ?P = "\<lambda>r. r < s_rows s \<and> \<not> exempt (composer s opts) r"
  define st where "st = fold (scan_row env s opts (composer s opts)) [0..<s_rows s]
      \<lparr>sc_buf = empty_buf, sc_offset = 0, sc_rules = [], sc_out = []\<rparr>"
  define out where "out = sc_out st @ (if lb_segs (sc_buf st) = [] then []
      else scan_logical_line env (line_of (sc_buf st) (s_cols s) (so_cwd opts)))"
  define tables where "tables = (if so_tui opts \<and> 4 \<le> length (sc_rules st)
      then scan_table_cells env s (s_cols s) (so_cwd opts) (sc_rules st) else [])"
  have "scan_ok env s opts ?P \<lparr>sc_buf = empty_buf, sc_offset = 0, sc_rules = [], sc_out = []\<rparr>"
    by (simp add: scan_ok_def) (simp add: empty_buf_def)
  then have "scan_ok env s opts ?P st" unfolding st_def
    by (rule scan_fold_ok [THEN conjunct1]) simp
  then have out: "\<forall>x \<in> set out. range_ok env s (s_cols s) (so_cwd opts) ?P x"
    and tables: "\<forall>x \<in> set tables. range_ok env s (s_cols s) (so_cwd opts) ?P x"
    using line_range_ok [of _ env "sc_buf st" "s_cols s" "so_cwd opts" s ?P]
      table_cells_ok [of _ env s "s_cols s" "so_cwd opts" "sc_rules st" ?P]
    by (auto simp: scan_ok_def out_def tables_def)
  have "scan_into env s opts = (if s_rows s = 0 \<or> s_cols s = 0 then []
      else if tables \<noteq> [] then drop_shadowed_ranges (out @ tables) else out)"
    unfolding scan_into_def Let_def composer_def [symmetric] st_def [symmetric]
    by (auto simp: out_def tables_def)
  with assms have "x \<in> set out \<union> set tables"
    by (auto simp: drop_shadowed_ranges_def split: if_splits dest: keep_reaching_subset)
  with out tables show ?thesis by blast
qed

section \<open>The table pass keeps what it found twice\<close>

lemma filter_text_take_drop:
  assumes "i < length xs" "l_text (xs ! i) \<noteq> t"
  shows "filter (\<lambda>y. l_text y = t) (take i xs @ drop (Suc i) xs) = filter (\<lambda>y. l_text y = t) xs"
  using assms by (subst (3) id_take_nth_drop [OF assms(1)]) simp

definition text_count :: "link_range list \<Rightarrow> ustring \<Rightarrow> nat" where
  "text_count xs t = length (filter (\<lambda>y. l_text y = t) xs)"

lemma keep_shared_from:
  "keep_shared i xs = take i xs @ filter (\<lambda>x. 2 \<le> text_count xs (l_text x)) (drop i xs)"
proof (induction i xs rule: keep_shared.induct)
  case (1 i xs)
  show ?case
  proof (cases "i < length xs")
    case False
    then show ?thesis by (simp add: keep_shared.simps)
  next
    case i: True
    have d: "drop i xs = xs ! i # drop (Suc i) xs" using i by (simp add: Cons_nth_drop_Suc)
    show ?thesis
    proof (cases "text_count xs (l_text (xs ! i)) < 2")
      case True
      let ?ys = "take i xs @ drop (Suc i) xs"
      have once: "l_text y \<noteq> l_text (xs ! i)" if "y \<in> set (drop (Suc i) xs)" for y
      proof
        assume "l_text y = l_text (xs ! i)"
        then have "0 < length (filter (\<lambda>z. l_text z = l_text (xs ! i)) (drop (Suc i) xs))"
          using that by (auto simp: filter_empty_conv)
        moreover have "text_count xs (l_text (xs ! i)) =
            length (filter (\<lambda>z. l_text z = l_text (xs ! i)) (take i xs)) +
            Suc (length (filter (\<lambda>z. l_text z = l_text (xs ! i)) (drop (Suc i) xs)))"
          unfolding text_count_def by (subst (2) id_take_nth_drop [OF i]) simp
        ultimately show False using True by simp
      qed
      have "text_count ?ys (l_text y) = text_count xs (l_text y)" if "y \<in> set (drop (Suc i) xs)" for y
        unfolding text_count_def using once [OF that] i by (subst filter_text_take_drop) auto
      then have "filter (\<lambda>x. 2 \<le> text_count ?ys (l_text x)) (drop (Suc i) xs) =
          filter (\<lambda>x. 2 \<le> text_count xs (l_text x)) (drop (Suc i) xs)"
        by (intro filter_cong) auto
      moreover have "keep_shared i xs = keep_shared i ?ys"
        using True i by (subst keep_shared.simps) (simp add: text_count_def)
      moreover have "keep_shared i ?ys = take i ?ys @ filter (\<lambda>x. 2 \<le> text_count ?ys (l_text x)) (drop i ?ys)"
        using 1(1) i True by (simp add: text_count_def)
      ultimately show ?thesis using i True by (simp add: d)
    next
      case False
      then have "keep_shared i xs = keep_shared (Suc i) xs"
        using i by (subst keep_shared.simps) (simp add: text_count_def)
      moreover have "keep_shared (Suc i) xs = take (Suc i) xs @ filter (\<lambda>x. 2 \<le> text_count xs (l_text x)) (drop (Suc i) xs)"
        using 1(2) i False by (simp add: text_count_def)
      ultimately show ?thesis using i False by (simp add: d take_Suc_conv_app_nth)
    qed
  qed
qed

section \<open>Shadowed ranges\<close>

lemma key_le_total: "key_le x y \<or> key_le y x"
  by (auto simp: key_le_def)

lemma key_le_trans: "key_le x y \<Longrightarrow> key_le y z \<Longrightarrow> key_le x z"
  by (auto simp: key_le_def)

lemma insert_range_sorted:
  assumes "sorted_wrt key_le xs"
  shows "sorted_wrt key_le (insert_range x xs)"
proof -
  let ?a = "takeWhile (\<lambda>y. key_le y x) xs" and ?b = "dropWhile (\<lambda>y. key_le y x) xs"
  have ab: "sorted_wrt key_le (?a @ ?b)" using assms by simp
  have a: "key_le y x" if "y \<in> set ?a" for y using that by (rule set_takeWhileD [THEN conjunct2])
  have b: "key_le x y" if "y \<in> set ?b" for y
  proof (cases ?b)
    case (Cons z zs)
    then have "\<not> key_le z x" by (metis hd_dropWhile list.distinct(1) list.sel(1))
    then have "key_le x z" using key_le_total by blast
    moreover have "y = z \<or> key_le z y" using that ab Cons by (auto simp: sorted_wrt_append)
    ultimately show ?thesis using key_le_trans by blast
  next
    case Nil
    from that have "y \<in> set []" unfolding Nil .
    then show ?thesis by simp
  qed
  have "sorted_wrt key_le ?a \<and> sorted_wrt key_le ?b \<and> (\<forall>y \<in> set ?a. \<forall>z \<in> set ?b. key_le y z)"
    using ab unfolding sorted_wrt_append .
  with a b show ?thesis
    unfolding insert_range_def sorted_wrt_append sorted_wrt.simps list.set by blast
qed

lemma fold_insert_sorted: "sorted_wrt key_le ys \<Longrightarrow> sorted_wrt key_le (fold insert_range xs ys)"
  by (induction xs arbitrary: ys) (auto intro: insert_range_sorted)

text \<open>One range ends before the next of its row begins.\<close>

definition apart :: "link_range \<Rightarrow> link_range \<Rightarrow> bool" where
  "apart x y \<longleftrightarrow> l_row x < l_row y \<or> l_row x = l_row y \<and> l_end x < l_start y"

definition touches :: "link_range \<Rightarrow> link_range \<Rightarrow> bool" where
  "touches x y \<longleftrightarrow> l_row x = l_row y \<and> l_start x \<le> l_end y \<and> l_start y \<le> l_end x"

lemma keep_reaching_after:
  assumes "sorted_wrt key_le xs" "\<forall>x \<in> set xs. row \<le> l_row x" "y \<in> set (keep_reaching row reach xs)"
  shows "row < l_row y \<or> l_row y = row \<and> reach < l_start y"
  using assms
proof (induction row reach xs rule: keep_reaching.induct)
  case (2 row reach x xs)
  have rest: "\<forall>z \<in> set xs. l_row x \<le> l_row z" using 2(4) by (auto simp: key_le_def)
  show ?case
  proof (cases "l_row x = row")
    case False
    with 2 rest show ?thesis by (auto simp: key_le_def)
  next
    case True
    with 2 show ?thesis by (auto split: if_splits)
  qed
qed simp

lemma keep_reaching_apart:
  assumes "sorted_wrt key_le xs" "\<forall>x \<in> set xs. row \<le> l_row x"
  shows "sorted_wrt apart (keep_reaching row reach xs)"
  using assms
proof (induction row reach xs rule: keep_reaching.induct)
  case (2 row reach x xs)
  have rest: "\<forall>z \<in> set xs. l_row x \<le> l_row z" using 2(4) by (auto simp: key_le_def)
  have s: "sorted_wrt key_le xs" using 2(4) by simp
  have "apart x y" if "y \<in> set (keep_reaching (l_row x) (max r (l_end x)) xs)" for r y
    using keep_reaching_after [OF s rest that] by (auto simp: apart_def)
  from this [of _ 0] this [of _ reach] show ?case using 2 rest s by (auto simp: max_def)
qed simp

text \<open>What is dropped began no later than the furthest column kept on its row before it.\<close>

lemma keep_reaching_covered:
  assumes "sorted_wrt key_le xs" "\<forall>x \<in> set xs. row \<le> l_row x \<and> l_start x \<le> l_end x"
    and "\<forall>x \<in> set xs. l_row x = row \<longrightarrow> l_row k = row \<and> l_end k = reach \<and> l_start k \<le> l_start x"
    and "y \<in> set xs"
  shows "\<exists>z \<in> insert k (set (keep_reaching row reach xs)). touches z y"
  using assms
proof (induction row reach xs arbitrary: k rule: keep_reaching.induct)
  case (2 row reach x xs)
  have s: "sorted_wrt key_le xs" using 2(4) by simp
  have x: "\<forall>z \<in> set xs. l_row x < l_row z \<or> l_row x = l_row z \<and> l_start x \<le> l_start z"
    using 2(4) by (auto simp: key_le_def)
  have le: "row \<le> l_row x" "l_start x \<le> l_end x" using 2(5) by auto
  have self: "touches x x" using le by (simp add: touches_def)
  consider (later) "l_row x \<noteq> row" | (shadowed) "l_row x = row" "l_start x \<le> reach"
    | (kept) "l_row x = row" "reach < l_start x" by linarith
  then show ?case
  proof cases
    case later
    have "\<exists>z \<in> insert x (set (keep_reaching (l_row x) (l_end x) xs)). touches z y" if "y \<in> set xs"
      by (rule 2(1)) (use later s x 2(5) that in auto)
    with later self 2(7) show ?thesis by auto
  next
    case shadowed
    have k: "l_row k = row" "l_end k = reach" "l_start k \<le> l_start x" using 2(6) shadowed by auto
    have "\<exists>z \<in> insert k (set (keep_reaching row reach xs)). touches z y" if "y \<in> set xs"
      by (rule 2(2)) (use shadowed s x k 2(5,6) that in auto)
    moreover have "touches k x" using k shadowed le by (simp add: touches_def)
    ultimately show ?thesis using shadowed 2(7) by auto
  next
    case kept
    have m: "max reach (l_end x) = l_end x" using kept le by simp
    have "\<exists>z \<in> insert x (set (keep_reaching row (max reach (l_end x)) xs)). touches z y" if "y \<in> set xs"
      by (rule 2(3)) (use kept s x m 2(5) that in auto)
    with kept self 2(7) show ?thesis by auto
  qed
qed simp

section \<open>A screen to try it on\<close>

text \<open>One row that reads \<open>/e\<close>, where \<open>/e\<close> exists.\<close>

definition demo_env :: link_env where
  "demo_env = \<lparr>is_alnum = ascii_alnum, is_alpha = ascii_alpha, probe = (\<lambda>p. if p = [0x2F, 0x65] then Exists else Missing)\<rparr>"
definition demo_line :: line_ctx where
  "demo_line = \<lparr>lc_chars = [0x2F, 0x65], lc_map = [0, 1],
     lc_segs = [\<lparr>phys_row = 0, char_offset = 0, cc_zero_indent = False, cc_seam = False\<rparr>], lc_cols = 2, lc_cwd = None\<rparr>"
definition demo_link :: link_range where
  "demo_link = \<lparr>l_row = 0, l_start = 0, l_end = 1, l_kind = File, l_text = [0x2F, 0x65], l_target = None\<rparr>"

lemma demo_path: "path_end_from [0x2F, 0x65] 0 0 = 2"
  by (subst path_end_from.simps, simp add: stops_path_def is_whitespace_def is_control_def at_is_def,
      subst path_end_from.simps, simp add: stops_path_def is_whitespace_def is_control_def at_is_def,
      subst path_end_from.simps, simp)

lemma demo_names: "names_path demo_env None [0x2F, 0x65]"
  by (simp add: names_path_def looks_like_path_def demo_env_def ascii_alnum_def is_real_path_def unquote_path_def)

lemma demo_at: "scan_at demo_env demo_line 0 = (2, [demo_link])"
proof -
  have "resolve_path_end_from demo_env [0x2F, 0x65] 0 2 segs None = Some 2" for segs
    using demo_names by (simp add: resolve_path_end_from_def consider_end_def span_of_def)
  then have "try_abs demo_env demo_line 0 = Some (2, [demo_link])"
    by (simp add: try_abs_def demo_line_def at_seg_start_def scan_path_candidate_def demo_path
       emit_path_def emit_at_def emit_match_to_def span_at_def span_of_def unquote_path_def demo_link_def)
  moreover have "try_url demo_line 0 = None" "try_file_url demo_env demo_line 0 = None"
    by (simp_all add: try_url_def try_file_url_def demo_line_def matches_prefix_def HTTP_def HTTPS_def FILE_SCHEME_def)
  ultimately show ?thesis by (simp add: scan_at_def or_else_def)
qed

lemma demo_scan: "scan_logical_line demo_env demo_line = [demo_link]"
proof -
  have "length (lc_chars demo_line) = 2" "lc_segs demo_line \<noteq> []" by (simp_all add: demo_line_def)
  moreover have "scan_from demo_env demo_line 2 = []"
    by (subst scan_from.simps) (simp add: demo_line_def)
  ultimately show ?thesis
    by (simp add: scan_logical_line_def scan_line_into_matches_def scan_from.simps [of _ _ 0] demo_at Let_def)
qed

definition demo_screen :: surface where
  "demo_screen = \<lparr>s_cols = 2, s_rows = 1, s_char = (\<lambda>c r. if c = 0 then 0x2F else 0x65), s_cont = (\<lambda>_. False),
     s_cursor = (0, 0), s_wide = (\<lambda>_. False)\<rparr>"

definition demo_opts :: scan_opts where
  "demo_opts = \<lparr>so_cwd = None, so_tui = False\<rparr>"

lemma demo_into: "scan_into demo_env demo_screen demo_opts = [demo_link]"
proof -
  have "row_cells demo_screen 0 False [0..<2] = [(0x2F, 0), (0x65, 1)]"
    by (simp add: numeral_2_eq_2 demo_screen_def blank_def)
  then have "scan_row demo_env demo_screen demo_opts None 0
      \<lparr>sc_buf = empty_buf, sc_offset = 0, sc_rules = [], sc_out = []\<rparr> =
      \<lparr>sc_buf = \<lparr>lb_chars = lc_chars demo_line, lb_map = lc_map demo_line, lb_segs = lc_segs demo_line\<rparr>,
       sc_offset = 2, sc_rules = [], sc_out = []\<rparr>"
    by (simp add: scan_row_def exempt_def flush_def demo_opts_def empty_buf_def push_row_def demo_line_def Let_def)
      (simp add: demo_screen_def)
  moreover have "line_of \<lparr>lb_chars = lc_chars demo_line, lb_map = lc_map demo_line, lb_segs = lc_segs demo_line\<rparr> 2 None =
      demo_line" by (simp add: line_of_def demo_line_def)
  ultimately show ?thesis
    using demo_scan by (simp add: scan_into_def demo_screen_def demo_opts_def demo_line_def)
qed

section \<open>Properties\<close>

text \<open>
  C16: Every link found on a screen lies on the screen, on a row outside the composer: its row is below the
  height, its first column is not after its last, and its last column is below the width.  This holds of
  lines wrapped by the terminal, of lines joined by the wrap heuristic and of the cells of tables.
\<close>

theorem links_on_screen:
  assumes "x \<in> set (scan_into env s opts)"
  shows "l_row x < s_rows s \<and> l_start x \<le> l_end x \<and> l_end x < s_cols s \<and>
    \<not> exempt (if so_tui opts then find_input_box_rows s (s_rows s) (s_cols s) else None) (l_row x)"
  using scan_into_ok [OF assms] by (simp add: range_ok_def composer_def)

lemma links_on_screen_witness:
  "l_row demo_link < s_rows demo_screen \<and> l_end demo_link < s_cols demo_screen"
  using links_on_screen [of demo_link demo_env demo_screen demo_opts] by (simp add: demo_into)

text \<open>
  C17: A file link of a screen lies over characters of a line that stands on the screen cell by cell, and it is
  one because the path oracle said of the path it names that it exists: of its target, which is the text
  resolved against the working directory; of the path after \<open>file://\<close>, without quotes, up to a
  fragment or a query; of its text, which is what is drawn without its quotes.  The one exception is a
  link that ends where a row of its line ends: there the oracle may have confirmed the characters as drawn, quotes and
  backslashes included.  So an oracle that never says so leaves a screen without file links.
\<close>

theorem file_links_confirmed:
  assumes "x \<in> set (scan_into env s opts)" "l_kind x = File"
  shows "\<exists>l lo hi. drawn s l \<and> lc_cwd l = so_cwd opts \<and> covers l lo hi x \<and> file_real env l lo hi x"
  using scan_into_ok [OF assms(1)] assms(2) unfolding range_ok_def reads_def by auto

lemma file_links_confirmed_witness:
  "\<exists>l lo hi. drawn demo_screen l \<and> covers l lo hi demo_link \<and> file_real demo_env l lo hi demo_link"
  using file_links_confirmed [of demo_link demo_env demo_screen demo_opts] by (auto simp: demo_into demo_link_def)

text \<open>
  C18: A link found in a line was read from some characters of it and is what its kind says: a URL is
  structurally one, an address or UUID is one that the scanner of its kind reads at that place, a mail
  address has a host after its at sign, and a file is one the oracle confirmed.  The range lies on the row of a
  segment, exactly over the columns of those of the characters that belong to the segment, and every segment that
  holds some of them has a range of the link.
\<close>

theorem line_links_read:
  assumes "x \<in> set (scan_logical_line env l)"
  shows "\<exists>lo hi. covers l lo hi x \<and> reads env l lo hi x \<and> whole l lo hi (set (scan_logical_line env l)) x"
  using logical_line_ok [OF assms] by (simp add: link_in_def)

lemma line_links_read_witness: "\<exists>lo hi. covers demo_line lo hi demo_link \<and> reads demo_env demo_line lo hi demo_link"
  using line_links_read [of demo_link demo_env demo_line] by (auto simp: demo_scan)

text \<open>
  C19: After \<open>drop_shadowed_ranges\<close> the ranges are in reading order and no two share a cell; each is one of
  those before, and each of those before shares a cell with one that is left.
\<close>

theorem shadowed_dropped:
  assumes "\<forall>x \<in> set xs. l_start x \<le> l_end x \<and> l_row x < 0xFFFF"
  shows "sorted_wrt apart (drop_shadowed_ranges xs) \<and> set (drop_shadowed_ranges xs) \<subseteq> set xs \<and>
    (\<forall>y \<in> set xs. \<exists>z \<in> set (drop_shadowed_ranges xs). touches z y)"
proof -
  define ys where "ys = fold insert_range xs []"
  have ys: "set ys = set xs" "sorted_wrt key_le ys" by (simp_all add: ys_def fold_insert_sorted)
  have sub: "set (drop_shadowed_ranges xs) \<subseteq> set xs"
    using keep_reaching_subset ys by (fastforce simp: drop_shadowed_ranges_def ys_def)
  show ?thesis
  proof (cases ys)
    case Nil
    then show ?thesis using ys by (simp add: drop_shadowed_ranges_def)
  next
    case (Cons k ks)
    let ?out = "keep_reaching (l_row k) (l_end k) ks"
    have "k \<in> set xs" using ys(1) Cons by auto
    then have k: "l_start k \<le> l_end k" "l_row k \<noteq> 0xFFFF" using assms by force+
    have d: "drop_shadowed_ranges xs = k # ?out"
      using Cons k by (simp add: drop_shadowed_ranges_def ys_def)
    have s: "sorted_wrt key_le ks" and rest: "\<forall>x \<in> set ks. key_le k x" using ys Cons by auto
    have le: "\<forall>x \<in> set ks. l_row k \<le> l_row x" using rest by (auto simp: key_le_def)
    have "\<forall>x \<in> set ks. l_row k \<le> l_row x \<and> l_start x \<le> l_end x" using le assms ys Cons by auto
    moreover have "\<forall>x \<in> set ks. l_row x = l_row k \<longrightarrow> l_row k = l_row k \<and> l_end k = l_end k \<and> l_start k \<le> l_start x"
      using rest by (auto simp: key_le_def)
    ultimately have "\<exists>z \<in> insert k (set ?out). touches z y" if "y \<in> set ks" for y
      using keep_reaching_covered [OF s _ _ that] by blast
    moreover have "touches k k" using k by (simp add: touches_def)
    moreover have "set xs = insert k (set ks)" using ys(1) Cons by auto
    ultimately have "\<forall>y \<in> set xs. \<exists>z \<in> set (drop_shadowed_ranges xs). touches z y"
      by (auto simp: d)
    moreover have "apart k x" if "x \<in> set ?out" for x
      using keep_reaching_after [OF s le that] by (auto simp: apart_def)
    ultimately show ?thesis using sub keep_reaching_apart [OF s le] by (simp add: d)
  qed
qed

lemma shadowed_dropped_witness: "\<exists>z \<in> set (drop_shadowed_ranges [demo_link]). touches z demo_link"
  using shadowed_dropped [of "[demo_link]"] by (simp add: demo_link_def)

text \<open>
  \<open>scan_text_line\<close> counts the columns of its line in sixteen bits: its links end below the length of the
  line modulo 65,536, so that a line of 65,536 characters has none.
\<close>

theorem text_line_links:
  assumes "x \<in> set (scan_text_line env cs row)"
  shows "l_row x = row \<and> l_start x \<le> l_end x \<and> l_end x < length cs mod 2 ^ 16"
proof -
  let ?l = "\<lparr>lc_chars = cs, lc_map = [0..<length cs mod 2 ^ 16],
        lc_segs = [\<lparr>phys_row = row, char_offset = 0, cc_zero_indent = False, cc_seam = False\<rparr>],
        lc_cols = max (length cs) 1, lc_cwd = None\<rparr>"
  have "scan_logical_line env ?l = scan_text_line env cs row"
    by (simp only: scan_text_line_def scan_logical_line_def scan_line_into_matches_def if_cancel)
      (simp only: line_ctx.simps list.distinct if_False)
  then have "x \<in> set (scan_logical_line env ?l)" using assms by (simp only:)
  from logical_line_ok [OF this] obtain lo hi where c: "covers ?l lo hi x" unfolding link_in_def by blast
  then obtain k where k: "k < length (lc_segs ?l)" "part_seen ?l k lo hi" "part_at ?l k lo hi x"
    unfolding covers_def by blast
  have "l_row x = row" using k(1,3) by (simp add: part_at_def)
  moreover have p: "part_last ?l k hi < length (lc_map ?l)"
    using k(2) unfolding part_seen_def by blast
  then have "lc_map ?l ! part_last ?l k hi < length cs mod 2 ^ 16"
    using nth_mem [OF p] by simp
  then have "l_end x < length cs mod 2 ^ 16"
    using k(3) unfolding part_at_def by (metis min.strict_coboundedI1)
  ultimately show ?thesis using covers_bounds [OF c] by blast
qed

lemma demo_text_line: "scan_text_line demo_env [0x2F, 0x65] 0 = [demo_link]"
proof -
  have "[0..<length ([0x2F, 0x65] :: ustring) mod 2 ^ 16] = [0, 1]" by (simp add: upt_rec)
  then have "scan_text_line demo_env [0x2F, 0x65] 0 = scan_line_into_matches demo_env demo_line"
    unfolding scan_text_line_def demo_line_def by (simp only:) (simp add: numeral_2_eq_2)
  then show ?thesis using demo_scan by (simp add: scan_logical_line_def demo_line_def)
qed

lemma text_line_links_witness: "l_end demo_link < length ([0x2F, 0x65] :: ustring) mod 2 ^ 16"
  using text_line_links [of demo_link demo_env "[0x2F, 0x65]" 0] by (simp add: demo_text_line)

end
