(* ===== verification/Spec2Isabelle.thy ===== *)
theory Spec2Isabelle
  imports Parser Tabs Kitty Base64 ReflowRoundtrip TermProps
  WireProps InputProps SnapshotKeeps Frame WsProps SearchProps LinkProps
begin

text \<open>
  marspot is a terminal emulator.  A session process owns a pseudo terminal and feeds the bytes of
  the program into a \<open>Terminal\<close>; the application draws the \<open>Grid\<close> of that terminal, and the shell,
  the core and the sessions talk to each other in frames over sockets.  This development models the
  emulator and the protocols, from the byte stream to the cells and from a message to its bytes.
  Names of theories and definitions follow the code.

  \<^bold>\<open>How the parts interact.\<close>  \<open>Terminal::feed\<close> (\<open>TermFeed\<close>) settles echo predictions, takes a
  bulk lane where one applies, and otherwise steps the tokenizer (\<open>Parser\<close>, \<open>parser.rs\<close>), whose
  callbacks are a list of events here.  The handler (\<open>TermDispatch\<close>, \<open>TermModes\<close>, \<open>TermPrint\<close>,
  \<open>TermState\<close>, all of \<open>terminal.rs\<close>) turns an event into operations on the grid (\<open>Grid\<close>,
  \<open>GridScroll\<close>, \<open>GridRegion\<close>, \<open>GridReflow\<close>, \<open>GridEdit\<close>, \<open>GridPool\<close>; \<open>grid.rs\<close> and the editing
  helpers of \<open>terminal.rs\<close>), the pen (\<open>Sgr\<close>), the tab stops (\<open>Tabs\<close>, \<open>tabs.rs\<close>), the keyboard
  stack (\<open>Kitty\<close>), the palette (\<open>Palette\<close>, \<open>palette.rs\<close>) and the clipboard decoder (\<open>Base64\<close>,
  \<open>base64.rs\<close>).  Printing asks the grapheme cursor (\<open>Grapheme\<close>, \<open>grapheme.rs\<close>, over the property
  table of \<open>UnicodeData\<close>) for boundaries and \<open>Widths\<close> for columns.  Rows that leave the grid go to
  the ring of \<open>Scrollback\<close> (\<open>scrollback/memory.rs\<close>).

  A session that is handed over, or read from another process, goes through \<open>Snapshot\<close>: the
  terminal as bytes, those bytes applied to a new terminal, and pages of history
  (\<open>serialize_snapshot\<close>, \<open>apply_snapshot\<close>, \<open>encode_scrollback_page\<close> of \<open>terminal.rs\<close>).  The processes
  exchange frames (\<open>Wire\<close>) whose payloads are \<open>WireMessages\<close> and \<open>WirePanes\<close>, all of
  \<open>shell_proto.rs\<close>; a key travels in one of them and becomes bytes for the program in \<open>InputCore\<close>
  (\<open>input_core.rs\<close>).  \<open>Utf8\<close> is the part of the string library they share.

  Agent sessions send each other messages over the peer bus (\<open>crates/marspot-peer\<close>): a body is put in
  an \<open>Envelope\<close> (\<open>envelope.rs\<close>), the envelope in a \<open>Frame\<close> (\<open>frame.rs\<close>), one line of \<open>Json\<close> (\<open>json.rs\<close>;
  its numbers are the doubles of \<open>Float64\<close>).  \<open>Ws\<close> is the websocket client (\<open>ws.rs\<close>), whose handshake
  needs \<open>Sha1\<close> (\<open>sha1.rs\<close>).

  Two readers go over rows of cells.  \<open>Search\<close> (\<open>scrollback_search.rs\<close>) joins the rows of history and of
  the live grid into logical lines, newest first, and looks for a query in each; a hit is turned back
  into spans of cells, and the worker sends hits in the form of the wire.  \<open>Linkify\<close> (\<open>url.rs\<close>,
  \<open>email.rs\<close>, \<open>addr.rs\<close>, \<open>path.rs\<close>, \<open>seam.rs\<close> and the branches of \<open>line.rs\<close> in \<open>crates/marspot-linkify\<close>)
  says which link begins at a place of a line, \<open>LinkLine\<close> is the loop over the line, and \<open>LinkSurface\<close>
  (\<open>lib.rs\<close>, \<open>wrap.rs\<close>, \<open>table.rs\<close>, \<open>input_box.rs\<close>) makes lines of the rows of a screen and of the cells of
  tables.  \<open>Strings\<close> holds the string functions they share with the peer bus.

  \<^bold>\<open>How state is modelled.\<close>  A struct is a record, an enum a datatype, a \<open>u8\<close> a word; \<open>u16\<close> and
  \<open>usize\<close> counters are naturals with the saturation or the bound written out.  A method that takes
  \<open>&mut self\<close> is a function from the old record to the new.  The borrowed \<open>Handler\<close> is the terminal
  itself.  An index out of range sets \<open>g_panic\<close> of the grid, which no operation ever clears, so
  "never panics" is a statement about the final state.  A loop that might not end is a
  \<open>partial_function\<close> into option: \<open>None\<close> is "never returns".  A decoder that fails with
  \<open>InvalidData\<close> gives \<open>None\<close>; a reader that can fail in several ways gives the kind of the error.

  \<^bold>\<open>Parameters.\<close>  The ambiguous-width mode, which the code reads from the environment, and the
  markup setting are arguments.  The clock is the field \<open>t_now\<close>: one call reads one instant.  The
  websocket's random masks and the outcome of each write are the argument \<open>ws_env\<close>, and what the
  socket gives is a list of chunks and errors, so timeouts and splits at any byte are inputs; a list
  that has run out is a timeout.  The search takes the tables of the character library (lower case,
  alphanumeric), the source it reads and the answers of the cancel flag; the link scan takes the same
  classes and the oracle that says whether a path exists (\<open>link_env\<close>), and the screen as a record of the
  functions of its trait.

  \<^bold>\<open>What the lemmas show.\<close>  \<open>Parser\<close>: bounds of every buffer, round trips of UTF-8 and of control
  sequences, resynchronisation.  \<open>GridScroll\<close>, \<open>GridRegion\<close>: the rotated store implements list
  operations on rows, and the cluster pool stays consistent with the cells.  \<open>GridReflowWf\<close>,
  \<open>ReflowRoundtrip\<close>: a change of width keeps the invariant and the text of a line, unless a wide character
  of the cluster pool stands at the end of a row.  \<open>GridEdit\<close>, \<open>GridPool\<close>: erasing, inserting and the
  pool seen as texts.  \<open>Sgr\<close>: the pen after any sequence of renditions.  \<open>TermGrid\<close>, \<open>TermInv\<close>,
  \<open>TermSafe\<close>: every callback and every lane keeps \<open>term_wf\<close> and returns.  \<open>TermLanes\<close>: the bulk
  lanes equal printing one by one.  \<open>TermProps\<close>: sessions, the alternate screen, predictions, and
  the one-column terminal on which the wide lane never returns.  \<open>SnapshotRead\<close>, \<open>SnapshotProps\<close>:
  reading gives what was written; \<open>SnapshotKeeps\<close>: what a terminal is after the round trip, field by
  field, and so what it has lost.  \<open>WireProps\<close>: every message decodes to what was encoded, older peers are understood,
  and where a limit of the frame makes a message unsendable.  \<open>InputProps\<close>: the program reads back
  the key from the sequence, and a quoted path is one word for the shell.  \<open>JsonProps\<close>: the reader
  answers every text and reads back what was written, numbers to the bit.  \<open>Envelope\<close>, \<open>Frame\<close>: no body
  ends its envelope early, and a message line is read as it was meant.  \<open>WsProps\<close>: a message is
  reassembled however it is cut, and a timeout loses nothing.
  \<open>SearchProps\<close>: in the locale \<open>source\<close>, of which rows, the ring and the ring with the grid behind it are
  interpretations, a case-sensitive search delivers the leftmost occurrences of each logical line; every
  hit reads the query, and no query with two wide characters in a row is ever found, also where case does
  not matter, as long as lower case goes character by character.  \<open>LinkLine\<close>: every
  attempt moves on, so the loop ends, and a link lies over exactly the cells it was read from, segment by segment;
  \<open>LinkProps\<close>: the lines of a scan stand on the screen cell by cell, links
  stay on the screen and outside the composer, a file link is one the oracle confirmed, and what
  is left when shadowed ranges are dropped.

  \<^bold>\<open>Not modelled.\<close>  The file-backed scrollback, the shared-memory grid, the PTY, and outside
  \<open>marspot-term\<close> rendering, windows, processes, sockets and plugins: calls to the system or to
  services.  Pure parts that remain: layouts (floating-point geometry) and
  the binary tree of releases.
\<close>

end
